(* ===== verification/Prelude.thy ===== *)
theory Prelude
  imports Complex_Main "HOL-Library.Word" "HOL-Library.AList" "HOL-Library.Monad_Syntax"
begin

text \<open>
  What every component shares.

  \<^item> Raw frames and payloads are lists of bytes; \<open>byte_at\<close>, \<open>u16_at\<close> and \<open>u32_at\<close> are Python's
    \<open>data[i]\<close> and \<open>struct.unpack_from\<close> with the out-of-range exception as \<open>None\<close>, and \<open>pslice\<close> is the
    slice \<open>data[a:b]\<close>, which never raises.
  \<^item> A Python dict is an association list updated with \<open>AList.update\<close>, which keeps the insertion order
    that the code observes with \<open>next(iter(...))\<close> and \<open>.values()\<close>.
  \<^item> A method that may raise halfway, leaving the mutations made so far in place, is a command
    \<open>'s \<Rightarrow> 's \<times> bool\<close>: the state it leaves and whether it ran to its end.
  \<^item> The renderings that become dictionary keys (decimal and hexadecimal numbers, MAC addresses).
\<close>

unbundle bit_operations_syntax

named_theorems wire_simps
  \<comment> \<open>equations of the byte readers and of the constants of the wire formats\<close>
named_theorems cmd_rules
  \<comment> \<open>rules that propagate a property through commands\<close>

type_synonym byte = "8 word"
type_synonym bytes = "8 word list"

section \<open>Reading bytes\<close>

definition pslice :: "'a list \<Rightarrow> nat \<Rightarrow> nat \<Rightarrow> 'a list" where
  "pslice d a b = take (b - a) (drop a d)"

definition byte_at :: "bytes \<Rightarrow> nat \<Rightarrow> nat option" where
  "byte_at d i = (if i < length d then Some (unat (d ! i)) else None)"

definition u16_at :: "bytes \<Rightarrow> nat \<Rightarrow> nat option" where
  "u16_at d i = do { h \<leftarrow> byte_at d i; l \<leftarrow> byte_at d (i + 1); Some (256 * h + l) }"

definition u32_at :: "bytes \<Rightarrow> nat \<Rightarrow> nat option" where
  "u32_at d i = do { h \<leftarrow> u16_at d i; l \<leftarrow> u16_at d (i + 2); Some (65536 * h + l) }"

lemma length_pslice [simp]: "length (pslice d a b) = min (b - a) (length d - a)"
  by (simp add: pslice_def)

lemma pslice_in_range: "b \<le> length d \<Longrightarrow> length (pslice d a b) = b - a"
  by simp

lemma set_pslice: "set (pslice d a b) \<subseteq> set d"
  unfolding pslice_def by (meson set_drop_subset set_take_subset subset_trans)

lemma nth_pslice [simp]: "i < b - a \<Longrightarrow> a + i < length d \<Longrightarrow> pslice d a b ! i = d ! (a + i)"
  by (simp add: pslice_def)

lemma pslice_all [simp]: "pslice d 0 (length d) = d"
  by (simp add: pslice_def)

lemma byte_at_Some [simp]: "i < length d \<Longrightarrow> byte_at d i = Some (unat (d ! i))"
  by (simp add: byte_at_def)

lemma byte_at_None_iff [simp]: "byte_at d i = None \<longleftrightarrow> length d \<le> i"
  by (simp add: byte_at_def)

lemma unat_byte_lt [simp]: "unat (b :: byte) < 256"
proof -
  have "unat b < 2 ^ LENGTH(8)" by (rule unsigned_less)
  then show ?thesis by simp
qed

lemma byte_at_bound: "byte_at d i = Some v \<Longrightarrow> v < 256"
  by (auto simp: byte_at_def split: if_splits)

lemma byte_at_SomeD: "byte_at d i = Some v \<Longrightarrow> i < length d"
  by (simp add: byte_at_def split: if_splits)

lemma u16_at_Some: "i + 1 < length d \<Longrightarrow> u16_at d i = Some (256 * unat (d ! i) + unat (d ! (i + 1)))"
  by (simp add: u16_at_def)

lemma u16_at_ex: "i + 2 \<le> length d \<Longrightarrow> \<exists>v. u16_at d i = Some v"
  by (simp add: u16_at_Some)

lemma u16_at_None_iff [simp]: "u16_at d i = None \<longleftrightarrow> length d < i + 2"
  by (auto simp: u16_at_def Option.bind_eq_None_conv)

lemma u16_at_bound: "u16_at d i = Some v \<Longrightarrow> v < 65536"
  by (auto simp: u16_at_def bind_eq_Some_conv dest!: byte_at_bound)

lemma u16_at_SomeD: "u16_at d i = Some v \<Longrightarrow> i + 2 \<le> length d"
  using u16_at_None_iff[of d i] by fastforce

lemma u32_at_None_iff [simp]: "u32_at d i = None \<longleftrightarrow> length d < i + 4"
  by (auto simp: u32_at_def Option.bind_eq_None_conv)

lemma u32_at_bound: "u32_at d i = Some v \<Longrightarrow> v < 2 ^ 32"
  by (auto simp: u32_at_def bind_eq_Some_conv dest!: u16_at_bound)

lemma nat_and_le: "(x::nat) AND m \<le> m"
  unfolding and_nat_def by (simp add: nat_le_iff)

section \<open>Commands that may raise\<close>

type_synonym 's cmd = "'s \<Rightarrow> 's \<times> bool"

definition skipc :: "'s cmd" where
  "skipc s = (s, True)"

definition raisec :: "'s cmd" where
  "raisec s = (s, False)"

definition modc :: "('s \<Rightarrow> 's) \<Rightarrow> 's cmd" where
  "modc f s = (f s, True)"

definition seqc :: "'s cmd \<Rightarrow> 's cmd \<Rightarrow> 's cmd" where
  "seqc m k s = (let r = m s in if snd r then k (fst r) else r)"

definition readc :: "'a option \<Rightarrow> ('a \<Rightarrow> 's cmd) \<Rightarrow> 's cmd" where
  "readc x k = (case x of None \<Rightarrow> raisec | Some a \<Rightarrow> k a)"

definition whenc :: "bool \<Rightarrow> 's cmd \<Rightarrow> 's cmd" where
  "whenc b m = (if b then m else skipc)"

definition getc :: "('s \<Rightarrow> 's cmd) \<Rightarrow> 's cmd" where
  "getc k s = k s s"

definition safec :: "'s cmd \<Rightarrow> bool" where
  "safec m \<longleftrightarrow> (\<forall>s. snd (m s))"

lemma safec_intros [cmd_rules]:
  "safec skipc" "safec (modc f)"
  by (simp_all add: safec_def skipc_def modc_def)

lemma safec_seqc [cmd_rules]: "safec m \<Longrightarrow> safec k \<Longrightarrow> safec (seqc m k)"
  by (simp add: safec_def seqc_def Let_def)

lemma safec_readc [cmd_rules]: "x \<noteq> None \<Longrightarrow> (\<And>a. x = Some a \<Longrightarrow> safec (k a)) \<Longrightarrow> safec (readc x k)"
  by (auto simp: readc_def)

lemma safec_whenc [cmd_rules]: "(b \<Longrightarrow> safec m) \<Longrightarrow> safec (whenc b m)"
  by (simp add: whenc_def safec_intros)

lemma safec_if [cmd_rules]: "(b \<Longrightarrow> safec m) \<Longrightarrow> (\<not> b \<Longrightarrow> safec k) \<Longrightarrow> safec (if b then m else k)"
  by simp

lemma safec_getc [cmd_rules]: "(\<And>s. safec (k s)) \<Longrightarrow> safec (getc k)"
  by (simp add: safec_def getc_def)

lemma safec_snd: "safec m \<Longrightarrow> snd (m s)"
  by (simp add: safec_def)

text \<open>
  A relation between the state before and after, kept by every command built from steps that keep
  it: the interface behind each "this path leaves those counters alone" argument.
\<close>

locale step_relation =
  fixes R :: "'s \<Rightarrow> 's \<Rightarrow> bool"
  assumes R_refl: "R s s"
    and R_trans: "R s t \<Longrightarrow> R t u \<Longrightarrow> R s u"
begin

definition keeps :: "'s cmd \<Rightarrow> bool" where
  "keeps m \<longleftrightarrow> (\<forall>s. R s (fst (m s)))"

lemma keepsI: "(\<And>s. R s (fst (m s))) \<Longrightarrow> keeps m"
  by (simp add: keeps_def)

lemma keepsD: "keeps m \<Longrightarrow> R s (fst (m s))"
  by (simp add: keeps_def)

lemma keeps_skipc: "keeps skipc"
  by (simp add: keeps_def skipc_def R_refl)

lemma keeps_raisec: "keeps raisec"
  by (simp add: keeps_def raisec_def R_refl)

lemma keeps_modc: "(\<And>s. R s (f s)) \<Longrightarrow> keeps (modc f)"
  by (simp add: keeps_def modc_def)

lemma keeps_seqc: "keeps m \<Longrightarrow> keeps k \<Longrightarrow> keeps (seqc m k)"
  unfolding keeps_def seqc_def Let_def by (auto intro: R_trans)

lemma keeps_readc: "(\<And>a. x = Some a \<Longrightarrow> keeps (k a)) \<Longrightarrow> keeps (readc x k)"
  by (auto simp: readc_def keeps_raisec split: option.splits)

lemma keeps_whenc: "(b \<Longrightarrow> keeps m) \<Longrightarrow> keeps (whenc b m)"
  by (simp add: whenc_def keeps_skipc)

lemma keeps_if: "(b \<Longrightarrow> keeps m) \<Longrightarrow> (\<not> b \<Longrightarrow> keeps k) \<Longrightarrow> keeps (if b then m else k)"
  by simp

lemma keeps_getc: "(\<And>s. keeps (k s)) \<Longrightarrow> keeps (getc k)"
  by (simp add: keeps_def getc_def)

lemma R_foldr: "(\<And>x s. R s (f x s)) \<Longrightarrow> R s (fold f xs s)"
  by (induction xs arbitrary: s) (auto intro: R_refl R_trans)

lemmas keeps_rules = keeps_skipc keeps_raisec keeps_seqc keeps_readc keeps_whenc keeps_if keeps_getc

end

text \<open>
  The same with a guard that every step keeps and under which nothing raises, stated at one state so
  that a command that first looks something up in the state can use what it found.
\<close>

locale guarded_relation = step_relation R for R :: "'s \<Rightarrow> 's \<Rightarrow> bool" +
  fixes G :: "'s \<Rightarrow> bool"
  assumes G_step: "R s t \<Longrightarrow> G s \<Longrightarrow> G t"
begin

definition sound_at :: "'s \<Rightarrow> 's cmd \<Rightarrow> bool" where
  "sound_at s m \<longleftrightarrow> R s (fst (m s)) \<and> (G s \<longrightarrow> snd (m s))"

lemma sound_skipc: "sound_at s skipc"
  by (simp add: sound_at_def skipc_def R_refl)

lemma sound_modc: "R s (f s) \<Longrightarrow> sound_at s (modc f)"
  by (simp add: sound_at_def modc_def)

lemma sound_seqc_result:
  assumes "sound_at s m" "R s (fst (m s)) \<Longrightarrow> sound_at (fst (m s)) k"
  shows "sound_at s (seqc m k)"
proof -
  have "R s (fst (m s))" using assms(1) by (simp add: sound_at_def)
  with assms(2) have "R (fst (m s)) (fst (k (fst (m s))))" "G (fst (m s)) \<longrightarrow> snd (k (fst (m s)))"
    by (simp_all add: sound_at_def)
  with assms(1) show ?thesis
    by (auto simp: sound_at_def seqc_def Let_def intro: R_trans G_step)
qed

lemma sound_seqc:
  "sound_at s m \<Longrightarrow> (\<And>t. R s t \<Longrightarrow> sound_at t k) \<Longrightarrow> sound_at s (seqc m k)"
  by (rule sound_seqc_result)

lemma sound_readc:
  "(G s \<Longrightarrow> x \<noteq> None) \<Longrightarrow> (\<And>a. x = Some a \<Longrightarrow> sound_at s (k a)) \<Longrightarrow> sound_at s (readc x k)"
  by (cases x) (auto simp: sound_at_def readc_def raisec_def R_refl)

lemma sound_whenc: "(b \<Longrightarrow> sound_at s m) \<Longrightarrow> sound_at s (whenc b m)"
  by (simp add: whenc_def sound_skipc)

lemma sound_if: "(b \<Longrightarrow> sound_at s m) \<Longrightarrow> (\<not> b \<Longrightarrow> sound_at s k) \<Longrightarrow> sound_at s (if b then m else k)"
  by simp

lemma sound_getc: "sound_at s (k s) \<Longrightarrow> sound_at s (getc k)"
  by (simp add: sound_at_def getc_def)

lemmas sound_rules = sound_skipc sound_seqc sound_readc sound_whenc sound_if sound_getc

end

text \<open>What a command establishes when it starts in a given state: it runs to its end, and then \<open>Q\<close>.\<close>

definition wpc :: "'s cmd \<Rightarrow> ('s \<Rightarrow> bool) \<Rightarrow> 's \<Rightarrow> bool" where
  "wpc m Q s \<longleftrightarrow> snd (m s) \<and> Q (fst (m s))"

lemma wpc_simps:
  "wpc skipc Q s = Q s"
  "wpc (modc f) Q s = Q (f s)"
  "wpc (seqc m k) Q s = wpc m (wpc k Q) s"
  "wpc (readc x h) Q s = (\<exists>a. x = Some a \<and> wpc (h a) Q s)"
  "wpc (getc g) Q s = wpc (g s) Q s"
  "wpc (whenc b m) Q s = (if b then wpc m Q s else Q s)"
  by (auto simp: wpc_def skipc_def modc_def seqc_def readc_def getc_def whenc_def raisec_def Let_def
      split: option.splits)

lemma wpc_seqc: "wpc (seqc m k) Q = wpc m (wpc k Q)"
  by (rule ext) (rule wpc_simps)

lemma wpc_mono: "wpc m P s \<Longrightarrow> (\<And>t. P t \<Longrightarrow> Q t) \<Longrightarrow> wpc m Q s"
  by (auto simp: wpc_def)

section \<open>Dictionaries\<close>

abbreviation dset :: "'k \<Rightarrow> 'v \<Rightarrow> ('k \<times> 'v) list \<Rightarrow> ('k \<times> 'v) list" where
  "dset \<equiv> AList.update"

abbreviation keys :: "('k \<times> 'v) list \<Rightarrow> 'k list" where
  "keys d \<equiv> map fst d"

lemma length_dset: "length (dset k v d) = (if k \<in> set (keys d) then length d else Suc (length d))"
  by (induction d) auto

lemma map_of_Some_keys: "map_of d k = Some v \<Longrightarrow> k \<in> set (keys d)"
  by (metis domI dom_map_of_conv_image_fst image_set list.set_map)

lemma map_of_None_keys: "map_of d k = None \<longleftrightarrow> k \<notin> set (keys d)"
  by (simp add: map_of_eq_None_iff)

lemma dset_new: "k \<notin> set (keys d) \<Longrightarrow> dset k v d = d @ [(k, v)]"
  by (induction d) auto

lemma keys_dset_old: "k \<in> set (keys d) \<Longrightarrow> keys (dset k v d) = keys d"
  by (induction d) auto

lemma set_dset_subset: "set (dset k v d) \<subseteq> insert (k, v) (set d)"
  by (induction d) auto

lemma keys_dset_set: "set (keys (dset k v d)) = insert k (set (keys d))"
  by (induction d) auto

text \<open>Summing a measure over the values: writing one key changes the sum by the difference there.\<close>

definition dsum :: "('v \<Rightarrow> nat) \<Rightarrow> ('k \<times> 'v) list \<Rightarrow> nat" where
  "dsum f d = sum_list (map (f \<circ> snd) d)"

lemma dsum_Nil [simp]: "dsum f [] = 0"
  by (simp add: dsum_def)

lemma dsum_Cons [simp]: "dsum f (p # d) = f (snd p) + dsum f d"
  by (simp add: dsum_def)

lemma dsum_append [simp]: "dsum f (d @ e) = dsum f d + dsum f e"
  by (simp add: dsum_def)

lemma dsum_ge: "map_of d k = Some v \<Longrightarrow> f v \<le> dsum f d"
  by (induction d) (auto split: if_splits)

lemma dsum_dset:
  "dsum f (dset k v d) = dsum f d - (case map_of d k of None \<Rightarrow> 0 | Some w \<Rightarrow> f w) + f v"
proof (induction d)
  case (Cons p d)
  then show ?case
    using dsum_ge[of d k _ f] by (cases p) (fastforce split: option.splits)
qed simp

lemma dsum_dset_add:
  "f v = (case map_of d k of None \<Rightarrow> 0 | Some w \<Rightarrow> f w) + n \<Longrightarrow> dsum f (dset k v d) = dsum f d + n"
  using dsum_ge[of d k _ f] by (auto simp: dsum_dset split: option.splits)

lemma set_delete_subset: "set (AList.delete k d) \<subseteq> set d"
  by (auto simp: AList.delete_eq)

lemma dsum_delete:
  "distinct (keys d) \<Longrightarrow> map_of d k = Some v \<Longrightarrow> dsum f (AList.delete k d) + f v = dsum f d"
proof (induction d)
  case (Cons p d)
  show ?case
  proof (cases "fst p = k")
    case True
    then have "AList.delete k d = d"
      using Cons.prems(1) by auto
    with True Cons.prems show ?thesis by (cases p) simp
  next
    case False
    with Cons show ?thesis by (cases p) auto
  qed
qed simp

section \<open>Renderings\<close>

definition digit_char :: "nat \<Rightarrow> char" where
  "digit_char n = ''0123456789abcdef'' ! n"

text \<open>Digits of a number in a base, most significant first, as \<open>str()\<close> and \<open>format()\<close> produce them.\<close>

function show_base :: "nat \<Rightarrow> nat \<Rightarrow> string" where
  "show_base b n =
     (if b \<le> 1 \<or> n < b then [digit_char n] else show_base b (n div b) @ [digit_char (n mod b)])"
  by pat_completeness auto
termination
  by (relation "measure snd") auto

declare show_base.simps [simp del]

definition show_nat :: "nat \<Rightarrow> string" where
  "show_nat n = show_base 10 n"

definition hex2 :: "nat \<Rightarrow> string" where
  "hex2 n = [digit_char (n div 16), digit_char (n mod 16)]"

definition hex4 :: "nat \<Rightarrow> string" where
  "hex4 n = hex2 (n div 256) @ hex2 (n mod 256)"

text \<open>\<open>bytes.hex(":")\<close>: two lower-case digits a byte, joined with colons.\<close>

fun hex_colon :: "bytes \<Rightarrow> string" where
  "hex_colon [] = []"
| "hex_colon [b] = hex2 (unat b)"
| "hex_colon (b # bs) = hex2 (unat b) @ CHR '':'' # hex_colon bs"

lemma digit_char_digit: "n < 10 \<Longrightarrow> digit_char n \<in> set ''0123456789''"
  using nth_mem[of n "''0123456789''"]
  by (simp add: digit_char_def nth_append[of "''0123456789''" "''abcdef''" n, simplified])

lemma show_nat_digits: "set (show_nat n) \<subseteq> set ''0123456789'' \<and> show_nat n \<noteq> []"
  unfolding show_nat_def
proof (induction n rule: less_induct)
  case (less n)
  show ?case
  proof (cases "n < 10")
    case True
    then show ?thesis using digit_char_digit[of n] by (simp add: show_base.simps)
  next
    case False
    then show ?thesis
      using less.IH[of "n div 10"] digit_char_digit[of "n mod 10"]
      by (subst (1 2) show_base.simps) simp
  qed
qed

lemma digit_char_inj: "m < 16 \<Longrightarrow> n < 16 \<Longrightarrow> digit_char m = digit_char n \<Longrightarrow> m = n"
  unfolding digit_char_def by (subst (asm) nth_eq_iff_index_eq) simp_all

lemma hex2_inj: "m < 256 \<Longrightarrow> n < 256 \<Longrightarrow> hex2 m = hex2 n \<Longrightarrow> m = n"
proof -
  assume a: "m < 256" "n < 256" "hex2 m = hex2 n"
  then have "m div 16 = n div 16" "m mod 16 = n mod 16"
    using digit_char_inj[of "m div 16" "n div 16"] digit_char_inj[of "m mod 16" "n mod 16"]
    by (simp_all add: hex2_def)
  then show ?thesis by (metis div_mult_mod_eq)
qed

lemma length_hex2 [simp]: "length (hex2 n) = 2"
  by (simp add: hex2_def)

lemma hex_colon_Cons: "bs \<noteq> [] \<Longrightarrow> hex_colon (b # bs) = hex2 (unat b) @ CHR '':'' # hex_colon bs"
  by (cases bs) auto

lemma hex_colon_inj: "length xs = length ys \<Longrightarrow> hex_colon xs = hex_colon ys \<Longrightarrow> xs = ys"
proof (induction xs ys rule: list_induct2)
  case (Cons x xs y ys)
  show ?case
  proof (cases "xs = []")
    case True
    with Cons show ?thesis using hex2_inj[of "unat x" "unat y"] by (simp add: word_unat_eq_iff)
  next
    case False
    moreover from False Cons.hyps have "ys \<noteq> []" by auto
    ultimately have "hex2 (unat x) = hex2 (unat y)" "hex_colon xs = hex_colon ys"
      using Cons.prems by (simp_all add: hex_colon_Cons)
    with Cons.IH hex2_inj[of "unat x" "unat y"] show ?thesis
      by (simp add: word_unat_eq_iff)
  qed
qed simp


section \<open>Strings\<close>

definition ends_with :: "'a list \<Rightarrow> 'a list \<Rightarrow> bool" where
  "ends_with s suf \<longleftrightarrow> length suf \<le> length s \<and> drop (length s - length suf) s = suf"

lemma ends_with_iff: "ends_with s suf \<longleftrightarrow> (\<exists>p. s = p @ suf)"
  unfolding ends_with_def by (metis append_eq_conv_conj append_take_drop_id diff_add_inverse2
      le_add2 length_append)

lemma ends_with_append [simp]: "ends_with (p @ s) s"
  by (auto simp: ends_with_iff)

lemma ends_with_last: "suf \<noteq> [] \<Longrightarrow> ends_with s suf \<Longrightarrow> last s = last suf \<and> s \<noteq> []"
  by (auto simp: ends_with_iff)

text \<open>\<open>s.partition(c)\<close> for one character: before, whether found, after.\<close>

fun partition_at :: "char \<Rightarrow> string \<Rightarrow> string \<times> bool \<times> string" where
  "partition_at c [] = ([], False, [])"
| "partition_at c (x # xs) =
     (if x = c then ([], True, xs)
      else let r = partition_at c xs in (x # fst r, snd r))"

lemma partition_at_append: "c \<notin> set xs \<Longrightarrow> partition_at c (xs @ c # ys) = (xs, True, ys)"
  by (induction xs) (auto simp: Let_def)

fun split_on :: "'a \<Rightarrow> 'a list \<Rightarrow> 'a list list" where
  "split_on c [] = [[]]"
| "split_on c (x # xs) =
     (if x = c then [] # split_on c xs
      else case split_on c xs of [] \<Rightarrow> [[x]] | w # ws \<Rightarrow> (x # w) # ws)"

definition is_space :: "char \<Rightarrow> bool" where
  "is_space c \<longleftrightarrow> of_char c \<in> {9, 10, 11, 12, 13, 28, 29, 30, 31, 32 :: nat}"

definition strip :: "string \<Rightarrow> string" where
  "strip s = rev (dropWhile is_space (rev (dropWhile is_space s)))"

definition lower_char :: "char \<Rightarrow> char" where
  "lower_char c = (let n = of_char c :: nat in if 65 \<le> n \<and> n \<le> 90 then char_of (n + 32) else c)"

definition lower :: "string \<Rightarrow> string" where
  "lower s = map lower_char s"

definition hex_val :: "char \<Rightarrow> nat option" where
  "hex_val c = (let n = of_char c :: nat in
     if 48 \<le> n \<and> n \<le> 57 then Some (n - 48)
     else if 97 \<le> n \<and> n \<le> 102 then Some (n - 87)
     else if 65 \<le> n \<and> n \<le> 70 then Some (n - 55)
     else None)"

text \<open>White space as \<open>bytes.fromhex\<close> skips it: ASCII only, without the separators 28 to 31.\<close>

definition is_c_space :: "char \<Rightarrow> bool" where
  "is_c_space c \<longleftrightarrow> of_char c \<in> {9, 10, 11, 12, 13, 32 :: nat}"

text \<open>\<open>bytes.fromhex\<close>: pairs of digits, white space allowed between pairs, anything else raises.\<close>

fun fromhex :: "string \<Rightarrow> bytes option" where
  "fromhex [] = Some []"
| "fromhex [c] = (if is_c_space c then Some [] else None)"
| "fromhex (c # d # s) =
     (if is_c_space c then fromhex (d # s)
      else do { h \<leftarrow> hex_val c; l \<leftarrow> hex_val d; r \<leftarrow> fromhex s;
                Some (word_of_nat (16 * h + l) # r) })"

section \<open>Sorted lists\<close>

lemma sorted_le_last: "sorted xs \<Longrightarrow> x \<in> set xs \<Longrightarrow> x \<le> last xs"
  by (induction xs) auto

end
