(* ===== verification/Classify.thy ===== *)
theory Classify
  imports Prelude
begin

text \<open>
  Frame classification: the first half of \<^verbatim>\<open>frame-processor/app/accounting.py\<close> (the wire
  constants, \<open>ethernet_header_len\<close>, \<open>Classification\<close>, \<open>classify\<close> with its LLC, IPv4, IPv6
  and UDP parts, the checksum and the LLDP walk).

  A frame is a list of bytes and every read is checked: \<open>classify d = None\<close> would be the Python
  exception. Class names are the strings the code builds, numbers rendered included.
\<close>

section \<open>Wire constants\<close>

definition ETH_HEADER_LEN :: nat where [simp]: "ETH_HEADER_LEN = 14"
definition ETHERTYPE_LEN :: nat where [simp]: "ETHERTYPE_LEN = 2"
definition VLAN_TAG_LEN :: nat where [simp]: "VLAN_TAG_LEN = 4"
definition VLAN_TPIDS :: "bytes set" where [simp]: "VLAN_TPIDS = {[0x81, 0x00], [0x88, 0xa8]}"
definition ETH_MIN_FRAME_LEN :: nat where [simp]: "ETH_MIN_FRAME_LEN = 60"

definition ETHERTYPE_IPV4 :: nat where [simp]: "ETHERTYPE_IPV4 = 0x0800"
definition ETHERTYPE_ARP :: nat where [simp]: "ETHERTYPE_ARP = 0x0806"
definition ETHERTYPE_IPV6 :: nat where [simp]: "ETHERTYPE_IPV6 = 0x86DD"
definition ETHERTYPE_LLDP :: nat where [simp]: "ETHERTYPE_LLDP = 0x88CC"
definition ETHERTYPE_REALTEK :: nat where [simp]: "ETHERTYPE_REALTEK = 0x8899"
definition NAMED_ETHERTYPES :: "nat list" where [simp]:
  "NAMED_ETHERTYPES = [0x8892, 0x8847, 0x8863, 0x8864, 0x8808]"
  \<comment> \<open>PROFINET, MPLS, PPPoE discovery and session, flow control\<close>
definition ETHERTYPE_IS_LENGTH_BELOW :: nat where [simp]: "ETHERTYPE_IS_LENGTH_BELOW = 0x0600"
definition LLC_HEADER_LEN :: nat where [simp]: "LLC_HEADER_LEN = 3"
definition LLC_SAP_STP :: nat where [simp]: "LLC_SAP_STP = 0x42"

definition IPV4_IHL_MASK :: nat where [simp]: "IPV4_IHL_MASK = 0x0F"
definition HEADER_WORD_LEN :: nat where [simp]: "HEADER_WORD_LEN = 4"
definition MIN_IPV4_HEADER_LEN :: nat where [simp]: "MIN_IPV4_HEADER_LEN = 20"
definition IPV4_TOTAL_LEN_AT :: nat where [simp]: "IPV4_TOTAL_LEN_AT = 2"
definition IPV4_IDENT_AT :: nat where [simp]: "IPV4_IDENT_AT = 4"
definition IPV4_FLAGS_AT :: nat where [simp]: "IPV4_FLAGS_AT = 6"
definition IPV4_PROTOCOL_AT :: nat where [simp]: "IPV4_PROTOCOL_AT = 9"
definition IPV4_CHECKSUM_AT :: nat where [simp]: "IPV4_CHECKSUM_AT = 10"
definition IPV4_FLAG_RESERVED :: nat where [simp]: "IPV4_FLAG_RESERVED = 0x8000"
definition IPV4_FLAG_MORE :: nat where [simp]: "IPV4_FLAG_MORE = 0x2000"
definition IPV4_FRAG_OFFSET_MASK :: nat where [simp]: "IPV4_FRAG_OFFSET_MASK = 0x1FFF"
definition TCP_OFFSET_RESERVED_AT :: nat where [simp]: "TCP_OFFSET_RESERVED_AT = 12"
definition TCP_RESERVED_MASK :: nat where [simp]: "TCP_RESERVED_MASK = 0x0F"
definition TCP_FLAGS_AT :: nat where [simp]: "TCP_FLAGS_AT = 13"
definition TCP_FLAG_URG :: nat where [simp]: "TCP_FLAG_URG = 0x20"
definition TCP_URGENT_AT :: nat where [simp]: "TCP_URGENT_AT = 18"
definition TCP_MIN_HEADER_LEN :: nat where [simp]: "TCP_MIN_HEADER_LEN = 20"
definition ARP_HTYPE_ETHERNET :: nat where [simp]: "ARP_HTYPE_ETHERNET = 1"
definition ARP_HLEN_AT :: nat where [simp]: "ARP_HLEN_AT = 4"
definition ARP_PLEN_AT :: nat where [simp]: "ARP_PLEN_AT = 5"
definition ARP_OPCODE_AT :: nat where [simp]: "ARP_OPCODE_AT = 6"
definition ARP_SENDER_HW_AT :: nat where [simp]: "ARP_SENDER_HW_AT = 8"
definition ARP_TARGET_HW_AT :: nat where [simp]: "ARP_TARGET_HW_AT = 18"
definition ARP_IPV4_LEN :: nat where [simp]: "ARP_IPV4_LEN = 28"
definition ARP_REQUEST :: nat where [simp]: "ARP_REQUEST = 1"
definition ARP_REPLY :: nat where [simp]: "ARP_REPLY = 2"

definition IPV6_HEADER_LEN :: nat where [simp]: "IPV6_HEADER_LEN = 40"
definition IPV6_PAYLOAD_LEN_AT :: nat where [simp]: "IPV6_PAYLOAD_LEN_AT = 4"
definition IPV6_NEXT_HEADER_AT :: nat where [simp]: "IPV6_NEXT_HEADER_AT = 6"
definition IPV6_EXT_HEADERS :: "nat list" where [simp]:
  "IPV6_EXT_HEADERS = [0, 43, 60, 135, 139, 140]"
definition IPV6_FRAGMENT_HEADER :: nat where [simp]: "IPV6_FRAGMENT_HEADER = 44"
definition IPV6_NO_NEXT_HEADER :: nat where [simp]: "IPV6_NO_NEXT_HEADER = 59"

definition IPPROTO_ICMP :: nat where [simp]: "IPPROTO_ICMP = 1"
definition IPPROTO_IGMP :: nat where [simp]: "IPPROTO_IGMP = 2"
definition IPPROTO_TCP :: nat where [simp]: "IPPROTO_TCP = 6"
definition IPPROTO_UDP :: nat where [simp]: "IPPROTO_UDP = 17"
definition IPPROTO_ICMPV6 :: nat where [simp]: "IPPROTO_ICMPV6 = 58"
definition UDP_HEADER_LEN :: nat where [simp]: "UDP_HEADER_LEN = 8"
definition EPHEMERAL_PORT_FLOOR :: nat where [simp]: "EPHEMERAL_PORT_FLOOR = 49152"

definition UDP_CLASSES :: "(nat \<times> string) list" where
  "UDP_CLASSES =
     [(53, ''dns''), (67, ''dhcp''), (68, ''dhcp''), (123, ''ntp''), (546, ''dhcpv6''),
      (547, ''dhcpv6''), (1900, ''ssdp''), (4789, ''vxlan''), (5353, ''mdns'')]"

definition CLASS_TCP :: string where "CLASS_TCP = ''ipv4-tcp''"
definition CLASS_TCP6 :: string where "CLASS_TCP6 = ''ipv6-tcp''"
definition CLASS_UNCLASSIFIED :: string where "CLASS_UNCLASSIFIED = ''unclassified''"
definition CLASS_TRUNCATED :: string where "CLASS_TRUNCATED = ''truncated''"
definition CLASS_MALFORMED :: string where "CLASS_MALFORMED = ''malformed''"

lemmas class_names = CLASS_TCP_def CLASS_TCP6_def CLASS_UNCLASSIFIED_def CLASS_TRUNCATED_def
  CLASS_MALFORMED_def

definition UNPINNED_CLASSES :: "string list" where
  "UNPINNED_CLASSES =
     [''arp'', ''ssdp'', ''mdns'', ''dns'', ''ntp'', ''icmp'', ''vxlan'', CLASS_TCP, CLASS_TCP6,
      CLASS_TRUNCATED, CLASS_MALFORMED, CLASS_UNCLASSIFIED]"

section \<open>The Ethernet header\<close>

text \<open>
  The \<open>while\<close> loop over 802.1Q / 802.1ad tags: as long as the two bytes ending at \<open>header_len\<close> are
  a tag protocol identifier, step over the tag. A match needs both bytes to be there, so the
  remaining length shrinks and the loop stops.
\<close>

lemma tpid_slice: "pslice d (h - 2) h \<in> VLAN_TPIDS \<Longrightarrow> 2 \<le> h \<and> h \<le> length d"
proof -
  assume "pslice d (h - 2) h \<in> VLAN_TPIDS"
  then have "pslice d (h - 2) h = [0x81, 0x00] \<or> pslice d (h - 2) h = [0x88, 0xa8]" by simp
  then have "length (pslice d (h - 2) h) = 2" by (elim disjE) (simp_all del: length_pslice)
  then have "min (h - (h - 2)) (length d - (h - 2)) = 2" by simp
  then show ?thesis by linarith
qed

function eth_tag_loop :: "bytes \<Rightarrow> nat \<Rightarrow> nat" where
  "eth_tag_loop d header_len =
     (if pslice d (header_len - ETHERTYPE_LEN) header_len \<in> VLAN_TPIDS
      then eth_tag_loop d (header_len + VLAN_TAG_LEN) else header_len)"
  by pat_completeness auto
termination
  by (relation "measure (\<lambda>(d, h). length d + 4 - h)") (auto simp del: VLAN_TPIDS_def dest!: tpid_slice)

declare eth_tag_loop.simps [simp del]

definition ethernet_header_len :: "bytes \<Rightarrow> nat" where
  "ethernet_header_len d = eth_tag_loop d ETH_HEADER_LEN"

lemma eth_tag_loop_ge: "h \<le> eth_tag_loop d h"
proof (induction d h rule: eth_tag_loop.induct)
  case (1 d h)
  then show ?case by (subst eth_tag_loop.simps) (auto intro: order_trans)
qed

lemma ethernet_header_len_ge: "14 \<le> ethernet_header_len d"
  using eth_tag_loop_ge[of 14 d] by (simp add: ethernet_header_len_def)

lemma eth_tag_loop_mod: "eth_tag_loop d h mod 4 = h mod 4"
proof (induction d h rule: eth_tag_loop.induct)
  case (1 d h)
  then show ?case by (subst eth_tag_loop.simps) auto
qed

lemma eth_tag_loop_stops: "pslice d (eth_tag_loop d h - 2) (eth_tag_loop d h) \<notin> VLAN_TPIDS"
proof (induction d h rule: eth_tag_loop.induct)
  case (1 d h)
  then show ?case
    by (cases "pslice d (h - ETHERTYPE_LEN) h \<in> VLAN_TPIDS")
       (simp_all add: eth_tag_loop.simps[of d h])
qed

lemma eth_tag_loop_le: "h \<le> length d + 4 \<Longrightarrow> eth_tag_loop d h \<le> length d + 4"
proof (induction d h rule: eth_tag_loop.induct)
  case (1 d h)
  then show ?case using tpid_slice[of d h] by (subst eth_tag_loop.simps) auto
qed

section \<open>Classification\<close>

record classification =
  cname :: string
  pin_at :: nat
  content_end :: "nat option"
  derived :: "(nat \<times> nat) list"

definition Classification :: "string \<Rightarrow> nat \<Rightarrow> classification" where
  "Classification n p = \<lparr>cname = n, pin_at = p, content_end = None, derived = []\<rparr>"

definition Classification_end :: "string \<Rightarrow> nat \<Rightarrow> nat option \<Rightarrow> classification" where
  "Classification_end n p e = \<lparr>cname = n, pin_at = p, content_end = e, derived = []\<rparr>"

definition malformed_frame :: "bytes \<Rightarrow> classification" where
  "malformed_frame d = Classification CLASS_MALFORMED (length d)"

lemma Classification_sel [simp]:
  "cname (Classification n p) = n" "pin_at (Classification n p) = p"
  "content_end (Classification n p) = None" "derived (Classification n p) = []"
  "cname (Classification_end n p e) = n" "pin_at (Classification_end n p e) = p"
  "content_end (Classification_end n p e) = e" "derived (Classification_end n p e) = []"
  "cname (malformed_frame d) = CLASS_MALFORMED" "pin_at (malformed_frame d) = length d"
  "content_end (malformed_frame d) = None" "derived (malformed_frame d) = []"
  by (simp_all add: Classification_def Classification_end_def malformed_frame_def)

definition classify_udp ::
  "bytes \<Rightarrow> nat \<Rightarrow> nat option \<Rightarrow> (nat \<times> nat) list \<Rightarrow> classification option" where
  "classify_udp d udp_at cend der =
     (if length d < udp_at + UDP_HEADER_LEN then Some (malformed_frame d)
      else do {
        sport \<leftarrow> u16_at d udp_at;
        dport \<leftarrow> u16_at d (udp_at + 2);
        let payload_at = udp_at + UDP_HEADER_LEN;
        case (case map_of UDP_CLASSES dport of Some n \<Rightarrow> Some n | None \<Rightarrow> map_of UDP_CLASSES sport) of
          None \<Rightarrow>
            (let service = (if dport < EPHEMERAL_PORT_FLOOR then dport else sport) in
             Some \<lparr>cname = ''udp-'' @ show_nat service, pin_at = payload_at, content_end = cend,
                   derived = der\<rparr>)
        | Some n \<Rightarrow>
            Some \<lparr>cname = n, pin_at = payload_at, content_end = cend, derived = der\<rparr>
      })"

definition classify_llc :: "bytes \<Rightarrow> nat \<Rightarrow> nat \<Rightarrow> classification option" where
  "classify_llc d eth_at len =
     (if length d < eth_at + LLC_HEADER_LEN then Some (malformed_frame d)
      else do {
        dsap \<leftarrow> byte_at d eth_at;
        ssap \<leftarrow> byte_at d (eth_at + 1);
        if dsap = LLC_SAP_STP \<and> ssap = LLC_SAP_STP
        then Some (Classification_end ''stp'' eth_at (if len \<noteq> 0 then Some (eth_at + len) else None))
        else Some (Classification ''llc-other'' eth_at)
      })"

definition classify_ipv4 :: "bytes \<Rightarrow> nat \<Rightarrow> classification option" where
  "classify_ipv4 d eth_at =
     (if length d < eth_at + MIN_IPV4_HEADER_LEN then Some (malformed_frame d)
      else do {
        b \<leftarrow> byte_at d eth_at;
        let ihl = (b AND IPV4_IHL_MASK) * HEADER_WORD_LEN;
        if ihl < MIN_IPV4_HEADER_LEN \<or> length d < eth_at + ihl then Some (malformed_frame d)
        else do {
          total_len \<leftarrow> u16_at d (eth_at + IPV4_TOTAL_LEN_AT);
          let cend = (if MIN_IPV4_HEADER_LEN \<le> total_len \<and> total_len \<le> length d - eth_at
                      then Some (eth_at + total_len) else None);
          let transport_at = eth_at + ihl;
          protocol \<leftarrow> byte_at d (eth_at + IPV4_PROTOCOL_AT);
          let der = [(eth_at + IPV4_IDENT_AT, eth_at + IPV4_IDENT_AT + 2),
                     (eth_at + IPV4_CHECKSUM_AT, eth_at + IPV4_CHECKSUM_AT + 2)];
          let cls = (\<lambda>n. \<lparr>cname = n, pin_at = transport_at, content_end = cend, derived = der\<rparr>);
          if protocol = IPPROTO_TCP then Some (cls CLASS_TCP)
          else if protocol = IPPROTO_UDP then classify_udp d transport_at cend der
          else if protocol = IPPROTO_IGMP then Some (cls ''igmp'')
          else if protocol = IPPROTO_ICMP then Some (cls ''icmp'')
          else Some (cls (''ipv4-proto-'' @ show_nat protocol))
        }
      })"

text \<open>The bounded walk over IPv6 extension headers: at most eight, as \<open>for _ in range(8)\<close> says.\<close>

datatype ipv6_walk = Walk_malformed | Walk_fragment nat | Walk_transport nat nat

fun ipv6_ext_walk :: "bytes \<Rightarrow> nat \<Rightarrow> nat \<Rightarrow> nat \<Rightarrow> ipv6_walk option" where
  "ipv6_ext_walk d 0 next_header off = Some Walk_malformed"
| "ipv6_ext_walk d (Suc n) next_header off =
     (if next_header \<in> set IPV6_EXT_HEADERS then
        (if length d < off + 2 then Some Walk_malformed
         else do {
           nh \<leftarrow> byte_at d off;
           l \<leftarrow> byte_at d (off + 1);
           let off' = off + (l + 1) * 8;
           if off' > length d then Some Walk_malformed else ipv6_ext_walk d n nh off'
         })
      else if next_header = IPV6_FRAGMENT_HEADER then Some (Walk_fragment off)
      else Some (Walk_transport next_header off))"

definition classify_ipv6 :: "bytes \<Rightarrow> nat \<Rightarrow> classification option" where
  "classify_ipv6 d eth_at =
     (if length d < eth_at + IPV6_HEADER_LEN then Some (malformed_frame d)
      else do {
        payload_len \<leftarrow> u16_at d (eth_at + IPV6_PAYLOAD_LEN_AT);
        let e = eth_at + IPV6_HEADER_LEN + payload_len;
        let cend = (if e > length d then None else Some e);
        nh \<leftarrow> byte_at d (eth_at + IPV6_NEXT_HEADER_AT);
        w \<leftarrow> ipv6_ext_walk d 8 nh (eth_at + IPV6_HEADER_LEN);
        case w of
          Walk_malformed \<Rightarrow> Some (malformed_frame d)
        | Walk_fragment off \<Rightarrow> Some (Classification_end ''ipv6-fragment'' off cend)
        | Walk_transport next_header off \<Rightarrow>
            if next_header = IPPROTO_TCP then Some (Classification_end CLASS_TCP6 off cend)
            else if next_header = IPPROTO_UDP then classify_udp d off cend []
            else if next_header = IPPROTO_ICMPV6 then Some (Classification_end ''icmpv6'' off cend)
            else if next_header = IPV6_NO_NEXT_HEADER
              then Some (Classification_end ''ipv6-no-next'' off cend)
            else Some (Classification_end (''ipv6-proto-'' @ show_nat next_header) off cend)
      })"

definition classify :: "bytes \<Rightarrow> classification option" where
  "classify d =
     (if length d < ETH_HEADER_LEN then Some (malformed_frame d)
      else let eth_at = ethernet_header_len d in
        if length d < eth_at then Some (malformed_frame d)
        else do {
          ethertype \<leftarrow> u16_at d (eth_at - ETHERTYPE_LEN);
          if ethertype < ETHERTYPE_IS_LENGTH_BELOW then classify_llc d eth_at ethertype
          else if ethertype = ETHERTYPE_IPV4 then classify_ipv4 d eth_at
          else if ethertype = ETHERTYPE_IPV6 then classify_ipv6 d eth_at
          else if ethertype = ETHERTYPE_ARP then
            (if length d \<ge> eth_at + 8 then do {
               hlen \<leftarrow> byte_at d (eth_at + 4);
               plen \<leftarrow> byte_at d (eth_at + 5);
               Some (Classification_end ''arp'' eth_at (Some (eth_at + 8 + 2 * (hlen + plen))))
             } else Some (Classification_end ''arp'' eth_at None))
          else if ethertype = ETHERTYPE_LLDP then Some (Classification ''lldp'' eth_at)
          else if ethertype = ETHERTYPE_REALTEK then Some (Classification ''realtek'' eth_at)
          else if ethertype \<in> set NAMED_ETHERTYPES
            then Some (Classification (''eth-'' @ hex4 ethertype) eth_at)
          else Some (Classification ''eth-other'' eth_at)
        })"


section \<open>What classification guarantees\<close>

lemma eth_at_slice: "14 \<le> length d \<Longrightarrow> u16_at d (ethernet_header_len d - 2) = None
    \<longleftrightarrow> length d < ethernet_header_len d"
proof -
  assume "14 \<le> length d"
  moreover have "ethernet_header_len d - 2 + 2 = ethernet_header_len d"
    using ethernet_header_len_ge[of d] by linarith
  ultimately show ?thesis by (simp only: u16_at_None_iff)
qed

text \<open>The class of frame names that a successful read can produce, with the offsets in range.\<close>

definition placed :: "bytes \<Rightarrow> classification option \<Rightarrow> bool" where
  "placed d r \<longleftrightarrow> (\<exists>c. r = Some c \<and> pin_at c \<le> length d \<and>
     (\<forall>(a, b) \<in> set (derived c). a < b \<and> b \<le> length d) \<and>
     cname c \<notin> {CLASS_UNCLASSIFIED, CLASS_TRUNCATED})"

lemma placedI [intro]:
  "pin_at c \<le> length d \<Longrightarrow> (\<forall>(a, b) \<in> set (derived c). a < b \<and> b \<le> length d) \<Longrightarrow>
   cname c \<notin> {CLASS_UNCLASSIFIED, CLASS_TRUNCATED} \<Longrightarrow> placed d (Some c)"
  by (simp add: placed_def)

lemma placed_malformed [simp]: "placed d (Some (malformed_frame d))"
  by (auto simp: class_names)

lemma map_of_UDP_CLASSES:
  "map_of UDP_CLASSES p = Some n \<Longrightarrow>
   n \<in> {''dns'', ''dhcp'', ''ntp'', ''dhcpv6'', ''ssdp'', ''vxlan'', ''mdns''}"
  by (auto simp: UDP_CLASSES_def split: if_splits)

lemma placed_udp:
  assumes "\<forall>(a, b) \<in> set der. a < b \<and> b \<le> length d"
  shows "placed d (classify_udp d off cend der)"
proof (cases "length d < off + 8")
  case False
  then have "off + 2 \<le> length d" "(off + 2) + 2 \<le> length d" by linarith+
  then obtain sp dp where "u16_at d off = Some sp" "u16_at d (off + 2) = Some dp"
    by (meson u16_at_ex)
  with False assms show ?thesis
    by (auto simp: classify_udp_def Let_def placed_def class_names
        dest!: map_of_UDP_CLASSES split: option.splits)
qed (simp add: classify_udp_def)

lemma placed_llc: "eth_at \<le> length d \<Longrightarrow> placed d (classify_llc d eth_at len)"
  by (auto simp: classify_llc_def class_names)

lemma placed_ipv4: "eth_at \<le> length d \<Longrightarrow> placed d (classify_ipv4 d eth_at)"
proof (cases "length d < eth_at + 20")
  case False
  then have "(eth_at + 2) + 2 \<le> length d" by linarith
  then obtain t where t: "u16_at d (eth_at + 2) = Some t" by (meson u16_at_ex)
  with False show ?thesis
    by (auto simp: classify_ipv4_def Let_def class_names intro!: placedI placed_udp)
qed (simp add: classify_ipv4_def)

lemma ipv6_ext_walk_bounds:
  "off \<le> length d \<Longrightarrow> \<exists>w. ipv6_ext_walk d n nh off = Some w \<and>
     (case w of Walk_malformed \<Rightarrow> True | Walk_fragment o' \<Rightarrow> o' \<le> length d
              | Walk_transport _ o' \<Rightarrow> o' \<le> length d)"
  by (induction d n nh off rule: ipv6_ext_walk.induct) (auto simp: Let_def)

lemma placed_ipv6: "eth_at \<le> length d \<Longrightarrow> placed d (classify_ipv6 d eth_at)"
proof (cases "length d < eth_at + 40")
  case False
  then obtain pl where pl: "u16_at d (eth_at + 4) = Some pl"
    using u16_at_ex[of "eth_at + 4" d] by auto
  obtain w where w: "ipv6_ext_walk d 8 (unat (d ! (eth_at + 6))) (eth_at + 40) = Some w"
    and b: "case w of Walk_malformed \<Rightarrow> True | Walk_fragment o' \<Rightarrow> o' \<le> length d
              | Walk_transport _ o' \<Rightarrow> o' \<le> length d"
    using ipv6_ext_walk_bounds[of "eth_at + 40" d 8 "unat (d ! (eth_at + 6))"] False by auto
  from False pl w b show ?thesis
    by (cases w) (auto simp: classify_ipv6_def Let_def class_names simp del: ipv6_ext_walk.simps
        intro!: placedI placed_udp)
qed (simp add: classify_ipv6_def)

lemma placed_classify: "placed d (classify d)"
proof (cases "length d < 14 \<or> length d < ethernet_header_len d")
  case False
  then obtain et where et: "u16_at d (ethernet_header_len d - 2) = Some et"
    using eth_at_slice[of d] by (meson linorder_not_less not_None_eq)
  from False have "ethernet_header_len d \<le> length d" by simp
  with False et show ?thesis
    by (auto simp: classify_def Let_def class_names hex4_def
        intro!: placedI placed_llc placed_ipv4 placed_ipv6)
qed (auto simp: classify_def Let_def)

lemma classify_Some: "\<exists>c. classify d = Some c"
  using placed_classify[of d] by (auto simp: placed_def)

text \<open>The accountant's view of the result.\<close>

definition class_of :: "bytes \<Rightarrow> classification" where
  "class_of d = (case classify d of Some c \<Rightarrow> c | None \<Rightarrow> malformed_frame d)"

lemma classify_class_of: "classify d = Some (class_of d)"
  using classify_Some[of d] by (auto simp: class_of_def)

lemma class_of_bounds:
  "pin_at (class_of d) \<le> length d"
  "(a, b) \<in> set (derived (class_of d)) \<Longrightarrow> a < b \<and> b \<le> length d"
  "cname (class_of d) \<noteq> CLASS_UNCLASSIFIED" "cname (class_of d) \<noteq> CLASS_TRUNCATED"
  using placed_classify[of d] by (auto simp: placed_def classify_class_of)


text \<open>Only an IPv4 frame whose protocol field says TCP gets the class \<open>ipv4-tcp\<close>.\<close>

lemma classify_udp_not_tcp:
  "classify_udp d off cend der = Some c \<Longrightarrow> cname c \<noteq> CLASS_TCP \<and> cname c \<noteq> CLASS_TCP6"
  by (auto simp: classify_udp_def Let_def class_names malformed_frame_def Classification_def
      dest!: map_of_UDP_CLASSES split: if_splits bind_splits option.splits)

lemma classify_ipv6_not_tcp: "classify_ipv6 d eth_at = Some c \<Longrightarrow> cname c \<noteq> CLASS_TCP"
  by (auto simp: classify_ipv6_def Let_def class_names simp del: ipv6_ext_walk.simps
      dest!: classify_udp_not_tcp split: if_splits bind_splits ipv6_walk.splits)

lemma classify_ipv4_tcp:
  assumes "classify_ipv4 d eth_at = Some c" "cname c = CLASS_TCP"
  shows "eth_at + 20 \<le> length d \<and> eth_at + 20 \<le> pin_at c \<and> pin_at c \<le> length d \<and>
    byte_at d (eth_at + 9) = Some IPPROTO_TCP"
  using assms
  by (auto simp: classify_ipv4_def Let_def class_names
      dest!: classify_udp_not_tcp split: if_splits bind_splits)

lemma classify_tcp_is_ipv4:
  assumes "classify d = Some c" "cname c = CLASS_TCP"
  shows "ethernet_header_len d \<le> length d \<and> 14 \<le> length d \<and>
    u16_at d (ethernet_header_len d - 2) = Some ETHERTYPE_IPV4 \<and>
    classify_ipv4 d (ethernet_header_len d) = Some c"
  using assms
  by (auto simp: classify_def Let_def class_names classify_llc_def hex4_def
      dest!: classify_ipv6_not_tcp split: if_splits bind_splits)

lemma class_tcp_is_ipv4:
  assumes "cname (class_of d) = CLASS_TCP"
  shows "ethernet_header_len d \<le> length d" "14 \<le> length d"
    "u16_at d (ethernet_header_len d - 2) = Some ETHERTYPE_IPV4"
    "classify_ipv4 d (ethernet_header_len d) = Some (class_of d)"
  using classify_tcp_is_ipv4[OF classify_class_of assms] by simp_all

end
