(* ===== verification/Reassembly.thy ===== *)
theory Reassembly
  imports Prelude "HOL-Library.List_Lexorder" "HOL-Library.Char_ord" "HOL-Library.Product_Lexorder"
begin

text \<open>
  TCP reassembly, \<^verbatim>\<open>frame-processor/app/reassembly.py\<close>: one \<open>DirectionStream\<close> per sender, which
  turns segments in any order into the contiguous bytes they carry, and the \<open>ConnectionTable\<close> that
  keeps a connection per pair of endpoints and remembers closed ones.

  Sequence numbers are naturals with the modulus written out. The parser slot of a connection is not
  modelled (reassembly never looks inside it), and \<open>FRAME_PROCESSOR_MAX_STRANDED_BYTES\<close> is the
  argument \<open>max_stranded\<close>.
\<close>

section \<open>Segments\<close>

text \<open>\<open>Endpoint\<close>: host and port, ordered as the tuple is.\<close>

datatype endpoint = Endpoint (ep_host: string) (ep_port: nat)

instantiation endpoint :: linorder
begin

definition less_eq_endpoint :: "endpoint \<Rightarrow> endpoint \<Rightarrow> bool" where
  "e \<le> f \<longleftrightarrow> (ep_host e, ep_port e) \<le> (ep_host f, ep_port f)"

definition less_endpoint :: "endpoint \<Rightarrow> endpoint \<Rightarrow> bool" where
  "e < f \<longleftrightarrow> (ep_host e, ep_port e) < (ep_host f, ep_port f)"

instance
proof
  fix e f g :: endpoint
  show "(e < f) = (e \<le> f \<and> \<not> f \<le> e)" by (auto simp: less_eq_endpoint_def less_endpoint_def)
  show "e \<le> e" by (simp add: less_eq_endpoint_def)
  show "e \<le> f \<Longrightarrow> f \<le> g \<Longrightarrow> e \<le> g" unfolding less_eq_endpoint_def by (rule order_trans)
  show "e \<le> f \<Longrightarrow> f \<le> e \<Longrightarrow> e = f"
    unfolding less_eq_endpoint_def by (metis antisym endpoint.collapse prod.inject)
  show "e \<le> f \<or> f \<le> e" unfolding less_eq_endpoint_def by (rule linear)
qed

end

record tcp_segment =
  sg_ts :: real
  sg_src :: string
  sg_sport :: nat
  sg_dst :: string
  sg_dport :: nat
  sg_seq :: nat
  sg_syn :: bool
  sg_ack :: bool
  sg_fin :: bool
  sg_rst :: bool
  sg_payload :: bytes

definition SEQ_MOD :: nat where "SEQ_MOD = 2 ^ 32"

definition before :: "nat \<Rightarrow> nat \<Rightarrow> bool" where
  "before a b \<longleftrightarrow>
     (let d = (int b - int a) mod int SEQ_MOD in 0 < d \<and> d < int SEQ_MOD div 2)"

section \<open>One direction\<close>

record direction_stream =
  retain :: bool
  next_seq :: "nat option"
  sdata :: bytes
  held_segs :: "(nat \<times> bytes) list"
  s_first_ts :: "real option"
  s_last_ts :: "real option"
  fin_seq :: "nat option"
  lost :: bool
  stranded :: int

definition new_stream :: "bool \<Rightarrow> direction_stream" where
  "new_stream keep =
     \<lparr>retain = keep, next_seq = None, sdata = [], held_segs = [], s_first_ts = None, s_last_ts = None,
      fin_seq = None, lost = False, stranded = 0\<rparr>"

lemma length_delete_less: "map_of d k = Some v \<Longrightarrow> length (AList.delete k d) < length d"
proof (induction d)
  case (Cons p d)
  have "length (AList.delete k d) \<le> length d" by (simp add: AList.delete_eq)
  with Cons show ?case by (cases p) (auto split: if_splits)
qed simp

text \<open>The loop of \<open>_release_pending\<close>: pop what has become next, until nothing has.\<close>

function release_loop :: "nat \<Rightarrow> (nat \<times> bytes) list \<Rightarrow> int \<Rightarrow> bytes
    \<Rightarrow> nat \<times> (nat \<times> bytes) list \<times> int \<times> bytes" where
  "release_loop nxt held str chunks =
     (case map_of held nxt of
        None \<Rightarrow> (nxt, held, str, chunks)
      | Some p \<Rightarrow>
          release_loop ((nxt + length p) mod SEQ_MOD) (AList.delete nxt held)
            (str - int (length p)) (chunks @ p))"
  by pat_completeness auto

termination
  by (relation "measure (\<lambda>(nxt, held, str, chunks). length held)")
     (simp_all add: length_delete_less)

declare release_loop.simps [simp del]

text \<open>Popping the entries left behind the next sequence number.\<close>

definition drop_stale :: "nat \<Rightarrow> (nat \<times> bytes) list \<times> int \<Rightarrow> (nat \<times> bytes) list \<times> int" where
  "drop_stale nxt st =
     fold (\<lambda>s (held, str). (AList.delete s held,
             str - (case map_of held s of Some p \<Rightarrow> int (length p) | None \<Rightarrow> 0)))
          (filter (\<lambda>s. before s nxt) (keys (fst st))) st"

definition release_pending :: "bytes \<Rightarrow> nat \<Rightarrow> direction_stream \<Rightarrow> direction_stream \<times> bytes" where
  "release_pending payload started s =
     (let (nxt, held, str, fresh) =
            release_loop ((started + length payload) mod SEQ_MOD) (held_segs s) (stranded s) payload;
          (held', str') =
            (if held \<noteq> [] \<and> nxt \<noteq> started then drop_stale nxt (held, str) else (held, str)) in
      (s\<lparr>next_seq := Some nxt, held_segs := held', stranded := str',
         sdata := (if retain s then sdata s @ fresh else sdata s)\<rparr>, fresh))"

definition abandon :: "direction_stream \<Rightarrow> direction_stream" where
  "abandon s = s\<lparr>held_segs := [], stranded := 0, lost := True\<rparr>"

definition check_stranded :: "int \<Rightarrow> direction_stream \<Rightarrow> direction_stream" where
  "check_stranded max_stranded s = (if stranded s > max_stranded then abandon s else s)"

text \<open>What every segment does first: the time stamps, the first sequence number, the FIN.\<close>

definition note_segment :: "tcp_segment \<Rightarrow> direction_stream \<Rightarrow> direction_stream" where
  "note_segment sg s =
     s\<lparr>s_first_ts := (case s_first_ts s of None \<Rightarrow> Some (sg_ts sg) | Some t \<Rightarrow> Some t),
       s_last_ts := Some (sg_ts sg),
       next_seq := (case next_seq s of
          None \<Rightarrow> Some (if sg_syn sg then (sg_seq sg + 1) mod SEQ_MOD else sg_seq sg)
        | Some n \<Rightarrow> Some n),
       fin_seq := (if sg_fin sg then Some ((sg_seq sg + length (sg_payload sg)) mod SEQ_MOD)
                   else fin_seq s)\<rparr>"

text \<open>Data at or beyond \<open>nxt\<close>, the next expected number, on a stream that is not lost.\<close>

definition accept :: "int \<Rightarrow> nat \<Rightarrow> nat \<Rightarrow> bytes \<Rightarrow> direction_stream \<Rightarrow> direction_stream \<times> bytes" where
  "accept max_stranded nxt sq payload s =
     (if sq = nxt then
        if held_segs s = [] then
          (s\<lparr>next_seq := Some ((nxt + length payload) mod SEQ_MOD),
             sdata := (if retain s then sdata s @ payload else sdata s)\<rparr>, payload)
        else (let (s1, fresh) = release_pending payload nxt s in
              (check_stranded max_stranded s1, fresh))
      else
        (let old = map_of (held_segs s) sq;
             s1 = (if (case old of None \<Rightarrow> True | Some h \<Rightarrow> length h < length payload)
                   then s\<lparr>held_segs := dset sq payload (held_segs s),
                          stranded := stranded s + int (length payload)
                            - (case old of None \<Rightarrow> 0 | Some h \<Rightarrow> int (length h))\<rparr>
                   else s) in
         (check_stranded max_stranded s1, [])))"

definition stream_feed :: "int \<Rightarrow> tcp_segment \<Rightarrow> direction_stream \<Rightarrow> direction_stream \<times> bytes" where
  "stream_feed max_stranded sg s0 =
     (let s = note_segment sg s0; nxt = the (next_seq s) in
      if sg_payload sg = [] \<or> lost s \<or> before (sg_seq sg) nxt then (s, [])
      else accept max_stranded nxt (sg_seq sg) (sg_payload sg) s)"

definition stream_has_gap :: "direction_stream \<Rightarrow> bool" where
  "stream_has_gap s \<longleftrightarrow> held_segs s \<noteq> [] \<or> lost s"

definition stream_closed :: "direction_stream \<Rightarrow> bool" where
  "stream_closed s =
     (case (fin_seq s, next_seq s) of
        (Some f, Some n) \<Rightarrow> \<not> before n f
      | _ \<Rightarrow> False)"

section \<open>Connections\<close>

type_synonym connection_key = "endpoint \<times> endpoint"

definition connection_key :: "endpoint \<Rightarrow> endpoint \<Rightarrow> connection_key" where
  "connection_key l r = (if l \<le> r then (l, r) else (r, l))"

record connection =
  initiator :: endpoint
  responder :: endpoint
  directions :: "(endpoint \<times> direction_stream) list"
  conn_rst :: bool
  conn_retain :: bool

text \<open>\<open>stream\<close> creates a missing direction; \<open>with_stream\<close> is the connection it leaves.\<close>

definition conn_stream :: "endpoint \<Rightarrow> connection \<Rightarrow> direction_stream" where
  "conn_stream e c = (case map_of (directions c) e of Some s \<Rightarrow> s | None \<Rightarrow> new_stream (conn_retain c))"

definition put_stream :: "endpoint \<Rightarrow> direction_stream \<Rightarrow> connection \<Rightarrow> connection" where
  "put_stream e s c = c\<lparr>directions := dset e s (directions c)\<rparr>"

definition client_data :: "connection \<Rightarrow> bytes" where
  "client_data c = sdata (conn_stream (initiator c) c)"

definition server_data :: "connection \<Rightarrow> bytes" where
  "server_data c = sdata (conn_stream (responder c) c)"

definition conn_first_ts :: "connection \<Rightarrow> real option" where
  "conn_first_ts c = (let stamps = List.map_filter (s_first_ts \<circ> snd) (directions c) in
     if stamps = [] then None else Some (Min (set stamps)))"

definition conn_last_ts :: "connection \<Rightarrow> real option" where
  "conn_last_ts c = (let stamps = List.map_filter (s_last_ts \<circ> snd) (directions c) in
     if stamps = [] then None else Some (Max (set stamps)))"

definition conn_complete :: "connection \<Rightarrow> bool" where
  "conn_complete c \<longleftrightarrow>
     conn_rst c \<or> length (directions c) = 2 \<and> (\<forall>es \<in> set (directions c). stream_closed (snd es))"

definition conn_has_gap :: "connection \<Rightarrow> bool" where
  "conn_has_gap c \<longleftrightarrow> (\<exists>es \<in> set (directions c). stream_has_gap (snd es))"

record delivery =
  dl_conn :: connection
  dl_from_client :: bool
  dl_data :: bytes
  dl_ts :: real
  dl_completed :: bool

section \<open>The table\<close>

definition CLOSED_MEMORY :: nat where "CLOSED_MEMORY = 1024"

record table =
  tb_conns :: "(connection_key \<times> connection) list"
  tb_closed :: "(connection_key \<times> unit) list"
  tb_retain :: bool

definition new_table :: "bool \<Rightarrow> table" where
  "new_table keep = \<lparr>tb_conns = [], tb_closed = [], tb_retain = keep\<rparr>"

definition roles :: "tcp_segment \<Rightarrow> endpoint \<Rightarrow> endpoint \<Rightarrow> endpoint \<times> endpoint" where
  "roles sg sender receiver =
     (if sg_syn sg \<and> sg_ack sg then (receiver, sender) else (sender, receiver))"

text \<open>Forgetting the oldest closed connections beyond the memory.\<close>

function trim_closed :: "(connection_key \<times> unit) list \<Rightarrow> (connection_key \<times> unit) list" where
  "trim_closed cs = (if length cs > CLOSED_MEMORY then trim_closed (tl cs) else cs)"
  by pat_completeness auto
termination
  by (relation "measure length") (auto simp: CLOSED_MEMORY_def)

declare trim_closed.simps [simp del]

text \<open>The connection a segment belongs to, and the closed keys left; \<open>None\<close> drops the segment.\<close>

definition open_connection ::
  "tcp_segment \<Rightarrow> table \<Rightarrow> (connection \<times> (connection_key \<times> unit) list) option" where
  "open_connection sg t =
     (let sender = Endpoint (sg_src sg) (sg_sport sg); receiver = Endpoint (sg_dst sg) (sg_dport sg);
          key = connection_key sender receiver in
      case map_of (tb_conns t) key of
        Some c \<Rightarrow> Some (c, tb_closed t)
      | None \<Rightarrow>
          if map_of (tb_closed t) key \<noteq> None \<and> \<not> sg_syn sg then None
          else (let (ini, resp) = roles sg sender receiver in
            Some (\<lparr>initiator = ini, responder = resp, directions = [], conn_rst = False,
                   conn_retain = tb_retain t\<rparr>,
                  AList.delete key (tb_closed t))))"

definition table_feed :: "int \<Rightarrow> tcp_segment \<Rightarrow> table \<Rightarrow> delivery option \<times> table" where
  "table_feed max_stranded sg t =
     (let sender = Endpoint (sg_src sg) (sg_sport sg); receiver = Endpoint (sg_dst sg) (sg_dport sg);
          key = connection_key sender receiver in
      case open_connection sg t of
        None \<Rightarrow> (None, t)
      | Some (c0, gone) \<Rightarrow>
          (let (s, fresh) = stream_feed max_stranded sg (conn_stream sender c0);
               c1 = put_stream sender s c0;
               c = (if sg_rst sg then c1\<lparr>conn_rst := True\<rparr> else c1);
               completed = conn_complete c;
               t1 = t\<lparr>tb_conns := (if completed then AList.delete key (tb_conns t)
                                   else dset key c (tb_conns t)),
                      tb_closed := (if completed then trim_closed (dset key () gone) else gone)\<rparr> in
           (Some \<lparr>dl_conn = c, dl_from_client = (sender = initiator c), dl_data = fresh,
                  dl_ts = sg_ts sg, dl_completed = completed\<rparr>, t1)))"

definition is_idle :: "real \<Rightarrow> real \<Rightarrow> connection \<Rightarrow> bool" where
  "is_idle now idle_timeout c =
     (case conn_last_ts c of None \<Rightarrow> False | Some l \<Rightarrow> l \<noteq> 0 \<and> now - l > idle_timeout)"

definition idle_flush :: "real \<Rightarrow> real \<Rightarrow> table \<Rightarrow> connection list \<times> table" where
  "idle_flush now idle_timeout t =
     (map snd (filter (\<lambda>kc. is_idle now idle_timeout (snd kc)) (tb_conns t)),
      t\<lparr>tb_conns := filter (\<lambda>kc. \<not> is_idle now idle_timeout (snd kc)) (tb_conns t)\<rparr>)"

definition drain :: "table \<Rightarrow> connection list \<times> table" where
  "drain t = (map snd (tb_conns t), t\<lparr>tb_conns := []\<rparr>)"

end
