(* ===== verification/Capture.thy ===== *)
theory Capture
  imports Classify Reassembly
begin

text \<open>
  The decoding half of \<^verbatim>\<open>frame-processor/app/capture.py\<close>: the single-pass raw decoder of
  Ethernet / IPv4 [/ VXLAN] / TCP frames, the port filter, and the slow path through dpkt.

  dpkt is third-party code: its result on a frame is the argument \<open>dissect\<close>, a function into the
  datatype \<open>dp_net\<close> of what \<open>_decode\<close> reads from dpkt's objects (\<open>None\<close> when dpkt raises);
  \<open>inet_ntop\<close> for IPv6 is the C library's and is the argument \<open>ntop6\<close>. The process-wide settings
  are the record \<open>capture_cfg\<close>. \<open>_note_fragment\<close> only counts and logs; a decode says whether it
  called it.
\<close>

section \<open>Constants\<close>

definition ETHERTYPE_OFFSET :: nat where [simp]: "ETHERTYPE_OFFSET = 12"
definition VLAN_TCI_LEN :: nat where [simp]: "VLAN_TCI_LEN = 2"
definition VLAN_TPID_VALUES :: "nat set" where [simp]: "VLAN_TPID_VALUES = {0x8100, 0x88A8}"
definition VXLAN_HEADER_LEN :: nat where [simp]: "VXLAN_HEADER_LEN = 8"
definition VXLAN_FLAG_VNI :: nat where [simp]: "VXLAN_FLAG_VNI = 0x08"
definition IPV4_FRAGMENT_MASK :: nat where [simp]: "IPV4_FRAGMENT_MASK = 0x3FFF"
definition IP_SRC_AT :: nat where [simp]: "IP_SRC_AT = 12"
definition IP_DST_AT :: nat where [simp]: "IP_DST_AT = 16"
definition IPV4_ADDR_LEN :: nat where [simp]: "IPV4_ADDR_LEN = 4"
definition UDP_DPORT_AT :: nat where [simp]: "UDP_DPORT_AT = 2"
definition MIN_TCP_HEADER_LEN :: nat where [simp]: "MIN_TCP_HEADER_LEN = 20"
definition TCP_DATA_OFFSET_AT :: nat where [simp]: "TCP_DATA_OFFSET_AT = 12"
definition TCP_CONTROL_AT :: nat where [simp]: "TCP_CONTROL_AT = 13"
definition TH_FIN_BIT :: nat where [simp]: "TH_FIN_BIT = 0x01"
definition TH_SYN_BIT :: nat where [simp]: "TH_SYN_BIT = 0x02"
definition TH_RST_BIT :: nat where [simp]: "TH_RST_BIT = 0x04"
definition TH_ACK_BIT :: nat where [simp]: "TH_ACK_BIT = 0x10"
definition MAX_TRAILER :: int where [simp]: "MAX_TRAILER = 60"

record capture_cfg =
  fp_ports :: "nat set option"
  fp_exclude_ports :: "nat set"
  fp_decap_ports :: "nat set"
  fp_fast_classify :: bool

section \<open>Which segments are worth reassembling\<close>

definition ports_allowed :: "nat \<Rightarrow> nat \<Rightarrow> nat set option \<Rightarrow> nat set \<Rightarrow> bool" where
  "ports_allowed sport dport include_ports exclude_ports =
     (if exclude_ports \<noteq> {} \<and> (sport \<in> exclude_ports \<or> dport \<in> exclude_ports) then False
      else case include_ports of None \<Rightarrow> True | Some ps \<Rightarrow> sport \<in> ps \<or> dport \<in> ps)"

definition carries_reassembly_state :: "tcp_segment \<Rightarrow> bool" where
  "carries_reassembly_state sg \<longleftrightarrow> sg_payload sg \<noteq> [] \<or> sg_syn sg \<or> sg_fin sg \<or> sg_rst sg"

definition is_reassembly_candidate :: "tcp_segment \<Rightarrow> nat set option \<Rightarrow> nat set \<Rightarrow> bool" where
  "is_reassembly_candidate sg inc exc \<longleftrightarrow>
     ports_allowed (sg_sport sg) (sg_dport sg) inc exc \<and> carries_reassembly_state sg"

definition configured_candidate :: "capture_cfg \<Rightarrow> tcp_segment \<Rightarrow> bool" where
  "configured_candidate c sg = is_reassembly_candidate sg (fp_ports c) (fp_exclude_ports c)"

section \<open>The raw decoder\<close>

text \<open>
  The outcome of the raw decoder: \<open>_RAW_FALLBACK\<close>, \<open>None\<close>, \<open>None\<close> after \<open>_note_fragment\<close>, or a
  segment. Around it, \<open>None\<close> is an exception.
\<close>

datatype raw = Raw_fallback | Raw_none | Raw_fragment | Raw_segment tcp_segment

definition inet_ntop4 :: "bytes \<Rightarrow> string" where
  "inet_ntop4 bs = concat (case bs of [] \<Rightarrow> [] | b # rest \<Rightarrow>
     show_nat (unat b) # map (\<lambda>x. CHR ''.'' # show_nat (unat x)) rest)"

text \<open>The inner loop over VLAN tags: the EtherType and where the network layer starts.\<close>

function raw_tags :: "bytes \<Rightarrow> nat \<Rightarrow> nat \<Rightarrow> (nat \<times> nat) option option" where
  "raw_tags d ethertype ip_at =
     (if ethertype \<notin> VLAN_TPID_VALUES then Some (Some (ethertype, ip_at))
      else if length d < ip_at + VLAN_TAG_LEN then Some None
      else case u16_at d (ip_at + VLAN_TCI_LEN) of
             None \<Rightarrow> None
           | Some e \<Rightarrow> raw_tags d e (ip_at + VLAN_TAG_LEN))"
  by pat_completeness auto
termination
  by (relation "measure (\<lambda>(d, e, off). length d + 4 - off)") auto

declare raw_tags.simps [simp del]

text \<open>From the TCP header on; \<open>declared_end\<close> is where the IP total length says the frame ends.\<close>

definition raw_tcp ::
  "capture_cfg \<Rightarrow> bytes \<Rightarrow> real \<Rightarrow> bool \<Rightarrow> nat \<Rightarrow> nat \<Rightarrow> nat \<Rightarrow> raw option" where
  "raw_tcp c d ts candidate_only ip_at ip_total_len transport_at =
     (if length d < transport_at + MIN_TCP_HEADER_LEN then Some Raw_fallback
      else do {
        sport \<leftarrow> u16_at d transport_at;
        dport \<leftarrow> u16_at d (transport_at + 2);
        sq \<leftarrow> u32_at d (transport_at + 4);
        off \<leftarrow> byte_at d (transport_at + TCP_DATA_OFFSET_AT);
        let tcp_header_len = drop_bit 4 off * HEADER_WORD_LEN;
        if tcp_header_len < MIN_TCP_HEADER_LEN \<or> length d < transport_at + tcp_header_len
        then Some Raw_fallback
        else do {
          flags \<leftarrow> byte_at d (transport_at + TCP_CONTROL_AT);
          let syn = flags AND TH_SYN_BIT \<noteq> 0;
          let ack = flags AND TH_ACK_BIT \<noteq> 0;
          let fin = flags AND TH_FIN_BIT \<noteq> 0;
          let rst = flags AND TH_RST_BIT \<noteq> 0;
          let payload_at = transport_at + tcp_header_len;
          let declared_end = ip_at + ip_total_len;
          let payload_end = (if int (length d) - int declared_end > MAX_TRAILER then length d
                             else min (length d) declared_end);
          if payload_end < payload_at then Some Raw_fallback
          else if candidate_only \<and> \<not> ports_allowed sport dport (fp_ports c) (fp_exclude_ports c)
            then Some Raw_none
          else if candidate_only \<and> payload_end = payload_at \<and> \<not> (syn \<or> fin \<or> rst)
            then Some Raw_none
          else Some (Raw_segment
            \<lparr>sg_ts = ts,
             sg_src = inet_ntop4 (pslice d (ip_at + IP_SRC_AT) (ip_at + IP_SRC_AT + IPV4_ADDR_LEN)),
             sg_sport = sport,
             sg_dst = inet_ntop4 (pslice d (ip_at + IP_DST_AT) (ip_at + IP_DST_AT + IPV4_ADDR_LEN)),
             sg_dport = dport, sg_seq = sq, sg_syn = syn, sg_ack = ack, sg_fin = fin,
             sg_rst = rst, sg_payload = pslice d payload_at payload_end\<rparr>)
        }
      })"

text \<open>The UDP branch: at most one VXLAN layer, whose inner frame \<open>next_layer\<close> decodes.\<close>

definition raw_udp ::
  "capture_cfg \<Rightarrow> bytes \<Rightarrow> bool \<Rightarrow> (nat \<Rightarrow> raw option) \<Rightarrow> nat \<Rightarrow> raw option" where
  "raw_udp c d tunnelled next_layer transport_at =
     (if tunnelled \<or> length d < transport_at + UDP_HEADER_LEN
      then Some (if \<not> tunnelled then Raw_fallback else Raw_none)
      else do {
        dport \<leftarrow> u16_at d (transport_at + UDP_DPORT_AT);
        if dport \<notin> fp_decap_ports c then Some Raw_none
        else let vxlan_at = transport_at + UDP_HEADER_LEN in
          if length d < vxlan_at + VXLAN_HEADER_LEN then Some Raw_fallback
          else do {
            b \<leftarrow> byte_at d vxlan_at;
            if b AND VXLAN_FLAG_VNI = 0 then Some Raw_none
            else next_layer (vxlan_at + VXLAN_HEADER_LEN)
          }
      })"

definition raw_ipv4 ::
  "capture_cfg \<Rightarrow> bytes \<Rightarrow> real \<Rightarrow> bool \<Rightarrow> bool \<Rightarrow> (nat \<Rightarrow> raw option) \<Rightarrow> nat \<Rightarrow> raw option" where
  "raw_ipv4 c d ts candidate_only tunnelled next_layer ip_at =
     (if length d < ip_at + MIN_IPV4_HEADER_LEN then Some Raw_fallback
      else do {
        version_ihl \<leftarrow> byte_at d ip_at;
        if drop_bit 4 version_ihl \<noteq> 4 then Some Raw_fallback
        else let ip_header_len = (version_ihl AND IPV4_IHL_MASK) * HEADER_WORD_LEN in
          if ip_header_len < MIN_IPV4_HEADER_LEN \<or> length d < ip_at + ip_header_len
          then Some Raw_fallback
          else do {
            ip_total_len \<leftarrow> u16_at d (ip_at + IPV4_TOTAL_LEN_AT);
            if ip_total_len < ip_header_len then Some Raw_fallback
            else do {
              fragment_word \<leftarrow> u16_at d (ip_at + IPV4_FLAGS_AT);
              if fragment_word AND IPV4_FRAGMENT_MASK \<noteq> 0 then Some Raw_fragment
              else do {
                protocol \<leftarrow> byte_at d (ip_at + IPV4_PROTOCOL_AT);
                let transport_at = ip_at + ip_header_len;
                if protocol = IPPROTO_UDP then raw_udp c d tunnelled next_layer transport_at
                else if protocol \<noteq> IPPROTO_TCP then Some Raw_none
                else raw_tcp c d ts candidate_only ip_at ip_total_len transport_at
              }
            }
          }
      })"

text \<open>
  One turn of the loop. There are at most two Ethernet / IP pairs, so the loop is the outer layer
  with the inner one as its continuation; the inner layer is \<open>tunnelled\<close> and never continues.
\<close>

definition raw_layer ::
  "capture_cfg \<Rightarrow> bytes \<Rightarrow> real \<Rightarrow> bool \<Rightarrow> bool \<Rightarrow> (nat \<Rightarrow> raw option) \<Rightarrow> nat \<Rightarrow> raw option" where
  "raw_layer c d ts candidate_only tunnelled next_layer layer_at =
     (if length d < layer_at + ETH_HEADER_LEN then Some Raw_fallback
      else do {
        e \<leftarrow> u16_at d (layer_at + ETHERTYPE_OFFSET);
        tags \<leftarrow> raw_tags d e (layer_at + ETH_HEADER_LEN);
        case tags of
          None \<Rightarrow> Some Raw_fallback
        | Some (ethertype, ip_at) \<Rightarrow>
            if ethertype = ETHERTYPE_IPV6 then Some Raw_fallback
            else if ethertype \<noteq> ETHERTYPE_IPV4 then Some Raw_none
            else raw_ipv4 c d ts candidate_only tunnelled next_layer ip_at
      })"

definition decode_tcp_raw :: "capture_cfg \<Rightarrow> bytes \<Rightarrow> real \<Rightarrow> bool \<Rightarrow> raw option" where
  "decode_tcp_raw c d ts candidate_only =
     raw_layer c d ts candidate_only False
       (raw_layer c d ts candidate_only True (\<lambda>_. None)) 0"

section \<open>The slow path\<close>

datatype dp_transport =
  Dp_udp (dp_udp_dport: nat) (dp_udp_data: bytes)
| Dp_tcp (dp_sport: nat) (dp_dport: nat) (dp_seq: nat) (dp_flags: nat) (dp_off: nat) (dp_tcp_data: bytes)
| Dp_other_transport

datatype dp_net =
  Dp_tag dp_net
| Dp_ip (dp_mf: nat) (dp_offset: nat) (dp_len: nat) (dp_hl: nat) (dp_src: bytes) (dp_dst: bytes)
    (dp_upper: dp_transport)
| Dp_ip6 (dp_src6: bytes) (dp_dst6: bytes) (dp_upper6: dp_transport)
| Dp_other_net

text \<open>A decode: the segment, if any, and whether a fragment was noted.\<close>

type_synonym decoded = "tcp_segment option \<times> bool"

fun strip_tags :: "dp_net \<Rightarrow> dp_net" where
  "strip_tags (Dp_tag n) = strip_tags n"
| "strip_tags n = n"

definition udp_payload :: "bytes \<Rightarrow> bytes option option" where
  "udp_payload d =
     (let eth_len = ethernet_header_len d in
      if length d < eth_len + MIN_IPV4_HEADER_LEN then Some None
      else do {
        b \<leftarrow> byte_at d eth_len;
        if drop_bit 4 b \<noteq> 4 then Some None
        else let payload_at = eth_len + (b AND IPV4_IHL_MASK) * HEADER_WORD_LEN + UDP_HEADER_LEN in
          Some (if length d > payload_at then Some (drop payload_at d) else None)
      })"

definition vxlan_payload :: "bytes \<Rightarrow> bytes" where
  "vxlan_payload p =
     (if length p \<le> VXLAN_HEADER_LEN then []
      else if unat (p ! 0) AND VXLAN_FLAG_VNI = 0 then []
      else drop VXLAN_HEADER_LEN p)"

definition tcp_payload :: "bytes \<Rightarrow> (nat \<times> nat) option \<Rightarrow> nat \<Rightarrow> bytes \<Rightarrow> bytes" where
  "tcp_payload d ip off data =
     (case ip of
        None \<Rightarrow> data
      | Some (len, hl) \<Rightarrow>
          (let eth_len = ethernet_header_len d in
           if int (length d) - int (eth_len + len) \<le> MAX_TRAILER then data
           else let payload_at = eth_len + (hl + off) * HEADER_WORD_LEN in
             if length d > payload_at then drop payload_at d else []))"

definition tcp_of :: "bytes \<Rightarrow> real \<Rightarrow> string \<Rightarrow> string \<Rightarrow> (nat \<times> nat) option \<Rightarrow> dp_transport
    \<Rightarrow> tcp_segment option" where
  "tcp_of d ts src dst ip t =
     (case t of
        Dp_tcp sport dport sq flags off data \<Rightarrow>
          Some \<lparr>sg_ts = ts, sg_src = src, sg_sport = sport, sg_dst = dst, sg_dport = dport, sg_seq = sq,
                sg_syn = (flags AND TH_SYN_BIT \<noteq> 0), sg_ack = (flags AND TH_ACK_BIT \<noteq> 0),
                sg_fin = (flags AND TH_FIN_BIT \<noteq> 0), sg_rst = (flags AND TH_RST_BIT \<noteq> 0),
                sg_payload = tcp_payload d ip off data\<rparr>
      | _ \<Rightarrow> None)"

text \<open>The transport of a dissected packet, or None with whether a fragment stopped the decode.\<close>

definition dp_parts :: "(bytes \<Rightarrow> string) \<Rightarrow> dp_net
    \<Rightarrow> (string \<times> string \<times> (nat \<times> nat) option \<times> dp_transport) option \<times> bool" where
  "dp_parts ntop6 n =
     (case strip_tags n of
        Dp_ip mf offset len hl src dst t \<Rightarrow>
          if mf \<noteq> 0 \<or> offset \<noteq> 0 then (None, True)
          else (Some (inet_ntop4 src, inet_ntop4 dst, Some (len, hl), t), False)
      | Dp_ip6 src dst t \<Rightarrow> (Some (ntop6 src, ntop6 dst, None, t), False)
      | _ \<Rightarrow> (None, False))"

text \<open>\<open>_decode\<close>, with \<open>inner\<close> for its recursive call on the frame inside a tunnel.\<close>

definition decode_step ::
  "capture_cfg \<Rightarrow> (bytes \<Rightarrow> dp_net option) \<Rightarrow> (bytes \<Rightarrow> string) \<Rightarrow> (bytes \<Rightarrow> decoded) \<Rightarrow> bool
    \<Rightarrow> bytes \<Rightarrow> real \<Rightarrow> decoded" where
  "decode_step c dissect ntop6 inner tunnelled d ts =
     (case dissect d of
        None \<Rightarrow> (None, False)
      | Some n \<Rightarrow>
          (case dp_parts ntop6 n of
             (None, frag) \<Rightarrow> (None, frag)
           | (Some (src, dst, ip, t), _) \<Rightarrow>
               (case t of
                  Dp_udp dport data \<Rightarrow>
                    if dport \<in> fp_decap_ports c then
                      if tunnelled then (None, False)
                      else inner (vxlan_payload
                             (case udp_payload d of Some (Some p) \<Rightarrow> p | _ \<Rightarrow> data))
                    else (None, False)
                | _ \<Rightarrow> (tcp_of d ts src dst ip t, False))))"

definition decode_slow ::
  "capture_cfg \<Rightarrow> (bytes \<Rightarrow> dp_net option) \<Rightarrow> (bytes \<Rightarrow> string) \<Rightarrow> bytes \<Rightarrow> real \<Rightarrow> decoded" where
  "decode_slow c dissect ntop6 d ts =
     decode_step c dissect ntop6
       (\<lambda>inner. decode_step c dissect ntop6 (\<lambda>_. (None, False)) True inner ts) False d ts"

text \<open>\<open>decode_tcp_bytes\<close>; \<open>None\<close> is an exception of the raw decoder.\<close>

definition decode_tcp_bytes ::
  "capture_cfg \<Rightarrow> (bytes \<Rightarrow> dp_net option) \<Rightarrow> (bytes \<Rightarrow> string) \<Rightarrow> bytes \<Rightarrow> real \<Rightarrow> bool
    \<Rightarrow> decoded option" where
  "decode_tcp_bytes c dissect ntop6 d ts candidate_only =
     map_option
       (\<lambda>r. case r of
          Raw_none \<Rightarrow> (None, False)
        | Raw_fragment \<Rightarrow> (None, True)
        | Raw_segment sg \<Rightarrow> (Some sg, False)
        | Raw_fallback \<Rightarrow>
            (let (segment, frag) = decode_slow c dissect ntop6 d ts in
             (case segment of
                None \<Rightarrow> None
              | Some sg \<Rightarrow> if candidate_only \<and> \<not> configured_candidate c sg then None else Some sg,
              frag)))
       (decode_tcp_raw c d ts candidate_only)"

definition decode_tcp ::
  "capture_cfg \<Rightarrow> (bytes \<Rightarrow> dp_net option) \<Rightarrow> (bytes \<Rightarrow> string) \<Rightarrow> bytes \<Rightarrow> real \<Rightarrow> decoded option" where
  "decode_tcp c dissect ntop6 d ts =
     (if fp_fast_classify c then decode_tcp_bytes c dissect ntop6 d ts False
      else Some (decode_slow c dissect ntop6 d ts))"

end
