(* ===== verification/Checks.thy ===== *)
theory Checks
  imports Classify
begin

text \<open>
  Two pure routines of \<^verbatim>\<open>frame-processor/app/accounting.py\<close> that structural validation rests
  on: the internet checksum (\<open>_ones_complement\<close>) and the LLDP TLV walk (\<open>_lldp_tlv_end\<close>), with what
  they compute: residues modulo 65535, and the end of a well-formed TLV chain.
\<close>

section \<open>The internet checksum\<close>

text \<open>Big-endian 16-bit words; an odd length is padded with one zero byte.\<close>

fun words16 :: "bytes \<Rightarrow> nat list" where
  "words16 [] = []"
| "words16 [b] = [256 * unat b]"
| "words16 (a # b # r) = (256 * unat a + unat b) # words16 r"

text \<open>\<open>while total >> 16: total = (total & 0xFFFF) + (total >> 16)\<close>\<close>

lemma and_ffff: "(t::nat) AND 0xFFFF = t mod 65536"
  using take_bit_eq_mask[of 16 t] by (simp add: take_bit_eq_mod mask_eq_exp_minus_1)

function fold16 :: "nat \<Rightarrow> nat" where
  "fold16 t = (if drop_bit 16 t \<noteq> 0 then fold16 ((t AND 0xFFFF) + drop_bit 16 t) else t)"
  by pat_completeness auto
termination
proof (relation "measure id", simp, goal_cases)
  case (1 t)
  then have "0 < t div 65536" by (simp add: drop_bit_eq_div)
  moreover have "t = 65536 * (t div 65536) + t mod 65536" by simp
  ultimately have "t mod 65536 + t div 65536 < t" by linarith
  then show ?case by (simp add: and_ffff drop_bit_eq_div)
qed

declare fold16.simps [simp del]

definition ones_complement :: "bytes \<Rightarrow> nat" where
  "ones_complement d = nat ((NOT (int (fold16 (sum_list (words16 d))))) AND 0xFFFF)"

lemma fold16_le: "fold16 t \<le> 65535"
proof (induction t rule: fold16.induct)
  case (1 t)
  then show ?case
    by (cases "drop_bit 16 t = 0") (simp_all add: fold16.simps[of t] drop_bit_eq_div div_eq_0_iff)
qed

lemma fold16_mod: "fold16 t mod 65535 = t mod 65535"
proof (induction t rule: fold16.induct)
  case (1 t)
  have "t = 65535 * (t div 65536) + (t mod 65536 + t div 65536)"
    using div_mult_mod_eq[of t 65536] by linarith
  then have "(t mod 65536 + t div 65536) mod 65535 = t mod 65535"
    by (metis mod_mult_self4)
  then show ?case
    using 1 by (cases "drop_bit 16 t = 0") (simp_all add: fold16.simps[of t] and_ffff drop_bit_eq_div)
qed

lemma fold16_0_iff: "fold16 t = 0 \<longleftrightarrow> t = 0"
proof (induction t rule: fold16.induct)
  case (1 t)
  then show ?case
    by (cases "t = 0"; cases "drop_bit 16 t = 0") (auto simp: fold16.simps[of t] fold16.simps[of 0])
qed

lemma ones_complement_eq: "ones_complement d = 65535 - fold16 (sum_list (words16 d))"
proof -
  let ?f = "fold16 (sum_list (words16 d))"
  have le: "?f \<le> 65535" by (rule fold16_le)
  have "(NOT (int ?f)) AND 0xFFFF = (- int ?f - 1) mod 65536"
    using take_bit_eq_mask[of 16 "NOT (int ?f)"]
    by (simp add: take_bit_eq_mod mask_eq_exp_minus_1 not_int_def)
  also have "\<dots> = 65535 - int ?f"
    using le by (subst mod_add_self2[of _ 65536, symmetric]) (simp add: mod_pos_pos_trivial)
  finally show ?thesis using le by (simp add: ones_complement_def nat_diff_distrib)
qed

lemma ones_complement_le: "ones_complement d \<le> 65535"
  by (simp add: ones_complement_eq)

lemma small_multiple: "0 < x \<Longrightarrow> x \<le> 2 * n \<Longrightarrow> x mod n = 0 \<longleftrightarrow> x = n \<or> x = 2 * (n::nat)"
proof -
  assume b: "0 < x" "x \<le> 2 * n"
  have "x = n \<or> x = 2 * n" if "x mod n = 0"
  proof -
    from that obtain q where q: "x = n * q" by auto
    with b have "q \<noteq> 0" "q \<le> 2" by (auto simp: mult.commute)
    then have "q = 1 \<or> q = 2" by linarith
    with q show ?thesis by auto
  qed
  then show ?thesis by auto
qed

text \<open>
  The comparison the code makes (a header with its checksum field zeroed implies the stated value)
  against the rule of RFC 1071 (all words, the stated one included, sum to a multiple of 65535).
  They differ in one value: a stated 0xFFFF is the other representation of zero, which the code
  does not accept.
\<close>

lemma checksum_residue:
  assumes pos: "sum_list (words16 d) \<noteq> 0" and st: "stated \<le> 65535"
  shows "ones_complement d = stated \<longleftrightarrow>
    stated \<noteq> 65535 \<and> (sum_list (words16 d) + stated) mod 65535 = 0"
proof -
  let ?s = "sum_list (words16 d)"
  have f: "0 < fold16 ?s" "fold16 ?s \<le> 65535"
    using fold16_0_iff[of ?s] fold16_le[of ?s] pos by auto
  have "(?s + stated) mod 65535 = (fold16 ?s + stated) mod 65535"
    by (metis fold16_mod mod_add_left_eq)
  also have "\<dots> = 0 \<longleftrightarrow> fold16 ?s + stated = 65535 \<or> fold16 ?s + stated = 131070"
    using f st small_multiple[of "fold16 ?s + stated" 65535] by simp
  finally have key: "(?s + stated) mod 65535 = 0 \<longleftrightarrow>
    fold16 ?s + stated = 65535 \<or> fold16 ?s + stated = 131070" .
  show ?thesis
    unfolding key ones_complement_eq using f st by linarith
qed

section \<open>The LLDP TLV chain\<close>

text \<open>
  The walk reads a 16-bit header (7-bit kind, 9-bit length), steps over the value and stops at a
  kind of zero. The loop guard keeps the read in range, so the \<open>None\<close> of the reader is not reached.
\<close>

function lldp_walk :: "bytes \<Rightarrow> nat \<Rightarrow> nat option" where
  "lldp_walk p off =
     (if off + 2 \<le> length p then
        (case u16_at p off of
           None \<Rightarrow> None
         | Some header \<Rightarrow>
             (let kind = drop_bit 9 header; len = header AND 0x1FF; off' = off + 2 + len in
              if off' > length p then None
              else if kind = 0 then Some off'
              else lldp_walk p off'))
      else None)"
  by pat_completeness auto
termination
  by (relation "measure (\<lambda>(p, off). length p - off)") auto

declare lldp_walk.simps [simp del]

definition lldp_tlv_end :: "bytes \<Rightarrow> nat option" where
  "lldp_tlv_end p = lldp_walk p 0"

lemma lldp_walk_bound: "lldp_walk p off = Some e \<Longrightarrow> off + 2 \<le> e \<and> e \<le> length p"
proof (induction p off rule: lldp_walk.induct)
  case (1 p off)
  show ?case
  proof (cases "off + 2 \<le> length p")
    case True
    then obtain h where h: "u16_at p off = Some h" using u16_at_ex by blast
    with True "1.prems" "1.IH"[OF True h refl refl refl] show ?thesis
      by (auto simp: lldp_walk.simps[of p off] Let_def split: if_splits)
  next
    case False
    with "1.prems" show ?thesis by (simp add: lldp_walk.simps[of p off])
  qed
qed

text \<open>A well-formed chain: TLVs of kind 1 to 127 with at most 511 bytes, then the terminator.\<close>

definition encode_tlv :: "nat \<times> bytes \<Rightarrow> bytes" where
  "encode_tlv t = (let h = 512 * fst t + length (snd t) in
     word_of_nat (h div 256) # word_of_nat (h mod 256) # snd t)"

definition tlv_ok :: "nat \<times> bytes \<Rightarrow> bool" where
  "tlv_ok t \<longleftrightarrow> 1 \<le> fst t \<and> fst t \<le> 127 \<and> length (snd t) \<le> 511"

lemma length_encode_tlv [simp]: "length (encode_tlv t) = 2 + length (snd t)"
  by (simp add: encode_tlv_def Let_def)

lemma unat_of_small: "n < 256 \<Longrightarrow> unat (word_of_nat n :: byte) = n"
  by (simp add: unat_of_nat take_bit_eq_mod)

lemma u16_at_encode_tlv:
  assumes "fst t \<le> 127" "length (snd t) \<le> 511"
  shows "u16_at (pre @ encode_tlv t @ post) (length pre) = Some (512 * fst t + length (snd t))"
proof -
  let ?h = "512 * fst t + length (snd t)"
  have "?h div 256 < 256" using assms by simp
  moreover have "256 * (?h div 256) + ?h mod 256 = ?h" by simp
  ultimately show ?thesis
    by (simp add: u16_at_def byte_at_def nth_append encode_tlv_def Let_def unat_of_small)
qed

lemma drop_and_header:
  "len \<le> 511 \<Longrightarrow> drop_bit 9 (512 * k + len) = (k::nat)"
  "len \<le> 511 \<Longrightarrow> (512 * k + len) AND 0x1FF = (len::nat)"
  using take_bit_eq_mask[of 9 "512 * k + len"]
  by (simp_all add: drop_bit_eq_div take_bit_eq_mod mask_eq_exp_minus_1)

lemma lldp_walk_encode:
  "list_all tlv_ok ts \<Longrightarrow> length v \<le> 511 \<Longrightarrow>
   lldp_walk (pre @ concat (map encode_tlv ts) @ encode_tlv (0, v) @ rest) (length pre)
     = Some (length pre + length (concat (map encode_tlv ts)) + 2 + length v)"
proof (induction ts arbitrary: pre)
  case Nil
  then show ?case
    using u16_at_encode_tlv[of "(0, v)" pre rest] drop_and_header[of "length v" 0]
    by (subst lldp_walk.simps) (simp add: Let_def)
next
  case (Cons t ts)
  let ?post = "concat (map encode_tlv ts) @ encode_tlv (0, v) @ rest"
  from Cons.prems have ok: "1 \<le> fst t" "fst t \<le> 127" "length (snd t) \<le> 511"
    by (simp_all add: tlv_ok_def)
  have IH: "lldp_walk ((pre @ encode_tlv t) @ ?post) (length (pre @ encode_tlv t))
      = Some (length (pre @ encode_tlv t) + length (concat (map encode_tlv ts)) + 2 + length v)"
    using Cons.prems by (intro Cons.IH) simp_all
  show ?case
    using u16_at_encode_tlv[OF ok(2,3), of pre ?post] drop_and_header[OF ok(3), of "fst t"] ok(1) IH
    by (subst lldp_walk.simps) (simp add: Let_def)
qed

end
