(* ===== verification/Policy.thy ===== *)
theory Policy
  imports Checks
begin

text \<open>
  The link whitelist, \<^verbatim>\<open>frame-processor/app/policy.py\<close>: directions, the per-flow
  declarations an operator writes, \<open>LinkPolicy\<close> and the rules of \<open>LinkPolicy.check\<close>.

  A rule's human-readable text is kept as the data it is rendered from (\<open>detail\<close>); the finding kind
  is the string of the code. \<open>None\<close> from a check is a Python exception, and no check has one.
\<close>

section \<open>Directions and details\<close>

datatype direction = DIRECTION_OUT | DIRECTION_IN | DIRECTION_UNKNOWN

datatype arp_wrong = Wrong_htype nat | Wrong_ptype nat | Wrong_hlen nat | Wrong_plen nat

datatype ip_flag = Flag_reserved | Flag_more | Flag_offset nat

datatype (plugins only: code) detail =
    Mac_neither bytes
  | Mac_expected direction bytes bytes
  | Class_not_allowed string direction
  | Mac_destination direction bytes "bytes set"
  | Ip_outside bytes bytes direction bytes bytes
  | Port_unexpected bytes nat bytes nat direction "nat set"
  | Dial_out bytes nat nat
  | Arp_reply_broadcast
  | Arp_address bytes bytes direction bytes bytes
  | Classify_failed
  | Validate_failed
  | Ring_truncated nat nat
  | Beat_early real real
  | Beat_resync real
  | Beat_missed int real real real
  | Capture_started real
  | Capture_stopped real
  | No_rule nat
  | Frame_size nat
  | Trailing nat nat
  | Padding nat bytes
  | Tlv_overrun
  | Tlv_after nat
  | Arp_shape "arp_wrong list"
  | Arp_opcode nat
  | Arp_source bytes bytes
  | Arp_request_target bytes
  | Arp_reply_target bytes bytes
  | Ip_options nat bytes
  | Ip_flags "ip_flag list"
  | Tcp_reserved nat
  | Tcp_urgent nat
  | Ip_checksum nat nat
  | Pin_undeclared string
  | Pin_mismatch string nat string
  | Variant_added nat nat string real
  | No_account string
  | Exchange_detail string string

definition PACKET_OUTGOING :: nat where [simp]: "PACKET_OUTGOING = 4"

definition direction_from_pkttype :: "nat option \<Rightarrow> direction option" where
  "direction_from_pkttype pkttype =
     (case pkttype of None \<Rightarrow> None
      | Some t \<Rightarrow> Some (if t = PACKET_OUTGOING then DIRECTION_IN else DIRECTION_OUT))"

section \<open>Constants\<close>

definition IPV4_SRC_AT :: nat where [simp]: "IPV4_SRC_AT = 12"
definition IPV4_DST_AT :: nat where [simp]: "IPV4_DST_AT = 16"
definition BROADCAST_MAC :: bytes where "BROADCAST_MAC = replicate 6 0xff"
definition ARP_SENDER_IP_AT :: nat where [simp]: "ARP_SENDER_IP_AT = 14"
definition ARP_TARGET_IP_AT :: nat where [simp]: "ARP_TARGET_IP_AT = 24"
definition TH_SYN :: nat where [simp]: "TH_SYN = 0x02"
definition TH_ACK :: nat where [simp]: "TH_ACK = 0x10"
definition CLASS_ARP :: string where "CLASS_ARP = ''arp''"

definition ALREADY_FLAGGED :: "string set" where
  "ALREADY_FLAGGED = {''malformed'', ''truncated'', ''unclassified''}"

section \<open>Parsing what the operator declared\<close>

text \<open>\<open>_mac\<close>: \<open>None\<close> is the \<open>ValueError\<close> of \<open>bytes.fromhex\<close>, \<open>Some None\<close> an absent setting.\<close>

definition parse_mac :: "string option \<Rightarrow> bytes option option" where
  "parse_mac value =
     (case value of None \<Rightarrow> Some None
      | Some v \<Rightarrow>
          if strip v = [] then Some None
          else map_option Some
                 (fromhex (filter (\<lambda>c. c \<noteq> CHR ''-'') (filter (\<lambda>c. c \<noteq> CHR '':'') (strip v)))))"

definition render_mac :: "bytes \<Rightarrow> string" where
  "render_mac raw = hex_colon raw"

definition parse_csv :: "string option \<Rightarrow> string set" where
  "parse_csv value =
     (case value of None \<Rightarrow> {}
      | Some v \<Rightarrow> set (filter (\<lambda>p. p \<noteq> []) (map strip (split_on CHR '','' v))))"

text \<open>One \<open>mac/class=value\<close> pair: skipped, an entry, or the \<open>ValueError\<close> of a bad address.\<close>

definition parse_declaration :: "string \<Rightarrow> (string \<times> string) option option" where
  "parse_declaration pair =
     (let (key, sep, setting) = partition_at CHR ''='' (strip pair) in
      if \<not> sep \<or> key = [] \<or> setting = [] then Some None
      else let (source, slash, name) = partition_at CHR ''/'' key in
        if \<not> slash \<or> source = [] \<or> name = [] then Some None
        else do {
          m \<leftarrow> parse_mac (Some source);
          Some (Some (render_mac (case m of None \<Rightarrow> [] | Some b \<Rightarrow> b) @ CHR ''/'' # strip name,
                      lower (strip setting)))
        })"

fun add_declarations :: "(string \<times> string) list \<Rightarrow> string list \<Rightarrow> (string \<times> string) list option" where
  "add_declarations declared [] = Some declared"
| "add_declarations declared (pair # pairs) =
     do { r \<leftarrow> parse_declaration pair;
          add_declarations (case r of None \<Rightarrow> declared | Some (k, v) \<Rightarrow> dset k v declared) pairs }"

definition parse_declarations :: "string option \<Rightarrow> (string \<times> string) list option" where
  "parse_declarations value =
     add_declarations [] (split_on CHR '','' (case value of None \<Rightarrow> [] | Some v \<Rightarrow> v))"

definition parse_declared_pins :: "string option \<Rightarrow> (string \<times> string) list option" where
  "parse_declared_pins value = parse_declarations value"

text \<open>
  Beats: \<open>py_float\<close> is \<open>float(setting)\<close> on the strings given, \<open>None\<close> its \<open>ValueError\<close>. A setting that
  is no number, or a cadence that is not positive, is dropped.
\<close>

definition parse_declared_beats ::
  "(string \<Rightarrow> real option) \<Rightarrow> string option \<Rightarrow> (string \<times> real) list option" where
  "parse_declared_beats py_float value =
     map_option
       (\<lambda>ds. fold (\<lambda>(key, setting) beats.
                case py_float setting of
                  None \<Rightarrow> beats
                | Some seconds \<Rightarrow> if seconds \<le> 0 then beats else dset key seconds beats) ds [])
       (parse_declarations value)"

section \<open>The policy\<close>

record link_policy =
  peer_mac :: bytes
  local_mac :: "bytes option"
  peer_ip :: "bytes option"
  local_ip :: "bytes option"
  peer_ports :: "nat set"
  allow_out :: "string set"
  allow_in :: "string set"
  declared_pins :: "(string \<times> string) list"
  declared_beats :: "(string \<times> real) list"
  beat_tolerance :: real
  extra_destinations :: "bytes set"
  allow_broadcast :: bool

definition direction_from_source :: "link_policy \<Rightarrow> bytes \<Rightarrow> direction" where
  "direction_from_source p d =
     (if length d < 12 then DIRECTION_UNKNOWN
      else let src = pslice d 6 12 in
        if src = peer_mac p then DIRECTION_OUT
        else if local_mac p \<noteq> None \<and> Some src = local_mac p then DIRECTION_IN
        else DIRECTION_UNKNOWN)"

definition declared_digest :: "link_policy \<Rightarrow> string \<Rightarrow> string option" where
  "declared_digest p key = map_of (declared_pins p) key"

definition declared_interval :: "link_policy \<Rightarrow> string \<Rightarrow> real option" where
  "declared_interval p key = map_of (declared_beats p) key"

definition direction_for_mac :: "link_policy \<Rightarrow> string \<Rightarrow> direction" where
  "direction_for_mac p rendered =
     (if rendered = render_mac (peer_mac p) then DIRECTION_OUT
      else case local_mac p of
             Some m \<Rightarrow> if rendered = render_mac m then DIRECTION_IN else DIRECTION_UNKNOWN
           | None \<Rightarrow> DIRECTION_UNKNOWN)"

definition endpoints :: "link_policy \<Rightarrow> direction \<Rightarrow> bytes option \<times> bytes option" where
  "endpoints p dir =
     (case dir of DIRECTION_OUT \<Rightarrow> (peer_ip p, local_ip p)
      | DIRECTION_IN \<Rightarrow> (local_ip p, peer_ip p)
      | DIRECTION_UNKNOWN \<Rightarrow> (None, None))"

section \<open>The rules\<close>

type_synonym link_finding = "string \<times> detail"

text \<open>Who is speaking.\<close>

definition check_source_mac :: "link_policy \<Rightarrow> bytes \<Rightarrow> direction \<Rightarrow> link_finding list" where
  "check_source_mac p d dir =
     (let src = pslice d 6 12 in
      if dir = DIRECTION_UNKNOWN then [(''mac-unknown'', Mac_neither src)]
      else case (if dir = DIRECTION_OUT then Some (peer_mac p) else local_mac p) of
             None \<Rightarrow> []
           | Some expected \<Rightarrow>
               if src \<noteq> expected then [(''mac-unknown'', Mac_expected dir src expected)] else [])"

text \<open>Whether this kind of frame may travel this way.\<close>

definition check_class :: "link_policy \<Rightarrow> string \<Rightarrow> direction \<Rightarrow> link_finding list" where
  "check_class p name dir =
     (if name \<notin> ALREADY_FLAGGED \<and> \<not> ends_with name ''-other'' then
        (let allowed = (if dir = DIRECTION_UNKNOWN then allow_out p \<union> allow_in p
                        else if dir = DIRECTION_OUT then allow_out p else allow_in p) in
         if name \<notin> allowed then [(''class-not-allowed'', Class_not_allowed name dir)] else [])
      else [])"

text \<open>Who it is addressed to.\<close>

definition permitted_destinations :: "link_policy \<Rightarrow> bytes \<Rightarrow> bytes set" where
  "permitted_destinations p wanted =
     insert wanted (extra_destinations p) \<union> (if allow_broadcast p then {BROADCAST_MAC} else {})"

definition check_destination_mac :: "link_policy \<Rightarrow> bytes \<Rightarrow> direction \<Rightarrow> link_finding list" where
  "check_destination_mac p d dir =
     (let dst = pslice d 0 6 in
      case (if dir = DIRECTION_OUT then local_mac p else Some (peer_mac p)) of
        Some wanted \<Rightarrow>
          if dir \<noteq> DIRECTION_UNKNOWN \<and> dst \<notin> permitted_destinations p wanted
          then [(''mac-destination'', Mac_destination dir dst (permitted_destinations p wanted))]
          else []
      | None \<Rightarrow> [])"

definition check_ipv4_rules ::
  "link_policy \<Rightarrow> bytes \<Rightarrow> nat \<Rightarrow> string \<Rightarrow> nat \<Rightarrow> direction \<Rightarrow> link_finding list option" where
  "check_ipv4_rules p d eth_at name pin dir =
     (if length d < eth_at + IPV4_DST_AT + 4 then Some []
      else do {
        let src_ip = pslice d (eth_at + IPV4_SRC_AT) (eth_at + IPV4_SRC_AT + 4);
        let dst_ip = pslice d (eth_at + IPV4_DST_AT) (eth_at + IPV4_DST_AT + 4);
        let f_ip = (case endpoints p dir of
                      (Some want_src, Some want_dst) \<Rightarrow>
                        if src_ip \<noteq> want_src \<or> dst_ip \<noteq> want_dst
                        then [(''ip-outside-link'', Ip_outside src_ip dst_ip dir want_src want_dst)]
                        else []
                    | _ \<Rightarrow> []);
        f_port \<leftarrow>
          (if name = CLASS_TCP \<and> peer_ports p \<noteq> {} \<and> length d \<ge> pin + 4 then do {
             sport \<leftarrow> u16_at d pin;
             dport \<leftarrow> u16_at d (pin + 2);
             let peer_port = (if dir = DIRECTION_OUT then sport else dport);
             Some (if dir \<noteq> DIRECTION_UNKNOWN \<and> peer_port \<notin> peer_ports p
                   then [(''tcp-port-unexpected'',
                          Port_unexpected src_ip sport dst_ip dport dir (peer_ports p))]
                   else [])
           } else Some []);
        f_dial \<leftarrow>
          (if name = CLASS_TCP \<and> dir = DIRECTION_OUT \<and> length d \<ge> pin + 14 then do {
             flags \<leftarrow> byte_at d (pin + TCP_FLAGS_AT);
             if flags AND TH_SYN \<noteq> 0 \<and> flags AND TH_ACK = 0 then do {
               sport \<leftarrow> u16_at d pin;
               dport \<leftarrow> u16_at d (pin + 2);
               Some [(''tcp-dial-out'', Dial_out dst_ip dport sport)]
             } else Some []
           } else Some []);
        Some (f_ip @ f_port @ f_dial)
      })"

definition check_arp_rules ::
  "link_policy \<Rightarrow> bytes \<Rightarrow> nat \<Rightarrow> direction \<Rightarrow> link_finding list option" where
  "check_arp_rules p d off dir =
     (case (if dir = DIRECTION_OUT then local_mac p else Some (peer_mac p)) of
        None \<Rightarrow> Some []
      | Some _ \<Rightarrow> do {
          f_reply \<leftarrow>
            (if allow_broadcast p \<and> length d \<ge> off + ARP_OPCODE_AT + 2 then do {
               opcode \<leftarrow> u16_at d (off + ARP_OPCODE_AT);
               Some (if opcode = ARP_REPLY \<and> pslice d 0 6 = BROADCAST_MAC
                     then [(''mac-destination'', Arp_reply_broadcast)] else [])
             } else Some []);
          case endpoints p dir of
            (Some want_sender, Some want_target) \<Rightarrow>
              if length d < off + ARP_IPV4_LEN then Some f_reply
              else do {
                hlen \<leftarrow> byte_at d (off + ARP_HLEN_AT);
                plen \<leftarrow> byte_at d (off + ARP_PLEN_AT);
                if hlen \<noteq> 6 \<or> plen \<noteq> 4 then Some f_reply
                else let sender_ip = pslice d (off + ARP_SENDER_IP_AT) (off + ARP_SENDER_IP_AT + 4);
                         target_ip = pslice d (off + ARP_TARGET_IP_AT) (off + ARP_TARGET_IP_AT + 4) in
                  Some (f_reply @
                    (if sender_ip \<noteq> want_sender \<or> target_ip \<noteq> want_target
                     then [(''arp-address-unexpected'',
                            Arp_address sender_ip target_ip dir want_sender want_target)]
                     else []))
              }
          | _ \<Rightarrow> Some f_reply
        })"

definition policy_check ::
  "link_policy \<Rightarrow> bytes \<Rightarrow> string \<Rightarrow> nat \<Rightarrow> direction \<Rightarrow> link_finding list option" where
  "policy_check p d name pin dir =
     (if length d < ETH_HEADER_LEN then Some []
      else let findings = check_source_mac p d dir @ check_class p name dir
                            @ check_destination_mac p d dir;
               eth_at = ethernet_header_len d in
        if length d < eth_at then Some findings
        else do {
          ethertype \<leftarrow> u16_at d (eth_at - ETHERTYPE_LEN);
          if ethertype = ETHERTYPE_IPV4 then
            map_option ((@) findings) (check_ipv4_rules p d eth_at name pin dir)
          else if ethertype = ETHERTYPE_ARP \<and> name = CLASS_ARP then
            map_option ((@) findings) (check_arp_rules p d pin dir)
          else Some findings
        })"


section \<open>The checks never raise\<close>

lemma byte_at_ex: "i < length d \<Longrightarrow> \<exists>v. byte_at d i = Some v"
  by simp

lemma check_ipv4_rules_ex: "\<exists>fs. check_ipv4_rules p d eth_at name pin dir = Some fs"
proof -
  have rd: "\<exists>a b c. u16_at d pin = Some a \<and> u16_at d (pin + 2) = Some b \<and> (pin + 14 \<le> length d \<longrightarrow> byte_at d (pin + 13) = Some c)"
    if "pin + 4 \<le> length d"
  proof -
    from that have "pin + 2 \<le> length d" "pin + 2 + 2 \<le> length d" by linarith+
    then obtain a b where "u16_at d pin = Some a" "u16_at d (pin + 2) = Some b"
      by (meson u16_at_ex)
    then show ?thesis by (cases "pin + 14 \<le> length d") auto
  qed
  show ?thesis
  proof (cases "pin + 4 \<le> length d")
    case True
    then obtain a b c where "u16_at d pin = Some a" "u16_at d (pin + 2) = Some b"
      "pin + 14 \<le> length d \<longrightarrow> byte_at d (pin + 13) = Some c" using rd by blast
    then show ?thesis
      by (auto simp: check_ipv4_rules_def Let_def simp del: byte_at_Some)
  next
    case False
    then show ?thesis by (simp add: check_ipv4_rules_def Let_def)
  qed
qed

lemma check_arp_rules_ex: "\<exists>fs. check_arp_rules p d off dir = Some fs"
proof -
  have "\<exists>op. off + 8 \<le> length d \<longrightarrow> u16_at d (off + 6) = Some op"
    using u16_at_ex[of "off + 6" d] by (cases "off + 8 \<le> length d") auto
  then obtain op where op: "off + 8 \<le> length d \<longrightarrow> u16_at d (off + 6) = Some op" by blast
  show ?thesis
  proof (cases "off + 28 \<le> length d")
    case True
    with op show ?thesis
      by (auto simp: check_arp_rules_def Let_def split: option.splits prod.splits)
  next
    case False
    with op show ?thesis
      by (auto simp: check_arp_rules_def Let_def split: option.splits prod.splits)
  qed
qed

lemma policy_check_ex: "\<exists>fs. policy_check p d name pin dir = Some fs"
proof (cases "length d < 14 \<or> length d < ethernet_header_len d")
  case False
  then obtain et where "u16_at d (ethernet_header_len d - 2) = Some et"
    using eth_at_slice[of d] by (meson linorder_not_less not_None_eq)
  with check_ipv4_rules_ex[of p d "ethernet_header_len d" name pin dir]
    check_arp_rules_ex[of p d pin dir]
  show ?thesis by (auto simp: policy_check_def Let_def)
qed (auto simp: policy_check_def Let_def)

section \<open>What a silent check means\<close>

lemma silent_parts:
  assumes "policy_check p d name pin dir = Some []" "14 \<le> length d"
  shows "check_source_mac p d dir = []" "check_class p name dir = []"
    "check_destination_mac p d dir = []"
    "ethernet_header_len d \<le> length d \<Longrightarrow>
       u16_at d (ethernet_header_len d - 2) = Some ETHERTYPE_IPV4 \<Longrightarrow>
       check_ipv4_rules p d (ethernet_header_len d) name pin dir = Some []"
    "ethernet_header_len d \<le> length d \<Longrightarrow>
       u16_at d (ethernet_header_len d - 2) = Some ETHERTYPE_ARP \<Longrightarrow> name = CLASS_ARP \<Longrightarrow>
       check_arp_rules p d pin dir = Some []"
  using assms check_ipv4_rules_ex[of p d "ethernet_header_len d" name pin dir]
    check_arp_rules_ex[of p d pin dir]
  by (auto simp: policy_check_def Let_def CLASS_ARP_def split: if_splits bind_splits)

lemma silent_source:
  "check_source_mac p d dir = [] \<longleftrightarrow>
     (dir = DIRECTION_OUT \<and> pslice d 6 12 = peer_mac p) \<or>
     (dir = DIRECTION_IN \<and> (\<forall>m. local_mac p = Some m \<longrightarrow> pslice d 6 12 = m))"
  by (cases dir) (auto simp: check_source_mac_def Let_def split: option.splits)

lemma silent_destination:
  "check_destination_mac p d DIRECTION_OUT = [] \<longleftrightarrow>
     (\<forall>m. local_mac p = Some m \<longrightarrow> pslice d 0 6 \<in> permitted_destinations p m)"
  "check_destination_mac p d DIRECTION_IN = [] \<longleftrightarrow>
     pslice d 0 6 \<in> permitted_destinations p (peer_mac p)"
  by (auto simp: check_destination_mac_def Let_def split: option.splits)

lemma silent_class:
  "check_class p name dir = [] \<Longrightarrow> name \<notin> ALREADY_FLAGGED \<Longrightarrow> \<not> ends_with name ''-other'' \<Longrightarrow>
   name \<in> (if dir = DIRECTION_UNKNOWN then allow_out p \<union> allow_in p
            else if dir = DIRECTION_OUT then allow_out p else allow_in p)"
  by (simp add: check_class_def Let_def split: if_splits)

lemma silent_ipv4:
  assumes ok: "check_ipv4_rules p d eth_at CLASS_TCP pin dir = Some []"
    and eth: "eth_at + 20 \<le> length d" and dir: "dir \<noteq> DIRECTION_UNKNOWN"
  shows "endpoints p dir = (Some ws, Some wd) \<Longrightarrow>
       pslice d (eth_at + 12) (eth_at + 16) = ws \<and> pslice d (eth_at + 16) (eth_at + 20) = wd"
    and "peer_ports p \<noteq> {} \<Longrightarrow> pin + 4 \<le> length d \<Longrightarrow>
       \<exists>port. u16_at d (if dir = DIRECTION_OUT then pin else pin + 2) = Some port \<and> port \<in> peer_ports p"
    and "dir = DIRECTION_OUT \<Longrightarrow> pin + 14 \<le> length d \<Longrightarrow>
       \<exists>fl. byte_at d (pin + 13) = Some fl \<and> (fl AND TH_SYN = 0 \<or> fl AND TH_ACK \<noteq> 0)"
proof -
  have e: "eth_at + 12 + 4 = eth_at + 16" "eth_at + 16 + 4 = eth_at + 20" by simp_all
  note unf = check_ipv4_rules_def Let_def e
  show "endpoints p dir = (Some ws, Some wd) \<Longrightarrow>
       pslice d (eth_at + 12) (eth_at + 16) = ws \<and> pslice d (eth_at + 16) (eth_at + 20) = wd"
    using ok eth by (auto simp: unf simp del: byte_at_Some split: if_splits bind_splits)
  show "\<exists>port. u16_at d (if dir = DIRECTION_OUT then pin else pin + 2) = Some port \<and> port \<in> peer_ports p"
    if "peer_ports p \<noteq> {}" "pin + 4 \<le> length d"
    using ok eth dir that by (auto simp: unf simp del: byte_at_Some split: if_splits bind_splits)
  show "\<exists>fl. byte_at d (pin + 13) = Some fl \<and> (fl AND TH_SYN = 0 \<or> fl AND TH_ACK \<noteq> 0)"
    if "dir = DIRECTION_OUT" "pin + 14 \<le> length d"
    using ok eth that byte_at_ex[of "pin + 13" d]
    by (auto simp: unf simp del: byte_at_Some split: if_splits bind_splits)
qed

end
