(* ===== verification/Windows.thy ===== *)
theory Windows
  imports Policy
begin

text \<open>
  Capture windows, \<^verbatim>\<open>frame-processor/app/windows.py\<close>: finding groups, the report of one
  interface about one window, exchange findings, and \<open>WindowMerger\<close>, which folds them into one row
  per window.

  Time stamps are real numbers: the float arithmetic of the code without its rounding. Rows keep
  time stamps and payload bytes as they are where the code renders them as ISO strings and base64.
\<close>

section \<open>Aligned windows\<close>

definition KIND_CAPTURE_GAP :: string where "KIND_CAPTURE_GAP = ''capture-gap''"
definition CLASS_EXCHANGE :: string where "CLASS_EXCHANGE = ''http-exchange''"
definition DEFAULT_SAMPLES_PER_GROUP :: nat where "DEFAULT_SAMPLES_PER_GROUP = 3"
definition DEFAULT_MAX_GROUPS :: nat where "DEFAULT_MAX_GROUPS = 64"
definition DEFAULT_SAMPLE_FRAME_BYTES :: nat where "DEFAULT_SAMPLE_FRAME_BYTES = 2048"

definition window_start_for :: "real \<Rightarrow> real \<Rightarrow> real" where
  "window_start_for ts window_seconds = of_int \<lfloor>ts / window_seconds\<rfloor> * window_seconds"

lemma window_start_for_bounds:
  assumes "0 < w"
  shows "window_start_for ts w \<le> ts" "ts < window_start_for ts w + w"
proof -
  have "of_int \<lfloor>ts / w\<rfloor> * w \<le> ts"
    using of_int_floor_le[of "ts / w"] assms pos_le_divide_eq by blast
  moreover have "ts < (of_int \<lfloor>ts / w\<rfloor> + 1) * w"
    using real_of_int_floor_add_one_gt[of "ts / w"] assms pos_divide_less_eq by blast
  ultimately show "window_start_for ts w \<le> ts" "ts < window_start_for ts w + w"
    by (simp_all add: window_start_for_def distrib_right)
qed

lemma window_start_for_mono: "0 < w \<Longrightarrow> s \<le> t \<Longrightarrow> window_start_for s w \<le> window_start_for t w"
  by (simp add: window_start_for_def floor_mono divide_right_mono)

lemma window_start_for_aligned: "0 < w \<Longrightarrow> of_int k * w \<le> t \<Longrightarrow> of_int k * w \<le> window_start_for t w"
  by (simp add: window_start_for_def le_floor_iff pos_le_divide_eq)

section \<open>Finding groups\<close>

record finding_sample =
  smp_ts :: real
  smp_detail :: detail
  smp_frame :: bytes

record wgroup =
  wg_kind :: string
  wg_class :: string
  wg_direction :: direction
  wg_source :: string
  wg_count :: nat
  wg_first :: real
  wg_last :: real
  wg_samples :: "finding_sample list"

type_synonym group_key = "string \<times> string \<times> direction \<times> string"

definition new_wgroup :: "string \<Rightarrow> string \<Rightarrow> direction \<Rightarrow> string \<Rightarrow> wgroup" where
  "new_wgroup k c dir src =
     \<lparr>wg_kind = k, wg_class = c, wg_direction = dir, wg_source = src, wg_count = 0,
      wg_first = 0, wg_last = 0, wg_samples = []\<rparr>"

definition wg_key :: "wgroup \<Rightarrow> group_key" where
  "wg_key g = (wg_kind g, wg_class g, wg_direction g, wg_source g)"

definition wg_add :: "nat \<Rightarrow> real \<Rightarrow> detail \<Rightarrow> bytes \<Rightarrow> wgroup \<Rightarrow> wgroup" where
  "wg_add samples_per_group ts det frame g =
     (let g1 = (if wg_count g = 0 then g\<lparr>wg_first := ts, wg_last := ts\<rparr>
                else g\<lparr>wg_first := min (wg_first g) ts, wg_last := max (wg_last g) ts\<rparr>);
          g2 = g1\<lparr>wg_count := wg_count g1 + 1\<rparr> in
      if length (wg_samples g2) < samples_per_group
      then g2\<lparr>wg_samples := wg_samples g2 @
             [\<lparr>smp_ts = ts, smp_detail = det, smp_frame = frame\<rparr>]\<rparr>
      else g2)"

text \<open>The loop of \<open>merge\<close> over the other group's samples stops when this one is full.\<close>

fun merge_samples :: "nat \<Rightarrow> finding_sample list \<Rightarrow> finding_sample list \<Rightarrow> finding_sample list" where
  "merge_samples n mine [] = mine"
| "merge_samples n mine (s # others) =
     (if length mine \<ge> n then mine else merge_samples n (mine @ [s]) others)"

definition wg_merge :: "nat \<Rightarrow> wgroup \<Rightarrow> wgroup \<Rightarrow> wgroup" where
  "wg_merge samples_per_group other g =
     (let g1 = (if wg_count g = 0 then g\<lparr>wg_first := wg_first other, wg_last := wg_last other\<rparr>
                else g\<lparr>wg_first := min (wg_first g) (wg_first other),
                       wg_last := max (wg_last g) (wg_last other)\<rparr>) in
      g1\<lparr>wg_count := wg_count g1 + wg_count other,
         wg_samples := merge_samples samples_per_group (wg_samples g1) (wg_samples other)\<rparr>)"

lemma merge_samples_take:
  "length mine \<le> n \<Longrightarrow> merge_samples n mine others = take n (mine @ others)"
  by (induction n mine others rule: merge_samples.induct) (auto simp: not_le)

lemma wg_add_sel [simp]:
  "wg_count (wg_add n ts det fr g) = Suc (wg_count g)"
  "wg_kind (wg_add n ts det fr g) = wg_kind g" "wg_class (wg_add n ts det fr g) = wg_class g"
  "wg_direction (wg_add n ts det fr g) = wg_direction g"
  "wg_source (wg_add n ts det fr g) = wg_source g"
  by (simp_all add: wg_add_def Let_def)

lemma wg_merge_sel [simp]:
  "wg_count (wg_merge n h g) = wg_count g + wg_count h"
  "wg_kind (wg_merge n h g) = wg_kind g" "wg_class (wg_merge n h g) = wg_class g"
  "wg_direction (wg_merge n h g) = wg_direction g" "wg_source (wg_merge n h g) = wg_source g"
  by (simp_all add: wg_merge_def Let_def)

lemma new_wgroup_sel [simp]:
  "wg_count (new_wgroup k c dir src) = 0" "wg_samples (new_wgroup k c dir src) = []"
  "wg_kind (new_wgroup k c dir src) = k" "wg_class (new_wgroup k c dir src) = c"
  "wg_direction (new_wgroup k c dir src) = dir" "wg_source (new_wgroup k c dir src) = src"
  by (simp_all add: new_wgroup_def)

lemma length_wg_add_samples:
  "length (wg_samples g) \<le> n \<Longrightarrow> length (wg_samples (wg_add n ts det fr g)) \<le> n"
  by (simp add: wg_add_def Let_def)

section \<open>A bounded store of findings\<close>

text \<open>
  The contract that the accountant's open window and the merger's row share: what is filed is
  counted exactly once, either in a group or as overflow, and the number of groups is bounded.
\<close>

locale finding_store =
  fixes file_finding :: "'f \<Rightarrow> 's \<Rightarrow> 's"
    and weight :: "'f \<Rightarrow> nat"
    and kept :: "'s \<Rightarrow> nat"
    and spilled :: "'s \<Rightarrow> nat"
    and groups_used :: "'s \<Rightarrow> nat"
    and cap :: nat
  assumes file_counts:
      "kept (file_finding f s) + spilled (file_finding f s) = kept s + spilled s + weight f"
    and file_bounded: "groups_used s \<le> cap \<Longrightarrow> groups_used (file_finding f s) \<le> cap"
    and file_keeps: "kept s \<le> kept (file_finding f s)"
begin

lemma file_all_counts:
  "kept (fold file_finding fs s) + spilled (fold file_finding fs s)
     = kept s + spilled s + sum_list (map weight fs)"
proof (induction fs arbitrary: s)
  case (Cons f fs)
  then show ?case using file_counts[of f s] by simp
qed simp

lemma file_all_bounded: "groups_used s \<le> cap \<Longrightarrow> groups_used (fold file_finding fs s) \<le> cap"
  by (induction fs arbitrary: s) (auto intro: file_bounded)

lemma file_all_keeps: "kept s \<le> kept (fold file_finding fs s)"
  by (induction fs arbitrary: s) (auto intro: order_trans file_keeps)

lemma nothing_lost:
  "kept s + spilled s = 0 \<Longrightarrow> f \<in> set fs \<Longrightarrow> 0 < weight f \<Longrightarrow>
   0 < kept (fold file_finding fs s) + spilled (fold file_finding fs s)"
proof -
  assume "f \<in> set fs" "0 < weight f"
  then have "0 < sum_list (map weight fs)"
    using member_le_sum_list[of "weight f" "map weight fs"] by auto
  then show ?thesis by (simp add: file_all_counts)
qed

end

section \<open>Reports\<close>

record class_totals =
  frames :: nat
  frame_bytes :: nat
  frames_out :: nat
  frames_in :: nat
  frames_unknown :: nat

definition zero_totals :: class_totals where
  "zero_totals = \<lparr>frames = 0, frame_bytes = 0, frames_out = 0, frames_in = 0, frames_unknown = 0\<rparr>"

definition add_totals :: "class_totals \<Rightarrow> class_totals \<Rightarrow> class_totals" where
  "add_totals a b =
     \<lparr>frames = frames a + frames b, frame_bytes = frame_bytes a + frame_bytes b,
      frames_out = frames_out a + frames_out b, frames_in = frames_in a + frames_in b,
      frames_unknown = frames_unknown a + frames_unknown b\<rparr>"

record pin_row =
  pr_digest :: string
  pr_declared :: "string option"
  pr_frames :: nat
  pr_distinct :: nat
  pr_payload :: "bytes option"

record window_report =
  wr_iface :: string
  wr_start :: real
  wr_end :: real
  wr_epoch :: real
  wr_observed :: nat
  wr_classified :: nat
  wr_kernel_dropped :: nat
  wr_truncated :: nat
  wr_errors :: nat
  wr_classes :: "(string \<times> class_totals) list"
  wr_pins :: "(string \<times> pin_row) list"
  wr_groups :: "wgroup list"
  wr_groups_overflow :: nat
  wr_finding_count :: nat

definition report_balanced :: "window_report \<Rightarrow> bool" where
  "report_balanced r \<longleftrightarrow> wr_observed r = wr_classified r"

definition report_complete :: "window_report \<Rightarrow> bool" where
  "report_complete r \<longleftrightarrow>
     report_balanced r \<and> wr_kernel_dropped r = 0 \<and> wr_finding_count r = 0"

record exchange_finding =
  ef_kind :: string
  ef_detail :: string
  ef_ts :: real
  ef_observed_on :: string

section \<open>The merger\<close>

record merger_cfg =
  m_ifaces :: "string list"
  m_window_seconds :: real
  m_flush_delay :: real
  m_capture_host :: string
  m_tapped_hostname :: "string option"
  m_tap_version :: string
  m_max_groups :: nat
  m_samples :: nat

record pending =
  pd_start :: real
  pd_end :: real
  pd_reports :: "(string \<times> window_report) list"
  pd_exchange :: "exchange_finding list"

record merger =
  mg_pending :: "(real \<times> pending) list"
  mg_last_flushed :: "real option"
  mg_windows_flushed :: nat

record window_row =
  row_capture_host :: string
  row_ifaces :: "string list"
  row_tapped_hostname :: "string option"
  row_start :: real
  row_end :: real
  row_tap_version :: string
  row_process_epoch :: "real option"
  row_observed :: nat
  row_classified :: nat
  row_kernel_dropped :: nat
  row_truncated :: nat
  row_errors :: nat
  row_finding_count :: nat
  row_finding_groups :: nat
  row_groups_overflow :: nat
  row_complete :: bool
  row_classes :: "(string \<times> class_totals) list"
  row_pins :: "(string \<times> pin_row) list"
  row_findings :: "wgroup list"

text \<open>\<open>dict.fromkeys\<close>: the first occurrence of each name, in order.\<close>

definition fromkeys :: "'a list \<Rightarrow> 'a list" where
  "fromkeys xs = rev (remdups (rev xs))"

text \<open>The constructor; \<open>None\<close> is its \<open>ValueError\<close>.\<close>

definition new_merger ::
  "string list \<Rightarrow> real \<Rightarrow> real \<Rightarrow> string \<Rightarrow> string option \<Rightarrow> string \<Rightarrow> nat \<Rightarrow> nat
    \<Rightarrow> (merger_cfg \<times> merger) option" where
  "new_merger ifaces window_seconds flush_delay host tapped version max_groups samples =
     (if window_seconds \<le> 0 then None
      else Some (\<lparr>m_ifaces = fromkeys ifaces, m_window_seconds = window_seconds,
                  m_flush_delay = flush_delay, m_capture_host = host, m_tapped_hostname = tapped,
                  m_tap_version = version, m_max_groups = max_groups, m_samples = samples\<rparr>,
                 \<lparr>mg_pending = [], mg_last_flushed = None, mg_windows_flushed = 0\<rparr>))"

definition pending_for :: "merger_cfg \<Rightarrow> merger \<Rightarrow> real \<Rightarrow> pending" where
  "pending_for c m start =
     (case map_of (mg_pending m) start of
        Some p \<Rightarrow> p
      | None \<Rightarrow> \<lparr>pd_start = start, pd_end = start + m_window_seconds c,
                 pd_reports = [], pd_exchange = []\<rparr>)"

definition already_flushed :: "merger \<Rightarrow> real \<Rightarrow> bool" where
  "already_flushed m start \<longleftrightarrow>
     (case mg_last_flushed m of None \<Rightarrow> False | Some l \<Rightarrow> start \<le> l)"

definition add_report :: "merger_cfg \<Rightarrow> window_report \<Rightarrow> merger \<Rightarrow> merger" where
  "add_report c r m =
     (if already_flushed m (wr_start r) then m
      else let p = pending_for c m (wr_start r) in
        m\<lparr>mg_pending := dset (wr_start r)
            (p\<lparr>pd_reports := dset (wr_iface r) r (pd_reports p)\<rparr>) (mg_pending m)\<rparr>)"

definition exchange_window :: "merger_cfg \<Rightarrow> exchange_finding \<Rightarrow> real option \<Rightarrow> merger \<Rightarrow> real" where
  "exchange_window c f now m =
     (let start = window_start_for (ef_ts f) (m_window_seconds c) in
      case mg_last_flushed m of
        Some l \<Rightarrow>
          if start \<le> l
          then max (window_start_for (case now of Some n \<Rightarrow> n | None \<Rightarrow> ef_ts f) (m_window_seconds c))
                   (l + m_window_seconds c)
          else start
      | None \<Rightarrow> start)"

definition add_exchange_finding ::
  "merger_cfg \<Rightarrow> exchange_finding \<Rightarrow> real option \<Rightarrow> merger \<Rightarrow> merger" where
  "add_exchange_finding c f now m =
     (let start = exchange_window c f now m; p = pending_for c m start in
      m\<lparr>mg_pending := dset start (p\<lparr>pd_exchange := pd_exchange p @ [f]\<rparr>) (mg_pending m)\<rparr>)"

text \<open>The nested \<open>take\<close>: groups by key under one cap, the rest counted as overflow.\<close>

definition take_group ::
  "nat \<Rightarrow> nat \<Rightarrow> wgroup \<Rightarrow> (group_key \<times> wgroup) list \<times> nat \<Rightarrow> (group_key \<times> wgroup) list \<times> nat" where
  "take_group max_groups samples g st =
     (let (groups, overflow) = st in
      case map_of groups (wg_key g) of
        Some existing \<Rightarrow> (dset (wg_key g) (wg_merge samples g existing) groups, overflow)
      | None \<Rightarrow>
          if length groups < max_groups
          then (dset (wg_key g) (g\<lparr>wg_samples := take samples (wg_samples g)\<rparr>) groups, overflow)
          else (groups, overflow + wg_count g))"

definition merge_class :: "string \<times> class_totals \<Rightarrow> (string \<times> class_totals) list
    \<Rightarrow> (string \<times> class_totals) list" where
  "merge_class nt classes =
     dset (fst nt)
       (add_totals (case map_of classes (fst nt) of Some t \<Rightarrow> t | None \<Rightarrow> zero_totals) (snd nt)) classes"

definition merge_pin :: "string \<times> pin_row \<Rightarrow> (string \<times> pin_row) list \<Rightarrow> (string \<times> pin_row) list" where
  "merge_pin kp pins = (case map_of pins (fst kp) of Some _ \<Rightarrow> pins | None \<Rightarrow> dset (fst kp) (snd kp) pins)"

definition gap_group :: "merger_cfg \<Rightarrow> real \<Rightarrow> string \<Rightarrow> wgroup" where
  "gap_group c start iface =
     wg_add (m_samples c) start (No_account iface) []
       (new_wgroup KIND_CAPTURE_GAP ''capture'' DIRECTION_UNKNOWN [])"

definition exchange_group :: "merger_cfg \<Rightarrow> exchange_finding \<Rightarrow> wgroup" where
  "exchange_group c f =
     wg_add (m_samples c) (ef_ts f) (Exchange_detail (ef_observed_on f) (ef_detail f)) []
       (new_wgroup (ef_kind f) CLASS_EXCHANGE DIRECTION_UNKNOWN [])"

definition missing_ifaces :: "merger_cfg \<Rightarrow> pending \<Rightarrow> string list" where
  "missing_ifaces c p = filter (\<lambda>i. i \<notin> set (keys (pd_reports p))) (m_ifaces c)"

definition taken_groups :: "merger_cfg \<Rightarrow> pending \<Rightarrow> wgroup list" where
  "taken_groups c p =
     concat (map (wr_groups \<circ> snd) (pd_reports p))
     @ map (gap_group c (pd_start p)) (missing_ifaces c p)
     @ map (exchange_group c) (pd_exchange p)"

text \<open>
  \<open>_emit\<close>. The groups are taken in the order of the code: every report's, then one gap per silent
  interface, then the exchange findings; \<open>overflow\<close> starts from the reports' own overflow, and
  taking never reads it.
\<close>

definition emit_row :: "merger_cfg \<Rightarrow> pending \<Rightarrow> window_row" where
  "emit_row c p =
     (let reports = map snd (pd_reports p);
          total = (\<lambda>f. sum_list (map f reports));
          (groups, overflow) =
            fold (take_group (m_max_groups c) (m_samples c)) (taken_groups c p)
                 ([], total wr_groups_overflow);
          finding_count = total wr_finding_count + length (missing_ifaces c p)
                          + length (pd_exchange p);
          epochs = map wr_epoch reports in
      \<lparr>row_capture_host = m_capture_host c, row_ifaces = m_ifaces c,
       row_tapped_hostname = m_tapped_hostname c,
       row_start = pd_start p, row_end = pd_end p, row_tap_version = m_tap_version c,
       row_process_epoch =
         (if epochs \<noteq> [] \<and> 0 < Min (set epochs) then Some (Min (set epochs)) else None),
       row_observed = total wr_observed, row_classified = total wr_classified,
       row_kernel_dropped = total wr_kernel_dropped, row_truncated = total wr_truncated,
       row_errors = total wr_errors, row_finding_count = finding_count,
       row_finding_groups = length groups, row_groups_overflow = overflow,
       row_complete =
         (total wr_observed = total wr_classified \<and> total wr_kernel_dropped = 0
          \<and> finding_count = 0 \<and> length (pd_reports p) = length (m_ifaces c)),
       row_classes = fold merge_class (concat (map wr_classes reports)) [],
       row_pins = fold merge_pin (concat (map wr_pins reports)) [],
       row_findings = map snd groups\<rparr>)"

definition emit :: "pending \<Rightarrow> merger \<Rightarrow> merger" where
  "emit p m =
     m\<lparr>mg_last_flushed := Some (case mg_last_flushed m of None \<Rightarrow> pd_start p
                                 | Some l \<Rightarrow> max l (pd_start p)),
       mg_windows_flushed := mg_windows_flushed m + 1\<rparr>"

text \<open>Popping and emitting the pending windows of a list of starts, oldest first.\<close>

fun emit_all :: "merger_cfg \<Rightarrow> real list \<Rightarrow> merger \<Rightarrow> window_row list \<times> merger" where
  "emit_all c [] m = ([], m)"
| "emit_all c (start # starts) m =
     (case map_of (mg_pending m) start of
        None \<Rightarrow> emit_all c starts m
      | Some p \<Rightarrow>
          (let m1 = emit p (m\<lparr>mg_pending := AList.delete start (mg_pending m)\<rparr>);
               (rows, m2) = emit_all c starts m1 in
           (emit_row c p # rows, m2)))"

definition ready_starts :: "merger_cfg \<Rightarrow> real \<Rightarrow> merger \<Rightarrow> real list" where
  "ready_starts c now m =
     sort (map fst (filter (\<lambda>sp. now \<ge> pd_end (snd sp) + m_flush_delay c) (mg_pending m)))"

definition flush :: "merger_cfg \<Rightarrow> real \<Rightarrow> merger \<Rightarrow> window_row list \<times> merger" where
  "flush c now m = emit_all c (ready_starts c now m) m"

definition finish_merger :: "merger_cfg \<Rightarrow> merger \<Rightarrow> window_row list \<times> merger" where
  "finish_merger c m = emit_all c (sort (keys (mg_pending m))) m"

end
