(* ===== verification/Merger.thy ===== *)
theory Merger
  imports Windows
begin

text \<open>
  What the merger of \<^verbatim>\<open>frame-processor/app/windows.py\<close> promises: every finding handed to
  it is counted in exactly one row, a row is complete only when every interface reported and none
  had anything to say, and no window is written twice or out of order.
\<close>

section \<open>The row's groups are a finding store\<close>

interpretation row_store: finding_store "take_group mx n" wg_count "\<lambda>st. dsum wg_count (fst st)"
    snd "\<lambda>st. length (fst st)" mx for mx n
proof unfold_locales
  fix f :: wgroup and s :: "(group_key \<times> wgroup) list \<times> nat"
  obtain gs ov where s: "s = (gs, ov)" by (cases s)
  show "dsum wg_count (fst (take_group mx n f s)) + snd (take_group mx n f s)
      = dsum wg_count (fst s) + snd s + wg_count f"
    using dsum_dset_add[of wg_count "wg_merge n f (the (map_of gs (wg_key f)))" gs "wg_key f" "wg_count f"]
      dsum_dset_add[of wg_count "f\<lparr>wg_samples := take n (wg_samples f)\<rparr>" gs "wg_key f" "wg_count f"]
    by (auto simp: take_group_def s split: option.splits)
  show "length (fst s) \<le> mx \<Longrightarrow> length (fst (take_group mx n f s)) \<le> mx"
    using map_of_Some_keys[of gs "wg_key f"]
    by (auto simp: take_group_def s length_dset split: option.splits)
  show "dsum wg_count (fst s) \<le> dsum wg_count (fst (take_group mx n f s))"
    using dsum_dset_add[of wg_count "wg_merge n f (the (map_of gs (wg_key f)))" gs "wg_key f" "wg_count f"]
      dsum_dset_add[of wg_count "f\<lparr>wg_samples := take n (wg_samples f)\<rparr>" gs "wg_key f" "wg_count f"]
    by (auto simp: take_group_def s split: option.splits)
qed

section \<open>One row\<close>

definition report_consistent :: "window_report \<Rightarrow> bool" where
  "report_consistent r \<longleftrightarrow>
     sum_list (map wg_count (wr_groups r)) + wr_groups_overflow r = wr_finding_count r"

lemma gap_group_count [simp]: "wg_count (gap_group c s i) = 1"
  by (simp add: gap_group_def)

lemma exchange_group_count [simp]: "wg_count (exchange_group c f) = 1"
  by (simp add: exchange_group_def)

lemma sum_gap: "sum_list (map (wg_count \<circ> gap_group c s) xs) = length xs"
  by (induction xs) auto

lemma sum_exchange: "sum_list (map (wg_count \<circ> exchange_group c) xs) = length xs"
  by (induction xs) auto

lemma sum_taken_groups:
  "sum_list (map wg_count (taken_groups c p))
     = sum_list (map (\<lambda>r. sum_list (map wg_count (wr_groups (snd r)))) (pd_reports p))
       + length (missing_ifaces c p) + length (pd_exchange p)"
proof -
  have "sum_list (map wg_count (concat (map (wr_groups \<circ> snd) rs)))
      = sum_list (map (\<lambda>r. sum_list (map wg_count (wr_groups (snd r)))) rs)"
    for rs :: "(string \<times> window_report) list"
    by (induction rs) auto
  then show ?thesis
    by (simp add: taken_groups_def sum_gap sum_exchange)
qed

lemma emit_row_sel:
  "row_start (emit_row c p) = pd_start p"
  "row_end (emit_row c p) = pd_end p"
  "row_finding_count (emit_row c p) = sum_list (map (wr_finding_count \<circ> snd) (pd_reports p))
     + length (missing_ifaces c p) + length (pd_exchange p)"
  "row_observed (emit_row c p) = sum_list (map (wr_observed \<circ> snd) (pd_reports p))"
  "row_classified (emit_row c p) = sum_list (map (wr_classified \<circ> snd) (pd_reports p))"
  "row_kernel_dropped (emit_row c p) = sum_list (map (wr_kernel_dropped \<circ> snd) (pd_reports p))"
  "row_complete (emit_row c p) \<longleftrightarrow>
     row_observed (emit_row c p) = row_classified (emit_row c p) \<and>
     row_kernel_dropped (emit_row c p) = 0 \<and> row_finding_count (emit_row c p) = 0 \<and>
     length (pd_reports p) = length (m_ifaces c)"
  by (auto simp: emit_row_def Let_def case_prod_beta)

lemma row_groups_eq:
  "row_findings (emit_row c p) = map snd (fst (fold (take_group (m_max_groups c) (m_samples c))
     (taken_groups c p) ([], sum_list (map (wr_groups_overflow \<circ> snd) (pd_reports p)))))"
  "row_finding_groups (emit_row c p) = length (row_findings (emit_row c p))"
  "row_groups_overflow (emit_row c p) = snd (fold (take_group (m_max_groups c) (m_samples c))
     (taken_groups c p) ([], sum_list (map (wr_groups_overflow \<circ> snd) (pd_reports p))))"
  by (auto simp: emit_row_def Let_def case_prod_beta)

lemma row_groups_total:
  assumes "\<And>r. r \<in> set (map snd (pd_reports p)) \<Longrightarrow> report_consistent r"
  shows "sum_list (map wg_count (row_findings (emit_row c p))) + row_groups_overflow (emit_row c p)
    = row_finding_count (emit_row c p)"
proof -
  let ?ov = "sum_list (map (wr_groups_overflow \<circ> snd) (pd_reports p))"
  have "sum_list (map (\<lambda>r. sum_list (map wg_count (wr_groups (snd r)))) rs)
      + sum_list (map (wr_groups_overflow \<circ> snd) rs) = sum_list (map (wr_finding_count \<circ> snd) rs)"
    if "\<forall>r \<in> set (map snd rs). report_consistent r" for rs :: "(string \<times> window_report) list"
    using that by (induction rs) (auto simp: report_consistent_def)
  then have "sum_list (map wg_count (taken_groups c p)) + ?ov = row_finding_count (emit_row c p)"
    using assms by (simp add: sum_taken_groups emit_row_sel)
  then show ?thesis
    using row_store.file_all_counts[of "m_max_groups c" "m_samples c" "taken_groups c p" "([], ?ov)"]
    by (simp add: row_groups_eq dsum_def)
qed

lemma row_groups_bounded: "row_finding_groups (emit_row c p) \<le> m_max_groups c"
  using row_store.file_all_bounded[of "([], sum_list (map (wr_groups_overflow \<circ> snd) (pd_reports p)))"
      "m_max_groups c" "m_samples c" "taken_groups c p"]
  by (simp add: row_groups_eq)

lemma sum_list_0: "sum_list (map f xs) = (0::nat) \<longleftrightarrow> (\<forall>x \<in> set xs. f x = 0)"
  by (induction xs) auto

lemma row_complete_iff:
  "row_complete (emit_row c p) \<longleftrightarrow>
     set (m_ifaces c) \<subseteq> set (keys (pd_reports p)) \<and> length (pd_reports p) = length (m_ifaces c) \<and>
     pd_exchange p = [] \<and>
     (\<forall>r \<in> set (map snd (pd_reports p)). wr_kernel_dropped r = 0 \<and> wr_finding_count r = 0) \<and>
     row_observed (emit_row c p) = row_classified (emit_row c p)"
  unfolding emit_row_sel(7)
  by (auto simp: emit_row_sel(3,6) sum_list_0 missing_ifaces_def filter_empty_conv)

section \<open>No window twice, none out of order\<close>

definition merger_inv :: "merger_cfg \<Rightarrow> merger \<Rightarrow> bool" where
  "merger_inv c m \<longleftrightarrow> 0 < m_window_seconds c \<and> distinct (keys (mg_pending m)) \<and>
     (\<forall>sp \<in> set (mg_pending m). pd_start (snd sp) = fst sp
        \<and> pd_end (snd sp) = fst sp + m_window_seconds c \<and> \<not> already_flushed m (fst sp))"

lemma merger_invD:
  assumes "merger_inv c m" "map_of (mg_pending m) s = Some p"
  shows "pd_start p = s" "pd_end p = s + m_window_seconds c" "\<not> already_flushed m s"
  using assms map_of_SomeD[OF assms(2)] by (auto simp: merger_inv_def)

lemma pending_for_inv:
  "merger_inv c m \<Longrightarrow> pd_start (pending_for c m s) = s \<and>
     pd_end (pending_for c m s) = s + m_window_seconds c"
  using merger_invD[of c m s] by (auto simp: pending_for_def split: option.splits)

lemma already_flushed_pending [simp]:
  "already_flushed (m\<lparr>mg_pending := ps\<rparr>) s = already_flushed m s"
  by (simp add: already_flushed_def)

lemma dset_pending_inv:
  assumes "merger_inv c m" "\<not> already_flushed m s" "pd_start p = s" "pd_end p = s + m_window_seconds c"
  shows "merger_inv c (m\<lparr>mg_pending := dset s p (mg_pending m)\<rparr>)"
  using assms
  by (auto simp: merger_inv_def distinct_update dest!: subsetD[OF set_dset_subset])

lemma add_report_inv: "merger_inv c m \<Longrightarrow> merger_inv c (add_report c r m)"
  using pending_for_inv[of c m "wr_start r"]
  by (auto simp: add_report_def Let_def intro!: dset_pending_inv)

lemma exchange_window_fresh:
  "0 < m_window_seconds c \<Longrightarrow> \<not> already_flushed m (exchange_window c f now m)"
  by (auto simp: already_flushed_def exchange_window_def Let_def split: option.splits)

lemma add_exchange_inv: "merger_inv c m \<Longrightarrow> merger_inv c (add_exchange_finding c f now m)"
  using pending_for_inv[of c m "exchange_window c f now m"] exchange_window_fresh[of c m f now]
  by (auto simp: add_exchange_finding_def Let_def merger_inv_def[of c m] intro!: dset_pending_inv)

text \<open>Emitting a sorted list of pending starts: one row each, in that order, and only those go.\<close>

lemma emit_all_spec:
  assumes "\<forall>(s, p) \<in> set (mg_pending m). pd_start p = s"
    and "\<forall>s \<in> set starts. \<not> already_flushed m s"
    and "sorted_wrt (<) starts" "set starts \<subseteq> set (keys (mg_pending m))"
    and "emit_all c starts m = (rows, m')"
  shows "map row_start rows = starts \<and>
    mg_pending m' = filter (\<lambda>sp. fst sp \<notin> set starts) (mg_pending m) \<and>
    mg_last_flushed m' = (if starts = [] then mg_last_flushed m else Some (last starts))"
  using assms
proof (induction starts arbitrary: m rows m')
  case Nil
  then show ?case by simp
next
  case (Cons s starts)
  then obtain p where p: "map_of (mg_pending m) s = Some p"
    by (metis list.set_intros(1) map_of_None_keys not_None_eq subset_code(1))
  define m1 where "m1 = emit p (m\<lparr>mg_pending := AList.delete s (mg_pending m)\<rparr>)"
  have ps: "pd_start p = s" using map_of_SomeD[OF p] Cons.prems(1) by auto
  have pend: "mg_pending m1 = filter (\<lambda>sp. fst sp \<noteq> s) (mg_pending m)"
    by (auto simp: m1_def emit_def AList.delete_eq intro: filter_cong)
  have last1: "mg_last_flushed m1 = Some s"
    using ps Cons.prems(2) by (auto simp: m1_def emit_def already_flushed_def split: option.splits)
  obtain rows1 m2 where r: "emit_all c starts m1 = (rows1, m2)" by fastforce
  have split: "rows = emit_row c p # rows1" "m' = m2"
    using Cons.prems(5) p r by (simp_all add: m1_def[symmetric] Let_def)
  have "map row_start rows1 = starts \<and>
      mg_pending m2 = filter (\<lambda>sp. fst sp \<notin> set starts) (mg_pending m1) \<and>
      mg_last_flushed m2 = (if starts = [] then mg_last_flushed m1 else Some (last starts))"
  proof (rule Cons.IH[OF _ _ _ _ r])
    show "\<forall>(s, p) \<in> set (mg_pending m1). pd_start p = s" using Cons.prems(1) by (auto simp: pend)
    show "\<forall>t \<in> set starts. \<not> already_flushed m1 t"
      using Cons.prems(3) by (auto simp: already_flushed_def last1)
    show "sorted_wrt (<) starts" using Cons.prems(3) by simp
    show "set starts \<subseteq> set (keys (mg_pending m1))"
      using Cons.prems(3,4) by (force simp: pend)
  qed
  then show ?case
    using ps last1 by (auto simp: split pend emit_row_sel intro: filter_cong)
qed

lemma strict_sort: "distinct xs \<Longrightarrow> sorted_wrt (<) (sort (xs :: real list))"
  by (simp add: strict_sorted_iff)

lemma emit_ready:
  assumes inv: "merger_inv c m" and starts: "starts = sort (map fst (filter P (mg_pending m)))"
    and later: "\<forall>sp \<in> set (mg_pending m). \<forall>tp \<in> set (mg_pending m).
      P sp \<longrightarrow> \<not> P tp \<longrightarrow> fst sp < fst tp"
    and run: "emit_all c starts m = (rows, m')"
  shows "merger_inv c m'" "map row_start rows = starts" "sorted_wrt (<) starts"
    "\<forall>s \<in> set starts. \<not> already_flushed m s"
    "mg_last_flushed m' = (if starts = [] then mg_last_flushed m else Some (last starts))"
    "mg_pending m' = filter (\<lambda>sp. fst sp \<notin> set starts) (mg_pending m)"
proof -
  from inv have dist: "distinct (keys (mg_pending m))" by (simp add: merger_inv_def)
  then have "distinct (map fst (filter P (mg_pending m)))" by (rule distinct_map_filter)
  then show srt: "sorted_wrt (<) starts" by (simp add: starts strict_sort)
  show fresh: "\<forall>s \<in> set starts. \<not> already_flushed m s"
    using inv by (auto simp: starts merger_inv_def)
  have *: "map row_start rows = starts \<and>
      mg_pending m' = filter (\<lambda>sp. fst sp \<notin> set starts) (mg_pending m) \<and>
      mg_last_flushed m' = (if starts = [] then mg_last_flushed m else Some (last starts))"
    using inv fresh srt
    by (intro emit_all_spec[OF _ _ _ _ run]) (auto simp: merger_inv_def starts)
  then show "map row_start rows = starts"
    "mg_last_flushed m' = (if starts = [] then mg_last_flushed m else Some (last starts))"
    "mg_pending m' = filter (\<lambda>sp. fst sp \<notin> set starts) (mg_pending m)" by simp_all
  have "\<not> already_flushed m' (fst sp)" if sp: "sp \<in> set (mg_pending m')" for sp
  proof (cases "starts = []")
    case True
    with * sp inv show ?thesis by (auto simp: merger_inv_def already_flushed_def)
  next
    case False
    then have "last starts \<in> set starts" by simp
    then obtain lp where lp: "lp \<in> set (mg_pending m)" "P lp" "fst lp = last starts"
      by (auto simp: starts)
    from sp * have sp': "sp \<in> set (mg_pending m)" "fst sp \<notin> set starts" by auto
    then have "\<not> P sp" by (auto simp: starts)
    with later lp sp'(1) have "last starts < fst sp" by force
    with * False show ?thesis by (simp add: already_flushed_def)
  qed
  with * inv show "merger_inv c m'"
    by (auto simp: merger_inv_def intro: distinct_map_filter)
qed

lemma already_flushed_later:
  assumes "already_flushed m s" "\<forall>t \<in> set starts. \<not> already_flushed m t"
    and "mg_last_flushed m' = (if starts = [] then mg_last_flushed m else Some (last starts))"
  shows "already_flushed m' s"
proof (cases "starts = []")
  case True
  with assms show ?thesis by (simp add: already_flushed_def)
next
  case False
  then have "\<not> already_flushed m (last starts)" using assms(2) by simp
  moreover obtain l where "mg_last_flushed m = Some l" "s \<le> l"
    using assms(1) by (auto simp: already_flushed_def split: option.splits)
  ultimately show ?thesis using assms(3) False by (simp add: already_flushed_def)
qed

lemma emit_flush:
  assumes "merger_inv c m" "flush c now m = (rows, m')"
  shows "merger_inv c m'" "sorted_wrt (<) (map row_start rows)"
    "\<forall>s \<in> set (map row_start rows). \<not> already_flushed m s \<and> already_flushed m' s"
    "already_flushed m s \<Longrightarrow> already_flushed m' s"
proof -
  let ?P = "\<lambda>sp. pd_end (snd sp) + m_flush_delay c \<le> now"
  have st: "ready_starts c now m = sort (map fst (filter ?P (mg_pending m)))"
    by (simp add: ready_starts_def)
  have later: "\<forall>sp \<in> set (mg_pending m). \<forall>tp \<in> set (mg_pending m).
      ?P sp \<longrightarrow> \<not> ?P tp \<longrightarrow> fst sp < fst tp"
    using assms(1) by (auto simp: merger_inv_def)
  note r = emit_ready[OF assms(1) st later assms(2)[unfolded flush_def]]
  show "merger_inv c m'" by (rule r(1))
  show "sorted_wrt (<) (map row_start rows)" by (simp add: r(2,3))
  have *: "s \<le> last (map row_start rows)" if "s \<in> set (map row_start rows)" for s
    using that r(2,3) sorted_le_last[of "map row_start rows" s]
    by (simp add: strict_sorted_imp_sorted)
  show "\<forall>s \<in> set (map row_start rows). \<not> already_flushed m s \<and> already_flushed m' s"
    using r(2,4,5) * by (auto simp: already_flushed_def)
  show "already_flushed m s \<Longrightarrow> already_flushed m' s"
    by (rule already_flushed_later[OF _ r(4,5)])
qed

text \<open>The life of a merger: reports, exchange findings and flushes in any order.\<close>

datatype merger_op = Op_report window_report | Op_exchange exchange_finding "real option" | Op_flush real

fun merger_step :: "merger_cfg \<Rightarrow> merger_op \<Rightarrow> merger \<Rightarrow> window_row list \<times> merger" where
  "merger_step c (Op_report r) m = ([], add_report c r m)"
| "merger_step c (Op_exchange f now) m = ([], add_exchange_finding c f now m)"
| "merger_step c (Op_flush now) m = flush c now m"

fun merger_run :: "merger_cfg \<Rightarrow> merger_op list \<Rightarrow> merger \<Rightarrow> window_row list \<times> merger" where
  "merger_run c [] m = ([], m)"
| "merger_run c (x # xs) m =
     (let (rows, m1) = merger_step c x m; (more, m2) = merger_run c xs m1 in (rows @ more, m2))"

lemma merger_step_inv:
  assumes "merger_inv c m" "merger_step c x m = (rows, m')"
  shows "merger_inv c m'" "sorted_wrt (<) (map row_start rows)"
    "\<forall>s \<in> set (map row_start rows). \<not> already_flushed m s \<and> already_flushed m' s"
    "already_flushed m s \<Longrightarrow> already_flushed m' s"
  using assms add_report_inv add_exchange_inv emit_flush[of c m _ rows m']
  by (cases x; auto simp: add_report_def add_exchange_finding_def Let_def)+

lemma flushed_less: "already_flushed m s \<Longrightarrow> \<not> already_flushed m t \<Longrightarrow> s < t"
  by (auto simp: already_flushed_def split: option.splits)

lemma merger_run_sorted:
  "merger_inv c m \<Longrightarrow> merger_run c xs m = (rows, m') \<Longrightarrow>
   sorted_wrt (<) (map row_start rows) \<and> (\<forall>s \<in> set (map row_start rows). \<not> already_flushed m s)"
proof (induction xs arbitrary: m rows)
  case (Cons x xs)
  obtain r1 m1 where s1: "merger_step c x m = (r1, m1)" by fastforce
  obtain r2 where s2: "merger_run c xs m1 = (r2, m')" and rows: "rows = r1 @ r2"
    using Cons.prems(2) s1 by (auto split: prod.splits)
  note st = merger_step_inv[OF Cons.prems(1) s1]
  from Cons.IH[OF st(1) s2]
  have r2: "sorted_wrt (<) (map row_start r2)" "\<forall>s \<in> set (map row_start r2). \<not> already_flushed m1 s"
    by simp_all
  show ?case
    using st(2,3) r2 st(4) flushed_less[of m1]
    by (fastforce simp: rows sorted_wrt_append)
qed simp

lemma new_merger_inv:
  "new_merger ifaces ws fd h t v mg sm = Some (c, m) \<Longrightarrow> merger_inv c m"
  by (auto simp: new_merger_def merger_inv_def split: if_splits)

end
