(* ===== verification/Accountant.thy ===== *)
theory Accountant
  imports Merger
begin

text \<open>
  \<open>FrameAccountant\<close> of \<^verbatim>\<open>frame-processor/app/accounting.py\<close>: the state it keeps and every
  operation on it. Constructor parameters are the record \<open>acct_cfg\<close>, the mutable attributes the
  record \<open>acct\<close>. A method that may raise is a command; the \<open>try\<close> blocks of \<open>observe\<close> are \<open>tryc\<close>.

  \<open>_ctx_window\<close> is a reference that, whenever it is not \<open>None\<close>, is the open window, so it is kept as
  a flag and writes through it go to \<open>a_window\<close>. BLAKE2b is the parameter \<open>digest\<close>, and
  \<open>on_finding\<close> a function that says whether the callback returned (True) or raised (False).
\<close>

section \<open>State\<close>

record pin =
  variants :: "(bytes \<times> nat) list"
  first_seen :: real
  pin_frames :: nat
  pin_distinct :: nat
  overflowed :: bool
  pin_declared :: "string option"
  pin_whole_frame :: bool

record beat =
  b_interval :: real
  b_tolerance :: real
  b_source :: string
  b_class :: string
  next_due :: real
  first_ts :: real
  last_ts :: real
  beats_seen :: nat
  missed :: int
  unscheduled :: nat
  resyncs :: nat
  awaiting_return :: bool
  min_gap :: real
  max_gap :: real
  b_direction :: direction

record finding =
  f_kind :: string
  f_class :: string
  f_source :: string
  f_detail :: detail
  f_ts :: real
  f_direction :: direction

record finding_group =
  fg_kind :: string
  fg_class :: string
  fg_count :: nat
  fg_sources :: "string set"
  fg_samples :: "finding list"

record win =
  w_start :: real
  w_end :: real
  w_observed :: nat
  w_classified :: nat
  w_kernel_dropped :: nat
  w_truncated :: nat
  w_errors :: nat
  w_finding_count :: nat
  w_groups_overflow :: nat
  w_classes :: "(string \<times> class_totals) list"
  w_groups :: "(group_key \<times> wgroup) list"

record acct_cfg =
  c_unpinned :: "string set"
  c_fixed_direction :: "direction option"
  c_whole_frame :: "string set"
  c_allow_ip_options :: bool
  c_allow_fragments :: bool
  c_samples_per_group :: nat
  c_max_variants :: nat
  c_on_finding :: "(finding \<Rightarrow> bool) option"
  c_policy :: "link_policy option"
  c_iface :: string
  c_window_seconds :: "real option"
  c_window_grace :: real
  c_max_window_groups :: nat
  c_sample_frame_bytes :: nat
  c_process_epoch :: real
  c_digest :: "bytes \<Rightarrow> string"

record acct =
  a_observed :: nat
  a_classified :: nat
  a_errors :: nat
  a_truncated :: nat
  a_kernel_dropped :: nat
  a_classes :: "(string \<times> class_totals) list"
  a_pins :: "(string \<times> pin) list"
  a_groups :: "((string \<times> string) \<times> finding_group) list"
  a_beats :: "(string \<times> beat) list"
  a_window :: "win option"
  a_last_closed_end :: real
  a_windows_opened :: nat
  a_closed :: "window_report list"
  ctx_window :: bool
  ctx_direction :: direction
  ctx_frame :: bytes

definition DEFAULT_MAX_VARIANTS :: nat where "DEFAULT_MAX_VARIANTS = 32"
definition PIN_PAYLOAD_RECORDED_BYTES :: nat where "PIN_PAYLOAD_RECORDED_BYTES = 512"
definition KIND_BEAT_MISSED :: string where "KIND_BEAT_MISSED = ''beat-missed''"
definition KIND_BEAT_UNSCHEDULED :: string where "KIND_BEAT_UNSCHEDULED = ''beat-unscheduled''"
definition BEAT_RESYNC_LIMIT :: int where "BEAT_RESYNC_LIMIT = 1000"

definition pin_constant :: "pin \<Rightarrow> bool" where
  "pin_constant p \<longleftrightarrow> pin_distinct p = 1"

definition pin_digest :: "acct_cfg \<Rightarrow> pin \<Rightarrow> string" where
  "pin_digest c p = (case variants p of [] \<Rightarrow> [] | (v, _) # _ \<Rightarrow> c_digest c v)"

definition pin_payload_bytes :: "pin \<Rightarrow> nat" where
  "pin_payload_bytes p = (case variants p of [] \<Rightarrow> 0 | (v, _) # _ \<Rightarrow> length v)"

definition beat_armed :: "beat \<Rightarrow> bool" where
  "beat_armed b \<longleftrightarrow> next_due b > 0"

definition mean_gap :: "beat \<Rightarrow> real" where
  "mean_gap b = (if beats_seen b < 2 then 0
                 else (last_ts b - first_ts b) / real (beats_seen b - 1))"

definition mk_finding :: "string \<Rightarrow> string \<Rightarrow> string \<Rightarrow> detail \<Rightarrow> real \<Rightarrow> direction \<Rightarrow> finding" where
  "mk_finding k cl src det ts dir =
     \<lparr>f_kind = k, f_class = cl, f_source = src, f_detail = det, f_ts = ts, f_direction = dir\<rparr>"

definition new_win :: "real \<Rightarrow> real \<Rightarrow> win" where
  "new_win start stop =
     \<lparr>w_start = start, w_end = stop, w_observed = 0, w_classified = 0, w_kernel_dropped = 0,
      w_truncated = 0, w_errors = 0, w_finding_count = 0, w_groups_overflow = 0,
      w_classes = [], w_groups = []\<rparr>"

definition tryc :: "'s cmd \<Rightarrow> 's cmd \<Rightarrow> 's cmd" where
  "tryc m handler s = (let r = m s in if snd r then r else handler (fst r))"

section \<open>Bookkeeping\<close>

definition add_frame :: "nat \<Rightarrow> direction option \<Rightarrow> class_totals \<Rightarrow> class_totals" where
  "add_frame sz dir t =
     (let t1 = t\<lparr>frames := frames t + 1, frame_bytes := frame_bytes t + sz\<rparr> in
      if dir = Some DIRECTION_OUT then t1\<lparr>frames_out := frames_out t1 + 1\<rparr>
      else if dir = Some DIRECTION_IN then t1\<lparr>frames_in := frames_in t1 + 1\<rparr>
      else t1\<lparr>frames_unknown := frames_unknown t1 + 1\<rparr>)"

definition count_class :: "string \<Rightarrow> nat \<Rightarrow> direction option \<Rightarrow> (string \<times> class_totals) list
    \<Rightarrow> (string \<times> class_totals) list" where
  "count_class name sz dir classes =
     dset name (add_frame sz dir
       (case map_of classes name of None \<Rightarrow> zero_totals | Some t \<Rightarrow> t)) classes"

definition on_ctx_window :: "(win \<Rightarrow> win) \<Rightarrow> acct \<Rightarrow> acct" where
  "on_ctx_window f s = (if ctx_window s then s\<lparr>a_window := map_option f (a_window s)\<rparr> else s)"

definition count_frame :: "string \<Rightarrow> nat \<Rightarrow> direction option \<Rightarrow> acct \<Rightarrow> acct" where
  "count_frame name sz dir s =
     on_ctx_window
       (\<lambda>w. w\<lparr>w_classes := count_class name sz dir (w_classes w),
              w_observed := w_observed w + 1, w_classified := w_classified w + 1\<rparr>)
       (s\<lparr>a_classes := count_class name sz dir (a_classes s),
          a_classified := a_classified s + 1\<rparr>)"

definition note_in_window :: "acct_cfg \<Rightarrow> finding \<Rightarrow> bytes \<Rightarrow> win \<Rightarrow> win" where
  "note_in_window c f frame w =
     (let w1 = w\<lparr>w_finding_count := w_finding_count w + 1\<rparr>;
          key = (f_kind f, f_class f, f_direction f, f_source f);
          add = (\<lambda>g. let sample =
                   (if frame \<noteq> [] \<and> length (wg_samples g) < c_samples_per_group c
                       \<and> c_sample_frame_bytes c \<noteq> 0
                    then take (c_sample_frame_bytes c) frame else []) in
                 w1\<lparr>w_groups := dset key
                   (wg_add (c_samples_per_group c) (f_ts f) (f_detail f) sample g) (w_groups w1)\<rparr>) in
      case map_of (w_groups w1) key of
        Some g \<Rightarrow> add g
      | None \<Rightarrow>
          if length (w_groups w1) \<ge> c_max_window_groups c
          then w1\<lparr>w_groups_overflow := w_groups_overflow w1 + 1\<rparr>
          else add (new_wgroup (f_kind f) (f_class f) (f_direction f) (f_source f)))"

definition add_to_group :: "acct_cfg \<Rightarrow> finding \<Rightarrow> finding_group \<Rightarrow> finding_group" where
  "add_to_group c f g =
     (let g1 = g\<lparr>fg_count := fg_count g + 1\<rparr>;
          g2 = (if f_source f \<noteq> [] then g1\<lparr>fg_sources := insert (f_source f) (fg_sources g1)\<rparr> else g1) in
      if length (fg_samples g2) < c_samples_per_group c
      then g2\<lparr>fg_samples := fg_samples g2 @ [f]\<rparr> else g2)"

definition with_direction :: "acct \<Rightarrow> finding \<Rightarrow> finding" where
  "with_direction s f =
     (if f_direction f = DIRECTION_UNKNOWN \<and> ctx_direction s \<noteq> DIRECTION_UNKNOWN
      then f\<lparr>f_direction := ctx_direction s\<rparr> else f)"

definition note_finding :: "acct_cfg \<Rightarrow> finding \<Rightarrow> acct \<Rightarrow> acct" where
  "note_finding c f0 s =
     (let f = with_direction s f0;
          key = (f_kind f, f_class f);
          group = (case map_of (a_groups s) key of Some g \<Rightarrow> g
                   | None \<Rightarrow> \<lparr>fg_kind = f_kind f, fg_class = f_class f, fg_count = 0,
                              fg_sources = {}, fg_samples = []\<rparr>);
          s1 = s\<lparr>a_groups := dset key (add_to_group c f group) (a_groups s)\<rparr>;
          s2 = on_ctx_window
                 (\<lambda>w. note_in_window c f (ctx_frame s)
                        (if f_kind f = ''error'' then w\<lparr>w_errors := w_errors w + 1\<rparr> else w)) s1 in
      case c_on_finding c of
        None \<Rightarrow> s2
      | Some cb \<Rightarrow> if cb f then s2 else s2\<lparr>a_errors := a_errors s2 + 1\<rparr>)"

definition notec :: "acct_cfg \<Rightarrow> string \<Rightarrow> string \<Rightarrow> string \<Rightarrow> detail \<Rightarrow> real \<Rightarrow> acct cmd" where
  "notec c kind cl src det ts = modc (note_finding c (mk_finding kind cl src det ts DIRECTION_UNKNOWN))"

definition source_of :: "bytes \<Rightarrow> string" where
  "source_of d = (if length d < 12 then [] else hex_colon (pslice d 6 12))"

section \<open>Structural validation\<close>

definition check_padding :: "acct_cfg \<Rightarrow> bytes \<Rightarrow> classification \<Rightarrow> real \<Rightarrow> acct cmd" where
  "check_padding c d cl ts =
     (case content_end cl of
        None \<Rightarrow> skipc
      | Some e \<Rightarrow>
          if e \<ge> length d then skipc
          else if length d > ETH_MIN_FRAME_LEN then
            notec c ''trailing-bytes'' (cname cl) (source_of d) (Trailing (length d - e) (length d)) ts
          else whenc (\<exists>b \<in> set (drop e d). b \<noteq> 0)
            (notec c ''padding-nonzero'' (cname cl) (source_of d)
               (Padding (length d - e) (drop e d)) ts))"

definition check_lldp :: "acct_cfg \<Rightarrow> bytes \<Rightarrow> classification \<Rightarrow> real \<Rightarrow> acct cmd" where
  "check_lldp c d cl ts =
     (let payload = drop (pin_at cl) d in
      case lldp_tlv_end payload of
        None \<Rightarrow> notec c ''tlv-mismatch'' ''lldp'' (source_of d) Tlv_overrun ts
      | Some e \<Rightarrow> whenc (e \<noteq> length payload)
          (notec c ''tlv-mismatch'' ''lldp'' (source_of d) (Tlv_after (length payload - e)) ts))"

definition arp_shape_wrong :: "nat \<Rightarrow> nat \<Rightarrow> nat \<Rightarrow> nat \<Rightarrow> arp_wrong list" where
  "arp_shape_wrong htype ptype hlen plen =
     (if htype \<noteq> ARP_HTYPE_ETHERNET then [Wrong_htype htype] else [])
     @ (if ptype \<noteq> ETHERTYPE_IPV4 then [Wrong_ptype ptype] else [])
     @ (if hlen \<noteq> 6 then [Wrong_hlen hlen] else [])
     @ (if plen \<noteq> 4 then [Wrong_plen plen] else [])"

definition check_arp :: "acct_cfg \<Rightarrow> bytes \<Rightarrow> classification \<Rightarrow> real \<Rightarrow> acct cmd" where
  "check_arp c d cl ts =
     (let source = source_of d; off = pin_at cl in
      if length d < off + 8 then skipc
      else readc (u16_at d off) (\<lambda>htype. readc (u16_at d (off + 2)) (\<lambda>ptype.
        readc (byte_at d (off + ARP_HLEN_AT)) (\<lambda>hlen. readc (byte_at d (off + ARP_PLEN_AT)) (\<lambda>plen.
        let wrong = arp_shape_wrong htype ptype hlen plen in
        if wrong \<noteq> [] then notec c ''arp-shape'' ''arp'' source (Arp_shape wrong) ts
        else readc (u16_at d (off + ARP_OPCODE_AT)) (\<lambda>opcode.
          if opcode \<notin> {ARP_REQUEST, ARP_REPLY}
          then notec c ''arp-opcode'' ''arp'' source (Arp_opcode opcode) ts
          else if length d < off + ARP_IPV4_LEN then skipc
          else let claimed = pslice d (off + ARP_SENDER_HW_AT) (off + ARP_SENDER_HW_AT + 6);
                   actual = pslice d 6 12;
                   target_hw = pslice d (off + ARP_TARGET_HW_AT) (off + ARP_TARGET_HW_AT + 6);
                   dst = pslice d 0 6 in
            seqc (whenc (claimed \<noteq> actual)
                    (notec c ''arp-source-mismatch'' ''arp'' source (Arp_source claimed actual) ts))
              (if opcode = ARP_REQUEST \<and> target_hw \<noteq> replicate 6 0
               then notec c ''arp-target-hw'' ''arp'' source (Arp_request_target target_hw) ts
               else whenc (opcode = ARP_REPLY \<and> target_hw \<noteq> dst)
                 (notec c ''arp-target-hw'' ''arp'' source (Arp_reply_target target_hw dst) ts))))))))"

definition ip_flag_details :: "acct_cfg \<Rightarrow> nat \<Rightarrow> ip_flag list" where
  "ip_flag_details c flags =
     (if flags AND IPV4_FLAG_RESERVED \<noteq> 0 then [Flag_reserved] else [])
     @ (if c_allow_fragments c then []
        else (if flags AND IPV4_FLAG_MORE \<noteq> 0 then [Flag_more] else [])
           @ (if flags AND IPV4_FRAG_OFFSET_MASK \<noteq> 0
              then [Flag_offset (flags AND IPV4_FRAG_OFFSET_MASK)] else []))"

definition check_ipv4_header :: "acct_cfg \<Rightarrow> bytes \<Rightarrow> classification \<Rightarrow> real \<Rightarrow> acct cmd" where
  "check_ipv4_header c d cl ts =
     (let eth_at = ethernet_header_len d in
      if length d < eth_at + MIN_IPV4_HEADER_LEN then skipc
      else readc (byte_at d eth_at) (\<lambda>b.
        if drop_bit 4 b \<noteq> 4 then skipc
        else let ihl = (b AND IPV4_IHL_MASK) * HEADER_WORD_LEN;
                 options = pslice d (eth_at + MIN_IPV4_HEADER_LEN) (eth_at + ihl) in
          seqc
            (whenc (ihl > MIN_IPV4_HEADER_LEN \<and> \<not> c_allow_ip_options c)
               (notec c ''ipv4-options'' (cname cl) (source_of d)
                  (Ip_options (length options) (take 16 options)) ts))
            (readc (u16_at d (eth_at + IPV4_FLAGS_AT)) (\<lambda>flags.
               whenc (ip_flag_details c flags \<noteq> [])
                 (notec c ''ipv4-fragmented'' (cname cl) (source_of d)
                    (Ip_flags (ip_flag_details c flags)) ts)))))"

definition check_tcp_header :: "acct_cfg \<Rightarrow> bytes \<Rightarrow> classification \<Rightarrow> real \<Rightarrow> acct cmd" where
  "check_tcp_header c d cl ts =
     (let off = pin_at cl in
      if length d < off + TCP_MIN_HEADER_LEN then skipc
      else readc (byte_at d (off + TCP_OFFSET_RESERVED_AT)) (\<lambda>b.
        seqc
          (whenc (b AND TCP_RESERVED_MASK \<noteq> 0)
             (notec c ''tcp-reserved'' (cname cl) (source_of d) (Tcp_reserved (b AND TCP_RESERVED_MASK)) ts))
          (readc (u16_at d (off + TCP_URGENT_AT)) (\<lambda>urgent.
             readc (byte_at d (off + TCP_FLAGS_AT)) (\<lambda>flags.
               whenc (urgent \<noteq> 0 \<and> flags AND TCP_FLAG_URG = 0)
                 (notec c ''tcp-urgent'' (cname cl) (source_of d) (Tcp_urgent urgent) ts))))))"

definition zero_bytes :: "nat \<Rightarrow> nat \<Rightarrow> bytes \<Rightarrow> bytes" where
  "zero_bytes a b d = take a d @ replicate (b - a) 0 @ drop b d"

definition check_ipv4_checksum :: "acct_cfg \<Rightarrow> bytes \<Rightarrow> classification \<Rightarrow> real \<Rightarrow> acct cmd" where
  "check_ipv4_checksum c d cl ts =
     (let eth_at = ethernet_header_len d in
      if length d < eth_at + MIN_IPV4_HEADER_LEN then skipc
      else readc (u16_at d eth_at) (\<lambda>v.
        if drop_bit 12 v \<noteq> 4 then skipc
        else readc (byte_at d eth_at) (\<lambda>b.
          let ihl = (b AND IPV4_IHL_MASK) * HEADER_WORD_LEN in
          if ihl < MIN_IPV4_HEADER_LEN \<or> length d < eth_at + ihl then skipc
          else let header = pslice d eth_at (eth_at + ihl) in
            readc (u16_at header IPV4_CHECKSUM_AT) (\<lambda>stated.
              let zeroed = zero_bytes IPV4_CHECKSUM_AT (IPV4_CHECKSUM_AT + 2) header in
              whenc (ones_complement zeroed \<noteq> stated)
                (notec c ''ipv4-checksum'' (cname cl) (source_of d)
                   (Ip_checksum stated (ones_complement zeroed)) ts)))))"

section \<open>Pins\<close>

text \<open>The bytes a class is held to: the payload, or the frame with the derived ranges zeroed.\<close>

definition mask_derived :: "(nat \<times> nat) list \<Rightarrow> bytes \<Rightarrow> bytes" where
  "mask_derived ranges frame =
     fold (\<lambda>(a, b) fr. if a < b \<and> b \<le> length fr then zero_bytes a b fr else fr) ranges frame"

definition pinned :: "acct_cfg \<Rightarrow> bytes \<Rightarrow> classification \<Rightarrow> bytes" where
  "pinned c d cl =
     (if cname cl \<notin> c_whole_frame c then drop (pin_at cl) d else mask_derived (derived cl) d)"

definition new_pin :: "real \<Rightarrow> string option \<Rightarrow> bool \<Rightarrow> pin" where
  "new_pin ts declared whole =
     \<lparr>variants = [], first_seen = ts, pin_frames = 0, pin_distinct = 0, overflowed = False,
      pin_declared = declared, pin_whole_frame = whole\<rparr>"

text \<open>One payload against a pin: seen before, or a new variant, retained while there is room.\<close>

definition pin_observe :: "acct_cfg \<Rightarrow> bytes \<Rightarrow> pin \<Rightarrow> pin" where
  "pin_observe c payload p0 =
     (let p = p0\<lparr>pin_frames := pin_frames p0 + 1\<rparr> in
      case map_of (variants p) payload of
        Some seen \<Rightarrow> p\<lparr>variants := dset payload (seen + 1) (variants p)\<rparr>
      | None \<Rightarrow>
          (let p1 = p\<lparr>pin_distinct := pin_distinct p + 1\<rparr> in
           if length (variants p1) < c_max_variants c
           then p1\<lparr>variants := dset payload 1 (variants p1)\<rparr>
           else p1\<lparr>overflowed := True\<rparr>))"

definition pin_key :: "bytes \<Rightarrow> classification \<Rightarrow> string" where
  "pin_key d cl = source_of d @ CHR ''/'' # cname cl"

definition put_pin :: "string \<Rightarrow> pin \<Rightarrow> acct \<Rightarrow> acct" where
  "put_pin key p s = s\<lparr>a_pins := dset key p (a_pins s)\<rparr>"

text \<open>The findings of one payload, given the pin before and after it was observed.\<close>

definition pin_verdict ::
  "acct_cfg \<Rightarrow> string \<Rightarrow> string \<Rightarrow> bytes \<Rightarrow> pin \<Rightarrow> pin \<Rightarrow> real \<Rightarrow> acct cmd" where
  "pin_verdict c name source payload before after ts =
     (if map_of (variants before) payload \<noteq> None then skipc
      else case pin_declared after of
        Some declared \<Rightarrow>
          whenc (c_digest c payload \<noteq> declared)
            (notec c ''pin-mismatch'' name source
               (Pin_mismatch (c_digest c payload) (length payload) declared) ts)
      | None \<Rightarrow>
          whenc (pin_distinct after \<noteq> 1)
            (notec c ''variant-added'' name source
               (Variant_added (pin_distinct after) (length payload) (pin_digest c after)
                  (first_seen after)) ts))"

definition check_pin :: "acct_cfg \<Rightarrow> bytes \<Rightarrow> classification \<Rightarrow> real \<Rightarrow> acct cmd" where
  "check_pin c d cl ts =
     (let source = source_of d; key = pin_key d cl; name = cname cl;
          whole = (name \<in> c_whole_frame c);
          payload = pinned c d cl;
          declared = (case c_policy c of Some p \<Rightarrow> declared_digest p key | None \<Rightarrow> None) in
      seqc (whenc whole (check_ipv4_checksum c d cl ts))
      (seqc
        (getc (\<lambda>s. whenc (map_of (a_pins s) key = None)
           (seqc (modc (put_pin key (new_pin ts declared whole)))
              (whenc (c_policy c \<noteq> None \<and> declared = None)
                 (notec c ''pin-undeclared'' name source (Pin_undeclared (c_digest c payload)) ts)))))
        (getc (\<lambda>s. readc (map_of (a_pins s) key) (\<lambda>p.
           seqc (modc (put_pin key (pin_observe c payload p)))
              (pin_verdict c name source payload p (pin_observe c payload p) ts))))))"

section \<open>Beats\<close>

definition put_beat :: "string \<Rightarrow> beat \<Rightarrow> acct \<Rightarrow> acct" where
  "put_beat key b s = s\<lparr>a_beats := dset key b (a_beats s)\<rparr>"

definition note_beat :: "acct_cfg \<Rightarrow> string \<Rightarrow> beat \<Rightarrow> detail \<Rightarrow> real \<Rightarrow> acct cmd" where
  "note_beat c kind b det ts =
     modc (note_finding c (mk_finding kind (b_class b) (b_source b) det ts (b_direction b)))"

definition sweep_beat :: "acct_cfg \<Rightarrow> string \<Rightarrow> real \<Rightarrow> acct cmd" where
  "sweep_beat c key until =
     getc (\<lambda>s. readc (map_of (a_beats s) key) (\<lambda>b.
       if \<not> beat_armed b \<or> next_due b + b_tolerance b \<ge> until then skipc
       else let overdue = until - b_tolerance b - next_due b in
         readc (if b_interval b = 0 then None else Some \<lceil>overdue / b_interval b\<rceil>) (\<lambda>n.
           let b1 = b\<lparr>awaiting_return := True\<rparr> in
           if n > BEAT_RESYNC_LIMIT then
             (let b2 = b1\<lparr>resyncs := resyncs b1 + 1, next_due := until + b_interval b1\<rparr> in
              seqc (modc (put_beat key b2))
                (note_beat c KIND_BEAT_MISSED b2 (Beat_resync overdue) until))
           else
             (let b2 = b1\<lparr>missed := missed b1 + n,
                           next_due := next_due b1 + of_int n * b_interval b1\<rparr> in
              seqc (modc (put_beat key b2))
                (note_beat c KIND_BEAT_MISSED b2
                   (Beat_missed n (b_interval b) (next_due b) (last_ts b)) (next_due b))))))"

fun sweep_keys :: "acct_cfg \<Rightarrow> string list \<Rightarrow> real \<Rightarrow> acct cmd" where
  "sweep_keys c [] until = skipc"
| "sweep_keys c (k # ks) until = seqc (sweep_beat c k until) (sweep_keys c ks until)"

definition sweep_beats :: "acct_cfg \<Rightarrow> real \<Rightarrow> acct cmd" where
  "sweep_beats c until = getc (\<lambda>s. sweep_keys c (keys (a_beats s)) until)"

definition set_ctx :: "bool \<Rightarrow> direction \<Rightarrow> bytes \<Rightarrow> acct \<Rightarrow> acct" where
  "set_ctx w dir fr s = s\<lparr>ctx_window := w, ctx_direction := dir, ctx_frame := fr\<rparr>"

definition sweep_in :: "acct_cfg \<Rightarrow> bool \<Rightarrow> real \<Rightarrow> acct cmd" where
  "sweep_in c w until s =
     (if a_beats s = [] then (s, True)
      else let r = sweep_beats c until (set_ctx w DIRECTION_UNKNOWN [] s) in
        (set_ctx (ctx_window s) (ctx_direction s) (ctx_frame s) (fst r), snd r))"

text \<open>The gap statistics \<open>_check_beat\<close> records before anything is judged.\<close>

definition beat_gap :: "real \<Rightarrow> direction option \<Rightarrow> beat \<Rightarrow> beat" where
  "beat_gap ts dir b0 =
     (let b = b0\<lparr>b_direction := (case dir of Some x \<Rightarrow> x | None \<Rightarrow> DIRECTION_UNKNOWN)\<rparr> in
      if beats_seen b \<noteq> 0 then
        (let gap = ts - last_ts b in
         b\<lparr>min_gap := (if beats_seen b = 1 then gap else min (min_gap b) gap),
           max_gap := max (max_gap b) gap\<rparr>)
      else b)"

text \<open>One frame of a declared flow against its schedule, after the sweep.\<close>

definition beat_early :: "beat \<Rightarrow> real \<Rightarrow> bool" where
  "beat_early b ts \<longleftrightarrow>
     beats_seen b \<noteq> 0 \<and> \<not> awaiting_return b \<and> ts < next_due b - b_tolerance b"

definition beat_accept :: "real \<Rightarrow> beat \<Rightarrow> beat" where
  "beat_accept ts b =
     (let b1 = (if beats_seen b = 0 then b\<lparr>first_ts := ts, awaiting_return := False\<rparr>
                else if awaiting_return b then b\<lparr>awaiting_return := False\<rparr> else b) in
      b1\<lparr>beats_seen := beats_seen b1 + 1, last_ts := ts, next_due := ts + b_interval b1\<rparr>)"

definition check_beat ::
  "acct_cfg \<Rightarrow> string \<Rightarrow> string \<Rightarrow> real \<Rightarrow> direction option \<Rightarrow> acct cmd" where
  "check_beat c source name ts dir =
     (let key = source @ CHR ''/'' # name in
      getc (\<lambda>s. case map_of (a_beats s) key of
        None \<Rightarrow> skipc
      | Some b \<Rightarrow>
          seqc (modc (put_beat key (beat_gap ts dir b)))
          (seqc (getc (\<lambda>s. sweep_in c (ctx_window s) ts))
          (getc (\<lambda>s. readc (map_of (a_beats s) key) (\<lambda>b.
             if beat_early b ts then
               seqc (modc (put_beat key (b\<lparr>unscheduled := unscheduled b + 1\<rparr>)))
                 (modc (note_finding c (mk_finding KIND_BEAT_UNSCHEDULED name source
                     (Beat_early (next_due b - ts) (b_interval b)) ts (b_direction b))))
             else modc (put_beat key (beat_accept ts b))))))))"

definition new_beat :: "acct_cfg \<Rightarrow> real \<Rightarrow> string \<Rightarrow> real \<Rightarrow> beat" where
  "new_beat c tol key interval =
     (let (source, _, cls) = partition_at CHR ''/'' key in
      \<lparr>b_interval = interval, b_tolerance = tol, b_source = source, b_class = cls,
       next_due = (if c_process_epoch c > 0 then c_process_epoch c + interval else 0),
       first_ts = 0, last_ts = 0, beats_seen = 0, missed = 0, unscheduled = 0, resyncs = 0,
       awaiting_return = False, min_gap = 0, max_gap = 0, b_direction = DIRECTION_UNKNOWN\<rparr>)"

text \<open>A beat whose sender cannot appear on this one-direction interface is not armed.\<close>

definition beat_carried :: "acct_cfg \<Rightarrow> link_policy \<Rightarrow> string \<Rightarrow> bool" where
  "beat_carried c p key =
     (case c_fixed_direction c of
        None \<Rightarrow> True
      | Some fixed \<Rightarrow>
          (let carried = direction_for_mac p (fst (partition_at CHR ''/'' key)) in
           carried = DIRECTION_UNKNOWN \<or> carried = fixed))"

definition arm_beats :: "acct_cfg \<Rightarrow> (string \<times> beat) list" where
  "arm_beats c =
     (case c_policy c of
        None \<Rightarrow> []
      | Some p \<Rightarrow>
          fold (\<lambda>(key, interval) bs.
                  if beat_carried c p key
                  then dset key (new_beat c (max 0 (beat_tolerance p)) key interval) bs else bs)
               (declared_beats p) [])"

section \<open>Windows\<close>

definition pin_row_of :: "acct_cfg \<Rightarrow> pin \<Rightarrow> pin_row" where
  "pin_row_of c p =
     \<lparr>pr_digest = pin_digest c p, pr_declared = pin_declared p, pr_frames = pin_frames p,
      pr_distinct = pin_distinct p,
      pr_payload = (case variants p of [] \<Rightarrow> None
                    | (v, _) # _ \<Rightarrow> Some (take PIN_PAYLOAD_RECORDED_BYTES v))\<rparr>"

definition report_of :: "acct_cfg \<Rightarrow> acct \<Rightarrow> win \<Rightarrow> window_report" where
  "report_of c s w =
     \<lparr>wr_iface = c_iface c, wr_start = w_start w, wr_end = w_end w, wr_epoch = c_process_epoch c,
      wr_observed = w_observed w, wr_classified = w_classified w,
      wr_kernel_dropped = w_kernel_dropped w, wr_truncated = w_truncated w,
      wr_errors = w_errors w, wr_classes = w_classes w,
      wr_pins = map (\<lambda>(k, p). (k, pin_row_of c p)) (a_pins s),
      wr_groups = map snd (w_groups w), wr_groups_overflow = w_groups_overflow w,
      wr_finding_count = w_finding_count w\<rparr>"

definition open_window :: "acct_cfg \<Rightarrow> real \<Rightarrow> acct cmd" where
  "open_window c start =
     readc (c_window_seconds c) (\<lambda>ws. modc (\<lambda>s.
       let w = new_win start (start + ws); n = a_windows_opened s + 1 in
       s\<lparr>a_windows_opened := n,
         a_window := Some
           (if n = 1 \<and> c_process_epoch c > start
            then note_in_window c (mk_finding KIND_CAPTURE_GAP ''capture'' []
                   (Capture_started (c_process_epoch c - start)) (c_process_epoch c) DIRECTION_UNKNOWN)
                   [] w
            else w)\<rparr>))"

definition close_window :: "acct_cfg \<Rightarrow> real option \<Rightarrow> acct cmd" where
  "close_window c until =
     getc (\<lambda>s. readc (a_window s) (\<lambda>w.
       seqc (sweep_in c True (case until of None \<Rightarrow> w_end w | Some u \<Rightarrow> min u (w_end w)))
         (getc (\<lambda>s. readc (a_window s) (\<lambda>w. modc (\<lambda>s.
           s\<lparr>a_last_closed_end := w_end w, a_closed := a_closed s @ [report_of c s w],
             a_window := None\<rparr>))))))"

text \<open>
  The \<open>while\<close> loop of \<open>_advance_to\<close>, with fuel for its iterations (a jump of at most two windows
  takes three, see \<open>Accountant_Windows\<close>); running out is the non-termination the fuel stands for.
\<close>

fun advance_loop :: "acct_cfg \<Rightarrow> nat \<Rightarrow> real \<Rightarrow> acct cmd" where
  "advance_loop c 0 start = raisec"
| "advance_loop c (Suc n) start =
     getc (\<lambda>s.
       if (case a_window s of None \<Rightarrow> True | Some w \<Rightarrow> start \<ge> w_end w) then
         seqc (whenc (a_window s \<noteq> None) (close_window c None))
         (seqc (getc (\<lambda>s. open_window c
                  (case a_window s of None \<Rightarrow> a_last_closed_end s | Some _ \<Rightarrow> start)))
            (advance_loop c n start))
       else skipc)"

definition ADVANCE_FUEL :: nat where "ADVANCE_FUEL = 4"

definition advance_to :: "acct_cfg \<Rightarrow> real \<Rightarrow> acct cmd" where
  "advance_to c start =
     getc (\<lambda>s. readc (a_window s) (\<lambda>w. readc (c_window_seconds c) (\<lambda>ws.
       if start - w_end w > 2 * ws
       then seqc (close_window c None) (open_window c start)
       else advance_loop c ADVANCE_FUEL start)))"

definition window_for :: "acct_cfg \<Rightarrow> real \<Rightarrow> acct cmd" where
  "window_for c ts =
     (case c_window_seconds c of
        None \<Rightarrow> skipc
      | Some ws \<Rightarrow>
          (let start = window_start_for ts ws in
           getc (\<lambda>s. case a_window s of
             None \<Rightarrow> open_window c start
           | Some w \<Rightarrow> whenc (start \<ge> w_end w) (advance_to c start))))"

definition take_closed :: "acct \<Rightarrow> window_report list \<times> acct" where
  "take_closed s = (a_closed s, s\<lparr>a_closed := []\<rparr>)"

text \<open>Reports handed back; \<open>None\<close> when the method raised.\<close>

definition returning_closed :: "acct cmd \<Rightarrow> acct \<Rightarrow> window_report list option \<times> acct" where
  "returning_closed m s =
     (let r = m s in
      if snd r then (Some (fst (take_closed (fst r))), snd (take_closed (fst r)))
      else (None, fst r))"

definition roll :: "acct_cfg \<Rightarrow> real \<Rightarrow> acct \<Rightarrow> window_report list option \<times> acct" where
  "roll c now s =
     (case c_window_seconds c of
        None \<Rightarrow> (let r = sweep_in c False now s in (if snd r then Some [] else None, fst r))
      | Some ws \<Rightarrow>
          returning_closed
            (seqc (getc (\<lambda>s. case a_window s of
                     None \<Rightarrow> open_window c (window_start_for now ws)
                   | Some w \<Rightarrow> whenc (now \<ge> w_end w + c_window_grace c)
                       (advance_to c (window_start_for (now - c_window_grace c) ws))))
               (sweep_in c True now)) s)"

definition finish :: "acct_cfg \<Rightarrow> real \<Rightarrow> acct \<Rightarrow> window_report list option \<times> acct" where
  "finish c now =
     returning_closed (getc (\<lambda>s. case a_window s of
       None \<Rightarrow> sweep_in c False now
     | Some w \<Rightarrow>
         seqc (modc (\<lambda>s. if now < w_end w
                then s\<lparr>a_window := map_option (note_in_window c
                       (mk_finding KIND_CAPTURE_GAP ''capture'' [] (Capture_stopped (w_end w - now)) now
                          DIRECTION_UNKNOWN) []) (a_window s)\<rparr>
                else s))
           (close_window c (Some now))))"

section \<open>Observation\<close>

fun note_all :: "acct_cfg \<Rightarrow> string \<Rightarrow> string \<Rightarrow> real \<Rightarrow> link_finding list \<Rightarrow> acct cmd" where
  "note_all c name source ts [] = skipc"
| "note_all c name source ts ((kind, det) # fs) =
     seqc (notec c kind name source det ts) (note_all c name source ts fs)"

definition validate ::
  "acct_cfg \<Rightarrow> bytes \<Rightarrow> classification \<Rightarrow> real \<Rightarrow> direction option \<Rightarrow> acct cmd" where
  "validate c d cl ts dir =
     (let name = cname cl; source = source_of d in
      seqc (whenc (name = CLASS_UNCLASSIFIED \<or> ends_with name ''-other'')
              (notec c ''unclassified'' name source (No_rule (length d)) ts))
      (if name = CLASS_MALFORMED
       then notec c ''malformed'' name source (Frame_size (length d)) ts
       else
        (seqc (check_padding c d cl ts)
        (seqc (check_ipv4_header c d cl ts)
        (seqc (whenc (name = CLASS_TCP \<or> name = CLASS_TCP6) (check_tcp_header c d cl ts))
        (seqc (whenc (name = ''lldp'') (check_lldp c d cl ts))
        (seqc (whenc (name = ''arp'') (check_arp c d cl ts))
        (seqc (whenc (name \<notin> c_unpinned c) (check_pin c d cl ts))
        (seqc (getc (\<lambda>s. whenc (a_beats s \<noteq> []) (check_beat c source name ts dir)))
        (case c_policy c of
           None \<Rightarrow> skipc
         | Some p \<Rightarrow>
             readc (policy_check p d name (pin_at cl)
                      (case dir of Some x \<Rightarrow> x | None \<Rightarrow> DIRECTION_UNKNOWN))
               (note_all c name source ts)))))))))))"

definition resolve_direction :: "acct_cfg \<Rightarrow> bytes \<Rightarrow> direction option \<Rightarrow> direction option" where
  "resolve_direction c d dir =
     (case dir of
        Some x \<Rightarrow> Some x
      | None \<Rightarrow> map_option (\<lambda>p. direction_from_source p d) (c_policy c))"

definition note_error :: "acct_cfg \<Rightarrow> string \<Rightarrow> string \<Rightarrow> detail \<Rightarrow> real \<Rightarrow> acct cmd" where
  "note_error c name source det ts =
     seqc (modc (\<lambda>s. s\<lparr>a_errors := a_errors s + 1\<rparr>)) (notec c ''error'' name source det ts)"

definition observe_body ::
  "acct_cfg \<Rightarrow> bytes \<Rightarrow> real \<Rightarrow> direction option \<Rightarrow> acct \<Rightarrow> acct \<times> string" where
  "observe_body c d ts dir s =
     (case classify d of
        None \<Rightarrow>
          (count_frame CLASS_MALFORMED (length d) dir
             (fst (note_error c CLASS_MALFORMED [] Classify_failed ts s)), CLASS_MALFORMED)
      | Some cl \<Rightarrow>
          (fst (tryc (validate c d cl ts dir)
                  (note_error c (cname cl) (source_of d) Validate_failed ts)
                  (count_frame (cname cl) (length d) dir s)), cname cl))"

definition observe ::
  "acct_cfg \<Rightarrow> bytes \<Rightarrow> real \<Rightarrow> direction option \<Rightarrow> acct \<Rightarrow> acct \<times> string option" where
  "observe c d ts dir s =
     (let dir' = resolve_direction c d dir;
          r = window_for c ts (s\<lparr>a_observed := a_observed s + 1\<rparr>) in
      if \<not> snd r then (fst r, None)
      else let b = observe_body c d ts dir'
                 (set_ctx (a_window (fst r) \<noteq> None)
                    (case dir' of Some x \<Rightarrow> x | None \<Rightarrow> DIRECTION_UNKNOWN) d (fst r)) in
        ((fst b)\<lparr>ctx_frame := [], ctx_window := False\<rparr>, Some (snd b)))"

definition note_truncated :: "acct_cfg \<Rightarrow> nat \<Rightarrow> nat \<Rightarrow> real \<Rightarrow> acct cmd" where
  "note_truncated c original_len captured_len ts =
     seqc (modc (\<lambda>s. s\<lparr>a_observed := a_observed s + 1, a_truncated := a_truncated s + 1\<rparr>))
     (seqc (window_for c ts)
       (modc (\<lambda>s.
          (note_finding c (mk_finding ''truncated'' CLASS_TRUNCATED [] (Ring_truncated original_len captured_len)
                     ts DIRECTION_UNKNOWN)
             (count_frame CLASS_TRUNCATED captured_len None
               (on_ctx_window (\<lambda>w. w\<lparr>w_truncated := w_truncated w + 1\<rparr>)
                 (set_ctx (a_window s \<noteq> None) DIRECTION_UNKNOWN [] s))))
          \<lparr>ctx_window := False\<rparr>)))"

definition note_kernel_dropped :: "int \<Rightarrow> acct \<Rightarrow> acct" where
  "note_kernel_dropped dropped s =
     (if dropped > 0
      then s\<lparr>a_kernel_dropped := a_kernel_dropped s + nat dropped,
             a_window := map_option
               (\<lambda>w. w\<lparr>w_kernel_dropped := w_kernel_dropped w + nat dropped\<rparr>) (a_window s)\<rparr>
      else s)"

section \<open>Construction and snapshots\<close>

definition normalise_cfg :: "acct_cfg \<Rightarrow> acct_cfg" where
  "normalise_cfg c =
     c\<lparr>c_window_seconds := (case c_window_seconds c of
          Some ws \<Rightarrow> if ws > 0 then Some ws else None | None \<Rightarrow> None),
       c_window_grace := max 0 (c_window_grace c),
       c_max_window_groups := max 1 (c_max_window_groups c)\<rparr>"

definition new_accountant :: "acct_cfg \<Rightarrow> acct" where
  "new_accountant c =
     \<lparr>a_observed = 0, a_classified = 0, a_errors = 0, a_truncated = 0, a_kernel_dropped = 0,
      a_classes = [], a_pins = [], a_groups = [], a_beats = arm_beats c, a_window = None,
      a_last_closed_end = 0, a_windows_opened = 0, a_closed = [],
      ctx_window = False, ctx_direction = DIRECTION_UNKNOWN, ctx_frame = []\<rparr>"

definition snap_balanced :: "acct \<Rightarrow> bool" where
  "snap_balanced s \<longleftrightarrow> a_observed s = a_classified s"

definition snap_findings :: "acct \<Rightarrow> nat" where
  "snap_findings s = dsum fg_count (a_groups s)"

definition snap_complete :: "acct \<Rightarrow> bool" where
  "snap_complete s \<longleftrightarrow> snap_balanced s \<and> a_kernel_dropped s = 0 \<and> snap_findings s = 0"

definition by_direction :: "acct \<Rightarrow> nat \<times> nat \<times> nat" where
  "by_direction s =
     (dsum frames_out (a_classes s), dsum frames_in (a_classes s), dsum frames_unknown (a_classes s))"

end
