(* ===== verification/Samples.thy ===== *)
theory Samples
  imports Accountant
begin

text \<open>
  One small concrete link, on which the general theorems are instantiated: a tapped node that serves
  port 40000 at 10.0.0.1, its peer at 10.0.0.2, one frame between them, and an accountant for it.
\<close>

text \<open>An ordinary segment: untagged Ethernet, IPv4 without options, TCP, two bytes of payload.\<close>

definition sample_frame :: bytes where
  "sample_frame =
     [2,0,0,0,0,2, 2,0,0,0,0,1, 8,0,
      0x45,0,0,42, 0,1,0,0, 64,6,0x66,0xcb, 10,0,0,1, 10,0,0,2,
      0x9c,0x40,0x1f,0x40, 0,0,0,7, 0,0,0,0, 0x50,0x18,0,0, 0,0,0,0, 104,105]"

lemmas read_simps = u16_at_def u32_at_def byte_at_def pslice_def

lemma sample_frame_reads:
  "u16_at sample_frame 12 = Some 0x800" "byte_at sample_frame 14 = Some 0x45" "length sample_frame = 56"
  "u16_at sample_frame 16 = Some 42" "u16_at sample_frame 20 = Some 0" "byte_at sample_frame 23 = Some 6"
  "u16_at sample_frame 34 = Some 40000" "u16_at sample_frame 36 = Some 8000" "u32_at sample_frame 38 = Some 7"
  "byte_at sample_frame 46 = Some 0x50" "byte_at sample_frame 47 = Some 0x18"
  "pslice sample_frame 54 56 = [104,105]" "pslice sample_frame 26 30 = [10, 0, 0, 1]"
  "pslice sample_frame 30 34 = [10, 0, 0, 2]"
  by (simp_all add: read_simps sample_frame_def)

definition sample_policy :: link_policy where
  "sample_policy =
     \<lparr>peer_mac = [2,0,0,0,0,1], local_mac = Some [2,0,0,0,0,2], peer_ip = Some [10,0,0,1],
      local_ip = Some [10,0,0,2], peer_ports = {40000}, allow_out = {''ipv4-tcp'', ''arp''},
      allow_in = {''ipv4-tcp'', ''arp''}, declared_pins = [], declared_beats = [(''02:00:00:00:00:01/lldp'', 30)],
      beat_tolerance = 5, extra_destinations = {}, allow_broadcast = False\<rparr>"

definition sample_acct :: acct_cfg where
  "sample_acct =
     \<lparr>c_unpinned = set UNPINNED_CLASSES, c_fixed_direction = None, c_whole_frame = {}, c_allow_ip_options = False,
      c_allow_fragments = False, c_samples_per_group = 3, c_max_variants = 2, c_on_finding = None,
      c_policy = Some sample_policy, c_iface = ''tap0'', c_window_seconds = Some 300, c_window_grace = 5,
      c_max_window_groups = 8, c_sample_frame_bytes = 64, c_process_epoch = 0, c_digest = (\<lambda>_. ''00'')\<rparr>"

end
