(* ===== verification/Capture_Proofs.thy ===== *)
theory Capture_Proofs
  imports Capture Samples
begin

text \<open>
  The raw decoder reads only inside the frame, so it never raises; asked for candidates only it
  returns exactly the candidates among what it would decode; its walk over VLAN tags agrees with the
  one the classifier uses, and a frame it takes a segment from is one the classifier counts as TCP.
\<close>

section \<open>Never raising\<close>

lemma raw_tags_total: "\<exists>r. raw_tags d e ip_at = Some r"
proof (induction d e ip_at rule: raw_tags.induct)
  case (1 d e ip_at)
  show ?case
  proof (cases "e \<in> VLAN_TPID_VALUES \<and> ip_at + 4 \<le> length d")
    case True
    then obtain v where "u16_at d (ip_at + 2) = Some v" using u16_at_ex[of "ip_at + 2" d] by auto
    with True 1 show ?thesis by (subst raw_tags.simps) simp
  next
    case False
    then show ?thesis by (subst raw_tags.simps) auto
  qed
qed

lemma byte_at_ok: "i < length d \<Longrightarrow> \<exists>v. byte_at d i = Some v"
  by simp

lemma u32_at_ok: "i + 4 \<le> length d \<Longrightarrow> \<exists>v. u32_at d i = Some v"
  using u32_at_None_iff[of d i] by fastforce

lemma raw_tcp_total: "\<exists>r. raw_tcp c d ts cand ip_at len t = Some r"
proof (cases "length d < t + MIN_TCP_HEADER_LEN")
  case False
  then have n: "t + 20 \<le> length d" by simp
  obtain a where a: "u16_at d t = Some a" using n u16_at_ex[of t d] by auto
  obtain b where b: "u16_at d (t + 2) = Some b" using n u16_at_ex[of "t + 2" d] by auto
  obtain q where q: "u32_at d (t + 4) = Some q" using n u32_at_ok[of "t + 4" d] by auto
  obtain f where f: "byte_at d (t + 13) = Some f" using n byte_at_ok[of "t + 13" d] by auto
  obtain h where h: "byte_at d (t + 12) = Some h" using n byte_at_ok[of "t + 12" d] by auto
  show ?thesis
    using False a b q f h by (simp add: raw_tcp_def Let_def)
qed (simp add: raw_tcp_def)

lemma raw_udp_total:
  assumes "\<not> tunnelled \<Longrightarrow> \<forall>l. \<exists>r. next l = Some r"
  shows "\<exists>r. raw_udp c d tunnelled next t = Some r"
proof (cases "tunnelled \<or> length d < t + UDP_HEADER_LEN")
  case False
  then obtain v where v: "u16_at d (t + 2) = Some v" using u16_at_ex[of "t + 2" d] by auto
  show ?thesis
  proof (cases "length d < t + 16")
    case True
    with False v show ?thesis by (simp add: raw_udp_def Let_def)
  next
    case long: False
    obtain b where "byte_at d (t + 8) = Some b" using long byte_at_ok[of "t + 8" d] by auto
    with False long v assms show ?thesis by (simp add: raw_udp_def Let_def)
  qed
qed (simp add: raw_udp_def)

lemma raw_ipv4_total:
  assumes "\<not> tunnelled \<Longrightarrow> \<forall>l. \<exists>r. next l = Some r"
  shows "\<exists>r. raw_ipv4 c d ts cand tunnelled next ip_at = Some r"
proof (cases "length d < ip_at + MIN_IPV4_HEADER_LEN")
  case False
  then have n: "ip_at + 20 \<le> length d" by simp
  obtain b where b: "byte_at d ip_at = Some b" using n byte_at_ok[of ip_at d] by auto
  obtain l where l: "u16_at d (ip_at + 2) = Some l" using n u16_at_ex[of "ip_at + 2" d] by auto
  obtain w where w: "u16_at d (ip_at + 6) = Some w" using n u16_at_ex[of "ip_at + 6" d] by auto
  obtain p where p: "byte_at d (ip_at + 9) = Some p" using n byte_at_ok[of "ip_at + 9" d] by auto
  show ?thesis
    using False b l w p raw_udp_total[OF assms] raw_tcp_total
    by (simp add: raw_ipv4_def Let_def)
qed (simp add: raw_ipv4_def)

lemma raw_layer_total:
  assumes "\<not> tunnelled \<Longrightarrow> \<forall>l. \<exists>r. next l = Some r"
  shows "\<exists>r. raw_layer c d ts cand tunnelled next l = Some r"
proof (cases "length d < l + ETH_HEADER_LEN")
  case False
  then obtain e where e: "u16_at d (l + 12) = Some e" using u16_at_ex[of "l + 12" d] by auto
  obtain r where r: "raw_tags d e (l + 14) = Some r" using raw_tags_total by blast
  show ?thesis
    using False e r raw_ipv4_total[OF assms]
    by (cases r) (auto simp: raw_layer_def)
qed (simp add: raw_layer_def)

text \<open>The raw decoder never raises, whatever bytes the ring holds: every read it makes is inside
  the frame, so no frame can cost its block.\<close>

theorem decode_tcp_raw_total: "\<exists>r. decode_tcp_raw c d ts cand = Some r"
  unfolding decode_tcp_raw_def by (intro raw_layer_total allI) simp_all

lemma udp_payload_total: "\<exists>r. udp_payload d = Some r"
  by (auto simp: udp_payload_def Let_def not_less)

section \<open>Candidates\<close>

text \<open>What restricting a decode to candidates means.\<close>

definition only_candidates :: "capture_cfg \<Rightarrow> raw \<Rightarrow> raw" where
  "only_candidates c r =
     (case r of Raw_segment sg \<Rightarrow> if configured_candidate c sg then r else Raw_none | _ \<Rightarrow> r)"

lemma only_candidates_simps [simp]:
  "only_candidates c Raw_fallback = Raw_fallback" "only_candidates c Raw_none = Raw_none"
  "only_candidates c Raw_fragment = Raw_fragment"
  by (simp_all add: only_candidates_def)

lemma raw_tcp_candidates:
  "raw_tcp c d ts True ip_at len t = map_option (only_candidates c) (raw_tcp c d ts False ip_at len t)"
proof -
  have "pslice d a b = [] \<longleftrightarrow> a = b" if "a \<le> b" "b \<le> length d" for a b
    using that by (auto simp: pslice_def)
  then show ?thesis
    unfolding raw_tcp_def Let_def
    by (auto simp: only_candidates_def configured_candidate_def is_reassembly_candidate_def
        carries_reassembly_state_def split: bind_splits)
qed

lemma raw_udp_candidates:
  assumes "\<And>l. \<not> tunnelled \<Longrightarrow> nxa l = map_option (only_candidates c) (nxb l)"
  shows "raw_udp c d tunnelled nxa t = map_option (only_candidates c) (raw_udp c d tunnelled nxb t)"
  using assms by (auto simp: raw_udp_def Let_def split: bind_splits)

lemma raw_ipv4_candidates:
  assumes "\<And>l. \<not> tunnelled \<Longrightarrow> nxa l = map_option (only_candidates c) (nxb l)"
  shows "raw_ipv4 c d ts True tunnelled nxa ip_at
    = map_option (only_candidates c) (raw_ipv4 c d ts False tunnelled nxb ip_at)"
  using raw_udp_candidates[where nxa = nxa and nxb = nxb, OF assms] raw_tcp_candidates
  by (auto simp: raw_ipv4_def Let_def split: bind_splits)

lemma raw_layer_candidates:
  assumes "\<And>l. \<not> tunnelled \<Longrightarrow> nxa l = map_option (only_candidates c) (nxb l)"
  shows "raw_layer c d ts True tunnelled nxa l
    = map_option (only_candidates c) (raw_layer c d ts False tunnelled nxb l)"
  using raw_ipv4_candidates[where nxa = nxa and nxb = nxb, OF assms]
  by (auto simp: raw_layer_def split: bind_splits option.splits)

text \<open>Asked for candidates only, the raw decoder returns exactly what it would have decoded,
  less the segments the port filter or the pure-ACK rule rejects: testing before copying changes
  no verdict.\<close>

theorem candidate_only_filters:
  "decode_tcp_raw c d ts True = map_option (only_candidates c) (decode_tcp_raw c d ts False)"
  unfolding decode_tcp_raw_def
  by (rule raw_layer_candidates, rule raw_layer_candidates) simp

section \<open>The same header walk as the classifier\<close>

lemma u16_tpid:
  assumes "u16_at d (h - 2) = Some e" "2 \<le> h"
  shows "e \<in> VLAN_TPID_VALUES \<longleftrightarrow> pslice d (h - 2) h \<in> VLAN_TPIDS"
proof -
  have l: "h \<le> length d" using u16_at_SomeD[OF assms(1)] assms(2) by simp
  obtain k where h: "h = k + 2" using assms(2) by (metis add.commute le_Suc_ex)
  have s: "pslice d (h - 2) h = [d ! k, d ! (k + 1)]"
    using l h by (auto intro!: nth_equalityI simp: nth_Cons split: nat.splits)
  have e: "e = 256 * unat (d ! k) + unat (d ! (k + 1))"
    using assms(1) u16_at_Some[of k d] l h by simp
  have b: "unat (d ! k) < 256" "unat (d ! (k + 1)) < 256" by simp_all
  have "e = 0x8100 \<longleftrightarrow> unat (d ! k) = 0x81 \<and> unat (d ! (k + 1)) = 0" using e b by presburger
  moreover have "e = 0x88A8 \<longleftrightarrow> unat (d ! k) = 0x88 \<and> unat (d ! (k + 1)) = 0xa8" using e b by presburger
  ultimately show ?thesis
    unfolding s by (simp add: word_unat_eq_iff)
qed

lemma raw_tags_eth:
  assumes "u16_at d (h - 2) = Some e" "14 \<le> h"
  shows "raw_tags d e h =
    Some (if eth_tag_loop d h \<le> length d
          then Some (the (u16_at d (eth_tag_loop d h - 2)), eth_tag_loop d h) else None)"
  using assms
proof (induction d e h rule: raw_tags.induct)
  case (1 d e h)
  have h: "h \<le> length d" using u16_at_SomeD[OF "1.prems"(1)] "1.prems"(2) by simp
  have iff: "e \<in> VLAN_TPID_VALUES \<longleftrightarrow> pslice d (h - ETHERTYPE_LEN) h \<in> VLAN_TPIDS"
    using u16_tpid[OF "1.prems"(1)] "1.prems"(2) by simp
  show ?case
  proof (cases "e \<in> VLAN_TPID_VALUES")
    case False
    then have "eth_tag_loop d h = h" using iff by (subst eth_tag_loop.simps) (simp del: VLAN_TPIDS_def)
    with False h "1.prems" show ?thesis by (subst raw_tags.simps) simp
  next
    case True
    then have loop: "eth_tag_loop d h = eth_tag_loop d (h + 4)"
      using iff by (subst eth_tag_loop.simps) (simp del: VLAN_TPIDS_def)
    show ?thesis
    proof (cases "length d < h + 4")
      case short: True
      have "h + 4 \<le> eth_tag_loop d (h + 4)" by (rule eth_tag_loop_ge)
      with True short loop show ?thesis by (subst raw_tags.simps) simp
    next
      case False
      then obtain v where v: "u16_at d (h + 2) = Some v" using u16_at_ex[of "h + 2" d] by auto
      have "raw_tags d e h = raw_tags d v (h + 4)"
        using True False v by (subst raw_tags.simps) simp
      moreover have "raw_tags d v (h + 4) =
        Some (if eth_tag_loop d (h + 4) \<le> length d
              then Some (the (u16_at d (eth_tag_loop d (h + 4) - 2)), eth_tag_loop d (h + 4)) else None)"
        using "1.IH"[of v] True False v "1.prems"(2) by simp
      ultimately show ?thesis by (simp only: loop)
    qed
  qed
qed

text \<open>The decoder's loop over VLAN tags and the classifier's slice loop find the same network
  layer: both stop at the same offset with the same EtherType, or both say the frame is cut short.\<close>

theorem vlan_walks_agree:
  assumes "u16_at d 12 = Some e"
  shows "raw_tags d e 14 =
    Some (if ethernet_header_len d \<le> length d
          then Some (the (u16_at d (ethernet_header_len d - 2)), ethernet_header_len d) else None)"
  using raw_tags_eth[of d 14 e] assms by (simp add: ethernet_header_len_def)

text \<open>Two stacked tags, the second cut short.\<close>

theorem vlan_walks_agree_witness:
  "raw_tags [1,2,3,4,5,6,7,8,9,10,11,12, 0x88,0xa8, 0,1, 0x81,0, 0,2] 0x88a8 14 = Some None"
proof -
  let ?d = "[1,2,3,4,5,6,7,8,9,10,11,12, 0x88,0xa8, 0,1, 0x81,0, 0,2] :: bytes"
  have "u16_at ?d 12 = Some 0x88a8" "\<not> ethernet_header_len ?d \<le> length ?d"
    by (simp_all add: u16_at_def byte_at_def ethernet_header_len_def eth_tag_loop.simps pslice_def VLAN_TPIDS_def)
  then show ?thesis using vlan_walks_agree[of ?d "0x88a8"] by simp
qed

section \<open>Segments come from frames counted as TCP\<close>

lemma raw_tcp_class:
  assumes "raw_tcp c d ts cand ip_at len t = Some (Raw_segment sg)"
  shows "sg_seq sg < SEQ_MOD \<and> sg_sport sg < 65536 \<and> sg_dport sg < 65536 \<and> sg_ts sg = ts \<and>
    (\<exists>a b. t + 20 \<le> a \<and> a \<le> b \<and> b \<le> length d \<and> sg_payload sg = pslice d a b)"
proof -
  obtain sport dport sq off flags where r: "u16_at d t = Some sport" "u16_at d (t + 2) = Some dport"
    "u32_at d (t + 4) = Some sq" "byte_at d (t + 12) = Some off" "byte_at d (t + 13) = Some flags"
    using assms by (auto simp: raw_tcp_def Let_def split: if_splits bind_splits)
  let ?e = "if int (length d) - int (ip_at + len) > MAX_TRAILER then length d else min (length d) (ip_at + len)"
  have "sg_seq sg = sq" "sg_sport sg = sport" "sg_dport sg = dport" "sg_ts sg = ts"
    "20 \<le> drop_bit 4 off * 4" "t + drop_bit 4 off * 4 \<le> ?e"
    "sg_payload sg = pslice d (t + drop_bit 4 off * 4) ?e"
    using assms r by (auto simp: raw_tcp_def Let_def split: if_splits)
  moreover have "?e \<le> length d" by simp
  ultimately show ?thesis
    using u16_at_bound[OF r(1)] u16_at_bound[OF r(2)] u32_at_bound[OF r(3)]
    unfolding SEQ_MOD_def by (intro conjI exI[of _ "t + drop_bit 4 off * 4"] exI[of _ ?e]) simp_all
qed

lemma raw_ipv4_segment:
  assumes "raw_ipv4 c d ts cand tunnelled nxa ip_at = Some (Raw_segment sg)"
  obtains b len where "ip_at + 20 \<le> length d" "byte_at d ip_at = Some b"
      "20 \<le> (b AND 15) * 4" "ip_at + (b AND 15) * 4 \<le> length d"
      "byte_at d (ip_at + 9) = Some IPPROTO_TCP"
      "raw_tcp c d ts cand ip_at len (ip_at + (b AND 15) * 4) = Some (Raw_segment sg)"
  | b where "ip_at + 20 \<le> length d" "byte_at d ip_at = Some b"
      "byte_at d (ip_at + 9) = Some IPPROTO_UDP"
      "raw_udp c d tunnelled nxa (ip_at + (b AND 15) * 4) = Some (Raw_segment sg)"
  using assms
  by (auto simp: raw_ipv4_def Let_def not_less split: if_splits bind_splits)

lemma raw_udp_segment:
  assumes "raw_udp c d tunnelled nxa t = Some (Raw_segment sg)"
  shows "\<not> tunnelled \<and> (\<exists>p. p \<in> fp_decap_ports c \<and> u16_at d (t + 2) = Some p) \<and>
    nxa (t + 16) = Some (Raw_segment sg)"
  using assms by (auto simp: raw_udp_def Let_def add.commute split: if_splits bind_splits)

lemma raw_layer_segment:
  assumes "raw_layer c d ts cand tunnelled nxa l = Some (Raw_segment sg)"
  obtains e ip_at where "l + 14 \<le> length d" "u16_at d (l + 12) = Some e"
    "raw_tags d e (l + 14) = Some (Some (ETHERTYPE_IPV4, ip_at))"
    "raw_ipv4 c d ts cand tunnelled nxa ip_at = Some (Raw_segment sg)"
  using assms by (auto simp: raw_layer_def split: if_splits bind_splits option.splits)

lemma raw_tags_ge: "raw_tags d e h = Some (Some (t, k)) \<Longrightarrow> h \<le> k"
proof (induction d e h rule: raw_tags.induct)
  case (1 d e h)
  then show ?case
    by (cases "u16_at d (h + 2)") (force simp: raw_tags.simps[of d e h] split: if_splits)+
qed

lemma raw_layer_segment_ok:
  assumes "raw_layer c d ts cand tunnelled nxa l = Some (Raw_segment sg)"
    and nxa: "\<And>k sg. \<not> tunnelled \<Longrightarrow> nxa k = Some (Raw_segment sg) \<Longrightarrow> Q sg"
    and tcp: "\<And>ip_at len t sg. 34 \<le> t \<Longrightarrow> raw_tcp c d ts cand ip_at len t = Some (Raw_segment sg) \<Longrightarrow> Q sg"
  shows "Q sg"
proof -
  obtain e ip_at where r: "raw_tags d e (l + 14) = Some (Some (ETHERTYPE_IPV4, ip_at))"
    "raw_ipv4 c d ts cand tunnelled nxa ip_at = Some (Raw_segment sg)"
    using assms(1) by (rule raw_layer_segment)
  have ip: "14 \<le> ip_at" using raw_tags_ge[OF r(1)] by simp
  show ?thesis
    using r(2)
  proof (cases rule: raw_ipv4_segment)
    case (1 b len)
    then show ?thesis using tcp[of "ip_at + (b AND 15) * 4" ip_at len sg] ip by simp
  next
    case (2 b)
    then show ?thesis using nxa raw_udp_segment by blast
  qed
qed

lemma raw_segment_bounds:
  assumes "decode_tcp_raw c d ts cand = Some (Raw_segment sg)"
  shows "sg_seq sg < SEQ_MOD \<and> sg_sport sg < 65536 \<and> sg_dport sg < 65536 \<and> sg_ts sg = ts \<and>
    (\<exists>a b. 54 \<le> a \<and> a \<le> b \<and> b \<le> length d \<and> sg_payload sg = pslice d a b)"
proof -
  let ?Q = "\<lambda>sg. sg_seq sg < SEQ_MOD \<and> sg_sport sg < 65536 \<and> sg_dport sg < 65536 \<and> sg_ts sg = ts \<and>
    (\<exists>a b. 54 \<le> a \<and> a \<le> b \<and> b \<le> length d \<and> sg_payload sg = pslice d a b)"
  have tcp: "?Q sg" if t: "34 \<le> t" and r: "raw_tcp c d ts cand ip_at len t = Some (Raw_segment sg)"
    for ip_at len t sg
  proof -
    obtain a b where "t + 20 \<le> a" "a \<le> b" "b \<le> length d" "sg_payload sg = pslice d a b"
      using raw_tcp_class[OF r] by blast
    then have "\<exists>a b. 54 \<le> a \<and> a \<le> b \<and> b \<le> length d \<and> sg_payload sg = pslice d a b"
      using t by (intro exI[of _ a] exI[of _ b]) simp
    with raw_tcp_class[OF r] show ?thesis by blast
  qed
  have inner: "?Q sg" if "raw_layer c d ts cand True (\<lambda>_. None) k = Some (Raw_segment sg)" for k sg
    by (rule raw_layer_segment_ok[where Q = ?Q, OF that _ tcp]) simp_all
  show ?thesis
    by (rule raw_layer_segment_ok[where Q = ?Q, OF assms[unfolded decode_tcp_raw_def] inner tcp])
qed

lemma raw_tcp_ports:
  "decode_tcp_raw c d ts cand = Some (Raw_segment sg) \<Longrightarrow> sg_sport sg < 65536 \<and> sg_dport sg < 65536"
  using raw_segment_bounds by blast

text \<open>An ordinary segment: untagged Ethernet, IPv4 without options, TCP, two bytes of payload.\<close>

definition sample_capture :: capture_cfg where
  "sample_capture = \<lparr>fp_ports = None, fp_exclude_ports = {}, fp_decap_ports = {}, fp_fast_classify = True\<rparr>"

definition sample_decoded :: tcp_segment where
  "sample_decoded =
     \<lparr>sg_ts = 0, sg_src = ''10.0.0.1'', sg_sport = 40000, sg_dst = ''10.0.0.2'', sg_dport = 8000, sg_seq = 7,
      sg_syn = False, sg_ack = True, sg_fin = False, sg_rst = False, sg_payload = [104, 105]\<rparr>"

lemma sample_addresses:
  "inet_ntop4 [10, 0, 0, 1] = ''10.0.0.1''" "inet_ntop4 [10, 0, 0, 2] = ''10.0.0.2''"
  by code_simp+

lemma sample_frame_decodes: "decode_tcp_raw sample_capture sample_frame 0 False = Some (Raw_segment sample_decoded)"
  by (simp add: decode_tcp_raw_def raw_layer_def raw_tags.simps raw_ipv4_def raw_tcp_def Let_def
      sample_frame_reads sample_addresses sample_decoded_def sample_capture_def)

text \<open>Every segment the raw decoder hands to reassembly is well-formed: its sequence number and
  ports are in range, it carries the frame's time stamp, and its payload is a contiguous part of the
  frame behind full Ethernet, IPv4 and TCP headers.\<close>

theorem raw_segment_ok:
  assumes "decode_tcp_raw c d ts cand = Some (Raw_segment sg)"
  shows "sg_seq sg < SEQ_MOD \<and> sg_sport sg < 65536 \<and> sg_dport sg < 65536 \<and> sg_ts sg = ts \<and>
    (\<exists>a b. 54 \<le> a \<and> a \<le> b \<and> b \<le> length d \<and> sg_payload sg = pslice d a b)"
  using assms by (rule raw_segment_bounds)

theorem raw_segment_ok_witness:
  "sg_seq sample_decoded < SEQ_MOD \<and>
   (\<exists>a b. 54 \<le> a \<and> a \<le> b \<and> b \<le> length sample_frame \<and> sg_payload sample_decoded = pslice sample_frame a b)"
  using raw_segment_ok[OF sample_frame_decodes] by blast

lemma classify_ipv4_proto_tcp:
  assumes "eth_at + 20 \<le> length d" "byte_at d eth_at = Some b" "20 \<le> (b AND 15) * 4"
    "eth_at + (b AND 15) * 4 \<le> length d" "byte_at d (eth_at + 9) = Some IPPROTO_TCP"
  shows "\<exists>c. classify_ipv4 d eth_at = Some c \<and> cname c = CLASS_TCP"
proof -
  obtain l where "u16_at d (eth_at + 2) = Some l" using assms(1) u16_at_ex[of "eth_at + 2" d] by auto
  with assms show ?thesis by (simp add: classify_ipv4_def Let_def)
qed

lemma classify_is_ipv4:
  assumes "ethernet_header_len d \<le> length d" "14 \<le> length d"
    "u16_at d (ethernet_header_len d - 2) = Some ETHERTYPE_IPV4"
  shows "classify d = classify_ipv4 d (ethernet_header_len d)"
  using assms by (simp add: classify_def Let_def)

text \<open>Reassembly sees nothing the accountant does not count as TCP: a frame the raw decoder takes a
  segment from is classified \<open>ipv4-tcp\<close>, or is a tunnel packet, UDP over IPv4, whose inner frame the
  segment comes from.\<close>

theorem segment_frame_class:
  assumes "decode_tcp_raw c d ts cand = Some (Raw_segment sg)"
  shows "cname (class_of d) = CLASS_TCP \<or>
    fp_decap_ports c \<noteq> {} \<and> u16_at d (ethernet_header_len d - 2) = Some ETHERTYPE_IPV4 \<and>
    byte_at d (ethernet_header_len d + 9) = Some IPPROTO_UDP"
proof -
  obtain e ip_at where l: "14 \<le> length d" "u16_at d 12 = Some e"
    "raw_tags d e 14 = Some (Some (ETHERTYPE_IPV4, ip_at))"
    "raw_ipv4 c d ts cand False (raw_layer c d ts cand True (\<lambda>_. None)) ip_at = Some (Raw_segment sg)"
    using raw_layer_segment[OF assms[unfolded decode_tcp_raw_def]] by (auto simp: numeral_eq_Suc)
  have walk: "raw_tags d e 14 =
    Some (if ethernet_header_len d \<le> length d
          then Some (the (u16_at d (ethernet_header_len d - 2)), ethernet_header_len d) else None)"
    using raw_tags_eth[of d 14 e] l(2) by (simp add: ethernet_header_len_def)
  then have eth: "ethernet_header_len d \<le> length d" "ip_at = ethernet_header_len d"
    "the (u16_at d (ethernet_header_len d - 2)) = ETHERTYPE_IPV4"
    using l(3) by (auto split: if_splits)
  then have u: "u16_at d (ethernet_header_len d - 2) = Some ETHERTYPE_IPV4"
    using u16_at_None_iff[of d "ethernet_header_len d - 2"] ethernet_header_len_ge[of d]
    by (cases "u16_at d (ethernet_header_len d - 2)") auto
  show ?thesis
    using l(4)
  proof (cases rule: raw_ipv4_segment)
    case (1 b len)
    then obtain k where "classify_ipv4 d ip_at = Some k" "cname k = CLASS_TCP"
      using classify_ipv4_proto_tcp by blast
    then show ?thesis
      using classify_is_ipv4[OF eth(1) l(1) u] eth(2) classify_class_of[of d] by auto
  next
    case (2 b)
    then show ?thesis using raw_udp_segment u eth(2) by fastforce
  qed
qed

theorem segment_frame_class_witness: "cname (class_of sample_frame) = CLASS_TCP"
  using segment_frame_class[OF sample_frame_decodes] by (simp add: sample_capture_def)

end
