(* ===== verification/Ring.thy ===== *)
theory Ring
  imports Capture_Proofs Policy
begin

text \<open>
  \<open>RingCapture\<close> of \<^verbatim>\<open>frame-processor/app/capture.py\<close>: the walk over the blocks of a
  TPACKET_V3 ring in \<open>read_segments\<close>, and the observer it shows every frame to.

  The shared mapping is a list of bytes; the capture host is amd64, so \<open>struct\<close>'s native \<open>=I\<close> and
  \<open>=H\<close> are little-endian. During one call only this process writes to it (the status word of a block
  it hands back); what the kernel stores between calls is the initial ring of the next. A turn of the
  loop is \<open>ring_turn\<close>: the ring it leaves and what it showed the observer. The socket set-up, the
  kernel statistics and the log lines are not modelled.
\<close>

section \<open>Native integers\<close>

definition u16le_at :: "bytes \<Rightarrow> nat \<Rightarrow> nat option" where
  "u16le_at d i = do { l \<leftarrow> byte_at d i; h \<leftarrow> byte_at d (i + 1); Some (l + 256 * h) }"

definition u32le_at :: "bytes \<Rightarrow> nat \<Rightarrow> nat option" where
  "u32le_at d i = do { l \<leftarrow> u16le_at d i; h \<leftarrow> u16le_at d (i + 2); Some (l + 65536 * h) }"

definition put_zero32 :: "nat \<Rightarrow> bytes \<Rightarrow> bytes" where
  "put_zero32 i d = take i d @ [0, 0, 0, 0] @ drop (i + 4) d"

definition TP_STATUS_USER :: nat where [simp]: "TP_STATUS_USER = 1"
definition TP_STATUS_COPY :: nat where [simp]: "TP_STATUS_COPY = 2"
definition TPACKET_ALIGNMENT :: nat where [simp]: "TPACKET_ALIGNMENT = 16"
definition RECORD_ALIGNMENT :: nat where [simp]: "RECORD_ALIGNMENT = 8"
definition BLOCK_STATUS_AT :: nat where [simp]: "BLOCK_STATUS_AT = 8"
definition BLOCK_NUM_PKTS_AT :: nat where [simp]: "BLOCK_NUM_PKTS_AT = 12"
definition BLOCK_FIRST_PKT_AT :: nat where [simp]: "BLOCK_FIRST_PKT_AT = 16"
definition TP_SEC_AT :: nat where [simp]: "TP_SEC_AT = 4"
definition TP_NSEC_AT :: nat where [simp]: "TP_NSEC_AT = 8"
definition TP_SNAPLEN_AT :: nat where [simp]: "TP_SNAPLEN_AT = 12"
definition TP_LEN_AT :: nat where [simp]: "TP_LEN_AT = 16"
definition TP_STATUS_AT :: nat where [simp]: "TP_STATUS_AT = 20"
definition TP_MAC_AT :: nat where [simp]: "TP_MAC_AT = 24"
definition TP_HEADER_MIN_LEN :: nat where [simp]: "TP_HEADER_MIN_LEN = 28"
definition TPACKET3_HDRLEN :: nat where [simp]: "TPACKET3_HDRLEN = 68"
definition TP_PKTTYPE_AT :: nat where [simp]: "TP_PKTTYPE_AT = 58"

section \<open>The ring\<close>

record ring_cfg =
  rc_block_size :: nat
  rc_block_count :: nat

text \<open>\<open>_validate_geometry\<close>; \<open>page_size\<close> is \<open>mmap.PAGESIZE\<close> and False the \<open>ValueError\<close>.\<close>

definition validate_geometry :: "nat \<Rightarrow> int \<Rightarrow> int \<Rightarrow> int \<Rightarrow> int \<Rightarrow> bool" where
  "validate_geometry page_size block_size block_count frame_size retire_timeout_ms \<longleftrightarrow>
     \<not> (block_size \<le> 0 \<or> block_size mod int page_size \<noteq> 0) \<and>
     \<not> block_count \<le> 0 \<and>
     \<not> (frame_size < int TPACKET3_HDRLEN \<or> frame_size mod int TPACKET_ALIGNMENT \<noteq> 0) \<and>
     \<not> block_size mod frame_size \<noteq> 0 \<and>
     \<not> retire_timeout_ms \<le> 0"

record ring =
  rg_mem :: bytes
  rg_block_index :: nat
  rg_active :: nat
  rg_active_at :: nat
  rg_closed :: bool
  rg_released :: nat
  rg_malformed :: nat
  rg_truncated :: nat

definition new_ring :: "bytes \<Rightarrow> ring" where
  "new_ring mem =
     \<lparr>rg_mem = mem, rg_block_index = 0, rg_active = 0, rg_active_at = 0, rg_closed = False,
      rg_released = 0, rg_malformed = 0, rg_truncated = 0\<rparr>"

definition release_block :: "ring_cfg \<Rightarrow> nat \<Rightarrow> ring \<Rightarrow> ring" where
  "release_block c block_at r =
     r\<lparr>rg_mem := put_zero32 (block_at + BLOCK_STATUS_AT) (rg_mem r),
       rg_released := rg_released r + 1, rg_active := 0, rg_active_at := 0,
       rg_block_index := (rg_block_index r + 1) mod rc_block_count c\<rparr>"

definition malformed_block :: "ring_cfg \<Rightarrow> nat \<Rightarrow> ring \<Rightarrow> ring" where
  "malformed_block c block_at r =
     release_block c block_at (r\<lparr>rg_malformed := rg_malformed r + 1\<rparr>)"

text \<open>What the observer is shown, and one turn of the loop.\<close>

datatype sighting =
  Saw_frame bytes real "direction option"
| Saw_truncated nat nat real

datatype turn = Turn_stop | Turn_next ring "sighting option"

text \<open>The record at \<open>rg_active_at\<close>, with \<open>rg_active\<close> records left including it.\<close>

definition walk_record :: "ring_cfg \<Rightarrow> nat \<Rightarrow> ring \<Rightarrow> turn option" where
  "walk_record c block_at r =
     (let block_end = block_at + rc_block_size c; packet_at = rg_active_at r; mem = rg_mem r in
      if packet_at < block_at \<or> packet_at + TP_HEADER_MIN_LEN > block_end
      then Some (Turn_next (malformed_block c block_at r) None)
      else do {
        next_offset \<leftarrow> u32le_at mem packet_at;
        sec \<leftarrow> u32le_at mem (packet_at + TP_SEC_AT);
        nsec \<leftarrow> u32le_at mem (packet_at + TP_NSEC_AT);
        snaplen \<leftarrow> u32le_at mem (packet_at + TP_SNAPLEN_AT);
        original_len \<leftarrow> u32le_at mem (packet_at + TP_LEN_AT);
        packet_status \<leftarrow> u32le_at mem (packet_at + TP_STATUS_AT);
        if nsec \<ge> 1000000000 then Some (Turn_next (malformed_block c block_at r) None)
        else do {
          mac_offset \<leftarrow> u16le_at mem (packet_at + TP_MAC_AT);
          let frame_at = packet_at + mac_offset;
          let frame_end = frame_at + snaplen;
          let r1 = r\<lparr>rg_active := rg_active r - 1\<rparr>;
          let next_packet_at = packet_at + next_offset;
          if rg_active r1 \<noteq> 0 \<and>
             (next_offset < TP_HEADER_MIN_LEN \<or> next_offset mod RECORD_ALIGNMENT \<noteq> 0
              \<or> next_packet_at + TP_HEADER_MIN_LEN > block_end)
          then Some (Turn_next (malformed_block c block_at r1) None)
          else do {
            let r2 = (if rg_active r1 \<noteq> 0 then r1\<lparr>rg_active_at := next_packet_at\<rparr> else r1);
            let ts = real sec + real nsec / 1000000000;
            let finish = (\<lambda>r. if rg_active r = 0 then release_block c block_at r else r);
            if packet_status AND TP_STATUS_COPY \<noteq> 0 \<or> snaplen < original_len
               \<or> frame_at < packet_at + TP_HEADER_MIN_LEN \<or> frame_end > block_end
            then Some (Turn_next (finish (r2\<lparr>rg_truncated := rg_truncated r2 + 1\<rparr>))
                   (Some (Saw_truncated original_len snaplen ts)))
            else do {
              dir \<leftarrow> (if frame_at \<ge> packet_at + TPACKET3_HDRLEN
                      then map_option (\<lambda>b. direction_from_pkttype (Some b))
                             (byte_at mem (packet_at + TP_PKTTYPE_AT))
                      else Some None);
              Some (Turn_next (finish r2) (Some (Saw_frame (pslice mem frame_at frame_end) ts dir)))
            }
          }
        }
      })"

definition ring_turn :: "ring_cfg \<Rightarrow> ring \<Rightarrow> turn option" where
  "ring_turn c r =
     (let block_at = rg_block_index r * rc_block_size c; mem = rg_mem r in
      if rg_active r = 0 then do {
        status \<leftarrow> u32le_at mem (block_at + BLOCK_STATUS_AT);
        if status AND TP_STATUS_USER = 0 then Some Turn_stop
        else do {
          packet_count \<leftarrow> u32le_at mem (block_at + BLOCK_NUM_PKTS_AT);
          first_packet \<leftarrow> u32le_at mem (block_at + BLOCK_FIRST_PKT_AT);
          if packet_count = 0 then Some (Turn_next (release_block c block_at r) None)
          else if \<not> (TP_HEADER_MIN_LEN \<le> first_packet
                     \<and> int first_packet \<le> int (rc_block_size c) - int TP_HEADER_MIN_LEN)
                  \<or> first_packet mod RECORD_ALIGNMENT \<noteq> 0
          then Some (Turn_next (malformed_block c block_at r) None)
          else walk_record c block_at
                 (r\<lparr>rg_active := packet_count, rg_active_at := block_at + first_packet\<rparr>)
        }
      }
      else walk_record c block_at r)"

lemma release_block_sel [simp]:
  "rg_released (release_block c b r) = Suc (rg_released r)" "rg_active (release_block c b r) = 0"
  "rg_released (malformed_block c b r) = Suc (rg_released r)" "rg_active (malformed_block c b r) = 0"
  by (simp_all add: release_block_def malformed_block_def)

text \<open>Every turn that goes on either gives a block back or has one record fewer to walk.\<close>

lemma walk_record_progress:
  assumes "walk_record c b r = Some (Turn_next r' s)" "rg_active r \<noteq> 0"
  shows "rg_released r' = Suc (rg_released r) \<or>
    rg_released r' = rg_released r \<and> rg_active r' = rg_active r - 1 \<and> rg_active r' \<noteq> 0"
  using assms
  by (auto simp: walk_record_def Let_def split: if_splits bind_splits)

lemma ring_turn_progress:
  assumes "ring_turn c r = Some (Turn_next r' s)"
  shows "rg_released r' = Suc (rg_released r) \<or>
    rg_released r' = rg_released r \<and> rg_active r' \<noteq> 0 \<and> (rg_active r = 0 \<or> rg_active r' < rg_active r)"
proof (cases "rg_active r = 0")
  case True
  with assms show ?thesis
    by (auto simp: ring_turn_def Let_def split: if_splits bind_splits dest!: walk_record_progress)
next
  case False
  with assms walk_record_progress[of c _ r r' s] show ?thesis
    by (auto simp: ring_turn_def Let_def)
qed

section \<open>Reading segments\<close>

record 'o observer =
  ob_frame :: "bytes \<Rightarrow> real \<Rightarrow> direction option \<Rightarrow> 'o \<Rightarrow> 'o"
  ob_truncated :: "nat \<Rightarrow> nat \<Rightarrow> real \<Rightarrow> 'o \<Rightarrow> 'o"

definition see :: "'o observer \<Rightarrow> sighting \<Rightarrow> 'o \<Rightarrow> 'o" where
  "see ob s st = (case s of Saw_frame d ts dir \<Rightarrow> ob_frame ob d ts dir st
                  | Saw_truncated n sz ts \<Rightarrow> ob_truncated ob n sz ts st)"

definition no_observer :: "unit observer" where
  "no_observer = \<lparr>ob_frame = \<lambda>_ _ _ s. s, ob_truncated = \<lambda>_ _ _ s. s\<rparr>"

text \<open>The segment of a sighting; \<open>None\<close> is an exception.\<close>

definition sighting_segment ::
  "capture_cfg \<Rightarrow> (bytes \<Rightarrow> dp_net option) \<Rightarrow> (bytes \<Rightarrow> string) \<Rightarrow> sighting \<Rightarrow> tcp_segment list option" where
  "sighting_segment cc dissect ntop6 s =
     (case s of
        Saw_truncated _ _ _ \<Rightarrow> Some []
      | Saw_frame d ts _ \<Rightarrow>
          map_option (\<lambda>(sg, _). case sg of None \<Rightarrow> [] | Some x \<Rightarrow> [x])
            (if fp_fast_classify cc then decode_tcp_bytes cc dissect ntop6 d ts True
             else Some (let (sg, frag) = decode_slow cc dissect ntop6 d ts in
               (case sg of None \<Rightarrow> None
                | Some x \<Rightarrow> if configured_candidate cc x then Some x else None, frag))))"

text \<open>The \<open>while\<close> loop of \<open>read_segments\<close>; \<open>stop_at\<close> is \<open>released_at_start + max_blocks\<close>.\<close>

function read_loop ::
  "ring_cfg \<Rightarrow> (sighting \<Rightarrow> tcp_segment list option) \<Rightarrow> 'o observer \<Rightarrow> nat option \<Rightarrow> nat
    \<Rightarrow> ring \<Rightarrow> 'o \<Rightarrow> tcp_segment list \<Rightarrow> (ring \<times> 'o \<times> tcp_segment list) option" where
  "read_loop c dec ob limit stop_at r w segments =
     (if (case limit of None \<Rightarrow> True | Some n \<Rightarrow> length segments < n) \<and> rg_released r < stop_at then
        (case ring_turn c r of
           None \<Rightarrow> None
         | Some Turn_stop \<Rightarrow> Some (r, w, segments)
         | Some (Turn_next r' None) \<Rightarrow> read_loop c dec ob limit stop_at r' w segments
         | Some (Turn_next r' (Some s)) \<Rightarrow>
             (case dec s of
                None \<Rightarrow> None
              | Some sgs \<Rightarrow> read_loop c dec ob limit stop_at r' (see ob s w) (segments @ sgs)))
      else Some (r, w, segments))"
  by pat_completeness auto
termination
  by (relation "measures [\<lambda>(c, dec, ob, limit, stop_at, r, w, segs). stop_at - rg_released r,
       \<lambda>(c, dec, ob, limit, stop_at, r, w, segs). if rg_active r = 0 then 1 else 0,
       \<lambda>(c, dec, ob, limit, stop_at, r, w, segs). rg_active r]")
     (auto dest!: ring_turn_progress)

declare read_loop.simps [simp del]

text \<open>\<open>read_segments\<close>; \<open>None\<close> is an exception, such as the \<open>ValueError\<close> for \<open>max_blocks\<close>.\<close>

definition read_segments ::
  "ring_cfg \<Rightarrow> (sighting \<Rightarrow> tcp_segment list option) \<Rightarrow> 'o observer \<Rightarrow> nat option \<Rightarrow> nat
    \<Rightarrow> ring \<Rightarrow> 'o \<Rightarrow> (ring \<times> 'o \<times> tcp_segment list) option" where
  "read_segments c dec ob limit max_blocks r w =
     (if rg_closed r then Some (r, w, [])
      else if limit = Some 0 then Some (r, w, [])
      else if max_blocks = 0 then None
      else read_loop c dec ob limit (rg_released r + max_blocks) r w [])"

definition close_ring :: "ring \<Rightarrow> ring" where
  "close_ring r = (if rg_closed r then r else r\<lparr>rg_closed := True\<rparr>)"

end
