(* ===== verification/Ring_Proofs.thy ===== *)
theory Ring_Proofs
  imports Ring
begin

text \<open>
  The walk over the ring never reads outside the mapping, so it never raises; a call gives back at
  most \<open>max_blocks\<close> blocks and returns at most \<open>limit\<close> segments; and the observer is shown exactly
  what the walk saw, in order, whatever the observer and the decoder do with it.
\<close>

section \<open>Memory safety\<close>

definition ring_ok :: "ring_cfg \<Rightarrow> ring \<Rightarrow> bool" where
  "ring_ok c r \<longleftrightarrow>
     28 \<le> rc_block_size c \<and> rg_block_index r < rc_block_count c \<and>
     length (rg_mem r) = rc_block_size c * rc_block_count c"

lemma geometry_ring_ok:
  assumes "validate_geometry page (int (rc_block_size c)) (int (rc_block_count c)) fs ms"
    "length mem = rc_block_size c * rc_block_count c"
  shows "ring_ok c (new_ring mem)"
proof -
  have g: "0 < rc_block_size c" "0 < rc_block_count c" "68 \<le> fs" "int (rc_block_size c) mod fs = 0"
    using assms(1) by (auto simp: validate_geometry_def)
  then have "fs dvd int (rc_block_size c)" by (simp add: mod_eq_0_iff_dvd)
  then have "fs \<le> int (rc_block_size c)" using g(1) by (simp add: zdvd_imp_le)
  with g assms(2) show ?thesis by (simp add: ring_ok_def new_ring_def)
qed

lemma u16le_ok: "i + 2 \<le> length d \<Longrightarrow> \<exists>v. u16le_at d i = Some v"
  by (simp add: u16le_at_def)

lemma u32le_ok: "i + 4 \<le> length d \<Longrightarrow> \<exists>v. u32le_at d i = Some v"
  using u16le_ok[of i d] u16le_ok[of "i + 2" d] by (auto simp: u32le_at_def)

lemma length_put_zero32 [simp]: "i + 4 \<le> length d \<Longrightarrow> length (put_zero32 i d) = length d"
  by (simp add: put_zero32_def)

lemma block_in_ring:
  assumes "ring_ok c r"
  shows "rg_block_index r * rc_block_size c + rc_block_size c \<le> length (rg_mem r)"
proof -
  have "(rg_block_index r + 1) * rc_block_size c \<le> rc_block_count c * rc_block_size c"
    using assms by (intro mult_le_mono1) (simp add: ring_ok_def)
  then show ?thesis using assms by (simp add: ring_ok_def algebra_simps)
qed

lemma ring_ok_release:
  assumes "ring_ok c r" "b + rc_block_size c \<le> length (rg_mem r)"
  shows "ring_ok c (release_block c b r)" "ring_ok c (malformed_block c b r)"
  using assms by (auto simp: ring_ok_def release_block_def malformed_block_def intro: mod_less_divisor)

text \<open>The record walk, with the block it is in inside the mapping.\<close>

definition good_turn :: "ring_cfg \<Rightarrow> turn option \<Rightarrow> bool" where
  "good_turn c t \<longleftrightarrow>
     (case t of None \<Rightarrow> False | Some Turn_stop \<Rightarrow> True | Some (Turn_next r _) \<Rightarrow> ring_ok c r)"

lemma good_turn_simps [simp]:
  "good_turn c None = False" "good_turn c (Some Turn_stop)" "good_turn c (Some (Turn_next r s)) = ring_ok c r"
  by (simp_all add: good_turn_def)

lemma ring_ok_fields [simp]:
  "ring_ok c (r\<lparr>rg_active := n\<rparr>) = ring_ok c r" "ring_ok c (r\<lparr>rg_active_at := n\<rparr>) = ring_ok c r"
  "ring_ok c (r\<lparr>rg_truncated := n\<rparr>) = ring_ok c r"
  by (simp_all add: ring_ok_def)

lemma walk_record_good:
  assumes ok: "ring_ok c r" and b: "b + rc_block_size c \<le> length (rg_mem r)"
  shows "good_turn c (walk_record c b r)"
proof (cases "rg_active_at r < b \<or> rg_active_at r + TP_HEADER_MIN_LEN > b + rc_block_size c")
  case True
  then show ?thesis using ring_ok_release[OF ok b] by (simp add: walk_record_def Let_def)
next
  case False
  let ?p = "rg_active_at r" and ?m = "rg_mem r"
  have p: "?p + 28 \<le> length ?m" using False b by simp
  obtain nx where nx: "u32le_at ?m ?p = Some nx" using u32le_ok[of ?p ?m] p by auto
  obtain sec where sec: "u32le_at ?m (?p + 4) = Some sec" using u32le_ok[of "?p + 4" ?m] p by auto
  obtain ns where ns: "u32le_at ?m (?p + 8) = Some ns" using u32le_ok[of "?p + 8" ?m] p by auto
  obtain sl where sl: "u32le_at ?m (?p + 12) = Some sl" using u32le_ok[of "?p + 12" ?m] p by auto
  obtain ol where ol: "u32le_at ?m (?p + 16) = Some ol" using u32le_ok[of "?p + 16" ?m] p by auto
  obtain st where st: "u32le_at ?m (?p + 20) = Some st" using u32le_ok[of "?p + 20" ?m] p by auto
  obtain mo where mo: "u16le_at ?m (?p + 24) = Some mo" using u16le_ok[of "?p + 24" ?m] p by auto
  have rel: "ring_ok c (release_block c b r')" "ring_ok c (malformed_block c b r')"
    if "rg_mem r' = rg_mem r" "rg_block_index r' = rg_block_index r" for r'
    using that ok b ring_ok_release[of c r' b] by (simp_all add: ring_ok_def)
  have dir: "?p + 58 < length ?m" if "\<not> ?p + mo + sl > b + rc_block_size c" "68 \<le> mo"
    using that b by linarith
  show ?thesis
    using False nx sec ns sl ol st mo ok dir rel
    by (auto simp: walk_record_def Let_def)
qed

lemma ring_turn_good:
  assumes "ring_ok c r"
  shows "good_turn c (ring_turn c r)"
proof -
  let ?b = "rg_block_index r * rc_block_size c" and ?m = "rg_mem r"
  have b: "?b + rc_block_size c \<le> length ?m" "28 \<le> rc_block_size c"
    using block_in_ring[OF assms] assms by (simp_all add: ring_ok_def)
  obtain st where st: "u32le_at ?m (?b + 8) = Some st" using u32le_ok[of "?b + 8" ?m] b by auto
  obtain n where n: "u32le_at ?m (?b + 12) = Some n" using u32le_ok[of "?b + 12" ?m] b by auto
  obtain f where f: "u32le_at ?m (?b + 16) = Some f" using u32le_ok[of "?b + 16" ?m] b by auto
  have "good_turn c (walk_record c ?b (r\<lparr>rg_active := n, rg_active_at := ?b + f\<rparr>))"
    using assms b(1) by (intro walk_record_good) simp_all
  then show ?thesis
    using st n f walk_record_good[OF assms b(1)] ring_ok_release[OF assms b(1)]
    by (simp add: ring_turn_def Let_def)
qed

section \<open>The whole call\<close>

definition decodes :: "(tcp_segment \<Rightarrow> bool) \<Rightarrow> (sighting \<Rightarrow> tcp_segment list option) \<Rightarrow> bool" where
  "decodes P dec \<longleftrightarrow> (\<forall>s. \<exists>sgs. dec s = Some sgs \<and> length sgs \<le> 1 \<and> (\<forall>sg \<in> set sgs. P sg))"

text \<open>
  Ports are below 65536: by the raw decoder's own reads, and on the slow path because dpkt's header
  fields have 16 bits, which is the hypothesis \<open>ports16\<close> on \<open>dissect\<close>.
\<close>

definition port16 :: "tcp_segment \<Rightarrow> bool" where
  "port16 sg \<longleftrightarrow> sg_sport sg < 65536 \<and> sg_dport sg < 65536"

fun upper_ports16 :: "dp_transport \<Rightarrow> bool" where
  "upper_ports16 (Dp_tcp sp dp sq fl off data) = (sp < 65536 \<and> dp < 65536)"
| "upper_ports16 _ = True"

fun net_ports16 :: "dp_net \<Rightarrow> bool" where
  "net_ports16 (Dp_tag n) = net_ports16 n"
| "net_ports16 (Dp_ip mf off len hl src dst t) = upper_ports16 t"
| "net_ports16 (Dp_ip6 src dst t) = upper_ports16 t"
| "net_ports16 Dp_other_net = True"

definition ports16 :: "(bytes \<Rightarrow> dp_net option) \<Rightarrow> bool" where
  "ports16 dissect \<longleftrightarrow> (\<forall>d. case dissect d of None \<Rightarrow> True | Some n \<Rightarrow> net_ports16 n)"

lemma dp_parts_ports16:
  "net_ports16 n \<Longrightarrow> dp_parts ntop6 n = (Some (src, dst, ip, t), f) \<Longrightarrow> upper_ports16 t"
  by (induction n) (auto simp: dp_parts_def split: if_splits)

lemma decode_step_ports16:
  assumes "ports16 dissect" "decode_step c dissect ntop6 inner tunnelled d ts = (Some sg, f)"
    "\<And>p sg f. inner p = (Some sg, f) \<Longrightarrow> port16 sg"
  shows "port16 sg"
proof -
  obtain n where n: "dissect d = Some n" using assms(2) by (auto simp: decode_step_def split: option.splits)
  have "net_ports16 n" using assms(1) n by (auto simp: ports16_def dest: spec[of _ d])
  then show ?thesis
    using assms(2,3) n
    by (auto simp: decode_step_def tcp_of_def port16_def dest!: dp_parts_ports16
        split: option.splits prod.splits dp_transport.splits if_splits)
qed

lemma decode_slow_ports16:
  assumes "ports16 dissect" "decode_slow c dissect ntop6 d ts = (Some sg, f)"
  shows "port16 sg"
proof (rule decode_step_ports16[OF assms(1) assms(2)[unfolded decode_slow_def]])
  fix p sg f
  assume "decode_step c dissect ntop6 (\<lambda>_. (None, False)) True p ts = (Some sg, f)"
  then show "port16 sg" by (rule decode_step_ports16[OF assms(1)]) simp
qed

lemma sighting_segment_decodes:
  assumes "\<And>d ts sg. decode_tcp_raw cc d ts True = Some (Raw_segment sg) \<Longrightarrow> P sg"
    "\<And>d ts sg f. decode_slow cc dissect ntop6 d ts = (Some sg, f) \<Longrightarrow> P sg"
  shows "decodes P (sighting_segment cc dissect ntop6)"
proof -
  have "\<exists>sgs. sighting_segment cc dissect ntop6 s = Some sgs \<and> length sgs \<le> 1 \<and> (\<forall>sg \<in> set sgs. P sg)" for s
  proof (cases s)
    case (Saw_frame d ts dir)
    obtain r where r: "decode_tcp_raw cc d ts True = Some r" using decode_tcp_raw_total by blast
    obtain sg frag where sg: "decode_slow cc dissect ntop6 d ts = (sg, frag)"
      by (cases "decode_slow cc dissect ntop6 d ts")
    have slow: "P x" if "sg = Some x" for x using assms(2) sg that by blast
    have raw: "P x" if "r = Raw_segment x" for x using assms(1) r that by blast
    show ?thesis
      using slow raw
      by (cases "fp_fast_classify cc"; cases r)
         (auto simp: sighting_segment_def Saw_frame decode_tcp_bytes_def r sg split: option.splits)
  qed (simp add: sighting_segment_def)
  then show ?thesis by (simp add: decodes_def)
qed

lemma sighting_segment_decodes_ports:
  "ports16 dissect \<Longrightarrow> decodes port16 (sighting_segment cc dissect ntop6)"
  by (rule sighting_segment_decodes) (auto simp: port16_def dest: raw_tcp_ports decode_slow_ports16)

lemma sighting_segment_decodes_any: "decodes (\<lambda>_. True) (sighting_segment cc dissect ntop6)"
  by (rule sighting_segment_decodes) simp_all

text \<open>The observer that writes down what it is shown.\<close>

definition log_observer :: "sighting list observer" where
  "log_observer = \<lparr>ob_frame = \<lambda>d ts dir l. l @ [Saw_frame d ts dir],
                   ob_truncated = \<lambda>n sz ts l. l @ [Saw_truncated n sz ts]\<rparr>"

lemma see_log [simp]: "see log_observer s l = l @ [s]"
  by (cases s) (simp_all add: see_def log_observer_def)

definition replay :: "'o observer \<Rightarrow> sighting list \<Rightarrow> 'o \<Rightarrow> 'o" where
  "replay ob ss w = fold (see ob) ss w"

lemma replay_simps [simp]:
  "replay ob [] w = w" "replay ob (ss @ [s]) w = see ob s (replay ob ss w)"
  by (simp_all add: replay_def)

definition limited :: "nat option \<Rightarrow> tcp_segment list \<Rightarrow> bool" where
  "limited limit sgs \<longleftrightarrow> (case limit of None \<Rightarrow> True | Some n \<Rightarrow> length sgs \<le> n)"

text \<open>What a call leaves: the ring \<open>r'\<close>, the sightings \<open>ss\<close> and the segments, for every observer.\<close>

definition walked :: "(tcp_segment \<Rightarrow> bool) \<Rightarrow> ring_cfg \<Rightarrow> nat option \<Rightarrow> nat \<Rightarrow> ring \<Rightarrow> tcp_segment list \<Rightarrow> ring
    \<Rightarrow> tcp_segment list \<Rightarrow> bool" where
  "walked P c limit stop_at r sgs r' sgs' \<longleftrightarrow>
     ring_ok c r' \<and> rg_released r \<le> rg_released r' \<and> rg_released r' \<le> stop_at \<and>
     limited limit sgs' \<and> (\<exists>new. sgs' = sgs @ new \<and> (\<forall>sg \<in> set new. P sg))"

lemma read_loop_result:
  assumes "ring_ok c r" "decodes P dec" "rg_released r \<le> stop_at" "limited limit sgs"
  shows "\<exists>r' ss sgs'. read_loop c dec ob limit stop_at r w sgs = Some (r', replay ob ss w, sgs') \<and>
    (\<forall>l. read_loop c dec log_observer limit stop_at r l sgs = Some (r', l @ ss, sgs')) \<and>
    walked P c limit stop_at r sgs r' sgs'"
  using assms
proof (induction c dec ob limit stop_at r w sgs rule: read_loop.induct)
  case (1 c dec ob limit stop_at r w sgs)
  let ?go = "(case limit of None \<Rightarrow> True | Some n \<Rightarrow> length sgs < n) \<and> rg_released r < stop_at"
  have good: "good_turn c (ring_turn c r)" by (rule ring_turn_good[OF "1.prems"(1)])
  show ?case
  proof (cases "?go \<and> ring_turn c r \<noteq> Some Turn_stop")
    case False
    then have "read_loop c dec ob limit stop_at r w sgs = Some (r, w, sgs)"
      "\<forall>l. read_loop c dec log_observer limit stop_at r l sgs = Some (r, l, sgs)"
      by (auto simp: read_loop.simps[of c dec])
    then show ?thesis
      using "1.prems" by (intro exI[of _ r] exI[of _ "[]"] exI[of _ sgs]) (simp add: walked_def)
  next
    case True
    then obtain r' s where t: "ring_turn c r = Some (Turn_next r' s)"
      using good by (auto simp: good_turn_def split: option.splits turn.splits)
    have r': "ring_ok c r'" "rg_released r' \<le> stop_at" "rg_released r \<le> rg_released r'"
      using good t ring_turn_progress[OF t] True by auto
    show ?thesis
    proof (cases s)
      case None
      have "\<exists>r'' ss sgs'. read_loop c dec ob limit stop_at r' w sgs = Some (r'', replay ob ss w, sgs') \<and>
          (\<forall>l. read_loop c dec log_observer limit stop_at r' l sgs = Some (r'', l @ ss, sgs')) \<and>
          walked P c limit stop_at r' sgs r'' sgs'"
        using "1.IH"(1)[OF _ t] None True r' "1.prems"(2,4) by blast
      then obtain r'' ss sgs' where i:
        "read_loop c dec ob limit stop_at r' w sgs = Some (r'', replay ob ss w, sgs')"
        "\<forall>l. read_loop c dec log_observer limit stop_at r' l sgs = Some (r'', l @ ss, sgs')"
        "walked P c limit stop_at r' sgs r'' sgs'"
        by blast
      have "read_loop c dec ob limit stop_at r w sgs = Some (r'', replay ob ss w, sgs')"
        "\<forall>l. read_loop c dec log_observer limit stop_at r l sgs = Some (r'', l @ ss, sgs')"
        using i True t None by (simp_all add: read_loop.simps[of c dec _ limit stop_at r])
      then show ?thesis using i(3) r'(3) by (auto simp: walked_def)
    next
      case (Some x)
      obtain new where new: "dec x = Some new" "length new \<le> 1" "\<forall>sg \<in> set new. P sg"
        using "1.prems"(2) by (auto simp: decodes_def)
      have lim: "limited limit (sgs @ new)"
        using True new(2) by (auto simp: limited_def split: option.splits)
      have "\<exists>r'' ss sgs'. read_loop c dec ob limit stop_at r' (see ob x w) (sgs @ new)
            = Some (r'', replay ob ss (see ob x w), sgs') \<and>
          (\<forall>l. read_loop c dec log_observer limit stop_at r' l (sgs @ new) = Some (r'', l @ ss, sgs')) \<and>
          walked P c limit stop_at r' (sgs @ new) r'' sgs'"
        using "1.IH"(2)[OF _ t] Some new(1) True r' "1.prems"(2) lim by blast
      then obtain r'' ss sgs' where i:
        "read_loop c dec ob limit stop_at r' (see ob x w) (sgs @ new)
           = Some (r'', replay ob ss (see ob x w), sgs')"
        "\<forall>l. read_loop c dec log_observer limit stop_at r' l (sgs @ new) = Some (r'', l @ ss, sgs')"
        "walked P c limit stop_at r' (sgs @ new) r'' sgs'"
        by blast
      have "read_loop c dec ob limit stop_at r w sgs = Some (r'', replay ob (x # ss) w, sgs')"
        "\<forall>l. read_loop c dec log_observer limit stop_at r l sgs = Some (r'', l @ (x # ss), sgs')"
        using i True t Some new(1)
        by (simp_all add: read_loop.simps[of c dec _ limit stop_at r] replay_def)
      moreover have "walked P c limit stop_at r sgs r'' sgs'"
        using i(3) r'(3) new(3) by (auto simp: walked_def)
      ultimately show ?thesis by blast
    qed
  qed
qed

lemma read_segments_result:
  assumes "ring_ok c r" "0 < max_blocks" "decodes P dec"
  shows "\<exists>r' ss sgs.
    read_segments c dec ob limit max_blocks r w = Some (r', replay ob ss w, sgs) \<and>
    read_segments c dec log_observer limit max_blocks r [] = Some (r', ss, sgs) \<and>
    ring_ok c r' \<and> rg_released r' \<le> rg_released r + max_blocks \<and>
    (case limit of None \<Rightarrow> True | Some n \<Rightarrow> length sgs \<le> n) \<and> (\<forall>sg \<in> set sgs. P sg)"
proof (cases "rg_closed r \<or> limit = Some 0")
  case True
  with assms show ?thesis
    by (intro exI[of _ r] exI[of _ "[]"]) (auto simp: read_segments_def split: option.splits)
next
  case False
  have "limited limit []" by (simp add: limited_def split: option.splits)
  then obtain r' ss sgs where r:
    "read_loop c dec ob limit (rg_released r + max_blocks) r w [] = Some (r', replay ob ss w, sgs)"
    "\<forall>l. read_loop c dec log_observer limit (rg_released r + max_blocks) r l [] = Some (r', l @ ss, sgs)"
    "walked P c limit (rg_released r + max_blocks) r [] r' sgs"
    using read_loop_result[OF assms(1,3), of "rg_released r + max_blocks" limit "[]"]
    by fastforce
  with False assms(2) show ?thesis
    by (intro exI[of _ r'] exI[of _ ss] exI[of _ sgs])
       (auto simp: read_segments_def walked_def limited_def split: option.splits)
qed

text \<open>C28: A call of \<open>read_segments\<close> on a ring of valid geometry never raises and ends, whatever the
  kernel left in the ring; it hands back at most \<open>max_blocks\<close> blocks and returns at most \<open>limit\<close>
  segments; and the observer is shown exactly the sightings of the walk, each once and in order.\<close>

theorem read_segments_spec:
  assumes "ring_ok c r" "0 < max_blocks"
  shows "\<exists>r' ss sgs.
    read_segments c (sighting_segment cc dissect ntop6) ob limit max_blocks r w
      = Some (r', replay ob ss w, sgs) \<and>
    read_segments c (sighting_segment cc dissect ntop6) log_observer limit max_blocks r []
      = Some (r', ss, sgs) \<and>
    ring_ok c r' \<and> rg_released r' \<le> rg_released r + max_blocks \<and>
    (case limit of None \<Rightarrow> True | Some n \<Rightarrow> length sgs \<le> n)"
  using read_segments_result[where ob = ob and limit = limit and w = w,
      OF assms sighting_segment_decodes_any[of cc dissect ntop6]] by simp

text \<open>A ring of two blocks that the kernel has filled with nonsense.\<close>

theorem read_segments_spec_witness:
  "\<exists>r' ss sgs.
     read_segments \<lparr>rc_block_size = 64, rc_block_count = 2\<rparr> (sighting_segment sample_capture (\<lambda>_. None) (\<lambda>_. []))
       log_observer (Some 10) 8 (new_ring (replicate 128 0xff)) [] = Some (r', ss, sgs) \<and>
     rg_released r' \<le> 8 \<and> length sgs \<le> 10"
  using read_segments_spec[of "\<lparr>rc_block_size = 64, rc_block_count = 2\<rparr>" "new_ring (replicate 128 0xff)" 8
      sample_capture "\<lambda>_. None" "\<lambda>_. []" log_observer "Some 10" "[]"]
  by (fastforce simp: ring_ok_def new_ring_def)

end
