(* ===== verification/Accountant_Steps.thy ===== *)
theory Accountant_Steps
  imports Accountant
begin

text \<open>
  What validating a frame may touch. \<open>vstep\<close> relates the accountant before and after any part of
  validation: the frame counts, the class totals, the closed windows and the window's own counts are
  left alone; findings are filed where they add up; beats and pins are only updated; and, as long as
  every declared cadence is positive, nothing raises. Each check is shown to keep it once.
\<close>

section \<open>Findings filed on the open window are a finding store\<close>

interpretation window_store: finding_store "\<lambda>f. note_in_window c (fst f) (snd f)" "\<lambda>_. 1"
    "\<lambda>w. dsum wg_count (w_groups w)" w_groups_overflow "\<lambda>w. length (w_groups w)" "c_max_window_groups c"
  for c
proof unfold_locales
  fix fb :: "finding \<times> bytes" and w
  let ?f = "fst fb"
  let ?key = "(f_kind ?f, f_class ?f, f_direction ?f, f_source ?f)"
  have new: "dsum wg_count (dset ?key (wg_add n ts det fr (new_wgroup a b d e)) gs) = dsum wg_count gs + 1"
    if "map_of gs ?key = None" for n ts det fr a b d e gs
    using that by (subst dsum_dset_add[where n = 1]) simp_all
  have old: "dsum wg_count (dset ?key (wg_add n ts det fr g) gs) = dsum wg_count gs + 1"
    if "map_of gs ?key = Some g" for n ts det fr g gs
    using that by (subst dsum_dset_add[where n = 1]) simp_all
  show "dsum wg_count (w_groups (note_in_window c ?f (snd fb) w))
      + w_groups_overflow (note_in_window c ?f (snd fb) w)
      = dsum wg_count (w_groups w) + w_groups_overflow w + 1"
    "dsum wg_count (w_groups w) \<le> dsum wg_count (w_groups (note_in_window c ?f (snd fb) w))"
    by (auto simp: note_in_window_def Let_def new old split: option.splits)
  show "length (w_groups w) \<le> c_max_window_groups c \<Longrightarrow>
      length (w_groups (note_in_window c ?f (snd fb) w)) \<le> c_max_window_groups c"
    using map_of_Some_keys[of "w_groups w" ?key]
    by (auto simp: note_in_window_def Let_def length_dset split: option.splits)
qed

definition win_store :: "acct_cfg \<Rightarrow> win \<Rightarrow> bool" where
  "win_store c w \<longleftrightarrow>
     dsum wg_count (w_groups w) + w_groups_overflow w = w_finding_count w \<and>
     length (w_groups w) \<le> c_max_window_groups c"

lemma note_in_window_sel [simp]:
  "w_start (note_in_window c f fr w) = w_start w" "w_end (note_in_window c f fr w) = w_end w"
  "w_observed (note_in_window c f fr w) = w_observed w"
  "w_classified (note_in_window c f fr w) = w_classified w"
  "w_kernel_dropped (note_in_window c f fr w) = w_kernel_dropped w"
  "w_truncated (note_in_window c f fr w) = w_truncated w"
  "w_errors (note_in_window c f fr w) = w_errors w"
  "w_classes (note_in_window c f fr w) = w_classes w"
  "w_finding_count (note_in_window c f fr w) = Suc (w_finding_count w)"
  by (auto simp: note_in_window_def Let_def split: option.splits)

lemma win_store_note: "win_store c w \<Longrightarrow> win_store c (note_in_window c f fr w)"
  using window_store.file_counts[of c "(f, fr)" w] window_store.file_bounded[of w c "(f, fr)"]
  by (simp add: win_store_def)

lemma win_store_new: "win_store c (new_win a b)"
  by (simp add: win_store_def new_win_def)

section \<open>The step relation\<close>

definition win_step :: "acct_cfg \<Rightarrow> win \<Rightarrow> win \<Rightarrow> bool" where
  "win_step c v w \<longleftrightarrow>
     w_start w = w_start v \<and> w_end w = w_end v \<and> w_observed w = w_observed v \<and>
     w_classified w = w_classified v \<and> w_kernel_dropped w = w_kernel_dropped v \<and>
     w_truncated w = w_truncated v \<and> w_classes w = w_classes v \<and>
     w_finding_count v \<le> w_finding_count w \<and> (win_store c v \<longrightarrow> win_store c w)"

lemma win_step_refl [simp]: "win_step c w w"
  by (simp add: win_step_def)

lemma win_step_trans: "win_step c u v \<Longrightarrow> win_step c v w \<Longrightarrow> win_step c u w"
  by (simp add: win_step_def)

definition quiet :: "acct_cfg \<Rightarrow> bool" where
  "quiet c \<longleftrightarrow> (case c_on_finding c of None \<Rightarrow> True | Some cb \<Rightarrow> \<forall>f. cb f)"

definition beats_ok :: "acct \<Rightarrow> bool" where
  "beats_ok s \<longleftrightarrow> (\<forall>kb \<in> set (a_beats s). b_interval (snd kb) > 0)"

text \<open>A count of the open window, and the findings the snapshot and the window count in step.\<close>

definition in_window :: "(win \<Rightarrow> nat) \<Rightarrow> acct \<Rightarrow> nat" where
  "in_window f s = (case a_window s of None \<Rightarrow> 0 | Some w \<Rightarrow> f w)"

definition findings_in_step :: "acct \<Rightarrow> acct \<Rightarrow> bool" where
  "findings_in_step s t \<longleftrightarrow>
     in_window w_finding_count t + snap_findings s = in_window w_finding_count s + snap_findings t"

definition vstep :: "acct_cfg \<Rightarrow> acct \<Rightarrow> acct \<Rightarrow> bool" where
  "vstep c s t \<longleftrightarrow>
     a_observed t = a_observed s \<and> a_classified t = a_classified s \<and> a_classes t = a_classes s \<and>
     a_truncated t = a_truncated s \<and> a_kernel_dropped t = a_kernel_dropped s \<and>
     a_closed t = a_closed s \<and> a_last_closed_end t = a_last_closed_end s \<and>
     a_windows_opened t = a_windows_opened s \<and> ctx_window t = ctx_window s \<and>
     ctx_direction t = ctx_direction s \<and> ctx_frame t = ctx_frame s \<and>
     rel_option (win_step c) (a_window s) (a_window t) \<and>
     (quiet c \<longrightarrow> a_errors t = a_errors s) \<and>
     keys (a_beats t) = keys (a_beats s) \<and> (beats_ok s \<longrightarrow> beats_ok t) \<and>
     set (keys (a_pins s)) \<subseteq> set (keys (a_pins t)) \<and>
     (ctx_window s \<and> a_window s \<noteq> None \<longrightarrow> findings_in_step s t)"

lemma vstep_refl: "vstep c s s"
  by (simp add: vstep_def option.rel_refl findings_in_step_def)

lemma vstep_trans: "vstep c s t \<Longrightarrow> vstep c t u \<Longrightarrow> vstep c s u"
proof -
  assume st: "vstep c s t" and tu: "vstep c t u"
  then have r: "rel_option (win_step c) (a_window s) (a_window u)"
    by (cases "a_window s"; cases "a_window t"; cases "a_window u")
       (auto simp: vstep_def intro: win_step_trans)
  have p: "set (keys (a_pins s)) \<subseteq> set (keys (a_pins u))"
    using st tu unfolding vstep_def by (meson subset_trans)
  have w: "a_window t = None \<longleftrightarrow> a_window s = None"
    using st by (auto simp: vstep_def rel_option_iff split: option.splits)
  have f: "ctx_window s \<and> a_window s \<noteq> None \<longrightarrow> findings_in_step s u"
  proof
    assume a: "ctx_window s \<and> a_window s \<noteq> None"
    then have "findings_in_step s t" "findings_in_step t u"
      using st tu w by (simp_all add: vstep_def)
    then show "findings_in_step s u" by (simp add: findings_in_step_def)
  qed
  show ?thesis
    unfolding vstep_def using st[unfolded vstep_def] tu[unfolded vstep_def] r p f by simp
qed

interpretation vstep: guarded_relation "vstep c" beats_ok for c
proof unfold_locales
  show "vstep c s s" for s by (rule vstep_refl)
  show "vstep c s t \<Longrightarrow> vstep c t u \<Longrightarrow> vstep c s u" for s t u by (rule vstep_trans)
  show "vstep c s t \<Longrightarrow> beats_ok s \<Longrightarrow> beats_ok t" for s t by (simp add: vstep_def)
qed

section \<open>The basic steps\<close>

lemma vstep_window: "vstep c s t \<Longrightarrow> (a_window t = None) = (a_window s = None)"
  by (auto simp: vstep_def rel_option_iff split: option.splits)

lemma add_to_group_count [simp]: "fg_count (add_to_group c f g) = Suc (fg_count g)"
  by (simp add: add_to_group_def Let_def)

lemma snap_findings_note: "snap_findings (note_finding c f s) = Suc (snap_findings s)"
proof -
  let ?f = "with_direction s f"
  let ?group = "case map_of (a_groups s) (f_kind ?f, f_class ?f) of Some g \<Rightarrow> g
      | None \<Rightarrow> \<lparr>fg_kind = f_kind ?f, fg_class = f_class ?f, fg_count = 0, fg_sources = {}, fg_samples = []\<rparr>"
  have "dsum fg_count (dset (f_kind ?f, f_class ?f) (add_to_group c ?f ?group) (a_groups s))
      = dsum fg_count (a_groups s) + 1"
    by (rule dsum_dset_add) (simp split: option.splits)
  then show ?thesis
    by (auto simp: note_finding_def Let_def snap_findings_def on_ctx_window_def split: option.splits)
qed

lemma note_finding_window:
  "a_window (note_finding c f s) =
     (if ctx_window s then map_option (\<lambda>w. note_in_window c (with_direction s f) (ctx_frame s)
        (if f_kind (with_direction s f) = ''error'' then w\<lparr>w_errors := w_errors w + 1\<rparr> else w)) (a_window s)
      else a_window s)"
  by (auto simp: note_finding_def Let_def on_ctx_window_def split: option.splits)

lemma findings_in_step_note:
  "ctx_window s \<Longrightarrow> a_window s \<noteq> None \<Longrightarrow> findings_in_step s (note_finding c f s)"
  by (auto simp: findings_in_step_def in_window_def snap_findings_note note_finding_window)

lemma vstep_note: "vstep c s (note_finding c f s)"
proof -
  let ?w = "\<lambda>f w. note_in_window c f (ctx_frame s)
    (if f_kind f = ''error'' then w\<lparr>w_errors := w_errors w + 1\<rparr> else w)"
  have ws: "win_step c w (?w f w)" for f w
    using win_store_note[of c "if f_kind f = ''error'' then w\<lparr>w_errors := w_errors w + 1\<rparr> else w"]
    by (simp add: win_step_def win_store_def)
  have f: "ctx_window s \<and> a_window s \<noteq> None \<longrightarrow> findings_in_step s (note_finding c f s)"
    by (simp add: findings_in_step_note)
  have "ctx_window s \<and> a_window s \<noteq> None \<longrightarrow> findings_in_step s (note_finding c f s) \<Longrightarrow>
    vstep c s (note_finding c f s)"
    unfolding vstep_def using ws by (cases "a_window s")
      (auto simp: note_finding_def Let_def on_ctx_window_def quiet_def beats_ok_def
        split: option.splits)
  then show ?thesis using f by simp
qed

lemma sound_notec: "vstep.sound_at c s (notec c k cl src det ts)"
  by (simp add: notec_def vstep.sound_modc vstep_note)

lemma vstep_put_pin: "vstep c s (put_pin key p s)"
  by (auto simp: put_pin_def vstep_def beats_ok_def option.rel_refl AList.dom_update
      findings_in_step_def in_window_def snap_findings_def)

lemma vstep_put_beat:
  assumes "map_of (a_beats s) key = Some b" "b_interval b' = b_interval b"
  shows "vstep c s (put_beat key b' s)"
proof -
  have "(key, b) \<in> set (a_beats s)" using assms(1) by (rule map_of_SomeD)
  then have "beats_ok s \<longrightarrow> beats_ok (put_beat key b' s)"
    using assms(2) by (auto simp: beats_ok_def put_beat_def dest!: subsetD[OF set_dset_subset])
  moreover have "keys (dset key b' (a_beats s)) = keys (a_beats s)"
    by (rule keys_dset_old[OF map_of_Some_keys[OF assms(1)]])
  ultimately show ?thesis
    by (simp add: put_beat_def vstep_def option.rel_refl beats_ok_def findings_in_step_def
        in_window_def snap_findings_def)
qed

lemmas sound_note = vstep.sound_modc[OF vstep_note]

lemma vstep_keys: "vstep c s t \<Longrightarrow> keys (a_beats t) = keys (a_beats s)"
  by (simp add: vstep_def)

section \<open>The checks\<close>

lemma sound_check_padding: "vstep.sound_at c s (check_padding c d cl ts)"
  by (auto simp: check_padding_def split: option.splits intro!: vstep.sound_rules sound_notec)

lemma sound_check_lldp: "vstep.sound_at c s (check_lldp c d cl ts)"
  by (auto simp: check_lldp_def Let_def split: option.splits intro!: vstep.sound_rules sound_notec)

lemma sound_check_arp: "vstep.sound_at c s (check_arp c d cl ts)"
  unfolding check_arp_def Let_def by (intro vstep.sound_rules sound_notec) auto

lemma sound_check_ipv4_header: "vstep.sound_at c s (check_ipv4_header c d cl ts)"
  unfolding check_ipv4_header_def Let_def by (intro vstep.sound_rules sound_notec) auto

lemma sound_check_tcp_header: "vstep.sound_at c s (check_tcp_header c d cl ts)"
  unfolding check_tcp_header_def Let_def by (intro vstep.sound_rules sound_notec) auto

lemma sound_check_ipv4_checksum: "vstep.sound_at c s (check_ipv4_checksum c d cl ts)"
  unfolding check_ipv4_checksum_def Let_def by (intro vstep.sound_rules sound_notec) auto

lemma sound_pin_verdict: "vstep.sound_at c s (pin_verdict c name src payload b a ts)"
  unfolding pin_verdict_def by (auto split: option.splits intro!: vstep.sound_rules sound_notec)

lemma note_finding_pins [simp]: "a_pins (note_finding c f s) = a_pins s"
  by (auto simp: note_finding_def Let_def on_ctx_window_def split: option.splits)

lemma note_finding_beats [simp]: "a_beats (note_finding c f s) = a_beats s"
  by (auto simp: note_finding_def Let_def on_ctx_window_def split: option.splits)

lemma notec_eq: "notec c k cl src det ts s = (note_finding c (mk_finding k cl src det ts DIRECTION_UNKNOWN) s, True)"
  by (simp add: notec_def modc_def)

definition establish_pin :: "acct_cfg \<Rightarrow> string \<Rightarrow> pin \<Rightarrow> acct cmd \<Rightarrow> acct cmd" where
  "establish_pin c key p complain =
     getc (\<lambda>s. whenc (map_of (a_pins s) key = None) (seqc (modc (put_pin key p)) complain))"

lemma establish_pin_key:
  assumes "\<And>s. a_pins (fst (complain s)) = a_pins s"
  shows "map_of (a_pins (fst (establish_pin c key p complain s))) key \<noteq> None"
  using assms
  by (auto simp: establish_pin_def getc_def whenc_def skipc_def seqc_def modc_def put_pin_def
      update_conv')

lemma sound_check_pin: "vstep.sound_at c s (check_pin c d cl ts)"
proof -
  let ?key = "pin_key d cl"
  let ?declared = "case c_policy c of Some p \<Rightarrow> declared_digest p ?key | None \<Rightarrow> None"
  let ?pin = "new_pin ts ?declared (cname cl \<in> c_whole_frame c)"
  let ?complain = "whenc (c_policy c \<noteq> None \<and> ?declared = None)
    (notec c ''pin-undeclared'' (cname cl) (source_of d) (Pin_undeclared (c_digest c (pinned c d cl))) ts)"
  have unfold: "check_pin c d cl ts =
    seqc (whenc (cname cl \<in> c_whole_frame c) (check_ipv4_checksum c d cl ts))
      (seqc (establish_pin c ?key ?pin ?complain)
        (getc (\<lambda>s. readc (map_of (a_pins s) ?key) (\<lambda>p.
           seqc (modc (put_pin ?key (pin_observe c (pinned c d cl) p)))
              (pin_verdict c (cname cl) (source_of d) (pinned c d cl) p
                 (pin_observe c (pinned c d cl) p) ts)))))"
    by (simp add: check_pin_def establish_pin_def Let_def)
  have est: "vstep.sound_at c s (establish_pin c ?key ?pin ?complain)" for s
    unfolding establish_pin_def
    by (intro vstep.sound_rules sound_notec vstep.sound_modc vstep_put_pin)
  have keep: "a_pins (fst (?complain s)) = a_pins s" for s
    by (simp add: whenc_def skipc_def notec_eq)
  show ?thesis
    unfolding unfold
    by (intro vstep.sound_whenc sound_check_ipv4_checksum vstep.sound_seqc_result est
        vstep.sound_getc vstep.sound_readc vstep.sound_modc vstep_put_pin sound_pin_verdict
        establish_pin_key keep)
qed

section \<open>Sweeping the schedules\<close>

lemma sound_note_beat: "vstep.sound_at c s (note_beat c k b det ts)"
  unfolding note_beat_def by (rule vstep.sound_modc, rule vstep_note)

lemma sound_sweep_beat:
  assumes "key \<in> set (keys (a_beats s))"
  shows "vstep.sound_at c s (sweep_beat c key until)"
  unfolding sweep_beat_def Let_def
proof (intro vstep.sound_rules vstep.sound_modc sound_note_beat)
  show "map_of (a_beats s) key \<noteq> None" using assms by (simp add: map_of_None_keys del: set_map)
next
  fix b assume b: "map_of (a_beats s) key = Some b" and ok: "beats_ok s"
  have "b_interval b > 0" using map_of_SomeD[OF b] ok by (auto simp: beats_ok_def)
  then show "(if b_interval b = 0 then None else Some \<lceil>(until - b_tolerance b - next_due b) / b_interval b\<rceil>) \<noteq> None"
    by simp
next
  fix b n assume b: "map_of (a_beats s) key = Some b"
  show "vstep c s (put_beat key (b\<lparr>awaiting_return := True,
      resyncs := resyncs (b\<lparr>awaiting_return := True\<rparr>) + 1,
      next_due := until + b_interval (b\<lparr>awaiting_return := True\<rparr>)\<rparr>) s)"
    by (rule vstep_put_beat[OF b]) simp
  show "vstep c s (put_beat key (b\<lparr>awaiting_return := True,
      missed := missed (b\<lparr>awaiting_return := True\<rparr>) + n,
      next_due := next_due (b\<lparr>awaiting_return := True\<rparr>) + of_int n * b_interval (b\<lparr>awaiting_return := True\<rparr>)\<rparr>) s)"
    by (rule vstep_put_beat[OF b]) simp
qed

lemma sound_sweep_keys:
  "set ks \<subseteq> set (keys (a_beats s)) \<Longrightarrow> vstep.sound_at c s (sweep_keys c ks until)"
proof (induction ks arbitrary: s)
  case (Cons k ks)
  then have k: "k \<in> set (keys (a_beats s))" by simp
  have rest: "vstep.sound_at c t (sweep_keys c ks until)" if "vstep c s t" for t
  proof (rule Cons.IH)
    show "set ks \<subseteq> set (keys (a_beats t))"
      using Cons.prems unfolding vstep_keys[OF that] by auto
  qed
  show ?case by (simp add: vstep.sound_seqc sound_sweep_beat[OF k] rest)
qed (simp add: vstep.sound_skipc)

lemma sound_sweep_beats: "vstep.sound_at c s (sweep_beats c until)"
  by (simp add: sweep_beats_def vstep.sound_getc sound_sweep_keys)

lemma vstep_ctx:
  assumes "vstep c (set_ctx a b fr s) t" "ctx_window s \<longrightarrow> a \<or> a_window s = None"
  shows "vstep c s (set_ctx (ctx_window s) (ctx_direction s) (ctx_frame s) t)"
  using assms by (auto simp: vstep_def set_ctx_def beats_ok_def findings_in_step_def in_window_def
      snap_findings_def)

lemma sound_sweep_in:
  "ctx_window s \<longrightarrow> w \<or> a_window s = None \<Longrightarrow> vstep.sound_at c s (sweep_in c w until)"
proof (cases "a_beats s = []")
  case False
  assume w: "ctx_window s \<longrightarrow> w \<or> a_window s = None"
  have "vstep.sound_at c (set_ctx w DIRECTION_UNKNOWN [] s) (sweep_beats c until)"
    by (rule sound_sweep_beats)
  then have "vstep c (set_ctx w DIRECTION_UNKNOWN [] s)
      (fst (sweep_beats c until (set_ctx w DIRECTION_UNKNOWN [] s)))"
    "beats_ok s \<longrightarrow> snd (sweep_beats c until (set_ctx w DIRECTION_UNKNOWN [] s))"
    by (simp_all add: vstep.sound_at_def beats_ok_def set_ctx_def)
  from vstep_ctx[OF this(1) w] this(2) False show ?thesis
    by (simp add: vstep.sound_at_def sweep_in_def Let_def)
qed (simp add: vstep.sound_at_def sweep_in_def vstep_refl)

lemma sweep_in_findings:
  assumes "a_window s \<noteq> None"
  shows "findings_in_step s (fst (sweep_in c True until s))"
proof (cases "a_beats s = []")
  case False
  have "vstep.sound_at c (set_ctx True DIRECTION_UNKNOWN [] s) (sweep_beats c until)"
    by (rule sound_sweep_beats)
  with False assms show ?thesis
    by (auto simp: vstep.sound_at_def sweep_in_def Let_def vstep_def set_ctx_def
        findings_in_step_def in_window_def snap_findings_def)
qed (simp add: sweep_in_def findings_in_step_def)

lemma sound_check_beat: "vstep.sound_at c s (check_beat c source name ts dir)"
proof -
  let ?key = "source @ CHR ''/'' # name"
  show ?thesis
  proof (cases "map_of (a_beats s) ?key")
    case None
    then show ?thesis by (simp add: check_beat_def Let_def vstep.sound_getc vstep.sound_skipc)
  next
    case (Some b)
    then have key: "?key \<in> set (keys (a_beats s))" by (rule map_of_Some_keys)
    have has: "map_of (a_beats t) ?key \<noteq> None" if "vstep c s t" for t
      using key vstep_keys[OF that] by (simp add: map_of_None_keys del: set_map)
    have gap: "b_interval (beat_gap ts dir b) = b_interval b"
      by (simp add: beat_gap_def Let_def)
    have acc: "b_interval (beat_accept ts b') = b_interval b'" for b'
      by (simp add: beat_accept_def Let_def)
    have last: "vstep.sound_at c t (getc (\<lambda>s. readc (map_of (a_beats s) ?key) (\<lambda>b.
        if beat_early b ts then
          seqc (modc (put_beat ?key (b\<lparr>unscheduled := unscheduled b + 1\<rparr>)))
            (modc (note_finding c (mk_finding KIND_BEAT_UNSCHEDULED name source
                (Beat_early (next_due b - ts) (b_interval b)) ts (b_direction b))))
        else modc (put_beat ?key (beat_accept ts b)))))"
      if "vstep c s t" for t
      using has[OF that]
      by (intro vstep.sound_rules sound_note vstep.sound_modc vstep_put_beat)
         (simp_all add: acc vstep_note)
    show ?thesis
      unfolding check_beat_def Let_def
      by (rule vstep.sound_getc, simp only: Some option.case,
          rule vstep.sound_seqc, rule vstep.sound_modc, rule vstep_put_beat[OF Some gap],
          rule vstep.sound_seqc, rule vstep.sound_getc, rule sound_sweep_in, blast,
          rule last, erule (1) vstep_trans)
  qed
qed

section \<open>Validation as a whole\<close>

lemma sound_note_all: "vstep.sound_at c s (note_all c name source ts fs)"
  by (induction c name source ts fs arbitrary: s rule: note_all.induct)
     (simp_all add: vstep.sound_skipc vstep.sound_seqc sound_notec)

lemma sound_validate: "vstep.sound_at c s (validate c d cl ts dir)"
proof -
  have policy: "vstep.sound_at c s (case c_policy c of None \<Rightarrow> skipc
      | Some p \<Rightarrow> readc (policy_check p d (cname cl) (pin_at cl)
           (case dir of Some x \<Rightarrow> x | None \<Rightarrow> DIRECTION_UNKNOWN))
         (note_all c (cname cl) (source_of d) ts))" for s
    using policy_check_ex
    by (auto split: option.splits intro!: vstep.sound_skipc vstep.sound_readc sound_note_all)
  show ?thesis
    unfolding validate_def Let_def
    by (intro vstep.sound_rules sound_notec sound_check_padding sound_check_ipv4_header
        sound_check_tcp_header sound_check_lldp sound_check_arp sound_check_pin sound_check_beat policy)
qed

lemma validate_vstep: "vstep c s (fst (validate c d cl ts dir s))"
  using sound_validate[of c s d cl ts dir] by (simp add: vstep.sound_at_def)

lemma validate_safe: "beats_ok s \<Longrightarrow> snd (validate c d cl ts dir s)"
  using sound_validate[of c s d cl ts dir] by (simp add: vstep.sound_at_def)

lemma sweep_in_vstep:
  "ctx_window s \<longrightarrow> w \<or> a_window s = None \<Longrightarrow> vstep c s (fst (sweep_in c w until s))"
  using sound_sweep_in[of s w c until] by (simp add: vstep.sound_at_def)

lemma sweep_in_safe:
  "ctx_window s \<longrightarrow> w \<or> a_window s = None \<Longrightarrow> beats_ok s \<Longrightarrow> snd (sweep_in c w until s)"
  using sound_sweep_in[of s w c until] by (simp add: vstep.sound_at_def)

end
