(* ===== verification/Accountant_Windows.thy ===== *)
theory Accountant_Windows
  imports Accountant_Steps
begin

text \<open>
  The windows of \<open>FrameAccountant\<close>: \<open>_open\<close>, \<open>_close\<close>, \<open>_advance_to\<close>, \<open>_window_for\<close>, \<open>roll\<close> and
  \<open>finish\<close> keep the books. \<open>books\<close> is the account a windowed accountant can give at any time of the
  reports it has handed out (\<open>out\<close>), the reports waiting to be taken and the open window: together
  they hold every classified frame, every truncated frame (but for the \<open>k\<close> that \<open>note_truncated\<close> has
  added to the total and not yet to a window) and every finding, each report adds up on its own, and the windows follow each other on the grid without overlapping. The loop of
  \<open>_advance_to\<close> ends within its fuel.
\<close>

section \<open>What a window and a report add up to\<close>

definition split_ok :: "class_totals \<Rightarrow> bool" where
  "split_ok t \<longleftrightarrow> frames t = frames_out t + frames_in t + frames_unknown t"

definition totals_ok :: "nat \<Rightarrow> (string \<times> class_totals) list \<Rightarrow> bool" where
  "totals_ok n cs \<longleftrightarrow>
     dsum frames cs = n \<and> (\<forall>nt \<in> set cs. split_ok (snd nt)) \<and> distinct (keys cs)"

definition on_grid :: "real \<Rightarrow> real \<Rightarrow> bool" where
  "on_grid ws t \<longleftrightarrow> (\<exists>k::int. t = of_int k * ws)"

definition win_ok :: "acct_cfg \<Rightarrow> real \<Rightarrow> win \<Rightarrow> bool" where
  "win_ok c ws w \<longleftrightarrow>
     on_grid ws (w_start w) \<and> w_end w = w_start w + ws \<and> w_observed w = w_classified w \<and>
     totals_ok (w_classified w) (w_classes w) \<and> win_store c w"

definition report_ok :: "acct_cfg \<Rightarrow> real \<Rightarrow> window_report \<Rightarrow> bool" where
  "report_ok c ws r \<longleftrightarrow>
     wr_iface r = c_iface c \<and> on_grid ws (wr_start r) \<and> wr_end r = wr_start r + ws \<and>
     report_balanced r \<and> totals_ok (wr_classified r) (wr_classes r) \<and> report_consistent r \<and>
     length (wr_groups r) \<le> c_max_window_groups c"

lemma totals_ok_Nil [simp]: "totals_ok 0 []"
  by (simp add: totals_ok_def)

lemma add_frame_sel [simp]: "frames (add_frame sz dir t) = Suc (frames t)"
  by (simp add: add_frame_def Let_def)

lemma split_ok_add_frame: "split_ok t \<Longrightarrow> split_ok (add_frame sz dir t)"
  by (auto simp: split_ok_def add_frame_def Let_def)

lemma split_ok_zero: "split_ok zero_totals"
  by (simp add: split_ok_def zero_totals_def)

lemma totals_ok_count: "totals_ok n cs \<Longrightarrow> totals_ok (Suc n) (count_class name sz dir cs)"
proof -
  assume ok: "totals_ok n cs"
  let ?old = "case map_of cs name of None \<Rightarrow> zero_totals | Some t \<Rightarrow> t"
  have "dsum frames (count_class name sz dir cs) = dsum frames cs + 1"
    unfolding count_class_def by (rule dsum_dset_add) (simp add: zero_totals_def split: option.splits)
  moreover have "split_ok ?old"
    using ok by (auto simp: totals_ok_def split_ok_zero dest!: map_of_SomeD split: option.splits)
  then have "\<forall>nt \<in> set (count_class name sz dir cs). split_ok (snd nt)"
    using ok set_dset_subset[of name "add_frame sz dir ?old" cs] split_ok_add_frame
    by (fastforce simp: totals_ok_def count_class_def)
  ultimately show ?thesis
    using ok by (simp add: totals_ok_def count_class_def distinct_update)
qed

lemma report_of_ok: "win_ok c ws w \<Longrightarrow> report_ok c ws (report_of c s w)"
  by (simp add: report_ok_def win_ok_def report_of_def report_balanced_def report_consistent_def
      win_store_def dsum_def comp_def)

lemma win_ok_step: "win_step c v w \<Longrightarrow> win_ok c ws v \<Longrightarrow> win_ok c ws w"
  by (simp add: win_ok_def win_step_def)

lemma win_ok_new: "on_grid ws start \<Longrightarrow> win_ok c ws (new_win start (start + ws))"
  by (simp add: win_ok_def new_win_def win_store_def)

lemma win_ok_note: "win_ok c ws w \<Longrightarrow> win_ok c ws (note_in_window c f fr w)"
  by (simp add: win_ok_def win_store_note)

lemma on_grid_window_start: "on_grid ws (window_start_for ts ws)"
  unfolding on_grid_def window_start_for_def by blast

lemma on_grid_add: "on_grid ws t \<Longrightarrow> on_grid ws (t + ws)"
  unfolding on_grid_def by (metis distrib_right mult_1 of_int_1 of_int_add)

lemma on_grid_le: "0 < ws \<Longrightarrow> on_grid ws a \<Longrightarrow> on_grid ws b \<Longrightarrow> a < b \<Longrightarrow> a + ws \<le> b"
proof -
  assume ws: "0 < ws" and "on_grid ws a" "on_grid ws b" and lt: "a < b"
  then obtain j k :: int where a: "a = of_int j * ws" and b: "b = of_int k * ws"
    unfolding on_grid_def by blast
  then have "j + 1 \<le> k" using ws lt by (simp add: mult_less_cancel_right)
  then have "of_int (j + 1) * ws \<le> of_int k * ws" using ws by (intro mult_right_mono) auto
  then show ?thesis by (simp add: a b distrib_right)
qed

section \<open>The books\<close>

definition total_reports :: "(window_report \<Rightarrow> nat) \<Rightarrow> window_report list \<Rightarrow> nat" where
  "total_reports f rs = sum_list (map f rs)"

lemma total_reports_simps [simp]:
  "total_reports f [] = 0" "total_reports f (r # rs) = f r + total_reports f rs"
  "total_reports f (rs @ qs) = total_reports f rs + total_reports f qs"
  by (simp_all add: total_reports_def)

definition horizon :: "acct \<Rightarrow> real" where
  "horizon s = (case a_window s of None \<Rightarrow> a_last_closed_end s | Some w \<Rightarrow> w_start w)"

definition reports_ordered :: "window_report list \<Rightarrow> bool" where
  "reports_ordered rs \<longleftrightarrow> sorted_wrt (\<lambda>r q. wr_end r \<le> wr_start q) rs"

definition sums_ok :: "nat \<Rightarrow> window_report list \<Rightarrow> acct \<Rightarrow> bool" where
  "sums_ok k rs s \<longleftrightarrow>
     total_reports wr_classified rs + in_window w_classified s = a_classified s \<and>
     total_reports wr_truncated rs + in_window w_truncated s + k = a_truncated s \<and>
     total_reports wr_kernel_dropped rs + in_window w_kernel_dropped s \<le> a_kernel_dropped s \<and>
     snap_findings s \<le> total_reports wr_finding_count rs + in_window w_finding_count s"

definition books :: "acct_cfg \<Rightarrow> real \<Rightarrow> nat \<Rightarrow> window_report list \<Rightarrow> acct \<Rightarrow> bool" where
  "books c ws k out s \<longleftrightarrow>
     (\<forall>r \<in> set (out @ a_closed s). report_ok c ws r \<and> wr_end r \<le> horizon s) \<and>
     reports_ordered (out @ a_closed s) \<and>
     (\<forall>w. a_window s = Some w \<longrightarrow> win_ok c ws w) \<and>
     totals_ok (a_classified s) (a_classes s) \<and>
     sums_ok k (out @ a_closed s) s \<and> beats_ok s"

definition same_counts :: "acct_cfg \<Rightarrow> acct \<Rightarrow> acct \<Rightarrow> bool" where
  "same_counts c s t \<longleftrightarrow>
     a_observed t = a_observed s \<and> a_classified t = a_classified s \<and> a_classes t = a_classes s \<and>
     a_truncated t = a_truncated s \<and> a_kernel_dropped t = a_kernel_dropped s \<and>
     (quiet c \<longrightarrow> a_errors t = a_errors s)"

lemma same_counts_refl [simp]: "same_counts c s s"
  by (simp add: same_counts_def)

lemma same_counts_trans: "same_counts c s t \<Longrightarrow> same_counts c t u \<Longrightarrow> same_counts c s u"
  by (simp add: same_counts_def)

lemma same_counts_vstep: "vstep c s t \<Longrightarrow> same_counts c s t"
  by (simp add: vstep_def same_counts_def)

lemma books_beats: "books c ws k out s \<Longrightarrow> beats_ok s"
  by (simp add: books_def)

lemma books_vstep:
  assumes "books c ws k out s" "vstep c s t" "findings_in_step s t"
  shows "books c ws k out t"
proof -
  have r: "rel_option (win_step c) (a_window s) (a_window t)"
    using assms(2) by (simp add: vstep_def)
  have ok: "\<forall>w. a_window t = Some w \<longrightarrow> win_ok c ws w"
    using r assms(1) win_ok_step by (auto simp: books_def rel_option_iff split: option.splits)
  have same: "in_window f t = in_window f s"
    if "\<And>v w. win_step c v w \<Longrightarrow> f w = f v" for f
    using r that by (auto simp: in_window_def rel_option_iff split: option.splits)
  have h: "horizon t = horizon s"
    using r assms(2) by (auto simp: horizon_def vstep_def win_step_def rel_option_iff split: option.splits)
  have "in_window w_classified t = in_window w_classified s"
    "in_window w_truncated t = in_window w_truncated s"
    "in_window w_kernel_dropped t = in_window w_kernel_dropped s"
    by (auto intro!: same simp: win_step_def)
  then show ?thesis
    using assms ok h by (simp add: books_def vstep_def sums_ok_def findings_in_step_def)
qed

text \<open>Nothing in the books depends on what frame is being looked at.\<close>

lemma books_ctx [simp]: "books c ws k out (set_ctx a b fr s) = books c ws k out s"
  by (simp add: books_def horizon_def sums_ok_def in_window_def snap_findings_def beats_ok_def
      set_ctx_def cong: option.case_cong)

lemma books_observed [simp]: "books c ws k out (a_observed_update f s) = books c ws k out s"
  by (simp add: books_def horizon_def sums_ok_def in_window_def snap_findings_def beats_ok_def
      cong: option.case_cong)

section \<open>Opening and closing\<close>

lemma books_start_window:
  assumes "books c ws k out s" "a_window s = None" "win_ok c ws w"
    "w_classified w = 0" "w_truncated w = 0" "w_kernel_dropped w = 0"
    "\<forall>r \<in> set (out @ a_closed s). wr_end r \<le> w_start w"
  shows "books c ws k out (s\<lparr>a_windows_opened := n, a_window := Some w\<rparr>)"
  using assms
  by (auto simp: books_def horizon_def sums_ok_def in_window_def snap_findings_def beats_ok_def)

lemma wpc_open_window:
  assumes b: "books c ws k out s" and none: "a_window s = None" and ws: "c_window_seconds c = Some ws"
    and start: "on_grid ws start" "\<forall>r \<in> set (out @ a_closed s). wr_end r \<le> start"
  shows "wpc (open_window c start)
    (\<lambda>t. books c ws k out t \<and> same_counts c s t \<and>
         (\<exists>w. a_window t = Some w \<and> w_start w = start \<and> w_end w = start + ws)) s"
proof -
  let ?gap = "note_in_window c (mk_finding KIND_CAPTURE_GAP ''capture'' []
      (Capture_started (c_process_epoch c - start)) (c_process_epoch c) DIRECTION_UNKNOWN) []"
  let ?new = "new_win start (start + ws)"
  have new: "win_ok c ws ?new" "win_ok c ws (?gap ?new)"
    using start(1) by (simp_all add: win_ok_new win_ok_note)
  have sel: "w_start ?new = start" "w_end ?new = start + ws" "w_classified ?new = 0"
    "w_truncated ?new = 0" "w_kernel_dropped ?new = 0"
    by (simp_all add: new_win_def)
  show ?thesis
    using books_start_window[OF b none new(1)] books_start_window[OF b none new(2)] start(2)
    by (simp add: open_window_def wpc_simps ws Let_def sel same_counts_def)
qed

lemma books_end_window:
  assumes "books c ws k out s" "a_window s = Some w" "0 < ws"
  shows "books c ws k out (s\<lparr>a_last_closed_end := w_end w, a_closed := a_closed s @ [report_of c s w],
    a_window := None\<rparr>)"
proof -
  have w: "win_ok c ws w" and le: "\<forall>r \<in> set (out @ a_closed s). wr_end r \<le> w_start w"
    using assms(1,2) by (auto simp: books_def horizon_def)
  have sel: "wr_start (report_of c s w) = w_start w" "wr_end (report_of c s w) = w_end w"
    "wr_classified (report_of c s w) = w_classified w" "wr_truncated (report_of c s w) = w_truncated w"
    "wr_kernel_dropped (report_of c s w) = w_kernel_dropped w"
    "wr_finding_count (report_of c s w) = w_finding_count w"
    by (simp_all add: report_of_def)
  have "w_start w \<le> w_end w" using w assms(3) by (simp add: win_ok_def)
  then have "\<forall>r \<in> set (out @ a_closed s). wr_end r \<le> w_end w" using le by fastforce
  moreover have "reports_ordered (out @ a_closed s @ [report_of c s w])"
    using assms(1) le unfolding append_assoc[symmetric]
    by (auto simp: books_def reports_ordered_def sorted_wrt_append sel)
  ultimately show ?thesis
    using assms(1,2) report_of_ok[OF w, of s]
    by (auto simp: books_def horizon_def sums_ok_def in_window_def snap_findings_def beats_ok_def sel)
qed

lemma vstep_openD: "vstep c s t \<Longrightarrow> a_window s = Some w \<Longrightarrow> \<exists>v. a_window t = Some v \<and> win_step c w v"
  by (auto simp: vstep_def option_rel_Some1)

lemma wpc_sweep_in:
  assumes "books c ws k out s" "a_window s \<noteq> None"
  shows "wpc (sweep_in c True until)
    (\<lambda>t. books c ws k out t \<and> same_counts c s t \<and> vstep c s t) s"
proof -
  have v: "vstep c s (fst (sweep_in c True until s))" by (rule sweep_in_vstep) simp
  moreover have "snd (sweep_in c True until s)"
    using books_beats[OF assms(1)] by (simp add: sweep_in_safe)
  ultimately show ?thesis
    using books_vstep[OF assms(1) v sweep_in_findings[OF assms(2)]]
    by (simp add: wpc_def same_counts_vstep)
qed

lemma wpc_close_window:
  assumes b: "books c ws k out s" and w: "a_window s = Some w" and ws: "0 < ws"
  shows "wpc (close_window c until)
    (\<lambda>t. books c ws k out t \<and> same_counts c s t \<and> a_window t = None \<and> a_last_closed_end t = w_end w) s"
proof -
  have fin: "wpc (getc (\<lambda>s. readc (a_window s) (\<lambda>w. modc (\<lambda>s.
           s\<lparr>a_last_closed_end := w_end w, a_closed := a_closed s @ [report_of c s w],
             a_window := None\<rparr>))))
      (\<lambda>t. books c ws k out t \<and> same_counts c s t \<and> a_window t = None \<and> a_last_closed_end t = w_end w) t"
    if step: "books c ws k out t \<and> same_counts c s t \<and> vstep c s t" for t
  proof -
    obtain v where v: "a_window t = Some v" "w_end v = w_end w"
      using step vstep_openD[OF _ w] by (auto simp: win_step_def)
    then show ?thesis
      using books_end_window[of c ws k out t v] step ws
      by (simp add: wpc_simps same_counts_def)
  qed
  have "wpc (seqc (sweep_in c True (case until of None \<Rightarrow> w_end w | Some u \<Rightarrow> min u (w_end w)))
      (getc (\<lambda>s. readc (a_window s) (\<lambda>w. modc (\<lambda>s.
           s\<lparr>a_last_closed_end := w_end w, a_closed := a_closed s @ [report_of c s w],
             a_window := None\<rparr>)))))
      (\<lambda>t. books c ws k out t \<and> same_counts c s t \<and> a_window t = None \<and> a_last_closed_end t = w_end w) s"
    unfolding wpc_simps(3) by (rule wpc_mono[OF wpc_sweep_in[OF b] fin]) (simp_all add: w)
  then show ?thesis
    by (simp add: close_window_def wpc_simps(4,5) w)
qed

section \<open>Advancing\<close>

text \<open>What every move to a later window leaves: books in order and a window open.\<close>

definition moved :: "acct_cfg \<Rightarrow> real \<Rightarrow> nat \<Rightarrow> window_report list \<Rightarrow> acct \<Rightarrow> acct \<Rightarrow> bool" where
  "moved c ws k out s t \<longleftrightarrow> books c ws k out t \<and> same_counts c s t \<and> a_window t \<noteq> None"

definition window_at :: "real \<Rightarrow> acct \<Rightarrow> bool" where
  "window_at start t \<longleftrightarrow> (\<exists>v. a_window t = Some v \<and> w_start v = start)"

lemma books_win: "books c ws k out s \<Longrightarrow> a_window s = Some w \<Longrightarrow> win_ok c ws w"
  by (simp add: books_def)

lemma books_last: "books c ws k out t \<Longrightarrow> a_window t = None \<Longrightarrow>
    r \<in> set (out @ a_closed t) \<Longrightarrow> wr_end r \<le> a_last_closed_end t"
  by (auto simp: books_def horizon_def)

lemma wpc_close_open:
  assumes b: "books c ws k out s" and w: "a_window s = Some w" and c: "c_window_seconds c = Some ws" "0 < ws"
    and start: "on_grid ws start" "w_end w \<le> start"
  shows "wpc (close_window c until) (wpc (open_window c start)
    (\<lambda>t. books c ws k out t \<and> same_counts c s t \<and>
         (\<exists>v. a_window t = Some v \<and> w_start v = start \<and> w_end v = start + ws))) s"
proof (rule wpc_mono[OF wpc_close_window[OF b w c(2)]])
  fix t assume t: "books c ws k out t \<and> same_counts c s t \<and> a_window t = None \<and> a_last_closed_end t = w_end w"
  then have "\<forall>r \<in> set (out @ a_closed t). wr_end r \<le> start"
    using books_last[of c ws k out t] start(2) by fastforce
  then have "wpc (open_window c start) (\<lambda>u. books c ws k out u \<and> same_counts c t u \<and>
      (\<exists>v. a_window u = Some v \<and> w_start v = start \<and> w_end v = start + ws)) t"
    using t c(1) start(1) by (intro wpc_open_window) auto
  then show "wpc (open_window c start) (\<lambda>u. books c ws k out u \<and> same_counts c s u \<and>
      (\<exists>v. a_window u = Some v \<and> w_start v = start \<and> w_end v = start + ws)) t"
    by (rule wpc_mono) (use t same_counts_trans in blast)
qed

lemma advance_loop_stops: "a_window s = Some w \<Longrightarrow> start < w_end w \<Longrightarrow> advance_loop c (Suc n) start s = (s, True)"
  by (simp add: getc_def skipc_def)

lemma wpc_advance_loop:
  assumes "books c ws k out s" "a_window s = Some w" "c_window_seconds c = Some ws" "0 < ws"
    "start < w_end w + real n * ws" "w_start w \<le> start" "on_grid ws start"
  shows "wpc (advance_loop c (Suc n) start) (\<lambda>t. moved c ws k out s t \<and> window_at start t) s"
  using assms
proof (induction n arbitrary: s w)
  case 0
  then have ok: "win_ok c ws w" by (simp add: books_win)
  have "w_start w = start"
    using 0 ok on_grid_le[of ws "w_start w" start] by (force simp: win_ok_def)
  with 0 show ?case
    using advance_loop_stops[of s w start c 0]
    by (simp add: wpc_def moved_def window_at_def del: advance_loop.simps)
next
  case (Suc n)
  then have ok: "win_ok c ws w" by (simp add: books_win)
  show ?case
  proof (cases "start < w_end w")
    case True
    moreover have "w_start w = start"
      using Suc.prems True ok on_grid_le[of ws "w_start w" start] by (force simp: win_ok_def)
    ultimately show ?thesis
      using advance_loop_stops[of s w start c "Suc n"] Suc.prems
      by (simp add: wpc_def moved_def window_at_def del: advance_loop.simps)
  next
    case False
    let ?Q = "\<lambda>t. moved c ws k out s t \<and> window_at start t"
    have grid: "on_grid ws (w_end w)" using ok on_grid_add by (simp add: win_ok_def)
    have rest: "wpc (advance_loop c (Suc n) start) ?Q t"
      if t: "books c ws k out t \<and> same_counts c s t \<and>
          (\<exists>v. a_window t = Some v \<and> w_start v = w_end w \<and> w_end v = w_end w + ws)" for t
    proof -
      obtain v where v: "a_window t = Some v" "w_start v = w_end w" "w_end v = w_end w + ws"
        using t by blast
      have "start < w_end v + real n * ws"
        using Suc.prems(5) v(3) by (simp add: distrib_right)
      then have "wpc (advance_loop c (Suc n) start) (\<lambda>u. moved c ws k out t u \<and> window_at start u) t"
        using t v Suc.prems(3,4,7) False by (intro Suc.IH) auto
      then show ?thesis
        by (rule wpc_mono) (use t same_counts_trans in \<open>auto simp: moved_def\<close>)
    qed
    have "wpc (close_window c None)
      (\<lambda>t. a_window t = None \<and> a_last_closed_end t = w_end w \<and>
           wpc (open_window c (w_end w)) (wpc (advance_loop c (Suc n) start) ?Q) t) s"
    proof -
      have "wpc (close_window c None) (wpc (open_window c (w_end w)) (wpc (advance_loop c (Suc n) start) ?Q)) s"
        using wpc_close_open[OF Suc.prems(1-4) grid, of None] rest
        by (auto elim!: wpc_mono)
      with wpc_close_window[OF Suc.prems(1,2,4), of None] show ?thesis
        by (auto simp: wpc_def)
    qed
    then have "wpc (close_window c None) (wpc (getc (\<lambda>s. open_window c
        (case a_window s of None \<Rightarrow> a_last_closed_end s | Some _ \<Rightarrow> start)))
        (wpc (advance_loop c (Suc n) start) ?Q)) s"
      by (rule wpc_mono) (auto simp: wpc_simps(5))
    with False Suc.prems(2) show ?thesis
      by (subst advance_loop.simps(2)) (simp add: wpc_seqc wpc_simps(5,6) del: advance_loop.simps)
  qed
qed

lemma wpc_advance_to:
  assumes b: "books c ws k out s" and w: "a_window s = Some w" and c: "c_window_seconds c = Some ws" "0 < ws"
    and start: "on_grid ws start" "w_end w \<le> start"
  shows "wpc (advance_to c start) (\<lambda>t. moved c ws k out s t \<and> window_at start t) s"
proof (cases "start - w_end w > 2 * ws")
  case True
  have "wpc (close_window c None) (wpc (open_window c start) (\<lambda>t. moved c ws k out s t \<and> window_at start t)) s"
    using wpc_close_open[OF b w c start, of None]
    by (rule wpc_mono) (auto simp: moved_def window_at_def elim!: wpc_mono)
  with True w c show ?thesis
    by (simp add: advance_to_def wpc_simps(4,5) wpc_seqc)
next
  case False
  have "w_start w \<le> start" using books_win[OF b w] c(2) start(2) by (simp add: win_ok_def)
  moreover have "start < w_end w + real 3 * ws" using False c(2) by (simp add: algebra_simps)
  ultimately have "wpc (advance_loop c (Suc 3) start) (\<lambda>t. moved c ws k out s t \<and> window_at start t) s"
    using b w c start(1) by (intro wpc_advance_loop)
  then have "wpc (advance_loop c ADVANCE_FUEL start) (\<lambda>t. moved c ws k out s t \<and> window_at start t) s"
    by (simp add: ADVANCE_FUEL_def eval_nat_numeral del: advance_loop.simps)
  with False w c show ?thesis
    by (simp add: advance_to_def wpc_simps(4,5) del: advance_loop.simps)
qed

definition ready :: "window_report list \<Rightarrow> acct \<Rightarrow> bool" where
  "ready out s \<longleftrightarrow> (a_window s = None \<longrightarrow> out @ a_closed s = [])"

text \<open>The window a time stamp is counted in: its own, or the open one when that is later.\<close>

definition landing :: "real \<Rightarrow> real \<Rightarrow> acct \<Rightarrow> real" where
  "landing ws ts s = (case a_window s of None \<Rightarrow> window_start_for ts ws
                      | Some w \<Rightarrow> max (window_start_for ts ws) (w_start w))"

lemma wpc_window_for:
  assumes b: "books c ws k out s" and r: "ready out s" and c: "c_window_seconds c = Some ws" "0 < ws"
  shows "wpc (window_for c ts) (\<lambda>t. moved c ws k out s t \<and> window_at (landing ws ts s) t) s"
proof (cases "a_window s")
  case None
  have "wpc (open_window c (window_start_for ts ws)) (\<lambda>t. books c ws k out t \<and> same_counts c s t \<and>
      (\<exists>w. a_window t = Some w \<and> w_start w = window_start_for ts ws \<and> w_end w = window_start_for ts ws + ws)) s"
    using r None by (intro wpc_open_window[OF b None c(1) on_grid_window_start]) (simp add: ready_def)
  then have "wpc (open_window c (window_start_for ts ws))
      (\<lambda>t. moved c ws k out s t \<and> window_at (landing ws ts s) t) s"
    by (rule wpc_mono) (auto simp: moved_def window_at_def landing_def None)
  then show ?thesis
    by (simp add: window_for_def c Let_def wpc_simps(5) None)
next
  case (Some w)
  have ok: "win_ok c ws w" by (rule books_win[OF b Some])
  show ?thesis
  proof (cases "window_start_for ts ws \<ge> w_end w")
    case True
    have "landing ws ts s = window_start_for ts ws"
      using True ok c(2) by (simp add: landing_def Some win_ok_def)
    then show ?thesis
      using wpc_advance_to[OF b Some c on_grid_window_start True] True
      by (simp add: window_for_def c Let_def wpc_simps(5,6) Some)
  next
    case False
    have "window_start_for ts ws \<le> w_start w"
    proof (rule ccontr)
      assume "\<not> ?thesis"
      then show False
        using False ok on_grid_le[OF c(2) _ on_grid_window_start, of "w_start w" ts]
        by (simp add: win_ok_def)
    qed
    then show ?thesis
      using False b
      by (simp add: window_for_def c Let_def wpc_simps(1,5,6) Some moved_def window_at_def landing_def)
  qed
qed

section \<open>Rolling and finishing\<close>

lemma books_take:
  "books c ws k (out @ fst (take_closed s)) (snd (take_closed s)) = books c ws k out s"
  "ready (out @ fst (take_closed s)) (snd (take_closed s)) = ready out s"
  by (simp_all add: take_closed_def books_def horizon_def sums_ok_def in_window_def snap_findings_def
      beats_ok_def ready_def cong: option.case_cong)

lemma returning_closed_books:
  assumes "wpc m (\<lambda>t. books c ws k out t \<and> same_counts c s t) s"
  shows "\<exists>rs t. returning_closed m s = (Some rs, t) \<and> books c ws k (out @ rs) t \<and> same_counts c s t \<and>
           a_closed t = [] \<and> a_window t = a_window (fst (m s))"
  using assms books_take(1)[of c ws k out "fst (m s)"]
  by (auto simp: wpc_def returning_closed_def take_closed_def same_counts_def Let_def)

lemma roll_books:
  assumes b: "books c ws k out s" and r: "ready out s" and c: "c_window_seconds c = Some ws" "0 < ws"
  shows "\<exists>rs t. roll c now s = (Some rs, t) \<and> books c ws k (out @ rs) t \<and> same_counts c s t \<and>
           a_closed t = [] \<and> a_window t \<noteq> None"
proof -
  let ?m = "seqc (getc (\<lambda>s. case a_window s of
                     None \<Rightarrow> open_window c (window_start_for now ws)
                   | Some w \<Rightarrow> whenc (now \<ge> w_end w + c_window_grace c)
                       (advance_to c (window_start_for (now - c_window_grace c) ws))))
               (sweep_in c True now)"
  have first: "wpc (getc (\<lambda>s. case a_window s of
                     None \<Rightarrow> open_window c (window_start_for now ws)
                   | Some w \<Rightarrow> whenc (now \<ge> w_end w + c_window_grace c)
                       (advance_to c (window_start_for (now - c_window_grace c) ws))))
      (\<lambda>t. moved c ws k out s t) s"
  proof (cases "a_window s")
    case None
    have "wpc (open_window c (window_start_for now ws)) (\<lambda>t. books c ws k out t \<and> same_counts c s t \<and>
        (\<exists>w. a_window t = Some w \<and> w_start w = window_start_for now ws \<and> w_end w = window_start_for now ws + ws)) s"
      using r None by (intro wpc_open_window[OF b None c(1) on_grid_window_start]) (simp add: ready_def)
    then have "wpc (open_window c (window_start_for now ws)) (moved c ws k out s) s"
      by (rule wpc_mono) (auto simp: moved_def)
    with None show ?thesis by (simp add: wpc_simps(5))
  next
    case (Some w)
    have ok: "win_ok c ws w" by (rule books_win[OF b Some])
    have "wpc (advance_to c (window_start_for (now - c_window_grace c) ws)) (moved c ws k out s) s"
      if "now \<ge> w_end w + c_window_grace c"
    proof -
      obtain j :: int where j: "w_end w = of_int j * ws"
        using ok on_grid_add[of ws "w_start w"] by (auto simp: win_ok_def on_grid_def)
      have "w_end w \<le> window_start_for (now - c_window_grace c) ws"
        using window_start_for_aligned[OF c(2), of j "now - c_window_grace c"] that j by simp
      from wpc_advance_to[OF b Some c on_grid_window_start this] show ?thesis
        by (rule wpc_mono) simp
    qed
    moreover have "moved c ws k out s s" using Some b by (simp add: moved_def)
    ultimately show ?thesis using Some by (simp add: wpc_simps(1,5,6))
  qed
  have "wpc ?m (\<lambda>t. moved c ws k out s t) s"
    unfolding wpc_seqc
  proof (rule wpc_mono[OF first])
    fix t assume t: "moved c ws k out s t"
    then have "wpc (sweep_in c True now) (\<lambda>u. books c ws k out u \<and> same_counts c t u \<and> vstep c t u) t"
      by (intro wpc_sweep_in) (simp_all add: moved_def)
    then show "wpc (sweep_in c True now) (moved c ws k out s) t"
    proof (rule wpc_mono)
      fix u assume u: "books c ws k out u \<and> same_counts c t u \<and> vstep c t u"
      moreover have "a_window u \<noteq> None" using u t vstep_window[of c t u] by (simp add: moved_def)
      ultimately show "moved c ws k out s u" using t same_counts_trans by (auto simp: moved_def)
    qed
  qed
  then have m: "wpc ?m (\<lambda>t. books c ws k out t \<and> same_counts c s t) s" "a_window (fst (?m s)) \<noteq> None"
    by (simp_all add: wpc_def moved_def)
  obtain rs t where rt: "returning_closed ?m s = (Some rs, t)" "books c ws k (out @ rs) t"
    "same_counts c s t" "a_closed t = []" "a_window t = a_window (fst (?m s))"
    using returning_closed_books[OF m(1)] by blast
  have "roll c now s = returning_closed ?m s"
    by (simp add: roll_def c)
  with rt m(2) show ?thesis by auto
qed

lemma books_note_window:
  assumes "books c ws k out s"
  shows "books c ws k out (s\<lparr>a_window := map_option (note_in_window c f fr) (a_window s)\<rparr>)"
proof (cases "a_window s")
  case None
  then have "s\<lparr>a_window := map_option (note_in_window c f fr) (a_window s)\<rparr> = s" by simp
  with assms show ?thesis by (simp only:)
next
  case (Some w)
  then show ?thesis
    using assms win_ok_note[OF books_win[OF assms Some]]
    by (auto simp: books_def horizon_def sums_ok_def in_window_def snap_findings_def beats_ok_def)
qed

lemma finish_books:
  assumes b: "books c ws k out s" and w: "a_window s = Some w" and ws: "0 < ws"
  shows "\<exists>rs t. finish c now s = (Some rs, t) \<and> books c ws k (out @ rs) t \<and> same_counts c s t \<and>
           a_closed t = [] \<and> a_window t = None"
proof -
  let ?gap = "\<lambda>s. if now < w_end w
      then s\<lparr>a_window := map_option (note_in_window c (mk_finding KIND_CAPTURE_GAP ''capture'' []
             (Capture_stopped (w_end w - now)) now DIRECTION_UNKNOWN) []) (a_window s)\<rparr> else s"
  let ?m = "seqc (modc ?gap) (close_window c (Some now))"
  have g: "books c ws k out (?gap s)" "same_counts c s (?gap s)"
    using b books_note_window[OF b] by (simp_all add: same_counts_def)
  obtain v where v: "a_window (?gap s) = Some v"
    using w by (cases "now < w_end w") auto
  have "wpc (close_window c (Some now))
      (\<lambda>t. books c ws k out t \<and> same_counts c (?gap s) t \<and> a_window t = None \<and> a_last_closed_end t = w_end v) (?gap s)"
    by (rule wpc_close_window[OF g(1) v ws])
  then have "wpc ?m (\<lambda>t. books c ws k out t \<and> same_counts c s t \<and> a_window t = None) s"
    unfolding wpc_seqc wpc_simps(2)
    by (rule wpc_mono) (use g(2) same_counts_trans in blast)
  then have m: "wpc ?m (\<lambda>t. books c ws k out t \<and> same_counts c s t) s" "a_window (fst (?m s)) = None"
    by (simp_all add: wpc_def)
  obtain rs t where rt: "returning_closed ?m s = (Some rs, t)" "books c ws k (out @ rs) t"
    "same_counts c s t" "a_closed t = []" "a_window t = a_window (fst (?m s))"
    using returning_closed_books[OF m(1)] by blast
  have "finish c now s = returning_closed ?m s"
    by (simp add: finish_def returning_closed_def getc_def w)
  with rt m(2) show ?thesis by auto
qed

end
