(* ===== verification/Accountant_Run.thy ===== *)
theory Accountant_Run
  imports Accountant_Windows
begin

text \<open>
  The accountant as it is driven by \<^verbatim>\<open>frame-processor/app/live_pipeline.py\<close>: frames observed,
  truncated frames noted, kernel drops added, the wall clock rolled, in any order. Each operation is
  shown to keep the books of \<open>Accountant_Windows\<close>, and a run of them from a new accountant does.
\<close>

section \<open>Observing\<close>

lemma observe_core:
  assumes w: "wpc (window_for c ts) P (s\<lparr>a_observed := a_observed s + 1\<rparr>)"
    and safe: "\<And>t. P t \<Longrightarrow> beats_ok t"
  obtains t u where "P t"
    and "observe c d ts dir s = (u\<lparr>ctx_frame := [], ctx_window := False\<rparr>, Some (cname (class_of d)))"
    and "vstep c (count_frame (cname (class_of d)) (length d) (resolve_direction c d dir)
           (set_ctx (a_window t \<noteq> None)
             (case resolve_direction c d dir of Some x \<Rightarrow> x | None \<Rightarrow> DIRECTION_UNKNOWN) d t)) u"
proof -
  let ?dir = "resolve_direction c d dir"
  let ?t = "fst (window_for c ts (s\<lparr>a_observed := a_observed s + 1\<rparr>))"
  let ?s1 = "set_ctx (a_window ?t \<noteq> None) (case ?dir of Some x \<Rightarrow> x | None \<Rightarrow> DIRECTION_UNKNOWN) d ?t"
  let ?s2 = "count_frame (cname (class_of d)) (length d) ?dir ?s1"
  let ?v = "validate c d (class_of d) ts ?dir ?s2"
  have p: "P ?t" "snd (window_for c ts (s\<lparr>a_observed := a_observed s + 1\<rparr>))"
    using w by (simp_all add: wpc_def)
  have "beats_ok ?s2"
    using safe[OF p(1)] by (auto simp: beats_ok_def count_frame_def on_ctx_window_def set_ctx_def)
  then have "snd ?v" by (rule validate_safe)
  then have "observe_body c d ts ?dir ?s1 = (fst ?v, cname (class_of d))"
    by (simp add: observe_body_def classify_class_of tryc_def Let_def)
  then have o: "observe c d ts dir s
      = ((fst ?v)\<lparr>ctx_frame := [], ctx_window := False\<rparr>, Some (cname (class_of d)))"
    using p(2) by (simp add: observe_def Let_def)
  show thesis
    by (rule that[OF p(1) o validate_vstep])
qed

lemma count_frame_same:
  "a_observed (count_frame name sz dir s) = a_observed s"
  "a_classified (count_frame name sz dir s) = Suc (a_classified s)"
  "a_classes (count_frame name sz dir s) = count_class name sz dir (a_classes s)"
  "a_errors (count_frame name sz dir s) = a_errors s"
  "a_truncated (count_frame name sz dir s) = a_truncated s"
  "a_kernel_dropped (count_frame name sz dir s) = a_kernel_dropped s"
  "ctx_window (count_frame name sz dir s) = ctx_window s"
  by (simp_all add: count_frame_def on_ctx_window_def)

lemma books_count_frame:
  assumes b: "books c ws k out s" and w: "a_window s = Some w" and ctx: "ctx_window s"
  shows "books c ws k out (count_frame name sz dir s)"
proof -
  let ?w = "w\<lparr>w_classes := count_class name sz dir (w_classes w), w_observed := w_observed w + 1,
              w_classified := w_classified w + 1\<rparr>"
  have "win_ok c ws ?w"
    using books_win[OF b w] totals_ok_count by (simp add: win_ok_def win_store_def)
  with b w ctx totals_ok_count[of "a_classified s" "a_classes s"] show ?thesis
    by (auto simp: books_def horizon_def sums_ok_def in_window_def snap_findings_def beats_ok_def
        count_frame_def on_ctx_window_def)
qed

lemma books_reset [simp]:
  "books c ws k out (s\<lparr>ctx_frame := fr\<rparr>) = books c ws k out s"
  "books c ws k out (s\<lparr>ctx_window := b\<rparr>) = books c ws k out s"
  by (simp_all add: books_def horizon_def sums_ok_def in_window_def snap_findings_def beats_ok_def
      cong: option.case_cong)

text \<open>What one observed frame does to the counters.\<close>

definition counted :: "acct_cfg \<Rightarrow> string \<Rightarrow> nat \<Rightarrow> direction option \<Rightarrow> acct \<Rightarrow> acct \<Rightarrow> bool" where
  "counted c name sz dir s t \<longleftrightarrow>
     a_observed t = a_observed s + 1 \<and> a_classified t = a_classified s + 1 \<and>
     a_classes t = count_class name sz dir (a_classes s) \<and>
     a_truncated t = a_truncated s \<and> a_kernel_dropped t = a_kernel_dropped s \<and>
     (quiet c \<longrightarrow> a_errors t = a_errors s)"

lemma counted_step:
  assumes "same_counts c (s\<lparr>a_observed := a_observed s + 1\<rparr>) t"
    "vstep c (count_frame name sz dir (set_ctx b x d t)) u"
  shows "counted c name sz dir s (u\<lparr>ctx_frame := [], ctx_window := False\<rparr>)"
  using assms
  by (simp add: counted_def vstep_def same_counts_def count_frame_def on_ctx_window_def set_ctx_def
      split: if_splits)

lemma observe_books:
  assumes b: "books c ws k out s" and r: "ready out s" and c: "c_window_seconds c = Some ws" "0 < ws"
  shows "\<exists>t. observe c d ts dir s = (t, Some (cname (class_of d))) \<and> books c ws k out t \<and>
     window_at (landing ws ts s) t \<and>
     counted c (cname (class_of d)) (length d) (resolve_direction c d dir) s t"
proof -
  let ?s0 = "s\<lparr>a_observed := a_observed s + 1\<rparr>"
  have r0: "ready out ?s0" using r by (simp add: ready_def)
  have "wpc (window_for c ts) (\<lambda>t. moved c ws k out ?s0 t \<and> window_at (landing ws ts ?s0) t) ?s0"
    using b by (intro wpc_window_for[OF _ r0 c]) simp
  then obtain t u where t: "moved c ws k out ?s0 t" "window_at (landing ws ts ?s0) t"
    and o: "observe c d ts dir s = (u\<lparr>ctx_frame := [], ctx_window := False\<rparr>, Some (cname (class_of d)))"
    and v: "vstep c (count_frame (cname (class_of d)) (length d) (resolve_direction c d dir)
           (set_ctx (a_window t \<noteq> None)
             (case resolve_direction c d dir of Some x \<Rightarrow> x | None \<Rightarrow> DIRECTION_UNKNOWN) d t)) u"
    by (rule observe_core) (auto simp: moved_def dest: books_beats)
  let ?s1 = "set_ctx (a_window t \<noteq> None)
      (case resolve_direction c d dir of Some x \<Rightarrow> x | None \<Rightarrow> DIRECTION_UNKNOWN) d t"
  let ?s2 = "count_frame (cname (class_of d)) (length d) (resolve_direction c d dir) ?s1"
  obtain w where w: "a_window t = Some w" "w_start w = landing ws ts ?s0"
    using t(2) by (auto simp: window_at_def)
  have s2: "books c ws k out ?s2"
  proof (rule books_count_frame)
    show "books c ws k out ?s1" using t(1) by (simp add: moved_def)
    show "a_window ?s1 = Some w" "ctx_window ?s1" using w(1) by (simp_all add: set_ctx_def)
  qed
  have ctx: "ctx_window ?s2" "a_window ?s2 \<noteq> None"
    using w(1) by (simp_all add: count_frame_def on_ctx_window_def set_ctx_def)
  have u: "books c ws k out u"
    using books_vstep[OF s2 v] v ctx by (simp add: vstep_def)
  obtain w2 where w2: "a_window ?s2 = Some w2" "w_start w2 = w_start w"
    using w(1) by (simp add: count_frame_def on_ctx_window_def set_ctx_def)
  then have "window_at (landing ws ts s) u"
    using vstep_openD[OF v w2(1)] w(2) by (auto simp: window_at_def win_step_def landing_def)
  then have at: "window_at (landing ws ts s) (u\<lparr>ctx_frame := [], ctx_window := False\<rparr>)"
    by (simp add: window_at_def)
  show ?thesis
    using o u at counted_step[OF _ v] t(1) by (simp add: moved_def)
qed

lemma window_for_unwindowed: "c_window_seconds c = None \<Longrightarrow> wpc (window_for c ts) (\<lambda>t. t = s) s"
  by (simp add: window_for_def wpc_simps)

lemma observe_unwindowed:
  assumes "c_window_seconds c = None" "beats_ok s" "a_window s = None"
  shows "\<exists>t. observe c d ts dir s = (t, Some (cname (class_of d))) \<and> beats_ok t \<and> a_window t = None \<and>
     counted c (cname (class_of d)) (length d) (resolve_direction c d dir) s t"
proof -
  let ?s0 = "s\<lparr>a_observed := a_observed s + 1\<rparr>"
  have ok: "beats_ok ?s0" using assms(2) by (simp add: beats_ok_def)
  obtain t u where t: "t = ?s0"
    and o: "observe c d ts dir s = (u\<lparr>ctx_frame := [], ctx_window := False\<rparr>, Some (cname (class_of d)))"
    and v: "vstep c (count_frame (cname (class_of d)) (length d) (resolve_direction c d dir)
           (set_ctx (a_window t \<noteq> None)
             (case resolve_direction c d dir of Some x \<Rightarrow> x | None \<Rightarrow> DIRECTION_UNKNOWN) d t)) u"
    by (rule observe_core[OF window_for_unwindowed[OF assms(1)], where d = d and dir = dir and ts = ts])
       (use ok in auto)
  have "beats_ok u" "a_window u = None"
    using v assms ok unfolding t
    by (auto simp: vstep_def beats_ok_def count_frame_def on_ctx_window_def set_ctx_def)
  then show ?thesis
    using o counted_step[OF _ v] t by (simp add: beats_ok_def)
qed

section \<open>Truncated frames and kernel drops\<close>

lemma vstep_same: "vstep c s t \<Longrightarrow> a_truncated t = a_truncated s \<and> a_observed t = a_observed s \<and>
    a_classified t = a_classified s \<and> a_kernel_dropped t = a_kernel_dropped s"
  by (simp add: vstep_def)

text \<open>The state just before the finding of a truncated frame is noted.\<close>

definition truncated_counted :: "nat \<Rightarrow> acct \<Rightarrow> acct" where
  "truncated_counted sz s =
     count_frame CLASS_TRUNCATED sz None
       (on_ctx_window (\<lambda>w. w\<lparr>w_truncated := w_truncated w + 1\<rparr>)
         (set_ctx (a_window s \<noteq> None) DIRECTION_UNKNOWN [] s))"

lemma books_truncated_counted:
  assumes b: "books c ws (Suc k) out t" and w: "a_window t = Some w"
  shows "books c ws k out (truncated_counted sz t)"
proof -
  let ?v = "w\<lparr>w_truncated := w_truncated w + 1\<rparr>"
  let ?t = "t\<lparr>ctx_window := True, ctx_direction := DIRECTION_UNKNOWN, ctx_frame := [],
              a_window := Some ?v\<rparr>"
  have "win_ok c ws ?v" using books_win[OF b w] by (simp add: win_ok_def win_store_def)
  then have "books c ws k out ?t"
    using b w by (auto simp: books_def horizon_def sums_ok_def in_window_def snap_findings_def beats_ok_def)
  then have "books c ws k out (count_frame CLASS_TRUNCATED sz None ?t)"
    by (rule books_count_frame) simp_all
  also have "count_frame CLASS_TRUNCATED sz None ?t = truncated_counted sz t"
    using w by (simp add: truncated_counted_def count_frame_def on_ctx_window_def set_ctx_def)
  finally show ?thesis .
qed

lemma note_truncated_books:
  assumes b: "books c ws 0 out s" and r: "ready out s" and c: "c_window_seconds c = Some ws" "0 < ws"
  shows "wpc (note_truncated c n sz ts) (\<lambda>t. books c ws 0 out t \<and> a_window t \<noteq> None \<and>
     a_observed t = a_observed s + 1 \<and> a_classified t = a_classified s + 1 \<and>
     a_truncated t = a_truncated s + 1 \<and> a_kernel_dropped t = a_kernel_dropped s \<and>
     a_classes t = count_class CLASS_TRUNCATED sz None (a_classes s)) s"
proof -
  let ?s0 = "s\<lparr>a_observed := a_observed s + 1, a_truncated := a_truncated s + 1\<rparr>"
  let ?note = "\<lambda>t. note_finding c (mk_finding ''truncated'' CLASS_TRUNCATED []
      (Ring_truncated n sz) ts DIRECTION_UNKNOWN) (truncated_counted sz t)"
  have b0: "books c ws 1 out ?s0"
    using b by (auto simp: books_def horizon_def sums_ok_def in_window_def snap_findings_def
        beats_ok_def cong: option.case_cong)
  have r0: "ready out ?s0" using r by (simp add: ready_def)
  have fin: "books c ws 0 out ((?note t)\<lparr>ctx_window := False\<rparr>) \<and> a_window (?note t) \<noteq> None \<and>
      a_observed (?note t) = a_observed s + 1 \<and> a_classified (?note t) = a_classified s + 1 \<and>
      a_truncated (?note t) = a_truncated s + 1 \<and> a_kernel_dropped (?note t) = a_kernel_dropped s \<and>
      a_classes (?note t) = count_class CLASS_TRUNCATED sz None (a_classes s)"
    if t: "moved c ws 1 out ?s0 t" for t
  proof -
    obtain w where w: "a_window t = Some w" using t by (auto simp: moved_def)
    have b1: "books c ws 0 out (truncated_counted sz t)"
      using books_truncated_counted[of c ws 0 out t w] t w by (simp add: moved_def)
    have ctx: "ctx_window (truncated_counted sz t)" "a_window (truncated_counted sz t) \<noteq> None"
      using w by (simp_all add: truncated_counted_def count_frame_def on_ctx_window_def set_ctx_def)
    have v: "vstep c (truncated_counted sz t) (?note t)" by (rule vstep_note)
    have "books c ws 0 out (?note t)"
      by (rule books_vstep[OF b1 v findings_in_step_note[OF ctx]])
    moreover have "a_window (?note t) \<noteq> None" using vstep_window[OF v] ctx by simp
    moreover have "a_observed (truncated_counted sz t) = a_observed s + 1"
      "a_classified (truncated_counted sz t) = a_classified s + 1"
      "a_truncated (truncated_counted sz t) = a_truncated s + 1"
      "a_kernel_dropped (truncated_counted sz t) = a_kernel_dropped s"
      "a_classes (truncated_counted sz t) = count_class CLASS_TRUNCATED sz None (a_classes s)"
      using t by (simp_all add: moved_def same_counts_def truncated_counted_def count_frame_def
          on_ctx_window_def set_ctx_def)
    ultimately show ?thesis using v by (simp add: vstep_def)
  qed
  have "wpc (window_for c ts) (moved c ws 1 out ?s0) ?s0"
    using wpc_window_for[OF b0 r0 c] by (rule wpc_mono) simp
  then show ?thesis
    unfolding note_truncated_def wpc_seqc wpc_simps(2)
    by (rule wpc_mono) (drule fin, simp add: wpc_simps(2) truncated_counted_def)
qed

lemma dropped_books:
  assumes b: "books c ws k out s"
  shows "books c ws k out (note_kernel_dropped n s)"
proof (cases "a_window s")
  case None
  with b show ?thesis
    by (auto simp: note_kernel_dropped_def books_def horizon_def sums_ok_def in_window_def
        snap_findings_def beats_ok_def)
next
  case (Some w)
  have "win_ok c ws (w\<lparr>w_kernel_dropped := w_kernel_dropped w + m\<rparr>)" for m
    using books_win[OF b Some] by (simp add: win_ok_def win_store_def)
  with b Some show ?thesis
    by (auto simp: note_kernel_dropped_def books_def horizon_def sums_ok_def in_window_def
        snap_findings_def beats_ok_def)
qed

section \<open>A new accountant\<close>

definition positive_beats :: "acct_cfg \<Rightarrow> bool" where
  "positive_beats c \<longleftrightarrow>
     (case c_policy c of None \<Rightarrow> True | Some p \<Rightarrow> \<forall>ki \<in> set (declared_beats p). 0 < snd ki)"

lemma arm_beats_interval:
  assumes "\<forall>ki \<in> set ds. 0 < snd ki" "\<forall>kb \<in> set bs. b_interval (snd kb) > 0"
  shows "\<forall>kb \<in> set (fold (\<lambda>(key, interval) bs.
    if beat_carried c p key then dset key (new_beat c tol key interval) bs else bs) ds bs).
      b_interval (snd kb) > 0"
  using assms
proof (induction ds arbitrary: bs)
  case (Cons ki ds)
  obtain key interval where ki: "ki = (key, interval)" by (cases ki)
  have "b_interval (new_beat c tol key interval) = interval"
    by (simp add: new_beat_def case_prod_beta)
  then have "\<forall>kb \<in> set (dset key (new_beat c tol key interval) bs). b_interval (snd kb) > 0"
    using Cons.prems ki set_dset_subset[of key "new_beat c tol key interval" bs] by auto
  with Cons show ?case by (simp add: ki)
qed simp

lemma new_accountant_beats: "positive_beats c \<Longrightarrow> beats_ok (new_accountant c)"
proof (cases "c_policy c")
  case (Some p)
  assume "positive_beats c"
  then have "\<forall>ki \<in> set (declared_beats p). 0 < snd ki" by (simp add: positive_beats_def Some)
  from arm_beats_interval[OF this, of "[]"] show ?thesis
    by (simp add: beats_ok_def new_accountant_def arm_beats_def Some)
qed (simp add: beats_ok_def new_accountant_def arm_beats_def)

lemma new_accountant_books:
  assumes "positive_beats c"
  shows "books c ws 0 [] (new_accountant c)" "ready [] (new_accountant c)"
  using new_accountant_beats[OF assms]
  by (simp_all add: books_def ready_def sums_ok_def in_window_def snap_findings_def horizon_def
      reports_ordered_def new_accountant_def)

text \<open>Cadences that \<open>parse_declared_beats\<close> let through are positive.\<close>

lemma parse_declared_beats_pos:
  assumes "parse_declared_beats py_float v = Some bs"
  shows "\<forall>ki \<in> set bs. 0 < snd ki"
proof -
  let ?add = "\<lambda>(key, setting) beats. case py_float setting of None \<Rightarrow> beats
      | Some seconds \<Rightarrow> if seconds \<le> 0 then beats else dset key seconds beats"
  have "\<forall>ki \<in> set (fold ?add ds bs). 0 < snd ki" if "\<forall>ki \<in> set bs. 0 < snd ki" for ds bs
    using that
  proof (induction ds arbitrary: bs)
    case (Cons d ds)
    have "\<forall>ki \<in> set (?add d bs). 0 < snd ki"
      using Cons.prems by (cases d) (auto split: option.splits dest!: subsetD[OF set_dset_subset])
    then show ?case using Cons.IH by simp
  qed simp
  from this[of "[]"] assms show ?thesis
    by (auto simp: parse_declared_beats_def)
qed

section \<open>Runs\<close>

datatype event =
  Ev_frame bytes real "direction option"
| Ev_truncated nat nat real
| Ev_dropped int
| Ev_roll real

text \<open>One event on the reports handed out so far and the accountant; \<open>None\<close> when it raised.\<close>

fun acct_event ::
  "acct_cfg \<Rightarrow> event \<Rightarrow> window_report list \<times> acct \<Rightarrow> (window_report list \<times> acct) option" where
  "acct_event c (Ev_frame d ts dir) (out, s) =
     (case observe c d ts dir s of (t, Some _) \<Rightarrow> Some (out, t) | (_, None) \<Rightarrow> None)"
| "acct_event c (Ev_truncated n sz ts) (out, s) =
     (let r = note_truncated c n sz ts s in if snd r then Some (out, fst r) else None)"
| "acct_event c (Ev_dropped n) (out, s) = Some (out, note_kernel_dropped n s)"
| "acct_event c (Ev_roll now) (out, s) =
     (case roll c now s of (Some rs, t) \<Rightarrow> Some (out @ rs, t) | (None, _) \<Rightarrow> None)"

fun acct_run ::
  "acct_cfg \<Rightarrow> event list \<Rightarrow> window_report list \<times> acct \<Rightarrow> (window_report list \<times> acct) option" where
  "acct_run c [] st = Some st"
| "acct_run c (e # es) st = Option.bind (acct_event c e st) (acct_run c es)"

definition account_session ::
  "acct_cfg \<Rightarrow> event list \<Rightarrow> real \<Rightarrow> (window_report list \<times> acct) option" where
  "account_session c evs now =
     Option.bind (acct_run c evs ([], new_accountant c))
       (\<lambda>(out, s). case finish c now s of (Some rs, t) \<Rightarrow> Some (out @ rs, t) | (None, _) \<Rightarrow> None)"

fun frames_of :: "event \<Rightarrow> nat" where
  "frames_of (Ev_frame d ts dir) = 1" | "frames_of (Ev_truncated n sz ts) = 1" | "frames_of _ = 0"

fun truncated_of :: "event \<Rightarrow> nat" where
  "truncated_of (Ev_truncated n sz ts) = 1" | "truncated_of _ = 0"

fun dropped_of :: "event \<Rightarrow> nat" where
  "dropped_of (Ev_dropped n) = nat n" | "dropped_of _ = 0"

definition total_events :: "(event \<Rightarrow> nat) \<Rightarrow> event list \<Rightarrow> nat" where
  "total_events f evs = sum_list (map f evs)"

lemma total_events_simps [simp]:
  "total_events f [] = 0" "total_events f (e # es) = f e + total_events f es"
  "total_events f (es @ fs) = total_events f es + total_events f fs"
  by (simp_all add: total_events_def)

fun opens_window :: "event \<Rightarrow> bool" where
  "opens_window (Ev_dropped n) = False" | "opens_window _ = True"

definition run_inv :: "acct_cfg \<Rightarrow> real \<Rightarrow> nat \<Rightarrow> nat \<Rightarrow> nat \<Rightarrow> window_report list \<times> acct \<Rightarrow> bool" where
  "run_inv c ws n tr dr st \<longleftrightarrow>
     books c ws 0 (fst st) (snd st) \<and> ready (fst st) (snd st) \<and>
     a_observed (snd st) = n \<and> a_classified (snd st) = n \<and> a_truncated (snd st) = tr \<and>
     a_kernel_dropped (snd st) = dr"

lemma ready_open: "a_window t \<noteq> None \<Longrightarrow> ready out t"
  by (auto simp: ready_def)

lemma run_inv_event:
  assumes inv: "run_inv c ws n tr dr (out, s)" and c: "c_window_seconds c = Some ws" "0 < ws"
  shows "\<exists>st. acct_event c e (out, s) = Some st \<and>
    run_inv c ws (n + frames_of e) (tr + truncated_of e) (dr + dropped_of e) st \<and>
    (opens_window e \<or> a_window s \<noteq> None \<longrightarrow> a_window (snd st) \<noteq> None)"
proof -
  have b: "books c ws 0 out s" and r: "ready out s"
    and n: "a_observed s = n" "a_classified s = n" "a_truncated s = tr" "a_kernel_dropped s = dr"
    using inv by (simp_all add: run_inv_def)
  show ?thesis
  proof (cases e)
    case (Ev_frame d ts dir)
    obtain t where t: "observe c d ts dir s = (t, Some (cname (class_of d)))" "books c ws 0 out t"
      "window_at (landing ws ts s) t"
      "counted c (cname (class_of d)) (length d) (resolve_direction c d dir) s t"
      using observe_books[OF b r c] by blast
    have "a_window t \<noteq> None" using t(3) by (auto simp: window_at_def)
    with t n show ?thesis
      by (simp add: Ev_frame run_inv_def counted_def ready_open)
  next
    case (Ev_truncated m sz ts)
    with note_truncated_books[OF b r c, of m sz ts] n show ?thesis
      by (auto simp: wpc_def run_inv_def ready_def)
  next
    case (Ev_dropped m)
    have "ready out (note_kernel_dropped m s)" using r by (simp add: ready_def note_kernel_dropped_def)
    with dropped_books[OF b] n show ?thesis
      by (auto simp: Ev_dropped run_inv_def note_kernel_dropped_def)
  next
    case (Ev_roll now)
    obtain rs t where t: "roll c now s = (Some rs, t)" "books c ws 0 (out @ rs) t" "same_counts c s t"
      "a_closed t = []" "a_window t \<noteq> None"
      using roll_books[OF b r c] by blast
    with n show ?thesis
      by (simp add: Ev_roll run_inv_def same_counts_def ready_open)
  qed
qed

lemma run_inv_run:
  assumes "run_inv c ws n tr dr st" "c_window_seconds c = Some ws" "0 < ws"
  shows "\<exists>st'. acct_run c evs st = Some st' \<and>
    run_inv c ws (n + total_events frames_of evs) (tr + total_events truncated_of evs)
      (dr + total_events dropped_of evs) st' \<and>
    ((\<exists>e \<in> set evs. opens_window e) \<or> a_window (snd st) \<noteq> None \<longrightarrow> a_window (snd st') \<noteq> None)"
  using assms
proof (induction evs arbitrary: st n tr dr)
  case (Cons e evs)
  obtain out s where st: "st = (out, s)" by (cases st)
  obtain st1 where e: "acct_event c e st = Some st1"
    "run_inv c ws (n + frames_of e) (tr + truncated_of e) (dr + dropped_of e) st1"
    "opens_window e \<or> a_window (snd st) \<noteq> None \<longrightarrow> a_window (snd st1) \<noteq> None"
    using run_inv_event[of c ws n tr dr out s e] Cons.prems st by auto
  obtain st2 where st2: "acct_run c evs st1 = Some st2"
    "run_inv c ws (n + frames_of e + total_events frames_of evs)
      (tr + truncated_of e + total_events truncated_of evs)
      (dr + dropped_of e + total_events dropped_of evs) st2"
    "(\<exists>e \<in> set evs. opens_window e) \<or> a_window (snd st1) \<noteq> None \<longrightarrow> a_window (snd st2) \<noteq> None"
    using Cons.IH[OF e(2) Cons.prems(2,3)] by blast
  have "(\<exists>d \<in> set (e # evs). opens_window d) \<or> a_window (snd st) \<noteq> None \<longrightarrow> a_window (snd st2) \<noteq> None"
    using e(3) st2(3) by auto
  then show ?case
    using e(1) st2(1,2) by (simp add: add.assoc)
qed simp

lemma run_inv_new: "positive_beats c \<Longrightarrow> run_inv c ws 0 0 0 ([], new_accountant c)"
  using new_accountant_books[of c] by (simp add: run_inv_def new_accountant_def)

text \<open>A whole session: the run, then \<open>finish\<close>.\<close>

definition session_account :: "acct_cfg \<Rightarrow> real \<Rightarrow> event list \<Rightarrow> window_report list \<times> acct \<Rightarrow> bool" where
  "session_account c ws evs st \<longleftrightarrow>
     (\<forall>r \<in> set (fst st). report_ok c ws r) \<and> reports_ordered (fst st) \<and>
     total_reports wr_classified (fst st) = total_events frames_of evs \<and>
     total_reports wr_truncated (fst st) = total_events truncated_of evs \<and>
     total_reports wr_kernel_dropped (fst st) \<le> total_events dropped_of evs \<and>
     snap_findings (snd st) \<le> total_reports wr_finding_count (fst st)"

lemma session_books:
  assumes c: "c_window_seconds c = Some ws" "0 < ws" "positive_beats c"
    and e: "e \<in> set evs" "opens_window e"
  shows "\<exists>st. account_session c evs now = Some st \<and> session_account c ws evs st"
proof -
  obtain out s where s: "acct_run c evs ([], new_accountant c) = Some (out, s)"
    "run_inv c ws (total_events frames_of evs) (total_events truncated_of evs)
       (total_events dropped_of evs) (out, s)" "a_window s \<noteq> None"
    using run_inv_run[OF run_inv_new[OF c(3)] c(1,2), of evs] e by auto
  obtain w where w: "a_window s = Some w" using s(3) by blast
  obtain rs t where t: "finish c now s = (Some rs, t)" "books c ws 0 (out @ rs) t" "same_counts c s t"
    "a_closed t = []" "a_window t = None"
    using finish_books[OF _ w c(2), of c 0 out now] s(2) by (auto simp: run_inv_def)
  have "account_session c evs now = Some (out @ rs, t)"
    by (simp add: account_session_def s(1) t(1))
  moreover have "session_account c ws evs (out @ rs, t)"
    using t s(2) by (simp add: session_account_def books_def sums_ok_def in_window_def run_inv_def
        same_counts_def)
  ultimately show ?thesis by blast
qed

end
