(* ===== verification/Receiver.thy ===== *)
theory Receiver
  imports Ring_Proofs Accountant_Run
begin

text \<open>
  The \<open>FrameObserver\<close> protocol between the ring walk of \<^verbatim>\<open>frame-processor/app/capture.py\<close> and the
  accountant of \<^verbatim>\<open>frame-processor/app/accounting.py\<close>, and the adapter \<open>FixedDirection\<close> of
  \<^verbatim>\<open>frame-processor/app/policy.py\<close>. The protocol is a locale; the accountant provides it, and so
  does the adapter around anything that does.
\<close>

section \<open>The protocol\<close>

text \<open>\<open>FixedDirection\<close>: the caller's direction is replaced.\<close>

definition fixed_direction :: "direction \<Rightarrow> 'o observer \<Rightarrow> 'o observer" where
  "fixed_direction dir ob =
     \<lparr>ob_frame = \<lambda>d ts _ s. ob_frame ob d ts (Some dir) s,
      ob_truncated = \<lambda>n sz ts s. ob_truncated ob n sz ts s\<rparr>"

locale frame_observer =
  fixes ob :: "'o observer"
    and seen :: "'o \<Rightarrow> nat"
    and ok :: "'o \<Rightarrow> bool"
  assumes frame_ok: "ok s \<Longrightarrow> ok (ob_frame ob d ts dir s)"
    and frame_seen: "ok s \<Longrightarrow> seen (ob_frame ob d ts dir s) = Suc (seen s)"
    and truncated_ok: "ok s \<Longrightarrow> ok (ob_truncated ob n sz ts s)"
    and truncated_seen: "ok s \<Longrightarrow> seen (ob_truncated ob n sz ts s) = Suc (seen s)"
begin

lemma see_ok: "ok s \<Longrightarrow> ok (see ob x s) \<and> seen (see ob x s) = Suc (seen s)"
  by (cases x) (simp_all add: see_def frame_ok frame_seen truncated_ok truncated_seen)

lemma replay_ok: "ok s \<Longrightarrow> ok (replay ob xs s) \<and> seen (replay ob xs s) = seen s + length xs"
  by (induction xs rule: rev_induct) (simp_all add: see_ok)

lemma fixed_observer: "frame_observer (fixed_direction dir ob) seen ok"
  by unfold_locales
     (simp_all add: fixed_direction_def frame_ok frame_seen truncated_ok truncated_seen)

end

section \<open>The accountant as an observer\<close>

definition accountant_observer :: "acct_cfg \<Rightarrow> acct observer" where
  "accountant_observer c =
     \<lparr>ob_frame = \<lambda>d ts dir s. fst (observe c d ts dir s),
      ob_truncated = \<lambda>n sz ts s. fst (note_truncated c n sz ts s)\<rparr>"

text \<open>Every observed frame classified and the class totals adding up, windowed or not.\<close>

definition balanced_acct :: "acct_cfg \<Rightarrow> acct \<Rightarrow> bool" where
  "balanced_acct c s \<longleftrightarrow>
     a_observed s = a_classified s \<and> totals_ok (a_classified s) (a_classes s) \<and>
     (case c_window_seconds c of
        None \<Rightarrow> beats_ok s \<and> a_window s = None
      | Some ws \<Rightarrow> 0 < ws \<and> (\<exists>out. books c ws 0 out s \<and> ready out s))"

text \<open>The books of a windowed account that has handed out the reports \<open>out\<close>.\<close>

definition acct_books :: "acct_cfg \<Rightarrow> real \<Rightarrow> window_report list \<Rightarrow> acct \<Rightarrow> bool" where
  "acct_books c ws out s \<longleftrightarrow>
     c_window_seconds c = Some ws \<and> 0 < ws \<and> books c ws 0 out s \<and> ready out s \<and>
     a_observed s = a_classified s"

lemma balanced_observe:
  assumes "balanced_acct c s"
  shows "\<exists>t. observe c d ts dir s = (t, Some (cname (class_of d))) \<and> balanced_acct c t \<and>
    counted c (cname (class_of d)) (length d) (resolve_direction c d dir) s t"
proof (cases "c_window_seconds c")
  case None
  obtain t where t: "observe c d ts dir s = (t, Some (cname (class_of d)))" "beats_ok t" "a_window t = None"
    "counted c (cname (class_of d)) (length d) (resolve_direction c d dir) s t"
    using observe_unwindowed[OF None, of s d ts dir] assms None by (auto simp: balanced_acct_def)
  then show ?thesis
    using assms None totals_ok_count[of "a_classified s" "a_classes s"]
    by (simp add: balanced_acct_def counted_def)
next
  case (Some ws)
  then obtain out where o: "books c ws 0 out s" "ready out s" "0 < ws"
    using assms by (auto simp: balanced_acct_def)
  obtain t where t: "observe c d ts dir s = (t, Some (cname (class_of d)))" "books c ws 0 out t"
    "window_at (landing ws ts s) t"
    "counted c (cname (class_of d)) (length d) (resolve_direction c d dir) s t"
    using observe_books[OF o(1,2) Some o(3)] by blast
  have "ready out t" using t(3) by (auto simp: window_at_def intro: ready_open)
  then have "balanced_acct c t"
    using t assms Some o(3) totals_ok_count[of "a_classified s" "a_classes s"]
    by (auto simp: balanced_acct_def counted_def)
  with t show ?thesis by blast
qed

lemma note_truncated_unwindowed:
  assumes "c_window_seconds c = None" "beats_ok s" "a_window s = None"
  shows "wpc (note_truncated c n sz ts) (\<lambda>t. beats_ok t \<and> a_window t = None \<and>
     a_observed t = a_observed s + 1 \<and> a_classified t = a_classified s + 1 \<and>
     a_classes t = count_class CLASS_TRUNCATED sz None (a_classes s)) s"
proof -
  let ?s0 = "s\<lparr>a_observed := a_observed s + 1, a_truncated := a_truncated s + 1\<rparr>"
  let ?f = "mk_finding ''truncated'' CLASS_TRUNCATED [] (Ring_truncated n sz) ts DIRECTION_UNKNOWN"
  have "vstep c (truncated_counted sz ?s0) (note_finding c ?f (truncated_counted sz ?s0))"
    by (rule vstep_note)
  then have "beats_ok (note_finding c ?f (truncated_counted sz ?s0)) \<and>
      a_window (note_finding c ?f (truncated_counted sz ?s0)) = None \<and>
      a_observed (note_finding c ?f (truncated_counted sz ?s0)) = a_observed s + 1 \<and>
      a_classified (note_finding c ?f (truncated_counted sz ?s0)) = a_classified s + 1 \<and>
      a_classes (note_finding c ?f (truncated_counted sz ?s0)) = count_class CLASS_TRUNCATED sz None (a_classes s)"
    using assms(2,3)
    by (simp add: vstep_def truncated_counted_def count_frame_def on_ctx_window_def set_ctx_def beats_ok_def)
  then show ?thesis
    using assms(1,3)
    by (simp add: note_truncated_def wpc_seqc wpc_simps(1,2) window_for_def truncated_counted_def
        beats_ok_def)
qed

lemma balanced_truncated:
  assumes "balanced_acct c s"
  shows "wpc (note_truncated c n sz ts) (\<lambda>t. balanced_acct c t \<and> a_observed t = a_observed s + 1) s"
proof (cases "c_window_seconds c")
  case None
  have "wpc (note_truncated c n sz ts) (\<lambda>t. beats_ok t \<and> a_window t = None \<and>
     a_observed t = a_observed s + 1 \<and> a_classified t = a_classified s + 1 \<and>
     a_classes t = count_class CLASS_TRUNCATED sz None (a_classes s)) s"
    using assms None by (intro note_truncated_unwindowed) (auto simp: balanced_acct_def)
  then show ?thesis
    by (rule wpc_mono)
       (use assms None totals_ok_count[of "a_classified s" "a_classes s"] in \<open>simp add: balanced_acct_def\<close>)
next
  case (Some ws)
  then obtain out where o: "books c ws 0 out s" "ready out s" "0 < ws"
    using assms by (auto simp: balanced_acct_def)
  from note_truncated_books[OF o(1,2) Some o(3), of n sz ts] show ?thesis
    by (rule wpc_mono)
       (use assms Some o(3) totals_ok_count[of "a_classified s" "a_classes s"] in
         \<open>auto simp: balanced_acct_def ready_def\<close>)
qed

interpretation accountant: frame_observer "accountant_observer c" a_observed "balanced_acct c" for c
proof unfold_locales
  fix s d ts dir n sz
  assume ok: "balanced_acct c s"
  show "balanced_acct c (ob_frame (accountant_observer c) d ts dir s)"
    "a_observed (ob_frame (accountant_observer c) d ts dir s) = Suc (a_observed s)"
    using balanced_observe[OF ok, of d ts dir] by (auto simp: accountant_observer_def counted_def)
  show "balanced_acct c (ob_truncated (accountant_observer c) n sz ts s)"
    "a_observed (ob_truncated (accountant_observer c) n sz ts s) = Suc (a_observed s)"
    using balanced_truncated[OF ok, of n sz ts] by (auto simp: accountant_observer_def wpc_def)
qed

interpretation stamped: frame_observer "fixed_direction dir (accountant_observer c)" a_observed
    "balanced_acct c" for dir c
  by (rule accountant.fixed_observer)

end
