(* ===== verification/Pipeline.thy ===== *)
theory Pipeline
  imports Receiver
begin

text \<open>
  \<^verbatim>\<open>frame-processor/app/live_pipeline.py\<close>: routing segments to flow workers, the turn of a receiver
  process (\<open>_receiver_main\<close>), and what the parent does with the reports it collects.

  Processes and queues are not modelled as such: a worker queue is the list of what was put on it, a
  receiver turn is the body of its loop, and what other processes do in between is the input of the
  next turn. \<open>ipaddress.ip_address\<close> is the argument \<open>ip\<close> (version and packed bytes), BLAKE2s is
  \<open>blake\<close>, the kernel's cumulative drop counter an input of each turn.
\<close>

section \<open>Flow keys and shards\<close>

text \<open>\<open>struct.pack("!H", n)\<close>, which raises out of range.\<close>

definition be16 :: "nat \<Rightarrow> bytes option" where
  "be16 n = (if n < 65536 then Some [word_of_nat (n div 256), word_of_nat (n mod 256)] else None)"

definition encode_text :: "string \<Rightarrow> bytes" where
  "encode_text s = map (\<lambda>c. word_of_nat (of_char c)) s"

definition endpoint_bytes :: "(string \<Rightarrow> (nat \<times> bytes) option) \<Rightarrow> string \<Rightarrow> nat \<Rightarrow> bytes option" where
  "endpoint_bytes ip address port =
     (case ip address of
        Some (version, packed) \<Rightarrow> do { p \<leftarrow> be16 port; Some (word_of_nat version # packed @ p) }
      | None \<Rightarrow> do { n \<leftarrow> be16 (length (encode_text address)); p \<leftarrow> be16 port;
                  Some (0 # n @ encode_text address @ p) })"

definition flow_key :: "(string \<Rightarrow> (nat \<times> bytes) option) \<Rightarrow> tcp_segment \<Rightarrow> bytes option" where
  "flow_key ip sg = do {
     left \<leftarrow> endpoint_bytes ip (sg_src sg) (sg_sport sg);
     right \<leftarrow> endpoint_bytes ip (sg_dst sg) (sg_dport sg);
     let (left, right) = (if right < left then (right, left) else (left, right));
     l \<leftarrow> be16 (length left);
     r \<leftarrow> be16 (length right);
     Some (l @ left @ r @ right) }"

definition flow_shard ::
  "(bytes \<Rightarrow> nat) \<Rightarrow> (string \<Rightarrow> (nat \<times> bytes) option) \<Rightarrow> tcp_segment \<Rightarrow> nat \<Rightarrow> nat option" where
  "flow_shard blake ip sg worker_count =
     (if worker_count = 0 then None
      else map_option (\<lambda>k. blake k mod worker_count) (flow_key ip sg))"

section \<open>Routing\<close>

record route_counters =
  rt_seen :: nat
  rt_excluded :: nat
  rt_ack_only :: nat
  rt_dispatched :: nat
  rt_queue_dropped :: nat

definition zero_counters :: route_counters where
  "zero_counters = \<lparr>rt_seen = 0, rt_excluded = 0, rt_ack_only = 0, rt_dispatched = 0, rt_queue_dropped = 0\<rparr>"

type_synonym queues = "tcp_segment list list"

definition route_segment ::
  "(tcp_segment \<Rightarrow> nat \<Rightarrow> nat option) \<Rightarrow> nat \<Rightarrow> nat set option \<Rightarrow> nat set \<Rightarrow> tcp_segment
    \<Rightarrow> queues \<times> route_counters \<Rightarrow> (queues \<times> route_counters) option" where
  "route_segment shard maxsize inc exc sg st =
     (let (qs, k0) = st; k = k0\<lparr>rt_seen := rt_seen k0 + 1\<rparr> in
      if \<not> ports_allowed (sg_sport sg) (sg_dport sg) inc exc
      then Some (qs, k\<lparr>rt_excluded := rt_excluded k + 1\<rparr>)
      else if \<not> carries_reassembly_state sg
      then Some (qs, k\<lparr>rt_ack_only := rt_ack_only k + 1\<rparr>)
      else do {
        dest \<leftarrow> shard sg (length qs);
        if length (qs ! dest) \<ge> maxsize
        then Some (qs, k\<lparr>rt_queue_dropped := rt_queue_dropped k + 1\<rparr>)
        else Some (qs[dest := qs ! dest @ [sg]], k\<lparr>rt_dispatched := rt_dispatched k + 1\<rparr>)
      })"

fun route_all ::
  "(tcp_segment \<Rightarrow> nat \<Rightarrow> nat option) \<Rightarrow> nat \<Rightarrow> nat set option \<Rightarrow> nat set \<Rightarrow> tcp_segment list
    \<Rightarrow> queues \<times> route_counters \<Rightarrow> (queues \<times> route_counters) option" where
  "route_all shard maxsize inc exc [] st = Some st"
| "route_all shard maxsize inc exc (sg # sgs) st =
     Option.bind (route_segment shard maxsize inc exc sg st) (route_all shard maxsize inc exc sgs)"

section \<open>The receiver process\<close>

definition RECEIVER_SEGMENT_LIMIT :: nat where "RECEIVER_SEGMENT_LIMIT = 1024"
definition DEFAULT_RING_READ_BLOCKS :: nat where "DEFAULT_RING_READ_BLOCKS = 8"

record receiver_cfg =
  rx_acct :: acct_cfg
  rx_fixed :: "direction option"
  rx_ring :: ring_cfg
  rx_capture :: capture_cfg
  rx_dissect :: "bytes \<Rightarrow> dp_net option"
  rx_ntop6 :: "bytes \<Rightarrow> string"
  rx_shard :: "tcp_segment \<Rightarrow> nat \<Rightarrow> nat option"
  rx_queue_size :: nat

record receiver =
  rv_ring :: ring
  rv_acct :: acct
  rv_queues :: queues
  rv_counters :: route_counters
  rv_status :: "window_report list"
  rv_dropped_noted :: int

text \<open>The observer attached to the source: the accountant, stamped when the direction is fixed.\<close>

definition rx_observer :: "receiver_cfg \<Rightarrow> acct observer" where
  "rx_observer c =
     (case rx_fixed c of
        None \<Rightarrow> accountant_observer (rx_acct c)
      | Some dir \<Rightarrow> fixed_direction dir (accountant_observer (rx_acct c)))"

text \<open>
  The body of the loop: read, route, roll the windows into the status queue, and on a statistics
  tick, with the kernel's cumulative drops, hand the fresh ones to the accountant.
\<close>

definition receiver_turn :: "receiver_cfg \<Rightarrow> real \<Rightarrow> int option \<Rightarrow> receiver \<Rightarrow> receiver option" where
  "receiver_turn c now tick rv = do {
     (ring, acct, batch) \<leftarrow> read_segments (rx_ring c)
        (sighting_segment (rx_capture c) (rx_dissect c) (rx_ntop6 c)) (rx_observer c)
        (Some RECEIVER_SEGMENT_LIMIT) DEFAULT_RING_READ_BLOCKS (rv_ring rv) (rv_acct rv);
     (queues, counters) \<leftarrow> route_all (rx_shard c) (rx_queue_size c)
        (fp_ports (rx_capture c)) (fp_exclude_ports (rx_capture c)) batch
        (rv_queues rv, rv_counters rv);
     (case roll (rx_acct c) now acct of
        (None, _) \<Rightarrow> None
      | (Some reports, acct') \<Rightarrow>
          Some (case tick of
             None \<Rightarrow> rv\<lparr>rv_ring := ring, rv_acct := acct', rv_queues := queues,
                        rv_counters := counters, rv_status := rv_status rv @ reports\<rparr>
           | Some dropped \<Rightarrow>
               rv\<lparr>rv_ring := ring,
                  rv_acct := note_kernel_dropped (dropped - rv_dropped_noted rv) acct',
                  rv_queues := queues, rv_counters := counters,
                  rv_status := rv_status rv @ reports, rv_dropped_noted := dropped\<rparr>)) }"

text \<open>The \<open>finally\<close> block: the drops not yet noted, then the windows still open.\<close>

definition receiver_stop :: "receiver_cfg \<Rightarrow> real \<Rightarrow> int \<Rightarrow> receiver \<Rightarrow> receiver option" where
  "receiver_stop c now dropped rv =
     (case finish (rx_acct c) now (note_kernel_dropped (dropped - rv_dropped_noted rv) (rv_acct rv)) of
        (None, _) \<Rightarrow> None
      | (Some reports, acct) \<Rightarrow> Some (rv\<lparr>rv_acct := acct, rv_status := rv_status rv @ reports\<rparr>))"

section \<open>The parent\<close>

datatype status = St_report window_report | St_exchange exchange_finding

text \<open>\<open>_collect_reports\<close> on what the status queue holds; \<open>now\<close> is the clock it reads each time.\<close>

fun collect_reports :: "merger_cfg \<Rightarrow> (status \<times> real) list \<Rightarrow> merger \<Rightarrow> merger" where
  "collect_reports c [] m = m"
| "collect_reports c ((St_report r, now) # rest) m = collect_reports c rest (add_report c r m)"
| "collect_reports c ((St_exchange f, now) # rest) m =
     collect_reports c rest (add_exchange_finding c f (Some now) m)"

text \<open>
  \<open>_deliver_windows\<close>: rows reported and rejected. The sink is absent, or accepts a row
  (\<open>Some True\<close>), refuses it (\<open>Some False\<close>) or raises (\<open>None\<close>).
\<close>

fun deliver_windows ::
  "(window_row \<Rightarrow> bool option) option \<Rightarrow> window_row list \<Rightarrow> nat \<times> nat \<Rightarrow> nat \<times> nat" where
  "deliver_windows sink [] st = st"
| "deliver_windows sink (row # rows) (reported, rejected) =
     deliver_windows sink rows
       (reported + 1,
        case sink of None \<Rightarrow> rejected
        | Some f \<Rightarrow> if f row = Some True then rejected else rejected + 1)"

definition flush_windows ::
  "merger_cfg \<Rightarrow> (window_row \<Rightarrow> bool option) option \<Rightarrow> real \<Rightarrow> merger \<times> nat \<times> nat
    \<Rightarrow> merger \<times> nat \<times> nat" where
  "flush_windows c sink now st =
     (let (rows, m) = flush c now (fst st) in (m, deliver_windows sink rows (snd st)))"

end
