(* ===== verification/Reassembly_Proofs.thy ===== *)
theory Reassembly_Proofs
  imports Reassembly
begin

text \<open>
  What reassembly delivers. Against a byte stream \<open>S\<close> that starts at sequence number \<open>isn\<close> and is
  shorter than half the sequence space, segments that are pieces of \<open>S\<close> only ever yield a prefix of
  \<open>S\<close>, in any order, with any duplication and overlap; when they are the pieces of one partition and
  nothing is abandoned, all of it. The bytes held back are counted exactly and stay bounded.
\<close>

section \<open>Sequence numbers relative to the first\<close>

definition rel :: "nat \<Rightarrow> nat \<Rightarrow> nat" where
  "rel isn q = nat ((int q - int isn) mod int SEQ_MOD)"

definition HALF :: nat where "HALF = 2 ^ 31"

lemma seq_mod_pos [simp]: "0 < SEQ_MOD" "SEQ_MOD \<noteq> 0"
  by (simp_all add: SEQ_MOD_def HALF_def)

lemma rel_less: "rel isn q < SEQ_MOD"
  using pos_mod_bound[of "int SEQ_MOD" "int q - int isn"] by (simp add: rel_def nat_less_iff)

lemma int_rel: "int (rel isn q) = (int q - int isn) mod int SEQ_MOD"
  using pos_mod_sign[of "int SEQ_MOD" "int q - int isn"] by (simp add: rel_def)

lemma rel_isn [simp]: "rel isn isn = 0"
  by (simp add: rel_def)

lemma rel_add:
  assumes "rel isn q + k < SEQ_MOD"
  shows "rel isn ((q + k) mod SEQ_MOD) = rel isn q + k"
proof -
  have "int (rel isn ((q + k) mod SEQ_MOD)) = (int q + int k - int isn) mod int SEQ_MOD"
    by (simp add: int_rel zmod_int mod_diff_left_eq)
  also have "\<dots> = ((int q - int isn) mod int SEQ_MOD + int k) mod int SEQ_MOD"
    using mod_add_left_eq[of "int q - int isn" "int SEQ_MOD" "int k"] by (simp add: algebra_simps)
  also have "\<dots> = int (rel isn q + k) mod int SEQ_MOD"
    by (simp add: int_rel)
  also have "\<dots> = int (rel isn q + k)"
    using assms by (simp)
  finally show ?thesis by (simp only: of_nat_eq_iff)
qed

lemma rel_inj:
  assumes "q < SEQ_MOD" "r < SEQ_MOD" "rel isn q = rel isn r"
  shows "q = r"
proof -
  have "(int q - int isn) mod int SEQ_MOD = (int r - int isn) mod int SEQ_MOD"
    using assms(3) int_rel[of isn q] int_rel[of isn r] by simp
  then have "(int q - int isn + int isn) mod int SEQ_MOD = (int r - int isn + int isn) mod int SEQ_MOD"
    by (rule mod_add_cong) simp
  then show ?thesis using assms(1,2) by (simp)
qed

lemma seq_half: "SEQ_MOD = 2 * HALF" "0 < HALF"
  by (simp_all add: SEQ_MOD_def HALF_def)

lemma before_rel:
  assumes "rel isn q < HALF" "rel isn r < HALF"
  shows "before q r \<longleftrightarrow> rel isn q < rel isn r"
proof -
  let ?m = "int SEQ_MOD" and ?x = "int (rel isn q)" and ?y = "int (rel isn r)"
  have "(int r - int q) mod ?m = ((int r - int isn) mod ?m - (int q - int isn) mod ?m) mod ?m"
    by (simp add: mod_diff_eq)
  then have d: "(int r - int q) mod ?m = (?y - ?x) mod ?m"
    by (simp add: int_rel)
  have m: "?m = 2 * int HALF" "?m div 2 = int HALF" by (simp_all add: seq_half)
  show ?thesis
  proof (cases "rel isn q < rel isn r")
    case True
    then have "(?y - ?x) mod ?m = ?y - ?x"
      using assms m by (intro mod_pos_pos_trivial) auto
    moreover have "?y - ?x < int HALF" "0 < ?y - ?x" using True assms by linarith+
    ultimately show ?thesis
      using True unfolding before_def Let_def d m(2) by simp
  next
    case False
    have "\<not> before q r"
    proof (cases "rel isn q = rel isn r")
      case True
      then show ?thesis by (simp add: before_def d Let_def)
    next
      case ne: False
      have "(?y - ?x) mod ?m = (?y - ?x + ?m) mod ?m" by simp
      also have "\<dots> = ?y - ?x + ?m"
        using assms m False ne by (intro mod_pos_pos_trivial) auto
      finally have "(?y - ?x) mod ?m = ?y - ?x + ?m" .
      moreover have "int HALF < ?y - ?x + ?m" using assms m(1) by linarith
      ultimately show ?thesis
        unfolding before_def Let_def d m(2) by simp
    qed
    with False show ?thesis by simp
  qed
qed

section \<open>Pieces of a stream\<close>

definition piece_ok :: "bytes \<Rightarrow> nat \<Rightarrow> nat \<times> bytes \<Rightarrow> bool" where
  "piece_ok S isn qp \<longleftrightarrow>
     fst qp < SEQ_MOD \<and> rel isn (fst qp) + length (snd qp) \<le> length S \<and>
     snd qp = pslice S (rel isn (fst qp)) (rel isn (fst qp) + length (snd qp))"

lemma pslice_append: "a \<le> b \<Longrightarrow> b \<le> c \<Longrightarrow> pslice S a b @ pslice S b c = pslice S a c"
proof -
  assume le: "a \<le> b" "b \<le> c"
  have "take (c - a) (drop a S) = take ((b - a) + (c - b)) (drop a S)" using le by simp
  also have "\<dots> = take (b - a) (drop a S) @ take (c - b) (drop (b - a) (drop a S))"
    by (rule take_add)
  finally show ?thesis using le by (simp add: pslice_def)
qed

lemma pslice_self [simp]: "pslice S a a = []"
  by (simp add: pslice_def)

definition held_bytes :: "(nat \<times> bytes) list \<Rightarrow> int" where
  "held_bytes held = int (dsum length held)"

text \<open>
  What the loop leaves: the next number moved from \<open>n\<close> to \<open>m\<close> over pieces, everything it took lies
  before \<open>m\<close>, nothing held is next, and any property that holds at \<open>n\<close> and at the end of each held
  piece holds at \<open>m\<close>.
\<close>

lemma release_loop_spec:
  assumes "length S < HALF" "n \<le> length S" "nxt < SEQ_MOD" "rel isn nxt = n"
    "distinct (keys held)" "\<forall>qp \<in> set held. piece_ok S isn qp" "a \<le> n" "chunks = pslice S a n"
    "str = held_bytes held" "Q n" "\<forall>qp \<in> set held. Q (rel isn (fst qp) + length (snd qp))"
  shows "\<exists>m nxt' held'. release_loop nxt held str chunks = (nxt', held', held_bytes held', pslice S a m) \<and>
     n \<le> m \<and> m \<le> length S \<and> nxt' < SEQ_MOD \<and> rel isn nxt' = m \<and> distinct (keys held') \<and>
     set held' \<subseteq> set held \<and> map_of held' nxt' = None \<and> Q m \<and>
     (\<forall>qp \<in> set held - set held'. rel isn (fst qp) + length (snd qp) \<le> m)"
  using assms
proof (induction nxt held str chunks arbitrary: n rule: release_loop.induct)
  case (1 nxt held str chunks)
  show ?case
  proof (cases "map_of held nxt")
    case None
    with 1 show ?thesis by (subst release_loop.simps) auto
  next
    case (Some p)
    let ?n = "n + length p" and ?nxt = "(nxt + length p) mod SEQ_MOD" and ?held = "AList.delete nxt held"
    have in_held: "(nxt, p) \<in> set held" using Some by (rule map_of_SomeD)
    then have p: "?n \<le> length S" "p = pslice S n ?n"
      using "1.prems"(4,6) by (force simp: piece_ok_def)+
    have sub: "set ?held \<subseteq> set held" by (auto simp: AList.delete_eq)
    have nxt: "?nxt < SEQ_MOD" "rel isn ?nxt = ?n"
      using p(1) "1.prems"(1,4) seq_half by (auto simp: rel_add)
    have ch: "chunks @ p = pslice S a ?n"
      using "1.prems"(7,8) p(2) pslice_append[of a n ?n S] by auto
    have str: "str - int (length p) = held_bytes ?held"
      using dsum_delete[OF "1.prems"(5) Some, of length] "1.prems"(9) by (simp add: held_bytes_def)
    have q: "Q ?n" using "1.prems"(4,11) in_held by force
    have "\<exists>m nxt' held'. release_loop ?nxt ?held (str - int (length p)) (chunks @ p)
        = (nxt', held', held_bytes held', pslice S a m) \<and>
       ?n \<le> m \<and> m \<le> length S \<and> nxt' < SEQ_MOD \<and> rel isn nxt' = m \<and> distinct (keys held') \<and>
       set held' \<subseteq> set ?held \<and> map_of held' nxt' = None \<and> Q m \<and>
       (\<forall>qp \<in> set ?held - set held'. rel isn (fst qp) + length (snd qp) \<le> m)"
      by (rule "1.IH"[OF Some "1.prems"(1) p(1) nxt _ _ _ ch str q])
         (use "1.prems"(5,6,7,11) sub in \<open>auto simp: distinct_delete\<close>)
    then obtain m nxt' held' where r: "release_loop ?nxt ?held (str - int (length p)) (chunks @ p)
        = (nxt', held', held_bytes held', pslice S a m)"
      "?n \<le> m" "m \<le> length S" "nxt' < SEQ_MOD" "rel isn nxt' = m" "distinct (keys held')"
      "set held' \<subseteq> set ?held" "map_of held' nxt' = None" "Q m"
      "\<forall>qp \<in> set ?held - set held'. rel isn (fst qp) + length (snd qp) \<le> m"
      by blast
    have gone: "rel isn (fst qp) + length (snd qp) \<le> m" if qp: "qp \<in> set held - set held'" for qp
    proof (cases "qp \<in> set ?held")
      case True
      with r(10) qp show ?thesis by blast
    next
      case False
      then have "fst qp = nxt" using qp by (cases qp) (auto simp: AList.delete_eq)
      then have "snd qp = p"
        using qp in_held "1.prems"(5) by (cases qp) (auto dest: eq_key_imp_eq_value)
      then show ?thesis using \<open>fst qp = nxt\<close> "1.prems"(4) r(2) by simp
    qed
    have "release_loop nxt held str chunks = (nxt', held', held_bytes held', pslice S a m)"
      using r(1) by (subst release_loop.simps) (simp add: Some)
    then show ?thesis
      using r(2-9) gone sub by (intro exI[of _ m] exI[of _ nxt'] exI[of _ held']) auto
  qed
qed

lemma drop_keys:
  assumes "distinct (keys held)"
  shows "fold (\<lambda>s (held, str). (AList.delete s held,
           str - (case map_of held s of Some p \<Rightarrow> int (length p) | None \<Rightarrow> 0))) ks (held, held_bytes held)
    = (filter (\<lambda>qp. fst qp \<notin> set ks) held, held_bytes (filter (\<lambda>qp. fst qp \<notin> set ks) held))"
  using assms
proof (induction ks arbitrary: held)
  case (Cons k ks)
  have str: "held_bytes held - (case map_of held k of Some p \<Rightarrow> int (length p) | None \<Rightarrow> 0)
      = held_bytes (AList.delete k held)"
  proof (cases "map_of held k")
    case None
    then have "k \<notin> fst ` set held" by (simp add: map_of_eq_None_iff)
    with None show ?thesis by simp
  next
    case (Some p)
    from dsum_delete[OF Cons.prems Some, of length] Some show ?thesis
      by (simp add: held_bytes_def)
  qed
  have "filter (\<lambda>qp. fst qp \<notin> set ks) (AList.delete k held) = filter (\<lambda>qp. fst qp \<notin> set (k # ks)) held"
    by (auto simp: AList.delete_eq intro: filter_cong)
  with Cons.IH[OF distinct_delete[OF Cons.prems, of k]] str show ?case
    by simp
qed simp

lemma drop_stale_spec:
  assumes "distinct (keys held)"
  shows "drop_stale nxt (held, held_bytes held)
    = (filter (\<lambda>qp. \<not> before (fst qp) nxt) held, held_bytes (filter (\<lambda>qp. \<not> before (fst qp) nxt) held))"
proof -
  have "filter (\<lambda>qp. fst qp \<notin> set (filter (\<lambda>s. before s nxt) (keys held))) held
      = filter (\<lambda>qp. \<not> before (fst qp) nxt) held"
    by (rule filter_cong) auto
  then show ?thesis
    using drop_keys[OF assms, of "filter (\<lambda>s. before s nxt) (keys held)"]
    by (simp add: drop_stale_def)
qed

section \<open>Feeding pieces\<close>

definition stream_inv :: "bytes \<Rightarrow> nat \<Rightarrow> nat \<Rightarrow> direction_stream \<Rightarrow> bool" where
  "stream_inv S isn n s \<longleftrightarrow>
     n \<le> length S \<and>
     (\<exists>nxt. next_seq s = Some nxt \<and> nxt < SEQ_MOD \<and> rel isn nxt = n) \<and>
     distinct (keys (held_segs s)) \<and>
     (\<forall>qp \<in> set (held_segs s). piece_ok S isn qp \<and> snd qp \<noteq> [] \<and> n < rel isn (fst qp)) \<and>
     stranded s = held_bytes (held_segs s) \<and> (lost s \<longrightarrow> held_segs s = [])"

text \<open>What one accepted piece changes; \<open>Q\<close> is any property of stream positions.\<close>

definition progress :: "bytes \<Rightarrow> nat \<Rightarrow> (nat \<Rightarrow> bool) \<Rightarrow> nat \<Rightarrow> (nat \<times> bytes) set
    \<Rightarrow> direction_stream \<times> bytes \<Rightarrow> bool" where
  "progress S isn Q n given r \<longleftrightarrow>
     (\<exists>m. stream_inv S isn m (fst r) \<and> n \<le> m \<and> snd r = pslice S n m \<and> Q m \<and>
        set (held_segs (fst r)) \<subseteq> given \<and>
        (\<not> lost (fst r) \<longrightarrow> (\<forall>qp \<in> given. rel isn (fst qp) < m \<or> fst qp \<in> set (keys (held_segs (fst r))))))"

lemma held_bytes_Nil [simp]: "held_bytes [] = 0"
  by (simp add: held_bytes_def)

lemma stream_inv_check:
  "stream_inv S isn n s \<Longrightarrow> stream_inv S isn n (check_stranded mx s)"
  by (auto simp: stream_inv_def check_stranded_def abandon_def)

lemma progress_check:
  assumes "progress S isn Q n given (s, fresh)"
  shows "progress S isn Q n given (check_stranded mx s, fresh)"
proof (cases "stranded s > mx")
  case True
  obtain m where m: "stream_inv S isn m s" "n \<le> m" "fresh = pslice S n m" "Q m"
    using assms by (auto simp: progress_def)
  from stream_inv_check[OF m(1), of mx] m(2-4) True show ?thesis
    unfolding progress_def by (intro exI[of _ m]) (simp add: check_stranded_def abandon_def)
qed (use assms in \<open>simp add: check_stranded_def\<close>)

lemma release_pending_progress:
  assumes S: "length S < HALF" and inv: "stream_inv S isn n s" and nl: "\<not> lost s"
    and nxt: "next_seq s = Some nxt" and p: "piece_ok S isn (nxt, payload)" "payload \<noteq> []"
    and Q: "Q (n + length payload)" "\<forall>qp \<in> set (held_segs s). Q (rel isn (fst qp) + length (snd qp))"
  shows "progress S isn Q n (insert (nxt, payload) (set (held_segs s))) (release_pending payload nxt s)"
proof -
  have n: "rel isn nxt = n" "nxt < SEQ_MOD" and d: "distinct (keys (held_segs s))"
    and h: "\<forall>qp \<in> set (held_segs s). piece_ok S isn qp \<and> snd qp \<noteq> [] \<and> n < rel isn (fst qp)"
    and str: "stranded s = held_bytes (held_segs s)"
    using inv nxt by (auto simp: stream_inv_def)
  have le: "n + length payload \<le> length S" and pay: "payload = pslice S n (n + length payload)"
    using p(1) n by (auto simp: piece_ok_def)
  have step: "rel isn ((nxt + length payload) mod SEQ_MOD) = n + length payload"
    using le S n seq_half by (subst rel_add) auto
  have loop: "\<exists>m nxt' held'. release_loop ((nxt + length payload) mod SEQ_MOD) (held_segs s) (stranded s) payload
        = (nxt', held', held_bytes held', pslice S n m) \<and>
      n + length payload \<le> m \<and> m \<le> length S \<and> nxt' < SEQ_MOD \<and> rel isn nxt' = m \<and> distinct (keys held') \<and>
      set held' \<subseteq> set (held_segs s) \<and> map_of held' nxt' = None \<and> Q m \<and>
      (\<forall>qp \<in> set (held_segs s) - set held'. rel isn (fst qp) + length (snd qp) \<le> m)"
  proof (rule release_loop_spec[where Q = Q, OF S le _ step d _ _ pay str Q])
    show "(nxt + length payload) mod SEQ_MOD < SEQ_MOD" by simp
    show "\<forall>qp \<in> set (held_segs s). piece_ok S isn qp" using h by blast
  qed simp
  obtain m nxt' held' where r: "release_loop ((nxt + length payload) mod SEQ_MOD) (held_segs s) (stranded s) payload
        = (nxt', held', held_bytes held', pslice S n m)"
      "n + length payload \<le> m" "m \<le> length S" "nxt' < SEQ_MOD" "rel isn nxt' = m" "distinct (keys held')"
      "set held' \<subseteq> set (held_segs s)" "map_of held' nxt' = None" "Q m"
      "\<forall>qp \<in> set (held_segs s) - set held'. rel isn (fst qp) + length (snd qp) \<le> m"
    using loop by blast
  let ?held = "filter (\<lambda>qp. \<not> before (fst qp) nxt') held'"
  have ne: "nxt' \<noteq> nxt" using r(2,5) n p(2) by auto
  have kept: "set ?held \<subseteq> set (held_segs s)" using r(7) by auto
  have bef: "before (fst qp) nxt' \<longleftrightarrow> rel isn (fst qp) < m" if "qp \<in> set held'" for qp
  proof -
    have "piece_ok S isn qp" using that h r(7) by blast
    then have "rel isn (fst qp) < HALF" using S by (auto simp: piece_ok_def)
    then show ?thesis using before_rel[of isn "fst qp" nxt'] r(3,5) S by simp
  qed
  have ahead: "m < rel isn (fst qp)" if "qp \<in> set ?held" for qp
  proof -
    have "qp \<in> set held'" "\<not> before (fst qp) nxt'" using that by simp_all
    then have "\<not> rel isn (fst qp) < m" using bef by blast
    moreover have "fst qp \<noteq> nxt'" using that r(8) by (auto simp: map_of_eq_None_iff)
    then have "rel isn (fst qp) \<noteq> m"
      using rel_inj[of "fst qp" nxt' isn] r(4,5) that kept h by (auto simp: piece_ok_def)
    ultimately show ?thesis by simp
  qed
  let ?s = "s\<lparr>next_seq := Some nxt', held_segs := ?held, stranded := held_bytes ?held,
         sdata := (if retain s then sdata s @ pslice S n m else sdata s)\<rparr>"
  have res: "release_pending payload nxt s = (?s, pslice S n m)"
    using r(1) ne drop_stale_spec[OF r(6), of nxt']
    by (cases "held' = []") (auto simp: release_pending_def)
  have "\<forall>qp \<in> set ?held. piece_ok S isn qp \<and> snd qp \<noteq> [] \<and> m < rel isn (fst qp)"
    using h kept ahead by blast
  then have "stream_inv S isn m ?s"
    unfolding stream_inv_def using r(3,4,5,6) nl by (simp del: set_filter add: distinct_map_filter)
  moreover have "rel isn (fst qp) < m \<or> fst qp \<in> set (keys ?held)"
    if qp: "qp \<in> insert (nxt, payload) (set (held_segs s))" for qp
  proof (cases "qp \<in> set held'")
    case True
    then show ?thesis using bef[OF True] by (cases "before (fst qp) nxt'") auto
  next
    case False
    show ?thesis
    proof (cases "qp = (nxt, payload)")
      case True
      then have "rel isn (fst qp) < m" using n r(2) p(2) by (cases payload) auto
      then show ?thesis by simp
    next
      case ne: False
      then have "rel isn (fst qp) + length (snd qp) \<le> m" "snd qp \<noteq> []"
        using qp r(10) h False by blast+
      then have "rel isn (fst qp) < m" by (cases "snd qp") auto
      then show ?thesis by simp
    qed
  qed
  ultimately show ?thesis
    unfolding res progress_def using r(2,9) kept by (intro exI[of _ m]) auto
qed

lemma hold_progress:
  assumes inv: "stream_inv S isn n s" and nl: "\<not> lost s"
    and p: "piece_ok S isn (sq, payload)" "payload \<noteq> []" "n < rel isn sq" and Q: "Q n"
    and new: "case map_of (held_segs s) sq of None \<Rightarrow> True | Some h \<Rightarrow> length h < length payload"
  shows "progress S isn Q n (insert (sq, payload) (set (held_segs s)))
    (s\<lparr>held_segs := dset sq payload (held_segs s),
       stranded := stranded s + int (length payload)
         - (case map_of (held_segs s) sq of None \<Rightarrow> 0 | Some h \<Rightarrow> int (length h))\<rparr>, [])"
proof -
  let ?held = "dset sq payload (held_segs s)"
  have "stranded s + int (length payload)
         - (case map_of (held_segs s) sq of None \<Rightarrow> 0 | Some h \<Rightarrow> int (length h)) = held_bytes ?held"
  proof (cases "map_of (held_segs s) sq")
    case (Some h)
    with inv dsum_ge[OF Some, of length] show ?thesis
      by (simp add: stream_inv_def held_bytes_def dsum_dset)
  qed (use inv in \<open>simp add: stream_inv_def held_bytes_def dsum_dset\<close>)
  moreover have sub: "set ?held \<subseteq> insert (sq, payload) (set (held_segs s))"
    by (rule set_dset_subset)
  moreover have "set (keys ?held) = insert sq (set (keys (held_segs s)))"
    by (rule keys_dset_set)
  ultimately show ?thesis
    unfolding progress_def using inv nl p Q
    by (intro exI[of _ n]) (force simp: stream_inv_def distinct_update)
qed

lemma accept_progress:
  assumes S: "length S < HALF" and inv: "stream_inv S isn n s" and nl: "\<not> lost s"
    and nxt: "next_seq s = Some nxt"
    and p: "piece_ok S isn (sq, payload)" "payload \<noteq> []" "\<not> before sq nxt"
    and Q: "Q n" "Q (rel isn sq + length payload)"
      "\<forall>qp \<in> set (held_segs s). Q (rel isn (fst qp) + length (snd qp))"
  shows "progress S isn Q n (insert (sq, payload) (set (held_segs s))) (accept mx nxt sq payload s)"
proof (cases "sq = nxt")
  case True
  have n: "rel isn nxt = n" using inv nxt by (auto simp: stream_inv_def)
  show ?thesis
  proof (cases "held_segs s = []")
    case empty: True
    have le: "n + length payload \<le> length S" "payload = pslice S n (n + length payload)"
      using p(1) n True by (auto simp: piece_ok_def)
    have "rel isn ((nxt + length payload) mod SEQ_MOD) = n + length payload"
      using le S n seq_half by (subst rel_add) auto
    then show ?thesis
      using empty True le inv Q(2) n p(2) nl unfolding progress_def
      by (intro exI[of _ "n + length payload"]) (auto simp: accept_def stream_inv_def)
  next
    case False
    obtain s1 fresh where r: "release_pending payload nxt s = (s1, fresh)" by (cases "release_pending payload nxt s")
    have "progress S isn Q n (insert (nxt, payload) (set (held_segs s))) (s1, fresh)"
      using release_pending_progress[OF S inv nl nxt _ p(2), where Q = Q] p(1) Q n True r by simp
    from progress_check[OF this, of mx] True False r show ?thesis
      by (simp add: accept_def)
  qed
next
  case False
  have n: "rel isn nxt = n" "nxt < SEQ_MOD" "n \<le> length S" using inv nxt by (auto simp: stream_inv_def)
  have q: "sq < SEQ_MOD" "rel isn sq \<le> length S" using p(1) by (auto simp: piece_ok_def)
  have "\<not> rel isn sq < n"
    using before_rel[of isn sq nxt] p(3) n q(2) S by simp
  moreover have "rel isn sq \<noteq> n" using rel_inj[OF q(1) n(2), of isn] n(1) False by auto
  ultimately have ahead: "n < rel isn sq" by simp
  show ?thesis
  proof (cases "case map_of (held_segs s) sq of None \<Rightarrow> True | Some h \<Rightarrow> length h < length payload")
    case True
    from progress_check[OF hold_progress[where Q = Q, OF inv nl p(1,2) ahead Q(1) True], of mx] True False
    show ?thesis by (simp add: accept_def Let_def)
  next
    case no: False
    then have "sq \<in> set (keys (held_segs s))"
      using map_of_Some_keys[of "held_segs s" sq] by (auto split: option.splits simp del: set_map)
    then have "progress S isn Q n (insert (sq, payload) (set (held_segs s))) (s, [])"
      unfolding progress_def using inv Q(1) by (intro exI[of _ n]) auto
    from progress_check[OF this, of mx] no False show ?thesis
      by (simp add: accept_def Let_def)
  qed
qed

section \<open>Feeding a whole capture\<close>

fun feed_all :: "int \<Rightarrow> tcp_segment list \<Rightarrow> direction_stream \<Rightarrow> direction_stream \<times> bytes" where
  "feed_all mx [] s = (s, [])"
| "feed_all mx (sg # sgs) s =
     (let (s1, d) = stream_feed mx sg s; (s2, e) = feed_all mx sgs s1 in (s2, d @ e))"

text \<open>Segments of a sample flow, for the concrete instances below.\<close>

definition sample_segment :: "nat \<Rightarrow> bytes \<Rightarrow> tcp_segment" where
  "sample_segment sq p =
     \<lparr>sg_ts = 0, sg_src = ''10.0.0.1'', sg_sport = 40000, sg_dst = ''10.0.0.2'', sg_dport = 8000,
      sg_seq = sq, sg_syn = False, sg_ack = True, sg_fin = False, sg_rst = False, sg_payload = p\<rparr>"

definition sample_syn :: "nat \<Rightarrow> tcp_segment" where
  "sample_syn sq = (sample_segment sq [])\<lparr>sg_syn := True, sg_ack := False\<rparr>"

definition sample_fin :: "nat \<Rightarrow> tcp_segment" where
  "sample_fin sq = (sample_segment sq [])\<lparr>sg_fin := True\<rparr>"

definition honest :: "bytes \<Rightarrow> nat \<Rightarrow> tcp_segment \<Rightarrow> bool" where
  "honest S isn sg \<longleftrightarrow> sg_payload sg = [] \<or> piece_ok S isn (sg_seq sg, sg_payload sg)"

definition pieces :: "tcp_segment list \<Rightarrow> (nat \<times> bytes) set" where
  "pieces sgs = {(sg_seq sg, sg_payload sg) |sg. sg \<in> set sgs \<and> sg_payload sg \<noteq> []}"

lemma pieces_simps [simp]:
  "pieces [] = {}"
  "pieces (sg # sgs) = (if sg_payload sg = [] then pieces sgs else insert (sg_seq sg, sg_payload sg) (pieces sgs))"
  by (auto simp: pieces_def)

lemma note_segment_sel [simp]:
  "held_segs (note_segment sg s) = held_segs s" "lost (note_segment sg s) = lost s"
  "stranded (note_segment sg s) = stranded s" "retain (note_segment sg s) = retain s"
  "sdata (note_segment sg s) = sdata s"
  "next_seq s = Some n \<Longrightarrow> next_seq (note_segment sg s) = Some n"
  by (simp_all add: note_segment_def)

lemma stream_inv_note: "stream_inv S isn n s \<Longrightarrow> stream_inv S isn n (note_segment sg s)"
  by (auto simp: stream_inv_def)

text \<open>The pieces fed so far are before the stream's position or held, unless the stream is lost.\<close>

definition fed_inv :: "bytes \<Rightarrow> nat \<Rightarrow> (nat \<Rightarrow> bool) \<Rightarrow> nat \<Rightarrow> (nat \<times> bytes) set \<Rightarrow> direction_stream \<Rightarrow> bool" where
  "fed_inv S isn Q n fed s \<longleftrightarrow>
     stream_inv S isn n s \<and> Q n \<and> set (held_segs s) \<subseteq> fed \<and>
     (\<not> lost s \<longrightarrow> (\<forall>qp \<in> fed. rel isn (fst qp) < n \<or> fst qp \<in> set (keys (held_segs s))))"

lemma feed_step:
  assumes S: "length S < HALF" and inv: "fed_inv S isn Q n fed s" and h: "honest S isn sg"
    and Q: "\<forall>qp \<in> fed \<union> pieces [sg]. Q (rel isn (fst qp) + length (snd qp))"
  shows "\<exists>m. fed_inv S isn Q m (fed \<union> pieces [sg]) (fst (stream_feed mx sg s)) \<and> n \<le> m \<and>
    snd (stream_feed mx sg s) = pslice S n m"
proof -
  let ?s = "note_segment sg s"
  obtain nxt where nxt: "next_seq s = Some nxt" "nxt < SEQ_MOD" "rel isn nxt = n" and le: "n \<le> length S"
    using inv by (auto simp: fed_inv_def stream_inv_def)
  have n1: "next_seq ?s = Some nxt" and inv1: "stream_inv S isn n ?s"
    using inv nxt(1) by (simp_all add: stream_inv_note fed_inv_def)
  show ?thesis
  proof (cases "sg_payload sg = [] \<or> lost s \<or> before (sg_seq sg) nxt")
    case True
    have "rel isn (sg_seq sg) < n" if "before (sg_seq sg) nxt" "sg_payload sg \<noteq> []"
      using before_rel[of isn "sg_seq sg" nxt] that h nxt le S by (auto simp: honest_def piece_ok_def)
    moreover have "stream_feed mx sg s = (?s, [])"
      using True n1 by (simp add: stream_feed_def Let_def)
    ultimately show ?thesis
      using True inv inv1 by (intro exI[of _ n]) (auto simp: fed_inv_def)
  next
    case False
    then have p: "piece_ok S isn (sg_seq sg, sg_payload sg)" "sg_payload sg \<noteq> []" "\<not> before (sg_seq sg) nxt"
      using h by (auto simp: honest_def)
    have feed: "stream_feed mx sg s = accept mx nxt (sg_seq sg) (sg_payload sg) ?s"
      using False n1 by (simp add: stream_feed_def Let_def)
    have "progress S isn Q n (insert (sg_seq sg, sg_payload sg) (set (held_segs ?s))) (stream_feed mx sg s)"
      unfolding feed
      by (rule accept_progress[where Q = Q, OF S inv1 _ n1 p]) (use inv False Q in \<open>auto simp: fed_inv_def\<close>)
    then obtain m where m: "stream_inv S isn m (fst (stream_feed mx sg s))" "n \<le> m"
      "snd (stream_feed mx sg s) = pslice S n m" "Q m"
      "set (held_segs (fst (stream_feed mx sg s))) \<subseteq> insert (sg_seq sg, sg_payload sg) (set (held_segs s))"
      "\<not> lost (fst (stream_feed mx sg s)) \<Longrightarrow>
         \<forall>qp \<in> insert (sg_seq sg, sg_payload sg) (set (held_segs s)).
           rel isn (fst qp) < m \<or> fst qp \<in> set (keys (held_segs (fst (stream_feed mx sg s))))"
      by (auto simp: progress_def)
    have fed: "set (held_segs s) \<subseteq> fed" "\<forall>qp \<in> fed. rel isn (fst qp) < n \<or> fst qp \<in> set (keys (held_segs s))"
      using inv False by (auto simp: fed_inv_def)
    have "rel isn (fst qp) < m \<or> fst qp \<in> set (keys (held_segs (fst (stream_feed mx sg s))))"
      if nl: "\<not> lost (fst (stream_feed mx sg s))" and qp: "qp \<in> fed \<union> pieces [sg]" for qp
    proof (cases "qp \<in> fed \<and> rel isn (fst qp) < n")
      case True
      then show ?thesis using m(2) by simp
    next
      case False
      then have "fst qp \<in> fst ` insert (sg_seq sg, sg_payload sg) (set (held_segs s))"
        using qp fed(2) p(2) by auto
      then obtain r where "fst qp = fst r" "r \<in> insert (sg_seq sg, sg_payload sg) (set (held_segs s))"
        by (rule imageE)
      with m(6)[OF nl] show ?thesis by metis
    qed
    then have "fed_inv S isn Q m (fed \<union> pieces [sg]) (fst (stream_feed mx sg s))"
      using m(1,4,5) fed(1) p(2) by (auto simp: fed_inv_def)
    with m(2,3) show ?thesis by blast
  qed
qed

lemma feed_all_step:
  assumes "length S < HALF" "fed_inv S isn Q n fed s" "\<forall>sg \<in> set sgs. honest S isn sg"
    "\<forall>qp \<in> fed \<union> pieces sgs. Q (rel isn (fst qp) + length (snd qp))"
  shows "\<exists>m. fed_inv S isn Q m (fed \<union> pieces sgs) (fst (feed_all mx sgs s)) \<and> n \<le> m \<and>
    snd (feed_all mx sgs s) = pslice S n m"
  using assms
proof (induction sgs arbitrary: s n fed)
  case (Cons sg sgs)
  have split: "pieces (sg # sgs) = pieces [sg] \<union> pieces sgs" by auto
  obtain m where m: "fed_inv S isn Q m (fed \<union> pieces [sg]) (fst (stream_feed mx sg s))" "n \<le> m"
    "snd (stream_feed mx sg s) = pslice S n m"
    using feed_step[of S isn Q n fed s sg mx] Cons.prems split by auto
  have "\<exists>k. fed_inv S isn Q k (fed \<union> pieces [sg] \<union> pieces sgs) (fst (feed_all mx sgs (fst (stream_feed mx sg s)))) \<and>
      m \<le> k \<and> snd (feed_all mx sgs (fst (stream_feed mx sg s))) = pslice S m k"
    using Cons.prems split by (intro Cons.IH[OF _ m(1)]) auto
  then obtain k where k: "fed_inv S isn Q k (fed \<union> pieces [sg] \<union> pieces sgs)
      (fst (feed_all mx sgs (fst (stream_feed mx sg s))))" "m \<le> k"
    "snd (feed_all mx sgs (fst (stream_feed mx sg s))) = pslice S m k"
    by blast
  have "pslice S n m @ pslice S m k = pslice S n k" using m(2) k(2) by (rule pslice_append)
  with m k show ?case
    unfolding split by (intro exI[of _ k]) (simp add: case_prod_beta Let_def Un_assoc)
qed auto

text \<open>A SYN without data makes the stream ready at position 0.\<close>

lemma syn_ready:
  assumes "sg_syn syn" "sg_payload syn = []" "isn = (sg_seq syn + 1) mod SEQ_MOD" "Q 0"
  shows "fed_inv S isn Q 0 {} (fst (stream_feed mx syn (new_stream keep)))"
    "snd (stream_feed mx syn (new_stream keep)) = []"
  using assms by (simp_all add: stream_feed_def note_segment_def new_stream_def Let_def fed_inv_def
      stream_inv_def)

lemma feed_all_syn:
  assumes S: "length S < HALF" and syn: "sg_syn syn" "sg_payload syn = []" "isn = (sg_seq syn + 1) mod SEQ_MOD"
    and h: "\<forall>sg \<in> set sgs. honest S isn sg"
    and Q: "Q 0" "\<forall>qp \<in> pieces sgs. Q (rel isn (fst qp) + length (snd qp))"
  shows "\<exists>m. fed_inv S isn Q m (pieces sgs) (fst (feed_all mx (syn # sgs) (new_stream keep))) \<and>
    snd (feed_all mx (syn # sgs) (new_stream keep)) = pslice S 0 m"
proof -
  have i: "fed_inv S isn Q 0 {} (fst (stream_feed mx syn (new_stream keep)))"
    "snd (stream_feed mx syn (new_stream keep)) = []"
    using syn_ready[OF syn] Q(1) by auto
  from feed_all_step[OF S i(1) h, of mx] Q(2) i(2) show ?thesis
    by (auto simp: case_prod_beta Let_def)
qed

section \<open>What the stream is worth\<close>

text \<open>
  The first segment of a direction sets its position: a SYN to the number after its own, any other to its
  own. What is done with the segment itself is what is done with it at that position.
\<close>

definition joined_at :: "tcp_segment \<Rightarrow> nat" where
  "joined_at sg = (if sg_syn sg then (sg_seq sg + 1) mod SEQ_MOD else sg_seq sg)"

lemma feed_first:
  "feed_all mx (sg # sgs) (new_stream keep) = feed_all mx (sg # sgs) ((new_stream keep)\<lparr>next_seq := Some (joined_at sg)\<rparr>)"
proof -
  have "note_segment sg (new_stream keep) = note_segment sg ((new_stream keep)\<lparr>next_seq := Some (joined_at sg)\<rparr>)"
    by (simp add: note_segment_def new_stream_def joined_at_def)
  then have "stream_feed mx sg (new_stream keep) = stream_feed mx sg ((new_stream keep)\<lparr>next_seq := Some (joined_at sg)\<rparr>)"
    unfolding stream_feed_def by (simp only:)
  then show ?thesis by (simp only: feed_all.simps)
qed

text \<open>C13: Reassembly never invents, reorders or repeats bytes. The segments of one direction carry, at
  their sequence numbers modulo 2^32, parts of a stream of less than 2^31 bytes. Whatever their order,
  duplication and overlap, and whether or not a hole is given up on, the bytes handed downstream are one
  contiguous run of that stream, from the position the first segment sets: the stream's start, and so a
  prefix of it, when that is the SYN; where that segment begins, when the connection is joined midway.\<close>

theorem reassembly_prefix:
  assumes "length S < HALF" and h: "\<forall>sg \<in> set (sg0 # sgs). honest S isn sg"
    and first: "joined_at sg0 < SEQ_MOD" "rel isn (joined_at sg0) \<le> length S"
  shows "\<exists>m. rel isn (joined_at sg0) \<le> m \<and> m \<le> length S \<and>
    snd (feed_all mx (sg0 # sgs) (new_stream keep)) = pslice S (rel isn (joined_at sg0)) m \<and>
    (sg_syn sg0 \<and> isn = (sg_seq sg0 + 1) mod SEQ_MOD \<longrightarrow>
       snd (feed_all mx (sg0 # sgs) (new_stream keep)) = take m S)"
proof -
  have "fed_inv S isn (\<lambda>_. True) (rel isn (joined_at sg0)) {} ((new_stream keep)\<lparr>next_seq := Some (joined_at sg0)\<rparr>)"
    using first by (simp add: fed_inv_def stream_inv_def new_stream_def)
  from feed_all_step[OF assms(1) this h, of mx]
  obtain m where m: "fed_inv S isn (\<lambda>_. True) m (pieces (sg0 # sgs)) (fst (feed_all mx (sg0 # sgs) (new_stream keep)))"
    "rel isn (joined_at sg0) \<le> m"
    "snd (feed_all mx (sg0 # sgs) (new_stream keep)) = pslice S (rel isn (joined_at sg0)) m"
    unfolding feed_first[symmetric] by auto
  moreover have "pslice S (rel isn (joined_at sg0)) m = take m S"
    if "sg_syn sg0" "isn = (sg_seq sg0 + 1) mod SEQ_MOD"
    using that by (simp add: joined_at_def pslice_def)
  ultimately show ?thesis
    by (intro exI[of _ m]) (simp add: fed_inv_def stream_inv_def)
qed

text \<open>A list of pieces that leads from the start of the stream to its end.\<close>

definition covers :: "bytes \<Rightarrow> nat \<Rightarrow> (nat \<times> bytes) set \<Rightarrow> bool" where
  "covers S isn ps \<longleftrightarrow>
     (\<forall>x \<in> insert 0 ((\<lambda>qp. rel isn (fst qp) + length (snd qp)) ` ps).
        x = length S \<or> x \<in> (rel isn \<circ> fst) ` ps)"

text \<open>A stream whose sequence numbers wrap, its two halves seen in the wrong order.\<close>

lemmas sample_simps = sample_segment_def sample_syn_def sample_fin_def honest_def piece_ok_def rel_def
  pslice_def SEQ_MOD_def HALF_def covers_def

theorem reassembly_prefix_witness:
  "\<exists>m. 2 \<le> m \<and> m \<le> length [1, 2, 3, 4 :: byte] \<and>
     snd (feed_all 100 [sample_segment 0 [3, 4], sample_segment 4294967294 [1, 2]] (new_stream True)) =
       pslice [1, 2, 3, 4] 2 m"
  using reassembly_prefix[of "[1, 2, 3, 4]" "sample_segment 0 [3, 4]" "[sample_segment 4294967294 [1, 2]]" 4294967294 100 True]
  by (simp add: sample_simps joined_at_def del: feed_all.simps)

text \<open>C12: Reassembly loses nothing of a stream it is given in matching pieces. The segments of one direction,
  its SYN first, carry parts of a stream of less than 2^31 bytes in any order and as often as they are
  retransmitted, across the wrap of the sequence numbers. If the stream begins where one of them begins, and
  each ends where one begins or where the stream ends, and no hole was given up on, then exactly the stream
  is handed downstream. Retransmissions that cut the stream at other points are no pieces of that kind: a
  segment that begins before the position is dropped whole, the code does not trim it.\<close>

theorem reassembly_complete:
  assumes S: "length S < HALF" and syn: "sg_syn syn" "sg_payload syn = []" "isn = (sg_seq syn + 1) mod SEQ_MOD"
    and h: "\<forall>sg \<in> set sgs. honest S isn sg" and c: "covers S isn (pieces sgs)"
    and nl: "\<not> lost (fst (feed_all mx (syn # sgs) (new_stream keep)))"
  shows "snd (feed_all mx (syn # sgs) (new_stream keep)) = S"
proof -
  let ?Q = "\<lambda>x. x = length S \<or> x \<in> (rel isn \<circ> fst) ` pieces sgs"
  let ?s = "fst (feed_all mx (syn # sgs) (new_stream keep))"
  have Q: "?Q 0" "\<forall>qp \<in> pieces sgs. ?Q (rel isn (fst qp) + length (snd qp))"
    using c by (auto simp: covers_def)
  obtain m where m: "fed_inv S isn ?Q m (pieces sgs) ?s"
    "snd (feed_all mx (syn # sgs) (new_stream keep)) = pslice S 0 m"
    using feed_all_syn[where Q = ?Q, OF S syn h Q, of mx keep] by blast
  have "m = length S"
  proof (rule ccontr)
    assume "m \<noteq> length S"
    then obtain qp where qp: "qp \<in> pieces sgs" "rel isn (fst qp) = m"
      using m(1) by (auto simp: fed_inv_def)
    then have "fst qp \<in> set (keys (held_segs ?s))" using m(1) nl by (auto simp: fed_inv_def simp del: set_map)
    then obtain r where "r \<in> set (held_segs ?s)" "fst r = fst qp" by auto
    then have "m < rel isn (fst qp)" using m(1) by (auto simp: fed_inv_def stream_inv_def)
    with qp(2) show False by simp
  qed
  with m(2) show ?thesis by simp
qed

theorem reassembly_complete_witness:
  "snd (feed_all 100 [sample_syn 4294967293, sample_segment 0 [3, 4], sample_segment 4294967294 [1, 2]]
     (new_stream True)) = [1, 2, 3, 4]"
proof (rule reassembly_complete[of _ _ 4294967294])
  show "\<not> lost (fst (feed_all 100 [sample_syn 4294967293, sample_segment 0 [3, 4],
      sample_segment 4294967294 [1, 2]] (new_stream True)))"
    by (simp add: sample_simps new_stream_def stream_feed_def note_segment_def before_def accept_def
        check_stranded_def release_pending_def release_loop.simps Let_def drop_stale_def)
qed (simp_all add: sample_simps)

text \<open>The FIN a stream ends up with comes from one of its segments.\<close>

lemma accept_fin [simp]: "fin_seq (fst (accept mx nxt sq p s)) = fin_seq s"
  by (auto simp: accept_def Let_def check_stranded_def abandon_def release_pending_def case_prod_beta
      split: option.splits)

lemma feed_fin: "fin_seq (fst (stream_feed mx sg s)) =
    (if sg_fin sg then Some ((sg_seq sg + length (sg_payload sg)) mod SEQ_MOD) else fin_seq s)"
  by (simp add: stream_feed_def Let_def note_segment_def)

lemma feed_all_fin:
  "fin_seq (fst (feed_all mx sgs s)) = Some f \<Longrightarrow>
   fin_seq s = Some f \<or> (\<exists>sg \<in> set sgs. sg_fin sg \<and> f = (sg_seq sg + length (sg_payload sg)) mod SEQ_MOD)"
proof (induction sgs arbitrary: s)
  case (Cons sg sgs)
  then have "fin_seq (fst (feed_all mx sgs (fst (stream_feed mx sg s)))) = Some f"
    by (simp add: case_prod_beta Let_def)
  from Cons.IH[OF this] show ?case by (auto simp: feed_fin split: if_splits)
qed simp

text \<open>A direction counts as closed only when every byte before its FIN has been handed downstream,
  however early the FIN itself arrived.\<close>

theorem closed_delivers_all:
  assumes S: "length S < HALF" and syn: "sg_syn syn" "sg_payload syn = []" "isn = (sg_seq syn + 1) mod SEQ_MOD"
    and h: "\<forall>sg \<in> set sgs. honest S isn sg"
    and fin: "\<not> sg_fin syn"
      "\<forall>sg \<in> set sgs. sg_fin sg \<longrightarrow> rel isn ((sg_seq sg + length (sg_payload sg)) mod SEQ_MOD) = length S"
    and closed: "stream_closed (fst (feed_all mx (syn # sgs) (new_stream keep)))"
  shows "snd (feed_all mx (syn # sgs) (new_stream keep)) = S"
proof -
  let ?s = "fst (feed_all mx (syn # sgs) (new_stream keep))"
  obtain m where m: "fed_inv S isn (\<lambda>_. True) m (pieces sgs) ?s"
    "snd (feed_all mx (syn # sgs) (new_stream keep)) = pslice S 0 m"
    using feed_all_syn[OF S syn h, of "\<lambda>_. True" mx keep] by auto
  obtain f n where f: "fin_seq ?s = Some f" "next_seq ?s = Some n" "\<not> before n f"
    using closed by (auto simp: stream_closed_def split: option.splits)
  have "rel isn f = length S"
    using feed_all_fin[OF f(1)] fin by (auto simp: new_stream_def)
  moreover have "rel isn n = m" "m \<le> length S"
    using m(1) f(2) by (auto simp: fed_inv_def stream_inv_def)
  ultimately have "m = length S"
    using before_rel[of isn n f] f(3) S by simp
  with m(2) show ?thesis by simp
qed

theorem closed_delivers_all_witness:
  "snd (feed_all 100 [sample_syn 4294967293, sample_fin 0, sample_segment 4294967294 [1, 2]]
     (new_stream True)) = [1, 2]"
proof (rule closed_delivers_all[of _ _ 4294967294])
  show "stream_closed (fst (feed_all 100 [sample_syn 4294967293, sample_fin 0,
      sample_segment 4294967294 [1, 2]] (new_stream True)))"
    by (simp add: sample_simps new_stream_def stream_feed_def note_segment_def before_def accept_def
        check_stranded_def release_pending_def release_loop.simps Let_def stream_closed_def)
qed (simp_all add: sample_simps)

section \<open>The bound on what is held\<close>

lemma release_loop_bytes:
  assumes "distinct (keys held)" "release_loop nxt held (held_bytes held) chunks = (nxt', held', str', fresh)"
  shows "distinct (keys held') \<and> str' = held_bytes held'"
  using assms
proof (induction "length held" arbitrary: nxt held chunks rule: less_induct)
  case less
  show ?case
  proof (cases "map_of held nxt")
    case None
    with less.prems show ?thesis by (subst (asm) release_loop.simps) auto
  next
    case (Some p)
    have "held_bytes held - int (length p) = held_bytes (AList.delete nxt held)"
      using dsum_delete[OF less.prems(1) Some, of length] by (simp add: held_bytes_def)
    then have "release_loop ((nxt + length p) mod SEQ_MOD) (AList.delete nxt held)
        (held_bytes (AList.delete nxt held)) (chunks @ p) = (nxt', held', str', fresh)"
      using less.prems(2) Some by (subst (asm) release_loop.simps) simp
    then show ?thesis
      using less.hyps length_delete_less[OF Some] distinct_delete[OF less.prems(1)] by blast
  qed
qed

definition held_ok :: "int \<Rightarrow> direction_stream \<Rightarrow> bool" where
  "held_ok mx s \<longleftrightarrow>
     distinct (keys (held_segs s)) \<and> stranded s = held_bytes (held_segs s) \<and> stranded s \<le> mx"

lemma held_ok_check:
  "0 \<le> mx \<Longrightarrow> distinct (keys (held_segs s)) \<Longrightarrow> stranded s = held_bytes (held_segs s) \<Longrightarrow>
   held_ok mx (check_stranded mx s)"
  by (simp add: held_ok_def check_stranded_def abandon_def)

lemma release_pending_held:
  assumes "distinct (keys (held_segs s))" "stranded s = held_bytes (held_segs s)"
  shows "distinct (keys (held_segs (fst (release_pending p n s)))) \<and>
    stranded (fst (release_pending p n s)) = held_bytes (held_segs (fst (release_pending p n s)))"
proof -
  obtain nxt held str fresh where r:
    "release_loop ((n + length p) mod SEQ_MOD) (held_segs s) (stranded s) p = (nxt, held, str, fresh)"
    by (cases "release_loop ((n + length p) mod SEQ_MOD) (held_segs s) (stranded s) p")
  then have h: "distinct (keys held)" "str = held_bytes held"
    using release_loop_bytes[OF assms(1)] assms(2) by auto
  then show ?thesis
    using r drop_stale_spec[OF h(1), of nxt]
    by (auto simp: release_pending_def distinct_map_filter)
qed

lemma accept_held_ok:
  assumes "0 \<le> mx" "held_ok mx s"
  shows "held_ok mx (fst (accept mx nxt sq p s))"
proof (cases "sq = nxt")
  case True
  show ?thesis
  proof (cases "held_segs s = []")
    case True
    with \<open>sq = nxt\<close> assms show ?thesis by (simp add: accept_def held_ok_def)
  next
    case False
    with True assms release_pending_held[of s p nxt] show ?thesis
      by (auto simp: accept_def case_prod_beta held_ok_def[of _ s] intro: held_ok_check)
  qed
next
  case False
  let ?s = "s\<lparr>held_segs := dset sq p (held_segs s),
       stranded := stranded s + int (length p)
         - (case map_of (held_segs s) sq of None \<Rightarrow> 0 | Some h \<Rightarrow> int (length h))\<rparr>"
  have "stranded ?s = held_bytes (held_segs ?s)"
  proof (cases "map_of (held_segs s) sq")
    case (Some h)
    with assms(2) dsum_ge[OF Some, of length] show ?thesis
      by (simp add: held_ok_def held_bytes_def dsum_dset)
  qed (use assms(2) in \<open>simp add: held_ok_def held_bytes_def dsum_dset\<close>)
  moreover have "distinct (keys (held_segs ?s))" using assms(2) by (simp add: held_ok_def distinct_update)
  ultimately have "held_ok mx (check_stranded mx ?s)" "held_ok mx (check_stranded mx s)"
    using assms held_ok_check by (auto simp: held_ok_def[of _ s])
  with False show ?thesis by (simp add: accept_def Let_def)
qed

lemma feed_held_ok: "0 \<le> mx \<Longrightarrow> held_ok mx s \<Longrightarrow> held_ok mx (fst (stream_feed mx sg s))"
  using accept_held_ok[of mx "note_segment sg s"]
  by (simp add: stream_feed_def Let_def held_ok_def[of _ s] held_ok_def[of _ "note_segment sg s"])

lemma feed_all_held_ok: "0 \<le> mx \<Longrightarrow> held_ok mx s \<Longrightarrow> held_ok mx (fst (feed_all mx sgs s))"
  by (induction sgs arbitrary: s) (simp_all add: Let_def case_prod_beta feed_held_ok)

text \<open>A stalled direction costs bounded memory: after any segments, genuine or not, the bytes held
  out of order are exactly what \<open>_stranded\<close> says and never exceed the configured limit.\<close>

theorem stranded_bounded:
  assumes "0 \<le> mx"
  shows "held_ok mx (fst (feed_all mx sgs (new_stream keep)))"
  using assms by (intro feed_all_held_ok) (simp_all add: held_ok_def new_stream_def)

theorem stranded_bounded_witness:
  "held_ok 3 (fst (feed_all 3 [sample_syn 0, sample_segment 3 [3, 4], sample_segment 9 [5, 6]] (new_stream True)))"
  by (rule stranded_bounded) simp

section \<open>The connection table\<close>

text \<open>Both directions of a connection find the same entry, and no two connections share one.\<close>

lemma connection_key_eq:
  "connection_key a b = connection_key c d \<longleftrightarrow> a = c \<and> b = d \<or> a = d \<and> b = c"
  by (auto simp: connection_key_def)

definition seg_key :: "tcp_segment \<Rightarrow> connection_key" where
  "seg_key sg = connection_key (Endpoint (sg_src sg) (sg_sport sg)) (Endpoint (sg_dst sg) (sg_dport sg))"

definition table_inv :: "table \<Rightarrow> bool" where
  "table_inv t \<longleftrightarrow>
     distinct (keys (tb_conns t)) \<and> distinct (keys (tb_closed t)) \<and>
     set (keys (tb_conns t)) \<inter> set (keys (tb_closed t)) = {} \<and>
     length (tb_closed t) \<le> CLOSED_MEMORY \<and>
     (\<forall>kc \<in> set (tb_conns t). \<not> conn_complete (snd kc))"

lemma trim_closed_eq: "trim_closed cs = drop (length cs - CLOSED_MEMORY) cs"
proof (induction cs rule: trim_closed.induct)
  case (1 cs)
  show ?case
  proof (cases "CLOSED_MEMORY < length cs")
    case True
    with 1 have "trim_closed cs = drop (length (tl cs) - CLOSED_MEMORY) (tl cs)"
      by (simp add: trim_closed.simps[of cs])
    also have "\<dots> = drop (length cs - CLOSED_MEMORY) cs"
      using True by (cases cs) (simp_all add: Suc_diff_le less_Suc_eq_le)
    finally show ?thesis .
  qed (simp add: trim_closed.simps[of cs])
qed

lemma trim_closed_sub: "set (keys (trim_closed cs)) \<subseteq> set (keys cs)"
  by (auto simp: trim_closed_eq dest: in_set_dropD)

lemma trim_closed_distinct: "distinct (keys cs) \<Longrightarrow> distinct (keys (trim_closed cs))"
  by (simp add: trim_closed_eq drop_map[symmetric])

lemma trim_closed_length: "length (trim_closed cs) \<le> CLOSED_MEMORY"
  by (simp add: trim_closed_eq)

lemma open_connection_cases:
  assumes "table_inv t" "open_connection sg t = Some (c0, gone)"
  shows "distinct (keys gone) \<and> set (keys gone) \<subseteq> set (keys (tb_closed t)) \<and>
    seg_key sg \<notin> set (keys gone) \<and> length gone \<le> CLOSED_MEMORY"
proof (cases "map_of (tb_conns t) (seg_key sg)")
  case (Some c)
  then have "gone = tb_closed t" using assms(2) by (simp add: open_connection_def seg_key_def Let_def)
  moreover have "seg_key sg \<in> set (keys (tb_conns t))" using Some by (rule map_of_Some_keys)
  ultimately show ?thesis using assms(1) by (auto simp: table_inv_def)
next
  case None
  then have "gone = AList.delete (seg_key sg) (tb_closed t)"
    using assms(2) by (auto simp: open_connection_def seg_key_def Let_def case_prod_beta split: if_splits)
  then show ?thesis
    using assms(1) length_delete_le[of "seg_key sg" "tb_closed t"]
    by (auto simp: table_inv_def delete_keys distinct_removeAll)
qed

lemma feed_inv:
  assumes "table_inv t"
  shows "table_inv (snd (table_feed mx sg t))"
proof (cases "open_connection sg t")
  case None
  with assms show ?thesis by (simp add: table_feed_def Let_def)
next
  case (Some cg)
  obtain c0 gone where cg: "cg = (c0, gone)" by (cases cg)
  have g: "distinct (keys gone)" "set (keys gone) \<subseteq> set (keys (tb_closed t))"
    "seg_key sg \<notin> set (keys gone)" "length gone \<le> CLOSED_MEMORY"
    using open_connection_cases[OF assms] Some cg by blast+
  let ?s = "stream_feed mx sg (conn_stream (Endpoint (sg_src sg) (sg_sport sg)) c0)"
  let ?c1 = "put_stream (Endpoint (sg_src sg) (sg_sport sg)) (fst ?s) c0"
  let ?c = "if sg_rst sg then ?c1\<lparr>conn_rst := True\<rparr> else ?c1"
  have step: "snd (table_feed mx sg t) =
      t\<lparr>tb_conns := (if conn_complete ?c then AList.delete (seg_key sg) (tb_conns t)
                     else dset (seg_key sg) ?c (tb_conns t)),
        tb_closed := (if conn_complete ?c then trim_closed (dset (seg_key sg) () gone) else gone)\<rparr>"
    using Some cg by (simp add: table_feed_def Let_def case_prod_beta seg_key_def)
  have inv: "distinct (keys (tb_conns t))" "set (keys (tb_conns t)) \<inter> set (keys gone) = {}"
    "\<forall>kc \<in> set (tb_conns t). \<not> conn_complete (snd kc)"
    using assms g(2) by (auto simp: table_inv_def)
  show ?thesis
  proof (cases "conn_complete ?c")
    case True
    have "distinct (keys (dset (seg_key sg) () gone))" using g(1) by (simp add: distinct_update)
    moreover have "set (keys (trim_closed (dset (seg_key sg) () gone))) \<subseteq> insert (seg_key sg) (set (keys gone))"
      using trim_closed_sub[of "dset (seg_key sg) () gone"] keys_dset_set[of "seg_key sg" "()" gone]
      by (simp only:)
    moreover have "\<forall>kc \<in> set (AList.delete (seg_key sg) (tb_conns t)). \<not> conn_complete (snd kc)"
      using inv(3) by (auto simp: AList.delete_eq)
    moreover have "distinct (keys (AList.delete (seg_key sg) (tb_conns t)))"
      "set (keys (AList.delete (seg_key sg) (tb_conns t))) = set (keys (tb_conns t)) - {seg_key sg}"
      using inv(1) by (simp_all add: delete_keys distinct_removeAll del: set_map)
    ultimately have "distinct (keys (trim_closed (dset (seg_key sg) () gone)))"
      "set (keys (AList.delete (seg_key sg) (tb_conns t))) \<inter> set (keys (trim_closed (dset (seg_key sg) () gone))) = {}"
      "distinct (keys (AList.delete (seg_key sg) (tb_conns t)))"
      "\<forall>kc \<in> set (AList.delete (seg_key sg) (tb_conns t)). \<not> conn_complete (snd kc)"
      using inv(2) trim_closed_distinct by blast+
    then show ?thesis
      using True trim_closed_length unfolding step table_inv_def
      by (simp del: set_map)
  next
    case False
    have "\<forall>kc \<in> set (dset (seg_key sg) ?c (tb_conns t)). \<not> conn_complete (snd kc)"
      using inv(3) False set_dset_subset[of "seg_key sg" ?c "tb_conns t"] by fastforce
    moreover have "set (keys (dset (seg_key sg) ?c (tb_conns t))) = insert (seg_key sg) (set (keys (tb_conns t)))"
      by (rule keys_dset_set)
    ultimately show ?thesis
      using inv g(1,3,4) False unfolding step table_inv_def
      by (simp add: distinct_update del: set_map)
  qed
qed

lemma filter_table_inv: "table_inv t \<Longrightarrow> table_inv (t\<lparr>tb_conns := filter P (tb_conns t)\<rparr>)"
  by (auto simp: table_inv_def distinct_map inj_on_def)

text \<open>What \<open>SegmentProcessor\<close> does with its table: feed, the idle sweep, and the drain at the end.\<close>

datatype table_op = Op_feed tcp_segment | Op_idle real real | Op_drain

fun table_step :: "int \<Rightarrow> table_op \<Rightarrow> table \<Rightarrow> table" where
  "table_step mx (Op_feed sg) t = snd (table_feed mx sg t)"
| "table_step mx (Op_idle now timeout) t = snd (idle_flush now timeout t)"
| "table_step mx Op_drain t = snd (drain t)"

lemma table_step_inv: "table_inv t \<Longrightarrow> table_inv (table_step mx x t)"
  using feed_inv[of t mx] filter_table_inv[of t] filter_table_inv[of t "\<lambda>_. False"]
  by (cases x) (simp_all add: idle_flush_def drain_def)

text \<open>The table stays consistent whatever is done with it: a connection is either open or remembered
  as closed, never both, complete connections are not kept open, and at most \<open>_CLOSED_MEMORY\<close> closed
  ones are remembered.\<close>

theorem table_run_inv: "table_inv (fold (table_step mx) ops (new_table keep))"
proof (induction ops rule: rev_induct)
  case Nil
  show ?case by (simp add: table_inv_def new_table_def)
next
  case (snoc x xs)
  then show ?case by (simp add: table_step_inv)
qed

text \<open>A late retransmission of a connection that has closed is dropped without a trace; only a SYN
  opens the pair of endpoints again.\<close>

theorem late_retransmit_dropped:
  assumes "table_inv t" "seg_key sg \<in> set (keys (tb_closed t))" "\<not> sg_syn sg"
  shows "table_feed mx sg t = (None, t)"
proof -
  have "seg_key sg \<notin> set (keys (tb_conns t))" using assms by (auto simp: table_inv_def)
  then have "map_of (tb_conns t) (seg_key sg) = None" "map_of (tb_closed t) (seg_key sg) \<noteq> None"
    using map_of_None_keys[of "tb_conns t" "seg_key sg"] map_of_None_keys[of "tb_closed t" "seg_key sg"]
      assms(2) by blast+
  then show ?thesis
    using assms(3) by (simp add: table_feed_def open_connection_def seg_key_def Let_def)
qed

text \<open>A connection closed by both ends, and a segment of it that arrives afterwards.\<close>

definition sample_closed :: table where
  "sample_closed = (new_table True)\<lparr>tb_closed := [(seg_key (sample_segment 0 []), ())]\<rparr>"

theorem late_retransmit_dropped_witness:
  "table_feed 100 (sample_segment 7 [1]) sample_closed = (None, sample_closed)"
  by (rule late_retransmit_dropped)
     (simp_all add: sample_closed_def table_inv_def new_table_def CLOSED_MEMORY_def sample_segment_def seg_key_def)

text \<open>The client is the endpoint that opened the connection, whichever of the two handshake segments
  the capture hands over first.\<close>

theorem handshake_names_client:
  assumes "sg_syn sg" "map_of (tb_conns t) (seg_key sg) = None"
    and "table_feed mx sg t = (Some d, t')"
  shows "initiator (dl_conn d) = (if sg_ack sg then Endpoint (sg_dst sg) (sg_dport sg)
                                  else Endpoint (sg_src sg) (sg_sport sg))"
  using assms
  by (auto simp: table_feed_def open_connection_def seg_key_def roles_def Let_def case_prod_beta
      put_stream_def split: if_splits)

text \<open>The responder's half of the handshake, seen first.\<close>

theorem handshake_names_client_witness:
  "\<exists>d t'. table_feed 100 ((sample_syn 7)\<lparr>sg_ack := True\<rparr>) (new_table True) = (Some d, t') \<and>
     initiator (dl_conn d) = Endpoint ''10.0.0.2'' 8000"
proof -
  let ?sg = "(sample_syn 7)\<lparr>sg_ack := True\<rparr>"
  have "fst (table_feed 100 ?sg (new_table True)) \<noteq> None"
    by (simp add: table_feed_def open_connection_def new_table_def sample_syn_def sample_segment_def
        Let_def case_prod_beta)
  then obtain d t' where d: "table_feed 100 ?sg (new_table True) = (Some d, t')"
    by (cases "table_feed 100 ?sg (new_table True)") auto
  moreover from handshake_names_client[OF _ _ d]
  have "initiator (dl_conn d) = Endpoint ''10.0.0.2'' 8000"
    by (simp add: sample_syn_def sample_segment_def new_table_def)
  ultimately show ?thesis by blast
qed

end
