(* ===== verification/Pipeline_Proofs.thy ===== *)
theory Pipeline_Proofs
  imports Pipeline Reassembly_Proofs
begin

text \<open>
  Routing keeps a connection on one worker and counts every segment once; a receiver process keeps
  its accountant's books through every turn, so that what it reports adds up to what its ring showed.
\<close>

section \<open>Flow keys\<close>

lemma be16_length: "be16 n = Some x \<Longrightarrow> length x = 2"
  by (auto simp: be16_def split: if_splits)

lemma be16_inj: "be16 m = Some x \<Longrightarrow> be16 n = Some x \<Longrightarrow> m = n"
proof -
  assume "be16 m = Some x" "be16 n = Some x"
  then have b: "m < 65536" "n < 65536" and
    w: "(word_of_nat (m div 256) :: byte) = word_of_nat (n div 256)"
       "(word_of_nat (m mod 256) :: byte) = word_of_nat (n mod 256)"
    by (auto simp: be16_def split: if_splits)
  have "unat (word_of_nat (k div 256) :: byte) = k div 256" "unat (word_of_nat (k mod 256) :: byte) = k mod 256"
    if "k < 65536" for k :: nat
    using that by (simp_all add: unat_of_small less_mult_imp_div_less)
  with b w have "m div 256 = n div 256" "m mod 256 = n mod 256" by metis+
  then show "m = n" by (metis div_mult_mod_eq)
qed

lemma flow_key_eq:
  assumes "flow_key ip sg = Some k"
  obtains a b l r where "endpoint_bytes ip (sg_src sg) (sg_sport sg) = Some a"
    "endpoint_bytes ip (sg_dst sg) (sg_dport sg) = Some b"
    "be16 (length (min a b)) = Some l" "be16 (length (max a b)) = Some r"
    "k = l @ min a b @ r @ max a b"
proof -
  obtain a b where e: "endpoint_bytes ip (sg_src sg) (sg_sport sg) = Some a"
    "endpoint_bytes ip (sg_dst sg) (sg_dport sg) = Some b"
    using assms by (auto simp: flow_key_def split: bind_splits)
  have ord: "(if b < a then (b, a) else (a, b)) = (min a b, max a b)"
    by (cases "b < a") (simp_all add: min_def max_def not_le [symmetric])
  show thesis
    using assms that[OF e] by (auto simp: flow_key_def e ord split: bind_splits)
qed

text \<open>The flow key is unambiguous: two segments with the same key have the same pair of encoded
  endpoints, in one order or the other.\<close>

theorem flow_key_separates:
  assumes "flow_key ip s = Some k" "flow_key ip t = Some k"
  shows "{endpoint_bytes ip (sg_src s) (sg_sport s), endpoint_bytes ip (sg_dst s) (sg_dport s)} =
         {endpoint_bytes ip (sg_src t) (sg_sport t), endpoint_bytes ip (sg_dst t) (sg_dport t)}"
proof -
  obtain a b l r where s: "endpoint_bytes ip (sg_src s) (sg_sport s) = Some a"
    "endpoint_bytes ip (sg_dst s) (sg_dport s) = Some b"
    "be16 (length (min a b)) = Some l" "be16 (length (max a b)) = Some r" "k = l @ min a b @ r @ max a b"
    using assms(1) by (rule flow_key_eq)
  obtain a' b' l' r' where t: "endpoint_bytes ip (sg_src t) (sg_sport t) = Some a'"
    "endpoint_bytes ip (sg_dst t) (sg_dport t) = Some b'"
    "be16 (length (min a' b')) = Some l'" "be16 (length (max a' b')) = Some r'"
    "k = l' @ min a' b' @ r' @ max a' b'"
    using assms(2) by (rule flow_key_eq)
  have "l = l'" "min a b @ r @ max a b = min a' b' @ r' @ max a' b'"
    using s(3,5) t(3,5) be16_length by (metis append_eq_append_conv)+
  moreover from this have "length (min a b) = length (min a' b')"
    using s(3) t(3) be16_inj by blast
  ultimately have "min a b = min a' b'" "r @ max a b = r' @ max a' b'" by simp_all
  moreover from this have "max a b = max a' b'"
    using s(4) t(4) be16_length by (metis append_eq_append_conv)
  moreover have "{a, b} = {min a b, max a b}" "{a', b'} = {min a' b', max a' b'}"
    by (auto simp: min_def max_def)
  ultimately have "{a, b} = {a', b'}" by simp
  then show ?thesis unfolding s(1,2) t(1,2) by (auto simp: doubleton_eq_iff)
qed

text \<open>A toy address parser: every address packs to one byte.\<close>

lemma sample_flow_key: "flow_key (\<lambda>_. Some (4, [1])) (sample_segment q p) = Some [0,4, 4,1,31,64, 0,4, 4,1,156,64]"
  by (simp add: flow_key_def endpoint_bytes_def be16_def sample_segment_def)

theorem flow_key_separates_witness:
  "{endpoint_bytes (\<lambda>_. Some (4, [1])) ''10.0.0.1'' 40000, endpoint_bytes (\<lambda>_. Some (4, [1])) ''10.0.0.2'' 8000} =
   {endpoint_bytes (\<lambda>_. Some (4, [1])) ''10.0.0.1'' 40000, endpoint_bytes (\<lambda>_. Some (4, [1])) ''10.0.0.2'' 8000}"
  using flow_key_separates[OF sample_flow_key[of 1 "[]"] sample_flow_key[of 2 "[8]"]]
  by (simp add: sample_segment_def)

lemma flow_key_swap:
  assumes "sg_src t = sg_dst s" "sg_sport t = sg_dport s" "sg_dst t = sg_src s" "sg_dport t = sg_sport s"
  shows "flow_key ip t = flow_key ip s"
  by (cases "endpoint_bytes ip (sg_src s) (sg_sport s)"; cases "endpoint_bytes ip (sg_dst s) (sg_dport s)")
     (auto simp: flow_key_def assms)

text \<open>A connection has one owner: all segments that reassembly files under one connection, both
  directions of it, are routed to the same flow worker, in every receiver process.\<close>

theorem one_worker_per_connection:
  assumes "seg_key s = seg_key t"
  shows "flow_shard blake ip s n = flow_shard blake ip t n"
proof -
  have "flow_key ip s = flow_key ip t"
    using assms flow_key_swap[of s t ip] unfolding seg_key_def connection_key_eq
    by (auto simp: flow_key_def)
  then show ?thesis by (simp add: flow_shard_def)
qed

theorem one_worker_per_connection_witness:
  "flow_shard length (\<lambda>_. Some (4, [1])) (sample_segment 1 [7]) 3 =
   flow_shard length (\<lambda>_. Some (4, [1])) ((sample_segment 9 [8])\<lparr>sg_src := ''10.0.0.2'', sg_sport := 8000,
     sg_dst := ''10.0.0.1'', sg_dport := 40000\<rparr>) 3"
  by (rule one_worker_per_connection) (simp add: seg_key_def sample_segment_def connection_key_eq)

section \<open>Routing\<close>

definition counters_ok :: "nat \<Rightarrow> nat \<Rightarrow> queues \<times> route_counters \<Rightarrow> bool" where
  "counters_ok maxsize n st \<longleftrightarrow>
     rt_seen (snd st) = n \<and>
     n = rt_excluded (snd st) + rt_ack_only (snd st) + rt_dispatched (snd st) + rt_queue_dropped (snd st) \<and>
     rt_dispatched (snd st) = sum_list (map length (fst st)) \<and>
     (\<forall>q \<in> set (fst st). length q \<le> maxsize)"

definition shard_ok :: "(tcp_segment \<Rightarrow> nat \<Rightarrow> nat option) \<Rightarrow> bool" where
  "shard_ok shard \<longleftrightarrow>
     (\<forall>sg n. sg_sport sg < 65536 \<and> sg_dport sg < 65536 \<and> 0 < n \<longrightarrow> (\<exists>k. shard sg n = Some k \<and> k < n))"

lemma sum_lengths_update:
  "i < length qs \<Longrightarrow> sum_list (map length (qs[i := qs ! i @ [x]])) = Suc (sum_list (map length qs))"
proof (induction qs arbitrary: i)
  case (Cons q qs)
  then show ?case by (cases i) auto
qed simp

lemma route_segment_ok:
  assumes "counters_ok mx n (qs, k)" "qs \<noteq> []" "\<exists>dest < length qs. shard sg (length qs) = Some dest"
  shows "\<exists>qs' k'. route_segment shard mx inc exc sg (qs, k) = Some (qs', k') \<and>
    counters_ok mx (Suc n) (qs', k') \<and> length qs' = length qs"
proof -
  obtain dest where d: "shard sg (length qs) = Some dest" "dest < length qs"
    using assms(3) by blast
  have upd: "\<forall>q \<in> set (qs[dest := qs ! dest @ [sg]]). length q \<le> mx" if "\<not> mx \<le> length (qs ! dest)"
    using assms(1) that set_update_subset_insert[of qs dest "qs ! dest @ [sg]"]
    by (fastforce simp: counters_ok_def)
  show ?thesis
    using assms(1) d upd sum_lengths_update[OF d(2), of sg]
    by (auto simp: route_segment_def counters_ok_def Let_def)
qed

lemma route_all_ok:
  assumes "counters_ok mx n (qs, k)" "qs \<noteq> []"
    "\<forall>sg \<in> set sgs. \<exists>dest < length qs. shard sg (length qs) = Some dest"
  shows "\<exists>qs' k'. route_all shard mx inc exc sgs (qs, k) = Some (qs', k') \<and>
    counters_ok mx (n + length sgs) (qs', k') \<and> length qs' = length qs"
  using assms
proof (induction sgs arbitrary: qs k n)
  case (Cons sg sgs)
  obtain qs1 k1 where s: "route_segment shard mx inc exc sg (qs, k) = Some (qs1, k1)"
    "counters_ok mx (Suc n) (qs1, k1)" "length qs1 = length qs"
    using route_segment_ok[OF Cons.prems(1,2), of shard sg inc exc] Cons.prems(3) by auto
  have "qs1 \<noteq> []" using s(3) Cons.prems(2) by auto
  moreover have "\<forall>sg \<in> set sgs. \<exists>dest < length qs1. shard sg (length qs1) = Some dest"
    using Cons.prems(3) s(3) by simp
  ultimately show ?case using Cons.IH[OF s(2)] s by auto
qed auto

text \<open>Routing accounts for every segment: it is excluded, a pure ACK, dispatched to exactly one
  worker queue or dropped at a full one, the counters add up to the segments seen, and no queue
  grows past its bound.\<close>

theorem routing_accounts:
  assumes "0 < workers" "\<forall>sg \<in> set sgs. flow_key ip sg \<noteq> None"
  shows "\<exists>qs k. route_all (flow_shard blake ip) mx inc exc sgs (replicate workers [], zero_counters) = Some (qs, k) \<and>
    rt_seen k = length sgs \<and>
    rt_seen k = rt_excluded k + rt_ack_only k + rt_dispatched k + rt_queue_dropped k \<and>
    rt_dispatched k = sum_list (map length qs) \<and> (\<forall>q \<in> set qs. length q \<le> mx)"
proof -
  have "counters_ok mx 0 (replicate workers [], zero_counters)"
    by (simp add: counters_ok_def zero_counters_def)
  moreover have "\<forall>sg \<in> set sgs. \<exists>dest < workers. flow_shard blake ip sg workers = Some dest"
    using assms by (auto simp: flow_shard_def)
  ultimately show ?thesis
    using route_all_ok[of mx 0 "replicate workers []" zero_counters sgs "flow_shard blake ip" inc exc]
      assms(1)
    by (fastforce simp: counters_ok_def)
qed

theorem routing_accounts_witness:
  "\<exists>qs k. route_all (flow_shard length (\<lambda>_. Some (4, [1]))) 1 None {}
       [sample_segment 1 [7], sample_segment 2 [8], sample_segment 3 []] (replicate 2 [], zero_counters)
     = Some (qs, k) \<and> rt_seen k = 3 \<and> rt_dispatched k = sum_list (map length qs)"
  using routing_accounts[of 2 "[sample_segment 1 [7], sample_segment 2 [8], sample_segment 3 []]"
      "\<lambda>_. Some (4, [1])" length 1 None "{}"]
  by (fastforce simp: sample_flow_key)

lemma endpoint_bytes_port: "port < 65536 \<Longrightarrow> length (encode_text a) < 65536 \<Longrightarrow>
    \<exists>b. endpoint_bytes ip a port = Some b"
  by (auto simp: endpoint_bytes_def be16_def split: option.splits)

section \<open>A receiver's books\<close>


interpretation booked: frame_observer "accountant_observer c" a_observed "acct_books c ws out"
  for c ws out
proof unfold_locales
  fix s d ts dir n sz
  assume ok: "acct_books c ws out s"
  then have b: "books c ws 0 out s" "ready out s" "c_window_seconds c = Some ws" "0 < ws"
    "a_observed s = a_classified s"
    by (simp_all add: acct_books_def)
  obtain t where t: "observe c d ts dir s = (t, Some (cname (class_of d)))" "books c ws 0 out t"
    "window_at (landing ws ts s) t"
    "counted c (cname (class_of d)) (length d) (resolve_direction c d dir) s t"
    using observe_books[OF b(1-4)] by blast
  have "ready out t" using t(3) by (auto simp: window_at_def intro: ready_open)
  with t b show "acct_books c ws out (ob_frame (accountant_observer c) d ts dir s)"
    "a_observed (ob_frame (accountant_observer c) d ts dir s) = Suc (a_observed s)"
    by (simp_all add: accountant_observer_def acct_books_def counted_def)
  show "acct_books c ws out (ob_truncated (accountant_observer c) n sz ts s)"
    "a_observed (ob_truncated (accountant_observer c) n sz ts s) = Suc (a_observed s)"
    using note_truncated_books[OF b(1-4), of n sz ts] b
    by (auto simp: accountant_observer_def acct_books_def wpc_def intro: ready_open)
qed

interpretation booked_stamped: frame_observer "fixed_direction dir (accountant_observer c)" a_observed
    "acct_books c ws out" for dir c ws out
  by (rule booked.fixed_observer)

definition receiver_ok :: "receiver_cfg \<Rightarrow> real \<Rightarrow> nat \<Rightarrow> receiver \<Rightarrow> bool" where
  "receiver_ok c ws n rv \<longleftrightarrow>
     ring_ok (rx_ring c) (rv_ring rv) \<and> acct_books (rx_acct c) ws (rv_status rv) (rv_acct rv) \<and>
     a_observed (rv_acct rv) = n \<and> rv_queues rv \<noteq> [] \<and>
     (\<exists>k. counters_ok (rx_queue_size c) k (rv_queues rv, rv_counters rv))"

text \<open>What the ring shows the observer in one turn.\<close>

definition turn_sightings :: "receiver_cfg \<Rightarrow> receiver \<Rightarrow> sighting list" where
  "turn_sightings c rv =
     (case read_segments (rx_ring c) (sighting_segment (rx_capture c) (rx_dissect c) (rx_ntop6 c))
        log_observer (Some RECEIVER_SEGMENT_LIMIT) DEFAULT_RING_READ_BLOCKS (rv_ring rv) [] of
        Some (_, ss, _) \<Rightarrow> ss | None \<Rightarrow> [])"

lemma receiver_turn_sightings:
  assumes "ring_ok (rx_ring c) (rv_ring rv)" "ports16 (rx_dissect c)"
  shows "\<exists>r' sgs.
    (\<forall>ob w. read_segments (rx_ring c) (sighting_segment (rx_capture c) (rx_dissect c) (rx_ntop6 c)) ob
       (Some RECEIVER_SEGMENT_LIMIT) DEFAULT_RING_READ_BLOCKS (rv_ring rv) w
     = Some (r', replay ob (turn_sightings c rv) (w :: acct), sgs)) \<and>
    ring_ok (rx_ring c) r' \<and> (\<forall>sg \<in> set sgs. port16 sg)"
proof -
  let ?dec = "sighting_segment (rx_capture c) (rx_dissect c) (rx_ntop6 c)"
  let ?read = "\<lambda>ob w. read_segments (rx_ring c) ?dec ob (Some RECEIVER_SEGMENT_LIMIT)
      DEFAULT_RING_READ_BLOCKS (rv_ring rv) w"
  have dec: "decodes port16 ?dec" using assms(2) by (rule sighting_segment_decodes_ports)
  have pos: "0 < DEFAULT_RING_READ_BLOCKS" by (simp add: DEFAULT_RING_READ_BLOCKS_def)
  obtain r' ss sgs where log: "?read log_observer [] = Some (r', ss, sgs)"
    "ring_ok (rx_ring c) r'" "\<forall>sg \<in> set sgs. port16 sg"
    using read_segments_result[OF assms(1) pos dec, of log_observer "Some RECEIVER_SEGMENT_LIMIT" "[]"]
    by auto
  have "?read ob w = Some (r', replay ob (turn_sightings c rv) w, sgs)" for ob and w :: acct
    using read_segments_result[OF assms(1) pos dec, of ob "Some RECEIVER_SEGMENT_LIMIT" w] log(1)
    by (auto simp: turn_sightings_def)
  with log(2,3) show ?thesis by blast
qed

lemma observer_books:
  assumes "acct_books (rx_acct c) ws out s"
  shows "acct_books (rx_acct c) ws out (replay (rx_observer c) ss s) \<and>
    a_observed (replay (rx_observer c) ss s) = a_observed s + length ss"
  using assms booked.replay_ok booked_stamped.replay_ok
  by (cases "rx_fixed c") (simp_all add: rx_observer_def)

lemma note_dropped_sel [simp]:
  "a_observed (note_kernel_dropped n s) = a_observed s" "a_classified (note_kernel_dropped n s) = a_classified s"
  "a_closed (note_kernel_dropped n s) = a_closed s"
  "(a_window (note_kernel_dropped n s) = None) = (a_window s = None)"
  by (simp_all add: note_kernel_dropped_def)

lemma acct_books_dropped: "acct_books c ws out s \<Longrightarrow> acct_books c ws out (note_kernel_dropped n s)"
  using dropped_books by (simp add: acct_books_def ready_def)

lemma acct_books_roll:
  assumes "acct_books c ws out s"
  shows "\<exists>rs t. roll c now s = (Some rs, t) \<and> acct_books c ws (out @ rs) t \<and> a_observed t = a_observed s \<and>
    a_window t \<noteq> None"
proof -
  have b: "books c ws 0 out s" "ready out s" "c_window_seconds c = Some ws" "0 < ws" "a_observed s = a_classified s"
    using assms by (simp_all add: acct_books_def)
  obtain rs t where "roll c now s = (Some rs, t)" "books c ws 0 (out @ rs) t" "same_counts c s t" "a_window t \<noteq> None"
    using roll_books[OF b(1-4), of now] by blast
  with b show ?thesis
    by (intro exI[of _ rs] exI[of _ t]) (auto simp: acct_books_def ready_def same_counts_def)
qed

text \<open>One turn of a receiver: it never raises, and its books cover what the ring showed.\<close>

lemma receiver_turn_ok:
  assumes ok: "receiver_ok c ws n rv" and p: "ports16 (rx_dissect c)" and sh: "shard_ok (rx_shard c)"
  shows "\<exists>rv'. receiver_turn c now tick rv = Some rv' \<and>
    receiver_ok c ws (n + length (turn_sightings c rv)) rv' \<and> a_window (rv_acct rv') \<noteq> None"
proof -
  have o: "ring_ok (rx_ring c) (rv_ring rv)" "acct_books (rx_acct c) ws (rv_status rv) (rv_acct rv)"
    "a_observed (rv_acct rv) = n" "rv_queues rv \<noteq> []"
    using ok by (simp_all add: receiver_ok_def)
  obtain k where k: "counters_ok (rx_queue_size c) k (rv_queues rv, rv_counters rv)"
    using ok by (auto simp: receiver_ok_def)
  obtain r' sgs where "\<forall>ob w. read_segments (rx_ring c)
       (sighting_segment (rx_capture c) (rx_dissect c) (rx_ntop6 c)) ob
       (Some RECEIVER_SEGMENT_LIMIT) DEFAULT_RING_READ_BLOCKS (rv_ring rv) w
     = Some (r', replay ob (turn_sightings c rv) (w :: acct), sgs)"
    and r2: "ring_ok (rx_ring c) r'" "\<forall>sg \<in> set sgs. port16 sg"
    using receiver_turn_sightings[OF o(1) p] by (elim exE conjE) (rule that)
  then have r: "read_segments (rx_ring c)
       (sighting_segment (rx_capture c) (rx_dissect c) (rx_ntop6 c)) ob
       (Some RECEIVER_SEGMENT_LIMIT) DEFAULT_RING_READ_BLOCKS (rv_ring rv) w
     = Some (r', replay ob (turn_sightings c rv) (w :: acct), sgs)" for ob w
    by (elim allE)
  let ?s = "replay (rx_observer c) (turn_sightings c rv) (rv_acct rv)"
  have s: "acct_books (rx_acct c) ws (rv_status rv) ?s" "a_observed ?s = n + length (turn_sightings c rv)"
    using observer_books[OF o(2)] o(3) by simp_all
  have d: "\<forall>sg \<in> set sgs. \<exists>dest < length (rv_queues rv). rx_shard c sg (length (rv_queues rv)) = Some dest"
    using r2(2) sh o(4) unfolding shard_ok_def port16_def by (metis length_greater_0_conv)
  obtain qs' k' where q: "route_all (rx_shard c) (rx_queue_size c) (fp_ports (rx_capture c))
      (fp_exclude_ports (rx_capture c)) sgs (rv_queues rv, rv_counters rv) = Some (qs', k')"
    "counters_ok (rx_queue_size c) (k + length sgs) (qs', k')" "qs' \<noteq> []"
    using route_all_ok[where shard = "rx_shard c" and inc = "fp_ports (rx_capture c)"
        and exc = "fp_exclude_ports (rx_capture c)", OF k o(4) d] o(4) by fastforce
  obtain rs t where t: "roll (rx_acct c) now ?s = (Some rs, t)" "acct_books (rx_acct c) ws (rv_status rv @ rs) t"
    "a_observed t = a_observed ?s" "a_window t \<noteq> None"
    using acct_books_roll[OF s(1), of now] by blast
  show ?thesis
  proof (cases tick)
    case None
    then show ?thesis using r2(1) q t s(2) by (auto simp: receiver_turn_def r receiver_ok_def)
  next
    case (Some dropped)
    then show ?thesis
      using r2(1) q t s(2) acct_books_dropped[OF t(2)] note_dropped_sel(4)[of _ t]
      by (auto simp: receiver_turn_def r receiver_ok_def simp del: not_None_eq)
  qed
qed

section \<open>The life of a receiver\<close>

text \<open>
  Between two turns the kernel may store anything in the mapping; a turn is what it left there, the
  clock, and the cumulative drops when a statistics tick is due. \<open>shown\<close> collects what the ring
  showed over all turns.
\<close>

type_synonym ring_turns = "(bytes \<times> real \<times> int option) list"

definition refill :: "bytes \<Rightarrow> receiver \<Rightarrow> receiver" where
  "refill mem rv = rv\<lparr>rv_ring := (rv_ring rv)\<lparr>rg_mem := mem\<rparr>\<rparr>"

fun receiver_run :: "receiver_cfg \<Rightarrow> ring_turns \<Rightarrow> receiver \<Rightarrow> receiver option" where
  "receiver_run c [] rv = Some rv"
| "receiver_run c ((mem, now, tick) # turns) rv =
     Option.bind (receiver_turn c now tick (refill mem rv)) (receiver_run c turns)"

fun shown :: "receiver_cfg \<Rightarrow> ring_turns \<Rightarrow> receiver \<Rightarrow> sighting list" where
  "shown c [] rv = []"
| "shown c ((mem, now, tick) # turns) rv =
     turn_sightings c (refill mem rv) @
     (case receiver_turn c now tick (refill mem rv) of None \<Rightarrow> [] | Some rv' \<Rightarrow> shown c turns rv')"

definition new_receiver :: "receiver_cfg \<Rightarrow> bytes \<Rightarrow> nat \<Rightarrow> receiver" where
  "new_receiver c mem workers =
     \<lparr>rv_ring = new_ring mem, rv_acct = new_accountant (rx_acct c), rv_queues = replicate workers [],
      rv_counters = zero_counters, rv_status = [], rv_dropped_noted = 0\<rparr>"

lemma refill_ok:
  "receiver_ok c ws n rv \<Longrightarrow> length mem = rc_block_size (rx_ring c) * rc_block_count (rx_ring c) \<Longrightarrow>
   receiver_ok c ws n (refill mem rv)"
  by (simp add: receiver_ok_def refill_def ring_ok_def)

lemma receiver_run_ok:
  assumes "receiver_ok c ws n rv" "ports16 (rx_dissect c)" "shard_ok (rx_shard c)"
    "\<forall>t \<in> set turns. length (fst t) = rc_block_size (rx_ring c) * rc_block_count (rx_ring c)"
  shows "\<exists>rv'. receiver_run c turns rv = Some rv' \<and> receiver_ok c ws (n + length (shown c turns rv)) rv' \<and>
    (turns \<noteq> [] \<longrightarrow> a_window (rv_acct rv') \<noteq> None)"
  using assms
proof (induction turns arbitrary: rv n)
  case (Cons t turns)
  obtain mem now tick where t: "t = (mem, now, tick)" by (cases t)
  have "receiver_ok c ws n (refill mem rv)" using Cons.prems(1,4) t by (simp add: refill_ok)
  from receiver_turn_ok[OF this Cons.prems(2,3), of now tick]
  obtain rv1 where rv1: "receiver_turn c now tick (refill mem rv) = Some rv1"
    "receiver_ok c ws (n + length (turn_sightings c (refill mem rv))) rv1" "a_window (rv_acct rv1) \<noteq> None"
    by blast
  from Cons.IH[OF rv1(2) Cons.prems(2,3)] Cons.prems(4)
  obtain rv' where "receiver_run c turns rv1 = Some rv'"
    "receiver_ok c ws (n + length (turn_sightings c (refill mem rv)) + length (shown c turns rv1)) rv'"
    "turns \<noteq> [] \<longrightarrow> a_window (rv_acct rv') \<noteq> None"
    by auto
  then show ?case
    using rv1 t by (cases turns) (simp_all add: add.assoc)
qed simp

lemma receiver_stop_ok:
  assumes ok: "receiver_ok c ws n rv" and w: "a_window (rv_acct rv) \<noteq> None"
  shows "\<exists>rv'. receiver_stop c now dropped rv = Some rv' \<and>
    books (rx_acct c) ws 0 (rv_status rv') (rv_acct rv') \<and> a_window (rv_acct rv') = None \<and>
    a_closed (rv_acct rv') = [] \<and> a_classified (rv_acct rv') = n \<and> rv_queues rv' = rv_queues rv \<and>
    rv_counters rv' = rv_counters rv"
proof -
  let ?s = "note_kernel_dropped (dropped - rv_dropped_noted rv) (rv_acct rv)"
  have ab: "acct_books (rx_acct c) ws (rv_status rv) (rv_acct rv)" "a_observed (rv_acct rv) = n"
    using ok by (simp_all add: receiver_ok_def)
  have b: "acct_books (rx_acct c) ws (rv_status rv) ?s" "a_classified ?s = n"
    using acct_books_dropped[OF ab(1)] ab(2) by (simp_all add: acct_books_def)
  obtain v where v: "a_window ?s = Some v" using w by (cases "a_window ?s") auto
  obtain rs t where "finish (rx_acct c) now ?s = (Some rs, t)" "books (rx_acct c) ws 0 (rv_status rv @ rs) t"
    "same_counts (rx_acct c) ?s t" "a_closed t = []" "a_window t = None"
    using finish_books[OF _ v, of "rx_acct c" ws 0 "rv_status rv" now] b(1) by (auto simp: acct_books_def)
  then show ?thesis
    using b(2) by (intro exI[of _ "rv\<lparr>rv_acct := t, rv_status := rv_status rv @ rs\<rparr>"])
      (simp add: receiver_stop_def same_counts_def)
qed

lemma receiver_books:
  assumes geometry: "ring_ok (rx_ring c) (new_ring mem)" and workers: "0 < workers"
    and windows: "c_window_seconds (rx_acct c) = Some ws" "0 < ws" "positive_beats (rx_acct c)"
    and dpkt: "ports16 (rx_dissect c)" and shard: "shard_ok (rx_shard c)"
    and turns: "turns \<noteq> []"
      "\<forall>t \<in> set turns. length (fst t) = rc_block_size (rx_ring c) * rc_block_count (rx_ring c)"
  shows "\<exists>rv. Option.bind (receiver_run c turns (new_receiver c mem workers)) (receiver_stop c now dropped) = Some rv \<and>
    total_reports wr_classified (rv_status rv) = length (shown c turns (new_receiver c mem workers)) \<and>
    (\<forall>r \<in> set (rv_status rv). report_ok (rx_acct c) ws r) \<and> reports_ordered (rv_status rv) \<and>
    (\<forall>q \<in> set (rv_queues rv). length q \<le> rx_queue_size c)"
proof -
  have "acct_books (rx_acct c) ws [] (new_accountant (rx_acct c))"
    using new_accountant_books[OF windows(3)] windows(1,2) by (simp add: acct_books_def new_accountant_def)
  then have "receiver_ok c ws 0 (new_receiver c mem workers)"
    using geometry workers
    by (auto simp: receiver_ok_def new_receiver_def new_accountant_def counters_ok_def zero_counters_def
        intro!: exI[of _ 0])
  from receiver_run_ok[OF this dpkt shard turns(2)] turns(1)
  obtain rv1 where rv1: "receiver_run c turns (new_receiver c mem workers) = Some rv1"
    "receiver_ok c ws (length (shown c turns (new_receiver c mem workers))) rv1" "a_window (rv_acct rv1) \<noteq> None"
    by auto
  from receiver_stop_ok[OF rv1(2,3), of now dropped]
  obtain rv where rv: "receiver_stop c now dropped rv1 = Some rv" "books (rx_acct c) ws 0 (rv_status rv) (rv_acct rv)"
    "a_window (rv_acct rv) = None" "a_closed (rv_acct rv) = []"
    "a_classified (rv_acct rv) = length (shown c turns (new_receiver c mem workers))"
    "rv_queues rv = rv_queues rv1"
    by blast
  then show ?thesis
    using rv1(1,2)
    by (auto simp: books_def sums_ok_def in_window_def receiver_ok_def counters_ok_def)
qed

text \<open>A receiver accounts for everything its ring shows, over its whole life and whatever the kernel
  stores between two turns: it never raises, every window it reports is balanced and bounded, the
  windows follow each other in time, and the frames they count add up to the frames the ring showed,
  each once; no worker queue outgrows its bound.\<close>

theorem receiver_accounts:
  assumes geometry: "ring_ok (rx_ring c) (new_ring mem)" and workers: "0 < workers"
    and windows: "c_window_seconds (rx_acct c) = Some ws" "0 < ws" "positive_beats (rx_acct c)"
    and dpkt: "ports16 (rx_dissect c)" and shard: "shard_ok (rx_shard c)"
    and turns: "turns \<noteq> []"
      "\<forall>t \<in> set turns. length (fst t) = rc_block_size (rx_ring c) * rc_block_count (rx_ring c)"
  shows "\<exists>rv. Option.bind (receiver_run c turns (new_receiver c mem workers)) (receiver_stop c now dropped) = Some rv \<and>
    total_reports wr_classified (rv_status rv) = length (shown c turns (new_receiver c mem workers)) \<and>
    (\<forall>r \<in> set (rv_status rv). report_ok (rx_acct c) ws r) \<and> reports_ordered (rv_status rv) \<and>
    (\<forall>q \<in> set (rv_queues rv). length q \<le> rx_queue_size c)"
  using assms by (rule receiver_books)

text \<open>The sharding of \<open>flow_shard\<close> answers for all 16-bit ports, given parsed addresses of at most 16 bytes.\<close>

lemma flow_shard_ok:
  assumes "\<And>a. \<exists>v p. ip a = Some (v, p) \<and> length p \<le> 16"
  shows "shard_ok (flow_shard blake ip)"
proof -
  have e: "\<exists>b. endpoint_bytes ip a port = Some b \<and> length b < 65536" if "port < 65536" for a port
    using assms[of a] that by (auto simp: endpoint_bytes_def be16_def)
  have "\<exists>k. flow_key ip sg = Some k" if ports: "sg_sport sg < 65536" "sg_dport sg < 65536" for sg
  proof -
    obtain a b where "endpoint_bytes ip (sg_src sg) (sg_sport sg) = Some a" "length a < 65536"
      "endpoint_bytes ip (sg_dst sg) (sg_dport sg) = Some b" "length b < 65536"
      using e[OF ports(1), of "sg_src sg"] e[OF ports(2), of "sg_dst sg"] by blast
    then show ?thesis by (cases "b < a") (simp_all add: flow_key_def be16_def)
  qed
  then show ?thesis by (fastforce simp: shard_ok_def flow_shard_def)
qed

definition sample_receiver_cfg :: receiver_cfg where
  "sample_receiver_cfg =
     \<lparr>rx_acct = sample_acct, rx_fixed = Some DIRECTION_OUT, rx_ring = \<lparr>rc_block_size = 64, rc_block_count = 2\<rparr>,
      rx_capture = sample_capture, rx_dissect = (\<lambda>_. None), rx_ntop6 = (\<lambda>_. []),
      rx_shard = flow_shard length (\<lambda>_. Some (4, [1])), rx_queue_size = 4\<rparr>"

theorem receiver_accounts_witness:
  "\<exists>rv. Option.bind (receiver_run sample_receiver_cfg
        [(replicate 128 0, 1000, None), (replicate 128 0xff, 1300, Some 2)]
        (new_receiver sample_receiver_cfg (replicate 128 0) 3)) (receiver_stop sample_receiver_cfg 1400 2) = Some rv \<and>
     total_reports wr_classified (rv_status rv) =
       length (shown sample_receiver_cfg [(replicate 128 0, 1000, None), (replicate 128 0xff, 1300, Some 2)]
        (new_receiver sample_receiver_cfg (replicate 128 0) 3))"
proof -
  let ?c = "sample_receiver_cfg"
  have sel: "rx_ring ?c = \<lparr>rc_block_size = 64, rc_block_count = 2\<rparr>" "rx_acct ?c = sample_acct"
    "rx_dissect ?c = (\<lambda>_. None)" "rx_shard ?c = flow_shard length (\<lambda>_. Some (4, [1]))"
    by (simp_all add: sample_receiver_cfg_def)
  have "ring_ok (rx_ring ?c) (new_ring (replicate 128 0))" by (simp add: sel ring_ok_def new_ring_def)
  moreover have "c_window_seconds (rx_acct ?c) = Some 300" by (simp add: sel sample_acct_def)
  moreover have "positive_beats (rx_acct ?c)"
    by (simp add: sel positive_beats_def sample_acct_def sample_policy_def)
  moreover have "ports16 (rx_dissect ?c)" by (simp add: sel ports16_def)
  moreover have "shard_ok (rx_shard ?c)" unfolding sel by (rule flow_shard_ok) simp
  ultimately show ?thesis
    using receiver_accounts[of ?c "replicate 128 0" 3 300
        "[(replicate 128 0, 1000, None), (replicate 128 0xff, 1300, Some 2)]" 1400 2]
    by (auto simp: sel)
qed

end
