(* ===== verification/Merger_Proofs.thy ===== *)
theory Merger_Proofs
  imports Merger Samples
begin

text \<open>
  What the rows of \<^verbatim>\<open>frame-processor/app/windows.py\<close> promise to the ledger: one row per window, in
  order; no finding lost inside a row and no exchange finding lost between rows; \<open>complete\<close> only for
  a window every interface vouched for; and frame counts that add up to the receivers' reports.
\<close>

section \<open>Order\<close>

text \<open>A window is written once: whatever reports, exchange findings and clock ticks arrive, and in
  whatever order, the rows flushed have strictly increasing window starts.\<close>

theorem rows_increase:
  assumes "new_merger ifaces ws fd host tapped version mg sm = Some (c, m)"
  shows "sorted_wrt (<) (map row_start (fst (merger_run c ops m)))"
  using merger_run_sorted[OF new_merger_inv[OF assms], of ops] by (cases "merger_run c ops m") simp

definition sample_report :: "real \<Rightarrow> nat \<Rightarrow> window_report" where
  "sample_report start n =
     \<lparr>wr_iface = ''tap0'', wr_start = start, wr_end = start + 300, wr_epoch = 1, wr_observed = n, wr_classified = n,
      wr_kernel_dropped = 0, wr_truncated = 0, wr_errors = 0, wr_classes = [], wr_pins = [], wr_groups = [],
      wr_groups_overflow = 0, wr_finding_count = 0\<rparr>"

definition sample_merger_cfg :: merger_cfg where
  "sample_merger_cfg =
     \<lparr>m_ifaces = [''tap0''], m_window_seconds = 300, m_flush_delay = 15, m_capture_host = [], m_tapped_hostname = None,
      m_tap_version = [], m_max_groups = 4, m_samples = 1\<rparr>"

definition sample_merger :: merger where
  "sample_merger = \<lparr>mg_pending = [], mg_last_flushed = None, mg_windows_flushed = 0\<rparr>"

lemma sample_new_merger: "new_merger [''tap0''] 300 15 [] None [] 4 1 = Some (sample_merger_cfg, sample_merger)"
  by (simp add: new_merger_def sample_merger_cfg_def sample_merger_def fromkeys_def)

theorem rows_increase_witness:
  "sorted_wrt (<) (map row_start (fst (merger_run sample_merger_cfg
     [Op_report (sample_report 600 2), Op_report (sample_report 300 1), Op_flush 2000] sample_merger)))"
  using sample_new_merger by (rule rows_increase)

section \<open>Rows\<close>

text \<open>A row loses no finding: the counts of the groups it lists and its overflow add up to its finding
  count, at most \<open>max_groups\<close> groups are listed, and every silent interface and exchange finding is in
  that count.\<close>

theorem row_keeps_findings:
  assumes "\<forall>ir \<in> set (pd_reports p). report_consistent (snd ir)"
  shows "sum_list (map wg_count (row_findings (emit_row c p))) + row_groups_overflow (emit_row c p)
      = row_finding_count (emit_row c p) \<and>
    row_finding_groups (emit_row c p) \<le> m_max_groups c \<and>
    row_finding_count (emit_row c p) = sum_list (map (wr_finding_count \<circ> snd) (pd_reports p))
      + length (missing_ifaces c p) + length (pd_exchange p)"
proof -
  have "report_consistent r" if "r \<in> set (map snd (pd_reports p))" for r using assms that by auto
  from row_groups_total[OF this, of p] show ?thesis by (simp add: row_groups_bounded emit_row_sel)
qed

theorem row_keeps_findings_witness:
  "row_finding_count (emit_row sample_merger_cfg \<lparr>pd_start = 300, pd_end = 600, pd_reports = [], pd_exchange = []\<rparr>) = 1 \<and>
   sum_list (map wg_count (row_findings (emit_row sample_merger_cfg
     \<lparr>pd_start = 300, pd_end = 600, pd_reports = [], pd_exchange = []\<rparr>)))
   + row_groups_overflow (emit_row sample_merger_cfg \<lparr>pd_start = 300, pd_end = 600, pd_reports = [], pd_exchange = []\<rparr>) = 1"
  using row_keeps_findings[of "\<lparr>pd_start = 300, pd_end = 600, pd_reports = [], pd_exchange = []\<rparr>" sample_merger_cfg]
  by (simp add: missing_ifaces_def sample_merger_cfg_def)

text \<open>\<open>complete\<close> can be believed: a row has it exactly when every interface of the link reported the
  window and no other did, no report names a drop or a finding, no exchange finding was filed, and every
  observed frame was classified.\<close>

theorem complete_row_iff:
  "row_complete (emit_row c p) \<longleftrightarrow>
     set (m_ifaces c) \<subseteq> set (keys (pd_reports p)) \<and> length (pd_reports p) = length (m_ifaces c) \<and>
     pd_exchange p = [] \<and>
     list_all (\<lambda>ir. wr_kernel_dropped (snd ir) = 0 \<and> wr_finding_count (snd ir) = 0) (pd_reports p) \<and>
     row_observed (emit_row c p) = row_classified (emit_row c p)"
  unfolding row_complete_iff list_all_iff by auto

text \<open>An exchange finding is never lost and never filed on a window already written: it lands on the
  pending window of its own time, or, when that one is gone, on a later one.\<close>

theorem exchange_filed:
  assumes "0 < m_window_seconds c"
  shows "\<exists>s p. map_of (mg_pending (add_exchange_finding c f now m)) s = Some p \<and> f \<in> set (pd_exchange p) \<and>
    \<not> already_flushed m s \<and>
    (\<not> already_flushed m (window_start_for (ef_ts f) (m_window_seconds c)) \<longrightarrow>
       s = window_start_for (ef_ts f) (m_window_seconds c))"
proof -
  let ?s = "exchange_window c f now m"
  have "\<not> already_flushed m ?s" using assms by (rule exchange_window_fresh)
  moreover have "\<not> already_flushed m (window_start_for (ef_ts f) (m_window_seconds c)) \<Longrightarrow>
      ?s = window_start_for (ef_ts f) (m_window_seconds c)"
    by (auto simp: exchange_window_def already_flushed_def Let_def split: option.splits)
  ultimately show ?thesis
    by (intro exI[of _ ?s]) (simp add: add_exchange_finding_def Let_def update_conv)
qed

definition sample_exchange :: exchange_finding where
  "sample_exchange = \<lparr>ef_kind = ''http-smuggling'', ef_detail = [], ef_ts = 650, ef_observed_on = []\<rparr>"

text \<open>Its window, 600 to 900, is already written; it goes to the next.\<close>

theorem exchange_filed_witness:
  "\<exists>s p. map_of (mg_pending (add_exchange_finding sample_merger_cfg sample_exchange (Some 700)
      (sample_merger\<lparr>mg_last_flushed := Some 600\<rparr>))) s = Some p \<and> sample_exchange \<in> set (pd_exchange p) \<and> 600 < s"
  using exchange_filed[of sample_merger_cfg sample_exchange "Some 700" "sample_merger\<lparr>mg_last_flushed := Some 600\<rparr>"]
  by (auto simp: sample_merger_cfg_def already_flushed_def not_le)

section \<open>Conservation\<close>

text \<open>What a field adds up to over the reports still pending.\<close>

definition pending_total :: "(window_report \<Rightarrow> nat) \<Rightarrow> merger \<Rightarrow> nat" where
  "pending_total f m = dsum (\<lambda>p. dsum f (pd_reports p)) (mg_pending m)"

lemma pending_total_report:
  assumes "\<not> already_flushed m (wr_start r)" "wr_iface r \<notin> set (keys (pd_reports (pending_for c m (wr_start r))))"
  shows "pending_total f (add_report c r m) = pending_total f m + f r"
proof -
  let ?p = "pending_for c m (wr_start r)"
  have "dsum f (dset (wr_iface r) r (pd_reports ?p)) = dsum f (pd_reports ?p) + f r"
    using assms(2) map_of_None_keys[of "pd_reports ?p" "wr_iface r"] by (intro dsum_dset_add) simp
  moreover have "dsum f (pd_reports ?p) =
      (case map_of (mg_pending m) (wr_start r) of None \<Rightarrow> 0 | Some q \<Rightarrow> dsum f (pd_reports q))"
    by (simp add: pending_for_def split: option.splits)
  ultimately show ?thesis
    using assms(1) by (simp add: pending_total_def add_report_def Let_def dsum_dset_add)
qed

lemma pending_total_exchange: "pending_total f (add_exchange_finding c g now m) = pending_total f m"
proof -
  let ?s = "exchange_window c g now m"
  let ?p = "pending_for c m ?s"
  have "dsum f (pd_reports ?p) =
      (case map_of (mg_pending m) ?s of None \<Rightarrow> 0 | Some q \<Rightarrow> dsum f (pd_reports q)) + 0"
    by (simp add: pending_for_def split: option.splits)
  then show ?thesis
    using dsum_dset_add[of "\<lambda>p. dsum f (pd_reports p)" "?p\<lparr>pd_exchange := pd_exchange ?p @ [g]\<rparr>" "mg_pending m" ?s 0]
    by (simp add: pending_total_def add_exchange_finding_def Let_def)
qed

lemma emit_row_frames:
  "row_classified (emit_row c p) = dsum wr_classified (pd_reports p)"
  by (simp add: emit_row_sel dsum_def)

lemma emit_all_total:
  assumes "distinct (keys (mg_pending m))" "emit_all c starts m = (rows, m')"
  shows "sum_list (map row_classified rows) + pending_total wr_classified m' = pending_total wr_classified m \<and>
    distinct (keys (mg_pending m')) \<and> set (mg_pending m') \<subseteq> set (mg_pending m)"
  using assms
proof (induction starts arbitrary: m rows)
  case (Cons s starts)
  show ?case
  proof (cases "map_of (mg_pending m) s")
    case None
    with Cons show ?thesis by simp
  next
    case (Some p)
    let ?m = "emit p (m\<lparr>mg_pending := AList.delete s (mg_pending m)\<rparr>)"
    obtain rest where r: "emit_all c starts ?m = (rest, m')" "rows = emit_row c p # rest"
      using Cons.prems(2) Some by (auto simp: Let_def split: prod.splits)
    have d: "distinct (keys (mg_pending ?m))" "set (mg_pending ?m) \<subseteq> set (mg_pending m)"
      using Cons.prems(1) set_delete_subset[of s "mg_pending m"]
      by (simp_all add: emit_def delete_keys distinct_removeAll)
    have "pending_total wr_classified ?m + row_classified (emit_row c p) = pending_total wr_classified m"
      using dsum_delete[OF Cons.prems(1) Some, of "\<lambda>p. dsum wr_classified (pd_reports p)"]
      by (simp add: pending_total_def emit_def emit_row_frames)
    with Cons.IH[OF d(1) r(1)] r(2) d(2) show ?thesis by auto
  qed
qed simp

text \<open>The reports of a run, and those among them that came after their window was written.\<close>

fun report_of_op :: "merger_op \<Rightarrow> window_report list" where
  "report_of_op (Op_report r) = [r]" | "report_of_op _ = []"

definition reports_of :: "merger_op list \<Rightarrow> window_report list" where
  "reports_of ops = concat (map report_of_op ops)"

fun late_reports :: "merger_cfg \<Rightarrow> merger_op list \<Rightarrow> merger \<Rightarrow> window_report list" where
  "late_reports c [] m = []"
| "late_reports c (x # xs) m =
     filter (\<lambda>r. already_flushed m (wr_start r)) (report_of_op x) @ late_reports c xs (snd (merger_step c x m))"

lemma reports_of_simps [simp]:
  "reports_of [] = []" "reports_of (x # xs) = report_of_op x @ reports_of xs"
  by (simp_all add: reports_of_def)

definition report_key :: "window_report \<Rightarrow> real \<times> string" where
  "report_key r = (wr_start r, wr_iface r)"

text \<open>The pending reports are among those seen so far.\<close>

definition pending_within :: "(real \<times> string) set \<Rightarrow> merger \<Rightarrow> bool" where
  "pending_within K m \<longleftrightarrow> (\<forall>sp \<in> set (mg_pending m). \<forall>i \<in> set (keys (pd_reports (snd sp))). (fst sp, i) \<in> K)"

lemma pending_within_dset:
  assumes "pending_within K m" "\<forall>i \<in> set (keys (pd_reports p)). (s, i) \<in> L" "K \<subseteq> L"
  shows "pending_within L (m\<lparr>mg_pending := dset s p (mg_pending m)\<rparr>)"
  using assms set_dset_subset[of s p "mg_pending m"] by (fastforce simp: pending_within_def simp del: set_map)

lemma pending_for_within:
  "pending_within K m \<Longrightarrow> i \<in> set (keys (pd_reports (pending_for c m s))) \<Longrightarrow> (s, i) \<in> K"
  by (fastforce simp: pending_for_def pending_within_def split: option.splits dest!: map_of_SomeD)

lemma step_total:
  assumes inv: "merger_inv c m" and K: "pending_within K m"
    and new: "\<forall>r \<in> set (report_of_op x). report_key r \<notin> K" and run: "merger_step c x m = (rows, m')"
  shows "sum_list (map row_classified rows) + pending_total wr_classified m'
      + sum_list (map wr_classified (filter (\<lambda>r. already_flushed m (wr_start r)) (report_of_op x)))
    = pending_total wr_classified m + sum_list (map wr_classified (report_of_op x)) \<and>
    pending_within (K \<union> report_key ` set (report_of_op x)) m'"
proof (cases x)
  case (Op_report r)
  show ?thesis
  proof (cases "already_flushed m (wr_start r)")
    case True
    with Op_report run K show ?thesis by (auto simp: add_report_def pending_within_def)
  next
    case False
    have fresh: "wr_iface r \<notin> set (keys (pd_reports (pending_for c m (wr_start r))))"
      using pending_for_within[OF K] new Op_report by (fastforce simp: report_key_def simp del: set_map)
    let ?p = "(pending_for c m (wr_start r))\<lparr>pd_reports := dset (wr_iface r) r
        (pd_reports (pending_for c m (wr_start r)))\<rparr>"
    have keys: "set (keys (pd_reports ?p)) = insert (wr_iface r) (set (keys (pd_reports (pending_for c m (wr_start r)))))"
      using keys_dset_set[of "wr_iface r" r "pd_reports (pending_for c m (wr_start r))"] by (simp del: set_map)
    have "pending_within (K \<union> {report_key r}) (m\<lparr>mg_pending := dset (wr_start r) ?p (mg_pending m)\<rparr>)"
      using K
    proof (rule pending_within_dset)
      show "\<forall>i \<in> set (keys (pd_reports ?p)). (wr_start r, i) \<in> K \<union> {report_key r}"
        unfolding keys using pending_for_within[OF K, of _ c "wr_start r"] by (auto simp: report_key_def simp del: set_map)
    qed blast
    then show ?thesis
      using Op_report run False pending_total_report[OF False fresh, of wr_classified]
      by (auto simp: add_report_def Let_def)
  qed
next
  case (Op_exchange f now)
  let ?p = "(pending_for c m (exchange_window c f now m))"
  have "pending_within K (m\<lparr>mg_pending := dset (exchange_window c f now m)
      (?p\<lparr>pd_exchange := pd_exchange ?p @ [f]\<rparr>) (mg_pending m)\<rparr>)"
    using K pending_for_within[OF K, of _ c "exchange_window c f now m"]
    by (intro pending_within_dset[OF _ _ order_refl]) (simp_all del: set_map)
  then show ?thesis
    using Op_exchange run pending_total_exchange[of wr_classified c f now m]
    by (auto simp: add_exchange_finding_def Let_def)
next
  case (Op_flush now)
  then have "emit_all c (ready_starts c now m) m = (rows, m')" using run by (simp add: flush_def)
  from emit_all_total[OF _ this] inv K Op_flush show ?thesis
    by (fastforce simp: merger_inv_def pending_within_def simp del: set_map)
qed

lemma run_total:
  assumes "merger_inv c m" "pending_within K m" "distinct (map report_key (reports_of ops))"
    "\<forall>r \<in> set (reports_of ops). report_key r \<notin> K" "merger_run c ops m = (rows, m')"
  shows "sum_list (map row_classified rows) + pending_total wr_classified m'
      + sum_list (map wr_classified (late_reports c ops m))
    = pending_total wr_classified m + sum_list (map wr_classified (reports_of ops)) \<and> merger_inv c m'"
  using assms
proof (induction ops arbitrary: m K rows)
  case (Cons x xs)
  obtain r1 m1 where s: "merger_step c x m = (r1, m1)" by (cases "merger_step c x m")
  obtain r2 where r: "merger_run c xs m1 = (r2, m')" "rows = r1 @ r2"
    using Cons.prems(5) s by (auto simp: Let_def split: prod.splits)
  have one: "sum_list (map row_classified r1) + pending_total wr_classified m1
      + sum_list (map wr_classified (filter (\<lambda>r. already_flushed m (wr_start r)) (report_of_op x)))
    = pending_total wr_classified m + sum_list (map wr_classified (report_of_op x))"
    "pending_within (K \<union> report_key ` set (report_of_op x)) m1"
    using step_total[OF Cons.prems(1,2) _ s] Cons.prems(4) by auto
  have inv: "merger_inv c m1" using merger_step_inv(1)[OF Cons.prems(1) s] .
  have "sum_list (map row_classified r2) + pending_total wr_classified m'
      + sum_list (map wr_classified (late_reports c xs m1))
    = pending_total wr_classified m1 + sum_list (map wr_classified (reports_of xs)) \<and> merger_inv c m'"
    using Cons.prems(3,4) by (intro Cons.IH[OF inv one(2) _ _ r(1)]) auto
  with one(1) r(2) s show ?case by simp
qed simp

lemma finish_total:
  assumes "merger_inv c m" "finish_merger c m = (rows, m')"
  shows "sum_list (map row_classified rows) = pending_total wr_classified m"
proof -
  have f: "emit_all c (sort (map fst (filter (\<lambda>_. True) (mg_pending m)))) m = (rows, m')"
    using assms(2) by (simp add: finish_merger_def)
  have "mg_pending m' = filter (\<lambda>sp. fst sp \<notin> set (sort (map fst (mg_pending m)))) (mg_pending m)"
    using emit_ready(6)[OF assms(1) refl _ f] by simp
  also have "\<dots> = []" by (simp add: filter_empty_conv)
  finally have "pending_total wr_classified m' = 0" by (simp add: pending_total_def)
  moreover have "distinct (keys (mg_pending m))" using assms(1) by (simp add: merger_inv_def)
  ultimately show ?thesis using emit_all_total[OF _ f] by simp
qed

lemma rows_total:
  assumes new: "new_merger ifaces ws fd host tapped version mg sm = Some (c, m)"
    and once: "distinct (map report_key (reports_of ops))"
    and run: "merger_run c ops m = (rows, m1)" "finish_merger c m1 = (rest, m2)"
  shows "sum_list (map row_classified (rows @ rest)) + sum_list (map wr_classified (late_reports c ops m))
    = sum_list (map wr_classified (reports_of ops))"
proof -
  have "pending_within {} m" "pending_total wr_classified m = 0"
    using new by (auto simp: new_merger_def pending_within_def pending_total_def split: if_splits)
  with run_total[OF new_merger_inv[OF new] _ once _ run(1), of "{}"] finish_total[OF _ run(2)]
  show ?thesis by auto
qed

text \<open>The ledger's rows account for every report: over a merger's whole life, with the rows written at
  shutdown, the classified frames of the rows and those of the reports that came after their window
  was written add up to the frames the receivers reported, as long as no interface reports one window
  twice.\<close>

theorem rows_conserve_frames:
  assumes new: "new_merger ifaces ws fd host tapped version mg sm = Some (c, m)"
    and once: "distinct (map report_key (reports_of ops))"
    and run: "merger_run c ops m = (rows, m1)" "finish_merger c m1 = (rest, m2)"
  shows "sum_list (map row_classified (rows @ rest)) + sum_list (map wr_classified (late_reports c ops m))
    = sum_list (map wr_classified (reports_of ops))"
  using assms by (rule rows_total)

theorem rows_conserve_frames_witness:
  "\<exists>rows m1 rest m2. merger_run sample_merger_cfg
      [Op_report (sample_report 300 1), Op_flush 2000, Op_report (sample_report 600 2)] sample_merger = (rows, m1) \<and>
    finish_merger sample_merger_cfg m1 = (rest, m2) \<and>
    sum_list (map row_classified (rows @ rest))
      + sum_list (map wr_classified (late_reports sample_merger_cfg
          [Op_report (sample_report 300 1), Op_flush 2000, Op_report (sample_report 600 2)] sample_merger)) = 3"
proof -
  let ?ops = "[Op_report (sample_report 300 1), Op_flush 2000, Op_report (sample_report 600 2)]"
  have d: "distinct (map report_key (reports_of ?ops))" by (simp add: report_key_def sample_report_def)
  obtain rows m1 where r: "merger_run sample_merger_cfg ?ops sample_merger = (rows, m1)" by fastforce
  obtain rest m2 where f: "finish_merger sample_merger_cfg m1 = (rest, m2)" by fastforce
  have "sum_list (map wr_classified (reports_of ?ops)) = 3" by (simp add: sample_report_def)
  with rows_conserve_frames[OF sample_new_merger d r f] r f show ?thesis by auto
qed

end
