(* ===== verification/Link.thy ===== *)
theory Link
  imports Pipeline_Proofs Merger_Proofs "HOL-Library.Multiset"
begin

text \<open>
  The account of a whole link: one receiver process per tap interface, whose window reports travel
  over the status queue to the parent, where the merger turns them into the rows of the ledger
  (\<^verbatim>\<open>frame-processor/app/live_pipeline.py\<close> and \<^verbatim>\<open>frame-processor/app/windows.py\<close>).
\<close>

text \<open>The whole life of one receiver process.\<close>

record receiver_life =
  lf_cfg :: receiver_cfg
  lf_mem :: bytes
  lf_workers :: nat
  lf_turns :: ring_turns
  lf_now :: real
  lf_dropped :: int

definition lf_start :: "receiver_life \<Rightarrow> receiver" where
  "lf_start l = new_receiver (lf_cfg l) (lf_mem l) (lf_workers l)"

definition live :: "receiver_life \<Rightarrow> receiver option" where
  "live l = Option.bind (receiver_run (lf_cfg l) (lf_turns l) (lf_start l))
              (receiver_stop (lf_cfg l) (lf_now l) (lf_dropped l))"

definition frames_shown :: "receiver_life \<Rightarrow> nat" where
  "frames_shown l = length (shown (lf_cfg l) (lf_turns l) (lf_start l))"

definition reported :: "receiver_life \<Rightarrow> window_report list" where
  "reported l = (case live l of None \<Rightarrow> [] | Some rv \<Rightarrow> rv_status rv)"

definition iface_of :: "receiver_life \<Rightarrow> string" where
  "iface_of l = c_iface (rx_acct (lf_cfg l))"

text \<open>The configuration the code insists on, and what it relies on of the kernel, dpkt and the hash.\<close>

definition life_ok :: "real \<Rightarrow> receiver_life \<Rightarrow> bool" where
  "life_ok ws l \<longleftrightarrow>
     (let c = lf_cfg l in
      ring_ok (rx_ring c) (new_ring (lf_mem l)) \<and> 0 < lf_workers l \<and>
      c_window_seconds (rx_acct c) = Some ws \<and> positive_beats (rx_acct c) \<and>
      ports16 (rx_dissect c) \<and> shard_ok (rx_shard c) \<and> lf_turns l \<noteq> [] \<and>
      (\<forall>t \<in> set (lf_turns l). length (fst t) = rc_block_size (rx_ring c) * rc_block_count (rx_ring c)))"

lemma ordered_distinct_starts:
  assumes "reports_ordered rs" "\<forall>r \<in> set rs. report_ok c ws r" "0 < ws"
  shows "distinct (map wr_start rs)"
  using assms
proof (induction rs)
  case (Cons r rs)
  have "wr_start r < wr_start q" if "q \<in> set rs" for q
  proof -
    have "wr_end r \<le> wr_start q" using Cons.prems(1) that by (simp add: reports_ordered_def)
    moreover have "wr_end r = wr_start r + ws" using Cons.prems(2) by (simp add: report_ok_def)
    ultimately show ?thesis using Cons.prems(3) by simp
  qed
  then show ?case using Cons by (force simp: reports_ordered_def)
qed simp

lemma life_reports:
  assumes "life_ok ws l" "0 < ws"
  shows "live l \<noteq> None \<and> total_reports wr_classified (reported l) = frames_shown l \<and>
    distinct (map report_key (reported l)) \<and> (\<forall>r \<in> set (reported l). wr_iface r = iface_of l)"
proof -
  obtain rv where rv: "live l = Some rv" "total_reports wr_classified (rv_status rv) = frames_shown l"
    "\<forall>r \<in> set (rv_status rv). report_ok (rx_acct (lf_cfg l)) ws r" "reports_ordered (rv_status rv)"
    using receiver_books[of "lf_cfg l" "lf_mem l" "lf_workers l" ws "lf_turns l" "lf_now l" "lf_dropped l"] assms
    by (auto simp: life_ok_def Let_def live_def lf_start_def frames_shown_def)
  have "distinct (map wr_start (rv_status rv))"
    using ordered_distinct_starts[OF rv(4,3) assms(2)] .
  then have "distinct (map report_key (rv_status rv))"
    by (auto simp: distinct_map inj_on_def report_key_def)
  with rv show ?thesis by (auto simp: reported_def report_ok_def iface_of_def)
qed

lemma lives_reports:
  assumes "\<forall>l \<in> set ls. life_ok ws l" "0 < ws" "distinct (map iface_of ls)"
  shows "distinct (map report_key (concat (map reported ls))) \<and>
    sum_list (map wr_classified (concat (map reported ls))) = sum_list (map frames_shown ls)"
  using assms
proof (induction ls)
  case (Cons l ls)
  have l: "total_reports wr_classified (reported l) = frames_shown l" "distinct (map report_key (reported l))"
    "\<forall>r \<in> set (reported l). wr_iface r = iface_of l"
    using life_reports[of ws l] Cons.prems by auto
  have "wr_iface q \<noteq> iface_of l" if q: "q \<in> set (concat (map reported ls))" for q
  proof -
    from q obtain k where "k \<in> set ls" "q \<in> set (reported k)" by auto
    then have "wr_iface q = iface_of k" "iface_of k \<in> iface_of ` set ls"
      using life_reports[of ws k] Cons.prems by auto
    then show ?thesis using Cons.prems(3) by auto
  qed
  then have "report_key ` set (reported l) \<inter> report_key ` set (concat (map reported ls)) = {}"
    using l(3) by (fastforce simp: report_key_def)
  with l Cons show ?case by (simp add: total_reports_def)
qed simp

text \<open>C1: The ledger accounts for the link: with one receiver per interface, whatever the kernel delivers,
  every receiver ends without raising, and when their reports reach the merger, in any order and
  interleaved with exchange findings and flushes, the frames of the rows written and of the reports
  that came too late add up to exactly the frames the rings showed.\<close>

theorem ledger_accounts_for_link:
  assumes lives: "\<forall>l \<in> set ls. life_ok ws l" "0 < ws" "distinct (map iface_of ls)"
    and merger: "new_merger (map iface_of ls) ws fd host tapped version mg sm = Some (c, m)"
    and collected: "mset (reports_of ops) = mset (concat (map reported ls))"
    and rows: "merger_run c ops m = (rows, m1)" "finish_merger c m1 = (rest, m2)"
  shows "(\<forall>l \<in> set ls. live l \<noteq> None) \<and>
    sum_list (map row_classified (rows @ rest)) + sum_list (map wr_classified (late_reports c ops m))
      = sum_list (map frames_shown ls)"
proof -
  note r = lives_reports[OF lives]
  have "mset (map report_key (reports_of ops)) = mset (map report_key (concat (map reported ls)))"
    using collected by (simp only: mset_map)
  then have "distinct (map report_key (reports_of ops))"
    using r mset_eq_imp_distinct_iff by blast
  moreover have "sum_list (map wr_classified (reports_of ops)) = sum_list (map wr_classified (concat (map reported ls)))"
    using collected by (metis mset_map sum_mset_sum_list)
  ultimately show ?thesis
    using rows_total[OF merger _ rows] r life_reports lives(1,2) by auto
qed

definition sample_life :: receiver_life where
  "sample_life =
     \<lparr>lf_cfg = sample_receiver_cfg, lf_mem = replicate 128 0, lf_workers = 3,
      lf_turns = [(replicate 128 0, 1000, None), (replicate 128 0xff, 1300, Some 2)], lf_now = 1400, lf_dropped = 2\<rparr>"

lemma sample_life_ok: "life_ok 300 sample_life"
proof -
  have "shard_ok (flow_shard length (\<lambda>_. Some (4, [1])))" by (rule flow_shard_ok) simp
  then show ?thesis
    by (simp add: life_ok_def Let_def sample_life_def sample_receiver_cfg_def sample_acct_def sample_policy_def
        positive_beats_def ports16_def ring_ok_def new_ring_def)
qed

lemma reports_of_reports: "reports_of (map Op_report rs) = rs"
  by (induction rs) simp_all

theorem ledger_accounts_for_link_witness:
  "\<exists>rows m1 rest m2. merger_run sample_merger_cfg (map Op_report (reported sample_life)) sample_merger = (rows, m1) \<and>
     finish_merger sample_merger_cfg m1 = (rest, m2) \<and>
     sum_list (map row_classified (rows @ rest))
       + sum_list (map wr_classified (late_reports sample_merger_cfg (map Op_report (reported sample_life)) sample_merger))
     = frames_shown sample_life"
proof -
  have "iface_of sample_life = ''tap0''"
    by (simp add: iface_of_def sample_life_def sample_receiver_cfg_def sample_acct_def)
  then have new: "new_merger (map iface_of [sample_life]) 300 15 [] None [] 4 1 = Some (sample_merger_cfg, sample_merger)"
    using sample_new_merger by (simp del: One_nat_def)
  obtain rows m1 where r: "merger_run sample_merger_cfg (map Op_report (reported sample_life)) sample_merger = (rows, m1)"
    by fastforce
  obtain rest m2 where f: "finish_merger sample_merger_cfg m1 = (rest, m2)" by fastforce
  show ?thesis
    using ledger_accounts_for_link[OF _ _ _ new _ r f] r f sample_life_ok
    by (simp add: reports_of_reports)
qed

end
