(* ===== verification/Silence.thy ===== *)
theory Silence
  imports Accountant_Run Samples
begin

text \<open>
  What it means that the accountant has nothing to say about a frame. The number of findings on record
  never falls, so a validation that leaves it as it was went through every check without a complaint,
  and each check's silence says that its condition held.
\<close>

section \<open>Findings only accumulate\<close>

interpretation noted: step_relation "\<lambda>s t. snap_findings s \<le> snap_findings t"
  by unfold_locales simp_all

lemma snap_findings_put [simp]:
  "snap_findings (put_pin k p s) = snap_findings s" "snap_findings (put_beat k b s) = snap_findings s"
  "snap_findings (set_ctx w dir fr s) = snap_findings s"
  by (simp_all add: snap_findings_def put_pin_def put_beat_def set_ctx_def)

lemma keeps_note: "noted.keeps (notec c k cl src det ts)" "noted.keeps (modc (note_finding c f))"
  by (simp_all add: notec_def noted.keeps_modc snap_findings_note)

lemmas keeps_findings = noted.keeps_seqc noted.keeps_readc noted.keeps_whenc noted.keeps_if
  noted.keeps_getc noted.keeps_skipc noted.keeps_raisec keeps_note

lemma keeps_modc_same: "(\<And>s. snap_findings (f s) = snap_findings s) \<Longrightarrow> noted.keeps (modc f)"
  by (simp add: noted.keeps_modc)

lemma keeps_option [intro]: "(x = None \<Longrightarrow> noted.keeps m) \<Longrightarrow> (\<And>a. x = Some a \<Longrightarrow> noted.keeps (k a)) \<Longrightarrow>
    noted.keeps (case x of None \<Rightarrow> m | Some a \<Rightarrow> k a)"
  by (cases x) simp_all

lemma keeps_check_padding: "noted.keeps (check_padding c d cl ts)"
  unfolding check_padding_def by (intro keeps_option keeps_findings)

lemma keeps_check_lldp: "noted.keeps (check_lldp c d cl ts)"
  unfolding check_lldp_def Let_def by (intro keeps_option keeps_findings)

lemma keeps_check_arp: "noted.keeps (check_arp c d cl ts)"
  unfolding check_arp_def Let_def by (intro keeps_findings)

lemma keeps_check_ipv4_header: "noted.keeps (check_ipv4_header c d cl ts)"
  unfolding check_ipv4_header_def Let_def by (intro keeps_findings)

lemma keeps_check_tcp_header: "noted.keeps (check_tcp_header c d cl ts)"
  unfolding check_tcp_header_def Let_def by (intro keeps_findings)

lemma keeps_check_ipv4_checksum: "noted.keeps (check_ipv4_checksum c d cl ts)"
  unfolding check_ipv4_checksum_def Let_def by (intro keeps_findings)

lemma keeps_pin_verdict: "noted.keeps (pin_verdict c name src payload b a ts)"
  unfolding pin_verdict_def by (intro keeps_option keeps_findings)

lemma keeps_check_pin: "noted.keeps (check_pin c d cl ts)"
  unfolding check_pin_def Let_def
  by (intro keeps_findings keeps_check_ipv4_checksum keeps_pin_verdict keeps_modc_same) simp_all

lemma keeps_note_beat: "noted.keeps (note_beat c k b det ts)"
  unfolding note_beat_def by (intro keeps_note)

lemma keeps_sweep_beat: "noted.keeps (sweep_beat c key until)"
  unfolding sweep_beat_def Let_def
  by (intro keeps_findings keeps_note_beat keeps_modc_same) simp_all

lemma keeps_sweep_keys: "noted.keeps (sweep_keys c ks until)"
  by (induction ks) (simp_all add: noted.keeps_skipc noted.keeps_seqc keeps_sweep_beat)

lemma keeps_sweep_in: "noted.keeps (sweep_in c w until)"
proof (rule noted.keepsI)
  fix s
  have "noted.keeps (sweep_beats c until)"
    unfolding sweep_beats_def by (intro noted.keeps_getc keeps_sweep_keys)
  from noted.keepsD[OF this, of "set_ctx w DIRECTION_UNKNOWN [] s"]
  show "snap_findings s \<le> snap_findings (fst (sweep_in c w until s))"
    by (simp add: sweep_in_def Let_def)
qed

lemma keeps_check_beat: "noted.keeps (check_beat c source name ts dir)"
  unfolding check_beat_def Let_def
  by (intro keeps_option keeps_findings keeps_sweep_in keeps_modc_same) simp_all

lemma keeps_note_all: "noted.keeps (note_all c name source ts fs)"
proof (induction fs)
  case (Cons f fs)
  then show ?case by (cases f) (simp add: noted.keeps_seqc keeps_note)
qed (simp add: noted.keeps_skipc)

section \<open>Silence\<close>

definition silent :: "acct \<Rightarrow> acct cmd \<Rightarrow> bool" where
  "silent s m \<longleftrightarrow> snd (m s) \<and> snap_findings (fst (m s)) = snap_findings s"

lemma silent_seqc:
  assumes "noted.keeps m" "noted.keeps k" "silent s (seqc m k)"
  shows "silent s m \<and> silent (fst (m s)) k"
  using noted.keepsD[OF assms(1), of s] noted.keepsD[OF assms(2), of "fst (m s)"] assms(3)
  by (auto simp: silent_def seqc_def Let_def split: if_splits)

lemma silent_note [simp]: "\<not> silent s (notec c k cl src det ts)" "\<not> silent s (modc (note_finding c f))"
  by (simp_all add: silent_def notec_eq modc_def snap_findings_note)

lemma silent_simps [simp]:
  "silent s skipc" "\<not> silent s raisec" "silent s (getc k) = silent s (k s)"
  "silent s (whenc b m) = (b \<longrightarrow> silent s m)"
  by (auto simp: silent_def skipc_def raisec_def getc_def whenc_def)

lemma silent_readc: "silent s (readc x k) \<longleftrightarrow> (\<exists>a. x = Some a \<and> silent s (k a))"
  by (cases x) (simp_all add: readc_def)

lemma silent_if: "silent s (if b then m else k) = (if b then silent s m else silent s k)"
  by simp

lemma silent_note_all: "silent s (note_all c name source ts fs) \<Longrightarrow> fs = []"
proof (cases fs)
  case (Cons f gs)
  assume "silent s (note_all c name source ts fs)"
  then have "silent s (seqc (notec c (fst f) name source (snd f) ts) (note_all c name source ts gs))"
    using Cons by (cases f) simp
  from silent_seqc[OF keeps_note(1) keeps_note_all this] show ?thesis by simp
qed simp

text \<open>The checks \<open>validate\<close> went through when it stayed silent, each at the state it was reached in.\<close>

lemma silent_validate:
  assumes "silent s (validate c d cl ts dir)"
  shows "\<not> (cname cl = CLASS_UNCLASSIFIED \<or> ends_with (cname cl) ''-other'')" "cname cl \<noteq> CLASS_MALFORMED"
    "\<exists>s. silent s (check_padding c d cl ts)" "\<exists>s. silent s (check_ipv4_header c d cl ts)"
    "cname cl = CLASS_TCP \<or> cname cl = CLASS_TCP6 \<Longrightarrow> \<exists>s. silent s (check_tcp_header c d cl ts)"
    "cname cl = ''lldp'' \<Longrightarrow> \<exists>s. silent s (check_lldp c d cl ts)"
    "cname cl = ''arp'' \<Longrightarrow> \<exists>s. silent s (check_arp c d cl ts)"
    "cname cl \<notin> c_unpinned c \<Longrightarrow> \<exists>s. silent s (check_pin c d cl ts)"
    "c_policy c = Some p \<Longrightarrow>
       policy_check p d (cname cl) (pin_at cl) (case dir of Some x \<Rightarrow> x | None \<Rightarrow> DIRECTION_UNKNOWN) = Some []"
proof -
  let ?rules = "case c_policy c of None \<Rightarrow> skipc
      | Some p \<Rightarrow> readc (policy_check p d (cname cl) (pin_at cl)
                      (case dir of Some x \<Rightarrow> x | None \<Rightarrow> DIRECTION_UNKNOWN))
               (note_all c (cname cl) (source_of d) ts)"
  let ?beat = "getc (\<lambda>s. whenc (a_beats s \<noteq> []) (check_beat c (source_of d) (cname cl) ts dir))"
  let ?pin = "whenc (cname cl \<notin> c_unpinned c) (check_pin c d cl ts)"
  let ?arp = "whenc (cname cl = ''arp'') (check_arp c d cl ts)"
  let ?lldp = "whenc (cname cl = ''lldp'') (check_lldp c d cl ts)"
  let ?tcp = "whenc (cname cl = CLASS_TCP \<or> cname cl = CLASS_TCP6) (check_tcp_header c d cl ts)"
  let ?unc = "whenc (cname cl = CLASS_UNCLASSIFIED \<or> ends_with (cname cl) ''-other'')
              (notec c ''unclassified'' (cname cl) (source_of d) (No_rule (length d)) ts)"
  have k: "noted.keeps ?rules"
    by (intro keeps_option noted.keeps_skipc noted.keeps_readc keeps_note_all)
  have k1: "noted.keeps ?beat" by (intro noted.keeps_getc noted.keeps_whenc keeps_check_beat)
  have k2: "noted.keeps ?pin" "noted.keeps ?arp" "noted.keeps ?lldp" "noted.keeps ?tcp" "noted.keeps ?unc"
    by (intro noted.keeps_whenc keeps_check_pin keeps_check_arp keeps_check_lldp keeps_check_tcp_header keeps_note)+
  note q7 = noted.keeps_seqc[OF k1 k]
  note q6 = noted.keeps_seqc[OF k2(1) q7]
  note q5 = noted.keeps_seqc[OF k2(2) q6]
  note q4 = noted.keeps_seqc[OF k2(3) q5]
  note q3 = noted.keeps_seqc[OF k2(4) q4]
  note q2 = noted.keeps_seqc[OF keeps_check_ipv4_header q3]
  note q1 = noted.keeps_seqc[OF keeps_check_padding q2]
  note s0 = silent_seqc[OF k2(5) noted.keeps_if[OF keeps_note(1) q1] assms[unfolded validate_def Let_def]]
  show 1: "\<not> (cname cl = CLASS_UNCLASSIFIED \<or> ends_with (cname cl) ''-other'')" "cname cl \<noteq> CLASS_MALFORMED"
    using s0 by (simp_all split: if_splits)
  note s1 = conjunct2[OF s0, unfolded if_not_P[OF 1(2)]]
  note s2 = silent_seqc[OF keeps_check_padding q2 s1]
  note s3 = silent_seqc[OF keeps_check_ipv4_header q3 conjunct2[OF s2]]
  note s4 = silent_seqc[OF k2(4) q4 conjunct2[OF s3]]
  note s5 = silent_seqc[OF k2(3) q5 conjunct2[OF s4]]
  note s6 = silent_seqc[OF k2(2) q6 conjunct2[OF s5]]
  note s7 = silent_seqc[OF k2(1) q7 conjunct2[OF s6]]
  note s8 = silent_seqc[OF k1 k conjunct2[OF s7]]
  show "\<exists>s. silent s (check_padding c d cl ts)" "\<exists>s. silent s (check_ipv4_header c d cl ts)"
    "cname cl = CLASS_TCP \<or> cname cl = CLASS_TCP6 \<Longrightarrow> \<exists>s. silent s (check_tcp_header c d cl ts)"
    "cname cl = ''lldp'' \<Longrightarrow> \<exists>s. silent s (check_lldp c d cl ts)"
    "cname cl = ''arp'' \<Longrightarrow> \<exists>s. silent s (check_arp c d cl ts)"
    "cname cl \<notin> c_unpinned c \<Longrightarrow> \<exists>s. silent s (check_pin c d cl ts)"
    using conjunct1[OF s2] conjunct1[OF s3] conjunct1[OF s4] conjunct1[OF s5] conjunct1[OF s6] conjunct1[OF s7]
    by (simp_all only: silent_simps simp_thms) (rule exI, assumption)+
  show "policy_check p d (cname cl) (pin_at cl) (case dir of Some x \<Rightarrow> x | None \<Rightarrow> DIRECTION_UNKNOWN) = Some []"
    if "c_policy c = Some p"
    using conjunct2[OF s8] that silent_note_all by (auto simp: silent_readc)
qed

end
