(* ===== verification/Accounting_Proofs.thy ===== *)
theory Accounting_Proofs
  imports Silence Receiver
begin

text \<open>
  What the accountant of \<^verbatim>\<open>frame-processor/app/accounting.py\<close> promises: every frame is classified, an
  observation never raises and is counted once, a session's window reports add up to what was seen,
  a frame it says nothing about conforms to the declared link, and pins and beats count exactly.
\<close>

section \<open>Classification\<close>

text \<open>Every frame, whatever its bytes, gets a class: \<open>classify\<close> never raises, never answers with
  \<open>unclassified\<close> or the ring's \<open>truncated\<close>, and the offsets it hands on lie inside the frame.\<close>

theorem classify_total:
  "\<exists>k. classify d = Some k \<and> pin_at k \<le> length d \<and>
     list_all (\<lambda>(a, b). a < b \<and> b \<le> length d) (derived k) \<and>
     cname k \<notin> {CLASS_UNCLASSIFIED, CLASS_TRUNCATED}"
  using classify_class_of[of d] class_of_bounds(1,3,4)[of d] class_of_bounds(2)[of _ _ d]
  by (auto simp: list_all_iff)

section \<open>Observation\<close>

lemma balanced_new:
  assumes "positive_beats c" "case c_window_seconds c of None \<Rightarrow> True | Some ws \<Rightarrow> 0 < ws"
  shows "balanced_acct c (new_accountant c)"
  using new_accountant_beats[OF assms(1)] new_accountant_books[OF assms(1)] assms(2)
  by (auto simp: balanced_acct_def new_accountant_def split: option.splits intro!: exI[of _ "[]"])

text \<open>Observing a frame never raises, and counts it once: the observed and classified totals go up
  together, its class gains one frame of its length in its direction, and the account stays
  balanced.\<close>

theorem observe_counts:
  assumes "balanced_acct c s"
  shows "\<exists>t. observe c d ts dir s = (t, Some (cname (class_of d))) \<and> balanced_acct c t \<and>
    a_observed t = a_observed s + 1 \<and> a_classified t = a_classified s + 1 \<and>
    a_classes t = count_class (cname (class_of d)) (length d) (resolve_direction c d dir) (a_classes s)"
  using balanced_observe[OF assms, of d ts dir] by (auto simp: counted_def)

lemma sample_positive: "positive_beats sample_acct"
  by (simp add: positive_beats_def sample_acct_def sample_policy_def)

theorem observe_counts_witness:
  "\<exists>t n. observe sample_acct sample_frame 1000 None (new_accountant sample_acct) = (t, Some n) \<and> a_classified t = 1"
proof -
  have "balanced_acct sample_acct (new_accountant sample_acct)"
    using sample_positive by (rule balanced_new) (simp add: sample_acct_def)
  from observe_counts[OF this, of sample_frame 1000 None] show ?thesis
    by (auto simp: new_accountant_def)
qed

text \<open>C14: Over a whole session, frames, truncated records, kernel drops and clock ticks in any order, the
  windowed account loses nothing: no call raises; every window report is balanced, on the grid and
  within its bounds, and the reports follow each other in time; the frames and truncations they count
  add up to the events; and no finding is missing from them.\<close>

theorem session_conserves:
  assumes "c_window_seconds c = Some ws" "0 < ws" "positive_beats c" "\<exists>e \<in> set evs. opens_window e"
  shows "\<exists>out s. account_session c evs now = Some (out, s) \<and>
    (\<forall>r \<in> set out. report_ok c ws r) \<and> reports_ordered out \<and>
    total_reports wr_classified out = total_events frames_of evs \<and>
    total_reports wr_truncated out = total_events truncated_of evs \<and>
    snap_findings s \<le> total_reports wr_finding_count out"
  using session_books[OF assms(1-3)] assms(4) by (fastforce simp: session_account_def)

theorem session_conserves_witness:
  "\<exists>out s. account_session sample_acct
       [Ev_roll 900, Ev_frame sample_frame 1000 None, Ev_dropped 3, Ev_truncated 9000 2048 1299, Ev_roll 4000] 4100
     = Some (out, s) \<and> total_reports wr_classified out = 2 \<and> total_reports wr_truncated out = 1"
proof -
  have "c_window_seconds sample_acct = Some 300" by (simp add: sample_acct_def)
  from session_conserves[OF this _ sample_positive, of "[Ev_roll 900, Ev_frame sample_frame 1000 None,
      Ev_dropped 3, Ev_truncated 9000 2048 1299, Ev_roll 4000]" 4100]
  show ?thesis by fastforce
qed

text \<open>A frame is counted in the window its time stamp falls in, or, when it comes late, in the window
  that is open: afterwards the open window starts on the grid, at the later of the two.\<close>

theorem observe_window:
  assumes "acct_books c ws out s"
  shows "\<exists>t w. observe c d ts dir s = (t, Some (cname (class_of d))) \<and> a_window t = Some w \<and>
    on_grid ws (w_start w) \<and> w_end w = w_start w + ws \<and>
    w_start w = (case a_window s of None \<Rightarrow> window_start_for ts ws
                 | Some v \<Rightarrow> max (window_start_for ts ws) (w_start v))"
proof -
  have b: "books c ws 0 out s" "ready out s" "c_window_seconds c = Some ws" "0 < ws"
    using assms by (simp_all add: acct_books_def)
  obtain t where t: "observe c d ts dir s = (t, Some (cname (class_of d)))" "books c ws 0 out t"
    "window_at (landing ws ts s) t"
    using observe_books[OF b] by blast
  then obtain w where "a_window t = Some w" "w_start w = landing ws ts s"
    by (auto simp: window_at_def)
  moreover from this t(2) have "win_ok c ws w" by (simp add: books_win)
  ultimately show ?thesis using t(1) by (auto simp: win_ok_def landing_def)
qed

theorem observe_window_witness:
  "\<exists>t w. observe sample_acct sample_frame 1000 None (new_accountant sample_acct) = (t, Some (cname (class_of sample_frame))) \<and>
     a_window t = Some w \<and> w_start w = window_start_for 1000 300"
proof -
  have "acct_books sample_acct 300 [] (new_accountant sample_acct)"
    using new_accountant_books(1)[OF sample_positive, of 300] new_accountant_books(2)[OF sample_positive]
    by (simp add: acct_books_def new_accountant_def) (simp add: sample_acct_def)
  from observe_window[OF this, of sample_frame 1000 None] show ?thesis
    by (auto simp: new_accountant_def)
qed

section \<open>Late starts and early stops\<close>

text \<open>A capture that starts after its first window began says so: the report of that window carries a
  finding, so it is never complete.\<close>

theorem late_start_incomplete:
  assumes "c_window_seconds c = Some ws" "a_window s = None" "a_windows_opened s = 0" "start < c_process_epoch c"
  shows "\<exists>w. a_window (fst (open_window c start s)) = Some w \<and> w_start w = start \<and>
    \<not> report_complete (report_of c (fst (open_window c start s)) w)"
  using assms
  by (simp add: open_window_def readc_def modc_def Let_def report_of_def report_complete_def new_win_def)

theorem late_start_incomplete_witness:
  "\<exists>w. a_window (fst (open_window (sample_acct\<lparr>c_process_epoch := 1000\<rparr>) 900 (new_accountant sample_acct))) = Some w \<and>
     \<not> report_complete (report_of (sample_acct\<lparr>c_process_epoch := 1000\<rparr>)
          (fst (open_window (sample_acct\<lparr>c_process_epoch := 1000\<rparr>) 900 (new_accountant sample_acct))) w)"
  using late_start_incomplete[of "sample_acct\<lparr>c_process_epoch := 1000\<rparr>" 300 "new_accountant sample_acct" 900]
  by (auto simp: new_accountant_def) (auto simp: sample_acct_def)

section \<open>What silence means\<close>

lemma silent_padding:
  assumes "silent s (check_padding c d cl ts)" "content_end cl = Some e" "e < length d"
  shows "length d \<le> 60 \<and> (\<forall>b \<in> set (drop e d). b = 0)"
  using assms by (auto simp: check_padding_def split: if_splits)

lemma silent_tcp_header:
  assumes "silent s (check_tcp_header c d cl ts)" "pin_at cl + 20 \<le> length d"
  shows "\<exists>b. byte_at d (pin_at cl + 12) = Some b \<and> b AND TCP_RESERVED_MASK = 0"
  using assms(1)[unfolded check_tcp_header_def Let_def] assms(2)
  by (auto simp: silent_readc simp del: byte_at_Some
      dest!: silent_seqc[rotated 2] intro: keeps_findings split: if_splits)

text \<open>The terms of the declared link, as a frame of a TCP connection meets them. A frame may end before
  its TCP header does: of the header, only the ports and the flags it has are bound by the terms.\<close>

definition on_the_link :: "link_policy \<Rightarrow> direction \<Rightarrow> bytes \<Rightarrow> nat \<Rightarrow> bool" where
  "on_the_link p dir d pin \<longleftrightarrow>
     (let eth = ethernet_header_len d in
      (case dir of
         DIRECTION_OUT \<Rightarrow> pslice d 6 12 = peer_mac p \<and> CLASS_TCP \<in> allow_out p \<and>
           (\<forall>m. local_mac p = Some m \<longrightarrow> pslice d 0 6 \<in> permitted_destinations p m)
       | DIRECTION_IN \<Rightarrow> (\<forall>m. local_mac p = Some m \<longrightarrow> pslice d 6 12 = m) \<and> CLASS_TCP \<in> allow_in p \<and>
           pslice d 0 6 \<in> permitted_destinations p (peer_mac p)
       | DIRECTION_UNKNOWN \<Rightarrow> False) \<and>
      (\<forall>src dst. endpoints p dir = (Some src, Some dst) \<longrightarrow>
         pslice d (eth + 12) (eth + 16) = src \<and> pslice d (eth + 16) (eth + 20) = dst) \<and>
      (peer_ports p \<noteq> {} \<and> pin + 4 \<le> length d \<longrightarrow>
         (\<exists>port. u16_at d (if dir = DIRECTION_OUT then pin else pin + 2) = Some port \<and> port \<in> peer_ports p)) \<and>
      (dir = DIRECTION_OUT \<and> pin + 14 \<le> length d \<longrightarrow>
         (\<exists>fl. byte_at d (pin + 13) = Some fl \<and> (fl AND TH_SYN = 0 \<or> fl AND TH_ACK \<noteq> 0))))"

lemma tcp_not_flagged: "CLASS_TCP \<notin> ALREADY_FLAGGED" "\<not> ends_with CLASS_TCP ''-other''"
  by (simp_all add: CLASS_TCP_def ALREADY_FLAGGED_def ends_with_def)

lemma silent_policy_tcp:
  assumes chk: "policy_check p d CLASS_TCP pin dir = Some []"
    and eth: "ethernet_header_len d + 20 \<le> length d" "u16_at d (ethernet_header_len d - 2) = Some ETHERTYPE_IPV4"
  shows "on_the_link p dir d pin"
proof -
  have len: "14 \<le> length d" "ethernet_header_len d \<le> length d"
    using eth(1) ethernet_header_len_ge[of d] by linarith+
  note parts = silent_parts[OF chk len(1)]
  have dir: "dir \<noteq> DIRECTION_UNKNOWN" using parts(1) by (auto simp: silent_source)
  have ends: "case dir of
         DIRECTION_OUT \<Rightarrow> pslice d 6 12 = peer_mac p \<and> CLASS_TCP \<in> allow_out p \<and>
           (\<forall>m. local_mac p = Some m \<longrightarrow> pslice d 0 6 \<in> permitted_destinations p m)
       | DIRECTION_IN \<Rightarrow> (\<forall>m. local_mac p = Some m \<longrightarrow> pslice d 6 12 = m) \<and> CLASS_TCP \<in> allow_in p \<and>
           pslice d 0 6 \<in> permitted_destinations p (peer_mac p)
       | DIRECTION_UNKNOWN \<Rightarrow> False"
    using parts(1-3) silent_class[OF parts(2) tcp_not_flagged] dir
    by (cases dir) (simp_all add: silent_source silent_destination)
  note rules = silent_ipv4[OF parts(4)[OF len(2) eth(2)] eth(1) dir]
  show ?thesis
    unfolding on_the_link_def Let_def
    by (intro conjI allI impI ends) (use rules in blast)+
qed

text \<open>C3: What silence means for a TCP frame: when the accountant, with a link policy, validates a frame
  of the class ipv4-tcp without adding a finding, the frame carries the declared MAC and IP addresses
  for its direction, is of a class allowed that way, and hides nothing behind its IP content, where only
  the zero padding of a minimum-size frame may follow. Of the TCP header the checks see as much as the
  frame holds: if the ports are there and the policy declares served ports, the port of the tapped side
  is a served one; if the flags are there, an outgoing segment does not open a connection; if the whole
  header is there, its reserved bits are zero. A frame cut before any of these is accepted without that
  check.\<close>

theorem silent_tcp_conforms:
  assumes pol: "c_policy c = Some p" and cls: "cname (class_of d) = CLASS_TCP"
    and ok: "beats_ok s" "snap_findings (fst (validate c d (class_of d) ts dir s)) = snap_findings s"
  shows "on_the_link p (case dir of Some x \<Rightarrow> x | None \<Rightarrow> DIRECTION_UNKNOWN) d (pin_at (class_of d)) \<and>
    (\<forall>e. content_end (class_of d) = Some e \<and> e < length d \<longrightarrow> length d \<le> 60 \<and> (\<forall>b \<in> set (drop e d). b = 0)) \<and>
    (pin_at (class_of d) + 20 \<le> length d \<longrightarrow>
       (\<exists>b. byte_at d (pin_at (class_of d) + 12) = Some b \<and> b AND TCP_RESERVED_MASK = 0))"
proof (intro conjI allI impI)
  have s: "silent s (validate c d (class_of d) ts dir)"
    using validate_safe[OF ok(1)] ok(2) by (simp add: silent_def)
  note v = silent_validate[OF s]
  have eth: "ethernet_header_len d + 20 \<le> length d" "u16_at d (ethernet_header_len d - 2) = Some ETHERTYPE_IPV4"
    using class_tcp_is_ipv4[OF cls] classify_ipv4_tcp[OF _ cls] by blast+
  show "on_the_link p (case dir of Some x \<Rightarrow> x | None \<Rightarrow> DIRECTION_UNKNOWN) d (pin_at (class_of d))"
    using v(9)[OF pol] eth unfolding cls by (rule silent_policy_tcp)
  show "\<exists>b. byte_at d (pin_at (class_of d) + 12) = Some b \<and> b AND TCP_RESERVED_MASK = 0"
    if "pin_at (class_of d) + 20 \<le> length d"
    using v(5) cls silent_tcp_header that by blast
  fix e assume "content_end (class_of d) = Some e \<and> e < length d"
  then show "length d \<le> 60" "\<forall>b \<in> set (drop e d). b = 0"
    using v(3) silent_padding by blast+
qed

text \<open>The sample frame is such a segment.\<close>

lemma sample_eth_len: "ethernet_header_len sample_frame = 14"
  by (simp add: ethernet_header_len_def eth_tag_loop.simps pslice_def VLAN_TPIDS_def sample_frame_def)

lemma sample_class: "class_of sample_frame =
    \<lparr>cname = CLASS_TCP, pin_at = 34, content_end = Some 56, derived = [(18, 20), (24, 26)]\<rparr>"
  using classify_class_of[of sample_frame]
  by (simp add: classify_def classify_ipv4_def Let_def sample_eth_len sample_frame_reads)

lemma sample_policy_silent: "policy_check sample_policy sample_frame CLASS_TCP 34 DIRECTION_OUT = Some []"
proof -
  have "pslice sample_frame 6 12 = [2,0,0,0,0,1]" "pslice sample_frame 0 6 = [2,0,0,0,0,2]"
    by (simp_all add: pslice_def sample_frame_def)
  moreover have "check_class sample_policy CLASS_TCP DIRECTION_OUT = []"
    by (simp add: check_class_def sample_policy_def CLASS_TCP_def ALREADY_FLAGGED_def ends_with_def)
  ultimately show ?thesis
    by (simp add: policy_check_def Let_def sample_eth_len sample_frame_reads check_source_mac_def
        check_destination_mac_def permitted_destinations_def check_ipv4_rules_def endpoints_def
        del: byte_at_Some) (simp add: sample_policy_def CLASS_ARP_def permitted_destinations_def)
qed

theorem silent_tcp_conforms_witness: "on_the_link sample_policy DIRECTION_OUT sample_frame 34"
proof -
  let ?s = "(new_accountant sample_acct)\<lparr>a_beats := []\<rparr>"
  have c: "c_policy sample_acct = Some sample_policy" "c_unpinned sample_acct = set UNPINNED_CLASSES"
    "\<not> c_allow_fragments sample_acct" by (simp_all add: sample_acct_def)
  have names: "CLASS_TCP \<noteq> CLASS_UNCLASSIFIED" "CLASS_TCP \<noteq> CLASS_MALFORMED" "CLASS_TCP \<noteq> ''lldp''"
    "CLASS_TCP \<noteq> ''arp''" "CLASS_TCP \<in> set UNPINNED_CLASSES" "\<not> ends_with CLASS_TCP ''-other''"
    by (simp_all add: CLASS_TCP_def CLASS_UNCLASSIFIED_def CLASS_MALFORMED_def UNPINNED_CLASSES_def ends_with_def)
  have r: "byte_at sample_frame 46 = Some 0x50" "u16_at sample_frame 52 = Some 0"
    by (simp_all add: read_simps sample_frame_def)
  have "validate sample_acct sample_frame (class_of sample_frame) 0 (Some DIRECTION_OUT) ?s = (?s, True)"
    using names c
    by (simp add: validate_def Let_def sample_class seqc_def whenc_def skipc_def readc_def getc_def
        check_padding_def sample_frame_reads check_ipv4_header_def sample_eth_len check_tcp_header_def r
        ip_flag_details_def sample_policy_silent del: byte_at_Some)
  then show ?thesis
    using silent_tcp_conforms[of sample_acct sample_policy sample_frame ?s 0 "Some DIRECTION_OUT"] c
    by (simp add: sample_class sample_frame_reads beats_ok_def)
qed

section \<open>Pins\<close>

definition pin_tracks :: "acct_cfg \<Rightarrow> bytes list \<Rightarrow> pin \<Rightarrow> bool" where
  "pin_tracks c ps p \<longleftrightarrow>
     pin_frames p = length ps \<and> length (variants p) \<le> c_max_variants c \<and> distinct (keys (variants p)) \<and>
     (\<forall>vn \<in> set (variants p). fst vn \<in> set ps \<and> snd vn = count_list ps (fst vn)) \<and>
     (if overflowed p then length (variants p) = c_max_variants c
      else set (keys (variants p)) = set ps \<and> pin_distinct p = length (variants p))"

lemma dset_old_member:
  "distinct (keys d) \<Longrightarrow> kv \<in> set (dset k v d) \<Longrightarrow> kv = (k, v) \<or> kv \<in> set d \<and> fst kv \<noteq> k"
proof (induction d)
  case (Cons x d)
  then show ?case by (cases x; cases kv) (force simp: rev_image_eqI split: if_splits)
qed simp

lemma count_list_snoc: "count_list (xs @ [y]) x = count_list xs x + (if x = y then 1 else 0)"
  by simp

lemma pin_observe_tracks:
  assumes t: "pin_tracks c ps p"
  shows "pin_tracks c (ps @ [v]) (pin_observe c v p)"
proof (cases "map_of (variants p) v")
  case (Some n)
  then have v: "(v, n) \<in> set (variants p)" by (rule map_of_SomeD)
  then have n: "v \<in> set ps" "n = count_list ps v" using t by (auto simp: pin_tracks_def)
  have k: "v \<in> set (keys (variants p))" using Some by (rule map_of_Some_keys)
  let ?d = "dset v (n + 1) (variants p)"
  have "\<forall>wn \<in> set ?d. fst wn \<in> set (ps @ [v]) \<and> snd wn = count_list (ps @ [v]) (fst wn)"
  proof
    fix wn assume "wn \<in> set ?d"
    then have "wn = (v, n + 1) \<or> wn \<in> set (variants p) \<and> fst wn \<noteq> v"
      using t by (intro dset_old_member) (simp_all add: pin_tracks_def)
    then show "fst wn \<in> set (ps @ [v]) \<and> snd wn = count_list (ps @ [v]) (fst wn)"
      using t n by (auto simp: pin_tracks_def count_list_snoc)
  qed
  moreover have "keys ?d = keys (variants p)" using k by (rule keys_dset_old)
  moreover from this have "length ?d = length (variants p)" by (metis length_map)
  ultimately show ?thesis
    using t Some n(1) by (auto simp: pin_tracks_def pin_observe_def Let_def simp del: set_map)
next
  case None
  then have k: "v \<notin> set (keys (variants p))" by (simp add: map_of_None_keys)
  show ?thesis
  proof (cases "length (variants p) < c_max_variants c")
    case True
    then have no: "\<not> overflowed p" using t by (auto simp: pin_tracks_def)
    then have "v \<notin> set ps" using t k by (simp add: pin_tracks_def)
    moreover have "\<forall>wn \<in> set (variants p). fst wn \<noteq> v" using k by auto
    ultimately show ?thesis
      using t None True no k dset_new[OF k, of 1]
      by (auto simp: pin_tracks_def pin_observe_def Let_def count_list_snoc)
  next
    case False
    then have "length (variants p) = c_max_variants c" using t by (simp add: pin_tracks_def)
    moreover have "\<forall>wn \<in> set (variants p). fst wn \<noteq> v" using k by auto
    ultimately show ?thesis
      using t None by (auto simp: pin_tracks_def pin_observe_def Let_def count_list_snoc)
  qed
qed

lemma pin_run_tracks: "pin_tracks c ps (fold (pin_observe c) ps (new_pin ts declared whole))"
proof (induction ps rule: rev_induct)
  case Nil
  show ?case by (simp add: pin_tracks_def new_pin_def)
next
  case (snoc v ps)
  from pin_observe_tracks[OF this, of v] show ?case by simp
qed

text \<open>A pin is an exact census in bounded space: after any payloads it holds at most
  \<open>max_variants\<close> of them, each with the number of frames that carried it; until it overflows it holds
  every payload seen, and it calls the flow constant exactly when all payloads were the same.\<close>

theorem pin_census:
  fixes c ps ts declared whole
  defines "p \<equiv> fold (pin_observe c) ps (new_pin ts declared whole)"
  shows "pin_frames p = length ps \<and> length (variants p) \<le> c_max_variants c \<and>
    (\<forall>v n. map_of (variants p) v = Some n \<longrightarrow> n = count_list ps v) \<and>
    (\<not> overflowed p \<longrightarrow> set (keys (variants p)) = set ps \<and> (pin_constant p \<longleftrightarrow> card (set ps) = 1))"
proof -
  have t: "pin_tracks c ps p" unfolding p_def by (rule pin_run_tracks)
  have "n = count_list ps v" if "map_of (variants p) v = Some n" for v n
    using t map_of_SomeD[OF that] by (auto simp: pin_tracks_def)
  moreover have "card (set ps) = pin_distinct p" if "\<not> overflowed p"
    using t that distinct_card[of "keys (variants p)"] by (simp add: pin_tracks_def)
  ultimately show ?thesis using t by (auto simp: pin_tracks_def pin_constant_def)
qed

theorem pin_census_witness:
  "\<not> overflowed (fold (pin_observe sample_acct) [[1], [2], [1]] (new_pin 0 None False)) \<and>
   set (keys (variants (fold (pin_observe sample_acct) [[1], [2], [1]] (new_pin 0 None False)))) = {[1], [2]}"
proof -
  have "\<not> overflowed (fold (pin_observe sample_acct) [[1], [2], [1]] (new_pin 0 None False))"
    by (simp add: pin_observe_def new_pin_def sample_acct_def Let_def)
  with pin_census[of sample_acct "[[1], [2], [1]]" 0 None False] show ?thesis by auto
qed

section \<open>Beats\<close>

text \<open>The due times of a cadence that have passed without a beat, when \<open>until\<close> is reached.\<close>

definition due_times :: "beat \<Rightarrow> real \<Rightarrow> nat set" where
  "due_times b until = {k. next_due b + real k * b_interval b + b_tolerance b < until}"

lemma due_times_count:
  assumes "0 < b_interval b" "next_due b + b_tolerance b < until"
  shows "due_times b until = {..< nat \<lceil>(until - b_tolerance b - next_due b) / b_interval b\<rceil>}"
proof -
  have "k \<in> due_times b until \<longleftrightarrow> k < nat \<lceil>(until - b_tolerance b - next_due b) / b_interval b\<rceil>" for k
  proof -
    have "k \<in> due_times b until \<longleftrightarrow> real k * b_interval b < until - b_tolerance b - next_due b"
      by (auto simp: due_times_def)
    also have "\<dots> \<longleftrightarrow> real k < (until - b_tolerance b - next_due b) / b_interval b"
      using assms(1) by (simp add: pos_less_divide_eq)
    also have "\<dots> \<longleftrightarrow> int k < \<lceil>(until - b_tolerance b - next_due b) / b_interval b\<rceil>"
      by (simp add: less_ceiling_iff)
    also have "\<dots> \<longleftrightarrow> k < nat \<lceil>(until - b_tolerance b - next_due b) / b_interval b\<rceil>"
      by linarith
    finally show ?thesis .
  qed
  then show ?thesis by auto
qed

lemma note_finding_due [simp]: "a_beats (fst (note_beat c k b det ts s)) = a_beats s" "snd (note_beat c k b det ts s)"
  by (simp_all add: note_beat_def modc_def)

text \<open>A sweep counts misses exactly: for an armed cadence that is overdue, it raises the count by the
  number of due times that have passed, moves the next one past the clock, says so in one finding, and
  sweeping again at the same time changes nothing.\<close>

theorem sweep_counts_misses:
  assumes b: "map_of (a_beats s) key = Some b" and pos: "0 < b_interval b" "0 < next_due b"
    and due: "next_due b + b_tolerance b < until" and small: "card (due_times b until) \<le> 1000"
  shows "\<exists>b' s'. sweep_beat c key until s = (s', True) \<and> map_of (a_beats s') key = Some b' \<and>
    missed b' = missed b + int (card (due_times b until)) \<and> until \<le> next_due b' + b_tolerance b' \<and>
    snap_findings s' = snap_findings s + 1 \<and> sweep_beat c key until s' = (s', True)"
proof -
  let ?n = "\<lceil>(until - b_tolerance b - next_due b) / b_interval b\<rceil>"
  let ?b = "b\<lparr>awaiting_return := True, missed := missed b + ?n,
      next_due := next_due b + of_int ?n * b_interval b\<rparr>"
  let ?det = "Beat_missed ?n (b_interval b) (next_due b) (last_ts b)"
  let ?s = "fst (note_beat c KIND_BEAT_MISSED ?b ?det (next_due b) (put_beat key ?b s))"
  have n0: "0 \<le> ?n"
  proof -
    have "0 < (until - b_tolerance b - next_due b) / b_interval b"
      using pos(1) due by (intro divide_pos_pos) simp_all
    then show ?thesis by linarith
  qed
  have card: "int (card (due_times b until)) = ?n"
    using n0 by (simp add: due_times_count[OF pos(1) due])
  have late: "until \<le> next_due ?b + b_tolerance ?b"
  proof -
    have "(until - b_tolerance b - next_due b) / b_interval b \<le> of_int ?n" by (rule le_of_int_ceiling)
    then have "until - b_tolerance b - next_due b \<le> of_int ?n * b_interval b"
      by (simp only: pos_divide_le_eq[OF pos(1)])
    then show ?thesis by simp
  qed
  have "int (card (due_times b until)) \<le> 1000" using small by simp
  then have lim: "\<not> BEAT_RESYNC_LIMIT < ?n" unfolding card BEAT_RESYNC_LIMIT_def by (simp only: not_less)
  have run: "sweep_beat c key until s = (?s, True)"
    using b pos due lim
    by (simp add: sweep_beat_def getc_def readc_def beat_armed_def Let_def seqc_def modc_def
        prod_eq_iff not_le del: less_ceiling_iff)
  have beats: "map_of (a_beats ?s) key = Some ?b" by (simp add: put_beat_def update_conv)
  have "snap_findings ?s = snap_findings s + 1" by (simp add: note_beat_def modc_def snap_findings_note)
  moreover have "sweep_beat c key until ?s = (?s, True)"
  proof -
    have "sweep_beat c key until ?s = skipc ?s"
      using beats late by (simp only: sweep_beat_def getc_def readc_def option.case if_True simp_thms)
    then show ?thesis by (simp add: skipc_def)
  qed
  ultimately show ?thesis
    using run beats late card by (intro exI[of _ ?b] exI[of _ ?s]) simp
qed

definition sample_beat :: beat where
  "sample_beat =
     \<lparr>b_interval = 30, b_tolerance = 5, b_source = ''02:00:00:00:00:01'', b_class = ''lldp'', next_due = 100,
      first_ts = 70, last_ts = 70, beats_seen = 1, missed = 0, unscheduled = 0, resyncs = 0,
      awaiting_return = False, min_gap = 0, max_gap = 0, b_direction = DIRECTION_OUT\<rparr>"

text \<open>Due at 100 and 130, the second within its tolerance: one miss at 134.\<close>

theorem sweep_counts_misses_witness:
  "\<exists>b' s'. sweep_beat sample_acct ''k'' 134 ((new_accountant sample_acct)\<lparr>a_beats := [(''k'', sample_beat)]\<rparr>) = (s', True) \<and>
     map_of (a_beats s') ''k'' = Some b' \<and> missed b' = 1"
proof -
  have "due_times sample_beat 134 = {0}"
  proof -
    have "\<lceil>29 / 30 :: real\<rceil> = 1" by (simp add: ceiling_eq_iff)
    then have "nat \<lceil>(134 - b_tolerance sample_beat - next_due sample_beat) / b_interval sample_beat\<rceil> = 1"
      by (simp add: sample_beat_def)
    moreover have "0 < b_interval sample_beat" "next_due sample_beat + b_tolerance sample_beat < 134"
      by (simp_all add: sample_beat_def)
    ultimately show ?thesis by (simp only: due_times_count lessThan_Suc One_nat_def lessThan_0)
  qed
  then show ?thesis
    using sweep_counts_misses[of "(new_accountant sample_acct)\<lparr>a_beats := [(''k'', sample_beat)]\<rparr>" "''k''"
        sample_beat 134 sample_acct]
    by (auto simp: sample_beat_def)
qed

text \<open>A cadence that survives parsing is positive, so a configured beat can be swept: the declared
  interval never divides by zero and never runs backwards.\<close>

theorem declared_beats_positive:
  assumes "parse_declared_beats py_float v = Some bs"
  shows "\<forall>ki \<in> set bs. 0 < snd ki"
  using assms by (rule parse_declared_beats_pos)

theorem declared_beats_positive_witness:
  "\<exists>bs. parse_declared_beats (\<lambda>s. if s = ''30'' then Some 30 else if s = ''0'' then Some 0 else None)
        (Some ''02:00:00:00:00:01/lldp=30,02:00:00:00:00:01/arp=0,02:00:00:00:00:02/x=y'') = Some bs \<and> bs \<noteq> [] \<and> (\<forall>ki \<in> set bs. 0 < snd ki)"
proof -
  let ?f = "\<lambda>s. if s = ''30'' then Some 30 else if s = ''0'' then Some (0::real) else None"
  have "parse_declarations (Some ''02:00:00:00:00:01/lldp=30,02:00:00:00:00:01/arp=0,02:00:00:00:00:02/x=y'')
      = Some [(''02:00:00:00:00:01/lldp'', ''30''), (''02:00:00:00:00:01/arp'', ''0''), (''02:00:00:00:00:02/x'', ''y'')]" by code_simp
  then have r: "parse_declared_beats ?f (Some ''02:00:00:00:00:01/lldp=30,02:00:00:00:00:01/arp=0,02:00:00:00:00:02/x=y'') = Some [(''02:00:00:00:00:01/lldp'', 30)]"
    by (simp add: parse_declared_beats_def)
  show ?thesis using declared_beats_positive[OF r] r by auto
qed

section \<open>A spanning tree frame is called a fragment\<close>

text \<open>A rapid spanning tree BPDU: 802.3 length, LLC 42 42 03, protocol 0, version 2, type 2, flags 0x3c.\<close>

definition rstp_frame :: bytes where
  "rstp_frame =
     [1,0x80,0xc2,0,0,0, 2,0,0,0,0,1, 0,39,
      0x42,0x42,3, 0,0,2,2,0x3c] @ replicate 38 0"

lemma rstp_reads:
  "ethernet_header_len rstp_frame = 14" "length rstp_frame = 60" "byte_at rstp_frame 14 = Some 0x42"
  "byte_at rstp_frame 15 = Some 0x42" "u16_at rstp_frame 12 = Some 39" "u16_at rstp_frame 20 = Some 0x023c"
  by (simp_all add: ethernet_header_len_def eth_tag_loop.simps pslice_def VLAN_TPIDS_def rstp_frame_def
      u16_at_def byte_at_def nth_append)

text \<open>The header check mistakes a rapid spanning tree BPDU for a fragmented IPv4 packet: it looks only
  at the first nibble of the payload, which in an LLC frame is the spanning tree SAP, so a frame it has
  itself classified \<open>stp\<close> raises \<open>ipv4-fragmented\<close>.\<close>

theorem rstp_flagged_fragmented:
  "cname (class_of rstp_frame) = ''stp'' \<and>
   check_ipv4_header sample_acct rstp_frame (class_of rstp_frame) ts s =
     (note_finding sample_acct (mk_finding ''ipv4-fragmented'' ''stp'' (source_of rstp_frame)
        (Ip_flags [Flag_offset 0x023c]) ts DIRECTION_UNKNOWN) s, True)"
proof -
  have "class_of rstp_frame = Classification_end ''stp'' 14 (Some 53)"
    using classify_class_of[of rstp_frame]
    by (simp add: classify_def Let_def rstp_reads classify_llc_def)
  then have cls: "cname (class_of rstp_frame) = ''stp''" by simp
  moreover have "ip_flag_details sample_acct 0x023c = [Flag_offset 0x023c]"
    by (simp add: ip_flag_details_def sample_acct_def)
  moreover have "drop_bit 4 (0x42::nat) = 4" "(0x42::nat) AND 15 = 2"
    by (simp_all add: drop_bit_eq_div)
  ultimately show ?thesis
    by (simp add: check_ipv4_header_def Let_def rstp_reads readc_def whenc_def skipc_def seqc_def notec_def modc_def
        del: byte_at_Some)
qed

end
