(* ===== verification/Checks_Proofs.thy ===== *)
theory Checks_Proofs
  imports Silence Checks
begin

text \<open>
  What the two byte-level checks decide: the header checksum is exactly RFC 1071's condition on the
  sum of the header's 16-bit words, and the TLV walk accepts exactly the frames that begin with a
  well-formed LLDP TLV list.
\<close>

section \<open>The IPv4 header checksum\<close>

lemma words16_append: "even (length a) \<Longrightarrow> words16 (a @ b) = words16 a @ words16 b"
  by (induction a rule: words16.induct) auto

lemma sum_words16_zeroed:
  assumes "even k" "k + 2 \<le> length h"
  shows "sum_list (words16 (zero_bytes k (k + 2) h)) + (256 * unat (h ! k) + unat (h ! (k + 1))) =
    sum_list (words16 h)"
proof -
  have "h = take k h @ drop k h" by simp
  also have "drop k h = h ! k # h ! (k + 1) # drop (k + 2) h"
    using assms(2) by (metis Cons_nth_drop_Suc Suc_1 Suc_eq_plus1 Suc_le_lessD Suc_le_eq add_2_eq_Suc' le_SucI nat_le_linear not_less_eq_eq)
  finally have h: "h = take k h @ h ! k # h ! (k + 1) # drop (k + 2) h" .
  have e: "even (length (take k h))" using assms by simp
  have "sum_list (words16 h) = sum_list (words16 (take k h)) +
      (256 * unat (h ! k) + unat (h ! (k + 1)) + sum_list (words16 (drop (k + 2) h)))"
    by (subst h, subst words16_append[OF e]) simp
  moreover have "sum_list (words16 (zero_bytes k (k + 2) h)) =
      sum_list (words16 (take k h)) + sum_list (words16 (drop (k + 2) h))"
    unfolding zero_bytes_def by (subst words16_append[OF e]) (simp add: numeral_2_eq_2)
  ultimately show ?thesis by simp
qed

lemma words16_head: "2 \<le> length h \<Longrightarrow> 256 * unat (h ! 0) \<le> sum_list (words16 h)"
  by (cases h rule: words16.cases) auto

text \<open>The header checksum check is RFC 1071: on a frame whose IPv4 header is complete it stays silent
  exactly when the 16-bit words of the header sum to a multiple of 65535 and the stated checksum is
  not the unused representation of zero.\<close>

theorem checksum_silent_iff:
  assumes "eth = ethernet_header_len d" "byte_at d eth = Some b" "drop_bit 4 b = 4"
    "20 \<le> (b AND 15) * 4" "eth + (b AND 15) * 4 \<le> length d"
    "h = pslice d eth (eth + (b AND 15) * 4)" "u16_at h 10 = Some stated"
  shows "silent s (check_ipv4_checksum c d cl ts) \<longleftrightarrow>
    stated \<noteq> 65535 \<and> sum_list (words16 h) mod 65535 = 0"
proof -
  let ?ihl = "(b AND 15) * 4"
  have lh: "length h = ?ihl" using assms(5,6) by simp
  have "eth + 20 \<le> length d" using assms(4,5) by linarith
  moreover obtain v where v: "u16_at d eth = Some v" "v = 256 * b + unat (d ! (eth + 1))"
    using calculation assms(2) u16_at_Some[of eth d] by auto
  moreover have "64 \<le> b" "b < 80" using assms(3) by (simp_all add: drop_bit_eq_div)
  ultimately have v12: "drop_bit 12 v = 4"
    using unat_byte_lt[of "d ! (eth + 1)"] unfolding drop_bit_eq_div
    by (intro div_nat_eqI) (simp_all del: unat_byte_lt)
  have st: "stated = 256 * unat (h ! 10) + unat (h ! 11)"
    using assms(7) u16_at_Some[of 10 h] lh assms(4) by simp
  have "unat (h ! 0) = b" using assms(2,4,5,6) by (simp add: byte_at_def split: if_splits)
  let ?z = "zero_bytes 10 12 h"
  have z: "sum_list (words16 ?z) + stated = sum_list (words16 h)"
    using sum_words16_zeroed[of 10 h] lh assms(4) st by simp
  have "?z ! 0 = h ! 0" "2 \<le> length ?z" using lh assms(4) by (simp_all add: zero_bytes_def nth_append)
  then have "sum_list (words16 ?z) \<noteq> 0"
    using words16_head[of ?z] \<open>unat (h ! 0) = b\<close> assms(3) by (auto simp: drop_bit_eq_div simp del: sum_list_eq_0_iff)
  moreover have "stated \<le> 65535" using u16_at_bound[OF assms(7)] by simp
  ultimately have "ones_complement ?z = stated \<longleftrightarrow> stated \<noteq> 65535 \<and> sum_list (words16 h) mod 65535 = 0"
    using checksum_residue z by metis
  then show ?thesis
    using assms \<open>eth + 20 \<le> length d\<close> v(1) v12
    by (simp add: check_ipv4_checksum_def Let_def silent_readc)
qed

theorem checksum_silent_iff_witness:
  "silent (new_accountant sample_acct) (check_ipv4_checksum sample_acct sample_frame (class_of sample_frame) 0)"
proof -
  have "ethernet_header_len sample_frame = 14"
    by (simp add: ethernet_header_len_def eth_tag_loop.simps pslice_def VLAN_TPIDS_def sample_frame_def)
  moreover have "pslice sample_frame 14 34 =
      [0x45,0,0,42, 0,1,0,0, 64,6,0x66,0xcb, 10,0,0,1, 10,0,0,2]"
    by (simp add: pslice_def sample_frame_def)
  ultimately show ?thesis
    using checksum_silent_iff[of 14 sample_frame 69 _ "0x66cb" "new_accountant sample_acct" sample_acct
        "class_of sample_frame" 0]
    by (simp add: sample_frame_reads u16_at_def)
qed

section \<open>The LLDP TLV list\<close>

lemma two_bytes_of:
  assumes "u16_at p off = Some h"
  shows "pslice p off (off + 2) = [word_of_nat (h div 256), word_of_nat (h mod 256)]"
proof -
  have r: "off + 1 < length p" using u16_at_SomeD[OF assms] by simp
  then have h: "h = 256 * unat (p ! off) + unat (p ! (off + 1))" using assms u16_at_Some[OF r] by simp
  then have "h div 256 = unat (p ! off)" "h mod 256 = unat (p ! (off + 1))" by simp_all
  moreover have "pslice p off (off + 2) = [p ! off, p ! (off + 1)]"
    using r by (intro nth_equalityI) (auto simp: less_Suc_eq numeral_2_eq_2)
  ultimately show ?thesis by simp
qed

lemma pslice_split: "a \<le> b \<Longrightarrow> b \<le> c \<Longrightarrow> pslice p a c = pslice p a b @ pslice p b c"
proof -
  assume le: "a \<le> b" "b \<le> c"
  have "take (c - a) (drop a p) = take ((b - a) + (c - b)) (drop a p)" using le by simp
  also have "\<dots> = take (b - a) (drop a p) @ take (c - b) (drop b p)"
    using le by (simp only: take_add drop_drop le_add_diff_inverse2)
  finally show ?thesis by (simp add: pslice_def)
qed

lemma lldp_walk_sound:
  assumes "lldp_walk p off = Some e"
  shows "\<exists>ts v. list_all tlv_ok ts \<and> length v \<le> 511 \<and>
    pslice p off e = concat (map encode_tlv ts) @ encode_tlv (0, v)"
  using assms
proof (induction p off rule: lldp_walk.induct)
  case (1 p off)
  have off: "off + 2 \<le> length p"
    using "1.prems" by (simp add: lldp_walk.simps[of p off] split: if_splits)
  obtain h where h: "u16_at p off = Some h" using u16_at_ex[OF off] by blast
  let ?len = "h AND 0x1FF" let ?kind = "drop_bit 9 h" let ?o = "off + 2 + ?len"
  have len: "?len = h mod 512" using take_bit_eq_mask[of 9 h] by (simp add: take_bit_eq_mod mask_eq_exp_minus_1)
  have kind: "?kind = h div 512" by (simp add: drop_bit_eq_div)
  have small: "?len \<le> 511" "?kind \<le> 127" using u16_at_bound[OF h] by (simp_all add: len kind)
  have o: "?o \<le> length p" using "1.prems" off h by (auto simp: lldp_walk.simps[of p off] Let_def split: if_splits)
  let ?v = "pslice p (off + 2) ?o"
  have v: "length ?v = ?len" using o by simp
  have hd: "pslice p off ?o = encode_tlv (?kind, ?v)"
  proof -
    have "512 * ?kind + ?len = h" unfolding len kind by simp
    then show ?thesis
      using pslice_split[of off "off + 2" ?o p] two_bytes_of[OF h] v by (simp add: encode_tlv_def Let_def)
  qed
  show ?case
  proof (cases "?kind = 0")
    case True
    then have "e = ?o" using "1.prems" off h o by (simp add: lldp_walk.simps[of p off] Let_def)
    with hd True v small(1) show ?thesis by (intro exI[of _ "[]"] exI[of _ ?v]) simp
  next
    case False
    then have w: "lldp_walk p ?o = Some e" using "1.prems" off h o by (simp add: lldp_walk.simps[of p off] Let_def)
    obtain ts u where t: "list_all tlv_ok ts" "length u \<le> 511"
      "pslice p ?o e = concat (map encode_tlv ts) @ encode_tlv (0, u)"
      using "1.IH"[OF off h refl refl refl _ False w] o by auto
    have "?o \<le> e" using lldp_walk_bound[OF w] by simp
    then have "pslice p off e = pslice p off ?o @ pslice p ?o e" by (intro pslice_split) simp_all
    then show ?thesis
      using t hd v small False
      by (intro exI[of _ "(?kind, ?v) # ts"] exI[of _ u]) (simp add: tlv_ok_def[of "(_, _)"])
  qed
qed

text \<open>The TLV walk is exact: it accepts a payload, ending at \<open>e\<close>, if and only if the first \<open>e\<close> bytes
  are an LLDP TLV list, kinds 1 to 127 with at most 511 bytes each, closed by the end TLV.\<close>

theorem lldp_exact:
  "lldp_tlv_end p = Some e \<longleftrightarrow> e \<le> length p \<and>
     (\<exists>ts v. list_all tlv_ok ts \<and> length v \<le> 511 \<and> take e p = concat (map encode_tlv ts) @ encode_tlv (0, v))"
proof
  assume w: "lldp_tlv_end p = Some e"
  then show "e \<le> length p \<and> (\<exists>ts v. list_all tlv_ok ts \<and> length v \<le> 511 \<and>
      take e p = concat (map encode_tlv ts) @ encode_tlv (0, v))"
    using lldp_walk_sound[of p 0 e] lldp_walk_bound[of p 0 e] by (simp add: lldp_tlv_end_def pslice_def)
next
  assume r: "e \<le> length p \<and> (\<exists>ts v. list_all tlv_ok ts \<and> length v \<le> 511 \<and>
      take e p = concat (map encode_tlv ts) @ encode_tlv (0, v))"
  then obtain ts v where t: "list_all tlv_ok ts" "length v \<le> 511"
    "take e p = concat (map encode_tlv ts) @ encode_tlv (0, v)" by blast
  have "p = concat (map encode_tlv ts) @ encode_tlv (0, v) @ drop e p"
    using append_take_drop_id[of e p] t(3) by simp
  moreover have "e = length (concat (map encode_tlv ts)) + 2 + length v"
    using arg_cong[OF t(3), of length] r by simp
  ultimately show "lldp_tlv_end p = Some e"
    using lldp_walk_encode[OF t(1,2), of "[]" "drop e p"] by (simp add: lldp_tlv_end_def)
qed

end
