(* ===== verification/Loop.thy ===== *)
theory Loop
  imports Main
begin

text \<open>
  Loops that end only if something outside the program lets them: \<open>turns f s\<close> repeats one turn of a
  loop, which says whether to go on and what state it left. \<open>None\<close> is a loop that never ends. The
  rules below are how the clients show that theirs does.
\<close>

partial_function (option) turns :: "('s \<Rightarrow> bool \<times> 's) \<Rightarrow> 's \<Rightarrow> 's option" where
  "turns f s = (let r = f s in if fst r then turns f (snd r) else Some (snd r))"

lemma turns_stop: "f s = (False, t) \<Longrightarrow> turns f s = Some t"
  by (subst turns.simps) (simp add: Let_def)

lemma turns_go: "f s = (True, t) \<Longrightarrow> turns f s = turns f t"
  by (subst turns.simps) (simp add: Let_def)

lemma turns_total:
  assumes inv: "I s"
    and go: "\<And>s t. I s \<Longrightarrow> f s = (True, t) \<Longrightarrow> I t \<and> r t < (r s :: nat)"
    and stop: "\<And>s t. I s \<Longrightarrow> f s = (False, t) \<Longrightarrow> Q t"
  shows "\<exists>t. turns f s = Some t \<and> Q t"
  using inv
proof (induction "r s" arbitrary: s rule: less_induct)
  case less
  obtain b t where f: "f s = (b, t)" by (cases "f s")
  show ?case
  proof (cases b)
    case True
    with f go[OF less.prems] have "I t" "r t < r s" by auto
    then have "\<exists>u. turns f t = Some u \<and> Q u" by (intro less.hyps)
    then show ?thesis using turns_go[of f s t] f True by simp
  next
    case False
    with f have ft: "f s = (False, t)" by simp
    from stop[OF less.prems ft] turns_stop[of f s t, OF ft] show ?thesis by simp
  qed
qed

text \<open>
  Two loops in step: what relates their states at the start relates them at the end, and the second
  ends when the first does.
\<close>

lemma turns_sim:
  assumes rel: "R s s'" and inv: "I s"
    and go: "\<And>s t. I s \<Longrightarrow> f s = (True, t) \<Longrightarrow> I t \<and> r t < (r s :: nat)"
    and step: "\<And>s s'. R s s' \<Longrightarrow> fst (f s) = fst (f' s') \<and> R (snd (f s)) (snd (f' s'))"
  shows "\<exists>t t'. turns f s = Some t \<and> turns f' s' = Some t' \<and> R t t'"
  using rel inv
proof (induction "r s" arbitrary: s s' rule: less_induct)
  case less
  obtain b t where f: "f s = (b, t)" by (cases "f s")
  obtain b' t' where f': "f' s' = (b', t')" by (cases "f' s'")
  from step[OF less.prems(1)] f f' have b: "b' = b" and R: "R t t'" by auto
  show ?case
  proof (cases b)
    case True
    with f go[OF less.prems(2)] have "I t" "r t < r s" by auto
    from less.hyps[OF this(2) R this(1)] show ?thesis
      using turns_go[of f s t] turns_go[of f' s' t'] f f' b True by simp
  next
    case False
    with f f' b R turns_stop[of f s t] turns_stop[of f' s' t'] show ?thesis by simp
  qed
qed

end
