(* ===== verification/Http.thy ===== *)
theory Http
  imports Prelude Loop
begin

text \<open>
  \<^verbatim>\<open>frame-processor/app/http_stream.py\<close>: \<open>ExchangeAssembler\<close>, which turns the two byte streams of a
  connection into paired requests and responses.

  The framing itself is done by the library h11, which is not in the repository: a connection of it
  is a value of type \<open>'c\<close> and its methods are the fields of the record \<open>h11\<close>, an argument of every
  operation. \<open>next_event\<close> returns \<open>None\<close> for \<open>RemoteProtocolError\<close>; the methods that may raise
  \<open>ProtocolError\<close> return \<open>None\<close> for it.
\<close>

section \<open>Messages and exchanges\<close>

record http_message =
  hm_headers :: "(string \<times> string) list"
  hm_body :: bytes
  hm_method :: "string option"
  hm_path :: "string option"
  hm_status :: "int option"
  hm_truncated :: bool

record exchange =
  ex_request :: http_message
  ex_response :: "http_message option"
  ex_received_at :: "real option"
  ex_completed_at :: "real option"

type_synonym raw_headers = "(bytes \<times> bytes) list"

definition latin1 :: "bytes \<Rightarrow> string" where
  "latin1 d = map (\<lambda>b. char_of (unat b)) d"

text \<open>\<open>str.lower\<close> on the characters of Latin-1: also the accented capitals have their small letters in it.\<close>

definition lower_latin1_char :: "char \<Rightarrow> char" where
  "lower_latin1_char c = (let n = of_char c :: nat in
     if 65 \<le> n \<and> n \<le> 90 \<or> 192 \<le> n \<and> n \<le> 222 \<and> n \<noteq> 215 then char_of (n + 32) else c)"

definition headers_to_dict :: "raw_headers \<Rightarrow> (string \<times> string) list" where
  "headers_to_dict hs =
     fold (\<lambda>(n, v). dset (map lower_latin1_char (latin1 n)) (latin1 v)) hs []"

text \<open>Whether \<open>sub in s\<close>, for strings.\<close>

fun contains :: "string \<Rightarrow> string \<Rightarrow> bool" where
  "contains sub [] = (sub = [])"
| "contains sub (c # s) = (take (length sub) (c # s) = sub \<or> contains sub s)"

definition is_sse :: "http_message \<Rightarrow> bool" where
  "is_sse m = contains ''text/event-stream''
     (case map_of (hm_headers m) ''content-type'' of None \<Rightarrow> [] | Some v \<Rightarrow> v)"

section \<open>The framing library\<close>

datatype h11_event =
    Need_data
  | Paused
  | Connection_closed
  | Ev_request raw_headers bytes bytes  \<comment> \<open>headers, method, target\<close>
  | Ev_informational
  | Ev_response raw_headers int
  | Ev_data bytes
  | Ev_end_of_message

record 'c h11 =
  h_receive_data :: "bytes \<Rightarrow> 'c \<Rightarrow> 'c"
  h_next_event :: "'c \<Rightarrow> h11_event option \<times> 'c"
  h_send_no_content :: "'c \<Rightarrow> 'c option"
  h_send_request :: "string \<Rightarrow> 'c \<Rightarrow> 'c option"
  h_send_end :: "'c \<Rightarrow> 'c option"
  h_start_next_cycle :: "'c \<Rightarrow> 'c option"

section \<open>The assembler\<close>

definition MAX_UNPRIMED_RESPONSE_BYTES :: nat where
  "MAX_UNPRIMED_RESPONSE_BYTES = 2 * 1024 * 1024"

record 'c assembler =
  req_conn :: 'c
  resp_conn :: 'c
  req_open :: "http_message option"
  req_body :: bytes
  req_started_at :: "real option"
  resp_open :: "http_message option"
  resp_body :: bytes
  waiting :: "(http_message \<times> real option) list"
  methods :: "string list"
  primed :: bool
  server_pending :: bool
  server_pending_ts :: "real option"
  unprimed_bytes :: nat
  req_dead :: bool
  resp_dead :: bool
  unparseable :: bool
  unparseable_reported :: bool

definition new_assembler :: "'c \<Rightarrow> 'c \<Rightarrow> 'c assembler" where
  "new_assembler server client =
     \<lparr>req_conn = server, resp_conn = client, req_open = None, req_body = [], req_started_at = None,
      resp_open = None, resp_body = [], waiting = [], methods = [], primed = False,
      server_pending = False, server_pending_ts = None, unprimed_bytes = 0,
      req_dead = False, resp_dead = False, unparseable = False, unparseable_reported = False\<rparr>"

subsection \<open>The request direction\<close>

definition next_request_cycle :: "'c h11 \<Rightarrow> 'c assembler \<Rightarrow> 'c assembler" where
  "next_request_cycle h a =
     (case do { c1 \<leftarrow> h_send_no_content h (req_conn a); c2 \<leftarrow> h_send_end h c1; h_start_next_cycle h c2 } of
        None \<Rightarrow> a\<lparr>req_dead := True\<rparr>
      | Some c \<Rightarrow> a\<lparr>req_conn := c\<rparr>)"

definition die_requests :: "'c assembler \<Rightarrow> 'c assembler" where
  "die_requests a =
     (case req_open a of
        Some m \<Rightarrow> a\<lparr>req_dead := True,
                    waiting := waiting a @ [(m\<lparr>hm_body := req_body a, hm_truncated := True\<rparr>,
                                             req_started_at a)],
                    req_open := None\<rparr>
      | None \<Rightarrow> a\<lparr>req_dead := True, unparseable := True\<rparr>)"

definition request_event :: "'c h11 \<Rightarrow> real option \<Rightarrow> h11_event \<Rightarrow> 'c assembler \<Rightarrow> 'c assembler" where
  "request_event h ts ev a =
     (case ev of
        Ev_request hs meth target \<Rightarrow>
          a\<lparr>req_open := Some \<lparr>hm_headers = headers_to_dict hs, hm_body = [],
                               hm_method = Some (latin1 meth), hm_path = Some (latin1 target),
                               hm_status = None, hm_truncated = False\<rparr>,
            req_body := [], req_started_at := ts, methods := methods a @ [latin1 meth]\<rparr>
      | Ev_data d \<Rightarrow> a\<lparr>req_body := req_body a @ d\<rparr>
      | Ev_end_of_message \<Rightarrow>
          next_request_cycle h
            (case req_open a of
               None \<Rightarrow> a
             | Some m \<Rightarrow> a\<lparr>waiting := waiting a @ [(m\<lparr>hm_body := req_body a\<rparr>, req_started_at a)],
                           req_open := None\<rparr>)
      | _ \<Rightarrow> a)"

text \<open>One turn of the loop of \<open>_pump_requests\<close>: whether it goes on, and the state it leaves.\<close>

definition request_turn :: "'c h11 \<Rightarrow> real option \<Rightarrow> 'c assembler \<Rightarrow> bool \<times> 'c assembler" where
  "request_turn h ts a =
     (if req_dead a then (False, a)
      else case h_next_event h (req_conn a) of
          (None, c) \<Rightarrow> (False, die_requests (a\<lparr>req_conn := c\<rparr>))
        | (Some ev, c) \<Rightarrow>
            if ev \<in> {Need_data, Paused, Connection_closed} then (False, a\<lparr>req_conn := c\<rparr>)
            else (True, request_event h ts ev (a\<lparr>req_conn := c\<rparr>)))"

definition pump_requests :: "'c h11 \<Rightarrow> real option \<Rightarrow> 'c assembler \<Rightarrow> 'c assembler option" where
  "pump_requests h ts a = turns (request_turn h ts) a"

subsection \<open>The response direction\<close>

definition pair :: "http_message \<Rightarrow> real option \<Rightarrow> 'c assembler \<Rightarrow> exchange list \<times> 'c assembler" where
  "pair response ts a =
     (case waiting a of
        [] \<Rightarrow> ([], a)
      | (request, started) # rest \<Rightarrow>
          ([\<lparr>ex_request = request, ex_response = Some response, ex_received_at = started,
             ex_completed_at = ts\<rparr>], a\<lparr>waiting := rest\<rparr>))"

definition no_method_is_coming :: "'c assembler \<Rightarrow> bool" where
  "no_method_is_coming a \<longleftrightarrow> req_dead a \<or> unprimed_bytes a > MAX_UNPRIMED_RESPONSE_BYTES"

text \<open>\<open>prime_method\<close> is the method \<open>_prime\<close> decides on, with the methods still queued.\<close>

definition prime_method :: "'c assembler \<Rightarrow> (string \<times> string list) option" where
  "prime_method a =
     (if methods a \<noteq> [] \<and> waiting a \<noteq> [] then Some (hd (methods a), tl (methods a))
      else if no_method_is_coming a then Some (''POST'', methods a)
      else None)"

definition prime :: "'c h11 \<Rightarrow> 'c assembler \<Rightarrow> bool \<times> 'c assembler" where
  "prime h a =
     (case prime_method a of
        None \<Rightarrow> (False, a)
      | Some (meth, rest) \<Rightarrow>
          (case do { c \<leftarrow> h_send_request h meth (resp_conn a); h_send_end h c } of
             None \<Rightarrow> (False, a\<lparr>methods := rest, resp_dead := True\<rparr>)
           | Some c \<Rightarrow> (True, a\<lparr>methods := rest, resp_conn := c, primed := True, unprimed_bytes := 0\<rparr>)))"

definition next_response_cycle :: "'c h11 \<Rightarrow> 'c assembler \<Rightarrow> bool \<times> 'c assembler" where
  "next_response_cycle h a =
     (case h_start_next_cycle h (resp_conn a) of
        None \<Rightarrow> (False, a\<lparr>primed := False, resp_dead := True\<rparr>)
      | Some c \<Rightarrow> (True, a\<lparr>primed := False, resp_conn := c\<rparr>))"

text \<open>Closing the response that is open, if one is, as truncated, and pairing it.\<close>

definition close_open_response :: "real option \<Rightarrow> 'c assembler \<Rightarrow> exchange list \<times> 'c assembler" where
  "close_open_response ts a =
     (case resp_open a of
        None \<Rightarrow> ([], a)
      | Some m \<Rightarrow> pair (m\<lparr>hm_body := resp_body a, hm_truncated := True\<rparr>) ts (a\<lparr>resp_open := None\<rparr>))"

definition die_responses :: "real option \<Rightarrow> 'c assembler \<Rightarrow> exchange list \<times> 'c assembler" where
  "die_responses ts a =
     (if resp_open a \<noteq> None then close_open_response ts (a\<lparr>resp_dead := True\<rparr>)
      else ([], a\<lparr>resp_dead := True, unparseable := True\<rparr>))"

definition response_end :: "'c h11 \<Rightarrow> real option \<Rightarrow> 'c assembler \<Rightarrow> bool \<times> exchange list \<times> 'c assembler" where
  "response_end h ts a =
     (let (new, a1) = (case resp_open a of
                         None \<Rightarrow> ([], a)
                       | Some m \<Rightarrow> (let (x, b) = pair (m\<lparr>hm_body := resp_body a\<rparr>) ts a
                                    in (x, b\<lparr>resp_open := None\<rparr>)));
          (go, a2) = next_response_cycle h a1
      in (go, new, a2))"

text \<open>What \<open>_pump_responses\<close> does with one event: whether it goes on, the exchanges completed, the state.\<close>

definition response_event ::
  "'c h11 \<Rightarrow> real option \<Rightarrow> h11_event \<Rightarrow> 'c assembler \<Rightarrow> bool \<times> exchange list \<times> 'c assembler" where
  "response_event h ts ev a =
     (case ev of
        Need_data \<Rightarrow> (False, [], a\<lparr>server_pending := False, server_pending_ts := None\<rparr>)
      | Paused \<Rightarrow> (False, [], a\<lparr>server_pending := False, server_pending_ts := None\<rparr>)
      | Connection_closed \<Rightarrow> (False, [], a)
      | Ev_response hs status \<Rightarrow>
          (True, [], a\<lparr>resp_open := Some \<lparr>hm_headers = headers_to_dict hs, hm_body = [],
                          hm_method = None, hm_path = None, hm_status = Some status,
                          hm_truncated = False\<rparr>, resp_body := []\<rparr>)
      | Ev_data d \<Rightarrow> (True, [], a\<lparr>resp_body := resp_body a @ d\<rparr>)
      | Ev_end_of_message \<Rightarrow> response_end h ts a
      | _ \<Rightarrow> (True, [], a))"

definition next_response ::
  "'c h11 \<Rightarrow> real option \<Rightarrow> 'c assembler \<Rightarrow> bool \<times> exchange list \<times> 'c assembler" where
  "next_response h ts a =
     (case h_next_event h (resp_conn a) of
        (None, c) \<Rightarrow> (False, die_responses ts (a\<lparr>resp_conn := c\<rparr>))
      | (Some ev, c) \<Rightarrow> response_event h ts ev (a\<lparr>resp_conn := c\<rparr>))"

text \<open>
  One turn of the loop of \<open>_pump_responses\<close>: whether it goes on, the exchanges it completed, and the
  state it leaves.
\<close>

definition response_turn ::
  "'c h11 \<Rightarrow> real option \<Rightarrow> 'c assembler \<Rightarrow> bool \<times> exchange list \<times> 'c assembler" where
  "response_turn h ts a =
     (if resp_dead a then (False, [], a)
      else if primed a then next_response h ts a
      else case prime h a of
          (True, a1) \<Rightarrow> next_response h ts a1
        | (False, a1) \<Rightarrow> (False, [], a1))"

text \<open>The loop carries the exchanges completed so far, as \<open>done\<close> does.\<close>

definition response_loop_turn ::
  "'c h11 \<Rightarrow> real option \<Rightarrow> exchange list \<times> 'c assembler \<Rightarrow> bool \<times> exchange list \<times> 'c assembler" where
  "response_loop_turn h ts s =
     (let (go, new, a) = response_turn h ts (snd s) in (go, fst s @ new, a))"

definition pump_responses ::
  "'c h11 \<Rightarrow> real option \<Rightarrow> 'c assembler \<Rightarrow> (exchange list \<times> 'c assembler) option" where
  "pump_responses h ts a = turns (response_loop_turn h ts) ([], a)"

subsection \<open>Feeding and finishing\<close>

definition feed_client ::
  "'c h11 \<Rightarrow> bytes \<Rightarrow> real option \<Rightarrow> 'c assembler \<Rightarrow> (exchange list \<times> 'c assembler) option" where
  "feed_client h d ts a =
     do { a1 \<leftarrow> (if d \<noteq> [] \<and> \<not> req_dead a
                 then pump_requests h ts (a\<lparr>req_conn := h_receive_data h d (req_conn a)\<rparr>)
                 else Some a);
          pump_responses h (if server_pending a1 then server_pending_ts a1 else ts) a1 }"

definition accept_server_bytes :: "'c h11 \<Rightarrow> bytes \<Rightarrow> real option \<Rightarrow> 'c assembler \<Rightarrow> 'c assembler" where
  "accept_server_bytes h d ts a =
     (if d \<noteq> [] \<and> \<not> resp_dead a
      then a\<lparr>resp_conn := h_receive_data h d (resp_conn a), server_pending := True,
             server_pending_ts := ts,
             unprimed_bytes := (if primed a then unprimed_bytes a else unprimed_bytes a + length d)\<rparr>
      else a)"

definition feed_server ::
  "'c h11 \<Rightarrow> bytes \<Rightarrow> real option \<Rightarrow> 'c assembler \<Rightarrow> (exchange list \<times> 'c assembler) option" where
  "feed_server h d ts a = pump_responses h ts (accept_server_bytes h d ts a)"

text \<open>What \<open>finish\<close> salvages once the response direction has been pumped to its end.\<close>

definition unanswered :: "real option \<Rightarrow> http_message \<times> real option \<Rightarrow> exchange" where
  "unanswered ts w = \<lparr>ex_request = fst w, ex_response = None, ex_received_at = snd w, ex_completed_at = ts\<rparr>"

definition salvage :: "real option \<Rightarrow> 'c assembler \<Rightarrow> exchange list \<times> 'c assembler" where
  "salvage ts a =
     (let (cut, a1) = close_open_response ts a;
          queued = map (unanswered ts) (waiting a1);
          half = (case req_open a1 of
                    None \<Rightarrow> []
                  | Some m \<Rightarrow> [unanswered ts (m\<lparr>hm_body := req_body a1, hm_truncated := True\<rparr>,
                                              req_started_at a1)])
      in (cut @ queued @ half, a1\<lparr>waiting := [], req_open := None\<rparr>))"

definition finish_assembler ::
  "'c h11 \<Rightarrow> real option \<Rightarrow> 'c assembler \<Rightarrow> (exchange list \<times> 'c assembler) option" where
  "finish_assembler h ts a =
     do { (done1, a1) \<leftarrow>
            (if resp_dead a then Some ([], a)
             else pump_responses h ts
                    (a\<lparr>resp_conn := h_receive_data h [] (resp_conn a), server_pending := True\<rparr>));
          let (done2, a2) = salvage ts a1;
          Some (done1 @ done2, a2) }"

text \<open>\<open>parse_exchanges\<close>, the batch form the incremental one is checked against.\<close>

definition parse_exchanges :: "'c h11 \<Rightarrow> 'c \<Rightarrow> 'c \<Rightarrow> bytes \<Rightarrow> bytes \<Rightarrow> exchange list option" where
  "parse_exchanges h server client client_bytes server_bytes =
     do { (x, a) \<leftarrow> feed_client h client_bytes None (new_assembler server client);
          (y, b) \<leftarrow> feed_server h server_bytes None a;
          (z, c) \<leftarrow> finish_assembler h None b;
          Some (x @ y @ z) }"

end
