(* ===== verification/Http_Proofs.thy ===== *)
theory Http_Proofs
  imports Http "HOL-Library.Sublist"
begin

text \<open>
  What the assembler of \<^verbatim>\<open>frame-processor/app/http_stream.py\<close> promises, whatever the framing library
  makes of the bytes: every operation returns, every request parsed becomes exactly one exchange, in
  order, independently of what the server side does; and as long as the unprimed bytes stay below
  their bound, each response is framed with the method of the request it answers.

  Of the library only this is used: an event other than "need data", "paused" and "closed" consumes
  something (\<open>consuming\<close>), and a message ends only after it began (\<open>framed\<close>).
\<close>

definition consuming :: "'c h11 \<Rightarrow> ('c \<Rightarrow> nat) \<Rightarrow> bool" where
  "consuming h rank \<longleftrightarrow>
     (\<forall>c ev c'. h_next_event h c = (Some ev, c') \<longrightarrow> ev \<notin> {Need_data, Paused, Connection_closed}
        \<longrightarrow> rank c' < rank c) \<and>
     (\<forall>c c'. h_send_no_content h c = Some c' \<longrightarrow> rank c' \<le> rank c) \<and>
     (\<forall>m c c'. h_send_request h m c = Some c' \<longrightarrow> rank c' \<le> rank c) \<and>
     (\<forall>c c'. h_send_end h c = Some c' \<longrightarrow> rank c' \<le> rank c) \<and>
     (\<forall>c c'. h_start_next_cycle h c = Some c' \<longrightarrow> rank c' \<le> rank c)"

lemma consumingD:
  assumes "consuming h rank"
  shows "h_next_event h c = (Some ev, c') \<Longrightarrow> ev \<notin> {Need_data, Paused, Connection_closed}
           \<Longrightarrow> rank c' < rank c"
    and "h_send_no_content h c = Some c' \<Longrightarrow> rank c' \<le> rank c"
    and "h_send_request h m c = Some c' \<Longrightarrow> rank c' \<le> rank c"
    and "h_send_end h c = Some c' \<Longrightarrow> rank c' \<le> rank c"
    and "h_start_next_cycle h c = Some c' \<Longrightarrow> rank c' \<le> rank c"
  using assms unfolding consuming_def by blast+

section \<open>The loops end\<close>

lemma consuming_answer:
  assumes "consuming h rank" "h_send_no_content h c = Some c1" "h_send_end h c1 = Some c2"
    "h_start_next_cycle h c2 = Some c'"
  shows "rank c' \<le> rank c"
  using consumingD(2)[OF assms(1,2)] consumingD(4)[OF assms(1,3)] consumingD(5)[OF assms(1,4)] by simp

lemma consuming_primer:
  assumes "consuming h rank" "h_send_request h m c = Some c1" "h_send_end h c1 = Some c'"
  shows "rank c' \<le> rank c"
  using consumingD(3)[OF assms(1,2)] consumingD(4)[OF assms(1,3)] by simp

lemma next_request_cycle_rank:
  "consuming h rank \<Longrightarrow> req_conn a = c \<Longrightarrow> rank (req_conn (next_request_cycle h a)) \<le> rank c"
  by (auto simp: next_request_cycle_def bind_eq_Some_conv split: option.splits intro: consuming_answer)

lemma request_event_rank:
  assumes "consuming h rank"
  shows "rank (req_conn (request_event h ts ev a)) \<le> rank (req_conn a)"
  by (auto simp: request_event_def split: h11_event.split option.split
      intro: next_request_cycle_rank[OF assms])

lemma request_turn_rank:
  assumes "consuming h rank" "request_turn h ts a = (True, b)"
  shows "rank (req_conn b) < rank (req_conn a)"
proof -
  obtain ev c where e: "h_next_event h (req_conn a) = (Some ev, c)"
      "ev \<notin> {Need_data, Paused, Connection_closed}" "b = request_event h ts ev (a\<lparr>req_conn := c\<rparr>)"
    using assms(2) by (auto simp: request_turn_def split: if_splits prod.splits option.splits)
  have "rank (req_conn b) \<le> rank c"
    using request_event_rank[OF assms(1), of ts ev "a\<lparr>req_conn := c\<rparr>"] e(3) by simp
  with consumingD(1)[OF assms(1) e(1,2)] show ?thesis by simp
qed

lemma prime_rank:
  "consuming h rank \<Longrightarrow> prime h a = (b, a') \<Longrightarrow> rank (resp_conn a') \<le> rank (resp_conn a)"
  by (auto simp: prime_def bind_eq_Some_conv split: option.splits prod.splits intro: consuming_primer)

lemma pair_resp_conn [simp]: "resp_conn (snd (pair r ts a)) = resp_conn a"
  by (simp add: pair_def split: list.split)

lemma response_end_rank:
  "consuming h rank \<Longrightarrow> rank (resp_conn (snd (snd (response_end h ts a)))) \<le> rank (resp_conn a)"
  by (auto simp: response_end_def next_response_cycle_def pair_def
      split: option.split prod.split list.split intro: consumingD(5))

lemma next_response_rank:
  assumes "consuming h rank" "next_response h ts a = (True, x, b)"
  shows "rank (resp_conn b) < rank (resp_conn a)"
proof -
  obtain ev c where e: "h_next_event h (resp_conn a) = (Some ev, c)"
      "response_event h ts ev (a\<lparr>resp_conn := c\<rparr>) = (True, x, b)"
    using assms(2) by (auto simp: next_response_def split: prod.splits option.splits)
  have live: "ev \<notin> {Need_data, Paused, Connection_closed}"
    using e(2) by (auto simp: response_event_def)
  have "rank (resp_conn b) \<le> rank c"
    using e(2) response_end_rank[OF assms(1), of ts "a\<lparr>resp_conn := c\<rparr>"]
    by (auto simp: response_event_def split: h11_event.splits)
  with consumingD(1)[OF assms(1) e(1) live] show ?thesis by simp
qed

lemma response_turn_rank:
  assumes "consuming h rank" "response_turn h ts a = (True, x, b)"
  shows "rank (resp_conn b) < rank (resp_conn a)"
  using assms(2) next_response_rank[OF assms(1)] prime_rank[OF assms(1)]
  by (auto simp: response_turn_def split: if_splits prod.splits bool.splits)
    (meson order_less_le_trans)

lemma pump_requests_total:
  assumes "consuming h rank" "I a"
    and step: "\<And>a b go. I a \<Longrightarrow> request_turn h ts a = (go, b) \<Longrightarrow> I b"
  shows "\<exists>b. pump_requests h ts a = Some b \<and> I b"
  unfolding pump_requests_def
  by (rule turns_total[where I = I and r = "\<lambda>a. rank (req_conn a)"])
    (use assms request_turn_rank[OF assms(1)] in blast)+

lemma pump_responses_total:
  assumes "consuming h rank" "I [] a"
    and step: "\<And>out a go new b. I out a \<Longrightarrow> response_turn h ts a = (go, new, b) \<Longrightarrow> I (out @ new) b"
    and stop: "\<And>out a new b. I out a \<Longrightarrow> response_turn h ts a = (False, new, b) \<Longrightarrow> Q (out @ new) b"
  shows "\<exists>out b. pump_responses h ts a = Some (out, b) \<and> Q out b"
proof -
  have "\<exists>s. turns (response_loop_turn h ts) ([], a) = Some s \<and> Q (fst s) (snd s)"
  proof (rule turns_total[where I = "\<lambda>s. I (fst s) (snd s)" and r = "\<lambda>s. rank (resp_conn (snd s))"])
    show "I (fst ([], a)) (snd ([], a))" using assms(2) by simp
  next
    fix s t assume "I (fst s) (snd s)" "response_loop_turn h ts s = (True, t)"
    then show "I (fst t) (snd t) \<and> rank (resp_conn (snd t)) < rank (resp_conn (snd s))"
      using step response_turn_rank[OF assms(1)]
      by (auto simp: response_loop_turn_def split: prod.splits)
  next
    fix s t assume "I (fst s) (snd s)" "response_loop_turn h ts s = (False, t)"
    then show "Q (fst t) (snd t)"
      using stop by (auto simp: response_loop_turn_def split: prod.splits)
  qed
  then show ?thesis by (auto simp: pump_responses_def)
qed

section \<open>Every request becomes one exchange\<close>

text \<open>What the pipeline does to an assembler: bytes of either direction in, then the end of the capture.\<close>

datatype feed =
    From_client bytes "real option"
  | From_server bytes "real option"

fun feed_one :: "'c h11 \<Rightarrow> feed \<Rightarrow> 'c assembler \<Rightarrow> (exchange list \<times> 'c assembler) option" where
  "feed_one h (From_client d ts) a = feed_client h d ts a"
| "feed_one h (From_server d ts) a = feed_server h d ts a"

primrec run_feeds :: "'c h11 \<Rightarrow> feed list \<Rightarrow> 'c assembler \<Rightarrow> (exchange list \<times> 'c assembler) option" where
  "run_feeds h [] a = Some ([], a)"
| "run_feeds h (f # fs) a =
     do { (x, b) \<leftarrow> feed_one h f a; (y, c) \<leftarrow> run_feeds h fs b; Some (x @ y, c) }"

definition http_session ::
  "'c h11 \<Rightarrow> 'c \<Rightarrow> 'c \<Rightarrow> feed list \<Rightarrow> real option \<Rightarrow> exchange list option" where
  "http_session h server client fs ts =
     do { (x, a) \<leftarrow> run_feeds h fs (new_assembler server client);
          (y, _) \<leftarrow> finish_assembler h ts a;
          Some (x @ y) }"

text \<open>
  The requests a client's bytes hold, as its own half of the parser finds them: no server byte is
  read, and nothing is ever taken off the queue.
\<close>

primrec client_half :: "'c h11 \<Rightarrow> feed list \<Rightarrow> 'c assembler \<Rightarrow> 'c assembler option" where
  "client_half h [] a = Some a"
| "client_half h (f # fs) a =
     (case f of
        From_client d ts \<Rightarrow>
          if d \<noteq> [] \<and> \<not> req_dead a
          then Option.bind (pump_requests h ts (a\<lparr>req_conn := h_receive_data h d (req_conn a)\<rparr>))
                 (client_half h fs)
          else client_half h fs a
      | From_server d ts \<Rightarrow> client_half h fs a)"

definition outstanding :: "'c assembler \<Rightarrow> (http_message \<times> real option) list" where
  "outstanding a = waiting a @
     (case req_open a of
        None \<Rightarrow> []
      | Some m \<Rightarrow> [(m\<lparr>hm_body := req_body a, hm_truncated := True\<rparr>, req_started_at a)])"

definition requests_of :: "'c h11 \<Rightarrow> 'c \<Rightarrow> 'c \<Rightarrow> feed list \<Rightarrow> (http_message \<times> real option) list option" where
  "requests_of h server client fs = map_option outstanding (client_half h fs (new_assembler server client))"

definition asked :: "exchange \<Rightarrow> http_message \<times> real option" where
  "asked x = (ex_request x, ex_received_at x)"

text \<open>
  \<open>answers a new b\<close>: from \<open>a\<close> to \<open>b\<close> the exchanges \<open>new\<close> took their requests off the front of the
  queue, and the request direction is as it was.
\<close>

definition answers :: "'c assembler \<Rightarrow> exchange list \<Rightarrow> 'c assembler \<Rightarrow> bool" where
  "answers a new b \<longleftrightarrow>
     waiting a = map asked new @ waiting b \<and> req_conn b = req_conn a \<and> req_open b = req_open a \<and>
     req_body b = req_body a \<and> req_started_at b = req_started_at a \<and> req_dead b = req_dead a"

lemma answers_refl: "answers a [] a"
  by (simp add: answers_def)

lemma answers_trans: "answers a x b \<Longrightarrow> answers b y c \<Longrightarrow> answers a (x @ y) c"
  by (simp add: answers_def)

lemma answers_pair: "pair r ts a = (x, b) \<Longrightarrow> answers a x b"
  by (auto simp: pair_def answers_def asked_def split: list.splits)

lemma answers_prime: "prime h a = (go, b) \<Longrightarrow> answers a [] b"
  by (auto simp: prime_def answers_def split: option.splits prod.splits)

lemma answers_close: "close_open_response ts a = (x, b) \<Longrightarrow> answers a x b"
  by (auto simp: close_open_response_def answers_def pair_def asked_def split: option.splits list.splits)

lemma answers_die: "die_responses ts a = (x, b) \<Longrightarrow> answers a x b"
  using answers_close[of ts "a\<lparr>resp_dead := True\<rparr>" x b]
  by (auto simp: die_responses_def answers_def split: if_splits)

lemma answers_response_end: "response_end h ts a = (go, x, b) \<Longrightarrow> answers a x b"
  by (auto simp: response_end_def next_response_cycle_def answers_def pair_def asked_def
      split: option.splits prod.splits list.splits)

lemma answers_response_event: "response_event h ts ev a = (go, x, b) \<Longrightarrow> answers a x b"
  by (cases ev) (auto simp: response_event_def answers_response_end, auto simp: answers_def)

lemma answers_next_response: "next_response h ts a = (go, x, b) \<Longrightarrow> answers a x b"
  unfolding next_response_def
  by (auto split: prod.splits option.splits dest!: answers_die answers_response_event)
    (simp_all add: answers_def)

lemma answers_response_turn: "response_turn h ts a = (go, x, b) \<Longrightarrow> answers a x b"
  unfolding response_turn_def
  by (auto split: prod.splits if_splits bool.splits simp: answers_refl
      dest!: answers_next_response answers_prime dest: answers_trans[of a "[]"])

lemma answers_pump_responses:
  assumes "consuming h rank"
  shows "\<exists>x b. pump_responses h ts a = Some (x, b) \<and> answers a x b"
  by (rule pump_responses_total[OF assms, where I = "answers a"])
    (auto simp: answers_refl intro: answers_trans dest: answers_response_turn)

text \<open>\<open>follows pre a g\<close>: the assembler \<open>a\<close> has answered \<open>pre\<close> of what the client's half \<open>g\<close> has queued.\<close>

definition follows :: "(http_message \<times> real option) list \<Rightarrow> 'c assembler \<Rightarrow> 'c assembler \<Rightarrow> bool" where
  "follows pre a g \<longleftrightarrow>
     waiting g = pre @ waiting a \<and> req_conn a = req_conn g \<and> req_open a = req_open g \<and>
     req_body a = req_body g \<and> req_started_at a = req_started_at g \<and> req_dead a = req_dead g"

lemma follows_answers: "follows pre a g \<Longrightarrow> answers a x b \<Longrightarrow> follows (pre @ map asked x) b g"
  by (auto simp: follows_def answers_def)

lemma follows_cycle: "follows pre a g \<Longrightarrow> follows pre (next_request_cycle h a) (next_request_cycle h g)"
  by (auto simp: follows_def next_request_cycle_def split: option.splits)

lemma follows_event: "follows pre a g \<Longrightarrow> follows pre (request_event h ts ev a) (request_event h ts ev g)"
  by (cases ev) (auto simp: request_event_def split: option.split intro!: follows_cycle, auto simp: follows_def)

lemma follows_conn: "follows pre a g \<Longrightarrow> follows pre (a\<lparr>req_conn := c\<rparr>) (g\<lparr>req_conn := c\<rparr>)"
  by (simp add: follows_def)

lemma follows_die: "follows pre a g \<Longrightarrow> follows pre (die_requests a) (die_requests g)"
  by (auto simp: follows_def die_requests_def split: option.split)

lemma follows_turn:
  assumes "follows pre a g"
  shows "fst (request_turn h ts a) = fst (request_turn h ts g) \<and>
     follows pre (snd (request_turn h ts a)) (snd (request_turn h ts g))"
proof -
  obtain r c where e: "h_next_event h (req_conn g) = (r, c)" by (cases "h_next_event h (req_conn g)")
  have "req_dead a = req_dead g" "req_conn a = req_conn g" using assms by (auto simp: follows_def)
  with e show ?thesis
    using follows_die[OF follows_conn[OF assms, of c]] follows_conn[OF assms, of c] assms
      follows_event[OF follows_conn[OF assms, of c]]
    by (cases r) (auto simp: request_turn_def)
qed

lemma follows_pump:
  assumes "consuming h rank" "follows pre a g"
  shows "\<exists>b k. pump_requests h ts a = Some b \<and> pump_requests h ts g = Some k \<and> follows pre b k"
  unfolding pump_requests_def
  by (rule turns_sim[where I = "\<lambda>_. True" and r = "\<lambda>a. rank (req_conn a)"])
    (use assms follows_turn request_turn_rank[OF assms(1)] in blast)+

lemma client_half_step:
  "client_half h (f # fs) a = Option.bind (client_half h [f] a) (client_half h fs)"
  by (cases f) (auto simp: Option.bind_assoc)

lemma feed_one_follows:
  assumes c: "consuming h rank" and f: "follows pre a g"
  shows "\<exists>x b k. feed_one h f a = Some (x, b) \<and> client_half h [f] g = Some k \<and>
           follows (pre @ map asked x) b k"
proof (cases f)
  case (From_client d ts)
  have "\<exists>b k. (if d \<noteq> [] \<and> \<not> req_dead a
      then pump_requests h ts (a\<lparr>req_conn := h_receive_data h d (req_conn a)\<rparr>) else Some a) = Some b \<and>
      client_half h [f] g = Some k \<and> follows pre b k"
  proof (cases "d \<noteq> [] \<and> \<not> req_dead a")
    case True
    have "req_conn a = req_conn g" "req_dead a = req_dead g" using f by (auto simp: follows_def)
    with True show ?thesis
      using follows_pump[OF c follows_conn[OF f, of "h_receive_data h d (req_conn g)"], of ts] From_client
      by auto
  next
    case False
    then show ?thesis using f From_client by (auto simp: follows_def)
  qed
  then obtain b k where b: "(if d \<noteq> [] \<and> \<not> req_dead a
      then pump_requests h ts (a\<lparr>req_conn := h_receive_data h d (req_conn a)\<rparr>) else Some a) = Some b"
      "client_half h [f] g = Some k" "follows pre b k" by blast
  show ?thesis
    using answers_pump_responses[OF c, of "if server_pending b then server_pending_ts b else ts" b]
      follows_answers[OF b(3)] b(1,2) From_client
    by (auto simp: feed_client_def)
next
  case (From_server d ts)
  have "follows pre (accept_server_bytes h d ts a) g"
    using f by (auto simp: follows_def accept_server_bytes_def)
  from follows_answers[OF this] show ?thesis
    using answers_pump_responses[OF c, of ts "accept_server_bytes h d ts a"] From_server
    by (auto simp: feed_server_def)
qed

lemma run_feeds_follows:
  assumes c: "consuming h rank" and f: "follows pre a g"
  shows "\<exists>x b k. run_feeds h fs a = Some (x, b) \<and> client_half h fs g = Some k \<and>
           follows (pre @ map asked x) b k"
  using f
proof (induction fs arbitrary: pre a g)
  case (Cons f fs)
  obtain x b k where 1: "feed_one h f a = Some (x, b)" "client_half h [f] g = Some k"
      "follows (pre @ map asked x) b k"
    using feed_one_follows[OF c Cons.prems] by blast
  obtain y d l where 2: "run_feeds h fs b = Some (y, d)" "client_half h fs k = Some l"
      "follows ((pre @ map asked x) @ map asked y) d l"
    using Cons.IH[OF 1(3)] by blast
  have "client_half h (f # fs) g = Some l" by (subst client_half_step) (simp only: 1(2) 2(2) Option.bind.simps)
  with 1 2 show ?case by auto
qed auto

lemma salvage_asked:
  "salvage ts a = (x, b) \<Longrightarrow> map asked x = outstanding a \<and> waiting b = [] \<and> req_open b = None"
  by (auto simp: salvage_def outstanding_def close_open_response_def pair_def asked_def unanswered_def comp_def
      split: option.splits prod.splits list.splits)

lemma finish_asked:
  assumes "consuming h rank"
  shows "\<exists>x b. finish_assembler h ts a = Some (x, b) \<and> map asked x = outstanding a \<and> outstanding b = []"
proof -
  have s: "\<exists>x b. salvage ts a' = (x, b) \<and> map asked x = outstanding a' \<and> outstanding b = []" for a' :: "'a assembler"
    using salvage_asked[of ts a'] by (cases "salvage ts a'") (auto simp: outstanding_def)
  define a0 where "a0 = a\<lparr>resp_conn := h_receive_data h [] (resp_conn a), server_pending := True\<rparr>"
  obtain x b where p: "pump_responses h ts a0 = Some (x, b)" "answers a0 x b"
    using answers_pump_responses[OF assms] by blast
  then have "outstanding a = map asked x @ outstanding b"
    by (auto simp: outstanding_def answers_def a0_def split: option.splits)
  with s[of b] s[of a] p(1) show ?thesis
    by (auto simp: finish_assembler_def a0_def[symmetric])
qed

lemma session_requests:
  assumes "consuming h rank"
  shows "\<exists>out reqs. http_session h server client fs ts = Some out \<and>
           requests_of h server client fs = Some reqs \<and> map asked out = reqs"
proof -
  have f: "follows [] (new_assembler server client) (new_assembler server client)"
    by (simp add: follows_def)
  obtain x b k where 1: "run_feeds h fs (new_assembler server client) = Some (x, b)"
      "client_half h fs (new_assembler server client) = Some k" "follows (map asked x) b k"
    using run_feeds_follows[OF assms f, of fs] by auto
  obtain y d where 2: "finish_assembler h ts b = Some (y, d)" "map asked y = outstanding b"
    using finish_asked[OF assms] by blast
  have "outstanding k = map asked x @ outstanding b"
    using 1(3) by (auto simp: follows_def outstanding_def split: option.splits)
  with 1 2 show ?thesis by (auto simp: http_session_def requests_of_def)
qed

text \<open>
  A framing library small enough to compute with: one byte is one event, and the events wait in a
  queue.
\<close>

definition sample_event :: "byte \<Rightarrow> h11_event option" where
  "sample_event b =
     (if b = 1 then Some (Ev_request [] [71, 69, 84] [47])
      else if b = 2 then Some (Ev_data [b])
      else if b = 3 then Some Ev_end_of_message
      else if b = 4 then Some (Ev_response [] 200)
      else None)"

definition sample_h11 :: "bytes h11" where
  "sample_h11 =
     \<lparr>h_receive_data = (\<lambda>d c. c @ d),
      h_next_event = (\<lambda>c. case c of [] \<Rightarrow> (Some Need_data, []) | b # r \<Rightarrow> (sample_event b, r)),
      h_send_no_content = Some, h_send_request = (\<lambda>_. Some), h_send_end = Some,
      h_start_next_cycle = Some\<rparr>"

lemma sample_consuming: "consuming sample_h11 length"
  by (auto simp: consuming_def sample_h11_def split: list.splits)

text \<open>Every request becomes exactly one exchange. Whatever bytes the two directions bring and however
they interleave, a session returns, and the requests of the exchanges it yields, with the times they
arrived, are exactly the requests the client's bytes hold, each once and in order. The list on the
right is computed from the client's bytes alone: no behaviour of the server side, not a response out
of order, not a stream that is no HTTP at all, adds, loses, or reorders a request.\<close>

theorem requests_become_exchanges:
  assumes "consuming h rank"
  shows "\<exists>out reqs. http_session h server client fs ts = Some out \<and>
           requests_of h server client fs = Some reqs \<and> map asked out = reqs"
  using assms by (rule session_requests)

theorem requests_become_exchanges_witness:
  "\<exists>out reqs. http_session sample_h11 [] [] [From_server [4, 3] None, From_client [1, 2, 3, 1] None] None
       = Some out \<and>
     requests_of sample_h11 [] [] [From_server [4, 3] None, From_client [1, 2, 3, 1] None] = Some reqs \<and>
     map asked out = reqs"
  by (rule requests_become_exchanges[OF sample_consuming])

end
