(* ===== verification/Http_Pairing.thy ===== *)
theory Http_Pairing
  imports Http_Proofs
begin

text \<open>
  Which response answers which request. h11 frames a response by the method of its request, so the
  assembler primes each response cycle with a method; the order of these primings, and which response
  each cycle then read, is observed by running it over a framing library that keeps a log.
\<close>

datatype cycle_log =
    Primed_for string
  | Reply "(string \<times> string) list \<times> int option"
  | Cycle_done

text \<open>What the log has of an event: a response that begins, by its headers and status.\<close>

definition began :: "h11_event option \<Rightarrow> cycle_log list" where
  "began e = (case e of Some (Ev_response hs status) \<Rightarrow> [Reply (headers_to_dict hs, Some status)] | _ \<Rightarrow> [])"

definition with_log :: "'c h11 \<Rightarrow> ('c \<times> cycle_log list) h11" where
  "with_log h =
     \<lparr>h_receive_data = (\<lambda>d (c, l). (h_receive_data h d c, l)),
      h_next_event = (\<lambda>(c, l). (fst (h_next_event h c), snd (h_next_event h c), l @ began (fst (h_next_event h c)))),
      h_send_no_content = (\<lambda>(c, l). map_option (\<lambda>c. (c, l)) (h_send_no_content h c)),
      h_send_request = (\<lambda>m (c, l). map_option (\<lambda>c. (c, l @ [Primed_for m])) (h_send_request h m c)),
      h_send_end = (\<lambda>(c, l). map_option (\<lambda>c. (c, l)) (h_send_end h c)),
      h_start_next_cycle = (\<lambda>(c, l). map_option (\<lambda>c. (c, l @ [Cycle_done])) (h_start_next_cycle h c))\<rparr>"

fun primings :: "cycle_log list \<Rightarrow> string list" where
  "primings [] = []"
| "primings (Primed_for m # l) = m # primings l"
| "primings (_ # l) = primings l"

fun replies :: "cycle_log list \<Rightarrow> ((string \<times> string) list \<times> int option) list" where
  "replies [] = []"
| "replies (Reply r # l) = r # replies l"
| "replies (_ # l) = replies l"

fun cycles_done :: "cycle_log list \<Rightarrow> nat" where
  "cycles_done [] = 0"
| "cycles_done (Cycle_done # l) = Suc (cycles_done l)"
| "cycles_done (_ # l) = cycles_done l"

lemma primings_append [simp]: "primings (k @ l) = primings k @ primings l"
  by (induction k rule: primings.induct) auto

lemma cycles_done_append [simp]: "cycles_done (k @ l) = cycles_done k + cycles_done l"
  by (induction k rule: cycles_done.induct) auto

lemma replies_append [simp]: "replies (k @ l) = replies k @ replies l"
  by (induction k rule: replies.induct) auto

lemma began_cycles [simp]: "primings (began e) = []" "cycles_done (began e) = 0"
  by (simp_all add: began_def split: option.split h11_event.split)

text \<open>
  What is used of the framing: a connection reads either requests or responses (\<open>reads_responses\<close>), a
  message begins only outside a message and ends only inside one (\<open>inside\<close>).
\<close>

definition same_frame :: "('c \<Rightarrow> bool) \<Rightarrow> ('c \<Rightarrow> bool) \<Rightarrow> 'c \<Rightarrow> 'c \<Rightarrow> bool" where
  "same_frame reads_responses inside c c' \<longleftrightarrow>
     reads_responses c' = reads_responses c \<and> inside c' = inside c"

definition event_frame :: "('c \<Rightarrow> bool) \<Rightarrow> ('c \<Rightarrow> bool) \<Rightarrow> h11_event \<Rightarrow> 'c \<Rightarrow> 'c \<Rightarrow> bool" where
  "event_frame reads_responses inside ev c c' \<longleftrightarrow> reads_responses c' = reads_responses c \<and>
     (case ev of
        Ev_request _ _ _ \<Rightarrow> \<not> reads_responses c \<and> \<not> inside c \<and> inside c'
      | Ev_response _ _ \<Rightarrow> reads_responses c \<and> \<not> inside c \<and> inside c'
      | Ev_end_of_message \<Rightarrow> inside c \<and> \<not> inside c'
      | _ \<Rightarrow> inside c' = inside c)"

definition framed :: "'c h11 \<Rightarrow> ('c \<Rightarrow> bool) \<Rightarrow> ('c \<Rightarrow> bool) \<Rightarrow> bool" where
  "framed h reads_responses inside \<longleftrightarrow>
     (\<forall>c ev c'. h_next_event h c = (Some ev, c') \<longrightarrow> event_frame reads_responses inside ev c c') \<and>
     (\<forall>d c. same_frame reads_responses inside c (h_receive_data h d c)) \<and>
     (\<forall>c c'. h_send_no_content h c = Some c' \<longrightarrow> same_frame reads_responses inside c c') \<and>
     (\<forall>m c c'. h_send_request h m c = Some c' \<longrightarrow> same_frame reads_responses inside c c') \<and>
     (\<forall>c c'. h_send_end h c = Some c' \<longrightarrow> same_frame reads_responses inside c c') \<and>
     (\<forall>c c'. h_start_next_cycle h c = Some c' \<longrightarrow> same_frame reads_responses inside c c')"

lemma framedD:
  assumes "framed h K B"
  shows "h_next_event h c = (Some ev, c') \<Longrightarrow> event_frame K B ev c c'"
    and "same_frame K B c (h_receive_data h d c)"
    and "h_send_no_content h c = Some c' \<Longrightarrow> same_frame K B c c'"
    and "h_send_request h m c = Some c' \<Longrightarrow> same_frame K B c c'"
    and "h_send_end h c = Some c' \<Longrightarrow> same_frame K B c c'"
    and "h_start_next_cycle h c = Some c' \<Longrightarrow> same_frame K B c c'"
  using assms unfolding framed_def by blast+

lemma consuming_with_log: "consuming h rank \<Longrightarrow> consuming (with_log h) (rank \<circ> fst)"
  unfolding consuming_def with_log_def by (auto simp: prod_eq_iff split: prod.splits)

lemma event_frame_fst: "event_frame (K \<circ> fst) (B \<circ> fst) ev c c' = event_frame K B ev (fst c) (fst c')"
  by (simp add: event_frame_def split: h11_event.split)

lemma same_frame_fst: "same_frame (K \<circ> fst) (B \<circ> fst) c c' = same_frame K B (fst c) (fst c')"
  by (simp add: same_frame_def)

lemma framed_with_log:
  assumes "framed h K B"
  shows "framed (with_log h) (K \<circ> fst) (B \<circ> fst)"
  unfolding framed_def event_frame_fst same_frame_fst
  using framedD[OF assms] by (auto simp: with_log_def prod_eq_iff)

section \<open>The invariant\<close>

definition request_method :: "http_message \<times> real option \<Rightarrow> string option" where
  "request_method w = hm_method (fst w)"

abbreviation exchange_method :: "exchange \<Rightarrow> string option" where
  "exchange_method x \<equiv> hm_method (ex_request x)"

definition unanswered_methods :: "'c assembler \<Rightarrow> string option list" where
  "unanswered_methods a = map request_method (outstanding a)"

lemma request_method_simp [simp]: "request_method (m, t) = hm_method m"
  by (simp add: request_method_def)

lemma unanswered_methods_eq:
  "unanswered_methods a = map request_method (waiting a) @
     (case req_open a of None \<Rightarrow> [] | Some m \<Rightarrow> [hm_method m])"
  by (simp add: unanswered_methods_def outstanding_def split: option.split)

text \<open>No request is outstanding and none can come.\<close>

definition requests_over :: "'c assembler \<Rightarrow> bool" where
  "requests_over a \<longleftrightarrow> req_dead a \<and> waiting a = [] \<and> req_open a = None"

definition request_frame :: "('c \<Rightarrow> bool) \<Rightarrow> ('c \<Rightarrow> bool) \<Rightarrow> 'c assembler \<Rightarrow> bool" where
  "request_frame K B a \<longleftrightarrow> (req_dead a \<longrightarrow> req_open a = None) \<and>
     (\<not> req_dead a \<longrightarrow> \<not> K (req_conn a) \<and> B (req_conn a) = (req_open a \<noteq> None))"

definition aligned :: "exchange list \<Rightarrow> ('c \<times> cycle_log list) assembler \<Rightarrow> bool" where
  "aligned out a \<longleftrightarrow>
     (\<exists>j. map Some (primings (snd (resp_conn a))) =
          map exchange_method out @
          (if primed a \<and> waiting a \<noteq> [] then [hd (unanswered_methods a)] else []) @
          replicate j (Some ''POST'') \<and> (j > 0 \<longrightarrow> requests_over a)) \<and>
     map Some (methods a) = (if primed a then tl (unanswered_methods a) else unanswered_methods a) \<and>
     (primed a \<and> waiting a = [] \<longrightarrow> requests_over a)"

text \<open>What is claimed of a run: the exchanges took the primings in order, and no response was dropped.\<close>

definition paired :: "exchange list \<Rightarrow> ('c \<times> cycle_log list) assembler \<Rightarrow> bool" where
  "paired out a \<longleftrightarrow>
     prefix (map exchange_method out) (map Some (primings (snd (resp_conn a)))) \<and>
     (cycles_done (snd (resp_conn a)) \<le> length out \<or> requests_over a)"

definition pairing_inv ::
  "('c \<Rightarrow> bool) \<Rightarrow> ('c \<Rightarrow> bool) \<Rightarrow> nat \<Rightarrow> exchange list \<Rightarrow> ('c \<times> cycle_log list) assembler \<Rightarrow> bool" where
  "pairing_inv K B n out a \<longleftrightarrow>
     request_frame (K \<circ> fst) (B \<circ> fst) a \<and> paired out a \<and>
     unprimed_bytes a + n \<le> MAX_UNPRIMED_RESPONSE_BYTES \<and>
     (\<not> resp_dead a \<longrightarrow> K (fst (resp_conn a)) \<and> B (fst (resp_conn a)) = (resp_open a \<noteq> None) \<and>
        aligned out a)"

subsection \<open>The request direction\<close>

text \<open>One turn of the request loop leaves the response side alone and queues at the end only.\<close>

definition queues :: "'c assembler \<Rightarrow> 'c assembler \<Rightarrow> bool" where
  "queues a b \<longleftrightarrow>
     (\<exists>new. map Some (methods b) = map Some (methods a) @ new \<and>
        unanswered_methods b = unanswered_methods a @ new) \<and>
     (waiting a \<noteq> [] \<longrightarrow> waiting b \<noteq> []) \<and> (req_dead a \<longrightarrow> b = a) \<and>
     resp_conn b = resp_conn a \<and> resp_open b = resp_open a \<and> resp_body b = resp_body a \<and>
     primed b = primed a \<and> resp_dead b = resp_dead a \<and> unprimed_bytes b = unprimed_bytes a"

lemma queues_refl: "queues a a"
  by (simp add: queues_def)

lemma queues_trans: "queues a b \<Longrightarrow> queues b c \<Longrightarrow> queues a c"
  unfolding queues_def by fastforce

lemma next_request_cycle_frame:
  assumes "framed h K B" "\<not> K (req_conn a)" "\<not> B (req_conn a)" "req_open a = None"
  shows "request_frame K B (next_request_cycle h a)"
  using assms framedD(3,5,6)[OF assms(1)]
  by (auto simp: next_request_cycle_def request_frame_def bind_eq_Some_conv same_frame_def split: option.split)

lemma next_request_cycle_queues: "\<not> req_dead a \<Longrightarrow> queues a (next_request_cycle h a)"
  by (auto simp: next_request_cycle_def queues_def unanswered_methods_eq split: option.split)

lemma request_event_pairs:
  assumes f: "framed h K B" and r: "request_frame K B a" and d: "\<not> req_dead a"
    and n: "h_next_event h (req_conn a) = (Some ev, c)"
  shows "queues a (request_event h ts ev (a\<lparr>req_conn := c\<rparr>)) \<and>
         request_frame K B (request_event h ts ev (a\<lparr>req_conn := c\<rparr>))"
proof -
  have e: "event_frame K B ev (req_conn a) c" by (rule framedD(1)[OF f n])
  have a: "\<not> K (req_conn a)" "B (req_conn a) = (req_open a \<noteq> None)" using r d by (auto simp: request_frame_def)
  show ?thesis
  proof (cases ev)
    case Ev_end_of_message
    with e a obtain m where m: "req_open a = Some m" and c: "\<not> B c" "\<not> K c" by (auto simp: event_frame_def)
    define b where "b = a\<lparr>req_conn := c, waiting := waiting a @ [(m\<lparr>hm_body := req_body a\<rparr>, req_started_at a)],
                           req_open := None\<rparr>"
    have b: "request_event h ts ev (a\<lparr>req_conn := c\<rparr>) = next_request_cycle h b"
      using Ev_end_of_message m by (simp add: request_event_def b_def)
    have "queues a b" using d m by (simp add: queues_def b_def unanswered_methods_eq)
    moreover have "queues b (next_request_cycle h b)" using d by (intro next_request_cycle_queues) (simp add: b_def)
    ultimately have "queues a (next_request_cycle h b)" by (rule queues_trans)
    moreover have "request_frame K B (next_request_cycle h b)"
      using c by (intro next_request_cycle_frame[OF f]) (simp_all add: b_def)
    ultimately show ?thesis by (simp add: b)
  qed (use e a d in \<open>auto simp: request_event_def event_frame_def queues_def request_frame_def
        unanswered_methods_eq\<close>)
qed

lemma die_requests_pairs:
  "\<not> req_dead a \<Longrightarrow>
     queues a (die_requests (a\<lparr>req_conn := c\<rparr>)) \<and> request_frame K B (die_requests (a\<lparr>req_conn := c\<rparr>))"
  by (auto simp: die_requests_def queues_def request_frame_def unanswered_methods_eq
      split: option.split)

lemma request_turn_pairs:
  assumes f: "framed h K B" and r: "request_frame K B a" and t: "request_turn h ts a = (go, b)"
  shows "queues a b \<and> request_frame K B b"
proof (cases "req_dead a")
  case True
  then show ?thesis using t r by (simp add: request_turn_def queues_refl)
next
  case False
  obtain e c where n: "h_next_event h (req_conn a) = (e, c)" by (cases "h_next_event h (req_conn a)")
  show ?thesis
  proof (cases e)
    case None
    then show ?thesis using t n False die_requests_pairs[OF False, of c K B] by (simp add: request_turn_def)
  next
    case (Some ev)
    have "ev \<in> {Need_data, Paused, Connection_closed} \<Longrightarrow>
        queues a (a\<lparr>req_conn := c\<rparr>) \<and> request_frame K B (a\<lparr>req_conn := c\<rparr>)"
      using framedD(1)[OF f, of "req_conn a" ev c] n Some r False
      by (auto simp: queues_def request_frame_def unanswered_methods_eq event_frame_def)
    then show ?thesis
      using request_event_pairs[OF f r False, of ev c] t n Some False
      by (auto simp: request_turn_def split: if_splits)
  qed
qed

lemma pump_requests_pairs:
  assumes "consuming h rank" "framed h K B" "request_frame K B a"
  shows "\<exists>b. pump_requests h ts a = Some b \<and> queues a b \<and> request_frame K B b"
  by (rule pump_requests_total[OF assms(1), where I = "\<lambda>b. queues a b \<and> request_frame K B b"])
    (use assms(3) request_turn_pairs[OF assms(2)] in \<open>auto simp: queues_refl intro: queues_trans\<close>)

lemma queues_pairing_inv:
  assumes i: "pairing_inv K B n out a" and q: "queues a b" and r: "request_frame (K \<circ> fst) (B \<circ> fst) b"
  shows "pairing_inv K B n out b"
proof (cases "req_dead a")
  case True
  then show ?thesis using i q by (simp add: queues_def)
next
  case False
  obtain new where w: "map Some (methods b) = map Some (methods a) @ new"
      "unanswered_methods b = unanswered_methods a @ new" "waiting a \<noteq> [] \<longrightarrow> waiting b \<noteq> []"
    using q unfolding queues_def by blast
  have ne: "waiting a \<noteq> [] \<Longrightarrow> unanswered_methods a \<noteq> []"
    by (simp add: unanswered_methods_eq)
  have "\<not> requests_over a" using False by (simp add: requests_over_def)
  then have "aligned out a \<Longrightarrow> aligned out b"
    using w ne q by (auto simp: aligned_def queues_def)
  then show ?thesis
    using i q r \<open>\<not> requests_over a\<close> by (auto simp: pairing_inv_def paired_def queues_def)
qed

subsection \<open>The response direction\<close>

lemma with_log_simps:
  "h_receive_data (with_log h) d c = (h_receive_data h d (fst c), snd c)"
  "h_next_event (with_log h) c =
     (fst (h_next_event h (fst c)), snd (h_next_event h (fst c)), snd c @ began (fst (h_next_event h (fst c))))"
  "h_send_request (with_log h) m c = map_option (\<lambda>k. (k, snd c @ [Primed_for m])) (h_send_request h m (fst c))"
  "h_send_end (with_log h) c = map_option (\<lambda>k. (k, snd c)) (h_send_end h (fst c))"
  "h_start_next_cycle (with_log h) c = map_option (\<lambda>k. (k, snd c @ [Cycle_done])) (h_start_next_cycle h (fst c))"
  by (simp_all add: with_log_def split: prod.split)

text \<open>The method \<open>_prime\<close> chooses, when the bytes are within their bound.\<close>

lemma prime_method_aligned:
  assumes i: "pairing_inv K B n out a" and d: "\<not> resp_dead a" "\<not> primed a" and p: "prime_method a = Some (m, rest)"
  shows "waiting a \<noteq> [] \<and> hd (unanswered_methods a) = Some m \<and> map Some rest = tl (unanswered_methods a) \<or>
         requests_over a \<and> m = ''POST'' \<and> rest = [] \<and> waiting a = []"
proof -
  have al: "map Some (methods a) = unanswered_methods a" using i d by (simp add: pairing_inv_def aligned_def)
  show ?thesis
  proof (cases "methods a \<noteq> [] \<and> waiting a \<noteq> []")
    case True
    then have "m = hd (methods a)" "rest = tl (methods a)" using p by (auto simp: prime_method_def)
    with True al show ?thesis by (metis hd_map map_tl)
  next
    case False
    then have n: "no_method_is_coming a" "m = ''POST''" "rest = methods a"
      using p by (auto simp: prime_method_def split: if_splits)
    then have "req_dead a" using i by (simp add: no_method_is_coming_def pairing_inv_def)
    moreover from this have "req_open a = None" using i by (simp add: pairing_inv_def request_frame_def)
    ultimately show ?thesis
      using False n al by (auto simp: requests_over_def unanswered_methods_eq)
  qed
qed

lemma prime_pairs:
  assumes f: "framed h K B" and i: "pairing_inv K B n out a" and d: "\<not> resp_dead a" "\<not> primed a"
    and p: "prime (with_log h) a = (go, b)"
  shows "pairing_inv K B n out b \<and> (go \<longrightarrow> primed b \<and> \<not> resp_dead b)"
proof (cases "prime_method a")
  case None
  then show ?thesis using p i by (simp add: prime_def)
next
  case (Some mr)
  obtain m rest where mr: "mr = (m, rest)" by (cases mr)
  note c = prime_method_aligned[OF i d Some[unfolded mr]]
  show ?thesis
  proof (cases "do { c \<leftarrow> h_send_request (with_log h) m (resp_conn a); h_send_end (with_log h) c }")
    case None
    then have "b = a\<lparr>methods := rest, resp_dead := True\<rparr>" "\<not> go"
      using p \<open>prime_method a = Some mr\<close> mr by (auto simp: prime_def)
    then show ?thesis
      using i by (simp add: pairing_inv_def paired_def request_frame_def requests_over_def)
  next
    case (Some k)
    then obtain c1 c2 where k: "h_send_request h m (fst (resp_conn a)) = Some c1" "h_send_end h c1 = Some c2"
        "k = (c2, snd (resp_conn a) @ [Primed_for m])"
      by (auto simp: with_log_simps bind_eq_Some_conv)
    have b: "b = a\<lparr>methods := rest, resp_conn := k, primed := True, unprimed_bytes := 0\<rparr>" "go"
      using p \<open>prime_method a = Some mr\<close> mr Some by (auto simp: prime_def)
    have u: "unanswered_methods b = unanswered_methods a" "requests_over b = requests_over a"
      using b by (simp_all add: unanswered_methods_eq requests_over_def)
    have fr: "K c2 = K (fst (resp_conn a))" "B c2 = B (fst (resp_conn a))"
      using framedD(4)[OF f k(1)] framedD(5)[OF f k(2)] by (auto simp: same_frame_def)
    have "requests_over a \<Longrightarrow> unanswered_methods a = []"
      by (simp add: requests_over_def unanswered_methods_eq)
    moreover have "\<exists>i. replicate j x @ [x] = replicate i x" for j and x :: "string option"
      by (metis replicate_append_same replicate_Suc)
    moreover have "\<exists>i. [x] = replicate i x" for x :: "string option"
      by (rule exI[of _ 1]) simp
    ultimately have al: "aligned out b"
      using i d c b k u by (auto simp: pairing_inv_def aligned_def requests_over_def)
    show ?thesis
      using i d al fr b k u(2) by (auto simp: pairing_inv_def paired_def request_frame_def)
  qed
qed

text \<open>The end of a response: it is paired with the first request in the queue, and the cycle is over.\<close>

lemma response_end_pairs:
  assumes f: "framed h K B" and g: "request_frame (K \<circ> fst) (B \<circ> fst) a" "paired out a" "aligned out a"
    and u: "unprimed_bytes a + n \<le> MAX_UNPRIMED_RESPONSE_BYTES"
    and c: "K (fst (resp_conn a))" "\<not> B (fst (resp_conn a))" "resp_open a = Some m" "primed a"
    and t: "response_end (with_log h) ts a = (go, new, b)"
  shows "pairing_inv K B n (out @ new) b"
proof -
  obtain x a1 where x: "pair (m\<lparr>hm_body := resp_body a\<rparr>) ts a = (x, a1)"
    by (cases "pair (m\<lparr>hm_body := resp_body a\<rparr>) ts a")
  define a2 where "a2 = a1\<lparr>resp_open := None, primed := False\<rparr>"
  have w: "waiting a = map asked x @ waiting a2" "x = [] \<longleftrightarrow> waiting a = []" "length x \<le> 1"
    using x by (auto simp: pair_def asked_def a2_def split: list.splits)
  have a2: "req_open a2 = req_open a" "req_dead a2 = req_dead a" "req_conn a2 = req_conn a"
      "methods a2 = methods a" "resp_conn a2 = resp_conn a" "unprimed_bytes a2 = unprimed_bytes a"
      "resp_dead a2 = resp_dead a" "\<not> primed a2" "resp_open a2 = None"
    using x by (auto simp: pair_def a2_def split: list.splits)
  have un: "unanswered_methods a = map exchange_method x @ unanswered_methods a2"
    using w a2 x by (auto simp: unanswered_methods_eq asked_def pair_def a2_def
        split: option.split list.splits)
  have al: "aligned (out @ x) a2"
  proof (cases "waiting a = []")
    case True
    then have "requests_over a" "x = []" using g(3) c(4) w(2) by (auto simp: aligned_def)
    moreover have "unanswered_methods a = []"
      using \<open>requests_over a\<close> by (simp add: requests_over_def unanswered_methods_eq)
    ultimately show ?thesis using g(3) un a2 w(1) c(4) by (auto simp: aligned_def requests_over_def)
  next
    case False
    then obtain y where y: "x = [y]" using w(2,3) by (cases x) auto
    then have "hd (unanswered_methods a) = exchange_method y" "tl (unanswered_methods a) = unanswered_methods a2"
      using un by simp_all
    moreover have "\<not> requests_over a" using False by (simp add: requests_over_def)
    ultimately show ?thesis using g(3) a2 False c(4) y by (auto simp: aligned_def)
  qed
  have pr: "prefix (map exchange_method (out @ x)) (map Some (primings (snd (resp_conn a2))))"
    using al a2 unfolding aligned_def prefix_def by auto
  have cy: "cycles_done (snd (resp_conn a2)) < length (out @ x) \<or> requests_over a2"
  proof (cases "waiting a = []")
    case True
    then have "requests_over a" using g(3) c(4) by (simp add: aligned_def)
    then show ?thesis using a2 w(1) by (simp add: requests_over_def)
  next
    case False
    then have "length x = 1" using w(2,3) by (cases x) auto
    then show ?thesis using g(2) a2 w(1) by (auto simp: paired_def requests_over_def)
  qed
  have b: "new = x" "b = snd (next_response_cycle (with_log h) a2)"
    using t x c(3) by (auto simp: response_end_def a2_def next_response_cycle_def split: prod.splits option.splits)
  show ?thesis
  proof (cases "h_start_next_cycle h (fst (resp_conn a))")
    case None
    then have "b = a2\<lparr>resp_dead := True\<rparr>" using b(2) a2 by (simp add: next_response_cycle_def with_log_simps)
    then show ?thesis using g(1) u pr cy a2 b(1)
      by (auto simp: pairing_inv_def paired_def request_frame_def requests_over_def)
  next
    case (Some k)
    then have bb: "b = a2\<lparr>resp_conn := (k, snd (resp_conn a) @ [Cycle_done])\<rparr>"
      using b(2) a2 by (simp add: next_response_cycle_def with_log_simps)
    have "same_frame K B (fst (resp_conn a)) k" by (rule framedD(6)[OF f Some])
    moreover have "aligned (out @ x) b"
      using al bb a2 by (simp add: aligned_def requests_over_def unanswered_methods_eq)
    ultimately show ?thesis
      using g(1) u pr cy a2 b(1) bb c
      by (auto simp: pairing_inv_def paired_def request_frame_def requests_over_def same_frame_def)
  qed
qed

lemma close_pairs:
  assumes g: "request_frame K B a" "paired out a" "aligned out a" "primed a"
    and u: "unprimed_bytes a + n \<le> MAX_UNPRIMED_RESPONSE_BYTES" and d: "resp_dead a"
    and t: "close_open_response ts a = (new, b)"
  shows "request_frame K B b \<and> paired (out @ new) b \<and> unprimed_bytes b = unprimed_bytes a \<and> resp_dead b"
proof (cases "resp_open a")
  case None
  then show ?thesis using t g d by (simp add: close_open_response_def)
next
  case (Some m)
  show ?thesis
  proof (cases "waiting a")
    case Nil
    then have "new = []" "b = a\<lparr>resp_open := None\<rparr>"
      using t Some by (auto simp: close_open_response_def pair_def)
    then show ?thesis using g d by (simp add: request_frame_def paired_def requests_over_def)
  next
    case (Cons w ws)
    then have b: "map exchange_method new = [hd (unanswered_methods a)]"
        "b = a\<lparr>resp_open := None, waiting := ws\<rparr>"
      using t Some by (auto simp: close_open_response_def pair_def unanswered_methods_eq request_method_def
          split: prod.splits)
    have "prefix (map exchange_method (out @ new)) (map Some (primings (snd (resp_conn a))))"
      using g(3,4) Cons b by (auto simp: aligned_def requests_over_def)
    then show ?thesis using b g d Cons by (auto simp: request_frame_def paired_def requests_over_def)
  qed
qed

lemma pairing_cong:
  assumes "waiting b = waiting a" "methods b = methods a" "req_open b = req_open a" "req_dead b = req_dead a"
    "req_conn b = req_conn a" "primed b = primed a" "snd (resp_conn b) = snd (resp_conn a)"
  shows "request_frame K B b = request_frame K B a" "paired out b = paired out a" "aligned out b = aligned out a"
  using assms by (simp_all add: request_frame_def paired_def aligned_def requests_over_def unanswered_methods_eq)

lemma next_response_pairs:
  assumes f: "framed h K B" and i: "pairing_inv K B n out a" and p: "primed a" "\<not> resp_dead a"
    and t: "next_response (with_log h) ts a = (go, new, b)"
  shows "pairing_inv K B n (out @ new) b"
proof -
  obtain e c where n: "h_next_event h (fst (resp_conn a)) = (e, c)"
    by (cases "h_next_event h (fst (resp_conn a))")
  define a1 where "a1 = a\<lparr>resp_conn := (c, snd (resp_conn a) @ began e)\<rparr>"
  have g: "request_frame (K \<circ> fst) (B \<circ> fst) a1" "paired out a1" "aligned out a1" "primed a1" "\<not> resp_dead a1"
      "unprimed_bytes a1 + n \<le> MAX_UNPRIMED_RESPONSE_BYTES"
      "resp_open a1 = resp_open a" "fst (resp_conn a1) = c"
    using i p by (auto simp: pairing_inv_def a1_def request_frame_def paired_def aligned_def requests_over_def
        unanswered_methods_eq)
  have c: "K (fst (resp_conn a))" "B (fst (resp_conn a)) = (resp_open a \<noteq> None)"
    using i p by (simp_all add: pairing_inv_def)
  show ?thesis
  proof (cases e)
    case None
    then have t1: "die_responses ts a1 = (new, b)" using t n by (simp add: next_response_def with_log_simps a1_def)
    have "request_frame (K \<circ> fst) (B \<circ> fst) b \<and> paired (out @ new) b \<and> unprimed_bytes b = unprimed_bytes a1 \<and>
        resp_dead b"
    proof (cases "resp_open a1")
      case None
      then show ?thesis using t1 g by (auto simp: die_responses_def request_frame_def paired_def requests_over_def)
    next
      case (Some m)
      define a2 where "a2 = a1\<lparr>resp_dead := True\<rparr>"
      have t2: "close_open_response ts a2 = (new, b)"
        using t1 Some by (simp add: die_responses_def a2_def)
      have u2: "unprimed_bytes a2 + n \<le> MAX_UNPRIMED_RESPONSE_BYTES" "resp_dead a2" "primed a2"
          "request_frame (K \<circ> fst) (B \<circ> fst) a2" "paired out a2" "aligned out a2"
          "unprimed_bytes a2 = unprimed_bytes a1"
        using g pairing_cong[of a2 a1] by (simp_all add: a2_def)
      show ?thesis using close_pairs[OF u2(4-6,3,1,2) t2] u2(7) by simp
    qed
    then show ?thesis using g by (simp add: pairing_inv_def)
  next
    case (Some ev)
    have fr: "event_frame K B ev (fst (resp_conn a)) c" using framedD(1)[OF f] n Some by blast
    have t1: "response_event (with_log h) ts ev a1 = (go, new, b)"
      using t n Some by (simp add: next_response_def with_log_simps a1_def)
    show ?thesis
    proof (cases "ev = Ev_end_of_message")
      case True
      then obtain m where "resp_open a1 = Some m" "K c" "\<not> B c" using fr c g by (auto simp: event_frame_def)
      then show ?thesis
        using response_end_pairs[OF f g(1-3,6), of m ts go new b] g t1 True by (simp add: response_event_def)
    next
      case False
      then have "new = []" and b: "waiting b = waiting a1" "methods b = methods a1" "req_open b = req_open a1"
          "req_dead b = req_dead a1" "req_conn b = req_conn a1" "primed b = primed a1"
          "snd (resp_conn b) = snd (resp_conn a1)" "unprimed_bytes b = unprimed_bytes a1"
          "resp_dead b = resp_dead a1" "K (fst (resp_conn b)) \<and> B (fst (resp_conn b)) = (resp_open b \<noteq> None)"
        using t1 fr g c by (auto simp: response_event_def event_frame_def split: h11_event.splits)
      then show ?thesis
        using g pairing_cong[OF b(1-7)] by (simp add: pairing_inv_def)
    qed
  qed
qed

lemma response_turn_pairs:
  assumes f: "framed h K B" and i: "pairing_inv K B n out a"
    and t: "response_turn (with_log h) ts a = (go, new, b)"
  shows "pairing_inv K B n (out @ new) b"
proof (cases "resp_dead a \<or> primed a")
  case True
  then show ?thesis using t i next_response_pairs[OF f i] by (auto simp: response_turn_def split: if_splits)
next
  case False
  obtain ready a1 where p: "prime (with_log h) a = (ready, a1)" by (cases "prime (with_log h) a")
  from prime_pairs[OF f i _ _ p] False have a1: "pairing_inv K B n out a1" "ready \<Longrightarrow> primed a1 \<and> \<not> resp_dead a1"
    by auto
  then show ?thesis
    using t p False next_response_pairs[OF f a1(1)] by (auto simp: response_turn_def split: bool.splits)
qed

subsection \<open>The responses in the exchanges\<close>

text \<open>
  The responses the framing began are, in order, the responses of the exchanges, and then the one that is
  open; once no request is left to answer, what follows is dropped.
\<close>

definition reply_key :: "http_message \<Rightarrow> (string \<times> string) list \<times> int option" where
  "reply_key m = (hm_headers m, hm_status m)"

definition reply_of :: "exchange \<Rightarrow> ((string \<times> string) list \<times> int option) option" where
  "reply_of x = map_option reply_key (ex_response x)"

definition replied :: "exchange list \<Rightarrow> ('c \<times> cycle_log list) assembler \<Rightarrow> bool" where
  "replied out a \<longleftrightarrow>
     (resp_open a \<noteq> None \<longrightarrow> primed a \<and> \<not> resp_dead a) \<and>
     (map Some (replies (snd (resp_conn a))) =
        map reply_of out @ (case resp_open a of None \<Rightarrow> [] | Some m \<Rightarrow> [Some (reply_key m)]) \<or>
      requests_over a \<and> prefix (map reply_of out) (map Some (replies (snd (resp_conn a)))))"

lemma reply_key_updates [simp]:
  "reply_key (m\<lparr>hm_body := d\<rparr>) = reply_key m" "reply_key (m\<lparr>hm_truncated := t\<rparr>) = reply_key m"
  by (simp_all add: reply_key_def)

lemma requests_over_updates [simp]:
  "requests_over (a\<lparr>resp_open := x\<rparr>) = requests_over a" "requests_over (a\<lparr>resp_dead := d\<rparr>) = requests_over a"
  "requests_over (a\<lparr>primed := p\<rparr>) = requests_over a" "requests_over (a\<lparr>resp_conn := k\<rparr>) = requests_over a"
  "requests_over (a\<lparr>methods := ms\<rparr>) = requests_over a" "requests_over (a\<lparr>unparseable := u\<rparr>) = requests_over a"
  "requests_over (a\<lparr>resp_body := bd\<rparr>) = requests_over a" "requests_over (a\<lparr>unprimed_bytes := ub\<rparr>) = requests_over a"
  "requests_over (a\<lparr>server_pending := sp\<rparr>) = requests_over a"
  "requests_over (a\<lparr>server_pending_ts := st\<rparr>) = requests_over a"
  by (simp_all add: requests_over_def)

lemma pair_replies:
  assumes r: "map Some l = map reply_of out @ [Some (reply_key m)] \<or>
      requests_over a \<and> prefix (map reply_of out) (map Some l)"
    and w: "waiting a = [] \<Longrightarrow> requests_over a" and p: "pair m ts a = (x, b)"
  shows "map Some l = map reply_of (out @ x) \<or> requests_over b \<and> prefix (map reply_of (out @ x)) (map Some l)"
    "resp_conn b = resp_conn a" "resp_open b = resp_open a" "resp_dead b = resp_dead a" "primed b = primed a"
    "req_dead b = req_dead a" "req_open b = req_open a"
proof -
  show "map Some l = map reply_of (out @ x) \<or> requests_over b \<and> prefix (map reply_of (out @ x)) (map Some l)"
  proof (cases "waiting a")
    case Nil
    then show ?thesis using r w p by (auto simp: pair_def)
  next
    case (Cons v vs)
    then have "\<not> requests_over a" by (simp add: requests_over_def)
    then show ?thesis using r p Cons by (auto simp: pair_def reply_of_def split: prod.splits)
  qed
qed (use p in \<open>auto simp: pair_def split: list.splits prod.splits\<close>)

lemma replied_queues: "replied out a \<Longrightarrow> queues a b \<Longrightarrow> replied out b"
  by (auto simp: replied_def queues_def requests_over_def)

lemma replied_prime:
  assumes r: "replied out a" and d: "\<not> resp_dead a" "\<not> primed a" and p: "prime (with_log h) a = (go, b)"
  shows "replied out b"
proof -
  have o: "resp_open a = None" using r d by (auto simp: replied_def)
  have "b = a \<or> (\<exists>ms. b = a\<lparr>methods := ms, resp_dead := True\<rparr>) \<or>
      (\<exists>ms c m. b = a\<lparr>methods := ms, resp_conn := (c, snd (resp_conn a) @ [Primed_for m]), primed := True,
                    unprimed_bytes := 0\<rparr>)"
    using p by (auto simp: prime_def with_log_simps bind_eq_Some_conv split: option.splits prod.splits)
  then show ?thesis using r o by (elim disjE exE) (simp_all add: replied_def)
qed

lemma replied_end:
  assumes i: "aligned out a" "primed a" and r: "replied out a" and m: "resp_open a = Some m"
    and t: "response_end (with_log h) ts a = (go, new, b)"
  shows "replied (out @ new) b"
proof -
  obtain x a1 where x: "pair (m\<lparr>hm_body := resp_body a\<rparr>) ts a = (x, a1)"
    by (cases "pair (m\<lparr>hm_body := resp_body a\<rparr>) ts a")
  have w: "waiting a = [] \<Longrightarrow> requests_over a" using i by (simp add: aligned_def)
  note p = pair_replies[OF _ w x, of "replies (snd (resp_conn a))" out]
  have c: "map Some (replies (snd (resp_conn a))) = map reply_of (out @ x) \<or>
      requests_over a1 \<and> prefix (map reply_of (out @ x)) (map Some (replies (snd (resp_conn a))))"
    using r m by (intro p(1)) (auto simp: replied_def)
  have b: "new = x" "b = snd (next_response_cycle (with_log h) (a1\<lparr>resp_open := None\<rparr>))"
    using t x m by (auto simp: response_end_def split: prod.splits)
  have "resp_conn a1 = resp_conn a" using r m by (intro p(2)) (auto simp: replied_def)
  then show ?thesis
    using c unfolding b by (auto simp: replied_def next_response_cycle_def with_log_simps split: option.split)
qed

lemma replied_close:
  assumes i: "aligned out a" and r: "replied out a" and t: "close_open_response ts (a\<lparr>resp_dead := d\<rparr>) = (new, b)"
  shows "replied (out @ new) b" "resp_open b = None"
proof -
  have "replied (out @ new) b \<and> resp_open b = None"
  proof (cases "resp_open a")
    case None
    then show ?thesis using t r by (auto simp: close_open_response_def replied_def)
  next
    case (Some m)
    then have a: "primed a" using r by (simp add: replied_def)
    let ?a = "a\<lparr>resp_dead := d, resp_open := None\<rparr>"
    have x: "pair (m\<lparr>hm_body := resp_body a, hm_truncated := True\<rparr>) ts ?a = (new, b)"
      using t Some by (simp add: close_open_response_def)
    have w: "waiting ?a = [] \<Longrightarrow> requests_over ?a" using i a by (simp add: aligned_def)
    note p = pair_replies[OF _ w x, of "replies (snd (resp_conn a))" out]
    show ?thesis using p r Some by (auto simp: replied_def)
  qed
  then show "replied (out @ new) b" "resp_open b = None" by simp_all
qed

lemma replied_next:
  assumes f: "framed h K B" and i: "pairing_inv K B n out a" and r: "replied out a"
    and p: "primed a" "\<not> resp_dead a" and t: "next_response (with_log h) ts a = (go, new, b)"
  shows "replied (out @ new) b"
proof -
  obtain e c where n: "h_next_event h (fst (resp_conn a)) = (e, c)"
    by (cases "h_next_event h (fst (resp_conn a))")
  define a1 where "a1 = a\<lparr>resp_conn := (c, snd (resp_conn a) @ began e)\<rparr>"
  have al: "aligned out a1"
    using i p by (auto simp: pairing_inv_def a1_def aligned_def requests_over_def unanswered_methods_eq)
  have B: "B (fst (resp_conn a)) = (resp_open a \<noteq> None)" using i p by (simp add: pairing_inv_def)
  show ?thesis
  proof (cases e)
    case None
    then have t1: "die_responses ts a1 = (new, b)" using t n by (simp add: next_response_def with_log_simps a1_def)
    have r1: "replied out a1" using r None by (simp add: a1_def began_def replied_def)
    show ?thesis
    proof (cases "resp_open a1")
      case None
      then show ?thesis using t1 r1 by (auto simp: die_responses_def replied_def)
    next
      case (Some m)
      then have "close_open_response ts (a1\<lparr>resp_dead := True\<rparr>) = (new, b)" using t1 by (simp add: die_responses_def)
      from replied_close(1)[OF al r1 this] show ?thesis .
    qed
  next
    case (Some ev)
    have fr: "event_frame K B ev (fst (resp_conn a)) c" using framedD(1)[OF f] n Some by blast
    have t1: "response_event (with_log h) ts ev a1 = (go, new, b)"
      using t n Some by (simp add: next_response_def with_log_simps a1_def)
    show ?thesis
    proof (cases ev)
      case (Ev_response hs status)
      then have "resp_open a = None" using fr B by (simp add: event_frame_def)
      then show ?thesis
        using t1 r p by (auto simp: response_event_def Ev_response Some a1_def began_def replied_def reply_key_def)
    next
      case Ev_end_of_message
      then have r1: "replied out a1" using r Some by (simp add: a1_def began_def replied_def)
      obtain m where m: "resp_open a1 = Some m" using fr B Ev_end_of_message by (auto simp: event_frame_def a1_def)
      have "response_end (with_log h) ts a1 = (go, new, b)" using t1 Ev_end_of_message by (simp add: response_event_def)
      from replied_end[OF al _ r1 m this] p show ?thesis by (simp add: a1_def)
    qed (use t1 r p Some in \<open>auto simp: response_event_def a1_def began_def replied_def\<close>)
  qed
qed

lemma replied_turn:
  assumes f: "framed h K B" and i: "pairing_inv K B n out a" and r: "replied out a"
    and t: "response_turn (with_log h) ts a = (go, new, b)"
  shows "replied (out @ new) b"
proof (cases "resp_dead a \<or> primed a")
  case True
  then show ?thesis using t r replied_next[OF f i r] by (auto simp: response_turn_def split: if_splits)
next
  case False
  obtain ready a1 where p: "prime (with_log h) a = (ready, a1)" by (cases "prime (with_log h) a")
  from prime_pairs[OF f i _ _ p] False have a1: "pairing_inv K B n out a1" "ready \<Longrightarrow> primed a1 \<and> \<not> resp_dead a1"
    by auto
  have "replied out a1" using replied_prime[OF r _ _ p] False by blast
  then show ?thesis
    using t p False replied_next[OF f a1(1)] a1(2) by (auto simp: response_turn_def split: bool.splits)
qed

section \<open>Runs\<close>

definition run_inv ::
  "('c \<Rightarrow> bool) \<Rightarrow> ('c \<Rightarrow> bool) \<Rightarrow> nat \<Rightarrow> exchange list \<Rightarrow> ('c \<times> cycle_log list) assembler \<Rightarrow> bool" where
  "run_inv K B n out a \<longleftrightarrow> pairing_inv K B n out a \<and> replied out a"

lemma pump_responses_pairs:
  assumes c: "consuming h rank" and f: "framed h K B" and i: "run_inv K B n out a"
  shows "\<exists>new b. pump_responses (with_log h) ts a = Some (new, b) \<and> run_inv K B n (out @ new) b"
proof -
  have step: "run_inv K B n (out @ x @ new) b"
    if "run_inv K B n (out @ x) a" "response_turn (with_log h) ts a = (go, new, b)" for x a go new b
    using response_turn_pairs[OF f _ that(2), of n "out @ x"] replied_turn[OF f _ _ that(2), of n "out @ x"] that(1)
    by (simp add: run_inv_def)
  show ?thesis
    by (rule pump_responses_total[OF consuming_with_log[OF c], where I = "\<lambda>x. run_inv K B n (out @ x)"])
      (use i step in \<open>fastforce+\<close>)
qed

primrec server_bytes :: "feed list \<Rightarrow> nat" where
  "server_bytes [] = 0"
| "server_bytes (f # fs) = (case f of From_client _ _ \<Rightarrow> 0 | From_server d _ \<Rightarrow> length d) + server_bytes fs"

lemma feed_client_pairs:
  assumes c: "consuming h rank" and f: "framed h K B" and i: "run_inv K B n out a"
  shows "\<exists>new b. feed_client (with_log h) d ts a = Some (new, b) \<and> run_inv K B n (out @ new) b"
proof -
  have ip: "pairing_inv K B n out a" "replied out a" using i by (simp_all add: run_inv_def)
  have "\<exists>b. (if d \<noteq> [] \<and> \<not> req_dead a
      then pump_requests (with_log h) ts (a\<lparr>req_conn := h_receive_data (with_log h) d (req_conn a)\<rparr>)
      else Some a) = Some b \<and> run_inv K B n out b"
  proof (cases "d \<noteq> [] \<and> \<not> req_dead a")
    case True
    define a1 where "a1 = a\<lparr>req_conn := h_receive_data (with_log h) d (req_conn a)\<rparr>"
    have fr: "request_frame (K \<circ> fst) (B \<circ> fst) a1"
      using ip(1) framedD(2)[OF f, of "fst (req_conn a)" d] True
      by (auto simp: pairing_inv_def request_frame_def a1_def with_log_simps same_frame_def)
    have q: "queues a a1" using True by (simp add: queues_def a1_def unanswered_methods_eq)
    with fr have i1: "pairing_inv K B n out a1" using queues_pairing_inv[OF ip(1)] by blast
    obtain b where b: "pump_requests (with_log h) ts a1 = Some b" "queues a1 b" "request_frame (K \<circ> fst) (B \<circ> fst) b"
      using pump_requests_pairs[OF consuming_with_log[OF c] framed_with_log[OF f] fr] by blast
    have "replied out b" using replied_queues[OF replied_queues[OF ip(2) q] b(2)] .
    with b queues_pairing_inv[OF i1] True show ?thesis by (simp add: a1_def run_inv_def)
  next
    case False
    with i show ?thesis by auto
  qed
  then show ?thesis
    using pump_responses_pairs[OF c f] by (fastforce simp: feed_client_def)
qed

lemma feed_server_pairs:
  assumes c: "consuming h rank" and f: "framed h K B" and i: "run_inv K B (n + length d) out a"
  shows "\<exists>new b. feed_server (with_log h) d ts a = Some (new, b) \<and> run_inv K B n (out @ new) b"
proof -
  define a1 where "a1 = accept_server_bytes (with_log h) d ts a"
  have a1: "waiting a1 = waiting a" "methods a1 = methods a" "req_open a1 = req_open a"
      "req_dead a1 = req_dead a" "req_conn a1 = req_conn a" "primed a1 = primed a"
      "snd (resp_conn a1) = snd (resp_conn a)" "unprimed_bytes a1 \<le> unprimed_bytes a + length d"
      "resp_open a1 = resp_open a" "resp_dead a1 = resp_dead a"
      "same_frame K B (fst (resp_conn a)) (fst (resp_conn a1))"
    using framedD(2)[OF f, of "fst (resp_conn a)" d]
    by (auto simp: a1_def accept_server_bytes_def with_log_simps same_frame_def)
  have "pairing_inv K B n out a1"
    using i a1(8-11) pairing_cong[OF a1(1-7)] by (auto simp: run_inv_def pairing_inv_def same_frame_def)
  moreover have "replied out a1" using i a1 by (simp add: run_inv_def replied_def requests_over_def)
  ultimately have "run_inv K B n out a1" by (simp add: run_inv_def)
  from pump_responses_pairs[OF c f this] show ?thesis by (simp add: feed_server_def a1_def)
qed

lemma run_feeds_pairs:
  assumes c: "consuming h rank" and f: "framed h K B" and i: "run_inv K B (server_bytes fs) out a"
  shows "\<exists>new b. run_feeds (with_log h) fs a = Some (new, b) \<and> run_inv K B 0 (out @ new) b"
  using i
proof (induction fs arbitrary: out a)
  case Nil
  then show ?case by simp
next
  case (Cons x fs)
  have "\<exists>new b. feed_one (with_log h) x a = Some (new, b) \<and> run_inv K B (server_bytes fs) (out @ new) b"
    using Cons.prems feed_client_pairs[OF c f] feed_server_pairs[OF c f]
    by (cases x) (simp_all add: add.commute)
  then obtain new b where x: "feed_one (with_log h) x a = Some (new, b)"
      "run_inv K B (server_bytes fs) (out @ new) b" by blast
  from Cons.IH[OF x(2)] x(1) show ?case by fastforce
qed

lemma new_run_inv:
  "\<not> K server \<Longrightarrow> \<not> B server \<Longrightarrow> K client \<Longrightarrow> \<not> B client \<Longrightarrow> n \<le> MAX_UNPRIMED_RESPONSE_BYTES \<Longrightarrow>
     run_inv K B n [] (new_assembler (server, []) (client, []))"
  by (simp add: run_inv_def pairing_inv_def new_assembler_def request_frame_def paired_def aligned_def
      requests_over_def unanswered_methods_eq replied_def)

text \<open>Finishing: the response that is open is closed, and every request left is filed without a response.\<close>

lemma finish_pump_pairs:
  assumes c: "consuming h rank" and f: "framed h K B" and i: "run_inv K B 0 out a"
  shows "\<exists>new b. (if resp_dead a then Some ([], a)
      else pump_responses (with_log h) ts
        (a\<lparr>resp_conn := h_receive_data (with_log h) [] (resp_conn a), server_pending := True\<rparr>)) = Some (new, b) \<and>
    run_inv K B 0 (out @ new) b"
proof (cases "resp_dead a")
  case False
  define a1 where "a1 = a\<lparr>resp_conn := h_receive_data (with_log h) [] (resp_conn a), server_pending := True\<rparr>"
  have a1: "waiting a1 = waiting a" "methods a1 = methods a" "req_open a1 = req_open a"
      "req_dead a1 = req_dead a" "req_conn a1 = req_conn a" "primed a1 = primed a"
      "snd (resp_conn a1) = snd (resp_conn a)" "unprimed_bytes a1 = unprimed_bytes a"
      "resp_open a1 = resp_open a" "resp_dead a1 = resp_dead a"
      "same_frame K B (fst (resp_conn a)) (fst (resp_conn a1))"
    using framedD(2)[OF f, of "fst (resp_conn a)" "[]"] by (auto simp: a1_def with_log_simps)
  have "pairing_inv K B 0 out a1"
    using i a1(8-11) pairing_cong[OF a1(1-7)] by (auto simp: run_inv_def pairing_inv_def same_frame_def)
  moreover have "replied out a1" using i a1 by (simp add: run_inv_def replied_def requests_over_def)
  ultimately have "run_inv K B 0 out a1" by (simp add: run_inv_def)
  from pump_responses_pairs[OF c f this] False show ?thesis by (simp add: a1_def)
qed (use i in simp)

lemma salvage_pairs:
  assumes i: "run_inv K B 0 out a" and s: "salvage ts a = (late, b)"
  shows "\<exists>cut rest. late = cut @ rest \<and> (\<forall>x \<in> set rest. ex_response x = None) \<and>
    prefix (map exchange_method (out @ cut)) (map Some (primings (snd (resp_conn b)))) \<and>
    prefix (map reply_of (out @ cut)) (map Some (replies (snd (resp_conn b)))) \<and>
    (map Some (replies (snd (resp_conn b))) = map reply_of (out @ cut) \<or> req_dead b \<and> rest = [])"
proof -
  obtain cut a1 where c: "close_open_response ts a = (cut, a1)" by (cases "close_open_response ts a")
  have r: "replied out a" and p: "pairing_inv K B 0 out a" using i by (simp_all add: run_inv_def)
  have "prefix (map exchange_method (out @ cut)) (map Some (primings (snd (resp_conn a1)))) \<and> replied (out @ cut) a1 \<and>
      resp_open a1 = None \<and> resp_conn a1 = resp_conn a"
  proof (cases "resp_open a")
    case None
    then show ?thesis using c p r by (auto simp: close_open_response_def pairing_inv_def paired_def)
  next
    case (Some m)
    then have d: "\<not> resp_dead a" "primed a" using r by (simp_all add: replied_def)
    then have al: "aligned out a" using p by (simp add: pairing_inv_def)
    have c1: "close_open_response ts (a\<lparr>resp_dead := resp_dead a\<rparr>) = (cut, a1)" using c by simp
    have conn: "resp_conn a1 = resp_conn a"
      using c Some by (auto simp: close_open_response_def pair_def split: list.splits prod.splits)
    have "prefix (map exchange_method (out @ cut)) (map Some (primings (snd (resp_conn a))))"
    proof (cases "waiting a")
      case Nil
      then show ?thesis using c Some p by (auto simp: close_open_response_def pair_def pairing_inv_def paired_def)
    next
      case (Cons w ws)
      then have "map exchange_method cut = [hd (unanswered_methods a)]"
        using c Some by (auto simp: close_open_response_def pair_def unanswered_methods_eq request_method_def
            split: prod.splits)
      then show ?thesis using al d Cons by (auto simp: aligned_def requests_over_def)
    qed
    with replied_close[OF al r c1] conn show ?thesis by simp
  qed
  note a1 = this
  define rest where "rest = map (unanswered ts) (waiting a1) @ (case req_open a1 of None \<Rightarrow> []
      | Some m \<Rightarrow> [unanswered ts (m\<lparr>hm_body := req_body a1, hm_truncated := True\<rparr>, req_started_at a1)])"
  have l: "late = cut @ rest" "b = a1\<lparr>waiting := [], req_open := None\<rparr>"
    using s c by (auto simp: salvage_def rest_def)
  have n: "\<forall>x \<in> set rest. ex_response x = None" by (auto simp: rest_def unanswered_def split: option.splits)
  have o: "requests_over a1 \<Longrightarrow> req_dead b \<and> rest = []" by (simp add: requests_over_def l(2) rest_def)
  show ?thesis
    using a1 n o unfolding l by (intro exI[of _ cut] exI[of _ rest]) (auto simp: replied_def)
qed

lemma session_pairs:
  assumes c: "consuming h rank" and f: "framed h K B" and i: "run_inv K B (server_bytes fs) [] a0"
  shows "\<exists>out a late b. run_feeds (with_log h) fs a0 = Some (out, a) \<and>
    finish_assembler (with_log h) ts a = Some (late, b) \<and>
    (\<exists>answered rest. out @ late = answered @ rest \<and> (\<forall>x \<in> set rest. ex_response x = None) \<and>
      prefix (map exchange_method answered) (map Some (primings (snd (resp_conn b)))) \<and>
      prefix (map reply_of answered) (map Some (replies (snd (resp_conn b)))) \<and>
      (map Some (replies (snd (resp_conn b))) = map reply_of answered \<or> req_dead b \<and> rest = []))"
proof -
  obtain out a where o: "run_feeds (with_log h) fs a0 = Some (out, a)" "run_inv K B 0 out a"
    using run_feeds_pairs[OF c f i] by auto
  obtain new a1 where n: "(if resp_dead a then Some ([], a)
      else pump_responses (with_log h) ts
        (a\<lparr>resp_conn := h_receive_data (with_log h) [] (resp_conn a), server_pending := True\<rparr>)) = Some (new, a1)"
      "run_inv K B 0 (out @ new) a1"
    using finish_pump_pairs[OF c f o(2)] by blast
  obtain sv b where s: "salvage ts a1 = (sv, b)" by (cases "salvage ts a1")
  have fin: "finish_assembler (with_log h) ts a = Some (new @ sv, b)"
    using n(1) s by (simp add: finish_assembler_def)
  obtain cut rest where p: "sv = cut @ rest" "\<forall>x \<in> set rest. ex_response x = None"
    "prefix (map exchange_method ((out @ new) @ cut)) (map Some (primings (snd (resp_conn b))))"
    "prefix (map reply_of ((out @ new) @ cut)) (map Some (replies (snd (resp_conn b))))"
    "map Some (replies (snd (resp_conn b))) = map reply_of ((out @ new) @ cut) \<or> req_dead b \<and> rest = []"
    using salvage_pairs[OF n(2) s] by blast
  moreover have "out @ new @ sv = ((out @ new) @ cut) @ rest" using p(1) by simp
  ultimately show ?thesis using o(1) fin by blast
qed

text \<open>A framing library with roles: the first flag is the role, the second whether a message is open.\<close>

type_synonym sample_conn = "bool \<times> bool \<times> bytes"

fun sample_next :: "sample_conn \<Rightarrow> h11_event option \<times> sample_conn" where
  "sample_next (k, i, []) = (Some Need_data, k, i, [])"
| "sample_next (k, i, b # r) =
     (if b = 1 \<and> \<not> k \<and> \<not> i then (Some (Ev_request [] [71, 69, 84] [47]), k, True, r)
      else if b = 4 \<and> k \<and> \<not> i then (Some (Ev_response [] 200), k, True, r)
      else if b = 2 then (Some (Ev_data [b]), k, i, r)
      else if b = 3 \<and> i then (Some Ev_end_of_message, k, False, r)
      else (None, k, i, r))"

definition framed_sample :: "sample_conn h11" where
  "framed_sample =
     \<lparr>h_receive_data = (\<lambda>d (k, i, c). (k, i, c @ d)), h_next_event = sample_next,
      h_send_no_content = Some, h_send_request = (\<lambda>_. Some), h_send_end = Some,
      h_start_next_cycle = Some\<rparr>"

lemma framed_sample_framed: "framed framed_sample fst (fst \<circ> snd)"
proof -
  have "sample_next c = (Some ev, c') \<Longrightarrow> event_frame fst (fst \<circ> snd) ev c c'" for c ev c'
    by (cases c rule: sample_next.cases) (auto simp: event_frame_def split: if_splits)
  then show ?thesis by (auto simp: framed_def framed_sample_def same_frame_def)
qed

lemma framed_sample_consuming: "consuming framed_sample (length \<circ> snd \<circ> snd)"
proof -
  have "sample_next c = (Some ev, c') \<Longrightarrow> ev \<notin> {Need_data, Paused, Connection_closed} \<Longrightarrow>
      (length \<circ> snd \<circ> snd) c' < (length \<circ> snd \<circ> snd) c" for c ev c'
    by (cases c rule: sample_next.cases) (auto split: if_splits)
  then show ?thesis unfolding consuming_def by (auto simp: framed_sample_def)
qed

text \<open>C36: Responses answer requests in order. Over a connection whose server bytes number at most
  MAX_UNPRIMED_RESPONSE_BYTES (2 MiB), with a framing library that keeps the roles and message boundaries
  apart, and however the two directions interleave, feeding and finishing return. The exchanges are the
  requests of the client's bytes, in order; they are those with a response, then those without one. The k-th
  exchange with a response has the k-th response the framing library read, by its headers and status, and
  that response cycle was primed with the method of this k-th request. Every response read is in an exchange,
  unless every request has been answered and the request direction is dead.\<close>

theorem responses_pair_in_order:
  assumes "consuming h rank" "framed h K B" "\<not> K server" "\<not> B server" "K client" "\<not> B client"
    "server_bytes fs \<le> MAX_UNPRIMED_RESPONSE_BYTES"
  shows "\<exists>out a late b reqs. run_feeds (with_log h) fs (new_assembler (server, []) (client, [])) = Some (out, a) \<and>
    finish_assembler (with_log h) ts a = Some (late, b) \<and>
    requests_of (with_log h) (server, []) (client, []) fs = Some reqs \<and> map asked (out @ late) = reqs \<and>
    (\<exists>answered rest. out @ late = answered @ rest \<and> (\<forall>x \<in> set rest. ex_response x = None) \<and>
      prefix (map exchange_method answered) (map Some (primings (snd (resp_conn b)))) \<and>
      prefix (map reply_of answered) (map Some (replies (snd (resp_conn b)))) \<and>
      (map Some (replies (snd (resp_conn b))) = map reply_of answered \<or> req_dead b \<and> rest = []))"
proof -
  have "run_inv K B (server_bytes fs) [] (new_assembler (server, []) (client, []))"
    using assms(3-7) by (rule new_run_inv)
  from session_pairs[OF assms(1,2) this, of ts] obtain out a late b where
    r: "run_feeds (with_log h) fs (new_assembler (server, []) (client, [])) = Some (out, a)"
      "finish_assembler (with_log h) ts a = Some (late, b)"
    and p: "\<exists>answered rest. out @ late = answered @ rest \<and> (\<forall>x \<in> set rest. ex_response x = None) \<and>
      prefix (map exchange_method answered) (map Some (primings (snd (resp_conn b)))) \<and>
      prefix (map reply_of answered) (map Some (replies (snd (resp_conn b)))) \<and>
      (map Some (replies (snd (resp_conn b))) = map reply_of answered \<or> req_dead b \<and> rest = [])"
    by blast
  obtain reqs where "requests_of (with_log h) (server, []) (client, []) fs = Some reqs" "map asked (out @ late) = reqs"
    using session_requests[OF consuming_with_log[OF assms(1)], where server = "(server, [])" and client = "(client, [])" and fs = fs and ts = ts] r
    by (auto simp: http_session_def)
  with r p show ?thesis by blast
qed

theorem responses_pair_in_order_witness:
  "\<exists>out a late b reqs. run_feeds (with_log framed_sample)
       [From_server [4, 2, 3] None, From_client [1, 3] None, From_client [1, 3] None, From_server [4, 3] None]
       (new_assembler ((False, False, []), []) ((True, False, []), [])) = Some (out, a) \<and>
    finish_assembler (with_log framed_sample) None a = Some (late, b) \<and>
    requests_of (with_log framed_sample) ((False, False, []), []) ((True, False, []), [])
      [From_server [4, 2, 3] None, From_client [1, 3] None, From_client [1, 3] None, From_server [4, 3] None] = Some reqs \<and>
    map asked (out @ late) = reqs \<and>
    (\<exists>answered rest. out @ late = answered @ rest \<and> (\<forall>x \<in> set rest. ex_response x = None) \<and>
      prefix (map exchange_method answered) (map Some (primings (snd (resp_conn b)))) \<and>
      prefix (map reply_of answered) (map Some (replies (snd (resp_conn b)))) \<and>
      (map Some (replies (snd (resp_conn b))) = map reply_of answered \<or> req_dead b \<and> rest = []))"
  by (rule responses_pair_in_order[OF framed_sample_consuming framed_sample_framed])
    (simp_all add: MAX_UNPRIMED_RESPONSE_BYTES_def)

section \<open>What an unanswered connection holds\<close>

definition stalled :: "'c assembler \<Rightarrow> bool" where
  "stalled a \<longleftrightarrow> \<not> primed a \<and> \<not> resp_dead a"

lemma response_turn_stalled:
  assumes "response_turn h ts a = (False, new, b)" "stalled b"
  shows "\<not> no_method_is_coming b"
  using assms
  by (auto simp: response_turn_def next_response_def response_event_def response_end_def die_responses_def
      next_response_cycle_def close_open_response_def pair_def prime_def prime_method_def stalled_def
      no_method_is_coming_def
      split: if_splits prod.splits option.splits h11_event.splits list.splits bool.splits)

lemma pump_responses_stalled:
  assumes "consuming h rank" "pump_responses h ts a = Some (out, b)" "stalled b"
  shows "\<not> no_method_is_coming b"
proof -
  have "\<exists>out b. pump_responses h ts a = Some (out, b) \<and> (stalled b \<longrightarrow> \<not> no_method_is_coming b)"
    by (rule pump_responses_total[OF assms(1), where I = "\<lambda>_ _. True"])
      (auto dest: response_turn_stalled)
  with assms(2,3) show ?thesis by simp
qed

lemma feed_one_total:
  assumes "consuming h rank"
  shows "\<exists>out b. feed_one h f a = Some (out, b)"
  using feed_one_follows[OF assms, of "[]" a a f] by (auto simp: follows_def)

text \<open>Response bytes are never hoarded. Feeding bytes of either direction returns, and afterwards a
connection whose response parser is alive and still waits for a method holds at most the bound of
unframed response bytes, and its request direction is alive: it never waits for a method that can no
longer come.\<close>

theorem unprimed_bytes_bounded:
  assumes "consuming h rank"
  shows "\<exists>out b. feed_one h f a = Some (out, b) \<and>
           (primed b \<or> resp_dead b \<or> unprimed_bytes b \<le> MAX_UNPRIMED_RESPONSE_BYTES \<and> \<not> req_dead b)"
proof -
  obtain out b where b: "feed_one h f a = Some (out, b)" using feed_one_total[OF assms] by blast
  then obtain ts a' where "pump_responses h ts a' = Some (out, b)"
    by (cases f) (auto simp: feed_client_def feed_server_def bind_eq_Some_conv)
  from pump_responses_stalled[OF assms this] b show ?thesis
    by (auto simp: stalled_def no_method_is_coming_def)
qed

theorem unprimed_bytes_bounded_witness:
  "\<exists>out b. feed_one framed_sample (From_server [4, 2] None)
       (new_assembler (False, False, []) (True, False, [])) = Some (out, b) \<and>
     (primed b \<or> resp_dead b \<or> unprimed_bytes b \<le> MAX_UNPRIMED_RESPONSE_BYTES \<and> \<not> req_dead b)"
  by (rule unprimed_bytes_bounded[OF framed_sample_consuming])

end
