(* ===== verification/Gumbel.thy ===== *)
theory Gumbel
  imports Complex_Main "HOL-Library.Option_ord"
begin

text \<open>
  \<^verbatim>\<open>difr/difr/gumbel_verify.py\<close>: replaying the sampling of a token. A language model's next token is
  drawn with the Gumbel-Max trick from its logits and a row of exponential noise; the verifier draws
  the same noise from the same seed, and measures by how much the claimed token misses the maximum.

  Tensors are lists of rows and every operation works row by row. Arithmetic is exact: rounding to
  float32 is not modelled. A logit is a real or minus infinity (\<open>None\<close>), and \<open>fl\<close> is a float result
  that may be infinite or no number. \<open>torch.sort\<close> leaves the order of equal elements open; here it is
  stable. The noise is an argument: torch's generator is not in the repository.
\<close>

type_synonym logit = "real option"

datatype fl = Fin real | Pos_inf | Neg_inf | Not_a_number

section \<open>Tensor operations on a row\<close>

text \<open>\<open>argmax\<close>: the first index of the maximum.\<close>

definition argmax :: "'a::linorder list \<Rightarrow> nat" where
  "argmax xs = length (takeWhile (\<lambda>x. x < Max (set xs)) xs)"

definition exp_logit :: "logit \<Rightarrow> real" where
  "exp_logit x = (case x of None \<Rightarrow> 0 | Some r \<Rightarrow> exp r)"

text \<open>\<open>softmax\<close> of a row that is minus infinity throughout is no number throughout, here \<open>None\<close>.\<close>

definition softmax :: "logit list \<Rightarrow> real list option" where
  "softmax xs =
     (if list_all (\<lambda>x. x = None) xs then None
      else Some (map (\<lambda>x. exp_logit x / sum_list (map exp_logit xs)) xs))"

primrec cumsum :: "real \<Rightarrow> real list \<Rightarrow> real list" where
  "cumsum acc [] = []"
| "cumsum acc (x # xs) = (acc + x) # cumsum (acc + x) xs"

definition sort_order :: "logit list \<Rightarrow> nat list" where
  "sort_order xs = sort_key (\<lambda>i. xs ! i) [0..<length xs]"

text \<open>\<open>scatter\<close>: the values of the sorted row go back to the places they came from.\<close>

definition scatter :: "nat list \<Rightarrow> logit list \<Rightarrow> logit list \<Rightarrow> logit list" where
  "scatter idx vals xs = fold (\<lambda>(i, v) r. r[i := v]) (zip idx vals) xs"

section \<open>Top-k and top-p\<close>

text \<open>\<open>k\<close> beyond the width of the row makes \<open>gather\<close> raise.\<close>

definition top_k_sorted :: "int \<Rightarrow> logit list \<Rightarrow> logit list option" where
  "top_k_sorted k xs =
     (if k \<le> 0 then Some xs
      else if k > int (length xs) then None
      else Some (map (\<lambda>x. if x < xs ! (length xs - nat k) then None else x) xs))"

definition top_p_sorted :: "real \<Rightarrow> logit list \<Rightarrow> logit list" where
  "top_p_sorted p xs =
     (case softmax xs of
        None \<Rightarrow> xs
      | Some probs \<Rightarrow>
          map (\<lambda>(i, x, c). if c \<le> 1 - p \<and> i \<noteq> length xs - 1 then None else x)
            (zip [0..<length xs] (zip xs (cumsum 0 probs))))"

definition apply_top_k_top_p :: "int \<Rightarrow> real \<Rightarrow> logit list \<Rightarrow> logit list option" where
  "apply_top_k_top_p k p xs =
     (let idx = sort_order xs; sorted = map (\<lambda>i. xs ! i) idx in
      map_option (\<lambda>ys. scatter idx (top_p_sorted p ys) xs) (top_k_sorted k sorted))"

section \<open>Probabilities\<close>

definition keep_one_token :: "logit list \<Rightarrow> nat \<Rightarrow> logit list" where
  "keep_one_token xs i = (replicate (length xs) None)[i := xs ! i]"

definition scale_logits :: "real \<Rightarrow> logit list \<Rightarrow> logit list" where
  "scale_logits t xs = map (map_option (\<lambda>x. x / max t (1 / 10 ^ 8))) xs"

definition get_probs :: "real \<Rightarrow> int \<Rightarrow> real \<Rightarrow> logit list \<Rightarrow> real list option option" where
  "get_probs t k p xs =
     (let x = (if t > 0 then scale_logits t xs else keep_one_token xs (argmax xs)) in
      map_option softmax (apply_top_k_top_p k p x))"

section \<open>Margins\<close>

definition exponential_to_gumbel :: "real \<Rightarrow> real \<Rightarrow> real" where
  "exponential_to_gumbel e epsilon = - ln (max e epsilon)"

definition noised_logits :: "real \<Rightarrow> real list \<Rightarrow> logit list \<Rightarrow> logit list \<Rightarrow> logit list" where
  "noised_logits t noise filtered xs =
     map (\<lambda>(x, e, f). if f = None then None
                       else map_option (\<lambda>r. r + exponential_to_gumbel e 0 * t) x)
       (zip xs (zip noise filtered))"

definition logit_minus :: "logit \<Rightarrow> logit \<Rightarrow> fl" where
  "logit_minus x y =
     (case (x, y) of
        (Some a, Some b) \<Rightarrow> Fin (a - b)
      | (Some _, None) \<Rightarrow> Pos_inf
      | (None, Some _) \<Rightarrow> Neg_inf
      | (None, None) \<Rightarrow> Not_a_number)"

definition compute_margin :: "real \<Rightarrow> real list \<Rightarrow> logit list \<Rightarrow> nat \<Rightarrow> logit list \<Rightarrow> fl" where
  "compute_margin t noise filtered gold xs =
     (let noised = noised_logits t noise filtered xs in
      logit_minus (noised ! argmax noised) (noised ! gold))"

section \<open>Verification of a row\<close>

definition gumbel_scores :: "real list \<Rightarrow> real list \<Rightarrow> real list" where
  "gumbel_scores probs noise = map2 (/) probs noise"

text \<open>Scores that are no number have their maximum at the first place.\<close>

definition predicted_id :: "real list option \<Rightarrow> real list \<Rightarrow> nat" where
  "predicted_id probs noise = (case probs of None \<Rightarrow> 0 | Some ps \<Rightarrow> argmax (gumbel_scores ps noise))"

definition count_above :: "'a::linorder \<Rightarrow> 'a list \<Rightarrow> nat" where
  "count_above y xs = length (filter (\<lambda>x. x > y) xs)"

definition gumbel_rank :: "real list option \<Rightarrow> real list \<Rightarrow> logit list \<Rightarrow> nat \<Rightarrow> fl" where
  "gumbel_rank probs noise filtered gold =
     (if filtered ! gold = None then Pos_inf
      else case probs of
          None \<Rightarrow> Fin 0
        | Some ps \<Rightarrow> let scores = gumbel_scores ps noise in
            Fin (real (count_above (scores ! gold) scores)))"

text \<open>\<open>verify_vllm_gumbel_max\<close> for one row: prediction, Gumbel rank and margin; \<open>None\<close> when it raises.\<close>

definition verify_row ::
  "real \<Rightarrow> int \<Rightarrow> real \<Rightarrow> real list \<Rightarrow> real list option \<Rightarrow> nat \<Rightarrow> logit list \<Rightarrow> (nat \<times> fl \<times> fl) option" where
  "verify_row t k p noise probs gold xs =
     map_option
       (\<lambda>filtered. (predicted_id probs noise, gumbel_rank probs noise filtered gold,
                    compute_margin t noise filtered gold xs))
       (apply_top_k_top_p k p (if t > 0 then scale_logits t xs else xs))"

record token_metrics =
  tk_exact_match :: bool
  tk_prob :: fl
  tk_margin :: fl
  tk_logit_rank :: real
  tk_gumbel_rank :: fl
  tk_actual :: int
  tk_predicted :: nat

end
