(* ===== verification/Json.thy ===== *)
theory Json
  imports Prelude "HOL-Library.List_Lexorder"
begin

text \<open>
  JSON as Python's \<^verbatim>\<open>json\<close> module has it, for the bodies and payloads the services exchange: the values
  \<open>json.loads\<close> gives, the canonical text \<open>json.dumps(obj, sort_keys=True, separators=(",", ":"))\<close> and
  the parser.

  Text is a list of code points (\<open>uni\<close> turns a literal into one). A float is represented by its
  \<open>repr\<close>, which determines it; what \<open>repr(float(s))\<close> makes of another literal \<open>s\<close> is the argument
  \<open>canon\<close> of the parser. The interpreter's limits on recursion and on the digits of an integer literal
  are not modelled.
\<close>

type_synonym ustr = "nat list"

definition uni :: "string \<Rightarrow> ustr" where
  "uni s = map of_char s"

lemma uni_inj: "uni s = uni t \<longleftrightarrow> s = t"
  by (auto simp: uni_def dest: map_injective[OF _ injI])

datatype json =
    JNull
  | JBool bool
  | JInt int
  | JFloat "ustr"
  | JStr "ustr"
  | JList "json list"
  | JDict "(ustr \<times> json) list"

section \<open>Python's view of the values\<close>

fun truthy :: "json \<Rightarrow> bool" where
  "truthy JNull = False"
| "truthy (JBool b) = b"
| "truthy (JInt i) = (i \<noteq> 0)"
| "truthy (JFloat f) = (f \<notin> {uni ''0.0'', uni ''-0.0''})"
| "truthy (JStr s) = (s \<noteq> [])"
| "truthy (JList xs) = (xs \<noteq> [])"
| "truthy (JDict d) = (d \<noteq> [])"

text \<open>\<open>x or y\<close>\<close>

definition jor :: "json \<Rightarrow> json \<Rightarrow> json" where
  "jor x y = (if truthy x then x else y)"

text \<open>\<open>d.get(k)\<close>: a missing key reads as \<open>None\<close>.\<close>

definition dget :: "(ustr \<times> json) list \<Rightarrow> string \<Rightarrow> json" where
  "dget d k = (case map_of d (uni k) of None \<Rightarrow> JNull | Some v \<Rightarrow> v)"

text \<open>\<open>isinstance(v, int)\<close> holds of booleans too.\<close>

fun is_int :: "json \<Rightarrow> bool" where
  "is_int (JInt _) = True"
| "is_int (JBool _) = True"
| "is_int _ = False"

fun is_dict :: "json \<Rightarrow> bool" where
  "is_dict (JDict _) = True"
| "is_dict _ = False"

fun is_list :: "json \<Rightarrow> bool" where
  "is_list (JList _) = True"
| "is_list _ = False"

fun is_str :: "json \<Rightarrow> bool" where
  "is_str (JStr _) = True"
| "is_str _ = False"

section \<open>Writing\<close>

text \<open>Keys are sorted at every level, and then rendered in order.\<close>

primrec sort_json :: "json \<Rightarrow> json" where
  "sort_json JNull = JNull"
| "sort_json (JBool b) = JBool b"
| "sort_json (JInt i) = JInt i"
| "sort_json (JFloat f) = JFloat f"
| "sort_json (JStr s) = JStr s"
| "sort_json (JList xs) = JList (map sort_json xs)"
| "sort_json (JDict d) = JDict (sort_key fst (map (map_prod id sort_json) d))"

definition render_hex4 :: "nat \<Rightarrow> ustr" where
  "render_hex4 n = map (\<lambda>k. of_char (digit_char (n div 16 ^ k mod 16))) [3, 2, 1, 0]"

definition unicode_escape :: "nat \<Rightarrow> ustr" where
  "unicode_escape n = 92 # 117 # render_hex4 n"

definition escape_char :: "nat \<Rightarrow> ustr" where
  "escape_char c =
     (if c = 34 \<or> c = 92 then [92, c]
      else if c = 10 then [92, 110]
      else if c = 13 then [92, 114]
      else if c = 9 then [92, 116]
      else if c = 8 then [92, 98]
      else if c = 12 then [92, 102]
      else if 32 \<le> c \<and> c \<le> 126 then [c]
      else if c < 65536 then unicode_escape c
      else unicode_escape (55296 + (c - 65536) div 1024) @ unicode_escape (56320 + (c - 65536) mod 1024))"

definition render_string :: "ustr \<Rightarrow> ustr" where
  "render_string s = 34 # concat (map escape_char s) @ [34]"

definition render_int :: "int \<Rightarrow> ustr" where
  "render_int i = (if i < 0 then [45] else []) @ uni (show_base 10 (nat \<bar>i\<bar>))"

fun comma_separated :: "ustr list \<Rightarrow> ustr" where
  "comma_separated [] = []"
| "comma_separated [x] = x"
| "comma_separated (x # y # xs) = x @ 44 # comma_separated (y # xs)"

text \<open>Python writes the floats that are no numbers differently from their \<open>repr\<close>.\<close>

definition render_float :: "ustr \<Rightarrow> ustr" where
  "render_float f =
     (if f = uni ''nan'' then uni ''NaN''
      else if f = uni ''inf'' then uni ''Infinity''
      else if f = uni ''-inf'' then uni ''-Infinity''
      else f)"

primrec render :: "json \<Rightarrow> ustr" where
  "render JNull = uni ''null''"
| "render (JBool b) = uni (if b then ''true'' else ''false'')"
| "render (JInt i) = render_int i"
| "render (JFloat f) = render_float f"
| "render (JStr s) = render_string s"
| "render (JList xs) = 91 # comma_separated (map render xs) @ [93]"
| "render (JDict d) =
     123 # comma_separated (map (\<lambda>kv. render_string (fst kv) @ 58 # snd kv) (map (map_prod id render) d))
     @ [125]"

text \<open>\<open>json.dumps(obj, sort_keys=True, separators=(",", ":")).encode("utf-8")\<close>; the text is ASCII.\<close>

definition canonical :: "json \<Rightarrow> bytes" where
  "canonical j = map word_of_nat (render (sort_json j))"

section \<open>Reading\<close>

definition json_space :: "nat \<Rightarrow> bool" where
  "json_space c \<longleftrightarrow> c \<in> {32, 9, 10, 13}"

definition skip_space :: "ustr \<Rightarrow> ustr" where
  "skip_space s = dropWhile json_space s"

definition is_digit :: "nat \<Rightarrow> bool" where
  "is_digit c \<longleftrightarrow> 48 \<le> c \<and> c \<le> 57"

definition after_prefix :: "ustr \<Rightarrow> ustr \<Rightarrow> ustr option" where
  "after_prefix p s = (if take (length p) s = p then Some (drop (length p) s) else None)"

definition hex_code :: "nat \<Rightarrow> nat option" where
  "hex_code c = (if c < 256 then hex_val (char_of c) else None)"

fun take_hex4 :: "ustr \<Rightarrow> (nat \<times> ustr) option" where
  "take_hex4 (a # b # c # d # s) =
     do { w \<leftarrow> hex_code a; x \<leftarrow> hex_code b; y \<leftarrow> hex_code c; z \<leftarrow> hex_code d;
          Some (((w * 16 + x) * 16 + y) * 16 + z, s) }"
| "take_hex4 _ = None"

text \<open>A second escape that makes a surrogate pair with the first.\<close>

fun take_low :: "ustr \<Rightarrow> (nat \<times> ustr) option" where
  "take_low (a # b # s) =
     (if a = 92 \<and> b = 117
      then do { (v, r) \<leftarrow> take_hex4 s; if 56320 \<le> v \<and> v < 57344 then Some (v, r) else None }
      else None)"
| "take_low _ = None"

definition short_escape :: "nat \<Rightarrow> nat option" where
  "short_escape c =
     (if c = 34 \<or> c = 92 \<or> c = 47 then Some c
      else if c = 110 then Some 10
      else if c = 114 then Some 13
      else if c = 116 then Some 9
      else if c = 98 then Some 8
      else if c = 102 then Some 12
      else None)"

text \<open>One escape sequence, after the backslash.\<close>

fun read_escape :: "ustr \<Rightarrow> (nat \<times> ustr) option" where
  "read_escape [] = None"
| "read_escape (e # s) =
     (case short_escape e of
        Some c \<Rightarrow> Some (c, s)
      | None \<Rightarrow>
          if e = 117 then do {
            (u, r) \<leftarrow> take_hex4 s;
            if 55296 \<le> u \<and> u < 56320 then
              (case take_low r of
                 Some (v, q) \<Rightarrow> Some (65536 + (u - 55296) * 1024 + (v - 56320), q)
               | None \<Rightarrow> Some (u, r))
            else Some (u, r) }
          else None)"

text \<open>The characters up to the closing quote; the fuel is the length of the text.\<close>

fun read_string :: "nat \<Rightarrow> ustr \<Rightarrow> (ustr \<times> ustr) option" where
  "read_string 0 s = None"
| "read_string (Suc n) [] = None"
| "read_string (Suc n) (c # s) =
     (if c = 34 then Some ([], s)
      else if c = 92 then do { (x, r) \<leftarrow> read_escape s; (t, q) \<leftarrow> read_string n r; Some (x # t, q) }
      else if c < 32 then None
      else do { (t, q) \<leftarrow> read_string n s; Some (c # t, q) })"

definition digits_value :: "ustr \<Rightarrow> nat" where
  "digits_value ds = fold (\<lambda>d n. n * 10 + (d - 48)) ds 0"

text \<open>The regular expression of a number: sign, integer part, fraction, exponent.\<close>

definition span_digits :: "ustr \<Rightarrow> ustr \<times> ustr" where
  "span_digits s = (takeWhile is_digit s, dropWhile is_digit s)"

definition read_sign :: "nat list \<Rightarrow> ustr \<Rightarrow> ustr \<times> ustr" where
  "read_sign signs s = (case s of c # r \<Rightarrow> if c \<in> set signs then ([c], r) else ([], s) | [] \<Rightarrow> ([], s))"

definition read_integer_part :: "ustr \<Rightarrow> (ustr \<times> ustr) option" where
  "read_integer_part s =
     (case s of
        [] \<Rightarrow> None
      | c # r \<Rightarrow> if c = 48 then Some ([c], r) else if is_digit c then Some (span_digits s) else None)"

definition read_fraction :: "ustr \<Rightarrow> ustr \<times> ustr" where
  "read_fraction s =
     (case s of
        [] \<Rightarrow> ([], s)
      | c # r \<Rightarrow> let (ds, q) = span_digits r in if c = 46 \<and> ds \<noteq> [] then (c # ds, q) else ([], s))"

definition read_exponent :: "ustr \<Rightarrow> ustr \<times> ustr" where
  "read_exponent s =
     (case s of
        [] \<Rightarrow> ([], s)
      | c # r \<Rightarrow> let (sg, q) = read_sign [43, 45] r; (ds, z) = span_digits q in
          if (c = 101 \<or> c = 69) \<and> ds \<noteq> [] then (c # sg @ ds, z) else ([], s))"

definition read_number :: "(ustr \<Rightarrow> ustr) \<Rightarrow> ustr \<Rightarrow> (json \<times> ustr) option" where
  "read_number canon s =
     (let (sg, r1) = read_sign [45] s in do {
        (ds, r2) \<leftarrow> read_integer_part r1;
        let (fr, r3) = read_fraction r2;
        let (ex, r4) = read_exponent r3;
        Some (if fr = [] \<and> ex = []
              then JInt (if sg = [] then int (digits_value ds) else - int (digits_value ds))
              else JFloat (canon (sg @ ds @ fr @ ex)), r4) })"

definition read_constant :: "ustr \<Rightarrow> (json \<times> ustr) option" where
  "read_constant s =
     (case after_prefix (uni ''null'') s of Some r \<Rightarrow> Some (JNull, r) | None \<Rightarrow>
      case after_prefix (uni ''true'') s of Some r \<Rightarrow> Some (JBool True, r) | None \<Rightarrow>
      case after_prefix (uni ''false'') s of Some r \<Rightarrow> Some (JBool False, r) | None \<Rightarrow>
      case after_prefix (uni ''NaN'') s of Some r \<Rightarrow> Some (JFloat (uni ''nan''), r) | None \<Rightarrow>
      case after_prefix (uni ''Infinity'') s of Some r \<Rightarrow> Some (JFloat (uni ''inf''), r) | None \<Rightarrow>
      map_option (\<lambda>r. (JFloat (uni ''-inf''), r)) (after_prefix (uni ''-Infinity'') s))"

text \<open>
  \<open>scan_once\<close>: a value, the items of an array, the members of an object, each with what is left of
  the text. The fuel bounds the nesting; the length of the text is always enough.
\<close>

fun read_value :: "(ustr \<Rightarrow> ustr) \<Rightarrow> nat \<Rightarrow> ustr \<Rightarrow> (json \<times> ustr) option"
  and read_items :: "(ustr \<Rightarrow> ustr) \<Rightarrow> nat \<Rightarrow> ustr \<Rightarrow> (json list \<times> ustr) option"
  and read_members :: "(ustr \<Rightarrow> ustr) \<Rightarrow> nat \<Rightarrow> ustr \<Rightarrow> ((ustr \<times> json) list \<times> ustr) option"
where
  "read_value canon 0 s = None"
| "read_value canon (Suc n) s =
     (case s of
        [] \<Rightarrow> None
      | c # r \<Rightarrow>
          if c = 34 then map_option (map_prod JStr id) (read_string (length r) r)
          else if c = 91 then
            (if take 1 (skip_space r) = [93] then Some (JList [], tl (skip_space r))
             else map_option (map_prod JList id) (read_items canon n (skip_space r)))
          else if c = 123 then
            (if take 1 (skip_space r) = [125] then Some (JDict [], tl (skip_space r))
             else map_option (map_prod (\<lambda>ps. JDict (fold (\<lambda>(k, v). dset k v) ps [])) id)
                    (read_members canon n (skip_space r)))
          else case read_constant s of
              Some vr \<Rightarrow> Some vr
            | None \<Rightarrow> read_number canon s)"
| "read_items canon 0 s = None"
| "read_items canon (Suc n) s = do {
     (v, r) \<leftarrow> read_value canon n s;
     (case skip_space r of
        [] \<Rightarrow> None
      | c # q \<Rightarrow>
          if c = 93 then Some ([v], q)
          else if c = 44 then
            do { (vs, z) \<leftarrow> read_items canon n (skip_space q); Some (v # vs, z) }
          else None) }"
| "read_members canon 0 s = None"
| "read_members canon (Suc n) s =
     (case s of
        [] \<Rightarrow> None
      | c # r \<Rightarrow>
          if c \<noteq> 34 then None
          else do {
            (k, r1) \<leftarrow> read_string (length r) r;
            (case skip_space r1 of
               [] \<Rightarrow> None
             | d # r2 \<Rightarrow>
                 if d \<noteq> 58 then None
                 else do {
                   (v, r3) \<leftarrow> read_value canon n (skip_space r2);
                   (case skip_space r3 of
                      [] \<Rightarrow> None
                    | e # q \<Rightarrow>
                        if e = 125 then Some ([(k, v)], q)
                        else if e = 44 then
                          do { (ps, z) \<leftarrow> read_members canon n (skip_space q); Some ((k, v) # ps, z) }
                        else None) }) })"

text \<open>\<open>json.loads\<close> of a text: one value with white space around it, and nothing else.\<close>

definition loads_text :: "(ustr \<Rightarrow> ustr) \<Rightarrow> ustr \<Rightarrow> json option" where
  "loads_text canon s =
     do { (v, r) \<leftarrow> read_value canon (Suc (length s)) (skip_space s);
          if skip_space r = [] then Some v else None }"

text \<open>
  \<open>json.loads\<close> of bytes first detects their encoding; ASCII without zero bytes is read as it is, and
  anything else is left to the argument \<open>other\<close>.
\<close>

type_synonym json_reader = "bytes \<Rightarrow> json option"

definition loads_bytes :: "(ustr \<Rightarrow> ustr) \<Rightarrow> json_reader \<Rightarrow> json_reader" where
  "loads_bytes canon other d =
     (if \<forall>b \<in> set d. 0 < unat b \<and> unat b < 128 then loads_text canon (map unat d) else other d)"

end
