(* ===== verification/Verifier.thy ===== *)
theory Verifier
  imports Gumbel Json
begin

text \<open>
  \<^verbatim>\<open>inf-ver-runner/app/verifier.py\<close> with the enumerations of \<^verbatim>\<open>models.py\<close>: the checks before a replay,
  the replay of the tokens (over \<open>Gumbel\<close>), the summary of their metrics, and the verdict.

  What is not in the repository is in the record \<open>verifier_env\<close>: vLLM's answer to the request for
  prompt logprobs (\<open>None\<close> when the call fails or brings none), the noise of torch's generator by seed,
  row and column, and the vocabulary width of the model's published configuration. Texts for people
  (\<open>reason\<close>, decoded tokens) and clock readings are left out of the response.
\<close>

section \<open>Requests and responses\<close>

datatype verification_status = PASS | FAIL | UNVERIFIABLE

datatype error_code =
    UNSUPPORTED_MODEL
  | TOKENIZATION_MISMATCH
  | SAMPLING_CONFIG_MISSING
  | VERIFICATION_TIMEOUT
  | VERIFIER_UNHEALTHY
  | INTERNAL_ERROR
  | INCONCLUSIVE
  | TOKEN_CAPTURE_INCOMPLETE
  | CONSTRAINED_DECODING

record sampling_config =
  sc_seed :: "int option"
  sc_temperature :: "real option"
  sc_top_k :: "int option"
  sc_top_p :: "real option"
  sc_max_output_tokens :: "int option"

record verify_request =
  rq_request_id :: ustr
  rq_prompt_token_ids :: "int list option"
  rq_output_token_ids :: "int list option"
  rq_model_name :: ustr
  rq_model_id :: "ustr option"
  rq_sampling :: sampling_config
  rq_usage_completion_tokens :: "int option"
  rq_constrained_decoding :: "bool option"

record metric_summary =
  ms_token_count :: nat
  ms_exact_match_count :: nat
  ms_exact_match_ratio :: real
  ms_margins :: "real list"
  ms_min_probability :: "real option"
  ms_mean_probability :: "real option"
  ms_mean_margin :: "real option"
  ms_max_margin :: "real option"
  ms_max_logit_rank :: "real option"
  ms_max_gumbel_rank :: "real option"

record output_token_comparison =
  oc_index :: nat
  oc_prover_token_id :: int
  oc_verifier_token_id :: int
  oc_exact_match :: bool
  oc_margin :: "real option"

record verify_response =
  rs_request_id :: ustr
  rs_status :: verification_status
  rs_error_code :: "error_code option"
  rs_match_target :: real
  rs_metrics :: metric_summary
  rs_verifier_model_id :: "ustr option"
  rs_prover_output_token_ids :: "int list"
  rs_verifier_output_token_ids :: "int list"
  rs_output_token_comparison :: "output_token_comparison list"

record verifier_cfg =
  vc_id :: ustr
  vc_display_name :: ustr
  vc_max_logprobs :: int
  vc_vocab_size :: "nat option"
  vc_margin_clip :: fl

type_synonym logprob_row = "(nat \<times> real) list option"

record verifier_env =
  ve_completion :: "int list \<Rightarrow> real \<Rightarrow> int \<Rightarrow> real \<Rightarrow> logprob_row list option"
  ve_noise :: "int \<Rightarrow> nat \<Rightarrow> nat \<Rightarrow> real"
  ve_hf_vocab_size :: nat

section \<open>Metrics\<close>

text \<open>\<open>self.margin_clip\<close> as the constructor sets it, and the clip a call uses.\<close>

definition own_clip :: "verifier_cfg \<Rightarrow> real" where
  "own_clip c = (case vc_margin_clip c of Fin r \<Rightarrow> if r > 0 then r else 10 | _ \<Rightarrow> 10)"

definition active_clip :: "verifier_cfg \<Rightarrow> fl option \<Rightarrow> real" where
  "active_clip c margin_clip =
     (case margin_clip of
        Some (Fin r) \<Rightarrow> if r > 0 then r else own_clip c
      | _ \<Rightarrow> own_clip c)"

definition clip_margin :: "real \<Rightarrow> fl \<Rightarrow> real" where
  "clip_margin clip m = (case m of Fin r \<Rightarrow> min r clip | _ \<Rightarrow> clip)"

definition empty_metrics :: "nat \<Rightarrow> metric_summary" where
  "empty_metrics output_tokens =
     \<lparr>ms_token_count = output_tokens, ms_exact_match_count = 0, ms_exact_match_ratio = 0, ms_margins = [],
      ms_min_probability = None, ms_mean_probability = None, ms_mean_margin = None, ms_max_margin = None,
      ms_max_logit_rank = None, ms_max_gumbel_rank = None\<rparr>"

definition finite_values :: "fl list \<Rightarrow> real list" where
  "finite_values xs = List.map_filter (\<lambda>x. case x of Fin r \<Rightarrow> Some r | _ \<Rightarrow> None) xs"

definition fmean :: "real list \<Rightarrow> real" where
  "fmean xs = sum_list xs / real (length xs)"

definition nonempty :: "('a list \<Rightarrow> 'b) \<Rightarrow> 'a list \<Rightarrow> 'b option" where
  "nonempty f xs = (if xs = [] then None else Some (f xs))"

text \<open>\<open>_summarize\<close>; the margins of the metrics are clipped already, and clipping again changes nothing.\<close>

definition summarize :: "real \<Rightarrow> token_metrics list \<Rightarrow> metric_summary" where
  "summarize clip ms =
     (if ms = [] then empty_metrics 0
      else let probs = finite_values (map tk_prob ms);
               margins = map (\<lambda>m. clip_margin clip (tk_margin m)) ms;
               granks = finite_values (map tk_gumbel_rank ms);
               exact = length (filter tk_exact_match ms) in
        \<lparr>ms_token_count = length ms, ms_exact_match_count = exact,
         ms_exact_match_ratio = real exact / real (length ms), ms_margins = margins,
         ms_min_probability = nonempty (Min \<circ> set) probs,
         ms_mean_probability = nonempty fmean probs,
         ms_mean_margin = nonempty fmean margins,
         ms_max_margin = nonempty (Max \<circ> set) margins,
         ms_max_logit_rank = nonempty (Max \<circ> set) (map tk_logit_rank ms),
         ms_max_gumbel_rank = nonempty (Max \<circ> set) granks\<rparr>)"

section \<open>Replaying the tokens\<close>

text \<open>A row of the logits tensor: minus infinity, but for the tokens the row of logprobs names.\<close>

definition fill_row :: "nat \<Rightarrow> logprob_row \<Rightarrow> logit list" where
  "fill_row vocab row =
     (case row of
        None \<Rightarrow> replicate vocab None
      | Some entries \<Rightarrow> fold (\<lambda>(i, l) r. r[i := Some l]) entries (replicate vocab None))"

definition row_token_ids :: "logprob_row \<Rightarrow> nat list" where
  "row_token_ids row = (case row of None \<Rightarrow> [] | Some entries \<Rightarrow> map fst entries)"

definition resolve_vocab_size :: "verifier_cfg \<Rightarrow> verifier_env \<Rightarrow> int \<Rightarrow> nat option" where
  "resolve_vocab_size c env observed_max_id =
     (let vocab = (case vc_vocab_size c of Some v \<Rightarrow> v | None \<Rightarrow> ve_hf_vocab_size env) in
      if observed_max_id \<ge> int vocab then None else Some vocab)"

text \<open>
  One token's metrics. A negative token id makes \<open>gather\<close> raise; the margin is clipped as it is
  stored.
\<close>

definition token_metric ::
  "real \<Rightarrow> real \<Rightarrow> int \<Rightarrow> real \<Rightarrow> real list \<Rightarrow> int \<Rightarrow> logit list \<Rightarrow> token_metrics option" where
  "token_metric clip t k p noise gold xs = do {
     probs \<leftarrow> get_probs t k p xs;
     if gold < 0 then None else do {
       (pred, rank, margin) \<leftarrow> verify_row t k p noise probs (nat gold) xs;
       Some \<lparr>tk_exact_match = (int pred = gold),
             tk_prob = (case probs of None \<Rightarrow> Not_a_number | Some ps \<Rightarrow> Fin (ps ! nat gold)),
             tk_margin = Fin (clip_margin clip margin),
             tk_logit_rank = real (count_above (xs ! nat gold) xs),
             tk_gumbel_rank = rank, tk_actual = gold, tk_predicted = pred\<rparr> } }"

fun all_metrics :: "(nat \<Rightarrow> int \<Rightarrow> logit list \<Rightarrow> token_metrics option) \<Rightarrow> nat \<Rightarrow> int list \<Rightarrow> logit list list
    \<Rightarrow> token_metrics list option" where
  "all_metrics f j (g # gs) (x # xs) = do { m \<leftarrow> f j g x; ms \<leftarrow> all_metrics f (Suc j) gs xs; Some (m # ms) }"
| "all_metrics f j _ _ = Some []"

definition noise_row :: "verifier_env \<Rightarrow> int \<Rightarrow> nat \<Rightarrow> nat \<Rightarrow> real list" where
  "noise_row env seed vocab j = map (ve_noise env seed j) [0..<vocab]"

definition verify_token_sequence ::
  "verifier_cfg \<Rightarrow> verifier_env \<Rightarrow> real \<Rightarrow> int list \<Rightarrow> int list \<Rightarrow> real \<Rightarrow> int \<Rightarrow> real \<Rightarrow> int
     \<Rightarrow> token_metrics list option" where
  "verify_token_sequence c env clip prompt gen t k p seed =
     (if k > vc_max_logprobs c then None
      else do {
        rows \<leftarrow> ve_completion env (prompt @ gen) t k p;
        if rows = [] then None else do {
          let token_rows = take (length gen) (drop (length prompt) rows);
          if length token_rows \<noteq> length gen then None else do {
            vocab \<leftarrow> resolve_vocab_size c env
                       (Max (set (gen @ map int (concat (map row_token_ids token_rows)))));
            all_metrics (\<lambda>j. token_metric clip t k p (noise_row env seed vocab j)) 0 gen
              (map (fill_row vocab) token_rows) } } })"

section \<open>The verdict\<close>

definition the_ids :: "int list option \<Rightarrow> int list" where
  "the_ids x = (case x of None \<Rightarrow> [] | Some ids \<Rightarrow> ids)"

definition sampling_missing :: "sampling_config \<Rightarrow> bool" where
  "sampling_missing s \<longleftrightarrow> sc_seed s = None \<or> sc_temperature s = None \<or> sc_top_k s = None
     \<or> sc_top_p s = None \<or> sc_max_output_tokens s = None"

text \<open>The reason not to replay, in the order the checks are made.\<close>

definition precheck :: "verify_request \<Rightarrow> error_code option" where
  "precheck r =
     (if rq_constrained_decoding r = Some True then Some CONSTRAINED_DECODING
      else if rq_usage_completion_tokens r \<noteq> None
           \<and> rq_usage_completion_tokens r \<noteq> Some (int (length (the_ids (rq_output_token_ids r))))
        then Some TOKEN_CAPTURE_INCOMPLETE
      else if sampling_missing (rq_sampling r) then Some SAMPLING_CONFIG_MISSING
      else if the_ids (rq_prompt_token_ids r) = [] \<or> the_ids (rq_output_token_ids r) = []
        then Some TOKENIZATION_MISMATCH
      else None)"

definition unverifiable :: "ustr option \<Rightarrow> verify_request \<Rightarrow> error_code \<Rightarrow> real \<Rightarrow> verify_response" where
  "unverifiable model_id r code target =
     \<lparr>rs_request_id = rq_request_id r, rs_status = UNVERIFIABLE, rs_error_code = Some code,
      rs_match_target = target, rs_metrics = empty_metrics (length (the_ids (rq_output_token_ids r))),
      rs_verifier_model_id = model_id, rs_prover_output_token_ids = [], rs_verifier_output_token_ids = [],
      rs_output_token_comparison = []\<rparr>"

definition output_comparison :: "real \<Rightarrow> int list \<Rightarrow> token_metrics list \<Rightarrow> output_token_comparison list" where
  "output_comparison clip prover ms =
     map (\<lambda>(i, g, m). \<lparr>oc_index = i, oc_prover_token_id = g, oc_verifier_token_id = int (tk_predicted m),
                       oc_exact_match = tk_exact_match m,
                       oc_margin = (case tk_margin m of Fin r \<Rightarrow> Some (min r clip) | _ \<Rightarrow> None)\<rparr>)
       (zip [0..<length ms] (zip prover ms))"

definition verdict ::
  "verifier_cfg \<Rightarrow> real \<Rightarrow> verify_request \<Rightarrow> real \<Rightarrow> token_metrics list \<Rightarrow> verify_response" where
  "verdict c clip r threshold ms =
     (let summary = summarize clip ms; prover = the_ids (rq_output_token_ids r) in
      \<lparr>rs_request_id = rq_request_id r,
       rs_status = (case ms_mean_margin summary of
                      None \<Rightarrow> FAIL
                    | Some m \<Rightarrow> if m < threshold then PASS else FAIL),
       rs_error_code = None, rs_match_target = threshold, rs_metrics = summary,
       rs_verifier_model_id = Some (vc_id c), rs_prover_output_token_ids = prover,
       rs_verifier_output_token_ids = map (\<lambda>m. int (tk_predicted m)) ms,
       rs_output_token_comparison = output_comparison clip prover ms\<rparr>)"

text \<open>\<open>CachedModelVerifier.verify\<close>\<close>

definition verify_cached ::
  "verifier_cfg \<Rightarrow> verifier_env \<Rightarrow> verify_request \<Rightarrow> real \<Rightarrow> fl option \<Rightarrow> verify_response" where
  "verify_cached c env r threshold margin_clip =
     (let clip = active_clip c margin_clip; s = rq_sampling r in
      case precheck r of
        Some code \<Rightarrow> unverifiable (Some (vc_id c)) r code threshold
      | None \<Rightarrow>
          (case verify_token_sequence c env clip
                  (the_ids (rq_prompt_token_ids r)) (the_ids (rq_output_token_ids r))
                  (the (sc_temperature s)) (the (sc_top_k s)) (the (sc_top_p s)) (the (sc_seed s)) of
             None \<Rightarrow> unverifiable (Some (vc_id c)) r INTERNAL_ERROR threshold
           | Some ms \<Rightarrow> verdict c clip r threshold ms))"

text \<open>\<open>VerificationService.verify\<close>; \<open>timed_out\<close> is whether the deadline passed first.\<close>

definition resolve_model :: "verifier_cfg \<Rightarrow> ustr \<Rightarrow> bool" where
  "resolve_model c name \<longleftrightarrow> name \<in> {vc_id c, vc_display_name c}"

definition requested_model :: "verify_request \<Rightarrow> ustr" where
  "requested_model r = (case rq_model_id r of Some (x # xs) \<Rightarrow> x # xs | _ \<Rightarrow> rq_model_name r)"

definition verify ::
  "verifier_cfg \<Rightarrow> verifier_env \<Rightarrow> bool \<Rightarrow> verify_request \<Rightarrow> real \<Rightarrow> fl option \<Rightarrow> verify_response" where
  "verify c env timed_out r threshold margin_clip =
     (if \<not> resolve_model c (requested_model r) then unverifiable None r UNSUPPORTED_MODEL threshold
      else if timed_out then unverifiable (Some (vc_id c)) r VERIFICATION_TIMEOUT threshold
      else verify_cached c env r threshold margin_clip)"

end
