(* ===== verification/Gumbel_Proofs.thy ===== *)
theory Gumbel_Proofs
  imports Gumbel
begin

text \<open>
  What the replay of \<^verbatim>\<open>difr/difr/gumbel_verify.py\<close> measures: top-k and top-p only remove candidates and
  never all of them; the margin of a token is never negative; and the two forms in which the code
  applies the noise, dividing probabilities by exponentials and adding Gumbel noise to logits, pick
  the same token, so the token that was sampled has margin zero.
\<close>

section \<open>The maximum\<close>

lemma argmax_less: "xs \<noteq> [] \<Longrightarrow> argmax xs < length xs"
proof -
  assume "xs \<noteq> []"
  then have "Max (set xs) \<in> set xs" by simp
  then have "takeWhile (\<lambda>x. x < Max (set xs)) xs \<noteq> xs" unfolding takeWhile_eq_all_conv by blast
  then show ?thesis
    unfolding argmax_def using length_takeWhile_le[of "\<lambda>x. x < Max (set xs)" xs]
      takeWhile_dropWhile_id[of "\<lambda>x. x < Max (set xs)" xs]
    by (metis append_eq_conv_conj le_neq_implies_less take_all_iff)
qed

lemma nth_argmax: "xs \<noteq> [] \<Longrightarrow> xs ! argmax xs = Max (set xs)"
proof -
  assume ne: "xs \<noteq> []"
  have "\<not> xs ! argmax xs < Max (set xs)"
    using nth_length_takeWhile[of "\<lambda>x. x < Max (set xs)" xs] argmax_less[OF ne] by (simp add: argmax_def)
  moreover have "xs ! argmax xs \<le> Max (set xs)" using argmax_less[OF ne] by simp
  ultimately show ?thesis by simp
qed

lemma argmax_ge: "i < length xs \<Longrightarrow> xs ! i \<le> xs ! argmax xs"
  by (subst nth_argmax) (auto intro: Max_ge)

section \<open>Top-k and top-p remove candidates\<close>

lemma sort_order_props: "length (sort_order xs) = length xs" "distinct (sort_order xs)"
    "set (sort_order xs) = {0..<length xs}" "sorted (map (\<lambda>i. xs ! i) (sort_order xs))"
  by (simp_all add: sort_order_def)

lemma nth_fold_update:
  assumes "distinct idx" "length vals = length idx" "set idx \<subseteq> {0..<length xs}" "j < length idx"
  shows "fold (\<lambda>(i, v) r. r[i := v]) (zip idx vals) xs ! (idx ! j) = vals ! j"
  using assms
proof (induction idx arbitrary: vals xs j)
  case (Cons i idx)
  obtain v vs where v: "vals = v # vs" "length vs = length idx" using Cons.prems(2) by (cases vals) auto
  have keep: "fold (\<lambda>(i, v) r. r[i := v]) (zip idx vs) ys ! m = ys ! m" if "m \<notin> set idx" "length vs = length idx"
    for m ys idx vs using that
    by (induction idx arbitrary: ys vs) (auto simp: neq_Nil_conv length_Suc_conv)
  show ?case
  proof (cases j)
    case 0
    then show ?thesis using Cons.prems(1,3) v keep[of i idx vs] by simp
  next
    case (Suc m)
    then show ?thesis using Cons.IH[of vs "xs[i := v]" m] Cons.prems v by auto
  qed
qed simp

lemma length_scatter: "length (scatter idx vals xs) = length xs"
proof -
  have "length (fold (\<lambda>(i, v) r. r[i := v]) ps xs) = length xs" for ps :: "(nat \<times> logit) list"
    by (induction ps arbitrary: xs) auto
  then show ?thesis by (simp add: scatter_def)
qed

lemma length_cumsum [simp]: "length (cumsum a xs) = length xs"
  by (induction xs arbitrary: a) auto

lemma softmax_length: "softmax xs = Some ps \<Longrightarrow> length ps = length xs"
  by (auto simp: softmax_def split: if_splits)

lemma top_k_sorted_props:
  assumes "top_k_sorted k xs = Some ys"
  shows "length ys = length xs" "i < length xs \<Longrightarrow> ys ! i = xs ! i \<or> ys ! i = None"
    "sorted xs \<Longrightarrow> xs \<noteq> [] \<Longrightarrow> last ys = last xs"
proof -
  show "length ys = length xs" using assms by (auto simp: top_k_sorted_def split: if_splits)
  show "i < length xs \<Longrightarrow> ys ! i = xs ! i \<or> ys ! i = None"
    using assms by (auto simp: top_k_sorted_def split: if_splits)
  assume s: "sorted xs" "xs \<noteq> []"
  have "xs ! j \<le> last xs" if "j < length xs" for j
    using s that by (simp add: last_conv_nth sorted_nth_mono)
  then show "last ys = last xs" using assms s by (auto simp: top_k_sorted_def last_map leD split: if_splits)
qed

lemma top_p_sorted_props:
  shows "length (top_p_sorted p xs) = length xs"
    "i < length xs \<Longrightarrow> top_p_sorted p xs ! i = xs ! i \<or> top_p_sorted p xs ! i = None"
    "xs \<noteq> [] \<Longrightarrow> last (top_p_sorted p xs) = last xs"
proof -
  show l: "length (top_p_sorted p xs) = length xs"
    by (auto simp: top_p_sorted_def softmax_length split: option.split)
  show n: "top_p_sorted p xs ! i = xs ! i \<or> top_p_sorted p xs ! i = None" if "i < length xs" for i
    using that by (auto simp: top_p_sorted_def softmax_length split: option.split)
  show "last (top_p_sorted p xs) = last xs" if "xs \<noteq> []"
  proof -
    have "length xs - 1 < length xs" using that by simp
    then have "top_p_sorted p xs ! (length xs - 1) = xs ! (length xs - 1)"
      by (auto simp: top_p_sorted_def softmax_length split: option.split)
    moreover have "top_p_sorted p xs \<noteq> []" using l that by (metis length_0_conv)
    ultimately show ?thesis using that l by (simp add: last_conv_nth)
  qed
qed

text \<open>Each place keeps its value or loses it, and a row with a candidate keeps one.\<close>

lemma apply_top_k_top_p_props:
  assumes "apply_top_k_top_p k p xs = Some f"
  shows "length f = length xs" "\<And>i. i < length xs \<Longrightarrow> f ! i = xs ! i \<or> f ! i = None"
    "(\<exists>i < length xs. xs ! i \<noteq> None) \<Longrightarrow> \<exists>i < length f. f ! i \<noteq> None"
proof -
  define idx where "idx = sort_order xs"
  define s where "s = map (\<lambda>i. xs ! i) idx"
  obtain ys where ys: "top_k_sorted k s = Some ys" and f: "f = scatter idx (top_p_sorted p ys) xs"
    using assms by (auto simp: apply_top_k_top_p_def idx_def s_def Let_def)
  have idx: "length idx = length xs" "distinct idx" "set idx = {0..<length xs}" and s: "sorted s"
    using sort_order_props[of xs] by (simp_all add: idx_def s_def)
  have len: "length ys = length xs" "length s = length xs" "length (top_p_sorted p ys) = length idx"
    using top_k_sorted_props(1)[OF ys] idx top_p_sorted_props(1)[of p ys] by (simp_all add: s_def)
  show l: "length f = length xs" by (simp add: f length_scatter)
  have at_idx: "f ! (idx ! j) = top_p_sorted p ys ! j" if "j < length xs" for j
    unfolding f scatter_def using idx len that by (intro nth_fold_update) auto
  have vals: "top_p_sorted p ys ! j = xs ! (idx ! j) \<or> top_p_sorted p ys ! j = None" if "j < length xs" for j
    using top_p_sorted_props(2)[of j ys p] top_k_sorted_props(2)[OF ys, of j] that len idx(1)
    by (auto simp: s_def)
  show "f ! i = xs ! i \<or> f ! i = None" if i: "i < length xs" for i
  proof -
    from idx(3) i have "i \<in> set idx" by simp
    then obtain j where "j < length xs" "idx ! j = i" by (metis in_set_conv_nth idx(1))
    with at_idx vals show ?thesis by metis
  qed
  show "\<exists>i < length f. f ! i \<noteq> None" if ex: "\<exists>i < length xs. xs ! i \<noteq> None"
  proof -
    obtain i where i: "i < length xs" "xs ! i \<noteq> None" using ex by blast
    then have ne: "xs \<noteq> []" by auto
    have "xs ! i \<in> set s" using i idx(3) by (simp add: s_def)
    then obtain j where "j < length s" "s ! j = xs ! i" by (metis in_set_conv_nth)
    moreover from this have "s ! j \<le> s ! (length s - 1)" using s by (intro sorted_nth_mono) auto
    ultimately have "xs ! i \<le> last s" by (cases "s = []") (simp_all add: last_conv_nth)
    with i(2) have "last s \<noteq> None" by (cases "last s") (auto simp: less_eq_option_def)
    moreover have "last (top_p_sorted p ys) = last s"
      using top_p_sorted_props(3)[of ys p] top_k_sorted_props(3)[OF ys s] ne len by (metis length_0_conv)
    moreover have "top_p_sorted p ys \<noteq> []" using ne len idx(1) by auto
    ultimately have "top_p_sorted p ys ! (length xs - 1) \<noteq> None" using len idx(1) by (simp add: last_conv_nth)
    moreover have "length xs - 1 < length xs" using ne by simp
    ultimately have "f ! (idx ! (length xs - 1)) \<noteq> None" "idx ! (length xs - 1) < length f"
      using at_idx[of "length xs - 1"] idx nth_mem[of "length xs - 1" idx] l by auto
    then show ?thesis by blast
  qed
qed

section \<open>The two forms of the noise agree\<close>

lemma scale_logits_nth:
  "i < length xs \<Longrightarrow> 1 / 10 ^ 8 \<le> t \<Longrightarrow> scale_logits t xs ! i = map_option (\<lambda>x. x / t) (xs ! i)"
  by (simp add: scale_logits_def max_absorb1 del: power_numeral)

lemma length_scale_logits [simp]: "length (scale_logits t xs) = length xs"
  by (simp add: scale_logits_def)

text \<open>Everything known at a row that has a candidate, for a temperature that is not degenerate.\<close>

definition sampled_row :: "real \<Rightarrow> int \<Rightarrow> real \<Rightarrow> real list \<Rightarrow> logit list \<Rightarrow> logit list \<Rightarrow> real list \<Rightarrow> bool" where
  "sampled_row t k p noise xs f ps \<longleftrightarrow>
     1 / 10 ^ 8 \<le> t \<and> length noise = length xs \<and> (\<forall>e \<in> set noise. 0 < e) \<and>
     apply_top_k_top_p k p (scale_logits t xs) = Some f \<and> softmax f = Some ps"

lemma exp_logit_nonneg: "0 \<le> exp_logit x"
  by (simp add: exp_logit_def split: option.split)

lemma sampled_rowD:
  assumes "sampled_row t k p noise xs f ps"
  shows "length f = length xs" "length ps = length xs" "0 < sum_list (map exp_logit f)"
    "i < length xs \<Longrightarrow> f ! i = None \<or> f ! i = map_option (\<lambda>x. x / t) (xs ! i)"
    "i < length xs \<Longrightarrow> ps ! i = exp_logit (f ! i) / sum_list (map exp_logit f)"
    "\<exists>i < length xs. f ! i \<noteq> None"
proof -
  have a: "apply_top_k_top_p k p (scale_logits t xs) = Some f" "softmax f = Some ps" "1 / 10 ^ 8 \<le> t"
    using assms by (simp_all add: sampled_row_def)
  show l: "length f = length xs" using apply_top_k_top_p_props(1)[OF a(1)] by simp
  show "length ps = length xs" using softmax_length[OF a(2)] l by simp
  show "i < length xs \<Longrightarrow> f ! i = None \<or> f ! i = map_option (\<lambda>x. x / t) (xs ! i)"
    using apply_top_k_top_p_props(2)[OF a(1), of i] scale_logits_nth[OF _ a(3), of i xs] by auto
  show "i < length xs \<Longrightarrow> ps ! i = exp_logit (f ! i) / sum_list (map exp_logit f)"
    using a(2) l by (auto simp: softmax_def split: if_splits)
  show ex: "\<exists>i < length xs. f ! i \<noteq> None"
    using a(2) l by (auto simp: softmax_def list_all_length split: if_splits)
  then obtain i where i: "i < length f" "f ! i \<noteq> None" using l by auto
  then have "0 < exp_logit (f ! i)" by (auto simp: exp_logit_def)
  also have "\<dots> \<le> sum_list (map exp_logit f)"
    using i exp_logit_nonneg by (intro member_le_sum_list) auto
  finally show "0 < sum_list (map exp_logit f)" .
qed

lemma length_noised [simp]:
  "length noise = length xs \<Longrightarrow> length f = length xs \<Longrightarrow> length (noised_logits t noise f xs) = length xs"
  by (simp add: noised_logits_def)

lemma nth_noised:
  assumes "sampled_row t k p noise xs f ps" "i < length xs"
  shows "noised_logits t noise f xs ! i =
     map_option (\<lambda>r. t * (r - ln (noise ! i))) (f ! i)"
proof -
  note d = sampled_rowD[OF assms(1)]
  have len: "length noise = length xs" "1 / 10 ^ 8 \<le> t" and pos: "0 < noise ! i"
    using assms nth_mem by (auto simp: sampled_row_def)
  then have "0 < t" using less_le_trans[of 0 "1 / 10 ^ 8" t] by simp
  have n: "noised_logits t noise f xs ! i =
      (if f ! i = None then None else map_option (\<lambda>r. r + exponential_to_gumbel (noise ! i) 0 * t) (xs ! i))"
    using assms(2) len d(1) by (simp add: noised_logits_def)
  show ?thesis
  proof (cases "f ! i")
    case None
    then show ?thesis by (simp add: n)
  next
    case (Some r)
    then obtain x where "xs ! i = Some x" "r = x / t" using d(4)[OF assms(2)] by (cases "xs ! i") auto
    then show ?thesis
      using n Some \<open>0 < t\<close> pos by (simp add: exponential_to_gumbel_def max_def field_simps)
  qed
qed

lemma nth_scores:
  assumes "sampled_row t k p noise xs f ps" "i < length xs"
  shows "gumbel_scores ps noise ! i = exp_logit (f ! i) / sum_list (map exp_logit f) / noise ! i"
  using assms sampled_rowD[OF assms(1)] by (simp add: gumbel_scores_def sampled_row_def)

text \<open>The order of the scores is the order of the noised logits.\<close>

lemma scores_le_noised:
  assumes r: "sampled_row t k p noise xs f ps" and ij: "i < length xs" "j < length xs"
    and le: "gumbel_scores ps noise ! i \<le> gumbel_scores ps noise ! j"
  shows "noised_logits t noise f xs ! i \<le> noised_logits t noise f xs ! j"
proof (cases "f ! i")
  case None
  then show ?thesis by (simp add: nth_noised[OF r ij(1)])
next
  case (Some a)
  define Z where "Z = sum_list (map exp_logit f)"
  have Z: "0 < Z" using sampled_rowD(3)[OF r] by (simp add: Z_def)
  have e: "0 < noise ! i" "0 < noise ! j" "0 < t"
    using r ij nth_mem less_le_trans[of 0 "1 / 10 ^ 8" t] by (auto simp: sampled_row_def)
  have si: "gumbel_scores ps noise ! i = exp a / Z / noise ! i"
    using nth_scores[OF r ij(1)] Some by (simp add: Z_def exp_logit_def)
  have "0 < exp a / Z / noise ! i" using Z e by simp
  with le si have pj: "0 < gumbel_scores ps noise ! j" by linarith
  then obtain b where b: "f ! j = Some b"
    using nth_scores[OF r ij(2)] by (cases "f ! j") (auto simp: exp_logit_def)
  have sj: "gumbel_scores ps noise ! j = exp b / Z / noise ! j"
    using nth_scores[OF r ij(2)] b by (simp add: Z_def exp_logit_def)
  have "ln (exp a / Z / noise ! i) \<le> ln (exp b / Z / noise ! j)"
    using le si sj pj Z e by (subst ln_le_cancel_iff) simp_all
  moreover have "ln (exp c / Z / d) = c - ln Z - ln d" if "0 < d" for c d using Z that by (simp add: ln_div ln_mult)
  ultimately have "a - ln (noise ! i) \<le> b - ln (noise ! j)" using e by simp
  then show ?thesis using e Some b by (simp add: nth_noised[OF r] ij)
qed

lemma sampled_row_noise: "sampled_row t k p noise xs f ps \<Longrightarrow> length noise = length xs"
  by (simp add: sampled_row_def)

lemma length_scores: "sampled_row t k p noise xs f ps \<Longrightarrow> length (gumbel_scores ps noise) = length xs"
  using sampled_rowD(2)[of t k p noise xs f ps] sampled_row_noise[of t k p noise xs f ps]
  by (simp add: gumbel_scores_def)

lemma predicted_is_noised_max:
  assumes r: "sampled_row t k p noise xs f ps"
  defines "m \<equiv> argmax (gumbel_scores ps noise)"
  shows "m < length xs" "noised_logits t noise f xs ! argmax (noised_logits t noise f xs) = noised_logits t noise f xs ! m"
    "noised_logits t noise f xs ! m \<noteq> None"
proof -
  let ?n = "noised_logits t noise f xs"
  note d = sampled_rowD[OF r]
  obtain i where i: "i < length xs" "f ! i \<noteq> None" using d(6) by blast
  then have ne: "gumbel_scores ps noise \<noteq> []" using length_scores[OF r] by auto
  show m: "m < length xs" using argmax_less[OF ne] length_scores[OF r] by (simp add: m_def)
  have ge: "?n ! j \<le> ?n ! m" if "j < length xs" for j
    using that m argmax_ge[of j "gumbel_scores ps noise"] length_scores[OF r]
    by (intro scores_le_noised[OF r]) (simp_all add: m_def)
  have len: "length ?n = length xs" using d(1) sampled_row_noise[OF r] by simp
  then have nn: "?n \<noteq> []" using i by auto
  have "?n ! argmax ?n \<le> ?n ! m" using ge argmax_less[OF nn] len by simp
  moreover have "?n ! m \<le> ?n ! argmax ?n" using argmax_ge[of m ?n] m len by simp
  ultimately show "?n ! argmax ?n = ?n ! m" by simp
  have "?n ! i \<noteq> None" using nth_noised[OF r i(1)] i(2) by simp
  with ge[OF i(1)] show "?n ! m \<noteq> None" by (cases "?n ! m") (auto simp: less_eq_option_def)
qed

lemma margin_of_prediction:
  assumes "sampled_row t k p noise xs f ps"
  shows "compute_margin t noise f (argmax (gumbel_scores ps noise)) xs = Fin 0"
  using predicted_is_noised_max[OF assms]
  by (auto simp: compute_margin_def Let_def logit_minus_def split: option.split)

text \<open>The margin of any token is a nonnegative number, or infinite if the token was removed.\<close>

lemma margin_cases:
  assumes "sampled_row t k p noise xs f ps" "g < length xs"
  shows "f ! g = None \<and> compute_margin t noise f g xs = Pos_inf \<or>
         f ! g \<noteq> None \<and> (\<exists>d. 0 \<le> d \<and> compute_margin t noise f g xs = Fin d)"
proof -
  let ?n = "noised_logits t noise f xs"
  have len: "length ?n = length xs" using sampled_rowD(1)[OF assms(1)] sampled_row_noise[OF assms(1)] by simp
  obtain a where a: "?n ! argmax ?n = Some a" using predicted_is_noised_max[OF assms(1)] by auto
  show ?thesis
  proof (cases "f ! g")
    case None
    then show ?thesis using a nth_noised[OF assms]
      by (simp add: compute_margin_def Let_def logit_minus_def)
  next
    case (Some r)
    then obtain b where b: "?n ! g = Some b" using nth_noised[OF assms] by simp
    then have "b \<le> a" using argmax_ge[of g ?n] assms(2) len a by simp
    then show ?thesis using a b Some by (simp add: compute_margin_def Let_def logit_minus_def)
  qed
qed

end
