(* ===== verification/Verifier_Proofs.thy ===== *)
theory Verifier_Proofs
  imports Verifier Gumbel_Proofs
begin

text \<open>
  What a verdict of \<^verbatim>\<open>inf-ver-runner/app/verifier.py\<close> means: an honest run passes with margin zero, a
  run that passes has few tokens that miss, and no verdict is given on an incomplete capture.
\<close>

section \<open>Rows and metrics\<close>

lemma all_metrics_nth:
  "all_metrics f j gs xs = Some ms \<Longrightarrow> length gs = length xs \<Longrightarrow>
     length ms = length gs \<and> (\<forall>i < length gs. f (j + i) (gs ! i) (xs ! i) = Some (ms ! i))"
proof (induction f j gs xs arbitrary: ms rule: all_metrics.induct)
  case (1 f j g gs x xs)
  obtain m rest where m: "f j g x = Some m" "all_metrics f (Suc j) gs xs = Some rest" "ms = m # rest"
    using "1.prems"(1) by (auto simp: bind_eq_Some_conv)
  have "length rest = length gs \<and> (\<forall>i < length gs. f (Suc j + i) (gs ! i) (xs ! i) = Some (rest ! i))"
    using "1.IH"[OF m(1,2)] "1.prems"(2) by simp
  with m show ?case by (auto simp: nth_Cons split: nat.split)
qed auto

lemma all_metrics_Some:
  "length gs = length xs \<Longrightarrow> (\<And>i. i < length gs \<Longrightarrow> f (j + i) (gs ! i) (xs ! i) \<noteq> None) \<Longrightarrow>
     \<exists>ms. all_metrics f j gs xs = Some ms"
proof (induction f j gs xs rule: all_metrics.induct)
  case (1 f j g gs x xs)
  obtain m where m: "f j g x = Some m" using "1.prems"(2)[of 0] by auto
  have "\<exists>ms. all_metrics f (Suc j) gs xs = Some ms"
  proof (rule "1.IH"[OF m])
    show "length gs = length xs" using "1.prems"(1) by simp
    show "f (Suc j + i) (gs ! i) (xs ! i) \<noteq> None" if "i < length gs" for i
      using "1.prems"(2)[of "Suc i"] that by simp
  qed
  with m show ?case by auto
qed auto

lemma length_fill_row [simp]: "length (fill_row vocab row) = vocab"
proof -
  have "length (fold (\<lambda>(i, l) r. r[i := Some l]) es xs) = length xs" for es and xs :: "logit list"
    by (induction es arbitrary: xs) auto
  then show ?thesis by (simp add: fill_row_def split: option.split)
qed

lemma length_noise_row [simp]: "length (noise_row env seed vocab j) = vocab"
  by (simp add: noise_row_def)

lemma own_clip_pos: "0 < own_clip c"
  by (simp add: own_clip_def split: fl.split)

lemma active_clip_pos: "0 < active_clip c margin_clip"
  using own_clip_pos[of c] by (auto simp: active_clip_def split: option.split fl.split)

text \<open>A margin is never below zero: no noised logit exceeds their maximum.\<close>

lemma margin_nonneg:
  assumes "gold < length (noised_logits t noise f xs)" "compute_margin t noise f gold xs = Fin d"
  shows "0 \<le> d"
proof -
  have "noised_logits t noise f xs ! gold
      \<le> noised_logits t noise f xs ! argmax (noised_logits t noise f xs)"
    using assms(1) by (rule argmax_ge)
  with assms(2) show ?thesis
    by (auto simp: compute_margin_def logit_minus_def Let_def split: option.splits)
qed

lemma margin_removed:
  assumes "gold < length (noised_logits t noise f xs)" "f ! gold = None"
  shows "compute_margin t noise f gold xs \<in> {Pos_inf, Not_a_number}"
proof -
  have "noised_logits t noise f xs ! gold = None" using assms by (simp add: noised_logits_def)
  then show ?thesis by (simp add: compute_margin_def logit_minus_def Let_def split: option.split)
qed

text \<open>The token was removed by top-k or top-p: the prover's sampler could not have drawn it.\<close>

definition outside_sampling_set :: "real \<Rightarrow> int \<Rightarrow> real \<Rightarrow> int \<Rightarrow> logit list \<Rightarrow> bool" where
  "outside_sampling_set t k p gold xs \<longleftrightarrow>
     (case apply_top_k_top_p k p (if t > 0 then scale_logits t xs else xs) of
        None \<Rightarrow> False
      | Some f \<Rightarrow> f ! nat gold = None)"

lemma token_metric_margin:
  assumes m: "token_metric clip t k p noise gold xs = Some m" and g: "nat gold < length xs"
    and n: "length noise = length xs" and c: "0 < clip"
  shows "\<exists>d. tk_margin m = Fin d \<and> 0 \<le> d \<and> d \<le> clip \<and> (outside_sampling_set t k p gold xs \<longrightarrow> d = clip)"
proof -
  obtain f where f: "apply_top_k_top_p k p (if t > 0 then scale_logits t xs else xs) = Some f"
      and tk: "tk_margin m = Fin (clip_margin clip (compute_margin t noise f (nat gold) xs))"
    using m by (auto simp: token_metric_def verify_row_def bind_eq_Some_conv split: if_splits)
  have "length f = length xs" using apply_top_k_top_p_props(1)[OF f] by (simp split: if_splits)
  then have len: "nat gold < length (noised_logits t noise f xs)" using g n by simp
  show ?thesis
    using margin_nonneg[OF len] margin_removed[OF len] tk f c
    by (cases "compute_margin t noise f (nat gold) xs")
      (auto simp: clip_margin_def outside_sampling_set_def)
qed

lemma resolve_vocabD: "resolve_vocab_size c env m = Some v \<Longrightarrow> m < int v"
  by (auto simp: resolve_vocab_size_def Let_def split: if_splits)

text \<open>What a replay that succeeded went through.\<close>

lemma verify_token_sequenceD:
  assumes "verify_token_sequence c env clip prompt gen t k p seed = Some ms"
  obtains rows vocab where
    "ve_completion env (prompt @ gen) t k p = Some rows"
    "k \<le> vc_max_logprobs c" "length ms = length gen"
    "resolve_vocab_size c env (Max (set (gen @ map int (concat (map row_token_ids
       (take (length gen) (drop (length prompt) rows))))))) = Some vocab"
    "\<And>i. i < length gen \<Longrightarrow> nat (gen ! i) < vocab \<and>
       token_metric clip t k p (noise_row env seed vocab i) (gen ! i) (fill_row vocab (rows ! (length prompt + i)))
         = Some (ms ! i)"
proof -
  obtain rows where rows: "ve_completion env (prompt @ gen) t k p = Some rows" "k \<le> vc_max_logprobs c"
    using assms by (auto simp: verify_token_sequence_def bind_eq_Some_conv split: if_splits)
  define tr where "tr = take (length gen) (drop (length prompt) rows)"
  obtain vocab where v: "resolve_vocab_size c env (Max (set (gen @ map int (concat (map row_token_ids tr))))) = Some vocab"
      and l: "length tr = length gen"
      and am: "all_metrics (\<lambda>j. token_metric clip t k p (noise_row env seed vocab j)) 0 gen (map (fill_row vocab) tr) = Some ms"
    using assms rows
    by (auto simp: verify_token_sequence_def bind_eq_Some_conv Let_def tr_def[symmetric]
        simp del: set_append set_map set_concat length_take length_drop split: if_splits)
  have n: "length ms = length gen" "\<And>i. i < length gen \<Longrightarrow>
      token_metric clip t k p (noise_row env seed vocab i) (gen ! i) (fill_row vocab (tr ! i)) = Some (ms ! i)"
    using all_metrics_nth[OF am] l by auto
  have "nat (gen ! i) < vocab" if "i < length gen" for i
  proof -
    have "gen ! i \<le> Max (set (gen @ map int (concat (map row_token_ids tr))))"
      using that by (intro Max_ge) auto
    moreover have "0 \<le> gen ! i" using n(2)[OF that] by (auto simp: token_metric_def bind_eq_Some_conv split: if_splits)
    ultimately show ?thesis using resolve_vocabD[OF v] by linarith
  qed
  moreover have "tr ! i = rows ! (length prompt + i)" if "i < length gen" for i
    using that l by (simp add: tr_def)
  ultimately show ?thesis using that[OF rows n(1) v[unfolded tr_def]] n(2) by simp
qed

section \<open>Verdicts\<close>

lemma unverifiable_simps [simp]:
  "rs_status (unverifiable i r code target) = UNVERIFIABLE"
  "rs_error_code (unverifiable i r code target) = Some code"
  by (simp_all add: unverifiable_def)

lemma verdict_simps [simp]:
  "rs_status (verdict c clip r threshold ms) \<noteq> UNVERIFIABLE"
  "rs_error_code (verdict c clip r threshold ms) = None"
  by (auto simp: verdict_def Let_def split: option.split)

lemma summarize_nonempty:
  "ms \<noteq> [] \<Longrightarrow> ms_mean_margin (summarize clip ms) = Some (fmean (map (\<lambda>m. clip_margin clip (tk_margin m)) ms))"
  "ms \<noteq> [] \<Longrightarrow> ms_margins (summarize clip ms) = map (\<lambda>m. clip_margin clip (tk_margin m)) ms"
  by (simp_all add: summarize_def nonempty_def Let_def)

text \<open>The cases of \<open>verify\<close>: a reason not to give a verdict, or a replay and its verdict.\<close>

definition replayed :: "verifier_cfg \<Rightarrow> verifier_env \<Rightarrow> real \<Rightarrow> verify_request \<Rightarrow> token_metrics list option" where
  "replayed c env clip r = verify_token_sequence c env clip
     (the_ids (rq_prompt_token_ids r)) (the_ids (rq_output_token_ids r))
     (the (sc_temperature (rq_sampling r))) (the (sc_top_k (rq_sampling r))) (the (sc_top_p (rq_sampling r)))
     (the (sc_seed (rq_sampling r)))"

lemma verify_cases:
  "verify c env timed_out r threshold margin_clip =
     (if \<not> resolve_model c (requested_model r) then unverifiable None r UNSUPPORTED_MODEL threshold
      else if timed_out then unverifiable (Some (vc_id c)) r VERIFICATION_TIMEOUT threshold
      else case precheck r of
          Some code \<Rightarrow> unverifiable (Some (vc_id c)) r code threshold
        | None \<Rightarrow> (case replayed c env (active_clip c margin_clip) r of
              None \<Rightarrow> unverifiable (Some (vc_id c)) r INTERNAL_ERROR threshold
            | Some ms \<Rightarrow> verdict c (active_clip c margin_clip) r threshold ms))"
  unfolding verify_def verify_cached_def replayed_def Let_def by (rule refl)

lemma verified_replay:
  assumes "rs_status (verify c env timed_out r threshold margin_clip) \<noteq> UNVERIFIABLE"
  shows "\<exists>ms. resolve_model c (requested_model r) \<and> \<not> timed_out \<and> precheck r = None \<and>
    replayed c env (active_clip c margin_clip) r = Some ms \<and>
    verify c env timed_out r threshold margin_clip = verdict c (active_clip c margin_clip) r threshold ms"
  using assms unfolding verify_cases by (auto split: if_splits option.splits)

lemma precheck_None_iff:
  "precheck r = None \<longleftrightarrow> rq_constrained_decoding r \<noteq> Some True \<and>
     rq_usage_completion_tokens r \<in> {None, Some (int (length (the_ids (rq_output_token_ids r))))} \<and>
     \<not> sampling_missing (rq_sampling r) \<and>
     the_ids (rq_prompt_token_ids r) \<noteq> [] \<and> the_ids (rq_output_token_ids r) \<noteq> []"
  by (auto simp: precheck_def)

lemma replay_length:
  "replayed c env clip r = Some ms \<Longrightarrow> length ms = length (the_ids (rq_output_token_ids r))"
  unfolding replayed_def by (erule verify_token_sequenceD) simp

lemma verdict_status:
  "ms \<noteq> [] \<Longrightarrow> rs_status (verdict c clip r threshold ms) =
     (if fmean (map (\<lambda>m. clip_margin clip (tk_margin m)) ms) < threshold then PASS else FAIL)"
  by (simp add: verdict_def Let_def summarize_nonempty)

text \<open>No verdict on an incomplete capture. \<open>verify\<close> says pass or fail only for a request for the
model it serves, answered in time, not produced under constrained decoding, whose captured output is
as long as the provider said it is if it said so, with a complete sampling configuration and both
token sequences present; the verdict then rests on one measured margin for every output token. In
every other case it says unverifiable, with an error code.\<close>

theorem verdict_needs_complete_capture:
  fixes margin_clip :: "fl option"
  defines "outcome \<equiv> \<lambda>c env timed_out r threshold. verify c env timed_out r threshold margin_clip"
  shows "(rs_status (outcome c env timed_out r threshold) = UNVERIFIABLE) =
           (rs_error_code (outcome c env timed_out r threshold) \<noteq> None) \<and>
         (rs_status (outcome c env timed_out r threshold) = UNVERIFIABLE \<or>
           resolve_model c (requested_model r) \<and> \<not> timed_out \<and> rq_constrained_decoding r \<noteq> Some True \<and>
           rq_usage_completion_tokens r \<in> {None, Some (int (length (the_ids (rq_output_token_ids r))))} \<and>
           \<not> sampling_missing (rq_sampling r) \<and>
           the_ids (rq_prompt_token_ids r) \<noteq> [] \<and> the_ids (rq_output_token_ids r) \<noteq> [] \<and>
           length (ms_margins (rs_metrics (outcome c env timed_out r threshold)))
             = length (the_ids (rq_output_token_ids r)))"
proof (cases "rs_status (verify c env timed_out r threshold margin_clip) = UNVERIFIABLE")
  case True
  then show ?thesis
    unfolding outcome_def verify_cases by (auto split: if_splits option.splits)
next
  case False
  then obtain ms where ms: "resolve_model c (requested_model r)" "\<not> timed_out" "precheck r = None"
      "replayed c env (active_clip c margin_clip) r = Some ms"
      "verify c env timed_out r threshold margin_clip = verdict c (active_clip c margin_clip) r threshold ms"
    using verified_replay by blast
  have l: "length ms = length (the_ids (rq_output_token_ids r))" by (rule replay_length[OF ms(4)])
  then have "ms \<noteq> []" using ms(3) by (auto simp: precheck_None_iff)
  then have "length (ms_margins (rs_metrics (verdict c (active_clip c margin_clip) r threshold ms)))
      = length (the_ids (rq_output_token_ids r))"
    using l by (simp add: verdict_def summarize_nonempty Let_def)
  with ms False show ?thesis unfolding outcome_def by (simp add: precheck_None_iff)
qed

section \<open>An honest run passes\<close>

text \<open>The token is the one the Gumbel-Max trick draws from these logits with this noise.\<close>

definition drawn :: "real \<Rightarrow> int \<Rightarrow> real \<Rightarrow> real list \<Rightarrow> logit list \<Rightarrow> int \<Rightarrow> bool" where
  "drawn t k p noise xs g \<longleftrightarrow>
     (case get_probs t k p xs of
        Some (Some ps) \<Rightarrow> g = int (argmax (gumbel_scores ps noise))
      | _ \<Rightarrow> False)"

lemma drawn_metric:
  assumes d: "drawn t k p noise xs g" and t: "1 / 10 ^ 8 \<le> t" and n: "length noise = length xs"
    and e: "\<forall>e \<in> set noise. 0 < e" and c: "0 < clip"
  shows "\<exists>m. token_metric clip t k p noise g xs = Some m \<and> tk_margin m = Fin 0 \<and> tk_exact_match m
     \<and> int (tk_predicted m) = g"
proof -
  have tpos: "0 < t" using t by (smt (verit) divide_pos_pos zero_less_power)
  obtain ps where ps: "get_probs t k p xs = Some (Some ps)" "g = int (argmax (gumbel_scores ps noise))"
    using d by (auto simp: drawn_def split: option.splits)
  then obtain f where f: "apply_top_k_top_p k p (scale_logits t xs) = Some f" "softmax f = Some ps"
    using tpos by (auto simp: get_probs_def)
  have "sampled_row t k p noise xs f ps" using t n e f unfolding sampled_row_def by blast
  then have "compute_margin t noise f (nat g) xs = Fin 0" using margin_of_prediction ps(2) by simp
  with ps f tpos c show ?thesis
    by (simp add: token_metric_def verify_row_def predicted_id_def clip_margin_def)
qed

text \<open>The tokens of the request were drawn from what the replay will see.\<close>

definition honest_run :: "verifier_cfg \<Rightarrow> verifier_env \<Rightarrow> real \<Rightarrow> int \<Rightarrow> real \<Rightarrow> int \<Rightarrow> int list \<Rightarrow> int list \<Rightarrow> bool" where
  "honest_run c env t k p seed prompt gen \<longleftrightarrow>
     k \<le> vc_max_logprobs c \<and> 1 / 10 ^ 8 \<le> t \<and>
     (case ve_completion env (prompt @ gen) t k p of
        None \<Rightarrow> False
      | Some rows \<Rightarrow> length prompt + length gen \<le> length rows \<and>
          (case resolve_vocab_size c env (Max (set (gen @ map int (concat (map row_token_ids
                   (take (length gen) (drop (length prompt) rows))))))) of
             None \<Rightarrow> False
           | Some vocab \<Rightarrow>
               (\<forall>j < length gen. (\<forall>e \<in> set (noise_row env seed vocab j). 0 < e) \<and>
                  drawn t k p (noise_row env seed vocab j) (fill_row vocab (rows ! (length prompt + j))) (gen ! j))))"

lemma honest_replay:
  assumes h: "honest_run c env t k p seed prompt gen" and ne: "gen \<noteq> []" and clip: "0 < clip"
  shows "\<exists>ms. verify_token_sequence c env clip prompt gen t k p seed = Some ms \<and> length ms = length gen
    \<and> (\<forall>m \<in> set ms. tk_margin m = Fin 0 \<and> tk_exact_match m) \<and> map (\<lambda>m. int (tk_predicted m)) ms = gen"
proof -
  obtain rows where k: "k \<le> vc_max_logprobs c" "1 / 10 ^ 8 \<le> t"
      and rows: "ve_completion env (prompt @ gen) t k p = Some rows" "length prompt + length gen \<le> length rows"
    using h by (auto simp: honest_run_def simp del: set_append set_map set_concat split: option.splits)
  define tr where "tr = take (length gen) (drop (length prompt) rows)"
  obtain vocab where v: "resolve_vocab_size c env (Max (set (gen @ map int (concat (map row_token_ids tr))))) = Some vocab"
      and dr: "\<And>j. j < length gen \<Longrightarrow> (\<forall>e \<in> set (noise_row env seed vocab j). 0 < e) \<and>
                  drawn t k p (noise_row env seed vocab j) (fill_row vocab (rows ! (length prompt + j))) (gen ! j)"
    using h rows by (auto simp: honest_run_def tr_def simp del: set_append set_map set_concat split: option.splits)
  have len: "length tr = length gen" "\<And>j. j < length gen \<Longrightarrow> tr ! j = rows ! (length prompt + j)"
    using rows(2) by (auto simp: tr_def)
  let ?f = "\<lambda>j. token_metric clip t k p (noise_row env seed vocab j)"
  have each: "\<exists>m. ?f j (gen ! j) (fill_row vocab (tr ! j)) = Some m \<and> tk_margin m = Fin 0 \<and> tk_exact_match m
      \<and> int (tk_predicted m) = gen ! j" if "j < length gen" for j
    using drawn_metric[OF _ k(2) _ _ clip] dr[OF that] len that by simp
  then obtain ms where ms: "all_metrics ?f 0 gen (map (fill_row vocab) tr) = Some ms"
    using all_metrics_Some[of gen "map (fill_row vocab) tr" ?f 0] len by fastforce
  have l: "length ms = length gen" and n: "\<And>i. i < length gen \<Longrightarrow> ?f i (gen ! i) (fill_row vocab (tr ! i)) = Some (ms ! i)"
    using all_metrics_nth[OF ms] len by auto
  have "verify_token_sequence c env clip prompt gen t k p seed = Some ms"
    using k(1) rows ne len(1) v ms
    by (auto simp: verify_token_sequence_def Let_def tr_def[symmetric]
        simp del: set_append set_map set_concat length_take length_drop)
  moreover have "\<forall>m \<in> set ms. tk_margin m = Fin 0 \<and> tk_exact_match m"
    using each n l by (fastforce simp: in_set_conv_nth)
  moreover have "map (\<lambda>m. int (tk_predicted m)) ms = gen"
    using each n l by (intro nth_equalityI) fastforce+
  ultimately show ?thesis using l by blast
qed

lemma fmean_const: "xs \<noteq> [] \<Longrightarrow> \<forall>x \<in> set xs. x = a \<Longrightarrow> fmean xs = (a::real)"
proof -
  assume a: "xs \<noteq> []" "\<forall>x \<in> set xs. x = a"
  then have "sum_list xs = sum_list (map (\<lambda>_. a) xs)" by (metis map_idI)
  then show "fmean xs = a" using a by (simp add: fmean_def sum_list_const_mult sum_list_triv)
qed

lemma exact_verdict:
  assumes "ms \<noteq> []" "\<forall>m \<in> set ms. tk_margin m = Fin 0 \<and> tk_exact_match m" "0 < clip" "0 < threshold"
  shows "rs_status (verdict c clip r threshold ms) = PASS"
    "ms_mean_margin (rs_metrics (verdict c clip r threshold ms)) = Some 0"
    "ms_exact_match_ratio (rs_metrics (verdict c clip r threshold ms)) = 1"
proof -
  have m: "fmean (map (\<lambda>m. clip_margin clip (tk_margin m)) ms) = 0"
    using assms by (intro fmean_const) (auto simp: clip_margin_def)
  show "rs_status (verdict c clip r threshold ms) = PASS"
    using verdict_status[OF assms(1)] m assms(4) by simp
  show "ms_mean_margin (rs_metrics (verdict c clip r threshold ms)) = Some 0"
    using m assms(1) by (simp add: verdict_def Let_def summarize_nonempty)
  have "filter tk_exact_match ms = ms" using assms(2) by (simp add: filter_id_conv)
  then show "ms_exact_match_ratio (rs_metrics (verdict c clip r threshold ms)) = 1"
    using assms(1) by (simp add: verdict_def Let_def summarize_def)
qed

lemma honest_outcome:
  fixes margin_clip :: "fl option"
  assumes "resolve_model c (requested_model r)" "precheck r = None" "0 < threshold"
    "honest_run c env (the (sc_temperature (rq_sampling r))) (the (sc_top_k (rq_sampling r)))
       (the (sc_top_p (rq_sampling r))) (the (sc_seed (rq_sampling r)))
       (the_ids (rq_prompt_token_ids r)) (the_ids (rq_output_token_ids r))"
  defines "outcome \<equiv> verify c env False r threshold margin_clip"
  shows "rs_status outcome = PASS \<and> ms_mean_margin (rs_metrics outcome) = Some 0
    \<and> ms_exact_match_ratio (rs_metrics outcome) = 1
    \<and> rs_verifier_output_token_ids outcome = the_ids (rq_output_token_ids r)"
proof -
  let ?clip = "active_clip c margin_clip"
  have ne: "the_ids (rq_output_token_ids r) \<noteq> []" using assms(2) by (simp add: precheck_None_iff)
  obtain ms where ms: "replayed c env ?clip r = Some ms" "length ms = length (the_ids (rq_output_token_ids r))"
      "\<forall>m \<in> set ms. tk_margin m = Fin 0 \<and> tk_exact_match m"
      "map (\<lambda>m. int (tk_predicted m)) ms = the_ids (rq_output_token_ids r)"
    using honest_replay[OF assms(4) ne active_clip_pos] unfolding replayed_def by blast
  have "outcome = verdict c ?clip r threshold ms"
    unfolding outcome_def verify_cases using assms(1,2) ms(1) by simp
  moreover have "ms \<noteq> []" using ms(2) ne by auto
  ultimately show ?thesis
    using exact_verdict[OF _ ms(3) active_clip_pos assms(3)] ms(4) by (simp add: verdict_def Let_def)
qed

text \<open>A request for one token over a vocabulary of two, to evaluate the theorems on.\<close>

definition demo_cfg :: verifier_cfg where
  "demo_cfg = \<lparr>vc_id = [109], vc_display_name = [109], vc_max_logprobs = 20, vc_vocab_size = Some 2,
     vc_margin_clip = Fin 10\<rparr>"

definition demo_env :: verifier_env where
  "demo_env = \<lparr>ve_completion = (\<lambda>ids t k p. Some [None, Some [(0, 0)]]), ve_noise = (\<lambda>seed j i. 1),
     ve_hf_vocab_size = 0\<rparr>"

definition demo_request :: verify_request where
  "demo_request = \<lparr>rq_request_id = [49], rq_prompt_token_ids = Some [0], rq_output_token_ids = Some [0],
     rq_model_name = [109], rq_model_id = None,
     rq_sampling = \<lparr>sc_seed = Some 7, sc_temperature = Some 1, sc_top_k = Some 1, sc_top_p = Some 1,
                    sc_max_output_tokens = Some 8\<rparr>,
     rq_usage_completion_tokens = Some 1, rq_constrained_decoding = Some False\<rparr>"

lemma demo_checks: "resolve_model demo_cfg (requested_model demo_request)" "precheck demo_request = None"
  by (simp_all add: resolve_model_def requested_model_def demo_cfg_def demo_request_def precheck_def
      the_ids_def sampling_missing_def)

lemma demo_top: "apply_top_k_top_p 1 1 [Some 0, None] = Some [Some 0, None]"
  by (simp add: apply_top_k_top_p_def sort_order_def top_k_sorted_def top_p_sorted_def softmax_def
      scatter_def exp_logit_def upt_rec less_option_def)

lemma demo_drawn: "drawn 1 1 1 [1, 1] [Some 0, None] 0"
  by (simp add: drawn_def get_probs_def scale_logits_def demo_top softmax_def exp_logit_def
      gumbel_scores_def argmax_def)

lemma demo_honest: "honest_run demo_cfg demo_env 1 1 1 7 [0] [0]"
  using demo_drawn
  by (simp add: honest_run_def demo_cfg_def demo_env_def resolve_vocab_size_def row_token_ids_def
      noise_row_def fill_row_def upt_rec numeral_2_eq_2)

text \<open>C5: an honest run passes. Suppose the request gets past the checks, names the model served and is
answered in time, and that the prover drew every output token by the Gumbel-Max trick, with the
request's seed, temperature (at least 1e-8), top-k and top-p, from the logits the verifier's own model
reports. Then the verdict is pass for every threshold above zero, the mean margin is exactly zero,
every token matches, and the tokens the verifier predicts are the prover's.\<close>

theorem honest_run_passes:
  fixes margin_clip :: "fl option"
  assumes "resolve_model c (requested_model r)" "precheck r = None" "0 < threshold"
    "honest_run c env (the (sc_temperature (rq_sampling r))) (the (sc_top_k (rq_sampling r)))
       (the (sc_top_p (rq_sampling r))) (the (sc_seed (rq_sampling r)))
       (the_ids (rq_prompt_token_ids r)) (the_ids (rq_output_token_ids r))"
  defines "outcome \<equiv> verify c env False r threshold margin_clip"
  shows "rs_status outcome = PASS \<and> ms_mean_margin (rs_metrics outcome) = Some 0
    \<and> ms_exact_match_ratio (rs_metrics outcome) = 1
    \<and> rs_verifier_output_token_ids outcome = the_ids (rq_output_token_ids r)"
  unfolding outcome_def by (rule honest_outcome[OF assms(1-4)])

lemma honest_run_passes_witness:
  "rs_status (verify demo_cfg demo_env False demo_request (1 / 10) None) = PASS"
  using honest_run_passes[of demo_cfg demo_request "1 / 10" demo_env None] demo_checks demo_honest
  by (simp add: demo_request_def the_ids_def)

section \<open>Passing bounds the tokens that miss\<close>

lemma sum_list_count:
  fixes xs :: "real list"
  assumes "\<forall>x \<in> set xs. 0 \<le> x"
  shows "d * real (length (filter (\<lambda>x. d \<le> x) xs)) \<le> sum_list xs"
  using assms
proof (induction xs)
  case (Cons x xs)
  then show ?case by (auto simp: algebra_simps)
qed simp

text \<open>The number of output tokens the prover's sampler could not have drawn: top-k or top-p removes them.\<close>

definition impossible_tokens :: "verifier_cfg \<Rightarrow> verifier_env \<Rightarrow> real \<Rightarrow> int \<Rightarrow> real \<Rightarrow> int list \<Rightarrow> int list \<Rightarrow> nat" where
  "impossible_tokens c env t k p prompt gen =
     (case ve_completion env (prompt @ gen) t k p of
        None \<Rightarrow> 0
      | Some rows \<Rightarrow>
          (case resolve_vocab_size c env (Max (set (gen @ map int (concat (map row_token_ids
                   (take (length gen) (drop (length prompt) rows))))))) of
             None \<Rightarrow> 0
           | Some vocab \<Rightarrow> length (filter (\<lambda>j. outside_sampling_set t k p (gen ! j)
                                              (fill_row vocab (rows ! (length prompt + j))))
                              [0..<length gen])))"

lemma replay_margins:
  assumes "verify_token_sequence c env clip prompt gen t k p seed = Some ms" "0 < clip"
  shows "\<forall>m \<in> set ms. 0 \<le> clip_margin clip (tk_margin m)"
    "impossible_tokens c env t k p prompt gen
      \<le> length (filter (\<lambda>x. clip \<le> x) (map (\<lambda>m. clip_margin clip (tk_margin m)) ms))"
proof -
  obtain rows vocab where a: "ve_completion env (prompt @ gen) t k p = Some rows" "length ms = length gen"
    and v: "resolve_vocab_size c env (Max (set (gen @ map int (concat (map row_token_ids
       (take (length gen) (drop (length prompt) rows))))))) = Some vocab"
    and m: "\<And>i. i < length gen \<Longrightarrow> nat (gen ! i) < vocab \<and>
       token_metric clip t k p (noise_row env seed vocab i) (gen ! i) (fill_row vocab (rows ! (length prompt + i)))
         = Some (ms ! i)"
    by (rule verify_token_sequenceD[OF assms(1)]) (rule that; blast)
  let ?out = "\<lambda>i. outside_sampling_set t k p (gen ! i) (fill_row vocab (rows ! (length prompt + i)))"
  have e: "0 \<le> clip_margin clip (tk_margin (ms ! i)) \<and> (?out i \<longrightarrow> clip_margin clip (tk_margin (ms ! i)) = clip)"
    if "i < length gen" for i
    using token_metric_margin[of clip t k p _ "gen ! i" _ "ms ! i"] m[OF that] assms(2)
    by (fastforce simp: clip_margin_def)
  show "\<forall>m \<in> set ms. 0 \<le> clip_margin clip (tk_margin m)" using e a(2) by (auto simp: in_set_conv_nth)
  have "length (filter ?out [0..<length gen])
      \<le> length (filter (\<lambda>x. clip \<le> x) (map (\<lambda>m. clip_margin clip (tk_margin m)) ms))"
    unfolding length_filter_conv_card using a(2) e by (intro card_mono) auto
  then show "impossible_tokens c env t k p prompt gen
      \<le> length (filter (\<lambda>x. clip \<le> x) (map (\<lambda>m. clip_margin clip (tk_margin m)) ms))"
    unfolding impossible_tokens_def a(1) option.case v .
qed

lemma passed_replay:
  assumes "rs_status (verify c env timed_out r threshold margin_clip) = PASS"
  obtains ms where "replayed c env (active_clip c margin_clip) r = Some ms" "ms \<noteq> []"
    "verify c env timed_out r threshold margin_clip = verdict c (active_clip c margin_clip) r threshold ms"
    "sum_list (map (\<lambda>m. clip_margin (active_clip c margin_clip) (tk_margin m)) ms) < threshold * real (length ms)"
proof -
  obtain ms where ms: "precheck r = None" "replayed c env (active_clip c margin_clip) r = Some ms"
      "verify c env timed_out r threshold margin_clip = verdict c (active_clip c margin_clip) r threshold ms"
    using verified_replay[of c env timed_out r threshold margin_clip] assms by auto
  have ne: "ms \<noteq> []" using replay_length[OF ms(2)] ms(1) by (auto simp: precheck_None_iff)
  then have "fmean (map (\<lambda>m. clip_margin (active_clip c margin_clip) (tk_margin m)) ms) < threshold"
    using verdict_status assms ms(3) by (metis verification_status.distinct(1))
  then have "sum_list (map (\<lambda>m. clip_margin (active_clip c margin_clip) (tk_margin m)) ms) < threshold * real (length ms)"
    using ne by (simp add: fmean_def pos_divide_less_eq)
  with ms ne that show ?thesis by blast
qed

text \<open>C6: what a pass is worth. When the verdict is pass, the margins the response lists are one for every
output token and none is negative; fewer than threshold * n / d of the n tokens have a margin of d or
more, for every d; and of the tokens that the prover's sampler could not have drawn at all, because
top-k or top-p removes them, there are fewer than threshold * n / clip.\<close>

theorem pass_bounds_misses:
  fixes margin_clip :: "fl option" and d :: real
  assumes "rs_status (verify c env timed_out r threshold margin_clip) = PASS"
  defines "margins \<equiv> ms_margins (rs_metrics (verify c env timed_out r threshold margin_clip))"
    and "n \<equiv> length (the_ids (rq_output_token_ids r))"
  shows "length margins = n \<and> (\<forall>x \<in> set margins. 0 \<le> x)
    \<and> d * real (length (filter (\<lambda>x. d \<le> x) margins)) < threshold * real n
    \<and> active_clip c margin_clip * real (impossible_tokens c env (the (sc_temperature (rq_sampling r)))
         (the (sc_top_k (rq_sampling r))) (the (sc_top_p (rq_sampling r)))
         (the_ids (rq_prompt_token_ids r)) (the_ids (rq_output_token_ids r))) < threshold * real n"
proof -
  let ?clip = "active_clip c margin_clip"
  obtain ms where ms: "replayed c env ?clip r = Some ms" "ms \<noteq> []"
      "verify c env timed_out r threshold margin_clip = verdict c ?clip r threshold ms"
      "sum_list (map (\<lambda>m. clip_margin ?clip (tk_margin m)) ms) < threshold * real (length ms)"
    using assms(1) by (elim passed_replay)
  have l: "length ms = n" using replay_length[OF ms(1)] by (simp add: n_def)
  have marg: "margins = map (\<lambda>m. clip_margin ?clip (tk_margin m)) ms"
    unfolding margins_def ms(3) using ms(2) by (simp add: verdict_def Let_def summarize_nonempty)
  note rm = replay_margins[OF ms(1)[unfolded replayed_def] active_clip_pos]
  have nonneg: "\<forall>x \<in> set margins. 0 \<le> x" using rm(1) marg by auto
  have "?clip * real (impossible_tokens c env (the (sc_temperature (rq_sampling r)))
         (the (sc_top_k (rq_sampling r))) (the (sc_top_p (rq_sampling r)))
         (the_ids (rq_prompt_token_ids r)) (the_ids (rq_output_token_ids r)))
      \<le> ?clip * real (length (filter (\<lambda>x. ?clip \<le> x) margins))"
    using rm(2) active_clip_pos[of c margin_clip] marg by (intro mult_left_mono) auto
  then show ?thesis
    using sum_list_count[OF nonneg, of d] sum_list_count[OF nonneg, of ?clip] ms(4) l marg nonneg
    by auto
qed


lemma demo_passes: "rs_status (verify demo_cfg demo_env False demo_request (1 / 10) None) = PASS"
  using honest_outcome[of demo_cfg demo_request "1 / 10" demo_env None] demo_checks demo_honest
  by (simp add: demo_request_def the_ids_def)

lemma pass_bounds_misses_witness:
  "5 * real (length (filter (\<lambda>x. 5 \<le> x)
     (ms_margins (rs_metrics (verify demo_cfg demo_env False demo_request (1 / 10) None))))) < 1 / 10"
  using pass_bounds_misses[OF demo_passes, of 5] by (simp add: demo_request_def the_ids_def)

end
