(* ===== verification/Base64.thy ===== *)
theory Base64
  imports Prelude
begin

text \<open>
  Base64 as Python's \<^verbatim>\<open>base64\<close> has it, which carries the token payloads between the services
  (\<^verbatim>\<open>message-writer/app/transform.py\<close> writes it, \<^verbatim>\<open>inf-ver-runner/app/mapper.py\<close> reads it): \<open>b64encode\<close>, and
  the decoder \<open>a2b_base64\<close> in its lenient mode, which skips characters that are not in the alphabet.
\<close>

definition b64_char :: "nat \<Rightarrow> char" where
  "b64_char n =
     (if n < 26 then char_of (65 + n)
      else if n < 52 then char_of (71 + n)
      else if n < 62 then char_of (n - 4)
      else if n = 62 then CHR ''+'' else CHR ''/'')"

definition b64_value :: "char \<Rightarrow> nat option" where
  "b64_value c = (let n = of_char c :: nat in
     if 65 \<le> n \<and> n \<le> 90 then Some (n - 65)
     else if 97 \<le> n \<and> n \<le> 122 then Some (n - 71)
     else if 48 \<le> n \<and> n \<le> 57 then Some (n + 4)
     else if n = 43 then Some 62
     else if n = 47 then Some 63
     else None)"

fun b64_encode :: "bytes \<Rightarrow> string" where
  "b64_encode [] = []"
| "b64_encode [a] =
     (let x = unat a in [b64_char (x div 4), b64_char (x mod 4 * 16), CHR ''='', CHR ''=''])"
| "b64_encode [a, b] =
     (let x = unat a; y = unat b in
      [b64_char (x div 4), b64_char (x mod 4 * 16 + y div 16), b64_char (y mod 16 * 4), CHR ''=''])"
| "b64_encode (a # b # c # d) =
     (let x = unat a; y = unat b; z = unat c in
      b64_char (x div 4) # b64_char (x mod 4 * 16 + y div 16) #
      b64_char (y mod 16 * 4 + z div 64) # b64_char (z mod 64) # b64_encode d)"

text \<open>
  The decoder keeps its place in the quad, the bits left over and the padding seen; padding that
  completes a quad ends the data, and what is after it is not read.
\<close>

fun b64_quads :: "nat \<Rightarrow> nat \<Rightarrow> nat \<Rightarrow> string \<Rightarrow> bytes option" where
  "b64_quads quad left pads [] = (if quad = 0 then Some [] else None)"
| "b64_quads quad left pads (c # s) =
     (if c = CHR ''='' then
        (if quad < 2 then b64_quads quad left pads s
         else if quad + pads + 1 \<ge> 4 then Some []
         else b64_quads quad left (pads + 1) s)
      else case b64_value c of
          None \<Rightarrow> b64_quads quad left pads s
        | Some v \<Rightarrow>
            if quad = 0 then b64_quads 1 v 0 s
            else if quad = 1 then
              map_option ((#) (word_of_nat (left * 4 + v div 16))) (b64_quads 2 (v mod 16) 0 s)
            else if quad = 2 then
              map_option ((#) (word_of_nat (left * 16 + v div 4))) (b64_quads 3 (v mod 4) 0 s)
            else map_option ((#) (word_of_nat (left * 64 + v))) (b64_quads 0 0 0 s))"

definition b64_decode :: "string \<Rightarrow> bytes option" where
  "b64_decode s = b64_quads 0 0 0 s"

lemma b64_value_char: "n < 64 \<Longrightarrow> b64_value (b64_char n) = Some n"
  by (auto simp: b64_value_def b64_char_def Let_def)

lemma b64_char_not_pad: "n < 64 \<Longrightarrow> b64_char n \<noteq> CHR ''=''"
  using b64_value_char[of n] by (auto simp: b64_value_def)

lemma b64_quads_char:
  assumes "v < 64"
  shows "b64_quads 0 left pads (b64_char v # s) = b64_quads 1 v 0 s"
    "b64_quads 1 left pads (b64_char v # s) =
       map_option ((#) (word_of_nat (left * 4 + v div 16))) (b64_quads 2 (v mod 16) 0 s)"
    "b64_quads 2 left pads (b64_char v # s) =
       map_option ((#) (word_of_nat (left * 16 + v div 4))) (b64_quads 3 (v mod 4) 0 s)"
    "b64_quads 3 left pads (b64_char v # s) =
       map_option ((#) (word_of_nat (left * 64 + v))) (b64_quads 0 0 0 s)"
  using assms by (simp_all add: b64_value_char b64_char_not_pad)

lemma b64_quads_pads:
  "b64_quads 2 left 0 [CHR ''='', CHR ''=''] = Some []"
  "b64_quads 3 left 0 [CHR ''=''] = Some []"
  by (simp_all add: numeral_eq_Suc)

lemma b64_roundtrip: "b64_decode (b64_encode d) = Some d"
proof -
  have byte: "unat a div 4 < 64" "unat a mod 4 * 16 + unat b div 16 < 64" "unat a mod 4 * 16 < 64"
    "unat b mod 16 * 4 + unat c div 64 < 64" "unat b mod 16 * 4 < 64" "unat c mod 64 < 64" for a b c :: byte
    using unat_byte_lt[of a] unat_byte_lt[of b] unat_byte_lt[of c] by linarith+
  have div_glue: "(p * m + q) div m = p" "(p * m + q) mod m = q" if "q < m" for p q m :: nat
    using that by simp_all
  have small: "unat b div 16 < 16" "unat c div 64 < 4" for b c :: byte
    using unat_byte_lt[of b] unat_byte_lt[of c] by linarith+
  have glue: "unat a div 4 * 4 + (unat a mod 4 * 16 + unat b div 16) div 16 = unat a"
    "unat a div 4 * 4 + unat a mod 4 * 16 div 16 = unat a"
    "(unat a mod 4 * 16 + unat b div 16) mod 16 * 16 + (unat b mod 16 * 4 + unat c div 64) div 4 = unat b"
    "(unat a mod 4 * 16 + unat b div 16) mod 16 * 16 + unat b mod 16 * 4 div 4 = unat b"
    "(unat b mod 16 * 4 + unat c div 64) mod 4 * 64 + unat c mod 64 = unat c" for a b c :: byte
    by (simp_all only: div_glue[OF small(1)] div_glue[OF small(2)] nonzero_mult_div_cancel_right
        div_mult_mod_eq zero_neq_numeral not_False_eq_True)
  have byte_of_unat: "word_of_nat (unat a) = a" for a :: byte by simp
  have "b64_quads 0 0 0 (b64_encode d) = Some d"
    by (induction d rule: b64_encode.induct)
      (simp_all only: b64_encode.simps Let_def b64_quads_char[OF byte(1)] b64_quads_char[OF byte(2)]
        b64_quads_char[OF byte(3)] b64_quads_char[OF byte(4)] b64_quads_char[OF byte(5)]
        b64_quads_char[OF byte(6)] b64_quads_pads glue option.map byte_of_unat
        b64_quads.simps(1) if_True simp_thms)
  then show ?thesis by (simp add: b64_decode_def)
qed

end
