(* ===== verification/Writer.thy ===== *)
theory Writer
  imports Base64 Json
begin

text \<open>
  The message writer (\<^verbatim>\<open>message-writer/app\<close>): from a tap message to the inference event the ledger stores
  (\<^verbatim>\<open>transform.py\<close>), and the endpoint that resolves and writes it (\<^verbatim>\<open>main.py\<close>, \<^verbatim>\<open>ledger_client.py\<close>).

  SHA-256, the fresh UUID and the ledger's answers are arguments. A tap message has been validated by
  its schema, so the fields have their types; fields the writer does not read are left out.
\<close>

section \<open>Tap messages\<close>

record tap_message =
  tm_hostname :: "ustr option"
  tm_received_at :: "ustr option"
  tm_completed_at :: "ustr option"
  tm_pod_name :: "ustr option"
  tm_node_name :: "ustr option"
  tm_session_id :: "ustr option"
  tm_response_id :: "ustr option"
  tm_model_name :: "ustr option"
  tm_prompt_text :: "ustr option"
  tm_prompt_token_ids :: "int list option"
  tm_output_text :: "ustr option"
  tm_output_token_ids :: "int list option"
  tm_output_logprobs :: json
  tm_usage_completion_tokens :: "int option"
  tm_constrained_decoding :: "bool option"

record inference_event =
  ie_id :: ustr
  ie_session_id :: ustr
  ie_ts :: "ustr option"
  ie_started_at :: "ustr option"
  ie_model_id :: ustr
  ie_hardware_id :: ustr
  ie_pod_name :: "ustr option"
  ie_node_name :: "ustr option"
  ie_input_raw_logits :: "ustr option"
  ie_output_raw_logits :: "ustr option"
  ie_hash_input_raw_logits :: ustr
  ie_hash_output_raw_logits :: ustr
  ie_input_text_representation :: "ustr option"
  ie_output_text_representation :: "ustr option"

section \<open>Building the event\<close>

text \<open>\<open>a or b\<close> on texts that may be missing.\<close>

definition str_or :: "ustr option \<Rightarrow> ustr option \<Rightarrow> ustr option" where
  "str_or a b = (case a of Some (c # cs) \<Rightarrow> a | _ \<Rightarrow> b)"

definition b64_text :: "bytes \<Rightarrow> ustr" where
  "b64_text d = uni (b64_encode d)"

definition json_ids :: "int list option \<Rightarrow> json" where
  "json_ids x = (case x of None \<Rightarrow> JNull | Some ids \<Rightarrow> JList (map JInt ids))"

definition json_text :: "ustr option \<Rightarrow> json" where
  "json_text x = (case x of None \<Rightarrow> JNull | Some s \<Rightarrow> JStr s)"

definition input_payload :: "tap_message \<Rightarrow> json" where
  "input_payload msg =
     (if tm_prompt_token_ids msg \<noteq> None
      then JDict [(uni ''prompt_token_ids'', json_ids (tm_prompt_token_ids msg))]
      else JDict [(uni ''prompt_text'', json_text (tm_prompt_text msg))])"

definition output_payload :: "tap_message \<Rightarrow> json" where
  "output_payload msg = JDict
     ([(uni ''output_token_ids'', json_ids (tm_output_token_ids msg)),
       (uni ''output_logprobs'', tm_output_logprobs msg)]
      @ (case tm_usage_completion_tokens msg of
           None \<Rightarrow> []
         | Some n \<Rightarrow> [(uni ''usage_completion_tokens'', JInt n)])
      @ (case tm_constrained_decoding msg of
           None \<Rightarrow> []
         | Some b \<Rightarrow> [(uni ''constrained_decoding'', JBool b)]))"

definition build_inference_event ::
  "bool \<Rightarrow> (bytes \<Rightarrow> bytes) \<Rightarrow> ustr \<Rightarrow> tap_message \<Rightarrow> ustr \<Rightarrow> ustr \<Rightarrow> inference_event" where
  "build_inference_event store_raw sha256 new_id msg model_id hardware_id =
     (let input_bytes = canonical (input_payload msg); output_bytes = canonical (output_payload msg) in
      \<lparr>ie_id = new_id,
       ie_session_id = the (str_or (tm_session_id msg) (str_or (tm_response_id msg) (Some (uni ''unknown'')))),
       ie_ts = str_or (tm_completed_at msg) (tm_received_at msg),
       ie_started_at = tm_received_at msg,
       ie_model_id = model_id,
       ie_hardware_id = hardware_id,
       ie_pod_name = tm_pod_name msg,
       ie_node_name = tm_node_name msg,
       ie_input_raw_logits = (if store_raw then Some (b64_text input_bytes) else None),
       ie_output_raw_logits = (if store_raw then Some (b64_text output_bytes) else None),
       ie_hash_input_raw_logits = b64_text (sha256 input_bytes),
       ie_hash_output_raw_logits = b64_text (sha256 output_bytes),
       ie_input_text_representation = tm_prompt_text msg,
       ie_output_text_representation = tm_output_text msg\<rparr>)"

section \<open>The endpoint\<close>

text \<open>What a call of the ledger brings: no answer, or a status with a body.\<close>

datatype 'a reply = Unreachable | Reply nat 'a

record resolution =
  res_model_id :: ustr
  res_hardware_id :: ustr
  res_model_name_matches :: "bool option"

definition http_success :: "nat \<Rightarrow> bool" where
  "http_success code \<longleftrightarrow> 200 \<le> code \<and> code < 300"

text \<open>\<open>resolve\<close>: \<open>None\<close> is the exception, \<open>Some None\<close> the 404.\<close>

definition resolve :: "resolution reply \<Rightarrow> resolution option option" where
  "resolve reply =
     (case reply of
        Unreachable \<Rightarrow> None
      | Reply code body \<Rightarrow> if code = 404 then Some None else if http_success code then Some (Some body) else None)"

definition create_inference_event :: "unit reply \<Rightarrow> bool" where
  "create_inference_event reply = (case reply of Unreachable \<Rightarrow> False | Reply code _ \<Rightarrow> http_success code)"

text \<open>\<open>ingest\<close>: the status, and the event if one was sent to the ledger.\<close>

definition ingest ::
  "bool \<Rightarrow> (bytes \<Rightarrow> bytes) \<Rightarrow> ustr \<Rightarrow> (ustr \<Rightarrow> ustr \<Rightarrow> ustr option \<Rightarrow> resolution reply)
     \<Rightarrow> (inference_event \<Rightarrow> unit reply) \<Rightarrow> tap_message \<Rightarrow> nat \<times> inference_event option" where
  "ingest store_raw sha256 new_id ask put msg =
     (case (str_or (tm_hostname msg) None, str_or (str_or (tm_completed_at msg) (tm_received_at msg)) None) of
        (Some hostname, Some ts) \<Rightarrow>
          (case resolve (ask hostname ts (str_or (tm_model_name msg) None)) of
             None \<Rightarrow> (502, None)
           | Some None \<Rightarrow> (422, None)
           | Some (Some r) \<Rightarrow>
               let event = build_inference_event store_raw sha256 new_id msg (res_model_id r) (res_hardware_id r) in
               (if create_inference_event (put event) then 201 else 502, Some event))
      | _ \<Rightarrow> (422, None))"

end
