(* ===== verification/Mapper.thy ===== *)
theory Mapper
  imports Verifier Writer
begin

text \<open>
  \<^verbatim>\<open>inf-ver-runner/app/mapper.py\<close>: from an inference event of the ledger to the request the verifier
  takes, and from its response to the verification event the ledger stores.

  \<open>canon\<close> and \<open>other\<close> are the arguments of the JSON parser (see \<open>Json\<close>), \<open>repr\<close> Python's text of a float.
  Clock readings and texts for people are left out, as in \<open>Verifier\<close>.
\<close>

section \<open>Reading an inference event\<close>

record ledger_item =
  li_id :: ustr
  li_input_raw_logits :: "ustr option"
  li_output_raw_logits :: "ustr option"
  li_model_name :: ustr
  li_seed :: "int option"
  li_temperature :: "real option"
  li_top_k :: "int option"
  li_top_p :: "real option"

text \<open>\<open>b64decode\<close> of a text: characters beyond ASCII make it raise.\<close>

definition b64_text_decode :: "ustr \<Rightarrow> bytes option" where
  "b64_text_decode s = (if \<forall>c \<in> set s. c < 128 then b64_decode (map char_of s) else None)"

definition decode_payload :: "json_reader \<Rightarrow> ustr option \<Rightarrow> (ustr \<times> json) list" where
  "decode_payload loads raw =
     (case str_or raw None of
        None \<Rightarrow> []
      | Some s \<Rightarrow>
          (case do { d \<leftarrow> b64_text_decode s; loads d } of
             Some (JDict d) \<Rightarrow> d
           | _ \<Rightarrow> []))"

text \<open>A boolean passes as an int, and the request's schema makes it one.\<close>

fun int_of_json :: "json \<Rightarrow> int" where
  "int_of_json (JInt i) = i"
| "int_of_json (JBool b) = of_bool b"
| "int_of_json _ = 0"

definition token_ids :: "(ustr \<times> json) list \<Rightarrow> string \<Rightarrow> int list option" where
  "token_ids payload key =
     (case dget payload key of
        JList xs \<Rightarrow> if list_all is_int xs then Some (map int_of_json xs) else None
      | _ \<Rightarrow> None)"

definition inference_event_to_verify_request :: "json_reader \<Rightarrow> ledger_item \<Rightarrow> verify_request" where
  "inference_event_to_verify_request loads item =
     (let output = decode_payload loads (li_output_raw_logits item);
          ids = token_ids output ''output_token_ids'';
          usage = dget output ''usage_completion_tokens'' in
      \<lparr>rq_request_id = li_id item,
       rq_prompt_token_ids = token_ids (decode_payload loads (li_input_raw_logits item)) ''prompt_token_ids'',
       rq_output_token_ids = ids,
       rq_model_name = li_model_name item,
       rq_model_id = None,
       rq_sampling =
         \<lparr>sc_seed = li_seed item, sc_temperature = li_temperature item, sc_top_k = li_top_k item,
          sc_top_p = li_top_p item,
          sc_max_output_tokens = (case ids of Some (i # is) \<Rightarrow> Some (int (length (i # is))) | _ \<Rightarrow> None)\<rparr>,
       rq_usage_completion_tokens = (if is_int usage then Some (int_of_json usage) else None),
       rq_constrained_decoding =
         (case dget output ''constrained_decoding'' of JBool b \<Rightarrow> Some b | _ \<Rightarrow> None)\<rparr>)"

section \<open>Writing the verdict\<close>

record verification_payload =
  vp_inference_event_id :: ustr
  vp_hardware_id :: ustr
  vp_result :: verification_status
  vp_error_code :: "error_code option"
  vp_verification_threshold :: real
  vp_verifier_model_id :: ustr
  vp_exact_match_level_pct :: "real option"
  vp_mean_logit_difference :: "real option"
  vp_std_dev_logit_difference :: "real option"
  vp_logit_difference_margins :: "ustr option"
  vp_prompt_token_count :: nat
  vp_output_token_count :: nat
  vp_runner_concurrency :: nat
  vp_prover_output_token_ids :: "int list"
  vp_verifier_output_token_ids :: "int list"
  vp_output_token_comparison :: "output_token_comparison list"
  vp_metrics :: metric_summary

text \<open>\<open>statistics.pstdev\<close>\<close>

definition pstdev :: "real list \<Rightarrow> real" where
  "pstdev xs = sqrt (fmean (map (\<lambda>x. (x - fmean xs)\<^sup>2) xs))"

definition build_verification_event_payload ::
  "(real \<Rightarrow> ustr) \<Rightarrow> verify_request \<Rightarrow> verify_response \<Rightarrow> ustr \<Rightarrow> ustr \<Rightarrow> nat \<Rightarrow> verification_payload" where
  "build_verification_event_payload repr request response hardware_id verifier_model_id concurrency =
     (let metrics = rs_metrics response; margins = ms_margins metrics in
      \<lparr>vp_inference_event_id = rq_request_id request,
       vp_hardware_id = hardware_id,
       vp_result = rs_status response,
       vp_error_code = rs_error_code response,
       vp_verification_threshold = rs_match_target response,
       vp_verifier_model_id = verifier_model_id,
       vp_exact_match_level_pct =
         (if ms_token_count metrics \<noteq> 0 then Some (ms_exact_match_ratio metrics) else None),
       vp_mean_logit_difference = ms_mean_margin metrics,
       vp_std_dev_logit_difference = (if length margins \<ge> 2 then Some (pstdev margins) else None),
       vp_logit_difference_margins =
         (if margins \<noteq> [] then Some (b64_text (canonical (JList (map (\<lambda>m. JFloat (repr m)) margins)))) else None),
       vp_prompt_token_count = length (the_ids (rq_prompt_token_ids request)),
       vp_output_token_count = length (the_ids (rq_output_token_ids request)),
       vp_runner_concurrency = concurrency,
       vp_prover_output_token_ids = rs_prover_output_token_ids response,
       vp_verifier_output_token_ids = rs_verifier_output_token_ids response,
       vp_output_token_comparison = rs_output_token_comparison response,
       vp_metrics = metrics\<rparr>)"

end
