(* ===== verification/Json_Proofs.thy ===== *)
theory Json_Proofs
  imports Json "HOL-Library.Multiset"
begin

text \<open>
  What is written is read back: the parser of \<open>Json\<close> inverts the renderer, and the canonical text of a
  value reads as the value with its keys sorted.
\<close>

section \<open>What can be written\<close>

text \<open>
  Strings are sequences of Unicode scalar values; a float's representation is one that reads as
  itself; the keys of an object differ.
\<close>

definition ustr_ok :: "ustr \<Rightarrow> bool" where
  "ustr_ok s \<longleftrightarrow> (\<forall>c \<in> set s. c < 55296 \<or> 57344 \<le> c \<and> c < 1114112)"

definition float_ok :: "(ustr \<Rightarrow> ustr) \<Rightarrow> ustr \<Rightarrow> bool" where
  "float_ok canon f \<longleftrightarrow> f \<in> {uni ''nan'', uni ''inf'', uni ''-inf''} \<or> read_number canon f = Some (JFloat f, [])"

primrec json_ok :: "(ustr \<Rightarrow> ustr) \<Rightarrow> json \<Rightarrow> bool" where
  "json_ok canon JNull = True"
| "json_ok canon (JBool b) = True"
| "json_ok canon (JInt i) = True"
| "json_ok canon (JFloat f) = float_ok canon f"
| "json_ok canon (JStr s) = ustr_ok s"
| "json_ok canon (JList xs) = list_all id (map (json_ok canon) xs)"
| "json_ok canon (JDict d) =
     (distinct (keys d) \<and> list_all ustr_ok (keys d) \<and> list_all snd (map (map_prod id (json_ok canon)) d))"

lemma json_ok_simps:
  "json_ok canon (JList xs) \<longleftrightarrow> (\<forall>x \<in> set xs. json_ok canon x)"
  "json_ok canon (JDict d) \<longleftrightarrow> distinct (keys d) \<and> (\<forall>k \<in> set (keys d). ustr_ok k) \<and>
     (\<forall>kv \<in> set d. json_ok canon (snd kv))"
  by (auto simp: list_all_iff)

definition delimited :: "ustr \<Rightarrow> bool" where
  "delimited s \<longleftrightarrow> (case s of [] \<Rightarrow> True | c # _ \<Rightarrow> c \<in> {44, 93, 125})"

lemma delimited_simps [simp]:
  "delimited []" "delimited (44 # s)" "delimited (93 # s)" "delimited (125 # s)"
  by (simp_all add: delimited_def)

section \<open>Strings\<close>

lemma hex_code_digit:
  assumes "n < 16"
  shows "hex_code (of_char (digit_char n)) = Some n"
proof -
  have "n \<in> set [0..<16]" using assms by simp
  then show ?thesis
    by (simp add: upt_rec[of _ 16] hex_code_def hex_val_def digit_char_def Let_def)
      (elim disjE; simp)
qed

lemma take_hex4_render:
  assumes "n < 65536"
  shows "take_hex4 (render_hex4 n @ r) = Some (n, r)"
proof -
  have d: "n div 256 = n div 16 div 16" "n div 4096 = n div 16 div 16 div 16"
    by (simp_all add: div_mult2_eq[symmetric])
  have "n div 4096 < 16" using assms by simp
  moreover have "((n div 4096 * 16 + n div 256 mod 16) * 16 + n div 16 mod 16) * 16 + n mod 16 = n"
    unfolding d by (simp only: div_mult_mod_eq)
  ultimately show ?thesis by (simp add: render_hex4_def hex_code_digit)
qed

lemma take_low_escape: "56320 \<le> v \<Longrightarrow> v < 57344 \<Longrightarrow> take_low (unicode_escape v @ r) = Some (v, r)"
  by (simp add: unicode_escape_def take_hex4_render)

lemma read_escape_unicode:
  "n < 65536 \<Longrightarrow> n < 55296 \<or> 56320 \<le> n \<Longrightarrow> read_escape (117 # render_hex4 n @ r) = Some (n, r)"
  by (auto simp: short_escape_def take_hex4_render)

lemma read_escape_pair:
  assumes "65536 \<le> c" "c < 1114112"
  shows "read_escape (117 # render_hex4 (55296 + (c - 65536) div 1024)
    @ unicode_escape (56320 + (c - 65536) mod 1024) @ r) = Some (c, r)"
proof -
  have "(c - 65536) div 1024 < 1024" using assms by simp
  moreover have "65536 + (c - 65536) div 1024 * 1024 + (c - 65536) mod 1024 = c" using assms by simp
  ultimately show ?thesis by (simp add: short_escape_def take_hex4_render take_low_escape)
qed

lemma escape_char_cases:
  assumes "c < 55296 \<or> 57344 \<le> c \<and> c < 1114112"
  obtains "escape_char c = [c]" "c \<noteq> 34" "c \<noteq> 92" "32 \<le> c"
  | e where "escape_char c = 92 # e" "\<And>r. read_escape (e @ r) = Some (c, r)"
proof (cases "c \<in> {34, 92, 10, 13, 9, 8, 12} \<or> 32 \<le> c \<and> c \<le> 126")
  case True
  then consider "c \<in> {34, 92, 10, 13, 9, 8, 12}" | "c \<notin> {34, 92, 10, 13, 9, 8, 12}" "32 \<le> c" "c \<le> 126"
    by blast
  then show ?thesis
  proof cases
    case 1
    then show ?thesis by (intro that(2)[of "tl (escape_char c)"]) (auto simp: escape_char_def short_escape_def)
  next
    case 2
    then show ?thesis by (intro that(1)) (simp_all add: escape_char_def)
  qed
next
  case False
  then have e: "escape_char c = (if c < 65536 then unicode_escape c
      else unicode_escape (55296 + (c - 65536) div 1024) @ unicode_escape (56320 + (c - 65536) mod 1024))"
    by (auto simp: escape_char_def)
  show ?thesis
  proof (cases "c < 65536")
    case True
    then show ?thesis
      using e assms by (intro that(2)[of "117 # render_hex4 c"])
        (auto simp: unicode_escape_def simp del: read_escape.simps intro!: read_escape_unicode)
  next
    case False
    then show ?thesis
      using e assms read_escape_pair[of c]
      by (intro that(2)[of "117 # render_hex4 (55296 + (c - 65536) div 1024) @ unicode_escape (56320 + (c - 65536) mod 1024)"])
        (auto simp: unicode_escape_def simp del: read_escape.simps)
  qed
qed

lemma read_string_escaped:
  "ustr_ok s \<Longrightarrow> length s < n \<Longrightarrow> read_string n (concat (map escape_char s) @ 34 # r) = Some (s, r)"
proof (induction s arbitrary: n)
  case Nil
  then show ?case by (cases n) simp_all
next
  case (Cons c s)
  then obtain m where n: "n = Suc m" "length s < m" by (cases n) auto
  have ok: "ustr_ok s" "c < 55296 \<or> 57344 \<le> c \<and> c < 1114112" using Cons.prems by (simp_all add: ustr_ok_def)
  note ih = Cons.IH[OF ok(1) n(2)]
  from ok(2) show ?case
    by (cases rule: escape_char_cases) (simp_all add: n(1) ih del: read_escape.simps)
qed

lemma length_escape_char: "escape_char c \<noteq> []"
  by (simp add: escape_char_def unicode_escape_def)

lemma length_escaped: "length s \<le> length (concat (map escape_char s))"
proof (induction s)
  case (Cons c s)
  have "1 \<le> length (escape_char c)" using length_escape_char[of c] by (cases "escape_char c") simp_all
  with Cons.IH have "1 + length s \<le> length (escape_char c) + length (concat (map escape_char s))"
    by (rule add_mono[rotated])
  then show ?case by simp
qed simp

lemma read_render_string:
  assumes "ustr_ok s"
  shows "read_string (length (tl (render_string s @ r))) (tl (render_string s @ r)) = Some (s, r)"
  using read_string_escaped[OF assms, of "length (tl (render_string s @ r))" r] length_escaped[of s]
  by (simp add: render_string_def)

section \<open>Numbers\<close>

lemma digit_code: "n < 10 \<Longrightarrow> of_char (digit_char n) = 48 + n"
proof -
  assume "n < 10"
  then have "n \<in> set [0..<10]" by simp
  then show ?thesis
    by (simp add: upt_rec[of _ 10] digit_char_def) (elim disjE; simp)
qed

lemma uni_append: "uni (s @ t) = uni s @ uni t"
  by (simp add: uni_def)

lemma digits_value_snoc: "digits_value (ds @ [d]) = digits_value ds * 10 + (d - 48)"
  by (simp add: digits_value_def)

lemma show_decimal:
  "digits_value (uni (show_base 10 n)) = n \<and> list_all is_digit (uni (show_base 10 n)) \<and>
   uni (show_base 10 n) \<noteq> [] \<and> (hd (uni (show_base 10 n)) = 48 \<longrightarrow> n = 0)"
proof (induction n rule: less_induct)
  case (less n)
  show ?case
  proof (cases "n < 10")
    case True
    then show ?thesis
      by (simp add: show_base.simps[of 10 n] uni_def digits_value_def is_digit_def digit_code)
  next
    case False
    define s where "s = uni (show_base 10 (n div 10))"
    have s: "uni (show_base 10 n) = s @ [48 + n mod 10]"
      using False by (simp add: show_base.simps[of 10 n] s_def uni_def digit_code)
    have "digits_value s = n div 10 \<and> list_all is_digit s \<and> s \<noteq> [] \<and> (hd s = 48 \<longrightarrow> n div 10 = 0)"
      unfolding s_def using False by (intro less.IH) simp
    moreover have "is_digit (48 + n mod 10)" by (simp add: is_digit_def)
    ultimately show ?thesis using False unfolding s by (auto simp: digits_value_snoc)
  qed
qed

lemma is_digit_not: "is_digit c \<Longrightarrow> c \<notin> {34, 43, 44, 45, 46, 69, 91, 93, 101, 123, 125, 32, 9, 10, 13, 58, 110, 116, 102, 78, 73}"
  by (auto simp: is_digit_def)

lemma span_digits_all:
  "list_all is_digit ds \<Longrightarrow> (case r of [] \<Rightarrow> True | c # _ \<Rightarrow> \<not> is_digit c) \<Longrightarrow> span_digits (ds @ r) = (ds, r)"
  by (induction ds) (auto simp: span_digits_def split: list.splits)

lemma delimited_not_digit: "delimited r \<Longrightarrow> (case r of [] \<Rightarrow> True | c # _ \<Rightarrow> \<not> is_digit c)"
  by (auto simp: delimited_def is_digit_def split: list.splits)

lemma delimited_fraction: "delimited r \<Longrightarrow> read_fraction r = ([], r) \<and> read_exponent r = ([], r)"
  by (auto simp: delimited_def read_fraction_def read_exponent_def Let_def split: list.splits prod.splits)

lemma read_integer_part_decimal:
  assumes "delimited r"
  shows "read_integer_part (uni (show_base 10 n) @ r) = Some (uni (show_base 10 n), r)"
proof (cases "uni (show_base 10 n)")
  case Nil
  then show ?thesis using show_decimal[of n] by simp
next
  case (Cons c ds)
  have all: "list_all is_digit (c # ds)" "c = 48 \<longrightarrow> n = 0" using show_decimal[of n] Cons by simp_all
  show ?thesis
  proof (cases "c = 48")
    case True
    with all(2) have "n = 0" by simp
    then have "ds = []" using Cons by (simp add: show_base.simps uni_def)
    with True Cons show ?thesis by (simp add: read_integer_part_def)
  next
    case False
    then show ?thesis
      using Cons all span_digits_all[OF all(1) delimited_not_digit[OF assms]]
      by (simp add: read_integer_part_def)
  qed
qed

lemma read_number_int:
  assumes "delimited r"
  shows "read_number canon (render_int i @ r) = Some (JInt i, r)"
proof -
  define ds where "ds = uni (show_base 10 (nat \<bar>i\<bar>))"
  have ds: "digits_value ds = nat \<bar>i\<bar>" "list_all is_digit ds" "ds \<noteq> []"
    using show_decimal[of "nat \<bar>i\<bar>"] by (simp_all add: ds_def)
  then have "hd ds \<noteq> 45" using is_digit_not[of "hd ds"] by (cases ds) auto
  then have "read_sign [45] (render_int i @ r) = (if i < 0 then [45] else [], ds @ r)"
    using ds(3) by (cases ds) (auto simp: read_sign_def render_int_def ds_def)
  then show ?thesis
    using read_integer_part_decimal[OF assms, of "nat \<bar>i\<bar>"] delimited_fraction[OF assms] ds(1)
    by (simp add: read_number_def ds_def)
qed

lemma span_digits_append:
  assumes "span_digits s = (ds, q)" "q = [] \<Longrightarrow> (case r of [] \<Rightarrow> True | c # _ \<Rightarrow> \<not> is_digit c)"
  shows "span_digits (s @ r) = (ds, q @ r)"
proof -
  have s: "s = ds @ q" "list_all is_digit ds" "case q of [] \<Rightarrow> True | c # _ \<Rightarrow> \<not> is_digit c"
    using assms(1) set_takeWhileD[of _ is_digit s] hd_dropWhile[of is_digit s]
    by (auto simp: span_digits_def list_all_iff split: list.splits)
  show ?thesis
  proof (cases q)
    case Nil
    then show ?thesis using span_digits_all[OF s(2) assms(2)] s(1) by simp
  next
    case (Cons c t)
    then show ?thesis using span_digits_all[OF s(2), of "q @ r"] s(1,3) by simp
  qed
qed

text \<open>A literal that reads as a whole reads the same in front of a delimiter.\<close>

lemma read_number_append:
  assumes n: "read_number canon f = Some (v, [])" and d: "delimited r"
  shows "read_number canon (f @ r) = Some (v, r)"
proof -
  note nd = delimited_not_digit[OF d]
  obtain sg r1 where sg: "read_sign [45] f = (sg, r1)" by (cases "read_sign [45] f")
  have "read_integer_part r1 \<noteq> None" using n sg by (cases "read_integer_part r1") (auto simp: read_number_def)
  then obtain ds r2 where ds: "read_integer_part r1 = Some (ds, r2)" by auto
  obtain fr r3 where fr: "read_fraction r2 = (fr, r3)" by (cases "read_fraction r2")
  obtain ex where ex: "read_exponent r3 = (ex, [])"
    using n sg ds fr by (auto simp: read_number_def split: prod.splits)
  have v: "v = (if fr = [] \<and> ex = []
        then JInt (if sg = [] then int (digits_value ds) else - int (digits_value ds))
        else JFloat (canon (sg @ ds @ fr @ ex)))"
    using n sg ds fr ex by (simp add: read_number_def)
  have "r1 \<noteq> []" using ds by (auto simp: read_integer_part_def)
  then have 1: "read_sign [45] (f @ r) = (sg, r1 @ r)"
    using sg by (auto simp: read_sign_def split: list.splits if_splits)
  have 2: "read_integer_part (r1 @ r) = Some (ds, r2 @ r)"
    using ds nd span_digits_append[of r1 ds r2 r] by (auto simp: read_integer_part_def split: list.splits if_splits)
  have 3: "read_fraction (r2 @ r) = (fr, r3 @ r)"
  proof (cases r2)
    case Nil
    then show ?thesis using fr delimited_fraction[OF d] by (auto simp: read_fraction_def)
  next
    case (Cons c t)
    obtain ts q where t: "span_digits t = (ts, q)" by (cases "span_digits t")
    then have "span_digits (t @ r) = (ts, q @ r)" using nd by (rule span_digits_append)
    then show ?thesis using fr Cons t by (auto simp: read_fraction_def Let_def split: if_splits)
  qed
  have 4: "read_exponent (r3 @ r) = (ex, r)"
  proof (cases r3)
    case Nil
    then show ?thesis using ex delimited_fraction[OF d] by (auto simp: read_exponent_def)
  next
    case (Cons c t)
    obtain es q where q: "read_sign [43, 45] t = (es, q)" by (cases "read_sign [43, 45] t")
    obtain ts z where t: "span_digits q = (ts, z)" by (cases "span_digits q")
    have live: "(c = 101 \<or> c = 69) \<and> ts \<noteq> []" "ex = c # es @ ts" "z = []"
      using ex Cons q t by (auto simp: read_exponent_def Let_def split: if_splits)
    then have "q \<noteq> []" using t by (auto simp: span_digits_def)
    then have "read_sign [43, 45] (t @ r) = (es, q @ r)"
      using q by (auto simp: read_sign_def split: list.splits if_splits)
    moreover have "span_digits (q @ r) = (ts, z @ r)" using t nd by (rule span_digits_append)
    ultimately show ?thesis using Cons live by (simp add: read_exponent_def Let_def)
  qed
  show ?thesis using v by (simp add: read_number_def 1 2 3 4)
qed

lemma read_number_head:
  assumes "read_number canon s = Some (v, r)"
  shows "\<exists>c t. s = c # t \<and> (is_digit c \<or> c = 45 \<and> (\<exists>d u. t = d # u \<and> is_digit d))"
  using assms
  by (auto simp: read_number_def read_sign_def read_integer_part_def bind_eq_Some_conv is_digit_def
      split: list.splits if_splits prod.splits)

lemma read_constant_number:
  assumes "read_number canon s = Some (v, r)"
  shows "read_constant s = None"
  using read_number_head[OF assms]
  by (auto simp: read_constant_def after_prefix_def uni_def is_digit_def split: option.split)

section \<open>Values\<close>

lemma read_value_number:
  assumes "read_number canon s = Some (v, r)"
  shows "read_value canon (Suc n) s = Some (v, r)"
  using read_number_head[OF assms] read_constant_number[OF assms] assms is_digit_not
  by (auto simp del: is_digit_not)

definition reads_back :: "(ustr \<Rightarrow> ustr) \<Rightarrow> json \<Rightarrow> bool" where
  "reads_back canon j \<longleftrightarrow>
     (\<forall>n r. length (render j) \<le> n \<longrightarrow> delimited r \<longrightarrow> read_value canon n (render j @ r) = Some (j, r))"

lemma reads_backD:
  "reads_back canon j \<Longrightarrow> length (render j) \<le> n \<Longrightarrow> delimited r \<Longrightarrow>
     read_value canon n (render j @ r) = Some (j, r)"
  by (simp add: reads_back_def)

text \<open>A rendering begins with a character that is neither white space nor a bracket that closes.\<close>

lemma render_head:
  assumes "json_ok canon j"
  shows "\<exists>c t. render j = c # t \<and> \<not> json_space c \<and> c \<noteq> 93 \<and> c \<noteq> 125"
proof (cases j)
  case (JInt i)
  then show ?thesis
    using read_number_head[OF read_number_int[of "[]" canon i]] is_digit_not by (auto simp: json_space_def)
next
  case (JFloat f)
  then have "f \<in> {uni ''nan'', uni ''inf'', uni ''-inf''} \<or> read_number canon f = Some (JFloat f, [])"
    using assms by (simp add: float_ok_def)
  then show ?thesis
    using JFloat read_number_head[of canon f] is_digit_not
    by (auto simp: render_float_def uni_def json_space_def)
qed (auto simp: uni_def json_space_def render_string_def)

lemma skip_space_render:
  assumes "json_ok canon j"
  shows "skip_space (render j @ r) = render j @ r" "take 1 (render j @ r) \<noteq> [93]" "render j @ r \<noteq> []"
  using render_head[OF assms] by (auto simp: skip_space_def)

lemma skip_space_delimiter: "c \<in> {34, 44, 58, 93, 125} \<Longrightarrow> skip_space (c # r) = c # r"
  by (auto simp: skip_space_def json_space_def)

lemma render_nonempty: "json_ok canon j \<Longrightarrow> 0 < length (render j)"
  using render_head by fastforce

lemma read_items_render:
  assumes "xs \<noteq> []" "\<forall>x \<in> set xs. json_ok canon x \<and> reads_back canon x"
    "length (comma_separated (map render xs)) < n"
  shows "read_items canon n (comma_separated (map render xs) @ 93 # r) = Some (xs, r)"
  using assms
proof (induction xs arbitrary: n rule: induct_list012)
  case (2 x)
  then obtain m where n: "n = Suc m" "length (render x) \<le> m" by (cases n) auto
  then show ?case using reads_backD[of canon x m "93 # r"] 2 by (simp add: skip_space_delimiter)
next
  case (3 x y zs)
  define s where "s = comma_separated (map render (y # zs))"
  have s: "comma_separated (map render (x # y # zs)) = render x @ 44 # s" by (simp add: s_def)
  then obtain m where n: "n = Suc m" "length (render x) \<le> m" "length s < m"
    using 3(5) by (cases n) auto
  have y: "json_ok canon y" using 3(4) by simp
  have "skip_space (s @ 93 # r) = s @ 93 # r"
    using skip_space_render[OF y] by (cases zs) (simp_all add: s_def)
  moreover have "read_items canon m (s @ 93 # r) = Some (y # zs, r)"
    unfolding s_def using 3(2)[of m] 3(4) n(3) s_def by simp
  moreover have "read_value canon m (render x @ 44 # s @ 93 # r) = Some (x, 44 # s @ 93 # r)"
    using 3(4) n(2) by (intro reads_backD) simp_all
  ultimately show ?case unfolding s n(1) by (simp add: skip_space_delimiter)
qed simp

definition render_member :: "ustr \<times> json \<Rightarrow> ustr" where
  "render_member kv = render_string (fst kv) @ 58 # render (snd kv)"

lemma render_dict:
  "render (JDict d) = 123 # comma_separated (map render_member d) @ [125]"
  by (simp add: render_member_def[abs_def] comp_def)

lemma read_string_render:
  assumes "ustr_ok k"
  shows "\<exists>t. render_string k @ r = 34 # t \<and> read_string (length t) t = Some (k, r)"
  using read_render_string[OF assms, of r] by (simp add: render_string_def)

lemma read_member:
  assumes k: "ustr_ok (fst kv)" and v: "reads_back canon (snd kv)" "json_ok canon (snd kv)"
    and n: "length (render (snd kv)) \<le> n" and r: "delimited r"
  shows "\<exists>t r1. render_member kv @ r = 34 # t \<and> read_string (length t) t = Some (fst kv, 58 # r1) \<and>
           read_value canon n (skip_space r1) = Some (snd kv, r)"
proof -
  obtain t where t: "render_string (fst kv) @ 58 # render (snd kv) @ r = 34 # t"
      "read_string (length t) t = Some (fst kv, 58 # render (snd kv) @ r)"
    using read_string_render[OF k] by blast
  then show ?thesis
    using reads_backD[OF v(1) n r] skip_space_render(1)[OF v(2), of r] by (simp add: render_member_def)
qed

lemma read_members_render:
  assumes "d \<noteq> []" "\<forall>kv \<in> set d. ustr_ok (fst kv) \<and> json_ok canon (snd kv) \<and> reads_back canon (snd kv)"
    "length (comma_separated (map render_member d)) < n"
  shows "read_members canon n (comma_separated (map render_member d) @ 125 # r) = Some (d, r)"
  using assms
proof (induction d arbitrary: n rule: induct_list012)
  case (2 x)
  then obtain m where n: "n = Suc m" "length (render (snd x)) \<le> m"
    by (cases n) (auto simp: render_member_def)
  obtain t r1 where "render_member x @ 125 # r = 34 # t" "read_string (length t) t = Some (fst x, 58 # r1)"
      "read_value canon m (skip_space r1) = Some (snd x, 125 # r)"
    using read_member[of x canon m "125 # r"] 2 n(2) by auto
  then show ?case using n(1) by (simp add: skip_space_delimiter)
next
  case (3 x y zs)
  define s where "s = comma_separated (map render_member (y # zs))"
  have s: "comma_separated (map render_member (x # y # zs)) = render_member x @ 44 # s" by (simp add: s_def)
  then obtain m where n: "n = Suc m" "length (render (snd x)) \<le> m" "length s < m"
    using 3(5) s by (cases n) (auto simp: render_member_def[of x])
  have "skip_space (s @ 125 # r) = s @ 125 # r"
    by (cases zs) (simp_all add: s_def render_member_def render_string_def skip_space_delimiter)
  moreover have "read_members canon m (s @ 125 # r) = Some (y # zs, r)"
    unfolding s_def using 3(2)[of m] 3(4) n(3) s_def by simp
  moreover obtain t r1 where "render_member x @ 44 # s @ 125 # r = 34 # t"
      "read_string (length t) t = Some (fst x, 58 # r1)"
      "read_value canon m (skip_space r1) = Some (snd x, 44 # s @ 125 # r)"
    using read_member[of x canon m "44 # s @ 125 # r"] 3(4) n(2) by auto
  ultimately show ?case unfolding s n(1) by (simp add: skip_space_delimiter)
qed simp

lemma fold_dset_distinct: "distinct (keys (e @ d)) \<Longrightarrow> fold (\<lambda>(k, v). dset k v) d e = e @ d"
proof (induction d arbitrary: e)
  case (Cons kv d)
  obtain k v where kv: "kv = (k, v)" by (cases kv)
  have "dset k v e = e @ [(k, v)]" using Cons.prems kv by (intro dset_new) auto
  with Cons kv show ?case by simp
qed simp

lemma reads_backI:
  assumes "json_ok canon j"
    "\<And>m r. length (render j) \<le> Suc m \<Longrightarrow> delimited r \<Longrightarrow> read_value canon (Suc m) (render j @ r) = Some (j, r)"
  shows "reads_back canon j"
  unfolding reads_back_def
proof (intro allI impI)
  fix n r assume n: "length (render j) \<le> n" and r: "delimited r"
  then obtain m where m: "n = Suc m" using render_nonempty[OF assms(1)] by (cases n) auto
  from assms(2)[OF n[unfolded m] r] show "read_value canon n (render j @ r) = Some (j, r)" by (simp add: m)
qed

lemma read_render: "json_ok canon j \<Longrightarrow> reads_back canon j"
proof (induction j)
  case JNull
  then show ?case by (intro reads_backI) (simp_all add: uni_def read_constant_def after_prefix_def)
next
  case (JBool b)
  then show ?case by (intro reads_backI) (simp_all add: uni_def read_constant_def after_prefix_def)
next
  case (JInt i)
  then show ?case by (intro reads_backI) (auto intro: read_value_number read_number_int simp del: read_value.simps)
next
  case (JFloat f)
  show ?case
  proof (cases "f \<in> {uni ''nan'', uni ''inf'', uni ''-inf''}")
    case True
    then show ?thesis using JFloat
      by (intro reads_backI) (auto simp: uni_def render_float_def read_constant_def after_prefix_def)
  next
    case False
    then have "read_number canon f = Some (JFloat f, [])" "render (JFloat f) = f"
      using JFloat by (auto simp: float_ok_def render_float_def)
    then show ?thesis using JFloat
      by (intro reads_backI) (auto intro: read_value_number read_number_append simp del: read_value.simps render.simps)
  qed
next
  case (JStr s)
  then have "ustr_ok s" by simp
  show ?case
  proof (rule reads_backI[OF JStr.prems])
    fix m r
    obtain t where "render_string s @ r = 34 # t" "read_string (length t) t = Some (s, r)"
      using read_string_render[OF \<open>ustr_ok s\<close>] by blast
    then show "read_value canon (Suc m) (render (JStr s) @ r) = Some (JStr s, r)" by simp
  qed
next
  case (JList xs)
  have xs: "\<forall>x \<in> set xs. json_ok canon x \<and> reads_back canon x"
    using JList by (simp add: json_ok_simps del: json_ok.simps)
  show ?case
  proof (cases xs)
    case Nil
    then show ?thesis by (intro reads_backI) (simp_all add: skip_space_delimiter)
  next
    case (Cons x ys)
    have x: "json_ok canon x" using xs Cons by simp
    have head: "skip_space (comma_separated (map render xs) @ r) = comma_separated (map render xs) @ r"
        "take 1 (comma_separated (map render xs) @ r) \<noteq> [93]" for r
      using skip_space_render[OF x] Cons by (cases ys; force)+
    show ?thesis
    proof (rule reads_backI[OF JList.prems])
      fix m r assume "length (render (JList xs)) \<le> Suc m" "delimited r"
      then show "read_value canon (Suc m) (render (JList xs) @ r) = Some (JList xs, r)"
        using read_items_render[of xs canon m r] xs Cons head[of "93 # r"] by simp
    qed
  qed
next
  case (JDict d)
  have d: "\<forall>kv \<in> set d. ustr_ok (fst kv) \<and> json_ok canon (snd kv) \<and> reads_back canon (snd kv)" "distinct (keys d)"
    using JDict by (auto simp: json_ok_simps simp del: json_ok.simps)
  show ?case
  proof (cases d)
    case Nil
    then show ?thesis by (intro reads_backI) (simp_all add: skip_space_delimiter)
  next
    case (Cons x ys)
    have head: "\<exists>t. comma_separated (map render_member d) @ r = 34 # t" for r
      using Cons by (cases ys) (simp_all add: render_member_def render_string_def)
    show ?thesis
    proof (rule reads_backI[OF JDict.prems])
      fix m r assume "length (render (JDict d)) \<le> Suc m" "delimited r"
      then show "read_value canon (Suc m) (render (JDict d) @ r) = Some (JDict d, r)"
        using read_members_render[of d canon m r] d(1) Cons head[of "125 # r"] fold_dset_distinct[of "[]" d] d(2)
        by (auto simp: render_dict skip_space_delimiter simp del: render.simps)
    qed
  qed
qed

section \<open>Canonical text\<close>

lemma sort_key_keys:
  fixes d :: "('a::linorder \<times> 'b) list"
  shows "set (sort_key fst d) = set d" "distinct (keys (sort_key fst d)) = distinct (keys d)"
proof -
  show "set (sort_key fst d) = set d" by simp
  have "mset (keys (sort_key fst d)) = mset (keys d)" by simp
  then show "distinct (keys (sort_key fst d)) = distinct (keys d)" by (rule mset_eq_imp_distinct_iff)
qed

lemma keys_map_prod: "keys (map (map_prod id f) d) = keys d"
  by simp

lemma sort_json_ok: "json_ok canon j \<Longrightarrow> json_ok canon (sort_json j)"
proof (induction j)
  case (JList xs)
  then show ?case by (simp add: json_ok_simps del: json_ok.simps)
next
  case (JDict d)
  have "\<forall>kv \<in> set d. json_ok canon (sort_json (snd kv))"
    using JDict by (auto simp: json_ok_simps snds.simps simp del: json_ok.simps)
  then show ?case
    using JDict.prems by (auto simp: json_ok_simps sort_key_keys simp del: json_ok.simps)
qed simp_all

text \<open>Sorting the keys leaves every lookup as it was.\<close>

lemma dget_sort:
  assumes "distinct (keys d)"
  shows "dget (sort_key fst (map (map_prod id sort_json) d)) k = sort_json (dget d k)"
proof -
  have "map_of (sort_key fst (map (map_prod id sort_json) d)) = map_of (map (map_prod id sort_json) d)"
    using assms by (intro map_of_inject_set[THEN iffD2]) (simp_all add: sort_key_keys)
  moreover have "map_of (map (map_prod id f) d) = map_option f \<circ> map_of d" for f :: "json \<Rightarrow> json"
    by (induction d) auto
  ultimately show ?thesis by (simp add: dget_def split: option.split)
qed

definition ascii :: "nat \<Rightarrow> bool" where
  "ascii c \<longleftrightarrow> 0 < c \<and> c < 128"

lemma ascii_digit: "is_digit c \<Longrightarrow> ascii c"
  by (simp add: is_digit_def ascii_def)

lemma ascii_number:
  assumes "read_number canon f = Some (v, [])"
  shows "list_all ascii f"
proof -
  have sp: "list_all ascii ds \<and> s = ds @ q" if "span_digits s = (ds, q)" for s ds q
    using that set_takeWhileD[of _ is_digit s] ascii_digit by (auto simp: span_digits_def list_all_iff)
  have sg: "list_all ascii t \<and> s = t @ q" if "read_sign signs s = (t, q)" "list_all ascii signs" for signs s t q
    using that by (auto simp: read_sign_def list_all_iff split: list.splits if_splits)
  have ip: "list_all ascii t \<and> s = t @ q" if "read_integer_part s = Some (t, q)" for s t q
    using that sp[of s t q] by (auto simp: read_integer_part_def ascii_def split: list.splits if_splits)
  have fr: "list_all ascii t \<and> s = t @ q" if "read_fraction s = (t, q)" for s t q
    using that sp by (fastforce simp: read_fraction_def ascii_def Let_def split: list.splits if_splits prod.splits)
  have ex: "list_all ascii t \<and> s = t @ q" if "read_exponent s = (t, q)" for s t q
    using that sp sg[of "[43, 45]"]
    by (fastforce simp: read_exponent_def ascii_def Let_def split: list.splits if_splits prod.splits)
  obtain t r1 where 1: "read_sign [45] f = (t, r1)" by (cases "read_sign [45] f")
  have "read_integer_part r1 \<noteq> None" using assms 1 by (cases "read_integer_part r1") (auto simp: read_number_def)
  then obtain ds r2 where 2: "read_integer_part r1 = Some (ds, r2)" by auto
  obtain u r3 where 3: "read_fraction r2 = (u, r3)" by (cases "read_fraction r2")
  have 4: "\<exists>e. read_exponent r3 = (e, [])" using assms 1 2 3 by (auto simp: read_number_def split: prod.splits)
  then obtain e where 4: "read_exponent r3 = (e, [])" by blast
  show ?thesis
    using sg[OF 1] ip[OF 2] fr[OF 3] ex[OF 4] by (auto simp: list_all_iff ascii_def)
qed

lemma ascii_simps [simp]:
  "list_all ascii (uni (show_base 10 n))"
  using show_decimal[of n] by (auto simp: list_all_iff ascii_digit)

lemma ascii_delimiters [simp]: "ascii 34" "ascii 44" "ascii 45" "ascii 58" "ascii 91" "ascii 93" "ascii 123" "ascii 125"
  by (simp_all add: ascii_def)

lemma ascii_hex: "n < 16 \<Longrightarrow> ascii (of_char (digit_char n))"
proof -
  assume "n < 16"
  then have "n \<in> set [0..<16]" by simp
  then show ?thesis by (simp add: upt_rec[of _ 16] digit_char_def ascii_def) (elim disjE; simp)
qed

lemma ascii_string: "list_all ascii (render_string s)"
proof -
  have "list_all ascii (escape_char c)" for c
    by (auto simp: escape_char_def unicode_escape_def render_hex4_def ascii_hex) (auto simp: ascii_def)
  then show ?thesis by (auto simp: render_string_def list_all_iff ascii_def)
qed

lemma ascii_comma: "(\<forall>x \<in> set xs. list_all ascii x) \<Longrightarrow> list_all ascii (comma_separated xs)"
  by (induction xs rule: comma_separated.induct) (auto simp: ascii_def)

lemma ascii_render: "json_ok canon j \<Longrightarrow> list_all ascii (render j)"
proof (induction j)
  case (JFloat f)
  have "list_all ascii (uni ''NaN'')" "list_all ascii (uni ''Infinity'')" "list_all ascii (uni ''-Infinity'')"
    by (simp_all add: uni_def ascii_def)
  then show ?case using JFloat ascii_number[of canon f "JFloat f"] by (auto simp: render_float_def float_ok_def)
next
  case (JInt i)
  show ?case by (simp add: render_int_def)
next
  case (JList xs)
  have "list_all ascii (comma_separated (map render xs))"
    using JList by (intro ascii_comma) (auto simp: json_ok_simps simp del: json_ok.simps)
  then show ?case by simp
next
  case (JDict d)
  have "list_all ascii (comma_separated (map render_member d))"
    using JDict by (intro ascii_comma)
      (auto simp: json_ok_simps render_member_def ascii_string snds.simps simp del: json_ok.simps)
  then show ?case unfolding render_dict by simp
next
  case (JStr s)
  show ?case by (simp add: ascii_string)
qed (auto simp: uni_def ascii_def)

lemma skip_space_Nil [simp]: "skip_space [] = []"
  by (simp add: skip_space_def)

lemma loads_render:
  assumes "json_ok canon j"
  shows "loads_text canon (render j) = Some j"
  using skip_space_render(1)[OF assms, of "[]"]
    reads_backD[OF read_render[OF assms], of "Suc (length (render j))" "[]"]
  by (simp add: loads_text_def del: read_value.simps)

lemma loads_canonical:
  assumes "json_ok canon j"
  shows "loads_bytes canon other (canonical j) = Some (sort_json j)"
proof -
  have ok: "json_ok canon (sort_json j)" by (rule sort_json_ok[OF assms])
  have byte: "unat (word_of_nat c :: byte) = c" if "ascii c" for c
    using that by (simp add: ascii_def unsigned_of_nat take_bit_nat_eq_self)
  have asc: "\<forall>c \<in> set (render (sort_json j)). ascii c" using ascii_render[OF ok] by (simp add: list_all_iff)
  then have "map unat (canonical j) = render (sort_json j)"
    by (simp add: canonical_def map_idI byte)
  moreover have "\<forall>b \<in> set (canonical j). 0 < unat b \<and> unat b < 128"
    using asc byte by (auto simp: canonical_def ascii_def)
  ultimately show ?thesis using loads_render[OF ok] by (simp add: loads_bytes_def)
qed

end
