(* ===== verification/Mapper_Proofs.thy ===== *)
theory Mapper_Proofs
  imports Mapper Json_Proofs
begin

text \<open>
  The token payloads survive the ledger: what the message writer stores is what the verifier's mapper
  reads back, and the checks of the verifier then say what the tap reported.
\<close>

section \<open>Payloads\<close>

lemma b64_char_ascii: "of_char (b64_char n) < (128::nat)"
  by (auto simp: b64_char_def)

lemma b64_encode_ascii: "\<forall>c \<in> set (b64_encode d). of_char c < (128::nat)"
  by (induction d rule: b64_encode.induct) (simp_all add: Let_def b64_char_ascii)

lemma b64_text_roundtrip: "b64_text_decode (b64_text d) = Some d"
  using b64_encode_ascii[of d] by (simp add: b64_text_decode_def b64_text_def uni_def b64_roundtrip comp_def)

lemma b64_text_Nil: "b64_text d = [] \<longleftrightarrow> d = []"
  by (cases d rule: b64_encode.cases) (simp_all add: b64_text_def uni_def Let_def)

lemma canonical_dict_nonempty: "canonical (JDict d) \<noteq> []"
  by (simp add: canonical_def)

lemma decode_canonical:
  assumes "json_ok canon (JDict d)"
  shows "decode_payload (loads_bytes canon other) (Some (b64_text (canonical (JDict d))))
    = sort_key fst (map (map_prod id sort_json) d)"
proof -
  have "b64_text (canonical (JDict d)) \<noteq> []" by (simp add: b64_text_Nil canonical_dict_nonempty)
  then have "str_or (Some (b64_text (canonical (JDict d)))) None = Some (b64_text (canonical (JDict d)))"
    by (auto simp: str_or_def neq_Nil_conv)
  then show ?thesis
    using loads_canonical[OF assms, of other] by (simp add: decode_payload_def b64_text_roundtrip)
qed

lemma dget_decode:
  assumes "json_ok canon (JDict d)"
  shows "dget (decode_payload (loads_bytes canon other) (Some (b64_text (canonical (JDict d))))) k
    = sort_json (dget d k)"
  using assms dget_sort[of d k] by (simp add: decode_canonical json_ok_simps del: json_ok.simps)

declare uni_inj [simp]

lemma uni_ok: "\<forall>c \<in> set s. of_char c < (128::nat) \<Longrightarrow> ustr_ok (uni s)"
  by (auto simp: ustr_ok_def uni_def)

lemma sort_json_ids [simp]: "sort_json (json_ids x) = json_ids x"
  by (simp add: json_ids_def comp_def split: option.split)

lemma json_ids_ok [simp]: "json_ok canon (json_ids x)"
  by (cases x) (auto simp: json_ids_def list_all_iff)

lemma token_ids_json: "dget d k = json_ids x \<Longrightarrow> token_ids d k = x"
  by (auto simp: token_ids_def json_ids_def list_all_iff comp_def split: option.splits)

lemma payload_keys [simp]:
  "ustr_ok (uni ''prompt_token_ids'')" "ustr_ok (uni ''prompt_text'')" "ustr_ok (uni ''output_token_ids'')"
  "ustr_ok (uni ''output_logprobs'')" "ustr_ok (uni ''usage_completion_tokens'')"
  "ustr_ok (uni ''constrained_decoding'')"
  by (simp_all add: uni_ok)

text \<open>What a tap message must have for its payloads to be read back: texts and floats that are ones.\<close>

definition payloads_ok :: "(ustr \<Rightarrow> ustr) \<Rightarrow> tap_message \<Rightarrow> bool" where
  "payloads_ok canon msg \<longleftrightarrow> json_ok canon (tm_output_logprobs msg) \<and>
     (case tm_prompt_text msg of None \<Rightarrow> True | Some s \<Rightarrow> ustr_ok s)"

lemma input_payload_ok:
  assumes "payloads_ok canon msg"
  shows "json_ok canon (input_payload msg)"
  using assms
  by (auto simp: input_payload_def payloads_ok_def json_text_def json_ok_simps split: option.splits)

lemma output_payload_ok:
  assumes "payloads_ok canon msg"
  shows "json_ok canon (output_payload msg)"
  using assms
  by (auto simp: output_payload_def payloads_ok_def json_ok_simps split: option.splits)

section \<open>From the tap to the verifier\<close>

text \<open>The ledger's row of an event, with the model's declared sampling.\<close>

definition stored_item :: "inference_event \<Rightarrow> ustr \<Rightarrow> sampling_config \<Rightarrow> ledger_item" where
  "stored_item e model_name s =
     \<lparr>li_id = ie_id e, li_input_raw_logits = ie_input_raw_logits e, li_output_raw_logits = ie_output_raw_logits e,
      li_model_name = model_name, li_seed = sc_seed s, li_temperature = sc_temperature s,
      li_top_k = sc_top_k s, li_top_p = sc_top_p s\<rparr>"

text \<open>The request the runner builds from the row written for a tap message.\<close>

definition tapped_request ::
  "(ustr \<Rightarrow> ustr) \<Rightarrow> json_reader \<Rightarrow> (bytes \<Rightarrow> bytes) \<Rightarrow> ustr \<Rightarrow> ustr \<Rightarrow> ustr \<Rightarrow> ustr \<Rightarrow> sampling_config
     \<Rightarrow> tap_message \<Rightarrow> verify_request" where
  "tapped_request canon other sha256 new_id model_id hardware_id model_name s msg =
     inference_event_to_verify_request (loads_bytes canon other)
       (stored_item (build_inference_event True sha256 new_id msg model_id hardware_id) model_name s)"

lemma output_lookups:
  "dget [(uni ''output_token_ids'', i), (uni ''output_logprobs'', l)] ''output_token_ids'' = i"
  "output_payload msg = JDict d \<Longrightarrow> dget d ''output_token_ids'' = json_ids (tm_output_token_ids msg)"
  "output_payload msg = JDict d \<Longrightarrow> dget d ''usage_completion_tokens'' =
     (case tm_usage_completion_tokens msg of None \<Rightarrow> JNull | Some n \<Rightarrow> JInt n)"
  "output_payload msg = JDict d \<Longrightarrow> dget d ''constrained_decoding'' =
     (case tm_constrained_decoding msg of None \<Rightarrow> JNull | Some b \<Rightarrow> JBool b)"
  by (auto simp: output_payload_def dget_def split: option.splits)

lemma input_lookup:
  "input_payload msg = JDict d \<Longrightarrow> dget d ''prompt_token_ids'' = json_ids (tm_prompt_token_ids msg)"
  by (auto simp: input_payload_def dget_def json_ids_def split: if_splits option.splits)

lemma tapped_request_fields:
  assumes ok: "payloads_ok canon msg"
    and r_def: "r = tapped_request canon other sha256 new_id model_id hardware_id model_name s msg"
  shows "rq_prompt_token_ids r = tm_prompt_token_ids msg" "rq_output_token_ids r = tm_output_token_ids msg"
    "rq_usage_completion_tokens r = tm_usage_completion_tokens msg"
    "rq_constrained_decoding r = tm_constrained_decoding msg"
    "sc_max_output_tokens (rq_sampling r) =
       (if the_ids (tm_output_token_ids msg) = [] then None
        else Some (int (length (the_ids (tm_output_token_ids msg)))))"
    "sc_seed (rq_sampling r) = sc_seed s" "sc_temperature (rq_sampling r) = sc_temperature s"
    "sc_top_k (rq_sampling r) = sc_top_k s" "sc_top_p (rq_sampling r) = sc_top_p s"
    "rq_request_id r = new_id" "rq_model_name r = model_name" "rq_model_id r = None"
proof -
  obtain di where di: "input_payload msg = JDict di" by (cases "tm_prompt_token_ids msg") (auto simp: input_payload_def)
  obtain d where d: "output_payload msg = JDict d" by (auto simp: output_payload_def)
  have i: "dget (decode_payload (loads_bytes canon other) (Some (b64_text (canonical (JDict di))))) ''prompt_token_ids''
      = json_ids (tm_prompt_token_ids msg)"
    using dget_decode[of canon di other] input_payload_ok[OF ok] by (simp add: di input_lookup[OF di])
  have o: "dget (decode_payload (loads_bytes canon other) (Some (b64_text (canonical (JDict d))))) k
      = sort_json (dget d k)" for k
    using dget_decode[of canon d other] output_payload_ok[OF ok] by (simp add: d)
  note defs = r_def tapped_request_def inference_event_to_verify_request_def stored_item_def
    build_inference_event_def Let_def
  show "rq_prompt_token_ids r = tm_prompt_token_ids msg"
    using token_ids_json[OF i] by (simp add: defs di)
  have ids: "token_ids (decode_payload (loads_bytes canon other) (Some (b64_text (canonical (JDict d)))))
      ''output_token_ids'' = tm_output_token_ids msg"
    using o[of "''output_token_ids''"] by (intro token_ids_json) (simp add: output_lookups(2)[OF d])
  then show "rq_output_token_ids r = tm_output_token_ids msg" by (simp add: defs d)
  show "rq_usage_completion_tokens r = tm_usage_completion_tokens msg"
    using o[of "''usage_completion_tokens''"]
    by (simp add: defs d output_lookups(3)[OF d] split: option.splits)
  show "rq_constrained_decoding r = tm_constrained_decoding msg"
    using o[of "''constrained_decoding''"]
    by (simp add: defs d output_lookups(4)[OF d] split: option.splits)
  show "sc_max_output_tokens (rq_sampling r) =
       (if the_ids (tm_output_token_ids msg) = [] then None
        else Some (int (length (the_ids (tm_output_token_ids msg)))))"
    using ids by (simp add: defs d the_ids_def split: option.splits list.splits)
  show "sc_seed (rq_sampling r) = sc_seed s" "sc_temperature (rq_sampling r) = sc_temperature s"
    "sc_top_k (rq_sampling r) = sc_top_k s" "sc_top_p (rq_sampling r) = sc_top_p s"
    "rq_request_id r = new_id" "rq_model_name r = model_name" "rq_model_id r = None"
    by (simp_all add: defs)
qed

text \<open>C29: token payloads survive the ledger. Whatever the tap reports of an inference (token ids or
none on either side, log probabilities, the provider's token count, whether decoding was constrained),
the request the runner builds from the row the message writer stores has exactly the tap's token ids,
count and flag, and the hashes stored are those of the raw bytes stored. The texts and floats of the
message must be ones Python can have.\<close>

theorem payloads_survive_ledger:
  assumes "payloads_ok canon msg"
  shows "rq_prompt_token_ids (tapped_request canon other sha256 new_id model_id hardware_id model_name s msg)
      = tm_prompt_token_ids msg
    \<and> rq_output_token_ids (tapped_request canon other sha256 new_id model_id hardware_id model_name s msg)
      = tm_output_token_ids msg
    \<and> rq_usage_completion_tokens (tapped_request canon other sha256 new_id model_id hardware_id model_name s msg)
      = tm_usage_completion_tokens msg
    \<and> rq_constrained_decoding (tapped_request canon other sha256 new_id model_id hardware_id model_name s msg)
      = tm_constrained_decoding msg
    \<and> (let e = build_inference_event True sha256 new_id msg model_id hardware_id in
        map_option sha256 (b64_text_decode (the (ie_input_raw_logits e)))
          = b64_text_decode (ie_hash_input_raw_logits e)
        \<and> map_option sha256 (b64_text_decode (the (ie_output_raw_logits e)))
          = b64_text_decode (ie_hash_output_raw_logits e))"
  using tapped_request_fields(1-4)[OF assms refl]
  by (simp add: build_inference_event_def Let_def b64_text_roundtrip)

text \<open>A tap message with a float among its log probabilities, to evaluate the theorems on.\<close>

definition demo_tap :: tap_message where
  "demo_tap = \<lparr>tm_hostname = Some [104], tm_received_at = Some [49], tm_completed_at = None,
     tm_pod_name = None, tm_node_name = None, tm_session_id = None, tm_response_id = None,
     tm_model_name = None, tm_prompt_text = Some [233], tm_prompt_token_ids = Some [5, 6],
     tm_output_text = None, tm_output_token_ids = Some [7], tm_output_logprobs = JList [JFloat (uni ''-0.5'')],
     tm_usage_completion_tokens = Some 1, tm_constrained_decoding = Some False\<rparr>"

lemma demo_tap_ok: "payloads_ok (\<lambda>s. s) demo_tap"
  by (simp add: payloads_ok_def demo_tap_def ustr_ok_def float_ok_def uni_def read_number_def read_sign_def
      read_integer_part_def span_digits_def is_digit_def read_fraction_def read_exponent_def)

lemma payloads_survive_ledger_witness:
  "rq_prompt_token_ids (tapped_request (\<lambda>s. s) (\<lambda>_. None) (\<lambda>d. d) [] [] [] []
     \<lparr>sc_seed = None, sc_temperature = None, sc_top_k = None, sc_top_p = None, sc_max_output_tokens = None\<rparr>
     demo_tap) = Some [5, 6]"
  using payloads_survive_ledger[OF demo_tap_ok, of "\<lambda>_. None" "\<lambda>d. d" "[]" "[]" "[]" "[]"
    "\<lparr>sc_seed = None, sc_temperature = None, sc_top_k = None, sc_top_p = None, sc_max_output_tokens = None\<rparr>"]
  by (simp add: demo_tap_def)

text \<open>C30: what the tap reports decides whether there is a verdict. For a row written by the message writer
and a model whose sampling is declared in full, the verifier's reason not to replay is, in this order:
constrained decoding, if the tap reported it; an incomplete capture, if the provider's token count is
not the number of ids captured; a missing sampling configuration, if no output ids were captured (not
a tokenization mismatch); a tokenization mismatch, if no prompt ids were; and otherwise none.\<close>

theorem tap_decides_precheck:
  assumes "payloads_ok canon msg"
    "sc_seed s \<noteq> None \<and> sc_temperature s \<noteq> None \<and> sc_top_k s \<noteq> None \<and> sc_top_p s \<noteq> None"
  shows "precheck (tapped_request canon other sha256 new_id model_id hardware_id model_name s msg) =
    (let n = length (the_ids (tm_output_token_ids msg)) in
     if tm_constrained_decoding msg = Some True then Some CONSTRAINED_DECODING
     else if tm_usage_completion_tokens msg \<notin> {None, Some (int n)} then Some TOKEN_CAPTURE_INCOMPLETE
     else if n = 0 then Some SAMPLING_CONFIG_MISSING
     else if the_ids (tm_prompt_token_ids msg) = [] then Some TOKENIZATION_MISMATCH
     else None)"
  using tapped_request_fields[OF assms(1) refl, of other sha256 new_id model_id hardware_id model_name s] assms(2)
  by (auto simp: precheck_def sampling_missing_def Let_def)

lemma tap_decides_precheck_witness:
  "precheck (tapped_request (\<lambda>s. s) (\<lambda>_. None) (\<lambda>d. d) [] [] [] []
     \<lparr>sc_seed = Some 1, sc_temperature = Some 1, sc_top_k = Some 1, sc_top_p = Some 1,
      sc_max_output_tokens = None\<rparr> demo_tap) = None"
  using tap_decides_precheck[OF demo_tap_ok, of "\<lparr>sc_seed = Some 1, sc_temperature = Some 1, sc_top_k = Some 1,
    sc_top_p = Some 1, sc_max_output_tokens = None\<rparr>" "\<lambda>_. None" "\<lambda>d. d" "[]" "[]" "[]" "[]"]
  by (simp add: demo_tap_def the_ids_def)

end
