(* ===== verification/Runner.thy ===== *)
theory Runner
  imports Mapper
begin

text \<open>
  The drain loop of the verification runner, \<^verbatim>\<open>inf-ver-runner/app/runner.py\<close> with the check of the launch
  configuration in \<^verbatim>\<open>config.py\<close>.

  What the ledger and the verifier answer in one cycle is the argument of that cycle. The tasks of a
  concurrent round work on different events and touch only their own event's entries, so a round runs
  them in order; as with \<open>gather\<close>, one that raises does not stop the others. Only \<open>HTTPError\<close> is an
  exception here; another one, or cancellation, ends the process and is not modelled. Pod identity and
  the text of the reason are left out.
\<close>

section \<open>Settings and the ledger's model row\<close>

record launch_sampling =
  la_seed :: "int option"
  la_temperature :: "real option"
  la_top_k :: "int option"
  la_top_p :: "real option"

record model_row =
  mr_seed :: "int option"
  mr_temperature :: "real option"
  mr_top_k :: "int option"
  mr_top_p :: "real option"
  mr_verification_threshold :: "real option"
  mr_delta_max :: "real option"

record runner_settings =
  rt_poll_batch_size :: nat
  rt_max_verify_attempts :: int
  rt_retry_backoff_seconds :: real
  rt_max_ledger_failures :: int
  rt_max_concurrent :: int
  rt_launch_sampling :: launch_sampling
  rt_hardware_id :: ustr
  rt_verifier_model_id :: ustr

text \<open>\<open>LaunchSampling.mismatches\<close>: the fields that disagree; a field left unset is not checked.\<close>

definition mismatches :: "launch_sampling \<Rightarrow> model_row \<Rightarrow> string list" where
  "mismatches l row =
     (if la_seed l \<noteq> None \<and> mr_seed row \<noteq> la_seed l then [''seed''] else [])
     @ (if la_temperature l \<noteq> None \<and> mr_temperature row \<noteq> la_temperature l then [''temperature''] else [])
     @ (if la_top_k l \<noteq> None \<and> mr_top_k row \<noteq> la_top_k l then [''top_k''] else [])
     @ (if la_top_p l \<noteq> None \<and> mr_top_p row \<noteq> la_top_p l then [''top_p''] else [])"

section \<open>Retries\<close>

record runner =
  rn_attempts :: "ustr \<rightharpoonup> int"
  rn_next_retry_at :: "ustr \<rightharpoonup> real"

definition PERMANENT_ERROR_CODES :: "error_code set" where
  "PERMANENT_ERROR_CODES = {UNSUPPORTED_MODEL, SAMPLING_CONFIG_MISSING, TOKENIZATION_MISMATCH}"

definition get_or :: "('k \<rightharpoonup> 'v) \<Rightarrow> 'k \<Rightarrow> 'v \<Rightarrow> 'v" where
  "get_or m k d = (case m k of None \<Rightarrow> d | Some v \<Rightarrow> v)"

definition eligible_at :: "runner \<Rightarrow> real \<Rightarrow> ledger_item \<Rightarrow> bool" where
  "eligible_at st now item \<longleftrightarrow> get_or (rn_next_retry_at st) (li_id item) 0 \<le> now"

definition pick_eligible :: "runner \<Rightarrow> real \<Rightarrow> ledger_item list \<Rightarrow> ledger_item option" where
  "pick_eligible st now items = List.find (eligible_at st now) items"

fun pick_loop :: "runner \<Rightarrow> real \<Rightarrow> nat \<Rightarrow> ledger_item list \<Rightarrow> ledger_item list \<Rightarrow> ledger_item list" where
  "pick_loop st now n [] picked = picked"
| "pick_loop st now n (item # items) picked =
     (if length picked \<ge> n then picked
      else if eligible_at st now item then pick_loop st now n items (picked @ [item])
      else pick_loop st now n items picked)"

definition pick_eligible_many :: "runner \<Rightarrow> real \<Rightarrow> nat \<Rightarrow> ledger_item list \<Rightarrow> ledger_item list" where
  "pick_eligible_many st now n items = pick_loop st now n items []"

text \<open>\<open>_should_record\<close>, with the time it is when the attempt has failed.\<close>

definition should_record ::
  "runner_settings \<Rightarrow> real \<Rightarrow> runner \<Rightarrow> ustr \<Rightarrow> verify_response \<Rightarrow> bool \<times> runner" where
  "should_record cfg now st event_id response =
     (if rs_status response \<noteq> UNVERIFIABLE then (True, st)
      else if rs_error_code response \<in> Some ` PERMANENT_ERROR_CODES then (True, st)
      else
        let attempts = get_or (rn_attempts st) event_id 0 + 1 in
        if attempts \<ge> rt_max_verify_attempts cfg then (True, st)
        else
          let delay = rt_retry_backoff_seconds cfg * 2 ^ nat (attempts - 1) in
          (False, st\<lparr>rn_attempts := (rn_attempts st)(event_id \<mapsto> attempts),
                     rn_next_retry_at := (rn_next_retry_at st)(event_id \<mapsto> now + delay)\<rparr>))"

definition clear :: "runner \<Rightarrow> ustr \<Rightarrow> runner" where
  "clear st event_id = st\<lparr>rn_attempts := (rn_attempts st)(event_id := None),
                          rn_next_retry_at := (rn_next_retry_at st)(event_id := None)\<rparr>"

section \<open>One poll\<close>

datatype outcome = Processed | Cooling_down | Drained

text \<open>What a verification led to: another try later, or a write, acknowledged or not.\<close>

datatype deed = Put_off ustr verify_response | Sent ustr verify_response verification_payload bool

record poll_env =
  pe_items :: "ledger_item list option"
  pe_now :: real
  pe_done :: "ustr \<Rightarrow> real"
  pe_verify :: "verify_request \<Rightarrow> real \<Rightarrow> real option \<Rightarrow> verify_response"
  pe_write :: "verification_payload \<Rightarrow> bool"
  pe_loads :: json_reader
  pe_repr :: "real \<Rightarrow> ustr"

definition concurrency :: "runner_settings \<Rightarrow> nat" where
  "concurrency cfg = nat (max 1 (rt_max_concurrent cfg))"

text \<open>\<open>_process_item\<close>; \<open>None\<close> is the exception of a write that failed.\<close>

definition process_item ::
  "runner_settings \<Rightarrow> poll_env \<Rightarrow> real \<Rightarrow> real option \<Rightarrow> ledger_item \<Rightarrow> runner
     \<Rightarrow> runner \<times> deed \<times> outcome option" where
  "process_item cfg env threshold delta_max item st =
     (let request = inference_event_to_verify_request (pe_loads env) item;
          response = pe_verify env request threshold delta_max;
          (record_now, st1) = should_record cfg (pe_done env (li_id item)) st (li_id item) response in
      if \<not> record_now then (st1, Put_off (li_id item) response, Some Cooling_down)
      else
        let payload = build_verification_event_payload (pe_repr env) request response
                        (rt_hardware_id cfg) (rt_verifier_model_id cfg) (concurrency cfg) in
        if pe_write env payload
        then (clear st1 (li_id item), Sent (li_id item) response payload True, Some Processed)
        else (st1, Sent (li_id item) response payload False, None))"

fun process_all ::
  "runner_settings \<Rightarrow> poll_env \<Rightarrow> real \<Rightarrow> real option \<Rightarrow> ledger_item list \<Rightarrow> runner
     \<Rightarrow> runner \<times> deed list \<times> outcome option list" where
  "process_all cfg env threshold delta_max [] st = (st, [], [])"
| "process_all cfg env threshold delta_max (item # items) st =
     (let (st1, d, res) = process_item cfg env threshold delta_max item st;
          (st2, ds, ress) = process_all cfg env threshold delta_max items st1 in
      (st2, d # ds, res # ress))"

text \<open>\<open>_poll_once\<close>\<close>

definition poll_once ::
  "runner_settings \<Rightarrow> poll_env \<Rightarrow> real \<Rightarrow> real option \<Rightarrow> runner \<Rightarrow> runner \<times> deed list \<times> outcome option" where
  "poll_once cfg env threshold delta_max st =
     (case pe_items env of
        None \<Rightarrow> (st, [], None)
      | Some [] \<Rightarrow> (st, [], Some Drained)
      | Some items \<Rightarrow>
          if concurrency cfg = 1 then
            (case pick_eligible st (pe_now env) items of
               None \<Rightarrow> (st, [], Some Cooling_down)
             | Some item \<Rightarrow>
                 let (st1, d, res) = process_item cfg env threshold delta_max item st in (st1, [d], res))
          else
            let picked = pick_eligible_many st (pe_now env) (concurrency cfg) items in
            if picked = [] then (st, [], Some Cooling_down)
            else
              let (st1, ds, ress) = process_all cfg env threshold delta_max picked st in
              (st1, ds,
               if None \<in> set ress then None
               else if Some Processed \<in> set ress then Some Processed
               else Some Cooling_down))"

section \<open>The drain\<close>

record cycle =
  cy_model :: "model_row option"
  cy_poll :: poll_env

record drain_state =
  dr_runner :: runner
  dr_ledger_failures :: int
  dr_checked :: bool

definition new_drain :: drain_state where
  "new_drain = \<lparr>dr_runner = \<lparr>rn_attempts = Map.empty, rn_next_retry_at = Map.empty\<rparr>,
                dr_ledger_failures = 0, dr_checked = False\<rparr>"

definition ledger_failure :: "runner_settings \<Rightarrow> drain_state \<Rightarrow> drain_state \<times> nat option" where
  "ledger_failure cfg s =
     (let s1 = s\<lparr>dr_ledger_failures := dr_ledger_failures s + 1\<rparr> in
      (s1, if dr_ledger_failures s1 \<ge> rt_max_ledger_failures cfg then Some 1 else None))"

text \<open>One turn of the loop: the new state, what was done, and the exit code if the loop returns.\<close>

definition drain_turn :: "runner_settings \<Rightarrow> cycle \<Rightarrow> drain_state \<Rightarrow> drain_state \<times> deed list \<times> nat option" where
  "drain_turn cfg c s =
     (case cy_model c of
        None \<Rightarrow> (let (s1, code) = ledger_failure cfg s in (s1, [], code))
      | Some row \<Rightarrow>
          if \<not> dr_checked s \<and> mismatches (rt_launch_sampling cfg) row \<noteq> [] then (s, [], Some 2)
          else
            let s1 = s\<lparr>dr_checked := True\<rparr> in
            (case mr_verification_threshold row of
               None \<Rightarrow> (s1, [], Some 0)
             | Some threshold \<Rightarrow>
                 let (st, ds, res) = poll_once cfg (cy_poll c) threshold (mr_delta_max row) (dr_runner s1);
                     s2 = s1\<lparr>dr_runner := st\<rparr> in
                 (case res of
                    None \<Rightarrow> (let (s3, code) = ledger_failure cfg s2 in (s3, ds, code))
                  | Some r \<Rightarrow> (s2\<lparr>dr_ledger_failures := 0\<rparr>, ds, if r = Drained then Some 0 else None))))"

text \<open>\<open>run_until_drained\<close> over the cycles to come; no exit code means it is still running.\<close>

fun run_until_drained :: "runner_settings \<Rightarrow> cycle list \<Rightarrow> drain_state \<Rightarrow> drain_state \<times> deed list \<times> nat option" where
  "run_until_drained cfg [] s = (s, [], None)"
| "run_until_drained cfg (c # cs) s =
     (let (s1, ds, code) = drain_turn cfg c s in
      case code of
        Some _ \<Rightarrow> (s1, ds, code)
      | None \<Rightarrow> let (s2, ds2, code2) = run_until_drained cfg cs s1 in (s2, ds @ ds2, code2))"

end
