(* ===== verification/Runner_Proofs.thy ===== *)
theory Runner_Proofs
  imports Runner "HOL-Library.Multiset" "HOL-Library.Sublist"
begin

text \<open>
  The drain loop: how often an event is put off before its verdict is written, what each exit code
  means, and that a queue that gets no new events is drained.
\<close>

section \<open>A poll is a round over some eligible events\<close>

lemma pick_loop_append: "pick_loop st now n items picked =
    picked @ take (n - length picked) (filter (eligible_at st now) items)"
proof (induction items arbitrary: picked)
  case (Cons item items)
  show ?case
  proof (cases "n \<le> length picked")
    case False
    then have "n - length picked = Suc (n - Suc (length picked))" by simp
    then show ?thesis using Cons.IH[of picked] Cons.IH[of "picked @ [item]"] False by simp
  qed simp
qed simp

lemma pick_eligible_many_eq: "pick_eligible_many st now n items = take n (filter (eligible_at st now) items)"
  by (simp add: pick_eligible_many_def pick_loop_append)

lemma find_filter: "List.find P xs = (case filter P xs of [] \<Rightarrow> None | x # _ \<Rightarrow> Some x)"
  by (induction xs) auto

lemma concurrency_pos: "0 < concurrency cfg"
  by (simp add: concurrency_def)

definition picked_by :: "runner_settings \<Rightarrow> poll_env \<Rightarrow> runner \<Rightarrow> ledger_item list" where
  "picked_by cfg env st =
     take (concurrency cfg) (filter (eligible_at st (pe_now env)) (case pe_items env of None \<Rightarrow> [] | Some items \<Rightarrow> items))"

lemma poll_once_round:
  assumes "process_all cfg env threshold delta_max (picked_by cfg env st) st = (st1, ds, ress)"
  obtains res where "poll_once cfg env threshold delta_max st = (st1, ds, res)"
    "res = Some Drained \<longleftrightarrow> pe_items env = Some []" "res = None \<longleftrightarrow> pe_items env = None \<or> None \<in> set ress"
proof (cases "pe_items env")
  case None
  with assms that[of None] show ?thesis by (simp add: poll_once_def picked_by_def)
next
  case (Some items)
  show ?thesis
  proof (cases items)
    case Nil
    with Some assms that[of "Some Drained"] show ?thesis by (simp add: poll_once_def picked_by_def)
  next
    case (Cons i rest)
    let ?el = "filter (eligible_at st (pe_now env)) items"
    have drained: "res \<noteq> Some Drained"
      if "process_item cfg env threshold delta_max item st = (st2, d, res)" for item st2 d res
      using that by (auto simp: process_item_def Let_def split: prod.splits if_splits)
    show ?thesis
    proof (cases "concurrency cfg = 1")
      case True
      with Some Cons assms that drained show ?thesis
        by (cases ?el)
          (auto simp: poll_once_def picked_by_def pick_eligible_def find_filter eq_commute[of None]
            split: prod.splits)
    next
      case False
      have "picked_by cfg env st = pick_eligible_many st (pe_now env) (concurrency cfg) items"
        by (simp add: picked_by_def pick_eligible_many_eq Some)
      with Some Cons assms that False show ?thesis
        by (cases "picked_by cfg env st = []") (auto simp: poll_once_def split: prod.splits)
    qed
  qed
qed

section \<open>Retries\<close>

fun deed_event :: "deed \<Rightarrow> ustr" where
  "deed_event (Put_off e _) = e"
| "deed_event (Sent e _ _ _) = e"

fun acknowledged :: "deed \<Rightarrow> bool" where
  "acknowledged (Sent _ _ _ ok) = ok"
| "acknowledged _ = False"

text \<open>How often an event was put off since it was last written.\<close>

fun tally :: "ustr \<Rightarrow> nat \<Rightarrow> deed list \<Rightarrow> nat" where
  "tally e n [] = n"
| "tally e n (d # ds) =
     tally e (if deed_event d \<noteq> e then n else if acknowledged d then 0
              else case d of Put_off _ _ \<Rightarrow> Suc n | _ \<Rightarrow> n) ds"

definition put_offs :: "deed list \<Rightarrow> ustr \<Rightarrow> nat" where
  "put_offs ds e = tally e 0 ds"

lemma tally_append: "tally e n (ds @ ds') = tally e (tally e n ds) ds'"
  by (induction ds arbitrary: n) simp_all

lemma put_offs_Nil [simp]: "put_offs [] e = 0"
  by (simp add: put_offs_def)

text \<open>What cannot improve, and what is worth another try.\<close>

definition final_response :: "verify_response \<Rightarrow> bool" where
  "final_response r \<longleftrightarrow> rs_status r \<noteq> UNVERIFIABLE \<or> rs_error_code r \<in> Some ` PERMANENT_ERROR_CODES"

text \<open>A deed is right, if the event was put off \<open>n\<close> times before.\<close>

fun deed_ok :: "runner_settings \<Rightarrow> nat \<Rightarrow> deed \<Rightarrow> bool" where
  "deed_ok cfg n (Put_off e r) = (\<not> final_response r \<and> int n + 1 < rt_max_verify_attempts cfg)"
| "deed_ok cfg n (Sent e r p ok) =
     ((final_response r \<or> rt_max_verify_attempts cfg \<le> int n + 1)
      \<and> vp_inference_event_id p = e \<and> vp_result p = rs_status r \<and> vp_error_code p = rs_error_code r)"

fun deeds_ok :: "runner_settings \<Rightarrow> deed list \<Rightarrow> deed list \<Rightarrow> bool" where
  "deeds_ok cfg done [] = True"
| "deeds_ok cfg done (d # ds) = (deed_ok cfg (put_offs done (deed_event d)) d \<and> deeds_ok cfg (done @ [d]) ds)"

lemma deeds_ok_append: "deeds_ok cfg done (ds @ ds') \<longleftrightarrow> deeds_ok cfg done ds \<and> deeds_ok cfg (done @ ds) ds'"
  by (induction ds arbitrary: "done") simp_all

definition attempts_counted :: "runner \<Rightarrow> deed list \<Rightarrow> bool" where
  "attempts_counted st ds \<longleftrightarrow> (\<forall>e. get_or (rn_attempts st) e 0 = int (put_offs ds e))"

lemma get_or_simps [simp]:
  "get_or (m(k \<mapsto> v)) k' d = (if k' = k then v else get_or m k' d)"
  "get_or (m(k := None)) k' d = (if k' = k then d else get_or m k' d)"
  "get_or Map.empty k d = d"
  by (simp_all add: get_or_def)

lemma should_record_cases:
  "should_record cfg now st e r =
     (if final_response r \<or> rt_max_verify_attempts cfg \<le> get_or (rn_attempts st) e 0 + 1 then (True, st)
      else (False, st\<lparr>rn_attempts := (rn_attempts st)(e \<mapsto> get_or (rn_attempts st) e 0 + 1),
                      rn_next_retry_at := (rn_next_retry_at st)(e \<mapsto> now
                        + rt_retry_backoff_seconds cfg * 2 ^ nat (get_or (rn_attempts st) e 0))\<rparr>))"
  by (auto simp: should_record_def final_response_def Let_def)

lemma item_request_id: "rq_request_id (inference_event_to_verify_request loads item) = li_id item"
  by (simp add: inference_event_to_verify_request_def Let_def)

lemma process_item_books:
  assumes p: "process_item cfg env threshold delta_max item st = (st1, d, res)" and a: "attempts_counted st ds"
  shows "attempts_counted st1 (ds @ [d])" "deed_ok cfg (put_offs ds (deed_event d)) d"
proof -
  have n: "get_or (rn_attempts st) e 0 = int (put_offs ds e)" for e using a by (simp add: attempts_counted_def)
  show "attempts_counted st1 (ds @ [d])" "deed_ok cfg (put_offs ds (deed_event d)) d"
    using p n
    by (auto simp: process_item_def should_record_cases Let_def attempts_counted_def put_offs_def tally_append
        clear_def build_verification_event_payload_def item_request_id split: if_splits)
qed

lemma process_all_books:
  "process_all cfg env threshold delta_max items st = (st1, ds', ress) \<Longrightarrow> attempts_counted st ds \<Longrightarrow>
     attempts_counted st1 (ds @ ds') \<and> deeds_ok cfg ds ds'"
proof (induction items arbitrary: st ds ds' ress)
  case (Cons item items)
  obtain st2 d res where p: "process_item cfg env threshold delta_max item st = (st2, d, res)" by (metis prod_cases3)
  obtain ds2 ress2 where q: "process_all cfg env threshold delta_max items st2 = (st1, ds2, ress2)" "ds' = d # ds2"
    using Cons.prems(1) p by (auto split: prod.splits)
  show ?case
    using Cons.IH[OF q(1), of "ds @ [d]"] process_item_books[OF p Cons.prems(2)] q(2) by simp
qed simp

lemma poll_once_books:
  assumes "poll_once cfg env threshold delta_max st = (st1, ds', res)" "attempts_counted st ds"
  shows "attempts_counted st1 (ds @ ds') \<and> deeds_ok cfg ds ds'"
proof -
  obtain st2 ds2 ress where p: "process_all cfg env threshold delta_max (picked_by cfg env st) st = (st2, ds2, ress)"
    by (metis prod_cases3)
  from poll_once_round[OF p] assms(1) have "st2 = st1" "ds2 = ds'" by (metis fst_conv snd_conv)+
  with process_all_books[OF p assms(2)] show ?thesis by simp
qed

lemma ledger_failure_simps [simp]:
  "dr_runner (fst (ledger_failure cfg s)) = dr_runner s"
  "dr_checked (fst (ledger_failure cfg s)) = dr_checked s"
  "dr_ledger_failures (fst (ledger_failure cfg s)) = dr_ledger_failures s + 1"
  by (simp_all add: ledger_failure_def Let_def)

lemma drain_turn_books:
  assumes "drain_turn cfg c s = (s1, ds', code)" "attempts_counted (dr_runner s) ds"
  shows "attempts_counted (dr_runner s1) (ds @ ds') \<and> deeds_ok cfg ds ds'"
  using assms poll_once_books[OF _ assms(2)]
  by (fastforce simp: drain_turn_def Let_def ledger_failure_def split: option.splits if_splits prod.splits)

lemma run_books:
  "run_until_drained cfg cs s = (s1, ds', code) \<Longrightarrow> attempts_counted (dr_runner s) ds \<Longrightarrow>
     attempts_counted (dr_runner s1) (ds @ ds') \<and> deeds_ok cfg ds ds'"
proof (induction cs arbitrary: s ds ds')
  case (Cons c cs)
  obtain s2 d2 code2 where t: "drain_turn cfg c s = (s2, d2, code2)" by (metis prod_cases3)
  note b = drain_turn_books[OF t Cons.prems(2)]
  show ?case
  proof (cases code2)
    case None
    then obtain d3 where r: "run_until_drained cfg cs s2 = (s1, d3, code)" "ds' = d2 @ d3"
      using Cons.prems(1) t by (auto split: prod.splits)
    from Cons.IH[OF r(1), of "ds @ d2"] b r(2) show ?thesis by (auto simp: deeds_ok_append)
  next
    case (Some k)
    with Cons.prems(1) t b show ?thesis by auto
  qed
qed simp

lemma attempts_counted_new: "attempts_counted (dr_runner new_drain) []"
  by (simp add: attempts_counted_def new_drain_def)

lemma deeds_bound:
  assumes "deeds_ok cfg [] ds"
  shows "int (put_offs ds e) < max 1 (rt_max_verify_attempts cfg)"
  using assms
proof (induction ds rule: rev_induct)
  case (snoc d ds)
  then have "int (put_offs ds e) < max 1 (rt_max_verify_attempts cfg)" "deed_ok cfg (put_offs ds (deed_event d)) d"
    by (simp_all add: deeds_ok_append)
  then show ?case by (cases d) (auto simp: put_offs_def tally_append)
qed simp

text \<open>The retry policy. In every run of the drain loop, against whatever the ledger and the verifier
answer: a verification whose outcome may improve is put off, but never when the event was put off
max_verify_attempts - 1 times since it was last written; every verdict sent to the ledger is a final one
or the event has used up its attempts; it carries the event's id and the verifier's result; and at the
end no event has been put off as often as the limit.\<close>

theorem retry_policy:
  "case run_until_drained cfg cs new_drain of (s, ds, code) \<Rightarrow>
     deeds_ok cfg [] ds \<and> int (put_offs ds e) < max 1 (rt_max_verify_attempts cfg)"
proof -
  obtain s ds code where r: "run_until_drained cfg cs new_drain = (s, ds, code)" by (metis prod_cases3)
  have "deeds_ok cfg [] ds" using run_books[OF r attempts_counted_new] by simp
  then show ?thesis using r deeds_bound by simp
qed

section \<open>Exit codes\<close>

text \<open>The cycle met an \<open>HTTPError\<close>.\<close>

definition raised :: "runner_settings \<Rightarrow> cycle \<Rightarrow> drain_state \<Rightarrow> bool" where
  "raised cfg c s \<longleftrightarrow>
     (case cy_model c of
        None \<Rightarrow> True
      | Some row \<Rightarrow>
          (case mr_verification_threshold row of
             None \<Rightarrow> False
           | Some threshold \<Rightarrow> snd (snd (poll_once cfg (cy_poll c) threshold (mr_delta_max row) (dr_runner s))) = None))"

lemma drain_turn_None:
  assumes "drain_turn cfg c s = (s1, ds, None)"
  shows "dr_ledger_failures s1 = (if raised cfg c s then dr_ledger_failures s + 1 else 0)"
    "\<not> dr_checked s1 \<Longrightarrow> \<not> dr_checked s \<and> ds = []"
  using assms
  by (auto simp: drain_turn_def raised_def ledger_failure_def Let_def
      split: option.splits if_splits prod.splits)

definition paused :: "cycle \<Rightarrow> bool" where
  "paused c \<longleftrightarrow> (case cy_model c of None \<Rightarrow> False | Some row \<Rightarrow> mr_verification_threshold row = None)"

definition mismatched :: "runner_settings \<Rightarrow> cycle \<Rightarrow> bool" where
  "mismatched cfg c \<longleftrightarrow> (case cy_model c of None \<Rightarrow> False | Some row \<Rightarrow> mismatches (rt_launch_sampling cfg) row \<noteq> [])"

lemma poll_drained:
  assumes "poll_once cfg env threshold delta_max st = (st1, ds, Some Drained)"
  shows "pe_items env = Some [] \<and> ds = []"
proof -
  obtain st2 ds2 ress where p: "process_all cfg env threshold delta_max (picked_by cfg env st) st = (st2, ds2, ress)"
    by (metis prod_cases3)
  from poll_once_round[OF p] assms have "pe_items env = Some []" by (metis snd_conv)
  with assms show ?thesis by (simp add: poll_once_def)
qed

lemma drain_turn_Some:
  assumes t: "drain_turn cfg c s = (s1, ds, Some code)"
  shows "code = 0 \<and> ds = [] \<and> (paused c \<or> pe_items (cy_poll c) = Some [])
    \<or> code = 1 \<and> raised cfg c s \<and> rt_max_ledger_failures cfg \<le> dr_ledger_failures s + 1
    \<or> code = 2 \<and> ds = [] \<and> mismatched cfg c \<and> \<not> dr_checked s"
proof (cases "cy_model c")
  case None
  with t show ?thesis
    by (simp add: drain_turn_def raised_def ledger_failure_def Let_def split: if_splits)
next
  case (Some row)
  note row = Some
  show ?thesis
  proof (cases "\<not> dr_checked s \<and> mismatches (rt_launch_sampling cfg) row \<noteq> []")
    case True
    with row t show ?thesis by (simp add: drain_turn_def mismatched_def)
  next
    case False
    show ?thesis
    proof (cases "mr_verification_threshold row")
      case None
      with row t False show ?thesis by (auto simp: drain_turn_def paused_def)
    next
      case (Some threshold)
      obtain st ds2 res where p: "poll_once cfg (cy_poll c) threshold (mr_delta_max row) (dr_runner s) = (st, ds2, res)"
        by (metis prod_cases3)
      show ?thesis
      proof (cases res)
        case None
        with row t False Some p show ?thesis
          by (auto simp: drain_turn_def raised_def ledger_failure_def Let_def split: if_splits)
      next
        case (Some r)
        with row t False \<open>mr_verification_threshold row = Some threshold\<close> p have "r = Drained" "code = 0" "ds = ds2"
          by (auto simp: drain_turn_def Let_def split: if_splits)
        with poll_drained p Some show ?thesis by blast
      qed
    qed
  qed
qed

lemma run_append:
  "run_until_drained cfg (cs @ cs') s =
     (let (s1, ds, code) = run_until_drained cfg cs s in
      case code of
        Some k \<Rightarrow> (s1, ds, Some k)
      | None \<Rightarrow> let (s2, ds2, code2) = run_until_drained cfg cs' s1 in (s2, ds @ ds2, code2))"
  by (induction cs arbitrary: s) (auto simp: Let_def split: prod.splits option.splits)

text \<open>The state before the cycle of an index, and whether that cycle met an error.\<close>

definition cycle_raised :: "runner_settings \<Rightarrow> cycle list \<Rightarrow> nat \<Rightarrow> bool" where
  "cycle_raised cfg cs i \<longleftrightarrow> raised cfg (cs ! i) (fst (run_until_drained cfg (take i cs) new_drain))"

lemma cycle_raised_append: "i < length cs \<Longrightarrow> cycle_raised cfg (cs @ cs') i = cycle_raised cfg cs i"
  by (simp add: cycle_raised_def nth_append)

lemma cycle_raised_last:
  "run_until_drained cfg cs new_drain = (s, ds, code) \<Longrightarrow> cycle_raised cfg (cs @ c # cs') (length cs) = raised cfg c s"
  by (simp add: cycle_raised_def nth_append)

lemma run_snoc:
  "run_until_drained cfg (cs @ [c]) s0 = (s, ds, None) \<Longrightarrow>
     \<exists>s1 ds1 ds2. run_until_drained cfg cs s0 = (s1, ds1, None) \<and> drain_turn cfg c s1 = (s, ds2, None) \<and> ds = ds1 @ ds2"
  by (auto simp: run_append Let_def split: prod.splits option.splits)

lemma run_streak:
  "run_until_drained cfg cs new_drain = (s, ds, None) \<Longrightarrow>
     0 \<le> dr_ledger_failures s \<and> nat (dr_ledger_failures s) \<le> length cs
     \<and> (\<forall>i < length cs. length cs \<le> i + nat (dr_ledger_failures s) \<longrightarrow> cycle_raised cfg cs i)
     \<and> (\<not> dr_checked s \<longrightarrow> ds = [])"
proof (induction cs arbitrary: s ds rule: rev_induct)
  case Nil
  then show ?case by (auto simp: new_drain_def)
next
  case (snoc c cs)
  obtain s1 ds1 ds2 where r: "run_until_drained cfg cs new_drain = (s1, ds1, None)" and t: "drain_turn cfg c s1 = (s, ds2, None)"
      and ds: "ds = ds1 @ ds2" using run_snoc[OF snoc.prems] by blast
  note ih = snoc.IH[OF r] and tn = drain_turn_None[OF t]
  have checked: "\<not> dr_checked s \<longrightarrow> ds = []" using tn(2) ih ds by simp
  have last: "cycle_raised cfg (cs @ [c]) (length cs) = raised cfg c s1" using cycle_raised_last[OF r] by simp
  show ?case
  proof (cases "raised cfg c s1")
    case True
    then have f: "dr_ledger_failures s = dr_ledger_failures s1 + 1" using tn(1) by simp
    have "cycle_raised cfg (cs @ [c]) i"
      if "i < length (cs @ [c])" "length (cs @ [c]) \<le> i + nat (dr_ledger_failures s)" for i
      using that True last ih f cycle_raised_append[of i cs cfg "[c]"]
      by (cases "i = length cs") (auto simp: nat_add_distrib)
    with f ih checked show ?thesis by (auto simp: nat_add_distrib)
  next
    case False
    with tn(1) checked show ?thesis by simp
  qed
qed

lemma run_exit:
  "run_until_drained cfg cs s0 = (s, ds, Some code) \<Longrightarrow>
     \<exists>pre c post s1 ds1 ds2. cs = pre @ c # post \<and> run_until_drained cfg pre s0 = (s1, ds1, None)
       \<and> drain_turn cfg c s1 = (s, ds2, Some code) \<and> ds = ds1 @ ds2"
proof (induction cs arbitrary: s0 ds)
  case (Cons c cs)
  obtain s2 d2 code2 where t: "drain_turn cfg c s0 = (s2, d2, code2)" by (metis prod_cases3)
  show ?case
  proof (cases code2)
    case None
    then obtain d3 where r: "run_until_drained cfg cs s2 = (s, d3, Some code)" "ds = d2 @ d3"
      using Cons.prems t by (auto split: prod.splits)
    from Cons.IH[OF r(1)] obtain pre c' post s1 ds1 ds2 where
      "cs = pre @ c' # post" "run_until_drained cfg pre s2 = (s1, ds1, None)"
      "drain_turn cfg c' s1 = (s, ds2, Some code)" "d3 = ds1 @ ds2" by blast
    with t None r(2) show ?thesis
      by (intro exI[of _ "c # pre"] exI[of _ c'] exI[of _ post] exI[of _ s1] exI[of _ "d2 @ ds1"] exI[of _ ds2]) simp
  next
    case (Some k)
    with Cons.prems t show ?thesis by (intro exI[of _ "[]"]) simp
  qed
qed simp

text \<open>What an exit code means. When the drain loop returns at a cycle, the code is 0 only if the queue
was empty or the model's threshold was not set, and this last cycle wrote nothing; it is 1 only if the
last max_ledger_failures cycles (at least one) all met an error of the ledger; it is 2 only if the
launch configuration disagrees with the model row, and then nothing was verified at all. There is no
other code.\<close>

theorem exit_codes:
  assumes "run_until_drained cfg cs new_drain = (s, ds, Some code)"
  shows "\<exists>n < length cs. \<exists>s1 ds1.
    run_until_drained cfg (take n cs) new_drain = (s1, ds1, None) \<and>
    (code = 0 \<and> ds = ds1 \<and> (paused (cs ! n) \<or> pe_items (cy_poll (cs ! n)) = Some [])
     \<or> code = 1 \<and> max 1 (rt_max_ledger_failures cfg) \<le> int n + 1
         \<and> (\<forall>i \<le> n. int n < int i + max 1 (rt_max_ledger_failures cfg) \<longrightarrow> cycle_raised cfg cs i)
     \<or> code = 2 \<and> ds = [] \<and> mismatched cfg (cs ! n))"
proof -
  obtain pre c post s1 ds1 ds2 where x: "cs = pre @ c # post" "run_until_drained cfg pre new_drain = (s1, ds1, None)"
      "drain_turn cfg c s1 = (s, ds2, Some code)" "ds = ds1 @ ds2"
    using run_exit[OF assms] by blast
  note st = run_streak[OF x(2)] and last = cycle_raised_last[OF x(2), of c post]
  have "cycle_raised cfg cs i"
    if "raised cfg c s1" "rt_max_ledger_failures cfg \<le> dr_ledger_failures s1 + 1" "i \<le> length pre"
      "int (length pre) < int i + max 1 (rt_max_ledger_failures cfg)" for i
    using that st last x(1) cycle_raised_append[of i pre cfg "c # post"]
    by (cases "i = length pre") auto
  with drain_turn_Some[OF x(3)] x st show ?thesis
    by (intro exI[of _ "length pre"]) auto
qed

definition demo_settings :: runner_settings where
  "demo_settings = \<lparr>rt_poll_batch_size = 10, rt_max_verify_attempts = 3, rt_retry_backoff_seconds = 15,
     rt_max_ledger_failures = 1, rt_max_concurrent = 1,
     rt_launch_sampling = \<lparr>la_seed = None, la_temperature = None, la_top_k = None, la_top_p = None\<rparr>,
     rt_hardware_id = [], rt_verifier_model_id = []\<rparr>"

definition demo_response :: verify_response where
  "demo_response = \<lparr>rs_request_id = [], rs_status = UNVERIFIABLE, rs_error_code = Some VERIFICATION_TIMEOUT,
     rs_match_target = 0, rs_metrics = empty_metrics 0, rs_verifier_model_id = None,
     rs_prover_output_token_ids = [], rs_verifier_output_token_ids = [], rs_output_token_comparison = []\<rparr>"

definition demo_poll :: poll_env where
  "demo_poll = \<lparr>pe_items = Some [], pe_now = 0, pe_done = (\<lambda>_. 0), pe_verify = (\<lambda>_ _ _. demo_response),
     pe_write = (\<lambda>_. True), pe_loads = (\<lambda>_. None), pe_repr = (\<lambda>_. [])\<rparr>"

lemma exit_codes_witness: "cycle_raised demo_settings [\<lparr>cy_model = None, cy_poll = demo_poll\<rparr>] 0"
  using exit_codes[of demo_settings "[\<lparr>cy_model = None, cy_poll = demo_poll\<rparr>]" _ "[]" 1]
  by (simp add: drain_turn_def ledger_failure_def Let_def demo_settings_def new_drain_def)

section \<open>A queue that gets no new events is drained\<close>

text \<open>
  A ledger that holds the model's pending events, newest first, answers every call and takes a verdict
  off the queue when it is written; the verifier and the clock are arbitrary.
\<close>

record world =
  wd_row :: model_row
  wd_verify :: "verify_request \<Rightarrow> real \<Rightarrow> real option \<Rightarrow> verify_response"
  wd_clock :: "nat \<Rightarrow> real"
  wd_done :: "nat \<Rightarrow> ustr \<Rightarrow> real"
  wd_loads :: json_reader
  wd_repr :: "real \<Rightarrow> ustr"

definition world_poll :: "runner_settings \<Rightarrow> world \<Rightarrow> nat \<Rightarrow> ledger_item list \<Rightarrow> poll_env" where
  "world_poll cfg w i pending =
     \<lparr>pe_items = Some (take (rt_poll_batch_size cfg) pending), pe_now = wd_clock w i, pe_done = wd_done w i,
      pe_verify = wd_verify w, pe_write = (\<lambda>_. True), pe_loads = wd_loads w, pe_repr = wd_repr w\<rparr>"

definition written :: "deed list \<Rightarrow> ustr list" where
  "written ds = map deed_event (filter acknowledged ds)"

definition still_pending :: "deed list \<Rightarrow> ledger_item list \<Rightarrow> ledger_item list" where
  "still_pending ds pending = filter (\<lambda>x. li_id x \<notin> set (written ds)) pending"

fun run_world :: "runner_settings \<Rightarrow> world \<Rightarrow> nat \<Rightarrow> nat \<Rightarrow> ledger_item list \<Rightarrow> drain_state \<Rightarrow> deed list \<times> nat option" where
  "run_world cfg w 0 i pending s = ([], None)"
| "run_world cfg w (Suc n) i pending s =
     (let (s1, ds, code) = drain_turn cfg \<lparr>cy_model = Some (wd_row w), cy_poll = world_poll cfg w i pending\<rparr> s in
      case code of
        Some _ \<Rightarrow> (ds, code)
      | None \<Rightarrow> let (ds2, code2) = run_world cfg w n (Suc i) (still_pending ds pending) s1 in (ds @ ds2, code2))"

text \<open>The turns an event may still take, and all events together.\<close>

definition limit :: "runner_settings \<Rightarrow> int" where
  "limit cfg = max 1 (rt_max_verify_attempts cfg)"

definition turns_left :: "runner_settings \<Rightarrow> runner \<Rightarrow> ledger_item \<Rightarrow> nat" where
  "turns_left cfg st x = nat (limit cfg - get_or (rn_attempts st) (li_id x) 0)"

definition attempts_below :: "runner_settings \<Rightarrow> runner \<Rightarrow> bool" where
  "attempts_below cfg st \<longleftrightarrow> (\<forall>e. get_or (rn_attempts st) e 0 < limit cfg)"

lemma process_item_world:
  assumes p: "process_item cfg env threshold delta_max item st = (st1, d, res)" and w: "pe_write env = (\<lambda>_. True)"
    and b: "attempts_below cfg st"
  shows "attempts_below cfg st1" "res \<noteq> None" "deed_event d = li_id item"
    "\<And>e. e \<noteq> li_id item \<Longrightarrow> get_or (rn_attempts st1) e 0 = get_or (rn_attempts st) e 0"
    "acknowledged d \<or> get_or (rn_attempts st1) (li_id item) 0 = get_or (rn_attempts st) (li_id item) 0 + 1"
  using p b w
  by (auto simp: process_item_def should_record_cases Let_def attempts_below_def limit_def clear_def
      split: if_splits)

lemma written_simps [simp]:
  "written [] = []" "written (d # ds) = (if acknowledged d then [deed_event d] else []) @ written ds"
  by (simp_all add: written_def)

lemma process_all_world:
  assumes w: "pe_write env = (\<lambda>_. True)"
  shows "process_all cfg env threshold delta_max items st = (st1, ds, ress) \<Longrightarrow> attempts_below cfg st \<Longrightarrow>
     distinct (map li_id items) \<Longrightarrow>
     attempts_below cfg st1 \<and> None \<notin> set ress \<and> distinct (written ds)
     \<and> set (written ds) \<subseteq> li_id ` set items
     \<and> (\<forall>e. e \<notin> li_id ` set items \<longrightarrow> get_or (rn_attempts st1) e 0 = get_or (rn_attempts st) e 0)
     \<and> (\<forall>e \<in> li_id ` set items. e \<in> set (written ds)
          \<or> get_or (rn_attempts st1) e 0 = get_or (rn_attempts st) e 0 + 1)"
proof (induction items arbitrary: st ds ress)
  case (Cons item items)
  obtain st2 d res where p: "process_item cfg env threshold delta_max item st = (st2, d, res)" by (metis prod_cases3)
  obtain ds2 ress2 where q: "process_all cfg env threshold delta_max items st2 = (st1, ds2, ress2)"
      "ds = d # ds2" "ress = res # ress2"
    using Cons.prems(1) p by (auto split: prod.splits)
  note i = process_item_world[OF p w Cons.prems(2)]
  have ih: "attempts_below cfg st1 \<and> None \<notin> set ress2 \<and> distinct (written ds2)
     \<and> set (written ds2) \<subseteq> li_id ` set items
     \<and> (\<forall>e. e \<notin> li_id ` set items \<longrightarrow> get_or (rn_attempts st1) e 0 = get_or (rn_attempts st2) e 0)
     \<and> (\<forall>e \<in> li_id ` set items. e \<in> set (written ds2)
          \<or> get_or (rn_attempts st1) e 0 = get_or (rn_attempts st2) e 0 + 1)"
    using Cons.IH[OF q(1) i(1)] Cons.prems(3) by simp
  have nin: "li_id item \<notin> li_id ` set items" using Cons.prems(3) by auto
  have "distinct (written ds)" using ih nin i(3) q(2) by auto
  moreover have "get_or (rn_attempts st1) e 0 = get_or (rn_attempts st) e 0" if "e \<notin> li_id ` set (item # items)" for e
    using that ih i(4)[of e] by auto
  moreover have "e \<in> set (written ds) \<or> get_or (rn_attempts st1) e 0 = get_or (rn_attempts st) e 0 + 1"
    if "e \<in> li_id ` set (item # items)" for e
    using that ih i(3,5) i(4)[of e] nin q(2) by (cases "e = li_id item") auto
  ultimately show ?case using ih i q by auto
qed simp

lemma sum_filter_le:
  "(\<And>x. x \<in> set xs \<Longrightarrow> P x \<Longrightarrow> f x \<le> g x) \<Longrightarrow> sum_list (map f (filter P xs)) \<le> sum_list (map g xs)"
  for f g :: "'a \<Rightarrow> nat"
  by (induction xs) (simp_all add: add_mono trans_le_add2)

lemma sum_filter_less:
  fixes f g :: "'a \<Rightarrow> nat"
  assumes "\<And>x. x \<in> set xs \<Longrightarrow> P x \<Longrightarrow> f x \<le> g x" "y \<in> set xs" "if P y then f y < g y else 0 < g y"
  shows "sum_list (map f (filter P xs)) < sum_list (map g xs)"
  using assms
proof (induction xs)
  case (Cons x xs)
  have le: "sum_list (map f (filter P xs)) \<le> sum_list (map g xs)"
    using Cons.prems(1) by (intro sum_filter_le) auto
  show ?case
  proof (cases "y = x")
    case True
    with Cons.prems(3) le show ?thesis by (auto split: if_splits)
  next
    case False
    then have "sum_list (map f (filter P xs)) < sum_list (map g xs)"
      using Cons by auto
    with Cons.prems(1)[of x] show ?thesis by auto
  qed
qed simp

lemma mset_written:
  assumes "distinct ws" "set ws \<subseteq> li_id ` set pending" "distinct (map li_id pending)"
  shows "mset ws + mset (map li_id (filter (\<lambda>x. li_id x \<notin> set ws) pending)) = mset (map li_id pending)"
proof -
  have "distinct (map li_id (filter (\<lambda>x. li_id x \<in> set ws) pending))"
    using assms(3) by (simp add: distinct_map_filter)
  then have "mset ws = mset (map li_id (filter (\<lambda>x. li_id x \<in> set ws) pending))"
    using assms(1,2) by (subst set_eq_iff_mset_eq_distinct[symmetric]) auto
  then have "mset ws = image_mset li_id (filter_mset (\<lambda>x. li_id x \<in> set ws) (mset pending))" by simp
  moreover have "image_mset li_id (filter_mset (\<lambda>x. li_id x \<in> set ws) (mset pending))
      + image_mset li_id (filter_mset (\<lambda>x. li_id x \<notin> set ws) (mset pending)) = image_mset li_id (mset pending)"
    by (metis image_mset_union multiset_partition)
  ultimately show ?thesis by simp
qed

text \<open>One turn over a queue that is not empty: it goes on, and what it picks brings the queue forward.\<close>

definition drainable :: "runner_settings \<Rightarrow> world \<Rightarrow> bool" where
  "drainable cfg w \<longleftrightarrow> 0 < rt_poll_batch_size cfg \<and> mr_verification_threshold (wd_row w) \<noteq> None
     \<and> mismatches (rt_launch_sampling cfg) (wd_row w) = []"

definition queue_left :: "runner_settings \<Rightarrow> runner \<Rightarrow> ledger_item list \<Rightarrow> nat" where
  "queue_left cfg st pending = sum_list (map (turns_left cfg st) pending)"

lemma turn_world:
  assumes w: "drainable cfg w" and q: "pending \<noteq> []" "distinct (map li_id pending)"
    and b: "attempts_below cfg (dr_runner s)"
  obtains s1 ds where
    "drain_turn cfg \<lparr>cy_model = Some (wd_row w), cy_poll = world_poll cfg w i pending\<rparr> s = (s1, ds, None)"
    "attempts_below cfg (dr_runner s1)" "distinct (written ds)" "set (written ds) \<subseteq> li_id ` set pending"
    "picked_by cfg (world_poll cfg w i pending) (dr_runner s) = [] \<Longrightarrow> ds = [] \<and> dr_runner s1 = dr_runner s"
    "picked_by cfg (world_poll cfg w i pending) (dr_runner s) \<noteq> [] \<Longrightarrow>
       queue_left cfg (dr_runner s1) (still_pending ds pending) < queue_left cfg (dr_runner s) pending"
proof -
  let ?env = "world_poll cfg w i pending"
  define picked where "picked = picked_by cfg ?env (dr_runner s)"
  obtain threshold where t: "mr_verification_threshold (wd_row w) = Some threshold"
    using w by (auto simp: drainable_def)
  obtain st ds ress where p: "process_all cfg ?env threshold (mr_delta_max (wd_row w)) picked (dr_runner s) = (st, ds, ress)"
    by (metis prod_cases3)
  have picked: "picked = take (concurrency cfg) (filter (eligible_at (dr_runner s) (wd_clock w i))
      (take (rt_poll_batch_size cfg) pending))"
    by (simp add: picked_def picked_by_def world_poll_def)
  have dist: "distinct (map li_id picked)"
    unfolding picked using q(2) by (auto simp: take_map[symmetric] distinct_map_filter intro: distinct_take)
  have sub: "set picked \<subseteq> set pending" unfolding picked by (auto dest!: in_set_takeD)
  have "pe_write ?env = (\<lambda>_. True)" by (simp add: world_poll_def)
  note r = process_all_world[OF this p b dist]
  obtain res where poll: "poll_once cfg ?env threshold (mr_delta_max (wd_row w)) (dr_runner s) = (st, ds, res)"
      and res: "res = Some Drained \<longleftrightarrow> pe_items ?env = Some []" "res = None \<longleftrightarrow> pe_items ?env = None \<or> None \<in> set ress"
    using poll_once_round[OF p[unfolded picked_def]] by blast
  have "res \<noteq> None" "res \<noteq> Some Drained"
    using res r w q(1) by (auto simp: world_poll_def drainable_def)
  then obtain o' where o': "res = Some o'" "o' \<noteq> Drained" by auto
  define s1 where "s1 = s\<lparr>dr_checked := True, dr_runner := st, dr_ledger_failures := 0\<rparr>"
  have turn: "drain_turn cfg \<lparr>cy_model = Some (wd_row w), cy_poll = ?env\<rparr> s = (s1, ds, None)"
    using w t poll o' by (simp add: drain_turn_def drainable_def Let_def s1_def)
  have st: "dr_runner s1 = st" by (simp add: s1_def)
  have idle: "ds = [] \<and> dr_runner s1 = dr_runner s" if "picked = []"
    using that p st by simp
  have busy: "queue_left cfg st (still_pending ds pending) < queue_left cfg (dr_runner s) pending" if "picked \<noteq> []"
    unfolding queue_left_def still_pending_def
  proof (rule sum_filter_less)
    show "hd picked \<in> set pending" using that sub by auto
    have e: "li_id (hd picked) \<in> li_id ` set picked" using that by auto
    have "0 < turns_left cfg (dr_runner s) (hd picked)"
      using b by (simp add: turns_left_def attempts_below_def)
    moreover have "turns_left cfg st (hd picked) < turns_left cfg (dr_runner s) (hd picked)"
      if "li_id (hd picked) \<notin> set (written ds)"
      using that r e b by (force simp: turns_left_def attempts_below_def)
    ultimately show "if li_id (hd picked) \<notin> set (written ds)
        then turns_left cfg st (hd picked) < turns_left cfg (dr_runner s) (hd picked)
        else 0 < turns_left cfg (dr_runner s) (hd picked)" by simp
  next
    fix x assume x: "x \<in> set pending" "li_id x \<notin> set (written ds)"
    show "turns_left cfg st x \<le> turns_left cfg (dr_runner s) x"
    proof (cases "li_id x \<in> li_id ` set picked")
      case True
      then have "get_or (rn_attempts st) (li_id x) 0 = get_or (rn_attempts (dr_runner s)) (li_id x) 0 + 1"
        using x(2) r by blast
      then show ?thesis by (simp add: turns_left_def)
    next
      case False
      then have "get_or (rn_attempts st) (li_id x) 0 = get_or (rn_attempts (dr_runner s)) (li_id x) 0"
        using r by blast
      then show ?thesis by (simp add: turns_left_def)
    qed
  qed
  have wr: "set (written ds) \<subseteq> li_id ` set pending" using r sub by blast
  have below: "attempts_below cfg (dr_runner s1)" and dw: "distinct (written ds)" using r st by simp_all
  show ?thesis
    by (rule that[OF turn below dw wr]) (use st idle busy in \<open>auto simp: picked_def\<close>)
qed

lemma picked_eventually:
  assumes w: "drainable cfg w" and ne: "pending \<noteq> []"
    and late: "\<forall>x \<in> set pending. get_or (rn_next_retry_at st) (li_id x) 0 \<le> wd_clock w i"
  shows "picked_by cfg (world_poll cfg w i pending) st \<noteq> []"
proof -
  obtain x xs where x: "take (rt_poll_batch_size cfg) pending = x # xs"
    using w ne by (cases pending; cases "rt_poll_batch_size cfg") (auto simp: drainable_def)
  then have "x \<in> set pending" by (metis in_set_takeD list.set_intros(1))
  then have "eligible_at st (wd_clock w i) x" using late by (simp add: eligible_at_def)
  with x concurrency_pos[of cfg] show ?thesis
    by (simp add: picked_by_def world_poll_def)
qed

text \<open>Nothing is picked until the clock passes the retry times; then something is.\<close>

lemma idle_until:
  assumes w: "drainable cfg w" and q: "pending \<noteq> []" "distinct (map li_id pending)"
  shows "attempts_below cfg (dr_runner s) \<Longrightarrow>
     \<forall>x \<in> set pending. get_or (rn_next_retry_at (dr_runner s)) (li_id x) 0 \<le> wd_clock w (i + k) \<Longrightarrow>
     \<exists>m s1. (\<forall>n. run_world cfg w (m + n) i pending s = run_world cfg w n (i + m) pending s1)
       \<and> dr_runner s1 = dr_runner s \<and> picked_by cfg (world_poll cfg w (i + m) pending) (dr_runner s1) \<noteq> []"
proof (induction k arbitrary: i s)
  case 0
  then show ?case using picked_eventually[OF w q(1), of "dr_runner s" i] by (intro exI[of _ 0] exI[of _ s]) simp
next
  case (Suc k)
  obtain s1 ds where t: "drain_turn cfg \<lparr>cy_model = Some (wd_row w), cy_poll = world_poll cfg w i pending\<rparr> s = (s1, ds, None)"
      and idle: "picked_by cfg (world_poll cfg w i pending) (dr_runner s) = [] \<Longrightarrow> ds = [] \<and> dr_runner s1 = dr_runner s"
    using turn_world[OF w q Suc.prems(1)] by metis
  show ?case
  proof (cases "picked_by cfg (world_poll cfg w i pending) (dr_runner s) = []")
    case True
    note same = idle[OF True]
    then have "attempts_below cfg (dr_runner s1)"
      "\<forall>x \<in> set pending. get_or (rn_next_retry_at (dr_runner s1)) (li_id x) 0 \<le> wd_clock w (Suc i + k)"
      using Suc.prems by simp_all
    then obtain m s2 where m: "\<forall>n. run_world cfg w (m + n) (Suc i) pending s1 = run_world cfg w n (Suc i + m) pending s2"
        "dr_runner s2 = dr_runner s1" "picked_by cfg (world_poll cfg w (Suc i + m) pending) (dr_runner s2) \<noteq> []"
      using Suc.IH[of s1 "Suc i"] by blast
    have "run_world cfg w (Suc m + n) i pending s = run_world cfg w n (i + Suc m) pending s2" for n
      using t m(1) same by (simp add: still_pending_def split: prod.split)
    with m same show ?thesis by (intro exI[of _ "Suc m"] exI[of _ s2]) simp
  next
    case False
    then show ?thesis by (intro exI[of _ 0] exI[of _ s]) simp
  qed
qed

lemma drains:
  assumes w: "drainable cfg w" and clock: "\<forall>b. \<exists>i. \<forall>j \<ge> i. b \<le> wd_clock w j"
  shows "distinct (map li_id pending) \<Longrightarrow> attempts_below cfg (dr_runner s) \<Longrightarrow>
     \<exists>n ds. run_world cfg w n i pending s = (ds, Some 0) \<and> mset (written ds) = mset (map li_id pending)"
proof (induction "queue_left cfg (dr_runner s) pending" arbitrary: pending s i rule: less_induct)
  case less
  show ?case
  proof (cases "pending = []")
    case True
    obtain threshold where "mr_verification_threshold (wd_row w) = Some threshold"
      using w by (auto simp: drainable_def)
    then have "run_world cfg w 1 i pending s = ([], Some 0)"
      using w True by (simp add: drain_turn_def drainable_def poll_once_def world_poll_def Let_def)
    with True show ?thesis by (intro exI[of _ 1] exI[of _ "[]"]) simp
  next
    case False
    define bound where "bound = Max (insert 0 ((\<lambda>x. get_or (rn_next_retry_at (dr_runner s)) (li_id x) 0) ` set pending))"
    obtain j where j: "\<forall>l \<ge> j. bound \<le> wd_clock w l" using clock by blast
    have "\<forall>x \<in> set pending. get_or (rn_next_retry_at (dr_runner s)) (li_id x) 0 \<le> wd_clock w (i + j)"
    proof
      fix x assume "x \<in> set pending"
      then have "get_or (rn_next_retry_at (dr_runner s)) (li_id x) 0 \<le> bound" unfolding bound_def by (intro Max_ge) auto
      with j show "get_or (rn_next_retry_at (dr_runner s)) (li_id x) 0 \<le> wd_clock w (i + j)"
        by (meson le_add2 order_trans)
    qed
    then obtain m s1 where m: "\<forall>n. run_world cfg w (m + n) i pending s = run_world cfg w n (i + m) pending s1"
        "dr_runner s1 = dr_runner s" "picked_by cfg (world_poll cfg w (i + m) pending) (dr_runner s1) \<noteq> []"
      using idle_until[OF w False less.prems(1,2)] by blast
    have b: "attempts_below cfg (dr_runner s1)" using m(2) less.prems(2) by simp
    obtain s2 ds where t: "drain_turn cfg \<lparr>cy_model = Some (wd_row w), cy_poll = world_poll cfg w (i + m) pending\<rparr> s1
        = (s2, ds, None)" "attempts_below cfg (dr_runner s2)" "distinct (written ds)"
        "set (written ds) \<subseteq> li_id ` set pending"
        "queue_left cfg (dr_runner s2) (still_pending ds pending) < queue_left cfg (dr_runner s1) pending"
      using turn_world[OF w False less.prems(1) b] m(3) by metis
    have dist: "distinct (map li_id (still_pending ds pending))"
      using less.prems(1) by (simp add: still_pending_def distinct_map_filter)
    obtain n ds2 where n: "run_world cfg w n (Suc (i + m)) (still_pending ds pending) s2 = (ds2, Some 0)"
        "mset (written ds2) = mset (map li_id (still_pending ds pending))"
      using less.hyps[OF _ dist t(2)] t(5) m(2) by metis
    have "run_world cfg w (m + Suc n) i pending s = (ds @ ds2, Some 0)"
      unfolding m(1)[rule_format] using t(1) n(1) by simp
    moreover have "mset (written (ds @ ds2)) = mset (map li_id pending)"
      using n(2) mset_written[OF t(3,4) less.prems(1)] by (simp add: written_def still_pending_def)
    ultimately show ?thesis by blast
  qed
qed

text \<open>C16: the queue is drained. Against a ledger that answers every call, with a threshold set, a launch
configuration that agrees and no new events, the drain loop returns 0 after finitely many cycles,
whatever the verifier answers and however long its backoffs are, as long as the clock passes every
bound; and by then it has written exactly one verdict for every pending event.\<close>

theorem queue_drains:
  assumes "drainable cfg w" "\<forall>b. \<exists>i. \<forall>j \<ge> i. b \<le> wd_clock w j" "distinct (map li_id pending)"
  shows "\<exists>n ds. run_world cfg w n 0 pending new_drain = (ds, Some 0) \<and> mset (written ds) = mset (map li_id pending)"
proof -
  have "attempts_below cfg (dr_runner new_drain)"
    by (simp add: attempts_below_def new_drain_def limit_def)
  with drains[OF assms(1,2,3)] show ?thesis by blast
qed

definition demo_world :: world where
  "demo_world = \<lparr>wd_row = \<lparr>mr_seed = None, mr_temperature = None, mr_top_k = None, mr_top_p = None,
     mr_verification_threshold = Some 1, mr_delta_max = None\<rparr>,
     wd_verify = (\<lambda>_ _ _. demo_response), wd_clock = real, wd_done = (\<lambda>i _. real i), wd_loads = (\<lambda>_. None),
     wd_repr = (\<lambda>_. [])\<rparr>"

definition demo_item :: ledger_item where
  "demo_item = \<lparr>li_id = [49], li_input_raw_logits = None, li_output_raw_logits = None, li_model_name = [],
     li_seed = None, li_temperature = None, li_top_k = None, li_top_p = None\<rparr>"

lemma queue_drains_witness:
  "\<exists>n ds. run_world demo_settings demo_world n 0 [demo_item] new_drain = (ds, Some 0)
     \<and> mset (written ds) = {#[49]#}"
proof -
  have "drainable demo_settings demo_world"
    by (simp add: drainable_def demo_settings_def demo_world_def mismatches_def)
  moreover have "\<forall>b. \<exists>i. \<forall>j \<ge> i. b \<le> wd_clock demo_world j"
    by (simp add: demo_world_def) (meson of_nat_le_iff order_trans real_arch_simple)
  ultimately show ?thesis using queue_drains[of demo_settings demo_world "[demo_item]"] by (simp add: demo_item_def)
qed

end
