(* ===== verification/Naming.thy ===== *)
theory Naming
  imports Json "HOL-Library.List_Lexorder" "HOL-Library.AList"
begin

text \<open>
  The orchestrator's inputs: resource names (\<^verbatim>\<open>inf-ver-orchestrator/app/naming.py\<close>) and the pending queue
  grouped by model (\<^verbatim>\<open>ledger.py\<close>). The ledger's pages are an argument of the loop that reads them. The sampling
  parameters are represented by the text \<open>str\<close> gives of them, which is all the orchestrator uses.
\<close>

section \<open>Names\<close>

definition MAX_SLUG :: nat where
  "MAX_SLUG = 40"

definition VLLM_PREFIX :: ustr where
  "VLLM_PREFIX = uni ''verify-''"

definition JOB_PREFIX :: ustr where
  "JOB_PREFIX = uni ''inf-ver-runner-''"

definition SEED_PREFIX :: ustr where
  "SEED_PREFIX = uni ''seed-''"

text \<open>
  \<open>str.lower\<close>, as far as the slug can tell: besides A to Z only the Kelvin sign and the I with a dot have
  letters of ASCII as their lower case; what stays outside a-z and 0-9 is replaced anyway.
\<close>

definition lower_code :: "nat \<Rightarrow> ustr" where
  "lower_code c =
     (if 65 \<le> c \<and> c \<le> 90 then [c + 32]
      else if c = 8490 then [107]
      else if c = 304 then [105, 775]
      else [c])"

definition slug_code :: "nat \<Rightarrow> bool" where
  "slug_code c \<longleftrightarrow> 97 \<le> c \<and> c \<le> 122 \<or> 48 \<le> c \<and> c \<le> 57"

text \<open>\<open>re.sub(r"[^a-z0-9]+", "-", s)\<close>: a run of other characters becomes one dash.\<close>

fun dash_runs :: "bool \<Rightarrow> ustr \<Rightarrow> ustr" where
  "dash_runs in_run [] = []"
| "dash_runs in_run (c # s) =
     (if slug_code c then c # dash_runs False s
      else if in_run then dash_runs True s else 45 # dash_runs True s)"

definition rstrip_dash :: "ustr \<Rightarrow> ustr" where
  "rstrip_dash s = rev (dropWhile (\<lambda>c. c = 45) (rev s))"

definition strip_dash :: "ustr \<Rightarrow> ustr" where
  "strip_dash s = rstrip_dash (dropWhile (\<lambda>c. c = 45) s)"

definition slug :: "ustr \<Rightarrow> ustr" where
  "slug model_name =
     rstrip_dash (take MAX_SLUG (strip_dash (dash_runs False (concat (map lower_code model_name)))))"

definition vllm_name :: "ustr \<Rightarrow> ustr" where
  "vllm_name model_name = VLLM_PREFIX @ slug model_name"

definition job_name :: "ustr \<Rightarrow> ustr" where
  "job_name model_name = JOB_PREFIX @ slug model_name"

definition seed_job_name :: "ustr \<Rightarrow> ustr" where
  "seed_job_name model_name = SEED_PREFIX @ slug model_name"

definition vllm_service_url :: "ustr \<Rightarrow> ustr" where
  "vllm_service_url model_name =
     uni ''http://'' @ vllm_name model_name @ uni ''-kserve-workload-svc:8000/v1''"

section \<open>The pending queue\<close>

record pending_model =
  pm_model_id :: ustr
  pm_model_name :: ustr
  pm_verification_threshold :: "real option"
  pm_seed :: "ustr option"
  pm_temperature :: "ustr option"
  pm_top_k :: "ustr option"
  pm_top_p :: "ustr option"
  pm_pending :: nat

definition eligible :: "pending_model \<Rightarrow> bool" where
  "eligible m \<longleftrightarrow> pm_pending m > 0 \<and> pm_verification_threshold m \<noteq> None"

record feed_item =
  fi_model_id :: ustr
  fi_model_name :: ustr
  fi_verification_threshold :: "real option"
  fi_seed :: "ustr option"
  fi_temperature :: "ustr option"
  fi_top_k :: "ustr option"
  fi_top_p :: "ustr option"

definition PAGE_SIZE :: nat where
  "PAGE_SIZE = 500"

definition add_to_groups :: "feed_item \<Rightarrow> (ustr \<times> pending_model) list \<Rightarrow> (ustr \<times> pending_model) list" where
  "add_to_groups item groups =
     (case map_of groups (fi_model_id item) of
        None \<Rightarrow> AList.update (fi_model_id item)
          \<lparr>pm_model_id = fi_model_id item, pm_model_name = fi_model_name item,
           pm_verification_threshold = fi_verification_threshold item, pm_seed = fi_seed item,
           pm_temperature = fi_temperature item, pm_top_k = fi_top_k item, pm_top_p = fi_top_p item,
           pm_pending = 1\<rparr> groups
      | Some g \<Rightarrow> AList.update (fi_model_id item) (g\<lparr>pm_pending := pm_pending g + 1\<rparr>) groups)"

text \<open>The loop over the pages; a call that fails makes it raise, which is \<open>None\<close> here as not ending is.\<close>

partial_function (option) read_pages ::
  "(nat \<Rightarrow> (feed_item list \<times> nat) option) \<Rightarrow> nat \<Rightarrow> (ustr \<times> pending_model) list
     \<Rightarrow> (ustr \<times> pending_model) list option" where
  "read_pages page offset groups =
     (case page offset of
        None \<Rightarrow> None
      | Some (items, in_total) \<Rightarrow>
          (let groups1 = fold add_to_groups items groups; offset1 = offset + length items in
           if offset1 \<ge> in_total \<or> items = [] then Some groups1 else read_pages page offset1 groups1))"

definition pending_by_model :: "(nat \<Rightarrow> (feed_item list \<times> nat) option) \<Rightarrow> pending_model list option" where
  "pending_by_model page = map_option (map snd) (read_pages page 0 [])"

end
