(* ===== verification/Reconciler.thy ===== *)
theory Reconciler
  imports Naming
begin

text \<open>
  The decisions of the orchestrator, \<^verbatim>\<open>inf-ver-orchestrator/app/reconciler.py\<close>: one pass over the models,
  in the order of their ids, from the pending queue and the resources observed to the actions to take.
\<close>

datatype job_state = ACTIVE | SUCCEEDED | FAILED

record observed_job =
  oj_name :: ustr
  oj_state :: job_state

datatype action_kind = Create_vllm | Create_job | Delete_vllm | Delete_job | Create_seed | Delete_seed

record action =
  ac_kind :: action_kind
  ac_model_id :: ustr
  ac_name :: "ustr option"
  ac_model :: "pending_model option"

definition deletion :: "action_kind \<Rightarrow> ustr \<Rightarrow> ustr \<Rightarrow> action" where
  "deletion kind model_id name = \<lparr>ac_kind = kind, ac_model_id = model_id, ac_name = Some name, ac_model = None\<rparr>"

definition creation :: "action_kind \<Rightarrow> ustr \<Rightarrow> pending_model \<Rightarrow> action" where
  "creation kind model_id model = \<lparr>ac_kind = kind, ac_model_id = model_id, ac_name = None, ac_model = Some model\<rparr>"

definition is_creation :: "action \<Rightarrow> bool" where
  "is_creation a \<longleftrightarrow> ac_kind a \<in> {Create_vllm, Create_job, Create_seed}"

record reconcile_settings =
  rc_model_cache :: bool
  rc_cache_exempt :: "ustr set"
  rc_keep_failed_jobs :: bool

type_synonym jobs = "(ustr \<times> observed_job) list"
type_synonym vllms = "(ustr \<times> ustr) list"

section \<open>One model\<close>

text \<open>The pair an eligible model should have.\<close>

definition pair_actions :: "ustr \<Rightarrow> pending_model \<Rightarrow> observed_job option \<Rightarrow> ustr option \<Rightarrow> action list" where
  "pair_actions model_id model job vllm =
     (if vllm = None then [creation Create_vllm model_id model] else [])
     @ (case job of
          None \<Rightarrow> [creation Create_job model_id model]
        | Some j \<Rightarrow> if oj_state j \<in> {SUCCEEDED, FAILED} then [deletion Delete_job model_id (oj_name j)] else [])"

text \<open>Creations are withheld until the seed has succeeded.\<close>

definition gate_on_seed ::
  "reconcile_settings \<Rightarrow> ustr \<Rightarrow> pending_model \<Rightarrow> observed_job option \<Rightarrow> action list \<Rightarrow> action list" where
  "gate_on_seed cfg model_id model seed actions =
     (if filter is_creation actions \<noteq> [] \<and> (case seed of None \<Rightarrow> True | Some s \<Rightarrow> oj_state s \<noteq> SUCCEEDED) then
        filter (\<lambda>a. \<not> is_creation a) actions
        @ (case seed of
             None \<Rightarrow> [creation Create_seed model_id model]
           | Some s \<Rightarrow>
               if oj_state s = FAILED \<and> \<not> rc_keep_failed_jobs cfg
               then [deletion Delete_seed model_id (oj_name s)] else [])
      else actions)"

definition eligible_actions ::
  "reconcile_settings \<Rightarrow> bool \<Rightarrow> ustr \<Rightarrow> pending_model \<Rightarrow> observed_job option \<Rightarrow> ustr option
     \<Rightarrow> observed_job option \<Rightarrow> action list" where
  "eligible_actions cfg has_seeds model_id model job vllm seed =
     (if (case job of None \<Rightarrow> False | Some j \<Rightarrow> oj_state j = FAILED) \<and> rc_keep_failed_jobs cfg then
        (case vllm of None \<Rightarrow> [] | Some v \<Rightarrow> [deletion Delete_vllm model_id v])
      else
        let actions = pair_actions model_id model job vllm in
        if rc_model_cache cfg \<and> has_seeds \<and> pm_model_name model \<notin> rc_cache_exempt cfg then
          gate_on_seed cfg model_id model seed actions
        else if rc_model_cache cfg \<and> has_seeds then
          actions @ (case seed of
                       None \<Rightarrow> []
                     | Some s \<Rightarrow> if oj_state s \<noteq> ACTIVE then [deletion Delete_seed model_id (oj_name s)] else [])
        else actions)"

text \<open>Nothing to verify: the pair is wound down, but an active runner is left alone.\<close>

definition idle_actions ::
  "reconcile_settings \<Rightarrow> bool \<Rightarrow> ustr \<Rightarrow> observed_job option \<Rightarrow> ustr option \<Rightarrow> observed_job option \<Rightarrow> action list" where
  "idle_actions cfg has_seeds model_id job vllm seed =
     (case job of
        None \<Rightarrow> []
      | Some j \<Rightarrow> if oj_state j = SUCCEEDED \<or> oj_state j = FAILED \<and> \<not> rc_keep_failed_jobs cfg
                  then [deletion Delete_job model_id (oj_name j)] else [])
     @ (case vllm of
          None \<Rightarrow> []
        | Some v \<Rightarrow> if (case job of None \<Rightarrow> True | Some j \<Rightarrow> oj_state j \<noteq> ACTIVE)
                    then [deletion Delete_vllm model_id v] else [])
     @ (if rc_model_cache cfg \<and> has_seeds then
          (case seed of
             None \<Rightarrow> []
           | Some s \<Rightarrow> if oj_state s = SUCCEEDED \<or> oj_state s = FAILED \<and> \<not> rc_keep_failed_jobs cfg
                       then [deletion Delete_seed model_id (oj_name s)] else [])
        else [])"

definition model_actions ::
  "reconcile_settings \<Rightarrow> bool \<Rightarrow> ustr \<Rightarrow> pending_model option \<Rightarrow> observed_job option \<Rightarrow> ustr option
     \<Rightarrow> observed_job option \<Rightarrow> action list" where
  "model_actions cfg has_seeds model_id model job vllm seed =
     (case model of
        Some m \<Rightarrow> if eligible m then eligible_actions cfg has_seeds model_id m job vllm seed
                  else idle_actions cfg has_seeds model_id job vllm seed
      | None \<Rightarrow> idle_actions cfg has_seeds model_id job vllm seed)"

section \<open>All models\<close>

definition seed_jobs :: "jobs option \<Rightarrow> jobs" where
  "seed_jobs seeds = (case seeds of None \<Rightarrow> [] | Some s \<Rightarrow> s)"

text \<open>Of several pending entries with one id the last one counts.\<close>

definition pending_by_id :: "pending_model list \<Rightarrow> ustr \<rightharpoonup> pending_model" where
  "pending_by_id pending = map_of (rev (map (\<lambda>p. (pm_model_id p, p)) pending))"

definition model_ids :: "pending_model list \<Rightarrow> jobs \<Rightarrow> vllms \<Rightarrow> jobs option \<Rightarrow> ustr list" where
  "model_ids pending jobs vllms seeds =
     sort (remdups (map pm_model_id pending @ map fst jobs @ map fst vllms @ map fst (seed_jobs seeds)))"

definition decide ::
  "reconcile_settings \<Rightarrow> pending_model list \<Rightarrow> jobs \<Rightarrow> vllms \<Rightarrow> jobs option \<Rightarrow> action list" where
  "decide cfg pending jobs vllms seeds =
     concat (map (\<lambda>m. model_actions cfg (seeds \<noteq> None) m (pending_by_id pending m) (map_of jobs m)
                        (map_of vllms m) (map_of (seed_jobs seeds) m))
               (model_ids pending jobs vllms seeds))"

end
