(* ===== verification/Templates.thy ===== *)
theory Templates
  imports Naming
begin

text \<open>
  The manifests of a model's verifier pair and of its seed Job,
  \<^verbatim>\<open>inf-ver-orchestrator/app/templates.py\<close>: name, labels and, as the JSON value that is sent, the spec.
  Settings that are floats are represented by their text.
\<close>

section \<open>Settings and manifests\<close>

record placement_override =
  po_node_selector :: "(ustr \<times> ustr) list"
  po_cache_pvc :: "ustr option"

record orch_settings =
  os_ledger_api_url :: ustr
  os_runner_image :: ustr
  os_vllm_image :: ustr
  os_vllm_max_logprobs :: int
  os_vllm_max_model_len :: int
  os_vllm_gpu_memory_utilization :: ustr
  os_vllm_max_num_batched_tokens :: int
  os_node_selector :: "(ustr \<times> ustr) list"
  os_placement_overrides :: "(ustr \<times> placement_override) list"
  os_job_backoff_limit :: int
  os_keep_failed_jobs :: bool
  os_runner_vllm_ready_timeout_seconds :: int
  os_runner_gpus :: int
  os_runner_service_account :: ustr
  os_model_cache_pvc :: "ustr option"
  os_runner_model_concurrency :: int

record vllm_manifest =
  vm_name :: ustr
  vm_model_id :: ustr
  vm_spec :: json

record job_manifest =
  jm_name :: ustr
  jm_model_id :: ustr
  jm_spec :: json

section \<open>JSON values\<close>

definition obj :: "(string \<times> json) list \<Rightarrow> json" where
  "obj kvs = JDict (map (map_prod uni id) kvs)"

definition lit :: "string \<Rightarrow> json" where
  "lit s = JStr (uni s)"

definition str_dict :: "(ustr \<times> ustr) list \<Rightarrow> json" where
  "str_dict d = JDict (map (map_prod id JStr) d)"

text \<open>An environment variable of a container.\<close>

definition env_var :: "string \<Rightarrow> ustr \<Rightarrow> json" where
  "env_var name v = obj [(''name'', lit name), (''value'', JStr v)]"

section \<open>Labels and placement\<close>

definition MANAGED_BY :: ustr where
  "MANAGED_BY = uni ''inf-ver-orchestrator''"

definition MODEL_ID_LABEL :: ustr where
  "MODEL_ID_LABEL = uni ''infver.io/model-id''"

definition labels :: "pending_model \<Rightarrow> (ustr \<times> ustr) list" where
  "labels model = [(uni ''app.kubernetes.io/managed-by'', MANAGED_BY), (MODEL_ID_LABEL, pm_model_id model)]"

definition placement :: "orch_settings \<Rightarrow> pending_model \<Rightarrow> placement_override option" where
  "placement cfg model = map_of (os_placement_overrides cfg) (pm_model_name model)"

definition effective_cache_pvc :: "orch_settings \<Rightarrow> pending_model \<Rightarrow> ustr option" where
  "effective_cache_pvc cfg model =
     (case placement cfg model of Some ov \<Rightarrow> po_cache_pvc ov | None \<Rightarrow> os_model_cache_pvc cfg)"

section \<open>The vLLM\<close>

definition vllm_args :: "orch_settings \<Rightarrow> pending_model \<Rightarrow> ustr" where
  "vllm_args cfg model =
     uni ''exec vllm serve /mnt/models''
     @ uni '' --served-model-name '' @ pm_model_name model
     @ uni '' --port 8000''
     @ uni '' --disable-uvicorn-access-log''
     @ uni '' --max-model-len '' @ render_int (os_vllm_max_model_len cfg)
     @ uni '' --max-logprobs '' @ render_int (os_vllm_max_logprobs cfg)
     @ uni '' --gpu-memory-utilization '' @ os_vllm_gpu_memory_utilization cfg
     @ uni '' --max-num-batched-tokens '' @ render_int (os_vllm_max_num_batched_tokens cfg)
     @ uni '' --logprobs-mode raw_logits''"

definition model_uri :: "orch_settings \<Rightarrow> pending_model \<Rightarrow> ustr" where
  "model_uri cfg model =
     (case effective_cache_pvc cfg model of
        Some (c # cs) \<Rightarrow> uni ''pvc://'' @ (c # cs) @ uni ''/'' @ pm_model_name model
      | _ \<Rightarrow> uni ''hf://'' @ pm_model_name model)"

definition vllm_node_selector :: "orch_settings \<Rightarrow> pending_model \<Rightarrow> (ustr \<times> ustr) list" where
  "vllm_node_selector cfg model =
     (case placement cfg model of
        Some ov \<Rightarrow> if po_node_selector ov \<noteq> [] then po_node_selector ov else os_node_selector cfg
      | None \<Rightarrow> os_node_selector cfg)"

definition vllm_container :: "orch_settings \<Rightarrow> pending_model \<Rightarrow> json" where
  "vllm_container cfg model =
     obj [(''name'', lit ''main''),
          (''image'', JStr (os_vllm_image cfg)),
          (''env'', JList [env_var ''VLLM_USE_V2_MODEL_RUNNER'' (uni ''0'')]),
          (''securityContext'', obj [(''runAsNonRoot'', JBool False)]),
          (''command'', JList [lit ''/bin/bash'', lit ''-c'', JStr (vllm_args cfg model)]),
          (''ports'', JList [obj [(''containerPort'', JInt 8000)]]),
          (''resources'', obj
             [(''requests'', obj [(''cpu'', lit ''4''), (''memory'', lit ''24Gi''), (''nvidia.com/gpu'', lit ''1'')]),
              (''limits'', obj [(''memory'', lit ''32Gi''), (''nvidia.com/gpu'', lit ''1'')])])]"

definition build_llmisvc :: "orch_settings \<Rightarrow> pending_model \<Rightarrow> vllm_manifest" where
  "build_llmisvc cfg model =
     \<lparr>vm_name = vllm_name (pm_model_name model),
      vm_model_id = pm_model_id model,
      vm_spec = obj
        [(''model'', obj [(''uri'', JStr (model_uri cfg model)), (''name'', JStr (pm_model_name model))]),
         (''replicas'', JInt 1),
         (''template'', obj
            ([(''containers'', JList [vllm_container cfg model])]
             @ (if vllm_node_selector cfg model \<noteq> []
                then [(''nodeSelector'', str_dict (vllm_node_selector cfg model))] else [])))]\<rparr>"

section \<open>The runner Job\<close>

definition sampling_env :: "pending_model \<Rightarrow> (string \<times> ustr) list" where
  "sampling_env model =
     List.map_filter (\<lambda>(name, v). map_option (Pair name) v)
       [(''RUNNER_SEED'', pm_seed model), (''RUNNER_TEMPERATURE'', pm_temperature model),
        (''RUNNER_TOP_K'', pm_top_k model), (''RUNNER_TOP_P'', pm_top_p model)]"

definition runner_env :: "orch_settings \<Rightarrow> pending_model \<Rightarrow> (string \<times> ustr) list" where
  "runner_env cfg model =
     [(''RUNNER_MODEL_ID'', pm_model_id model),
      (''RUNNER_MODEL_NAME'', pm_model_name model),
      (''RUNNER_VLLM_URL'', vllm_service_url (pm_model_name model)),
      (''LEDGER_API_URL'', os_ledger_api_url cfg),
      (''RUNNER_HOSTNAME'', job_name (pm_model_name model)),
      (''RUNNER_MAX_LOGPROBS'', render_int (os_vllm_max_logprobs cfg)),
      (''RUNNER_VLLM_READY_TIMEOUT_SECONDS'', render_int (os_runner_vllm_ready_timeout_seconds cfg)),
      (''RUNNER_MAX_ATTEMPTS'', uni ''5''),
      (''RUNNER_RETRY_BACKOFF_SECONDS'', uni ''60''),
      (''RUNNER_MODEL_CONCURRENCY'', render_int (os_runner_model_concurrency cfg))]
     @ sampling_env model
     @ (if os_runner_gpus cfg > 0 then [] else [(''RUNNER_REQUIRE_CUDA'', uni ''false'')])"

definition runner_container :: "orch_settings \<Rightarrow> pending_model \<Rightarrow> json" where
  "runner_container cfg model =
     obj ([(''name'', lit ''runner''),
           (''image'', JStr (os_runner_image cfg)),
           (''imagePullPolicy'', lit ''Always''),
           (''env'', JList (map (\<lambda>(name, v). env_var name v) (runner_env cfg model)))]
          @ (if os_runner_gpus cfg > 0 then
               let gpus = JStr (render_int (os_runner_gpus cfg)) in
               [(''resources'', obj
                  [(''requests'', obj [(''cpu'', lit ''2''), (''memory'', lit ''4Gi''), (''nvidia.com/gpu'', gpus)]),
                   (''limits'', obj [(''memory'', lit ''8Gi''), (''nvidia.com/gpu'', gpus)])])]
             else []))"

definition build_job :: "orch_settings \<Rightarrow> pending_model \<Rightarrow> job_manifest" where
  "build_job cfg model =
     \<lparr>jm_name = job_name (pm_model_name model),
      jm_model_id = pm_model_id model,
      jm_spec = obj
        [(''backoffLimit'', JInt (os_job_backoff_limit cfg)),
         (''template'', obj
            [(''metadata'', obj [(''labels'', str_dict (labels model))]),
             (''spec'', obj
                ([(''restartPolicy'', lit ''Never''), (''containers'', JList [runner_container cfg model])]
                 @ (if os_runner_service_account cfg \<noteq> []
                    then [(''serviceAccountName'', JStr (os_runner_service_account cfg))] else [])
                 @ (if os_runner_gpus cfg > 0 \<and> os_node_selector cfg \<noteq> []
                    then [(''nodeSelector'', str_dict (os_node_selector cfg))] else [])))])]\<rparr>"

section \<open>The seed Job\<close>

definition seed_script :: "pending_model \<Rightarrow> ustr" where
  "seed_script model =
     (let model_dir = uni ''/cache/'' @ pm_model_name model in
      uni ''set -e'' @ [10]
      @ uni ''if [ -f '' @ [34] @ model_dir @ uni ''/.complete'' @ [34]
      @ uni '' ]; then echo '' @ [34] @ uni ''cache hit'' @ [34] @ uni ''; exit 0; fi'' @ [10]
      @ uni ''hf download '' @ [34] @ pm_model_name model @ [34] @ uni '' --local-dir '' @ [34] @ model_dir @ [34]
      @ uni '' --max-workers 4'' @ [10]
      @ uni ''touch '' @ [34] @ model_dir @ uni ''/.complete'' @ [34] @ [10])"

definition seed_container :: "orch_settings \<Rightarrow> pending_model \<Rightarrow> json" where
  "seed_container cfg model =
     obj [(''name'', lit ''seed''),
          (''image'', JStr (os_vllm_image cfg)),
          (''command'', JList [lit ''/bin/bash'', lit ''-c'', JStr (seed_script model)]),
          (''env'', JList [env_var ''HF_HOME'' (uni ''/cache/.hf'')]),
          (''resources'', obj
             [(''requests'', obj [(''cpu'', lit ''1''), (''memory'', lit ''2Gi'')]),
              (''limits'', obj [(''memory'', lit ''8Gi'')])]),
          (''volumeMounts'', JList [obj [(''name'', lit ''cache''), (''mountPath'', lit ''/cache'')]])]"

definition build_seed_job :: "orch_settings \<Rightarrow> pending_model \<Rightarrow> job_manifest" where
  "build_seed_job cfg model =
     \<lparr>jm_name = seed_job_name (pm_model_name model),
      jm_model_id = pm_model_id model,
      jm_spec = obj
        [(''ttlSecondsAfterFinished'', JInt 600),
         (''backoffLimit'', JInt (os_job_backoff_limit cfg)),
         (''template'', obj
            [(''metadata'', obj [(''labels'', str_dict (labels model))]),
             (''spec'', obj
                [(''restartPolicy'', lit ''Never''),
                 (''containers'', JList [seed_container cfg model]),
                 (''volumes'', JList
                    [obj [(''name'', lit ''cache''),
                          (''persistentVolumeClaim'', obj
                             [(''claimName'',
                               case effective_cache_pvc cfg model of None \<Rightarrow> JNull | Some c \<Rightarrow> JStr c)])]])])])]\<rparr>"

section \<open>What a manifest says\<close>

text \<open>Reading a nested value, as the client of a manifest does.\<close>

fun at_path :: "string list \<Rightarrow> json \<Rightarrow> json" where
  "at_path [] j = j"
| "at_path (k # ks) (JDict d) = at_path ks (dget d k)"
| "at_path (k # ks) (JList (x # xs)) = at_path (k # ks) x"
| "at_path (k # ks) _ = JNull"

definition served_model :: "vllm_manifest \<Rightarrow> json" where
  "served_model m = at_path [''model'', ''name''] (vm_spec m)"

text \<open>The value of a variable in the environment of a manifest's first container.\<close>

definition env_names :: "json \<Rightarrow> (json \<times> json) list" where
  "env_names env =
     (case env of JList xs \<Rightarrow> map (\<lambda>x. (at_path [''name''] x, at_path [''value''] x)) xs | _ \<Rightarrow> [])"

definition job_env :: "string \<Rightarrow> job_manifest \<Rightarrow> json option" where
  "job_env name m =
     map_of (env_names (at_path [''template'', ''spec'', ''containers'', ''env''] (jm_spec m))) (lit name)"

lemma dget_obj: "dget (map (map_prod uni id) kvs) k = (case map_of kvs k of None \<Rightarrow> JNull | Some v \<Rightarrow> v)"
proof -
  have "uni a = uni b \<longleftrightarrow> a = b" for a b by (auto simp: uni_def dest: map_injective[OF _ injI])
  then have "map_of (map (map_prod uni id) kvs) (uni k) = map_of kvs k" by (induction kvs) auto
  then show ?thesis by (simp add: dget_def)
qed

lemma at_path_obj [simp]: "at_path (k # ks) (obj kvs) = at_path ks (case map_of kvs k of None \<Rightarrow> JNull | Some v \<Rightarrow> v)"
  by (simp add: obj_def dget_obj)

lemma at_path_list [simp]: "at_path (k # ks) (JList (x # xs)) = at_path (k # ks) x"
  by simp

lemma manifest_names [simp]:
  "vm_name (build_llmisvc cfg m) = vllm_name (pm_model_name m)" "vm_model_id (build_llmisvc cfg m) = pm_model_id m"
  "jm_name (build_job cfg m) = job_name (pm_model_name m)" "jm_model_id (build_job cfg m) = pm_model_id m"
  "jm_name (build_seed_job cfg m) = seed_job_name (pm_model_name m)" "jm_model_id (build_seed_job cfg m) = pm_model_id m"
  by (simp_all add: build_llmisvc_def build_job_def build_seed_job_def)

lemma served_model_built [simp]: "served_model (build_llmisvc cfg m) = JStr (pm_model_name m)"
  by (simp add: served_model_def build_llmisvc_def)

lemma env_names_vars: "env_names (JList (map (\<lambda>(n, v). env_var n v) vs)) = map (\<lambda>(n, v). (lit n, JStr v)) vs"
  by (induction vs) (auto simp: env_names_def env_var_def)

lemma job_env_built: "job_env name (build_job cfg m) = map_option JStr (map_of (runner_env cfg m) name)"
proof -
  have "lit a = lit b \<longleftrightarrow> a = b" for a b by (auto simp: lit_def uni_def dest: map_injective[OF _ injI])
  then have "map_of (map (\<lambda>(n, v). (lit n, JStr v)) vs) (lit name) = map_option JStr (map_of vs name)" for vs
    by (induction vs) auto
  then show ?thesis
    by (simp add: job_env_def build_job_def runner_container_def env_names_vars)
qed

lemma runner_url_built [simp]:
  "job_env ''RUNNER_VLLM_URL'' (build_job cfg m) = Some (JStr (vllm_service_url (pm_model_name m)))"
  "job_env ''RUNNER_MODEL_NAME'' (build_job cfg m) = Some (JStr (pm_model_name m))"
  by (simp_all add: job_env_built runner_env_def)

lemma seed_no_url [simp]: "job_env ''RUNNER_VLLM_URL'' (build_seed_job cfg m) = None"
  by (simp add: job_env_def build_seed_job_def seed_container_def env_names_def env_var_def lit_def uni_def)

end
