(* ===== verification/Cluster.thy ===== *)
theory Cluster
  imports Reconciler Templates
begin

text \<open>
  The orchestrator against the cluster: the operations on Kubernetes (\<^verbatim>\<open>inf-ver-orchestrator/app/kube.py\<close>)
  and a reconcile cycle (\<^verbatim>\<open>main.py\<close>).

  The cluster holds Jobs and LLMISvcs by name, as the API server does for a namespace: creating a name
  that exists and deleting one that does not are errors, and a new Job is active. Which calls the API
  server refuses for other reasons is the argument \<open>accepts\<close>. A label counts only with the orchestrator's
  \<open>managed-by\<close> label.
\<close>

section \<open>The cluster\<close>

record k8s_job =
  kj_manifest :: job_manifest
  kj_managed :: bool
  kj_state :: job_state

record k8s_vllm =
  kv_manifest :: vllm_manifest
  kv_managed :: bool

record cluster =
  cl_jobs :: "(ustr \<times> k8s_job) list"
  cl_vllms :: "(ustr \<times> k8s_vllm) list"

definition startswith :: "ustr \<Rightarrow> ustr \<Rightarrow> bool" where
  "startswith s p \<longleftrightarrow> take (length p) s = p"

text \<open>A Job that has succeeded counts as such whatever its conditions say.\<close>

definition job_state_of :: "nat option \<Rightarrow> (ustr \<times> ustr) list \<Rightarrow> job_state" where
  "job_state_of succeeded conditions =
     (if succeeded \<notin> {None, Some 0} then SUCCEEDED
      else if list_ex (\<lambda>c. c = (uni ''Failed'', uni ''True'')) conditions then FAILED
      else ACTIVE)"

definition list_jobs_with_prefix :: "ustr \<Rightarrow> cluster \<Rightarrow> jobs" where
  "list_jobs_with_prefix prefix cl =
     fold (\<lambda>(name, j) observed.
             if kj_managed j \<and> startswith name prefix \<and> jm_model_id (kj_manifest j) \<noteq> [] then
               AList.update (jm_model_id (kj_manifest j)) \<lparr>oj_name = name, oj_state = kj_state j\<rparr> observed
             else observed)
       (cl_jobs cl) []"

definition list_managed_llmisvcs :: "cluster \<Rightarrow> vllms" where
  "list_managed_llmisvcs cl =
     fold (\<lambda>(name, v) observed.
             if kv_managed v \<and> vm_model_id (kv_manifest v) \<noteq> [] then
               AList.update (vm_model_id (kv_manifest v)) name observed
             else observed)
       (cl_vllms cl) []"

text \<open>The calls of the API; \<open>None\<close> is an exception.\<close>

definition create_job :: "job_manifest \<Rightarrow> cluster \<Rightarrow> cluster option" where
  "create_job m cl =
     (if map_of (cl_jobs cl) (jm_name m) \<noteq> None then None
      else Some (cl\<lparr>cl_jobs := cl_jobs cl @ [(jm_name m, \<lparr>kj_manifest = m, kj_managed = True, kj_state = ACTIVE\<rparr>)]\<rparr>))"

definition delete_job :: "ustr \<Rightarrow> cluster \<Rightarrow> cluster option" where
  "delete_job name cl =
     (if map_of (cl_jobs cl) name = None then None
      else Some (cl\<lparr>cl_jobs := AList.delete name (cl_jobs cl)\<rparr>))"

definition create_llmisvc :: "vllm_manifest \<Rightarrow> cluster \<Rightarrow> cluster option" where
  "create_llmisvc m cl =
     (if map_of (cl_vllms cl) (vm_name m) \<noteq> None then None
      else Some (cl\<lparr>cl_vllms := cl_vllms cl @ [(vm_name m, \<lparr>kv_manifest = m, kv_managed = True\<rparr>)]\<rparr>))"

definition delete_llmisvc :: "ustr \<Rightarrow> cluster \<Rightarrow> cluster option" where
  "delete_llmisvc name cl =
     (if map_of (cl_vllms cl) name = None then None
      else Some (cl\<lparr>cl_vllms := AList.delete name (cl_vllms cl)\<rparr>))"

section \<open>A reconcile cycle\<close>

definition apply_action :: "orch_settings \<Rightarrow> action \<Rightarrow> cluster \<Rightarrow> cluster option" where
  "apply_action cfg a cl =
     (case ac_kind a of
        Create_vllm \<Rightarrow> create_llmisvc (build_llmisvc cfg (the (ac_model a))) cl
      | Create_job \<Rightarrow> create_job (build_job cfg (the (ac_model a))) cl
      | Delete_vllm \<Rightarrow> delete_llmisvc (the (ac_name a)) cl
      | Delete_job \<Rightarrow> delete_job (the (ac_name a)) cl
      | Create_seed \<Rightarrow> create_job (build_seed_job cfg (the (ac_model a))) cl
      | Delete_seed \<Rightarrow> delete_job (the (ac_name a)) cl)"

definition reconcile_cfg :: "orch_settings \<Rightarrow> reconcile_settings" where
  "reconcile_cfg cfg =
     \<lparr>rc_model_cache = (os_model_cache_pvc cfg \<noteq> None),
      rc_cache_exempt = set (map fst (filter (\<lambda>(n, ov). po_cache_pvc ov = None) (os_placement_overrides cfg))),
      rc_keep_failed_jobs = os_keep_failed_jobs cfg\<rparr>"

definition observed_actions :: "orch_settings \<Rightarrow> pending_model list \<Rightarrow> cluster \<Rightarrow> action list" where
  "observed_actions cfg pending cl =
     decide (reconcile_cfg cfg) pending (list_jobs_with_prefix JOB_PREFIX cl) (list_managed_llmisvcs cl)
       (Some (list_jobs_with_prefix SEED_PREFIX cl))"

definition apply_or_log :: "orch_settings \<Rightarrow> (action \<Rightarrow> bool) \<Rightarrow> action \<Rightarrow> cluster \<Rightarrow> cluster" where
  "apply_or_log cfg accepts a cl =
     (if accepts a then (case apply_action cfg a cl of None \<Rightarrow> cl | Some cl1 \<Rightarrow> cl1) else cl)"

definition reconcile_once :: "orch_settings \<Rightarrow> (action \<Rightarrow> bool) \<Rightarrow> pending_model list \<Rightarrow> cluster \<Rightarrow> cluster" where
  "reconcile_once cfg accepts pending cl =
     fold (apply_or_log cfg accepts) (observed_actions cfg pending cl) cl"

end
