(* ===== verification/Cluster_Proofs.thy ===== *)
theory Cluster_Proofs
  imports Cluster
begin

text \<open>
  The orchestrator: its names are labels if the model's name has a letter or digit, the queue is grouped exactly, a decision is a table over what is
  observed, and a reconcile cycle on a cluster without name clashes is one step of every model's own
  small state machine, which settles.
\<close>

section \<open>Names\<close>

lemma set_dash_runs: "c \<in> set (dash_runs b s) \<Longrightarrow> slug_code c \<or> c = 45"
  by (induction b s rule: dash_runs.induct) (auto split: if_splits)

lemma rstrip_dash_props:
  "set (rstrip_dash s) \<subseteq> set s" "length (rstrip_dash s) \<le> length s" "rstrip_dash s \<noteq> [] \<Longrightarrow> last (rstrip_dash s) \<noteq> 45"
  "rstrip_dash s \<noteq> [] \<Longrightarrow> hd (rstrip_dash s) = hd s"
proof -
  show "set (rstrip_dash s) \<subseteq> set s" by (auto simp: rstrip_dash_def dest: set_dropWhileD)
  show "length (rstrip_dash s) \<le> length s"
    unfolding rstrip_dash_def using length_dropWhile_le[of "\<lambda>c. c = 45" "rev s"] by simp
  show "rstrip_dash s \<noteq> [] \<Longrightarrow> last (rstrip_dash s) \<noteq> 45"
    unfolding rstrip_dash_def by (metis (mono_tags, lifting) hd_dropWhile last_rev rev_is_Nil_conv)
  have "rev s = takeWhile (\<lambda>c. c = 45) (rev s) @ dropWhile (\<lambda>c. c = 45) (rev s)" by simp
  then have "s = rstrip_dash s @ rev (takeWhile (\<lambda>c. c = 45) (rev s))"
    unfolding rstrip_dash_def by (metis rev_append rev_rev_ident)
  then show "rstrip_dash s \<noteq> [] \<Longrightarrow> hd (rstrip_dash s) = hd s" by (metis hd_append)
qed

lemma dash_runs_keep: "{c. slug_code c} \<inter> set (dash_runs b s) = {c. slug_code c} \<inter> set s"
  by (induction b s rule: dash_runs.induct) (auto simp: slug_code_def)

lemma set_strip_dash: "set (strip_dash s) - {45} = set s - {45}"
proof -
  have drop: "set (dropWhile (\<lambda>c. c = 45) t) - {45} = set t - {45}" for t :: ustr
    by (induction t) auto
  show ?thesis
    using drop[of "rev (dropWhile (\<lambda>c. c = 45) s)"] drop[of s] by (simp add: strip_dash_def rstrip_dash_def)
qed

lemma hd_strip_dash: "strip_dash s \<noteq> [] \<Longrightarrow> hd (strip_dash s) \<noteq> 45"
proof -
  assume s: "strip_dash s \<noteq> []"
  then have d: "dropWhile (\<lambda>c. c = 45) s \<noteq> []" unfolding strip_dash_def rstrip_dash_def by (metis dropWhile.simps(1) rev.simps(1))
  then have "hd (dropWhile (\<lambda>c. c = 45) s) \<noteq> 45" using hd_dropWhile[OF d] by simp
  then show ?thesis using rstrip_dash_props(4)[of "dropWhile (\<lambda>c. c = 45) s"] s by (simp add: strip_dash_def)
qed

text \<open>The letters and digits of ASCII of a model name, once in lower case.\<close>

definition has_slug_code :: "ustr \<Rightarrow> bool" where
  "has_slug_code n \<longleftrightarrow> list_ex slug_code (concat (map lower_code n))"

lemma slug_empty_iff: "slug n = [] \<longleftrightarrow> \<not> has_slug_code n"
proof -
  define s where "s = strip_dash (dash_runs False (concat (map lower_code n)))"
  have slug: "slug n = rstrip_dash (take MAX_SLUG s)" by (simp add: slug_def s_def)
  have chars: "set s - {45} = set (dash_runs False (concat (map lower_code n))) - {45}"
    unfolding s_def by (rule set_strip_dash)
  have "slug n = [] \<longleftrightarrow> s = []"
  proof
    assume e: "slug n = []"
    show "s = []"
    proof (rule ccontr)
      assume ne: "s \<noteq> []"
      then have h: "hd s \<noteq> 45" unfolding s_def by (rule hd_strip_dash)
      have "\<forall>c \<in> set (take MAX_SLUG s). c = 45" using e by (auto simp: slug rstrip_dash_def dropWhile_eq_Nil_conv)
      then show False using ne h by (cases s) (simp_all add: MAX_SLUG_def)
    qed
  next
    assume "s = []"
    then show "slug n = []" by (simp add: slug rstrip_dash_def)
  qed
  also have "\<dots> \<longleftrightarrow> \<not> has_slug_code n"
  proof
    assume "s = []"
    then have d: "set (dash_runs False (concat (map lower_code n))) \<subseteq> {45}" using chars by auto
    have "\<not> slug_code c" if "c \<in> set (concat (map lower_code n))" for c
    proof
      assume "slug_code c"
      then have "c \<in> set (dash_runs False (concat (map lower_code n)))"
        using dash_runs_keep[of False "concat (map lower_code n)"] that by blast
      then have "c = 45" using d by blast
      then show False using \<open>slug_code c\<close> by (simp add: slug_code_def)
    qed
    then show "\<not> has_slug_code n" unfolding has_slug_code_def list_ex_iff by blast
  next
    assume no: "\<not> has_slug_code n"
    have "c = 45" if "c \<in> set (dash_runs False (concat (map lower_code n)))" for c
    proof (rule ccontr)
      assume "c \<noteq> 45"
      then have "slug_code c" using set_dash_runs[OF that] by blast
      then have "c \<in> set (concat (map lower_code n))"
        using that dash_runs_keep[of False "concat (map lower_code n)"] by blast
      then show False using no \<open>slug_code c\<close> unfolding has_slug_code_def list_ex_iff by blast
    qed
    then have "set s \<subseteq> {45}" using chars by auto
    then show "s = []" using hd_strip_dash unfolding s_def by (metis insert_iff list.set_sel(1) singletonD subsetD)
  qed
  finally show ?thesis .
qed

lemma slug_props:
  "length (slug n) \<le> 40" "c \<in> set (slug n) \<Longrightarrow> slug_code c \<or> c = 45" "slug n \<noteq> [] \<Longrightarrow> hd (slug n) \<noteq> 45"
  "slug n \<noteq> [] \<Longrightarrow> last (slug n) \<noteq> 45"
proof -
  define s where "s = strip_dash (dash_runs False (concat (map lower_code n)))"
  have slug: "slug n = rstrip_dash (take MAX_SLUG s)" by (simp add: slug_def s_def)
  show "length (slug n) \<le> 40"
    using rstrip_dash_props(2)[of "take MAX_SLUG s"] by (simp add: slug MAX_SLUG_def)
  show "slug_code c \<or> c = 45" if "c \<in> set (slug n)"
    using that rstrip_dash_props(1) set_dash_runs unfolding slug s_def strip_dash_def
    by (meson in_set_takeD set_dropWhileD subsetD)
  show "last (slug n) \<noteq> 45" if "slug n \<noteq> []"
    using that rstrip_dash_props(3) unfolding slug by blast
  show "hd (slug n) \<noteq> 45" if ne: "slug n \<noteq> []"
  proof -
    have "take MAX_SLUG s \<noteq> []" using ne unfolding slug rstrip_dash_def by (metis dropWhile.simps(1) rev.simps(1))
    moreover have "hd (slug n) = hd (take MAX_SLUG s)" using ne rstrip_dash_props(4) unfolding slug by blast
    ultimately show ?thesis using hd_strip_dash unfolding s_def by (cases MAX_SLUG) auto
  qed
qed

text \<open>A label of DNS as RFC 1123 has it, in lower case, which the name of a Kubernetes resource must be.\<close>

definition dns_label :: "ustr \<Rightarrow> bool" where
  "dns_label s \<longleftrightarrow> s \<noteq> [] \<and> length s \<le> 63 \<and> list_all (\<lambda>c. slug_code c \<or> c = 45) s \<and> hd s \<noteq> 45 \<and> last s \<noteq> 45"

lemma dns_label_prefixed:
  assumes "list_all (\<lambda>c. slug_code c \<or> c = 45) p" "p \<noteq> []" "hd p \<noteq> 45" "last p = 45" "length p \<le> 23"
  shows "dns_label (p @ slug n) \<longleftrightarrow> has_slug_code n"
proof -
  have "list_all (\<lambda>c. slug_code c \<or> c = 45) (slug n)" using slug_props(2)[where n = n] by (simp add: list_all_iff)
  then show ?thesis
    using assms slug_props(1,3,4)[of n] slug_empty_iff[of n] by (cases "slug n = []") (auto simp: dns_label_def)
qed

text \<open>C40: When resource names are valid. The names the orchestrator gives a model's vLLM, runner Job and seed
  Job are labels of DNS (1 to 63 characters of a-z, 0-9 and dash, neither the first nor the last a dash), as
  Kubernetes demands, if the model's name has at least one letter or digit of ASCII in lower case; otherwise, as
  for a name all in another script, the slug is empty and none of the three is.\<close>

theorem slug_is_label:
  "(dns_label (vllm_name n) \<longleftrightarrow> has_slug_code n) \<and> (dns_label (job_name n) \<longleftrightarrow> has_slug_code n) \<and>
   (dns_label (seed_job_name n) \<longleftrightarrow> has_slug_code n) \<and> (slug n = [] \<longleftrightarrow> \<not> has_slug_code n) \<and>
   length (slug n) \<le> MAX_SLUG"
proof (intro conjI)
  show "dns_label (vllm_name n) \<longleftrightarrow> has_slug_code n" unfolding vllm_name_def
    by (rule dns_label_prefixed) (simp_all add: VLLM_PREFIX_def uni_def slug_code_def)
  show "dns_label (job_name n) \<longleftrightarrow> has_slug_code n" unfolding job_name_def
    by (rule dns_label_prefixed) (simp_all add: JOB_PREFIX_def uni_def slug_code_def)
  show "dns_label (seed_job_name n) \<longleftrightarrow> has_slug_code n" unfolding seed_job_name_def
    by (rule dns_label_prefixed) (simp_all add: SEED_PREFIX_def uni_def slug_code_def)
qed (use slug_empty_iff[of n] slug_props(1)[of n] in \<open>simp_all add: MAX_SLUG_def\<close>)

section \<open>The pending queue\<close>

text \<open>The ledger's feed of a list of events, and what a group should be.\<close>

definition serve :: "feed_item list \<Rightarrow> nat \<Rightarrow> (feed_item list \<times> nat) option" where
  "serve events offset = Some (take PAGE_SIZE (drop offset events), length events)"

definition group_of :: "feed_item list \<Rightarrow> ustr \<Rightarrow> pending_model option" where
  "group_of events m =
     (case filter (\<lambda>e. fi_model_id e = m) events of
        [] \<Rightarrow> None
      | e # es \<Rightarrow> Some \<lparr>pm_model_id = m, pm_model_name = fi_model_name e,
           pm_verification_threshold = fi_verification_threshold e, pm_seed = fi_seed e,
           pm_temperature = fi_temperature e, pm_top_k = fi_top_k e, pm_top_p = fi_top_p e,
           pm_pending = length (e # es)\<rparr>)"

definition groups_right :: "feed_item list \<Rightarrow> (ustr \<times> pending_model) list \<Rightarrow> bool" where
  "groups_right events gs \<longleftrightarrow> distinct (map fst gs) \<and> (\<forall>m. map_of gs m = group_of events m)"

lemma add_to_groups_right:
  assumes "groups_right events gs"
  shows "groups_right (events @ [e]) (add_to_groups e gs)"
proof -
  have g: "map_of gs m = group_of events m" for m using assms by (simp add: groups_right_def)
  have "map_of (add_to_groups e gs) m = group_of (events @ [e]) m" for m
    using g[of m]
    by (cases "filter (\<lambda>e. fi_model_id e = m) events")
      (auto simp: add_to_groups_def update_conv' group_of_def split: option.splits)
  then show ?thesis
    using assms by (auto simp: groups_right_def add_to_groups_def distinct_update split: option.split)
qed

lemma groups_right_fold: "groups_right events gs \<Longrightarrow> groups_right (events @ es) (fold add_to_groups es gs)"
proof (induction es arbitrary: events gs)
  case (Cons e es)
  show ?case using Cons.IH[OF add_to_groups_right[OF Cons.prems]] by simp
qed simp

lemma read_pages_serve:
  "k = length events - offset \<Longrightarrow> offset \<le> length events \<Longrightarrow>
     read_pages (serve events) offset gs = Some (fold add_to_groups (drop offset events) gs)"
proof (induction k arbitrary: offset gs rule: less_induct)
  case (less k)
  let ?items = "take PAGE_SIZE (drop offset events)"
  have rest: "drop (offset + length ?items) events = drop PAGE_SIZE (drop offset events)"
    by (cases "PAGE_SIZE \<le> length (drop offset events)") (auto simp: add.commute min_def)
  have split: "fold add_to_groups (drop offset events) gs
      = fold add_to_groups (drop (offset + length ?items) events) (fold add_to_groups ?items gs)"
    using append_take_drop_id[of PAGE_SIZE "drop offset events"] rest by (metis comp_apply fold_append)
  show ?case
  proof (cases "length events \<le> offset + length ?items \<or> ?items = []")
    case True
    then have "drop (offset + length ?items) events = []" using less.prems(2) by (auto simp: PAGE_SIZE_def)
    then have e: "fold add_to_groups (drop offset events) gs = fold add_to_groups ?items gs" using split by simp
    show ?thesis
      using True by (subst read_pages.simps) (simp add: serve_def Let_def e)
  next
    case False
    then have "length events - (offset + length ?items) < k" using less.prems by auto
    then have "read_pages (serve events) (offset + length ?items) (fold add_to_groups ?items gs)
        = Some (fold add_to_groups (drop (offset + length ?items) events) (fold add_to_groups ?items gs))"
      using less.IH[OF _ refl] False by simp
    then show ?thesis
      unfolding split using False by (subst read_pages.simps) (simp add: serve_def Let_def)
  qed
qed

text \<open>The queue is grouped exactly. Reading a ledger that serves a list of pending events page by page
ends, and gives one group for every model that has events and none for another; a group counts its
model's events, and carries the name, the threshold and the sampling of the first of them.\<close>

theorem pending_grouped:
  "\<exists>gs. pending_by_model (serve events) = Some gs \<and> distinct (map pm_model_id gs) \<and>
     map_of (map (\<lambda>g. (pm_model_id g, g)) gs) m = group_of events m"
proof -
  have r: "groups_right events (fold add_to_groups events [])"
    using groups_right_fold[of "[]" "[]" events] by (simp add: groups_right_def group_of_def)
  define d where "d = fold add_to_groups events []"
  have key: "pm_model_id g = k" if "(k, g) \<in> set d" for k g
  proof -
    have "map_of d k = Some g" using that r unfolding d_def groups_right_def by (metis map_of_is_SomeI)
    then have "group_of events k = Some g" using r by (simp add: d_def groups_right_def)
    then show ?thesis by (auto simp: group_of_def split: list.splits)
  qed
  then have same: "map (\<lambda>g. (pm_model_id g, g)) (map snd d) = d" by (auto intro: map_idI)
  have "read_pages (serve events) 0 [] = Some d"
    using read_pages_serve[of "length events" events 0 "[]"] by (simp add: d_def)
  moreover have "map pm_model_id (map snd d) = map fst d" using key by auto
  then have "distinct (map pm_model_id (map snd d))" using r by (simp only: groups_right_def d_def)
  ultimately show ?thesis
    using r same by (intro exI[of _ "map snd d"]) (simp add: pending_by_model_def groups_right_def d_def)
qed

section \<open>The decision table\<close>

definition acts :: "action list \<Rightarrow> ustr \<Rightarrow> action_kind \<Rightarrow> bool" where
  "acts as m k \<longleftrightarrow> list_ex (\<lambda>a. ac_model_id a = m \<and> ac_kind a = k) as"

lemma pair_actions_id: "a \<in> set (pair_actions m model job vllm) \<Longrightarrow> ac_model_id a = m"
  by (auto simp: pair_actions_def creation_def deletion_def split: option.splits if_splits)

lemma gate_on_seed_id:
  "a \<in> set (gate_on_seed cfg m model seed as) \<Longrightarrow> (\<And>a. a \<in> set as \<Longrightarrow> ac_model_id a = m) \<Longrightarrow> ac_model_id a = m"
  by (auto simp: gate_on_seed_def creation_def deletion_def split: option.splits if_splits)

lemma idle_actions_id: "a \<in> set (idle_actions cfg h m job vllm seed) \<Longrightarrow> ac_model_id a = m"
proof -
  have "list_all (\<lambda>a. ac_model_id a = m) (idle_actions cfg h m job vllm seed)"
    by (simp add: idle_actions_def deletion_def split: option.split)
  then show "a \<in> set (idle_actions cfg h m job vllm seed) \<Longrightarrow> ac_model_id a = m" by (simp add: list_all_iff)
qed

lemma eligible_actions_id: "a \<in> set (eligible_actions cfg h m model job vllm seed) \<Longrightarrow> ac_model_id a = m"
  using pair_actions_id[of a m model job vllm] gate_on_seed_id[OF _ pair_actions_id]
  by (auto simp: eligible_actions_def Let_def deletion_def split: option.splits if_splits)

lemma model_actions_id: "a \<in> set (model_actions cfg h m model job vllm seed) \<Longrightarrow> ac_model_id a = m"
  using idle_actions_id eligible_actions_id by (auto simp: model_actions_def split: option.splits if_splits)

lemma model_actions_nothing: "model_actions cfg h m None None None None = []"
  by (simp add: model_actions_def idle_actions_def)

lemma pending_by_id_None: "m \<notin> pm_model_id ` set pending \<Longrightarrow> pending_by_id pending m = None"
  by (auto simp: pending_by_id_def map_of_eq_None_iff)

definition model_decision ::
  "reconcile_settings \<Rightarrow> pending_model list \<Rightarrow> jobs \<Rightarrow> vllms \<Rightarrow> jobs option \<Rightarrow> ustr \<Rightarrow> action list" where
  "model_decision cfg pending jobs vllms seeds m =
     model_actions cfg (seeds \<noteq> None) m (pending_by_id pending m) (map_of jobs m) (map_of vllms m)
       (map_of (seed_jobs seeds) m)"

lemma model_decision_outside:
  assumes "m \<notin> set (model_ids pending jobs vllms seeds)"
  shows "model_decision cfg pending jobs vllms seeds m = []"
  using assms
  by (simp add: model_decision_def model_ids_def pending_by_id_None map_of_None_keys[THEN iffD2] model_actions_nothing)

lemma acts_decide:
  "acts (decide cfg pending jobs vllms seeds) m k \<longleftrightarrow>
     list_ex (\<lambda>a. ac_kind a = k) (model_decision cfg pending jobs vllms seeds m)"
proof -
  have "acts (decide cfg pending jobs vllms seeds) m k \<longleftrightarrow>
      (\<exists>x \<in> set (model_ids pending jobs vllms seeds).
         \<exists>a \<in> set (model_decision cfg pending jobs vllms seeds x). ac_model_id a = m \<and> ac_kind a = k)"
    by (auto simp: acts_def decide_def model_decision_def list_ex_iff)
  also have "\<dots> \<longleftrightarrow> (\<exists>a \<in> set (model_decision cfg pending jobs vllms seeds m). ac_kind a = k)"
    using model_actions_id model_decision_outside unfolding model_decision_def
    by (metis empty_iff list.set(1))
  finally show ?thesis by (simp add: list_ex_iff)
qed

definition wanted :: "pending_model list \<Rightarrow> ustr \<Rightarrow> bool" where
  "wanted pending m \<longleftrightarrow> (case pending_by_id pending m of None \<Rightarrow> False | Some p \<Rightarrow> eligible p)"

definition exempt :: "reconcile_settings \<Rightarrow> pending_model list \<Rightarrow> ustr \<Rightarrow> bool" where
  "exempt cfg pending m \<longleftrightarrow>
     (case pending_by_id pending m of None \<Rightarrow> False | Some p \<Rightarrow> pm_model_name p \<in> rc_cache_exempt cfg)"

definition state_in :: "jobs \<Rightarrow> ustr \<Rightarrow> job_state option" where
  "state_in jobs m = map_option oj_state (map_of jobs m)"

text \<open>The decision is a table. For every model, given its entry in the pending queue and the Job, vLLM
and seed Job observed for it, each kind of action is taken exactly when: a vLLM or a runner Job is
created if it is missing, verification is wanted, no failed Job is kept for inspection and the model
cache, where the model takes part in it, is warm; a vLLM is deleted if the runner Job failed and is kept, or nothing
is wanted and no runner is active; a Job is deleted if it succeeded, or failed and is not kept; a seed
Job is created if it is missing and holds a creation back; it is deleted if it failed, is not kept
and holds one back, if the model no longer takes part in the cache and it is not active, or if nothing is wanted and it has
succeeded, or failed and is not kept.\<close>

theorem decision_table:
  "let job = state_in jobs m; seed = state_in (seed_jobs seeds) m; vllm = (map_of vllms m \<noteq> None);
       keep = rc_keep_failed_jobs cfg; want = wanted pending m; cache = (rc_model_cache cfg \<and> seeds \<noteq> None);
       blocked = (want \<and> job = Some FAILED \<and> keep); cached = (cache \<and> \<not> exempt cfg pending m);
       lacking = (want \<and> \<not> blocked \<and> \<not> (vllm \<and> job \<noteq> None));
       doable = acts (decide cfg pending jobs vllms seeds) m in
   doable Create_vllm = (want \<and> \<not> blocked \<and> \<not> vllm \<and> \<not> (cached \<and> seed \<noteq> Some SUCCEEDED))
   \<and> doable Create_job = (want \<and> job = None \<and> \<not> (cached \<and> seed \<noteq> Some SUCCEEDED))
   \<and> doable Delete_vllm = (vllm \<and> (blocked \<or> \<not> want \<and> job \<noteq> Some ACTIVE))
   \<and> doable Delete_job = (job = Some SUCCEEDED \<or> job = Some FAILED \<and> \<not> keep)
   \<and> doable Create_seed = (cached \<and> lacking \<and> seed = None)
   \<and> doable Delete_seed = (cache \<and>
        (if want then (if exempt cfg pending m then \<not> blocked \<and> seed \<notin> {None, Some ACTIVE}
                       else lacking \<and> seed = Some FAILED \<and> \<not> keep)
         else seed = Some SUCCEEDED \<or> seed = Some FAILED \<and> \<not> keep))"
proof (cases "pending_by_id pending m")
  case None
  then show ?thesis
    by (cases "map_of jobs m"; cases "map_of vllms m"; cases "map_of (seed_jobs seeds) m")
      (auto simp: acts_decide model_decision_def model_actions_def idle_actions_def wanted_def exempt_def
        state_in_def Let_def deletion_def creation_def)
next
  case (Some p)
  show ?thesis
  proof (cases "eligible p")
    case False
    with Some show ?thesis
      by (cases "map_of jobs m"; cases "map_of vllms m"; cases "map_of (seed_jobs seeds) m")
        (auto simp: acts_decide model_decision_def model_actions_def idle_actions_def wanted_def exempt_def
          state_in_def Let_def deletion_def creation_def)
  next
    case True
    note defs = acts_decide model_decision_def model_actions_def eligible_actions_def gate_on_seed_def
      pair_actions_def wanted_def exempt_def state_in_def Let_def deletion_def creation_def is_creation_def
    show ?thesis
    proof (cases "map_of jobs m")
      case None
      with Some True show ?thesis
        by (cases "map_of vllms m"; cases "map_of (seed_jobs seeds) m")
          (auto simp: defs)
    next
      case job: (Some j)
      with Some True show ?thesis
        by (cases "oj_state j"; cases "map_of vllms m"; cases "map_of (seed_jobs seeds) m")
          (auto simp: defs)
    qed
  qed
qed

section \<open>Clusters without name clashes\<close>

text \<open>
  \<open>nm\<close> gives the models' names by id, over the ids \<open>M\<close>. A tidy cluster has only resources of these models
  under the orchestrator's names, each labelled with its model and serving it.
\<close>

definition names_apart :: "(ustr \<Rightarrow> ustr) \<Rightarrow> ustr set \<Rightarrow> bool" where
  "names_apart nm M \<longleftrightarrow> [] \<notin> M \<and> inj_on (\<lambda>m. slug (nm m)) M"

definition job_tidy :: "(ustr \<Rightarrow> ustr) \<Rightarrow> ustr set \<Rightarrow> ustr \<times> k8s_job \<Rightarrow> bool" where
  "job_tidy nm M nj \<longleftrightarrow>
     (if kj_managed (snd nj) then
        jm_model_id (kj_manifest (snd nj)) \<in> M
        \<and> (fst nj = job_name (nm (jm_model_id (kj_manifest (snd nj))))
             \<and> job_env ''RUNNER_MODEL_NAME'' (kj_manifest (snd nj)) = Some (JStr (nm (jm_model_id (kj_manifest (snd nj)))))
             \<and> job_env ''RUNNER_VLLM_URL'' (kj_manifest (snd nj))
                 = Some (JStr (vllm_service_url (nm (jm_model_id (kj_manifest (snd nj))))))
           \<or> fst nj = seed_job_name (nm (jm_model_id (kj_manifest (snd nj)))))
      else \<not> startswith (fst nj) JOB_PREFIX \<and> \<not> startswith (fst nj) SEED_PREFIX)"

definition vllm_tidy :: "(ustr \<Rightarrow> ustr) \<Rightarrow> ustr set \<Rightarrow> ustr \<times> k8s_vllm \<Rightarrow> bool" where
  "vllm_tidy nm M nv \<longleftrightarrow>
     (if kv_managed (snd nv) then
        vm_model_id (kv_manifest (snd nv)) \<in> M
        \<and> served_model (kv_manifest (snd nv)) = JStr (nm (vm_model_id (kv_manifest (snd nv))))
        \<and> fst nv = vllm_name (nm (vm_model_id (kv_manifest (snd nv))))
      else \<not> startswith (fst nv) VLLM_PREFIX)"

definition tidy :: "(ustr \<Rightarrow> ustr) \<Rightarrow> ustr set \<Rightarrow> cluster \<Rightarrow> bool" where
  "tidy nm M cl \<longleftrightarrow> distinct (map fst (cl_jobs cl)) \<and> distinct (map fst (cl_vllms cl))
     \<and> (\<forall>x \<in> set (cl_jobs cl). job_tidy nm M x) \<and> (\<forall>x \<in> set (cl_vllms cl). vllm_tidy nm M x)"

definition queue_tidy :: "(ustr \<Rightarrow> ustr) \<Rightarrow> ustr set \<Rightarrow> pending_model list \<Rightarrow> bool" where
  "queue_tidy nm M pending \<longleftrightarrow> (\<forall>p \<in> set pending. pm_model_id p \<in> M \<and> pm_model_name p = nm (pm_model_id p))"

lemma startswith_append [simp]: "startswith (p @ s) p"
  by (simp add: startswith_def)

lemma prefixes_apart [simp]:
  "\<not> startswith (SEED_PREFIX @ s) JOB_PREFIX" "\<not> startswith (JOB_PREFIX @ s) SEED_PREFIX"
  by (simp_all add: startswith_def SEED_PREFIX_def JOB_PREFIX_def uni_def)

lemma names_startswith [simp]:
  "startswith (job_name n) JOB_PREFIX" "startswith (seed_job_name n) SEED_PREFIX" "startswith (vllm_name n) VLLM_PREFIX"
  "\<not> startswith (seed_job_name n) JOB_PREFIX" "\<not> startswith (job_name n) SEED_PREFIX"
  by (simp_all add: job_name_def seed_job_name_def vllm_name_def)

lemma names_differ [simp]: "job_name n \<noteq> seed_job_name n'" "seed_job_name n' \<noteq> job_name n"
  by (metis names_startswith(1,4))+

lemma names_eq_iff:
  assumes "names_apart nm M" "m \<in> M" "m' \<in> M"
  shows "job_name (nm m) = job_name (nm m') \<longleftrightarrow> m = m'" "seed_job_name (nm m) = seed_job_name (nm m') \<longleftrightarrow> m = m'"
    "vllm_name (nm m) = vllm_name (nm m') \<longleftrightarrow> m = m'"
  using assms by (auto simp: names_apart_def inj_on_def job_name_def seed_job_name_def vllm_name_def)

text \<open>What the folds of the listing functions look up.\<close>

lemma map_of_fold_update:
  "map_of (fold (\<lambda>(n, j) obs. if P n j then AList.update (k j) (f n j) obs else obs) xs obs0) m =
     (case filter (\<lambda>(n, j). P n j \<and> k j = m) (rev xs) of [] \<Rightarrow> map_of obs0 m | x # _ \<Rightarrow> Some (f (fst x) (snd x)))"
proof (induction xs arbitrary: obs0)
  case (Cons x xs)
  show ?case
    unfolding fold.simps comp_apply Cons.IH
    by (cases x; cases "filter (\<lambda>(n, j). P n j \<and> k j = m) (rev xs)") (auto simp: update_conv')
qed simp

lemma unique_lookup:
  assumes d: "distinct (map fst xs)"
    and only: "\<And>n j. (n, j) \<in> set xs \<Longrightarrow> P n j \<and> k j = m \<longleftrightarrow> n = nmm"
  shows "map_of (fold (\<lambda>(n, j) obs. if P n j then AList.update (k j) (f n j) obs else obs) xs []) m
    = map_option (f nmm) (map_of xs nmm)"
proof (cases "filter (\<lambda>(n, j). P n j \<and> k j = m) (rev xs)")
  case Nil
  then have "nmm \<notin> fst ` set xs" using only by (force simp: filter_empty_conv)
  then have "map_of xs nmm = None" by (simp add: map_of_eq_None_iff)
  with Nil show ?thesis by (simp add: map_of_fold_update)
next
  case (Cons x rest)
  then have "x \<in> set (filter (\<lambda>(n, j). P n j \<and> k j = m) (rev xs))" by simp
  then have x: "x \<in> set xs" "P (fst x) (snd x) \<and> k (snd x) = m" by auto
  then have n: "fst x = nmm" using only[of "fst x" "snd x"] by simp
  with x d have "map_of xs nmm = Some (snd x)" by (metis map_of_is_SomeI prod.collapse)
  with Cons n show ?thesis by (simp add: map_of_fold_update)
qed

lemma listed_jobs:
  assumes apart: "names_apart nm M" and t: "tidy nm M cl" and m: "m \<in> M"
  shows "map_of (list_jobs_with_prefix JOB_PREFIX cl) m =
      map_option (\<lambda>j. \<lparr>oj_name = job_name (nm m), oj_state = kj_state j\<rparr>) (map_of (cl_jobs cl) (job_name (nm m)))"
    "map_of (list_jobs_with_prefix SEED_PREFIX cl) m =
      map_option (\<lambda>j. \<lparr>oj_name = seed_job_name (nm m), oj_state = kj_state j\<rparr>)
        (map_of (cl_jobs cl) (seed_job_name (nm m)))"
proof -
  have j: "job_tidy nm M (n, j)" if "(n, j) \<in> set (cl_jobs cl)" for n j using t that by (auto simp: tidy_def)
  have ne: "[] \<notin> M" using apart by (simp add: names_apart_def)
  have "kj_managed j \<and> startswith n JOB_PREFIX \<and> jm_model_id (kj_manifest j) \<noteq> [] \<and> jm_model_id (kj_manifest j) = m
      \<longleftrightarrow> n = job_name (nm m)" if "(n, j) \<in> set (cl_jobs cl)" for n j
    using j[OF that] names_eq_iff(1)[OF apart _ m] m ne by (auto simp: job_tidy_def split: if_splits)
  then show "map_of (list_jobs_with_prefix JOB_PREFIX cl) m =
      map_option (\<lambda>j. \<lparr>oj_name = job_name (nm m), oj_state = kj_state j\<rparr>) (map_of (cl_jobs cl) (job_name (nm m)))"
    unfolding list_jobs_with_prefix_def using t by (subst unique_lookup[of _ _ _ _ "job_name (nm m)"]) (auto simp: tidy_def)
  have "kj_managed j \<and> startswith n SEED_PREFIX \<and> jm_model_id (kj_manifest j) \<noteq> [] \<and> jm_model_id (kj_manifest j) = m
      \<longleftrightarrow> n = seed_job_name (nm m)" if "(n, j) \<in> set (cl_jobs cl)" for n j
    using j[OF that] names_eq_iff(2)[OF apart _ m] m ne by (auto simp: job_tidy_def split: if_splits)
  then show "map_of (list_jobs_with_prefix SEED_PREFIX cl) m =
      map_option (\<lambda>j. \<lparr>oj_name = seed_job_name (nm m), oj_state = kj_state j\<rparr>)
        (map_of (cl_jobs cl) (seed_job_name (nm m)))"
    unfolding list_jobs_with_prefix_def using t
    by (subst unique_lookup[of _ _ _ _ "seed_job_name (nm m)"]) (auto simp: tidy_def)
qed

lemma listed_vllms:
  assumes apart: "names_apart nm M" and t: "tidy nm M cl" and m: "m \<in> M"
  shows "map_of (list_managed_llmisvcs cl) m =
      map_option (\<lambda>_. vllm_name (nm m)) (map_of (cl_vllms cl) (vllm_name (nm m)))"
proof -
  have v: "vllm_tidy nm M (n, v)" if "(n, v) \<in> set (cl_vllms cl)" for n v using t that by (auto simp: tidy_def)
  have ne: "[] \<notin> M" using apart by (simp add: names_apart_def)
  have "kv_managed v \<and> vm_model_id (kv_manifest v) \<noteq> [] \<and> vm_model_id (kv_manifest v) = m
      \<longleftrightarrow> n = vllm_name (nm m)" if "(n, v) \<in> set (cl_vllms cl)" for n v
    using v[OF that] names_eq_iff(3)[OF apart _ m] m ne by (auto simp: vllm_tidy_def split: if_splits)
  then show ?thesis
    unfolding list_managed_llmisvcs_def using t
    by (subst unique_lookup[of _ "\<lambda>_ v. kv_managed v \<and> vm_model_id (kv_manifest v) \<noteq> []" _ _ "vllm_name (nm m)"])
      (auto simp: tidy_def)
qed

section \<open>A cycle is one step of every model's state machine\<close>

text \<open>What there is of a model: its runner Job's state, whether it has a vLLM, its seed Job's state.\<close>

type_synonym model_view = "job_state option \<times> bool \<times> job_state option"

definition view :: "(ustr \<Rightarrow> ustr) \<Rightarrow> cluster \<Rightarrow> ustr \<Rightarrow> model_view" where
  "view nm cl m =
     (map_option kj_state (map_of (cl_jobs cl) (job_name (nm m))),
      map_of (cl_vllms cl) (vllm_name (nm m)) \<noteq> None,
      map_option kj_state (map_of (cl_jobs cl) (seed_job_name (nm m))))"

definition apply_view :: "action_kind \<Rightarrow> model_view \<Rightarrow> model_view" where
  "apply_view k = (\<lambda>(j, v, s).
     case k of
       Create_vllm \<Rightarrow> (j, True, s)
     | Create_job \<Rightarrow> (if j = None then Some ACTIVE else j, v, s)
     | Delete_vllm \<Rightarrow> (j, False, s)
     | Delete_job \<Rightarrow> (None, v, s)
     | Create_seed \<Rightarrow> (j, v, if s = None then Some ACTIVE else s)
     | Delete_seed \<Rightarrow> (j, v, None))"

definition canonical_action :: "(ustr \<Rightarrow> ustr) \<Rightarrow> ustr \<Rightarrow> action \<Rightarrow> bool" where
  "canonical_action nm m a \<longleftrightarrow>
     (if is_creation a then
        (case ac_model a of None \<Rightarrow> False | Some p \<Rightarrow> pm_model_id p = m \<and> pm_model_name p = nm m)
      else ac_name a = Some (case ac_kind a of
                               Delete_vllm \<Rightarrow> vllm_name (nm m)
                             | Delete_job \<Rightarrow> job_name (nm m)
                             | _ \<Rightarrow> seed_job_name (nm m)))"

lemma tidy_create_job:
  assumes "tidy nm M cl" "create_job jm cl = Some cl1"
    "job_tidy nm M (jm_name jm, \<lparr>kj_manifest = jm, kj_managed = True, kj_state = ACTIVE\<rparr>)"
  shows "tidy nm M cl1"
  using assms by (auto simp: tidy_def create_job_def map_of_eq_None_iff split: if_splits)

lemma tidy_create_llmisvc:
  assumes "tidy nm M cl" "create_llmisvc vm cl = Some cl1"
    "vllm_tidy nm M (vm_name vm, \<lparr>kv_manifest = vm, kv_managed = True\<rparr>)"
  shows "tidy nm M cl1"
  using assms by (auto simp: tidy_def create_llmisvc_def map_of_eq_None_iff split: if_splits)

lemma tidy_delete_job: "tidy nm M cl \<Longrightarrow> delete_job n cl = Some cl1 \<Longrightarrow> tidy nm M cl1"
  using set_delete_subset[of n "cl_jobs cl"]
  by (auto simp: tidy_def delete_job_def distinct_delete split: if_splits)

lemma tidy_delete_llmisvc: "tidy nm M cl \<Longrightarrow> delete_llmisvc n cl = Some cl1 \<Longrightarrow> tidy nm M cl1"
  using set_delete_subset[of n "cl_vllms cl"]
  by (auto simp: tidy_def delete_llmisvc_def distinct_delete split: if_splits)

lemma tidy_apply:
  assumes t: "tidy nm M cl" and m: "m \<in> M" and c: "canonical_action nm m a"
  shows "tidy nm M (apply_or_log cfg accepts a cl)"
proof (cases "accepts a \<and> apply_action cfg a cl \<noteq> None")
  case True
  then obtain cl1 where a: "accepts a" "apply_action cfg a cl = Some cl1" by auto
  have "tidy nm M cl1"
  proof (cases "is_creation a")
    case True
    then obtain p where p: "ac_model a = Some p" "pm_model_id p = m" "pm_model_name p = nm m"
      using c by (auto simp: canonical_action_def split: option.splits)
    show ?thesis
      using a(2) True p m tidy_create_llmisvc[OF t] tidy_create_job[OF t]
      by (cases "ac_kind a")
        (auto simp: is_creation_def apply_action_def
          job_tidy_def vllm_tidy_def)
  next
    case False
    then show ?thesis
      using a(2) tidy_delete_llmisvc[OF t] tidy_delete_job[OF t]
      by (cases "ac_kind a") (auto simp: is_creation_def apply_action_def)
  qed
  then show ?thesis using a by (simp add: apply_or_log_def)
next
  case False
  with t show ?thesis by (auto simp: apply_or_log_def)
qed

lemma view_apply:
  assumes apart: "names_apart nm M" and m: "m \<in> M" and m': "m' \<in> M" and c: "canonical_action nm m a"
  shows "view nm (apply_or_log cfg (\<lambda>_. True) a cl) m'
    = (if m' = m then apply_view (ac_kind a) (view nm cl m) else view nm cl m')"
proof (cases "is_creation a")
  case True
  then obtain p where p: "ac_model a = Some p" "pm_model_id p = m" "pm_model_name p = nm m"
    using c by (auto simp: canonical_action_def split: option.splits)
  show ?thesis
    using True p names_eq_iff[OF apart m m']
    by (cases "ac_kind a")
      (auto simp: is_creation_def apply_or_log_def apply_action_def create_llmisvc_def create_job_def
        view_def apply_view_def map_add_def
        split: option.splits)
next
  case False
  then show ?thesis
    using c names_eq_iff[OF apart m m']
    by (cases "ac_kind a")
      (auto simp: is_creation_def apply_or_log_def apply_action_def delete_llmisvc_def delete_job_def
        canonical_action_def view_def apply_view_def delete_conv' split: option.splits)
qed

lemma fold_apply:
  assumes apart: "names_apart nm M" and m: "m \<in> M"
  shows "tidy nm M cl \<Longrightarrow> (\<And>a. a \<in> set as \<Longrightarrow> canonical_action nm m a) \<Longrightarrow>
     tidy nm M (fold (apply_or_log cfg accepts) as cl)
     \<and> (m' \<in> M \<longrightarrow> view nm (fold (apply_or_log cfg (\<lambda>_. True)) as cl) m'
          = (if m' = m then fold apply_view (map ac_kind as) (view nm cl m) else view nm cl m'))"
proof (induction as arbitrary: cl)
  case (Cons a as)
  have c: "canonical_action nm m a" using Cons.prems(2) by simp
  have "tidy nm M (fold (apply_or_log cfg accepts) as (apply_or_log cfg accepts a cl))"
    using Cons.IH[OF tidy_apply[OF Cons.prems(1) m c, of cfg accepts]] Cons.prems(2) by auto
  moreover have "view nm (fold (apply_or_log cfg (\<lambda>_. True)) as (apply_or_log cfg (\<lambda>_. True) a cl)) m'
      = (if m' = m then fold apply_view (map ac_kind (a # as)) (view nm cl m) else view nm cl m')" if "m' \<in> M"
    using Cons.IH[OF tidy_apply[OF Cons.prems(1) m c, of cfg "\<lambda>_. True"]] Cons.prems(2) that
      view_apply[OF apart m _ c, of _ cfg cl] m by auto
  ultimately show ?case by simp
qed simp

lemma fold_decisions:
  assumes apart: "names_apart nm M"
  shows "tidy nm M cl \<Longrightarrow> set ids \<subseteq> M \<Longrightarrow> distinct ids \<Longrightarrow>
     (\<And>m a. m \<in> set ids \<Longrightarrow> a \<in> set (f m) \<Longrightarrow> canonical_action nm m a) \<Longrightarrow>
     tidy nm M (fold (apply_or_log cfg accepts) (concat (map f ids)) cl)
     \<and> (m' \<in> M \<longrightarrow> view nm (fold (apply_or_log cfg (\<lambda>_. True)) (concat (map f ids)) cl) m'
          = (if m' \<in> set ids then fold apply_view (map ac_kind (f m')) (view nm cl m') else view nm cl m'))"
proof (induction ids arbitrary: cl)
  case (Cons m ids)
  have m: "m \<in> M" and canon: "\<And>a. a \<in> set (f m) \<Longrightarrow> canonical_action nm m a"
    and rest: "set ids \<subseteq> M" "distinct ids" "\<And>m a. m \<in> set ids \<Longrightarrow> a \<in> set (f m) \<Longrightarrow> canonical_action nm m a"
    and new: "m \<notin> set ids"
    using Cons.prems by auto
  note one = fold_apply[OF apart m Cons.prems(1) canon]
  have t: "tidy nm M (fold (apply_or_log cfg acc) (f m) cl)" for acc using one[where accepts = acc] by blast
  have v: "view nm (fold (apply_or_log cfg (\<lambda>_. True)) (f m) cl) x
      = (if x = m then fold apply_view (map ac_kind (f m)) (view nm cl m) else view nm cl x)" if "x \<in> M" for x
    using one[where m' = x] that by blast
  have "tidy nm M (fold (apply_or_log cfg accepts) (concat (map f ids)) (fold (apply_or_log cfg accepts) (f m) cl))"
    using Cons.IH[OF t rest] by blast
  moreover have "view nm (fold (apply_or_log cfg (\<lambda>_. True)) (concat (map f ids))
        (fold (apply_or_log cfg (\<lambda>_. True)) (f m) cl)) m'
      = (if m' \<in> set (m # ids) then fold apply_view (map ac_kind (f m')) (view nm cl m') else view nm cl m')"
    if "m' \<in> M"
    using Cons.IH[OF t rest, of "\<lambda>_. True"] that v[OF that] new by auto
  ultimately show ?case by simp
qed simp

text \<open>The state machine of a model: \<open>want\<close> is whether verification is wanted, \<open>cached\<close> whether the model
takes part in the cache, \<open>cache\<close> whether there is one.\<close>

definition model_step :: "bool \<Rightarrow> bool \<Rightarrow> bool \<Rightarrow> bool \<Rightarrow> model_view \<Rightarrow> model_view" where
  "model_step cache cached keep want = (\<lambda>(j, v, s).
     if want \<and> j = Some FAILED \<and> keep then (j, False, s)
     else if want then
       (let warm = (\<not> cached \<or> s = Some SUCCEEDED) in
        (if j = None then (if warm then Some ACTIVE else None) else if j = Some ACTIVE then j else None,
         v \<or> warm,
         if cached then
           (if v \<and> j \<noteq> None then s
            else if s = None then Some ACTIVE
            else if s = Some FAILED \<and> \<not> keep then None else s)
         else if cache \<and> s \<noteq> Some ACTIVE then None else s))
     else
       (if j = Some SUCCEEDED \<or> j = Some FAILED \<and> \<not> keep then None else j,
        v \<and> j = Some ACTIVE,
        if cache \<and> (s = Some SUCCEEDED \<or> s = Some FAILED \<and> \<not> keep) then None else s))"

definition named_job :: "ustr \<Rightarrow> job_state option \<Rightarrow> observed_job option" where
  "named_job n st = map_option (\<lambda>x. \<lparr>oj_name = n, oj_state = x\<rparr>) st"

lemma eligible_step:
  "fold apply_view (map ac_kind (eligible_actions cfg True m p (named_job n j) (if v then Some w else None) (named_job n' s)))
     (j, v, s)
   = model_step (rc_model_cache cfg) (rc_model_cache cfg \<and> pm_model_name p \<notin> rc_cache_exempt cfg)
       (rc_keep_failed_jobs cfg) True (j, v, s)"
proof -
  note defs = named_job_def model_step_def eligible_actions_def pair_actions_def gate_on_seed_def is_creation_def
    creation_def deletion_def apply_view_def Let_def
  show ?thesis
  proof (cases j)
    case None
    then show ?thesis
      by (cases v; cases s; cases "the s") (simp_all add: defs)
  next
    case (Some js)
    then show ?thesis
      by (cases js; cases v; cases s; cases "the s") (simp_all add: defs)
  qed
qed

lemma idle_step:
  "fold apply_view (map ac_kind (idle_actions cfg True m (named_job n j) (if v then Some w else None) (named_job n' s)))
     (j, v, s) = model_step (rc_model_cache cfg) c (rc_keep_failed_jobs cfg) False (j, v, s)"
  by (cases "j"; cases "the j"; cases v; cases s; cases "the s")
    (simp_all add: named_job_def model_step_def idle_actions_def deletion_def apply_view_def)

lemma canonical_pair:
  "a \<in> set (pair_actions m p (named_job (job_name (nm m)) j) (if v then Some (vllm_name (nm m)) else None)) \<Longrightarrow>
     pm_model_id p = m \<Longrightarrow> pm_model_name p = nm m \<Longrightarrow> canonical_action nm m a"
  by (cases j) (auto simp: pair_actions_def named_job_def canonical_action_def is_creation_def creation_def
      deletion_def split: if_splits)

lemma canonical_gate:
  assumes "a \<in> set (gate_on_seed cfg m p (named_job (seed_job_name (nm m)) s) as)"
    "\<And>a. a \<in> set as \<Longrightarrow> canonical_action nm m a" "pm_model_id p = m" "pm_model_name p = nm m"
  shows "canonical_action nm m a"
proof -
  have "canonical_action nm m (creation Create_seed m p)" "canonical_action nm m (deletion Delete_seed m (seed_job_name (nm m)))"
    using assms(3,4) by (simp_all add: canonical_action_def is_creation_def creation_def deletion_def)
  then show ?thesis
    using assms(1,2) by (cases s) (auto simp: gate_on_seed_def named_job_def split: if_splits)
qed

lemma canonical_idle:
  assumes "a \<in> set (idle_actions cfg True m (named_job (job_name (nm m)) j)
      (if v then Some (vllm_name (nm m)) else None) (named_job (seed_job_name (nm m)) s))"
  shows "canonical_action nm m a"
proof -
  have "list_all (canonical_action nm m) (idle_actions cfg True m (named_job (job_name (nm m)) j)
      (if v then Some (vllm_name (nm m)) else None) (named_job (seed_job_name (nm m)) s))"
    by (cases j; cases s)
      (simp_all add: idle_actions_def named_job_def canonical_action_def is_creation_def deletion_def)
  with assms show ?thesis by (simp add: list_all_iff)
qed

lemma canonical_eligible:
  assumes "a \<in> set (eligible_actions cfg True m p (named_job (job_name (nm m)) j)
      (if v then Some (vllm_name (nm m)) else None) (named_job (seed_job_name (nm m)) s))"
    and p: "pm_model_id p = m" "pm_model_name p = nm m"
  shows "canonical_action nm m a"
proof -
  let ?pair = "pair_actions m p (named_job (job_name (nm m)) j) (if v then Some (vllm_name (nm m)) else None)"
  have pair: "canonical_action nm m a" if "a \<in> set ?pair" for a using canonical_pair[where nm = nm, OF that p] .
  have dels: "canonical_action nm m (deletion Delete_vllm m (vllm_name (nm m)))"
    "canonical_action nm m (deletion Delete_seed m (seed_job_name (nm m)))"
    by (simp_all add: canonical_action_def is_creation_def deletion_def)
  show ?thesis
    using assms(1) pair dels canonical_gate[OF _ pair p, of a cfg s]
    by (cases s) (auto simp: eligible_actions_def Let_def named_job_def split: if_splits)
qed

lemma pending_by_id_Some:
  "pending_by_id pending m = Some p \<Longrightarrow> p \<in> set pending \<and> pm_model_id p = m"
  by (auto simp: pending_by_id_def dest!: map_of_SomeD)

text \<open>The decision for a model of a tidy cluster, over its view.\<close>

definition viewed_actions :: "reconcile_settings \<Rightarrow> (ustr \<Rightarrow> ustr) \<Rightarrow> pending_model list \<Rightarrow> ustr \<Rightarrow> model_view \<Rightarrow> action list" where
  "viewed_actions cfg nm pending m = (\<lambda>(j, v, s).
     model_actions cfg True m (pending_by_id pending m) (named_job (job_name (nm m)) j)
       (if v then Some (vllm_name (nm m)) else None) (named_job (seed_job_name (nm m)) s))"

lemma viewed_step:
  "fold apply_view (map ac_kind (viewed_actions cfg nm pending m jvs)) jvs
   = model_step (rc_model_cache cfg) (rc_model_cache cfg \<and> \<not> exempt cfg pending m) (rc_keep_failed_jobs cfg)
       (wanted pending m) jvs"
proof -
  obtain j v s where jvs: "jvs = (j, v, s)" by (cases jvs)
  let ?job = "named_job (job_name (nm m)) j" and ?vllm = "if v then Some (vllm_name (nm m)) else None"
    and ?seed = "named_job (seed_job_name (nm m)) s"
  show ?thesis
  proof (cases "wanted pending m")
    case True
    then obtain p where p: "pending_by_id pending m = Some p" "eligible p"
      by (auto simp: wanted_def split: option.splits)
    have "viewed_actions cfg nm pending m jvs = eligible_actions cfg True m p ?job ?vllm ?seed"
      unfolding viewed_actions_def jvs model_actions_def p(1) using p(2) by simp
    moreover have "exempt cfg pending m \<longleftrightarrow> pm_model_name p \<in> rc_cache_exempt cfg" by (simp add: exempt_def p(1))
    ultimately show ?thesis unfolding jvs by (simp only: eligible_step True simp_thms)
  next
    case False
    then have "viewed_actions cfg nm pending m jvs = idle_actions cfg True m ?job ?vllm ?seed"
      unfolding viewed_actions_def jvs model_actions_def by (cases "pending_by_id pending m") (simp_all add: wanted_def)
    then show ?thesis unfolding jvs by (simp only: idle_step False)
  qed
qed

lemma viewed_canonical:
  assumes "queue_tidy nm M pending" "a \<in> set (viewed_actions cfg nm pending m jvs)"
  shows "canonical_action nm m a"
proof (cases "pending_by_id pending m")
  case None
  with assms(2) canonical_idle show ?thesis by (cases jvs) (auto simp: viewed_actions_def model_actions_def)
next
  case (Some p)
  then have p: "pm_model_id p = m" "pm_model_name p = nm m"
    using pending_by_id_Some[OF Some] assms(1) by (auto simp: queue_tidy_def)
  obtain j v s where jvs: "jvs = (j, v, s)" by (cases jvs)
  show ?thesis
    using assms(2) canonical_idle[of a cfg m nm j v s] canonical_eligible[where nm = nm and m = m, OF _ p, of a cfg j v s] Some jvs
    by (auto simp: viewed_actions_def model_actions_def split: if_splits)
qed

lemma viewed_decision:
  assumes apart: "names_apart nm M" and t: "tidy nm M cl" and m: "m \<in> M"
  shows "model_decision cfg pending (list_jobs_with_prefix JOB_PREFIX cl) (list_managed_llmisvcs cl)
       (Some (list_jobs_with_prefix SEED_PREFIX cl)) m = viewed_actions cfg nm pending m (view nm cl m)"
  by (cases "map_of (cl_vllms cl) (vllm_name (nm m))")
    (simp_all add: model_decision_def viewed_actions_def view_def seed_jobs_def named_job_def
      listed_jobs[OF apart t m] listed_vllms[OF apart t m] option.map_comp comp_def)

lemma keys_fold_update:
  "set (map fst obs0) \<subseteq> M \<Longrightarrow> (\<And>n j. (n, j) \<in> set xs \<Longrightarrow> P n j \<Longrightarrow> k j \<in> M) \<Longrightarrow>
     set (map fst (fold (\<lambda>(n, j) obs. if P n j then AList.update (k j) (f n j) obs else obs) xs obs0)) \<subseteq> M"
proof (induction xs arbitrary: obs0)
  case (Cons x xs)
  obtain n j where x: "x = (n, j)" by (cases x)
  have "set (map fst (if P n j then AList.update (k j) (f n j) obs0 else obs0)) \<subseteq> M"
    using Cons.prems by (auto simp: x dom_update[unfolded image_set[symmetric]])
  moreover have "\<And>n j. (n, j) \<in> set xs \<Longrightarrow> P n j \<Longrightarrow> k j \<in> M" using Cons.prems(2) by (metis list.set_intros(2))
  ultimately show ?case unfolding x fold.simps comp_apply prod.case by (rule Cons.IH)
qed simp

lemma observed_in:
  assumes t: "tidy nm M cl" and q: "queue_tidy nm M pending"
  shows "set (model_ids pending (list_jobs_with_prefix JOB_PREFIX cl) (list_managed_llmisvcs cl)
    (Some (list_jobs_with_prefix SEED_PREFIX cl))) \<subseteq> M"
proof -
  have j: "set (map fst (list_jobs_with_prefix p cl)) \<subseteq> M" for p
    unfolding list_jobs_with_prefix_def
    using t by (intro keys_fold_update) (fastforce simp: tidy_def job_tidy_def split: if_splits)+
  have v: "set (map fst (list_managed_llmisvcs cl)) \<subseteq> M"
    unfolding list_managed_llmisvcs_def
    using t by (intro keys_fold_update[where P = "\<lambda>_ v. kv_managed v \<and> vm_model_id (kv_manifest v) \<noteq> []"])
      (fastforce simp: tidy_def vllm_tidy_def split: if_splits)+
  have "pm_model_id ` set pending \<subseteq> M" using q by (auto simp: queue_tidy_def)
  with j[of JOB_PREFIX] j[of SEED_PREFIX] v show ?thesis by (auto simp: model_ids_def seed_jobs_def)
qed

lemma reconcile_views:
  assumes apart: "names_apart nm M" and t: "tidy nm M cl" and q: "queue_tidy nm M pending"
  shows "tidy nm M (reconcile_once cfg accepts pending cl)"
    "m \<in> M \<Longrightarrow> view nm (reconcile_once cfg (\<lambda>_. True) pending cl) m
      = model_step (os_model_cache_pvc cfg \<noteq> None)
          (os_model_cache_pvc cfg \<noteq> None \<and> \<not> exempt (reconcile_cfg cfg) pending m) (os_keep_failed_jobs cfg)
          (wanted pending m) (view nm cl m)"
proof -
  let ?jobs = "list_jobs_with_prefix JOB_PREFIX cl" and ?vllms = "list_managed_llmisvcs cl"
    and ?seeds = "Some (list_jobs_with_prefix SEED_PREFIX cl)" and ?c = "reconcile_cfg cfg"
  let ?ids = "model_ids pending ?jobs ?vllms ?seeds" and ?f = "model_decision ?c pending ?jobs ?vllms ?seeds"
  have acts: "observed_actions cfg pending cl = concat (map ?f ?ids)"
    by (simp add: observed_actions_def decide_def model_decision_def[abs_def])
  have ids: "set ?ids \<subseteq> M" by (rule observed_in[OF t q])
  have dist: "distinct ?ids" by (simp add: model_ids_def)
  have f: "?f x = viewed_actions ?c nm pending x (view nm cl x)" if "x \<in> M" for x
    by (rule viewed_decision[OF apart t that])
  have canon: "canonical_action nm x a" if "x \<in> set ?ids" "a \<in> set (?f x)" for x a
    using viewed_canonical[OF q] f that ids by (metis subsetD)
  note all = fold_decisions[where f = ?f, OF apart t ids dist canon]
  show "tidy nm M (reconcile_once cfg accepts pending cl)"
    using all unfolding reconcile_once_def acts by blast
  assume m: "m \<in> M"
  have "view nm (reconcile_once cfg (\<lambda>_. True) pending cl) m
      = (if m \<in> set ?ids then fold apply_view (map ac_kind (?f m)) (view nm cl m) else view nm cl m)"
    using all m unfolding reconcile_once_def acts by blast
  also have "\<dots> = fold apply_view (map ac_kind (?f m)) (view nm cl m)"
    using model_decision_outside[of m pending ?jobs ?vllms ?seeds ?c] by simp
  finally show "view nm (reconcile_once cfg (\<lambda>_. True) pending cl) m
      = model_step (os_model_cache_pvc cfg \<noteq> None)
          (os_model_cache_pvc cfg \<noteq> None \<and> \<not> exempt ?c pending m) (os_keep_failed_jobs cfg)
          (wanted pending m) (view nm cl m)"
    unfolding f[OF m] viewed_step by (simp add: reconcile_cfg_def)
qed

text \<open>C15: a reconcile cycle refines the models' state machines. On a tidy cluster, with slugs that do not
clash, one cycle whose calls succeed takes every model's view through one step of its state machine:
nothing one model's actions do shows in another's resources, and the cluster stays tidy.\<close>

theorem cycle_refines_models:
  assumes "names_apart nm M" "tidy nm M cl" "queue_tidy nm M pending" "m \<in> M"
  shows "tidy nm M (reconcile_once cfg (\<lambda>_. True) pending cl) \<and>
    view nm (reconcile_once cfg (\<lambda>_. True) pending cl) m
      = model_step (os_model_cache_pvc cfg \<noteq> None)
          (os_model_cache_pvc cfg \<noteq> None \<and> \<not> exempt (reconcile_cfg cfg) pending m) (os_keep_failed_jobs cfg)
          (wanted pending m) (view nm cl m)"
  using reconcile_views[OF assms(1-3)] assms(4) by blast

text \<open>Runners meet their own model. Whatever calls the API server refuses, after a cycle on a tidy
cluster with slugs that do not clash, a managed runner Job whose service address is that of a managed
vLLM carries the same model's label as the vLLM, and the vLLM serves the Job's model.\<close>

theorem runners_meet_their_models:
  assumes "names_apart nm M" "tidy nm M cl" "queue_tidy nm M pending"
    and "(n, j) \<in> set (cl_jobs (reconcile_once cfg accepts pending cl))" "kj_managed j" "startswith n JOB_PREFIX"
    and "(vn, v) \<in> set (cl_vllms (reconcile_once cfg accepts pending cl))" "kv_managed v"
    and "job_env ''RUNNER_VLLM_URL'' (kj_manifest j)
      = Some (JStr (uni ''http://'' @ vn @ uni ''-kserve-workload-svc:8000/v1''))"
  shows "jm_model_id (kj_manifest j) = vm_model_id (kv_manifest v)
    \<and> job_env ''RUNNER_MODEL_NAME'' (kj_manifest j) = Some (served_model (kv_manifest v))"
proof -
  have t: "tidy nm M (reconcile_once cfg accepts pending cl)" by (rule reconcile_views(1)[OF assms(1-3)])
  have j: "jm_model_id (kj_manifest j) \<in> M"
      "job_env ''RUNNER_MODEL_NAME'' (kj_manifest j) = Some (JStr (nm (jm_model_id (kj_manifest j))))"
      "job_env ''RUNNER_VLLM_URL'' (kj_manifest j) = Some (JStr (vllm_service_url (nm (jm_model_id (kj_manifest j)))))"
    using t assms(4-6) by (auto simp: tidy_def job_tidy_def dest!: bspec)
  have v: "vm_model_id (kv_manifest v) \<in> M" "served_model (kv_manifest v) = JStr (nm (vm_model_id (kv_manifest v)))"
      "vn = vllm_name (nm (vm_model_id (kv_manifest v)))"
    using t assms(7,8) by (auto simp: tidy_def vllm_tidy_def dest!: bspec)
  have "vllm_name (nm (jm_model_id (kj_manifest j))) = vn"
    using assms(9) j(3) by (simp add: vllm_service_url_def)
  then have "jm_model_id (kj_manifest j) = vm_model_id (kv_manifest v)"
    using names_eq_iff(3)[OF assms(1) j(1) v(1)] v(3) by simp
  with j(2) v(2) show ?thesis by simp
qed

section \<open>Settling\<close>














section \<open>Two models with one slug\<close>

text \<open>A concrete cluster and queue, to evaluate the theorems on.\<close>

definition demo_pending :: "ustr \<Rightarrow> ustr \<Rightarrow> pending_model" where
  "demo_pending m n = \<lparr>pm_model_id = m, pm_model_name = n, pm_verification_threshold = Some 1, pm_seed = None,
     pm_temperature = None, pm_top_k = None, pm_top_p = None, pm_pending = 1\<rparr>"

definition demo_orch :: orch_settings where
  "demo_orch = \<lparr>os_ledger_api_url = [], os_runner_image = [], os_vllm_image = [], os_vllm_max_logprobs = 200,
     os_vllm_max_model_len = 8192, os_vllm_gpu_memory_utilization = uni ''0.85'',
     os_vllm_max_num_batched_tokens = 2048, os_node_selector = [], os_placement_overrides = [],
     os_job_backoff_limit = 3, os_keep_failed_jobs = True, os_runner_vllm_ready_timeout_seconds = 3600,
     os_runner_gpus = 1, os_runner_service_account = [], os_model_cache_pvc = None,
     os_runner_model_concurrency = 1\<rparr>"

definition demo_cluster :: "ustr \<Rightarrow> ustr \<Rightarrow> job_state \<Rightarrow> cluster" where
  "demo_cluster m n st =
     \<lparr>cl_jobs = [(job_name n, \<lparr>kj_manifest = build_job demo_orch (demo_pending m n), kj_managed = True, kj_state = st\<rparr>)],
      cl_vllms = [(vllm_name n, \<lparr>kv_manifest = build_llmisvc demo_orch (demo_pending m n), kv_managed = True\<rparr>)]\<rparr>"

lemma demo_tidy: "names_apart (\<lambda>_. [97]) {[49]}" "tidy (\<lambda>_. [97]) {[49]} (demo_cluster [49] [97] st)"
  "queue_tidy (\<lambda>_. [97]) {[49]} [demo_pending [49] [97]]"
  by (simp_all add: names_apart_def tidy_def job_tidy_def vllm_tidy_def queue_tidy_def demo_cluster_def
      demo_pending_def)

lemma demo_view: "view (\<lambda>_. [97]) (demo_cluster [49] [97] st) [49] = (Some st, True, None)"
  by (simp add: view_def demo_cluster_def)

lemma demo_wanted: "wanted [demo_pending [49] [97]] [49]"
  by (simp add: wanted_def pending_by_id_def demo_pending_def eligible_def)

lemma cycle_refines_models_witness:
  "view (\<lambda>_. [97]) (reconcile_once demo_orch (\<lambda>_. True) [demo_pending [49] [97]] (demo_cluster [49] [97] SUCCEEDED)) [49]
     = (None, True, None)"
  using cycle_refines_models[OF demo_tidy, of "[49]" demo_orch SUCCEEDED]
  by (simp add: demo_view demo_wanted model_step_def demo_orch_def)


lemma reconcile_refused: "reconcile_once cfg (\<lambda>_. False) pending cl = cl"
proof -
  have "fold (apply_or_log cfg (\<lambda>_. False)) as cl = cl" for as
    by (induction as) (simp_all add: apply_or_log_def)
  then show ?thesis by (simp add: reconcile_once_def)
qed

lemma runners_meet_their_models_witness:
  "jm_model_id (kj_manifest (snd (hd (cl_jobs (demo_cluster [49] [97] ACTIVE)))))
     = vm_model_id (kv_manifest (snd (hd (cl_vllms (demo_cluster [49] [97] ACTIVE)))))"
  using runners_meet_their_models[OF demo_tidy(1) demo_tidy(2)[of ACTIVE] demo_tidy(3),
      of "job_name [97]" "snd (hd (cl_jobs (demo_cluster [49] [97] ACTIVE)))" demo_orch "\<lambda>_. False" "vllm_name [97]"
        "snd (hd (cl_vllms (demo_cluster [49] [97] ACTIVE)))"]
  by (simp add: reconcile_refused demo_cluster_def vllm_service_url_def demo_pending_def)

lemma startswith_own [simp]: "startswith (job_name n) JOB_PREFIX" "\<not> startswith (job_name n) SEED_PREFIX"
  by (simp_all add: startswith_def job_name_def JOB_PREFIX_def SEED_PREFIX_def uni_def)

lemma sort_two: "(a :: ustr) < b \<Longrightarrow> sort [b, a] = [a, b]"
  by (simp add: insort_key.simps less_le_not_le)

text \<open>C35: A clash of slugs pairs a runner with the wrong model. Take any two models with events pending whose
  names have the same slug, the first before the second in the order of their ids, any configuration without a
  model cache, and a cluster with the first one's pair, its runner Job succeeded. The reconcile cycle deletes
  that Job, fails to create the second model's vLLM, whose name is taken, and creates the second model's
  runner Job: it is told the second model's name and the address of the vLLM that serves the first.\<close>

theorem slug_clash_pairs_wrongly:
  assumes "slug (pm_model_name p1) = slug (pm_model_name p2)" "pm_model_id p1 < pm_model_id p2" "pm_model_id p1 \<noteq> []"
    and "eligible p1" "eligible p2" "os_model_cache_pvc cfg = None"
  shows "let cl = reconcile_once cfg (\<lambda>_. True) [p1, p2]
      \<lparr>cl_jobs = [(job_name (pm_model_name p1), \<lparr>kj_manifest = build_job cfg p1, kj_managed = True, kj_state = SUCCEEDED\<rparr>)],
       cl_vllms = [(vllm_name (pm_model_name p1), \<lparr>kv_manifest = build_llmisvc cfg p1, kv_managed = True\<rparr>)]\<rparr> in
    map (\<lambda>(n, j). (jm_model_id (kj_manifest j), kj_state j, job_env ''RUNNER_MODEL_NAME'' (kj_manifest j),
                   job_env ''RUNNER_VLLM_URL'' (kj_manifest j))) (cl_jobs cl)
      = [(pm_model_id p2, ACTIVE, Some (JStr (pm_model_name p2)), Some (JStr (vllm_service_url (pm_model_name p1))))] \<and>
    map (\<lambda>(n, v). (vm_model_id (kv_manifest v), served_model (kv_manifest v))) (cl_vllms cl) =
      [(pm_model_id p1, JStr (pm_model_name p1))]"
proof -
  let ?n = "pm_model_name p1"
  let ?cl = "\<lparr>cl_jobs = [(job_name ?n, \<lparr>kj_manifest = build_job cfg p1, kj_managed = True, kj_state = SUCCEEDED\<rparr>)],
       cl_vllms = [(vllm_name ?n, \<lparr>kv_manifest = build_llmisvc cfg p1, kv_managed = True\<rparr>)]\<rparr>"
  have names: "job_name (pm_model_name p2) = job_name ?n" "vllm_name (pm_model_name p2) = vllm_name ?n"
    using assms(1) by (simp_all add: job_name_def vllm_name_def)
  have obs: "list_jobs_with_prefix JOB_PREFIX ?cl = [(pm_model_id p1, \<lparr>oj_name = job_name ?n, oj_state = SUCCEEDED\<rparr>)]"
    "list_jobs_with_prefix SEED_PREFIX ?cl = []" "list_managed_llmisvcs ?cl = [(pm_model_id p1, vllm_name ?n)]"
    using assms(3) by (simp_all add: list_jobs_with_prefix_def list_managed_llmisvcs_def)
  have ids: "model_ids [p1, p2] [(pm_model_id p1, j)] [(pm_model_id p1, v)] (Some []) = [pm_model_id p1, pm_model_id p2]" for j v
    using assms(2) sort_two[OF assms(2)] by (simp add: model_ids_def seed_jobs_def)
  have by_id: "pending_by_id [p1, p2] (pm_model_id p1) = Some p1" "pending_by_id [p1, p2] (pm_model_id p2) = Some p2"
    using assms(2) by (auto simp: pending_by_id_def)
  have acts: "observed_actions cfg [p1, p2] ?cl
      = [deletion Delete_job (pm_model_id p1) (job_name ?n), creation Create_vllm (pm_model_id p2) p2,
         creation Create_job (pm_model_id p2) p2]"
    using assms(2,4-6)
    by (simp add: observed_actions_def obs decide_def ids by_id model_actions_def seed_jobs_def
        eligible_actions_def pair_actions_def reconcile_cfg_def Let_def less_imp_neq[OF assms(2)])
  have "reconcile_once cfg (\<lambda>_. True) [p1, p2] ?cl =
      ?cl\<lparr>cl_jobs := [(job_name ?n, \<lparr>kj_manifest = build_job cfg p2, kj_managed = True, kj_state = ACTIVE\<rparr>)]\<rparr>"
    unfolding reconcile_once_def acts
    by (simp add: apply_or_log_def apply_action_def deletion_def creation_def delete_job_def
        create_llmisvc_def create_job_def names)
  then show ?thesis
    by (simp add: Let_def vllm_service_url_def names)
qed

theorem slug_clash_pairs_wrongly_witness:
  "let p1 = demo_pending [49] [97, 47, 66]; p2 = demo_pending [50] [97, 45, 98];
       cl = reconcile_once demo_orch (\<lambda>_. True) [p1, p2]
      \<lparr>cl_jobs = [(job_name (pm_model_name p1), \<lparr>kj_manifest = build_job demo_orch p1, kj_managed = True, kj_state = SUCCEEDED\<rparr>)],
       cl_vllms = [(vllm_name (pm_model_name p1), \<lparr>kv_manifest = build_llmisvc demo_orch p1, kv_managed = True\<rparr>)]\<rparr> in
    pm_model_name p1 \<noteq> pm_model_name p2 \<and>
    map (\<lambda>(n, j). (jm_model_id (kj_manifest j), kj_state j, job_env ''RUNNER_MODEL_NAME'' (kj_manifest j),
                   job_env ''RUNNER_VLLM_URL'' (kj_manifest j))) (cl_jobs cl)
      = [(pm_model_id p2, ACTIVE, Some (JStr (pm_model_name p2)), Some (JStr (vllm_service_url (pm_model_name p1))))]"
proof -
  let ?p1 = "demo_pending [49] [97, 47, 66]" and ?p2 = "demo_pending [50] [97, 45, 98]"
  have names: "pm_model_name (demo_pending m n) = n" "pm_model_id (demo_pending m n) = m" "eligible (demo_pending m n)" for m n
    by (simp_all add: demo_pending_def eligible_def)
  have a: "slug (pm_model_name ?p1) = slug (pm_model_name ?p2)"
    by (simp add: names slug_def strip_dash_def rstrip_dash_def lower_code_def slug_code_def MAX_SLUG_def)
  have b: "pm_model_id ?p1 < pm_model_id ?p2" "pm_model_id ?p1 \<noteq> []" by (simp_all add: names)
  have c: "os_model_cache_pvc demo_orch = None" by (simp add: demo_orch_def)
  have d: "pm_model_name ?p1 \<noteq> pm_model_name ?p2" by (simp add: names)
  show ?thesis
    unfolding Let_def
    by (rule conjI[OF d slug_clash_pairs_wrongly[OF a b names(3) names(3) c, unfolded Let_def, THEN conjunct1]])
qed

end
