(* ===== verification/Sse.thy ===== *)
theory Sse
  imports Http Json
begin

text \<open>
  The other half of \<^verbatim>\<open>frame-processor/app/http_stream.py\<close>: the JSON body of a message, the events of a
  streamed body, and the fold of the streaming chunks into one response-shaped object.

  \<open>json.loads\<close> of bytes is an argument (\<open>None\<close> where it raises).
\<close>

section \<open>Bodies\<close>

definition message_json :: "json_reader \<Rightarrow> http_message \<Rightarrow> (ustr \<times> json) list option" where
  "message_json loads m = (case loads (hm_body m) of Some (JDict d) \<Rightarrow> Some d | _ \<Rightarrow> None)"

section \<open>Events of a stream\<close>

text \<open>\<open>replace(b"\r\n", b"\n")\<close>\<close>

fun crlf_to_lf :: "bytes \<Rightarrow> bytes" where
  "crlf_to_lf (a # b # s) = (if a = 13 \<and> b = 10 then 10 # crlf_to_lf s else a # crlf_to_lf (b # s))"
| "crlf_to_lf s = s"

text \<open>\<open>split(b"\n\n")\<close>\<close>

definition push_front :: "'a \<Rightarrow> 'a list list \<Rightarrow> 'a list list" where
  "push_front x ws = (case ws of [] \<Rightarrow> [[x]] | w # rest \<Rightarrow> (x # w) # rest)"

fun split_blocks :: "bytes \<Rightarrow> bytes list" where
  "split_blocks (x # y # s) =
     (if x = 10 \<and> y = 10 then [] # split_blocks s else push_front x (split_blocks (y # s)))"
| "split_blocks s = [s]"

text \<open>\<open>bytes.strip()\<close>\<close>

definition byte_space :: "byte \<Rightarrow> bool" where
  "byte_space b \<longleftrightarrow> b \<in> {32, 9, 10, 11, 12, 13}"

definition strip_bytes :: "bytes \<Rightarrow> bytes" where
  "strip_bytes d = rev (dropWhile byte_space (rev (dropWhile byte_space d)))"

definition DATA_FIELD :: bytes where "DATA_FIELD = [100, 97, 116, 97, 58]"  \<comment> \<open>\<open>data:\<close>\<close>
definition DONE_MARK :: bytes where "DONE_MARK = [91, 68, 79, 78, 69, 93]"  \<comment> \<open>\<open>[DONE]\<close>\<close>

definition data_lines :: "bytes \<Rightarrow> bytes list" where
  "data_lines block =
     map (\<lambda>line. strip_bytes (drop 5 line))
       (filter (\<lambda>line. take 5 line = DATA_FIELD) (split_on 10 block))"

text \<open>\<open>sep.join(parts)\<close>\<close>

fun join_with :: "'a list \<Rightarrow> 'a list list \<Rightarrow> 'a list" where
  "join_with sep [] = []"
| "join_with sep [x] = x"
| "join_with sep (x # y # xs) = x @ sep @ join_with sep (y # xs)"

text \<open>The event of one block, if it has one.\<close>

definition block_event :: "json_reader \<Rightarrow> bytes \<Rightarrow> (ustr \<times> json) list option" where
  "block_event loads block =
     (let ls = data_lines block; payload = join_with [10] ls in
      if ls = [] then None
      else if payload = DONE_MARK then None
      else case loads payload of Some (JDict d) \<Rightarrow> Some d | _ \<Rightarrow> None)"

definition parse_sse_events :: "json_reader \<Rightarrow> bytes \<Rightarrow> (ustr \<times> json) list list" where
  "parse_sse_events loads body = List.map_filter (block_event loads) (split_blocks (crlf_to_lf body))"

section \<open>Folding the chunks\<close>

datatype object_kind = Chat | Text

record merge_state =
  ms_merged :: "(ustr \<times> json) list"
  ms_text :: ustr
  ms_ids :: "json list"
  ms_logprobs :: "json list"
  ms_finish :: json

definition merge_start :: merge_state where
  "merge_start = \<lparr>ms_merged = [], ms_text = [], ms_ids = [], ms_logprobs = [], ms_finish = JNull\<rparr>"

definition list_of :: "json \<Rightarrow> json list option" where
  "list_of j = (case j of JList xs \<Rightarrow> Some xs | _ \<Rightarrow> None)"

text \<open>\<open>v[key]\<close> of a value that may be no object: nothing there.\<close>

definition jget :: "json \<Rightarrow> string \<Rightarrow> json" where
  "jget v k = (case v of JDict d \<Rightarrow> dget d k | _ \<Rightarrow> JNull)"

definition keep_last :: "(json \<Rightarrow> bool) \<Rightarrow> (ustr \<times> json) list \<Rightarrow> string \<Rightarrow> (ustr \<times> json) list
    \<Rightarrow> (ustr \<times> json) list" where
  "keep_last wanted event k merged =
     (if wanted (dget event k) then dset (uni k) (dget event k) merged else merged)"

definition merge_scalars :: "(ustr \<times> json) list \<Rightarrow> (ustr \<times> json) list \<Rightarrow> (ustr \<times> json) list" where
  "merge_scalars event merged =
     fold (keep_last is_list event) [''prompt_token_ids'', ''input_token_ids'']
       (fold (keep_last (\<lambda>v. v \<noteq> JNull) event) [''id'', ''model'', ''usage''] merged)"

definition chunk_delta :: "(ustr \<times> json) list \<Rightarrow> json" where
  "chunk_delta choice = jor (dget choice ''delta'') (jor (dget choice ''message'') (JDict []))"

definition chunk_text :: "object_kind \<Rightarrow> (ustr \<times> json) list \<Rightarrow> ustr" where
  "chunk_text kind choice =
     (case (case kind of Text \<Rightarrow> dget choice ''text'' | Chat \<Rightarrow> jget (chunk_delta choice) ''content'') of
        JStr s \<Rightarrow> s | _ \<Rightarrow> [])"

definition chunk_ids :: "(ustr \<times> json) list \<Rightarrow> string \<Rightarrow> json list" where
  "chunk_ids choice k =
     (case list_of (dget choice k) of
        Some xs \<Rightarrow> xs
      | None \<Rightarrow> (case list_of (jget (chunk_delta choice) k) of Some xs \<Rightarrow> xs | None \<Rightarrow> []))"

definition chunk_logprobs :: "(ustr \<times> json) list \<Rightarrow> json list" where
  "chunk_logprobs choice =
     (let lp = dget choice ''logprobs'' in
      case list_of (jget lp ''content'') of
        Some xs \<Rightarrow> xs
      | None \<Rightarrow> if truthy lp then [lp] else [])"

definition merge_choice :: "object_kind \<Rightarrow> (ustr \<times> json) list \<Rightarrow> merge_state \<Rightarrow> merge_state" where
  "merge_choice kind choice st =
     st\<lparr>ms_text := ms_text st @ chunk_text kind choice,
        ms_finish := (if truthy (dget choice ''finish_reason'') then dget choice ''finish_reason''
                      else ms_finish st),
        ms_ids := ms_ids st @ chunk_ids choice ''token_ids'' @ chunk_ids choice ''output_token_ids'',
        ms_logprobs := ms_logprobs st @ chunk_logprobs choice\<rparr>"

definition merge_event :: "object_kind \<Rightarrow> (ustr \<times> json) list \<Rightarrow> merge_state \<Rightarrow> merge_state" where
  "merge_event kind event st =
     (let st1 = st\<lparr>ms_merged := merge_scalars event (ms_merged st)\<rparr> in
      case dget event ''choices'' of
        JList (JDict choice # _) \<Rightarrow> merge_choice kind choice st1
      | _ \<Rightarrow> st1)"

definition merged_text :: "merge_state \<Rightarrow> json" where
  "merged_text st = (if ms_text st = [] then JNull else JStr (ms_text st))"

definition merged_choice :: "object_kind \<Rightarrow> merge_state \<Rightarrow> (ustr \<times> json) list" where
  "merged_choice kind st =
     [(uni ''finish_reason'', ms_finish st),
      (case kind of
         Text \<Rightarrow> (uni ''text'', merged_text st)
       | Chat \<Rightarrow> (uni ''message'', JDict [(uni ''role'', JStr (uni ''assistant'')),
                                       (uni ''content'', merged_text st)]))]
     @ (if ms_ids st = [] then [] else [(uni ''token_ids'', JList (ms_ids st))])
     @ (if ms_logprobs st = [] then []
        else [(uni ''logprobs'', case kind of
                 Text \<Rightarrow> JList (ms_logprobs st)
               | Chat \<Rightarrow> JDict [(uni ''content'', JList (ms_logprobs st))])])"

definition merge_stream_events ::
  "object_kind \<Rightarrow> (ustr \<times> json) list list \<Rightarrow> (ustr \<times> json) list" where
  "merge_stream_events kind events =
     (let st = fold (merge_event kind) events merge_start in
      dset (uni ''choices'') (JList [JDict (merged_choice kind st)]) (ms_merged st))"

end
