(* ===== verification/Extract.thy ===== *)
theory Extract
  imports Sse
begin

text \<open>
  The extractors both taps share (\<^verbatim>\<open>inf-proxy/app/capture.py\<close>), those of the frame processor alone
  (\<^verbatim>\<open>frame-processor/app/extract.py\<close>), and the check for constrained decoding, of which
  \<^verbatim>\<open>inf-proxy/app/payload.py\<close> has a verbatim copy.

  \<open>str(v)\<close> of a float, a list or an object is the argument \<open>repr\<close>.
\<close>

section \<open>Token ids\<close>

definition TOKEN_ID_KEYS :: "ustr set" where
  "TOKEN_ID_KEYS = set (map uni
     [''prompt_token_ids'', ''input_token_ids'', ''output_token_ids'', ''completion_token_ids'',
      ''generated_token_ids'', ''token_ids''])"

definition int_list :: "json \<Rightarrow> json list option" where
  "int_list v = (case v of JList xs \<Rightarrow> if list_all is_int xs then Some xs else None | _ \<Rightarrow> None)"

fun first_int_list :: "json list \<Rightarrow> json list option" where
  "first_int_list [] = None"
| "first_int_list (v # vs) = (case int_list v of Some xs \<Rightarrow> Some xs | None \<Rightarrow> first_int_list vs)"

text \<open>The ids among an object's own fields: under a preferred key, or under any key ids go by.\<close>

definition own_ids :: "string list \<Rightarrow> (ustr \<times> json) list \<Rightarrow> json list option" where
  "own_ids ks d =
     (case first_int_list (map (dget d) ks) of
        Some xs \<Rightarrow> Some xs
      | None \<Rightarrow> first_int_list (map snd (filter (\<lambda>kv. fst kv \<in> TOKEN_ID_KEYS) d)))"

text \<open>\<open>if found: return found\<close>: a list that is there and not empty.\<close>

definition or_else :: "json list option \<Rightarrow> json list option \<Rightarrow> json list option" where
  "or_else found rest = (case found of Some (x # xs) \<Rightarrow> found | _ \<Rightarrow> rest)"

fun find_token_ids :: "string list \<Rightarrow> json \<Rightarrow> json list option"
  and find_in_items :: "string list \<Rightarrow> json list \<Rightarrow> json list option"
  and find_in_values :: "string list \<Rightarrow> (ustr \<times> json) list \<Rightarrow> json list option"
where
  "find_token_ids ks (JDict d) =
     (case own_ids ks d of Some xs \<Rightarrow> Some xs | None \<Rightarrow> find_in_values ks d)"
| "find_token_ids ks (JList xs) = find_in_items ks xs"
| "find_token_ids ks _ = None"
| "find_in_items ks [] = None"
| "find_in_items ks (v # vs) = or_else (find_token_ids ks v) (find_in_items ks vs)"
| "find_in_values ks [] = None"
| "find_in_values ks ((k, v) # d) = or_else (find_token_ids ks v) (find_in_values ks d)"

definition PROMPT_KEYS :: "string list" where
  "PROMPT_KEYS = [''prompt_token_ids'', ''input_token_ids'']"

definition OUTPUT_KEYS :: "string list" where
  "OUTPUT_KEYS = [''output_token_ids'', ''completion_token_ids'', ''generated_token_ids'']"

text \<open>The output ids: those of the first choice, or of the whole response.\<close>

definition first_choice_ids :: "json \<Rightarrow> json list option" where
  "first_choice_ids response =
     (case jget response ''choices'' of
        JList (c # _) \<Rightarrow> find_token_ids (OUTPUT_KEYS @ [''token_ids'']) c
      | _ \<Rightarrow> None)"

definition extract_prompt_output_token_ids ::
  "(ustr \<times> json) list \<Rightarrow> json list option \<times> json list option" where
  "extract_prompt_output_token_ids completed_event =
     (let response = (case map_of completed_event (uni ''response'') of
                        Some v \<Rightarrow> v | None \<Rightarrow> JDict completed_event) in
      (find_token_ids PROMPT_KEYS response,
       case first_choice_ids response of
         Some xs \<Rightarrow> Some xs
       | None \<Rightarrow> find_token_ids OUTPUT_KEYS response))"

text \<open>The ids a client submitted as its prompt.\<close>

definition nonempty_ids :: "json \<Rightarrow> json list option" where
  "nonempty_ids v = or_else (int_list v) None"

definition extract_request_prompt_token_ids :: "(ustr \<times> json) list \<Rightarrow> json list option" where
  "extract_request_prompt_token_ids payload =
     (case nonempty_ids (dget payload ''prompt_token_ids'') of
        Some ids \<Rightarrow> Some ids
      | None \<Rightarrow>
          (case nonempty_ids (dget payload ''prompt'') of
             Some ids \<Rightarrow> Some ids
           | None \<Rightarrow> (case dget payload ''prompt'' of
                        JList (first # _) \<Rightarrow> nonempty_ids first
                      | _ \<Rightarrow> None)))"

section \<open>Sampling and constraints\<close>

definition sampling_fields :: "(ustr \<times> json) list \<Rightarrow> (ustr \<times> json) list" where
  "sampling_fields payload =
     [(uni ''seed'', dget payload ''seed''),
      (uni ''temperature'', dget payload ''temperature''),
      (uni ''top_k'', dget payload ''top_k''),
      (uni ''top_p'', dget payload ''top_p''),
      (uni ''max_output_tokens'', jor (dget payload ''max_output_tokens'') (dget payload ''max_tokens''))]"

definition unconstrained_format :: "json \<Rightarrow> bool" where
  "unconstrained_format t \<longleftrightarrow> t = JNull \<or> t = JStr (uni ''text'')"

definition detect_constrained_decoding :: "(ustr \<times> json) list \<Rightarrow> bool" where
  "detect_constrained_decoding payload =
     (let tool_choice = dget payload ''tool_choice''; fmt = dget payload ''response_format'' in
      if is_dict tool_choice \<or> tool_choice = JStr (uni ''required'') then True
      else if is_dict fmt \<and> \<not> unconstrained_format (jget fmt ''type'') then True
      else False)"

section \<open>The prompt's text\<close>

text \<open>\<open>str.strip()\<close>: white space as Unicode has it.\<close>

definition uspace :: "nat \<Rightarrow> bool" where
  "uspace c \<longleftrightarrow> 9 \<le> c \<and> c \<le> 13 \<or> 28 \<le> c \<and> c \<le> 32 \<or> c \<in> {133, 160, 5760} \<or> 8192 \<le> c \<and> c \<le> 8202
     \<or> c \<in> {8232, 8233, 8239, 8287, 12288}"

definition ustrip :: "ustr \<Rightarrow> ustr" where
  "ustrip s = rev (dropWhile uspace (rev (dropWhile uspace s)))"

fun str_of :: "(json \<Rightarrow> ustr) \<Rightarrow> json \<Rightarrow> ustr" where
  "str_of repr JNull = uni ''None''"
| "str_of repr (JBool b) = uni (if b then ''True'' else ''False'')"
| "str_of repr (JInt i) = render_int i"
| "str_of repr (JStr s) = s"
| "str_of repr v = repr v"

definition content_part :: "(json \<Rightarrow> ustr) \<Rightarrow> json \<Rightarrow> ustr" where
  "content_part repr item =
     (case item of
        JStr s \<Rightarrow> s
      | JDict d \<Rightarrow>
          (case dget d ''text'' of
             JStr s \<Rightarrow> s
           | _ \<Rightarrow> if dget d ''type'' \<notin> {JNull, JStr (uni ''text''), JStr (uni ''input_text''),
                                        JStr (uni ''output_text'')}
                  then 91 # str_of repr (dget d ''type'') @ [93]
                  else [])
      | _ \<Rightarrow> [])"

definition content_text :: "(json \<Rightarrow> ustr) \<Rightarrow> json \<Rightarrow> ustr" where
  "content_text repr content =
     (case content of
        JStr s \<Rightarrow> s
      | JList items \<Rightarrow> join_with [10] (filter (\<lambda>p. p \<noteq> []) (map (content_part repr) items))
      | _ \<Rightarrow> [])"

text \<open>The section a turn adds, if it adds one.\<close>

definition turn_section :: "(json \<Rightarrow> ustr) \<Rightarrow> json \<Rightarrow> ustr option" where
  "turn_section repr turn =
     (case turn of
        JStr s \<Rightarrow> Some s
      | JDict d \<Rightarrow>
          if truthy (dget d ''type'') \<and> dget d ''type'' \<noteq> JStr (uni ''message'') then None
          else (let text = content_text repr (dget d ''content'');
                    role = (case map_of d (uni ''role'') of Some r \<Rightarrow> r | None \<Rightarrow> JStr (uni ''user'')) in
                if text = [] then None else Some (str_of repr role @ uni '': '' @ text))
      | _ \<Rightarrow> None)"

definition prompt_turns :: "(ustr \<times> json) list \<Rightarrow> json" where
  "prompt_turns payload =
     (let messages = dget payload ''messages'';
          turns = (if is_list messages then messages else dget payload ''input'') in
      if \<not> is_list turns \<and> is_str (dget payload ''prompt'') then dget payload ''prompt'' else turns)"

definition extract_prompt_text :: "(json \<Rightarrow> ustr) \<Rightarrow> (ustr \<times> json) list \<Rightarrow> ustr option" where
  "extract_prompt_text repr payload =
     (let instructions = (case dget payload ''instructions'' of
                            JStr s \<Rightarrow> if ustrip s \<noteq> [] then [uni ''system: '' @ ustrip s] else []
                          | _ \<Rightarrow> []);
          turns = (case prompt_turns payload of
                     JStr s \<Rightarrow> [s]
                   | JList ts \<Rightarrow> List.map_filter (turn_section repr) ts
                   | _ \<Rightarrow> []);
          rendered = ustrip (join_with [10, 10] (instructions @ turns)) in
      if rendered = [] then None else Some rendered)"

end
