(* ===== verification/Traffic.thy ===== *)
theory Traffic
  imports Extract
begin

text \<open>
  \<^verbatim>\<open>frame-processor/app/filter.py\<close>: which exchanges are inference, and which should not be on the link.
  The configuration's lists, and \<open>json.loads\<close>, are fields of the record \<open>tap_cfg\<close>, with the rest of what
  the entry point and the emitter read from the configuration.
\<close>

section \<open>Configuration\<close>

text \<open>
  \<open>cf_iso\<close> is \<open>datetime.fromtimestamp(ts, tz=utc).isoformat()\<close>, \<open>cf_repr\<close> the \<open>str\<close> of a float, a list or
  an object, \<open>cf_lower\<close> is \<open>str.lower\<close> of a text beyond ASCII.
\<close>

record tap_cfg =
  cf_exclude_prefixes :: "string list"
  cf_allowed_endpoints :: "string list"
  cf_hostname_map :: "(ustr \<times> ustr) list"
  cf_version :: ustr
  cf_idle_timeout :: real
  cf_idle_sweep_interval :: real
  cf_max_stranded :: int
  cf_loads :: json_reader
  cf_iso :: "real \<Rightarrow> ustr"
  cf_repr :: "json \<Rightarrow> ustr"
  cf_lower :: "ustr \<Rightarrow> ustr"

section \<open>Hosts and paths\<close>

definition LLM_ENDPOINTS :: "string list" where
  "LLM_ENDPOINTS = [''/v1/chat/completions'', ''/v1/completions'']"

text \<open>A header is Latin-1: its white space has two characters beyond ASCII.\<close>

definition latin1_space :: "char \<Rightarrow> bool" where
  "latin1_space c \<longleftrightarrow> is_space c \<or> c = CHR 0x85 \<or> c = CHR 0xA0"

definition strip_chars :: "(char \<Rightarrow> bool) \<Rightarrow> string \<Rightarrow> string" where
  "strip_chars p s = rev (dropWhile p (rev (dropWhile p s)))"

text \<open>\<open>s.rsplit(":", 1)[0]\<close>\<close>

definition before_last :: "char \<Rightarrow> string \<Rightarrow> string" where
  "before_last c s =
     (if c \<in> set s then rev (tl (dropWhile (\<lambda>x. x \<noteq> c) (rev s))) else s)"

definition host_name :: "string \<Rightarrow> string" where
  "host_name h =
     strip_chars (\<lambda>c. c = CHR ''['' \<or> c = CHR '']'')
       (before_last CHR '':'' (map lower_latin1_char (strip_chars latin1_space h)))"

definition starts_with :: "'a list \<Rightarrow> 'a list \<Rightarrow> bool" where
  "starts_with s p \<longleftrightarrow> take (length p) s = p"

definition is_verifier_traffic :: "tap_cfg \<Rightarrow> string option \<Rightarrow> bool" where
  "is_verifier_traffic cf request_host =
     (case request_host of
        None \<Rightarrow> False
      | Some h \<Rightarrow> h \<noteq> [] \<and> cf_exclude_prefixes cf \<noteq> [] \<and>
          list_ex (starts_with (host_name h)) (cf_exclude_prefixes cf))"

text \<open>\<open>(path or "").split("?", 1)[0].rstrip("/")\<close>\<close>

definition bare_path :: "string option \<Rightarrow> string" where
  "bare_path p =
     (let s = takeWhile (\<lambda>c. c \<noteq> CHR ''?'') (case p of None \<Rightarrow> [] | Some s \<Rightarrow> s) in
      rev (dropWhile (\<lambda>c. c = CHR ''/'') (rev s)))"

section \<open>Classification\<close>

record llm_classification =
  lc_endpoint :: string
  lc_model_name :: ustr
  lc_request_body :: "(ustr \<times> json) list"

definition header :: "http_message \<Rightarrow> string \<Rightarrow> string option" where
  "header m k = map_of (hm_headers m) k"

definition classify_exchange :: "tap_cfg \<Rightarrow> exchange \<Rightarrow> llm_classification option" where
  "classify_exchange cf x =
     (let request = ex_request x in
      if hm_method request \<noteq> Some ''POST'' \<or> hm_path request = None \<or> hm_path request = Some [] then None
      else if is_verifier_traffic cf (header request ''host'') then None
      else do {
        endpoint \<leftarrow> find (ends_with (bare_path (hm_path request))) LLM_ENDPOINTS;
        body \<leftarrow> message_json (cf_loads cf) request;
        (case dget body ''model'' of
           JStr name \<Rightarrow>
             if name = [] then None
             else Some \<lparr>lc_endpoint = endpoint, lc_model_name = name, lc_request_body = body\<rparr>
         | _ \<Rightarrow> None) })"

definition unexpected_reason :: "tap_cfg \<Rightarrow> exchange \<Rightarrow> string option" where
  "unexpected_reason cf x =
     (let request = ex_request x; path = bare_path (hm_path request);
          verb = (case hm_method request of Some (c # cs) \<Rightarrow> c # cs | _ \<Rightarrow> ''?'') in
      if classify_exchange cf x \<noteq> None then None
      else if is_verifier_traffic cf (header request ''host'') then None
      else if path \<noteq> [] \<and> list_ex (ends_with path) (cf_allowed_endpoints cf) then None
      else if path = [] then Some ''exchange with no request path''
      else if list_ex (ends_with path) LLM_ENDPOINTS
      then Some (verb @ '' '' @ path @ '' matched an inference endpoint but carried no model'')
      else Some (verb @ '' '' @ path @ '' is not inference and not an allowed endpoint''))"

end
