(* ===== verification/Emitter.thy ===== *)
theory Emitter
  imports Traffic Writer
begin

text \<open>
  The tap message (\<^verbatim>\<open>frame-processor/app/emitter.py\<close>, \<open>build_tap_message\<close>), and what the message writer's
  schema (\<^verbatim>\<open>message-writer/app/schemas.py\<close>) makes of it.

  Reading an attribute of a value that has none raises: \<open>None\<close> is a build that raises.
\<close>

section \<open>The message\<close>

record tap_dict =
  td_source :: ustr
  td_version :: ustr
  td_hostname :: ustr
  td_upstream_base_url :: "ustr option"
  td_observed_on :: "string option"
  td_endpoint :: string
  td_streamed :: bool
  td_received_at :: "ustr option"
  td_completed_at :: "ustr option"
  td_pod_name :: "ustr option"
  td_node_name :: "ustr option"
  td_session_id :: json
  td_user_id :: json
  td_chat_id :: json
  td_message_id :: json
  td_response_id :: json
  td_model_name :: json
  td_sampling :: "(ustr \<times> json) list"
  td_flags_added :: "bool \<times> bool \<times> int option"
  td_prompt_text :: "ustr option"
  td_prompt_token_ids :: "json list option"
  td_output_text :: "ustr option"
  td_output_token_ids :: "json list option"
  td_output_logprobs :: json
  td_finish_reason :: json
  td_tool_calls :: bool
  td_usage_completion_tokens :: json
  td_constrained_decoding :: bool

section \<open>Building it\<close>

text \<open>\<open>name.rsplit("/", 1)[-1]\<close>\<close>

definition after_last :: "'a \<Rightarrow> 'a list \<Rightarrow> 'a list" where
  "after_last c s = rev (takeWhile (\<lambda>x. x \<noteq> c) (rev s))"

definition lower_text :: "tap_cfg \<Rightarrow> ustr \<Rightarrow> ustr" where
  "lower_text cf s =
     (if \<forall>c \<in> set s. c < 128 then map (\<lambda>c. if 65 \<le> c \<and> c \<le> 90 then c + 32 else c) s else cf_lower cf s)"

definition resolve_hostname :: "tap_cfg \<Rightarrow> ustr \<Rightarrow> ustr" where
  "resolve_hostname cf name =
     (case map_of (cf_hostname_map cf) name of
        Some h \<Rightarrow> h
      | None \<Rightarrow> uni ''kserve-'' @ lower_text cf (after_last 47 name))"

definition object_kind_of :: "string \<Rightarrow> object_kind" where
  "object_kind_of endpoint = (if endpoint = ''/v1/completions'' then Text else Chat)"

text \<open>\<open>(v or {}).get(k)\<close>, which raises on anything truthy but an object.\<close>

definition dict_or_empty :: "json \<Rightarrow> (ustr \<times> json) list option" where
  "dict_or_empty v = (if truthy v then (case v of JDict d \<Rightarrow> Some d | _ \<Rightarrow> None) else Some [])"

definition text_of :: "json \<Rightarrow> ustr option" where
  "text_of v = (case v of JStr s \<Rightarrow> Some s | _ \<Rightarrow> None)"

definition output_text :: "(ustr \<times> json) list \<Rightarrow> object_kind \<Rightarrow> ustr option option" where
  "output_text choice kind =
     (case kind of
        Text \<Rightarrow> Some (text_of (dget choice ''text''))
      | Chat \<Rightarrow> do { message \<leftarrow> dict_or_empty (dget choice ''message'');
                   Some (text_of (dget message ''content'')) })"

definition output_logprobs :: "(ustr \<times> json) list \<Rightarrow> json" where
  "output_logprobs choice =
     (let lp = dget choice ''logprobs'' in
      if is_list (jget lp ''content'') then jget lp ''content'' else jor lp JNull)"

text \<open>\<open>choices[0]\<close> of what the body has under \<open>choices\<close>, as an object; of a text it is a character.\<close>

definition first_choice :: "(ustr \<times> json) list \<Rightarrow> (ustr \<times> json) list option" where
  "first_choice body =
     (case jor (dget body ''choices'') (JList [JDict []]) of
        JList (JDict c # _) \<Rightarrow> Some c
      | JList _ \<Rightarrow> Some []
      | JStr _ \<Rightarrow> Some []
      | _ \<Rightarrow> None)"

definition response_object :: "json_reader \<Rightarrow> object_kind \<Rightarrow> http_message option \<Rightarrow> (ustr \<times> json) list" where
  "response_object loads kind response =
     (case response of
        None \<Rightarrow> []
      | Some m \<Rightarrow>
          if is_sse m then merge_stream_events kind (parse_sse_events loads (hm_body m))
          else (case message_json loads m of None \<Rightarrow> [] | Some d \<Rightarrow> d))"

definition prompt_ids_of :: "(ustr \<times> json) list \<Rightarrow> (ustr \<times> json) list \<Rightarrow> json list option" where
  "prompt_ids_of response_body request_body =
     (case fst (extract_prompt_output_token_ids [(uni ''response'', JDict response_body)]) of
        Some ids \<Rightarrow> Some ids
      | None \<Rightarrow> extract_request_prompt_token_ids request_body)"

definition header_json :: "http_message \<Rightarrow> string \<Rightarrow> json" where
  "header_json m k = (case header m k of None \<Rightarrow> JNull | Some v \<Rightarrow> JStr (uni v))"

definition build_tap_message ::
  "tap_cfg \<Rightarrow> exchange \<Rightarrow> llm_classification \<Rightarrow> real option \<Rightarrow> real option \<Rightarrow> string option
    \<Rightarrow> tap_dict option" where
  "build_tap_message cf x cl received_at completed_at observed_on =
     (let request_body = lc_request_body cl;
          kind = object_kind_of (lc_endpoint cl);
          streamed = (case ex_response x of None \<Rightarrow> False | Some m \<Rightarrow> is_sse m);
          body = response_object (cf_loads cf) kind (ex_response x);
          request = ex_request x in do {
        choice \<leftarrow> first_choice body;
        message \<leftarrow> dict_or_empty (dget choice ''message'');
        usage \<leftarrow> dict_or_empty (dget body ''usage'');
        out_text \<leftarrow> output_text choice kind;
        Some \<lparr>td_source = uni ''frame-processor'',
              td_version = cf_version cf,
              td_hostname = resolve_hostname cf (lc_model_name cl),
              td_upstream_base_url = None,
              td_observed_on = observed_on,
              td_endpoint = lc_endpoint cl,
              td_streamed = streamed,
              td_received_at = map_option (cf_iso cf) received_at,
              td_completed_at = map_option (cf_iso cf) completed_at,
              td_pod_name = None,
              td_node_name = None,
              td_session_id = jor (header_json request ''x-openwebui-chat-id'') (dget body ''id''),
              td_user_id = header_json request ''x-openwebui-user-id'',
              td_chat_id = header_json request ''x-openwebui-chat-id'',
              td_message_id = header_json request ''x-openwebui-message-id'',
              td_response_id = dget body ''id'',
              td_model_name = jor (dget body ''model'') (JStr (lc_model_name cl)),
              td_sampling = sampling_fields request_body,
              td_flags_added = (False, False, None),
              td_prompt_text = extract_prompt_text (cf_repr cf) request_body,
              td_prompt_token_ids = prompt_ids_of body request_body,
              td_output_text = out_text,
              td_output_token_ids = snd (extract_prompt_output_token_ids [(uni ''response'', JDict body)]),
              td_output_logprobs = output_logprobs choice,
              td_finish_reason = dget choice ''finish_reason'',
              td_tool_calls = truthy (dget message ''tool_calls''),
              td_usage_completion_tokens = dget usage ''completion_tokens'',
              td_constrained_decoding = detect_constrained_decoding request_body\<rparr> })"

section \<open>The writer's schema\<close>

text \<open>
  A field of text or nothing, and of a number or nothing. Where the schema's library converts another
  value to a number (a text of digits, a float without fraction) is its affair: the argument \<open>lax\<close>.
\<close>

definition opt_text :: "json \<Rightarrow> ustr option option" where
  "opt_text v = (case v of JNull \<Rightarrow> Some None | JStr s \<Rightarrow> Some (Some s) | _ \<Rightarrow> None)"

definition lax_int :: "(json \<Rightarrow> int option) \<Rightarrow> json \<Rightarrow> int option" where
  "lax_int lax v =
     (case v of JInt i \<Rightarrow> Some i | JBool b \<Rightarrow> Some (of_bool b) | JFloat _ \<Rightarrow> lax v | JStr _ \<Rightarrow> lax v | _ \<Rightarrow> None)"

definition opt_int :: "(json \<Rightarrow> int option) \<Rightarrow> json \<Rightarrow> int option option" where
  "opt_int lax v = (if v = JNull then Some None else map_option Some (lax_int lax v))"

definition opt_ids :: "(json \<Rightarrow> int option) \<Rightarrow> json list option \<Rightarrow> int list option option" where
  "opt_ids lax v =
     (case v of None \<Rightarrow> Some None | Some xs \<Rightarrow> map_option Some (those (map (lax_int lax) xs)))"

definition accept_message :: "(json \<Rightarrow> int option) \<Rightarrow> tap_dict \<Rightarrow> tap_message option" where
  "accept_message lax td = do {
     session_id \<leftarrow> opt_text (td_session_id td);
     user_id \<leftarrow> opt_text (td_user_id td);
     chat_id \<leftarrow> opt_text (td_chat_id td);
     message_id \<leftarrow> opt_text (td_message_id td);
     response_id \<leftarrow> opt_text (td_response_id td);
     model_name \<leftarrow> opt_text (td_model_name td);
     finish_reason \<leftarrow> opt_text (td_finish_reason td);
     prompt_ids \<leftarrow> opt_ids lax (td_prompt_token_ids td);
     output_ids \<leftarrow> opt_ids lax (td_output_token_ids td);
     usage \<leftarrow> opt_int lax (td_usage_completion_tokens td);
     Some \<lparr>tm_hostname = Some (td_hostname td),
           tm_received_at = td_received_at td,
           tm_completed_at = td_completed_at td,
           tm_pod_name = td_pod_name td,
           tm_node_name = td_node_name td,
           tm_session_id = session_id,
           tm_response_id = response_id,
           tm_model_name = model_name,
           tm_prompt_text = td_prompt_text td,
           tm_prompt_token_ids = prompt_ids,
           tm_output_text = td_output_text td,
           tm_output_token_ids = output_ids,
           tm_output_logprobs = td_output_logprobs td,
           tm_usage_completion_tokens = usage,
           tm_constrained_decoding = Some (td_constrained_decoding td)\<rparr> }"

end
