(* ===== verification/Tap.thy ===== *)
theory Tap
  imports Emitter Reassembly Capture Windows
begin

text \<open>
  \<^verbatim>\<open>frame-processor/app/main.py\<close>: \<open>SegmentProcessor\<close>, from TCP segments to tap messages and findings, and
  the flow worker of \<^verbatim>\<open>live_pipeline.py\<close> that drives one.

  What is written out comes as a list; the state is \<open>None\<close> once an exception has ended the run (what
  was written before it stays written). The parser the code hangs on a connection object is kept in a
  dictionary beside the table, under the connection's key.
\<close>

section \<open>Outcomes\<close>

datatype tap_out = Tapped tap_dict | Found exchange_finding

type_synonym 's run = "tap_out list \<times> 's option"

definition give :: "'s \<Rightarrow> 's run" where "give s = ([], Some s)"

definition andthen :: "'s run \<Rightarrow> ('s \<Rightarrow> 't run) \<Rightarrow> 't run" where
  "andthen m f =
     (case snd m of None \<Rightarrow> (fst m, None) | Some s \<Rightarrow> (fst m @ fst (f s), snd (f s)))"

section \<open>Messages and findings of exchanges\<close>

definition address_text :: "endpoint \<Rightarrow> string" where
  "address_text e = ep_host e @ '':'' @ show_nat (ep_port e)"

definition report_exchange_finding :: "string \<Rightarrow> string \<Rightarrow> real option \<Rightarrow> string \<Rightarrow> tap_out" where
  "report_exchange_finding kind detail ts observed_on =
     Found \<lparr>ef_kind = kind, ef_detail = detail, ef_ts = (case ts of Some t \<Rightarrow> t | None \<Rightarrow> 0),
            ef_observed_on = observed_on\<rparr>"

definition or_ts :: "real option \<Rightarrow> real option \<Rightarrow> real option" where
  "or_ts a b = (case a of Some t \<Rightarrow> Some t | None \<Rightarrow> b)"

definition exchange_outcome :: "tap_cfg \<Rightarrow> connection \<Rightarrow> exchange \<Rightarrow> unit run" where
  "exchange_outcome cf conn x =
     (let observed_on = address_text (responder conn) in
      case classify_exchange cf x of
        None \<Rightarrow>
          (case unexpected_reason cf x of
             None \<Rightarrow> give ()
           | Some reason \<Rightarrow>
               ([report_exchange_finding ''unexpected-exchange'' reason
                   (or_ts (ex_completed_at x) (or_ts (ex_received_at x) (conn_last_ts conn))) observed_on],
                Some ()))
      | Some cl \<Rightarrow>
          (case build_tap_message cf x cl (or_ts (ex_received_at x) (conn_first_ts conn))
                  (or_ts (ex_completed_at x) (conn_last_ts conn)) (Some observed_on) of
             None \<Rightarrow> ([], None)
           | Some m \<Rightarrow> ([Tapped m], Some ())))"

fun messages :: "tap_cfg \<Rightarrow> connection \<Rightarrow> exchange list \<Rightarrow> unit run" where
  "messages cf conn [] = give ()"
| "messages cf conn (x # xs) = andthen (exchange_outcome cf conn x) (\<lambda>_. messages cf conn xs)"

section \<open>The processor\<close>

record 'c http_lib =
  hl_h11 :: "'c h11"
  hl_server :: 'c
  hl_client :: 'c

record 'c processor =
  pr_table :: table
  pr_parsers :: "(connection_key \<times> 'c assembler) list"
  pr_last_ts :: "real option"
  pr_next_idle_sweep :: "real option"

definition new_processor :: "'c processor" where
  "new_processor = \<lparr>pr_table = new_table False, pr_parsers = [], pr_last_ts = None, pr_next_idle_sweep = None\<rparr>"

definition conn_key :: "connection \<Rightarrow> connection_key" where
  "conn_key c = connection_key (initiator c) (responder c)"

text \<open>\<open>_close\<close>: what a connection that has ended was still holding; its parser goes with it.\<close>

definition close_connection ::
  "'c http_lib \<Rightarrow> tap_cfg \<Rightarrow> connection \<Rightarrow> real option \<Rightarrow> 'c processor \<Rightarrow> 'c processor run" where
  "close_connection L cf conn ts p =
     (case map_of (pr_parsers p) (conn_key conn) of
        None \<Rightarrow> give p
      | Some a \<Rightarrow>
          (case finish_assembler (hl_h11 L) ts a of
             None \<Rightarrow> ([], None)
           | Some (exs, _) \<Rightarrow>
               andthen (messages cf conn exs)
                 (\<lambda>_. give (p\<lparr>pr_parsers := AList.delete (conn_key conn) (pr_parsers p)\<rparr>))))"

fun close_all ::
  "'c http_lib \<Rightarrow> tap_cfg \<Rightarrow> connection list \<Rightarrow> real option \<Rightarrow> 'c processor \<Rightarrow> 'c processor run" where
  "close_all L cf [] ts p = give p"
| "close_all L cf (c # cs) ts p = andthen (close_connection L cf c ts p) (close_all L cf cs ts)"

text \<open>The bytes of one delivery through the connection's parser.\<close>

definition parse_delivery ::
  "'c http_lib \<Rightarrow> tap_cfg \<Rightarrow> delivery \<Rightarrow> 'c assembler \<Rightarrow> 'c assembler run" where
  "parse_delivery L cf d a =
     (if dl_data d = [] then give a
      else case (if dl_from_client d then feed_client else feed_server) (hl_h11 L) (dl_data d) (Some (dl_ts d)) a of
          None \<Rightarrow> ([], None)
        | Some (exs, a1) \<Rightarrow>
            andthen (messages cf (dl_conn d) exs)
              (\<lambda>_. if unparseable a1 \<and> \<not> unparseable_reported a1
                   then ([report_exchange_finding ''non-http-stream''
                            ''bytes on this connection never parsed as HTTP'' (Some (dl_ts d))
                            (address_text (responder (dl_conn d)))],
                         Some (a1\<lparr>unparseable_reported := True\<rparr>))
                   else give a1))"

definition deliver ::
  "'c http_lib \<Rightarrow> tap_cfg \<Rightarrow> delivery \<Rightarrow> 'c processor \<Rightarrow> 'c processor run" where
  "deliver L cf d p =
     (let key = conn_key (dl_conn d);
          a = (case map_of (pr_parsers p) key of
                 Some a \<Rightarrow> a | None \<Rightarrow> new_assembler (hl_server L) (hl_client L)) in
      andthen (parse_delivery L cf d a)
        (\<lambda>a1. let p1 = p\<lparr>pr_parsers := dset key a1 (pr_parsers p)\<rparr> in
              if dl_completed d then close_connection L cf (dl_conn d) (Some (dl_ts d)) p1 else give p1))"

definition sweep_idle :: "'c http_lib \<Rightarrow> tap_cfg \<Rightarrow> real \<Rightarrow> 'c processor \<Rightarrow> 'c processor run" where
  "sweep_idle L cf now p =
     (let next = Some (now + cf_idle_sweep_interval cf) in
      case pr_next_idle_sweep p of
        None \<Rightarrow> give (p\<lparr>pr_next_idle_sweep := next\<rparr>)
      | Some due \<Rightarrow>
          if now < due then give p
          else (let (idle, t) = idle_flush now (cf_idle_timeout cf) (pr_table p) in
            andthen (close_all L cf idle (Some now) (p\<lparr>pr_table := t\<rparr>))
              (\<lambda>p1. give (p1\<lparr>pr_next_idle_sweep := next\<rparr>))))"

definition feed_segment :: "'c http_lib \<Rightarrow> tap_cfg \<Rightarrow> tcp_segment \<Rightarrow> 'c processor \<Rightarrow> 'c processor run" where
  "feed_segment L cf sg p =
     (let (delivery, t) = table_feed (cf_max_stranded cf) sg (pr_table p);
          p1 = p\<lparr>pr_last_ts := Some (sg_ts sg), pr_table := t\<rparr> in
      andthen (case delivery of None \<Rightarrow> give p1 | Some d \<Rightarrow> deliver L cf d p1)
        (\<lambda>p2. case pr_next_idle_sweep p2 of
                None \<Rightarrow> give (p2\<lparr>pr_next_idle_sweep := Some (sg_ts sg + cf_idle_sweep_interval cf)\<rparr>)
              | Some due \<Rightarrow> if sg_ts sg \<ge> due then sweep_idle L cf (sg_ts sg) p2 else give p2))"

definition finish_processor :: "'c http_lib \<Rightarrow> tap_cfg \<Rightarrow> 'c processor \<Rightarrow> 'c processor run" where
  "finish_processor L cf p =
     (case pr_last_ts p of
        None \<Rightarrow> give p
      | Some ts \<Rightarrow> (let (conns, t) = drain (pr_table p) in
          close_all L cf conns (Some ts) (p\<lparr>pr_table := t\<rparr>)))"

fun feed_segments :: "'c http_lib \<Rightarrow> tap_cfg \<Rightarrow> tcp_segment list \<Rightarrow> 'c processor \<Rightarrow> 'c processor run" where
  "feed_segments L cf [] p = give p"
| "feed_segments L cf (sg # sgs) p = andthen (feed_segment L cf sg p) (feed_segments L cf sgs)"

definition process_segments ::
  "'c http_lib \<Rightarrow> tap_cfg \<Rightarrow> nat set option \<Rightarrow> nat set \<Rightarrow> tcp_segment list \<Rightarrow> 'c processor run" where
  "process_segments L cf inc exc sgs =
     andthen (feed_segments L cf (filter (\<lambda>sg. ports_allowed (sg_sport sg) (sg_dport sg) inc exc) sgs) new_processor)
       (finish_processor L cf)"

section \<open>The flow worker\<close>

text \<open>
  What its loop sees: a segment from its queue, the time at which the queue was empty, the sentinel.
  The parent takes messages off the bounded message queue whenever it likes (\<open>Parent_takes\<close>).
\<close>

datatype worker_input = Segment tcp_segment | Queue_empty real | Stop_sentinel | Parent_takes

record 'c worker =
  wk_processor :: "'c processor"
  wk_queue :: "tap_dict list"
  wk_status :: "exchange_finding list"
  wk_processed :: nat
  wk_messages :: nat
  wk_dropped :: nat
  wk_errors :: nat
  wk_running :: bool

definition new_worker :: "'c worker" where
  "new_worker = \<lparr>wk_processor = new_processor, wk_queue = [], wk_status = [], wk_processed = 0,
     wk_messages = 0, wk_dropped = 0, wk_errors = 0, wk_running = True\<rparr>"

text \<open>\<open>publish\<close>: messages to the message queue if it has room, findings to the status queue.\<close>

definition publish_one :: "nat \<Rightarrow> tap_out \<Rightarrow> 'c worker \<Rightarrow> 'c worker" where
  "publish_one maxsize x w =
     (case x of
        Found f \<Rightarrow> w\<lparr>wk_status := wk_status w @ [f]\<rparr>
      | Tapped m \<Rightarrow>
          if length (wk_queue w) < maxsize
          then w\<lparr>wk_messages := wk_messages w + 1, wk_queue := wk_queue w @ [m]\<rparr>
          else w\<lparr>wk_messages := wk_messages w + 1, wk_dropped := wk_dropped w + 1\<rparr>)"

text \<open>Any exception ends the worker: it is counted, and the process exits with it.\<close>

definition publish :: "nat \<Rightarrow> 'c processor run \<Rightarrow> 'c worker \<Rightarrow> 'c worker" where
  "publish maxsize r w =
     (let w1 = fold (publish_one maxsize) (fst r) w in
      case snd r of
        Some p \<Rightarrow> w1\<lparr>wk_processor := p\<rparr>
      | None \<Rightarrow> w1\<lparr>wk_errors := wk_errors w1 + 1, wk_running := False\<rparr>)"

definition worker_step ::
  "'c http_lib \<Rightarrow> tap_cfg \<Rightarrow> nat \<Rightarrow> worker_input \<Rightarrow> 'c worker \<Rightarrow> 'c worker" where
  "worker_step L cf maxsize i w =
     (case i of
        Parent_takes \<Rightarrow> w\<lparr>wk_queue := tl (wk_queue w)\<rparr>
      | Queue_empty now \<Rightarrow>
          if wk_running w then publish maxsize (sweep_idle L cf now (wk_processor w)) w else w
      | Segment sg \<Rightarrow>
          if wk_running w
          then publish maxsize (feed_segment L cf sg (wk_processor w)) (w\<lparr>wk_processed := wk_processed w + 1\<rparr>)
          else w
      | Stop_sentinel \<Rightarrow>
          if wk_running w
          then (publish maxsize (finish_processor L cf (wk_processor w)) w)\<lparr>wk_running := False\<rparr>
          else w)"

definition run_worker ::
  "'c http_lib \<Rightarrow> tap_cfg \<Rightarrow> nat \<Rightarrow> worker_input list \<Rightarrow> 'c worker" where
  "run_worker L cf maxsize inputs = fold (worker_step L cf maxsize) inputs new_worker"

end
