(* ===== verification/Tap_Proofs.thy ===== *)
theory Tap_Proofs
  imports Tap Reassembly_Proofs Http_Proofs
begin

text \<open>
  What the entry point makes of exchanges: every one of them before the first misshapen response
  is tapped, reported, or one the configuration lets pass; a parser lives exactly as long as its connection; the worker accounts for
  every message it built; and how one response body ends it.
\<close>

section \<open>Runs\<close>

lemma andthen_give [simp]: "andthen (give s) f = f s"
  by (simp add: andthen_def give_def)

lemma give_simps [simp]: "fst (give s) = []" "snd (give s) = Some s"
  by (simp_all add: give_def)

lemma andthen_SomeD:
  assumes "snd (andthen m f) = Some t"
  obtains s where "snd m = Some s" "snd (f s) = Some t" "fst (andthen m f) = fst m @ fst (f s)"
  using assms by (auto simp: andthen_def split: option.splits)

lemma andthen_Some: "snd m = Some s \<Longrightarrow> andthen m f = (fst m @ fst (f s), snd (f s))"
  by (simp add: andthen_def)

lemma andthen_None: "snd m = None \<Longrightarrow> andthen m f = (fst m, None)"
  by (simp add: andthen_def)

section \<open>Exchanges\<close>

text \<open>
  What may cross the link unreported, as the configuration's documentation puts it: the verifier's own
  replays, and requests for one of the allowed paths.
\<close>

definition permitted :: "tap_cfg \<Rightarrow> exchange \<Rightarrow> bool" where
  "permitted cf x \<longleftrightarrow>
     is_verifier_traffic cf (header (ex_request x) ''host'')
     \<or> bare_path (hm_path (ex_request x)) \<noteq> []
       \<and> (\<exists>e \<in> set (cf_allowed_endpoints cf). ends_with (bare_path (hm_path (ex_request x))) e)"

definition inference :: "tap_cfg \<Rightarrow> exchange \<Rightarrow> bool" where
  "inference cf x \<longleftrightarrow> classify_exchange cf x \<noteq> None"

lemma unexpected_iff:
  "unexpected_reason cf x = None \<longleftrightarrow> inference cf x \<or> permitted cf x"
  by (auto simp: unexpected_reason_def inference_def permitted_def Let_def list_ex_iff)

lemma inference_not_verifier:
  "inference cf x \<Longrightarrow> \<not> is_verifier_traffic cf (header (ex_request x) ''host'')"
  by (auto simp: inference_def classify_exchange_def Let_def split: if_splits)

fun tapped :: "tap_out list \<Rightarrow> tap_dict list" where
  "tapped [] = []"
| "tapped (Tapped m # os) = m # tapped os"
| "tapped (Found f # os) = tapped os"

fun found :: "tap_out list \<Rightarrow> exchange_finding list" where
  "found [] = []"
| "found (Tapped m # os) = found os"
| "found (Found f # os) = f # found os"

lemma tapped_append [simp]: "tapped (xs @ ys) = tapped xs @ tapped ys"
  by (induction xs rule: tapped.induct) auto

lemma found_append [simp]: "found (xs @ ys) = found xs @ found ys"
  by (induction xs rule: found.induct) auto

lemma build_tap_message_model:
  "build_tap_message cf x cl r c ob = Some m \<Longrightarrow>
     td_hostname m = resolve_hostname cf (lc_model_name cl) \<and> td_endpoint m = lc_endpoint cl"
  by (auto simp: build_tap_message_def Let_def bind_eq_Some_conv)

section \<open>A parser for every open connection\<close>

definition keyed :: "table \<Rightarrow> bool" where
  "keyed t \<longleftrightarrow> (\<forall>(k, c) \<in> set (tb_conns t). conn_key c = k)"

lemma conn_key_put [simp]: "conn_key (put_stream e s c) = conn_key c"
  by (simp add: conn_key_def put_stream_def)

lemma conn_key_rst [simp]: "conn_key (c\<lparr>conn_rst := b\<rparr>) = conn_key c"
  by (simp add: conn_key_def)

lemma open_connection_key:
  assumes "keyed t" "open_connection sg t = Some (c, gone)"
  shows "conn_key c = seg_key sg"
  using assms
  by (auto simp: keyed_def open_connection_def seg_key_def Let_def case_prod_beta conn_key_def roles_def
      connection_key_eq split: option.splits if_splits dest!: map_of_SomeD)

lemma table_feed_shape:
  assumes "keyed t" "open_connection sg t = Some (c0, gone)"
  obtains d gone' where
    "table_feed mx sg t =
       (Some d, t\<lparr>tb_conns := (if dl_completed d then AList.delete (seg_key sg) (tb_conns t)
                               else dset (seg_key sg) (dl_conn d) (tb_conns t)), tb_closed := gone'\<rparr>)"
    "conn_key (dl_conn d) = seg_key sg"
proof -
  let ?sender = "Endpoint (sg_src sg) (sg_sport sg)"
  let ?s = "stream_feed mx sg (conn_stream ?sender c0)"
  let ?c1 = "put_stream ?sender (fst ?s) c0"
  let ?c = "if sg_rst sg then ?c1\<lparr>conn_rst := True\<rparr> else ?c1"
  let ?d = "\<lparr>dl_conn = ?c, dl_from_client = (?sender = initiator ?c), dl_data = snd ?s,
             dl_ts = sg_ts sg, dl_completed = conn_complete ?c\<rparr>"
  show thesis
  proof (rule that[of ?d])
    show "table_feed mx sg t =
       (Some ?d, t\<lparr>tb_conns := (if dl_completed ?d then AList.delete (seg_key sg) (tb_conns t)
                               else dset (seg_key sg) (dl_conn ?d) (tb_conns t)),
                   tb_closed := (if conn_complete ?c then trim_closed (dset (seg_key sg) () gone) else gone)\<rparr>)"
      using assms(2) by (simp add: table_feed_def Let_def case_prod_beta seg_key_def)
    show "conn_key (dl_conn ?d) = seg_key sg" using open_connection_key[OF assms] by simp
  qed
qed

text \<open>What one segment does to the keys of the table.\<close>

definition feed_effect :: "tcp_segment \<Rightarrow> table \<Rightarrow> delivery option \<Rightarrow> table \<Rightarrow> bool" where
  "feed_effect sg t dl t' \<longleftrightarrow>
     (case dl of
        None \<Rightarrow> t' = t
      | Some d \<Rightarrow> conn_key (dl_conn d) = seg_key sg \<and>
          set (keys (tb_conns t')) =
            (if dl_completed d then set (keys (tb_conns t)) - {seg_key sg}
             else insert (seg_key sg) (set (keys (tb_conns t)))))"

lemma table_feed_keys:
  assumes "keyed t"
  shows "keyed (snd (table_feed mx sg t)) \<and>
    feed_effect sg t (fst (table_feed mx sg t)) (snd (table_feed mx sg t))"
proof (cases "open_connection sg t")
  case None
  with assms show ?thesis by (simp add: table_feed_def Let_def feed_effect_def)
next
  case (Some cg)
  obtain c0 gone where cg: "open_connection sg t = Some (c0, gone)" using Some by (cases cg) auto
  show ?thesis
  proof (rule table_feed_shape[OF assms cg, where mx = mx])
    fix d gone'
    assume step: "table_feed mx sg t =
       (Some d, t\<lparr>tb_conns := (if dl_completed d then AList.delete (seg_key sg) (tb_conns t)
                               else dset (seg_key sg) (dl_conn d) (tb_conns t)), tb_closed := gone'\<rparr>)"
      and k: "conn_key (dl_conn d) = seg_key sg"
    have "keyed (snd (table_feed mx sg t))"
      using assms k set_dset_subset[of "seg_key sg" "dl_conn d" "tb_conns t"]
      unfolding step keyed_def by (auto simp: AList.delete_eq)
    moreover have "set (keys (AList.delete (seg_key sg) (tb_conns t))) = set (keys (tb_conns t)) - {seg_key sg}"
      by (simp add: delete_keys del: set_map)
    ultimately show ?thesis
      using k keys_dset_set[of "seg_key sg" "dl_conn d" "tb_conns t"]
      by (simp add: step feed_effect_def del: set_map)
  qed
qed

definition processor_inv :: "'c processor \<Rightarrow> bool" where
  "processor_inv p \<longleftrightarrow> table_inv (pr_table p) \<and> keyed (pr_table p) \<and>
     set (keys (pr_parsers p)) = set (keys (tb_conns (pr_table p)))"

lemma processor_inv_clocks [simp]:
  "processor_inv (p\<lparr>pr_next_idle_sweep := x\<rparr>) = processor_inv p"
  "processor_inv (p\<lparr>pr_last_ts := y\<rparr>) = processor_inv p"
  by (simp_all add: processor_inv_def)

lemma keys_delete_set: "set (keys (AList.delete k d)) = set (keys d) - {k}"
  by (simp add: delete_keys del: set_map)

lemma close_connection_keys:
  assumes "snd (close_connection L cf c ts p) = Some q"
  shows "pr_table q = pr_table p \<and> pr_last_ts q = pr_last_ts p \<and>
    set (keys (pr_parsers q)) = set (keys (pr_parsers p)) - {conn_key c}"
proof (cases "map_of (pr_parsers p) (conn_key c)")
  case None
  with assms show ?thesis by (auto simp: close_connection_def map_of_None_keys simp del: set_map)
next
  case (Some a)
  with assms show ?thesis
    by (auto simp: close_connection_def keys_delete_set simp del: set_map
        split: option.splits elim!: andthen_SomeD)
qed

lemma close_all_keys:
  "snd (close_all L cf cs ts p) = Some q \<Longrightarrow> pr_table q = pr_table p \<and>
     pr_last_ts q = pr_last_ts p \<and> set (keys (pr_parsers q)) = set (keys (pr_parsers p)) - conn_key ` set cs"
proof (induction cs arbitrary: p)
  case (Cons c cs)
  from Cons.prems obtain p1 where "snd (close_connection L cf c ts p) = Some p1"
    "snd (close_all L cf cs ts p1) = Some q"
    by (auto elim: andthen_SomeD)
  with Cons.IH[of p1] close_connection_keys[of L cf c ts p p1] show ?case by (auto simp del: set_map)
qed auto

lemma deliver_keys:
  assumes "snd (deliver L cf d p) = Some q"
  shows "pr_table q = pr_table p \<and> pr_last_ts q = pr_last_ts p \<and> set (keys (pr_parsers q)) =
    (if dl_completed d then set (keys (pr_parsers p)) - {conn_key (dl_conn d)}
     else insert (conn_key (dl_conn d)) (set (keys (pr_parsers p))))"
proof -
  let ?a = "case map_of (pr_parsers p) (conn_key (dl_conn d)) of
      Some a \<Rightarrow> a | None \<Rightarrow> new_assembler (hl_server L) (hl_client L)"
  from assms obtain a1 where "snd (if dl_completed d
      then close_connection L cf (dl_conn d) (Some (dl_ts d))
             (p\<lparr>pr_parsers := dset (conn_key (dl_conn d)) a1 (pr_parsers p)\<rparr>)
      else give (p\<lparr>pr_parsers := dset (conn_key (dl_conn d)) a1 (pr_parsers p)\<rparr>)) = Some q"
    unfolding deliver_def Let_def by (rule andthen_SomeD)
  then show ?thesis
    using close_connection_keys[of L cf "dl_conn d" "Some (dl_ts d)"
        "p\<lparr>pr_parsers := dset (conn_key (dl_conn d)) a1 (pr_parsers p)\<rparr>" q]
    by (auto simp: keys_dset_set simp del: set_map split: if_splits)
qed

lemma keys_filter_not:
  "distinct (keys d) \<Longrightarrow>
     set (keys (filter (\<lambda>kc. \<not> P (snd kc)) d)) = set (keys d) - fst ` set (filter (\<lambda>kc. P (snd kc)) d)"
  by (auto simp: image_iff dest: eq_key_imp_eq_value)

lemma keyed_image:
  "keyed t \<Longrightarrow> conn_key ` snd ` set (filter P (tb_conns t)) = fst ` set (filter P (tb_conns t))"
  unfolding keyed_def by (force simp: image_iff)

lemma sweep_inv:
  assumes p: "processor_inv p" and q: "snd (sweep_idle L cf now p) = Some q"
  shows "processor_inv q"
proof (cases "pr_next_idle_sweep p")
  case None
  with q have "q = p\<lparr>pr_next_idle_sweep := Some (now + cf_idle_sweep_interval cf)\<rparr>"
    by (simp add: sweep_idle_def)
  with p show ?thesis by simp
next
  case (Some due)
  show ?thesis
  proof (cases "now < due")
    case True
    with Some p q show ?thesis by (auto simp: sweep_idle_def)
  next
    case False
    let ?idle = "is_idle now (cf_idle_timeout cf)"
    let ?t = "(pr_table p)\<lparr>tb_conns := filter (\<lambda>kc. \<not> ?idle (snd kc)) (tb_conns (pr_table p))\<rparr>"
    from q Some False obtain p1 where p1:
      "snd (close_all L cf (map snd (filter (\<lambda>kc. ?idle (snd kc)) (tb_conns (pr_table p)))) (Some now)
         (p\<lparr>pr_table := ?t\<rparr>)) = Some p1" and q1: "q = p1\<lparr>pr_next_idle_sweep := Some (now + cf_idle_sweep_interval cf)\<rparr>"
      by (auto simp: sweep_idle_def idle_flush_def elim!: andthen_SomeD)
    have "table_inv ?t" using p filter_table_inv by (auto simp: processor_inv_def)
    moreover have "keyed ?t" using p by (auto simp: processor_inv_def keyed_def)
    moreover have "set (keys (pr_parsers p1)) = set (keys (tb_conns ?t))"
      using close_all_keys[OF p1] p keyed_image[of "pr_table p" "\<lambda>kc. ?idle (snd kc)"]
        keys_filter_not[of "tb_conns (pr_table p)" ?idle]
      by (simp add: processor_inv_def table_inv_def image_image)
    ultimately show ?thesis using close_all_keys[OF p1] q1 by (simp add: processor_inv_def)
  qed
qed

lemma sweep_last_ts:
  "snd (sweep_idle L cf now p) = Some q \<Longrightarrow> pr_last_ts q = pr_last_ts p"
  by (auto simp: sweep_idle_def Let_def case_prod_beta dest!: close_all_keys elim!: andthen_SomeD
      split: option.splits if_splits)

lemma feed_segment_last_ts:
  assumes "snd (feed_segment L cf sg p) = Some q"
  shows "pr_last_ts q = Some (sg_ts sg)"
  using assms
  by (auto simp: feed_segment_def Let_def case_prod_beta dest!: sweep_last_ts deliver_keys
      elim!: andthen_SomeD split: option.splits if_splits)

lemma feed_segment_inv:
  assumes p: "processor_inv p" and q: "snd (feed_segment L cf sg p) = Some q"
  shows "processor_inv q"
proof -
  obtain dl t where tf: "table_feed (cf_max_stranded cf) sg (pr_table p) = (dl, t)" by (cases "table_feed (cf_max_stranded cf) sg (pr_table p)")
  let ?p1 = "p\<lparr>pr_last_ts := Some (sg_ts sg), pr_table := t\<rparr>"
  from q obtain p2 where p2: "snd (case dl of None \<Rightarrow> give ?p1 | Some d \<Rightarrow> deliver L cf d ?p1) = Some p2"
    and rest: "snd (case pr_next_idle_sweep p2 of
                None \<Rightarrow> give (p2\<lparr>pr_next_idle_sweep := Some (sg_ts sg + cf_idle_sweep_interval cf)\<rparr>)
              | Some due \<Rightarrow> if sg_ts sg \<ge> due then sweep_idle L cf (sg_ts sg) p2 else give p2) = Some q"
    unfolding feed_segment_def tf Let_def by (auto elim: andthen_SomeD)
  have t: "table_inv t" "keyed t" "feed_effect sg (pr_table p) dl t"
    using feed_inv[of "pr_table p" "cf_max_stranded cf" sg] table_feed_keys[of "pr_table p" "cf_max_stranded cf" sg] p
    by (auto simp: tf processor_inv_def)
  have "processor_inv p2"
  proof (cases dl)
    case None
    with p2 t(3) have "p2 = p\<lparr>pr_last_ts := Some (sg_ts sg)\<rparr>" by (simp add: feed_effect_def)
    with p show ?thesis by simp
  next
    case (Some d)
    with p2 have "pr_table p2 = t" "set (keys (pr_parsers p2)) =
        (if dl_completed d then set (keys (pr_parsers p)) - {conn_key (dl_conn d)}
         else insert (conn_key (dl_conn d)) (set (keys (pr_parsers p))))"
      using deliver_keys[of L cf d ?p1 p2] by simp_all
    with Some t p show ?thesis by (simp add: processor_inv_def feed_effect_def)
  qed
  with rest show ?thesis
    using sweep_inv[of p2 L cf "sg_ts sg" q] by (auto split: option.splits if_splits)
qed

lemma feed_segments_inv:
  "processor_inv p \<Longrightarrow> snd (feed_segments L cf sgs p) = Some q \<Longrightarrow> processor_inv q"
proof (induction sgs arbitrary: p)
  case (Cons sg sgs)
  from Cons.prems obtain p1 where "snd (feed_segment L cf sg p) = Some p1"
    "snd (feed_segments L cf sgs p1) = Some q"
    by (auto elim: andthen_SomeD)
  with Cons.IH[of p1] feed_segment_inv[OF Cons.prems(1)] show ?case by blast
qed simp

lemma feed_segments_last_ts:
  "snd (feed_segments L cf sgs p) = Some q \<Longrightarrow> pr_last_ts p \<noteq> None \<or> sgs \<noteq> [] \<Longrightarrow> pr_last_ts q \<noteq> None"
proof (induction sgs arbitrary: p)
  case (Cons sg sgs)
  then obtain p1 where "snd (feed_segment L cf sg p) = Some p1" "snd (feed_segments L cf sgs p1) = Some q"
    by (auto elim: andthen_SomeD)
  with Cons.IH[of p1] feed_segment_last_ts[of L cf sg p p1] show ?case by simp
qed auto

lemma new_processor_inv: "processor_inv new_processor"
  by (simp add: processor_inv_def new_processor_def new_table_def table_inv_def keyed_def)

lemma finish_processor_empty:
  assumes p: "processor_inv p" "pr_last_ts p \<noteq> None" and q: "snd (finish_processor L cf p) = Some q"
  shows "pr_parsers q = [] \<and> tb_conns (pr_table q) = []"
proof -
  obtain ts where ts: "pr_last_ts p = Some ts" using p(2) by blast
  let ?t = "(pr_table p)\<lparr>tb_conns := []\<rparr>"
  from q ts have c: "snd (close_all L cf (map snd (tb_conns (pr_table p))) (Some ts) (p\<lparr>pr_table := ?t\<rparr>)) = Some q"
    by (simp add: finish_processor_def drain_def)
  have "conn_key ` set (map snd (tb_conns (pr_table p))) = set (keys (tb_conns (pr_table p)))"
    using keyed_image[of "pr_table p" "\<lambda>_. True"] p(1) by (simp add: processor_inv_def)
  with close_all_keys[OF c] p(1) have "set (keys (pr_parsers q)) = {}" "pr_table q = ?t"
    by (simp_all add: processor_inv_def)
  then show ?thesis by simp
qed

lemma process_segments_empty:
  assumes "snd (process_segments L cf inc exc sgs) = Some q"
  shows "pr_parsers q = [] \<and> tb_conns (pr_table q) = []"
proof -
  let ?sgs = "filter (\<lambda>sg. ports_allowed (sg_sport sg) (sg_dport sg) inc exc) sgs"
  from assms obtain p where p: "snd (feed_segments L cf ?sgs new_processor) = Some p"
    "snd (finish_processor L cf p) = Some q"
    unfolding process_segments_def by (auto elim: andthen_SomeD)
  show ?thesis
  proof (cases "?sgs = []")
    case True
    with p show ?thesis
      by (auto simp: finish_processor_def new_processor_def new_table_def)
  next
    case False
    with p feed_segments_last_ts[OF p(1)] feed_segments_inv[OF new_processor_inv p(1)] show ?thesis
      using finish_processor_empty[of p L cf q] by blast
  qed
qed

section \<open>What ends a run\<close>

text \<open>
  Where the code reads an attribute of what the response put there: the choices a list (or a text, whose
  first character is no object), the usage and the first choice's message objects, or nothing.
\<close>

definition object_or_nothing :: "json \<Rightarrow> bool" where
  "object_or_nothing v \<longleftrightarrow> \<not> (truthy v \<and> \<not> is_dict v)"

definition well_shaped :: "(ustr \<times> json) list \<Rightarrow> bool" where
  "well_shaped body \<longleftrightarrow>
     \<not> (truthy (dget body ''choices'') \<and> \<not> is_list (dget body ''choices'') \<and> \<not> is_str (dget body ''choices'')) \<and>
     object_or_nothing (dget body ''usage'') \<and>
     object_or_nothing (jget (case dget body ''choices'' of JList (c # _) \<Rightarrow> c | _ \<Rightarrow> JNull) ''message'')"

definition response_shaped :: "tap_cfg \<Rightarrow> exchange \<Rightarrow> bool" where
  "response_shaped cf x \<longleftrightarrow>
     (case classify_exchange cf x of
        None \<Rightarrow> True
      | Some cl \<Rightarrow> well_shaped (response_object (cf_loads cf) (object_kind_of (lc_endpoint cl)) (ex_response x)))"

lemma misshapen_iff:
  "\<not> response_shaped cf x \<longleftrightarrow> (\<exists>cl. classify_exchange cf x = Some cl \<and>
     \<not> well_shaped (response_object (cf_loads cf) (object_kind_of (lc_endpoint cl)) (ex_response x)))"
  by (auto simp: response_shaped_def split: option.splits)

lemma dict_or_empty_None: "dict_or_empty v = None \<longleftrightarrow> \<not> object_or_nothing v"
  by (auto simp: dict_or_empty_def object_or_nothing_def split: json.splits)

lemma first_choice_None:
  "first_choice body = None \<longleftrightarrow>
     truthy (dget body ''choices'') \<and> \<not> is_list (dget body ''choices'') \<and> \<not> is_str (dget body ''choices'')"
  by (cases "dget body ''choices''") (auto simp: first_choice_def jor_def split: list.splits json.splits)

lemma first_choice_message:
  "first_choice body = Some c \<Longrightarrow>
     dget c ''message'' = jget (case dget body ''choices'' of JList (c # _) \<Rightarrow> c | _ \<Rightarrow> JNull) ''message''"
  by (cases "dget body ''choices''")
    (auto simp: first_choice_def jor_def jget_def dget_def split: list.splits json.splits if_splits)

lemma build_None_iff:
  "build_tap_message cf x cl r c ob = None \<longleftrightarrow>
     \<not> well_shaped (response_object (cf_loads cf) (object_kind_of (lc_endpoint cl)) (ex_response x))"
proof -
  let ?body = "response_object (cf_loads cf) (object_kind_of (lc_endpoint cl)) (ex_response x)"
  show ?thesis
  proof (cases "first_choice ?body")
    case None
    then show ?thesis
      using first_choice_None[of ?body] by (simp add: build_tap_message_def Let_def well_shaped_def)
  next
    case (Some ch)
    have t: "output_text ch k = None \<Longrightarrow> dict_or_empty (dget ch ''message'') = None" for k
      by (cases k) (auto simp: output_text_def bind_eq_None_conv)
    have s: "well_shaped ?body \<longleftrightarrow> dict_or_empty (dget ch ''message'') \<noteq> None \<and> dict_or_empty (dget ?body ''usage'') \<noteq> None"
      using Some first_choice_None[of ?body] first_choice_message[OF Some]
      by (auto simp: well_shaped_def dict_or_empty_None simp del: not_None_eq)
    show ?thesis
      unfolding s using Some t[of "object_kind_of (lc_endpoint cl)"]
      by (auto simp: build_tap_message_def Let_def bind_eq_None_conv simp del: not_None_eq
          dest!: not_None_eq[THEN iffD1])
  qed
qed

lemma build_Some_shaped:
  "build_tap_message cf x cl r c ob = Some m \<Longrightarrow>
     well_shaped (response_object (cf_loads cf) (object_kind_of (lc_endpoint cl)) (ex_response x))"
  using build_None_iff[of cf x cl r c ob] by simp

lemma messages_None_iff:
  "snd (messages cf conn xs) = None \<longleftrightarrow> (\<exists>x \<in> set xs. \<not> response_shaped cf x)"
proof (induction xs)
  case (Cons x xs)
  have "snd (exchange_outcome cf conn x) = None \<longleftrightarrow> \<not> response_shaped cf x"
    by (auto simp: exchange_outcome_def Let_def response_shaped_def build_None_iff
        split: option.splits dest: build_Some_shaped)
  with Cons.IH show ?case
    by (cases "snd (exchange_outcome cf conn x)") (simp_all add: andthen_None andthen_Some)
qed simp

text \<open>What the exchanges worked through are written out as.\<close>

lemma exchange_outcome_None_iff: "snd (exchange_outcome cf conn x) = None \<longleftrightarrow> \<not> response_shaped cf x"
  by (auto simp: exchange_outcome_def Let_def response_shaped_def build_None_iff
      split: option.splits dest: build_Some_shaped)

lemma exchange_outcome_raises: "\<not> response_shaped cf x \<Longrightarrow> exchange_outcome cf conn x = ([], None)"
  using exchange_outcome_None_iff[of cf conn x]
  by (auto simp: exchange_outcome_def Let_def give_def split: option.splits)

lemma messages_front: "fst (messages cf conn xs) = fst (messages cf conn (takeWhile (response_shaped cf) xs))"
proof (induction xs)
  case (Cons x xs)
  show ?case
  proof (cases "response_shaped cf x")
    case True
    then have "snd (exchange_outcome cf conn x) \<noteq> None" using exchange_outcome_None_iff by blast
    then show ?thesis using Cons.IH True by (auto simp: andthen_Some)
  qed (simp add: exchange_outcome_raises andthen_def give_def)
qed simp

lemma messages_outputs:
  "let worked = takeWhile (response_shaped cf) xs; outs = fst (messages cf conn xs);
       observed_on = address_text (responder conn) in
     list_all2 (\<lambda>x m. \<exists>cl. classify_exchange cf x = Some cl \<and>
         td_hostname m = resolve_hostname cf (lc_model_name cl) \<and> td_endpoint m = lc_endpoint cl \<and>
         build_tap_message cf x cl (or_ts (ex_received_at x) (conn_first_ts conn))
           (or_ts (ex_completed_at x) (conn_last_ts conn)) (Some observed_on) = Some m)
       (filter (inference cf) worked) (tapped outs) \<and>
     list_all2 (\<lambda>x f. unexpected_reason cf x = Some (ef_detail f) \<and> ef_kind f = ''unexpected-exchange'' \<and>
         ef_observed_on f = observed_on \<and>
         ef_ts f = (case or_ts (ex_completed_at x) (or_ts (ex_received_at x) (conn_last_ts conn)) of Some t \<Rightarrow> t | None \<Rightarrow> 0))
       (filter (\<lambda>x. \<not> inference cf x \<and> \<not> permitted cf x) worked) (found outs)"
proof (induction xs)
  case (Cons x xs)
  show ?case
  proof (cases "response_shaped cf x")
    case False
    then show ?thesis by (simp add: exchange_outcome_raises andthen_def)
  next
    case True
    then have s: "snd (exchange_outcome cf conn x) \<noteq> None" using exchange_outcome_None_iff by blast
    show ?thesis
    proof (cases "classify_exchange cf x")
      case None
      then show ?thesis
        using Cons.IH True unexpected_iff[of cf x]
        by (cases "unexpected_reason cf x")
          (auto simp: Let_def andthen_def exchange_outcome_def give_def inference_def report_exchange_finding_def
            split del: option.split)
    next
      case (Some cl)
      from s Some obtain m where "build_tap_message cf x cl (or_ts (ex_received_at x) (conn_first_ts conn))
           (or_ts (ex_completed_at x) (conn_last_ts conn)) (Some (address_text (responder conn))) = Some m"
        by (auto simp: exchange_outcome_def Let_def split: option.splits)
      with Some Cons.IH True build_tap_message_model[OF this] show ?thesis
        by (auto simp: Let_def andthen_def exchange_outcome_def inference_def)
    qed
  qed
qed (simp add: give_def)

section \<open>A run returns\<close>

text \<open>The parsers return on every input.\<close>

lemma pump_returns: "consuming h rank \<Longrightarrow> pump_responses h t x \<noteq> None"
  using pump_responses_total[of h rank "\<lambda>_ _. True" x t "\<lambda>_ _. True"] by auto

lemma feed_client_total: "consuming h rank \<Longrightarrow> feed_client h d ts a \<noteq> None"
  using pump_returns[of h rank] pump_requests_total[of h rank "\<lambda>_. True" _ ts]
  by (auto simp: feed_client_def bind_eq_None_conv simp del: not_None_eq)

lemma feed_server_total: "consuming h rank \<Longrightarrow> feed_server h d ts a \<noteq> None"
  using pump_returns[of h rank] by (simp add: feed_server_def)

lemma finish_assembler_total: "consuming h rank \<Longrightarrow> finish_assembler h ts a \<noteq> None"
  using pump_returns[of h rank]
  by (auto simp: finish_assembler_def bind_eq_None_conv case_prod_beta simp del: not_None_eq)

text \<open>A reader none of whose objects has the wrong shape: what is read from such a capture.\<close>

definition shaped_reader :: "json_reader \<Rightarrow> bool" where
  "shaped_reader loads \<longleftrightarrow> (\<forall>d b. loads d = Some (JDict b) \<longrightarrow> well_shaped b)"

lemma dget_dset: "dget (dset (uni k) v d) k' = (if uni k = uni k' then v else dget d k')"
  by (simp add: dget_def update_conv')

lemma uni_eq [simp]: "uni s = uni t \<longleftrightarrow> s = t"
  by (auto simp: uni_def inj_map_eq_map inj_on_def)

lemma merge_usage:
  assumes "\<forall>ev \<in> set events. object_or_nothing (dget ev ''usage'')"
    "object_or_nothing (dget (ms_merged st) ''usage'')"
  shows "object_or_nothing (dget (ms_merged (fold (merge_event kind) events st)) ''usage'')"
  using assms
proof (induction events arbitrary: st)
  case (Cons ev events)
  have "ms_merged (merge_event kind ev st) = merge_scalars ev (ms_merged st)"
    by (auto simp: merge_event_def merge_choice_def Let_def split: json.splits list.splits)
  moreover have "object_or_nothing (dget (merge_scalars ev (ms_merged st)) ''usage'')"
    using Cons.prems by (simp add: merge_scalars_def keep_last_def dget_dset)
  ultimately show ?case using Cons.IH[of "merge_event kind ev st"] Cons.prems by simp
qed simp

lemma block_event_read:
  "block_event loads block = Some ev \<Longrightarrow> loads (join_with [10] (data_lines block)) = Some (JDict ev)"
  by (simp add: block_event_def Let_def split: option.splits json.splits if_splits)

lemma set_map_filter: "set (List.map_filter f xs) = {y. \<exists>x \<in> set xs. f x = Some y}"
  by (induction xs) (auto simp: map_filter_simps split: option.splits)

lemma parse_sse_shaped:
  "shaped_reader loads \<Longrightarrow> ev \<in> set (parse_sse_events loads body) \<Longrightarrow> well_shaped ev"
  by (auto simp: parse_sse_events_def set_map_filter shaped_reader_def dest: block_event_read)

lemma merged_shaped:
  assumes "shaped_reader loads"
  shows "well_shaped (merge_stream_events kind (parse_sse_events loads body))"
proof -
  have "object_or_nothing (dget (ms_merged (fold (merge_event kind) (parse_sse_events loads body) merge_start)) ''usage'')"
    using merge_usage[of "parse_sse_events loads body" merge_start kind] parse_sse_shaped[OF assms]
    by (auto simp: merge_start_def dget_def object_or_nothing_def well_shaped_def)
  moreover have "object_or_nothing (dget (merged_choice kind st) ''message'')" for st
    by (cases kind) (simp_all add: merged_choice_def dget_def object_or_nothing_def)
  ultimately show ?thesis
    by (simp add: well_shaped_def merge_stream_events_def Let_def dget_dset jget_def)
qed

lemma well_shaped_empty: "well_shaped []"
  by (simp add: well_shaped_def dget_def object_or_nothing_def jget_def)

lemma response_object_shaped:
  assumes "shaped_reader loads"
  shows "well_shaped (response_object loads kind r)"
proof (cases r)
  case (Some m)
  have "message_json loads m = Some d \<Longrightarrow> loads (hm_body m) = Some (JDict d)" for d
    by (simp add: message_json_def split: option.splits json.splits)
  with Some assms merged_shaped[OF assms] well_shaped_empty show ?thesis
    by (auto simp: response_object_def shaped_reader_def split: option.split)
qed (simp add: response_object_def well_shaped_empty)

lemma shaped_reader_responses: "shaped_reader (cf_loads cf) \<Longrightarrow> response_shaped cf x"
  by (simp add: response_shaped_def response_object_shaped split: option.split)

text \<open>
  The exchanges a run hands out. \<open>last_words\<close>: what the parsers of connections \<open>cs\<close> still hold when they
  are finished. \<open>hands_out\<close>: what one segment brings, from the bytes it lets through, from the connection
  it completes, from the connections the sweep after it finds idle. \<open>handed_out\<close>: what a run over \<open>sgs\<close> does,
  from its segments in turn and from the connections open at its end.
\<close>

definition parser_for :: "'c http_lib \<Rightarrow> 'c processor \<Rightarrow> connection \<Rightarrow> 'c assembler" where
  "parser_for L p cn =
     (case map_of (pr_parsers p) (conn_key cn) of
        Some a \<Rightarrow> a | None \<Rightarrow> new_assembler (hl_server L) (hl_client L))"

inductive last_words ::
  "'c http_lib \<Rightarrow> 'c processor \<Rightarrow> connection list \<Rightarrow> real option \<Rightarrow> exchange \<Rightarrow> bool" for L p cs ts x where
  finished: "cn \<in> set cs \<Longrightarrow> map_of (pr_parsers p) (conn_key cn) = Some a \<Longrightarrow>
    finish_assembler (hl_h11 L) ts a = Some (exs, b) \<Longrightarrow> x \<in> set exs \<Longrightarrow> last_words L p cs ts x"

definition after_delivery :: "'c http_lib \<Rightarrow> tap_cfg \<Rightarrow> tcp_segment \<Rightarrow> 'c processor \<Rightarrow> 'c processor run" where
  "after_delivery L cf sg p =
     (let (delivery, t) = table_feed (cf_max_stranded cf) sg (pr_table p);
          p1 = p\<lparr>pr_last_ts := Some (sg_ts sg), pr_table := t\<rparr> in
      case delivery of None \<Rightarrow> give p1 | Some d \<Rightarrow> deliver L cf d p1)"

inductive hands_out ::
  "'c http_lib \<Rightarrow> tap_cfg \<Rightarrow> 'c processor \<Rightarrow> tcp_segment \<Rightarrow> exchange \<Rightarrow> bool" for L cf p sg x where
  fed: "table_feed (cf_max_stranded cf) sg (pr_table p) = (Some d, t) \<Longrightarrow> dl_data d \<noteq> [] \<Longrightarrow>
    (if dl_from_client d then feed_client else feed_server) (hl_h11 L) (dl_data d) (Some (dl_ts d))
      (parser_for L p (dl_conn d)) = Some (exs, a) \<Longrightarrow> x \<in> set exs \<Longrightarrow> hands_out L cf p sg x"
| completed: "table_feed (cf_max_stranded cf) sg (pr_table p) = (Some d, t) \<Longrightarrow> dl_completed d \<Longrightarrow>
    snd (parse_delivery L cf d (parser_for L p (dl_conn d))) = Some a \<Longrightarrow>
    finish_assembler (hl_h11 L) (Some (dl_ts d)) a = Some (exs, b) \<Longrightarrow> x \<in> set exs \<Longrightarrow> hands_out L cf p sg x"
| swept: "snd (after_delivery L cf sg p) = Some p2 \<Longrightarrow> pr_next_idle_sweep p2 = Some due \<Longrightarrow>
    due \<le> sg_ts sg \<Longrightarrow>
    last_words L p2 (fst (idle_flush (sg_ts sg) (cf_idle_timeout cf) (pr_table p2))) (Some (sg_ts sg)) x \<Longrightarrow>
    hands_out L cf p sg x"

inductive handed_out ::
  "'c http_lib \<Rightarrow> tap_cfg \<Rightarrow> tcp_segment list \<Rightarrow> exchange \<Rightarrow> bool" for L cf sgs x where
  during: "sgs = pre @ sg # post \<Longrightarrow> snd (feed_segments L cf pre new_processor) = Some p \<Longrightarrow>
    hands_out L cf p sg x \<Longrightarrow> handed_out L cf sgs x"
| at_end: "snd (feed_segments L cf sgs new_processor) = Some p \<Longrightarrow> pr_last_ts p = Some ts \<Longrightarrow>
    last_words L p (map snd (tb_conns (pr_table p))) (Some ts) x \<Longrightarrow> handed_out L cf sgs x"

text \<open>A step of the run stops exactly when one of the exchanges it hands out is misshapen.\<close>

lemma andthen_None_iff:
  "snd (andthen m f) = None \<longleftrightarrow> snd m = None \<or> (\<exists>s. snd m = Some s \<and> snd (f s) = None)"
  by (auto simp: andthen_def split: option.split)

lemma close_connection_None_iff:
  assumes "consuming (hl_h11 L) rank"
  shows "snd (close_connection L cf cn ts p) = None \<longleftrightarrow>
     (\<exists>x. last_words L p [cn] ts x \<and> \<not> response_shaped cf x)"
proof (cases "map_of (pr_parsers p) (conn_key cn)")
  case (Some a)
  obtain exs b where "finish_assembler (hl_h11 L) ts a = Some (exs, b)"
    using finish_assembler_total[OF assms, of ts a] by auto
  with Some show ?thesis
    by (auto simp: close_connection_def andthen_None_iff messages_None_iff last_words.simps)
qed (simp add: close_connection_def last_words.simps)

lemma close_connection_parsers:
  "snd (close_connection L cf cn ts p) = Some q \<Longrightarrow>
     map_of (pr_parsers q) k = (if k = conn_key cn then None else map_of (pr_parsers p) k)"
  by (auto simp: close_connection_def delete_conv' elim!: andthen_SomeD split: option.splits)

lemma close_all_None_iff:
  assumes "consuming (hl_h11 L) rank"
  shows "snd (close_all L cf cs ts p) = None \<longleftrightarrow>
     (\<exists>x. last_words L p cs ts x \<and> \<not> response_shaped cf x)"
proof (induction cs arbitrary: p)
  case (Cons cn cs)
  let ?bad = "\<lambda>p cs. \<exists>x. last_words L p cs ts x \<and> \<not> response_shaped cf x"
  have each: "?bad p cs \<longleftrightarrow> (\<exists>cn' \<in> set cs. ?bad p [cn'])" for p cs
    by (simp add: last_words.simps) blast
  show ?case
  proof (cases "snd (close_connection L cf cn ts p)")
    case None
    then have "?bad p [cn]" using close_connection_None_iff[OF assms] by blast
    then have "?bad p (cn # cs)" using each[of p "cn # cs"] by simp
    then show ?thesis using None by (simp add: andthen_None)
  next
    case (Some q)
    then have not: "\<not> ?bad p [cn]" using close_connection_None_iff[OF assms, of cf cn ts p] by simp
    have "?bad q [cn'] \<longleftrightarrow> ?bad p [cn']" for cn'
    proof (cases "conn_key cn' = conn_key cn")
      case True
      then show ?thesis using not close_connection_parsers[OF Some, of "conn_key cn"] by (simp add: last_words.simps)
    next
      case False
      then show ?thesis using close_connection_parsers[OF Some, of "conn_key cn'"] by (simp add: last_words.simps)
    qed
    then have "?bad q cs \<longleftrightarrow> ?bad p cs" using each[of q cs] each[of p cs] by simp
    also have "\<dots> \<longleftrightarrow> ?bad p [cn] \<or> ?bad p cs" using not by blast
    also have "\<dots> \<longleftrightarrow> ?bad p (cn # cs)" by (simp add: last_words.simps) blast
    finally show ?thesis using Some Cons.IH[of q] by (simp add: andthen_Some)
  qed
qed (simp add: last_words.simps)

lemma parse_delivery_None_iff:
  assumes "consuming (hl_h11 L) rank"
  shows "snd (parse_delivery L cf d a) = None \<longleftrightarrow> dl_data d \<noteq> [] \<and>
     (\<exists>exs b x. (if dl_from_client d then feed_client else feed_server) (hl_h11 L) (dl_data d) (Some (dl_ts d)) a
        = Some (exs, b) \<and> x \<in> set exs \<and> \<not> response_shaped cf x)"
proof (cases "dl_data d = []")
  case False
  have "(if dl_from_client d then feed_client else feed_server) (hl_h11 L) (dl_data d) (Some (dl_ts d)) a \<noteq> None"
    using feed_client_total[OF assms] feed_server_total[OF assms] by (simp del: not_None_eq)
  then obtain exs b where
    "(if dl_from_client d then feed_client else feed_server) (hl_h11 L) (dl_data d) (Some (dl_ts d)) a
      = Some (exs, b)"
    by (metis not_None_eq surj_pair)
  with False show ?thesis
    by (auto simp: parse_delivery_def Let_def andthen_None_iff messages_None_iff)
qed (simp add: parse_delivery_def)

lemma after_delivery_None_iff:
  assumes "consuming (hl_h11 L) rank"
  shows "snd (after_delivery L cf sg p) = None \<longleftrightarrow>
     (\<exists>d t. table_feed (cf_max_stranded cf) sg (pr_table p) = (Some d, t) \<and>
       (snd (parse_delivery L cf d (parser_for L p (dl_conn d))) = None \<or>
        (\<exists>a exs b x. dl_completed d \<and> snd (parse_delivery L cf d (parser_for L p (dl_conn d))) = Some a \<and>
           finish_assembler (hl_h11 L) (Some (dl_ts d)) a = Some (exs, b) \<and> x \<in> set exs \<and> \<not> response_shaped cf x)))"
proof -
  obtain dl t where tf: "table_feed (cf_max_stranded cf) sg (pr_table p) = (dl, t)"
    by (cases "table_feed (cf_max_stranded cf) sg (pr_table p)")
  show ?thesis
    by (cases dl) (auto simp: after_delivery_def tf deliver_def parser_for_def andthen_None_iff Let_def
        close_connection_None_iff[OF assms] last_words.simps update_conv')
qed

lemma feed_segment_after:
  "feed_segment L cf sg p = andthen (after_delivery L cf sg p)
     (\<lambda>p2. case pr_next_idle_sweep p2 of
        None \<Rightarrow> give (p2\<lparr>pr_next_idle_sweep := Some (sg_ts sg + cf_idle_sweep_interval cf)\<rparr>)
      | Some due \<Rightarrow> if sg_ts sg \<ge> due then sweep_idle L cf (sg_ts sg) p2 else give p2)"
  by (simp add: feed_segment_def after_delivery_def Let_def case_prod_beta)

lemma sweep_None_iff:
  assumes "consuming (hl_h11 L) rank"
  shows "snd (case pr_next_idle_sweep p of None \<Rightarrow> give (p\<lparr>pr_next_idle_sweep := next\<rparr>)
      | Some due \<Rightarrow> if now \<ge> due then sweep_idle L cf now p else give p) = None \<longleftrightarrow>
     (\<exists>due x. pr_next_idle_sweep p = Some due \<and> due \<le> now \<and>
        last_words L p (fst (idle_flush now (cf_idle_timeout cf) (pr_table p))) (Some now) x \<and>
        \<not> response_shaped cf x)"
  by (auto simp: sweep_idle_def Let_def case_prod_beta andthen_None_iff close_all_None_iff[OF assms]
      last_words.simps split: option.split)

lemma feed_segment_None_iff:
  assumes "consuming (hl_h11 L) rank"
  shows "snd (feed_segment L cf sg p) = None \<longleftrightarrow> (\<exists>x. hands_out L cf p sg x \<and> \<not> response_shaped cf x)"
  unfolding feed_segment_after andthen_None_iff sweep_None_iff[OF assms] after_delivery_None_iff[OF assms]
    parse_delivery_None_iff[OF assms] hands_out.simps
  by blast

lemma feed_segments_None_iff:
  assumes "consuming (hl_h11 L) rank"
  shows "snd (feed_segments L cf sgs p) = None \<longleftrightarrow>
     (\<exists>pre sg post q x. sgs = pre @ sg # post \<and> snd (feed_segments L cf pre p) = Some q \<and>
        hands_out L cf q sg x \<and> \<not> response_shaped cf x)"
proof (induction sgs arbitrary: p)
  case (Cons s0 sgs)
  let ?bad = "\<lambda>q sg. \<exists>x. hands_out L cf q sg x \<and> \<not> response_shaped cf x"
  show ?case
  proof (cases "snd (feed_segment L cf s0 p)")
    case None
    then have "?bad p s0" using feed_segment_None_iff[OF assms] by blast
    then have "\<exists>x. s0 # sgs = [] @ s0 # sgs \<and> snd (feed_segments L cf [] p) = Some p \<and>
        hands_out L cf p s0 x \<and> \<not> response_shaped cf x" by simp
    then show ?thesis using None unfolding feed_segments.simps(2) andthen_None_iff by blast
  next
    case (Some q)
    then have not: "\<not> ?bad p s0" using feed_segment_None_iff[OF assms, of cf s0 p] by simp
    have step: "snd (feed_segments L cf (s0 # pre) p) = snd (feed_segments L cf pre q)" for pre
      using Some by (simp add: andthen_Some)
    have lr: "(\<exists>pre sg post r. s0 # sgs = pre @ sg # post \<and> snd (feed_segments L cf pre p) = Some r \<and> ?bad r sg) \<longleftrightarrow>
        (\<exists>pre sg post r. sgs = pre @ sg # post \<and> snd (feed_segments L cf pre q) = Some r \<and> ?bad r sg)"
      (is "?l \<longleftrightarrow> ?r")
    proof
      assume ?l
      then obtain pre sg post r where l: "s0 # sgs = pre @ sg # post" "snd (feed_segments L cf pre p) = Some r" "?bad r sg"
        by blast
      show ?r
      proof (cases pre)
        case Nil
        with l not show ?thesis by simp
      next
        case (Cons s1 pre')
        with l have "sgs = pre' @ sg # post" "snd (feed_segments L cf pre' q) = Some r"
          using step[of pre'] by auto
        with l(3) show ?thesis by blast
      qed
    next
      assume ?r
      then obtain pre sg post r where "sgs = pre @ sg # post" "snd (feed_segments L cf pre q) = Some r" "?bad r sg"
        by blast
      then have "s0 # sgs = (s0 # pre) @ sg # post" "snd (feed_segments L cf (s0 # pre) p) = Some r" "?bad r sg"
        using step[of pre] by simp_all
      then show ?l by blast
    qed
    have "snd (feed_segments L cf (s0 # sgs) p) = None \<longleftrightarrow>
        (\<exists>pre sg post r. sgs = pre @ sg # post \<and> snd (feed_segments L cf pre q) = Some r \<and> ?bad r sg)"
      unfolding step Cons.IH by blast
    then show ?thesis unfolding lr[symmetric] by blast
  qed
qed simp

lemma process_segments_None_iff:
  assumes "consuming (hl_h11 L) rank"
  shows "snd (process_segments L cf inc exc sgs) = None \<longleftrightarrow>
     (\<exists>x. handed_out L cf (filter (\<lambda>sg. ports_allowed (sg_sport sg) (sg_dport sg) inc exc) sgs) x \<and>
        \<not> response_shaped cf x)"
proof -
  have fin: "snd (finish_processor L cf p) = None \<longleftrightarrow>
      (\<exists>ts x. pr_last_ts p = Some ts \<and> last_words L p (map snd (tb_conns (pr_table p))) (Some ts) x \<and>
         \<not> response_shaped cf x)" for p
    by (auto simp: finish_processor_def drain_def close_all_None_iff[OF assms] last_words.simps
        split: option.split)
  show ?thesis
    unfolding process_segments_def andthen_None_iff feed_segments_None_iff[OF assms] fin handed_out.simps
    by blast
qed

section \<open>The worker's account\<close>

lemma publish_one_counts:
  "wk_messages w = wk_dropped w + taken + length (wk_queue w) \<Longrightarrow>
     wk_messages (publish_one n x w) = wk_dropped (publish_one n x w) + taken + length (wk_queue (publish_one n x w))"
  by (auto simp: publish_one_def split: tap_out.splits)

lemma publish_one_queue: "length (wk_queue w) \<le> n \<Longrightarrow> length (wk_queue (publish_one n x w)) \<le> n"
  by (auto simp: publish_one_def split: tap_out.splits)

lemma publish_one_rest [simp]:
  "wk_running (publish_one n x w) = wk_running w" "wk_errors (publish_one n x w) = wk_errors w"
  "wk_processed (publish_one n x w) = wk_processed w" "wk_processor (publish_one n x w) = wk_processor w"
  by (auto simp: publish_one_def split: tap_out.splits)

lemma fold_publish:
  "wk_messages (fold (publish_one n) os w) = wk_messages w + length (tapped os)"
  "wk_status (fold (publish_one n) os w) = wk_status w @ found os"
  "wk_running (fold (publish_one n) os w) = wk_running w"
  "wk_errors (fold (publish_one n) os w) = wk_errors w"
  "wk_processed (fold (publish_one n) os w) = wk_processed w"
  by (induction os arbitrary: w rule: tapped.induct) (auto simp: publish_one_def)

lemma fold_publish_counts:
  "wk_messages w = wk_dropped w + taken + length (wk_queue w) \<Longrightarrow> length (wk_queue w) \<le> n \<Longrightarrow>
     wk_messages (fold (publish_one n) os w) =
       wk_dropped (fold (publish_one n) os w) + taken + length (wk_queue (fold (publish_one n) os w)) \<and>
     length (wk_queue (fold (publish_one n) os w)) \<le> n"
  by (induction os arbitrary: w) (simp_all add: publish_one_counts publish_one_queue)

text \<open>\<open>taken\<close> counts what the parent has taken off the queue.\<close>

definition worker_inv :: "nat \<Rightarrow> nat \<Rightarrow> 'c worker \<Rightarrow> bool" where
  "worker_inv n taken w \<longleftrightarrow> wk_messages w = wk_dropped w + taken + length (wk_queue w) \<and>
     length (wk_queue w) \<le> n \<and> wk_errors w \<le> 1 \<and> (wk_running w \<longrightarrow> wk_errors w = 0)"

lemma publish_inv: "worker_inv n taken w \<Longrightarrow> wk_running w \<Longrightarrow> worker_inv n taken (publish n r w)"
  using fold_publish_counts[of w taken n "fst r"] fold_publish[of n "fst r" w]
  by (auto simp: worker_inv_def publish_def Let_def split: option.splits)

lemma worker_inv_processed [simp]:
  "worker_inv n taken (w\<lparr>wk_processed := k\<rparr>) = worker_inv n taken w"
  by (simp add: worker_inv_def)

lemma worker_inv_stop: "worker_inv n taken w \<Longrightarrow> worker_inv n taken (w\<lparr>wk_running := False\<rparr>)"
  by (simp add: worker_inv_def)

fun takes :: "worker_input \<Rightarrow> 'c worker \<Rightarrow> nat" where
  "takes Parent_takes w = (if wk_queue w = [] then 0 else 1)"
| "takes _ w = 0"

lemma worker_step_inv:
  assumes "worker_inv n taken w"
  shows "worker_inv n (taken + takes i w) (worker_step L cf n i w)"
proof (cases i)
  case (Segment sg)
  with assms publish_inv[of n taken "w\<lparr>wk_processed := wk_processed w + 1\<rparr>"] show ?thesis
    by (simp add: worker_step_def)
next
  case (Queue_empty now)
  with assms publish_inv[of n taken w] show ?thesis by (simp add: worker_step_def)
next
  case Stop_sentinel
  with assms publish_inv[of n taken w] show ?thesis by (simp add: worker_step_def worker_inv_stop)
next
  case Parent_takes
  with assms show ?thesis by (cases "wk_queue w") (auto simp: worker_step_def worker_inv_def)
qed

fun taken_in :: "'c http_lib \<Rightarrow> tap_cfg \<Rightarrow> nat \<Rightarrow> worker_input list \<Rightarrow> 'c worker \<Rightarrow> nat" where
  "taken_in L cf n [] w = 0"
| "taken_in L cf n (i # is) w = takes i w + taken_in L cf n is (worker_step L cf n i w)"

lemma run_inv:
  "worker_inv n taken w \<Longrightarrow>
     worker_inv n (taken + taken_in L cf n is w) (fold (worker_step L cf n) is w)"
proof (induction "is" arbitrary: taken w)
  case (Cons i "is")
  from Cons.IH[OF worker_step_inv[OF Cons.prems]] show ?case by (simp add: add.assoc)
qed simp

lemma new_worker_inv: "worker_inv n 0 new_worker"
  by (simp add: worker_inv_def new_worker_def)

text \<open>A worker that has stopped builds nothing more.\<close>

lemma stopped_step:
  "\<not> wk_running w \<Longrightarrow> \<exists>q. worker_step L cf n i w = w\<lparr>wk_queue := q\<rparr>"
  by (cases i) (auto simp: worker_step_def intro: exI[of _ "wk_queue w"])

lemma stopped_run:
  "\<not> wk_running w \<Longrightarrow> \<exists>q. fold (worker_step L cf n) is w = w\<lparr>wk_queue := q\<rparr>"
proof (induction "is" arbitrary: w)
  case (Cons i "is")
  obtain q where "worker_step L cf n i w = w\<lparr>wk_queue := q\<rparr>" using stopped_step[OF Cons.prems] by blast
  moreover obtain q' where "fold (worker_step L cf n) is (w\<lparr>wk_queue := q\<rparr>) = w\<lparr>wk_queue := q, wk_queue := q'\<rparr>"
    using Cons.IH[of "w\<lparr>wk_queue := q\<rparr>"] Cons.prems by auto
  ultimately show ?case by (intro exI[of _ q']) simp
next
  case Nil
  show ?case by (rule exI[of _ "wk_queue w"]) simp
qed

section \<open>Samples\<close>

text \<open>
  A framing library whose connections are the events still to come, one a byte, and a reader that knows
  a request naming a model and two responses: one is an object, the usage of the other a number.
\<close>

definition scripted_event :: "byte \<Rightarrow> h11_event option" where
  "scripted_event b =
     (if b = 1 then Some (Ev_request [] [80, 79, 83, 84]
        [47, 118, 49, 47, 99, 111, 109, 112, 108, 101, 116, 105, 111, 110, 115])
      else if b = 3 then Some Ev_end_of_message
      else if b = 4 then Some (Ev_response [] 200)
      else Some (Ev_data [b]))"

definition scripted_h11 :: "bytes h11" where
  "scripted_h11 = sample_h11\<lparr>h_next_event :=
     (\<lambda>c. case c of [] \<Rightarrow> (Some Need_data, []) | b # r \<Rightarrow> (scripted_event b, r))\<rparr>"

definition scripted_lib :: "bytes \<Rightarrow> bytes http_lib" where
  "scripted_lib replies = \<lparr>hl_h11 = scripted_h11, hl_server = [], hl_client = replies\<rparr>"

definition sample_reader :: json_reader where
  "sample_reader d =
     (if d = [2] then Some (JDict [(uni ''model'', JStr (uni ''m''))])
      else if d = [5] then Some (JDict [(uni ''usage'', JDict [])])
      else if d = [6] then Some (JDict [(uni ''usage'', JInt 1)])
      else None)"

definition sample_cfg :: tap_cfg where
  "sample_cfg = \<lparr>cf_exclude_prefixes = [''verify-''], cf_allowed_endpoints = [''/health''],
     cf_hostname_map = [(uni ''m'', uni ''host'')], cf_version = [], cf_idle_timeout = 60,
     cf_idle_sweep_interval = 30, cf_max_stranded = 100, cf_loads = sample_reader,
     cf_iso = (\<lambda>_. []), cf_repr = (\<lambda>_. []), cf_lower = id\<rparr>"

lemma turn_on: "fst (f s) \<Longrightarrow> turns f s = turns f (snd (f s))"
  by (subst turns.simps) (simp add: Let_def)

lemma turn_off: "\<not> fst (f s) \<Longrightarrow> turns f s = Some (snd (f s))"
  by (subst turns.simps) (simp add: Let_def)

lemmas pump_simps = feed_client_def pump_requests_def pump_responses_def turn_on turn_off request_turn_def
  new_assembler_def scripted_h11_def sample_h11_def scripted_event_def request_event_def next_request_cycle_def
  response_loop_turn_def response_turn_def prime_def prime_method_def next_response_def response_event_def
  response_end_def pair_def next_response_cycle_def headers_to_dict_def no_method_is_coming_def

definition sample_exchange :: "byte \<Rightarrow> exchange" where
  "sample_exchange b =
     \<lparr>ex_request = \<lparr>hm_headers = [], hm_body = [2], hm_method = Some ''POST'',
                     hm_path = Some ''/v1/completions'', hm_status = None, hm_truncated = False\<rparr>,
      ex_response = Some \<lparr>hm_headers = [], hm_body = [b], hm_method = None, hm_path = None,
                          hm_status = Some 200, hm_truncated = False\<rparr>,
      ex_received_at = Some 0, ex_completed_at = Some 0\<rparr>"

lemma sample_cfg_simps [simp]:
  "cf_loads sample_cfg = sample_reader" "cf_max_stranded sample_cfg = 100"
  by (simp_all add: sample_cfg_def)

lemma scripted_names [simp]:
  "latin1 [80, 79, 83, 84] = ''POST''"
  "latin1 [47, 118, 49, 47, 99, 111, 109, 112, 108, 101, 116, 105, 111, 110, 115] = ''/v1/completions''"
  by code_simp+

lemma scripted_feed:
  assumes "b = 5 \<or> b = 6"
  shows "\<exists>a. feed_client scripted_h11 [1, 2, 3] (Some 0) (new_assembler [] [4, b, 3]) =
     Some ([sample_exchange b], a) \<and> \<not> unparseable a"
proof (cases "b = 5")
  case True
  show ?thesis unfolding True by (simp add: pump_simps Let_def sample_exchange_def)
next
  case False
  with assms have b: "b = 6" by simp
  show ?thesis unfolding b by (simp add: pump_simps Let_def sample_exchange_def)
qed

lemma sample_endpoint:
  "bare_path (Some ''/v1/completions'') = ''/v1/completions''"
  "find (ends_with ''/v1/completions'') LLM_ENDPOINTS = Some ''/v1/completions''"
  by code_simp+

lemma sample_classified:
  "classify_exchange sample_cfg (sample_exchange b) =
     Some \<lparr>lc_endpoint = ''/v1/completions'', lc_model_name = uni ''m'',
           lc_request_body = [(uni ''model'', JStr (uni ''m''))]\<rparr>"
  by (simp add: classify_exchange_def sample_exchange_def sample_cfg_def Let_def header_def
      is_verifier_traffic_def sample_endpoint message_json_def sample_reader_def dget_def)
     (simp add: uni_def)

lemma sample_delivery:
  "\<exists>d t. table_feed 100 (sample_segment 0 [1, 2, 3]) (new_table False) = (Some d, t) \<and>
     dl_data d = [1, 2, 3] \<and> dl_from_client d \<and> dl_ts d = 0 \<and> \<not> dl_completed d"
  by (simp add: table_feed_def open_connection_def new_table_def sample_segment_def roles_def
      Let_def case_prod_beta stream_feed_def note_segment_def new_stream_def conn_stream_def before_def SEQ_MOD_def
      accept_def put_stream_def conn_complete_def)

lemma sample_response:
  "response_object sample_reader Text (ex_response (sample_exchange 5)) = [(uni ''usage'', JDict [])]"
  "response_object sample_reader Text (ex_response (sample_exchange 6)) = [(uni ''usage'', JInt 1)]"
  by (simp_all add: response_object_def sample_exchange_def is_sse_def message_json_def sample_reader_def)

lemma sample_shaped: "response_shaped sample_cfg (sample_exchange 5)"
  by (simp add: response_shaped_def sample_classified object_kind_of_def)
    (simp add: sample_response well_shaped_def object_or_nothing_def dget_def jget_def)

section \<open>Properties\<close>

text \<open>C4: No exchange disappears before the run stops. The exchanges of a connection are worked through in
  order, to the end unless one of them is an inference with a misshapen response, and then up to the first
  such. A response is misshapen when its usage or the message of its first choice has a truthy value (not
  null, false, zero or empty) that is no object, or its choices have one that is neither a list nor a text.
  Of those worked through, every inference becomes one tap message, in the order of completion, built from
  that exchange and its times, with the endpoint asked for and the host of the model named; every other one
  becomes one unexpected-exchange finding with the reason, the address that answered and the time of
  completion (or else of receipt, or of the connection's last segment), unless it is the verifier's own or
  asks for one of the allowed paths; and nothing else is written.\<close>

theorem exchanges_accounted:
  "let worked = takeWhile (response_shaped cf) xs; (outs, r) = messages cf conn xs;
       observed_on = address_text (responder conn) in
     (r = Some () \<longleftrightarrow> worked = xs) \<and>
     list_all2 (\<lambda>x m. \<exists>cl. classify_exchange cf x = Some cl \<and>
         td_hostname m = resolve_hostname cf (lc_model_name cl) \<and> td_endpoint m = lc_endpoint cl \<and>
         build_tap_message cf x cl (or_ts (ex_received_at x) (conn_first_ts conn))
           (or_ts (ex_completed_at x) (conn_last_ts conn)) (Some observed_on) = Some m)
       (filter (inference cf) worked) (tapped outs) \<and>
     list_all2 (\<lambda>x f. unexpected_reason cf x = Some (ef_detail f) \<and> ef_kind f = ''unexpected-exchange'' \<and>
         ef_observed_on f = observed_on \<and>
         ef_ts f = (case or_ts (ex_completed_at x) (or_ts (ex_received_at x) (conn_last_ts conn)) of Some t \<Rightarrow> t | None \<Rightarrow> 0))
       (filter (\<lambda>x. \<not> inference cf x \<and> \<not> permitted cf x) worked) (found outs)"
proof -
  have "snd (messages cf conn xs) = Some () \<longleftrightarrow> takeWhile (response_shaped cf) xs = xs"
    using messages_None_iff[where cf = cf and conn = conn and xs = xs]
    by (cases "snd (messages cf conn xs)") (auto simp: takeWhile_eq_all_conv)
  then show ?thesis
    using messages_outputs[where cf = cf and conn = conn and xs = xs] by (simp add: Let_def case_prod_beta)
qed

text \<open>The tap stops on exactly one thing. The exchanges of a connection are worked through to the
  last, unless there is an inference among them whose response body puts a truthy value that is no object
  where the usage or the message belongs, or one that is neither a list nor a text where the choices do.\<close>

theorem tap_stops_iff:
  "snd (messages cf conn xs) = None \<longleftrightarrow>
     (\<exists>x cl. x \<in> set xs \<and> classify_exchange cf x = Some cl \<and>
       \<not> well_shaped (response_object (cf_loads cf) (object_kind_of (lc_endpoint cl)) (ex_response x)))"
  by (auto simp: messages_None_iff response_shaped_def split: option.splits)

text \<open>C17: A run over a capture stops for one reason only. With a framing library that uses up what it is
  fed, and whatever the segments are and in whatever order, the run returns, leaving no connection and no
  parser behind, unless one of the exchanges that its own parsers hand out on the way is an inference with a
  misshapen response (a usage or first message that is truthy and no object, or choices that are truthy and
  neither a list nor a text); then it raises.\<close>

theorem tap_run_returns:
  assumes "consuming (hl_h11 L) rank"
  shows "case snd (process_segments L cf inc exc sgs) of
      Some q \<Rightarrow> pr_parsers q = [] \<and> tb_conns (pr_table q) = [] \<and>
        (\<forall>x. handed_out L cf (filter (\<lambda>sg. ports_allowed (sg_sport sg) (sg_dport sg) inc exc) sgs) x \<longrightarrow>
           response_shaped cf x)
    | None \<Rightarrow>
        (\<exists>x cl. handed_out L cf (filter (\<lambda>sg. ports_allowed (sg_sport sg) (sg_dport sg) inc exc) sgs) x \<and>
           classify_exchange cf x = Some cl \<and>
           \<not> well_shaped (response_object (cf_loads cf) (object_kind_of (lc_endpoint cl)) (ex_response x)))"
proof (cases "snd (process_segments L cf inc exc sgs)")
  case None
  with process_segments_None_iff[OF assms, of cf inc exc sgs]
  obtain x where "handed_out L cf (filter (\<lambda>sg. ports_allowed (sg_sport sg) (sg_dport sg) inc exc) sgs) x"
    "\<not> response_shaped cf x" by blast
  then show ?thesis unfolding None option.case misshapen_iff by blast
next
  case (Some q)
  with process_segments_None_iff[OF assms, of cf inc exc sgs]
  have "\<forall>x. handed_out L cf (filter (\<lambda>sg. ports_allowed (sg_sport sg) (sg_dport sg) inc exc) sgs) x \<longrightarrow>
      response_shaped cf x" by (metis option.distinct(1))
  then show ?thesis unfolding Some option.case using process_segments_empty[OF Some] by blast
qed

lemma scripted_consuming: "consuming scripted_h11 length"
  by (auto simp: consuming_def scripted_h11_def sample_h11_def split: list.splits)

theorem tap_run_returns_witness:
  "\<exists>q. snd (process_segments (scripted_lib [4, 5, 3])
       (sample_cfg\<lparr>cf_loads := \<lambda>d. if d = [6] then None else sample_reader d\<rparr>) None {}
       [sample_segment 0 [1, 2, 3]]) = Some q \<and> pr_parsers q = [] \<and> tb_conns (pr_table q) = []"
proof -
  let ?cf = "sample_cfg\<lparr>cf_loads := \<lambda>d. if d = [6] then None else sample_reader d\<rparr>"
  have shaped: "response_shaped ?cf x" for x
    by (rule shaped_reader_responses)
      (simp add: shaped_reader_def sample_reader_def well_shaped_def object_or_nothing_def dget_def jget_def)
  have sh: "\<not> (classify_exchange ?cf x = Some cl \<and>
      \<not> well_shaped (response_object (cf_loads ?cf) (object_kind_of (lc_endpoint cl)) (ex_response x)))" for x cl
    using shaped[of x] misshapen_iff[of ?cf x] by blast
  have "consuming (hl_h11 (scripted_lib [4, 5, 3])) length"
    by (simp add: scripted_lib_def scripted_consuming)
  note t = tap_run_returns[OF this, where cf = ?cf and inc = None and exc = "{}" and sgs = "[sample_segment 0 [1, 2, 3]]"]
  show ?thesis
  proof (cases "snd (process_segments (scripted_lib [4, 5, 3]) ?cf None {} [sample_segment 0 [1, 2, 3]])")
    case None
    from t[unfolded None option.case] sh show ?thesis by blast
  next
    case (Some q)
    from t[unfolded Some option.case] Some show ?thesis by blast
  qed
qed

text \<open>A worker's books balance. Whatever segments and timer ticks it sees and however the parent
  drains its bounded queue, every message built was taken by the parent, waits in the queue, or was
  counted as dropped.\<close>

theorem worker_accounts:
  "let w = run_worker L cf n inputs in
     wk_messages w = wk_dropped w + taken_in L cf n inputs new_worker + length (wk_queue w) \<and>
     length (wk_queue w) \<le> n \<and> wk_errors w \<le> 1 \<and> \<not> (wk_running w \<and> wk_errors w = 1)"
  using run_inv[OF new_worker_inv, of n L cf inputs] by (auto simp: run_worker_def worker_inv_def Let_def)

text \<open>C18: One response can end the capture. A flow worker that sees an inference answered with a usage
  that is truthy and no object (a number other than zero, a text or a list that is not empty, true) stops
  there. Of the exchanges its segment completed, those before the first misshapen one are tapped or
  reported; that one and those after it are neither; the error is counted, and nothing the worker is fed
  afterwards is processed, tapped or reported.\<close>

theorem odd_usage_stops_worker:
  assumes "wk_running w"
    and "table_feed (cf_max_stranded cf) sg (pr_table (wk_processor w)) = (Some d, t)"
    and "dl_data d \<noteq> []"
    and "(if dl_from_client d then feed_client else feed_server) (hl_h11 L) (dl_data d) (Some (dl_ts d))
           (case map_of (pr_parsers (wk_processor w)) (conn_key (dl_conn d)) of
              Some a \<Rightarrow> a | None \<Rightarrow> new_assembler (hl_server L) (hl_client L)) = Some (exs, a1)"
    and "x \<in> set exs" "classify_exchange cf x = Some cl"
    and "truthy (dget (response_object (cf_loads cf) (object_kind_of (lc_endpoint cl)) (ex_response x)) ''usage'')"
    and "\<not> is_dict (dget (response_object (cf_loads cf) (object_kind_of (lc_endpoint cl)) (ex_response x)) ''usage'')"
  shows "let w2 = fold (worker_step L cf n) later (worker_step L cf n (Segment sg) w);
             front = takeWhile (response_shaped cf) exs in
     x \<notin> set front \<and>
     \<not> wk_running w2 \<and> wk_errors w2 = wk_errors w + 1 \<and> wk_processed w2 = wk_processed w + 1 \<and>
     wk_messages w2 = wk_messages w + length (filter (inference cf) front) \<and>
     wk_status w2 = wk_status w @ found (fst (messages cf (dl_conn d) front)) \<and>
     length (found (fst (messages cf (dl_conn d) front))) =
       length (filter (\<lambda>x. \<not> inference cf x \<and> \<not> permitted cf x) front)"
proof -
  let ?front = "takeWhile (response_shaped cf) exs"
  have sh: "\<not> response_shaped cf x"
    using assms(6-8) by (auto simp: response_shaped_def well_shaped_def object_or_nothing_def)
  then have x: "x \<notin> set ?front" by (auto dest: set_takeWhileD)
  from sh assms(5) have "snd (messages cf (dl_conn d) exs) = None" using messages_None_iff by blast
  then have "feed_segment L cf sg (wk_processor w) = (fst (messages cf (dl_conn d) exs), None)"
    using assms(2-4)
    by (simp add: feed_segment_def deliver_def parse_delivery_def Let_def andthen_None)
  then have w1: "\<not> wk_running (worker_step L cf n (Segment sg) w)"
      "wk_errors (worker_step L cf n (Segment sg) w) = wk_errors w + 1"
      "wk_processed (worker_step L cf n (Segment sg) w) = wk_processed w + 1"
      "wk_messages (worker_step L cf n (Segment sg) w) =
         wk_messages w + length (tapped (fst (messages cf (dl_conn d) exs)))"
      "wk_status (worker_step L cf n (Segment sg) w) = wk_status w @ found (fst (messages cf (dl_conn d) exs))"
    using assms(1) by (simp_all add: worker_step_def publish_def Let_def fold_publish)
  have "fst (messages cf (dl_conn d) exs) = fst (messages cf (dl_conn d) ?front)"
    by (rule messages_front)
  moreover have "length (tapped (fst (messages cf (dl_conn d) exs))) = length (filter (inference cf) ?front)"
    "length (found (fst (messages cf (dl_conn d) exs))) =
      length (filter (\<lambda>x. \<not> inference cf x \<and> \<not> permitted cf x) ?front)"
    using messages_outputs[where cf = cf and conn = "dl_conn d" and xs = exs] unfolding Let_def
    by (blast dest: list_all2_lengthD[symmetric])+
  moreover obtain q where "fold (worker_step L cf n) later (worker_step L cf n (Segment sg) w) =
      (worker_step L cf n (Segment sg) w)\<lparr>wk_queue := q\<rparr>"
    using stopped_run[OF w1(1)] by blast
  ultimately show ?thesis using w1 x by (simp add: Let_def)
qed

theorem odd_usage_stops_worker_witness:
  "let w2 = fold (worker_step (scripted_lib [4, 6, 3]) sample_cfg 256) [Segment (sample_segment 3 [1, 2, 3])]
          (worker_step (scripted_lib [4, 6, 3]) sample_cfg 256 (Segment (sample_segment 0 [1, 2, 3])) new_worker) in
     \<not> wk_running w2 \<and> wk_errors w2 = 1 \<and> wk_processed w2 = 1 \<and> wk_messages w2 = 0 \<and> wk_status w2 = []"
proof -
  obtain d t where d: "table_feed 100 (sample_segment 0 [1, 2, 3]) (new_table False) = (Some d, t)"
    "dl_data d = [1, 2, 3]" "dl_from_client d" "dl_ts d = 0"
    using sample_delivery by blast
  obtain a where a: "feed_client scripted_h11 [1, 2, 3] (Some 0) (new_assembler [] [4, 6, 3]) = Some ([sample_exchange 6], a)"
    using scripted_feed[of 6] by auto
  let ?L = "scripted_lib [4, 6, 3]" and ?w = "new_worker :: bytes worker"
  have 1: "wk_running ?w" by (simp add: new_worker_def)
  have 2: "table_feed (cf_max_stranded sample_cfg) (sample_segment 0 [1, 2, 3]) (pr_table (wk_processor ?w)) = (Some d, t)"
    using d by (simp add: new_worker_def new_processor_def)
  have 3: "dl_data d \<noteq> []" using d by simp
  have 4: "(if dl_from_client d then feed_client else feed_server) (hl_h11 ?L) (dl_data d)
        (Some (dl_ts d)) (case map_of (pr_parsers (wk_processor ?w)) (conn_key (dl_conn d)) of
          Some a \<Rightarrow> a | None \<Rightarrow> new_assembler (hl_server ?L) (hl_client ?L)) = Some ([sample_exchange 6], a)"
    using d a by (simp add: new_worker_def new_processor_def scripted_lib_def)
  have 5: "sample_exchange 6 \<in> set [sample_exchange 6]" by simp
  note stop = odd_usage_stops_worker[OF 1 2 3 4 5 sample_classified, where n = 256
      and later = "[Segment (sample_segment 3 [1, 2, 3])]", unfolded Let_def]
  have usage: "dget (response_object (cf_loads sample_cfg) Text (ex_response (sample_exchange 6))) ''usage'' = JInt 1"
    by (simp add: sample_response dget_def)
  have front: "takeWhile (response_shaped sample_cfg) [sample_exchange 6] = []"
    using stop usage by (auto simp: object_kind_of_def split: if_splits)
  show ?thesis
    using stop usage unfolding front Let_def by (simp add: object_kind_of_def) (simp add: new_worker_def give_def)
qed

end
