(* ===== verification/Sse_Proofs.thy ===== *)
theory Sse_Proofs
  imports Sse
begin

text \<open>
  A stream of events reads back as it was written, whatever its line ends.
\<close>

section \<open>Writing a stream\<close>

text \<open>
  What a server of events (and the relay of \<^verbatim>\<open>inf-proxy/app/streaming.py\<close>) writes: a field \<open>data\<close> a
  line, a blank line after it, and the sentinel at the end. Each frame has line ends of its own.
\<close>

definition eol :: "bool \<Rightarrow> bytes" where
  "eol crlf = (if crlf then [13, 10] else [10])"

definition sse_frame :: "bool \<times> bytes \<Rightarrow> bytes" where
  "sse_frame f = DATA_FIELD @ 32 # snd f @ eol (fst f) @ eol (fst f)"

definition sse_body :: "(bool \<times> bytes) list \<Rightarrow> bytes" where
  "sse_body fs = concat (map sse_frame fs) @ sse_frame (False, DONE_MARK)"

text \<open>A line of JSON: not empty, no line breaks, no white space at its ends.\<close>

definition line_ok :: "bytes \<Rightarrow> bool" where
  "line_ok l \<longleftrightarrow> l \<noteq> [] \<and> 10 \<notin> set l \<and> 13 \<notin> set l \<and> \<not> byte_space (hd l) \<and> \<not> byte_space (last l)"

definition event_of :: "json_reader \<Rightarrow> bytes \<Rightarrow> (ustr \<times> json) list option" where
  "event_of loads l = (case loads l of Some (JDict d) \<Rightarrow> Some d | _ \<Rightarrow> None)"

section \<open>Reading it\<close>

lemma crlf_append: "13 \<notin> set x \<Longrightarrow> crlf_to_lf (x @ y) = x @ crlf_to_lf y"
proof (induction x)
  case (Cons a x)
  then have "a \<noteq> 13" "crlf_to_lf (x @ y) = x @ crlf_to_lf y" by auto
  then show ?case by (cases "x @ y") auto
qed simp

lemma split_blocks_append: "10 \<notin> set x \<Longrightarrow> split_blocks (x @ 10 # 10 # r) = x # split_blocks r"
proof (induction x)
  case (Cons a x)
  then have "a \<noteq> 10" "split_blocks (x @ 10 # 10 # r) = x # split_blocks r" by auto
  then show ?case by (cases "x @ 10 # 10 # r") (auto simp: push_front_def)
qed simp

lemma split_on_none: "c \<notin> set s \<Longrightarrow> split_on c s = [s]"
  by (induction s) auto

lemma strip_line: "line_ok l \<Longrightarrow> strip_bytes (32 # l) = l"
proof -
  assume l: "line_ok l"
  then have "dropWhile byte_space (32 # l) = l"
    by (cases l) (auto simp: line_ok_def byte_space_def)
  moreover have "dropWhile byte_space (rev l) = rev l"
    using l by (cases "rev l") (auto simp: line_ok_def hd_rev[symmetric])
  ultimately show ?thesis by (simp add: strip_bytes_def)
qed

lemma block_lines: "line_ok l \<Longrightarrow> data_lines (DATA_FIELD @ 32 # l) = [l]"
  by (auto simp: data_lines_def DATA_FIELD_def line_ok_def split_on_none strip_line[unfolded line_ok_def])

lemma block_event_line: "line_ok l \<Longrightarrow> l \<noteq> DONE_MARK \<Longrightarrow> block_event loads (DATA_FIELD @ 32 # l) = event_of loads l"
  by (simp add: block_event_def block_lines event_of_def)

lemma done_ok: "line_ok DONE_MARK"
  by (simp add: line_ok_def DONE_MARK_def byte_space_def)

lemma block_event_done: "block_event loads (DATA_FIELD @ 32 # DONE_MARK) = None"
  by (simp add: block_event_def block_lines[OF done_ok])

lemma crlf_frame: "line_ok (snd f) \<Longrightarrow>
    crlf_to_lf (sse_frame f @ r) = DATA_FIELD @ 32 # snd f @ 10 # 10 # crlf_to_lf r"
  using crlf_append[of "DATA_FIELD @ 32 # snd f" "eol (fst f) @ eol (fst f) @ r"]
    crlf_append[of "[10, 10]" r]
  by (auto simp: sse_frame_def eol_def line_ok_def DATA_FIELD_def)

lemma blocks_frame: "line_ok l \<Longrightarrow>
    split_blocks (DATA_FIELD @ 32 # l @ 10 # 10 # r) = (DATA_FIELD @ 32 # l) # split_blocks r"
  using split_blocks_append[of "DATA_FIELD @ 32 # l" r] by (simp add: line_ok_def DATA_FIELD_def)

lemma parse_frame: "line_ok (snd f) \<Longrightarrow>
    parse_sse_events loads (sse_frame f @ r) =
      (case block_event loads (DATA_FIELD @ 32 # snd f) of None \<Rightarrow> [] | Some e \<Rightarrow> [e]) @ parse_sse_events loads r"
  by (simp add: parse_sse_events_def crlf_frame blocks_frame map_filter_simps split: option.split)

lemma parse_done: "parse_sse_events loads (sse_frame (False, DONE_MARK)) = []"
  using parse_frame[of "(False, DONE_MARK)" loads "[]"] done_ok
  by (simp add: block_event_done) (simp add: parse_sse_events_def map_filter_simps block_event_def data_lines_def DATA_FIELD_def)

lemma parse_sse_body:
  assumes "list_all (\<lambda>f. line_ok (snd f) \<and> snd f \<noteq> DONE_MARK) fs"
  shows "parse_sse_events loads (sse_body fs) = List.map_filter (\<lambda>f. event_of loads (snd f)) fs"
  using assms
proof (induction fs)
  case Nil
  show ?case by (simp add: sse_body_def parse_done map_filter_simps)
next
  case (Cons f fs)
  then show ?case
    using parse_frame[of f loads "sse_body fs"]
    by (simp add: sse_body_def map_filter_simps block_event_line split: option.split)
qed

text \<open>C39: A stream reads back as it was written. The events the tap finds in a streamed body are the
  objects of its data lines, in order, the closing sentinel aside, whichever of the two line ends each
  frame has.\<close>

theorem sse_roundtrip:
  assumes "list_all (\<lambda>f. line_ok (snd f) \<and> snd f \<noteq> DONE_MARK) fs"
  shows "parse_sse_events loads (sse_body fs) = List.map_filter (\<lambda>f. event_of loads (snd f)) fs"
  using assms by (rule parse_sse_body)

theorem sse_roundtrip_witness:
  "parse_sse_events (\<lambda>d. if d = [123, 125] then Some (JDict []) else None)
     (sse_body [(False, [123, 125]), (True, [110]), (True, [123, 125])]) = [[], []]"
  by (subst sse_roundtrip) (simp_all add: line_ok_def DONE_MARK_def byte_space_def map_filter_simps event_of_def)

end
