(* ===== verification/Emitter_Proofs.thy ===== *)
theory Emitter_Proofs
  imports Emitter Sse_Proofs
begin

text \<open>
  The tap message: a generation without tool calls gives the same one whether it was streamed or not; the ids the response
  carries are the ones reported; and where a response carries output ids and no prompt ids, what is
  reported as the prompt.
\<close>

section \<open>Objects\<close>

lemma dget_Nil: "dget [] k = JNull"
  by (simp add: dget_def)

lemma dget_Cons: "dget ((uni k', v) # d) k = (if k = k' then v else dget d k)"
  by (simp add: dget_def uni_inj)

lemma dget_update: "dget (dset (uni k') v d) k = (if k = k' then v else dget d k)"
  by (simp add: dget_def update_conv' uni_inj)

lemmas dget_simps = dget_Nil dget_Cons dget_update

section \<open>A generation, streamed and whole\<close>

text \<open>
  What the model server generated: pieces of text with the ids of their tokens and their log
  probabilities. A list that was not asked for is null.
\<close>

record generation =
  gn_id :: ustr
  gn_model :: ustr
  gn_prompt :: "int list"
  gn_pieces :: "(ustr \<times> int list \<times> json list) list"
  gn_finish :: ustr
  gn_usage :: int

definition ids_json :: "int list \<Rightarrow> json" where
  "ids_json xs = (if xs = [] then JNull else JList (map JInt xs))"

definition logprobs_json :: "object_kind \<Rightarrow> json list \<Rightarrow> json" where
  "logprobs_json kind xs =
     (case kind of Text \<Rightarrow> JNull | Chat \<Rightarrow> if xs = [] then JNull else JDict [(uni ''content'', JList xs)])"

definition text_field :: "object_kind \<Rightarrow> string \<Rightarrow> ustr \<Rightarrow> ustr \<times> json" where
  "text_field kind name s =
     (case kind of
        Text \<Rightarrow> (uni ''text'', JStr s)
      | Chat \<Rightarrow> (uni name, JDict [(uni ''role'', JStr (uni ''assistant'')), (uni ''content'', JStr s)]))"

definition choice_json :: "object_kind \<Rightarrow> string \<Rightarrow> json \<Rightarrow> ustr \<times> int list \<times> json list \<Rightarrow> json" where
  "choice_json kind name fin p = JDict
     [(uni ''index'', JInt 0), text_field kind name (fst p), (uni ''logprobs'', logprobs_json kind (snd (snd p))),
      (uni ''finish_reason'', fin), (uni ''token_ids'', ids_json (fst (snd p)))]"

definition usage_json :: "int \<Rightarrow> json" where
  "usage_json n = JDict [(uni ''completion_tokens'', JInt n)]"

definition event_json :: "generation \<Rightarrow> json list \<Rightarrow> (ustr \<times> json) list" where
  "event_json g choices =
     [(uni ''id'', JStr (gn_id g)), (uni ''model'', JStr (gn_model g)), (uni ''choices'', JList choices)]"

text \<open>
  The events: one with the prompt's ids, one a piece, one with the reason the generation finished, one
  with the usage.
\<close>

definition stream_of :: "object_kind \<Rightarrow> generation \<Rightarrow> (ustr \<times> json) list list" where
  "stream_of kind g =
     [event_json g [] @ [(uni ''prompt_token_ids'', ids_json (gn_prompt g))]]
     @ map (\<lambda>p. event_json g [choice_json kind ''delta'' JNull p]) (gn_pieces g)
     @ [event_json g [choice_json kind ''delta'' (JStr (gn_finish g)) ([], [], [])],
        event_json g [] @ [(uni ''usage'', usage_json (gn_usage g))]]"

definition whole_piece :: "generation \<Rightarrow> ustr \<times> int list \<times> json list" where
  "whole_piece g = (concat (map fst (gn_pieces g)), concat (map (fst \<circ> snd) (gn_pieces g)),
     concat (map (snd \<circ> snd) (gn_pieces g)))"

definition body_of :: "object_kind \<Rightarrow> generation \<Rightarrow> (ustr \<times> json) list" where
  "body_of kind g =
     event_json g [choice_json kind ''message'' (JStr (gn_finish g)) (whole_piece g)]
     @ [(uni ''usage'', usage_json (gn_usage g)), (uni ''prompt_token_ids'', ids_json (gn_prompt g))]"

section \<open>Folding the events\<close>

lemma chunk_of_choice:
  assumes "choice_json kind ''delta'' fin p = JDict c"
  shows "chunk_text kind c = fst p" "chunk_ids c ''token_ids'' = map JInt (fst (snd p))"
    "chunk_ids c ''output_token_ids'' = []" "dget c ''finish_reason'' = fin"
    "kind = Chat \<Longrightarrow> chunk_logprobs c = snd (snd p)" "kind = Text \<Longrightarrow> chunk_logprobs c = []"
  using assms
  by (cases kind; auto simp: choice_json_def chunk_text_def chunk_ids_def chunk_logprobs_def chunk_delta_def
      text_field_def dget_simps jget_def ids_json_def logprobs_json_def list_of_def jor_def)+

definition kind_logprobs :: "object_kind \<Rightarrow> json list \<Rightarrow> json list" where
  "kind_logprobs kind xs = (case kind of Text \<Rightarrow> [] | Chat \<Rightarrow> xs)"

lemma merge_piece:
  "merge_event kind (event_json g [choice_json kind ''delta'' fin p]) st =
     st\<lparr>ms_merged := dset (uni ''model'') (JStr (gn_model g)) (dset (uni ''id'') (JStr (gn_id g)) (ms_merged st)),
        ms_text := ms_text st @ fst p,
        ms_ids := ms_ids st @ map JInt (fst (snd p)),
        ms_logprobs := ms_logprobs st @ kind_logprobs kind (snd (snd p)),
        ms_finish := (if truthy fin then fin else ms_finish st)\<rparr>"
proof -
  obtain c where c: "choice_json kind ''delta'' fin p = JDict c" by (simp add: choice_json_def)
  show ?thesis
    using chunk_of_choice[OF c] c
    by (cases kind) (simp_all add: merge_event_def Let_def event_json_def dget_simps merge_scalars_def
        keep_last_def merge_choice_def kind_logprobs_def)
qed

text \<open>What the top level of the events leaves: three fields in place, the ids of the prompt, the usage.\<close>

definition merged_head :: "generation \<Rightarrow> (ustr \<times> json) list" where
  "merged_head g = [(uni ''id'', JStr (gn_id g)), (uni ''model'', JStr (gn_model g))]
     @ (if gn_prompt g = [] then [] else [(uni ''prompt_token_ids'', JList (map JInt (gn_prompt g)))])"

lemma merged_head_stable:
  "dset (uni ''model'') (JStr (gn_model g)) (dset (uni ''id'') (JStr (gn_id g)) (merged_head g)) = merged_head g"
  by (simp add: merged_head_def uni_inj)

lemma merge_first:
  "merge_event kind (event_json g [] @ [(uni ''prompt_token_ids'', ids_json (gn_prompt g))]) merge_start =
     merge_start\<lparr>ms_merged := merged_head g\<rparr>"
  by (simp add: merge_event_def Let_def event_json_def dget_simps merge_scalars_def keep_last_def merge_start_def
      merged_head_def ids_json_def uni_inj)

lemma merge_usage_event:
  "merge_event kind (event_json g [] @ [(uni ''usage'', usage_json (gn_usage g))]) st =
     st\<lparr>ms_merged := dset (uni ''usage'') (usage_json (gn_usage g)) (dset (uni ''model'') (JStr (gn_model g))
          (dset (uni ''id'') (JStr (gn_id g)) (ms_merged st)))\<rparr>"
  by (simp add: merge_event_def Let_def event_json_def dget_simps merge_scalars_def keep_last_def usage_json_def)

lemma merge_pieces:
  "ms_merged st = merged_head g \<Longrightarrow>
   fold (merge_event kind) (map (\<lambda>p. event_json g [choice_json kind ''delta'' JNull p]) ps) st =
     st\<lparr>ms_text := ms_text st @ concat (map fst ps),
        ms_ids := ms_ids st @ map JInt (concat (map (fst \<circ> snd) ps)),
        ms_logprobs := ms_logprobs st @ kind_logprobs kind (concat (map (snd \<circ> snd) ps))\<rparr>"
proof (induction ps arbitrary: st)
  case (Cons p ps)
  show ?case
    using Cons.IH[of "merge_event kind (event_json g [choice_json kind ''delta'' JNull p]) st"] Cons.prems
    by (cases kind) (simp_all add: merge_piece merged_head_stable kind_logprobs_def)
qed (cases kind; simp add: kind_logprobs_def)

definition merged_stream :: "object_kind \<Rightarrow> generation \<Rightarrow> (ustr \<times> json) list" where
  "merged_stream kind g = merged_head g @ [(uni ''usage'', usage_json (gn_usage g)),
     (uni ''choices'', JList [JDict (merged_choice kind
        \<lparr>ms_merged = [], ms_text = fst (whole_piece g), ms_ids = map JInt (fst (snd (whole_piece g))),
         ms_logprobs = kind_logprobs kind (snd (snd (whole_piece g))), ms_finish = JStr (gn_finish g)\<rparr>)])]"

lemma merged_choice_cong:
  "ms_text st = ms_text su \<Longrightarrow> ms_ids st = ms_ids su \<Longrightarrow> ms_logprobs st = ms_logprobs su \<Longrightarrow>
     ms_finish st = ms_finish su \<Longrightarrow> merged_choice kind st = merged_choice kind su"
  by (cases kind) (simp_all add: merged_choice_def merged_text_def)

lemma merge_stream_of:
  assumes "gn_finish g \<noteq> []"
  shows "merge_stream_events kind (stream_of kind g) = merged_stream kind g"
proof -
  have h: "dset (uni ''choices'') c (dset (uni ''usage'') u (merged_head g)) =
      merged_head g @ [(uni ''usage'', u), (uni ''choices'', c)]" for c u
    by (simp add: merged_head_def uni_inj)
  show ?thesis
    using assms
    by (simp add: merge_stream_events_def stream_of_def merge_first merge_pieces merge_piece merge_usage_event
        merged_head_stable Let_def h merged_stream_def whole_piece_def)
      (rule merged_choice_cong; simp add: merge_start_def kind_logprobs_def split: object_kind.split)
qed

section \<open>Finding the ids\<close>

lemma token_id_key: "uni k \<in> TOKEN_ID_KEYS \<longleftrightarrow>
    k \<in> {''prompt_token_ids'', ''input_token_ids'', ''output_token_ids'', ''completion_token_ids'',
         ''generated_token_ids'', ''token_ids''}"
  by (simp add: TOKEN_ID_KEYS_def uni_inj)

lemma int_list_ints [simp]: "int_list (JList (map JInt xs)) = Some (map JInt xs)"
  by (simp add: int_list_def list_all_iff)

lemma int_list_simps [simp]:
  "int_list JNull = None" "int_list (JStr s) = None" "int_list (JInt i) = None" "int_list (JDict d) = None"
  by (simp_all add: int_list_def)

lemma own_ids_Nil: "own_ids ks [] = None"
proof -
  have "first_int_list (map (dget []) ks) = None" by (induction ks) (simp_all add: dget_Nil)
  then show ?thesis by (simp add: own_ids_def)
qed

lemma or_else_simps [simp]: "or_else None r = r" "or_else (Some []) r = r" "or_else (Some (x # xs)) r = Some (x # xs)"
  by (simp_all add: or_else_def)

lemma find_leaf [simp]: "find_token_ids ks (ids_json []) = None"
  by (simp add: ids_json_def)

lemmas find_simps = own_ids_def dget_simps token_id_key PROMPT_KEYS_def OUTPUT_KEYS_def

text \<open>The first choice, in either form: its ids if it has any, or what its log probabilities hold.\<close>

definition choice_ids :: "object_kind \<Rightarrow> string list \<Rightarrow> ustr \<times> int list \<times> json list \<Rightarrow> json list option" where
  "choice_ids kind ks p =
     (if fst (snd p) \<noteq> [] then Some (map JInt (fst (snd p)))
      else or_else (find_token_ids ks (logprobs_json kind (snd (snd p)))) None)"

definition id_keys :: "string list \<Rightarrow> bool" where
  "id_keys ks \<longleftrightarrow> ks = PROMPT_KEYS \<or> ks = OUTPUT_KEYS \<or> ks = OUTPUT_KEYS @ [''token_ids'']"

lemma find_strings: "find_token_ids ks (JDict [(uni ''role'', JStr a), (uni ''content'', JStr b)]) = None"
  if "id_keys ks"
  using that by (auto simp: id_keys_def find_simps)

lemma find_content: "find_token_ids ks (JDict [(uni ''content'', JList xs)]) = or_else (find_in_items ks xs) None"
  if "id_keys ks"
  using that by (auto simp: id_keys_def find_simps int_list_def)

lemma find_in_choice:
  assumes "id_keys ks"
  shows "find_token_ids ks (choice_json kind ''message'' (JStr f) p) = choice_ids kind ks p"
  using assms find_strings[OF assms] find_content[OF assms]
  by (cases kind)
    (auto simp: id_keys_def choice_json_def text_field_def choice_ids_def logprobs_json_def ids_json_def find_simps
       simp del: find_token_ids.simps(1) intro: find_token_ids.simps(1)[THEN trans])

definition stream_choice :: "object_kind \<Rightarrow> generation \<Rightarrow> json" where
  "stream_choice kind g = JDict (merged_choice kind
     \<lparr>ms_merged = [], ms_text = fst (whole_piece g), ms_ids = map JInt (fst (snd (whole_piece g))),
      ms_logprobs = kind_logprobs kind (snd (snd (whole_piece g))), ms_finish = JStr (gn_finish g)\<rparr>)"

lemma merged_stream_choice:
  "merged_stream kind g = merged_head g @ [(uni ''usage'', usage_json (gn_usage g)),
     (uni ''choices'', JList [stream_choice kind g])]"
  by (simp add: merged_stream_def stream_choice_def)

lemma find_merged_text:
  "id_keys ks \<Longrightarrow> find_token_ids ks (JDict [(uni ''role'', JStr a), (uni ''content'', merged_text st)]) = None"
  by (auto simp: id_keys_def find_simps merged_text_def)

lemma find_in_stream_choice:
  assumes "id_keys ks"
  shows "find_token_ids ks (stream_choice kind g) = choice_ids kind ks (whole_piece g)"
  using assms find_merged_text[OF assms] find_content[OF assms]
  by (cases kind)
    (auto simp: id_keys_def stream_choice_def merged_choice_def kind_logprobs_def choice_ids_def logprobs_json_def
       merged_text_def find_simps)

lemma find_usage [simp]: "id_keys ks \<Longrightarrow> find_token_ids ks (usage_json n) = None"
  by (auto simp: id_keys_def usage_json_def find_simps)

text \<open>The whole response, in either form: the ids of the prompt, or what the first choice has.\<close>

definition response_ids :: "object_kind \<Rightarrow> generation \<Rightarrow> string list \<Rightarrow> json list option" where
  "response_ids kind g ks =
     (if gn_prompt g \<noteq> [] then Some (map JInt (gn_prompt g))
      else or_else (or_else (choice_ids kind ks (whole_piece g)) None) None)"

lemma own_ids_body:
  "id_keys ks \<Longrightarrow> ks \<noteq> OUTPUT_KEYS @ [''token_ids''] \<Longrightarrow> own_ids ks (body_of kind g) =
     (if gn_prompt g \<noteq> [] then Some (map JInt (gn_prompt g)) else None)"
  by (auto simp: id_keys_def body_of_def event_json_def find_simps ids_json_def usage_json_def)

lemma own_ids_stream:
  "id_keys ks \<Longrightarrow> ks \<noteq> OUTPUT_KEYS @ [''token_ids''] \<Longrightarrow> own_ids ks (merged_stream kind g) =
     (if gn_prompt g \<noteq> [] then Some (map JInt (gn_prompt g)) else None)"
  by (auto simp: id_keys_def merged_stream_choice merged_head_def find_simps usage_json_def)

lemma find_in_response:
  assumes "id_keys ks" "ks \<noteq> OUTPUT_KEYS @ [''token_ids'']"
  shows "find_token_ids ks (JDict (body_of kind g)) = response_ids kind g ks"
    and "find_token_ids ks (JDict (merged_stream kind g)) = response_ids kind g ks"
proof -
  have v: "find_in_values ks (body_of kind g) = or_else (or_else (choice_ids kind ks (whole_piece g)) None) None"
    if "gn_prompt g = []"
    using assms(1) that
    by (simp add: body_of_def event_json_def find_in_choice[OF assms(1), of kind "gn_finish g" "whole_piece g"])
  then show "find_token_ids ks (JDict (body_of kind g)) = response_ids kind g ks"
    by (simp add: own_ids_body[OF assms] response_ids_def)
  have w: "find_in_values ks (merged_stream kind g) = or_else (or_else (choice_ids kind ks (whole_piece g)) None) None"
    if "gn_prompt g = []"
    using assms(1) that
    by (simp add: merged_stream_choice merged_head_def find_in_stream_choice[OF assms(1)])
  then show "find_token_ids ks (JDict (merged_stream kind g)) = response_ids kind g ks"
    by (simp add: own_ids_stream[OF assms] response_ids_def)
qed

lemma response_choices:
  "dget (body_of kind g) ''choices'' = JList [choice_json kind ''message'' (JStr (gn_finish g)) (whole_piece g)]"
  "dget (merged_stream kind g) ''choices'' = JList [stream_choice kind g]"
  by (simp_all add: body_of_def event_json_def merged_stream_choice merged_head_def dget_simps)

lemma output_keys_ok: "id_keys OUTPUT_KEYS" "id_keys PROMPT_KEYS" "id_keys (OUTPUT_KEYS @ [''token_ids''])"
  "OUTPUT_KEYS \<noteq> OUTPUT_KEYS @ [''token_ids'']" "PROMPT_KEYS \<noteq> OUTPUT_KEYS @ [''token_ids'']"
  by (simp_all add: id_keys_def OUTPUT_KEYS_def PROMPT_KEYS_def)

lemma extraction_agrees:
  "extract_prompt_output_token_ids [(uni ''response'', JDict (merged_stream kind g))] =
   extract_prompt_output_token_ids [(uni ''response'', JDict (body_of kind g))]"
  using find_in_response[OF output_keys_ok(2,5), of kind g] find_in_response[OF output_keys_ok(1,4), of kind g]
    find_in_choice[OF output_keys_ok(3)] find_in_stream_choice[OF output_keys_ok(3)]
  by (simp add: extract_prompt_output_token_ids_def Let_def first_choice_ids_def jget_def response_choices
      del: find_token_ids.simps(1) cong: option.case_cong)

section \<open>One message\<close>

lemma first_choices:
  "first_choice (body_of kind g) = (case choice_json kind ''message'' (JStr (gn_finish g)) (whole_piece g) of JDict c \<Rightarrow> Some c | _ \<Rightarrow> None)"
  "first_choice (merged_stream kind g) = (case stream_choice kind g of JDict c \<Rightarrow> Some c | _ \<Rightarrow> None)"
  by (simp_all add: first_choice_def jor_def response_choices choice_json_def stream_choice_def)

lemma response_fields:
  "dget (merged_stream kind g) ''id'' = JStr (gn_id g)" "dget (body_of kind g) ''id'' = JStr (gn_id g)"
  "dget (merged_stream kind g) ''model'' = JStr (gn_model g)" "dget (body_of kind g) ''model'' = JStr (gn_model g)"
  "dget (merged_stream kind g) ''usage'' = usage_json (gn_usage g)" "dget (body_of kind g) ''usage'' = usage_json (gn_usage g)"
  by (simp_all add: body_of_def event_json_def merged_stream_choice merged_head_def dget_simps)

text \<open>What a choice shows, in either form.\<close>

lemmas choice_simps = dget_simps dict_or_empty_def output_text_def text_of_def output_logprobs_def
  kind_logprobs_def jget_def jor_def

lemma choice_fields:
  assumes "choice_json kind ''message'' (JStr f) p = JDict c"
  shows "dict_or_empty (dget c ''message'') \<noteq> None"
    "\<And>m. dict_or_empty (dget c ''message'') = Some m \<Longrightarrow> dget m ''tool_calls'' = JNull"
    "output_text c kind = Some (Some (fst p))"
    "output_logprobs c = (if kind_logprobs kind (snd (snd p)) = [] then JNull else JList (kind_logprobs kind (snd (snd p))))"
    "dget c ''finish_reason'' = JStr f"
proof -
  have c: "c = [(uni ''index'', JInt 0), text_field kind ''message'' (fst p),
      (uni ''logprobs'', logprobs_json kind (snd (snd p))), (uni ''finish_reason'', JStr f),
      (uni ''token_ids'', ids_json (fst (snd p)))]"
    using assms by (simp add: choice_json_def)
  show "dict_or_empty (dget c ''message'') \<noteq> None"
    unfolding c by (cases kind) (simp_all add: text_field_def choice_simps)
  show "\<And>m. dict_or_empty (dget c ''message'') = Some m \<Longrightarrow> dget m ''tool_calls'' = JNull"
    unfolding c by (cases kind) (auto simp: text_field_def choice_simps)
  show "output_text c kind = Some (Some (fst p))"
    unfolding c by (cases kind) (simp_all add: text_field_def choice_simps)
  show "output_logprobs c = (if kind_logprobs kind (snd (snd p)) = [] then JNull else JList (kind_logprobs kind (snd (snd p))))"
    unfolding c by (cases kind) (simp_all add: text_field_def choice_simps logprobs_json_def)
  show "dget c ''finish_reason'' = JStr f"
    unfolding c by (cases kind) (simp_all add: text_field_def choice_simps)
qed

lemma stream_choice_fields:
  assumes "stream_choice kind g = JDict c"
  shows "dict_or_empty (dget c ''message'') \<noteq> None"
    "\<And>m. dict_or_empty (dget c ''message'') = Some m \<Longrightarrow> dget m ''tool_calls'' = JNull"
    "output_text c kind = Some (if fst (whole_piece g) = [] then None else Some (fst (whole_piece g)))"
    "output_logprobs c = (if kind_logprobs kind (snd (snd (whole_piece g))) = [] then JNull
       else JList (kind_logprobs kind (snd (snd (whole_piece g)))))"
    "dget c ''finish_reason'' = JStr (gn_finish g)"
proof -
  let ?st = "\<lparr>ms_merged = [], ms_text = fst (whole_piece g), ms_ids = map JInt (fst (snd (whole_piece g))),
      ms_logprobs = kind_logprobs kind (snd (snd (whole_piece g))), ms_finish = JStr (gn_finish g)\<rparr>"
  have c: "c = merged_choice kind ?st" using assms by (simp add: stream_choice_def)
  show "dict_or_empty (dget c ''message'') \<noteq> None"
    unfolding c by (cases kind) (simp_all add: merged_choice_def choice_simps)
  show "\<And>m. dict_or_empty (dget c ''message'') = Some m \<Longrightarrow> dget m ''tool_calls'' = JNull"
    unfolding c by (cases kind) (auto simp: merged_choice_def choice_simps split: if_splits)
  show "output_text c kind = Some (if fst (whole_piece g) = [] then None else Some (fst (whole_piece g)))"
    unfolding c by (cases kind) (simp_all add: merged_choice_def merged_text_def choice_simps)
  show "output_logprobs c = (if kind_logprobs kind (snd (snd (whole_piece g))) = [] then JNull
       else JList (kind_logprobs kind (snd (snd (whole_piece g)))))"
    unfolding c by (cases kind) (simp_all add: merged_choice_def choice_simps)
  show "dget c ''finish_reason'' = JStr (gn_finish g)"
    unfolding c by (cases kind) (simp_all add: merged_choice_def choice_simps)
qed

lemma choice_is_dict:
  obtains c where "choice_json kind name fin p = JDict c"
  by (simp add: choice_json_def)

lemma stream_choice_is_dict:
  obtains c where "stream_choice kind g = JDict c"
  by (simp add: stream_choice_def)

text \<open>C19: Streaming changes nothing the ledger is told of a generation that ends with a finish reason, makes
  no tool calls and, for a text completion, carries no log probabilities. The tap message built from its
  stream of chunks (the prompt's ids, the pieces, the finish reason, the usage) and the one built from its
  whole body are then the same in every field, the flag aside that says which it was: only a generation of no
  text at all reads as no text when streamed, and as the empty text when not.\<close>

theorem streamed_as_whole:
  assumes "gn_finish g \<noteq> []"
    and "is_sse s" "parse_sse_events (cf_loads cf) (hm_body s) = stream_of (object_kind_of (lc_endpoint cl)) g"
    and "\<not> is_sse r" "cf_loads cf (hm_body r) = Some (JDict (body_of (object_kind_of (lc_endpoint cl)) g))"
  shows "\<exists>m. build_tap_message cf (x\<lparr>ex_response := Some r\<rparr>) cl t u ob = Some m \<and>
           build_tap_message cf (x\<lparr>ex_response := Some s\<rparr>) cl t u ob =
             Some (m\<lparr>td_streamed := True,
                     td_output_text := (if td_output_text m = Some [] then None else td_output_text m)\<rparr>)"
proof -
  let ?k = "object_kind_of (lc_endpoint cl)"
  obtain c where c: "choice_json ?k ''message'' (JStr (gn_finish g)) (whole_piece g) = JDict c" by (rule choice_is_dict)
  obtain d where d: "stream_choice ?k g = JDict d" by (rule stream_choice_is_dict)
  have r: "response_object (cf_loads cf) ?k (Some r) = body_of ?k g"
    "response_object (cf_loads cf) ?k (Some s) = merged_stream ?k g"
    using assms(2-5) merge_stream_of[OF assms(1)] by (simp_all add: response_object_def message_json_def)
  obtain m where m: "dict_or_empty (dget c ''message'') = Some m" using choice_fields(1)[OF c] by blast
  obtain n where n: "dict_or_empty (dget d ''message'') = Some n" using stream_choice_fields(1)[OF d] by blast
  have tools: "truthy (dget m ''tool_calls'') = truthy (dget n ''tool_calls'')"
    using choice_fields(2)[OF c m] stream_choice_fields(2)[OF d n] by simp
  have u: "dict_or_empty (usage_json (gn_usage g)) = Some [(uni ''completion_tokens'', JInt (gn_usage g))]"
    by (simp add: usage_json_def dict_or_empty_def)
  show ?thesis
    using assms(2,4)
    by (simp add: build_tap_message_def Let_def r first_choices c d m n u response_fields tools
        choice_fields(3-5)[OF c] stream_choice_fields(3-5)[OF d] prompt_ids_of_def extraction_agrees)
qed



section \<open>Samples\<close>

definition sample_generation :: generation where
  "sample_generation = \<lparr>gn_id = uni ''r'', gn_model = uni ''m'', gn_prompt = [1, 2],
     gn_pieces = [(uni ''a'', [5], []), (uni ''b'', [6, 7], [])], gn_finish = uni ''stop'', gn_usage = 3\<rparr>"


text \<open>A reader that knows the sample's five objects by a letter each.\<close>

definition letter_reader :: json_reader where
  "letter_reader d =
     (if d = [97] then Some (JDict (stream_of Chat sample_generation ! 0))
      else if d = [98] then Some (JDict (stream_of Chat sample_generation ! 1))
      else if d = [99] then Some (JDict (stream_of Chat sample_generation ! 2))
      else if d = [100] then Some (JDict (stream_of Chat sample_generation ! 3))
      else if d = [101] then Some (JDict (stream_of Chat sample_generation ! 4))
      else if d = [102] then Some (JDict (body_of Chat sample_generation))
      else None)"

definition letters :: "(bool \<times> bytes) list" where
  "letters = [(False, [97]), (False, [98]), (True, [99]), (False, [100]), (False, [101])]"

lemma letters_parse: "parse_sse_events letter_reader (sse_body letters) = stream_of Chat sample_generation"
proof -
  have "parse_sse_events letter_reader (sse_body letters) = map (\<lambda>i. stream_of Chat sample_generation ! i) [0, 1, 2, 3, 4]"
    by (subst parse_sse_body)
      (simp_all add: letters_def line_ok_def DONE_MARK_def byte_space_def map_filter_simps event_of_def letter_reader_def)
  also have "\<dots> = stream_of Chat sample_generation"
    by (simp add: stream_of_def sample_generation_def)
  finally show ?thesis .
qed

definition letter_cfg :: tap_cfg where
  "letter_cfg = \<lparr>cf_exclude_prefixes = [], cf_allowed_endpoints = [], cf_hostname_map = [],
     cf_version = [], cf_idle_timeout = 60, cf_idle_sweep_interval = 30, cf_max_stranded = 100,
     cf_loads = letter_reader, cf_iso = (\<lambda>_. []), cf_repr = (\<lambda>_. []), cf_lower = id\<rparr>"

lemma letter_cfg_loads [simp]: "cf_loads letter_cfg = letter_reader"
  by (simp add: letter_cfg_def)

definition plain_reply :: http_message where
  "plain_reply = \<lparr>hm_headers = [], hm_body = [102], hm_method = None, hm_path = None, hm_status = Some 200,
     hm_truncated = False\<rparr>"

definition event_reply :: http_message where
  "event_reply = plain_reply\<lparr>hm_headers := [(''content-type'', ''text/event-stream'')], hm_body := sse_body letters\<rparr>"

definition chat_request :: llm_classification where
  "chat_request = \<lparr>lc_endpoint = ''/v1/chat/completions'', lc_model_name = uni ''m'', lc_request_body = []\<rparr>"

lemma reply_kinds: "is_sse event_reply" "\<not> is_sse plain_reply"
  by (simp_all add: is_sse_def event_reply_def plain_reply_def)

lemma chat_kind: "object_kind_of (lc_endpoint chat_request) = Chat"
  by (simp add: chat_request_def object_kind_of_def)

theorem streamed_as_whole_witness:
  "\<forall>x. \<exists>m. build_tap_message letter_cfg (x\<lparr>ex_response := Some plain_reply\<rparr>) chat_request None None None = Some m \<and>
       build_tap_message letter_cfg (x\<lparr>ex_response := Some event_reply\<rparr>) chat_request None None None =
         Some (m\<lparr>td_streamed := True,
                 td_output_text := (if td_output_text m = Some [] then None else td_output_text m)\<rparr>)"
proof (rule allI, rule streamed_as_whole[where g = sample_generation])
  show "parse_sse_events (cf_loads letter_cfg) (hm_body event_reply) =
      stream_of (object_kind_of (lc_endpoint chat_request)) sample_generation"
    by (simp add: chat_kind letters_parse event_reply_def)
  show "cf_loads letter_cfg (hm_body plain_reply) =
      Some (JDict (body_of (object_kind_of (lc_endpoint chat_request)) sample_generation))"
    by (simp add: chat_kind plain_reply_def letter_reader_def)
qed (simp_all add: reply_kinds sample_generation_def uni_def)

end
