(* ===== verification/Wire_Proofs.thy ===== *)
theory Wire_Proofs
  imports Emitter_Proofs Mapper_Proofs
begin

text \<open>
  From the wire to the verifier: the tap's message through the message writer's schema, the stored event
  and the runner's mapping.
\<close>

lemma build_fields:
  assumes "build_tap_message cf x cl t u ob = Some m"
    and "response_object (cf_loads cf) (object_kind_of (lc_endpoint cl)) (ex_response x) = body"
  shows "td_prompt_token_ids m = prompt_ids_of body (lc_request_body cl)"
    "td_output_token_ids m = snd (extract_prompt_output_token_ids [(uni ''response'', JDict body)])"
    "\<exists>usage. dict_or_empty (dget body ''usage'') = Some usage \<and> td_usage_completion_tokens m = dget usage ''completion_tokens''"
    "td_constrained_decoding m = detect_constrained_decoding (lc_request_body cl)"
  using assms by (auto simp: build_tap_message_def Let_def bind_eq_Some_conv)

lemma opt_ids_ints [simp]: "opt_ids lax (Some (map JInt xs)) = Some (Some xs)"
proof -
  have "those (map (lax_int lax) (map JInt xs)) = Some xs"
    by (induction xs) (simp_all add: lax_int_def)
  then show ?thesis by (simp add: opt_ids_def)
qed

lemma accept_fields:
  assumes "accept_message lax td = Some msg"
  shows "opt_ids lax (td_prompt_token_ids td) = Some (tm_prompt_token_ids msg)"
    "opt_ids lax (td_output_token_ids td) = Some (tm_output_token_ids msg)"
    "opt_int lax (td_usage_completion_tokens td) = Some (tm_usage_completion_tokens msg)"
    "tm_constrained_decoding msg = Some (td_constrained_decoding td)"
  using assms by (auto simp: accept_message_def bind_eq_Some_conv)

text \<open>What a response puts on the wire for a generation, as one body or as a stream.\<close>

definition carries :: "tap_cfg \<Rightarrow> object_kind \<Rightarrow> http_message \<Rightarrow> generation \<Rightarrow> bool" where
  "carries cf kind r g \<longleftrightarrow>
     (if is_sse r then parse_sse_events (cf_loads cf) (hm_body r) = stream_of kind g
      else cf_loads cf (hm_body r) = Some (JDict (body_of kind g)))"

lemma carried_object:
  assumes "carries cf kind r g" "gn_finish g \<noteq> []"
  shows "response_object (cf_loads cf) kind (Some r) = merged_stream kind g \<or>
         response_object (cf_loads cf) kind (Some r) = body_of kind g"
  using assms merge_stream_of[OF assms(2), of kind]
  by (simp add: carries_def response_object_def message_json_def split: if_splits)

lemma extracted_ids:
  assumes "gn_prompt g \<noteq> []" "fst (snd (whole_piece g)) \<noteq> []" "b = merged_stream kind g \<or> b = body_of kind g"
  shows "extract_prompt_output_token_ids [(uni ''response'', JDict b)] =
    (Some (map JInt (gn_prompt g)), Some (map JInt (fst (snd (whole_piece g)))))"
proof -
  have "extract_prompt_output_token_ids [(uni ''response'', JDict b)] =
      extract_prompt_output_token_ids [(uni ''response'', JDict (body_of kind g))]"
    using assms(3) extraction_agrees[of kind g] by auto
  also have "\<dots> = (Some (map JInt (gn_prompt g)), Some (map JInt (fst (snd (whole_piece g)))))"
    using assms(1,2) find_in_response(1)[OF output_keys_ok(2,5), of kind g]
      find_in_choice[OF output_keys_ok(3), of kind "gn_finish g" "whole_piece g"]
    by (simp add: extract_prompt_output_token_ids_def Let_def first_choice_ids_def jget_def response_choices
        response_ids_def choice_ids_def del: find_token_ids.simps(1))
  finally show ?thesis .
qed

section \<open>The message gets through\<close>

text \<open>The log probabilities a generation's response shows.\<close>

definition shown_logprobs :: "object_kind \<Rightarrow> generation \<Rightarrow> json" where
  "shown_logprobs kind g = (let lps = kind_logprobs kind (snd (snd (whole_piece g))) in
     if lps = [] then JNull else JList lps)"

lemma carried_choice:
  assumes "b = merged_stream kind g \<or> b = body_of kind g"
  obtains c m where "first_choice b = Some c" "dict_or_empty (dget c ''message'') = Some m"
    "output_text c kind \<noteq> None" "output_logprobs c = shown_logprobs kind g"
    "dget c ''finish_reason'' = JStr (gn_finish g)"
  using assms
proof
  obtain d where d: "stream_choice kind g = JDict d" by (rule stream_choice_is_dict)
  assume "b = merged_stream kind g"
  then show thesis
    using stream_choice_fields[OF d] d that[of d "the (dict_or_empty (dget d ''message''))"]
    by (auto simp: first_choices shown_logprobs_def Let_def)
next
  obtain c where c: "choice_json kind ''message'' (JStr (gn_finish g)) (whole_piece g) = JDict c" by (rule choice_is_dict)
  assume "b = body_of kind g"
  then show thesis
    using choice_fields[OF c] c that[of c "the (dict_or_empty (dget c ''message''))"]
    by (auto simp: first_choices shown_logprobs_def Let_def)
qed

lemma accept_typed:
  assumes "opt_text (td_session_id td) = Some a" "opt_text (td_user_id td) = Some b" "opt_text (td_chat_id td) = Some c"
    "opt_text (td_message_id td) = Some d" "opt_text (td_response_id td) = Some e"
    "opt_text (td_model_name td) = Some f" "opt_text (td_finish_reason td) = Some h"
    "opt_ids lax (td_prompt_token_ids td) = Some i" "opt_ids lax (td_output_token_ids td) = Some j"
    "opt_int lax (td_usage_completion_tokens td) = Some k"
  obtains msg where "accept_message lax td = Some msg"
  using assms by (simp add: accept_message_def)

lemma opt_text_header: "opt_text (header_json r k) \<noteq> None"
  by (simp add: header_json_def opt_text_def split: option.split)

lemma opt_text_jor: "opt_text (jor (header_json r k) (JStr s)) \<noteq> None"
  by (simp add: header_json_def opt_text_def jor_def split: option.split)

definition readable :: "(ustr \<Rightarrow> ustr) \<Rightarrow> ustr option \<Rightarrow> generation \<Rightarrow> bool" where
  "readable canon prompt_text g \<longleftrightarrow>
     list_all (json_ok canon) (snd (snd (whole_piece g))) \<and>
     (case prompt_text of None \<Rightarrow> True | Some s \<Rightarrow> ustr_ok s)"

lemma carried_accepted:
  assumes b: "response_object (cf_loads cf) (object_kind_of (lc_endpoint cl)) (ex_response x) = b"
      "b = merged_stream (object_kind_of (lc_endpoint cl)) g \<or> b = body_of (object_kind_of (lc_endpoint cl)) g"
    and ids: "gn_prompt g \<noteq> []" "fst (snd (whole_piece g)) \<noteq> []"
    and ok: "readable canon (extract_prompt_text (cf_repr cf) (lc_request_body cl)) g"
  obtains m msg where "build_tap_message cf x cl t u ob = Some m" "accept_message lax m = Some msg"
    "payloads_ok canon msg" "tm_prompt_token_ids msg = Some (gn_prompt g)"
    "tm_output_token_ids msg = Some (fst (snd (whole_piece g)))"
    "tm_usage_completion_tokens msg = Some (gn_usage g)"
    "tm_constrained_decoding msg = Some (detect_constrained_decoding (lc_request_body cl))"
proof -
  let ?k = "object_kind_of (lc_endpoint cl)"
  obtain c m where c: "first_choice b = Some c" "dict_or_empty (dget c ''message'') = Some m"
    "output_text c ?k \<noteq> None" "output_logprobs c = shown_logprobs ?k g"
    "dget c ''finish_reason'' = JStr (gn_finish g)"
    by (rule carried_choice[OF b(2)])
  obtain ot where ot: "output_text c ?k = Some ot" using c(3) by blast
  have u: "dict_or_empty (dget b ''usage'') = Some [(uni ''completion_tokens'', JInt (gn_usage g))]"
    using b(2) response_fields(5,6)[of ?k g] by (auto simp: usage_json_def dict_or_empty_def)
  have f: "dget b ''id'' = JStr (gn_id g)" "dget b ''model'' = JStr (gn_model g)"
    using b(2) response_fields(1-4)[of ?k g] by auto
  obtain td where td: "build_tap_message cf x cl t u ob = Some td"
    using c u ot by (auto simp: build_tap_message_def Let_def b(1))
  have fields: "td_response_id td = JStr (gn_id g)" "td_finish_reason td = JStr (gn_finish g)"
    "td_model_name td = jor (JStr (gn_model g)) (JStr (lc_model_name cl))"
    "td_session_id td = jor (header_json (ex_request x) ''x-openwebui-chat-id'') (JStr (gn_id g))"
    "td_user_id td = header_json (ex_request x) ''x-openwebui-user-id''"
    "td_chat_id td = header_json (ex_request x) ''x-openwebui-chat-id''"
    "td_message_id td = header_json (ex_request x) ''x-openwebui-message-id''"
    "td_prompt_token_ids td = Some (map JInt (gn_prompt g))"
    "td_output_token_ids td = Some (map JInt (fst (snd (whole_piece g))))"
    "td_usage_completion_tokens td = JInt (gn_usage g)"
    "td_constrained_decoding td = detect_constrained_decoding (lc_request_body cl)"
    "td_output_logprobs td = shown_logprobs ?k g"
    "td_prompt_text td = extract_prompt_text (cf_repr cf) (lc_request_body cl)"
    using td c u ot extracted_ids[OF ids b(2)]
    by (auto simp: build_tap_message_def Let_def b(1) f prompt_ids_of_def dget_simps)
  have t: "opt_text (JStr s) = Some (Some s)" for s by (simp add: opt_text_def)
  have m: "opt_text (jor (JStr s) (JStr s')) = Some (Some (if s = [] then s' else s))" for s s'
    by (simp add: opt_text_def jor_def)
  obtain a1 a2 a3 a4 where h: "opt_text (td_session_id td) = Some a1" "opt_text (td_user_id td) = Some a2"
    "opt_text (td_chat_id td) = Some a3" "opt_text (td_message_id td) = Some a4"
    using opt_text_header opt_text_jor by (metis fields(4-7) not_None_eq)
  have "accept_message lax td \<noteq> None"
    by (rule accept_typed[OF h, where lax = lax]) (simp_all add: fields t m opt_int_def lax_int_def)
  then obtain msg where msg: "accept_message lax td = Some msg" by blast
  have "json_ok canon (shown_logprobs ?k g)"
    using ok by (cases ?k) (auto simp: readable_def shown_logprobs_def Let_def kind_logprobs_def json_ok_simps list_all_iff)
  then have "payloads_ok canon msg"
    using msg ok by (auto simp: accept_message_def bind_eq_Some_conv payloads_ok_def fields readable_def)
  with td msg accept_fields[OF msg] show thesis
    by (intro that[of td msg]) (simp_all add: fields opt_int_def lax_int_def)
qed

text \<open>C2: The verifier replays what was on the wire. A generation whose response carries its ids, in one
  body or as a stream, becomes a tap message the message writer accepts, and the row it stores reaches the
  verifier with exactly the prompt's ids, the output's ids, the provider's token count, and whether the
  request constrained the decoding.\<close>

theorem wire_to_verifier:
  assumes "ex_response x = Some r" "carries cf (object_kind_of (lc_endpoint cl)) r g"
    and "gn_finish g \<noteq> []" "gn_prompt g \<noteq> []" "fst (snd (whole_piece g)) \<noteq> []"
    and "readable canon (extract_prompt_text (cf_repr cf) (lc_request_body cl)) g"
  shows "\<exists>m msg. build_tap_message cf x cl t u ob = Some m \<and> accept_message lax m = Some msg \<and>
    (let rq = tapped_request canon other sha256 new_id model_id hardware_id model_name s msg in
     rq_prompt_token_ids rq = Some (gn_prompt g) \<and>
     rq_output_token_ids rq = Some (concat (map (fst \<circ> snd) (gn_pieces g))) \<and>
     rq_usage_completion_tokens rq = Some (gn_usage g) \<and>
     rq_constrained_decoding rq = Some (detect_constrained_decoding (lc_request_body cl)))"
proof -
  let ?k = "object_kind_of (lc_endpoint cl)"
  have b: "response_object (cf_loads cf) ?k (ex_response x) = merged_stream ?k g \<or>
      response_object (cf_loads cf) ?k (ex_response x) = body_of ?k g"
    using carried_object[OF assms(2,3)] assms(1) by simp
  show ?thesis
  proof (rule carried_accepted[OF refl b assms(4-6), of t u ob lax])
    fix m msg
    assume m: "build_tap_message cf x cl t u ob = Some m" "accept_message lax m = Some msg"
      and p: "payloads_ok canon msg" and f: "tm_prompt_token_ids msg = Some (gn_prompt g)"
        "tm_output_token_ids msg = Some (fst (snd (whole_piece g)))"
        "tm_usage_completion_tokens msg = Some (gn_usage g)"
        "tm_constrained_decoding msg = Some (detect_constrained_decoding (lc_request_body cl))"
    show ?thesis
      using m f tapped_request_fields(1-4)[OF p refl] by (simp add: whole_piece_def Let_def)
  qed
qed

definition sample_wire :: exchange where
  "sample_wire = \<lparr>ex_request = \<lparr>hm_headers = [], hm_body = [], hm_method = Some ''POST'',
     hm_path = Some ''/v1/chat/completions'', hm_status = None, hm_truncated = False\<rparr>,
     ex_response = Some event_reply, ex_received_at = None, ex_completed_at = None\<rparr>"

lemma sample_readable: "readable canon (extract_prompt_text (cf_repr letter_cfg) (lc_request_body chat_request)) sample_generation"
  by (simp add: readable_def sample_generation_def whole_piece_def chat_request_def extract_prompt_text_def
      prompt_turns_def dget_simps ustrip_def)

theorem wire_to_verifier_witness:
  "\<exists>m msg. build_tap_message letter_cfg sample_wire chat_request None None None = Some m \<and>
     accept_message (\<lambda>_. None) m = Some msg \<and>
    (let rq = tapped_request (\<lambda>s. s) (\<lambda>_. None) (\<lambda>d. d) [] [] [] []
        \<lparr>sc_seed = None, sc_temperature = None, sc_top_k = None, sc_top_p = None, sc_max_output_tokens = None\<rparr> msg in
     rq_prompt_token_ids rq = Some [1, 2] \<and> rq_output_token_ids rq = Some [5, 6, 7] \<and>
     rq_usage_completion_tokens rq = Some 3 \<and> rq_constrained_decoding rq = Some False)"
proof -
  have c: "carries letter_cfg (object_kind_of (lc_endpoint chat_request)) event_reply sample_generation"
    using letters_parse reply_kinds(1) by (simp add: carries_def chat_kind) (simp add: event_reply_def)
  have d: "detect_constrained_decoding (lc_request_body chat_request) = False"
    by (simp add: chat_request_def detect_constrained_decoding_def dget_simps)
  have g: "gn_prompt sample_generation = [1, 2]" "concat (map (fst \<circ> snd) (gn_pieces sample_generation)) = [5, 6, 7]"
    "gn_usage sample_generation = 3" "gn_finish sample_generation \<noteq> []"
    by (simp_all add: sample_generation_def uni_def)
  have x: "ex_response sample_wire = Some event_reply" by (simp add: sample_wire_def)
  have w: "fst (snd (whole_piece sample_generation)) \<noteq> []" using g by (simp add: whole_piece_def)
  show ?thesis
    using wire_to_verifier[OF x c g(4) _ w sample_readable, of None None None "\<lambda>_. None" "\<lambda>s. s"] g d by simp
qed

end
