(* ===== verification/Proxy.thy ===== *)
theory Proxy
  imports Emitter
begin

text \<open>
  The inference proxy (\<^verbatim>\<open>inf-proxy/app\<close>): shaping the upstream request (\<^verbatim>\<open>payload.py\<close>), relaying a stream
  while capturing it (\<^verbatim>\<open>streaming.py\<close>), the tap message (\<^verbatim>\<open>message_writer.py\<close>), a request that is not
  streamed (\<^verbatim>\<open>main.py\<close>), and the declaration of the model (\<^verbatim>\<open>declaration.py\<close>).

  The lines of a stream are the decoded texts \<open>upstream.content\<close> yields; \<open>json.loads\<close> of a text and the
  clock are arguments. A captured request's text is read by \<open>extract_prompt_text\<close>, as in the other tap.
\<close>

section \<open>Configuration\<close>

text \<open>An unset number is null.\<close>

record proxy_cfg =
  px_hostname :: ustr
  px_base_url :: ustr
  px_version :: ustr
  px_logprobs :: bool
  px_top_logprobs :: int
  px_seed :: json
  px_temperature :: json
  px_top_k :: json
  px_top_p :: json
  px_pod_name :: "ustr option"
  px_node_name :: "ustr option"
  px_declare :: bool
  px_model_name :: "ustr option"
  px_decoding_algorithm :: "ustr option"
  px_owner_name :: "ustr option"
  px_repr :: "json \<Rightarrow> ustr"

section \<open>Shaping the request\<close>

definition set_default :: "string \<Rightarrow> json \<Rightarrow> (ustr \<times> json) list \<Rightarrow> (ustr \<times> json) list" where
  "set_default k v d = (if uni k \<in> set (keys d) then d else dset (uni k) v d)"

definition ask_for_usage :: "(ustr \<times> json) list \<Rightarrow> (ustr \<times> json) list" where
  "ask_for_usage payload =
     (let p = set_default ''stream_options'' (JDict []) payload in
      case dget p ''stream_options'' of
        JDict opts \<Rightarrow> dset (uni ''stream_options'') (JDict (set_default ''include_usage'' (JBool True) opts)) p
      | _ \<Rightarrow> p)"

definition add_tap_report_options ::
  "proxy_cfg \<Rightarrow> object_kind \<Rightarrow> (ustr \<times> json) list \<Rightarrow> (ustr \<times> json) list" where
  "add_tap_report_options px kind payload =
     (let p1 = set_default ''return_token_ids'' (JBool True) payload;
          p2 = (if truthy (dget p1 ''stream'') then ask_for_usage p1 else p1) in
      if px_logprobs px then
        (case kind of
           Chat \<Rightarrow> set_default ''top_logprobs'' (JInt (px_top_logprobs px))
                    (set_default ''logprobs'' (JBool True) p2)
         | Text \<Rightarrow> set_default ''logprobs'' (JInt (px_top_logprobs px)) p2)
      else p2)"

definition pin_field :: "string \<Rightarrow> json \<Rightarrow> (ustr \<times> json) list \<Rightarrow> (ustr \<times> json) list" where
  "pin_field field configured payload = (if configured = JNull then payload else dset (uni field) configured payload)"

definition inject_sampling_config :: "proxy_cfg \<Rightarrow> (ustr \<times> json) list \<Rightarrow> (ustr \<times> json) list" where
  "inject_sampling_config px payload =
     pin_field ''top_p'' (px_top_p px) (pin_field ''top_k'' (px_top_k px)
       (pin_field ''temperature'' (px_temperature px) (pin_field ''seed'' (px_seed px) payload)))"

text \<open>The payload \<open>_handle\<close> sends upstream.\<close>

definition upstream_payload :: "proxy_cfg \<Rightarrow> object_kind \<Rightarrow> (ustr \<times> json) list \<Rightarrow> (ustr \<times> json) list" where
  "upstream_payload px kind body =
     (let payload = inject_sampling_config px (add_tap_report_options px kind body) in
      dset (uni ''stream'') (JBool (truthy (dget body ''stream''))) payload)"

section \<open>The tap message\<close>

record metadata =
  md_user_id :: json
  md_chat_id :: json
  md_message_id :: json

text \<open>What was captured of a response.\<close>

record capture =
  cp_prompt_ids :: "json list option"
  cp_output_ids :: "json list option"
  cp_usage :: json
  cp_logprobs :: json
  cp_text :: "ustr option"
  cp_response_id :: json
  cp_model :: json
  cp_finish :: json
  cp_tool_calls :: bool

definition proxy_tap_message ::
  "proxy_cfg \<Rightarrow> string \<Rightarrow> bool \<Rightarrow> ustr \<Rightarrow> ustr \<Rightarrow> metadata \<Rightarrow> (ustr \<times> json) list \<Rightarrow> capture \<Rightarrow> tap_dict" where
  "proxy_tap_message px endpoint streamed received_at completed_at md payload cp =
     \<lparr>td_source = uni ''inf-proxy'', td_version = px_version px, td_hostname = px_hostname px,
      td_upstream_base_url = Some (px_base_url px), td_observed_on = None, td_endpoint = endpoint,
      td_streamed = streamed, td_received_at = Some received_at, td_completed_at = Some completed_at,
      td_pod_name = px_pod_name px, td_node_name = px_node_name px,
      td_session_id = jor (md_chat_id md) (cp_response_id cp),
      td_user_id = md_user_id md, td_chat_id = md_chat_id md, td_message_id = md_message_id md,
      td_response_id = cp_response_id cp, td_model_name = cp_model cp,
      td_sampling = sampling_fields payload,
      td_flags_added = (True, px_logprobs px, if px_logprobs px then Some (px_top_logprobs px) else None),
      td_prompt_text = extract_prompt_text (px_repr px) payload,
      td_prompt_token_ids = cp_prompt_ids cp, td_output_text = cp_text cp,
      td_output_token_ids = cp_output_ids cp, td_output_logprobs = cp_logprobs cp,
      td_finish_reason = cp_finish cp, td_tool_calls = cp_tool_calls cp,
      td_usage_completion_tokens = cp_usage cp,
      td_constrained_decoding = detect_constrained_decoding payload\<rparr>"

text \<open>The provider's own count, if it gave an integer.\<close>

definition usage_tokens :: "json \<Rightarrow> json" where
  "usage_tokens usage = (if is_int (jget usage ''completion_tokens'') then jget usage ''completion_tokens'' else JNull)"

section \<open>A whole response\<close>

text \<open>\<open>_has_tool_calls\<close>, which raises where a delta or message is no object.\<close>

definition has_tool_calls :: "(ustr \<times> json) list \<Rightarrow> bool option" where
  "has_tool_calls choice = do {
     delta \<leftarrow> Some (jor (dget choice ''delta'') (JDict []));
     message \<leftarrow> Some (jor (dget choice ''message'') (JDict []));
     d \<leftarrow> (case delta of JDict d \<Rightarrow> Some d | _ \<Rightarrow> None);
     if truthy (dget d ''tool_calls'') then Some True
     else (case message of JDict m \<Rightarrow> Some (truthy (dget m ''tool_calls'')) | _ \<Rightarrow> None) }"

text \<open>\<open>_response_fields\<close> of the first choice: text, log probabilities, finish reason, tool calls.\<close>

definition response_fields_of ::
  "(ustr \<times> json) list \<Rightarrow> object_kind \<Rightarrow> (ustr option \<times> json \<times> json \<times> bool) option" where
  "response_fields_of data kind = do {
     choice \<leftarrow> (case dget data ''choices'' of
                  JList (c # _) \<Rightarrow> (case c of JDict d \<Rightarrow> Some d | _ \<Rightarrow> None)
                | v \<Rightarrow> if truthy v then None else Some []);
     text \<leftarrow> output_text choice kind;
     tools \<leftarrow> (if choice = [] then Some False else has_tool_calls choice);
     Some (text, output_logprobs choice, dget choice ''finish_reason'', tools) }"

text \<open>
  \<open>_handle\<close> without streaming: the message, if there is one; the first \<open>None\<close> is an exception. The
  response's status and its JSON are what the upstream gave.
\<close>

definition handle_whole ::
  "proxy_cfg \<Rightarrow> string \<Rightarrow> object_kind \<Rightarrow> ustr \<Rightarrow> ustr \<Rightarrow> metadata \<Rightarrow> (ustr \<times> json) list \<Rightarrow> int \<Rightarrow> json
    \<Rightarrow> tap_dict option option" where
  "handle_whole px endpoint kind received_at completed_at md body status reply =
     (let payload = upstream_payload px kind body in
      if status \<ge> 400 then Some None
      else case reply of
          JDict data \<Rightarrow> do {
            (text, logprobs, finish, tools) \<leftarrow> response_fields_of data kind;
            Some (Some (proxy_tap_message px endpoint False received_at completed_at md payload
              \<lparr>cp_prompt_ids = fst (extract_prompt_output_token_ids data),
               cp_output_ids = snd (extract_prompt_output_token_ids data),
               cp_usage = usage_tokens (dget data ''usage''), cp_logprobs = logprobs, cp_text = text,
               cp_response_id = dget data ''id'',
               cp_model = jor (dget data ''model'') (dget payload ''model''),
               cp_finish = finish, cp_tool_calls = tools\<rparr>)) }
        | _ \<Rightarrow> None)"

section \<open>A stream\<close>

text \<open>\<open>_first_token_list\<close>: the preferred keys only, at any depth.\<close>

fun first_token_list :: "string list \<Rightarrow> json \<Rightarrow> json list option"
  and first_in_items :: "string list \<Rightarrow> json list \<Rightarrow> json list option"
  and first_in_values :: "string list \<Rightarrow> (ustr \<times> json) list \<Rightarrow> json list option"
where
  "first_token_list ks (JDict d) =
     (case first_int_list (map (dget d) ks) of Some xs \<Rightarrow> Some xs | None \<Rightarrow> first_in_values ks d)"
| "first_token_list ks (JList xs) = first_in_items ks xs"
| "first_token_list ks _ = None"
| "first_in_items ks [] = None"
| "first_in_items ks (v # vs) = or_else (first_token_list ks v) (first_in_items ks vs)"
| "first_in_values ks [] = None"
| "first_in_values ks ((k, v) # d) = or_else (first_token_list ks v) (first_in_values ks d)"

text \<open>The variables of \<open>stream_and_tap\<close>.\<close>

record relay =
  rl_prompt_ids :: "json list option"
  rl_output_ids :: "json list"
  rl_usage :: json
  rl_logprobs :: "json list"
  rl_text :: ustr
  rl_response_id :: json
  rl_model :: json
  rl_finish :: json
  rl_tool_calls :: bool

definition new_relay :: "(ustr \<times> json) list \<Rightarrow> relay" where
  "new_relay payload = \<lparr>rl_prompt_ids = None, rl_output_ids = [], rl_usage = JNull, rl_logprobs = [],
     rl_text = [], rl_response_id = JNull, rl_model = dget payload ''model'', rl_finish = JNull,
     rl_tool_calls = False\<rparr>"

definition capture_top :: "(ustr \<times> json) list \<Rightarrow> relay \<Rightarrow> relay" where
  "capture_top data r =
     r\<lparr>rl_response_id := (if rl_response_id r = JNull \<and> truthy (dget data ''id'') then dget data ''id''
                          else rl_response_id r),
       rl_model := (if truthy (dget data ''model'') then dget data ''model'' else rl_model r),
       rl_prompt_ids := (case rl_prompt_ids r of
                           Some ids \<Rightarrow> Some ids | None \<Rightarrow> first_token_list PROMPT_KEYS (JDict data)),
       rl_usage := (if is_int (jget (dget data ''usage'') ''completion_tokens'')
                    then jget (dget data ''usage'') ''completion_tokens'' else rl_usage r)\<rparr>"

text \<open>The text of a chunk, which raises where a chat delta is no object.\<close>

definition relay_text :: "object_kind \<Rightarrow> (ustr \<times> json) list \<Rightarrow> ustr option" where
  "relay_text kind choice =
     (case kind of
        Text \<Rightarrow> Some (case dget choice ''text'' of JStr s \<Rightarrow> s | _ \<Rightarrow> [])
      | Chat \<Rightarrow> (case jor (dget choice ''delta'') (JDict []) of
                   JDict d \<Rightarrow> Some (case dget d ''content'' of JStr s \<Rightarrow> s | _ \<Rightarrow> [])
                 | _ \<Rightarrow> None))"

text \<open>The first choice of a chunk: what was captured before an exception stays captured.\<close>

definition capture_choice :: "object_kind \<Rightarrow> json \<Rightarrow> relay cmd" where
  "capture_choice kind choice0 =
     seqc (modc (\<lambda>r. case first_token_list [''token_ids'', ''output_token_ids'', ''completion_token_ids''] choice0 of
                       Some tids \<Rightarrow> r\<lparr>rl_output_ids := rl_output_ids r @ tids\<rparr> | None \<Rightarrow> r))
     (readc (case choice0 of JDict c \<Rightarrow> Some c | _ \<Rightarrow> None) (\<lambda>c.
      seqc (modc (\<lambda>r. r\<lparr>rl_logprobs := rl_logprobs r @ chunk_logprobs c\<rparr>))
      (readc (relay_text kind c) (\<lambda>t.
       seqc (modc (\<lambda>r. r\<lparr>rl_text := rl_text r @ t\<rparr>))
       (readc (has_tool_calls c) (\<lambda>tools.
        modc (\<lambda>r. r\<lparr>rl_tool_calls := rl_tool_calls r \<or> tools,
                    rl_finish := (if truthy (dget c ''finish_reason'') then dget c ''finish_reason''
                                  else rl_finish r)\<rparr>)))))))"

definition capture_chunk :: "object_kind \<Rightarrow> json \<Rightarrow> relay cmd" where
  "capture_chunk kind data =
     readc (case data of JDict d \<Rightarrow> Some d | _ \<Rightarrow> None) (\<lambda>d.
       seqc (modc (capture_top d))
         (case dget d ''choices'' of
            JList (c # _) \<Rightarrow> capture_choice kind c
          | JStr (c # _) \<Rightarrow> capture_choice kind (JStr [c])
          | v \<Rightarrow> if truthy v then raisec else skipc))"

text \<open>What the client is sent: a line that is no JSON as it was, a chunk, the end of the stream.\<close>

datatype relayed = Untouched ustr | Chunk json | Done_mark

datatype stream_end = Completed | Disconnected | Raised

definition DATA_TEXT :: ustr where "DATA_TEXT = uni ''data:''"

text \<open>What a line is: none of the relay's business, the sentinel, or data.\<close>

datatype line_kind = Skipped | Sentinel | Broken ustr | Data json

definition kind_of_line :: "(ustr \<Rightarrow> json option) \<Rightarrow> ustr \<Rightarrow> line_kind" where
  "kind_of_line loads raw =
     (let line = ustrip raw; data_str = ustrip (drop (length DATA_TEXT) line) in
      if line = [] \<or> \<not> starts_with line DATA_TEXT then Skipped
      else if data_str = uni ''[DONE]'' then Sentinel
      else case loads data_str of None \<Rightarrow> Broken data_str | Some v \<Rightarrow> Data v)"

text \<open>
  The loop of \<open>stream_and_tap\<close>. The client disconnects at its n-th chunk (\<open>Some n\<close>, counted down) or
  never, and the upstream ends after its last line, by itself or by an error.
\<close>

fun relay_lines ::
  "(ustr \<Rightarrow> json option) \<Rightarrow> object_kind \<Rightarrow> bool \<Rightarrow> ustr list \<Rightarrow> nat option \<Rightarrow> relay
    \<Rightarrow> relayed list \<times> relay \<times> stream_end" where
  "relay_lines loads kind upstream_ok [] room r =
     (if upstream_ok then ([Done_mark], r, Completed) else ([], r, Raised))"
| "relay_lines loads kind upstream_ok (raw # rest) room r =
     (case kind_of_line loads raw of
        Skipped \<Rightarrow> relay_lines loads kind upstream_ok rest room r
      | Sentinel \<Rightarrow> ([Done_mark], r, Completed)
      | Broken s \<Rightarrow>
          (if room = Some 1 then ([Untouched s], r, Disconnected)
           else (let (out, r', e) = relay_lines loads kind upstream_ok rest (map_option (\<lambda>n. n - 1) room) r
                 in (Untouched s # out, r', e)))
      | Data v \<Rightarrow>
          (let (r1, ok) = capture_chunk kind v r in
           if \<not> ok then ([], r1, Raised)
           else if room = Some 1 then ([Chunk v], r1, Disconnected)
           else (let (out, r', e) = relay_lines loads kind upstream_ok rest (map_option (\<lambda>n. n - 1) room) r1
                 in (Chunk v # out, r', e))))"

definition nonempty_list :: "json list \<Rightarrow> json list option" where
  "nonempty_list xs = (if xs = [] then None else Some xs)"

text \<open>The \<open>finally\<close> block: a message, unless nothing at all was captured.\<close>

definition relay_capture :: "relay \<Rightarrow> capture" where
  "relay_capture r =
     \<lparr>cp_prompt_ids = rl_prompt_ids r, cp_output_ids = nonempty_list (rl_output_ids r), cp_usage = rl_usage r,
      cp_logprobs = (if rl_logprobs r = [] then JNull else JList (rl_logprobs r)),
      cp_text = (if rl_text r = [] then None else Some (rl_text r)),
      cp_response_id = rl_response_id r, cp_model = rl_model r, cp_finish = rl_finish r,
      cp_tool_calls = rl_tool_calls r\<rparr>"

definition captured_something :: "relay \<Rightarrow> bool" where
  "captured_something r \<longleftrightarrow> (rl_prompt_ids r \<noteq> None \<and> rl_prompt_ids r \<noteq> Some []) \<or> rl_output_ids r \<noteq> [] \<or> rl_text r \<noteq> []"

definition stream_and_tap ::
  "proxy_cfg \<Rightarrow> (ustr \<Rightarrow> json option) \<Rightarrow> string \<Rightarrow> object_kind \<Rightarrow> ustr \<Rightarrow> ustr \<Rightarrow> metadata \<Rightarrow> (ustr \<times> json) list
    \<Rightarrow> bool \<Rightarrow> ustr list \<Rightarrow> nat option \<Rightarrow> relayed list \<times> tap_dict option \<times> stream_end" where
  "stream_and_tap px loads endpoint kind received_at completed_at md payload upstream_ok lines room =
     (let (out, r, e) = relay_lines loads kind upstream_ok lines room (new_relay payload) in
      (out,
       if captured_something r
       then Some (proxy_tap_message px endpoint True received_at completed_at md payload (relay_capture r))
       else None,
       e))"

text \<open>
  \<open>_handle\<close> with streaming: an upstream that refuses is answered with its own error (\<open>None\<close>), no stream and
  no tap message; otherwise the payload that was sent is streamed and tapped.
\<close>

definition handle_streamed ::
  "proxy_cfg \<Rightarrow> (ustr \<Rightarrow> json option) \<Rightarrow> string \<Rightarrow> object_kind \<Rightarrow> ustr \<Rightarrow> ustr \<Rightarrow> metadata \<Rightarrow> (ustr \<times> json) list
    \<Rightarrow> int \<Rightarrow> bool \<Rightarrow> ustr list \<Rightarrow> nat option \<Rightarrow> (relayed list \<times> tap_dict option \<times> stream_end) option" where
  "handle_streamed px loads endpoint kind received_at completed_at md body status upstream_ok lines room =
     (let payload = upstream_payload px kind body in
      if status \<ge> 400 then None
      else Some (stream_and_tap px loads endpoint kind received_at completed_at md payload upstream_ok lines room))"

section \<open>The declaration\<close>

definition parse_model_name :: "json \<Rightarrow> json option" where
  "parse_model_name models_body =
     (case models_body of
        JDict b \<Rightarrow> (case map_of b (uni ''data'') of
          Some (JList (JDict m # _)) \<Rightarrow>
            (case map_of m (uni ''id'') of Some v \<Rightarrow> if truthy v then Some v else None | None \<Rightarrow> None)
        | _ \<Rightarrow> None)
      | _ \<Rightarrow> None)"

definition declared_field :: "string \<Rightarrow> json \<Rightarrow> (ustr \<times> json) list" where
  "declared_field k v = (if v = JNull then [] else [(uni k, v)])"

definition build_declaration :: "proxy_cfg \<Rightarrow> json \<Rightarrow> (ustr \<times> json) list" where
  "build_declaration px model_name =
     [(uni ''hostname'', JStr (px_hostname px)), (uni ''model_name'', model_name)]
     @ declared_field ''seed'' (px_seed px)
     @ declared_field ''temperature'' (px_temperature px)
     @ declared_field ''top_k'' (px_top_k px)
     @ declared_field ''top_p'' (px_top_p px)
     @ declared_field ''decoding_algorithm'' (json_text (px_decoding_algorithm px))
     @ (case px_owner_name px of Some (c # cs) \<Rightarrow> [(uni ''owner_name'', JStr (c # cs))] | _ \<Rightarrow> [])"

text \<open>
  One attempt: the model's name from the configuration or from upstream (\<open>discover\<close>), then the ledger's
  answer; \<open>None\<close> raises. The attempts are the answers in the order they come.
\<close>

definition attempt_declaration ::
  "proxy_cfg \<Rightarrow> json option \<Rightarrow> ((ustr \<times> json) list \<Rightarrow> json option) \<Rightarrow> json option" where
  "attempt_declaration px discover post =
     do { name \<leftarrow> (case px_model_name px of
                     Some (c # cs) \<Rightarrow> Some (JStr (c # cs))
                   | _ \<Rightarrow> Option.bind discover parse_model_name);
          post (build_declaration px name) }"

fun declare_until_success ::
  "proxy_cfg \<Rightarrow> nat option \<Rightarrow> nat \<Rightarrow> (json option \<times> ((ustr \<times> json) list \<Rightarrow> json option)) list
    \<Rightarrow> (json option \<times> nat) option" where
  "declare_until_success px max_attempts attempt [] = None"
| "declare_until_success px max_attempts attempt ((discover, post) # later) =
     (case attempt_declaration px discover post of
        Some deployment \<Rightarrow> Some (Some deployment, attempt + 1)
      | None \<Rightarrow>
          if (case max_attempts of None \<Rightarrow> False | Some m \<Rightarrow> m \<le> attempt + 1) then Some (None, attempt + 1)
          else declare_until_success px max_attempts (attempt + 1) later)"

end

