(* ===== verification/Proxy_Proofs.thy ===== *)
theory Proxy_Proofs
  imports Proxy Emitter_Proofs
begin

text \<open>
  The proxy enforces what it declares, loses no stream, and tells the ledger of an inference what the
  frame processor tells it, except of tool calls in a stream.
\<close>

section \<open>What is declared is enforced\<close>

lemma dget_pin: "dget (pin_field f v d) k = (if f = k \<and> v \<noteq> JNull then v else dget d k)"
  by (simp add: pin_field_def dget_update)

lemma dget_set_default: "k \<noteq> f \<Longrightarrow> dget (set_default f v d) k = dget d k"
  by (simp add: set_default_def dget_update)

lemma dget_ask: "k \<noteq> ''stream_options'' \<Longrightarrow> dget (ask_for_usage d) k = dget d k"
  by (simp add: ask_for_usage_def Let_def dget_update dget_set_default split: json.split)

lemma dget_report_options:
  "k \<notin> {''return_token_ids'', ''stream_options'', ''top_logprobs'', ''logprobs''} \<Longrightarrow>
     dget (add_tap_report_options px kind d) k = dget d k"
  by (simp add: add_tap_report_options_def Let_def dget_set_default dget_ask split: object_kind.split)

definition configured_or :: "json \<Rightarrow> json \<Rightarrow> json" where
  "configured_or v client = (if v = JNull then client else v)"

lemma dget_upstream:
  "dget (upstream_payload px kind body) ''seed'' = configured_or (px_seed px) (dget body ''seed'')"
  "dget (upstream_payload px kind body) ''temperature'' = configured_or (px_temperature px) (dget body ''temperature'')"
  "dget (upstream_payload px kind body) ''top_k'' = configured_or (px_top_k px) (dget body ''top_k'')"
  "dget (upstream_payload px kind body) ''top_p'' = configured_or (px_top_p px) (dget body ''top_p'')"
  "k \<notin> {''return_token_ids'', ''stream_options'', ''top_logprobs'', ''logprobs'', ''seed'', ''temperature'',
         ''top_k'', ''top_p'', ''stream''} \<Longrightarrow> dget (upstream_payload px kind body) k = dget body k"
  by (auto simp: upstream_payload_def Let_def dget_update inject_sampling_config_def dget_pin
      dget_report_options configured_or_def)

lemma dget_append: "dget (d @ e) k = (case map_of d (uni k) of None \<Rightarrow> dget e k | Some v \<Rightarrow> v)"
  by (simp add: dget_def map_add_def split: option.split)

lemma declared_lookup: "map_of (declared_field f v) (uni k) = (if f = k \<and> v \<noteq> JNull then Some v else None)"
  by (simp add: declared_field_def uni_inj)

lemma dget_declared:
  "dget (build_declaration px name) ''seed'' = px_seed px"
  "dget (build_declaration px name) ''temperature'' = px_temperature px"
  "dget (build_declaration px name) ''top_k'' = px_top_k px"
  "dget (build_declaration px name) ''top_p'' = px_top_p px"
proof -
  have o: "map_of (case px_owner_name px of Some (c # cs) \<Rightarrow> [(uni ''owner_name'', JStr (c # cs))] | _ \<Rightarrow> []) (uni k) = None"
    if "k \<noteq> ''owner_name''" for k
    using that by (auto simp: uni_inj split: option.split list.split)
  show "dget (build_declaration px name) ''seed'' = px_seed px"
    "dget (build_declaration px name) ''temperature'' = px_temperature px"
    "dget (build_declaration px name) ''top_k'' = px_top_k px"
    "dget (build_declaration px name) ''top_p'' = px_top_p px"
    by (auto simp: build_declaration_def dget_def map_add_def declared_lookup uni_inj o split: option.split)
qed

text \<open>The fields of a request the proxy may set.\<close>

definition set_by_proxy :: "string list" where
  "set_by_proxy = [''seed'', ''temperature'', ''top_k'', ''top_p'', ''stream'', ''return_token_ids'',
     ''stream_options'', ''top_logprobs'', ''logprobs'']"

lemma upstream_sampling:
  "k \<in> {''seed'', ''temperature'', ''top_k'', ''top_p''} \<Longrightarrow>
     dget (upstream_payload px kind body) k = configured_or (dget (build_declaration px name) k) (dget body k)"
  by (auto simp: dget_upstream dget_declared)

lemma upstream_rest: "k \<notin> set set_by_proxy \<Longrightarrow> dget (upstream_payload px kind body) k = dget body k"
  by (rule dget_upstream(5)) (simp add: set_by_proxy_def)

lemma whole_tap_sampling:
  "handle_whole px ep kind ra ca md body status reply = Some (Some m) \<Longrightarrow>
     td_sampling m = sampling_fields (upstream_payload px kind body)"
  by (auto simp: handle_whole_def proxy_tap_message_def Let_def bind_eq_Some_conv
      split: if_splits json.splits prod.splits)

lemma streamed_tap_sampling:
  "handle_streamed px loads ep kind ra ca md body status ok ls room = Some (out, Some m, e) \<Longrightarrow>
     td_sampling m = sampling_fields (upstream_payload px kind body)"
  by (auto simp: handle_streamed_def stream_and_tap_def proxy_tap_message_def Let_def
      split: if_splits prod.splits)

text \<open>C31: What is declared is what is sent, and what is tapped. Each of seed, temperature, top-k and top-p
  that the proxy declares for the model is the value every request goes upstream with, whatever the client
  asked for, and one it does not declare stays as the client sent it. Every other field of the request stays
  as the client sent it, but for the reporting options and the stream flag. The tap message of the request,
  streamed or not, reports the sampling values that were sent upstream, not the client's.\<close>

theorem declared_is_sent:
  "let sent = upstream_payload px kind body in
     (\<forall>k \<in> {''seed'', ''temperature'', ''top_k'', ''top_p''}.
        dget sent k = configured_or (dget (build_declaration px name) k) (dget body k)) \<and>
     (\<forall>k. k \<notin> set set_by_proxy \<longrightarrow> dget sent k = dget body k) \<and>
     (\<forall>ep ra ca md status m.
        (\<exists>reply. handle_whole px ep kind ra ca md body status reply = Some (Some m)) \<or>
        (\<exists>loads ok ls room out e. handle_streamed px loads ep kind ra ca md body status ok ls room = Some (out, Some m, e)) \<longrightarrow>
        td_sampling m = map (\<lambda>k. (uni k, dget sent k)) [''seed'', ''temperature'', ''top_k'', ''top_p''] @
          [(uni ''max_output_tokens'', jor (dget body ''max_output_tokens'') (dget body ''max_tokens''))])"
proof -
  have fields: "sampling_fields (upstream_payload px kind body) =
      map (\<lambda>k. (uni k, dget (upstream_payload px kind body) k)) [''seed'', ''temperature'', ''top_k'', ''top_p''] @
      [(uni ''max_output_tokens'', jor (dget body ''max_output_tokens'') (dget body ''max_tokens''))]"
    by (simp add: sampling_fields_def dget_upstream)
  show ?thesis
    unfolding Let_def fields[symmetric]
  proof (intro conjI allI ballI impI)
    fix ep ra ca md status m
    assume "(\<exists>reply. handle_whole px ep kind ra ca md body status reply = Some (Some m)) \<or>
        (\<exists>loads ok ls room out e. handle_streamed px loads ep kind ra ca md body status ok ls room = Some (out, Some m, e))"
    then show "td_sampling m = sampling_fields (upstream_payload px kind body)"
      by (elim disjE exE) (erule whole_tap_sampling, erule streamed_tap_sampling)
  qed (fact upstream_sampling, fact upstream_rest)
qed

section \<open>A stream cut short\<close>

text \<open>What a stream is when the client leaves: the lines relayed until then, and no end.\<close>

lemma relay_cut:
  "relay_lines loads kind ok lines room r = (out, r', e) \<Longrightarrow>
     \<exists>k. fst (snd (relay_lines loads kind False (take k lines) None r)) = r' \<and>
         (\<exists>rest. out = fst (relay_lines loads kind False (take k lines) None r) @ rest)"
proof (induction lines arbitrary: room r out)
  case Nil
  then show ?case by (cases ok) auto
next
  case (Cons raw rest)
  show ?case
  proof (cases "kind_of_line loads raw")
    case Skipped
    with Cons.prems obtain k where
      "fst (snd (relay_lines loads kind False (take k rest) None r)) = r'"
      "\<exists>tl. out = fst (relay_lines loads kind False (take k rest) None r) @ tl"
      using Cons.IH[of room r out] by auto
    with Skipped show ?thesis by (intro exI[of _ "Suc k"]) simp
  next
    case Sentinel
    with Cons.prems show ?thesis by (intro exI[of _ 0]) auto
  next
    case (Broken s)
    show ?thesis
    proof (cases "room = Some 1")
      case True
      with Broken Cons.prems show ?thesis by (intro exI[of _ 1]) simp
    next
      case False
      obtain o1 r1 e1 where o: "relay_lines loads kind ok rest (map_option (\<lambda>n. n - 1) room) r = (o1, r1, e1)"
        by (cases "relay_lines loads kind ok rest (map_option (\<lambda>n. n - 1) room) r")
      with Cons.prems Broken False have eq: "out = Untouched s # o1" "r' = r1" "e = e1" by simp_all
      from Cons.IH[of "map_option (\<lambda>n. n - 1) room" r o1] o eq obtain k tl where
        "fst (snd (relay_lines loads kind False (take k rest) None r)) = r'"
        "o1 = fst (relay_lines loads kind False (take k rest) None r) @ tl" by auto
      with Broken eq show ?thesis
        by (intro exI[of _ "Suc k"]) (auto simp: Let_def case_prod_beta)
    qed
  next
    case (Data v)
    obtain r2 good where c: "capture_chunk kind v r = (r2, good)" by (cases "capture_chunk kind v r")
    show ?thesis
    proof (cases "\<not> good \<or> room = Some 1")
      case True
      with Data c Cons.prems show ?thesis by (intro exI[of _ 1]) (auto split: if_splits)
    next
      case False
      obtain o1 r1 e1 where o: "relay_lines loads kind ok rest (map_option (\<lambda>n. n - 1) room) r2 = (o1, r1, e1)"
        by (cases "relay_lines loads kind ok rest (map_option (\<lambda>n. n - 1) room) r2")
      with Cons.prems Data c False have eq: "out = Chunk v # o1" "r' = r1" "e = e1" by simp_all
      from Cons.IH[of "map_option (\<lambda>n. n - 1) room" r2 o1] o eq obtain k tl where
        "fst (snd (relay_lines loads kind False (take k rest) None r2)) = r'"
        "o1 = fst (relay_lines loads kind False (take k rest) None r2) @ tl" by auto
      with Data c False eq show ?thesis
        by (intro exI[of _ "Suc k"]) (auto simp: Let_def case_prod_beta)
    qed
  qed
qed

section \<open>Both taps, one inference\<close>

text \<open>A generation whose log probabilities come with the ids they belong to.\<close>

definition tokenized :: "generation \<Rightarrow> bool" where
  "tokenized g \<longleftrightarrow> list_all (\<lambda>p. fst (snd p) \<noteq> [] \<or> snd (snd p) = []) (gn_pieces g) \<and> gn_prompt g \<noteq> []"

lemma cmd_simps:
  "seqc (modc f) k s = k (f s)" "readc (Some a) c = c a" "skipc s = (s, True)" "modc f s = (f s, True)"
  by (simp_all add: seqc_def modc_def readc_def skipc_def)

lemma piece_ids:
  assumes "fst (snd p) \<noteq> [] \<or> snd (snd p) = []" "fin = JNull \<or> (\<exists>s. fin = JStr s)"
  shows "(case first_token_list [''token_ids'', ''output_token_ids'', ''completion_token_ids'']
            (choice_json kind ''delta'' fin p) of
          Some tids \<Rightarrow> r\<lparr>rl_output_ids := rl_output_ids r @ tids\<rparr> | None \<Rightarrow> r)
       = r\<lparr>rl_output_ids := rl_output_ids r @ map JInt (fst (snd p))\<rparr>"
proof (cases "fst (snd p) = []")
  case True
  have "first_token_list ks fin = None" for ks using assms(2) by auto
  with True assms(1) show ?thesis
    by (cases kind) (simp_all add: choice_json_def text_field_def dget_simps logprobs_json_def ids_json_def)
next
  case False
  then show ?thesis
    by (simp add: choice_json_def dget_simps ids_json_def text_field_def split: object_kind.split)
qed

lemma piece_fields:
  assumes "choice_json kind ''delta'' fin p = JDict c"
  shows "chunk_logprobs c = kind_logprobs kind (snd (snd p))" "relay_text kind c = Some (fst p)"
    "has_tool_calls c = Some False" "dget c ''finish_reason'' = fin"
proof -
  have c: "c = [(uni ''index'', JInt 0), text_field kind ''delta'' (fst p),
      (uni ''logprobs'', logprobs_json kind (snd (snd p))), (uni ''finish_reason'', fin),
      (uni ''token_ids'', ids_json (fst (snd p)))]"
    using assms by (simp add: choice_json_def)
  show "chunk_logprobs c = kind_logprobs kind (snd (snd p))"
    using chunk_of_choice(5,6)[OF assms] by (cases kind) (simp_all add: kind_logprobs_def)
  show "relay_text kind c = Some (fst p)"
    unfolding c by (cases kind) (simp_all add: relay_text_def text_field_def dget_simps jor_def)
  show "has_tool_calls c = Some False"
    unfolding c by (cases kind) (simp_all add: has_tool_calls_def text_field_def dget_simps jor_def)
  show "dget c ''finish_reason'' = fin"
    unfolding c by (cases kind) (simp_all add: text_field_def dget_simps)
qed

text \<open>What every event of the generation leaves at the top.\<close>

definition with_top :: "generation \<Rightarrow> relay \<Rightarrow> relay" where
  "with_top g r =
     r\<lparr>rl_response_id := (if rl_response_id r = JNull \<and> gn_id g \<noteq> [] then JStr (gn_id g) else rl_response_id r),
       rl_model := (if gn_model g \<noteq> [] then JStr (gn_model g) else rl_model r)\<rparr>"

lemma capture_top_event:
  "rl_prompt_ids r = Some ids \<Longrightarrow> capture_top (event_json g cs) r = with_top g r"
  by (simp add: capture_top_def with_top_def event_json_def dget_simps jget_def)

lemma capture_piece:
  assumes "fst (snd p) \<noteq> [] \<or> snd (snd p) = []" "fin = JNull \<or> (\<exists>s. fin = JStr s)" "rl_prompt_ids r = Some ids"
  shows "capture_chunk kind (JDict (event_json g [choice_json kind ''delta'' fin p])) r =
    (let r1 = with_top g r in
     r1\<lparr>rl_output_ids := rl_output_ids r @ map JInt (fst (snd p)),
        rl_logprobs := rl_logprobs r @ kind_logprobs kind (snd (snd p)),
        rl_text := rl_text r @ fst p,
        rl_finish := (if truthy fin then fin else rl_finish r)\<rparr>, True)"
proof -
  obtain c where c: "choice_json kind ''delta'' fin p = JDict c" by (rule choice_is_dict)
  have d: "dget (event_json g [choice_json kind ''delta'' fin p]) ''choices'' = JList [choice_json kind ''delta'' fin p]"
    by (simp add: event_json_def dget_simps)
  let ?r = "with_top g r"
  have cc: "capture_choice kind (JDict c) ?r =
      (?r\<lparr>rl_output_ids := rl_output_ids ?r @ map JInt (fst (snd p)),
          rl_logprobs := rl_logprobs ?r @ kind_logprobs kind (snd (snd p)),
          rl_text := rl_text ?r @ fst p, rl_tool_calls := rl_tool_calls ?r \<or> False,
          rl_finish := (if truthy fin then fin else rl_finish ?r)\<rparr>, True)"
    using piece_ids[OF assms(1,2), where kind = kind and r = ?r]
    by (simp add: c capture_choice_def cmd_simps piece_fields[OF c] del: first_token_list.simps)
  have "capture_chunk kind (JDict (event_json g [choice_json kind ''delta'' fin p])) r = capture_choice kind (JDict c) ?r"
    by (simp add: capture_chunk_def cmd_simps capture_top_event[OF assms(3)] d) (simp add: c)
  with cc show ?thesis by (simp add: Let_def with_top_def)
qed

definition topped :: "generation \<Rightarrow> relay \<Rightarrow> bool" where
  "topped g r \<longleftrightarrow> \<not> (rl_response_id r = JNull \<and> gn_id g \<noteq> []) \<and>
     \<not> (gn_model g \<noteq> [] \<and> rl_model r \<noteq> JStr (gn_model g))"

lemma topped_with_top: "topped g r \<Longrightarrow> with_top g r = r"
  by (cases r) (auto simp: topped_def with_top_def)

lemma with_top_topped: "topped g (with_top g r)"
  by (simp add: topped_def with_top_def)

lemma topped_updates [simp]:
  "topped g (r\<lparr>rl_output_ids := a\<rparr>) = topped g r" "topped g (r\<lparr>rl_logprobs := b\<rparr>) = topped g r"
  "topped g (r\<lparr>rl_text := c\<rparr>) = topped g r" "topped g (r\<lparr>rl_prompt_ids := d\<rparr>) = topped g r"
  "topped g (r\<lparr>rl_finish := e\<rparr>) = topped g r"
  by (simp_all add: topped_def)

lemma relay_data:
  "kind_of_line loads raw = Data v \<Longrightarrow> capture_chunk kind v r = (r1, True) \<Longrightarrow>
     fst (snd (relay_lines loads kind ok (raw # rest) None r)) = fst (snd (relay_lines loads kind ok rest None r1))"
  by (simp add: Let_def case_prod_beta)

lemma relay_pieces:
  assumes "map (kind_of_line loads) ls = map (\<lambda>p. Data (JDict (event_json g [choice_json kind ''delta'' JNull p]))) ps"
    and "list_all (\<lambda>p. fst (snd p) \<noteq> [] \<or> snd (snd p) = []) ps"
    and "topped g r" "rl_prompt_ids r = Some ids"
  shows "fst (snd (relay_lines loads kind ok (ls @ rest) None r)) =
    fst (snd (relay_lines loads kind ok rest None
      (r\<lparr>rl_output_ids := rl_output_ids r @ map JInt (concat (map (fst \<circ> snd) ps)),
         rl_logprobs := rl_logprobs r @ kind_logprobs kind (concat (map (snd \<circ> snd) ps)),
         rl_text := rl_text r @ concat (map fst ps)\<rparr>)))"
  using assms
proof (induction ps arbitrary: ls r)
  case Nil
  then show ?case by (cases kind) (simp_all add: kind_logprobs_def)
next
  case (Cons p ps)
  then obtain raw ls' where ls: "ls = raw # ls'"
    "kind_of_line loads raw = Data (JDict (event_json g [choice_json kind ''delta'' JNull p]))"
    "map (kind_of_line loads) ls' = map (\<lambda>p. Data (JDict (event_json g [choice_json kind ''delta'' JNull p]))) ps"
    by (auto simp: map_eq_Cons_conv)
  let ?r1 = "r\<lparr>rl_output_ids := rl_output_ids r @ map JInt (fst (snd p)),
      rl_logprobs := rl_logprobs r @ kind_logprobs kind (snd (snd p)), rl_text := rl_text r @ fst p\<rparr>"
  have c: "capture_chunk kind (JDict (event_json g [choice_json kind ''delta'' JNull p])) r = (?r1, True)"
    using capture_piece[of p JNull r ids kind g] topped_with_top[of g r] Cons.prems by simp
  have "fst (snd (relay_lines loads kind ok (ls @ rest) None r)) = fst (snd (relay_lines loads kind ok (ls' @ rest) None ?r1))"
    using relay_data[OF ls(2) c] ls(1) by simp
  also have "\<dots> = fst (snd (relay_lines loads kind ok rest None
      (?r1\<lparr>rl_output_ids := rl_output_ids ?r1 @ map JInt (concat (map (fst \<circ> snd) ps)),
         rl_logprobs := rl_logprobs ?r1 @ kind_logprobs kind (concat (map (snd \<circ> snd) ps)),
         rl_text := rl_text ?r1 @ concat (map fst ps)\<rparr>)))"
    using Cons.prems ls(3) by (intro Cons.IH) simp_all
  finally show ?case by (cases kind) (simp_all add: kind_logprobs_def comp_def)
qed

text \<open>The whole stream.\<close>

definition stream_lines :: "(ustr \<Rightarrow> json option) \<Rightarrow> object_kind \<Rightarrow> generation \<Rightarrow> ustr list \<Rightarrow> bool" where
  "stream_lines loads kind g ls \<longleftrightarrow>
     map (kind_of_line loads) ls = map (\<lambda>ev. Data (JDict ev)) (stream_of kind g) @ [Sentinel]"

lemma relay_first:
  assumes "gn_prompt g \<noteq> []"
  shows "capture_chunk kind (JDict (event_json g [] @ [(uni ''prompt_token_ids'', ids_json (gn_prompt g))])) (new_relay payload) =
    ((with_top g (new_relay payload))\<lparr>rl_prompt_ids := Some (map JInt (gn_prompt g))\<rparr>, True)"
  using assms
  by (simp add: capture_chunk_def cmd_simps capture_top_def event_json_def dget_simps jget_def with_top_def
      new_relay_def PROMPT_KEYS_def ids_json_def)

lemma relay_usage:
  assumes "topped g r" "rl_prompt_ids r = Some ids"
  shows "capture_chunk kind (JDict (event_json g [] @ [(uni ''usage'', usage_json (gn_usage g))])) r =
    (r\<lparr>rl_usage := JInt (gn_usage g)\<rparr>, True)"
proof -
  have "capture_chunk kind (JDict (event_json g [] @ [(uni ''usage'', usage_json (gn_usage g))])) r =
      ((with_top g r)\<lparr>rl_usage := JInt (gn_usage g)\<rparr>, True)"
    using assms(2)
    by (simp add: capture_chunk_def cmd_simps capture_top_def event_json_def dget_simps jget_def with_top_def usage_json_def)
  with topped_with_top[OF assms(1)] show ?thesis by simp
qed

lemma relay_stream:
  assumes "stream_lines loads kind g ls" "tokenized g" "gn_finish g \<noteq> []"
  shows "fst (snd (relay_lines loads kind ok ls None (new_relay payload))) =
    (with_top g (new_relay payload))\<lparr>rl_prompt_ids := Some (map JInt (gn_prompt g)),
       rl_output_ids := map JInt (fst (snd (whole_piece g))), rl_usage := JInt (gn_usage g),
       rl_logprobs := kind_logprobs kind (snd (snd (whole_piece g))), rl_text := fst (whole_piece g),
       rl_finish := JStr (gn_finish g)\<rparr>"
proof -
  obtain l0 ls1 rest where ls: "ls = l0 # ls1 @ rest"
    "kind_of_line loads l0 = Data (JDict (event_json g [] @ [(uni ''prompt_token_ids'', ids_json (gn_prompt g))]))"
    "map (kind_of_line loads) ls1 = map (\<lambda>p. Data (JDict (event_json g [choice_json kind ''delta'' JNull p]))) (gn_pieces g)"
    "map (kind_of_line loads) rest =
      [Data (JDict (event_json g [choice_json kind ''delta'' (JStr (gn_finish g)) ([], [], [])])),
       Data (JDict (event_json g [] @ [(uni ''usage'', usage_json (gn_usage g))])), Sentinel]"
    using assms(1) unfolding stream_lines_def stream_of_def
    by (auto simp: map_eq_append_conv map_eq_Cons_conv comp_def append_eq_append_conv2 intro: that)
  let ?r0 = "(with_top g (new_relay payload))\<lparr>rl_prompt_ids := Some (map JInt (gn_prompt g))\<rparr>"
  let ?r1 = "?r0\<lparr>rl_output_ids := map JInt (fst (snd (whole_piece g))),
      rl_logprobs := kind_logprobs kind (snd (snd (whole_piece g))), rl_text := fst (whole_piece g)\<rparr>"
  let ?r2 = "?r1\<lparr>rl_finish := JStr (gn_finish g)\<rparr>"
  have t: "topped g ?r0" "topped g ?r1" "topped g ?r2" using with_top_topped[of g "new_relay payload"] by simp_all
  have p: "gn_prompt g \<noteq> []" "list_all (\<lambda>p. fst (snd p) \<noteq> [] \<or> snd (snd p) = []) (gn_pieces g)"
    using assms(2) by (simp_all add: tokenized_def)
  have "fst (snd (relay_lines loads kind ok ls None (new_relay payload))) =
      fst (snd (relay_lines loads kind ok (ls1 @ rest) None ?r0))"
    using relay_data[OF ls(2) relay_first[OF p(1)]] ls(1) by simp
  also have "\<dots> = fst (snd (relay_lines loads kind ok rest None ?r1))"
    using relay_pieces[OF ls(3) p(2) t(1), of "map JInt (gn_prompt g)" ok rest]
    by (simp add: whole_piece_def with_top_def new_relay_def)
  also have "\<dots> = ?r2\<lparr>rl_usage := JInt (gn_usage g)\<rparr>"
  proof -
    obtain a b c where r: "rest = [a, b, c]"
      "kind_of_line loads a = Data (JDict (event_json g [choice_json kind ''delta'' (JStr (gn_finish g)) ([], [], [])]))"
      "kind_of_line loads b = Data (JDict (event_json g [] @ [(uni ''usage'', usage_json (gn_usage g))]))"
      "kind_of_line loads c = Sentinel"
      using ls(4) by (auto simp: map_eq_Cons_conv)
    have "capture_chunk kind (JDict (event_json g [choice_json kind ''delta'' (JStr (gn_finish g)) ([], [], [])])) ?r1 = (?r2, True)"
      using capture_piece[of "([], [], [])" "JStr (gn_finish g)" ?r1 "map JInt (gn_prompt g)" kind g]
        topped_with_top[OF t(2)] assms(3)
      by (cases kind) (simp_all add: kind_logprobs_def Let_def)
    moreover have "capture_chunk kind (JDict (event_json g [] @ [(uni ''usage'', usage_json (gn_usage g))])) ?r2
        = (?r2\<lparr>rl_usage := JInt (gn_usage g)\<rparr>, True)"
      by (rule relay_usage[OF t(3)]) simp
    ultimately show ?thesis using r relay_data[OF r(2)] relay_data[OF r(3)] by simp
  qed
  finally show ?thesis by simp
qed

text \<open>What an observer says of itself: who it is, what it saw and when; the rest is the inference.\<close>

definition as_observed_by :: "tap_dict \<Rightarrow> tap_dict \<Rightarrow> tap_dict" where
  "as_observed_by f p =
     p\<lparr>td_source := td_source f, td_version := td_version f, td_hostname := td_hostname f,
       td_upstream_base_url := td_upstream_base_url f, td_observed_on := td_observed_on f,
       td_received_at := td_received_at f, td_completed_at := td_completed_at f,
       td_pod_name := td_pod_name f, td_node_name := td_node_name f, td_flags_added := td_flags_added f\<rparr>"

definition header_metadata :: "http_message \<Rightarrow> metadata" where
  "header_metadata m = \<lparr>md_user_id = header_json m ''x-openwebui-user-id'',
     md_chat_id = header_json m ''x-openwebui-chat-id'', md_message_id = header_json m ''x-openwebui-message-id''\<rparr>"

lemma frame_stream_message:
  assumes "response_object (cf_loads cf) (object_kind_of (lc_endpoint cl)) (ex_response x)
             = merged_stream (object_kind_of (lc_endpoint cl)) g"
    and "gn_prompt g \<noteq> []" "fst (snd (whole_piece g)) \<noteq> []"
  shows "build_tap_message cf x cl t u ob = Some
    \<lparr>td_source = uni ''frame-processor'', td_version = cf_version cf,
     td_hostname = resolve_hostname cf (lc_model_name cl), td_upstream_base_url = None, td_observed_on = ob,
     td_endpoint = lc_endpoint cl, td_streamed = (case ex_response x of None \<Rightarrow> False | Some m \<Rightarrow> is_sse m),
     td_received_at = map_option (cf_iso cf) t, td_completed_at = map_option (cf_iso cf) u,
     td_pod_name = None, td_node_name = None,
     td_session_id = jor (header_json (ex_request x) ''x-openwebui-chat-id'') (JStr (gn_id g)),
     td_user_id = header_json (ex_request x) ''x-openwebui-user-id'',
     td_chat_id = header_json (ex_request x) ''x-openwebui-chat-id'',
     td_message_id = header_json (ex_request x) ''x-openwebui-message-id'',
     td_response_id = JStr (gn_id g), td_model_name = jor (JStr (gn_model g)) (JStr (lc_model_name cl)),
     td_sampling = sampling_fields (lc_request_body cl), td_flags_added = (False, False, None),
     td_prompt_text = extract_prompt_text (cf_repr cf) (lc_request_body cl),
     td_prompt_token_ids = Some (map JInt (gn_prompt g)),
     td_output_text = (if fst (whole_piece g) = [] then None else Some (fst (whole_piece g))),
     td_output_token_ids = Some (map JInt (fst (snd (whole_piece g)))),
     td_output_logprobs = (let lps = kind_logprobs (object_kind_of (lc_endpoint cl)) (snd (snd (whole_piece g))) in
        if lps = [] then JNull else JList lps),
     td_finish_reason = JStr (gn_finish g), td_tool_calls = False, td_usage_completion_tokens = JInt (gn_usage g),
     td_constrained_decoding = detect_constrained_decoding (lc_request_body cl)\<rparr>"
proof -
  let ?k = "object_kind_of (lc_endpoint cl)"
  obtain d where d: "stream_choice ?k g = JDict d" by (rule stream_choice_is_dict)
  obtain n where n: "dict_or_empty (dget d ''message'') = Some n" using stream_choice_fields(1)[OF d] by blast
  have ids: "extract_prompt_output_token_ids [(uni ''response'', JDict (merged_stream ?k g))] =
      (Some (map JInt (gn_prompt g)), Some (map JInt (fst (snd (whole_piece g)))))"
    using assms(2,3) find_in_response(2)[OF output_keys_ok(2,5), of ?k g] find_in_stream_choice[OF output_keys_ok(3), of ?k g]
    by (simp add: extract_prompt_output_token_ids_def Let_def first_choice_ids_def jget_def response_choices
        response_ids_def choice_ids_def del: find_token_ids.simps(1))
  have u: "dict_or_empty (usage_json (gn_usage g)) = Some [(uni ''completion_tokens'', JInt (gn_usage g))]"
    by (simp add: usage_json_def dict_or_empty_def)
  define ot where "ot = (if fst (whole_piece g) = [] then None else Some (fst (whole_piece g)))"
  define lp where "lp = (if kind_logprobs ?k (snd (snd (whole_piece g))) = [] then JNull
      else JList (kind_logprobs ?k (snd (snd (whole_piece g)))))"
  have f: "output_text d ?k = Some ot" "output_logprobs d = lp" "dget d ''finish_reason'' = JStr (gn_finish g)"
    "truthy (dget n ''tool_calls'') = False"
    using stream_choice_fields(2)[OF d n] stream_choice_fields(3-5)[OF d] by (simp_all add: ot_def lp_def)
  show ?thesis
    unfolding ot_def[symmetric] Let_def lp_def[symmetric]
    by (simp add: build_tap_message_def Let_def assms(1) first_choices d n response_fields u f
        prompt_ids_of_def ids dget_simps)
qed

text \<open>C11: Both taps tell the ledger the same of a streamed generation, under these conditions: the two
  see the same request, which names its model, and a stream in which the events are those of one generation
  (an event with the prompt's ids, the pieces, the finish reason, the usage last), with its id, output ids and
  finish reason there, without tool calls, and for a text completion without log probabilities. Then
  the message of the proxy in the path and the message of the frame processor beside it agree in every
  field but those in which an observer speaks of itself: who and where it is, when it saw the exchange, and
  the flags it added.\<close>

theorem taps_agree:
  assumes "stream_lines loads (object_kind_of (lc_endpoint cl)) g ls" "tokenized g" "gn_finish g \<noteq> []"
    and "ex_response x = Some r" "is_sse r"
    and "parse_sse_events (cf_loads cf) (hm_body r) = stream_of (object_kind_of (lc_endpoint cl)) g"
    and "fst (snd (whole_piece g)) \<noteq> []" "cf_repr cf = px_repr px"
    and "dget (lc_request_body cl) ''model'' = JStr (lc_model_name cl)" "gn_id g \<noteq> []"
  shows "\<exists>out f p e.
    build_tap_message cf x cl t u ob = Some f \<and>
    stream_and_tap px loads (lc_endpoint cl) (object_kind_of (lc_endpoint cl)) received_at completed_at
      (header_metadata (ex_request x)) (lc_request_body cl) ok ls None = (out, Some p, e) \<and>
    f = as_observed_by f p"
proof -
  let ?k = "object_kind_of (lc_endpoint cl)"
  have p: "gn_prompt g \<noteq> []" using assms(2) by (simp add: tokenized_def)
  have b: "response_object (cf_loads cf) ?k (ex_response x) = merged_stream ?k g"
    using assms(4-6) merge_stream_of[OF assms(3)] by (simp add: response_object_def)
  obtain out r1 e where s: "relay_lines loads ?k ok ls None (new_relay (lc_request_body cl)) = (out, r1, e)"
    by (cases "relay_lines loads ?k ok ls None (new_relay (lc_request_body cl))")
  with relay_stream[OF assms(1-3), of ok "lc_request_body cl"] have r1: "r1 =
      (with_top g (new_relay (lc_request_body cl)))\<lparr>rl_prompt_ids := Some (map JInt (gn_prompt g)),
       rl_output_ids := map JInt (fst (snd (whole_piece g))), rl_usage := JInt (gn_usage g),
       rl_logprobs := kind_logprobs ?k (snd (snd (whole_piece g))), rl_text := fst (whole_piece g),
       rl_finish := JStr (gn_finish g)\<rparr>" by simp
  let ?p = "proxy_tap_message px (lc_endpoint cl) True received_at completed_at (header_metadata (ex_request x))
      (lc_request_body cl) (relay_capture r1)"
  have st: "stream_and_tap px loads (lc_endpoint cl) ?k received_at completed_at
      (header_metadata (ex_request x)) (lc_request_body cl) ok ls None = (out, Some ?p, e)"
    using p by (simp add: stream_and_tap_def s captured_something_def r1)
  note fm = frame_stream_message[OF b p assms(7), of t u ob]
  have "the (build_tap_message cf x cl t u ob) = as_observed_by (the (build_tap_message cf x cl t u ob)) ?p"
    using assms(4,5,7-10)
    by (simp add: fm proxy_tap_message_def as_observed_by_def relay_capture_def header_metadata_def
        with_top_def new_relay_def r1 nonempty_list_def jor_def Let_def)
  with st fm show ?thesis by (metis option.sel)
qed

definition text_reader :: "ustr \<Rightarrow> json option" where
  "text_reader s = letter_reader (map word_of_nat s)"

definition sample_lines :: "ustr list" where
  "sample_lines = map (\<lambda>c. uni (''data: '' @ [c, CHR 0x0A])) ''abcde'' @ [uni ''data: [DONE]'']"

lemma sample_line_kinds:
  "map (kind_of_line text_reader) sample_lines =
     map (\<lambda>i. Data (JDict (stream_of Chat sample_generation ! i))) [0, 1, 2, 3, 4] @ [Sentinel]"
  by (simp add: sample_lines_def kind_of_line_def uni_def DATA_TEXT_def ustrip_def uspace_def starts_with_def
      text_reader_def letter_reader_def Let_def)

lemma sample_stream_lines: "stream_lines text_reader Chat sample_generation sample_lines"
  unfolding stream_lines_def sample_line_kinds
  by (simp add: stream_of_def sample_generation_def)

definition model_request :: llm_classification where
  "model_request = chat_request\<lparr>lc_request_body := [(uni ''model'', JStr (uni ''m''))]\<rparr>"

definition sample_proxy :: proxy_cfg where
  "sample_proxy = \<lparr>px_hostname = [], px_base_url = [], px_version = [], px_logprobs = True, px_top_logprobs = 5,
     px_seed = JInt 7, px_temperature = JNull, px_top_k = JNull, px_top_p = JNull, px_pod_name = None,
     px_node_name = None, px_declare = True, px_model_name = None, px_decoding_algorithm = None,
     px_owner_name = None, px_repr = (\<lambda>_. [])\<rparr>"

lemma model_request_kind: "object_kind_of (lc_endpoint model_request) = Chat"
  using chat_kind by (simp add: model_request_def)

theorem taps_agree_witness:
  "\<forall>x t u ob. \<exists>out f p e.
    build_tap_message letter_cfg (x\<lparr>ex_response := Some event_reply\<rparr>) model_request t u ob = Some f \<and>
    stream_and_tap sample_proxy text_reader (lc_endpoint model_request) (object_kind_of (lc_endpoint model_request))
      [] [] (header_metadata (ex_request (x\<lparr>ex_response := Some event_reply\<rparr>))) (lc_request_body model_request)
      True sample_lines None = (out, Some p, e) \<and>
    f = as_observed_by f p"
proof (intro allI, rule taps_agree[where g = sample_generation and r = event_reply])
  show "stream_lines text_reader (object_kind_of (lc_endpoint model_request)) sample_generation sample_lines"
    by (simp add: model_request_kind sample_stream_lines)
  show "parse_sse_events (cf_loads letter_cfg) (hm_body event_reply) =
      stream_of (object_kind_of (lc_endpoint model_request)) sample_generation"
    by (simp add: model_request_kind letters_parse event_reply_def)
  show "tokenized sample_generation" "gn_finish sample_generation \<noteq> []" "gn_id sample_generation \<noteq> []"
    "fst (snd (whole_piece sample_generation)) \<noteq> []"
    by (simp_all add: tokenized_def sample_generation_def uni_def whole_piece_def)
  show "dget (lc_request_body model_request) ''model'' = JStr (lc_model_name model_request)"
    by (simp add: model_request_def chat_request_def dget_simps)
  show "cf_repr letter_cfg = px_repr sample_proxy" by (simp add: letter_cfg_def sample_proxy_def)
qed (simp_all add: reply_kinds)

theorem declared_is_sent_witness:
  "\<exists>m. handle_whole sample_proxy ''/v1/completions'' Text [] [] \<lparr>md_user_id = JNull, md_chat_id = JNull, md_message_id = JNull\<rparr>
      [(uni ''seed'', JInt 1), (uni ''top_k'', JInt 3)] 200 (JDict []) = Some (Some m) \<and>
    td_sampling m = [(uni ''seed'', JInt 7), (uni ''temperature'', JNull), (uni ''top_k'', JInt 3), (uni ''top_p'', JNull),
      (uni ''max_output_tokens'', JNull)]"
proof -
  let ?body = "[(uni ''seed'', JInt 1), (uni ''top_k'', JInt 3)]"
  let ?md = "\<lparr>md_user_id = JNull, md_chat_id = JNull, md_message_id = JNull\<rparr>"
  have "response_fields_of [] Text = Some (None, JNull, JNull, False)"
    by (simp add: response_fields_of_def dget_def output_text_def output_logprobs_def jget_def jor_def text_of_def Let_def)
  then obtain m where m: "handle_whole sample_proxy ''/v1/completions'' Text [] [] ?md ?body 200 (JDict []) = Some (Some m)"
    by (simp add: handle_whole_def Let_def)
  note d = declared_is_sent[where px = sample_proxy and kind = Text and body = ?body and name = JNull, unfolded Let_def]
  have "td_sampling m = map (\<lambda>k. (uni k, dget (upstream_payload sample_proxy Text ?body) k)) [''seed'', ''temperature'', ''top_k'', ''top_p''] @
      [(uni ''max_output_tokens'', jor (dget ?body ''max_output_tokens'') (dget ?body ''max_tokens''))]"
    using d m by blast
  moreover have "dget (upstream_payload sample_proxy Text ?body) k =
      configured_or (dget (build_declaration sample_proxy JNull) k) (dget ?body k)"
    if "k \<in> {''seed'', ''temperature'', ''top_k'', ''top_p''}" for k
    using d that by blast
  ultimately show ?thesis
    using m by (simp add: dget_declared configured_or_def dget_simps) (simp add: sample_proxy_def jor_def)
qed

text \<open>A relay that has seen a tool call does not forget it.\<close>

lemma capture_choice_tools:
  "rl_tool_calls r \<Longrightarrow> rl_tool_calls (fst (capture_choice kind v r))"
  by (cases v)
    (simp_all add: capture_choice_def readc_def seqc_def modc_def raisec_def del: first_token_list.simps
      split: option.split)

lemma capture_chunk_keeps_tools:
  "rl_tool_calls r \<Longrightarrow> rl_tool_calls (fst (capture_chunk kind v r))"
  by (cases v)
    (simp_all add: capture_chunk_def capture_top_def readc_def seqc_def modc_def skipc_def raisec_def
      capture_choice_tools split: json.split list.split)

lemma capture_chunk_tools:
  "capture_chunk kind v r = (r1, ok) \<Longrightarrow> rl_tool_calls r \<Longrightarrow> rl_tool_calls r1"
  using capture_chunk_keeps_tools[of r kind v] by simp

lemma capture_chunk_sees_tools:
  assumes "capture_chunk kind (JDict d) r = (r1, True)" "dget d ''choices'' = JList (JDict c # cs)"
    "has_tool_calls c = Some True"
  shows "rl_tool_calls r1"
  using assms
  by (simp add: capture_chunk_def capture_choice_def readc_def seqc_def modc_def raisec_def del: first_token_list.simps
      split: option.splits) auto

lemma relay_lines_tools:
  "relay_lines loads kind ok ls room r = (out, r', e) \<Longrightarrow> rl_tool_calls r \<Longrightarrow> rl_tool_calls r'"
proof (induction ls arbitrary: room r out)
  case (Cons raw ls)
  then show ?case
    by (auto simp: Let_def split: line_kind.splits if_splits prod.splits dest: capture_chunk_tools)
qed (auto split: if_splits)

lemma relay_lines_sees_tools:
  "relay_lines loads kind ok ls room r = (out, r', e) \<Longrightarrow> Chunk (JDict d) \<in> set out \<Longrightarrow>
     dget d ''choices'' = JList (JDict c # cs) \<Longrightarrow> has_tool_calls c = Some True \<Longrightarrow> rl_tool_calls r'"
proof (induction ls arbitrary: room r out)
  case (Cons raw ls)
  show ?case
  proof (cases "kind_of_line loads raw")
    case (Data v)
    obtain r1 k where c: "capture_chunk kind v r = (r1, k)" by (cases "capture_chunk kind v r")
    show ?thesis
    proof (cases "k \<and> room \<noteq> Some 1")
      case True
      obtain o2 where rest: "relay_lines loads kind ok ls (map_option (\<lambda>n. n - 1) room) r1 = (o2, r', e)"
          and o: "out = Chunk v # o2"
        using Cons.prems(1) Data c True by (auto split: prod.splits)
      show ?thesis
      proof (cases "v = JDict d")
        case True
        then have "rl_tool_calls r1"
          using capture_chunk_sees_tools[of kind d r r1 c cs] c \<open>k \<and> room \<noteq> Some 1\<close> Cons.prems(3,4) by simp
        then show ?thesis using relay_lines_tools[OF rest] o by simp
      next
        case False
        then show ?thesis using Cons.IH[OF rest] Cons.prems(2-4) o by simp
      qed
    next
      case False
      with Cons.prems Data c show ?thesis
        using capture_chunk_sees_tools[of kind d r r1 c cs] by (auto split: if_splits)
    qed
  qed (use Cons in \<open>auto simp: Let_def split: if_splits prod.splits\<close>)
qed (auto split: if_splits)

lemma merged_tools:
  "first_choice (merge_stream_events kind evs) = Some c \<Longrightarrow> dict_or_empty (dget c ''message'') = Some m \<Longrightarrow>
     \<not> truthy (dget m ''tool_calls'')"
  by (cases kind)
    (auto simp: first_choice_def merge_stream_events_def Let_def dget_update jor_def merged_choice_def dict_or_empty_def
      dget_simps split: if_splits)

text \<open>A tool call in a stream is seen by one tap only. When a relayed chunk of a stream carries tool
  calls in its first choice, the message of the proxy says that the reply made tool calls; the message of
  the frame processor for a streamed reply says it did not, whatever the stream holds.\<close>

theorem streamed_tool_calls:
  assumes "stream_and_tap px loads ep kind ra ca md payload ok ls room = (out, Some p, e)"
    and "Chunk (JDict d) \<in> set out" "dget d ''choices'' = JList (JDict c # cs)" "has_tool_calls c = Some True"
    and "ex_response x = Some r" "is_sse r" "build_tap_message cf x cl t u ob = Some f"
  shows "td_tool_calls p \<and> \<not> td_tool_calls f"
proof
  show "td_tool_calls p"
    using assms(1-4)
    by (auto simp: stream_and_tap_def proxy_tap_message_def relay_capture_def split: prod.splits if_splits
        dest: relay_lines_sees_tools)
  show "\<not> td_tool_calls f"
    using assms(5-7)
    by (auto simp: build_tap_message_def Let_def response_object_def bind_eq_Some_conv dest: merged_tools)
qed

lemma streamed_reply_message:
  "\<exists>f. build_tap_message letter_cfg (x\<lparr>ex_response := Some event_reply\<rparr>) chat_request None None None = Some f"
proof -
  have "parse_sse_events (cf_loads letter_cfg) (hm_body event_reply) = stream_of Chat sample_generation"
    by (simp add: letters_parse event_reply_def)
  moreover have "gn_finish sample_generation \<noteq> []" by (simp add: sample_generation_def uni_def)
  ultimately have "response_object (cf_loads letter_cfg) (object_kind_of (lc_endpoint chat_request))
      (ex_response (x\<lparr>ex_response := Some event_reply\<rparr>)) =
      merged_stream (object_kind_of (lc_endpoint chat_request)) sample_generation"
    using merge_stream_of[of sample_generation Chat]
    by (simp add: response_object_def reply_kinds chat_kind)
  moreover have "gn_prompt sample_generation \<noteq> []" "fst (snd (whole_piece sample_generation)) \<noteq> []"
    by (simp_all add: sample_generation_def uni_def whole_piece_def)
  ultimately show ?thesis using frame_stream_message by blast
qed

definition tool_reader :: "ustr \<Rightarrow> json option" where
  "tool_reader s = Some (JDict [(uni ''prompt_token_ids'', JList [JInt 1]), (uni ''choices'', JList [JDict
     [(uni ''delta'', JDict [(uni ''tool_calls'', JList [JInt 0])])]])])"

theorem streamed_tool_calls_witness:
  "\<forall>x. \<exists>out p e f.
    stream_and_tap sample_proxy tool_reader ''/v1/chat/completions'' Chat [] []
      \<lparr>md_user_id = JNull, md_chat_id = JNull, md_message_id = JNull\<rparr> [] True [uni ''data: x'', uni ''data: [DONE]''] None =
      (out, Some p, e) \<and>
    build_tap_message letter_cfg (x\<lparr>ex_response := Some event_reply\<rparr>) chat_request None None None = Some f \<and>
    td_tool_calls p \<and> \<not> td_tool_calls f"
proof
  fix x :: exchange
  let ?d = "[(uni ''prompt_token_ids'', JList [JInt 1]), (uni ''choices'', JList [JDict
     [(uni ''delta'', JDict [(uni ''tool_calls'', JList [JInt 0])])]])]"
  let ?c = "[(uni ''delta'', JDict [(uni ''tool_calls'', JList [JInt 0])])]"
  let ?md = "\<lparr>md_user_id = JNull, md_chat_id = JNull, md_message_id = JNull\<rparr>"
  obtain f where f: "build_tap_message letter_cfg (x\<lparr>ex_response := Some event_reply\<rparr>) chat_request None None None = Some f"
    using streamed_reply_message by blast
  have lines: "kind_of_line tool_reader (uni ''data: x'') = Data (JDict ?d)"
    "kind_of_line tool_reader (uni ''data: [DONE]'') = Sentinel"
    by (simp_all add: kind_of_line_def uni_def DATA_TEXT_def ustrip_def uspace_def starts_with_def tool_reader_def)
  have choice: "capture_choice Chat (JDict ?c) r = (r\<lparr>rl_tool_calls := True\<rparr>, True)" for r
    by (simp add: capture_choice_def readc_def seqc_def modc_def dget_simps relay_text_def has_tool_calls_def jor_def
        chunk_logprobs_def int_list_def list_of_def jget_def Let_def)
  have "rl_prompt_ids (capture_top ?d (new_relay [])) = Some [JInt 1]"
    by (simp add: capture_top_def new_relay_def PROMPT_KEYS_def int_list_def dget_simps)
  moreover have "capture_chunk Chat (JDict ?d) (new_relay []) = ((capture_top ?d (new_relay []))\<lparr>rl_tool_calls := True\<rparr>, True)"
    using choice by (simp add: capture_chunk_def readc_def seqc_def modc_def dget_simps)
  ultimately obtain r1 where "capture_chunk Chat (JDict ?d) (new_relay []) = (r1, True)" "rl_prompt_ids r1 = Some [JInt 1]"
    by simp
  then have s: "stream_and_tap sample_proxy tool_reader ''/v1/chat/completions'' Chat [] [] ?md [] True
      [uni ''data: x'', uni ''data: [DONE]''] None = ([Chunk (JDict ?d), Done_mark],
      Some (proxy_tap_message sample_proxy ''/v1/chat/completions'' True [] [] ?md [] (relay_capture r1)), Completed)"
    by (simp add: stream_and_tap_def lines captured_something_def)
  have "has_tool_calls ?c = Some True" by (simp add: has_tool_calls_def dget_simps jor_def)
  then have "td_tool_calls (proxy_tap_message sample_proxy ''/v1/chat/completions'' True [] [] ?md [] (relay_capture r1)) \<and>
      \<not> td_tool_calls f"
    by (intro streamed_tool_calls[OF s _ _ _ _ _ f, where d = ?d and c = ?c and cs = "[]" and r = event_reply])
      (simp_all add: dget_simps reply_kinds)
  with s f show "\<exists>out p e f.
    stream_and_tap sample_proxy tool_reader ''/v1/chat/completions'' Chat [] [] ?md [] True
      [uni ''data: x'', uni ''data: [DONE]''] None = (out, Some p, e) \<and>
    build_tap_message letter_cfg (x\<lparr>ex_response := Some event_reply\<rparr>) chat_request None None None = Some f \<and>
    td_tool_calls p \<and> \<not> td_tool_calls f" by blast
qed

text \<open>No captured stream is lost. Whether the client reads a stream to its end, disconnects at any
  chunk of it, or the upstream or a chunk breaks it off, the tap's message is the one of the lines
  relayed up to there, and there is one unless nothing was captured.\<close>

theorem cut_stream_is_tapped:
  "let (out, msg, e) = stream_and_tap px loads ep kind ra ca md payload ok ls room in
     \<exists>k. fst (snd (stream_and_tap px loads ep kind ra ca md payload False (take k ls) None)) = msg \<and>
         (\<exists>rest. out = fst (stream_and_tap px loads ep kind ra ca md payload False (take k ls) None) @ rest)"
proof -
  obtain out r e where r: "relay_lines loads kind ok ls room (new_relay payload) = (out, r, e)"
    by (cases "relay_lines loads kind ok ls room (new_relay payload)")
  from relay_cut[OF r] obtain k rest where k:
    "fst (snd (relay_lines loads kind False (take k ls) None (new_relay payload))) = r"
    "out = fst (relay_lines loads kind False (take k ls) None (new_relay payload)) @ rest" by blast
  obtain o2 r2 e2 where c: "relay_lines loads kind False (take k ls) None (new_relay payload) = (o2, r2, e2)"
    by (cases "relay_lines loads kind False (take k ls) None (new_relay payload)")
  with r k show ?thesis
    by (auto simp: stream_and_tap_def intro!: exI[of _ k])
qed

end
