(* ===== verification/Delivery.thy ===== *)
theory Delivery
  imports Prelude
begin

text \<open>
  Handing records over without waiting: \<open>EmitterPool\<close> of \<^verbatim>\<open>frame-processor/app/emitter.py\<close> and
  \<open>LedgerReporter\<close> of \<^verbatim>\<open>frame-processor/app/ledger_reporter.py\<close>.

  Threads are interleaved: an event is what one of them does between two points at which another may
  run, and the operations are functions of the event and the state. An event that cannot happen in a
  state leaves it. Both provide the interface \<open>delivery\<close>: what came in has been settled or waits.
\<close>

section \<open>The interface\<close>

locale delivery =
  fixes step :: "'e \<Rightarrow> 's \<Rightarrow> 's"
    and came :: "'s \<Rightarrow> nat" and settled :: "'s \<Rightarrow> nat" and waiting :: "'s \<Rightarrow> nat"
    and sane :: "'s \<Rightarrow> bool"
  assumes sane_step: "sane s \<Longrightarrow> sane (step e s)"
    and balance_step: "sane s \<Longrightarrow> came s = settled s + waiting s \<Longrightarrow>
                         came (step e s) = settled (step e s) + waiting (step e s)"
    and settled_step: "sane s \<Longrightarrow> settled s \<le> settled (step e s)"
begin

lemma run_sane: "sane s \<Longrightarrow> sane (fold step es s)"
  by (induction es arbitrary: s) (simp_all add: sane_step)

lemma run_balance:
  "sane s \<Longrightarrow> came s = settled s + waiting s \<Longrightarrow>
     came (fold step es s) = settled (fold step es s) + waiting (fold step es s)"
proof (induction es arbitrary: s)
  case (Cons e es)
  show ?case
    unfolding fold_simps by (rule Cons.IH[OF sane_step[OF Cons.prems(1)] balance_step[OF Cons.prems]])
qed simp

lemma run_settled: "sane s \<Longrightarrow> settled s \<le> settled (fold step es s)"
proof (induction es arbitrary: s)
  case (Cons e es)
  show ?case
    unfolding fold_simps by (rule le_trans[OF settled_step[OF Cons.prems] Cons.IH[OF sane_step[OF Cons.prems]]])
qed simp

end

section \<open>The emitter pool\<close>

datatype post_result = Http_status nat | Request_error | Other_error

text \<open>\<open>emit\<close>, when emitting is on: the status of a writer that took the message.\<close>

definition emit_status :: "post_result \<Rightarrow> nat option" where
  "emit_status r = (case r of Http_status c \<Rightarrow> if c \<ge> 400 then None else Some c | _ \<Rightarrow> None)"

datatype 'm item = Item 'm | Stop_item

datatype 'm thread = Idle | Busy 'm | Stopped

text \<open>Between the queue taking a message and the counters being raised, \<open>submit\<close> is \<open>counting\<close>.\<close>

record 'm pool =
  ep_enabled :: bool
  ep_maxsize :: nat
  ep_queue :: "'m item list"
  ep_threads :: "('m thread \<times> bool) list"  \<comment> \<open>and whether it has a session\<close>
  ep_submitted :: nat
  ep_delivered :: nat
  ep_failed :: nat
  ep_dropped :: nat
  ep_high_water :: nat
  ep_closed :: bool
  ep_backpressure_logged :: bool
  ep_counting :: bool
  ep_stops :: nat

definition new_pool :: "bool \<Rightarrow> nat \<Rightarrow> bool list \<Rightarrow> 'm pool" where
  "new_pool enabled queue_size sessions =
     \<lparr>ep_enabled = enabled, ep_maxsize = max 1 queue_size, ep_queue = [],
      ep_threads = (if enabled then map (\<lambda>ok. (Idle, ok)) sessions else []),
      ep_submitted = 0, ep_delivered = 0, ep_failed = 0, ep_dropped = 0, ep_high_water = 0,
      ep_closed = False, ep_backpressure_logged = False, ep_counting = False, ep_stops = 0\<rparr>"

datatype 'm pool_event =
    Submit 'm
  | Count
  | Take nat
  | Emit nat post_result
  | Close_pool
  | Put_stop

text \<open>\<open>submit\<close> up to the queue; on a closed pool it raises. Only one runs at a time, under the lock.\<close>

definition pool_submit :: "'m \<Rightarrow> 'm pool \<Rightarrow> 'm pool" where
  "pool_submit m p =
     (if ep_closed p \<or> ep_counting p then p
      else if \<not> ep_enabled p
      then p\<lparr>ep_submitted := ep_submitted p + 1, ep_delivered := ep_delivered p + 1\<rparr>
      else if length (ep_queue p) \<ge> ep_maxsize p then p\<lparr>ep_dropped := ep_dropped p + 1\<rparr>
      else p\<lparr>ep_queue := ep_queue p @ [Item m], ep_counting := True\<rparr>)"

definition backpressure_at :: "'m pool \<Rightarrow> nat" where
  "backpressure_at p = max 1 (ep_maxsize p div 2)"

definition pool_count :: "'m pool \<Rightarrow> 'm pool" where
  "pool_count p =
     (if ep_counting p
      then (let depth = length (ep_queue p) in
        p\<lparr>ep_counting := False, ep_submitted := ep_submitted p + 1,
          ep_high_water := max (ep_high_water p) depth,
          ep_backpressure_logged := ep_backpressure_logged p \<or> depth \<ge> backpressure_at p\<rparr>)
      else p)"

definition thread_takes :: "nat \<Rightarrow> 'm pool \<Rightarrow> 'm pool" where
  "thread_takes i p =
     (case (ep_queue p, if i < length (ep_threads p) then Some (ep_threads p ! i) else None) of
        (x # q, Some (Idle, ok)) \<Rightarrow>
          p\<lparr>ep_queue := q,
            ep_threads := (ep_threads p)[i := (case x of Item m \<Rightarrow> Busy m | Stop_item \<Rightarrow> Stopped, ok)]\<rparr>
      | _ \<Rightarrow> p)"

definition thread_emits :: "nat \<Rightarrow> post_result \<Rightarrow> 'm pool \<Rightarrow> 'm pool" where
  "thread_emits i r p =
     (if i < length (ep_threads p)
      then (case ep_threads p ! i of
          (Busy m, ok) \<Rightarrow>
            (let p1 = p\<lparr>ep_threads := (ep_threads p)[i := (Idle, ok)]\<rparr> in
             if ok \<and> emit_status r \<noteq> None then p1\<lparr>ep_delivered := ep_delivered p + 1\<rparr>
             else p1\<lparr>ep_failed := ep_failed p + 1\<rparr>)
        | _ \<Rightarrow> p)
      else p)"

definition pool_close :: "'m pool \<Rightarrow> 'm pool" where
  "pool_close p = (if ep_counting p then p else p\<lparr>ep_closed := True\<rparr>)"

text \<open>\<open>close\<close> puts one sentinel a thread once it has waited for the queue to drain.\<close>

definition pool_put_stop :: "'m pool \<Rightarrow> 'm pool" where
  "pool_put_stop p =
     (if ep_closed p \<and> ep_enabled p \<and> ep_stops p < length (ep_threads p) \<and> length (ep_queue p) < ep_maxsize p
      then p\<lparr>ep_queue := ep_queue p @ [Stop_item], ep_stops := ep_stops p + 1\<rparr> else p)"

definition pool_step :: "'m pool_event \<Rightarrow> 'm pool \<Rightarrow> 'm pool" where
  "pool_step e p =
     (case e of
        Submit m \<Rightarrow> pool_submit m p
      | Count \<Rightarrow> pool_count p
      | Take i \<Rightarrow> thread_takes i p
      | Emit i r \<Rightarrow> thread_emits i r p
      | Close_pool \<Rightarrow> pool_close p
      | Put_stop \<Rightarrow> pool_put_stop p)"

fun is_item :: "'m item \<Rightarrow> bool" where
  "is_item (Item m) = True" | "is_item Stop_item = False"

fun is_busy :: "'m thread \<Rightarrow> bool" where
  "is_busy (Busy m) = True" | "is_busy _ = False"

definition pool_came :: "'m pool \<Rightarrow> nat" where
  "pool_came p = ep_submitted p + of_bool (ep_counting p)"

definition pool_settled :: "'m pool \<Rightarrow> nat" where
  "pool_settled p = ep_delivered p + ep_failed p"

definition pool_waiting :: "'m pool \<Rightarrow> nat" where
  "pool_waiting p = length (filter is_item (ep_queue p)) + length (filter (is_busy \<circ> fst) (ep_threads p))"

definition pool_sane :: "nat \<Rightarrow> 'm pool \<Rightarrow> bool" where
  "pool_sane n p \<longleftrightarrow> ep_maxsize p = n \<and> length (ep_queue p) \<le> n \<and> ep_high_water p \<le> n"

lemma busy_update:
  assumes "i < length ts"
  shows "length (filter (is_busy \<circ> fst) (ts[i := x])) + of_bool (is_busy (fst (ts ! i))) =
    length (filter (is_busy \<circ> fst) ts) + of_bool (is_busy (fst x))"
  using assms
proof (induction ts arbitrary: i)
  case (Cons t ts)
  then show ?case by (cases i) auto
qed simp

text \<open>What every operation keeps, as one relation between the pool before and after it.\<close>

definition pool_keeps :: "nat \<Rightarrow> 'm pool \<Rightarrow> 'm pool \<Rightarrow> bool" where
  "pool_keeps n p p' \<longleftrightarrow> pool_sane n p' \<and> pool_settled p \<le> pool_settled p' \<and>
     pool_came p' + pool_settled p + pool_waiting p = pool_came p + pool_settled p' + pool_waiting p'"

lemmas pool_views = pool_keeps_def pool_sane_def pool_came_def pool_settled_def pool_waiting_def

lemma keeps_refl [simp]: "pool_sane n p \<Longrightarrow> pool_keeps n p p"
  by (simp add: pool_keeps_def)

lemma submit_keeps: "pool_sane n p \<Longrightarrow> pool_keeps n p (pool_submit m p)"
  by (simp add: pool_submit_def pool_views)

lemma count_keeps: "pool_sane n p \<Longrightarrow> pool_keeps n p (pool_count p)"
  by (simp add: pool_count_def pool_views Let_def)

lemma close_keeps: "pool_sane n p \<Longrightarrow> pool_keeps n p (pool_close p)"
  by (simp add: pool_close_def pool_views)

lemma stop_keeps: "pool_sane n p \<Longrightarrow> pool_keeps n p (pool_put_stop p)"
  by (simp add: pool_put_stop_def pool_views)

lemma takes_keeps:
  assumes "pool_sane n p" shows "pool_keeps n p (thread_takes i p)"
proof (cases "\<exists>x q ok. ep_queue p = x # q \<and> i < length (ep_threads p) \<and> ep_threads p ! i = (Idle, ok)")
  case True
  then obtain x q ok where h: "ep_queue p = x # q" "i < length (ep_threads p)" "ep_threads p ! i = (Idle, ok)" by blast
  show ?thesis
    using assms h busy_update[OF h(2), of "(case x of Item m \<Rightarrow> Busy m | Stop_item \<Rightarrow> Stopped, ok)"]
    by (cases x) (simp_all add: thread_takes_def pool_views)
next
  case False
  then have "thread_takes i p = p"
    by (cases "ep_threads p ! i"; cases "ep_queue p"; cases "fst (ep_threads p ! i)")
       (simp_all add: thread_takes_def)
  then show ?thesis using assms by simp
qed

lemma emits_keeps:
  assumes "pool_sane n p" shows "pool_keeps n p (thread_emits i r p)"
proof (cases "\<exists>m ok. i < length (ep_threads p) \<and> ep_threads p ! i = (Busy m, ok)")
  case True
  then obtain m ok where h: "i < length (ep_threads p)" "ep_threads p ! i = (Busy m, ok)" by blast
  have b: "length (filter (is_busy \<circ> fst) ((ep_threads p)[i := (Idle, ok)])) + 1 =
    length (filter (is_busy \<circ> fst) (ep_threads p))"
    using busy_update[OF h(1), of "(Idle, ok)"] h(2) by simp
  show ?thesis
  proof (cases "ok \<and> emit_status r \<noteq> None")
    case True
    then have "thread_emits i r p =
      p\<lparr>ep_threads := (ep_threads p)[i := (Idle, ok)], ep_delivered := ep_delivered p + 1\<rparr>"
      using h by (simp add: thread_emits_def Let_def)
    then show ?thesis using assms b by (simp only: pool_views) simp
  next
    case False
    then have "thread_emits i r p =
      p\<lparr>ep_threads := (ep_threads p)[i := (Idle, ok)], ep_failed := ep_failed p + 1\<rparr>"
      using h by (auto simp: thread_emits_def Let_def)
    then show ?thesis using assms b by (simp only: pool_views) simp
  qed
next
  case False
  then have "thread_emits i r p = p"
    by (cases "ep_threads p ! i"; cases "fst (ep_threads p ! i)") (simp_all add: thread_emits_def)
  then show ?thesis using assms by simp
qed

lemma step_keeps: "pool_sane n p \<Longrightarrow> pool_keeps n p (pool_step e p)"
  by (cases e) (simp_all add: pool_step_def submit_keeps count_keeps close_keeps stop_keeps
      takes_keeps emits_keeps)

interpretation pool: delivery pool_step pool_came pool_settled pool_waiting "pool_sane n" for n
  using step_keeps by unfold_locales (force simp: pool_keeps_def)+

section \<open>The ledger reporter\<close>

datatype post_outcome = Delivered | Duplicate | Retry | Failed

text \<open>\<open>_post_once\<close>; None is the exception that is no \<open>RequestException\<close>.\<close>

definition post_once :: "post_result \<Rightarrow> post_outcome option" where
  "post_once r =
     (case r of
        Request_error \<Rightarrow> Some Retry
      | Other_error \<Rightarrow> None
      | Http_status c \<Rightarrow>
          Some (if c = 409 then Duplicate else if c < 300 then Delivered
                else if c \<ge> 500 then Retry else Failed))"

text \<open>The thread is at \<open>Busy (row, attempt)\<close> while it delivers a row.\<close>

record 'r reporter =
  lr_retries :: nat
  lr_maxsize :: nat
  lr_queue :: "'r item list"
  lr_thread :: "('r \<times> nat) thread"
  lr_putting :: "'r list"  \<comment> \<open>rows counted by a \<open>submit\<close> that has not put them yet\<close>
  lr_submitted :: nat
  lr_delivered :: nat
  lr_duplicates :: nat
  lr_failed :: nat
  lr_dropped :: nat
  lr_closed :: bool
  lr_stop_put :: bool

definition new_reporter :: "int \<Rightarrow> nat \<Rightarrow> 'r reporter" where
  "new_reporter retries queue_size =
     \<lparr>lr_retries = nat (max 0 retries), lr_maxsize = max 1 queue_size, lr_queue = [], lr_thread = Idle,
      lr_putting = [], lr_submitted = 0, lr_delivered = 0, lr_duplicates = 0, lr_failed = 0, lr_dropped = 0,
      lr_closed = False, lr_stop_put = False\<rparr>"

datatype 'r reporter_event =
    Submit_row 'r
  | Put_row nat
  | Take_row
  | Post_row post_result
  | Close_reporter
  | Put_stop_row

text \<open>\<open>submit\<close> counts under the lock and puts outside it, so a \<open>close\<close> may come between.\<close>

definition row_counted :: "'r \<Rightarrow> 'r reporter \<Rightarrow> 'r reporter" where
  "row_counted row l =
     (if lr_closed l then l
      else l\<lparr>lr_submitted := lr_submitted l + 1, lr_putting := lr_putting l @ [row]\<rparr>)"

definition row_put :: "nat \<Rightarrow> 'r reporter \<Rightarrow> 'r reporter" where
  "row_put i l =
     (if i < length (lr_putting l)
      then (let row = lr_putting l ! i; l1 = l\<lparr>lr_putting := take i (lr_putting l) @ drop (i + 1) (lr_putting l)\<rparr> in
        if length (lr_queue l) < lr_maxsize l then l1\<lparr>lr_queue := lr_queue l @ [Item row]\<rparr>
        else l1\<lparr>lr_dropped := lr_dropped l + 1\<rparr>)
      else l)"

definition row_taken :: "'r reporter \<Rightarrow> 'r reporter" where
  "row_taken l =
     (case (lr_queue l, lr_thread l) of
        (x # q, Idle) \<Rightarrow>
          l\<lparr>lr_queue := q, lr_thread := (case x of Item row \<Rightarrow> Busy (row, 0) | Stop_item \<Rightarrow> Stopped)\<rparr>
      | _ \<Rightarrow> l)"

text \<open>One turn of the loop in \<open>_deliver\<close>.\<close>

definition row_posted :: "post_result \<Rightarrow> 'r reporter \<Rightarrow> 'r reporter" where
  "row_posted r l =
     (case lr_thread l of
        Busy (row, attempt) \<Rightarrow>
          (let idle = l\<lparr>lr_thread := Idle\<rparr>; gave_up = idle\<lparr>lr_failed := lr_failed l + 1\<rparr> in
           case post_once r of
             Some Delivered \<Rightarrow> idle\<lparr>lr_delivered := lr_delivered l + 1\<rparr>
           | Some Duplicate \<Rightarrow> idle\<lparr>lr_duplicates := lr_duplicates l + 1\<rparr>
           | Some Retry \<Rightarrow> if attempt < lr_retries l then l\<lparr>lr_thread := Busy (row, attempt + 1)\<rparr> else gave_up
           | _ \<Rightarrow> gave_up)
      | _ \<Rightarrow> l)"

definition reporter_close :: "'r reporter \<Rightarrow> 'r reporter" where
  "reporter_close l = l\<lparr>lr_closed := True\<rparr>"

text \<open>After the drain \<open>close\<close> tries once to put the sentinel.\<close>

definition stop_row_put :: "'r reporter \<Rightarrow> 'r reporter" where
  "stop_row_put l =
     (if lr_closed l \<and> \<not> lr_stop_put l
      then (if length (lr_queue l) < lr_maxsize l
            then l\<lparr>lr_queue := lr_queue l @ [Stop_item], lr_stop_put := True\<rparr>
            else l\<lparr>lr_stop_put := True\<rparr>)
      else l)"

definition reporter_step :: "'r reporter_event \<Rightarrow> 'r reporter \<Rightarrow> 'r reporter" where
  "reporter_step e l =
     (case e of
        Submit_row row \<Rightarrow> row_counted row l
      | Put_row i \<Rightarrow> row_put i l
      | Take_row \<Rightarrow> row_taken l
      | Post_row r \<Rightarrow> row_posted r l
      | Close_reporter \<Rightarrow> reporter_close l
      | Put_stop_row \<Rightarrow> stop_row_put l)"

definition row_settled :: "'r reporter \<Rightarrow> nat" where
  "row_settled l = lr_delivered l + lr_duplicates l + lr_failed l + lr_dropped l"

definition row_waiting :: "'r reporter \<Rightarrow> nat" where
  "row_waiting l =
     length (filter is_item (lr_queue l)) + of_bool (is_busy (lr_thread l)) + length (lr_putting l)"

fun attempt_of :: "('r \<times> nat) thread \<Rightarrow> nat" where
  "attempt_of (Busy (row, k)) = k"
| "attempt_of _ = 0"

definition reporter_sane :: "nat \<Rightarrow> nat \<Rightarrow> 'r reporter \<Rightarrow> bool" where
  "reporter_sane k n l \<longleftrightarrow>
     lr_retries l = k \<and> lr_maxsize l = n \<and> length (lr_queue l) \<le> n \<and> attempt_of (lr_thread l) \<le> k"

definition reporter_keeps :: "nat \<Rightarrow> nat \<Rightarrow> 'r reporter \<Rightarrow> 'r reporter \<Rightarrow> bool" where
  "reporter_keeps k n l l' \<longleftrightarrow> reporter_sane k n l' \<and> row_settled l \<le> row_settled l' \<and>
     lr_submitted l' + row_settled l + row_waiting l = lr_submitted l + row_settled l' + row_waiting l'"

lemmas reporter_views = reporter_keeps_def reporter_sane_def row_settled_def row_waiting_def

lemma row_counted_keeps: "reporter_sane k n l \<Longrightarrow> reporter_keeps k n l (row_counted row l)"
  by (simp add: row_counted_def reporter_views)

lemma row_put_keeps: "reporter_sane k n l \<Longrightarrow> reporter_keeps k n l (row_put i l)"
  by (auto simp add: row_put_def reporter_views Let_def)

lemma row_taken_keeps: "reporter_sane k n l \<Longrightarrow> reporter_keeps k n l (row_taken l)"
  by (auto simp add: row_taken_def reporter_views split: list.split thread.split item.split)

lemma row_posted_keeps: "reporter_sane k n l \<Longrightarrow> reporter_keeps k n l (row_posted r l)"
  by (simp add: row_posted_def reporter_views Let_def split: thread.split option.split post_outcome.split prod.split)

lemma reporter_close_keeps: "reporter_sane k n l \<Longrightarrow> reporter_keeps k n l (reporter_close l)"
  by (simp add: reporter_close_def reporter_views)

lemma stop_row_keeps: "reporter_sane k n l \<Longrightarrow> reporter_keeps k n l (stop_row_put l)"
  by (simp add: stop_row_put_def reporter_views)

lemma reporter_step_keeps: "reporter_sane k n l \<Longrightarrow> reporter_keeps k n l (reporter_step e l)"
  by (cases e) (simp_all add: reporter_step_def row_counted_keeps row_put_keeps row_taken_keeps
      row_posted_keeps reporter_close_keeps stop_row_keeps)

interpretation reporter: delivery reporter_step lr_submitted row_settled row_waiting "reporter_sane k n" for k n
  using reporter_step_keeps by unfold_locales (force simp: reporter_keeps_def)+

section \<open>The books\<close>

lemma new_pool_sane: "pool_sane (max 1 q) (new_pool enabled q sessions)"
  by (simp add: pool_sane_def new_pool_def)

lemma new_pool_balance:
  "pool_came (new_pool enabled q sessions) = pool_settled (new_pool enabled q sessions) + pool_waiting (new_pool enabled q sessions)"
  by (simp add: pool_came_def pool_settled_def pool_waiting_def new_pool_def comp_def)

text \<open>C33: Whatever the producer, the emitter threads and the Message writer do, and in whatever order,
  every tap message the pool took has been delivered, has failed, is queued or is with a thread; the
  queue and its high-water mark stay within its size.\<close>
theorem pool_books_balance:
  "let p = fold pool_step es (new_pool enabled q sessions) in
     ep_submitted p + of_bool (ep_counting p) = ep_delivered p + ep_failed p + pool_waiting p \<and>
     length (ep_queue p) \<le> max 1 q \<and> ep_high_water p \<le> max 1 q"
  using pool.run_balance[OF new_pool_sane new_pool_balance, where es = es] pool.run_sane[OF new_pool_sane, where es = es]
  by (simp add: Let_def pool_came_def pool_settled_def pool_sane_def)

definition drain_events :: "nat \<Rightarrow> post_result list \<Rightarrow> 'm pool_event list" where
  "drain_events i rs = concat (map (\<lambda>r. [Take i, Emit i r]) rs)"

definition taken :: "bool \<Rightarrow> post_result \<Rightarrow> bool" where
  "taken ok r \<longleftrightarrow> ok \<and> emit_status r \<noteq> None"

lemma drain_one:
  assumes "i < length (ep_threads p)" "ep_threads p ! i = (Idle, ok)" "ep_queue p = Item m # q"
  shows "pool_step (Emit i r) (pool_step (Take i) p) =
    (if taken ok r then p\<lparr>ep_queue := q, ep_delivered := ep_delivered p + 1\<rparr>
     else p\<lparr>ep_queue := q, ep_failed := ep_failed p + 1\<rparr>)"
proof -
  have "(ep_threads p)[i := (Idle, ok)] = ep_threads p" using assms(1,2) by (metis list_update_id)
  then show ?thesis
    using assms by (auto simp: pool_step_def thread_takes_def thread_emits_def taken_def Let_def)
qed

text \<open>A single emitter thread drains any backlog: it posts each queued message once, counts it as
  delivered or failed by the answer, and a thread that could open no session counts every one as failed.\<close>
theorem pool_drains:
  assumes "i < length (ep_threads p)" "ep_threads p ! i = (Idle, ok)"
    "ep_queue p = map Item ms" "length rs = length ms"
  shows "fold pool_step (drain_events i rs) p =
    p\<lparr>ep_queue := [], ep_delivered := ep_delivered p + length (filter (taken ok) rs),
      ep_failed := ep_failed p + length (filter (\<lambda>r. \<not> taken ok r) rs)\<rparr>"
  using assms
proof (induction rs arbitrary: p ms)
  case Nil
  then show ?case by (simp add: drain_events_def)
next
  case (Cons r rs)
  then obtain m ms' where ms: "ms = m # ms'" "length rs = length ms'" by (cases ms) auto
  let ?p = "pool_step (Emit i r) (pool_step (Take i) p)"
  have one: "?p = (if taken ok r then p\<lparr>ep_queue := map Item ms', ep_delivered := ep_delivered p + 1\<rparr>
     else p\<lparr>ep_queue := map Item ms', ep_failed := ep_failed p + 1\<rparr>)"
    using Cons.prems ms by (intro drain_one) simp_all
  have "fold pool_step (drain_events i (r # rs)) p = fold pool_step (drain_events i rs) ?p"
    by (simp add: drain_events_def)
  also have "\<dots> = ?p\<lparr>ep_queue := [], ep_delivered := ep_delivered ?p + length (filter (taken ok) rs),
      ep_failed := ep_failed ?p + length (filter (\<lambda>r. \<not> taken ok r) rs)\<rparr>"
    using Cons.prems ms(2) by (intro Cons.IH[where ms = ms']) (simp_all add: one)
  finally show ?case by (simp add: one)
qed

theorem pool_drains_witness:
  "let p = (new_pool True 4 [True])\<lparr>ep_queue := map Item [1, 2, 3 :: nat]\<rparr> in
   ep_delivered (fold pool_step (drain_events 0 [Http_status 201, Http_status 503, Request_error]) p) = 1 \<and>
   ep_failed (fold pool_step (drain_events 0 [Http_status 201, Http_status 503, Request_error]) p) = 2"
proof -
  let ?p = "(new_pool True 4 [True])\<lparr>ep_queue := map Item [1, 2, 3 :: nat]\<rparr>"
  show ?thesis
    unfolding Let_def
    by (subst (1 2) pool_drains[where ok = True and ms = "[1, 2, 3 :: nat]"])
       (simp_all add: new_pool_def taken_def emit_status_def)
qed

text \<open>The ledger reporter loses no row silently: at every point each row submitted has been
  delivered, found recorded already, given up, dropped, or is still on its way, and none is posted more
  often than the retries allow.\<close>
theorem reporter_books_balance:
  "let l = fold reporter_step es (new_reporter retries q) in
     lr_submitted l = lr_delivered l + lr_duplicates l + lr_failed l + lr_dropped l + row_waiting l \<and>
     length (lr_queue l) \<le> max 1 q \<and> attempt_of (lr_thread l) \<le> nat (max 0 retries)"
proof -
  let ?l = "new_reporter retries q :: 'a reporter"
  have s: "reporter_sane (nat (max 0 retries)) (max 1 q) ?l"
    by (simp add: reporter_sane_def new_reporter_def)
  have b: "lr_submitted ?l = row_settled ?l + row_waiting ?l"
    by (simp add: row_settled_def row_waiting_def new_reporter_def)
  show ?thesis
    using reporter.run_balance[OF s b, where es = es] reporter.run_sane[OF s, where es = es]
    by (simp add: Let_def row_settled_def reporter_sane_def)
qed

end
