(* ===== verification/Ledger.thy ===== *)
theory Ledger
  imports Writer
begin

text \<open>
  The ledger service, \<^verbatim>\<open>ledger/app\<close>: its tables with the constraints of \<^verbatim>\<open>ledger/sql\<close> and the requests that
  read and write them.

  A request is a function of the database: \<open>Inl\<close> the status of an error, whose transaction is rolled
  back, or \<open>Inr\<close> the answer with the database it commits. Ids are texts, instants whole microseconds
  as the database keeps them, floats their \<open>repr\<close>. Fresh ids, the clock and \<open>uuid5\<close> are arguments.
  Requests run one after the other.
\<close>

section \<open>Tables\<close>

type_synonym instant = int

record owner =
  ow_id :: ustr
  ow_organisation_name :: ustr
  ow_is_trusted :: bool

record hardware =
  hw_id :: ustr
  hw_hostname :: ustr
  hw_gpu_product_id :: "ustr option"
  hw_cpu_product_id :: "ustr option"
  hw_owner_id :: "ustr option"
  hw_gpu_firmware_version :: "ustr option"

record model_config =
  mc_model_name :: ustr
  mc_temperature :: "ustr option"
  mc_top_k :: "int option"
  mc_top_p :: "ustr option"
  mc_seed :: "int option"
  mc_decoding_algorithm :: "ustr option"

record model_record =
  md_id :: ustr
  md_config :: model_config
  md_verification_threshold :: "ustr option"
  md_delta_max :: "ustr option"

record deployment =
  dp_id :: ustr
  dp_model_id :: ustr
  dp_hardware_id :: ustr
  dp_started_at :: instant
  dp_ended_at :: "instant option"

record event_row =
  ev_id :: ustr
  ev_session_id :: ustr
  ev_ts :: instant
  ev_started_at :: "instant option"
  ev_model_id :: ustr
  ev_input_raw_logits :: "bytes option"
  ev_output_raw_logits :: "bytes option"
  ev_hash_input_raw_logits :: bytes
  ev_hash_output_raw_logits :: bytes
  ev_input_text :: "ustr option"
  ev_output_text :: "ustr option"
  ev_hardware_id :: ustr
  ev_pod_name :: "ustr option"
  ev_node_name :: "ustr option"

datatype verdict_kind = Pass | Fail | Unverifiable

record verification_row =
  vr_id :: ustr
  vr_inference_event_id :: ustr
  vr_hardware_id :: ustr
  vr_verifier_model_id :: ustr
  vr_ts :: instant
  vr_started_at :: "instant option"
  vr_result :: "verdict_kind option"
  vr_result_detail :: "ustr option"
  vr_error_code :: "ustr option"
  vr_verification_threshold :: "ustr option"
  vr_logit_difference_margins :: "bytes option"
  vr_mean_logit_difference :: "ustr option"
  vr_std_dev_logit_difference :: "ustr option"
  vr_verifier_raw_logits :: "bytes option"
  vr_exact_match_level_pct :: "ustr option"
  vr_verifier_detail :: json
  vr_pod_name :: "ustr option"
  vr_node_name :: "ustr option"

text \<open>The columns a window has as they are posted.\<close>

record window_data =
  wd_capture_host :: ustr
  wd_ifaces :: ustr
  wd_start :: instant
  wd_end :: instant
  wd_tap_version :: ustr
  wd_process_epoch :: "instant option"
  wd_observed :: int
  wd_classified :: int
  wd_kernel_dropped :: int
  wd_truncated :: int
  wd_errors :: int
  wd_finding_count :: int
  wd_finding_groups :: int
  wd_finding_groups_overflow :: int
  wd_complete :: bool
  wd_classes :: json
  wd_pins :: json

record capture_window =
  cw_id :: ustr
  cw_hardware_id :: "ustr option"
  cw_data :: window_data

datatype link_direction = Dir_in | Dir_out | Dir_unknown

record finding_data =
  fd_kind :: ustr
  fd_frame_class :: ustr
  fd_direction :: link_direction
  fd_source_mac :: "ustr option"
  fd_count :: int
  fd_first_ts :: instant
  fd_last_ts :: instant
  fd_samples :: "json list"

record finding_row =
  fr_id :: ustr
  fr_window_id :: ustr
  fr_data :: finding_data

record db =
  owners :: "owner list"
  hardwares :: "hardware list"
  models :: "model_record list"
  deployments :: "deployment list"
  windows :: "capture_window list"
  findings :: "finding_row list"
  events :: "event_row list"
  verifications :: "verification_row list"

definition empty_db :: db where
  "empty_db = \<lparr>owners = [], hardwares = [], models = [], deployments = [], windows = [], findings = [],
     events = [], verifications = []\<rparr>"

section \<open>Constraints\<close>

definition refers :: "'a list \<Rightarrow> 'a option \<Rightarrow> bool" where
  "refers ids ref = (case ref of None \<Rightarrow> True | Some r \<Rightarrow> r \<in> set ids)"

definition is_active :: "deployment \<Rightarrow> bool" where
  "is_active d = (dp_ended_at d = None)"

definition deployments_ok :: "db \<Rightarrow> bool" where
  "deployments_ok d \<longleftrightarrow>
     distinct (map ow_id (owners d)) \<and>
     distinct (map hw_id (hardwares d)) \<and> distinct (map hw_hostname (hardwares d)) \<and>
     list_all (\<lambda>h. refers (map ow_id (owners d)) (hw_owner_id h)) (hardwares d) \<and>
     distinct (map md_id (models d)) \<and>
     distinct (map dp_id (deployments d)) \<and>
     list_all (\<lambda>p. dp_model_id p \<in> set (map md_id (models d))) (deployments d) \<and>
     list_all (\<lambda>p. dp_hardware_id p \<in> set (map hw_id (hardwares d))) (deployments d) \<and>
     distinct (map dp_hardware_id (filter is_active (deployments d)))"

definition window_key :: "capture_window \<Rightarrow> ustr \<times> ustr \<times> instant" where
  "window_key w = (wd_capture_host (cw_data w), wd_ifaces (cw_data w), wd_start (cw_data w))"

text \<open>Rows whose sender is null never clash in \<open>uq_capture_finding_group\<close>.\<close>

definition row_group :: "finding_row \<Rightarrow> ustr \<times> ustr \<times> ustr \<times> link_direction \<times> ustr option" where
  "row_group f =
     (fr_window_id f, fd_kind (fr_data f), fd_frame_class (fr_data f), fd_direction (fr_data f), fd_source_mac (fr_data f))"

definition windows_ok :: "db \<Rightarrow> bool" where
  "windows_ok d \<longleftrightarrow>
     distinct (map cw_id (windows d)) \<and> distinct (map window_key (windows d)) \<and>
     list_all (\<lambda>w. wd_start (cw_data w) < wd_end (cw_data w)) (windows d) \<and>
     list_all (\<lambda>w. refers (map hw_id (hardwares d)) (cw_hardware_id w)) (windows d) \<and>
     distinct (map fr_id (findings d)) \<and>
     list_all (\<lambda>f. fr_window_id f \<in> set (map cw_id (windows d))) (findings d) \<and>
     distinct (map row_group (filter (\<lambda>f. fd_source_mac (fr_data f) \<noteq> None) (findings d)))"

definition events_ok :: "db \<Rightarrow> bool" where
  "events_ok d \<longleftrightarrow>
     distinct (map ev_id (events d)) \<and>
     list_all (\<lambda>e. ev_model_id e \<in> set (map md_id (models d))) (events d) \<and>
     list_all (\<lambda>e. ev_hardware_id e \<in> set (map hw_id (hardwares d))) (events d) \<and>
     distinct (map vr_id (verifications d)) \<and>
     list_all (\<lambda>v. vr_inference_event_id v \<in> set (map ev_id (events d))) (verifications d) \<and>
     list_all (\<lambda>v. vr_hardware_id v \<in> set (map hw_id (hardwares d))) (verifications d) \<and>
     list_all (\<lambda>v. vr_verifier_model_id v \<in> set (map md_id (models d))) (verifications d)"

definition db_ok :: "db \<Rightarrow> bool" where
  "db_ok d \<longleftrightarrow> deployments_ok d \<and> windows_ok d \<and> events_ok d"

text \<open>\<open>session.flush()\<close>: an \<open>IntegrityError\<close> is answered with 409.\<close>

definition db_flush :: "db \<Rightarrow> nat + db" where
  "db_flush d = (if db_ok d then Inr d else Inl 409)"

definition try_then :: "'e + 'a \<Rightarrow> ('a \<Rightarrow> 'e + 'b) \<Rightarrow> 'e + 'b" where
  "try_then r k = (case r of Inl e \<Rightarrow> Inl e | Inr x \<Rightarrow> k x)"

text \<open>\<open>scalar_one_or_none\<close>: more than one row raises, which nothing catches.\<close>

definition one_or_none :: "'a list \<Rightarrow> nat + 'a option" where
  "one_or_none xs = (case xs of [] \<Rightarrow> Inr None | [x] \<Rightarrow> Inr (Some x) | _ \<Rightarrow> Inl 500)"

text \<open>\<open>get_session\<close>: commit, or roll back.\<close>

definition request :: "(db \<Rightarrow> nat + 'a \<times> db) \<Rightarrow> db \<Rightarrow> (nat + 'a) \<times> db" where
  "request f d = (case f d of Inl code \<Rightarrow> (Inl code, d) | Inr (x, d') \<Rightarrow> (Inr x, d'))"

section \<open>Creating rows\<close>

definition create_owner :: "owner \<Rightarrow> db \<Rightarrow> nat + owner \<times> db" where
  "create_owner x d = try_then (db_flush (d\<lparr>owners := owners d @ [x]\<rparr>)) (\<lambda>d'. Inr (x, d'))"

definition create_hardware :: "hardware \<Rightarrow> db \<Rightarrow> nat + hardware \<times> db" where
  "create_hardware x d = try_then (db_flush (d\<lparr>hardwares := hardwares d @ [x]\<rparr>)) (\<lambda>d'. Inr (x, d'))"

definition create_event :: "event_row \<Rightarrow> db \<Rightarrow> nat + event_row \<times> db" where
  "create_event x d = try_then (db_flush (d\<lparr>events := events d @ [x]\<rparr>)) (\<lambda>d'. Inr (x, d'))"

definition create_verification :: "verification_row \<Rightarrow> db \<Rightarrow> nat + verification_row \<times> db" where
  "create_verification x d = try_then (db_flush (d\<lparr>verifications := verifications d @ [x]\<rparr>)) (\<lambda>d'. Inr (x, d'))"

section \<open>Models\<close>

definition json_float :: "ustr option \<Rightarrow> json" where
  "json_float x = (case x of None \<Rightarrow> JNull | Some f \<Rightarrow> JFloat f)"

definition json_int :: "int option \<Rightarrow> json" where
  "json_int x = (case x of None \<Rightarrow> JNull | Some i \<Rightarrow> JInt i)"

definition config_json :: "model_config \<Rightarrow> json" where
  "config_json c = JDict
     [(uni ''model_name'', JStr (mc_model_name c)),
      (uni ''temperature'', json_float (mc_temperature c)),
      (uni ''top_k'', json_int (mc_top_k c)),
      (uni ''top_p'', json_float (mc_top_p c)),
      (uni ''seed'', json_int (mc_seed c)),
      (uni ''decoding_algorithm'', json_text (mc_decoding_algorithm c))]"

definition derive_model_id :: "(bytes \<Rightarrow> ustr) \<Rightarrow> model_config \<Rightarrow> ustr" where
  "derive_model_id uuid5 c = uuid5 (canonical (config_json c))"

definition model_of :: "db \<Rightarrow> ustr \<Rightarrow> model_record option" where
  "model_of d i = List.find (\<lambda>m. md_id m = i) (models d)"

definition set_verification_threshold :: "ustr \<Rightarrow> ustr option \<Rightarrow> db \<Rightarrow> nat + model_record \<times> db" where
  "set_verification_threshold i threshold d =
     (case model_of d i of
        None \<Rightarrow> Inl 404
      | Some m \<Rightarrow>
          let m' = m\<lparr>md_verification_threshold := threshold\<rparr> in
          try_then (db_flush (d\<lparr>models := map (\<lambda>r. if md_id r = i then m' else r) (models d)\<rparr>)) (\<lambda>d'. Inr (m', d')))"

definition set_delta_max :: "ustr \<Rightarrow> ustr option \<Rightarrow> db \<Rightarrow> nat + model_record \<times> db" where
  "set_delta_max i cap d =
     (case model_of d i of
        None \<Rightarrow> Inl 404
      | Some m \<Rightarrow>
          let m' = m\<lparr>md_delta_max := cap\<rparr> in
          try_then (db_flush (d\<lparr>models := map (\<lambda>r. if md_id r = i then m' else r) (models d)\<rparr>)) (\<lambda>d'. Inr (m', d')))"

section \<open>Deployments\<close>

record declare_req =
  dr_hostname :: ustr
  dr_gpu_product_id :: "ustr option"
  dr_cpu_product_id :: "ustr option"
  dr_owner_id :: "ustr option"
  dr_owner_name :: "ustr option"
  dr_gpu_firmware_version :: "ustr option"
  dr_config :: model_config
  dr_started_at :: "instant option"

text \<open>The ids a request draws.\<close>

record fresh_ids =
  fi_hardware :: ustr
  fi_owner :: ustr
  fi_deployment :: ustr

definition ensure_hardware :: "fresh_ids \<Rightarrow> declare_req \<Rightarrow> db \<Rightarrow> nat + hardware \<times> db" where
  "ensure_hardware ids req d =
     try_then (one_or_none (filter (\<lambda>h. hw_hostname h = dr_hostname req) (hardwares d)))
       (\<lambda>found. case found of
          Some h \<Rightarrow> Inr (h, d)
        | None \<Rightarrow>
            create_hardware
              \<lparr>hw_id = fi_hardware ids, hw_hostname = dr_hostname req, hw_gpu_product_id = dr_gpu_product_id req,
               hw_cpu_product_id = dr_cpu_product_id req, hw_owner_id = dr_owner_id req,
               hw_gpu_firmware_version = dr_gpu_firmware_version req\<rparr> d)"

text \<open>Linking the hardware is written with the next flush.\<close>

definition link_owner :: "fresh_ids \<Rightarrow> declare_req \<Rightarrow> hardware \<Rightarrow> db \<Rightarrow> nat + db" where
  "link_owner ids req h d =
     (case str_or (dr_owner_name req) None of
        None \<Rightarrow> Inr d
      | Some name \<Rightarrow>
          try_then (one_or_none (filter (\<lambda>w. ow_organisation_name w = name) (owners d)))
            (\<lambda>found. try_then
              (case found of
                 Some w \<Rightarrow> Inr (w, d)
               | None \<Rightarrow> create_owner \<lparr>ow_id = fi_owner ids, ow_organisation_name = name, ow_is_trusted = False\<rparr> d)
              (\<lambda>(w, d1). db_flush (d1\<lparr>hardwares :=
                 map (\<lambda>r. if hw_id r = hw_id h then r\<lparr>hw_owner_id := Some (ow_id w)\<rparr> else r) (hardwares d1)\<rparr>))))"

definition ensure_model :: "(bytes \<Rightarrow> ustr) \<Rightarrow> model_config \<Rightarrow> db \<Rightarrow> nat + ustr \<times> db" where
  "ensure_model uuid5 c d =
     (let i = derive_model_id uuid5 c in
      case model_of d i of
        Some m \<Rightarrow> Inr (i, d)
      | None \<Rightarrow>
          try_then (db_flush (d\<lparr>models := models d @
              [\<lparr>md_id = i, md_config = c, md_verification_threshold = None, md_delta_max = None\<rparr>]\<rparr>))
            (\<lambda>d'. Inr (i, d')))"

definition end_active :: "ustr \<Rightarrow> instant \<Rightarrow> deployment list \<Rightarrow> deployment list" where
  "end_active hw t ps =
     map (\<lambda>p. if dp_hardware_id p = hw \<and> is_active p then p\<lparr>dp_ended_at := Some t\<rparr> else p) ps"

definition declare_deployment ::
  "(bytes \<Rightarrow> ustr) \<Rightarrow> fresh_ids \<Rightarrow> instant \<Rightarrow> declare_req \<Rightarrow> db \<Rightarrow> nat + deployment \<times> db" where
  "declare_deployment uuid5 ids now req d =
     (let started_at = (case dr_started_at req of Some t \<Rightarrow> t | None \<Rightarrow> now) in
      try_then (ensure_hardware ids req d) (\<lambda>(h, d1).
      try_then (link_owner ids req h d1) (\<lambda>d2.
      try_then (ensure_model uuid5 (dr_config req) d2) (\<lambda>(model_id, d3).
      try_then (db_flush (d3\<lparr>deployments := end_active (hw_id h) started_at (deployments d3)\<rparr>)) (\<lambda>d4.
        let p = \<lparr>dp_id = fi_deployment ids, dp_model_id = model_id, dp_hardware_id = hw_id h,
                 dp_started_at = started_at, dp_ended_at = None\<rparr> in
        try_then (db_flush (d4\<lparr>deployments := deployments d4 @ [p]\<rparr>)) (\<lambda>d5. Inr (p, d5)))))))"

record resolved =
  rs_deployment_id :: ustr
  rs_model_id :: ustr
  rs_hardware_id :: ustr
  rs_model_name :: ustr
  rs_model_name_matches :: bool

text \<open>The newest of the deployments that run at an instant; which of two started together comes first
  the database does not say.\<close>

definition runs_at :: "instant \<Rightarrow> deployment \<Rightarrow> bool" where
  "runs_at ts p = (dp_started_at p \<le> ts \<and> (case dp_ended_at p of None \<Rightarrow> True | Some e \<Rightarrow> e > ts))"

definition running_at :: "db \<Rightarrow> ustr \<Rightarrow> instant \<Rightarrow> deployment option" where
  "running_at d hw ts =
     (case sort_key (\<lambda>p. - dp_started_at p) (filter (\<lambda>p. dp_hardware_id p = hw \<and> runs_at ts p) (deployments d)) of
        [] \<Rightarrow> None
      | p # _ \<Rightarrow> Some p)"

text \<open>The answer over the deployment found.\<close>

definition resolved_by :: "db \<Rightarrow> ustr \<Rightarrow> ustr option \<Rightarrow> deployment option \<Rightarrow> nat + resolved" where
  "resolved_by d hw name found =
     (case found of
        None \<Rightarrow> Inl 404
      | Some p \<Rightarrow>
          (case model_of d (dp_model_id p) of
             None \<Rightarrow> Inl 500
           | Some m \<Rightarrow> Inr
               \<lparr>rs_deployment_id = dp_id p, rs_model_id = dp_model_id p, rs_hardware_id = hw,
                rs_model_name = mc_model_name (md_config m),
                rs_model_name_matches = (name = None \<or> name = Some (mc_model_name (md_config m)))\<rparr>))"

definition resolve_deployment :: "ustr \<Rightarrow> instant \<Rightarrow> ustr option \<Rightarrow> db \<Rightarrow> nat + resolved" where
  "resolve_deployment hostname ts model_name d =
     try_then (one_or_none (filter (\<lambda>h. hw_hostname h = hostname) (hardwares d)))
       (\<lambda>found. case found of
          None \<Rightarrow> Inl 404
        | Some h \<Rightarrow> resolved_by d (hw_id h) model_name (running_at d (hw_id h) ts))"

definition close_deployment :: "ustr \<Rightarrow> instant option \<Rightarrow> instant \<Rightarrow> db \<Rightarrow> nat + deployment \<times> db" where
  "close_deployment hostname ended_at now d =
     try_then (one_or_none (filter (\<lambda>h. hw_hostname h = hostname) (hardwares d)))
       (\<lambda>found. case found of
          None \<Rightarrow> Inl 404
        | Some h \<Rightarrow>
            try_then (one_or_none (filter (\<lambda>p. dp_hardware_id p = hw_id h \<and> is_active p) (deployments d)))
              (\<lambda>active. case active of
                 None \<Rightarrow> Inl 404
               | Some p \<Rightarrow>
                   let p' = p\<lparr>dp_ended_at := Some (case ended_at of Some t \<Rightarrow> t | None \<Rightarrow> now)\<rparr> in
                   try_then (db_flush (d\<lparr>deployments := map (\<lambda>q. if dp_id q = dp_id p then p' else q) (deployments d)\<rparr>))
                     (\<lambda>d'. Inr (p', d'))))"

end
