(* ===== verification/Ledger_Events.thy ===== *)
theory Ledger_Events
  imports Ledger Delivery
begin

text \<open>
  The ledger's requests on capture windows, inference events and verdicts: \<^verbatim>\<open>routers/capture_window.py\<close>,
  \<^verbatim>\<open>routers/inference_event.py\<close> and \<^verbatim>\<open>routers/verification_view.py\<close>, with the view
  \<open>inference_event_capture\<close> of \<^verbatim>\<open>sql/004_capture_accounting.sql\<close>.

  \<open>utc_text\<close> is \<open>isoformat\<close> of an instant in UTC. The filters of \<open>_view_filters\<close> are a predicate.
\<close>

section \<open>Capture windows\<close>

record window_request =
  wr_tapped_hostname :: "ustr option"
  wr_data :: window_data
  wr_findings :: "finding_data list"

definition window_id_for :: "(ustr \<Rightarrow> ustr) \<Rightarrow> (instant \<Rightarrow> ustr) \<Rightarrow> ustr \<Rightarrow> ustr \<Rightarrow> instant \<Rightarrow> ustr" where
  "window_id_for uuid5 utc_text capture_host ifaces window_start =
     uuid5 (capture_host @ uni ''|'' @ ifaces @ uni ''|'' @ utc_text window_start)"

text \<open>The fresh ids of the findings are \<open>ids 0\<close>, \<open>ids 1\<close>, ...\<close>

definition create_window ::
  "(ustr \<Rightarrow> ustr) \<Rightarrow> (instant \<Rightarrow> ustr) \<Rightarrow> (nat \<Rightarrow> ustr) \<Rightarrow> window_request \<Rightarrow> db \<Rightarrow> nat + capture_window \<times> db" where
  "create_window uuid5 utc_text ids req d =
     (let w = wr_data req; i = window_id_for uuid5 utc_text (wd_capture_host w) (wd_ifaces w) (wd_start w) in
      if wd_end w \<le> wd_start w then Inl 422
      else if \<exists>r \<in> set (windows d). cw_id r = i then Inl 409
      else
        try_then
          (case str_or (wr_tapped_hostname req) None of
             None \<Rightarrow> Inr None
           | Some hostname \<Rightarrow> one_or_none (map hw_id (filter (\<lambda>h. hw_hostname h = hostname) (hardwares d))))
          (\<lambda>hardware_id.
            let row = \<lparr>cw_id = i, cw_hardware_id = hardware_id, cw_data = w\<rparr> in
            try_then (db_flush (d\<lparr>windows := windows d @ [row]\<rparr>)) (\<lambda>d1.
            try_then (db_flush (d1\<lparr>findings := findings d1 @
                map (\<lambda>(n, f). \<lparr>fr_id = ids n, fr_window_id = i, fr_data = f\<rparr>)
                  (zip [0..<length (wr_findings req)] (wr_findings req))\<rparr>)) (\<lambda>d2.
            Inr (row, d2)))))"

definition newest_first :: "capture_window list \<Rightarrow> capture_window list" where
  "newest_first ws = sort_key (\<lambda>w. - wd_start (cw_data w)) ws"

definition page :: "nat \<Rightarrow> nat \<Rightarrow> 'a list \<Rightarrow> 'a list" where
  "page limit offset xs = take limit (drop offset xs)"

definition window_selected ::
  "ustr option \<Rightarrow> bool option \<Rightarrow> instant option \<Rightarrow> instant option \<Rightarrow> capture_window \<Rightarrow> bool" where
  "window_selected capture_host flag since until w \<longleftrightarrow>
     (case str_or capture_host None of None \<Rightarrow> True | Some h \<Rightarrow> wd_capture_host (cw_data w) = h) \<and>
     (case flag of None \<Rightarrow> True | Some c \<Rightarrow> wd_complete (cw_data w) = c) \<and>
     (case since of None \<Rightarrow> True | Some t \<Rightarrow> wd_end (cw_data w) \<ge> t) \<and>
     (case until of None \<Rightarrow> True | Some t \<Rightarrow> wd_start (cw_data w) \<le> t)"

definition list_windows ::
  "nat \<Rightarrow> nat \<Rightarrow> ustr option \<Rightarrow> bool option \<Rightarrow> instant option \<Rightarrow> instant option \<Rightarrow> db \<Rightarrow> capture_window list \<times> nat" where
  "list_windows limit offset capture_host flag since until d =
     (let chosen = filter (window_selected capture_host flag since until) (windows d) in
      (page limit offset (newest_first chosen), length chosen))"

definition latest_window :: "ustr option \<Rightarrow> db \<Rightarrow> nat + capture_window" where
  "latest_window capture_host d =
     (case newest_first (filter (window_selected capture_host None None None) (windows d)) of
        [] \<Rightarrow> Inl 404
      | w # _ \<Rightarrow> Inr w)"

definition get_window :: "ustr \<Rightarrow> db \<Rightarrow> nat + capture_window \<times> finding_row list" where
  "get_window i d =
     (case List.find (\<lambda>w. cw_id w = i) (windows d) of
        None \<Rightarrow> Inl 404
      | Some w \<Rightarrow>
          Inr (w, sort_key (\<lambda>f. - fd_count (fr_data f)) (filter (\<lambda>f. fr_window_id f = i) (findings d))))"

definition list_findings ::
  "nat \<Rightarrow> nat \<Rightarrow> ustr option \<Rightarrow> ustr option \<Rightarrow> instant option \<Rightarrow> db \<Rightarrow> finding_row list" where
  "list_findings limit offset kind frame_class since d =
     page limit offset (sort_key (\<lambda>f. - fd_last_ts (fr_data f))
       (filter (\<lambda>f. (case str_or kind None of None \<Rightarrow> True | Some k \<Rightarrow> fd_kind (fr_data f) = k) \<and>
                    (case str_or frame_class None of None \<Rightarrow> True | Some c \<Rightarrow> fd_frame_class (fr_data f) = c) \<and>
                    (case since of None \<Rightarrow> True | Some t \<Rightarrow> fd_last_ts (fr_data f) \<ge> t)) (findings d)))"

section \<open>Capture status\<close>

datatype capture_status = Complete | Tainted | Partial | Uncovered

definition span_start :: "event_row \<Rightarrow> instant" where
  "span_start e = (case ev_started_at e of Some t \<Rightarrow> t | None \<Rightarrow> ev_ts e)"

definition joins :: "event_row \<Rightarrow> capture_window \<Rightarrow> bool" where
  "joins e w \<longleftrightarrow> cw_hardware_id w = Some (ev_hardware_id e) \<and> wd_start (cw_data w) \<le> ev_ts e \<and>
     wd_end (cw_data w) > span_start e"

definition overlap :: "event_row \<Rightarrow> capture_window \<Rightarrow> int" where
  "overlap e w = min (wd_end (cw_data w)) (ev_ts e) - max (wd_start (cw_data w)) (span_start e)"

text \<open>The tolerance of a millisecond, in microseconds.\<close>

definition capture_row :: "event_row \<Rightarrow> capture_window list \<Rightarrow> capture_status \<times> nat \<times> int \<times> int \<times> int \<times> int" where
  "capture_row e ws =
     (let js = filter (joins e) ws; span = ev_ts e - span_start e; covered = sum_list (map (overlap e) js) in
      (if js = [] then Uncovered
       else if covered + 1000 < span then Partial
       else if list_all (wd_complete \<circ> cw_data) js then Complete
       else Tainted,
       length js, span, covered,
       sum_list (map (wd_kernel_dropped \<circ> cw_data) js), sum_list (map (wd_finding_count \<circ> cw_data) js)))"

definition inference_event_capture :: "ustr \<Rightarrow> db \<Rightarrow> nat + capture_status \<times> nat \<times> int \<times> int \<times> int \<times> int" where
  "inference_event_capture i d =
     (case List.find (\<lambda>e. ev_id e = i) (events d) of
        None \<Rightarrow> Inl 404
      | Some e \<Rightarrow> Inr (capture_row e (windows d)))"

section \<open>Waiting for verification\<close>

text \<open>The join with the model drops no event: its model exists. \<open>named\<close> is the pattern on the name.\<close>

definition unverified :: "ustr option \<Rightarrow> (ustr \<Rightarrow> bool) option \<Rightarrow> db \<Rightarrow> (event_row \<times> model_record) list" where
  "unverified model_id named d =
     concat (map (\<lambda>e. map (Pair e) (filter (\<lambda>m. md_id m = ev_model_id e \<and>
         (case named of None \<Rightarrow> True | Some f \<Rightarrow> f (mc_model_name (md_config m)))) (models d)))
       (filter (\<lambda>e. ev_id e \<notin> set (map vr_inference_event_id (verifications d)) \<and>
                    (case model_id of None \<Rightarrow> True | Some i \<Rightarrow> ev_model_id e = i)) (events d)))"

definition list_unverified :: "nat \<Rightarrow> ustr option \<Rightarrow> db \<Rightarrow> (event_row \<times> model_record) list" where
  "list_unverified limit model_id d =
     take limit (sort_key (\<lambda>(e, m). - ev_ts e) (unverified model_id None d))"

definition view_unverified ::
  "nat \<Rightarrow> nat \<Rightarrow> ustr option \<Rightarrow> (ustr \<Rightarrow> bool) option \<Rightarrow> db \<Rightarrow> (event_row \<times> model_record) list \<times> nat" where
  "view_unverified limit offset model_id named d =
     (let rows = unverified model_id named d in
      (page limit offset (sort_key (\<lambda>(e, m). - ev_ts e) rows), length rows))"

section \<open>Verdicts\<close>

definition stats :: "(verification_row \<Rightarrow> bool) \<Rightarrow> db \<Rightarrow> nat \<times> nat \<times> nat \<times> nat" where
  "stats matching d =
     (let vs = filter matching (verifications d); count = (\<lambda>r. length (filter (\<lambda>v. vr_result v = Some r) vs)) in
      (length vs, count Pass, count Fail, count Unverifiable))"

definition delete_orphaned :: "ustr list \<Rightarrow> db \<Rightarrow> db" where
  "delete_orphaned ids d =
     (let referenced = set (map vr_inference_event_id (verifications d)) in
      d\<lparr>events := filter (\<lambda>e. ev_id e \<notin> set ids \<or> ev_id e \<in> referenced) (events d)\<rparr>)"

definition replay_all :: "(verification_row \<Rightarrow> bool) \<Rightarrow> db \<Rightarrow> nat \<times> db" where
  "replay_all matching d =
     (length (filter matching (verifications d)),
      d\<lparr>verifications := filter (\<lambda>v. \<not> matching v) (verifications d)\<rparr>)"

definition replay_one :: "ustr \<Rightarrow> db \<Rightarrow> nat + unit \<times> db" where
  "replay_one i d =
     (if \<exists>v \<in> set (verifications d). vr_id v = i
      then Inr ((), d\<lparr>verifications := filter (\<lambda>v. vr_id v \<noteq> i) (verifications d)\<rparr>)
      else Inl 404)"

definition delete_all :: "(verification_row \<Rightarrow> bool) \<Rightarrow> db \<Rightarrow> nat \<times> db" where
  "delete_all matching d =
     (let gone = filter matching (verifications d) in
      (length gone,
       delete_orphaned (map vr_inference_event_id gone)
         (d\<lparr>verifications := filter (\<lambda>v. \<not> matching v) (verifications d)\<rparr>)))"

definition delete_one :: "ustr \<Rightarrow> db \<Rightarrow> nat + unit \<times> db" where
  "delete_one i d =
     (case List.find (\<lambda>v. vr_id v = i) (verifications d) of
        None \<Rightarrow> Inl 404
      | Some v \<Rightarrow>
          try_then (db_flush (d\<lparr>verifications := filter (\<lambda>v. vr_id v \<noteq> i) (verifications d)\<rparr>))
            (\<lambda>d'. Inr ((), delete_orphaned [vr_inference_event_id v] d')))"

section \<open>A row of the reporter on the way\<close>

text \<open>
  One attempt of \<open>LedgerReporter\<close> against this service: the request may not arrive, its answer may be
  lost after the commit, the service may fail before it commits (a status of 500 + n), or it answers.
\<close>

datatype trip = Request_lost | Answer_lost | Server_failed nat | Answered

definition post_window ::
  "(window_request \<Rightarrow> db \<Rightarrow> nat + capture_window \<times> db) \<Rightarrow> trip \<Rightarrow> window_request \<Rightarrow> db \<Rightarrow> post_result \<times> db" where
  "post_window create t req d =
     (let (answer, d') = request (create req) d in
      case t of
        Request_lost \<Rightarrow> (Request_error, d)
      | Answer_lost \<Rightarrow> (Request_error, d')
      | Server_failed n \<Rightarrow> (Http_status (500 + n), d)
      | Answered \<Rightarrow> (Http_status (case answer of Inl code \<Rightarrow> code | Inr w \<Rightarrow> 201), d'))"

definition attempt_row ::
  "(window_request \<Rightarrow> db \<Rightarrow> nat + capture_window \<times> db) \<Rightarrow> trip \<Rightarrow> window_request reporter \<times> db
     \<Rightarrow> window_request reporter \<times> db" where
  "attempt_row create t s =
     (case lr_thread (fst s) of
        Busy (req, attempt) \<Rightarrow>
          (let (r, d) = post_window create t req (snd s) in (reporter_step (Post_row r) (fst s), d))
      | _ \<Rightarrow> s)"

end
