(* ===== verification/Ledger_Proofs.thy ===== *)
theory Ledger_Proofs
  imports Ledger_Events
begin

text \<open>
  What the ledger keeps and answers: a declaration extends the history that \<open>resolve\<close> reads, a window
  delivered with retries is recorded once, and what the capture status of an event says of the windows.
\<close>

section \<open>Requests\<close>

lemma flush_iff: "db_flush d = Inr d' \<longleftrightarrow> d' = d \<and> db_ok d"
  by (auto simp: db_flush_def)

lemma flush_ok [simp]: "db_ok d \<Longrightarrow> db_flush d = Inr d"
  by (simp add: db_flush_def)

lemma try_then_simps [simp]: "try_then (Inl e) k = Inl e" "try_then (Inr x) k = k x"
  by (simp_all add: try_then_def)

lemma try_then_Inr: "try_then r k = Inr y \<longleftrightarrow> (\<exists>x. r = Inr x \<and> k x = Inr y)"
  by (cases r) auto

lemma one_or_none_map: "one_or_none (map f xs) = map_sum id (map_option f) (one_or_none xs)"
  by (simp add: one_or_none_def split: list.split)

lemma one_or_none_unique:
  assumes "distinct (map f xs)"
  shows "one_or_none (filter (\<lambda>x. f x = v) xs) = Inr (List.find (\<lambda>x. f x = v) xs)"
  using assms
proof (induction xs)
  case (Cons x xs)
  show ?case
  proof (cases "f x = v")
    case True
    then have "filter (\<lambda>x. f x = v) xs = []" using Cons.prems by (auto simp: filter_empty_conv image_iff)
    then show ?thesis using True by (simp add: one_or_none_def)
  next
    case False
    then show ?thesis using Cons by simp
  qed
qed (simp add: one_or_none_def)

lemma find_append: "List.find P (xs @ ys) = (case List.find P xs of None \<Rightarrow> List.find P ys | Some x \<Rightarrow> Some x)"
  by (induction xs) auto

lemma find_keyI: "distinct (map f xs) \<Longrightarrow> x \<in> set xs \<Longrightarrow> List.find (\<lambda>y. f y = f x) xs = Some x"
  by (induction xs) (auto simp: image_iff)

lemma find_key_None: "List.find (\<lambda>y. f y = v) xs = None \<longleftrightarrow> v \<notin> set (map f xs)"
  by (induction xs) auto

lemma find_keyD: "List.find P xs = Some x \<Longrightarrow> x \<in> set xs \<and> P x"
  by (induction xs) (auto split: if_splits)

lemma refers_append: "refers xs r \<Longrightarrow> refers (xs @ ys) r"
  by (simp add: refers_def split: option.splits)

section \<open>Declaring\<close>

lemma db_ok_parts:
  "db_ok d \<Longrightarrow> deployments_ok d" "db_ok d \<Longrightarrow> windows_ok d" "db_ok d \<Longrightarrow> events_ok d"
  by (simp_all add: db_ok_def)

lemma unique_hostname:
  "db_ok d \<Longrightarrow> one_or_none (filter (\<lambda>h. hw_hostname h = n) (hardwares d)) =
     Inr (List.find (\<lambda>h. hw_hostname h = n) (hardwares d))"
  by (rule one_or_none_unique) (simp add: db_ok_def deployments_ok_def)

text \<open>Growing the lists that others refer to, or rewriting columns no constraint reads, keeps the rest.\<close>

lemma windows_ok_more:
  assumes "windows_ok d" "windows d' = windows d" "findings d' = findings d"
    "set (map hw_id (hardwares d)) \<subseteq> set (map hw_id (hardwares d'))"
  shows "windows_ok d'"
  using assms by (fastforce simp: windows_ok_def refers_def list_all_iff split: option.splits)

lemma events_ok_more:
  assumes "events_ok d" "events d' = events d" "verifications d' = verifications d"
    "set (map hw_id (hardwares d)) \<subseteq> set (map hw_id (hardwares d'))"
    "set (map md_id (models d)) \<subseteq> set (map md_id (models d'))"
  shows "events_ok d'"
proof -
  have "\<And>x. x \<in> md_id ` set (models d) \<Longrightarrow> x \<in> md_id ` set (models d')"
    "\<And>x. x \<in> hw_id ` set (hardwares d) \<Longrightarrow> x \<in> hw_id ` set (hardwares d')"
    using assms(4,5) by auto
  then show ?thesis using assms(1-3) by (simp add: events_ok_def list_all_iff)
qed

lemma db_ok_more:
  assumes "db_ok d" "deployments_ok d'" "windows d' = windows d" "findings d' = findings d"
    "events d' = events d" "verifications d' = verifications d"
    "set (map hw_id (hardwares d)) \<subseteq> set (map hw_id (hardwares d'))"
    "set (map md_id (models d)) \<subseteq> set (map md_id (models d'))"
  shows "db_ok d'"
  using assms windows_ok_more[of d d'] events_ok_more[of d d'] by (simp add: db_ok_def)

lemma ensure_hardware_ok:
  assumes "db_ok d" "fi_hardware ids \<notin> set (map hw_id (hardwares d))"
    "refers (map ow_id (owners d)) (dr_owner_id req)"
  shows "\<exists>h hs. ensure_hardware ids req d = Inr (h, d\<lparr>hardwares := hs\<rparr>) \<and> db_ok (d\<lparr>hardwares := hs\<rparr>) \<and>
    (List.find (\<lambda>h. hw_hostname h = dr_hostname req) (hardwares d) = Some h \<and> hs = hardwares d \<or>
     List.find (\<lambda>h. hw_hostname h = dr_hostname req) (hardwares d) = None \<and> hs = hardwares d @ [h] \<and>
     hw_id h = fi_hardware ids \<and> hw_hostname h = dr_hostname req)"
proof (cases "List.find (\<lambda>h. hw_hostname h = dr_hostname req) (hardwares d)")
  case None
  define h where "h = \<lparr>hw_id = fi_hardware ids, hw_hostname = dr_hostname req,
    hw_gpu_product_id = dr_gpu_product_id req, hw_cpu_product_id = dr_cpu_product_id req,
    hw_owner_id = dr_owner_id req, hw_gpu_firmware_version = dr_gpu_firmware_version req\<rparr>"
  have "deployments_ok (d\<lparr>hardwares := hardwares d @ [h]\<rparr>)"
    using db_ok_parts(1)[OF assms(1)] assms(2,3) None
    by (auto simp: deployments_ok_def h_def find_key_None list_all_iff)
  then have ok: "db_ok (d\<lparr>hardwares := hardwares d @ [h]\<rparr>)"
    by (rule db_ok_more[OF assms(1)]) auto
  then have "ensure_hardware ids req d = Inr (h, d\<lparr>hardwares := hardwares d @ [h]\<rparr>)"
    by (simp add: ensure_hardware_def unique_hostname[OF assms(1)] None create_hardware_def h_def)
  then show ?thesis using ok None by (auto simp: h_def)
next
  case (Some h)
  then have "ensure_hardware ids req d = Inr (h, d\<lparr>hardwares := hardwares d\<rparr>)"
    by (simp add: ensure_hardware_def unique_hostname[OF assms(1)])
  then show ?thesis using Some assms(1) by auto
qed

definition owner_set :: "ustr \<Rightarrow> ustr \<Rightarrow> hardware \<Rightarrow> hardware" where
  "owner_set i w r = (if hw_id r = i then r\<lparr>hw_owner_id := Some w\<rparr> else r)"

lemma owner_set_keys [simp]:
  "map hw_id (map (owner_set i w) hs) = map hw_id hs" "map hw_hostname (map (owner_set i w) hs) = map hw_hostname hs"
  "hw_id (owner_set i w h) = hw_id h" "hw_hostname (owner_set i w h) = hw_hostname h"
  "hw_id \<circ> owner_set i w = hw_id" "hw_hostname \<circ> owner_set i w = hw_hostname"
  by (auto simp: owner_set_def)

lemma link_owner_ok:
  assumes "db_ok d" "fi_owner ids \<notin> set (map ow_id (owners d))" "distinct (map ow_organisation_name (owners d))"
  shows "\<exists>ws f. link_owner ids req h d = Inr (d\<lparr>owners := ws, hardwares := map f (hardwares d)\<rparr>) \<and>
    db_ok (d\<lparr>owners := ws, hardwares := map f (hardwares d)\<rparr>) \<and>
    (\<forall>r. hw_id (f r) = hw_id r \<and> hw_hostname (f r) = hw_hostname r)"
proof (cases "str_or (dr_owner_name req) None")
  case None
  then show ?thesis using assms(1)
    by (intro exI[of _ "owners d"] exI[of _ id]) (simp add: link_owner_def)
next
  case (Some name)
  have dep: "deployments_ok d" using assms(1) by (rule db_ok_parts)
  have linked: "db_ok (e\<lparr>hardwares := map (owner_set i (ow_id w)) (hardwares e)\<rparr>)"
    if "db_ok e" "w \<in> set (owners e)" for e i w
  proof -
    have k: "map hw_id (map (owner_set i (ow_id w)) (hardwares e)) = map hw_id (hardwares e)"
      "map hw_hostname (map (owner_set i (ow_id w)) (hardwares e)) = map hw_hostname (hardwares e)" by simp_all
    have "deployments_ok (e\<lparr>hardwares := map (owner_set i (ow_id w)) (hardwares e)\<rparr>)"
      using db_ok_parts(1)[OF that(1)] that(2) k
      by (auto simp: deployments_ok_def list_all_iff refers_def owner_set_def)
    then show ?thesis by (rule db_ok_more[OF that(1)]) (auto simp: image_iff)
  qed
  show ?thesis
  proof (cases "List.find (\<lambda>w. ow_organisation_name w = name) (owners d)")
    case None
    define w where "w = \<lparr>ow_id = fi_owner ids, ow_organisation_name = name, ow_is_trusted = False\<rparr>"
    define e where "e = d\<lparr>owners := owners d @ [w]\<rparr>"
    have "deployments_ok e"
      using dep assms(2) by (auto simp: deployments_ok_def e_def w_def list_all_iff intro: refers_append)
    then have e: "db_ok e" by (rule db_ok_more[OF assms(1)]) (auto simp: e_def)
    have w: "w \<in> set (owners e)" by (simp add: e_def)
    have "link_owner ids req h d = Inr (e\<lparr>hardwares := map (owner_set (hw_id h) (ow_id w)) (hardwares e)\<rparr>)"
      using e linked[OF e w, of "hw_id h"] Some None one_or_none_unique[OF assms(3), of name]
      by (simp add: link_owner_def create_owner_def owner_set_def[abs_def] flip: w_def e_def)
    then show ?thesis using linked[OF e w, of "hw_id h"]
      by (intro exI[of _ "owners e"] exI[of _ "owner_set (hw_id h) (ow_id w)"]) (simp add: e_def)
  next
    case (Some w)
    then have w: "w \<in> set (owners d)" by (simp add: find_keyD)
    have "link_owner ids req h d = Inr (d\<lparr>hardwares := map (owner_set (hw_id h) (ow_id w)) (hardwares d)\<rparr>)"
      using linked[OF assms(1) w, of "hw_id h"] \<open>str_or _ _ = Some name\<close> Some one_or_none_unique[OF assms(3), of name]
      by (simp add: link_owner_def owner_set_def[abs_def])
    then show ?thesis using linked[OF assms(1) w, of "hw_id h"]
      by (intro exI[of _ "owners d"] exI[of _ "owner_set (hw_id h) (ow_id w)"]) simp
  qed
qed

lemma ensure_model_ok:
  assumes "db_ok d"
  shows "\<exists>ms. ensure_model uuid5 c d = Inr (derive_model_id uuid5 c, d\<lparr>models := models d @ ms\<rparr>) \<and>
    db_ok (d\<lparr>models := models d @ ms\<rparr>) \<and> derive_model_id uuid5 c \<in> set (map md_id (models d @ ms))"
proof (cases "model_of d (derive_model_id uuid5 c)")
  case None
  define m where "m = \<lparr>md_id = derive_model_id uuid5 c, md_config = c, md_verification_threshold = None, md_delta_max = None\<rparr>"
  have "deployments_ok (d\<lparr>models := models d @ [m]\<rparr>)"
    using db_ok_parts(1)[OF assms] None by (auto simp: deployments_ok_def m_def model_of_def find_key_None list_all_iff)
  then have "db_ok (d\<lparr>models := models d @ [m]\<rparr>)" by (rule db_ok_more[OF assms]) auto
  then show ?thesis using None by (intro exI[of _ "[m]"]) (simp add: ensure_model_def m_def Let_def)
next
  case (Some m)
  then show ?thesis using assms find_keyD[of _ "models d" m]
    by (intro exI[of _ "[]"]) (force simp: ensure_model_def model_of_def Let_def)
qed

lemma end_active_keys [simp]:
  "map dp_id (end_active hw t ps) = map dp_id ps"
  "map dp_model_id (end_active hw t ps) = map dp_model_id ps"
  "map dp_hardware_id (end_active hw t ps) = map dp_hardware_id ps"
  by (auto simp: end_active_def)

lemma end_active_sets [simp]:
  "dp_id ` set (end_active hw t ps) = dp_id ` set ps"
  "dp_model_id ` set (end_active hw t ps) = dp_model_id ` set ps"
  "dp_hardware_id ` set (end_active hw t ps) = dp_hardware_id ` set ps"
  by (metis end_active_keys(1) list.set_map, metis end_active_keys(2) list.set_map, metis end_active_keys(3) list.set_map)

lemma end_active_all:
  "list_all (\<lambda>p. P (dp_model_id p)) (end_active hw t ps) = list_all (\<lambda>p. P (dp_model_id p)) ps"
  "list_all (\<lambda>p. P (dp_hardware_id p)) (end_active hw t ps) = list_all (\<lambda>p. P (dp_hardware_id p)) ps"
  by (induction ps) (simp_all add: end_active_def)

lemma end_active_filter:
  "map dp_hardware_id (filter is_active (end_active hw t ps)) = filter (\<lambda>i. i \<noteq> hw) (map dp_hardware_id (filter is_active ps))"
  by (induction ps) (auto simp: end_active_def is_active_def)

lemma end_active_ok:
  assumes "db_ok d"
  shows "db_ok (d\<lparr>deployments := end_active hw t (deployments d)\<rparr>)"
proof -
  have "deployments_ok (d\<lparr>deployments := end_active hw t (deployments d)\<rparr>)"
    using db_ok_parts(1)[OF assms]
      end_active_all(1)[of "\<lambda>i. i \<in> set (map md_id (models d))" hw t "deployments d"]
      end_active_all(2)[of "\<lambda>i. i \<in> set (map hw_id (hardwares d))" hw t "deployments d"]
    unfolding deployments_ok_def by (simp add: end_active_filter)
  then show ?thesis by (rule db_ok_more[OF assms]) simp_all
qed

lemma declare_result:
  assumes "db_ok d" "fi_hardware ids \<notin> set (map hw_id (hardwares d))"
    "refers (map ow_id (owners d)) (dr_owner_id req)"
    "fi_owner ids \<notin> set (map ow_id (owners d))" "distinct (map ow_organisation_name (owners d))"
    "fi_deployment ids \<notin> set (map dp_id (deployments d))"
    "dr_started_at req = Some s"
  shows "\<exists>h p d' f ms. declare_deployment uuid5 ids now req d = Inr (p, d') \<and> db_ok d' \<and>
    dp_id p = fi_deployment ids \<and> dp_model_id p = derive_model_id uuid5 (dr_config req) \<and>
    dp_hardware_id p = hw_id h \<and> dp_started_at p = s \<and> dp_ended_at p = None \<and>
    deployments d' = end_active (hw_id h) s (deployments d) @ [p] \<and> models d' = models d @ ms \<and>
    (\<forall>r. hw_id (f r) = hw_id r \<and> hw_hostname (f r) = hw_hostname r) \<and>
    (List.find (\<lambda>h. hw_hostname h = dr_hostname req) (hardwares d) = Some h \<and> hardwares d' = map f (hardwares d) \<or>
     List.find (\<lambda>h. hw_hostname h = dr_hostname req) (hardwares d) = None \<and> hardwares d' = map f (hardwares d @ [h]) \<and>
     hw_id h \<notin> set (map hw_id (hardwares d)) \<and> hw_hostname h = dr_hostname req)"
proof -
  obtain h hs where h: "ensure_hardware ids req d = Inr (h, d\<lparr>hardwares := hs\<rparr>)" "db_ok (d\<lparr>hardwares := hs\<rparr>)"
    "List.find (\<lambda>h. hw_hostname h = dr_hostname req) (hardwares d) = Some h \<and> hs = hardwares d \<or>
     List.find (\<lambda>h. hw_hostname h = dr_hostname req) (hardwares d) = None \<and> hs = hardwares d @ [h] \<and>
     hw_id h = fi_hardware ids \<and> hw_hostname h = dr_hostname req"
    using ensure_hardware_ok[OF assms(1-3)] by blast
  obtain ws f where f: "link_owner ids req h (d\<lparr>hardwares := hs\<rparr>) = Inr (d\<lparr>owners := ws, hardwares := map f hs\<rparr>)"
    "db_ok (d\<lparr>owners := ws, hardwares := map f hs\<rparr>)" "\<forall>r. hw_id (f r) = hw_id r \<and> hw_hostname (f r) = hw_hostname r"
    using link_owner_ok[OF h(2), of ids req h] assms(4,5) by auto
  define i where "i = derive_model_id uuid5 (dr_config req)"
  obtain ms where m: "ensure_model uuid5 (dr_config req) (d\<lparr>owners := ws, hardwares := map f hs\<rparr>) =
      Inr (i, d\<lparr>owners := ws, hardwares := map f hs, models := models d @ ms\<rparr>)"
    "db_ok (d\<lparr>owners := ws, hardwares := map f hs, models := models d @ ms\<rparr>)" "i \<in> set (map md_id (models d @ ms))"
    using ensure_model_ok[OF f(2), of uuid5 "dr_config req"] unfolding i_def by auto
  define e where "e = d\<lparr>owners := ws, hardwares := map f hs, models := models d @ ms\<rparr>"
  define e1 where "e1 = e\<lparr>deployments := end_active (hw_id h) s (deployments d)\<rparr>"
  define p where "p = \<lparr>dp_id = fi_deployment ids, dp_model_id = i, dp_hardware_id = hw_id h,
    dp_started_at = s, dp_ended_at = None\<rparr>"
  define e2 where "e2 = e1\<lparr>deployments := deployments e1 @ [p]\<rparr>"
  have ids: "map hw_id (map f hs) = map hw_id hs" using f(3) by (simp add: comp_def)
  have "h \<in> set hs" using h(3) by (auto dest: find_keyD)
  then have hw: "hw_id h \<in> set (map hw_id (hardwares e))" by (simp add: e_def f(3))
  have e1: "db_ok e1"
    using end_active_ok[OF m(2), of "hw_id h" s] by (simp add: e1_def e_def)
  have "deployments_ok e2"
    using db_ok_parts(1)[OF e1] hw m(3) assms(6) unfolding e2_def e1_def e_def deployments_ok_def p_def
    by (auto simp: end_active_filter is_active_def simp flip: image_set)
  then have e2: "db_ok e2" by (rule db_ok_more[OF e1]) (simp_all add: e2_def)
  have "declare_deployment uuid5 ids now req d = Inr (p, e2)"
    using e1 e2 unfolding e2_def
    by (simp add: declare_deployment_def assms(7) h(1) f(1) m(1) p_def e1_def e_def Let_def)
  moreover have "List.find (\<lambda>h. hw_hostname h = dr_hostname req) (hardwares d) = Some h \<and> hs = hardwares d \<or>
     List.find (\<lambda>h. hw_hostname h = dr_hostname req) (hardwares d) = None \<and> hs = hardwares d @ [h] \<and>
     hw_id h \<notin> set (map hw_id (hardwares d)) \<and> hw_hostname h = dr_hostname req"
    using h(3) assms(2) by metis
  moreover have "hardwares e2 = map f hs" "models e2 = models d @ ms"
    "deployments e2 = end_active (hw_id h) s (deployments d) @ [p]"
    "dp_id p = fi_deployment ids" "dp_model_id p = derive_model_id uuid5 (dr_config req)"
    "dp_hardware_id p = hw_id h" "dp_started_at p = s" "dp_ended_at p = None"
    by (simp_all add: p_def e2_def e1_def e_def i_def)
  ultimately show ?thesis
    using e2 f(3) by (intro exI[of _ h] exI[of _ p] exI[of _ e2] exI[of _ f] exI[of _ ms]) presburger
qed

section \<open>History\<close>

definition ended :: "instant \<Rightarrow> deployment \<Rightarrow> deployment" where
  "ended t p = (if is_active p then p\<lparr>dp_ended_at := Some t\<rparr> else p)"

lemma ended_simps [simp]:
  "dp_id (ended t p) = dp_id p" "dp_model_id (ended t p) = dp_model_id p"
  "dp_hardware_id (ended t p) = dp_hardware_id p" "dp_started_at (ended t p) = dp_started_at p"
  by (simp_all add: ended_def)

lemma sort_key_map:
  assumes "\<And>x. f (g x) = f x"
  shows "sort_key f (map g xs) = map g (sort_key f xs)"
proof (induction xs)
  case (Cons x xs)
  have "insort_key f (g x) (map g ys) = map g (insort_key f x ys)" for ys
    by (induction ys) (simp_all add: assms)
  then show ?case using Cons.IH by simp
qed simp

lemma running_other:
  assumes "hw' \<noteq> hw"
  shows "filter (\<lambda>p. dp_hardware_id p = hw' \<and> runs_at ts p) (end_active hw t ps) =
    filter (\<lambda>p. dp_hardware_id p = hw' \<and> runs_at ts p) ps"
  using assms by (induction ps) (auto simp: end_active_def)

lemma running_before:
  assumes "ts < t"
  shows "filter (\<lambda>p. dp_hardware_id p = hw \<and> runs_at ts p) (end_active hw t ps) =
    map (ended t) (filter (\<lambda>p. dp_hardware_id p = hw \<and> runs_at ts p) ps)"
  using assms by (induction ps) (auto simp: end_active_def ended_def is_active_def runs_at_def)

definition over_by :: "instant \<Rightarrow> ustr \<Rightarrow> deployment list \<Rightarrow> bool" where
  "over_by t hw ps = list_all (\<lambda>p. dp_hardware_id p = hw \<longrightarrow>
     dp_started_at p \<le> t \<and> (case dp_ended_at p of None \<Rightarrow> True | Some e \<Rightarrow> e \<le> t)) ps"

lemma running_after:
  assumes "t \<le> ts" "over_by t hw ps"
  shows "filter (\<lambda>p. dp_hardware_id p = hw \<and> runs_at ts p) (end_active hw t ps) = []"
  using assms by (induction ps) (auto simp: over_by_def end_active_def is_active_def runs_at_def)

lemma resolve_by:
  "db_ok d \<Longrightarrow> resolve_deployment host ts name d =
     (case List.find (\<lambda>h. hw_hostname h = host) (hardwares d) of
        None \<Rightarrow> Inl 404
      | Some h \<Rightarrow> resolved_by d (hw_id h) name (running_at d (hw_id h) ts))"
  by (simp add: resolve_deployment_def unique_hostname split: option.split)

lemma running_at_hw:
  assumes "running_at d hw ts = Some p"
  shows "p \<in> set (deployments d) \<and> dp_hardware_id p = hw \<and> runs_at ts p"
proof -
  let ?ps = "filter (\<lambda>p. dp_hardware_id p = hw \<and> runs_at ts p) (deployments d)"
  have "p \<in> set (sort_key (\<lambda>p. - dp_started_at p) ?ps)"
    using assms by (auto simp: running_at_def simp del: set_sort split: list.splits)
  then show ?thesis by simp
qed

lemma model_of_more:
  assumes "db_ok d" "p \<in> set (deployments d)" "models d' = models d @ ms"
  shows "model_of d' (dp_model_id p) = model_of d (dp_model_id p)" "model_of d (dp_model_id p) \<noteq> None"
proof -
  have "dp_model_id p \<in> set (map md_id (models d))"
    using db_ok_parts(1)[OF assms(1)] assms(2) by (simp add: deployments_ok_def list_all_iff)
  then show "model_of d (dp_model_id p) \<noteq> None" by (simp add: model_of_def find_key_None)
  then show "model_of d' (dp_model_id p) = model_of d (dp_model_id p)"
    by (auto simp: model_of_def assms(3) find_append)
qed

lemma resolved_by_ended:
  assumes "db_ok d" "running_at d hw ts = found" "models d' = models d @ ms"
  shows "resolved_by d' hw name (map_option (ended t) found) = resolved_by d hw name found"
    "resolved_by d' hw name found = resolved_by d hw name found"
  using model_of_more[OF assms(1) _ assms(3)] running_at_hw[of d hw ts] assms(2)
  by (auto simp: resolved_by_def split: option.split)

lemma find_hostname_map:
  assumes "\<forall>r. hw_id (f r) = hw_id r \<and> hw_hostname (f r) = hw_hostname r"
  shows "List.find (\<lambda>h. hw_hostname h = host) (map f hs) = map_option f (List.find (\<lambda>h. hw_hostname h = host) hs)"
  using assms by (induction hs) auto


lemma no_deployments:
  assumes "db_ok d" "hw \<notin> set (map hw_id (hardwares d))"
  shows "over_by t hw (deployments d)" "running_at d hw ts = None"
proof -
  have n: "\<forall>p \<in> set (deployments d). dp_hardware_id p \<noteq> hw"
    using db_ok_parts(1)[OF assms(1)] assms(2) by (auto simp: deployments_ok_def list_all_iff)
  then show "over_by t hw (deployments d)" by (simp add: over_by_def list_all_iff)
  have "filter (\<lambda>p. dp_hardware_id p = hw \<and> runs_at ts p) (deployments d) = []"
    using n by (simp add: filter_empty_conv)
  then show "running_at d hw ts = None" by (simp add: running_at_def)
qed

lemma distinct_hosts:
  assumes "db_ok d" "h \<in> set (hardwares d)" "h' \<in> set (hardwares d)" "hw_hostname h \<noteq> hw_hostname h'"
  shows "hw_id h \<noteq> hw_id h'"
proof -
  have "inj_on hw_id (set (hardwares d))"
    using db_ok_parts(1)[OF assms(1)] by (simp add: deployments_ok_def distinct_map)
  then show ?thesis using assms(2-4) by (auto dest: inj_onD)
qed

text \<open>How the deployments of \<open>declare\<close> read at an instant.\<close>

lemma running_declared:
  assumes "deployments d' = end_active (hw_id h) s (deployments d) @ [p]"
    "dp_hardware_id p = hw_id h" "dp_started_at p = s" "dp_ended_at p = None"
  shows "hw \<noteq> hw_id h \<Longrightarrow> running_at d' hw ts = running_at d hw ts"
    "ts < s \<Longrightarrow> running_at d' (hw_id h) ts = map_option (ended s) (running_at d (hw_id h) ts)"
    "s \<le> ts \<Longrightarrow> over_by s (hw_id h) (deployments d) \<Longrightarrow> running_at d' (hw_id h) ts = Some p"
proof -
  have p: "runs_at ts p \<longleftrightarrow> s \<le> ts" by (simp add: runs_at_def assms)
  show "hw \<noteq> hw_id h \<Longrightarrow> running_at d' hw ts = running_at d hw ts"
    using assms by (simp add: running_at_def running_other)
  show "ts < s \<Longrightarrow> running_at d' (hw_id h) ts = map_option (ended s) (running_at d (hw_id h) ts)"
    using assms p by (simp add: running_at_def running_before sort_key_map split: list.split)
  show "s \<le> ts \<Longrightarrow> over_by s (hw_id h) (deployments d) \<Longrightarrow> running_at d' (hw_id h) ts = Some p"
    using assms p by (simp add: running_at_def running_after)
qed

text \<open>C10: A declaration is accepted, keeps every constraint and extends the host's history from its start: from
  then on the host resolves to the new deployment of the model its configuration derives, and before
  then, as every other host at all times, to what it did; provided no deployment of the host starts or
  ends later, the drawn ids are new and no two owners share a name.\<close>
theorem declared_from_then_on:
  assumes "db_ok d" "fi_hardware ids \<notin> set (map hw_id (hardwares d))"
    "refers (map ow_id (owners d)) (dr_owner_id req)"
    "fi_owner ids \<notin> set (map ow_id (owners d))" "distinct (map ow_organisation_name (owners d))"
    "fi_deployment ids \<notin> set (map dp_id (deployments d))"
    "dr_started_at req = Some s"
    "\<forall>h \<in> set (hardwares d). hw_hostname h = dr_hostname req \<longrightarrow> over_by s (hw_id h) (deployments d)"
  shows "\<exists>p d'. declare_deployment uuid5 ids now req d = Inr (p, d') \<and> db_ok d' \<and>
    dp_model_id p = derive_model_id uuid5 (dr_config req) \<and>
    (\<forall>host ts name. resolve_deployment host ts name d' =
       (if host = dr_hostname req \<and> s \<le> ts then resolved_by d' (dp_hardware_id p) name (Some p)
        else resolve_deployment host ts name d))"
proof -
  obtain h p d' f ms where r: "declare_deployment uuid5 ids now req d = Inr (p, d')" "db_ok d'"
    "dp_model_id p = derive_model_id uuid5 (dr_config req)"
    "dp_hardware_id p = hw_id h" "dp_started_at p = s" "dp_ended_at p = None"
    "deployments d' = end_active (hw_id h) s (deployments d) @ [p]" "models d' = models d @ ms"
    "\<forall>r. hw_id (f r) = hw_id r \<and> hw_hostname (f r) = hw_hostname r"
    "List.find (\<lambda>h. hw_hostname h = dr_hostname req) (hardwares d) = Some h \<and> hardwares d' = map f (hardwares d) \<or>
     List.find (\<lambda>h. hw_hostname h = dr_hostname req) (hardwares d) = None \<and> hardwares d' = map f (hardwares d @ [h]) \<and>
     hw_id h \<notin> set (map hw_id (hardwares d)) \<and> hw_hostname h = dr_hostname req"
    using declare_result[OF assms(1-7), of uuid5 now] by blast
  note run = running_declared[OF r(7,4-6)]
  have "resolve_deployment host ts name d' =
       (if host = dr_hostname req \<and> s \<le> ts then resolved_by d' (dp_hardware_id p) name (Some p)
        else resolve_deployment host ts name d)" for host ts name
  proof (cases "host = dr_hostname req")
    case True
    then have "List.find (\<lambda>h. hw_hostname h = host) (hardwares d') = Some (f h)"
      using r(10) by (auto simp: find_hostname_map[OF r(9)] find_append r(9) simp del: map_append)
    then have new: "resolve_deployment host ts name d' = resolved_by d' (hw_id h) name (running_at d' (hw_id h) ts)"
      using r(9) by (simp add: resolve_by[OF r(2)])
    show ?thesis
    proof (cases "s \<le> ts")
      case after: True
      have "over_by s (hw_id h) (deployments d)"
        using r(10) assms(8) no_deployments(1)[OF assms(1)] by (auto dest: find_keyD)
      then show ?thesis using new after True run(3) r(4) by simp
    next
      case False
      then have "resolve_deployment host ts name d' = resolved_by d (hw_id h) name (running_at d (hw_id h) ts)"
        using new run(2) resolved_by_ended(1)[OF assms(1) refl r(8)] by simp
      then show ?thesis
        using r(10) False True no_deployments(2)[OF assms(1)]
        by (auto simp: resolve_by[OF assms(1)] resolved_by_def)
    qed
  next
    case False
    then have f: "List.find (\<lambda>h. hw_hostname h = host) (hardwares d') =
        map_option f (List.find (\<lambda>h. hw_hostname h = host) (hardwares d))"
      using r(10) by (auto simp: find_hostname_map[OF r(9)] find_append simp del: map_append split: option.split)
    show ?thesis
    proof (cases "List.find (\<lambda>h. hw_hostname h = host) (hardwares d)")
      case None
      then show ?thesis using False f by (simp add: resolve_by r(2) assms(1))
    next
      case (Some g)
      then have "g \<in> set (hardwares d)" "hw_hostname g = host" by (auto dest: find_keyD)
      then have g: "hw_id g \<in> hw_id ` set (hardwares d)" by blast
      have "hw_id g \<noteq> hw_id h"
        using r(10)
      proof (elim disjE conjE)
        assume "List.find (\<lambda>h. hw_hostname h = dr_hostname req) (hardwares d) = Some h"
        then have "h \<in> set (hardwares d)" "hw_hostname h = dr_hostname req" by (auto dest: find_keyD)
        then show ?thesis
          using distinct_hosts[OF assms(1) \<open>g \<in> set (hardwares d)\<close>] \<open>hw_hostname g = host\<close> False by simp
      qed (use g in auto)
      then show ?thesis
        using False f Some r(9) run(1) resolved_by_ended(2)[OF assms(1) refl r(8)]
        by (simp add: resolve_by r(2) assms(1))
    qed
  qed
  then show ?thesis using r(1-3) by blast
qed

lemma distinct_one:
  assumes "distinct xs" "set xs = {x}"
  shows "xs = [x]"
proof (cases xs)
  case (Cons y ys)
  then have "y = x" "set ys \<subseteq> {x}" "x \<notin> set ys" using assms by auto
  then have "ys = []" by (cases ys) auto
  then show ?thesis using Cons \<open>y = x\<close> by simp
qed (use assms in simp)

lemma closing_is_ending:
  assumes "db_ok d" "p \<in> set (deployments d)" "is_active p"
  shows "map (\<lambda>q. if dp_id q = dp_id p then p\<lparr>dp_ended_at := Some t\<rparr> else q) (deployments d) =
      end_active (dp_hardware_id p) t (deployments d)"
    "filter (\<lambda>q. dp_hardware_id q = dp_hardware_id p \<and> is_active q) (deployments d) = [p]"
proof -
  have u: "distinct (map dp_hardware_id (filter is_active (deployments d)))" "distinct (map dp_id (deployments d))"
    using db_ok_parts(1)[OF assms(1)] by (simp_all add: deployments_ok_def)
  have i: "inj_on dp_id (set (deployments d))" "inj_on dp_hardware_id (set (filter is_active (deployments d)))"
    using u by (simp_all add: distinct_map)
  have only: "q = p" if "q \<in> set (deployments d)" "dp_hardware_id q = dp_hardware_id p" "is_active q" for q
    using i(2) that assms(2,3) by (auto dest: inj_onD)
  show "map (\<lambda>q. if dp_id q = dp_id p then p\<lparr>dp_ended_at := Some t\<rparr> else q) (deployments d) =
      end_active (dp_hardware_id p) t (deployments d)"
    using only assms(2,3) inj_onD[OF i(1)] by (auto simp: end_active_def)
  have "distinct (filter (\<lambda>q. dp_hardware_id q = dp_hardware_id p \<and> is_active q) (deployments d))"
    using u(2) by (simp add: distinct_map distinct_filter)
  moreover have "set (filter (\<lambda>q. dp_hardware_id q = dp_hardware_id p \<and> is_active q) (deployments d)) = {p}"
    using only assms(2,3) by auto
  ultimately show "filter (\<lambda>q. dp_hardware_id q = dp_hardware_id p \<and> is_active q) (deployments d) = [p]"
    by (rule distinct_one)
qed

lemma running_ended:
  assumes "deployments d' = end_active hw t (deployments d)"
  shows "ts < t \<Longrightarrow> running_at d' hw ts = map_option (ended t) (running_at d hw ts)"
    "t \<le> ts \<Longrightarrow> over_by t hw (deployments d) \<Longrightarrow> running_at d' hw ts = None"
  using assms by (simp_all add: running_at_def running_before running_after sort_key_map split: list.split)

text \<open>Closing ends a host's active deployment: from the end given nothing resolves on the host, earlier
  instants and other hosts resolve as before, and every constraint holds.\<close>
theorem closed_from_then_on:
  assumes "db_ok d" "List.find (\<lambda>h. hw_hostname h = host) (hardwares d) = Some h"
    "p \<in> set (deployments d)" "dp_hardware_id p = hw_id h" "is_active p"
    "over_by t (hw_id h) (deployments d)"
  shows "\<exists>d'. close_deployment host (Some t) now d = Inr (p\<lparr>dp_ended_at := Some t\<rparr>, d') \<and> db_ok d' \<and>
    (\<forall>host' ts name. resolve_deployment host' ts name d' =
       (if host' = host \<and> t \<le> ts then Inl 404 else resolve_deployment host' ts name d))"
proof -
  define d' where "d' = d\<lparr>deployments := end_active (hw_id h) t (deployments d)\<rparr>"
  note c = closing_is_ending[OF assms(1,3,5)]
  have ok: "db_ok d'" unfolding d'_def by (rule end_active_ok[OF assms(1)])
  have "close_deployment host (Some t) now d = Inr (p\<lparr>dp_ended_at := Some t\<rparr>, d')"
    using ok c assms(2,4)
    by (simp add: close_deployment_def unique_hostname[OF assms(1)] one_or_none_def[of "[p]"] d'_def Let_def)
  moreover have "resolve_deployment host' ts name d' =
       (if host' = host \<and> t \<le> ts then Inl 404 else resolve_deployment host' ts name d)" for host' ts name
  proof (cases "List.find (\<lambda>h. hw_hostname h = host') (hardwares d)")
    case None
    moreover have "hardwares d' = hardwares d" by (simp add: d'_def)
    ultimately show ?thesis using assms(2) by (auto simp: resolve_by[OF ok] resolve_by[OF assms(1)])
  next
    case (Some g)
    have r: "resolve_deployment host' ts name d' = resolved_by d' (hw_id g) name (running_at d' (hw_id g) ts)"
      "resolve_deployment host' ts name d = resolved_by d (hw_id g) name (running_at d (hw_id g) ts)"
      using Some by (simp_all add: resolve_by ok assms(1)) (simp add: d'_def)
    have m: "models d' = models d @ []" by (simp add: d'_def)
    show ?thesis
    proof (cases "host' = host")
      case True
      then have "g = h" using Some assms(2) by simp
      have d': "deployments d' = end_active (hw_id h) t (deployments d)" by (simp add: d'_def)
      show ?thesis
      proof (cases "t \<le> ts")
        case after: True
        then show ?thesis using r(1) True \<open>g = h\<close> running_ended(2)[OF d' after assms(6)]
          by (simp add: resolved_by_def)
      next
        case False
        then have "running_at d' (hw_id h) ts = map_option (ended t) (running_at d (hw_id h) ts)"
          by (intro running_ended(1)[OF d']) simp
        then show ?thesis using r False \<open>g = h\<close> resolved_by_ended(1)[OF assms(1) refl m] by simp
      qed
    next
      case False
      have "g \<in> set (hardwares d)" "h \<in> set (hardwares d)" "hw_hostname g = host'" "hw_hostname h = host"
        using Some assms(2) by (auto dest: find_keyD)
      then have "hw_id g \<noteq> hw_id h" using distinct_hosts[OF assms(1)] False by blast
      then have "running_at d' (hw_id g) ts = running_at d (hw_id g) ts"
        by (simp add: running_at_def running_other d'_def)
      then show ?thesis using False r resolved_by_ended(2)[OF assms(1) refl m] by simp
    qed
  qed
  ultimately show ?thesis using ok by blast
qed

section \<open>Windows on their way to the ledger\<close>

definition request_id :: "(ustr \<Rightarrow> ustr) \<Rightarrow> (instant \<Rightarrow> ustr) \<Rightarrow> window_request \<Rightarrow> ustr" where
  "request_id uuid5 utc_text req =
     window_id_for uuid5 utc_text (wd_capture_host (wr_data req)) (wd_ifaces (wr_data req)) (wd_start (wr_data req))"

definition request_key :: "window_request \<Rightarrow> ustr \<times> ustr \<times> instant" where
  "request_key req = (wd_capture_host (wr_data req), wd_ifaces (wr_data req), wd_start (wr_data req))"

text \<open>A row the reporter may post: its findings are grouped, and the ids drawn for them are new.\<close>

definition group_of :: "finding_data \<Rightarrow> ustr \<times> ustr \<times> link_direction \<times> ustr option" where
  "group_of f = (fd_kind f, fd_frame_class f, fd_direction f, fd_source_mac f)"

definition postable :: "(nat \<Rightarrow> ustr) \<Rightarrow> window_request \<Rightarrow> db \<Rightarrow> bool" where
  "postable ids req d \<longleftrightarrow>
     distinct (map group_of (wr_findings req)) \<and> distinct (map ids [0..<length (wr_findings req)]) \<and>
     set (map ids [0..<length (wr_findings req)]) \<inter> set (map fr_id (findings d)) = {}"

definition rows_of :: "(nat \<Rightarrow> ustr) \<Rightarrow> ustr \<Rightarrow> finding_data list \<Rightarrow> finding_row list" where
  "rows_of ids i fs = map (\<lambda>(n, f). \<lparr>fr_id = ids n, fr_window_id = i, fr_data = f\<rparr>) (zip [0..<length fs] fs)"

lemma rows_of_maps:
  "map fr_id (rows_of ids i fs) = map ids [0..<length fs]" "map fr_data (rows_of ids i fs) = fs"
  "r \<in> set (rows_of ids i fs) \<Longrightarrow> fr_window_id r = i"
proof -
  show "map fr_id (rows_of ids i fs) = map ids [0..<length fs]"
    by (rule nth_equalityI) (simp_all add: rows_of_def)
  show "map fr_data (rows_of ids i fs) = fs" by (rule nth_equalityI) (simp_all add: rows_of_def)
  show "r \<in> set (rows_of ids i fs) \<Longrightarrow> fr_window_id r = i" by (auto simp: rows_of_def)
qed

lemma rows_groups:
  assumes "distinct (map group_of fs)"
  shows "distinct (map row_group (rows_of ids i fs))"
proof -
  have "map row_group (rows_of ids i fs) = map (\<lambda>f. (i, group_of f)) fs"
    by (rule nth_equalityI) (simp_all add: rows_of_def row_group_def group_of_def)
  moreover have "distinct (map (\<lambda>f. (i, group_of f)) fs)"
    using assms by (simp add: distinct_map inj_on_def)
  ultimately show ?thesis by simp
qed

lemma distinct_map_filterI: "distinct (map f xs) \<Longrightarrow> distinct (map f (filter P xs))"
  by (rule distinct_map_filter)

lemma hostname_ids:
  assumes "db_ok d"
  shows "\<exists>r. one_or_none (map hw_id (filter (\<lambda>h. hw_hostname h = n) (hardwares d))) = Inr r \<and>
    refers (map hw_id (hardwares d)) r"
proof -
  have "refers (map hw_id (hardwares d)) (map_option hw_id (List.find (\<lambda>h. hw_hostname h = n) (hardwares d)))"
    using find_keyD[of _ "hardwares d"] by (auto simp: refers_def split: option.split)
  then show ?thesis by (simp add: one_or_none_map unique_hostname[OF assms])
qed

lemma create_window_cases:
  assumes "db_ok d" "postable ids req d"
    "\<forall>w \<in> set (windows d). cw_id w = request_id uuid5 utc_text req \<longrightarrow> window_key w = request_key req"
  shows "wd_end (wr_data req) \<le> wd_start (wr_data req) \<Longrightarrow> create_window uuid5 utc_text ids req d = Inl 422"
    "wd_start (wr_data req) < wd_end (wr_data req) \<Longrightarrow> request_key req \<in> set (map window_key (windows d)) \<Longrightarrow>
       create_window uuid5 utc_text ids req d = Inl 409"
    "wd_start (wr_data req) < wd_end (wr_data req) \<Longrightarrow> request_key req \<notin> set (map window_key (windows d)) \<Longrightarrow>
       \<exists>row d'. create_window uuid5 utc_text ids req d = Inr (row, d') \<and> db_ok d' \<and>
         windows d' = windows d @ [row] \<and> cw_id row = request_id uuid5 utc_text req \<and> cw_data row = wr_data req"
proof -
  define i where "i = request_id uuid5 utc_text req"
  obtain hw where hw: "(case str_or (wr_tapped_hostname req) None of
             None \<Rightarrow> Inr None
           | Some hostname \<Rightarrow> one_or_none (map hw_id (filter (\<lambda>h. hw_hostname h = hostname) (hardwares d)))) = Inr hw"
    "refers (map hw_id (hardwares d)) hw"
    using hostname_ids[OF assms(1)] by (cases "str_or (wr_tapped_hostname req) None") (auto simp: refers_def)
  define row where "row = \<lparr>cw_id = i, cw_hardware_id = hw, cw_data = wr_data req\<rparr>"
  define d1 where "d1 = d\<lparr>windows := windows d @ [row]\<rparr>"
  define d2 where "d2 = d1\<lparr>findings := findings d1 @ rows_of ids i (wr_findings req)\<rparr>"
  have key: "window_key row = request_key req" by (simp add: row_def window_key_def request_key_def)
  have create: "create_window uuid5 utc_text ids req d =
    (if wd_end (wr_data req) \<le> wd_start (wr_data req) then Inl 422
     else if \<exists>r \<in> set (windows d). cw_id r = i then Inl 409
     else try_then (db_flush d1) (\<lambda>d1. try_then (db_flush (d1\<lparr>findings := findings d1 @ rows_of ids i (wr_findings req)\<rparr>))
       (\<lambda>d2. Inr (row, d2))))"
    by (simp add: create_window_def hw(1) d1_def row_def i_def request_id_def rows_of_def Let_def)
  show "wd_end (wr_data req) \<le> wd_start (wr_data req) \<Longrightarrow> create_window uuid5 utc_text ids req d = Inl 422"
    by (simp add: create)
  have w: "windows_ok d" "deployments_ok d" "events_ok d" using assms(1) by (simp_all add: db_ok_def)
  show "create_window uuid5 utc_text ids req d = Inl 409"
    if "wd_start (wr_data req) < wd_end (wr_data req)" "request_key req \<in> set (map window_key (windows d))"
  proof (cases "\<exists>r \<in> set (windows d). cw_id r = i")
    case False
    have "\<not> windows_ok d1" using that(2) key by (simp add: windows_ok_def d1_def)
    then show ?thesis using False that(1) by (simp add: create db_flush_def db_ok_def)
  qed (use that(1) in \<open>simp add: create\<close>)
  show "\<exists>row d'. create_window uuid5 utc_text ids req d = Inr (row, d') \<and> db_ok d' \<and>
         windows d' = windows d @ [row] \<and> cw_id row = request_id uuid5 utc_text req \<and> cw_data row = wr_data req"
    if s: "wd_start (wr_data req) < wd_end (wr_data req)" "request_key req \<notin> set (map window_key (windows d))"
  proof -
    have new: "i \<notin> set (map cw_id (windows d))" using assms(3) s(2) unfolding i_def by (metis (no_types, lifting) image_iff list.set_map)
    have ok1: "windows_ok d1"
      using w(1) new s hw(2) key by (auto simp: windows_ok_def d1_def list_all_iff row_def)
    have old: "r \<in> set (findings d) \<Longrightarrow> fr_window_id r \<noteq> i" for r
      using w(1) new by (auto simp: windows_ok_def list_all_iff)
    let ?mac = "\<lambda>f. fd_source_mac (fr_data f) \<noteq> None"
    have "distinct (map row_group (filter ?mac (rows_of ids i (wr_findings req))))"
      by (rule distinct_map_filterI[OF rows_groups]) (use assms(2) in \<open>simp add: postable_def\<close>)
    moreover have "row_group ` set (filter ?mac (findings d)) \<inter>
        row_group ` set (filter ?mac (rows_of ids i (wr_findings req))) = {}"
    proof -
      have "row_group r \<noteq> row_group r'"
        if "r \<in> set (findings d)" "r' \<in> set (rows_of ids i (wr_findings req))" for r r'
        using old[OF that(1)] rows_of_maps(3)[OF that(2)] by (simp add: row_group_def)
      then show ?thesis unfolding set_filter by blast
    qed
    moreover have "distinct (map fr_id (findings d @ rows_of ids i (wr_findings req)))"
      using w(1) assms(2) by (auto simp: windows_ok_def postable_def rows_of_maps simp flip: set_map)
    ultimately have "windows_ok d2"
      using ok1 rows_of_maps(3)[of _ ids i "wr_findings req"]
      by (auto simp: windows_ok_def d2_def d1_def row_def list_all_iff)
    then have ok: "db_ok d1" "db_ok d2" using ok1 w(2,3) by (simp_all add: db_ok_def d2_def d1_def deployments_ok_def events_ok_def)
    have "create_window uuid5 utc_text ids req d = Inr (row, d2)"
      using s(1) new ok by (auto simp: create d2_def)
    then show ?thesis using ok(2) by (simp add: d2_def d1_def row_def i_def)
  qed
qed

text \<open>What holds after some attempts at a row, from the reporter \<open>l\<close> and the database \<open>d\<close>.\<close>

definition recorded :: "window_request \<Rightarrow> db \<Rightarrow> bool" where
  "recorded req d \<longleftrightarrow> request_key req \<in> set (map window_key (windows d))"

definition row_progress ::
  "(window_request \<Rightarrow> db \<Rightarrow> nat + capture_window \<times> db) \<Rightarrow> window_request \<Rightarrow> window_request reporter \<Rightarrow> db \<Rightarrow> nat
     \<Rightarrow> window_request reporter \<Rightarrow> db \<Rightarrow> bool" where
  "row_progress create req l d n l' d' \<longleftrightarrow>
     (d' = d \<or> (\<exists>row. create req d = Inr (row, d'))) \<and> lr_retries l' = lr_retries l \<and>
     (lr_thread l' = Busy (req, n) \<and> n \<le> lr_retries l \<and> row_settled l' = row_settled l \<and>
        lr_delivered l' + lr_duplicates l' = lr_delivered l + lr_duplicates l \<or>
      lr_thread l' = Idle \<and> row_settled l' = row_settled l + 1 \<and>
        (lr_delivered l' + lr_duplicates l' = lr_delivered l + lr_duplicates l \<or> recorded req d'))"

lemma row_posted_busy:
  assumes "lr_thread l = Busy (req, n)"
  shows "lr_retries (row_posted r l) = lr_retries l"
    "post_once r = Some Retry \<and> n < lr_retries l \<Longrightarrow>
       lr_thread (row_posted r l) = Busy (req, Suc n) \<and> row_settled (row_posted r l) = row_settled l \<and>
       lr_delivered (row_posted r l) + lr_duplicates (row_posted r l) = lr_delivered l + lr_duplicates l"
    "\<not> (post_once r = Some Retry \<and> n < lr_retries l) \<Longrightarrow>
       lr_thread (row_posted r l) = Idle \<and> row_settled (row_posted r l) = row_settled l + 1"
    "post_once r \<notin> {Some Delivered, Some Duplicate} \<Longrightarrow>
       lr_delivered (row_posted r l) + lr_duplicates (row_posted r l) = lr_delivered l + lr_duplicates l"
  by (simp_all add: row_posted_def assms row_settled_def Let_def split: option.split post_outcome.split)

lemma row_progress_step:
  assumes p: "row_progress create req l d n l' d'"
    and again: "\<And>row d1. create req d = Inr (row, d1) \<Longrightarrow> create req d1 = Inl 409 \<and> recorded req d1"
    and codes: "create req d \<in> {Inl 422, Inl 409} \<or> (\<exists>x. create req d = Inr x)"
    and dup: "create req d = Inl 409 \<Longrightarrow> recorded req d"
  shows "row_progress create req l d (Suc n) (fst (attempt_row create t (l', d'))) (snd (attempt_row create t (l', d')))"
proof (cases "lr_thread l' = Idle")
  case True
  then show ?thesis using p by (simp add: row_progress_def attempt_row_def)
next
  case False
  then have b: "lr_thread l' = Busy (req, n)" "n \<le> lr_retries l" "row_settled l' = row_settled l"
    "lr_delivered l' + lr_duplicates l' = lr_delivered l + lr_duplicates l" "lr_retries l' = lr_retries l"
    "d' = d \<or> (\<exists>row. create req d = Inr (row, d'))"
    using p by (auto simp: row_progress_def)
  have now: "create req d' = Inl 422 \<or> create req d' = Inl 409 \<and> recorded req d' \<or>
      (d' = d \<and> (\<exists>row d1. create req d = Inr (row, d1) \<and> recorded req d1))"
    using b(6)
  proof (elim disjE exE)
    assume "d' = d"
    then show ?thesis using codes dup again by (cases "create req d") auto
  next
    fix row assume "create req d = Inr (row, d')"
    then show ?thesis using again by blast
  qed
  obtain answer d2 where r: "request (create req) d' = (answer, d2)" by fastforce
  have d2: "d2 = d \<or> (\<exists>row. create req d = Inr (row, d2))"
    using now b(6) r by (elim disjE exE conjE) (simp_all add: request_def)
  have ans: "answer = Inl 422 \<or> answer = Inl 409 \<and> recorded req d2 \<or> (\<exists>w. answer = Inr w \<and> recorded req d2)"
    using now r by (elim disjE exE conjE) (auto simp: request_def)
  obtain r e where w: "post_window create t req d' = (r, e)" by fastforce
  have e: "e = d \<or> (\<exists>row. create req d = Inr (row, e))"
    using w r d2 b(6) by (cases t) (auto simp: post_window_def)
  have taken: "post_once r \<notin> {Some Delivered, Some Duplicate} \<or> recorded req e"
  proof (cases t)
    case Answered
    then show ?thesis using w r ans by (elim disjE exE conjE) (auto simp: post_window_def post_once_def)
  qed (use w r in \<open>auto simp: post_window_def post_once_def\<close>)
  have a: "attempt_row create t (l', d') = (row_posted r l', e)"
    by (simp add: attempt_row_def b(1) w reporter_step_def)
  note posted = row_posted_busy[OF b(1), of r]
  show ?thesis
  proof (cases "post_once r = Some Retry \<and> n < lr_retries l'")
    case True
    then show ?thesis using a e b(2-5) posted(1,2) by (simp add: row_progress_def)
  next
    case False
    then show ?thesis
      using a e b(2-5) posted(1,3,4) taken by (auto simp: row_progress_def)
  qed
qed

lemma row_progress_all:
  assumes "lr_thread l = Busy (req, 0)"
    and "\<And>row d1. create req d = Inr (row, d1) \<Longrightarrow> create req d1 = Inl 409 \<and> recorded req d1"
    and "create req d \<in> {Inl 422, Inl 409} \<or> (\<exists>x. create req d = Inr x)"
    and "create req d = Inl 409 \<Longrightarrow> recorded req d"
  shows "row_progress create req l d (length trips)
    (fst (fold (attempt_row create) trips (l, d))) (snd (fold (attempt_row create) trips (l, d)))"
proof (induction trips rule: rev_induct)
  case Nil
  then show ?case using assms(1) by (simp add: row_progress_def)
next
  case (snoc t trips)
  then show ?case using row_progress_step[where t = t, OF snoc.IH assms(2-4)] by simp
qed

lemma filter_key_one: "distinct (map f xs) \<Longrightarrow> v \<in> set (map f xs) \<Longrightarrow> length (filter (\<lambda>x. f x = v) xs) = 1"
  using one_or_none_unique[of f xs v] find_key_None[of f v xs]
  by (auto simp: one_or_none_def split: list.splits)

lemma create_again:
  assumes "wd_start (wr_data req) < wd_end (wr_data req)" "windows d1 = windows d @ [row]"
    "cw_id row = request_id uuid5 utc_text req"
  shows "create_window uuid5 utc_text ids req d1 = Inl 409"
  using assms by (simp add: create_window_def request_id_def Let_def)

text \<open>C7: A capture window the reporter posts, over a network that may lose requests and answers and a
  ledger that may fail, is recorded at most once, and exactly once if the reporter counts it as delivered
  or duplicate; the row is settled once and after retries + 1 attempts at the latest.\<close>
theorem window_recorded_once:
  assumes "db_ok d" "postable ids req d" "lr_thread l = Busy (req, 0)"
    "\<forall>w \<in> set (windows d). cw_id w = request_id uuid5 utc_text req \<longrightarrow> window_key w = request_key req"
    "fold (attempt_row (create_window uuid5 utc_text ids)) trips (l, d) = (l', d')"
  shows "db_ok d' \<and>
    (windows d' = windows d \<or> (\<exists>row. windows d' = windows d @ [row] \<and> cw_data row = wr_data req)) \<and>
    (lr_thread l' = Idle \<longrightarrow> row_settled l' = row_settled l + 1) \<and>
    (lr_retries l < length trips \<longrightarrow> lr_thread l' = Idle) \<and>
    (lr_delivered l + lr_duplicates l < lr_delivered l' + lr_duplicates l' \<longrightarrow>
       length (filter (\<lambda>w. window_key w = request_key req) (windows d')) = 1)"
proof -
  let ?create = "create_window uuid5 utc_text ids"
  note c = create_window_cases[OF assms(1,2,4)]
  have made: "db_ok d1 \<and> (\<exists>row. windows d1 = windows d @ [row] \<and> cw_data row = wr_data req) \<and>
      ?create req d1 = Inl 409 \<and> recorded req d1" if r: "?create req d = Inr (row, d1)" for row d1
  proof -
    have s: "wd_start (wr_data req) < wd_end (wr_data req)" "request_key req \<notin> set (map window_key (windows d))"
      using c(1,2) r by force+
    show ?thesis
      using c(3)[OF s] r create_again[OF s(1), of d1 d row uuid5 utc_text]
      by (auto simp: recorded_def window_key_def request_key_def)
  qed
  have codes: "?create req d \<in> {Inl 422, Inl 409} \<or> (\<exists>x. ?create req d = Inr x)"
    "?create req d = Inl 409 \<Longrightarrow> recorded req d"
    by (cases "wd_start (wr_data req) < wd_end (wr_data req)";
        cases "request_key req \<in> set (map window_key (windows d))"; use c in \<open>force simp: recorded_def not_less\<close>)+
  have p: "row_progress ?create req l d (length trips) l' d'"
    using row_progress_all[of l req ?create d trips] assms(3,5) codes made by auto
  then have d': "db_ok d' \<and> (windows d' = windows d \<or> (\<exists>row. windows d' = windows d @ [row] \<and> cw_data row = wr_data req))"
    using assms(1) made unfolding row_progress_def by blast
  then have "recorded req d' \<Longrightarrow> length (filter (\<lambda>w. window_key w = request_key req) (windows d')) = 1"
    unfolding recorded_def by (intro filter_key_one) (simp_all add: db_ok_def windows_ok_def)
  then show ?thesis using p d' by (auto simp: row_progress_def)
qed

section \<open>Capture status\<close>

text \<open>The instants of an event's span that a window covers, and windows that do not overlap.\<close>

definition seen_by :: "event_row \<Rightarrow> capture_window \<Rightarrow> instant set" where
  "seen_by e w = {max (wd_start (cw_data w)) (span_start e)..<min (wd_end (cw_data w)) (ev_ts e)}"

definition apart :: "capture_window \<Rightarrow> capture_window \<Rightarrow> bool" where
  "apart v w \<longleftrightarrow> wd_end (cw_data v) \<le> wd_start (cw_data w) \<or> wd_end (cw_data w) \<le> wd_start (cw_data v)"

definition blind_at :: "event_row \<Rightarrow> capture_window list \<Rightarrow> instant \<Rightarrow> bool" where
  "blind_at e ws t \<longleftrightarrow> span_start e \<le> t \<and> t < ev_ts e \<and>
     \<not> (\<exists>w \<in> set ws. cw_hardware_id w = Some (ev_hardware_id e) \<and> wd_complete (cw_data w) \<and>
          wd_start (cw_data w) \<le> t \<and> t < wd_end (cw_data w))"

lemma seen_by_card:
  assumes "joins e w" "span_start e \<le> ev_ts e" "wd_start (cw_data w) < wd_end (cw_data w)"
  shows "int (card (seen_by e w)) = overlap e w"
  using assms by (simp add: seen_by_def joins_def overlap_def)

lemma seen_by_sum:
  assumes "span_start e \<le> ev_ts e"
  shows "list_all (joins e) ws \<Longrightarrow> list_all (\<lambda>w. wd_start (cw_data w) < wd_end (cw_data w)) ws \<Longrightarrow>
    sorted_wrt apart ws \<Longrightarrow> int (card (\<Union>w \<in> set ws. seen_by e w)) = sum_list (map (overlap e) ws)"
proof (induction ws)
  case (Cons w ws)
  have "seen_by e w \<inter> (\<Union>v \<in> set ws. seen_by e v) = {}"
    using Cons.prems(3) by (fastforce simp: apart_def seen_by_def)
  then have "card (seen_by e w \<union> (\<Union>v \<in> set ws. seen_by e v)) = card (seen_by e w) + card (\<Union>v \<in> set ws. seen_by e v)"
    by (intro card_Un_disjoint) (simp_all add: seen_by_def)
  then show ?case using Cons seen_by_card[OF _ assms, of w] by simp
qed simp

lemma blind_set:
  assumes "list_all (wd_complete \<circ> cw_data) (filter (joins e) ws)"
  shows "{t. blind_at e ws t} \<subseteq> {span_start e..<ev_ts e} - (\<Union>w \<in> set (filter (joins e) ws). seen_by e w)"
proof
  fix t assume t: "t \<in> {t. blind_at e ws t}"
  then have s: "t \<in> {span_start e..<ev_ts e}" by (simp add: blind_at_def)
  have "t \<notin> seen_by e w" if "w \<in> set ws" "joins e w" for w
    using t that assms by (auto simp: blind_at_def seen_by_def joins_def list_all_iff)
  then show "t \<in> {span_start e..<ev_ts e} - (\<Union>w \<in> set (filter (joins e) ws). seen_by e w)"
    using s by auto
qed

text \<open>C20: Where the windows of a node do not overlap, an inference event of capture status complete has at
  most a millisecond of its span outside the complete windows.\<close>
theorem complete_means_covered:
  assumes "fst (capture_row e ws) = Complete"
    "list_all (\<lambda>w. wd_start (cw_data w) < wd_end (cw_data w)) ws"
    "sorted_wrt apart (filter (\<lambda>w. cw_hardware_id w = Some (ev_hardware_id e)) ws)"
  shows "card {t. blind_at e ws t} \<le> 1000"
proof (cases "span_start e \<le> ev_ts e")
  case True
  let ?js = "filter (joins e) ws" and ?seen = "\<Union>w \<in> set (filter (joins e) ws). seen_by e w"
  have c: "list_all (wd_complete \<circ> cw_data) ?js" "ev_ts e - span_start e \<le> sum_list (map (overlap e) ?js) + 1000"
    using assms(1) by (auto simp: capture_row_def Let_def not_less split: if_splits)
  have "?js = filter (joins e) (filter (\<lambda>w. cw_hardware_id w = Some (ev_hardware_id e)) ws)"
    by (auto simp: joins_def intro!: filter_cong)
  then have "sorted_wrt apart ?js" using sorted_wrt_filter[OF assms(3), of "joins e"] by metis
  then have s: "int (card ?seen) = sum_list (map (overlap e) ?js)"
    using assms(2) by (intro seen_by_sum[OF True]) (auto simp: list_all_iff)
  have "?seen \<subseteq> {span_start e..<ev_ts e}" by (auto simp: seen_by_def)
  then have "card ({span_start e..<ev_ts e} - ?seen) = card {span_start e..<ev_ts e} - card ?seen"
    by (intro card_Diff_subset) (auto simp: seen_by_def)
  moreover have "card {t. blind_at e ws t} \<le> card ({span_start e..<ev_ts e} - ?seen)"
    by (rule card_mono[OF _ blind_set[OF c(1)]]) simp
  ultimately show ?thesis using s c(2) by simp
next
  case False
  then have "{t. blind_at e ws t} = {}" by (auto simp: blind_at_def)
  then show ?thesis by simp
qed

text \<open>Two capture hosts on one node: each row covers the first half of the span.\<close>

definition sample_event :: event_row where
  "sample_event = \<lparr>ev_id = uni ''e'', ev_session_id = uni ''s'', ev_ts = 10000000, ev_started_at = Some 0,
     ev_model_id = uni ''m'', ev_input_raw_logits = None, ev_output_raw_logits = None,
     ev_hash_input_raw_logits = [], ev_hash_output_raw_logits = [], ev_input_text = None, ev_output_text = None,
     ev_hardware_id = uni ''h'', ev_pod_name = None, ev_node_name = None\<rparr>"

definition sample_window :: "string \<Rightarrow> instant \<Rightarrow> instant \<Rightarrow> capture_window" where
  "sample_window host a b = \<lparr>cw_id = uni host, cw_hardware_id = Some (uni ''h''), cw_data =
     \<lparr>wd_capture_host = uni host, wd_ifaces = uni ''eth0'', wd_start = a, wd_end = b, wd_tap_version = [],
      wd_process_epoch = None, wd_observed = 0, wd_classified = 0, wd_kernel_dropped = 0, wd_truncated = 0,
      wd_errors = 0, wd_finding_count = 0, wd_finding_groups = 0, wd_finding_groups_overflow = 0,
      wd_complete = True, wd_classes = JDict [], wd_pins = JDict []\<rparr>\<rparr>"

lemma sample_simps [simp]:
  "ev_ts sample_event = 10000000" "span_start sample_event = 0" "ev_hardware_id sample_event = uni ''h''"
  "cw_hardware_id (sample_window n a b) = Some (uni ''h'')" "wd_start (cw_data (sample_window n a b)) = a"
  "wd_end (cw_data (sample_window n a b)) = b" "wd_complete (cw_data (sample_window n a b)) = True"
  "wd_kernel_dropped (cw_data (sample_window n a b)) = 0" "wd_finding_count (cw_data (sample_window n a b)) = 0"
  by (simp_all add: sample_event_def sample_window_def span_start_def)

theorem complete_means_covered_witness:
  "card {t. blind_at sample_event [sample_window ''a'' 0 4000000, sample_window ''a'' 4000000 9999500] t} \<le> 1000"
  by (rule complete_means_covered) (simp_all add: capture_row_def joins_def overlap_def apart_def)

text \<open>C38: Where the windows of a node do overlap, as those of several capture hosts on it, that is not so: the
  overlaps with the span are added up, whatever part of it they cover. For every event and every group of
  complete windows of its node that end at the same instant inside the span and begin before it, the event is
  complete as soon as there are enough of them to make up the span's length, and no window covers any
  instant of the rest of the span: two hosts hide a blind second half, ten hosts nine tenths.\<close>

theorem taps_hide_a_gap:
  assumes "ws \<noteq> []" "span_start e < u" "u \<le> ev_ts e"
    and w: "\<And>w. w \<in> set ws \<Longrightarrow> cw_hardware_id w = Some (ev_hardware_id e) \<and> wd_complete (cw_data w) \<and>
      wd_start (cw_data w) \<le> span_start e \<and> wd_end (cw_data w) = u"
    and long: "ev_ts e - span_start e \<le> int (length ws) * (u - span_start e)"
  shows "fst (capture_row e ws) = Complete \<and> {t. blind_at e ws t} = {u..<ev_ts e}"
proof -
  have "joins e w \<and> overlap e w = u - span_start e" if "w \<in> set ws" for w
    using w[OF that] assms(2,3) by (simp add: joins_def overlap_def)
  then have f: "filter (joins e) ws = ws" and m: "map (overlap e) ws = map (\<lambda>_. u - span_start e) ws"
    by (simp_all add: filter_id_conv)
  moreover have "list_all (wd_complete \<circ> cw_data) ws" using w by (simp add: list_all_iff)
  moreover have "sum_list (map (overlap e) ws) = int (length ws) * (u - span_start e)"
    unfolding m by (simp add: sum_list_triv)
  ultimately have "fst (capture_row e ws) = Complete"
    using assms(1) long by (simp add: capture_row_def Let_def f)
  moreover have blind: "blind_at e ws t \<longleftrightarrow> u \<le> t \<and> t < ev_ts e" for t
  proof
    assume b: "blind_at e ws t"
    obtain v where v: "v \<in> set ws" using assms(1) by (cases ws) auto
    from b w[OF v] v have "\<not> (wd_start (cw_data v) \<le> t \<and> t < u)" "span_start e \<le> t" "t < ev_ts e"
      unfolding blind_at_def by blast+
    then show "u \<le> t \<and> t < ev_ts e" using w[OF v] by simp
  next
    assume t: "u \<le> t \<and> t < ev_ts e"
    have "\<not> (\<exists>v \<in> set ws. cw_hardware_id v = Some (ev_hardware_id e) \<and> wd_complete (cw_data v) \<and>
        wd_start (cw_data v) \<le> t \<and> t < wd_end (cw_data v))"
    proof
      assume "\<exists>v \<in> set ws. cw_hardware_id v = Some (ev_hardware_id e) \<and> wd_complete (cw_data v) \<and>
          wd_start (cw_data v) \<le> t \<and> t < wd_end (cw_data v)"
      then obtain v where v: "v \<in> set ws" "t < wd_end (cw_data v)" by blast
      show False using v(2) w[OF v(1)] t by simp
    qed
    then show "blind_at e ws t" using t assms(2) by (simp add: blind_at_def)
  qed
  moreover have "{t. blind_at e ws t} = {u..<ev_ts e}" unfolding blind by (rule set_eqI) simp
  ultimately show ?thesis by blast
qed

theorem taps_hide_a_gap_witness:
  "fst (capture_row sample_event [sample_window ''a'' 0 5000000, sample_window ''b'' 0 5000000]) = Complete \<and>
   {t. blind_at sample_event [sample_window ''a'' 0 5000000, sample_window ''b'' 0 5000000] t} =
     {5000000..<ev_ts sample_event}"
  by (rule taps_hide_a_gap) auto

section \<open>Owners\<close>

lemma one_or_none_two:
  assumes "x \<in> set xs" "y \<in> set xs" "x \<noteq> y"
  shows "one_or_none xs = Inl 500"
proof (cases xs)
  case (Cons a ys)
  then show ?thesis using assms by (cases ys) (auto simp: one_or_none_def)
qed (use assms in simp)

lemma ensure_hardware_owners:
  assumes "ensure_hardware ids req d = Inr (h, d')"
  shows "owners d' = owners d"
proof -
  obtain found where "one_or_none (filter (\<lambda>h. hw_hostname h = dr_hostname req) (hardwares d)) = Inr found"
    using assms by (auto simp: ensure_hardware_def try_then_Inr)
  then show ?thesis
    using assms by (cases found) (auto simp: ensure_hardware_def create_hardware_def try_then_Inr flush_iff)
qed

text \<open>C37: The ledger accepts a second owner of a name, and from then on refuses every declaration that gives
  this name.\<close>
theorem shared_owner_name_blocks:
  assumes "db_ok d" "w \<in> set (owners d)" "ow_organisation_name w \<noteq> []" "i \<notin> set (map ow_id (owners d))"
  shows "\<exists>v d'. create_owner \<lparr>ow_id = i, ow_organisation_name = ow_organisation_name w, ow_is_trusted = False\<rparr> d = Inr (v, d') \<and>
    db_ok d' \<and>
    (\<forall>uuid5 ids now req. dr_owner_name req \<noteq> Some (ow_organisation_name w) \<or>
       (\<exists>code. declare_deployment uuid5 ids now req d' = Inl code))"
proof -
  define v where "v = \<lparr>ow_id = i, ow_organisation_name = ow_organisation_name w, ow_is_trusted = False\<rparr>"
  define d' where "d' = d\<lparr>owners := owners d @ [v]\<rparr>"
  have "deployments_ok d'"
    using db_ok_parts(1)[OF assms(1)] assms(4)
    by (auto simp: deployments_ok_def d'_def v_def list_all_iff intro: refers_append)
  then have ok: "db_ok d'" by (rule db_ok_more[OF assms(1)]) (simp_all add: d'_def)
  then have c: "create_owner v d = Inr (v, d')" by (simp add: create_owner_def d'_def)
  have "\<exists>code. declare_deployment uuid5 ids now req d' = Inl code"
    if r: "dr_owner_name req = Some (ow_organisation_name w)" for uuid5 ids now req
  proof (cases "ensure_hardware ids req d'")
    case (Inl code)
    then show ?thesis by (simp add: declare_deployment_def Let_def)
  next
    case (Inr x)
    then obtain h e where e: "ensure_hardware ids req d' = Inr (h, e)" by (cases x) auto
    have "owners e = owners d @ [v]" using ensure_hardware_owners[OF e] by (simp add: d'_def)
    moreover have "ow_id w \<noteq> ow_id v" using assms(2,4) by (auto simp: v_def)
    then have "w \<noteq> v" by auto
    ultimately have "one_or_none (filter (\<lambda>x. ow_organisation_name x = ow_organisation_name w) (owners e)) = Inl 500"
      using assms(2) by (intro one_or_none_two[of w _ v]) (auto simp: v_def)
    moreover have "str_or (dr_owner_name req) None = Some (ow_organisation_name w)"
      using r assms(3) by (cases "ow_organisation_name w") (simp_all add: str_or_def)
    ultimately have "link_owner ids req h e = Inl 500" by (simp add: link_owner_def)
    then show ?thesis by (simp add: declare_deployment_def e Let_def)
  qed
  then show ?thesis using ok c v_def by blast
qed

section \<open>The queue of verification\<close>

definition waits :: "ustr \<Rightarrow> db \<Rightarrow> bool" where
  "waits i d \<longleftrightarrow> i \<in> set (map (ev_id \<circ> fst) (unverified None None d))"

lemma waits_iff:
  assumes "db_ok d"
  shows "waits i d \<longleftrightarrow> i \<in> set (map ev_id (events d)) \<and> i \<notin> set (map vr_inference_event_id (verifications d))"
proof -
  have m: "\<exists>m \<in> set (models d). md_id m = ev_model_id e" if "e \<in> set (events d)" for e
    using db_ok_parts(3)[OF assms] that by (force simp: events_ok_def list_all_iff)
  show ?thesis
    unfolding waits_def unverified_def using m by (fastforce simp: image_iff)
qed

text \<open>Recording a verdict takes its event, and no other, off the queue of events waiting for verification.\<close>
theorem verdict_leaves_queue:
  assumes "db_ok d" "create_verification v d = Inr (x, d')"
  shows "waits i d' \<longleftrightarrow> waits i d \<and> i \<noteq> vr_inference_event_id v"
proof -
  have d': "d' = d\<lparr>verifications := verifications d @ [v]\<rparr>" "db_ok d'"
    using assms(2) by (auto simp: create_verification_def try_then_Inr flush_iff)
  show ?thesis by (auto simp: waits_iff assms(1) d'(2)) (auto simp: d'(1))
qed

lemma fewer_verifications_ok:
  assumes "db_ok d"
  shows "db_ok (d\<lparr>verifications := filter P (verifications d)\<rparr>)"
  using assms by (auto simp: db_ok_def deployments_ok_def windows_ok_def events_ok_def list_all_iff
      intro: distinct_map_filterI)

lemma delete_orphaned_ok:
  assumes "db_ok d"
  shows "db_ok (delete_orphaned ids d)"
proof -
  have e: "events_ok d" by (rule db_ok_parts(3)[OF assms])
  have "vr_inference_event_id v \<in> ev_id ` {e \<in> set (events d). ev_id e \<notin> set ids \<or>
      ev_id e \<in> set (map vr_inference_event_id (verifications d))}" if "v \<in> set (verifications d)" for v
  proof -
    obtain x where "x \<in> set (events d)" "vr_inference_event_id v = ev_id x"
      using e \<open>v \<in> _\<close> by (auto simp: events_ok_def list_all_iff)
    then show ?thesis using that by (intro image_eqI[of _ _ x]) (auto intro!: image_eqI[of _ _ v])
  qed
  then have "events_ok (delete_orphaned ids d)"
    using e by (auto simp: events_ok_def delete_orphaned_def Let_def list_all_iff intro: distinct_map_filterI)
  then show ?thesis
    using assms by (simp add: db_ok_def deployments_ok_def windows_ok_def delete_orphaned_def Let_def)
qed

text \<open>Deleting verdicts changes the queue of verification in nothing and leaves no dangling reference;
  replaying them puts exactly the events back all of whose verdicts were replayed.\<close>
theorem deleting_and_replaying:
  assumes "db_ok d"
  shows "db_ok (snd (delete_all matching d)) \<and> db_ok (snd (replay_all matching d)) \<and>
    (waits i (snd (delete_all matching d)) \<longleftrightarrow> waits i d) \<and>
    (waits i (snd (replay_all matching d)) \<longleftrightarrow> i \<in> set (map ev_id (events d)) \<and>
       list_all (\<lambda>v. matching v \<or> vr_inference_event_id v \<noteq> i) (verifications d)) \<and>
    fst (delete_all matching d) = fst (replay_all matching d)"
proof -
  let ?e = "d\<lparr>verifications := filter (\<lambda>v. \<not> matching v) (verifications d)\<rparr>"
  have ok: "db_ok ?e" "db_ok (snd (delete_all matching d))"
    using fewer_verifications_ok[OF assms] by (simp_all add: delete_all_def Let_def delete_orphaned_ok)
  have del: "snd (delete_all matching d) = delete_orphaned (map vr_inference_event_id (filter matching (verifications d))) ?e"
    by (simp add: delete_all_def Let_def)
  have rep: "snd (replay_all matching d) = ?e" by (simp add: replay_all_def)
  have "waits i (snd (delete_all matching d)) \<longleftrightarrow> waits i d"
    unfolding waits_iff[OF ok(2)] waits_iff[OF assms]
    by (auto simp: del delete_orphaned_def Let_def image_iff)
  moreover have "waits i ?e \<longleftrightarrow> i \<in> set (map ev_id (events d)) \<and>
       list_all (\<lambda>v. matching v \<or> vr_inference_event_id v \<noteq> i) (verifications d)"
    unfolding waits_iff[OF ok(1)] by (auto simp: list_all_iff image_iff)
  ultimately show ?thesis using ok by (simp add: rep) (simp add: delete_all_def replay_all_def Let_def)
qed

section \<open>A small ledger\<close>

definition sample_model :: "string \<Rightarrow> model_config" where
  "sample_model n = \<lparr>mc_model_name = uni n, mc_temperature = None, mc_top_k = None, mc_top_p = None,
     mc_seed = Some 42, mc_decoding_algorithm = None\<rparr>"

definition sample_db :: db where
  "sample_db = empty_db\<lparr>
     owners := [\<lparr>ow_id = uni ''w'', ow_organisation_name = uni ''prover'', ow_is_trusted = False\<rparr>],
     hardwares := [\<lparr>hw_id = uni ''h'', hw_hostname = uni ''node'', hw_gpu_product_id = None,
       hw_cpu_product_id = None, hw_owner_id = None, hw_gpu_firmware_version = None\<rparr>],
     models := [\<lparr>md_id = uni ''m'', md_config = sample_model ''a'', md_verification_threshold = None,
       md_delta_max = None\<rparr>],
     deployments := [\<lparr>dp_id = uni ''p'', dp_model_id = uni ''m'', dp_hardware_id = uni ''h'',
       dp_started_at = 3, dp_ended_at = None\<rparr>],
     events := [sample_event]\<rparr>"

lemma sample_db_ok: "db_ok sample_db"
  by (simp add: db_ok_def deployments_ok_def windows_ok_def events_ok_def sample_db_def empty_db_def
      sample_event_def refers_def is_active_def)

definition sample_ids :: fresh_ids where
  "sample_ids = \<lparr>fi_hardware = uni ''h2'', fi_owner = uni ''w2'', fi_deployment = uni ''p2''\<rparr>"

definition sample_declaration :: declare_req where
  "sample_declaration = \<lparr>dr_hostname = uni ''node'', dr_gpu_product_id = None, dr_cpu_product_id = None,
     dr_owner_id = None, dr_owner_name = Some (uni ''prover''), dr_gpu_firmware_version = None,
     dr_config = sample_model ''b'', dr_started_at = Some 5\<rparr>"

theorem declared_from_then_on_witness:
  "\<exists>p d'. declare_deployment (\<lambda>_. uni ''m2'') sample_ids 0 sample_declaration sample_db = Inr (p, d') \<and>
     dp_model_id p = uni ''m2'' \<and>
     resolve_deployment (uni ''node'') 4 None d' = resolve_deployment (uni ''node'') 4 None sample_db \<and>
     resolve_deployment (uni ''node'') 6 None d' = resolved_by d' (dp_hardware_id p) None (Some p)"
proof -
  obtain p d' where "declare_deployment (\<lambda>_. uni ''m2'') sample_ids 0 sample_declaration sample_db = Inr (p, d')"
    "dp_model_id p = derive_model_id (\<lambda>_. uni ''m2'') (dr_config sample_declaration)"
    "\<forall>host ts name. resolve_deployment host ts name d' =
       (if host = dr_hostname sample_declaration \<and> 5 \<le> ts then resolved_by d' (dp_hardware_id p) name (Some p)
        else resolve_deployment host ts name sample_db)"
    using declared_from_then_on[of sample_db sample_ids sample_declaration 5 "\<lambda>_. uni ''m2''" 0] sample_db_ok
    by (auto simp: sample_db_def empty_db_def sample_ids_def sample_declaration_def refers_def over_by_def uni_def)
  then show ?thesis by (auto simp: derive_model_id_def sample_declaration_def)
qed

theorem closed_from_then_on_witness:
  "\<exists>p d'. close_deployment (uni ''node'') (Some 7) 0 sample_db = Inr (p, d') \<and>
     resolve_deployment (uni ''node'') 7 None d' = Inl 404 \<and>
     resolve_deployment (uni ''node'') 6 None d' = resolve_deployment (uni ''node'') 6 None sample_db"
  using closed_from_then_on[of sample_db "uni ''node''" "hd (hardwares sample_db)" "hd (deployments sample_db)" 7 0]
    sample_db_ok
  by (auto simp: sample_db_def empty_db_def over_by_def is_active_def)

definition sample_post :: window_request where
  "sample_post = \<lparr>wr_tapped_hostname = Some (uni ''node''), wr_data = cw_data (sample_window ''a'' 0 60),
     wr_findings = []\<rparr>"

definition sample_reporter :: "window_request reporter" where
  "sample_reporter = (new_reporter 3 64)\<lparr>lr_thread := Busy (sample_post, 0), lr_submitted := 1\<rparr>"

theorem window_recorded_once_witness:
  "\<exists>l d. fold (attempt_row (create_window id (\<lambda>_. []) (\<lambda>_. []))) [Request_lost, Answer_lost, Server_failed 3, Answered]
       (sample_reporter, sample_db) = (l, d) \<and> db_ok d \<and> lr_thread l = Idle"
proof -
  obtain l d where r: "fold (attempt_row (create_window id (\<lambda>_. []) (\<lambda>_. [])))
      [Request_lost, Answer_lost, Server_failed 3, Answered] (sample_reporter, sample_db) = (l, d)" by fastforce
  have "lr_retries sample_reporter = 3" by (simp add: sample_reporter_def new_reporter_def)
  moreover have "postable (\<lambda>_. []) sample_post sample_db"
    by (simp add: postable_def sample_post_def)
  ultimately show ?thesis
    using window_recorded_once[OF sample_db_ok _ _ _ r, of sample_post] r
    by (auto simp: sample_reporter_def sample_db_def empty_db_def)
qed

theorem shared_owner_name_blocks_witness:
  "\<exists>v d. create_owner \<lparr>ow_id = uni ''w2'', ow_organisation_name = uni ''prover'', ow_is_trusted = False\<rparr> sample_db =
       Inr (v, d) \<and> (\<exists>code. declare_deployment (\<lambda>_. uni ''m2'') sample_ids 0 sample_declaration d = Inl code)"
  using shared_owner_name_blocks[of sample_db "hd (owners sample_db)" "uni ''w2''"] sample_db_ok
  by (fastforce simp: sample_db_def empty_db_def sample_declaration_def uni_def)

definition sample_verdict :: verification_row where
  "sample_verdict = \<lparr>vr_id = uni ''v'', vr_inference_event_id = uni ''e'', vr_hardware_id = uni ''h'',
     vr_verifier_model_id = uni ''m'', vr_ts = 20000000, vr_started_at = None, vr_result = Some Pass,
     vr_result_detail = None, vr_error_code = None, vr_verification_threshold = None,
     vr_logit_difference_margins = None, vr_mean_logit_difference = None, vr_std_dev_logit_difference = None,
     vr_verifier_raw_logits = None, vr_exact_match_level_pct = None, vr_verifier_detail = JNull,
     vr_pod_name = None, vr_node_name = None\<rparr>"

lemma sample_verdict_created:
  "create_verification sample_verdict sample_db =
     Inr (sample_verdict, sample_db\<lparr>verifications := verifications sample_db @ [sample_verdict]\<rparr>)"
proof -
  have "db_ok (sample_db\<lparr>verifications := verifications sample_db @ [sample_verdict]\<rparr>)"
    by (simp add: db_ok_def deployments_ok_def windows_ok_def events_ok_def sample_db_def empty_db_def
        sample_event_def refers_def is_active_def sample_verdict_def)
  then show ?thesis by (simp add: create_verification_def)
qed

theorem verdict_leaves_queue_witness:
  "waits (uni ''e'') sample_db \<and>
   \<not> waits (uni ''e'') (sample_db\<lparr>verifications := verifications sample_db @ [sample_verdict]\<rparr>)"
  using verdict_leaves_queue[OF sample_db_ok sample_verdict_created, of "uni ''e''"] waits_iff[OF sample_db_ok, of "uni ''e''"]
  by (simp add: sample_db_def empty_db_def sample_event_def sample_verdict_def)

theorem deleting_and_replaying_witness:
  "fst (delete_all (\<lambda>v. True) sample_db) = fst (replay_all (\<lambda>v. True) sample_db) \<and>
   waits (uni ''e'') (snd (replay_all (\<lambda>v. True) sample_db))"
  using deleting_and_replaying[OF sample_db_ok, of "\<lambda>v. True" "uni ''e''"]
  by (simp add: sample_db_def empty_db_def sample_event_def)

end
