(* ===== verification/Suite.thy ===== *)
theory Suite
  imports Extract Naming
begin

text \<open>
  The prompt suite of the prompt runner (\<^verbatim>\<open>prompt-runner/app/core.py\<close>): the presets and their expansion, the
  prompts made from the records of the datasets, the sampling configurations, the numbered requests, and the
  body sent for one.

  The package promptbench, which loads a dataset by its name, is an argument, as are the texts Python gives
  floats (\<open>repr\<close> of \<open>Extract.str_of\<close>, and \<open>%.6g\<close>). A dataset answers an index with a record or raises.
\<close>

section \<open>Presets\<close>

record promptbench_spec =
  sp_prompt_id :: ustr
  sp_dataset :: ustr
  sp_dataset_index :: nat
  sp_template :: ustr
  sp_system_prompt :: ustr
  sp_attack :: "ustr option"

definition VERIFICATION_V1 :: "promptbench_spec list" where
  "VERIFICATION_V1 =
    [
     \<lparr>sp_prompt_id = uni ''pb-sst2-0000-baseline'', sp_dataset = uni ''sst2'', sp_dataset_index = 0,
      sp_template = uni (
        ''Classify the sentiment of the text as positive or negative.'' @ [CHR 0x0A, CHR 0x0A] @
        ''Text: '' @
        ''{content}'' @ [CHR 0x0A, CHR 0x0A] @
        ''Answer with exactly one label: positive or negative.''),
      sp_system_prompt = uni (
        ''You are a precise sentiment classification assistant.''),
      sp_attack = None\<rparr>,
     \<lparr>sp_prompt_id = uni ''pb-sst2-0001-stresstest'', sp_dataset = uni ''sst2'', sp_dataset_index = 1,
      sp_template = uni (
        ''Classify the sentiment of the text as positive or negative.'' @ [CHR 0x0A, CHR 0x0A] @
        ''Text: '' @
        ''{content}'' @ [CHR 0x0A, CHR 0x0A] @
        ''Answer with exactly one label: positive or negative.''),
      sp_system_prompt = uni (
        ''You are a precise sentiment classification assistant.''),
      sp_attack = Some (uni ''stresstest'')\<rparr>,
     \<lparr>sp_prompt_id = uni ''pb-cola-0000-baseline'', sp_dataset = uni ''cola'', sp_dataset_index = 0,
      sp_template = uni (
        ''Decide whether the sentence is grammatically acceptable.'' @ [CHR 0x0A, CHR 0x0A] @
        ''Sentence: '' @
        ''{content}'' @ [CHR 0x0A, CHR 0x0A] @
        ''Answer with exactly one label: acceptable or unacceptable.''),
      sp_system_prompt = uni (
        ''You are a precise grammar acceptability assistant.''),
      sp_attack = None\<rparr>,
     \<lparr>sp_prompt_id = uni ''pb-cola-0001-semantic'', sp_dataset = uni ''cola'', sp_dataset_index = 1,
      sp_template = uni (
        ''Decide whether the sentence is grammatically acceptable.'' @ [CHR 0x0A, CHR 0x0A] @
        ''Sentence: '' @
        ''{content}'' @ [CHR 0x0A, CHR 0x0A] @
        ''Answer with exactly one label: acceptable or unacceptable.''),
      sp_system_prompt = uni (
        ''You are a precise grammar acceptability assistant.''),
      sp_attack = Some (uni ''semantic'')\<rparr>,
     \<lparr>sp_prompt_id = uni ''pb-gsm8k-0000-baseline'', sp_dataset = uni ''gsm8k'', sp_dataset_index = 0,
      sp_template = uni (
        ''Solve the math word problem. Show the calculation briefly, then give the final '' @
        ''answer.'' @ [CHR 0x0A, CHR 0x0A] @
        ''Problem: '' @
        ''{content}''),
      sp_system_prompt = uni (
        ''You are a careful arithmetic reasoning assistant.''),
      sp_attack = None\<rparr>,
     \<lparr>sp_prompt_id = uni ''pb-gsm8k-0001-checklist'', sp_dataset = uni ''gsm8k'', sp_dataset_index = 1,
      sp_template = uni (
        ''Solve the math word problem. Show the calculation briefly, then give the final '' @
        ''answer.'' @ [CHR 0x0A, CHR 0x0A] @
        ''Problem: '' @
        ''{content}''),
      sp_system_prompt = uni (
        ''You are a careful arithmetic reasoning assistant.''),
      sp_attack = Some (uni ''checklist'')\<rparr>]"

definition LONG_OUTPUT_V1 :: "promptbench_spec list" where
  "LONG_OUTPUT_V1 =
    [
     \<lparr>sp_prompt_id = uni ''pb-gsm8k-long-0000-tutorial'', sp_dataset = uni ''gsm8k'', sp_dataset_index = 0,
      sp_template = uni (
        ''Solve the math word problem step by step. Then write a full tutorial on it: explain '' @
        ''every mathematical concept the solution uses, describe the most common mistakes '' @
        ''students make on problems like this, and present two alternative solution paths in '' @
        ''detail.'' @ [CHR 0x0A, CHR 0x0A] @
        ''Problem: '' @
        ''{content}'' @ [CHR 0x0A, CHR 0x0A] @
        ''Write a thorough, detailed response of at least 1200 words.''),
      sp_system_prompt = uni (
        ''You are a thorough mathematics tutor who writes comprehensive, long-form '' @
        ''explanations.''),
      sp_attack = None\<rparr>,
     \<lparr>sp_prompt_id = uni ''pb-gsm8k-long-0001-teaching'', sp_dataset = uni ''gsm8k'', sp_dataset_index = 1,
      sp_template = uni (
        ''Solve the math word problem. Then explain the solution three times: once for a '' @
        ''child, once for a high-school student, and once for an engineer. Finish by writing '' @
        ''three related practice problems with fully worked solutions.'' @ [CHR 0x0A, CHR 0x0A] @
        ''Problem: '' @
        ''{content}'' @ [CHR 0x0A, CHR 0x0A] @
        ''Write a thorough, detailed response of at least 1200 words.''),
      sp_system_prompt = uni (
        ''You are a thorough mathematics tutor who writes comprehensive, long-form '' @
        ''explanations.''),
      sp_attack = None\<rparr>,
     \<lparr>sp_prompt_id = uni ''pb-sst2-long-0000-essay'', sp_dataset = uni ''sst2'', sp_dataset_index = 0,
      sp_template = uni (
        ''The text below is an excerpt from a film review. Using it as your starting point, '' @
        ''write a full film-criticism essay: infer and analyse the reviewer's sentiment, '' @
        ''discuss the themes and craft the excerpt hints at, consider what kind of audience '' @
        ''the film would suit, compare it to plausible similar films, and end with a reasoned '' @
        ''verdict.'' @ [CHR 0x0A, CHR 0x0A] @
        ''Excerpt: '' @
        ''{content}'' @ [CHR 0x0A, CHR 0x0A] @
        ''Write a thorough, detailed response of at least 1200 words.''),
      sp_system_prompt = uni (
        ''You are a film critic who writes detailed, long-form criticism.''),
      sp_attack = None\<rparr>,
     \<lparr>sp_prompt_id = uni ''pb-sst2-long-0001-rewrite'', sp_dataset = uni ''sst2'', sp_dataset_index = 1,
      sp_template = uni (
        ''Analyse the sentiment of the review excerpt below in detail, quoting the specific '' @
        ''words that carry it. Then rewrite the excerpt as three complete reviews of the same '' @
        ''film in three different tones (enthusiastic, measured, scathing), and justify the '' @
        ''wording choices you made in each.'' @ [CHR 0x0A, CHR 0x0A] @
        ''Excerpt: '' @
        ''{content}'' @ [CHR 0x0A, CHR 0x0A] @
        ''Write a thorough, detailed response of at least 1200 words.''),
      sp_system_prompt = uni (
        ''You are a film critic who writes detailed, long-form criticism.''),
      sp_attack = None\<rparr>,
     \<lparr>sp_prompt_id = uni ''pb-cola-long-0000-grammar'', sp_dataset = uni ''cola'', sp_dataset_index = 0,
      sp_template = uni (
        ''Give a full grammatical analysis of the sentence below: parse it, name every '' @
        ''construction it uses, judge whether it is grammatically acceptable with a proper '' @
        ''linguistic argument, and illustrate the relevant grammar with six example sentences '' @
        ''of your own.'' @ [CHR 0x0A, CHR 0x0A] @
        ''Sentence: '' @
        ''{content}'' @ [CHR 0x0A, CHR 0x0A] @
        ''Write a thorough, detailed response of at least 1200 words.''),
      sp_system_prompt = uni (
        ''You are a linguist who writes detailed, long-form grammatical analyses.''),
      sp_attack = None\<rparr>,
     \<lparr>sp_prompt_id = uni ''pb-cola-long-0001-lesson'', sp_dataset = uni ''cola'', sp_dataset_index = 1,
      sp_template = uni (
        ''First judge whether the sentence below is grammatically acceptable. Then write a '' @
        ''mini grammar lesson covering every construction that appears in it, giving a '' @
        ''correct/incorrect example pair for each construction and explaining what makes the '' @
        ''incorrect one fail.'' @ [CHR 0x0A, CHR 0x0A] @
        ''Sentence: '' @
        ''{content}'' @ [CHR 0x0A, CHR 0x0A] @
        ''Write a thorough, detailed response of at least 1200 words.''),
      sp_system_prompt = uni (
        ''You are a linguist who writes detailed, long-form grammatical analyses.''),
      sp_attack = None\<rparr>]"

definition PROMPTBENCH_PRESETS :: "(ustr \<times> promptbench_spec list) list" where
  "PROMPTBENCH_PRESETS =
     [(uni ''verification-v1'', VERIFICATION_V1), (uni ''long-output-v1'', LONG_OUTPUT_V1)]"

definition PROMPTBENCH_ATTACK_NAMES :: "ustr set" where
  "PROMPTBENCH_ATTACK_NAMES = set (map uni
     [''bertattack'', ''checklist'', ''deepwordbug'', ''semantic'', ''stresstest'', ''textbugger'', ''textfooler''])"

datatype suite_error =
    Unknown_preset ustr
  | Count_too_small
  | No_promptbench
  | Duplicate_prompt ustr
  | Dataset_not_loaded ustr
  | No_record ustr nat
  | Record_no_object ustr nat
  | Missing_field ustr nat
  | Bad_template
  | Unsupported_attack ustr
  | No_prompts ustr

text \<open>\<open>f"{n:04d}"\<close>.\<close>

definition four_digits :: "nat \<Rightarrow> ustr" where
  "four_digits n = (let d = uni (show_nat n) in replicate (4 - length d) 48 @ d)"

definition expanded_spec :: "promptbench_spec list \<Rightarrow> nat \<Rightarrow> promptbench_spec" where
  "expanded_spec preset position =
     (let base = preset ! (position mod length preset); cycle_index = position div length preset in
      base\<lparr>sp_prompt_id := sp_prompt_id base @ 45 # four_digits cycle_index,
           sp_dataset_index := sp_dataset_index base + cycle_index\<rparr>)"

definition expand_promptbench_preset :: "ustr \<Rightarrow> int \<Rightarrow> suite_error + promptbench_spec list" where
  "expand_promptbench_preset preset_name prompt_count =
     (case map_of PROMPTBENCH_PRESETS preset_name of
        None \<Rightarrow> Inl (Unknown_preset preset_name)
      | Some preset \<Rightarrow>
          if prompt_count < 1 then Inl Count_too_small
          else Inr (map (expanded_spec preset) [0..<nat prompt_count]))"

section \<open>Prompts\<close>

text \<open>
  \<open>json.dumps(value, ensure_ascii=False, sort_keys=True)\<close>, and \<open>str(value)\<close> for what is no text, list or
  object.
\<close>

definition escape_plain :: "nat \<Rightarrow> ustr" where
  "escape_plain c = (if c < 127 then escape_char c else [c])"

definition dumped_string :: "ustr \<Rightarrow> ustr" where
  "dumped_string s = 34 # concat (map escape_plain s) @ [34]"

primrec dumped :: "json \<Rightarrow> ustr" where
  "dumped JNull = uni ''null''"
| "dumped (JBool b) = uni (if b then ''true'' else ''false'')"
| "dumped (JInt i) = render_int i"
| "dumped (JFloat f) = render_float f"
| "dumped (JStr s) = dumped_string s"
| "dumped (JList xs) = 91 # join_with (uni '', '') (map dumped xs) @ [93]"
| "dumped (JDict d) =
     123 # join_with (uni '', '')
             (map (\<lambda>kv. dumped_string (fst kv) @ uni '': '' @ snd kv) (map (map_prod id dumped) d)) @ [125]"

definition format_promptbench_value :: "(json \<Rightarrow> ustr) \<Rightarrow> json \<Rightarrow> ustr" where
  "format_promptbench_value repr v =
     (case v of
        JStr s \<Rightarrow> s
      | JDict _ \<Rightarrow> dumped (sort_json v)
      | JList _ \<Rightarrow> dumped (sort_json v)
      | _ \<Rightarrow> str_of repr v)"

text \<open>
  \<open>template.format(**record)\<close> for templates whose fields are plain names; a template with conversions,
  format specifications, attributes or lone braces is \<open>Bad_template\<close> (the presets have none).
\<close>

definition name_code :: "nat \<Rightarrow> bool" where
  "name_code c \<longleftrightarrow> c \<notin> {33, 46, 58, 91, 93, 123, 125}"

function format_template :: "(ustr \<times> ustr) list \<Rightarrow> ustr \<Rightarrow> unit option + ustr" where
  "format_template env [] = Inr []"
| "format_template env (c # s) =
     (if c = 123 \<and> s \<noteq> [] \<and> hd s = 123 then map_sum id (\<lambda>r. 123 # r) (format_template env (tl s))
      else if c = 125 \<and> s \<noteq> [] \<and> hd s = 125 then map_sum id (\<lambda>r. 125 # r) (format_template env (tl s))
      else if c = 125 then Inl None
      else if c = 123 then
        (let name = takeWhile name_code s; after = dropWhile name_code s in
         if name = [] \<or> after = [] \<or> hd after \<noteq> 125 then Inl None
         else case map_of env name of
                None \<Rightarrow> Inl (Some ())
              | Some v \<Rightarrow> map_sum id (\<lambda>r. v @ r) (format_template env (tl after)))
      else map_sum id (\<lambda>r. c # r) (format_template env s))"
  by pat_completeness auto
termination
proof (relation "measure (length \<circ> snd)", goal_cases)
  case (4 env c s name after v)
  then show ?case using length_dropWhile_le[of name_code s] by simp
qed auto

definition apply_promptbench_attack :: "ustr \<Rightarrow> ustr option \<Rightarrow> suite_error + ustr" where
  "apply_promptbench_attack prompt_text attack =
     (case attack of
        None \<Rightarrow> Inr prompt_text
      | Some name \<Rightarrow>
          if name \<notin> PROMPTBENCH_ATTACK_NAMES then Inl (Unsupported_attack name)
          else if name = uni ''stresstest'' then
            Inr (prompt_text @ [10, 10] @
                 uni ''Stress-test distractors: true is true. false is not true. blue is blue. '' @
                 uni ''Do not let these distractors change the answer to the original task.'')
          else if name = uni ''checklist'' then
            Inr (prompt_text @ [10, 10] @
                 uni ''Checklist perturbation: punctuation, spacing, and casing may be distracting; '' @
                 uni ''answer only the original task.'')
          else if name = uni ''semantic'' then
            Inr (uni ''Restated instruction: solve the same task below and provide the requested answer format.'' @
                 [10, 10] @ prompt_text)
          else Inl (Unsupported_attack name))"

record prompt =
  pr_index :: nat
  pr_prompt_id :: ustr
  pr_messages :: "json list"
  pr_raw :: json

definition message :: "string \<Rightarrow> ustr \<Rightarrow> json" where
  "message role content = JDict [(uni ''role'', JStr (uni role)), (uni ''content'', JStr content)]"

type_synonym dataset = "nat \<Rightarrow> json option"
type_synonym promptbench = "ustr \<Rightarrow> dataset option"

text \<open>One round of the loop on the record found.\<close>

definition prompt_of_record ::
  "(json \<Rightarrow> ustr) \<Rightarrow> ustr \<Rightarrow> nat \<Rightarrow> promptbench_spec \<Rightarrow> json option \<Rightarrow> suite_error + prompt" where
  "prompt_of_record repr preset_name index spec rec =
     (case rec of
        None \<Rightarrow> Inl (No_record (sp_dataset spec) (sp_dataset_index spec))
      | Some (JDict d) \<Rightarrow>
          (case format_template (map (map_prod id (format_promptbench_value repr)) d) (sp_template spec) of
             Inl None \<Rightarrow> Inl Bad_template
           | Inl (Some _) \<Rightarrow> Inl (Missing_field (sp_dataset spec) (sp_dataset_index spec))
           | Inr user_prompt \<Rightarrow>
               (case apply_promptbench_attack user_prompt (sp_attack spec) of
                  Inl e \<Rightarrow> Inl e
                | Inr attacked_prompt \<Rightarrow>
                    Inr \<lparr>pr_index = index, pr_prompt_id = sp_prompt_id spec,
                         pr_messages = [message ''system'' (sp_system_prompt spec),
                                        message ''user'' attacked_prompt],
                         pr_raw = JDict
                           [(uni ''id'', JStr (sp_prompt_id spec)), (uni ''source'', JStr (uni ''promptbench'')),
                            (uni ''preset'', JStr preset_name), (uni ''dataset'', JStr (sp_dataset spec)),
                            (uni ''dataset_index'', JInt (int (sp_dataset_index spec))),
                            (uni ''attack'', case sp_attack spec of None \<Rightarrow> JNull | Some a \<Rightarrow> JStr a)]\<rparr>))
      | Some _ \<Rightarrow> Inl (Record_no_object (sp_dataset spec) (sp_dataset_index spec)))"

fun load_specs ::
  "(json \<Rightarrow> ustr) \<Rightarrow> promptbench \<Rightarrow> ustr \<Rightarrow> promptbench_spec list \<Rightarrow> ustr set \<Rightarrow> (ustr \<times> dataset) list \<Rightarrow>
   prompt list \<Rightarrow> suite_error + prompt list" where
  "load_specs repr pb preset_name [] seen_ids datasets prompts =
     (if prompts = [] then Inl (No_prompts preset_name) else Inr prompts)"
| "load_specs repr pb preset_name (spec # specs) seen_ids datasets prompts =
     (if sp_prompt_id spec \<in> seen_ids then Inl (Duplicate_prompt (sp_prompt_id spec))
      else case (case map_of datasets (sp_dataset spec) of Some ds \<Rightarrow> Some ds | None \<Rightarrow> pb (sp_dataset spec)) of
        None \<Rightarrow> Inl (Dataset_not_loaded (sp_dataset spec))
      | Some ds \<Rightarrow>
          (case prompt_of_record repr preset_name (length prompts) spec (ds (sp_dataset_index spec)) of
             Inl e \<Rightarrow> Inl e
           | Inr p \<Rightarrow>
               load_specs repr pb preset_name specs (insert (sp_prompt_id spec) seen_ids)
                 (AList.update (sp_dataset spec) ds datasets) (prompts @ [p])))"

text \<open>\<open>pb\<close> is \<open>None\<close> where the package is missing or has no loader.\<close>

definition load_promptbench_prompts ::
  "(json \<Rightarrow> ustr) \<Rightarrow> promptbench option \<Rightarrow> ustr \<Rightarrow> int \<Rightarrow> suite_error + prompt list" where
  "load_promptbench_prompts repr pb preset_name prompt_count =
     (case expand_promptbench_preset preset_name prompt_count of
        Inl e \<Rightarrow> Inl e
      | Inr preset \<Rightarrow>
          (case pb of
             None \<Rightarrow> Inl No_promptbench
           | Some load \<Rightarrow> load_specs repr load preset_name preset {} [] []))"

section \<open>Sampling configurations\<close>

text \<open>A float is its text, as \<open>repr\<close> writes it; \<open>six\<close> is \<open>f"{value:.6g}"\<close>.\<close>

record suite_sampling =
  sc_sampling_id :: ustr
  sc_temperature :: ustr
  sc_top_k :: int
  sc_top_p :: ustr

definition number_id :: "(ustr \<Rightarrow> ustr) \<Rightarrow> ustr \<Rightarrow> ustr" where
  "number_id six v = map (\<lambda>c. if c = 45 then 109 else if c = 46 then 112 else c) (six v)"

definition sampling_config_of :: "(ustr \<Rightarrow> ustr) \<Rightarrow> ustr \<Rightarrow> ustr \<Rightarrow> int \<Rightarrow> suite_sampling" where
  "sampling_config_of six temperature top_p top_k =
     \<lparr>sc_sampling_id = uni ''t'' @ number_id six temperature @ uni ''-p'' @ number_id six top_p @ uni ''-k''
                       @ render_int top_k,
      sc_temperature = temperature, sc_top_k = top_k, sc_top_p = top_p\<rparr>"

text \<open>The loops of a sweep over the values given, skipping an id that was there already.\<close>

fun keep_first :: "('a \<Rightarrow> 'k) \<Rightarrow> 'k set \<Rightarrow> 'a list \<Rightarrow> 'a list" where
  "keep_first key seen [] = []"
| "keep_first key seen (x # xs) =
     (if key x \<in> seen then keep_first key seen xs else x # keep_first key (insert (key x) seen) xs)"

definition sampling_configs ::
  "(ustr \<Rightarrow> ustr) \<Rightarrow> (ustr list \<times> ustr list \<times> int list) option \<Rightarrow> ustr \<Rightarrow> ustr \<Rightarrow> int \<Rightarrow> suite_sampling list option" where
  "sampling_configs six sweep temperature top_p top_k =
     (case sweep of
        None \<Rightarrow> Some [sampling_config_of six temperature top_p top_k]
      | Some (temperature_values, top_p_values, top_k_values) \<Rightarrow>
          (let configs = keep_first sc_sampling_id {}
             (concat (map (\<lambda>t. concat (map (\<lambda>p. map (sampling_config_of six t p) top_k_values) top_p_values))
                temperature_values)) in
           if configs = [] then None else Some configs))"

section \<open>Requests\<close>

record prompt_run =
  pn_index :: nat
  pn_prompt :: prompt
  pn_sampling :: suite_sampling

text \<open>\<open>_prompt_runs\<close>: every prompt under every sampling configuration, numbered.\<close>

definition prompt_runs :: "prompt list \<Rightarrow> suite_sampling list \<Rightarrow> prompt_run list" where
  "prompt_runs prompts samplings =
     (let pairs = concat (map (\<lambda>s. map (\<lambda>p. (p, s)) prompts) samplings) in
      map (\<lambda>(i, p, s). \<lparr>pn_index = i, pn_prompt = p, pn_sampling = s\<rparr>) (zip [0..<length pairs] pairs))"

text \<open>\<open>prompt_runs[start_prompt - 1:]\<close> for a \<open>start_prompt\<close> of at least 1.\<close>

definition select_prompt_runs :: "prompt_run list \<Rightarrow> nat \<Rightarrow> prompt_run list option" where
  "select_prompt_runs runs start_prompt =
     (if start_prompt > length runs then None else Some (drop (start_prompt - 1) runs))"

definition slugify :: "ustr \<Rightarrow> ustr" where
  "slugify v =
     (let s = strip_dash (dash_runs False (concat (map lower_code (ustrip v)))) in
      if s = [] then uni ''run'' else s)"

definition stable_message_id :: "ustr \<Rightarrow> string \<Rightarrow> ustr" where
  "stable_message_id prompt_id kind = slugify prompt_id @ 45 # uni kind"

definition flatten_content :: "json \<Rightarrow> ustr" where
  "flatten_content content =
     (case content of
        JStr s \<Rightarrow> s
      | JList items \<Rightarrow>
          ustrip (join_with [10] (filter (\<lambda>p. p \<noteq> [])
            (concat (map (\<lambda>item. case item of
                            JStr s \<Rightarrow> [s]
                          | JDict d \<Rightarrow> (case dget d ''text'' of JStr s \<Rightarrow> [s] | _ \<Rightarrow> [])
                          | _ \<Rightarrow> []) items))))
      | _ \<Rightarrow> [])"

definition nonempty_text :: "(json \<Rightarrow> bool) \<Rightarrow> json \<Rightarrow> ustr option" where
  "nonempty_text wanted m =
     (case m of
        JDict d \<Rightarrow>
          (let text = flatten_content (dget d ''content'') in
           if wanted (dget d ''role'') \<and> text \<noteq> [] then Some text else None)
      | _ \<Rightarrow> None)"

definition last_user_text :: "json list \<Rightarrow> ustr" where
  "last_user_text messages =
     (case List.map_filter (nonempty_text (\<lambda>role. role = JStr (uni ''user''))) (rev messages) of
        text # _ \<Rightarrow> text
      | [] \<Rightarrow>
          (case List.map_filter (nonempty_text (\<lambda>_. True)) (rev messages) of
             text # _ \<Rightarrow> text
           | [] \<Rightarrow> []))"

definition build_payload :: "prompt \<Rightarrow> suite_sampling \<Rightarrow> ustr \<Rightarrow> ustr \<Rightarrow> int \<Rightarrow> int \<Rightarrow> json" where
  "build_payload p sampling model run_id seed max_tokens =
     (let message_prefix = pr_prompt_id p @ 45 # sc_sampling_id sampling in
      JDict
        [(uni ''model'', JStr model), (uni ''messages'', JList (pr_messages p)), (uni ''stream'', JBool True),
         (uni ''seed'', JInt seed), (uni ''temperature'', JFloat (sc_temperature sampling)),
         (uni ''top_k'', JInt (sc_top_k sampling)), (uni ''top_p'', JFloat (sc_top_p sampling)),
         (uni ''max_tokens'', JInt max_tokens), (uni ''chat_id'', JStr (uni ''local:'' @ run_id)),
         (uni ''id'', JStr (stable_message_id message_prefix ''assistant'')),
         (uni ''user_message'', JDict
            [(uni ''id'', JStr (stable_message_id message_prefix ''user'')), (uni ''role'', JStr (uni ''user'')),
             (uni ''content'', JStr (last_user_text (pr_messages p)))])])"

end
