(* ===== verification/Suite_Proofs.thy ===== *)
theory Suite_Proofs
  imports Suite Json_Proofs
begin

text \<open>
  The suite: the ids a preset expands to are distinct, its templates can be filled from a record's
  \<open>content\<close>, and so a suite loads in full wherever the datasets have the records it names.
\<close>

section \<open>Ids\<close>

lemma four_digits_props: "list_all is_digit (four_digits n) \<and> digits_value (four_digits n) = n"
proof -
  have z: "digits_value (replicate k 48 @ ds) = digits_value ds" for k ds
    by (induction k) (simp_all add: digits_value_def)
  have "list_all is_digit (uni (show_nat n))" "digits_value (uni (show_nat n)) = n"
    using show_decimal[of n] by (simp_all add: show_nat_def)
  then show ?thesis by (auto simp: four_digits_def Let_def z list_all_iff is_digit_def)
qed

lemma numbered_id_inj:
  assumes "a @ 45 # four_digits m = b @ 45 # four_digits n"
  shows "a = b \<and> m = n"
proof -
  have no: "45 \<notin> set (rev (four_digits k))" for k
    using four_digits_props[of k] by (auto simp: list_all_iff is_digit_def)
  have tw: "takeWhile (\<lambda>c. c \<noteq> 45) (rev (x @ 45 # four_digits k)) = rev (four_digits k)" for x k
  proof -
    have "\<And>c. c \<in> set (rev (four_digits k)) \<Longrightarrow> c \<noteq> 45" using no[of k] by metis
    then have "takeWhile (\<lambda>c. c \<noteq> 45) (rev (four_digits k) @ 45 # rev x) = rev (four_digits k)"
      by (subst takeWhile_append2) auto
    then show ?thesis by simp
  qed
  have "four_digits m = four_digits n"
    using tw[of a m] tw[of b n] assms by (metis rev_is_rev_conv)
  then show ?thesis using assms four_digits_props by (metis append_same_eq)
qed

lemma div_mod_eqI:
  fixes i j k :: nat
  assumes "i mod k = j mod k" and "i div k = j div k"
  shows "i = j"
  using assms by (metis div_mult_mod_eq)

lemma expanded_ids_distinct:
  assumes p: "preset \<noteq> []" and d: "distinct (map sp_prompt_id preset)"
  shows "distinct (map sp_prompt_id (map (expanded_spec preset) [0..<n]))"
proof -
  have len: "length preset > 0" using p by simp
  have "i = j" if "sp_prompt_id (expanded_spec preset i) = sp_prompt_id (expanded_spec preset j)" for i j
  proof -
    have e: "sp_prompt_id (preset ! (i mod length preset)) = sp_prompt_id (preset ! (j mod length preset))"
      "i div length preset = j div length preset"
      using that numbered_id_inj[of _ "i div length preset" _ "j div length preset"]
      by (auto simp: expanded_spec_def Let_def)
    have "i mod length preset = j mod length preset"
      using nth_eq_iff_index_eq[OF d, of "i mod length preset" "j mod length preset"] e(1) len by simp
    then show "i = j" using e(2) by (rule div_mod_eqI)
  qed
  then have "inj_on (sp_prompt_id \<circ> expanded_spec preset) A" for A by (intro inj_onI) (simp only: comp_apply)
  then show ?thesis by (simp only: map_map distinct_map distinct_upt simp_thms)
qed

section \<open>Templates\<close>

text \<open>A template of one field, \<open>content\<close>, and no other brace, that begins with plain text.\<close>

definition plain :: "string \<Rightarrow> bool" where
  "plain s \<longleftrightarrow> list_all (\<lambda>c. c \<noteq> CHR ''{'' \<and> c \<noteq> CHR ''}'') s"

definition one_field :: "string \<Rightarrow> bool" where
  "one_field t \<longleftrightarrow> (\<exists>l r. t = l @ ''{content}'' @ r \<and> plain l \<and> plain r)"

definition fillable :: "ustr \<Rightarrow> bool" where
  "fillable t \<longleftrightarrow> (\<exists>s. t = uni s \<and> one_field s \<and> hd s \<noteq> CHR ''{'')"

lemma plain_append: "plain a \<Longrightarrow> plain b \<Longrightarrow> plain (a @ b)"
  by (simp add: plain_def)

lemma field_last: "one_field ''{content}''"
  unfolding one_field_def by (rule exI[of _ "[]"], rule exI[of _ "[]"]) (simp add: plain_def)

lemma field_here: "plain b \<Longrightarrow> one_field (''{content}'' @ b)"
  unfolding one_field_def by (rule exI[of _ "[]"], rule exI[of _ b]) (simp add: plain_def)

lemma field_later: "one_field b \<Longrightarrow> plain a \<Longrightarrow> one_field (a @ b)"
  unfolding one_field_def using plain_append by (metis append_assoc)

lemma fillableI: "one_field (a @ b) \<Longrightarrow> hd (a @ b) \<noteq> CHR ''{'' \<Longrightarrow> fillable (uni (a @ b))"
  unfolding fillable_def by blast

definition preset_ok :: "promptbench_spec list \<Rightarrow> bool" where
  "preset_ok preset \<longleftrightarrow> preset \<noteq> [] \<and> distinct (map sp_prompt_id preset) \<and>
     list_all (\<lambda>s. fillable (sp_template s) \<and>
       sp_attack s \<in> {None, Some (uni ''stresstest''), Some (uni ''checklist''), Some (uni ''semantic'')}) preset"

lemma verification_v1_ok: "preset_ok VERIFICATION_V1"
  unfolding preset_ok_def VERIFICATION_V1_def
  apply (simp add: uni_inj del: append_Cons append_Nil)
  apply (intro conjI fillableI)
  apply (rule field_last | rule field_here | rule field_later | rule plain_append | simp add: plain_def)+
  done

lemma long_output_v1_ok: "preset_ok LONG_OUTPUT_V1"
  unfolding preset_ok_def LONG_OUTPUT_V1_def
  apply (simp add: uni_inj del: append_Cons append_Nil)
  apply (intro conjI fillableI)
  apply (rule field_last | rule field_here | rule field_later | rule plain_append | simp add: plain_def)+
  done

lemma presets_ok: "map_of PROMPTBENCH_PRESETS name = Some preset \<Longrightarrow> preset_ok preset"
  using verification_v1_ok long_output_v1_ok by (auto simp: PROMPTBENCH_PRESETS_def split: if_splits)

lemma code_of_brace: "of_char c = (123 :: nat) \<longleftrightarrow> c = CHR ''{''" "of_char c = (125 :: nat) \<longleftrightarrow> c = CHR ''}''"
  using of_char_eq_iff[of c "CHR ''{''", where ?'a = nat] of_char_eq_iff[of c "CHR ''}''", where ?'a = nat] by simp_all

lemma format_plain:
  "plain l \<Longrightarrow> format_template env t = Inr u \<Longrightarrow> format_template env (uni l @ t) = Inr (uni l @ u)"
  by (induction l) (simp_all add: uni_def plain_def code_of_brace)

lemma format_field:
  assumes v: "map_of env (uni ''content'') = Some v" and t: "format_template env t = Inr u"
  shows "format_template env (uni ''{content}'' @ t) = Inr (v @ u)"
proof -
  have e: "uni ''{content}'' @ t = 123 # uni ''content'' @ 125 # t" by (simp add: uni_def)
  have n: "list_all name_code (uni ''content'')" by (simp add: uni_def name_code_def)
  have tw: "takeWhile name_code (uni ''content'' @ 125 # t) = uni ''content''"
    "dropWhile name_code (uni ''content'' @ 125 # t) = 125 # t"
    using n by (simp_all add: list_all_iff takeWhile_append2 dropWhile_append2 name_code_def)
  have h: "hd (uni ''content'' @ 125 # t) = 99" "uni ''content'' @ 125 # t \<noteq> []" "uni ''content'' \<noteq> []"
    by (simp_all add: uni_def)
  show ?thesis
    unfolding e by (subst format_template.simps(2)) (simp add: tw h v t)
qed

lemma format_fillable:
  assumes t: "fillable t" and v: "map_of env (uni ''content'') = Some v"
  shows "\<exists>l r. l \<noteq> [] \<and> format_template env t = Inr (l @ v @ r)"
proof -
  obtain s where s: "t = uni s" "one_field s" "hd s \<noteq> CHR ''{''" using t by (auto simp: fillable_def)
  then obtain l r where lr: "s = l @ ''{content}'' @ r" "plain l" "plain r" by (auto simp: one_field_def)
  have "l \<noteq> []" using lr(1) s(3) by auto
  have "format_template env (uni r) = Inr (uni r)" using format_plain[OF lr(3), of env "[]" "[]"] by simp
  then have "format_template env (uni ''{content}'' @ uni r) = Inr (v @ uni r)" by (rule format_field[OF v])
  then have "format_template env (uni l @ uni ''{content}'' @ uni r) = Inr (uni l @ v @ uni r)"
    by (rule format_plain[OF lr(2)])
  then have "format_template env t = Inr (uni l @ v @ uni r)" unfolding s(1) lr(1) by (simp only: uni_append)
  moreover have "uni l \<noteq> []" using \<open>l \<noteq> []\<close> by (simp add: uni_def)
  ultimately show ?thesis by blast
qed

section \<open>Loading\<close>

definition supported :: "ustr option \<Rightarrow> bool" where
  "supported attack \<longleftrightarrow>
     attack \<in> {None, Some (uni ''stresstest''), Some (uni ''checklist''), Some (uni ''semantic'')}"

lemma attack_applies:
  assumes "supported a"
  shows "\<exists>l r. apply_promptbench_attack p a = Inr (l @ p @ r)"
proof -
  have n: "uni ''stresstest'' \<in> PROMPTBENCH_ATTACK_NAMES" "uni ''checklist'' \<in> PROMPTBENCH_ATTACK_NAMES"
    "uni ''semantic'' \<in> PROMPTBENCH_ATTACK_NAMES"
    by (simp_all add: PROMPTBENCH_ATTACK_NAMES_def)
  consider "a = None" | "a = Some (uni ''stresstest'')" | "a = Some (uni ''checklist'')" | "a = Some (uni ''semantic'')"
    using assms by (auto simp: supported_def)
  then show ?thesis
  proof cases
    case 1
    then have "apply_promptbench_attack p a = Inr ([] @ p @ [])" by (simp add: apply_promptbench_attack_def)
    then show ?thesis by blast
  next
    case 2
    then have "\<exists>r. apply_promptbench_attack p a = Inr (p @ r)"
      by (simp add: apply_promptbench_attack_def n uni_inj del: append_Cons append_Nil)
    then show ?thesis by (metis append_Nil)
  next
    case 3
    then have "\<exists>r. apply_promptbench_attack p a = Inr (p @ r)"
      by (simp add: apply_promptbench_attack_def n uni_inj del: append_Cons append_Nil)
    then show ?thesis by (metis append_Nil)
  next
    case 4
    then show ?thesis
      by (intro exI[of _ "uni ''Restated instruction: solve the same task below and provide the requested answer format.'' @ [10, 10]"]
          exI[of _ "[]"]) (simp add: apply_promptbench_attack_def n uni_inj del: append_Cons)
  qed
qed

lemma last_user_text_of_pair:
  assumes "u \<noteq> []"
  shows "last_user_text [message ''system'' s, message ''user'' u] = u"
  using assms
  by (simp add: last_user_text_def nonempty_text_def message_def dget_def uni_inj flatten_content_def
      map_filter_simps Let_def)

text \<open>The prompt \<open>p\<close> puts to the model the record that \<open>spec\<close> names.\<close>

definition asks_record :: "(json \<Rightarrow> ustr) \<Rightarrow> promptbench \<Rightarrow> promptbench_spec \<Rightarrow> prompt \<Rightarrow> bool" where
  "asks_record repr pb spec p \<longleftrightarrow>
     (\<exists>ds d v l r. pb (sp_dataset spec) = Some ds \<and> ds (sp_dataset_index spec) = Some (JDict d) \<and>
        map_of d (uni ''content'') = Some v \<and>
        last_user_text (pr_messages p) = l @ format_promptbench_value repr v @ r)"

definition spec_ready :: "promptbench \<Rightarrow> promptbench_spec \<Rightarrow> bool" where
  "spec_ready pb s \<longleftrightarrow> fillable (sp_template s) \<and> supported (sp_attack s) \<and>
     (\<exists>ds d v. pb (sp_dataset s) = Some ds \<and> ds (sp_dataset_index s) = Some (JDict d) \<and>
        map_of d (uni ''content'') = Some v)"

lemma prompt_of_ready:
  assumes r: "spec_ready pb s" and ds: "pb (sp_dataset s) = Some ds"
  shows "\<exists>p. prompt_of_record repr name k s (ds (sp_dataset_index s)) = Inr p \<and> pr_index p = k \<and>
    pr_prompt_id p = sp_prompt_id s \<and> asks_record repr pb s p"
proof -
  obtain d v where dv: "ds (sp_dataset_index s) = Some (JDict d)" "map_of d (uni ''content'') = Some v"
    using r ds by (auto simp: spec_ready_def)
  let ?env = "map (map_prod id (format_promptbench_value repr)) d" and ?v = "format_promptbench_value repr v"
  have "map_of ?env (uni ''content'') = Some ?v"
    using dv(2) by (simp add: map_prod_def map_of_map id_def)
  then obtain l r where f: "l \<noteq> []" "format_template ?env (sp_template s) = Inr (l @ ?v @ r)"
    using format_fillable r unfolding spec_ready_def by blast
  obtain l' r' where a: "apply_promptbench_attack (l @ ?v @ r) (sp_attack s) = Inr (l' @ (l @ ?v @ r) @ r')"
    using attack_applies r unfolding spec_ready_def by blast
  have "last_user_text [message ''system'' (sp_system_prompt s), message ''user'' (l' @ (l @ ?v @ r) @ r')]
      = (l' @ l) @ ?v @ (r @ r')"
    using f(1) by (subst last_user_text_of_pair) simp_all
  then show ?thesis
    unfolding asks_record_def prompt_of_record_def dv(1) using dv ds f a by auto (metis append_assoc)
qed

lemma load_ready_specs:
  assumes "list_all (spec_ready pb) specs" and "distinct (map sp_prompt_id specs)"
    and "set (map sp_prompt_id specs) \<inter> seen = {}" and "\<And>k ds. map_of datasets k = Some ds \<Longrightarrow> pb k = Some ds"
    and "specs \<noteq> [] \<or> prompts \<noteq> []"
  shows "\<exists>ps. load_specs repr pb name specs seen datasets prompts = Inr (prompts @ ps) \<and>
    map pr_index ps = [length prompts..<length prompts + length specs] \<and>
    map pr_prompt_id ps = map sp_prompt_id specs \<and> list_all2 (asks_record repr pb) specs ps"
  using assms
proof (induction specs arbitrary: seen datasets prompts)
  case (Cons s specs)
  obtain ds where ds: "pb (sp_dataset s) = Some ds" using Cons.prems(1) by (auto simp: spec_ready_def)
  have found: "(case map_of datasets (sp_dataset s) of Some ds \<Rightarrow> Some ds | None \<Rightarrow> pb (sp_dataset s)) = Some ds"
    using Cons.prems(4)[of "sp_dataset s"] ds by (auto split: option.splits)
  obtain p where p: "prompt_of_record repr name (length prompts) s (ds (sp_dataset_index s)) = Inr p"
    "pr_index p = length prompts" "pr_prompt_id p = sp_prompt_id s" "asks_record repr pb s p"
    using prompt_of_ready[of pb s ds repr name "length prompts"] Cons.prems(1) ds by auto
  have step: "load_specs repr pb name (s # specs) seen datasets prompts =
      load_specs repr pb name specs (insert (sp_prompt_id s) seen) (AList.update (sp_dataset s) ds datasets) (prompts @ [p])"
    using Cons.prems(3) found p(1) by simp
  have "\<exists>ps. load_specs repr pb name specs (insert (sp_prompt_id s) seen) (AList.update (sp_dataset s) ds datasets)
        (prompts @ [p]) = Inr ((prompts @ [p]) @ ps) \<and>
      map pr_index ps = [length (prompts @ [p])..<length (prompts @ [p]) + length specs] \<and>
      map pr_prompt_id ps = map sp_prompt_id specs \<and> list_all2 (asks_record repr pb) specs ps"
    using Cons.prems ds by (intro Cons.IH) (auto simp: update_conv split: if_splits)
  then obtain ps where ps: "load_specs repr pb name specs (insert (sp_prompt_id s) seen)
        (AList.update (sp_dataset s) ds datasets) (prompts @ [p]) = Inr (prompts @ p # ps)"
      "map pr_index ps = [Suc (length prompts)..<Suc (length prompts) + length specs]"
      "map pr_prompt_id ps = map sp_prompt_id specs" "list_all2 (asks_record repr pb) specs ps"
    by auto
  have upt: "[length prompts..<length prompts + length (s # specs)]
      = length prompts # [Suc (length prompts)..<Suc (length prompts) + length specs]"
    by (simp add: upt_conv_Cons del: upt_Suc)
  show ?case
    unfolding step ps(1) upt by (rule exI[of _ "p # ps"]) (simp only: list.map ps p list_all2_Cons simp_thms)
qed simp


lemma load_ready_preset:
  assumes p: "map_of PROMPTBENCH_PRESETS name = Some preset" and n: "1 \<le> n"
    and ready: "\<And>i. i < n \<Longrightarrow> spec_ready pb (expanded_spec preset i)"
  shows "\<exists>ps. load_promptbench_prompts repr (Some pb) name (int n) = Inr ps \<and> map pr_index ps = [0..<n] \<and>
    map pr_prompt_id ps = map sp_prompt_id (map (expanded_spec preset) [0..<n]) \<and>
    list_all2 (asks_record repr pb) (map (expanded_spec preset) [0..<n]) ps"
proof -
  let ?specs = "map (expanded_spec preset) [0..<n]"
  have dist: "distinct (map sp_prompt_id ?specs)"
    using presets_ok[OF p] by (intro expanded_ids_distinct) (auto simp: preset_ok_def)
  obtain ps where ps: "load_specs repr pb name ?specs {} [] [] = Inr ps" "map pr_index ps = [0..<n]"
      "map pr_prompt_id ps = map sp_prompt_id ?specs" "list_all2 (asks_record repr pb) ?specs ps"
    using load_ready_specs[of pb ?specs "{}" "[]" "[]" repr name] ready dist n by (auto simp: list_all_iff)
  then show ?thesis
    using p n by (intro exI[of _ ps]) (simp add: load_promptbench_prompts_def expand_promptbench_preset_def)
qed

lemma expanded_ready:
  assumes p: "map_of PROMPTBENCH_PRESETS name = Some preset" and i: "i < n"
    and d: "\<And>s k. s \<in> set preset \<Longrightarrow> k * length preset < n \<Longrightarrow>
      \<exists>ds d v. pb (sp_dataset s) = Some ds \<and> ds (sp_dataset_index s + k) = Some (JDict d) \<and>
        map_of d (uni ''content'') = Some v"
  shows "spec_ready pb (expanded_spec preset i)"
proof -
  have ok: "preset \<noteq> []" "\<And>s. s \<in> set preset \<Longrightarrow> fillable (sp_template s) \<and> supported (sp_attack s)"
    using presets_ok[OF p] by (auto simp: preset_ok_def supported_def list_all_iff)
  have m: "preset ! (i mod length preset) \<in> set preset" using ok(1) by simp
  have "i div length preset * length preset < n" using i div_times_less_eq_dividend[of i "length preset"] by linarith
  then show ?thesis using d[OF m] ok(2)[OF m] by (simp add: spec_ready_def expanded_spec_def Let_def)
qed

text \<open>C26: A suite loads in full. Let \<open>k\<close> be the number of the entries of a preset. If the dataset of every
  entry has records with a \<open>content\<close> at the entry's own index and at each of the \<open>(n - 1) div k\<close> after it,
  \<open>load_promptbench_prompts\<close> gives exactly \<open>n\<close> prompts, numbered in order, with distinct ids (the check for
  duplicates never fires), and prompt \<open>i\<close> puts the record \<open>dataset_index + i div k\<close> of the dataset of entry
  \<open>i mod k\<close> to the model.\<close>

theorem suite_loads:
  assumes p: "map_of PROMPTBENCH_PRESETS name = Some preset" and n: "1 \<le> n"
    and d: "\<And>s k. s \<in> set preset \<Longrightarrow> k * length preset < n \<Longrightarrow>
      \<exists>ds d v. pb (sp_dataset s) = Some ds \<and> ds (sp_dataset_index s + k) = Some (JDict d) \<and>
        map_of d (uni ''content'') = Some v"
  shows "\<exists>ps. load_promptbench_prompts repr (Some pb) name (int n) = Inr ps \<and> map pr_index ps = [0..<n] \<and>
    distinct (map pr_prompt_id ps) \<and>
    (\<forall>i<n. \<exists>ds d v l r. pb (sp_dataset (preset ! (i mod length preset))) = Some ds \<and>
       ds (sp_dataset_index (preset ! (i mod length preset)) + i div length preset) = Some (JDict d) \<and>
       map_of d (uni ''content'') = Some v \<and>
       last_user_text (pr_messages (ps ! i)) = l @ format_promptbench_value repr v @ r)"
proof -
  obtain ps where ps: "load_promptbench_prompts repr (Some pb) name (int n) = Inr ps" "map pr_index ps = [0..<n]"
      "map pr_prompt_id ps = map sp_prompt_id (map (expanded_spec preset) [0..<n])"
      "list_all2 (asks_record repr pb) (map (expanded_spec preset) [0..<n]) ps"
    using load_ready_preset[OF p n] expanded_ready[OF p _ d] by blast
  have "distinct (map pr_prompt_id ps)"
    unfolding ps(3) using presets_ok[OF p] by (intro expanded_ids_distinct) (auto simp: preset_ok_def)
  moreover have "asks_record repr pb (expanded_spec preset i) (ps ! i)" if "i < n" for i
    using list_all2_nthD[OF ps(4), of i] that by simp
  ultimately show ?thesis
    using ps(1,2) unfolding asks_record_def by (simp add: expanded_spec_def Let_def)
qed

text \<open>A dataset whose every record has the content \<open>x\<close>.\<close>

lemma suite_loads_witness:
  "\<exists>ps. load_promptbench_prompts dumped
         (Some (\<lambda>_. Some (\<lambda>i. Some (JDict [(uni ''content'', JStr (uni ''x''))])))) (uni ''verification-v1'') 20 = Inr ps \<and>
     map pr_index ps = [0..<20] \<and> distinct (map pr_prompt_id ps)"
proof -
  have m: "map_of PROMPTBENCH_PRESETS (uni ''verification-v1'') = Some VERIFICATION_V1"
    by (simp add: PROMPTBENCH_PRESETS_def)
  show ?thesis
    using suite_loads[OF m, of 20 "\<lambda>_. Some (\<lambda>i. Some (JDict [(uni ''content'', JStr (uni ''x''))]))" dumped]
    by auto
qed

end
