(* ===== verification/Prompts.thy ===== *)
theory Prompts
  imports Suite Http
begin

text \<open>
  One run of the prompt runner: one request with the reading of its stream, and the check of the models
  before a run (\<^verbatim>\<open>prompt-runner/app/core.py\<close>), the split of the suite over models
  (\<^verbatim>\<open>prompt-runner/app/allocation.py\<close>), and the execution of a run, a scheduling loop per model, all of
  them feeding the same \<open>Run\<close> (\<^verbatim>\<open>prompt-runner/app/service.py\<close>).

  What the server does with a request is an argument (\<open>served\<close>), as are the texts of Python and its
  libraries (\<open>py_lib\<close>) and the fractional parts of the quotas, which the code computes in floats. A URL is
  the five parts \<open>urlsplit\<close> gives it. Clock readings and log lines are left out.
\<close>

section \<open>Allocation\<close>

record allocation =
  al_model :: ustr
  al_percent :: nat
  al_concurrency :: nat

text \<open>\<open>xs[:k]\<close> of a Python list.\<close>

definition take_to :: "int \<Rightarrow> 'a list \<Rightarrow> 'a list" where
  "take_to k xs = (if k \<ge> 0 then take (nat k) xs else take (length xs - nat (- k)) xs)"

fun cut :: "nat list \<Rightarrow> 'a list \<Rightarrow> 'a list list" where
  "cut [] items = []"
| "cut (s # ss) items = take s items # cut ss (drop s items)"

definition allocated_sizes :: "(nat \<Rightarrow> real) \<Rightarrow> nat \<Rightarrow> allocation list \<Rightarrow> nat list" where
  "allocated_sizes remainder n allocs =
     (let sizes = map (\<lambda>a. (al_percent a * n) div 100) allocs;
          leftover = int n - int (sum_list sizes);
          order = sort_key (\<lambda>i. - remainder i) [0..<length allocs] in
      fold (\<lambda>i ss. ss[i := ss ! i + 1]) (take_to leftover order) sizes)"

definition allocate :: "(nat \<Rightarrow> real) \<Rightarrow> 'a list \<Rightarrow> allocation list \<Rightarrow> 'a list list" where
  "allocate remainder items allocs = cut (allocated_sizes remainder (length items) allocs) items"

section \<open>Settings\<close>

record run_settings =
  rs_models :: "allocation list"
  rs_preset :: ustr
  rs_prompt_count :: int
  rs_start_prompt :: nat
  rs_max_tokens :: int
  rs_continue_on_error :: bool
  rs_skip_preflight :: bool

definition allocations_ok :: "allocation list \<Rightarrow> bool" where
  "allocations_ok allocs \<longleftrightarrow> allocs \<noteq> [] \<and>
     list_all (\<lambda>a. 1 \<le> al_percent a \<and> al_percent a \<le> 100 \<and> 1 \<le> al_concurrency a \<and> al_concurrency a \<le> 32) allocs \<and>
     distinct (map al_model allocs) \<and> sum_list (map al_percent allocs) = 100"

text \<open>What \<open>RunSettings\<close> accepts of the values read; \<open>timeout\<close> is left to the server's argument.\<close>

definition settings_ok :: "run_settings \<Rightarrow> bool" where
  "settings_ok s \<longleftrightarrow> allocations_ok (rs_models s) \<and> 1 \<le> rs_prompt_count s \<and> 1 \<le> rs_start_prompt s \<and>
     1 \<le> rs_max_tokens s"

record run_args =
  ar_model :: ustr
  ar_concurrency :: nat
  ar_seed :: int
  ar_temperature :: ustr
  ar_top_k :: int
  ar_top_p :: ustr
  ar_max_tokens :: int
  ar_continue_on_error :: bool

definition to_namespace :: "run_settings \<Rightarrow> allocation \<Rightarrow> run_args" where
  "to_namespace s a =
     \<lparr>ar_model = al_model a, ar_concurrency = al_concurrency a, ar_seed = 42, ar_temperature = uni ''1.0'',
      ar_top_k = 50, ar_top_p = uni ''0.95'', ar_max_tokens = rs_max_tokens s,
      ar_continue_on_error = rs_continue_on_error s\<rparr>"

section \<open>URLs\<close>

record url =
  url_scheme :: ustr
  url_netloc :: ustr
  url_path :: ustr
  url_query :: ustr
  url_fragment :: ustr

definition rstrip_slash :: "ustr \<Rightarrow> ustr" where
  "rstrip_slash s = rev (dropWhile (\<lambda>c. c = 47) (rev s))"

definition strip_slash :: "ustr \<Rightarrow> ustr" where
  "strip_slash s = rstrip_slash (dropWhile (\<lambda>c. c = 47) s)"

definition api_root :: "ustr \<Rightarrow> ustr" where
  "api_root path =
     (let p = rstrip_slash path in
      if ends_with p (uni ''/api/v1'') then take (length p - 7) p
      else if ends_with p (uni ''/api'') then take (length p - 4) p
      else p)"

definition build_url :: "url \<Rightarrow> ustr \<Rightarrow> url option" where
  "build_url base endpoint =
     (if url_scheme base = [] \<or> url_netloc base = [] then None
      else let full_path = join_with [47]
             (filter (\<lambda>p. p \<noteq> []) [strip_slash (api_root (url_path base)), strip_slash endpoint]) in
        Some (base\<lparr>url_path := 47 # full_path\<rparr>))"

section \<open>Requests\<close>

text \<open>
  What is known of Python's own texts: the floats, why \<open>json.loads\<close> refuses a text, how a URL is written.
\<close>

record py_lib =
  lib_float :: "ustr \<Rightarrow> ustr"
  lib_why :: "ustr \<Rightarrow> ustr"
  lib_url :: "url \<Rightarrow> ustr"
  lib_repr :: "json \<Rightarrow> ustr"
  lib_six :: "ustr \<Rightarrow> ustr"
  lib_remainder :: "nat \<Rightarrow> real"

text \<open>How reading a body ends: at its end, with a timeout or \<open>URLError\<close>, or with another exception.\<close>

datatype body_end = Body_ends | Body_times_out ustr | Body_raises ustr

text \<open>An HTTP error with its body and reason, no connection, an exception, or a response and its lines.\<close>

datatype served =
    Http_error int ustr ustr
  | Unreachable ustr
  | Send_raises ustr
  | Answer int string "ustr list" body_end

definition parse_http_error :: "int \<Rightarrow> ustr \<Rightarrow> ustr \<Rightarrow> ustr" where
  "parse_http_error code body reason =
     (let b = ustrip body in
      if b \<noteq> [] then b else if reason \<noteq> [] then reason else uni ''HTTP '' @ render_int code)"

definition begins :: "string \<Rightarrow> ustr \<Rightarrow> bool" where
  "begins p s \<longleftrightarrow> take (length p) s = uni p"

text \<open>What a stripped line of the stream means for the loop.\<close>

datatype line_says = Goes_on | Not_done | Is_done | Malformed ustr

definition stream_line :: "py_lib \<Rightarrow> ustr \<Rightarrow> line_says" where
  "stream_line lib line =
     (let refused = (\<lambda>t. uni ''Malformed SSE payload: '' @ lib_why lib t) in
      if line = [] then Goes_on
      else if line = uni ''data: [DONE]'' then Is_done
      else if begins ''data:'' line then
        (let event_data = ustrip (drop 5 line) in
         if event_data = [] then Not_done
         else if event_data = uni ''[DONE]'' then Is_done
         else if loads_text (lib_float lib) event_data = None then Malformed (refused event_data)
         else Goes_on)
      else if begins ''{'' line \<and> last line = 125 then
        (if loads_text (lib_float lib) line = None then Malformed (refused line) else Goes_on)
      else Goes_on)"

text \<open>Whether the stream was completed and the message, or the text of an exception.\<close>

fun read_stream ::
  "py_lib \<Rightarrow> int \<Rightarrow> body_end \<Rightarrow> ustr list \<Rightarrow> bool \<Rightarrow> ustr + (int option \<times> bool \<times> ustr)" where
  "read_stream lib code ending [] completed =
     (case ending of
        Body_ends \<Rightarrow> Inr (Some code, completed, [])
      | Body_times_out msg \<Rightarrow> Inr (None, False, msg)
      | Body_raises msg \<Rightarrow> Inl msg)"
| "read_stream lib code ending (raw # rest) completed =
     (case stream_line lib (ustrip raw) of
        Goes_on \<Rightarrow> read_stream lib code ending rest completed
      | Not_done \<Rightarrow> read_stream lib code ending rest False
      | Is_done \<Rightarrow> Inr (Some code, True, [])
      | Malformed msg \<Rightarrow> Inr (Some code, False, msg))"

definition post_json :: "py_lib \<Rightarrow> served \<Rightarrow> ustr + (int option \<times> bool \<times> ustr)" where
  "post_json lib r =
     (case r of
        Http_error code body reason \<Rightarrow> Inr (Some code, False, parse_http_error code body reason)
      | Unreachable msg \<Rightarrow> Inr (None, False, msg)
      | Send_raises msg \<Rightarrow> Inl msg
      | Answer code content_type ls ending \<Rightarrow>
          if contains ''text/event-stream'' content_type then read_stream lib code ending ls False
          else (case ending of
                  Body_ends \<Rightarrow> Inr (Some code, True, concat ls)
                | Body_times_out msg \<Rightarrow> Inr (None, False, msg)
                | Body_raises msg \<Rightarrow> Inl msg))"

record run_result =
  rt_index :: nat
  rt_prompt_id :: ustr
  rt_sampling_id :: ustr
  rt_url :: "url option"
  rt_status_code :: "int option"
  rt_stream_completed :: bool
  rt_error :: "ustr option"

definition failed_result :: "prompt_run \<Rightarrow> url option \<Rightarrow> int option \<Rightarrow> ustr \<Rightarrow> run_result" where
  "failed_result r u status msg =
     \<lparr>rt_index = pn_index r, rt_prompt_id = pr_prompt_id (pn_prompt r),
      rt_sampling_id = sc_sampling_id (pn_sampling r), rt_url = u, rt_status_code = status,
      rt_stream_completed = False, rt_error = Some msg\<rparr>"

definition ENDPOINTS :: "ustr list" where
  "ENDPOINTS = [uni ''/api/chat/completions'', uni ''/api/v1/chat/completions'']"

text \<open>
  The loop over the endpoints: a 404 of one that is not the last goes on. \<open>serve\<close> answers a URL and a body.
\<close>

fun try_endpoints ::
  "py_lib \<Rightarrow> (url \<Rightarrow> json \<Rightarrow> served) \<Rightarrow> url \<Rightarrow> json \<Rightarrow> prompt_run \<Rightarrow> ustr option \<Rightarrow> ustr list \<Rightarrow> ustr + run_result" where
  "try_endpoints lib serve base payload r last_error [] =
     Inr (failed_result r (build_url base (last ENDPOINTS)) (Some 404)
       (case last_error of None \<Rightarrow> uni ''Open WebUI endpoint not found''
        | Some e \<Rightarrow> if e = [] then uni ''Open WebUI endpoint not found'' else e))"
| "try_endpoints lib serve base payload r last_error (e # es) =
     (case build_url base e of
        None \<Rightarrow> Inl (uni ''Invalid Open WebUI URL'')
      | Some u \<Rightarrow>
          (case post_json lib (serve u payload) of
             Inl exc \<Rightarrow> Inl exc
           | Inr (status, done, msg) \<Rightarrow>
               if status = Some 404 \<and> e \<noteq> last ENDPOINTS then
                 try_endpoints lib serve base payload r (Some (uni ''HTTP 404 from '' @ lib_url lib u)) es
               else if (case status of None \<Rightarrow> True | Some c \<Rightarrow> c \<ge> 400) then
                 Inr (failed_result r (Some u) status msg)
               else if \<not> done then
                 Inr (failed_result r (Some u) status
                   (if msg = [] then uni ''stream ended before [DONE]'' else msg))
               else
                 Inr ((failed_result r (Some u) status [])\<lparr>rt_stream_completed := True, rt_error := None\<rparr>)))"

definition run_single_prompt ::
  "py_lib \<Rightarrow> (url \<Rightarrow> json \<Rightarrow> served) \<Rightarrow> url \<Rightarrow> ustr \<Rightarrow> run_args \<Rightarrow> prompt_run \<Rightarrow> ustr + run_result" where
  "run_single_prompt lib serve base run_id args r =
     try_endpoints lib serve base
       (build_payload (pn_prompt r) (pn_sampling r) (ar_model args) run_id (ar_seed args) (ar_max_tokens args))
       r None ENDPOINTS"

definition result_ok :: "run_result \<Rightarrow> bool" where
  "result_ok x \<longleftrightarrow> rt_stream_completed x \<and> (case rt_status_code x of None \<Rightarrow> 0 | Some c \<Rightarrow> c) < 400"


section \<open>Before a run\<close>

text \<open>The status, the payload and the error of a GET; a body that is no JSON has the status \<open>None\<close>.\<close>

definition fetch_json :: "py_lib \<Rightarrow> url \<Rightarrow> served \<Rightarrow> ustr + (int option \<times> json \<times> ustr option)" where
  "fetch_json lib u r =
     (case r of
        Http_error code body reason \<Rightarrow>
          (let b = ustrip body in
           Inr (if b = [] then
                  (Some code, JDict [], Some (if reason \<noteq> [] then reason else uni ''HTTP '' @ render_int code))
                else (Some code, case loads_text (lib_float lib) b of Some j \<Rightarrow> j | None \<Rightarrow> JDict [], Some b)))
      | Unreachable msg \<Rightarrow> Inr (None, JDict [], Some msg)
      | Send_raises msg \<Rightarrow> Inl msg
      | Answer code content_type ls Body_ends \<Rightarrow>
          (case loads_text (lib_float lib) (concat ls) of
             Some j \<Rightarrow> Inr (Some code, j, None)
           | None \<Rightarrow> Inr (None, JDict [],
               Some (uni ''Invalid JSON response from '' @ lib_url lib u @ uni '': '' @ lib_why lib (concat ls))))
      | Answer code content_type ls (Body_times_out msg) \<Rightarrow> Inr (None, JDict [], Some msg)
      | Answer code content_type ls (Body_raises msg) \<Rightarrow> Inl msg)"

definition item_ids :: "json list \<Rightarrow> ustr list" where
  "item_ids = List.map_filter
     (\<lambda>item. case item of JDict d \<Rightarrow> (case dget d ''id'' of JStr s \<Rightarrow> Some s | _ \<Rightarrow> None) | _ \<Rightarrow> None)"

definition model_ids_from_response :: "json \<Rightarrow> ustr list" where
  "model_ids_from_response payload =
     (case payload of
        JList items \<Rightarrow> item_ids items
      | JDict d \<Rightarrow> (case jor (dget d ''data'') (dget d ''items'') of JList items \<Rightarrow> item_ids items | _ \<Rightarrow> [])
      | _ \<Rightarrow> [])"

datatype setup_error =
    Raised ustr
  | Invalid_url
  | No_token
  | No_prompts_loaded
  | Suite_error suite_error
  | Start_beyond nat nat
  | Models_unreachable "ustr option"
  | Models_refused int "ustr option"
  | Model_missing ustr "ustr set"

definition fetch_models ::
  "py_lib \<Rightarrow> (url \<Rightarrow> served) \<Rightarrow> url \<Rightarrow> ustr \<Rightarrow> setup_error + (int option \<times> json \<times> ustr option)" where
  "fetch_models lib get base endpoint =
     (case build_url base endpoint of
        None \<Rightarrow> Inl Invalid_url
      | Some u \<Rightarrow> (case fetch_json lib u (get u) of Inl e \<Rightarrow> Inl (Raised e) | Inr x \<Rightarrow> Inr x))"

definition judge_models :: "ustr \<Rightarrow> int option \<times> json \<times> ustr option \<Rightarrow> setup_error + unit" where
  "judge_models model answer =
     (case answer of
        (None, payload, err) \<Rightarrow> Inl (Models_unreachable err)
      | (Some status, payload, err) \<Rightarrow>
          if status \<ge> 400 then Inl (Models_refused status err)
          else (let model_ids = set (model_ids_from_response payload) in
                if model \<notin> model_ids then Inl (Model_missing model model_ids) else Inr ()))"

definition preflight ::
  "py_lib \<Rightarrow> (url \<Rightarrow> served) \<Rightarrow> url \<Rightarrow> ustr \<Rightarrow> prompt list \<Rightarrow> setup_error + unit" where
  "preflight lib get base model prompts =
     (if prompts = [] then Inl No_prompts_loaded
      else case fetch_models lib get base (uni ''/api/models'') of
        Inl e \<Rightarrow> Inl e
      | Inr answer \<Rightarrow>
          if fst answer = Some 404 then
            (case fetch_models lib get base (uni ''/api/v1/models'') of
               Inl e \<Rightarrow> Inl e
             | Inr again \<Rightarrow> judge_models model again)
          else judge_models model answer)"

fun preflight_all ::
  "py_lib \<Rightarrow> (url \<Rightarrow> served) \<Rightarrow> url \<Rightarrow> prompt list \<Rightarrow> allocation list \<Rightarrow> setup_error + unit" where
  "preflight_all lib get base prompts [] = Inr ()"
| "preflight_all lib get base prompts (a # as) =
     (case preflight lib get base (al_model a) prompts of
        Inl e \<Rightarrow> Inl e
      | Inr _ \<Rightarrow> preflight_all lib get base prompts as)"

text \<open>The key of the environment, or the token a sign-in answers; a sign-in that raises is \<open>Inl\<close>.\<close>

definition resolve_api_key :: "ustr \<Rightarrow> ustr + json \<Rightarrow> setup_error + json" where
  "resolve_api_key key signin =
     (if key \<noteq> [] then Inr (JStr key)
      else case signin of
        Inl e \<Rightarrow> Inl (Raised e)
      | Inr j \<Rightarrow>
          (case j of
             JDict d \<Rightarrow> if truthy (dget d ''token'') then Inr (dget d ''token'') else Inl No_token
           | _ \<Rightarrow> Inl (Raised (uni ''no attribute get''))))"

text \<open>The world a run is executed in.\<close>

record run_world =
  w_lib :: py_lib
  w_promptbench :: "promptbench option"
  w_base :: url
  w_key :: ustr
  w_signin :: "ustr + json"
  w_get :: "url \<Rightarrow> served"
  w_serve :: "url \<Rightarrow> json \<Rightarrow> served"

text \<open>
  The first part of \<open>execute_run\<close>: the number of requests, which stays 0 where the suite is not loaded, and
  the selected requests with the slice of each allocation.
\<close>

definition set_up ::
  "run_world \<Rightarrow> run_settings \<Rightarrow> nat \<times> (setup_error + (prompt_run list \<times> prompt_run list list))" where
  "set_up w s =
     (case resolve_api_key (w_key w) (w_signin w) of
        Inl e \<Rightarrow> (0, Inl e)
      | Inr _ \<Rightarrow>
          (case load_promptbench_prompts (lib_repr (w_lib w)) (w_promptbench w) (rs_preset s) (rs_prompt_count s) of
             Inl e \<Rightarrow> (0, Inl (Suite_error e))
           | Inr prompts \<Rightarrow>
               (let args = to_namespace s (hd (rs_models s));
                    configs = (case sampling_configs (lib_six (w_lib w)) None (ar_temperature args) (ar_top_p args)
                      (ar_top_k args) of None \<Rightarrow> [] | Some cs \<Rightarrow> cs);
                    all_runs = prompt_runs prompts configs in
                case select_prompt_runs all_runs (rs_start_prompt s) of
                  None \<Rightarrow> (0, Inl (Start_beyond (rs_start_prompt s) (length all_runs)))
                | Some selected \<Rightarrow>
                    (length selected,
                     let slices = allocate (lib_remainder (w_lib w)) selected (rs_models s) in
                     if rs_skip_preflight s then Inr (selected, slices)
                     else case preflight_all (w_lib w) (w_get w) (w_base w) prompts (rs_models s) of
                       Inl e \<Rightarrow> Inl e
                     | Inr _ \<Rightarrow> Inr (selected, slices)))))"

section \<open>The slices of a run\<close>

record result_row =
  rw_request_index :: nat
  rw_prompt_id :: ustr
  rw_sampling_id :: ustr
  rw_model :: ustr
  rw_ok :: bool
  rw_status_code :: "int option"
  rw_stream_completed :: bool
  rw_error :: "ustr option"

datatype run_state = Queued | Running | Completed | Error | Cancelled | Interrupted

record live_run =
  lr_state :: run_state
  lr_total_requests :: nat
  lr_completed :: nat
  lr_failed :: nat
  lr_error :: "setup_error option"
  lr_results :: "result_row list"

definition new_run :: live_run where
  "new_run = \<lparr>lr_state = Running, lr_total_requests = 0, lr_completed = 0, lr_failed = 0, lr_error = None,
              lr_results = []\<rparr>"

record model_slice =
  ms_args :: run_args
  ms_pending :: "prompt_run list"
  ms_active :: "prompt_run list"
  ms_stop_scheduling :: bool

definition new_slice :: "run_args \<Rightarrow> prompt_run list \<Rightarrow> model_slice" where
  "new_slice args runs = \<lparr>ms_args = args, ms_pending = runs, ms_active = [], ms_stop_scheduling = False\<rparr>"

text \<open>The result of a request that is done, the exception of its future included, and its row.\<close>

definition settled_result :: "url \<Rightarrow> prompt_run \<Rightarrow> ustr + run_result \<Rightarrow> run_result" where
  "settled_result base r outcome =
     (case outcome of Inr x \<Rightarrow> x | Inl exc \<Rightarrow> failed_result r (build_url base (hd ENDPOINTS)) None exc)"

definition row_of :: "ustr \<Rightarrow> run_result \<Rightarrow> result_row" where
  "row_of model x =
     \<lparr>rw_request_index = rt_index x, rw_prompt_id = rt_prompt_id x, rw_sampling_id = rt_sampling_id x,
      rw_model = model, rw_ok = result_ok x, rw_status_code = rt_status_code x,
      rw_stream_completed = rt_stream_completed x, rw_error = rt_error x\<rparr>"

definition fill_slots :: "model_slice \<Rightarrow> model_slice" where
  "fill_slots s =
     (if ms_stop_scheduling s then s
      else let k = max 1 (ar_concurrency (ms_args s)) - length (ms_active s) in
        s\<lparr>ms_active := ms_active s @ take k (ms_pending s), ms_pending := drop k (ms_pending s)\<rparr>)"

text \<open>\<open>cf.wait\<close>: the futures that are done, at least one, by their positions among the active ones.\<close>

definition done_positions :: "nat list \<Rightarrow> nat \<Rightarrow> nat list" where
  "done_positions ds n =
     (case remdups (filter (\<lambda>i. i < n) ds) of [] \<Rightarrow> [0] | i # is \<Rightarrow> i # is)"

definition count_row :: "result_row \<Rightarrow> live_run \<Rightarrow> live_run" where
  "count_row row run =
     run\<lparr>lr_completed := lr_completed run + 1,
         lr_failed := lr_failed run + (if rw_ok row then 0 else 1),
         lr_results := lr_results run @ [row]\<rparr>"

text \<open>A round of a slice's loop; \<open>perform\<close> is the outcome of a request.\<close>

definition slice_turn ::
  "url \<Rightarrow> (run_args \<Rightarrow> prompt_run \<Rightarrow> ustr + run_result) \<Rightarrow> nat list \<Rightarrow> model_slice \<times> live_run \<Rightarrow>
   model_slice \<times> live_run" where
  "slice_turn base perform ds = (\<lambda>(s, run).
     (let s1 = fill_slots s; active = ms_active s1; args = ms_args s1 in
      if active = [] then (s1, run)
      else let ps = done_positions ds (length active);
               rows = map (\<lambda>i. row_of (ar_model args) (settled_result base (active ! i) (perform args (active ! i)))) ps in
        (s1\<lparr>ms_active := nths active (- set ps),
            ms_stop_scheduling := ms_stop_scheduling s1 \<or>
              (list_ex (\<lambda>row. \<not> rw_ok row) rows \<and> \<not> ar_continue_on_error args)\<rparr>,
         fold count_row rows run)))"

definition slice_ended :: "model_slice \<Rightarrow> bool" where
  "slice_ended s \<longleftrightarrow> ms_active s = [] \<and> (ms_pending s = [] \<or> ms_stop_scheduling s)"

text \<open>
  The threads of the slices take turns in any order; a turn names the slice and what its wait returns.
  A thread whose loop has ended has nothing left to do.
\<close>

definition run_turn ::
  "url \<Rightarrow> (run_args \<Rightarrow> prompt_run \<Rightarrow> ustr + run_result) \<Rightarrow> nat \<times> nat list \<Rightarrow> model_slice list \<times> live_run \<Rightarrow>
   model_slice list \<times> live_run" where
  "run_turn base perform turn = (\<lambda>(slices, run).
     (let (i, ds) = turn in
      if i < length slices then
        (let (s, run') = slice_turn base perform ds (slices ! i, run) in (slices[i := s], run'))
      else (slices, run)))"

definition start_slices :: "run_settings \<Rightarrow> prompt_run list list \<Rightarrow> model_slice list" where
  "start_slices s slices =
     map (\<lambda>(a, runs). new_slice (to_namespace s a) runs)
       (filter (\<lambda>(a, runs). runs \<noteq> []) (zip (rs_models s) slices))"

text \<open>
  \<open>execute_run\<close> under a schedule of turns; the run is completed once every slice has ended. Where the URL of
  the service is invalid and no preflight has found it, a request raises, and so does the handler of its
  exception, which builds the same URL: the slices break off without a row and the run ends with the error.
\<close>

definition execute_run ::
  "run_world \<Rightarrow> ustr \<Rightarrow> run_settings \<Rightarrow> (nat \<times> nat list) list \<Rightarrow> model_slice list \<times> live_run" where
  "execute_run w run_id s sched =
     (case set_up w s of
        (n, Inl e) \<Rightarrow> ([], new_run\<lparr>lr_state := Error, lr_error := Some e, lr_total_requests := n\<rparr>)
      | (n, Inr (selected, slices)) \<Rightarrow>
          if selected \<noteq> [] \<and> build_url (w_base w) (hd ENDPOINTS) = None then
            ([], new_run\<lparr>lr_state := Error, lr_error := Some Invalid_url, lr_total_requests := n\<rparr>)
          else (let (ended, run) =
             fold (run_turn (w_base w) (run_single_prompt (w_lib w) (w_serve w) (w_base w) run_id)) sched
               (start_slices s slices, new_run\<lparr>lr_total_requests := n\<rparr>) in
           (ended, if list_all slice_ended ended then run\<lparr>lr_state := Completed\<rparr> else run)))"

end
