(* ===== verification/Prompts_Proofs.thy ===== *)
theory Prompts_Proofs
  imports Prompts Suite_Proofs "HOL-Library.Multiset"
begin

text \<open>
  A run of the prompt runner: the allocation hands out every request once and each model its share, a request
  counts as ok exactly on a full answer, and under every interleaving of the slices the counters and rows of
  the run account for every request, and a failure stops the slice of its own model only.
\<close>

section \<open>Allocation\<close>

lemma concat_cut: "length items \<le> sum_list ss \<Longrightarrow> concat (cut ss items) = items"
  by (induction ss arbitrary: items) auto

lemma length_cut [simp]: "length (cut ss items) = length ss"
  by (induction ss arbitrary: items) auto

lemma length_nth_cut: "sum_list ss \<le> length items \<Longrightarrow> i < length ss \<Longrightarrow> length (cut ss items ! i) = ss ! i"
proof (induction ss arbitrary: items i)
  case (Cons s ss)
  then show ?case by (cases i) auto
qed simp

abbreviation bump :: "nat \<Rightarrow> nat list \<Rightarrow> nat list" where
  "bump i ss \<equiv> ss[i := ss ! i + 1]"

lemma length_bump_all [simp]: "length (fold bump is ss) = length ss"
  by (induction "is" arbitrary: ss) auto

lemma nth_bump_all:
  "distinct is \<Longrightarrow> set is \<subseteq> {..<length ss} \<Longrightarrow> j < length ss \<Longrightarrow>
   fold bump is ss ! j = ss ! j + (if j \<in> set is then 1 else 0)"
  by (induction "is" arbitrary: ss) (auto simp: nth_list_update)

lemma sum_bump_all:
  "set is \<subseteq> {..<length ss} \<Longrightarrow> sum_list (fold bump is ss) = sum_list ss + length is"
proof (induction "is" arbitrary: ss)
  case (Cons i "is")
  have "sum_list (bump i ss) = sum_list ss + 1" using Cons.prems by (simp add: sum_list_update)
  then show ?case using Cons by simp
qed simp

lemma sum_list_div_le: "100 * sum_list (map (\<lambda>x. x div 100) xs) \<le> sum_list (xs :: nat list)"
  by (induction xs) (auto simp: add_mult_distrib2 intro: add_mono)

lemma sum_list_mod: "sum_list xs = 100 * sum_list (map (\<lambda>x. x div 100) xs) + sum_list (map (\<lambda>x. x mod 100) (xs :: nat list))"
  by (induction xs) (auto simp: algebra_simps)

lemma sum_mod_bound: "sum_list (map (\<lambda>x. x mod 100) xs) \<le> 99 * length (filter (\<lambda>x. x mod 100 \<noteq> 0) (xs :: nat list))"
proof (induction xs)
  case (Cons x xs)
  have "x mod 100 \<le> 99" using mod_less_divisor[of 100 x] by linarith
  with Cons show ?case by auto
qed simp

text \<open>The quotas in hundredths, and what is left over by their floors.\<close>

definition quotas :: "nat \<Rightarrow> allocation list \<Rightarrow> nat list" where
  "quotas n allocs = map (\<lambda>a. al_percent a * n) allocs"

definition left_over :: "nat \<Rightarrow> allocation list \<Rightarrow> nat" where
  "left_over n allocs = n - sum_list (map (\<lambda>x. x div 100) (quotas n allocs))"

lemma sum_quotas: "allocations_ok allocs \<Longrightarrow> sum_list (quotas n allocs) = 100 * n"
  using sum_list_mult_const[of al_percent n allocs] by (simp add: quotas_def allocations_ok_def)

lemma left_over_facts:
  assumes "allocations_ok allocs"
  shows "sum_list (map (\<lambda>x. x div 100) (quotas n allocs)) + left_over n allocs = n"
    and "100 * left_over n allocs \<le> 99 * length (filter (\<lambda>x. x mod 100 \<noteq> 0) (quotas n allocs))"
proof -
  have s: "100 * sum_list (map (\<lambda>x. x div 100) (quotas n allocs)) \<le> 100 * n"
    using sum_list_div_le[of "quotas n allocs"] sum_quotas[OF assms] by simp
  then show "sum_list (map (\<lambda>x. x div 100) (quotas n allocs)) + left_over n allocs = n"
    by (simp add: left_over_def)
  then show "100 * left_over n allocs \<le> 99 * length (filter (\<lambda>x. x mod 100 \<noteq> 0) (quotas n allocs))"
    using sum_list_mod[of "quotas n allocs"] sum_quotas[OF assms, of n] sum_mod_bound[of "quotas n allocs"] by linarith
qed

lemma allocated_sizes_eq:
  assumes "allocations_ok allocs"
  shows "allocated_sizes rem n allocs =
    fold bump (take (left_over n allocs) (sort_key (\<lambda>i. - rem i) [0..<length allocs]))
      (map (\<lambda>x. x div 100) (quotas n allocs))"
proof -
  have "int n - int (sum_list (map (\<lambda>x. x div 100) (quotas n allocs))) = int (left_over n allocs)"
    using left_over_facts(1)[OF assms, of n] by linarith
  then show ?thesis
    by (simp add: allocated_sizes_def take_to_def quotas_def comp_def Let_def)
qed

lemma left_over_lt:
  assumes "allocations_ok allocs"
  shows "left_over n allocs \<le> length allocs"
proof -
  have "length (filter (\<lambda>x. x mod 100 \<noteq> 0) (quotas n allocs)) \<le> length allocs"
    using length_filter_le[of _ "quotas n allocs"] by (simp add: quotas_def)
  then show ?thesis using left_over_facts(2)[OF assms, of n] by linarith
qed

lemma allocated_total:
  assumes ok: "allocations_ok allocs"
  shows "sum_list (allocated_sizes rem n allocs) = n" and "length (allocated_sizes rem n allocs) = length allocs"
proof -
  let ?q = "quotas n allocs" and ?up = "take (left_over n allocs) (sort_key (\<lambda>i. - rem i) [0..<length allocs])"
  have lq: "length ?q = length allocs" by (simp add: quotas_def)
  have "set ?up \<subseteq> {..<length (map (\<lambda>x. x div 100) ?q)}" "length ?up = left_over n allocs"
    using left_over_lt[OF ok, of n] lq by (auto dest: in_set_takeD)
  then show "sum_list (allocated_sizes rem n allocs) = n"
    using sum_bump_all[of ?up "map (\<lambda>x. x div 100) ?q"] left_over_facts(1)[OF ok, of n]
    by (simp add: allocated_sizes_eq[OF ok])
  show "length (allocated_sizes rem n allocs) = length allocs"
    unfolding allocated_sizes_eq[OF ok] length_bump_all by (simp add: lq)
qed

lemma allocate_all: "allocations_ok allocs \<Longrightarrow> concat (allocate rem items allocs) = items"
  unfolding allocate_def using allocated_total(1)[of allocs rem "length items"] by (simp add: concat_cut)

lemma length_allocate: "allocations_ok allocs \<Longrightarrow> length (allocate rem items allocs) = length allocs"
  unfolding allocate_def using allocated_total(2)[of allocs rem "length items"] by simp

text \<open>Who gets one more: nobody whose quota is whole, where the remainders tell the whole quotas apart.\<close>

lemma bumped_has_fraction:
  fixes rem :: "nat \<Rightarrow> real"
  assumes ok: "allocations_ok allocs"
    and rem: "\<And>i. i < length allocs \<Longrightarrow> 0 \<le> rem i \<and> (rem i = 0 \<longleftrightarrow> quotas n allocs ! i mod 100 = 0)"
    and i: "i \<in> set (take (left_over n allocs) (sort_key (\<lambda>i. - rem i) [0..<length allocs]))"
  shows "quotas n allocs ! i mod 100 \<noteq> 0"
proof
  assume whole: "quotas n allocs ! i mod 100 = 0"
  let ?order = "sort_key (\<lambda>i. - rem i) [0..<length allocs]"
  obtain p where p: "p < left_over n allocs" "p < length ?order" "?order ! p = i"
    using i by (auto simp: in_set_conv_nth)
  have il: "i < length allocs" using p nth_mem[of p ?order] by auto
  have "rem i = 0" using rem[OF il] whole by simp
  have early: "q < p" if q: "q < length ?order" "rem (?order ! q) > 0" for q
  proof (rule ccontr)
    assume "\<not> q < p"
    then have "- rem (?order ! p) \<le> - rem (?order ! q)"
      using sorted_nth_mono[OF sorted_sort_key[of "\<lambda>i. - rem i" "[0..<length allocs]"], of p q] q(1) p(2) by simp
    then show False using q(2) p(3) \<open>rem i = 0\<close> by simp
  qed
  let ?pos = "{q. q < length ?order \<and> rem (?order ! q) > 0}"
  have "card ?pos \<le> p" using card_mono[of "{..<p}" ?pos] early by fastforce
  have "{j. j < length (quotas n allocs) \<and> quotas n allocs ! j mod 100 \<noteq> 0} = {j. j < length allocs \<and> rem j > 0}"
  proof (intro Collect_cong conj_cong refl)
    fix j
    show "(j < length (quotas n allocs)) = (j < length allocs)" by (simp add: quotas_def)
    assume "j < length allocs"
    then show "(quotas n allocs ! j mod 100 \<noteq> 0) = (rem j > 0)" using rem[of j] by linarith
  qed
  then have "length (filter (\<lambda>x. x mod 100 \<noteq> 0) (quotas n allocs)) = card {j. j < length allocs \<and> rem j > 0}"
    by (simp only: length_filter_conv_card)
  also have "\<dots> = card ((!) ?order ` ?pos)"
  proof -
    have "j \<in> (!) ?order ` ?pos" if "j < length allocs" "rem j > 0" for j
    proof -
      have "j \<in> set ?order" using that(1) by simp
      then obtain q where "q < length ?order" "?order ! q = j" by (auto simp only: in_set_conv_nth)
      then show ?thesis using that(2) by blast
    qed
    moreover have "?order ! q < length allocs" if "q < length ?order" for q
      using nth_mem[OF that] by simp
    ultimately show ?thesis by (intro arg_cong[where f = card]) blast
  qed
  also have "\<dots> \<le> card ?pos" by (intro card_image_le) simp
  finally show False using left_over_facts(2)[OF ok, of n] \<open>card ?pos \<le> p\<close> p(1) by linarith
qed

lemma within_share:
  "(b \<Longrightarrow> q mod 100 \<noteq> 0) \<Longrightarrow>
   q < 100 * (q div 100 + (if b then 1 else 0)) + 100 \<and> 100 * (q div 100 + (if b then 1 else 0)) < q + (100 :: nat)"
proof -
  assume a: "b \<Longrightarrow> q mod 100 \<noteq> 0"
  define d where "d = q div 100"
  define m where "m = q mod 100"
  have "q = 100 * d + m" "m < 100" by (simp_all add: d_def m_def)
  moreover have "b \<Longrightarrow> m \<noteq> 0" using a by (simp add: m_def)
  ultimately have "q < 100 * (d + (if b then 1 else 0)) + 100 \<and> 100 * (d + (if b then 1 else 0)) < q + 100"
    by (cases b) simp_all
  then show ?thesis unfolding d_def .
qed

text \<open>C25: The split of a suite loses and doubles nothing and is fair. For allocations that \<open>RunSettings\<close>
  accepts, the slices put together are the selected requests in their order, there is one for each model,
  and its size differs from the model's exact share \<open>percent * n / 100\<close> by less than one request; this needs
  of the remainders only that they are not negative and 0 exactly for a whole share, which floats keep.\<close>

theorem allocate_splits:
  assumes ok: "allocations_ok allocs"
    and rem: "\<And>i. i < length allocs \<Longrightarrow>
      0 \<le> rem i \<and> (rem i = 0 \<longleftrightarrow> 100 dvd al_percent (allocs ! i) * length items)"
  shows "concat (allocate rem items allocs) = items \<and> length (allocate rem items allocs) = length allocs \<and>
    (\<forall>i<length allocs.
       al_percent (allocs ! i) * length items < 100 * length (allocate rem items allocs ! i) + 100 \<and>
       100 * length (allocate rem items allocs ! i) < al_percent (allocs ! i) * length items + 100)"
proof -
  let ?n = "length items"
  let ?q = "quotas ?n allocs" and ?up = "take (left_over ?n allocs) (sort_key (\<lambda>i. - rem i) [0..<length allocs])"
  let ?ss = "allocated_sizes rem ?n allocs"
  have lq: "length ?q = length allocs" by (simp add: quotas_def)
  have up: "distinct ?up" "set ?up \<subseteq> {..<length (map (\<lambda>x. x div 100) ?q)}"
    using lq by (auto dest: in_set_takeD)
  note sum = allocated_total(1)[OF ok, of rem ?n] and len = allocated_total(2)[OF ok, of rem ?n]
  have q: "?q ! i = al_percent (allocs ! i) * ?n" if "i < length allocs" for i
    using that by (simp add: quotas_def)
  have share: "?q ! i < 100 * ?ss ! i + 100 \<and> 100 * ?ss ! i < ?q ! i + 100" if i: "i < length allocs" for i
  proof -
    have "?ss ! i = ?q ! i div 100 + (if i \<in> set ?up then 1 else 0)"
      unfolding allocated_sizes_eq[OF ok] by (subst nth_bump_all[OF up(1,2)]) (use i lq in auto)
    moreover have "?q ! i mod 100 \<noteq> 0" if "i \<in> set ?up"
      using bumped_has_fraction[OF ok _ that] rem q by (simp add: dvd_eq_mod_eq_0)
    ultimately show ?thesis using within_share[of "i \<in> set ?up" "?q ! i"] by simp
  qed
  show ?thesis
    unfolding allocate_def using sum len share q by (simp add: concat_cut length_nth_cut)
qed


text \<open>Three models over ten requests, with the exact remainders.\<close>

lemma allocate_splits_witness:
  "concat (allocate (\<lambda>i. [0, 3, 7] ! i) [0..<10]
     [\<lparr>al_model = uni ''a'', al_percent = 50, al_concurrency = 1\<rparr>,
      \<lparr>al_model = uni ''b'', al_percent = 33, al_concurrency = 4\<rparr>,
      \<lparr>al_model = uni ''c'', al_percent = 17, al_concurrency = 32\<rparr>]) = [0..<10]"
proof -
  let ?a = "[\<lparr>al_model = uni ''a'', al_percent = 50, al_concurrency = 1\<rparr>,
             \<lparr>al_model = uni ''b'', al_percent = 33, al_concurrency = 4\<rparr>,
             \<lparr>al_model = uni ''c'', al_percent = 17, al_concurrency = 32\<rparr>]"
  have "allocations_ok ?a" by (simp add: allocations_ok_def uni_inj)
  moreover have "0 \<le> ([0, 3, 7] ! i :: real) \<and> ([0, 3, 7] ! i = (0 :: real) \<longleftrightarrow> 100 dvd al_percent (?a ! i) * length [0..<10])"
    if "i < length ?a" for i
  proof -
    have "i = 0 \<or> i = 1 \<or> i = 2" using that by auto
    then show ?thesis by (auto simp: dvd_eq_mod_eq_0)
  qed
  ultimately show ?thesis using allocate_splits[of ?a "\<lambda>i. [0, 3, 7] ! i" "[0..<10]"] by blast
qed

section \<open>One request\<close>

text \<open>A stream that is complete: a line with the end mark, and before it only lines that go on.\<close>

definition stream_done :: "py_lib \<Rightarrow> ustr list \<Rightarrow> bool" where
  "stream_done lib ls \<longleftrightarrow> (\<exists>pre l post. ls = pre @ l # post \<and> stream_line lib (ustrip l) = Is_done \<and>
     (\<forall>x\<in>set pre. stream_line lib (ustrip x) \<in> {Goes_on, Not_done}))"

lemma stream_done_Nil [simp]: "\<not> stream_done lib []"
  by (simp add: stream_done_def)

lemma stream_done_Cons:
  "stream_done lib (x # ls) \<longleftrightarrow> stream_line lib (ustrip x) = Is_done \<or>
     stream_line lib (ustrip x) \<in> {Goes_on, Not_done} \<and> stream_done lib ls"
proof
  assume "stream_done lib (x # ls)"
  then obtain pre l post where s: "x # ls = pre @ l # post" "stream_line lib (ustrip l) = Is_done"
    "\<forall>x\<in>set pre. stream_line lib (ustrip x) \<in> {Goes_on, Not_done}" by (auto simp: stream_done_def)
  show "stream_line lib (ustrip x) = Is_done \<or>
     stream_line lib (ustrip x) \<in> {Goes_on, Not_done} \<and> stream_done lib ls"
  proof (cases pre)
    case Nil
    then show ?thesis using s by simp
  next
    case (Cons y pre')
    then show ?thesis using s unfolding stream_done_def by auto
  qed
next
  assume a: "stream_line lib (ustrip x) = Is_done \<or>
     stream_line lib (ustrip x) \<in> {Goes_on, Not_done} \<and> stream_done lib ls"
  show "stream_done lib (x # ls)"
  proof (cases "stream_line lib (ustrip x) = Is_done")
    case True
    then show ?thesis unfolding stream_done_def by (metis append_Nil empty_iff empty_set)
  next
    case False
    then obtain pre l post where "ls = pre @ l # post" "stream_line lib (ustrip l) = Is_done"
      "\<forall>x\<in>set pre. stream_line lib (ustrip x) \<in> {Goes_on, Not_done}"
      "stream_line lib (ustrip x) \<in> {Goes_on, Not_done}"
      using a by (auto simp: stream_done_def)
    then show ?thesis
      unfolding stream_done_def by (intro exI[of _ "x # pre"] exI[of _ l] exI[of _ post]) simp
  qed
qed

lemma read_stream_True:
  "read_stream lib code e ls False = Inr (status, True, m) \<longleftrightarrow> stream_done lib ls \<and> status = Some code \<and> m = []"
proof (induction ls)
  case Nil
  show ?case by (cases e) simp_all
next
  case (Cons x ls)
  then show ?case by (cases "stream_line lib (ustrip x)") (auto simp: stream_done_Cons)
qed

text \<open>A full answer: a status below 400, and a stream that is complete or a whole body.\<close>

definition full_answer :: "py_lib \<Rightarrow> served \<Rightarrow> bool" where
  "full_answer lib r \<longleftrightarrow> (\<exists>code ct ls e. r = Answer code ct ls e \<and> code < 400 \<and>
     (if contains ''text/event-stream'' ct then stream_done lib ls else e = Body_ends))"

lemma post_json_True:
  "(\<exists>m c. post_json lib r = Inr (Some c, True, m) \<and> c < 400) \<longleftrightarrow> full_answer lib r"
proof (cases r)
  case (Answer code ct ls e)
  then show ?thesis
    by (cases "contains ''text/event-stream'' ct"; cases e) (auto simp: post_json_def full_answer_def read_stream_True)
qed (simp_all add: post_json_def full_answer_def)

definition says_404 :: "py_lib \<Rightarrow> served \<Rightarrow> bool" where
  "says_404 lib r \<longleftrightarrow> (\<exists>d m. post_json lib r = Inr (Some 404, d, m))"

text \<open>The answer that counts: the second endpoint's where the first answers 404.\<close>

definition answer_used :: "py_lib \<Rightarrow> (url \<Rightarrow> json \<Rightarrow> served) \<Rightarrow> url \<Rightarrow> json \<Rightarrow> served" where
  "answer_used lib serve base payload =
     (let first = serve (the (build_url base (hd ENDPOINTS))) payload in
      if says_404 lib first then serve (the (build_url base (last ENDPOINTS))) payload else first)"

lemma build_url_valid:
  "(build_url base e \<noteq> None) \<longleftrightarrow> url_scheme base \<noteq> [] \<and> url_netloc base \<noteq> []"
  by (simp add: build_url_def Let_def)

lemma result_ok_failed [simp]: "\<not> result_ok (failed_result r u s m)"
  by (simp add: result_ok_def failed_result_def)

text \<open>One endpoint: a 404 falls through, anything else settles the request.\<close>

lemma try_last:
  assumes u: "build_url base (last ENDPOINTS) = Some u"
  shows "result_ok (settled_result b r (try_endpoints lib serve base payload r err [last ENDPOINTS])) \<longleftrightarrow>
    full_answer lib (serve u payload)"
proof (cases "post_json lib (serve u payload)")
  case (Inl e)
  then show ?thesis using post_json_True[of lib "serve u payload"] u by (auto simp: settled_result_def)
next
  case (Inr x)
  obtain status d m where x: "x = (status, d, m)" by (cases x)
  show ?thesis
  proof (cases status)
    case None
    then show ?thesis using post_json_True[of lib "serve u payload"] u Inr x by (auto simp: settled_result_def)
  next
    case (Some c)
    then show ?thesis
      using post_json_True[of lib "serve u payload"] u Inr x
      by (cases "c \<ge> 400"; cases d) (auto simp: settled_result_def result_ok_def failed_result_def)
  qed
qed

lemma try_first:
  assumes u: "build_url base e = Some u" and e: "e \<noteq> last ENDPOINTS" and n: "\<not> says_404 lib (serve u payload)"
  shows "result_ok (settled_result b r (try_endpoints lib serve base payload r err (e # es))) \<longleftrightarrow>
    full_answer lib (serve u payload)"
proof (cases "post_json lib (serve u payload)")
  case (Inl x)
  then show ?thesis using post_json_True[of lib "serve u payload"] u by (auto simp: settled_result_def)
next
  case (Inr x)
  obtain status d m where x: "x = (status, d, m)" by (cases x)
  have "status \<noteq> Some 404" using n Inr x by (auto simp: says_404_def)
  show ?thesis
  proof (cases status)
    case None
    then show ?thesis using post_json_True[of lib "serve u payload"] u Inr x by (auto simp: settled_result_def)
  next
    case (Some c)
    then show ?thesis
      using post_json_True[of lib "serve u payload"] u Inr x \<open>status \<noteq> Some 404\<close>
      by (cases "c \<ge> 400"; cases d) (auto simp: settled_result_def result_ok_def failed_result_def)
  qed
qed

text \<open>C24: A request of the suite counts as ok exactly on a full answer. With the URL of the service valid, the
  answer that counts (that of \<open>/api/chat/completions\<close>, or of \<open>/api/v1/chat/completions\<close> after a 404) must
  have a status below 400 and be either a stream with an end mark before any malformed line or a body read
  to its end; exceptions, timeouts, refused connections and streams that stop early are failures.\<close>

theorem request_ok_iff:
  "result_ok (settled_result base r (run_single_prompt lib serve base run_id args r)) \<longleftrightarrow>
   url_scheme base \<noteq> [] \<and> url_netloc base \<noteq> [] \<and>
   (\<exists>code ct ls e.
      answer_used lib serve base
        (build_payload (pn_prompt r) (pn_sampling r) (ar_model args) run_id (ar_seed args) (ar_max_tokens args))
      = Answer code ct ls e \<and> code < 400 \<and>
      (if contains ''text/event-stream'' ct then stream_done lib ls else e = Body_ends))"
  (is "?ok \<longleftrightarrow> _ \<and> _ \<and> ?full")
proof -
  let ?p = "build_payload (pn_prompt r) (pn_sampling r) (ar_model args) run_id (ar_seed args) (ar_max_tokens args)"
  have E: "ENDPOINTS = [hd ENDPOINTS, last ENDPOINTS]" "hd ENDPOINTS \<noteq> last ENDPOINTS"
    by (simp_all add: ENDPOINTS_def uni_inj)
  have full: "?full \<longleftrightarrow> full_answer lib (answer_used lib serve base ?p)" by (simp add: full_answer_def)
  have run: "run_single_prompt lib serve base run_id args r =
      try_endpoints lib serve base ?p r None [hd ENDPOINTS, last ENDPOINTS]"
    unfolding run_single_prompt_def using E(1) by metis
  show ?thesis
  proof (cases "url_scheme base \<noteq> [] \<and> url_netloc base \<noteq> []")
    case False
    then have "build_url base (hd ENDPOINTS) = None" using build_url_valid by blast
    then have "\<not> ?ok" by (simp add: run settled_result_def)
    then show ?thesis using False by blast
  next
    case True
    then obtain u1 u2 where u: "build_url base (hd ENDPOINTS) = Some u1" "build_url base (last ENDPOINTS) = Some u2"
      using build_url_valid by blast
    show ?thesis
    proof (cases "says_404 lib (serve u1 ?p)")
      case s: True
      then obtain d m where "post_json lib (serve u1 ?p) = Inr (Some 404, d, m)" by (auto simp: says_404_def)
      then have "run_single_prompt lib serve base run_id args r =
          try_endpoints lib serve base ?p r (Some (uni ''HTTP 404 from '' @ lib_url lib u1)) [last ENDPOINTS]"
        using u(1) E(2) unfolding run by (subst try_endpoints.simps(2)) simp
      then have "?ok \<longleftrightarrow> full_answer lib (serve u2 ?p)" using try_last[OF u(2)] by simp
      then show ?thesis using True s u unfolding full by (simp add: answer_used_def Let_def)
    next
      case s: False
      have "?ok \<longleftrightarrow> full_answer lib (serve u1 ?p)"
        unfolding run by (rule try_first[where serve = serve and payload = ?p, OF u(1) E(2) s])
      then show ?thesis using True s u unfolding full by (simp add: answer_used_def Let_def)
    qed
  qed
qed


section \<open>Slices\<close>

lemma done_positions_props:
  assumes "0 < n"
  shows "distinct (done_positions ds n)" "set (done_positions ds n) \<subseteq> {..<n}" "done_positions ds n \<noteq> []"
proof -
  let ?f = "remdups (filter (\<lambda>i. i < n) ds)"
  have "distinct ?f" "set ?f \<subseteq> {..<n}" by auto
  then show "distinct (done_positions ds n)" "set (done_positions ds n) \<subseteq> {..<n}" "done_positions ds n \<noteq> []"
    using assms unfolding done_positions_def by (cases ?f; simp)+
qed

lemma mset_nths: "mset (nths xs A) = image_mset ((!) xs) (mset_set {i \<in> A. i < length xs})"
proof (induction xs rule: rev_induct)
  case (snoc x xs)
  have i: "image_mset ((!) (xs @ [x])) (mset_set {i \<in> A. i < length xs}) =
      image_mset ((!) xs) (mset_set {i \<in> A. i < length xs})"
    by (intro image_mset_cong) (simp add: nth_append)
  show ?case
  proof (cases "length xs \<in> A")
    case True
    then have "{i \<in> A. i < length (xs @ [x])} = insert (length xs) {i \<in> A. i < length xs}" by auto
    then show ?thesis using True i snoc by (simp add: nths_append)
  next
    case False
    then have "{i \<in> A. i < length (xs @ [x])} = {i \<in> A. i < length xs}" by (auto simp: less_Suc_eq)
    then show ?thesis using False i snoc by (simp add: nths_append)
  qed
qed simp

lemma mset_taken_out:
  assumes "distinct ps" "set ps \<subseteq> {..<length xs}"
  shows "mset (map ((!) xs) ps) + mset (nths xs (- set ps)) = mset xs"
proof -
  have "mset (map ((!) xs) ps) = image_mset ((!) xs) (mset_set (set ps))"
    using assms(1) by (simp add: mset_set_set)
  moreover have "mset_set (set ps) + mset_set {i \<in> - set ps. i < length xs} = mset_set {..<length xs}"
    using assms(2) by (subst mset_set_Union[symmetric]) (auto intro!: arg_cong[where f = mset_set])
  moreover have "mset xs = image_mset ((!) xs) (mset_set {..<length xs})"
    by (metis map_nth mset_map mset_upt atLeast0LessThan)
  ultimately show ?thesis unfolding mset_nths by (metis image_mset_union)
qed

lemma count_rows:
  "lr_results (fold count_row rows run) = lr_results run @ rows"
  "lr_completed (fold count_row rows run) = lr_completed run + length rows"
  "lr_failed (fold count_row rows run) = lr_failed run + length (filter (\<lambda>r. \<not> rw_ok r) rows)"
  "lr_total_requests (fold count_row rows run) = lr_total_requests run"
  "lr_state (fold count_row rows run) = lr_state run"
  by (induction rows arbitrary: run) (simp_all add: count_row_def)

definition held :: "model_slice \<Rightarrow> nat multiset" where
  "held s = mset (map pn_index (ms_active s @ ms_pending s))"

definition names_its_request :: "(run_args \<Rightarrow> prompt_run \<Rightarrow> ustr + run_result) \<Rightarrow> bool" where
  "names_its_request perform \<longleftrightarrow> (\<forall>args r x. perform args r = Inr x \<longrightarrow> rt_index x = pn_index r)"

lemma settled_index:
  "names_its_request perform \<Longrightarrow> rt_index (settled_result base r (perform args r)) = pn_index r"
  by (cases "perform args r") (auto simp: settled_result_def failed_result_def names_its_request_def)

lemma filled:
  "held (fill_slots s) = held s" "ms_args (fill_slots s) = ms_args s"
  "ms_stop_scheduling (fill_slots s) = ms_stop_scheduling s"
  "length (ms_active s) \<le> max 1 (ar_concurrency (ms_args s)) \<Longrightarrow>
     length (ms_active (fill_slots s)) \<le> max 1 (ar_concurrency (ms_args s))"
  by (auto simp: fill_slots_def held_def Let_def simp flip: union_assoc mset_append map_append)


text \<open>A round settles some of the active requests: what a slice held is what it holds and the new rows.\<close>

lemma turn_of_slice:
  assumes t: "slice_turn base perform ds (s, run) = (s', run')" and p: "names_its_request perform"
  shows "\<exists>rows. run' = fold count_row rows run \<and> held s = held s' + mset (map rw_request_index rows) \<and>
    ms_args s' = ms_args s \<and> length (ms_active s') \<le> length (ms_active (fill_slots s)) \<and>
    (ms_stop_scheduling s' \<longrightarrow> ms_stop_scheduling s \<or>
       \<not> ar_continue_on_error (ms_args s) \<and> filter (\<lambda>r. \<not> rw_ok r) rows \<noteq> []) \<and>
    (rows = [] \<longrightarrow> slice_ended s \<and> s' = fill_slots s) \<and>
    (\<forall>row\<in>set rows. rw_model row = ar_model (ms_args s))"
proof -
  have le: "length (nths xs A) \<le> length xs" for xs :: "prompt_run list" and A
    by (induction xs arbitrary: A) (auto simp: nths_Cons le_SucI)
  define s1 where "s1 = fill_slots s"
  define active where "active = ms_active s1"
  show ?thesis
  proof (cases "active = []")
    case True
    then have "s' = s1" "run' = run" using t by (simp_all add: slice_turn_def Let_def s1_def active_def)
    moreover have "slice_ended s"
      using True unfolding active_def s1_def slice_ended_def fill_slots_def
      by (auto simp: Let_def split: if_splits)
    ultimately show ?thesis
      by (intro exI[of _ "[]"]) (auto simp: s1_def filled)
  next
    case False
    define ps where "ps = done_positions ds (length active)"
    define rows where "rows = map (\<lambda>i. row_of (ar_model (ms_args s1))
      (settled_result base (active ! i) (perform (ms_args s1) (active ! i)))) ps"
    have ps: "distinct ps" "set ps \<subseteq> {..<length active}" "ps \<noteq> []"
      using done_positions_props[of "length active" ds] False unfolding ps_def by auto
    have s': "s' = s1\<lparr>ms_active := nths active (- set ps), ms_stop_scheduling := ms_stop_scheduling s1 \<or>
        (list_ex (\<lambda>row. \<not> rw_ok row) rows \<and> \<not> ar_continue_on_error (ms_args s1))\<rparr>"
      and run': "run' = fold count_row rows run"
      using t False unfolding slice_turn_def rows_def ps_def active_def s1_def by (auto simp: Let_def)
    have "map rw_request_index rows = map pn_index (map ((!) active) ps)"
      by (simp add: rows_def row_of_def settled_index[OF p])
    then have "mset (map rw_request_index rows) + mset (map pn_index (nths active (- set ps))) = mset (map pn_index active)"
      using mset_taken_out[OF ps(1,2), THEN arg_cong[where f = "image_mset pn_index"]]
      by (simp add: multiset.map_comp)
    then have "held s = held s' + mset (map rw_request_index rows)"
      unfolding filled(1)[of s, symmetric] s1_def[symmetric] s' by (simp add: held_def active_def ac_simps)
    moreover have "length (nths active (- set ps)) \<le> length active" by (rule le)
    moreover have "rows \<noteq> []" using ps(3) by (simp add: rows_def)
    moreover have "\<forall>row\<in>set rows. rw_model row = ar_model (ms_args s)"
      by (auto simp: rows_def row_of_def s1_def filled)
    ultimately show ?thesis
      using run' by (intro exI[of _ rows]) (auto simp: s' s1_def active_def filled list_ex_iff filter_empty_conv)
  qed
qed

text \<open>What the slices hold, and what still keeps a slice going.\<close>

definition all_held :: "model_slice list \<Rightarrow> nat multiset" where
  "all_held slices = sum_list (map held slices)"

definition work_left :: "model_slice \<Rightarrow> nat" where
  "work_left s = (if slice_ended s then 0 else length (ms_active s) + length (ms_pending s))"

lemma work_left_0: "work_left s = 0 \<longleftrightarrow> slice_ended s"
  by (auto simp: work_left_def slice_ended_def)

lemma size_held: "size (held s) = length (ms_active s) + length (ms_pending s)"
  by (simp add: held_def)

lemma ended_fill: "slice_ended s \<Longrightarrow> fill_slots s = s"
  by (auto simp: slice_ended_def fill_slots_def Let_def)

lemma turn_work:
  assumes t: "slice_turn base perform ds (s, run) = (s', run')" and p: "names_its_request perform"
  shows "work_left s' \<le> work_left s - 1"
proof (cases "slice_ended s")
  case True
  then have "s' = s" using t ended_fill[OF True] by (auto simp: slice_turn_def slice_ended_def Let_def)
  then show ?thesis using True by (simp add: work_left_def)
next
  case False
  obtain rows where r: "run' = fold count_row rows run" "held s = held s' + mset (map rw_request_index rows)"
    "ms_args s' = ms_args s" "length (ms_active s') \<le> length (ms_active (fill_slots s))"
    "ms_stop_scheduling s' \<longrightarrow> ms_stop_scheduling s \<or>
       \<not> ar_continue_on_error (ms_args s) \<and> filter (\<lambda>r. \<not> rw_ok r) rows \<noteq> []"
    "rows = [] \<longrightarrow> slice_ended s \<and> s' = fill_slots s"
    using turn_of_slice[OF t p] by (elim exE conjE)
  have "length (ms_active s') + length (ms_pending s') + length rows = length (ms_active s) + length (ms_pending s)"
    using r(2)[THEN arg_cong[where f = size]] by (simp add: size_held)
  moreover have "rows \<noteq> []" using r(6) False by blast
  then have "length rows \<ge> 1" by (cases rows) simp_all
  ultimately show ?thesis using False unfolding work_left_def by (cases "slice_ended s'") simp_all
qed

lemma add_cancel_mid: "a + (h + r) = b + h \<Longrightarrow> a + r = (b :: 'a multiset)"
  by (metis add.left_commute add.commute add_left_cancel)

lemma sum_list_update_add:
  fixes f :: "'a \<Rightarrow> 'b :: comm_monoid_add"
  shows "i < length xs \<Longrightarrow> sum_list (map f (xs[i := y])) + f (xs ! i) = sum_list (map f xs) + f y"
proof (induction xs arbitrary: i)
  case (Cons x xs)
  then show ?case by (cases i) (simp_all add: ac_simps)
qed simp

text \<open>The books of a run over the requests \<open>M\<close>.\<close>

definition books :: "nat multiset \<Rightarrow> model_slice list \<times> live_run \<Rightarrow> bool" where
  "books M = (\<lambda>(slices, run).
     mset (map rw_request_index (lr_results run)) + all_held slices = M \<and>
     lr_completed run = length (lr_results run) \<and>
     lr_failed run = length (filter (\<lambda>r. \<not> rw_ok r) (lr_results run)) \<and>
     (\<forall>s\<in>set slices. length (ms_active s) \<le> max 1 (ar_concurrency (ms_args s)) \<and>
        (ms_stop_scheduling s \<longrightarrow> \<not> ar_continue_on_error (ms_args s) \<and> lr_failed run > 0)))"

lemma run_turn_effect:
  assumes "run_turn base perform (i, ds) (slices, run) = (slices', run')" "i < length slices"
  obtains s' where "slice_turn base perform ds (slices ! i, run) = (s', run')" "slices' = slices[i := s']"
  using assms by (auto simp: run_turn_def split: prod.splits)

lemma run_turn_books:
  assumes b: "books M (slices, run)" and p: "names_its_request perform"
    and t: "run_turn base perform (i, ds) (slices, run) = (slices', run')"
  shows "books M (slices', run')"
proof (cases "i < length slices")
  case False
  then show ?thesis using b t by (simp add: run_turn_def)
next
  case True
  obtain s' where s': "slice_turn base perform ds (slices ! i, run) = (s', run')" "slices' = slices[i := s']"
    using run_turn_effect[OF t True] .
  obtain rows where r: "run' = fold count_row rows run" "held (slices ! i) = held s' + mset (map rw_request_index rows)"
    "ms_args s' = ms_args (slices ! i)" "length (ms_active s') \<le> length (ms_active (fill_slots (slices ! i)))"
    "ms_stop_scheduling s' \<Longrightarrow> ms_stop_scheduling (slices ! i) \<or>
       \<not> ar_continue_on_error (ms_args (slices ! i)) \<and> filter (\<lambda>r. \<not> rw_ok r) rows \<noteq> []"
    using turn_of_slice[OF s'(1) p] by blast
  have "all_held slices' + held (slices ! i) = all_held slices + held s'"
    unfolding all_held_def s'(2) by (rule sum_list_update_add[OF True])
  then have "all_held slices' + mset (map rw_request_index rows) = all_held slices"
    unfolding r(2) by (rule add_cancel_mid)
  then have "mset (map rw_request_index (lr_results run)) + (all_held slices' + mset (map rw_request_index rows)) = M"
    using b by (simp add: books_def)
  moreover have "mset (map rw_request_index (lr_results run')) =
      mset (map rw_request_index (lr_results run)) + mset (map rw_request_index rows)"
    by (simp add: r(1) count_rows)
  ultimately have total: "mset (map rw_request_index (lr_results run')) + all_held slices' = M"
    by (metis add.assoc add.commute)
  have old: "length (ms_active s) \<le> max 1 (ar_concurrency (ms_args s)) \<and>
      (ms_stop_scheduling s \<longrightarrow> \<not> ar_continue_on_error (ms_args s) \<and> lr_failed run > 0)" if "s \<in> set slices" for s
    using b that unfolding books_def by blast
  have new: "length (ms_active s) \<le> max 1 (ar_concurrency (ms_args s)) \<and>
      (ms_stop_scheduling s \<longrightarrow> \<not> ar_continue_on_error (ms_args s) \<and> lr_failed run' > 0)" if "s \<in> set slices'" for s
  proof -
    have "s \<in> set slices \<or> s = s'" using that set_update_subset_insert[of slices i s'] unfolding s'(2) by blast
    then show ?thesis
    proof
      assume "s \<in> set slices"
      then show ?thesis using old by (simp add: r(1) count_rows)
    next
      assume s: "s = s'"
      have m: "slices ! i \<in> set slices" using True by simp
      have "length (ms_active s') \<le> max 1 (ar_concurrency (ms_args s'))"
        using r(3,4) filled(4)[OF conjunct1[OF old[OF m]]] by simp
      moreover have "\<not> ar_continue_on_error (ms_args s') \<and> lr_failed run' > 0" if "ms_stop_scheduling s'"
        using r(5)[OF that] old[OF m] by (auto simp: r(1,3) count_rows)
      ultimately show ?thesis using s by simp
    qed
  qed
  have "lr_completed run' = length (lr_results run')"
    "lr_failed run' = length (filter (\<lambda>r. \<not> rw_ok r) (lr_results run'))"
    using b by (simp_all add: books_def r(1) count_rows)
  then show ?thesis using total new unfolding books_def by blast
qed


lemma run_turns_books:
  "books M (slices, run) \<Longrightarrow> names_its_request perform \<Longrightarrow> books M (fold (run_turn base perform) sched (slices, run))"
proof (induction sched arbitrary: slices run)
  case (Cons t sched)
  obtain i ds where t: "t = (i, ds)" by (cases t)
  obtain slices' run' where e: "run_turn base perform (i, ds) (slices, run) = (slices', run')" by fastforce
  show ?case using Cons.IH[OF run_turn_books[OF Cons.prems e] Cons.prems(2)] by (simp add: t e)
qed simp

text \<open>
  The books of each model, for itself: the rows that carry its name and what its slices hold are its share
  \<open>H\<close>, and a slice that has stopped has a failed row of its own.
\<close>

abbreviation slice_model :: "model_slice \<Rightarrow> ustr" where "slice_model x \<equiv> ar_model (ms_args x)"

definition rows_for :: "ustr \<Rightarrow> live_run \<Rightarrow> result_row list" where
  "rows_for m run = filter (\<lambda>r. rw_model r = m) (lr_results run)"

definition held_for :: "ustr \<Rightarrow> model_slice list \<Rightarrow> nat multiset" where
  "held_for m slices = sum_list (map (\<lambda>x. if slice_model x = m then held x else {#}) slices)"

definition model_books :: "(ustr \<Rightarrow> nat multiset) \<Rightarrow> model_slice list \<times> live_run \<Rightarrow> bool" where
  "model_books H = (\<lambda>(slices, run).
     (\<forall>m. mset (map rw_request_index (rows_for m run)) + held_for m slices = H m) \<and>
     (\<forall>x\<in>set slices. ms_stop_scheduling x \<longrightarrow> \<not> ar_continue_on_error (ms_args x) \<and>
        (\<exists>r\<in>set (rows_for (slice_model x) run). \<not> rw_ok r)))"

lemma run_turn_model_books:
  assumes b: "model_books H (slices, run)" and p: "names_its_request perform"
    and t: "run_turn base perform (i, ds) (slices, run) = (slices', run')"
  shows "model_books H (slices', run')"
proof (cases "i < length slices")
  case False
  then show ?thesis using b t by (simp add: run_turn_def)
next
  case True
  obtain s' where s': "slice_turn base perform ds (slices ! i, run) = (s', run')" "slices' = slices[i := s']"
    using run_turn_effect[OF t True] .
  obtain rows where r: "run' = fold count_row rows run" "held (slices ! i) = held s' + mset (map rw_request_index rows)"
    "ms_args s' = ms_args (slices ! i)"
    "ms_stop_scheduling s' \<Longrightarrow> ms_stop_scheduling (slices ! i) \<or>
       \<not> ar_continue_on_error (ms_args (slices ! i)) \<and> filter (\<lambda>r. \<not> rw_ok r) rows \<noteq> []"
    "\<And>row. row \<in> set rows \<Longrightarrow> rw_model row = slice_model (slices ! i)"
    using turn_of_slice[OF s'(1) p] by blast
  have rows: "rows_for m run' = rows_for m run @ (if m = slice_model (slices ! i) then rows else [])" for m
    using r(5) by (auto simp: rows_for_def r(1) count_rows filter_empty_conv intro!: filter_True)
  have "mset (map rw_request_index (rows_for m run')) + held_for m slices' = H m" for m
  proof -
    let ?f = "\<lambda>x. if slice_model x = m then held x else {#}"
    have moved: "held_for m slices' + ?f (slices ! i) = held_for m slices + ?f s'"
      unfolding held_for_def s'(2) by (rule sum_list_update_add[OF True])
    have own: "?f (slices ! i) = ?f s' + mset (map rw_request_index (if m = slice_model (slices ! i) then rows else []))"
      using r(2,3) by simp
    have "held_for m slices' + mset (map rw_request_index (if m = slice_model (slices ! i) then rows else []))
        = held_for m slices"
      by (rule add_cancel_mid) (rule moved[unfolded own])
    moreover have "mset (map rw_request_index (rows_for m run)) + held_for m slices = H m"
      using b by (simp add: model_books_def)
    ultimately show ?thesis unfolding rows map_append mset_append by (metis add.assoc add.commute)
  qed
  moreover have "\<not> ar_continue_on_error (ms_args x) \<and> (\<exists>r\<in>set (rows_for (slice_model x) run'). \<not> rw_ok r)"
    if x: "x \<in> set slices'" "ms_stop_scheduling x" for x
  proof -
    have old: "\<not> ar_continue_on_error (ms_args y) \<and> (\<exists>r\<in>set (rows_for (slice_model y) run'). \<not> rw_ok r)"
      if "y \<in> set slices" "ms_stop_scheduling y" for y
      using b that unfolding rows by (auto simp: model_books_def)
    have "x \<in> set slices \<or> x = s'" using x(1) set_update_subset_insert[of slices i s'] unfolding s'(2) by blast
    then show ?thesis
    proof
      assume s: "x = s'"
      show ?thesis
        using r(4)[OF x(2)[unfolded s]] old[of "slices ! i"] True
        by (auto simp: s r(3) rows filter_empty_conv)
    qed (use old x(2) in blast)
  qed
  ultimately show ?thesis by (simp add: model_books_def)
qed

lemma run_turns_model_books:
  "model_books H (slices, run) \<Longrightarrow> names_its_request perform \<Longrightarrow>
     model_books H (fold (run_turn base perform) sched (slices, run))"
proof (induction sched arbitrary: slices run)
  case (Cons t sched)
  obtain i ds where t: "t = (i, ds)" by (cases t)
  obtain slices' run' where e: "run_turn base perform (i, ds) (slices, run) = (slices', run')" by fastforce
  show ?case using Cons.IH[OF run_turn_model_books[OF Cons.prems e] Cons.prems(2)] by (simp add: t e)
qed simp

lemma run_turn_shape:
  "length (fst (run_turn base perform t sr)) = length (fst sr)"
  "lr_state (snd (run_turn base perform t sr)) = lr_state (snd sr)"
  "lr_total_requests (snd (run_turn base perform t sr)) = lr_total_requests (snd sr)"
  by (auto simp: run_turn_def slice_turn_def count_rows Let_def split: prod.splits)

lemma run_turns_shape:
  "length (fst (fold (run_turn base perform) sched sr)) = length (fst sr)"
  "lr_state (snd (fold (run_turn base perform) sched sr)) = lr_state (snd sr)"
  "lr_total_requests (snd (fold (run_turn base perform) sched sr)) = lr_total_requests (snd sr)"
  by (induction sched arbitrary: sr) (simp_all add: run_turn_shape)

lemma run_turns_work:
  assumes p: "names_its_request perform" and i: "i < length (fst sr)"
  shows "work_left (fst (fold (run_turn base perform) sched sr) ! i) \<le> work_left (fst sr ! i) - count_list (map fst sched) i"
  using i
proof (induction sched arbitrary: sr)
  case (Cons t sched)
  obtain j ds where t: "t = (j, ds)" by (cases t)
  obtain slices run where sr: "sr = (slices, run)" by (cases sr)
  have "work_left (fst (run_turn base perform t sr) ! i) \<le> work_left (fst sr ! i) - (if j = i then 1 else 0)"
  proof (cases "j < length slices")
    case True
    obtain s' run' where s': "slice_turn base perform ds (slices ! j, run) = (s', run')" by fastforce
    then have "fst (run_turn base perform t sr) = slices[j := s']" by (simp add: t sr run_turn_def True)
    then show ?thesis using turn_work[OF s' p] Cons.prems by (auto simp: sr nth_list_update)
  next
    case False
    then show ?thesis using Cons.prems by (auto simp: t sr run_turn_def)
  qed
  moreover have "work_left (fst (fold (run_turn base perform) sched (run_turn base perform t sr)) ! i)
      \<le> work_left (fst (run_turn base perform t sr) ! i) - count_list (map fst sched) i"
    using Cons.prems by (intro Cons.IH) (simp add: run_turn_shape)
  ultimately show ?case by (simp add: t split: if_splits)
qed simp

lemma slice_turn_args: "ms_args (fst (slice_turn base perform ds sr)) = ms_args (fst sr)"
  by (cases sr) (simp add: slice_turn_def filled Let_def)

lemma run_turns_args: "map ms_args (fst (fold (run_turn base perform) sched sr)) = map ms_args (fst sr)"
proof (induction sched arbitrary: sr)
  case (Cons t sched)
  have "map ms_args (fst (run_turn base perform t sr)) = map ms_args (fst sr)"
  proof (cases "fst t < length (fst sr)")
    case True
    have "fst (run_turn base perform t sr) =
        (fst sr)[fst t := fst (slice_turn base perform (snd t) (fst sr ! fst t, snd sr))]"
      using True by (simp add: run_turn_def case_prod_beta Let_def)
    then show ?thesis
      using True slice_turn_args[of base perform "snd t" "(fst sr ! fst t, snd sr)"]
      by (simp add: map_update) (metis list_update_id nth_map)
  next
    case False
    then show ?thesis by (simp add: run_turn_def case_prod_beta Let_def)
  qed
  then show ?case using Cons.IH[of "run_turn base perform t sr"] by simp
qed simp

lemma single_names_request: "names_its_request (run_single_prompt lib serve base run_id)"
proof -
  have "rt_index x = pn_index r" if "try_endpoints lib serve base payload r err es = Inr x" for payload r err es x
    using that
    by (induction lib serve base payload r err es rule: try_endpoints.induct)
      (auto simp: failed_result_def split: option.splits sum.splits prod.splits if_splits)
  then show ?thesis unfolding names_its_request_def run_single_prompt_def by blast
qed

section \<open>A run\<close>

lemma prompt_runs_indices: "map pn_index (prompt_runs ps cs) = [0..<length (prompt_runs ps cs)]"
  by (auto simp: prompt_runs_def Let_def split: prod.splits intro!: nth_equalityI)

lemma set_up_facts:
  assumes "set_up w s = (n, Inr (selected, slices))"
  shows "n = length selected" "distinct (map pn_index selected)"
    "slices = allocate (lib_remainder (w_lib w)) selected (rs_models s)"
proof -
  obtain runs where r: "select_prompt_runs runs (rs_start_prompt s) = Some selected" "\<exists>ps cs. runs = prompt_runs ps cs"
    and n: "n = length selected" "slices = allocate (lib_remainder (w_lib w)) selected (rs_models s)"
    using assms unfolding set_up_def Let_def by (auto split: sum.splits option.splits if_splits)
  show "n = length selected" "slices = allocate (lib_remainder (w_lib w)) selected (rs_models s)" by fact+
  have "distinct (map pn_index runs)" using r(2) prompt_runs_indices by (metis distinct_upt)
  then show "distinct (map pn_index selected)"
    using r(1) by (auto simp: select_prompt_runs_def drop_map[symmetric] split: if_splits intro: distinct_drop)
qed

lemma start_holds:
  assumes "length (rs_models s) = length slices"
  shows "all_held (start_slices s slices) = mset (map pn_index (concat slices))"
proof -
  have "sum_list (map held (map (\<lambda>(a, runs). new_slice (to_namespace s a) runs)
      (filter (\<lambda>(a, runs). runs \<noteq> []) (zip as slices)))) = mset (map pn_index (concat slices))"
    if "length as = length slices" for as :: "allocation list" and slices
    using that
  proof (induction as slices rule: list_induct2)
    case (Cons a as x xs)
    then show ?case by (cases "x = []") (simp_all add: held_def new_slice_def)
  qed simp
  then show ?thesis using assms by (simp add: all_held_def start_slices_def)
qed

lemma start_books:
  assumes ok: "settings_ok s" and u: "set_up w s = (n, Inr (selected, slices))"
  shows "books (mset (map pn_index selected)) (start_slices s slices, new_run\<lparr>lr_total_requests := n\<rparr>)"
proof -
  have al: "allocations_ok (rs_models s)" using ok by (simp add: settings_ok_def)
  have sl: "slices = allocate (lib_remainder (w_lib w)) selected (rs_models s)" by (rule set_up_facts(3)[OF u])
  have "all_held (start_slices s slices) = mset (map pn_index selected)"
    using start_holds[of s slices] allocate_all[OF al, of "lib_remainder (w_lib w)" selected]
      length_allocate[OF al, of "lib_remainder (w_lib w)" selected] unfolding sl by simp
  moreover have "ms_active x = [] \<and> \<not> ms_stop_scheduling x" if "x \<in> set (start_slices s slices)" for x
    using that by (auto simp: start_slices_def new_slice_def)
  ultimately show ?thesis by (auto simp: books_def new_run_def)
qed


lemma start_held_for:
  assumes "length (rs_models s) = length slices" "distinct (map al_model (rs_models s))" "k < length slices"
  shows "held_for (al_model (rs_models s ! k)) (start_slices s slices) = mset (map pn_index (slices ! k))"
proof -
  let ?start = "\<lambda>as slices. map (\<lambda>(a, runs). new_slice (to_namespace s a) runs)
      (filter (\<lambda>(a, runs). runs \<noteq> []) (zip as slices))"
  have none: "held_for m (?start as slices) = {#}" if "m \<notin> set (map al_model as)"
    for m and as :: "allocation list" and slices
    using that
  proof (induction as arbitrary: slices)
    case (Cons a as)
    then show ?case by (cases slices) (auto simp: held_for_def new_slice_def to_namespace_def)
  qed (simp add: held_for_def)
  have "held_for (al_model (as ! k)) (?start as slices) = mset (map pn_index (slices ! k))"
    if "length as = length slices" "distinct (map al_model as)" "k < length slices"
    for k and as :: "allocation list" and slices
    using that
  proof (induction as slices arbitrary: k rule: list_induct2)
    case (Cons a as x xs)
    have split: "held_for m (?start (a # as) (x # xs)) =
        (if al_model a = m then mset (map pn_index x) else {#}) + held_for m (?start as xs)" for m
      by (cases "x = []") (simp_all add: held_for_def held_def new_slice_def to_namespace_def)
    show ?case
    proof (cases k)
      case 0
      then show ?thesis using split[of "al_model a"] none[of "al_model a" as xs] Cons.prems by simp
    next
      case (Suc j)
      then have "al_model (as ! j) \<in> set (map al_model as)" using Cons.prems Cons.hyps by simp
      then have "al_model a \<noteq> al_model (as ! j)" using Cons.prems by auto
      then show ?thesis using Suc split[of "al_model (as ! j)"] Cons.IH[of j] Cons.prems by simp
    qed
  qed simp
  then show ?thesis using assms unfolding start_slices_def by blast
qed

lemma start_model_books:
  "model_books (\<lambda>m. held_for m (start_slices s slices)) (start_slices s slices, new_run\<lparr>lr_total_requests := n\<rparr>)"
  by (auto simp: model_books_def rows_for_def new_run_def start_slices_def new_slice_def)

lemma execute_run_eq:
  assumes "set_up w s = (n, Inr (selected, slices))" "build_url (w_base w) (hd ENDPOINTS) \<noteq> None"
    and "fold (run_turn (w_base w) (run_single_prompt (w_lib w) (w_serve w) (w_base w) run_id)) sched
      (start_slices s slices, new_run\<lparr>lr_total_requests := n\<rparr>) = (ended, run)"
  shows "execute_run w run_id s sched = (ended, if list_all slice_ended ended then run\<lparr>lr_state := Completed\<rparr> else run)"
  using assms by (auto simp: execute_run_def)

text \<open>C21: The counters and rows of a run account for every request. With the URL of the service valid, under every
  interleaving of the threads of its slices, the requests that have a row, those in flight and those waiting are together exactly the
  selected requests, each once; \<open>completed\<close> and \<open>failed\<close> count the rows and the failed ones; and no model
  ever has more requests in flight than its concurrency.\<close>

theorem run_accounts:
  assumes ok: "settings_ok s" and url: "build_url (w_base w) (hd ENDPOINTS) \<noteq> None"
    and u: "set_up w s = (n, Inr (selected, slices))" and e: "execute_run w run_id s sched = (ss, run)"
  shows "mset (map rw_request_index (lr_results run)) +
      sum_list (map (\<lambda>x. mset (map pn_index (ms_active x @ ms_pending x))) ss) = mset (map pn_index selected) \<and>
    distinct (map rw_request_index (lr_results run)) \<and>
    lr_total_requests run = length selected \<and> lr_completed run = length (lr_results run) \<and>
    lr_failed run = length (filter (\<lambda>r. \<not> rw_ok r) (lr_results run)) \<and>
    list_all (\<lambda>x. length (ms_active x) \<le> max 1 (ar_concurrency (ms_args x))) ss"
proof -
  let ?perform = "run_single_prompt (w_lib w) (w_serve w) (w_base w) run_id"
  obtain ended r where f: "fold (run_turn (w_base w) ?perform) sched
      (start_slices s slices, new_run\<lparr>lr_total_requests := n\<rparr>) = (ended, r)" by fastforce
  have b: "books (mset (map pn_index selected)) (ended, r)"
    unfolding f[symmetric] by (rule run_turns_books[OF start_books[OF ok u] single_names_request])
  have n: "lr_total_requests r = length selected"
    using run_turns_shape(3)[of "w_base w" ?perform sched "(start_slices s slices, new_run\<lparr>lr_total_requests := n\<rparr>)"]
      set_up_facts(1)[OF u] unfolding f by simp
  have ss: "ss = ended" "lr_results run = lr_results r" "lr_completed run = lr_completed r" "lr_failed run = lr_failed r"
    "lr_total_requests run = lr_total_requests r"
    using execute_run_eq[OF u url f] e by (auto split: if_splits)
  have "mset (map rw_request_index (lr_results r)) + all_held ended = mset (map pn_index selected)"
    using b unfolding books_def by blast
  moreover obtain zs where "mset zs = all_held ended" using ex_mset by blast
  ultimately have "mset (map rw_request_index (lr_results r) @ zs) = mset (map pn_index selected)" by simp
  then have "distinct (map rw_request_index (lr_results r))"
    using set_up_facts(2)[OF u] by (metis mset_eq_imp_distinct_iff distinct_append)
  then show ?thesis
    using b n unfolding ss books_def all_held_def held_def by (auto simp: list_all_iff)
qed

text \<open>C9: A run comes to its end and leaves nothing out without saying so. With the URL valid, once the
  thread of every slice has had as many rounds as its slice has requests, the run is completed with nothing
  in flight; and model by model, the rows that carry its name are rows of requests of its own slice, each at
  most once, and are all of them unless the run does not continue on errors and a request of this very
  model failed: a failure of one model's slice keeps no other model's requests back.\<close>

theorem run_completes:
  assumes ok: "settings_ok s" and url: "build_url (w_base w) (hd ENDPOINTS) \<noteq> None"
    and u: "set_up w s = (n, Inr (selected, slices))"
    and turns: "\<And>i. i < length (start_slices s slices) \<Longrightarrow>
      length (ms_pending (start_slices s slices ! i)) \<le> count_list (map fst sched) i"
    and e: "execute_run w run_id s sched = (ss, run)"
  shows "lr_state run = Completed \<and> list_all (\<lambda>x. ms_active x = []) ss \<and>
    length slices = length (rs_models s) \<and> concat slices = selected \<and>
    (\<forall>k < length slices. let rows = filter (\<lambda>r. rw_model r = al_model (rs_models s ! k)) (lr_results run) in
       mset (map rw_request_index rows) \<subseteq># mset (map pn_index (slices ! k)) \<and>
       (rs_continue_on_error s \<or> list_all rw_ok rows \<longrightarrow>
          mset (map rw_request_index rows) = mset (map pn_index (slices ! k))))"
proof -
  let ?perform = "run_single_prompt (w_lib w) (w_serve w) (w_base w) run_id"
  let ?start = "(start_slices s slices, new_run\<lparr>lr_total_requests := n\<rparr>)"
  have al: "allocations_ok (rs_models s)" using ok by (simp add: settings_ok_def)
  note sl = set_up_facts(3)[OF u]
  have shape: "length slices = length (rs_models s)" "concat slices = selected"
    unfolding sl by (rule length_allocate[OF al], rule allocate_all[OF al])
  obtain ended r where f: "fold (run_turn (w_base w) ?perform) sched ?start = (ended, r)" by fastforce
  have b: "model_books (\<lambda>m. held_for m (start_slices s slices)) (ended, r)"
    unfolding f[symmetric] by (rule run_turns_model_books[OF start_model_books single_names_request])
  have len: "length ended = length (start_slices s slices)"
    using run_turns_shape(1)[of "w_base w" ?perform sched ?start] unfolding f by simp
  have "work_left (ended ! i) = 0" if i: "i < length ended" for i
  proof -
    have "work_left (start_slices s slices ! i) \<le> length (ms_pending (start_slices s slices ! i))"
      using i len by (auto simp: work_left_def start_slices_def new_slice_def case_prod_beta)
    then show ?thesis
      using run_turns_work[OF single_names_request, of i ?start "w_base w" "w_lib w" "w_serve w" "w_base w" run_id sched]
        turns[of i] i len unfolding f by simp
  qed
  then have ended: "list_all slice_ended ended" by (auto simp: list_all_length work_left_0)
  then have run: "ss = ended" "run = r\<lparr>lr_state := Completed\<rparr>" using execute_run_eq[OF u url f] e by auto
  have args: "ar_continue_on_error (ms_args x) = rs_continue_on_error s" if "x \<in> set ended" for x
  proof -
    have "ms_args x \<in> set (map ms_args (start_slices s slices))"
      using run_turns_args[of "w_base w" ?perform sched ?start] that unfolding f by (metis fst_conv image_eqI set_map)
    then show ?thesis by (auto simp: start_slices_def new_slice_def to_namespace_def)
  qed
  have own: "mset (map rw_request_index (rows_for (al_model (rs_models s ! k)) r)) + held_for (al_model (rs_models s ! k)) ended
      = mset (map pn_index (slices ! k))" if "k < length slices" for k
    using b start_held_for[of s slices k] shape(1) al that by (simp add: model_books_def allocations_ok_def)
  have none: "held_for m ended = {#}" if c: "rs_continue_on_error s \<or> list_all rw_ok (rows_for m r)" for m
  proof -
    have "held x = {#}" if "x \<in> set ended" "slice_model x = m" for x
    proof -
      have "\<not> ms_stop_scheduling x" using b that args[OF that(1)] c by (auto simp: model_books_def list_all_iff)
      then show ?thesis using ended that(1) by (auto simp: held_def slice_ended_def list_all_iff)
    qed
    then have empty: "map (\<lambda>x. if slice_model x = m then held x else {#}) ended = map (\<lambda>_. {#}) ended" by auto
    show ?thesis unfolding held_for_def empty by simp
  qed
  have "list_all (\<lambda>x. ms_active x = []) ended" using ended by (auto simp: list_all_iff slice_ended_def)
  moreover have "mset (map rw_request_index (rows_for (al_model (rs_models s ! k)) r)) \<subseteq># mset (map pn_index (slices ! k))"
    "rs_continue_on_error s \<or> list_all rw_ok (rows_for (al_model (rs_models s ! k)) r) \<Longrightarrow>
      mset (map rw_request_index (rows_for (al_model (rs_models s ! k)) r)) = mset (map pn_index (slices ! k))"
    if "k < length slices" for k
    using own[OF that] none[of "al_model (rs_models s ! k)"] by (metis mset_subset_eq_add_left, simp)
  ultimately show ?thesis using shape by (simp add: run rows_for_def Let_def)
qed


text \<open>Two prompts for one model of an answering service.\<close>

definition example_world :: run_world where
  "example_world =
     \<lparr>w_lib = \<lparr>lib_float = id, lib_why = id, lib_url = url_path, lib_repr = dumped, lib_six = id,
               lib_remainder = (\<lambda>_. 0)\<rparr>,
      w_promptbench = Some (\<lambda>_. Some (\<lambda>i. Some (JDict [(uni ''content'', JStr (uni ''x''))]))),
      w_base = \<lparr>url_scheme = uni ''http'', url_netloc = uni ''open-webui:8080'', url_path = [], url_query = [],
                url_fragment = []\<rparr>,
      w_key = uni ''key'', w_signin = Inl [],
      w_get = (\<lambda>_. Unreachable []),
      w_serve = (\<lambda>_ _. Answer 200 ''text/event-stream'' [uni ''data: [DONE]''] Body_ends)\<rparr>"

definition example_settings :: run_settings where
  "example_settings =
     \<lparr>rs_models = [\<lparr>al_model = uni ''m'', al_percent = 100, al_concurrency = 2\<rparr>],
      rs_preset = uni ''verification-v1'', rs_prompt_count = int 2, rs_start_prompt = 1, rs_max_tokens = 100,
      rs_continue_on_error = False, rs_skip_preflight = True\<rparr>"

lemma example_set_up:
  obtains selected where "set_up example_world example_settings = (2, Inr (selected, [selected]))" "length selected = 2"
proof -
  have m: "map_of PROMPTBENCH_PRESETS (uni ''verification-v1'') = Some VERIFICATION_V1"
    by (simp add: PROMPTBENCH_PRESETS_def)
  let ?pb = "\<lambda>_. Some (\<lambda>i. Some (JDict [(uni ''content'', JStr (uni ''x''))]))"
  obtain ps where ps: "load_promptbench_prompts dumped (Some ?pb) (uni ''verification-v1'') (int 2) = Inr ps"
      "map pr_index ps = [0..<2]"
    using load_ready_preset[OF m, of 2 ?pb dumped] expanded_ready[OF m, of _ 2 ?pb] by auto
  have "length ps = 2" using ps(2)[THEN arg_cong[where f = length]] by simp
  let ?c = "sampling_config_of id (uni ''1.0'') (uni ''0.95'') 50"
  let ?sel = "prompt_runs ps [?c]"
  have l: "length ?sel = 2" using \<open>length ps = 2\<close> by (simp add: prompt_runs_def Let_def)
  have a: "allocate (\<lambda>_. 0) ?sel [\<lparr>al_model = uni ''m'', al_percent = 100, al_concurrency = 2\<rparr>] = [?sel]"
    by (simp add: allocate_def allocated_sizes_def l take_to_def Let_def)
  have "?sel \<noteq> []" using l by auto
  then have "set_up example_world example_settings = (2, Inr (?sel, [?sel]))"
    using ps(1) l a
    by (simp add: set_up_def example_world_def example_settings_def resolve_api_key_def uni_def[of "''key''"]
        sampling_configs_def to_namespace_def select_prompt_runs_def Let_def)
  then show thesis using that l by blast
qed

lemma example_settings_ok: "settings_ok example_settings"
  by (simp add: settings_ok_def example_settings_def allocations_ok_def)

lemma example_url: "build_url (w_base example_world) (hd ENDPOINTS) \<noteq> None"
  by (simp add: build_url_def example_world_def uni_def Let_def)

lemma run_accounts_witness:
  "\<exists>selected ss run. set_up example_world example_settings = (2, Inr (selected, [selected])) \<and>
     execute_run example_world (uni ''r'') example_settings [(0, [1])] = (ss, run) \<and>
     lr_total_requests run = 2 \<and> lr_completed run = length (lr_results run)"
proof -
  obtain selected where s: "set_up example_world example_settings = (2, Inr (selected, [selected]))"
    "length selected = 2" by (rule example_set_up)
  obtain ss run where e: "execute_run example_world (uni ''r'') example_settings [(0, [1])] = (ss, run)" by fastforce
  show ?thesis using run_accounts[OF example_settings_ok example_url s(1) e] s e by auto
qed

lemma run_completes_witness:
  "\<exists>ss run. execute_run example_world (uni ''r'') example_settings [(0, []), (0, [])] = (ss, run) \<and>
     lr_state run = Completed"
proof -
  obtain selected where s: "set_up example_world example_settings = (2, Inr (selected, [selected]))"
    "length selected = 2" by (rule example_set_up)
  obtain ss run where e: "execute_run example_world (uni ''r'') example_settings [(0, []), (0, [])] = (ss, run)"
    by fastforce
  have "start_slices example_settings [selected] =
      [new_slice (to_namespace example_settings (hd (rs_models example_settings))) selected]"
    using s(2) by (auto simp: start_slices_def example_settings_def)
  then have "length (ms_pending (start_slices example_settings [selected] ! i)) \<le> count_list (map fst [(0, []), (0, [])]) i"
    if "i < length (start_slices example_settings [selected])" for i
    using that s(2) by (simp add: new_slice_def)
  then show ?thesis using run_completes[OF example_settings_ok example_url s(1) _ e] e by blast
qed

end
