(* ===== verification/Run_Store.thy ===== *)
theory Run_Store
  imports Prompts
begin

text \<open>
  The tables of the prompt runner and the operations of \<open>RunStore\<close> (\<^verbatim>\<open>prompt-runner/app/db.py\<close>), and the
  endpoints over them (\<^verbatim>\<open>prompt-runner/app/service.py\<close>).

  A table is the list of its rows in the order of insertion. An operation is one transaction; \<open>now()\<close> is an
  argument. Where several rows have the same \<open>created_at\<close>, the order SQL leaves open is that of insertion.
\<close>

section \<open>Tables\<close>

record bench_run =
  bn_id :: ustr
  bn_state :: run_state
  bn_created_at :: nat
  bn_started_at :: "nat option"
  bn_finished_at :: "nat option"
  bn_error :: "ustr option"
  bn_settings :: json
  bn_total_requests :: nat
  bn_completed :: nat
  bn_failed :: nat

record bench_result =
  br_run_id :: ustr
  br_request_index :: nat
  br_prompt_id :: ustr
  br_sampling_id :: ustr
  br_model :: ustr
  br_status_code :: "int option"
  br_stream_completed :: bool
  br_error :: "ustr option"

record run_db =
  rd_runs :: "bench_run list"
  rd_results :: "bench_result list"

definition empty_run_db :: run_db where
  "empty_run_db = \<lparr>rd_runs = [], rd_results = []\<rparr>"

definition run_ids :: "run_db \<Rightarrow> ustr list" where
  "run_ids d = map bn_id (rd_runs d)"

definition update_runs :: "(bench_run \<Rightarrow> bool) \<Rightarrow> (bench_run \<Rightarrow> bench_run) \<Rightarrow> run_db \<Rightarrow> run_db" where
  "update_runs where_clause set_clause d =
     d\<lparr>rd_runs := map (\<lambda>r. if where_clause r then set_clause r else r) (rd_runs d)\<rparr>"

section \<open>Operations\<close>

text \<open>An id that is there already violates the primary key.\<close>

definition insert_queued :: "nat \<Rightarrow> ustr \<Rightarrow> json \<Rightarrow> run_db \<Rightarrow> run_db option" where
  "insert_queued now run_id settings d =
     (if run_id \<in> set (run_ids d) then None
      else Some (d\<lparr>rd_runs := rd_runs d @
        [\<lparr>bn_id = run_id, bn_state = Queued, bn_created_at = now, bn_started_at = None, bn_finished_at = None,
          bn_error = None, bn_settings = settings, bn_total_requests = 0, bn_completed = 0, bn_failed = 0\<rparr>]\<rparr>))"

definition next_queued :: "run_db \<Rightarrow> bench_run option" where
  "next_queued d =
     (if list_ex (\<lambda>r. bn_state r = Running) (rd_runs d) then None
      else case sort_key bn_created_at (filter (\<lambda>r. bn_state r = Queued) (rd_runs d)) of
        [] \<Rightarrow> None
      | r # _ \<Rightarrow> Some r)"

definition claim_next :: "nat \<Rightarrow> run_db \<Rightarrow> run_db \<times> bench_run option" where
  "claim_next now d =
     (case next_queued d of
        None \<Rightarrow> (d, None)
      | Some r \<Rightarrow>
          (let claimed = r\<lparr>bn_state := Running, bn_started_at := Some now\<rparr> in
           (update_runs (\<lambda>x. bn_id x = bn_id r) (\<lambda>_. claimed) d, Some claimed)))"

definition set_finished :: "nat \<Rightarrow> ustr \<Rightarrow> run_state \<Rightarrow> ustr option \<Rightarrow> run_db \<Rightarrow> run_db" where
  "set_finished now run_id st err =
     update_runs (\<lambda>r. bn_id r = run_id) (\<lambda>r. r\<lparr>bn_state := st, bn_error := err, bn_finished_at := Some now\<rparr>)"

definition set_error :: "nat \<Rightarrow> ustr \<Rightarrow> ustr \<Rightarrow> run_db \<Rightarrow> run_db" where
  "set_error now run_id err = set_finished now run_id Error (Some err)"

definition store_progress :: "ustr \<Rightarrow> nat \<Rightarrow> nat \<Rightarrow> nat \<Rightarrow> run_db \<Rightarrow> run_db" where
  "store_progress run_id total_requests completed failed =
     update_runs (\<lambda>r. bn_id r = run_id)
       (\<lambda>r. r\<lparr>bn_total_requests := total_requests, bn_completed := completed, bn_failed := failed\<rparr>)"

definition stored :: "ustr \<Rightarrow> result_row \<Rightarrow> bench_result" where
  "stored run_id r =
     \<lparr>br_run_id = run_id, br_request_index = rw_request_index r, br_prompt_id = rw_prompt_id r,
      br_sampling_id = rw_sampling_id r, br_model = rw_model r, br_status_code = rw_status_code r,
      br_stream_completed = rw_stream_completed r, br_error = rw_error r\<rparr>"

text \<open>\<open>ON CONFLICT DO NOTHING\<close>.\<close>

definition insert_result :: "bench_result \<Rightarrow> bench_result list \<Rightarrow> bench_result list" where
  "insert_result x xs =
     (if (br_run_id x, br_request_index x) \<in> set (map (\<lambda>y. (br_run_id y, br_request_index y)) xs) then xs else xs @ [x])"

text \<open>All rows in one transaction; a run that is not there violates the foreign key.\<close>

definition add_results :: "ustr \<Rightarrow> result_row list \<Rightarrow> run_db \<Rightarrow> run_db option" where
  "add_results run_id rows d =
     (if rows = [] then Some d
      else if run_id \<notin> set (run_ids d) then None
      else Some (d\<lparr>rd_results := fold (\<lambda>r. insert_result (stored run_id r)) rows (rd_results d)\<rparr>))"

definition allocates :: "ustr \<Rightarrow> json \<Rightarrow> bool" where
  "allocates model settings =
     (case settings of
        JDict d \<Rightarrow>
          (case dget d ''models'' of
             JList xs \<Rightarrow> list_ex (\<lambda>x. case x of JDict a \<Rightarrow> dget a ''model'' = JStr model | _ \<Rightarrow> False) xs
           | _ \<Rightarrow> False)
      | _ \<Rightarrow> False)"

definition run_filters :: "run_state list option \<Rightarrow> ustr option \<Rightarrow> bench_run \<Rightarrow> bool" where
  "run_filters states model r \<longleftrightarrow>
     (case states of None \<Rightarrow> True | Some ss \<Rightarrow> ss = [] \<or> bn_state r \<in> set ss) \<and>
     (case model of None \<Rightarrow> True | Some m \<Rightarrow> m = [] \<or> allocates m (bn_settings r))"

definition store_list_runs ::
  "nat \<Rightarrow> nat \<Rightarrow> run_state list option \<Rightarrow> ustr option \<Rightarrow> run_db \<Rightarrow> bench_run list" where
  "store_list_runs limit offset states model d =
     take limit (drop offset
       (sort_key (\<lambda>r. - int (bn_created_at r)) (filter (run_filters states model) (rd_runs d))))"

definition count_runs :: "run_state list option \<Rightarrow> ustr option \<Rightarrow> run_db \<Rightarrow> nat" where
  "count_runs states model d = length (filter (run_filters states model) (rd_runs d))"

definition store_get_run :: "ustr \<Rightarrow> run_db \<Rightarrow> bench_run option" where
  "store_get_run run_id d = find (\<lambda>r. bn_id r = run_id) (rd_runs d)"

definition get_results :: "ustr \<Rightarrow> run_db \<Rightarrow> bench_result list" where
  "get_results run_id d = sort_key br_request_index (filter (\<lambda>x. br_run_id x = run_id) (rd_results d))"

definition cancel_queued :: "nat \<Rightarrow> ustr \<Rightarrow> run_db \<Rightarrow> run_db \<times> bool" where
  "cancel_queued now run_id d =
     (let hit = (\<lambda>r. bn_id r = run_id \<and> bn_state r = Queued) in
      (update_runs hit (\<lambda>r. r\<lparr>bn_state := Cancelled, bn_finished_at := Some now\<rparr>) d, list_ex hit (rd_runs d)))"

definition TERMINAL_STATES :: "run_state list" where
  "TERMINAL_STATES = [Completed, Error, Cancelled, Interrupted]"

text \<open>The results of a deleted run go with it (\<open>ON DELETE CASCADE\<close>).\<close>

definition delete_runs :: "(bench_run \<Rightarrow> bool) \<Rightarrow> run_db \<Rightarrow> run_db" where
  "delete_runs where_clause d =
     (let gone = map bn_id (filter where_clause (rd_runs d)) in
      \<lparr>rd_runs = filter (\<lambda>r. \<not> where_clause r) (rd_runs d),
       rd_results = filter (\<lambda>x. br_run_id x \<notin> set gone) (rd_results d)\<rparr>)"

definition delete_run :: "ustr \<Rightarrow> run_db \<Rightarrow> run_db \<times> bool" where
  "delete_run run_id d =
     (let hit = (\<lambda>r. bn_id r = run_id \<and> bn_state r \<in> set TERMINAL_STATES) in
      (delete_runs hit d, list_ex hit (rd_runs d)))"

definition delete_finished :: "run_db \<Rightarrow> run_db \<times> nat" where
  "delete_finished d =
     (let hit = (\<lambda>r. bn_state r \<in> set TERMINAL_STATES) in
      (delete_runs hit d, length (filter hit (rd_runs d))))"

definition sweep_interrupted :: "nat \<Rightarrow> run_db \<Rightarrow> run_db \<times> nat" where
  "sweep_interrupted now d =
     (let hit = (\<lambda>r. bn_state r = Running) in
      (update_runs hit (\<lambda>r. r\<lparr>bn_state := Interrupted, bn_finished_at := Some now\<rparr>) d,
       length (filter hit (rd_runs d))))"

section \<open>Endpoints\<close>

text \<open>The HTTP errors of the endpoints; 500 is an exception of the store.\<close>

datatype 'a answered = Ok 'a | Http int

text \<open>\<open>store\<close> is \<open>None\<close> where no database is configured.\<close>

definition require_store :: "run_db option \<Rightarrow> (run_db \<Rightarrow> run_db \<times> 'a answered) \<Rightarrow> run_db option \<times> 'a answered" where
  "require_store st f =
     (case st of
        None \<Rightarrow> (None, Http 503)
      | Some d \<Rightarrow> map_prod Some id (f d))"

definition create_run :: "nat \<Rightarrow> ustr \<Rightarrow> json \<Rightarrow> run_db option \<Rightarrow> run_db option \<times> bench_run answered" where
  "create_run now run_id settings st =
     require_store st (\<lambda>d. case insert_queued now run_id settings d of
         None \<Rightarrow> (d, Http 500)
       | Some d' \<Rightarrow> (d', Ok (last (rd_runs d'))))"

definition VALID_RUN_STATES :: "(ustr \<times> run_state) list" where
  "VALID_RUN_STATES =
     [(uni ''queued'', Queued), (uni ''running'', Running), (uni ''completed'', Completed), (uni ''error'', Error),
      (uni ''cancelled'', Cancelled), (uni ''interrupted'', Interrupted)]"

record run_page =
  rp_items :: "bench_run list"
  rp_total :: nat
  rp_limit :: nat
  rp_offset :: nat

text \<open>\<open>s.split(",")\<close>, the parts stripped and the empty ones left out.\<close>

definition state_names :: "ustr \<Rightarrow> ustr list" where
  "state_names s = filter (\<lambda>p. p \<noteq> []) (map ustrip (split_on 44 s))"

definition list_runs_endpoint ::
  "nat \<Rightarrow> nat \<Rightarrow> ustr option \<Rightarrow> ustr option \<Rightarrow> run_db option \<Rightarrow> run_page answered" where
  "list_runs_endpoint limit offset states model st =
     (let names = (case states of None \<Rightarrow> None | Some s \<Rightarrow> if s = [] then None else Some (state_names s)) in
      if limit < 1 \<or> limit > 500 then Http 422
      else if (case names of None \<Rightarrow> False | Some ns \<Rightarrow> list_ex (\<lambda>n. n \<notin> fst ` set VALID_RUN_STATES) ns) then Http 422
      else case st of
        None \<Rightarrow> Http 503
      | Some d \<Rightarrow>
          (let wanted = map_option (List.map_filter (map_of VALID_RUN_STATES)) names in
           Ok \<lparr>rp_items = store_list_runs limit offset wanted model d, rp_total = count_runs wanted model d,
               rp_limit = limit, rp_offset = offset\<rparr>))"

text \<open>A run in the database with its results, or the live one with the rows it has so far.\<close>

datatype run_detail = Stored_run bench_run "bench_result list" | Live bench_run live_run

definition get_run_endpoint ::
  "(ustr \<times> live_run) option \<Rightarrow> ustr \<Rightarrow> run_db option \<Rightarrow> run_detail answered" where
  "get_run_endpoint current run_id st =
     (case st of
        None \<Rightarrow> Http 503
      | Some d \<Rightarrow>
          (case store_get_run run_id d of
             None \<Rightarrow> Http 404
           | Some row \<Rightarrow>
               (case current of
                  Some (live_id, live) \<Rightarrow>
                    if live_id = run_id then Ok (Live row live) else Ok (Stored_run row (get_results run_id d))
                | None \<Rightarrow> Ok (Stored_run row (get_results run_id d)))))"

definition delete_history :: "run_db option \<Rightarrow> run_db option \<times> nat answered" where
  "delete_history st = require_store st (\<lambda>d. map_prod id Ok (delete_finished d))"

datatype removal = Was_cancelled | Was_deleted

definition cancel_or_delete_run :: "nat \<Rightarrow> ustr \<Rightarrow> run_db option \<Rightarrow> run_db option \<times> removal answered" where
  "cancel_or_delete_run now run_id st =
     require_store st (\<lambda>d.
       let (d1, cancelled) = cancel_queued now run_id d in
       if cancelled then (d1, Ok Was_cancelled)
       else let (d2, deleted) = delete_run run_id d1 in
         if deleted then (d2, Ok Was_deleted)
         else if store_get_run run_id d2 = None then (d2, Http 404)
         else (d2, Http 409))"

end
