(* ===== verification/Run_Queue.thy ===== *)
theory Run_Queue
  imports Run_Store
begin

text \<open>
  The writer that buffers result rows through outages of the database, and the queue worker, as steps that
  interleave with the requests of users and with restarts (\<^verbatim>\<open>prompt-runner/app/service.py\<close>).

  Every call of the store may succeed, fail before it takes effect, or take effect and lose its answer. The
  worker thread does one thing at a time: \<open>tick\<close> up to the start of a run, each finished request, and the end
  of the run are the steps of it. The rows of the slices' threads reach the writer one after the other under
  its lock; the counters a row's progress update reads are those right after it.
\<close>

datatype call = Committed | Ack_lost | Not_sent

text \<open>The state after a call, and whether it returned.\<close>

definition called :: "call \<Rightarrow> ('d \<Rightarrow> 'd) \<Rightarrow> 'd \<Rightarrow> 'd \<times> bool" where
  "called c f d = (case c of Committed \<Rightarrow> (f d, True) | Ack_lost \<Rightarrow> (f d, False) | Not_sent \<Rightarrow> (d, False))"

section \<open>The buffered writer\<close>

definition FLUSH_RETRY_SECONDS :: nat where
  "FLUSH_RETRY_SECONDS = 10"

definition SET_FINISHED_MAX_ATTEMPTS :: nat where
  "SET_FINISHED_MAX_ATTEMPTS = 5"

record run_writer =
  wt_run_id :: ustr
  wt_pending :: "result_row list"
  wt_cooldown_until :: "nat option"

definition new_writer :: "ustr \<Rightarrow> run_writer" where
  "new_writer run_id = \<lparr>wt_run_id = run_id, wt_pending = [], wt_cooldown_until = None\<rparr>"

text \<open>\<open>_flush_locked\<close>; without pending rows nothing is sent, and a refusal of the database is an exception.\<close>

definition flush_locked :: "nat \<Rightarrow> call \<Rightarrow> run_writer \<times> run_db \<Rightarrow> run_writer \<times> run_db" where
  "flush_locked clock c = (\<lambda>(w, d).
     (let flushed = w\<lparr>wt_pending := [], wt_cooldown_until := None\<rparr>;
          cooling = w\<lparr>wt_cooldown_until := Some (clock + FLUSH_RETRY_SECONDS)\<rparr> in
      if wt_pending w = [] then (flushed, d)
      else case add_results (wt_run_id w) (wt_pending w) d of
        None \<Rightarrow> (cooling, d)
      | Some d' \<Rightarrow> (let (e, returned) = called c (\<lambda>_. d') d in (if returned then flushed else cooling, e))))"

definition on_result :: "nat \<Rightarrow> call \<Rightarrow> result_row \<Rightarrow> run_writer \<times> run_db \<Rightarrow> run_writer \<times> run_db" where
  "on_result clock c row = (\<lambda>(w, d).
     (let w1 = w\<lparr>wt_pending := wt_pending w @ [row]\<rparr> in
      if (case wt_cooldown_until w of None \<Rightarrow> False | Some t \<Rightarrow> clock < t) then (w1, d)
      else flush_locked clock c (w1, d)))"

definition update_progress :: "call \<Rightarrow> ustr \<Rightarrow> live_run \<Rightarrow> run_db \<Rightarrow> run_db" where
  "update_progress c run_id run d =
     fst (called c (store_progress run_id (lr_total_requests run) (lr_completed run) (lr_failed run)) d)"

text \<open>The attempts at \<open>set_finished\<close>, and whether one of them returned.\<close>

fun set_finished_with_retry ::
  "nat \<Rightarrow> nat \<Rightarrow> call list \<Rightarrow> ustr \<Rightarrow> run_state \<Rightarrow> ustr option \<Rightarrow> run_db \<Rightarrow> run_db \<times> bool" where
  "set_finished_with_retry 0 now cs run_id st err d = (d, False)"
| "set_finished_with_retry (Suc left) now cs run_id st err d =
     (let (d', returned) = called (if cs = [] then Not_sent else hd cs) (set_finished now run_id st err) d in
      if returned then (d', True) else set_finished_with_retry left now (tl cs) run_id st err d')"

section \<open>The worker\<close>

datatype worker_doing = Idle | Executing live_run run_writer

record runner_service =
  rv_up :: bool
  rv_db :: run_db
  rv_worker :: worker_doing

text \<open>
  \<open>tick\<close> up to the start of a run. \<open>read_settings\<close> is pydantic's reading of the queued settings; the bounds
  that \<open>RunSettings\<close> states are checked on what it read.
\<close>

definition valid_settings :: "(json \<Rightarrow> run_settings option) \<Rightarrow> json \<Rightarrow> run_settings option" where
  "valid_settings read_settings j =
     (case read_settings j of None \<Rightarrow> None | Some s \<Rightarrow> if settings_ok s then Some s else None)"

definition tick ::
  "(json \<Rightarrow> run_settings option) \<Rightarrow> nat \<Rightarrow> call \<Rightarrow> call \<Rightarrow> run_db \<Rightarrow> run_db \<times> worker_doing" where
  "tick read_settings now claim_call other_call d =
     (let (d1, claimed) = claim_next now d in
      case claim_call of
        Not_sent \<Rightarrow> (d, Idle)
      | Ack_lost \<Rightarrow> (d1, Idle)
      | Committed \<Rightarrow>
          (case claimed of
             None \<Rightarrow> (fst (called other_call (fst \<circ> sweep_interrupted now) d1), Idle)
           | Some row \<Rightarrow>
               (case valid_settings read_settings (bn_settings row) of
                  None \<Rightarrow>
                    (fst (called other_call (set_error now (bn_id row) (uni ''settings no longer valid'')) d1), Idle)
                | Some s \<Rightarrow> (d1, Executing new_run (new_writer (bn_id row))))))"

text \<open>
  The end of a run: the last flush, the counters and the final state, whatever of it the database takes.
\<close>

definition finish_run ::
  "nat \<Rightarrow> nat \<Rightarrow> call \<Rightarrow> call \<Rightarrow> call list \<Rightarrow> run_state \<Rightarrow> ustr option \<Rightarrow> live_run \<Rightarrow> run_writer \<Rightarrow> run_db \<Rightarrow> run_db" where
  "finish_run now clock flush_call progress_call cs st err run w d =
     (let (w', d1) = flush_locked clock flush_call (w, d);
          d2 = update_progress progress_call (wt_run_id w) run d1 in
      fst (set_finished_with_retry SET_FINISHED_MAX_ATTEMPTS now cs (wt_run_id w) st err d2))"

datatype runner_step =
    Post_run nat ustr json call
  | Cancel_run nat ustr call
  | Delete_run ustr call
  | Delete_history call
  | Worker_tick nat call call
  | Suite_selected nat
  | Request_done nat call call result_row
  | Run_ends nat nat call call "call list" run_state "ustr option"
  | Restart nat call

text \<open>
  A step that does not apply where it comes leaves the service as it is. A run ends as completed or with an
  error. After a restart the sweep comes before anything else; if it fails, the service does not come up.
\<close>

fun runner_does :: "(json \<Rightarrow> run_settings option) \<Rightarrow> runner_step \<Rightarrow> runner_service \<Rightarrow> runner_service" where
  "runner_does read_settings (Restart now c) v =
     (let (d, returned) = called c (fst \<circ> sweep_interrupted now) (rv_db v) in
      v\<lparr>rv_db := d, rv_up := returned, rv_worker := Idle\<rparr>)"
| "runner_does read_settings (Post_run now run_id settings c) v =
     (if \<not> rv_up v then v
      else case insert_queued now run_id settings (rv_db v) of
        None \<Rightarrow> v
      | Some d \<Rightarrow> v\<lparr>rv_db := fst (called c (\<lambda>_. d) (rv_db v))\<rparr>)"
| "runner_does read_settings (Cancel_run now run_id c) v =
     (if \<not> rv_up v then v else v\<lparr>rv_db := fst (called c (fst \<circ> cancel_queued now run_id) (rv_db v))\<rparr>)"
| "runner_does read_settings (Delete_run run_id c) v =
     (if \<not> rv_up v then v else v\<lparr>rv_db := fst (called c (fst \<circ> delete_run run_id) (rv_db v))\<rparr>)"
| "runner_does read_settings (Delete_history c) v =
     (if \<not> rv_up v then v else v\<lparr>rv_db := fst (called c (fst \<circ> delete_finished) (rv_db v))\<rparr>)"
| "runner_does read_settings (Worker_tick now claim_call other_call) v =
     (if rv_up v \<and> rv_worker v = Idle then
        (let (d, doing) = tick read_settings now claim_call other_call (rv_db v) in
         v\<lparr>rv_db := d, rv_worker := doing\<rparr>)
      else v)"
| "runner_does read_settings (Suite_selected n) v =
     (case rv_worker v of
        Idle \<Rightarrow> v
      | Executing run w \<Rightarrow> if rv_up v then v\<lparr>rv_worker := Executing (run\<lparr>lr_total_requests := n\<rparr>) w\<rparr> else v)"
| "runner_does read_settings (Request_done clock flush_call progress_call row) v =
     (case rv_worker v of
        Idle \<Rightarrow> v
      | Executing run w \<Rightarrow>
          if rv_up v then
            (let run' = count_row row run; (w', d) = on_result clock flush_call row (w, rv_db v) in
             v\<lparr>rv_db := update_progress progress_call (wt_run_id w) run' d, rv_worker := Executing run' w'\<rparr>)
          else v)"
| "runner_does read_settings (Run_ends now clock flush_call progress_call cs st err) v =
     (case rv_worker v of
        Idle \<Rightarrow> v
      | Executing run w \<Rightarrow>
          if rv_up v \<and> st \<in> {Completed, Error} then
            v\<lparr>rv_db := finish_run now clock flush_call progress_call cs st err run w (rv_db v), rv_worker := Idle\<rparr>
          else v)"

definition new_service :: runner_service where
  "new_service = \<lparr>rv_up = False, rv_db = empty_run_db, rv_worker = Idle\<rparr>"

definition runner_history :: "(json \<Rightarrow> run_settings option) \<Rightarrow> runner_step list \<Rightarrow> runner_service" where
  "runner_history read_settings steps = fold (runner_does read_settings) steps new_service"

end
