(* ===== verification/Run_Proofs.thy ===== *)
theory Run_Proofs
  imports Run_Queue Prompts_Proofs
begin

text \<open>
  The queue of runs: at most one run is running, what is final stays, the oldest queued run is claimed even
  after the worker lost a run, and the rows of a run are stored exactly once whatever answers the database lost,
  unless the last flush misses the database: then they are lost for good.
\<close>

section \<open>Tables\<close>

definition terminal :: "bench_run \<Rightarrow> bool" where
  "terminal r \<longleftrightarrow> bn_state r \<in> set TERMINAL_STATES"

lemma terminal_iff: "terminal r \<longleftrightarrow> bn_state r \<noteq> Queued \<and> bn_state r \<noteq> Running"
  by (cases "bn_state r") (simp_all add: terminal_def TERMINAL_STATES_def)

definition results_of :: "ustr \<Rightarrow> run_db \<Rightarrow> bench_result list" where
  "results_of i d = filter (\<lambda>x. br_run_id x = i) (rd_results d)"

definition row_key :: "bench_result \<Rightarrow> ustr \<times> nat" where
  "row_key x = (br_run_id x, br_request_index x)"

text \<open>What the constraints of the tables and the order of the operations keep.\<close>

definition run_db_ok :: "run_db \<Rightarrow> bool" where
  "run_db_ok d \<longleftrightarrow> distinct (run_ids d) \<and> length (filter (\<lambda>r. bn_state r = Running) (rd_runs d)) \<le> 1 \<and>
     (\<forall>x\<in>set (rd_results d). \<exists>r\<in>set (rd_runs d). bn_id r = br_run_id x \<and> bn_state r \<noteq> Queued)"

lemma result_has_run:
  "run_db_ok d \<Longrightarrow> x \<in> set (rd_results d) \<Longrightarrow>
   \<exists>r. r \<in> set (rd_runs d) \<and> bn_id r = br_run_id x \<and> bn_state r \<noteq> Queued"
  by (auto simp: run_db_ok_def)

definition runs_now :: "run_db \<Rightarrow> ustr \<Rightarrow> bool" where
  "runs_now d i \<longleftrightarrow> (\<exists>r\<in>set (rd_runs d). bn_id r = i \<and> bn_state r = Running)"

text \<open>Final rows stay as they are or go, and a run goes only once it is final.\<close>

definition final_kept :: "run_db \<Rightarrow> run_db \<Rightarrow> bool" where
  "final_kept d e \<longleftrightarrow> (\<forall>r\<in>set (rd_runs d). terminal r \<longrightarrow> r \<in> set (rd_runs e) \<or> bn_id r \<notin> set (run_ids e)) \<and>
     (\<forall>r\<in>set (rd_runs d). \<not> terminal r \<longrightarrow> bn_id r \<in> set (run_ids e))"

text \<open>An operation that neither adds nor removes a run.\<close>

definition same_rows :: "run_db \<Rightarrow> run_db \<Rightarrow> bool" where
  "same_rows d e \<longleftrightarrow> run_ids e = run_ids d \<and> (\<forall>r\<in>set (rd_runs d). terminal r \<longrightarrow> r \<in> set (rd_runs e))"

lemma same_rows_refl [simp]: "same_rows d d"
  by (simp add: same_rows_def)

lemma same_rows_trans [trans]: "same_rows d e \<Longrightarrow> same_rows e f \<Longrightarrow> same_rows d f"
  by (auto simp: same_rows_def)

lemma same_rows_final: "same_rows d e \<Longrightarrow> final_kept d e"
  by (auto simp: same_rows_def final_kept_def run_ids_def)

lemma final_kept_refl [simp]: "final_kept d d"
  by (auto simp: final_kept_def run_ids_def)

lemma update_runs_simps [simp]:
  "rd_results (update_runs p f d) = rd_results d"
  "rd_runs (update_runs p f d) = map (\<lambda>r. if p r then f r else r) (rd_runs d)"
  by (simp_all add: update_runs_def)

lemma update_runs_ids: "(\<And>r. p r \<Longrightarrow> bn_id (f r) = bn_id r) \<Longrightarrow> run_ids (update_runs p f d) = run_ids d"
  by (auto simp: run_ids_def)

lemma distinct_row: "distinct (run_ids d) \<Longrightarrow> r \<in> set (rd_runs d) \<Longrightarrow> s \<in> set (rd_runs d) \<Longrightarrow> bn_id r = bn_id s \<Longrightarrow> r = s"
  unfolding run_ids_def by (metis distinct_map inj_onD)

text \<open>An update of rows that are not final, which makes none queued and at most what ran running.\<close>

lemma update_running:
  assumes ok: "run_db_ok d" and i: "\<And>r. p r \<Longrightarrow> bn_id (f r) = bn_id r"
    and q: "\<And>r. r \<in> set (rd_runs d) \<Longrightarrow> p r \<Longrightarrow> \<not> terminal r \<and> bn_state (f r) \<noteq> Queued \<and> (bn_state (f r) = Running \<longrightarrow> bn_state r = Running)"
  shows "run_db_ok (update_runs p f d)" "same_rows d (update_runs p f d)"
proof -
  let ?g = "\<lambda>r. if p r then f r else r"
  have len: "length (filter (\<lambda>r. bn_state r = Running) (map ?g rs)) \<le> length (filter (\<lambda>r. bn_state r = Running) rs)"
    if "set rs \<subseteq> set (rd_runs d)" for rs
    using that q by (induction rs) (auto split: if_splits)
  have ids: "run_ids (update_runs p f d) = run_ids d" using i by (rule update_runs_ids)
  have "\<exists>r\<in>set (rd_runs (update_runs p f d)). bn_id r = br_run_id x \<and> bn_state r \<noteq> Queued" if m: "x \<in> set (rd_results d)" for x
  proof -
    obtain r where r: "r \<in> set (rd_runs d)" "bn_id r = br_run_id x" "bn_state r \<noteq> Queued"
      using result_has_run[OF ok m] by blast
    have "?g r \<in> set (rd_runs (update_runs p f d))" using r(1) by auto
    moreover have "bn_id (?g r) = br_run_id x \<and> bn_state (?g r) \<noteq> Queued" using r q[OF r(1)] i[of r] by auto
    ultimately show ?thesis by blast
  qed
  moreover have "length (filter (\<lambda>r. bn_state r = Running) (rd_runs (update_runs p f d))) \<le> 1"
    using len[OF subset_refl] ok unfolding run_db_ok_def update_runs_simps by (meson order_trans)
  ultimately show "run_db_ok (update_runs p f d)"
    using ok unfolding run_db_ok_def ids update_runs_simps(1) by blast
  have "r \<in> set (rd_runs (update_runs p f d))" if "r \<in> set (rd_runs d)" "terminal r" for r
  proof -
    have "\<not> p r" using q[OF that(1)] that(2) by blast
    then have "r = ?g r" by simp
    then show ?thesis unfolding update_runs_simps(2) set_map using that(1) by (rule image_eqI)
  qed
  moreover have "bn_id r \<in> set (run_ids (update_runs p f d))" if "r \<in> set (rd_runs d)" for r
    unfolding ids using that by (simp add: run_ids_def)
  ultimately show "same_rows d (update_runs p f d)" using ids unfolding same_rows_def by blast
qed

lemma running_unique:
  assumes "run_db_ok d" "r \<in> set (rd_runs d)" "s \<in> set (rd_runs d)" "bn_state r = Running" "bn_state s = Running"
  shows "r = s"
proof -
  have "length (filter (\<lambda>r. bn_state r = Running) (rd_runs d)) \<le> 1" using assms(1) by (simp add: run_db_ok_def)
  moreover have "r \<in> set (filter (\<lambda>r. bn_state r = Running) (rd_runs d))" "s \<in> set (filter (\<lambda>r. bn_state r = Running) (rd_runs d))"
    using assms by simp_all
  ultimately show ?thesis
    by (cases "filter (\<lambda>r. bn_state r = Running) (rd_runs d)"; cases "tl (filter (\<lambda>r. bn_state r = Running) (rd_runs d))") auto
qed

lemma no_running_iff: "(\<not> list_ex (\<lambda>r. bn_state r = Running) rs) \<longleftrightarrow> filter (\<lambda>r. bn_state r = Running) rs = []"
  by (auto simp: list_ex_iff filter_empty_conv)

section \<open>Operations\<close>

lemma insert_queued_keeps:
  "run_db_ok d \<Longrightarrow> insert_queued now i s d = Some e \<Longrightarrow>
   run_db_ok e \<and> final_kept d e \<and> (\<forall>j. runs_now e j \<longleftrightarrow> runs_now d j) \<and> (\<forall>j. results_of j e = results_of j d)"
  by (auto simp: insert_queued_def run_db_ok_def final_kept_def runs_now_def results_of_def run_ids_def split: if_splits)

lemma next_queued_SomeD:
  assumes "next_queued d = Some r"
  shows "r \<in> set (rd_runs d)" "bn_state r = Queued" "\<And>x. x \<in> set (rd_runs d) \<Longrightarrow> bn_state x \<noteq> Running"
proof -
  have n: "\<not> list_ex (\<lambda>r. bn_state r = Running) (rd_runs d)" using assms by (auto simp: next_queued_def split: if_splits)
  obtain rs where "sort_key bn_created_at (filter (\<lambda>r. bn_state r = Queued) (rd_runs d)) = r # rs"
    using assms n by (auto simp: next_queued_def split: list.splits)
  then have "r \<in> set (filter (\<lambda>r. bn_state r = Queued) (rd_runs d))" by (metis list.set_intros(1) set_sort)
  then show "r \<in> set (rd_runs d)" "bn_state r = Queued" by simp_all
  show "\<And>x. x \<in> set (rd_runs d) \<Longrightarrow> bn_state x \<noteq> Running" using n by (auto simp: list_ex_iff)
qed

lemma claim_next_Some:
  assumes ok: "run_db_ok d" and c: "claim_next now d = (e, Some r)"
  shows "run_db_ok e" "same_rows d e" "runs_now e (bn_id r)" "rd_results e = rd_results d"
    "results_of (bn_id r) e = []"
proof -
  obtain q where q: "next_queued d = Some q" "r = q\<lparr>bn_state := Running, bn_started_at := Some now\<rparr>"
    and e: "e = update_runs (\<lambda>x. bn_id x = bn_id q) (\<lambda>_. r) d"
    using c by (auto simp: claim_next_def Let_def split: option.splits)
  note n = next_queued_SomeD[OF q(1)]
  have dist: "distinct (run_ids d)" using ok by (simp add: run_db_ok_def)
  have same: "x = q" if "x \<in> set (rd_runs d)" "bn_id x = bn_id q" for x
    using distinct_row[OF dist that(1) n(1) that(2)] .
  have ids: "run_ids e = run_ids d" unfolding e by (rule update_runs_ids) (simp add: q(2))
  have runs: "rd_runs e = map (\<lambda>x. if bn_id x = bn_id q then r else x) (rd_runs d)" by (simp add: e)
  show res: "rd_results e = rd_results d" by (simp add: e)
  have one: "length (filter (\<lambda>x. bn_state x = Running) (map (\<lambda>x. if bn_id x = bn_id q then r else x) rs)) \<le> 1"
    if "distinct (map bn_id rs)" "\<forall>x\<in>set rs. bn_state x \<noteq> Running" for rs
    using that
  proof (induction rs)
    case (Cons x rs)
    show ?case
    proof (cases "bn_id x = bn_id q")
      case True
      then have "filter (\<lambda>x. bn_state x = Running) (map (\<lambda>x. if bn_id x = bn_id q then r else x) rs) = []"
        using Cons.prems True by (auto simp: filter_empty_conv) (metis image_eqI)
      then show ?thesis by (simp add: True)
    qed (use Cons in auto)
  qed simp
  have fk: "\<exists>y\<in>set (rd_runs e). bn_id y = br_run_id x \<and> bn_state y \<noteq> Queued" if m: "x \<in> set (rd_results d)" for x
  proof -
    obtain y where y: "y \<in> set (rd_runs d)" "bn_id y = br_run_id x" "bn_state y \<noteq> Queued"
      using result_has_run[OF ok m] by blast
    then have "bn_id y \<noteq> bn_id q" using same n(2) by blast
    then have "y \<in> set (rd_runs e)" using y(1) unfolding runs by (auto intro!: image_eqI[where x = y])
    then show ?thesis using y by blast
  qed
  show "run_db_ok e"
    using dist ids one[of "rd_runs d"] n(3) fk unfolding run_db_ok_def res runs by (auto simp: run_ids_def)
  have "y \<in> set (rd_runs e)" if "y \<in> set (rd_runs d)" "terminal y" for y
  proof -
    have "bn_id y \<noteq> bn_id q" using same[OF that(1)] that(2) n(2) by (auto simp: terminal_iff)
    then show ?thesis using that(1) unfolding runs by (auto intro!: image_eqI[where x = y])
  qed
  then show "same_rows d e" using ids unfolding same_rows_def by blast
  have "r \<in> set (rd_runs e)" using n(1) unfolding runs by (auto intro!: image_eqI[where x = q])
  then show "runs_now e (bn_id r)" unfolding runs_now_def by (rule bexI[rotated]) (simp add: q(2))
  have "br_run_id x \<noteq> bn_id r" if m: "x \<in> set (rd_results d)" for x
  proof
    assume "br_run_id x = bn_id r"
    then obtain y where "y \<in> set (rd_runs d)" "bn_id y = bn_id q" "bn_state y \<noteq> Queued"
      using result_has_run[OF ok m] q(2) by auto
    then show False using same n(2) by blast
  qed
  then show "results_of (bn_id r) e = []" by (auto simp: results_of_def res filter_empty_conv)
qed

lemma claim_next_None: "claim_next now d = (e, None) \<Longrightarrow> e = d"
  by (auto simp: claim_next_def Let_def split: option.splits)


lemma running_row:
  assumes "run_db_ok d" "runs_now d i" "r \<in> set (rd_runs d)" "bn_id r = i"
  shows "bn_state r = Running"
proof -
  obtain s where "s \<in> set (rd_runs d)" "bn_id s = i" "bn_state s = Running" using assms(2) by (auto simp: runs_now_def)
  then show ?thesis using distinct_row[of d r s] assms by (simp add: run_db_ok_def)
qed

lemma runs_now_update:
  assumes "runs_now d j" "\<And>r. p r \<Longrightarrow> bn_id (f r) = bn_id r" "\<And>r. p r \<Longrightarrow> bn_state r = Running \<Longrightarrow> bn_state (f r) = Running"
  shows "runs_now (update_runs p f d) j"
proof -
  obtain r where r: "r \<in> set (rd_runs d)" "bn_id r = j" "bn_state r = Running" using assms(1) by (auto simp: runs_now_def)
  have "(if p r then f r else r) \<in> set (rd_runs (update_runs p f d))" using r(1) by (simp del: if_image_distrib)
  then show ?thesis unfolding runs_now_def using r assms(2,3)[of r] by (metis (full_types))
qed

lemma results_of_update [simp]: "results_of j (update_runs p f d) = results_of j d"
  by (simp add: results_of_def)

lemma set_finished_keeps:
  assumes "run_db_ok d" "runs_now d i" "st \<in> {Completed, Error}"
  shows "run_db_ok (set_finished now i st err d)" "same_rows d (set_finished now i st err d)"
  unfolding set_finished_def
  by (rule update_running; use assms running_row[OF assms(1,2)] in \<open>auto simp: terminal_iff\<close>)+

lemma store_progress_keeps:
  assumes "run_db_ok d" "runs_now d i"
  shows "run_db_ok (store_progress i t c f d)" "same_rows d (store_progress i t c f d)"
    "runs_now (store_progress i t c f d) i" "results_of j (store_progress i t c f d) = results_of j d"
proof -
  show "run_db_ok (store_progress i t c f d)" "same_rows d (store_progress i t c f d)"
    unfolding store_progress_def
    by (rule update_running; use assms running_row[OF assms] in \<open>auto simp: terminal_iff\<close>)+
  show "runs_now (store_progress i t c f d) i"
    unfolding store_progress_def by (rule runs_now_update[OF assms(2)]) simp_all
qed (simp add: store_progress_def)

lemma cancel_keeps:
  assumes "run_db_ok d"
  shows "run_db_ok (fst (cancel_queued now i d))" "same_rows d (fst (cancel_queued now i d))"
    "runs_now d j \<Longrightarrow> runs_now (fst (cancel_queued now i d)) j" "results_of j (fst (cancel_queued now i d)) = results_of j d"
proof -
  show "run_db_ok (fst (cancel_queued now i d))" "same_rows d (fst (cancel_queued now i d))"
    unfolding cancel_queued_def Let_def fst_conv
    by (rule update_running; use assms in \<open>auto simp: terminal_iff\<close>)+
  show "runs_now (fst (cancel_queued now i d)) j" if "runs_now d j"
    unfolding cancel_queued_def Let_def fst_conv by (rule runs_now_update[OF that]) simp_all
qed (simp add: cancel_queued_def Let_def)

lemma sweep_keeps:
  assumes "run_db_ok d"
  shows "run_db_ok (fst (sweep_interrupted now d))" "same_rows d (fst (sweep_interrupted now d))"
  unfolding sweep_interrupted_def Let_def fst_conv
  by (rule update_running; use assms in \<open>auto simp: terminal_iff\<close>)+

lemma delete_keeps:
  assumes ok: "run_db_ok d" and t: "\<And>r. r \<in> set (rd_runs d) \<Longrightarrow> p r \<Longrightarrow> terminal r"
  shows "run_db_ok (delete_runs p d)" "final_kept d (delete_runs p d)"
    "runs_now d j \<Longrightarrow> runs_now (delete_runs p d) j" "runs_now d j \<Longrightarrow> results_of j (delete_runs p d) = results_of j d"
proof -
  have le: "length (filter (\<lambda>r. bn_state r = Running) (filter (\<lambda>r. \<not> p r) rs)) \<le>
      length (filter (\<lambda>r. bn_state r = Running) rs)" for rs
    by (induction rs) auto
  have dist: "distinct (run_ids d)" using ok by (simp add: run_db_ok_def)
  have runs: "rd_runs (delete_runs p d) = filter (\<lambda>r. \<not> p r) (rd_runs d)"
    and results: "rd_results (delete_runs p d) = filter (\<lambda>x. br_run_id x \<notin> bn_id ` {r \<in> set (rd_runs d). p r}) (rd_results d)"
    by (simp_all add: delete_runs_def Let_def)
  have "length (filter (\<lambda>r. bn_state r = Running) (filter (\<lambda>r. \<not> p r) (rd_runs d))) \<le>
      length (filter (\<lambda>r. bn_state r = Running) (rd_runs d))"
    using le[of "rd_runs d"] .
  moreover have "distinct (run_ids (delete_runs p d))"
    using dist by (simp add: run_ids_def runs distinct_map_filter)
  moreover have "\<exists>r\<in>set (rd_runs (delete_runs p d)). bn_id r = br_run_id x \<and> bn_state r \<noteq> Queued"
    if m: "x \<in> set (rd_results (delete_runs p d))" for x
  proof -
    have x: "x \<in> set (rd_results d)" "br_run_id x \<notin> bn_id ` {r \<in> set (rd_runs d). p r}" using m by (simp_all add: results)
    obtain r where r: "r \<in> set (rd_runs d)" "bn_id r = br_run_id x" "bn_state r \<noteq> Queued"
      using result_has_run[OF ok x(1)] by blast
    then have "r \<in> set (rd_runs (delete_runs p d))" using x(2) unfolding runs by force
    then show ?thesis using r by blast
  qed
  ultimately show "run_db_ok (delete_runs p d)" using ok unfolding run_db_ok_def runs by auto
  have "r \<in> set (rd_runs (delete_runs p d)) \<or> bn_id r \<notin> set (run_ids (delete_runs p d))" if "r \<in> set (rd_runs d)" for r
    using distinct_row[OF dist that] unfolding run_ids_def runs by auto
  moreover have "bn_id r \<in> set (run_ids (delete_runs p d))" if "r \<in> set (rd_runs d)" "\<not> terminal r" for r
    using that t unfolding run_ids_def runs by auto
  ultimately show "final_kept d (delete_runs p d)" unfolding final_kept_def by blast
  assume "runs_now d j"
  then obtain r where r: "r \<in> set (rd_runs d)" "bn_id r = j" "bn_state r = Running" by (auto simp: runs_now_def)
  then have "\<not> p r" using t[OF r(1)] by (auto simp: terminal_iff)
  then show "runs_now (delete_runs p d) j" using r by (auto simp: runs_now_def runs)
  have "j \<notin> bn_id ` {r \<in> set (rd_runs d). p r}"
    using distinct_row[OF dist _ r(1)] \<open>\<not> p r\<close> r(2) by auto
  then show "results_of j (delete_runs p d) = results_of j d"
    unfolding results_of_def results by (auto intro: filter_cong)
qed

lemma delete_run_keeps:
  assumes "run_db_ok d"
  shows "run_db_ok (fst (delete_run i d))" "final_kept d (fst (delete_run i d))"
    "runs_now d j \<Longrightarrow> runs_now (fst (delete_run i d)) j" "runs_now d j \<Longrightarrow> results_of j (fst (delete_run i d)) = results_of j d"
  using delete_keeps[OF assms, where p = "\<lambda>r. bn_id r = i \<and> bn_state r \<in> set TERMINAL_STATES"]
  by (simp_all add: delete_run_def terminal_def Let_def)

lemma delete_finished_keeps:
  assumes "run_db_ok d"
  shows "run_db_ok (fst (delete_finished d))" "final_kept d (fst (delete_finished d))"
    "runs_now d j \<Longrightarrow> runs_now (fst (delete_finished d)) j" "runs_now d j \<Longrightarrow> results_of j (fst (delete_finished d)) = results_of j d"
  using delete_keeps[OF assms, where p = "\<lambda>r. bn_state r \<in> set TERMINAL_STATES"]
  by (simp_all add: delete_finished_def terminal_def Let_def)

section \<open>Rows\<close>

lemma stored_index [simp]: "br_request_index (stored i r) = rw_request_index r" "br_run_id (stored i r) = i"
  by (simp_all add: stored_def)

lemma insert_filter:
  "filter (\<lambda>x. br_run_id x = i) (insert_result (stored i r) R) =
   (if rw_request_index r \<in> set (map br_request_index (filter (\<lambda>x. br_run_id x = i) R)) then filter (\<lambda>x. br_run_id x = i) R
    else filter (\<lambda>x. br_run_id x = i) R @ [stored i r])"
  by (auto simp: insert_result_def)

lemma insert_known:
  "filter (\<lambda>x. br_run_id x = i) R = map (stored i) ys \<Longrightarrow> set (map rw_request_index xs) \<subseteq> set (map rw_request_index ys) \<Longrightarrow>
   filter (\<lambda>x. br_run_id x = i) (fold (\<lambda>r. insert_result (stored i r)) xs R) = map (stored i) ys"
  by (induction xs arbitrary: R) (simp_all add: insert_filter comp_def)

lemma insert_new:
  "filter (\<lambda>x. br_run_id x = i) R = map (stored i) ys \<Longrightarrow> distinct (map rw_request_index (ys @ xs)) \<Longrightarrow>
   filter (\<lambda>x. br_run_id x = i) (fold (\<lambda>r. insert_result (stored i r)) xs R) = map (stored i) (ys @ xs)"
proof (induction xs arbitrary: R ys)
  case (Cons x xs)
  have "filter (\<lambda>x. br_run_id x = i) (insert_result (stored i x) R) = map (stored i) (ys @ [x])"
    using Cons.prems by (simp add: insert_filter comp_def)
  then show ?case using Cons.IH[of "insert_result (stored i x) R" "ys @ [x]"] Cons.prems(2) by simp
qed simp

lemma insert_backlog:
  assumes R: "filter (\<lambda>x. br_run_id x = i) R = map (stored i) (take k rows)" and jk: "j \<le> k"
    and d: "distinct (map rw_request_index rows)"
  shows "filter (\<lambda>x. br_run_id x = i) (fold (\<lambda>r. insert_result (stored i r)) (drop j rows) R) = map (stored i) rows"
proof -
  have s: "drop j rows = take (k - j) (drop j rows) @ drop k rows"
    using jk by (metis append_take_drop_id drop_drop le_add_diff_inverse2)
  have "set (take (k - j) (drop j rows)) \<subseteq> set (take k rows)"
    using jk by (metis drop_take set_drop_subset)
  then have "filter (\<lambda>x. br_run_id x = i) (fold (\<lambda>r. insert_result (stored i r)) (take (k - j) (drop j rows)) R) =
      map (stored i) (take k rows)"
    by (intro insert_known[OF R]) auto
  then have "filter (\<lambda>x. br_run_id x = i) (fold (\<lambda>r. insert_result (stored i r)) (drop k rows)
      (fold (\<lambda>r. insert_result (stored i r)) (take (k - j) (drop j rows)) R)) = map (stored i) (take k rows @ drop k rows)"
    using d by (intro insert_new) simp_all
  then show ?thesis by (subst s) simp
qed

lemma fold_insert_ids:
  "set (fold (\<lambda>r. insert_result (stored i r)) rows R) \<subseteq> set R \<union> {x. br_run_id x = i}"
proof (induction rows arbitrary: R)
  case (Cons r rows)
  have "set (insert_result (stored i r) R) \<subseteq> set R \<union> {x. br_run_id x = i}" by (auto simp: insert_result_def)
  then show ?case using Cons.IH[of "insert_result (stored i r) R"] by auto
qed simp

lemma add_results_keeps:
  assumes ok: "run_db_ok d" and r: "runs_now d i" and a: "add_results i rows d = Some e"
  shows "run_db_ok e" "same_rows d e" "runs_now e i"
proof -
  have e: "rd_runs e = rd_runs d" "set (rd_results e) \<subseteq> set (rd_results d) \<union> {x. br_run_id x = i}"
    using a fold_insert_ids[of i rows "rd_results d"] by (auto simp: add_results_def split: if_splits)
  obtain q where q: "q \<in> set (rd_runs d)" "bn_id q = i" "bn_state q = Running" using r by (auto simp: runs_now_def)
  show "runs_now e i" using r by (simp add: runs_now_def e)
  show "same_rows d e" by (simp add: same_rows_def run_ids_def e)
  have "\<exists>y\<in>set (rd_runs e). bn_id y = br_run_id x \<and> bn_state y \<noteq> Queued" if "x \<in> set (rd_results e)" for x
  proof (cases "br_run_id x = i")
    case True
    then show ?thesis using q by (auto simp: e(1))
  next
    case False
    then have "x \<in> set (rd_results d)" using that e(2) by blast
    then show ?thesis using ok unfolding run_db_ok_def e(1) by blast
  qed
  then show "run_db_ok e" using ok unfolding run_db_ok_def run_ids_def e(1) by blast
qed


section \<open>The writer\<close>

text \<open>
  Where the rows of a run are: the first \<open>k\<close> stored, those from \<open>j\<close> on still pending, none between lost.
\<close>

definition carried :: "result_row list \<Rightarrow> run_writer \<Rightarrow> run_db \<Rightarrow> bool" where
  "carried rows w d \<longleftrightarrow> (distinct (map rw_request_index rows) \<longrightarrow>
     (\<exists>j k. j \<le> k \<and> k \<le> length rows \<and> results_of (wt_run_id w) d = map (stored (wt_run_id w)) (take k rows) \<and>
        wt_pending w = drop j rows))"

definition all_stored :: "result_row list \<Rightarrow> ustr \<Rightarrow> run_db \<Rightarrow> bool" where
  "all_stored rows i d \<longleftrightarrow> (distinct (map rw_request_index rows) \<longrightarrow> results_of i d = map (stored i) rows)"

lemma calledD: "called c f d = (e, returned) \<Longrightarrow> (e = d \<and> c = Not_sent \<and> \<not> returned) \<or> (e = f d \<and> returned = (c = Committed))"
  by (cases c) (auto simp: called_def)

lemma called_cases: "fst (called c f d) = d \<or> fst (called c f d) = f d"
  by (cases c) (simp_all add: called_def)

lemma add_results_stores:
  assumes a: "add_results (wt_run_id w) (wt_pending w) d = Some e" and c: "carried rows w d"
  shows "all_stored rows (wt_run_id w) e"
  unfolding all_stored_def
proof
  assume dist: "distinct (map rw_request_index rows)"
  then obtain j k where jk: "j \<le> k" "k \<le> length rows"
    "results_of (wt_run_id w) d = map (stored (wt_run_id w)) (take k rows)" "wt_pending w = drop j rows"
    using c by (auto simp: carried_def)
  show "results_of (wt_run_id w) e = map (stored (wt_run_id w)) rows"
  proof (cases "wt_pending w = []")
    case True
    then show ?thesis using a jk by (simp add: add_results_def)
  next
    case False
    then have "rd_results e = fold (\<lambda>r. insert_result (stored (wt_run_id w) r)) (drop j rows) (rd_results d)"
      using a jk(4) by (auto simp: add_results_def split: if_splits)
    then show ?thesis
      using insert_backlog[OF _ jk(1) dist, of "wt_run_id w" "rd_results d"] jk(3) by (simp add: results_of_def)
  qed
qed

lemma flush_keeps:
  assumes ok: "run_db_ok d" and r: "runs_now d (wt_run_id w)" and f: "flush_locked clock c (w, d) = (w', d')"
  shows "run_db_ok d'" "same_rows d d'" "runs_now d' (wt_run_id w)" "wt_run_id w' = wt_run_id w"
    "carried rows w d \<Longrightarrow> carried rows w' d'"
    "carried rows w d \<Longrightarrow> c = Committed \<Longrightarrow> all_stored rows (wt_run_id w) d'"
proof -
  have in_ids: "wt_run_id w \<in> set (run_ids d)" using r unfolding runs_now_def run_ids_def by force
  obtain e where e: "add_results (wt_run_id w) (wt_pending w) d = Some e"
    using in_ids by (cases "wt_pending w = []") (auto simp: add_results_def)
  note keep = add_results_keeps[OF ok r e]
  have cases: "(w' = w\<lparr>wt_pending := [], wt_cooldown_until := None\<rparr> \<and> d' = e) \<or>
      (w' = w\<lparr>wt_cooldown_until := Some (clock + FLUSH_RETRY_SECONDS)\<rparr> \<and> c \<noteq> Committed \<and> (d' = d \<or> d' = e))"
    using f e by (cases c; cases "wt_pending w = []") (auto simp: flush_locked_def called_def add_results_def Let_def)
  then show "run_db_ok d'" "same_rows d d'" "runs_now d' (wt_run_id w)" "wt_run_id w' = wt_run_id w"
    using keep ok r by auto
  show "all_stored rows (wt_run_id w) d'" if "carried rows w d" "c = Committed"
    using add_results_stores[OF e that(1)] cases that(2) by auto
  show "carried rows w' d'" if c: "carried rows w d"
    unfolding carried_def
  proof
    assume dist: "distinct (map rw_request_index rows)"
    obtain j k where jk: "j \<le> k" "k \<le> length rows"
      "results_of (wt_run_id w) d = map (stored (wt_run_id w)) (take k rows)" "wt_pending w = drop j rows"
      using c dist by (auto simp: carried_def)
    have full: "results_of (wt_run_id w) e = map (stored (wt_run_id w)) rows"
      using add_results_stores[OF e c] dist by (simp add: all_stored_def)
    consider "wt_pending w' = []" "d' = e" "wt_run_id w' = wt_run_id w"
      | "wt_pending w' = wt_pending w" "wt_run_id w' = wt_run_id w" "d' = d"
      | "wt_pending w' = wt_pending w" "wt_run_id w' = wt_run_id w" "d' = e"
      using cases by auto
    then show "\<exists>j k. j \<le> k \<and> k \<le> length rows \<and> results_of (wt_run_id w') d' = map (stored (wt_run_id w')) (take k rows) \<and>
        wt_pending w' = drop j rows"
    proof cases
      case 1
      then show ?thesis using full by (intro exI[of _ "length rows"]) simp
    next
      case 2
      then show ?thesis using jk by (intro exI[of _ j] exI[of _ k]) simp
    next
      case 3
      then show ?thesis using jk full by (intro exI[of _ j] exI[of _ "length rows"]) simp
    qed
  qed
qed

lemma on_result_keeps:
  assumes ok: "run_db_ok d" and r: "runs_now d (wt_run_id w)" and f: "on_result clock c row (w, d) = (w', d')"
  shows "run_db_ok d'" "same_rows d d'" "runs_now d' (wt_run_id w)" "wt_run_id w' = wt_run_id w"
    "carried rows w d \<Longrightarrow> carried (rows @ [row]) w' d'"
proof -
  let ?w = "w\<lparr>wt_pending := wt_pending w @ [row]\<rparr>"
  have more: "carried (rows @ [row]) ?w d" if m: "carried rows w d"
    unfolding carried_def
  proof
    assume "distinct (map rw_request_index (rows @ [row]))"
    then obtain j k where "j \<le> k" "k \<le> length rows"
      "results_of (wt_run_id w) d = map (stored (wt_run_id w)) (take k rows)" "wt_pending w = drop j rows"
      using m by (auto simp: carried_def)
    then show "\<exists>j k. j \<le> k \<and> k \<le> length (rows @ [row]) \<and>
        results_of (wt_run_id ?w) d = map (stored (wt_run_id ?w)) (take k (rows @ [row])) \<and> wt_pending ?w = drop j (rows @ [row])"
      by (intro exI[of _ j] exI[of _ k]) simp
  qed
  have "(w', d') = (?w, d) \<or> flush_locked clock c (?w, d) = (w', d')"
    using f by (auto simp: on_result_def Let_def split: if_splits)
  then show "run_db_ok d'" "same_rows d d'" "runs_now d' (wt_run_id w)" "wt_run_id w' = wt_run_id w"
    "carried rows w d \<Longrightarrow> carried (rows @ [row]) w' d'"
    using flush_keeps[OF ok, of ?w clock c w' d'] ok r more by auto
qed

lemma update_progress_keeps:
  assumes "run_db_ok d" "runs_now d i"
  shows "run_db_ok (update_progress c i run d)" "same_rows d (update_progress c i run d)"
    "runs_now (update_progress c i run d) i" "results_of j (update_progress c i run d) = results_of j d"
  using store_progress_keeps[OF assms] assms
    called_cases[of c "store_progress i (lr_total_requests run) (lr_completed run) (lr_failed run)" d]
  by (auto simp: update_progress_def)

lemma set_finished_again: "set_finished now i st err (set_finished now i st err d) = set_finished now i st err d"
  by (auto simp: set_finished_def update_runs_def)

lemma retry_from_finished:
  "fst (set_finished_with_retry n now cs i st err (set_finished now i st err d)) = set_finished now i st err d"
  by (induction n arbitrary: cs) (auto simp: called_def set_finished_again split: call.splits)

text \<open>The row has the final state as soon as one attempt took effect, whether or not its answer came.\<close>

lemma retry_result:
  "fst (set_finished_with_retry n now cs i st err d) =
   (if list_ex (\<lambda>c. c \<noteq> Not_sent) (take n cs) then set_finished now i st err d else d)"
proof (induction n arbitrary: cs)
  case (Suc n)
  show ?case
  proof (cases cs)
    case Nil
    then show ?thesis using Suc.IH[of "[]"] by (simp add: called_def)
  next
    case (Cons c cs')
    then show ?thesis using Suc.IH[of cs'] by (cases c) (simp_all add: called_def retry_from_finished)
  qed
qed simp

lemma finish_run_keeps:
  assumes ok: "run_db_ok d" and r: "runs_now d (wt_run_id w)" and st: "st \<in> {Completed, Error}"
    and f: "finish_run now clock c1 c2 cs st err run w d = e"
  shows "run_db_ok e" "same_rows d e"
    "carried rows w d \<Longrightarrow> c1 = Committed \<Longrightarrow> all_stored rows (wt_run_id w) e"
    "list_ex (\<lambda>c. c \<noteq> Not_sent) (take SET_FINISHED_MAX_ATTEMPTS cs) \<Longrightarrow>
       \<exists>x\<in>set (rd_runs e). bn_id x = wt_run_id w \<and> bn_state x = st"
proof -
  obtain w' d1 where fl: "flush_locked clock c1 (w, d) = (w', d1)" by fastforce
  note k = flush_keeps[OF ok r fl]
  define d2 where "d2 = update_progress c2 (wt_run_id w) run d1"
  note u = update_progress_keeps[OF k(1,3), where c = c2 and run = run, folded d2_def]
  have e: "e = (if list_ex (\<lambda>c. c \<noteq> Not_sent) (take SET_FINISHED_MAX_ATTEMPTS cs)
      then set_finished now (wt_run_id w) st err d2 else d2)"
    unfolding f[symmetric] by (simp add: finish_run_def fl d2_def Let_def retry_result k(4))
  show "run_db_ok e" "same_rows d e"
    using set_finished_keeps[OF u(1,3) st, of now err] u k(2) same_rows_trans unfolding e by auto
  have "results_of j e = results_of j d1" for j by (simp add: e u(4) set_finished_def)
  then show "carried rows w d \<Longrightarrow> c1 = Committed \<Longrightarrow> all_stored rows (wt_run_id w) e"
    using k(6) by (simp add: all_stored_def)
  show "\<exists>x\<in>set (rd_runs e). bn_id x = wt_run_id w \<and> bn_state x = st"
    if "list_ex (\<lambda>c. c \<noteq> Not_sent) (take SET_FINISHED_MAX_ATTEMPTS cs)"
  proof -
    obtain x where x: "x \<in> set (rd_runs d2)" "bn_id x = wt_run_id w" using u(3) by (auto simp: runs_now_def)
    have "x\<lparr>bn_state := st, bn_error := err, bn_finished_at := Some now\<rparr> \<in> set (rd_runs e)"
      using x that by (auto simp: e set_finished_def intro!: image_eqI[of _ _ x])
    then show ?thesis
      using x(2) by (intro bexI[of _ "x\<lparr>bn_state := st, bn_error := err, bn_finished_at := Some now\<rparr>"]) simp_all
  qed
qed

section \<open>The service\<close>

definition service_ok :: "runner_service \<Rightarrow> bool" where
  "service_ok v \<longleftrightarrow> run_db_ok (rv_db v) \<and>
     (case rv_worker v of
        Idle \<Rightarrow> True
      | Executing run w \<Rightarrow> runs_now (rv_db v) (wt_run_id w) \<and> carried (lr_results run) w (rv_db v))"

lemma tick_keeps:
  assumes ok: "run_db_ok d" and t: "tick read_settings now c1 c2 d = (e, doing)"
  shows "run_db_ok e" "same_rows d e"
    "doing = Executing run w \<Longrightarrow> runs_now e (wt_run_id w) \<and> carried (lr_results run) w e"
proof -
  obtain d1 claimed where c: "claim_next now d = (d1, claimed)" by fastforce
  have d1: "run_db_ok d1 \<and> same_rows d d1"
    using ok claim_next_Some[OF ok, of now d1] claim_next_None[of now d d1] c by (cases claimed) auto
  have sw: "run_db_ok (fst (called c2 (fst \<circ> sweep_interrupted now) d1)) \<and>
      same_rows d (fst (called c2 (fst \<circ> sweep_interrupted now) d1))"
    using called_cases[of c2 "fst \<circ> sweep_interrupted now" d1] d1 sweep_keeps[of d1 now] same_rows_trans by auto
  have er: "run_db_ok (fst (called c2 (set_error now (bn_id r) m) d1)) \<and>
      same_rows d (fst (called c2 (set_error now (bn_id r) m) d1))" if "claimed = Some r" for r m
    using called_cases[of c2 "set_error now (bn_id r) m" d1] d1 same_rows_trans
      set_finished_keeps[of d1 "bn_id r" Error now "Some m"] claim_next_Some(3)[OF ok, of now d1 r] c that
    by (auto simp: set_error_def)
  show "run_db_ok e" "same_rows d e"
    using t c ok d1 sw er
    by (auto simp: tick_def Let_def split: call.splits option.splits)
  assume "doing = Executing run w"
  then obtain r where r: "claimed = Some r" "e = d1" "run = new_run" "w = new_writer (bn_id r)"
    using t c by (auto simp: tick_def Let_def split: call.splits option.splits)
  have cl: "claim_next now d = (d1, Some r)" using c r(1) by simp
  have "carried [] (new_writer (bn_id r)) d1"
    using claim_next_Some(5)[OF ok cl] by (simp add: carried_def new_writer_def)
  then show "runs_now e (wt_run_id w) \<and> carried (lr_results run) w e"
    using claim_next_Some(3)[OF ok cl] by (simp add: r new_run_def new_writer_def)
qed

lemma carried_same: "results_of (wt_run_id w) e = results_of (wt_run_id w) d \<Longrightarrow> carried rows w d \<Longrightarrow> carried rows w e"
  by (simp add: carried_def)

text \<open>A request of a user leaves what the worker holds alone.\<close>

lemma user_call:
  assumes v: "service_ok v"
    and keep: "run_db_ok (f (rv_db v))" "final_kept (rv_db v) (f (rv_db v))"
      "\<And>j. runs_now (rv_db v) j \<Longrightarrow> runs_now (f (rv_db v)) j"
      "\<And>j. runs_now (rv_db v) j \<Longrightarrow> results_of j (f (rv_db v)) = results_of j (rv_db v)"
  shows "service_ok (v\<lparr>rv_db := fst (called c f (rv_db v))\<rparr>) \<and> final_kept (rv_db v) (fst (called c f (rv_db v)))"
proof -
  have "service_ok (v\<lparr>rv_db := f (rv_db v)\<rparr>)"
  proof (cases "rv_worker v")
    case Idle
    then show ?thesis using keep(1) by (simp add: service_ok_def)
  next
    case (Executing run w)
    have r: "runs_now (rv_db v) (wt_run_id w)" "carried (lr_results run) w (rv_db v)"
      using v Executing by (simp_all add: service_ok_def)
    have "carried (lr_results run) w (f (rv_db v))" by (rule carried_same[OF keep(4)[OF r(1)] r(2)])
    then show ?thesis using keep(1) keep(3)[OF r(1)] Executing by (simp add: service_ok_def)
  qed
  moreover have "v\<lparr>rv_db := rv_db v\<rparr> = v" by simp
  ultimately show ?thesis using called_cases[of c f "rv_db v"] v keep(2) by (metis final_kept_refl)
qed

lemma runner_step_keeps:
  assumes v: "service_ok v"
  shows "service_ok (runner_does read_settings s v) \<and> final_kept (rv_db v) (rv_db (runner_does read_settings s v))"
proof -
  have ok: "run_db_ok (rv_db v)" using v by (simp add: service_ok_def)
  show ?thesis
  proof (cases s)
    case (Restart now c)
    obtain d b where d: "called c (fst \<circ> sweep_interrupted now) (rv_db v) = (d, b)" by fastforce
    have "d = rv_db v \<or> d = fst (sweep_interrupted now (rv_db v))" using calledD[OF d] by auto
    then show ?thesis
      using ok sweep_keeps[OF ok, of now] same_rows_final by (auto simp: Restart d service_ok_def)
  next
    case (Post_run now i j c)
    show ?thesis
    proof (cases "insert_queued now i j (rv_db v)")
      case None
      then show ?thesis using v by (simp add: Post_run)
    next
      case (Some d)
      have k: "run_db_ok d" "final_kept (rv_db v) d" "\<And>j. runs_now (rv_db v) j \<Longrightarrow> runs_now d j"
        "\<And>j. results_of j d = results_of j (rv_db v)"
        using insert_queued_keeps[OF ok Some] by auto
      show ?thesis using user_call[OF v, where f = "\<lambda>_. d" and c = c] k v Some by (simp add: Post_run)
    qed
  next
    case (Cancel_run now i c)
    show ?thesis
      using user_call[OF v, where f = "fst \<circ> cancel_queued now i" and c = c] cancel_keeps[OF ok] same_rows_final v
      by (simp add: Cancel_run)
  next
    case (Delete_run i c)
    show ?thesis
      using user_call[OF v, where f = "fst \<circ> delete_run i" and c = c] delete_run_keeps[OF ok] v by (simp add: Delete_run)
  next
    case (Delete_history c)
    show ?thesis
      using user_call[OF v, where f = "fst \<circ> delete_finished" and c = c] delete_finished_keeps[OF ok] v
      by (simp add: Delete_history)
  next
    case (Worker_tick now c1 c2)
    obtain d doing where t: "tick read_settings now c1 c2 (rv_db v) = (d, doing)" by fastforce
    show ?thesis
    proof (cases "rv_up v \<and> rv_worker v = Idle")
      case True
      then show ?thesis
        using tick_keeps[OF ok t] same_rows_final
        by (simp add: Worker_tick t service_ok_def split: worker_doing.splits)
    next
      case False
      then have "runner_does read_settings s v = v" unfolding Worker_tick by (simp only: runner_does.simps if_False)
      then show ?thesis using v by simp
    qed
  next
    case (Suite_selected n)
    then show ?thesis using v by (auto simp: service_ok_def split: worker_doing.splits)
  next
    case (Request_done clock c1 c2 row)
    show ?thesis
    proof (cases "rv_worker v")
      case Idle
      then show ?thesis using v by (simp add: Request_done)
    next
      case (Executing run w)
      have r: "runs_now (rv_db v) (wt_run_id w)" "carried (lr_results run) w (rv_db v)"
        using v Executing by (simp_all add: service_ok_def)
      obtain w' d where o: "on_result clock c1 row (w, rv_db v) = (w', d)" by fastforce
      note k = on_result_keeps[OF ok r(1) o]
      note u = update_progress_keeps[OF k(1,3), where c = c2 and run = "count_row row run"]
      have "carried (lr_results run @ [row]) w' (update_progress c2 (wt_run_id w) (count_row row run) d)"
        using k(5)[OF r(2)] u(4) by (rule carried_same[rotated])
      then show ?thesis
        using k u v same_rows_final[OF same_rows_trans[OF k(2) u(2)]]
        by (simp add: Request_done Executing o service_ok_def count_row_def Let_def)
    qed
  next
    case (Run_ends now clock c1 c2 cs st err)
    show ?thesis
    proof (cases "rv_worker v")
      case Idle
      then show ?thesis using v by (simp add: Run_ends)
    next
      case (Executing run w)
      have r: "runs_now (rv_db v) (wt_run_id w)" using v Executing by (simp add: service_ok_def)
      show ?thesis
        using finish_run_keeps(1,2)[OF ok r _ refl] v same_rows_final
        by (auto simp: Run_ends Executing service_ok_def)
    qed
  qed
qed

lemma history_ok: "service_ok (runner_history read_settings steps)"
proof -
  have "service_ok (fold (runner_does read_settings) steps v)" if "service_ok v" for v
    using that runner_step_keeps by (induction steps arbitrary: v) auto
  moreover have "service_ok new_service"
    by (simp add: service_ok_def new_service_def run_db_ok_def empty_run_db_def run_ids_def)
  ultimately show ?thesis by (simp add: runner_history_def)
qed


section \<open>The queue\<close>

text \<open>A tick that reaches the database takes the oldest queued run out of the queue.\<close>

lemma tick_takes:
  assumes ok: "run_db_ok d" and q: "next_queued d = Some q" and t: "tick read_settings now Committed Committed d = (e, doing)"
  shows "\<exists>r\<in>set (rd_runs e). bn_id r = bn_id q \<and> bn_state r \<noteq> Queued \<and> (doing = Idle \<longrightarrow> terminal r)"
proof -
  let ?r = "q\<lparr>bn_state := Running, bn_started_at := Some now\<rparr>"
  obtain d1 where c: "claim_next now d = (d1, Some ?r)" using q by (simp add: claim_next_def Let_def)
  note k = claim_next_Some[OF ok c]
  obtain x where x: "x \<in> set (rd_runs d1)" "bn_id x = bn_id q" "bn_state x = Running"
    using k(3) by (auto simp: runs_now_def)
  show ?thesis
  proof (cases "valid_settings read_settings (bn_settings ?r)")
    case None
    then have e: "e = set_error now (bn_id q) (uni ''settings no longer valid'') d1"
      using t c by (simp add: tick_def called_def)
    let ?x = "x\<lparr>bn_state := Error, bn_error := Some (uni ''settings no longer valid''), bn_finished_at := Some now\<rparr>"
    have "?x \<in> set (rd_runs e)"
      using x by (auto simp: e set_error_def set_finished_def intro!: image_eqI[of _ _ x])
    then show ?thesis using x(2) by (intro bexI[of _ ?x]) (simp_all add: terminal_iff)
  next
    case (Some s)
    then have "e = d1" "doing \<noteq> Idle" using t c by (auto simp: tick_def called_def)
    then show ?thesis using x by (intro bexI[of _ x]) simp_all
  qed
qed

lemma sweep_frees:
  assumes n: "next_queued d = None" and q: "sort_key bn_created_at (filter (\<lambda>r. bn_state r = Queued) (rd_runs d)) = q # qs"
  shows "next_queued (fst (sweep_interrupted now d)) = Some q"
proof -
  let ?f = "\<lambda>r. if bn_state r = Running then r\<lparr>bn_state := Interrupted, bn_finished_at := Some now\<rparr> else r"
  have runs: "rd_runs (fst (sweep_interrupted now d)) = map ?f (rd_runs d)"
    by (simp add: sweep_interrupted_def Let_def)
  have "filter (\<lambda>r. bn_state r = Queued) (map ?f rs) = filter (\<lambda>r. bn_state r = Queued) rs" for rs
    by (induction rs) auto
  then have "filter (\<lambda>r. bn_state r = Queued) (map ?f (rd_runs d)) = filter (\<lambda>r. bn_state r = Queued) (rd_runs d)" .
  moreover have "\<not> list_ex (\<lambda>r. bn_state r = Running) (map ?f (rd_runs d))" by (auto simp: list_ex_iff)
  ultimately show ?thesis using q unfolding next_queued_def runs by (simp only: if_False list.case)
qed

text \<open>C23: One run at a time, and what is final stays final. After every history of requests, ticks, results,
  lost answers and restarts at most one run is marked running; while the worker executes a run it is that one;
  and in every further step a run that is completed, failed, cancelled or interrupted keeps its row unchanged
  or is deleted, while queued and running runs are never deleted.\<close>

theorem runs_one_at_a_time:
  assumes v: "v = runner_history read_settings steps"
  shows "length (filter (\<lambda>r. bn_state r = Running) (rd_runs (rv_db v))) \<le> 1 \<and>
    (\<forall>run w. rv_worker v = Executing run w \<longrightarrow>
       (\<exists>r\<in>set (rd_runs (rv_db v)). bn_id r = wt_run_id w \<and> bn_state r = Running)) \<and>
    (\<forall>r\<in>set (rd_runs (rv_db v)).
       if bn_state r \<in> {Queued, Running} then bn_id r \<in> set (run_ids (rv_db (runner_does read_settings s v)))
       else r \<in> set (rd_runs (rv_db (runner_does read_settings s v))) \<or>
            bn_id r \<notin> set (run_ids (rv_db (runner_does read_settings s v))))"
proof -
  have ok: "service_ok v" unfolding v by (rule history_ok)
  have k: "final_kept (rv_db v) (rv_db (runner_does read_settings s v))" using runner_step_keeps[OF ok] by blast
  have "length (filter (\<lambda>r. bn_state r = Running) (rd_runs (rv_db v))) \<le> 1"
    using ok by (simp add: service_ok_def run_db_ok_def)
  moreover have "\<exists>r\<in>set (rd_runs (rv_db v)). bn_id r = wt_run_id w \<and> bn_state r = Running"
    if "rv_worker v = Executing run w" for run w
    using ok that by (simp add: service_ok_def runs_now_def)
  moreover have "if bn_state r \<in> {Queued, Running} then bn_id r \<in> set (run_ids (rv_db (runner_does read_settings s v)))
       else r \<in> set (rd_runs (rv_db (runner_does read_settings s v))) \<or>
            bn_id r \<notin> set (run_ids (rv_db (runner_does read_settings s v)))" if "r \<in> set (rd_runs (rv_db v))" for r
    using k that by (cases "terminal r") (auto simp: final_kept_def terminal_iff)
  ultimately show ?thesis by blast
qed

text \<open>C22: The queue moves on. Whenever the worker is idle and the service up, two ticks that reach the database
  take the oldest queued run out of the queue, even if a run that was lost (its claim or its end never
  answered) is still marked running: the first tick then sweeps it.\<close>

theorem queue_moves_on:
  assumes v: "v = runner_history read_settings steps" and up: "rv_up v" and idle: "rv_worker v = Idle"
    and q: "sort_key bn_created_at (filter (\<lambda>r. bn_state r = Queued) (rd_runs (rv_db v))) = q # qs"
  shows "\<exists>r\<in>set (rd_runs (rv_db (runner_does read_settings (Worker_tick later Committed Committed)
      (runner_does read_settings (Worker_tick now Committed Committed) v)))). bn_id r = bn_id q \<and> bn_state r \<noteq> Queued"
proof -
  have ok: "run_db_ok (rv_db v)" using history_ok[of read_settings steps] v by (simp add: service_ok_def)
  obtain e doing where t: "tick read_settings now Committed Committed (rv_db v) = (e, doing)" by fastforce
  define v1 where "v1 = v\<lparr>rv_db := e, rv_worker := doing\<rparr>"
  have v1: "runner_does read_settings (Worker_tick now Committed Committed) v = v1"
    using up idle t by (simp add: v1_def)
  have ok1: "run_db_ok e" using tick_keeps(1)[OF ok t] .
  obtain e2 doing2 where t2: "tick read_settings later Committed Committed e = (e2, doing2)" by fastforce
  have v2: "rv_db (runner_does read_settings (Worker_tick later Committed Committed) v1) = (if doing = Idle then e2 else e)"
    using up t2 by (simp add: v1_def)
  show ?thesis
  proof (cases "next_queued (rv_db v)")
    case (Some q')
    then have "q' = q" using q by (auto simp: next_queued_def split: if_splits)
    then obtain r where r: "r \<in> set (rd_runs e)" "bn_id r = bn_id q" "bn_state r \<noteq> Queued" "doing = Idle \<longrightarrow> terminal r"
      using tick_takes[OF ok Some t] by blast
    show ?thesis
    proof (cases "doing = Idle")
      case True
      then have "r \<in> set (rd_runs e2)" using tick_keeps(2)[OF ok1 t2] r by (simp add: same_rows_def)
      then show ?thesis unfolding v1 v2 using r True by auto
    next
      case False
      then show ?thesis unfolding v1 v2 using r by auto
    qed
  next
    case None
    then have "claim_next now (rv_db v) = (rv_db v, None)" by (simp add: claim_next_def)
    then have e: "e = fst (sweep_interrupted now (rv_db v))" "doing = Idle" using t by (simp_all add: tick_def called_def)
    have "next_queued e = Some q" unfolding e(1) by (rule sweep_frees[OF None q])
    then show ?thesis unfolding v1 v2 using tick_takes[OF ok1 _ t2] e(2) by auto
  qed
qed

text \<open>C8: The rows of a run are stored once each, whatever answers the database lost. While a run is executed
  every row so far is stored or still pending; and if the last flush gets its answer, the table holds exactly
  the run's rows, in order, once each, and the run has its final state as soon as one of the attempts at it
  took effect.\<close>

theorem rows_stored_once:
  assumes v: "v = runner_history read_settings steps" and ex: "rv_worker v = Executing run w" and up: "rv_up v"
    and dist: "distinct (map rw_request_index (lr_results run))" and st: "st \<in> {Completed, Error}"
    and e: "e = rv_db (runner_does read_settings (Run_ends now clock Committed progress cs st err) v)"
  shows "(\<forall>x\<in>set (lr_results run). stored (wt_run_id w) x \<in> set (rd_results (rv_db v)) \<or> x \<in> set (wt_pending w)) \<and>
    filter (\<lambda>x. br_run_id x = wt_run_id w) (rd_results e) = map (stored (wt_run_id w)) (lr_results run) \<and>
    (list_ex (\<lambda>c. c \<noteq> Not_sent) (take SET_FINISHED_MAX_ATTEMPTS cs) \<longrightarrow>
       (\<exists>r\<in>set (rd_runs e). bn_id r = wt_run_id w \<and> bn_state r = st))"
proof -
  have ok: "run_db_ok (rv_db v)" "runs_now (rv_db v) (wt_run_id w)" "carried (lr_results run) w (rv_db v)"
    using history_ok[of read_settings steps] v ex by (simp_all add: service_ok_def)
  have fin: "finish_run now clock Committed progress cs st err run w (rv_db v) = e"
    using e ex up st by auto
  note k = finish_run_keeps[OF ok(1,2) st fin]
  obtain j k' where jk: "j \<le> k'" "results_of (wt_run_id w) (rv_db v) = map (stored (wt_run_id w)) (take k' (lr_results run))"
    "wt_pending w = drop j (lr_results run)" using ok(3) dist by (auto simp: carried_def)
  have "stored (wt_run_id w) x \<in> set (rd_results (rv_db v)) \<or> x \<in> set (wt_pending w)" if "x \<in> set (lr_results run)" for x
  proof -
    have "x \<in> set (take k' (lr_results run)) \<or> x \<in> set (drop k' (lr_results run))"
      using that by (metis Un_iff append_take_drop_id set_append)
    moreover have "set (drop k' (lr_results run)) \<subseteq> set (drop j (lr_results run))" using jk(1) by (rule set_drop_subset_set_drop)
    moreover have "stored (wt_run_id w) x \<in> set (results_of (wt_run_id w) (rv_db v))" if "x \<in> set (take k' (lr_results run))"
      using that by (simp add: jk(2))
    ultimately show ?thesis unfolding jk(3) results_of_def by auto
  qed
  then show ?thesis using k(3)[OF ok(3) refl] dist k(4) by (simp add: all_stored_def results_of_def)
qed


section \<open>Examples and endpoints\<close>

text \<open>A run is posted, claimed, and answers two requests over a database that loses an answer and then a row.\<close>

definition example_row :: "nat \<Rightarrow> result_row" where
  "example_row i =
     \<lparr>rw_request_index = i, rw_prompt_id = uni ''p'', rw_sampling_id = uni ''s'', rw_model = uni ''m'', rw_ok = True,
      rw_status_code = Some 200, rw_stream_completed = True, rw_error = None\<rparr>"

definition example_steps :: "runner_step list" where
  "example_steps =
     [Restart 0 Committed, Post_run 1 (uni ''a'') JNull Committed, Post_run 2 (uni ''b'') JNull Committed,
      Worker_tick 3 Committed Committed, Request_done 0 Ack_lost Committed (example_row 0),
      Request_done 20 Not_sent Committed (example_row 1)]"

lemmas machine_defs = runner_history_def new_service_def empty_run_db_def called_def insert_queued_def run_ids_def
  tick_def claim_next_def next_queued_def update_runs_def valid_settings_def new_run_def new_writer_def
  count_row_def on_result_def flush_locked_def add_results_def update_progress_def store_progress_def
  insert_result_def stored_def sweep_interrupted_def FLUSH_RETRY_SECONDS_def example_row_def

lemma example_state:
  obtains run w where "rv_worker (runner_history (\<lambda>_. Some example_settings) example_steps) = Executing run w"
    "rv_up (runner_history (\<lambda>_. Some example_settings) example_steps)" "wt_run_id w = uni ''a''"
    "lr_results run = [example_row 0, example_row 1]"
proof (rule that)
  let ?run = "new_run\<lparr>lr_completed := 2, lr_results := [example_row 0, example_row 1]\<rparr>"
  let ?w = "\<lparr>wt_run_id = uni ''a'', wt_pending = [example_row 0, example_row 1], wt_cooldown_until = Some 30\<rparr>"
  show "rv_worker (runner_history (\<lambda>_. Some example_settings) example_steps) = Executing ?run ?w"
    "rv_up (runner_history (\<lambda>_. Some example_settings) example_steps)"
    by (simp_all add: example_steps_def machine_defs example_settings_ok uni_inj Let_def eval_nat_numeral)
  show "wt_run_id ?w = uni ''a''" "lr_results ?run = [example_row 0, example_row 1]" by simp_all
qed

lemma runs_one_at_a_time_witness:
  "length (filter (\<lambda>r. bn_state r = Running)
     (rd_runs (rv_db (runner_history (\<lambda>_. Some example_settings) example_steps)))) \<le> 1"
  using runs_one_at_a_time[OF refl, of "\<lambda>_. Some example_settings" example_steps "Worker_tick 9 Committed Committed"] by blast

lemma rows_stored_once_witness:
  "filter (\<lambda>x. br_run_id x = uni ''a'') (rd_results (rv_db (runner_does (\<lambda>_. Some example_settings)
     (Run_ends 40 40 Committed Committed [Not_sent, Ack_lost, Committed] Completed None)
     (runner_history (\<lambda>_. Some example_settings) example_steps)))) = map (stored (uni ''a'')) [example_row 0, example_row 1]"
proof -
  obtain run w where s: "rv_worker (runner_history (\<lambda>_. Some example_settings) example_steps) = Executing run w"
    "rv_up (runner_history (\<lambda>_. Some example_settings) example_steps)" "wt_run_id w = uni ''a''"
    "lr_results run = [example_row 0, example_row 1]" by (rule example_state)
  have "distinct (map rw_request_index (lr_results run))" by (simp add: s(4) example_row_def)
  then show ?thesis using rows_stored_once[OF refl s(1,2) _ _ refl, of Completed 40 40 Committed "[Not_sent, Ack_lost, Committed]" None]
    by (simp only: s(3,4)) simp
qed

text \<open>The claim of run a takes effect but its answer is lost; run b waits behind it.\<close>

lemma queue_moves_on_witness:
  "\<exists>r\<in>set (rd_runs (rv_db (runner_does (\<lambda>_. Some example_settings) (Worker_tick 9 Committed Committed)
      (runner_does (\<lambda>_. Some example_settings) (Worker_tick 8 Committed Committed)
        (runner_history (\<lambda>_. Some example_settings)
          [Restart 0 Committed, Post_run 1 (uni ''a'') JNull Committed, Post_run 2 (uni ''b'') JNull Committed,
           Worker_tick 3 Ack_lost Committed]))))). bn_id r = uni ''b'' \<and> bn_state r \<noteq> Queued"
proof -
  let ?v = "runner_history (\<lambda>_. Some example_settings)
    [Restart 0 Committed, Post_run 1 (uni ''a'') JNull Committed, Post_run 2 (uni ''b'') JNull Committed,
     Worker_tick 3 Ack_lost Committed]"
  let ?q = "\<lparr>bn_id = uni ''b'', bn_state = Queued, bn_created_at = 2, bn_started_at = None, bn_finished_at = None,
    bn_error = None, bn_settings = JNull, bn_total_requests = 0, bn_completed = 0, bn_failed = 0\<rparr>"
  have "rv_up ?v" "rv_worker ?v = Idle" by (simp_all add: machine_defs uni_inj Let_def)
  moreover have "sort_key bn_created_at (filter (\<lambda>r. bn_state r = Queued) (rd_runs (rv_db ?v))) = [?q]"
    by (simp add: machine_defs uni_inj Let_def)
  ultimately show ?thesis using queue_moves_on[OF refl, of "\<lambda>_. Some example_settings" _ ?q "[]" 9 8] by simp
qed

text \<open>Where the rows in the table come from, and where run ids do.\<close>

lemma insert_results_set:
  "set (fold (\<lambda>r. insert_result (stored i r)) rows xs) \<subseteq> set xs \<union> stored i ` set rows"
proof (induction rows arbitrary: xs)
  case (Cons r rows)
  from Cons.IH[of "insert_result (stored i r) xs"] show ?case by (auto simp: insert_result_def)
qed simp

lemma called_results: "set (rd_results (f d)) \<subseteq> set (rd_results d) \<union> X \<Longrightarrow> set (rd_results (fst (called c f d))) \<subseteq> set (rd_results d) \<union> X"
  using called_cases[of c f d] by auto

lemma writer_results:
  "wt_run_id (fst (flush_locked clock c (w, d))) = wt_run_id w"
  "set (rd_results (snd (flush_locked clock c (w, d)))) \<subseteq> set (rd_results d) \<union> {x. br_run_id x = wt_run_id w}"
  "wt_run_id (fst (on_result clock c row (w, d))) = wt_run_id w"
  "set (rd_results (snd (on_result clock c row (w, d)))) \<subseteq> set (rd_results d) \<union> {x. br_run_id x = wt_run_id w}"
proof -
  have fl: "wt_run_id (fst (flush_locked clock c (w, d))) = wt_run_id w \<and>
      set (rd_results (snd (flush_locked clock c (w, d)))) \<subseteq> set (rd_results d) \<union> {x. br_run_id x = wt_run_id w}"
    for w :: run_writer
  proof (cases "add_results (wt_run_id w) (wt_pending w) d")
    case None
    then show ?thesis by (simp add: flush_locked_def Let_def)
  next
    case (Some e)
    then have "set (rd_results e) \<subseteq> set (rd_results d) \<union> {x. br_run_id x = wt_run_id w}"
      using insert_results_set[of "wt_run_id w" "wt_pending w" "rd_results d"]
      by (auto simp: add_results_def stored_def split: if_splits)
    then have "set (rd_results (fst (called c (\<lambda>_. e) d))) \<subseteq> set (rd_results d) \<union> {x. br_run_id x = wt_run_id w}"
      by (rule called_results)
    then show ?thesis using Some by (auto simp: flush_locked_def Let_def split: prod.splits)
  qed
  then show "wt_run_id (fst (flush_locked clock c (w, d))) = wt_run_id w"
    "set (rd_results (snd (flush_locked clock c (w, d)))) \<subseteq> set (rd_results d) \<union> {x. br_run_id x = wt_run_id w}"
    by blast+
  show "wt_run_id (fst (on_result clock c row (w, d))) = wt_run_id w"
    "set (rd_results (snd (on_result clock c row (w, d)))) \<subseteq> set (rd_results d) \<union> {x. br_run_id x = wt_run_id w}"
    using fl[of "w\<lparr>wt_pending := wt_pending w @ [row]\<rparr>"] by (auto simp: on_result_def Let_def)
qed

lemma rows_untouched [simp]:
  "rd_results (update_runs p f d) = rd_results d" "rd_results (set_finished now i st err d) = rd_results d"
  "rd_results (store_progress i a b k d) = rd_results d" "rd_results (fst (sweep_interrupted now d)) = rd_results d"
  "rd_results (fst (claim_next now d)) = rd_results d" "rd_results (fst (cancel_queued now i d)) = rd_results d"
  "rd_results (update_progress c i run d) = rd_results d"
  "rd_results (fst (set_finished_with_retry n now cs i st err d)) = rd_results d"
  "rd_results (fst (called c (set_error now i m) d)) = rd_results d"
  by (simp_all add: update_runs_def set_finished_def store_progress_def sweep_interrupted_def claim_next_def
      cancel_queued_def update_progress_def retry_result called_def set_error_def Let_def split: option.split call.split)

lemma step_results:
  "set (rd_results (rv_db (runner_does read_settings s v))) \<subseteq> set (rd_results (rv_db v)) \<union>
     (case rv_worker v of Idle \<Rightarrow> {} | Executing run w \<Rightarrow> {x. br_run_id x = wt_run_id w})"
proof (cases s)
  case (Worker_tick now c1 c2)
  have "rd_results (fst (tick read_settings now c1 c2 (rv_db v))) = rd_results (rv_db v)"
    using claim_next_def by (auto simp: tick_def called_def set_error_def Let_def split: prod.splits call.splits option.splits
        dest: arg_cong[where f = "rd_results \<circ> fst"])
  then show ?thesis by (auto simp: Worker_tick split: prod.splits)
next
  case (Request_done clock c1 c2 row)
  show ?thesis
  proof (cases "rv_worker v")
    case (Executing run w)
    then show ?thesis
      using writer_results(4)[of clock c1 row w "rv_db v"] by (auto simp: Request_done Let_def split: prod.splits)
  qed (simp add: Request_done)
next
  case (Run_ends now clock c1 c2 cs st err)
  show ?thesis
  proof (cases "rv_worker v")
    case (Executing run w)
    then show ?thesis
      using writer_results(2)[of clock c1 w "rv_db v"]
      by (auto simp: Run_ends finish_run_def Let_def split: prod.splits)
  qed (simp add: Run_ends)
qed (auto simp: called_def insert_queued_def delete_run_def delete_finished_def delete_runs_def Let_def
    split: call.splits worker_doing.splits option.splits prod.splits if_splits)

definition posted :: "runner_step \<Rightarrow> ustr set" where
  "posted s = (case s of Post_run now i settings c \<Rightarrow> {i} | _ \<Rightarrow> {})"

lemma same_rows_ids: "same_rows d e \<Longrightarrow> set (run_ids e) = set (run_ids d)"
  by (simp add: same_rows_def)

lemma step_ids:
  assumes v: "service_ok v"
  shows "set (run_ids (rv_db (runner_does read_settings s v))) \<subseteq> set (run_ids (rv_db v)) \<union> posted s"
proof -
  have ok: "run_db_ok (rv_db v)" using v by (simp add: service_ok_def)
  have gone: "set (run_ids (delete_runs p d)) \<subseteq> set (run_ids d)" for p d
    by (auto simp: run_ids_def delete_runs_def Let_def)
  have call: "set (run_ids (fst (called c f d))) \<subseteq> X" if "set (run_ids d) \<subseteq> X" "set (run_ids (f d)) \<subseteq> X" for c f d X
    using called_cases[of c f d] that by auto
  show ?thesis
  proof (cases s)
    case (Restart now c)
    have "set (run_ids (fst (sweep_interrupted now (rv_db v)))) = set (run_ids (rv_db v))"
      using sweep_keeps[OF ok, of now] same_rows_ids by blast
    then have "set (run_ids (fst (called c (fst \<circ> sweep_interrupted now) (rv_db v)))) \<subseteq> set (run_ids (rv_db v))"
      by (intro call) simp_all
    then show ?thesis by (auto simp: Restart split: prod.splits)
  next
    case (Post_run now i j c)
    then show ?thesis
      by (auto simp: insert_queued_def run_ids_def called_def posted_def split: call.splits)
  next
    case (Cancel_run now i c)
    have "set (run_ids (fst (cancel_queued now i (rv_db v)))) = set (run_ids (rv_db v))"
      using cancel_keeps[OF ok] same_rows_ids by blast
    then have "set (run_ids (fst (called c (fst \<circ> cancel_queued now i) (rv_db v)))) \<subseteq> set (run_ids (rv_db v))"
      by (intro call) simp_all
    then show ?thesis by (simp add: Cancel_run posted_def)
  next
    case (Delete_run i c)
    have "set (run_ids (fst (called c (fst \<circ> delete_run i) (rv_db v)))) \<subseteq> set (run_ids (rv_db v))"
      using gone by (intro call) (auto simp: delete_run_def Let_def)
    then show ?thesis by (simp add: Delete_run posted_def)
  next
    case (Delete_history c)
    have "set (run_ids (fst (called c (fst \<circ> delete_finished) (rv_db v)))) \<subseteq> set (run_ids (rv_db v))"
      using gone by (intro call) (auto simp: delete_finished_def Let_def)
    then show ?thesis by (simp add: Delete_history posted_def)
  next
    case (Worker_tick now c1 c2)
    obtain d doing where t: "tick read_settings now c1 c2 (rv_db v) = (d, doing)" by fastforce
    show ?thesis using same_rows_ids[OF tick_keeps(2)[OF ok t]] by (simp add: Worker_tick t)
  next
    case (Suite_selected n)
    then show ?thesis by (simp split: worker_doing.split)
  next
    case (Request_done clock c1 c2 row)
    show ?thesis
    proof (cases "rv_worker v")
      case (Executing run w)
      have r: "runs_now (rv_db v) (wt_run_id w)" using v Executing by (simp add: service_ok_def)
      obtain w' d where o: "on_result clock c1 row (w, rv_db v) = (w', d)" by fastforce
      note k = on_result_keeps[OF ok r o]
      have "same_rows (rv_db v) (update_progress c2 (wt_run_id w) (count_row row run) d)"
        using same_rows_trans[OF k(2) update_progress_keeps(2)[OF k(1,3)]] .
      then show ?thesis using same_rows_ids by (simp add: Request_done Executing o Let_def)
    qed (simp add: Request_done)
  next
    case (Run_ends now clock c1 c2 cs st err)
    show ?thesis
    proof (cases "rv_worker v")
      case (Executing run w)
      have r: "runs_now (rv_db v) (wt_run_id w)" using v Executing by (simp add: service_ok_def)
      show ?thesis using same_rows_ids[OF finish_run_keeps(2)[OF ok r _ refl]] by (simp add: Run_ends Executing)
    qed (simp add: Run_ends)
  qed
qed

text \<open>Once a run is final, or gone, a row that is not in the table does not come into it.\<close>

lemma lost_step:
  assumes ok: "service_ok v" and r: "terminal r" "r \<in> set (rd_runs (rv_db v)) \<or> bn_id r \<notin> set (run_ids (rv_db v))"
    and y: "y \<notin> set (rd_results (rv_db v))" "br_run_id y = bn_id r" and s: "bn_id r \<notin> posted s"
  shows "(r \<in> set (rd_runs (rv_db (runner_does read_settings s v))) \<or>
      bn_id r \<notin> set (run_ids (rv_db (runner_does read_settings s v)))) \<and>
    y \<notin> set (rd_results (rv_db (runner_does read_settings s v)))"
proof
  have kept: "final_kept (rv_db v) (rv_db (runner_does read_settings s v))" using runner_step_keeps[OF ok] by blast
  show "r \<in> set (rd_runs (rv_db (runner_does read_settings s v))) \<or>
      bn_id r \<notin> set (run_ids (rv_db (runner_does read_settings s v)))"
    using r kept step_ids[OF ok, of read_settings s] s unfolding final_kept_def by blast
  have "wt_run_id w \<noteq> bn_id r" if ex: "rv_worker v = Executing run w" for run w
  proof
    assume e: "wt_run_id w = bn_id r"
    obtain x where x: "x \<in> set (rd_runs (rv_db v))" "bn_id x = bn_id r" "bn_state x = Running"
      using ok ex e by (auto simp: service_ok_def runs_now_def)
    have "bn_id r \<in> set (run_ids (rv_db v))" using x(1) x(2)[symmetric] by (simp add: run_ids_def)
    then have "r \<in> set (rd_runs (rv_db v))" using r(2) by blast
    moreover have "distinct (run_ids (rv_db v))" using ok by (simp add: service_ok_def run_db_ok_def)
    ultimately have "x = r" using distinct_row[of "rv_db v" x r] x by blast
    then show False using x(3) r(1) by (simp add: terminal_iff)
  qed
  then show "y \<notin> set (rd_results (rv_db (runner_does read_settings s v)))"
    using step_results[of read_settings s v] y by (cases "rv_worker v") auto
qed

lemma lost_for_good:
  assumes "service_ok v" "terminal r" "r \<in> set (rd_runs (rv_db v)) \<or> bn_id r \<notin> set (run_ids (rv_db v))"
    "y \<notin> set (rd_results (rv_db v))" "br_run_id y = bn_id r" "\<forall>s\<in>set later. bn_id r \<notin> posted s"
  shows "(r \<in> set (rd_runs (rv_db (fold (runner_does read_settings) later v))) \<or>
      bn_id r \<notin> set (run_ids (rv_db (fold (runner_does read_settings) later v)))) \<and>
    y \<notin> set (rd_results (rv_db (fold (runner_does read_settings) later v)))"
  using assms
proof (induction later arbitrary: v)
  case (Cons s later)
  have "bn_id r \<notin> posted s" using Cons.prems(6) by simp
  note l = lost_step[OF Cons.prems(1-5) this, of read_settings]
  have "service_ok (runner_does read_settings s v)" using runner_step_keeps[OF Cons.prems(1)] by blast
  from Cons.IH[OF this Cons.prems(2) conjunct1[OF l] conjunct2[OF l] Cons.prems(5)] Cons.prems(6)
  show ?case by simp
qed simp

text \<open>C27: A run whose last flush fails loses its rows for good. After any history, let the worker execute a run
  one of whose rows is waiting to be written and not in the table. If the database misses the last flush and
  takes one of the attempts at the final state, the run is recorded as completed (or failed), with the count of
  all its rows if it also took the last progress. Whatever happens from then on, sweeps of later starts, which
  are said to reconcile this, included, that row of the run stays missing from its results and its row in the
  list of runs stays as it is, until it is deleted; only another run posted under the same id could bring it.\<close>

theorem completed_without_rows:
  assumes v: "v = runner_history read_settings steps" and ex: "rv_worker v = Executing run w" and up: "rv_up v"
    and x: "x \<in> set (wt_pending w)" "stored (wt_run_id w) x \<notin> set (rd_results (rv_db v))"
    and st: "st \<in> {Completed, Error}" and cs: "list_ex (\<lambda>c. c \<noteq> Not_sent) (take SET_FINISHED_MAX_ATTEMPTS cs)"
    and later: "\<forall>s\<in>set later. wt_run_id w \<notin> posted s"
  shows "let ended = runner_does read_settings (Run_ends now clock Not_sent progress cs st err) v;
             u = fold (runner_does read_settings) later ended in
    \<exists>r\<in>set (rd_runs (rv_db ended)). bn_id r = wt_run_id w \<and> bn_state r = st \<and>
      (progress \<noteq> Not_sent \<longrightarrow> bn_completed r = lr_completed run) \<and>
      (r \<in> set (rd_runs (rv_db u)) \<or> wt_run_id w \<notin> set (run_ids (rv_db u))) \<and>
      stored (wt_run_id w) x \<notin> set (get_results (wt_run_id w) (rv_db u))"
proof -
  define ended where "ended = runner_does read_settings (Run_ends now clock Not_sent progress cs st err) v"
  have ok: "service_ok v" unfolding v by (rule history_ok)
  have ok1: "service_ok ended" using runner_step_keeps[OF ok] unfolding ended_def by blast
  have e: "rv_db ended = set_finished now (wt_run_id w) st err (update_progress progress (wt_run_id w) run (rv_db v))"
    using ex up st cs x(1)
    by (auto simp: ended_def finish_run_def flush_locked_def called_def retry_result Let_def split: option.split)
  obtain r0 where r0: "r0 \<in> set (rd_runs (rv_db v))" "bn_id r0 = wt_run_id w"
    using ok ex by (auto simp: service_ok_def runs_now_def)
  define r1 where "r1 = (if progress = Not_sent then r0 else
      r0\<lparr>bn_total_requests := lr_total_requests run, bn_completed := lr_completed run, bn_failed := lr_failed run\<rparr>)"
  have r1: "r1 \<in> set (rd_runs (update_progress progress (wt_run_id w) run (rv_db v)))" "bn_id r1 = wt_run_id w"
    using r0 by (auto simp: r1_def update_progress_def store_progress_def called_def split: call.split
        intro!: image_eqI[of _ _ r0])
  define r where "r = r1\<lparr>bn_state := st, bn_error := err, bn_finished_at := Some now\<rparr>"
  have r: "r \<in> set (rd_runs (rv_db ended))" "bn_id r = wt_run_id w" "bn_state r = st" "terminal r"
    "progress \<noteq> Not_sent \<longrightarrow> bn_completed r = lr_completed run"
    using r1 st by (auto simp: e set_finished_def r_def r1_def terminal_iff intro!: image_eqI[of _ _ r1])
  have y: "stored (wt_run_id w) x \<notin> set (rd_results (rv_db ended))" using x(2) by (simp add: e)
  have "br_run_id (stored (wt_run_id w) x) = bn_id r" by (simp add: stored_def r(2))
  from lost_for_good[OF ok1 r(4) disjI1[OF r(1)] y this, of later read_settings] later
  show ?thesis
    unfolding ended_def[symmetric] Let_def using r by (auto simp: get_results_def)
qed

theorem completed_without_rows_witness:
  "\<exists>r\<in>set (rd_runs (rv_db (runner_does (\<lambda>_. Some example_settings)
      (Run_ends 40 40 Not_sent Committed [Committed] Completed None) (runner_history (\<lambda>_. Some example_settings) example_steps)))).
     bn_id r = uni ''a'' \<and> bn_state r = Completed \<and>
     stored (uni ''a'') (example_row 1) \<notin> set (get_results (uni ''a'') (rv_db
       (fold (runner_does (\<lambda>_. Some example_settings)) [Restart 50 Committed, Worker_tick 51 Committed Committed]
         (runner_does (\<lambda>_. Some example_settings) (Run_ends 40 40 Not_sent Committed [Committed] Completed None)
           (runner_history (\<lambda>_. Some example_settings) example_steps)))))"
proof -
  let ?v = "runner_history (\<lambda>_. Some example_settings) example_steps"
  let ?run = "new_run\<lparr>lr_completed := 2, lr_results := [example_row 0, example_row 1]\<rparr>"
  let ?w = "\<lparr>wt_run_id = uni ''a'', wt_pending = [example_row 0, example_row 1], wt_cooldown_until = Some 30\<rparr>"
  have v: "rv_worker ?v = Executing ?run ?w" "rv_up ?v"
    "stored (wt_run_id ?w) (example_row 1) \<notin> set (rd_results (rv_db ?v))"
    by (simp_all add: example_steps_def machine_defs example_settings_ok uni_inj Let_def eval_nat_numeral)
  have x: "example_row 1 \<in> set (wt_pending ?w)" by simp
  have c: "list_ex (\<lambda>c. c \<noteq> Not_sent) (take SET_FINISHED_MAX_ATTEMPTS [Committed])" "Completed \<in> {Completed, Error}"
    by (simp_all add: SET_FINISHED_MAX_ATTEMPTS_def)
  have l: "\<forall>s\<in>set [Restart 50 Committed, Worker_tick 51 Committed Committed]. wt_run_id ?w \<notin> posted s"
    by (simp add: posted_def)
  show ?thesis
    using completed_without_rows[OF refl v(1,2) x v(3) c(2,1) l, of 40 40 Committed None]
    by (simp only: Let_def run_writer.simps) blast
qed

text \<open>What a deletion request answers and does. For tables as they are after any history, an unknown run is a
  404 and the running run a 409, both without any effect; a queued run is cancelled and kept; a final one is
  deleted together with its results.\<close>

theorem deletion_answers:
  assumes v: "d = rv_db (runner_history read_settings steps)" and c: "cancel_or_delete_run now i (Some d) = (Some e, answer)"
  shows "case store_get_run i d of
      None \<Rightarrow> answer = Http 404 \<and> e = d
    | Some r \<Rightarrow>
        (case bn_state r of
           Queued \<Rightarrow> answer = Ok Was_cancelled \<and> rd_results e = rd_results d \<and>
             r\<lparr>bn_state := Cancelled, bn_finished_at := Some now\<rparr> \<in> set (rd_runs e)
         | Running \<Rightarrow> answer = Http 409 \<and> e = d
         | _ \<Rightarrow> answer = Ok Was_deleted \<and> i \<notin> set (run_ids e) \<and> results_of i e = [])"
proof -
  have ok: "run_db_ok d" using history_ok[of read_settings steps] v by (simp add: service_ok_def)
  have dist: "distinct (run_ids d)" using ok by (simp add: run_db_ok_def)
  have same: "update_runs p f d = d" if "\<And>r. r \<in> set (rd_runs d) \<Longrightarrow> \<not> p r" for p f
    using that by (simp add: update_runs_def map_idI)
  have none: "delete_runs p d = d" if "\<And>r. r \<in> set (rd_runs d) \<Longrightarrow> \<not> p r" for p
  proof -
    have "filter p (rd_runs d) = []" using that by (simp add: filter_empty_conv)
    moreover have "filter (\<lambda>r. \<not> p r) (rd_runs d) = rd_runs d" using that by (simp add: filter_id_conv)
    ultimately show ?thesis by (simp add: delete_runs_def)
  qed
  show ?thesis
  proof (cases "store_get_run i d")
    case None
    then have n: "bn_id r \<noteq> i" if "r \<in> set (rd_runs d)" for r using that by (auto simp: store_get_run_def find_None_iff)
    have "cancel_queued now i d = (d, False)" "delete_run i d = (d, False)"
      using n by (auto simp: cancel_queued_def delete_run_def Let_def list_ex_iff intro!: same none)
    then show ?thesis using c None by (simp add: cancel_or_delete_run_def require_store_def)
  next
    case (Some r)
    then have r: "r \<in> set (rd_runs d)" "bn_id r = i" by (auto simp: store_get_run_def find_Some_iff)
    have only: "x = r" if "x \<in> set (rd_runs d)" "bn_id x = i" for x using distinct_row[OF dist that(1) r(1)] that(2) r(2) by simp
    show ?thesis
    proof (cases "bn_state r = Queued")
      case True
      then have "cancel_queued now i d = (fst (cancel_queued now i d), True)"
        using r by (auto simp: cancel_queued_def Let_def list_ex_iff)
      then have e: "e = fst (cancel_queued now i d)" "answer = Ok Was_cancelled"
        using c by (auto simp: cancel_or_delete_run_def require_store_def Let_def split: prod.splits)
      have "r\<lparr>bn_state := Cancelled, bn_finished_at := Some now\<rparr> \<in> set (rd_runs e)"
        using r True by (auto simp: e(1) cancel_queued_def Let_def intro!: image_eqI[of _ _ r])
      then show ?thesis using Some True e by (simp add: cancel_queued_def Let_def)
    next
      case nq: False
      then have cq: "cancel_queued now i d = (d, False)"
        using only by (auto simp: cancel_queued_def Let_def list_ex_iff intro!: same)
      show ?thesis
      proof (cases "bn_state r = Running")
        case True
        then have "delete_run i d = (d, False)"
          using only by (auto simp: delete_run_def TERMINAL_STATES_def Let_def list_ex_iff intro!: none)
        then show ?thesis using c cq Some True by (simp add: cancel_or_delete_run_def require_store_def)
      next
        case False
        then have t: "bn_state r \<in> set TERMINAL_STATES" using nq terminal_iff[of r] by (simp add: terminal_def)
        let ?hit = "\<lambda>r. bn_id r = i \<and> bn_state r \<in> set TERMINAL_STATES"
        have "delete_run i d = (delete_runs ?hit d, True)"
          using r t by (auto simp: delete_run_def Let_def list_ex_iff)
        then have e: "e = delete_runs ?hit d" "answer = Ok Was_deleted"
          using c cq by (simp_all add: cancel_or_delete_run_def require_store_def)
        have "i \<notin> set (run_ids e)" using only t by (auto simp: e(1) delete_runs_def run_ids_def Let_def)
        moreover have "results_of i e = []"
          using r t by (auto simp: e(1) delete_runs_def results_of_def Let_def filter_empty_conv)
        ultimately show ?thesis using Some e(2) nq False by (cases "bn_state r") simp_all
      qed
    qed
  qed
qed

lemma deletion_answers_witness:
  "\<exists>e. cancel_or_delete_run 9 (uni ''a'') (Some (rv_db (runner_history (\<lambda>_. Some example_settings) []))) = (Some e, Http 404)"
proof -
  let ?d = "rv_db (runner_history (\<lambda>_. Some example_settings) [])"
  have "\<exists>e. fst (cancel_or_delete_run 9 (uni ''a'') (Some ?d)) = Some e"
    by (simp add: cancel_or_delete_run_def require_store_def)
  then obtain e answer where c: "cancel_or_delete_run 9 (uni ''a'') (Some ?d) = (Some e, answer)"
    by (metis prod.collapse)
  have "store_get_run (uni ''a'') ?d = None" by (simp add: store_get_run_def machine_defs)
  then show ?thesis using deletion_answers[OF refl c] c by simp
qed

end
