(* ===== verification/Spec2Isabelle.thy ===== *)
theory Spec2Isabelle
  imports Link Accounting_Proofs Checks_Proofs Capture_Proofs Reassembly_Proofs Http_Pairing
    Verifier_Proofs Mapper_Proofs Runner_Proofs Cluster_Proofs
    Tap_Proofs Sse_Proofs Emitter_Proofs Wire_Proofs Proxy_Proofs Delivery Ledger_Proofs
    Suite_Proofs Prompts_Proofs Run_Proofs
begin

text \<open>
  A verification library for the inference recomputation prototype.

  \<^bold>\<open>The program.\<close> A prover serves language model inference; a verifier wants to recompute what it
  served. The frame processor (\<^verbatim>\<open>src/frame-processor/app\<close>) sits on a network tap between them: one
  receiver process per tap interface drains a kernel packet ring (\<^verbatim>\<open>capture.py\<close>), an accountant
  (\<^verbatim>\<open>accounting.py\<close>, \<^verbatim>\<open>policy.py\<close>) classifies and checks every frame against the declared link, the
  TCP segments go to flow workers (\<^verbatim>\<open>live_pipeline.py\<close>) that reassemble the streams
  (\<^verbatim>\<open>reassembly.py\<close>), pair the HTTP requests and responses in them (\<^verbatim>\<open>http_stream.py\<close>) and turn each
  inference into a tap message and everything else into a finding (\<^verbatim>\<open>main.py\<close>, \<^verbatim>\<open>filter.py\<close>,
  \<^verbatim>\<open>extract.py\<close>, \<^verbatim>\<open>emitter.py\<close>); the parent merges the receivers' window reports into one ledger row per
  capture window (\<^verbatim>\<open>windows.py\<close>), which a reporter posts (\<^verbatim>\<open>ledger_reporter.py\<close>). A second tap, the
  proxy in the path (\<^verbatim>\<open>src/inf-proxy/app\<close>), pins the sampling parameters, relays the response and declares
  the model. The messages reach the message writer (\<^verbatim>\<open>src/message-writer/app\<close>), which stores them in the
  ledger (\<^verbatim>\<open>src/ledger\<close>) as inference events. For every model with unverified events the orchestrator
  (\<^verbatim>\<open>src/inf-ver-orchestrator/app\<close>) runs a pair of a vLLM and a runner (\<^verbatim>\<open>src/inf-ver-runner/app\<close>); the
  runner drains the model's queue: it replays the sampling of every token (\<^verbatim>\<open>verifier.py\<close> over
  \<^verbatim>\<open>src/difr/difr/gumbel_verify.py\<close>) and writes a verdict. The prompt runner
  (\<^verbatim>\<open>src/prompt-runner/app\<close>) makes the traffic of a measurement: it queues runs of a prompt suite in its
  own tables and sends the suite, split over the models, one run at a time.

  \<^bold>\<open>Theories and code.\<close>
  \<^item> \<open>Prelude\<close>: bytes, Python slices and \<open>struct\<close> reads, insertion-ordered dictionaries, commands over
    a state that may raise (\<open>cmd\<close>), and the generic lemmas on them.
  \<^item> \<open>Classify\<close>, \<open>Checks\<close>: \<open>classify\<close> of \<^verbatim>\<open>accounting.py\<close> with all its offsets; the internet checksum
    and the LLDP TLV walk.
  \<^item> \<open>Policy\<close>: \<^verbatim>\<open>policy.py\<close>, the declared pins, beats and the rules of the link.
  \<^item> \<open>Accountant\<close>: \<open>FrameAccountant\<close> of \<^verbatim>\<open>accounting.py\<close>, its pins, beats, structural checks, windows
    and books. \<open>Accountant_Steps\<close>, \<open>Accountant_Windows\<close> and \<open>Accountant_Run\<close> hold the lemmas on what
    a validation may touch, on the windows, and on a whole session; \<open>Silence\<close> says what the absence
    of a finding means.
  \<^item> \<open>Windows\<close>: \<^verbatim>\<open>windows.py\<close>, finding groups, \<open>WindowReport\<close> and \<open>WindowMerger\<close>; \<open>Merger\<close> its lemmas.
  \<^item> \<open>Reassembly\<close>: \<^verbatim>\<open>reassembly.py\<close>, \<open>DirectionStream\<close>, \<open>Connection\<close> and \<open>ConnectionTable\<close>, with sequence
    numbers modulo \<open>2 ^ 32\<close>.
  \<^item> \<open>Capture\<close>, \<open>Ring\<close>: \<^verbatim>\<open>capture.py\<close>, the raw decoder and the walk over the \<open>TPACKET_V3\<close> blocks.
  \<^item> \<open>Receiver\<close>, \<open>Pipeline\<close>: \<^verbatim>\<open>capture.py\<close>'s \<open>FrameObserver\<close> and \<^verbatim>\<open>live_pipeline.py\<close>, routing, a
    receiver's turn and shutdown, the collection of reports and the delivery of windows.
  \<^item> \<open>Loop\<close>, \<open>Http\<close>: loops that end when a turn says so, and \<open>ExchangeAssembler\<close> of \<^verbatim>\<open>http_stream.py\<close>;
    \<open>Http_Pairing\<close> holds the order of pairing and the bound on bytes that wait. \<open>Sse\<close>: the events of a
    streamed body and their merge into one response.
  \<^item> \<open>Traffic\<close>, \<open>Extract\<close>, \<open>Emitter\<close>: \<^verbatim>\<open>filter.py\<close>, \<^verbatim>\<open>extract.py\<close> with the \<^verbatim>\<open>capture.py\<close> of the proxy it
    loads, and \<open>build_tap_message\<close>, with what the writer's schema accepts of it.
  \<^item> \<open>Tap\<close>: \<open>SegmentProcessor\<close> and \<open>process_segments\<close> of \<^verbatim>\<open>main.py\<close>, and the flow worker of
    \<^verbatim>\<open>live_pipeline.py\<close>; an exception ends a run, after the outputs given so far.
  \<^item> \<open>Delivery\<close>: \<open>EmitterPool\<close> and \<open>LedgerReporter\<close>, threads as interleaved events; the locale \<open>delivery\<close>
    is the contract both keep.
  \<^item> \<open>Proxy\<close>: the proxy's payload, stream relay, tap message and declaration.
  \<^item> \<open>Ledger\<close>, \<open>Ledger_Events\<close>: the ledger's tables, constraints and requests, and the view of
    \<^verbatim>\<open>sql/004_capture_accounting.sql\<close>. \<open>Wire_Proofs\<close> goes from the wire to the verifier's request.
  \<^item> \<open>Json\<close>, \<open>Base64\<close>: Python's \<open>json\<close> and \<open>base64\<close>, as far as payloads use them.
  \<^item> \<open>Writer\<close>: the message writer. \<open>Mapper\<close>: \<^verbatim>\<open>mapper.py\<close> of the runner, both directions.
  \<^item> \<open>Gumbel\<close>, \<open>Verifier\<close>: \<^verbatim>\<open>gumbel_verify.py\<close> row by row, and \<^verbatim>\<open>verifier.py\<close>, from prechecks to verdict.
  \<^item> \<open>Runner\<close>: \<^verbatim>\<open>runner.py\<close>, the drain loop with retries and exit codes.
  \<^item> \<open>Naming\<close>, \<open>Templates\<close>, \<open>Reconciler\<close>, \<open>Cluster\<close>: the orchestrator's \<^verbatim>\<open>naming.py\<close> and \<^verbatim>\<open>ledger.py\<close>,
    \<^verbatim>\<open>templates.py\<close>, \<^verbatim>\<open>reconciler.py\<close>, and \<^verbatim>\<open>kube.py\<close> with \<^verbatim>\<open>main.py\<close>.
  \<^item> \<open>Suite\<close>, \<open>Prompts\<close>: \<^verbatim>\<open>core.py\<close> and \<^verbatim>\<open>allocation.py\<close> of the prompt runner, the presets and prompts,
    a request and its stream, the split over models, and \<open>execute_run\<close> of \<^verbatim>\<open>service.py\<close>, whose slices take
    turns in any order. \<open>Run_Store\<close>, \<open>Run_Queue\<close>: \<^verbatim>\<open>db.py\<close>, the endpoints, and the queue worker with its
    buffered writer, as steps between which requests, outages and restarts may come.
  \<^item> The theories named \<open>X_Proofs\<close> hold what component \<open>X\<close> promises; \<open>Link\<close> composes receivers and
    merger; \<open>Samples\<close> holds the concrete link the theorems are instantiated on.

  \<^bold>\<open>Correspondence.\<close> Each class is a record with the fields the code keeps, each method a function of
  the same name that takes the record and returns it updated. A method that can raise returns an
  option, \<^const>\<open>None\<close> for the exception; a log line has no counterpart. Python's unbounded integers
  are \<^typ>\<open>nat\<close> or \<^typ>\<open>int\<close>, its floats \<^typ>\<open>real\<close> (times are finite and exact; rounding is not
  modelled), a dict whose order shows is an association list updated in place.

  \<^bold>\<open>Parameters.\<close> Code that is not in the repository is an argument of the definitions: \<open>dpkt\<close>'s slow
  path (\<open>dissect\<close>), \<open>inet_ntop\<close> for IPv6, \<open>blake2b\<close>, the parser of a textual address and of a float, the
  HTTP framing of \<open>h11\<close>, vLLM's prompt logprobs, torch's noise, SHA-256, \<open>uuid5\<close> and fresh ids, the text of
  a float that JSON reads, the package promptbench, and the answers of the ledger to its clients, of Kubernetes and of clocks.
  The database is modelled by its constraints and by what the queries select; a request runs alone.

  \<^bold>\<open>What is shown.\<close> Frames are conserved end to end: what the rings showed is what the ledger's rows
  and the refused late reports carry (\<open>Link\<close>). The accountant never raises on any bytes, counts each
  frame once in its window, bounds its memory, and is silent on a TCP frame only if the frame obeys
  the declared link, as far as its header is there. Reassembly delivers a contiguous run of the stream
  whatever arrives, a prefix when the SYN comes first, and all of it when the segments are matching pieces
  of it; a retransmission cut at other points may be dropped. The ring walk stays inside the mapping. Rows come once per window, in order,
  and lose no finding. Requests become exchanges, each once and in order, and are paired in order with
  the responses, each with its own. Up to the first misshapen response every exchange is tapped, reported or
  allowed; a streamed generation without tool calls and a whole one, the tap on the wire and the proxy in the
  path, give the ledger the same message (of tool calls in a stream only the proxy tells), and its token ids
  reach the verifier as they were. A run of the tap returns and leaves nothing behind unless a response
  is misshapen, which stops its worker. Neither pool nor reporter loses a record uncounted, in any
  interleaving, and a window posted with retries is recorded at most once. A declaration changes what
  the ledger resolves from its start on and nothing before; an event that counts as completely captured
  was, as long as windows do not overlap; overlapping ones hide a gap. Token payloads come back from the ledger as they were tapped. An honest run passes
  verification with margin zero, a pass bounds the tokens that miss, and no verdict rests on an
  incomplete capture. The runner retries within its limit and drains its queue with one verdict for
  every event. A reconcile cycle is one step of each model's own state machine, which settles within
  four cycles; without a clash of slugs runners meet their own model only, with one they may meet the other's;
  the resource names are valid if the model's name has a letter or digit. A run of the prompt suite sends
  every request once and each model its share, its queue moves on after any outage, and its rows are stored
  once each, except when the last write of a run fails, which loses them.

  \<^bold>\<open>Bounds and fuel.\<close> Two loops have fuel. For \<open>_advance_to\<close> (\<open>ADVANCE_FUEL\<close>) a window that is opened for
  a time ends after it, so two turns are always enough; the lemma \<open>wpc_advance_loop\<close> proves that the
  fuel is never used up. The JSON reader has the length of its text as fuel, and \<open>loads_canonical\<close> proves
  it enough for every canonical text. The loops of \<open>Http\<close> and the paging of \<open>Naming\<close> are partial
  functions with their totality proved. All other loops are structural or have a measure.

  \<^bold>\<open>Not modelled.\<close> Sockets and kernel statistics, process supervision, configuration from the
  environment, JSON rendering of rows and log lines of the frame processor; HTTP routing; concurrent
  transactions of the ledger and its joined results view; the services beside it (analytics, enricher)
  whose logic is a database query or an HTTP call; the sweep options of the prompt runner, which its
  service never sets; the rounding of floats in the replay; the experiment drivers of \<^verbatim>\<open>difr\<close>; the user interface and the deployment files.
\<close>

end
